(* ===== verification/Prelude.thy ===== *)
theory Prelude
  imports Main "HOL-Library.Word" "HOL-Library.List_Lexorder"
begin

text \<open>
  Shared vocabulary of the development: the machine integer types of the Rust
  sources, the standard-library operations the components use (checked and
  saturating arithmetic, little-endian byte conversion, UTF-8 validation,
  \<open>BTreeMap\<close>), the ordered-map interface with its implementation by sorted
  association lists, and the lemma collections that carry the component proofs.
\<close>

unbundle bit_operations_syntax

section \<open>Types\<close>

type_synonym u8 = "8 word"
type_synonym u16 = "16 word"
type_synonym u32 = "32 word"
type_synonym u64 = "64 word"
type_synonym u128 = "128 word"

text \<open>A Rust byte string, and a Rust \<open>str\<close> as the bytes of its UTF-8 encoding.\<close>

type_synonym bytes = "u8 list"
type_synonym str = "u8 list"

text \<open>\<open>Result<'a, 'e>\<close>: \<open>Inl\<close> is the error.\<close>

type_synonym ('e, 'a) result = "'e + 'a"

named_theorems to_nat \<open>word order and arithmetic read as natural numbers\<close>

lemmas word_order_nat [to_nat] = word_le_nat_alt word_less_nat_alt word_unat_eq_iff

section \<open>Results\<close>

fun map_err :: "('e \<Rightarrow> 'f) \<Rightarrow> ('e, 'a) result \<Rightarrow> ('f, 'a) result" where
  "map_err f (Inl e) = Inl (f e)"
| "map_err f (Inr a) = Inr a"

fun is_ok :: "('e, 'a) result \<Rightarrow> bool" where
  "is_ok (Inl _) = False"
| "is_ok (Inr _) = True"

text \<open>\<open>Result::and_then\<close>, the reading of the question-mark operator.\<close>

fun and_then :: "('e, 'a) result \<Rightarrow> ('a \<Rightarrow> ('e, 'b) result) \<Rightarrow> ('e, 'b) result" where
  "and_then (Inl e) f = Inl e"
| "and_then (Inr a) f = f a"

lemma and_then_Inr_iff: "and_then r f = Inr b \<longleftrightarrow> (\<exists>a. r = Inr a \<and> f a = Inr b)"
  by (cases r) auto

lemma and_then_Inl_iff: "and_then r f = Inl e \<longleftrightarrow> r = Inl e \<or> (\<exists>a. r = Inr a \<and> f a = Inl e)"
  by (cases r) auto

lemma is_ok_iff: "is_ok r \<longleftrightarrow> (\<exists>a. r = Inr a)"
  by (cases r) auto

lemma map_err_Inr_iff [simp]: "map_err f r = Inr a \<longleftrightarrow> r = Inr a"
  by (cases r) auto

section \<open>Checked and saturating arithmetic\<close>

text \<open>Unsigned overflow shows as a sum below its operand.\<close>

definition checked_add :: "'a::len word \<Rightarrow> 'a word \<Rightarrow> 'a word option" where
  "checked_add a b = (if a \<le> a + b then Some (a + b) else None)"

definition saturating_add :: "'a::len word \<Rightarrow> 'a word \<Rightarrow> 'a word" where
  "saturating_add a b = (if a \<le> a + b then a + b else - 1)"

definition saturating_sub :: "'a::len word \<Rightarrow> 'a word \<Rightarrow> 'a word" where
  "saturating_sub a b = (if b \<le> a then a - b else 0)"

lemma unat_add_no_wrap:
  fixes a b :: "'a::len word"
  assumes "unat a + unat b < 2 ^ LENGTH('a)"
  shows "unat (a + b) = unat a + unat b"
  using assms by (simp add: unat_word_ariths)

lemma checked_add_SomeD:
  fixes a b c :: "'a::len word"
  shows "checked_add a b = Some c \<Longrightarrow> c = a + b \<and> unat c = unat a + unat b"
  by (auto simp: checked_add_def no_olen_add_nat unat_add_no_wrap split: if_splits)

lemma checked_add_None_iff:
  fixes a b :: "'a::len word"
  shows "checked_add a b = None \<longleftrightarrow> 2 ^ LENGTH('a) \<le> unat a + unat b"
  by (auto simp: checked_add_def no_olen_add_nat)

lemma unat_minus_one_max: "unat (- 1 :: 'a::len word) = 2 ^ LENGTH('a) - 1"
  by (simp add: unsigned_minus_1_eq_mask mask_eq_exp_minus_1)

lemma unat_saturating_add [to_nat]:
  fixes a b :: "'a::len word"
  shows "unat (saturating_add a b) = min (unat a + unat b) (2 ^ LENGTH('a) - 1)"
  by (auto simp: saturating_add_def no_olen_add_nat unat_add_no_wrap unat_minus_one_max)

lemma unat_saturating_sub [to_nat]:
  fixes a b :: "'a::len word"
  shows "unat (saturating_sub a b) = unat a - unat b"
  by (auto simp: saturating_sub_def unat_sub word_le_nat_alt)

lemma unat_max [to_nat]:
  fixes a b :: "'a::len word"
  shows "unat (max a b) = max (unat a) (unat b)"
  by (simp add: max_def word_le_nat_alt)

lemma unat_min [to_nat]:
  fixes a b :: "'a::len word"
  shows "unat (min a b) = min (unat a) (unat b)"
  by (simp add: min_def word_le_nat_alt)

lemma unat_u8_bound: "unat (w :: u8) < 256"
  using unsigned_less [of w] by simp

lemma unat_u16_bound: "unat (w :: u16) < 65536"
  using unsigned_less [of w] by simp

lemma unat_u32_bound: "unat (w :: u32) < 4294967296"
  using unsigned_less [of w] by simp

lemma unat_u64_bound: "unat (w :: u64) < 18446744073709551616"
  using unsigned_less [of w] by simp

text \<open>\<open>u64::from(u32)\<close> and \<open>u128::from(u64)\<close> keep the value.\<close>

lemma unat_u32_as_u64 [simp, to_nat]: "unat (ucast (c :: u32) :: u64) = unat c"
  using unat_u32_bound [of c] by (simp add: unsigned_ucast_eq take_bit_nat_eq_self_iff)

lemma unat_u64_as_u128 [simp, to_nat]: "unat (ucast (c :: u64) :: u128) = unat c"
  using unat_u64_bound [of c] by (simp add: unsigned_ucast_eq take_bit_nat_eq_self_iff)

section \<open>Little-endian bytes\<close>

text \<open>
  \<open>to_le n v\<close> is \<open>v.to_le_bytes()\<close> of an \<open>n\<close>-byte unsigned integer, \<open>from_le\<close> the
  value \<open>from_le_bytes\<close> reads.
\<close>

fun to_le :: "nat \<Rightarrow> nat \<Rightarrow> bytes" where
  "to_le 0 v = []"
| "to_le (Suc n) v = of_nat v # to_le n (v div 256)"

fun from_le :: "bytes \<Rightarrow> nat" where
  "from_le [] = 0"
| "from_le (b # bs) = unat b + 256 * from_le bs"

lemma length_to_le [simp]: "length (to_le n v) = n"
  by (induction n arbitrary: v) auto

lemma from_le_to_le: "from_le (to_le n v) = v mod 256 ^ n"
proof (induction n arbitrary: v)
  case (Suc n)
  have "unat (of_nat v :: u8) = v mod 256" by (simp add: unat_of_nat)
  with Suc show ?case by (simp add: mod_mult2_eq)
qed simp

lemma from_le_less: "from_le bs < 256 ^ length bs"
proof (induction bs)
  case (Cons b bs)
  then have "from_le bs + 1 \<le> 256 ^ length bs" by simp
  then have "256 * (from_le bs + 1) \<le> 256 * 256 ^ length bs" by (rule mult_le_mono2)
  with unat_u8_bound [of b] show ?case by simp
qed simp

lemma to_le_from_le: "length bs = n \<Longrightarrow> to_le n (from_le bs) = bs"
proof (induction bs arbitrary: n)
  case (Cons b bs)
  have "of_nat (unat b + 256 * from_le bs) = (b :: u8)"
    using unat_u8_bound [of b] by (simp add: word_unat_eq_iff unat_of_nat unat_word_ariths)
  moreover have "(unat b + 256 * from_le bs) div 256 = from_le bs"
    using unat_u8_bound [of b] by simp
  ultimately show ?case using Cons by auto
qed simp

definition le64 :: "u64 \<Rightarrow> bytes" where "le64 v = to_le 8 (unat v)"
definition le32 :: "u32 \<Rightarrow> bytes" where "le32 v = to_le 4 (unat v)"
definition le16 :: "u16 \<Rightarrow> bytes" where "le16 v = to_le 2 (unat v)"

definition un64 :: "bytes \<Rightarrow> u64" where "un64 bs = of_nat (from_le bs)"
definition un32 :: "bytes \<Rightarrow> u32" where "un32 bs = of_nat (from_le bs)"
definition un16 :: "bytes \<Rightarrow> u16" where "un16 bs = of_nat (from_le bs)"

lemma length_le [simp]: "length (le64 v) = 8" "length (le32 w) = 4" "length (le16 x) = 2"
  by (simp_all add: le64_def le32_def le16_def)

lemma un_le [simp]: "un64 (le64 v) = v" "un32 (le32 w) = w" "un16 (le16 x) = x"
  using unat_u64_bound [of v] unat_u32_bound [of w] unat_u16_bound [of x]
  by (simp_all add: un64_def un32_def un16_def le64_def le32_def le16_def from_le_to_le)

lemma le_un64: "length bs = 8 \<Longrightarrow> le64 (un64 bs) = bs"
  using from_le_less [of bs] to_le_from_le [of bs 8]
  by (simp add: un64_def le64_def unat_of_nat)

lemma le_un32: "length bs = 4 \<Longrightarrow> le32 (un32 bs) = bs"
  using from_le_less [of bs] to_le_from_le [of bs 4]
  by (simp add: un32_def le32_def unat_of_nat)

lemma le_un16: "length bs = 2 \<Longrightarrow> le16 (un16 bs) = bs"
  using from_le_less [of bs] to_le_from_le [of bs 2]
  by (simp add: un16_def le16_def unat_of_nat)

section \<open>UTF-8\<close>

text \<open>
  \<open>std::str::from_utf8\<close> succeeds: the well-formed sequences of the Unicode standard
  (no overlong form, no surrogate, nothing above \<open>U+10FFFF\<close>).
\<close>

definition utf8_cont :: "u8 \<Rightarrow> bool" where "utf8_cont b \<longleftrightarrow> 128 \<le> b \<and> b \<le> 191"

text \<open>The range of the second byte of a three- and four-byte sequence.\<close>

definition utf8_second :: "u8 \<Rightarrow> u8 \<Rightarrow> bool" where
  "utf8_second b c \<longleftrightarrow>
     (if b = 224 then 160 \<le> c \<and> c \<le> 191
      else if b = 237 then 128 \<le> c \<and> c \<le> 159
      else if b = 240 then 144 \<le> c \<and> c \<le> 191
      else if b = 244 then 128 \<le> c \<and> c \<le> 143
      else utf8_cont c)"

fun utf8_valid :: "bytes \<Rightarrow> bool" where
  "utf8_valid [] = True"
| "utf8_valid (b # bs) =
     (if b < 128 then utf8_valid bs
      else if 194 \<le> b \<and> b \<le> 223 then
        (case bs of c # r \<Rightarrow> utf8_cont c \<and> utf8_valid r | [] \<Rightarrow> False)
      else if 224 \<le> b \<and> b \<le> 239 then
        (case bs of c # d # r \<Rightarrow> utf8_second b c \<and> utf8_cont d \<and> utf8_valid r | _ \<Rightarrow> False)
      else if 240 \<le> b \<and> b \<le> 244 then
        (case bs of c # d # e # r \<Rightarrow>
           utf8_second b c \<and> utf8_cont d \<and> utf8_cont e \<and> utf8_valid r | _ \<Rightarrow> False)
      else False)"

section \<open>Slices\<close>

text \<open>\<open>&bs[i..j]\<close>; the callers check the bounds first, as the sources do.\<close>

definition slice :: "nat \<Rightarrow> nat \<Rightarrow> 'a list \<Rightarrow> 'a list" where
  "slice i j xs = take (j - i) (drop i xs)"

lemma length_slice [simp]: "j \<le> length xs \<Longrightarrow> length (slice i j xs) = j - i"
  by (simp add: slice_def)

lemma slice_append_right: "i = length xs \<Longrightarrow> j = i + n \<Longrightarrow> slice i j (xs @ ys) = take n ys"
  by (simp add: slice_def)

lemma slice_append_exact:
  "i = length xs \<Longrightarrow> j = i + length ys \<Longrightarrow> slice i j (xs @ ys @ zs) = ys"
  by (simp add: slice_def)

lemma slice_split: "i \<le> j \<Longrightarrow> drop i xs = slice i j xs @ drop j xs"
  using append_take_drop_id [of "j - i" "drop i xs"] by (simp add: slice_def)

lemma slice_join: "i \<le> j \<Longrightarrow> j \<le> k \<Longrightarrow> slice i j xs @ slice j k xs = slice i k xs"
proof -
  assume a: "i \<le> j" "j \<le> k"
  then have "drop j xs = drop (j - i) (drop i xs)" "k - i = (j - i) + (k - j)" by simp_all
  then show ?thesis by (simp only: slice_def take_add)
qed

lemma slice_all [simp]: "slice 0 (length xs) xs = xs"
  by (simp add: slice_def)

lemma slice_Suc: "i < length xs \<Longrightarrow> slice i (Suc i) xs = [xs ! i]"
  by (simp add: slice_def take_Suc_conv_app_nth flip: Cons_nth_drop_Suc)

lemma find_SomeD: "find P xs = Some x \<Longrightarrow> x \<in> set xs \<and> P x"
  by (auto simp: find_Some_iff)

lemma find_None_list_all: "find P xs = None \<longleftrightarrow> list_all (\<lambda>x. \<not> P x) xs"
  by (auto simp: find_None_iff list_all_iff)

lemma upt_join: "i \<le> j \<Longrightarrow> j \<le> k \<Longrightarrow> [i ..< j] @ [j ..< k] = [i ..< k]"
  by (metis le_Suc_ex upt_add_eq_append)

section \<open>Ordered maps\<close>

text \<open>
  The interface of \<open>std::collections::BTreeMap\<close> the sources use: lookup, insert,
  remove, \<open>retain\<close>, in-place update through \<open>get_mut\<close> and iteration in ascending key
  order.
\<close>

locale ordered_map =
  fixes entries :: "'m \<Rightarrow> ('k::linorder \<times> 'v) list"
    and empty :: 'm
    and get :: "'m \<Rightarrow> 'k \<Rightarrow> 'v option"
    and insert :: "'k \<Rightarrow> 'v \<Rightarrow> 'm \<Rightarrow> 'm"
    and remove :: "'k \<Rightarrow> 'm \<Rightarrow> 'm"
    and retain :: "('k \<Rightarrow> 'v \<Rightarrow> bool) \<Rightarrow> 'm \<Rightarrow> 'm"
    and update :: "'k \<Rightarrow> ('v \<Rightarrow> 'v) \<Rightarrow> 'm \<Rightarrow> 'm"
    and wf :: "'m \<Rightarrow> bool"
  assumes wf_entries: "wf m \<Longrightarrow> sorted_wrt (<) (map fst (entries m))"
    and get_entries: "get m = map_of (entries m)"
    and entries_empty: "entries empty = []"
    and wf_empty: "wf empty"
    and wf_insert: "wf m \<Longrightarrow> wf (insert k v m)"
    and wf_remove: "wf m \<Longrightarrow> wf (remove k m)"
    and wf_retain: "wf m \<Longrightarrow> wf (retain P m)"
    and wf_update: "wf m \<Longrightarrow> wf (update k f m)"
    and get_insert: "get (insert k v m) = (get m)(k \<mapsto> v)"
    and get_remove: "get (remove k m) = (get m)(k := None)"
    and get_retain: "wf m \<Longrightarrow> get (retain P m) k =
          (case get m k of None \<Rightarrow> None | Some v \<Rightarrow> if P k v then Some v else None)"
    and get_update: "get (update k f m) = (get m)(k := map_option f (get m k))"
begin

lemma distinct_keys: "wf m \<Longrightarrow> distinct (map fst (entries m))"
  using wf_entries strict_sorted_iff by blast

lemma get_Some_iff: "wf m \<Longrightarrow> get m k = Some v \<longleftrightarrow> (k, v) \<in> set (entries m)"
  by (simp add: get_entries distinct_keys)

lemma get_empty: "get empty = (\<lambda>_. None)"
  by (simp add: get_entries entries_empty)

lemma entries_unique:
  assumes "wf m" "wf m'" "get m = get m'"
  shows "entries m = entries m'"
proof -
  have s: "sorted (map fst (entries m))" "sorted (map fst (entries m'))"
      "distinct (map fst (entries m))" "distinct (map fst (entries m'))"
    using assms wf_entries strict_sorted_iff by blast+
  have "set (entries m) = set (entries m')"
    using assms get_Some_iff by (metis subrelI subset_antisym)
  with s show ?thesis
    by (intro map_sorted_distinct_set_unique [of fst]) (simp_all add: distinct_map)
qed

end

text \<open>The model of \<open>BTreeMap\<close>: an association list kept sorted by key.\<close>

type_synonym ('k, 'v) btree_map = "('k \<times> 'v) list"

definition bt_wf :: "('k::linorder, 'v) btree_map \<Rightarrow> bool" where
  "bt_wf m \<longleftrightarrow> sorted_wrt (<) (map fst m)"

definition bt_get :: "('k, 'v) btree_map \<Rightarrow> 'k \<Rightarrow> 'v option" where
  "bt_get m k = map_of m k"

fun bt_insert :: "'k::linorder \<Rightarrow> 'v \<Rightarrow> ('k, 'v) btree_map \<Rightarrow> ('k, 'v) btree_map" where
  "bt_insert k v [] = [(k, v)]"
| "bt_insert k v (e # m) =
     (if fst e < k then e # bt_insert k v m
      else if fst e = k then (k, v) # m
      else (k, v) # e # m)"

definition bt_remove :: "'k \<Rightarrow> ('k, 'v) btree_map \<Rightarrow> ('k, 'v) btree_map" where
  "bt_remove k m = filter (\<lambda>e. fst e \<noteq> k) m"

definition bt_retain :: "('k \<Rightarrow> 'v \<Rightarrow> bool) \<Rightarrow> ('k, 'v) btree_map \<Rightarrow> ('k, 'v) btree_map" where
  "bt_retain P m = filter (\<lambda>e. P (fst e) (snd e)) m"

definition bt_update :: "'k \<Rightarrow> ('v \<Rightarrow> 'v) \<Rightarrow> ('k, 'v) btree_map \<Rightarrow> ('k, 'v) btree_map" where
  "bt_update k f m = map (\<lambda>e. if fst e = k then (fst e, f (snd e)) else e) m"

definition bt_collect :: "('k::linorder \<times> 'v) list \<Rightarrow> ('k, 'v) btree_map" where
  "bt_collect es = fold (\<lambda>e m. bt_insert (fst e) (snd e) m) es []"

lemma map_of_bt_insert: "map_of (bt_insert k v m) = (map_of m)(k \<mapsto> v)"
  by (induction m) (auto simp: fun_eq_iff)

lemma keys_bt_insert: "fst ` set (bt_insert k v m) = Set.insert k (fst ` set m)"
  by (induction m) auto

lemma sorted_bt_insert: "sorted_wrt (<) (map fst m) \<Longrightarrow> sorted_wrt (<) (map fst (bt_insert k v m))"
proof (induction m)
  case (Cons e m)
  have "\<forall>x \<in> set (bt_insert k v m). fst e < fst x" if "fst e < k"
  proof
    fix x assume "x \<in> set (bt_insert k v m)"
    then have "fst x \<in> Set.insert k (fst ` set m)" by (simp flip: keys_bt_insert [of k v])
    with that Cons.prems show "fst e < fst x" by auto
  qed
  with Cons show ?case by auto
qed simp

lemma map_of_filter_wf:
  "sorted_wrt (<) (map fst m) \<Longrightarrow> map_of (filter (\<lambda>e. P (fst e) (snd e)) m) (k :: 'k::linorder) =
     (case map_of m k of None \<Rightarrow> None | Some v \<Rightarrow> if P k v then Some v else None)"
proof (induction m)
  case (Cons e m)
  have "map_of m k = None" if "fst e = k"
    using Cons.prems that by (auto simp: map_of_eq_None_iff)
  with Cons show ?case by (auto split: option.splits)
qed simp

lemma map_of_bt_remove: "map_of (filter (\<lambda>e. fst e \<noteq> k) m) = (map_of m)(k := None)"
  by (induction m) (auto simp: fun_eq_iff)

lemma map_of_bt_update:
  "map_of (map (\<lambda>e. if fst e = k then (fst e, f (snd e)) else e) m)
     = (map_of m)(k := map_option f (map_of m k))"
  by (induction m) (auto simp: fun_eq_iff)

lemma keys_bt_update:
  "map (fst \<circ> (\<lambda>e. if fst e = k then (fst e, f (snd e)) else e)) m = map fst m"
  by (induction m) auto

lemma sorted_wrt_map_filter: "sorted_wrt R (map f xs) \<Longrightarrow> sorted_wrt R (map f (filter P xs))"
  by (induction xs) auto

interpretation bt: ordered_map "\<lambda>m. m" "[]" bt_get bt_insert bt_remove bt_retain bt_update bt_wf
proof (unfold_locales, goal_cases)
  case (11 m P k)
  then show ?case by (simp add: bt_get_def bt_retain_def bt_wf_def map_of_filter_wf)
qed (auto simp: bt_wf_def bt_get_def fun_eq_iff bt_remove_def bt_retain_def bt_update_def
      map_of_bt_insert sorted_bt_insert map_of_bt_remove sorted_wrt_map_filter
      keys_bt_update map_of_bt_update)

lemmas bt_simps = bt.get_insert bt.get_remove bt.get_retain bt.get_update
lemmas bt_wf_intros [intro] = bt.wf_insert bt.wf_remove bt.wf_retain bt.wf_update

lemma bt_wf_Nil [simp]: "bt_wf []" by (rule bt.wf_empty)

lemma bt_get_Nil [simp]: "bt_get [] k = None" by (simp add: bt_get_def)

lemma bt_wf_collect [simp]: "bt_wf (bt_collect es)"
proof -
  have "bt_wf m \<Longrightarrow> bt_wf (fold (\<lambda>e m. bt_insert (fst e) (snd e) m) es m)" for m
    by (induction es arbitrary: m) auto
  then show ?thesis by (simp add: bt_collect_def)
qed

lemma bt_get_fold_insert:
  assumes "distinct (map fst es)"
  shows "bt_get (fold (\<lambda>e a. bt_insert (fst e) (snd e) a) es m) k
     = (case map_of es k of None \<Rightarrow> bt_get m k | Some v \<Rightarrow> Some v)"
  using assms
proof (induction es arbitrary: m)
  case (Cons e es)
  then have "fst e \<notin> dom (map_of es)" by (auto simp: dom_map_of_conv_image_fst)
  with Cons show ?case by (auto simp: bt_simps split: option.splits)
qed simp

lemma bt_wf_fold_insert: "bt_wf m \<Longrightarrow> bt_wf (fold (\<lambda>e a. bt_insert (fst e) (snd e) a) es m)"
  by (induction es arbitrary: m) auto

lemma length_bt_insert:
  "bt_wf m \<Longrightarrow> length (bt_insert k v m) = (if bt_get m k = None then Suc (length m) else length m)"
proof (induction m)
  case (Cons e m)
  have "map_of m k = None" if "\<not> fst e < k" "fst e \<noteq> k"
    using Cons.prems that by (auto simp: bt_wf_def map_of_eq_None_iff)
  with Cons show ?case by (auto simp: bt_wf_def bt_get_def)
qed (simp add: bt_get_def)

lemma bt_get_eq_None_iff: "bt_get m k = None \<longleftrightarrow> k \<notin> fst ` set m"
  by (simp add: bt_get_def map_of_eq_None_iff)

section \<open>Iterator minimum and maximum\<close>

definition iter_min :: "'a::linorder list \<Rightarrow> 'a option" where
  "iter_min xs = (case xs of [] \<Rightarrow> None | y # ys \<Rightarrow> Some (fold min ys y))"

definition iter_max :: "'a::linorder list \<Rightarrow> 'a option" where
  "iter_max xs = (case xs of [] \<Rightarrow> None | y # ys \<Rightarrow> Some (fold max ys y))"

lemma iter_min_Some: "xs \<noteq> [] \<Longrightarrow> iter_min xs = Some (Min (set xs))"
  by (cases xs) (auto simp: iter_min_def simp flip: Min.set_eq_fold)

lemma iter_max_Some: "xs \<noteq> [] \<Longrightarrow> iter_max xs = Some (Max (set xs))"
  by (cases xs) (auto simp: iter_max_def simp flip: Max.set_eq_fold)

lemma iter_min_eq_Some_iff:
  "iter_min xs = Some m \<longleftrightarrow> m \<in> set xs \<and> (\<forall>x \<in> set xs. m \<le> x)"
proof (cases "xs = []")
  case True
  then show ?thesis by (simp add: iter_min_def)
next
  case False
  then have "Min (set xs) = m \<longleftrightarrow> m \<in> set xs \<and> (\<forall>x \<in> set xs. m \<le> x)"
    by (intro Min_eq_iff) auto
  with False show ?thesis by (simp add: iter_min_Some)
qed

lemma iter_min_None_iff [simp]: "iter_min xs = None \<longleftrightarrow> xs = []"
  by (cases xs) (auto simp: iter_min_def)

end
