(* ===== verification/Codec.thy ===== *)
theory Codec
  imports Prelude
begin

text \<open>
  The version-prefixed codec (\<open>tsoracle-codec\<close>): a leading version byte in front of a
  postcard body, single-version and multi-version readers, and the mapping to
  \<open>io::Error\<close>. The \<open>postcard\<close> package is not part of the repository: a \<open>postcard\<close> value
  holds its two functions for one type, and \<open>postcard_ok\<close> is what the code relies on, that
  \<open>take_from_bytes\<close> reads back what \<open>to_stdvec\<close> wrote and leaves the bytes behind it.
\<close>

section \<open>Errors\<close>

text \<open>The \<open>postcard::Error\<close> inside \<open>Encode\<close> and \<open>Decode\<close> is not kept.\<close>

datatype codec_error =
    CodecEmpty
  | CodecVersion u8 u8
  | CodecEncode
  | CodecDecode
  | TrailingBytes nat
  | VersionUnsupported u8 u8 u8
  | NotRepresentable u8

datatype io_error_kind = IoInvalidData | IoOther

record io_error =
  io_kind :: io_error_kind
  io_context :: string
  io_cause :: "codec_error option"

fun codec_io_error :: "string \<Rightarrow> codec_error \<Rightarrow> io_error" where
  "codec_io_error ctx (CodecVersion e a) = \<lparr>io_kind = IoInvalidData, io_context = ctx, io_cause = Some (CodecVersion e a)\<rparr>"
| "codec_io_error ctx (VersionUnsupported lo hi a) =
     \<lparr>io_kind = IoInvalidData, io_context = ctx, io_cause = Some (VersionUnsupported lo hi a)\<rparr>"
| "codec_io_error ctx other = \<lparr>io_kind = IoOther, io_context = ctx, io_cause = Some other\<rparr>"

section \<open>Bodies\<close>

record 'a postcard =
  to_stdvec :: "'a \<Rightarrow> bytes option"
  take_from_bytes :: "bytes \<Rightarrow> ('a \<times> bytes) option"

definition postcard_ok :: "'a postcard \<Rightarrow> bool" where
  "postcard_ok pc \<longleftrightarrow> (\<forall>v b rest. to_stdvec pc v = Some b \<longrightarrow> take_from_bytes pc (b @ rest) = Some (v, rest))"

definition encode_postcard :: "'a postcard \<Rightarrow> 'a \<Rightarrow> (codec_error, bytes) result" where
  "encode_postcard pc v = (case to_stdvec pc v of None \<Rightarrow> Inl CodecEncode | Some b \<Rightarrow> Inr b)"

definition decode_postcard_exact :: "'a postcard \<Rightarrow> bytes \<Rightarrow> (codec_error, 'a) result" where
  "decode_postcard_exact pc body =
     (case take_from_bytes pc body of
        None \<Rightarrow> Inl CodecDecode
      | Some (v, remainder) \<Rightarrow>
          if remainder \<noteq> [] then Inl (TrailingBytes (length remainder)) else Inr v)"

section \<open>One version\<close>

definition codec_encode :: "'a postcard \<Rightarrow> u8 \<Rightarrow> 'a \<Rightarrow> (codec_error, bytes) result" where
  "codec_encode pc version v =
     (case to_stdvec pc v of None \<Rightarrow> Inl CodecEncode | Some body \<Rightarrow> Inr (version # body))"

definition codec_decode :: "'a postcard \<Rightarrow> u8 \<Rightarrow> bytes \<Rightarrow> (codec_error, 'a) result" where
  "codec_decode pc expected_version bs =
     (case bs of
        [] \<Rightarrow> Inl CodecEmpty
      | first # rest \<Rightarrow>
          if first \<noteq> expected_version then Inl (CodecVersion expected_version first)
          else decode_postcard_exact pc rest)"

section \<open>Many versions\<close>

record 'a versioned_codec =
  decode_version :: "u8 \<Rightarrow> bytes \<Rightarrow> (codec_error, 'a) result"
  encode_version :: "'a \<Rightarrow> u8 \<Rightarrow> (codec_error, bytes) result"

definition encode_framed :: "'a versioned_codec \<Rightarrow> u8 \<Rightarrow> 'a \<Rightarrow> (codec_error, bytes) result" where
  "encode_framed vc version v =
     (case encode_version vc v version of Inl e \<Rightarrow> Inl e | Inr body \<Rightarrow> Inr (version # body))"

definition decode_framed :: "'a versioned_codec \<Rightarrow> u8 \<Rightarrow> u8 \<Rightarrow> bytes \<Rightarrow> (codec_error, 'a) result" where
  "decode_framed vc min_version max_version bs =
     (case bs of
        [] \<Rightarrow> Inl CodecEmpty
      | version # body \<Rightarrow>
          if version < min_version \<or> version > max_version
          then Inl (VersionUnsupported min_version max_version version)
          else decode_version vc version body)"

section \<open>Reading back\<close>

lemma postcard_exact:
  assumes "postcard_ok pc" "encode_postcard pc v = Inr b"
  shows "decode_postcard_exact pc b = Inr v"
proof -
  have "to_stdvec pc v = Some b" using assms(2) by (simp add: encode_postcard_def split: option.splits)
  with assms(1) have "take_from_bytes pc (b @ []) = Some (v, [])" unfolding postcard_ok_def by blast
  then show ?thesis by (simp add: decode_postcard_exact_def)
qed

lemma postcard_trailing:
  assumes "postcard_ok pc" "encode_postcard pc v = Inr b" "rest \<noteq> []"
  shows "decode_postcard_exact pc (b @ rest) = Inl (TrailingBytes (length rest))"
proof -
  have "to_stdvec pc v = Some b" using assms(2) by (simp add: encode_postcard_def split: option.splits)
  with assms(1) have "take_from_bytes pc (b @ rest) = Some (v, rest)" unfolding postcard_ok_def by blast
  with assms(3) show ?thesis by (simp add: decode_postcard_exact_def)
qed

lemma codec_decode_encode:
  assumes "postcard_ok pc" "codec_encode pc version v = Inr bs"
  shows "codec_decode pc version bs = Inr v"
proof -
  obtain body where "to_stdvec pc v = Some body" "bs = version # body"
    using assms(2) by (auto simp: codec_encode_def split: option.splits)
  with postcard_exact [OF assms(1), of v body] show ?thesis
    by (simp add: codec_decode_def encode_postcard_def)
qed

lemma codec_decode_foreign:
  "codec_encode pc version v = Inr bs \<Longrightarrow> version \<noteq> expected \<Longrightarrow> codec_decode pc expected bs = Inl (CodecVersion expected version)"
  by (auto simp: codec_encode_def codec_decode_def split: option.splits)

text \<open>
  The contract of a type with versioned layouts: a version that encodes a
  value is in the readable range, and a valid value is read back as what that version
  represents of it.
\<close>

locale versioned =
  fixes vc :: "'a versioned_codec"
    and lo hi :: u8
    and vok :: "'a \<Rightarrow> bool"
    and represents :: "u8 \<Rightarrow> 'a \<Rightarrow> 'a"
  assumes version_roundtrip: "vok v \<Longrightarrow> encode_version vc v n = Inr body \<Longrightarrow> decode_version vc n body = Inr (represents n v)"
    and version_readable: "encode_version vc v n = Inr body \<Longrightarrow> lo \<le> n \<and> n \<le> hi"
begin

lemma framed_roundtrip:
  "vok v \<Longrightarrow> encode_framed vc n v = Inr bs \<Longrightarrow> decode_framed vc lo hi bs = Inr (represents n v)"
  using version_roundtrip version_readable
  by (fastforce simp: encode_framed_def decode_framed_def not_less split: sum.splits)

end

lemma encode_framed_Inr_iff:
  "encode_framed vc n v = Inr bs \<longleftrightarrow> (\<exists>body. encode_version vc v n = Inr body \<and> bs = n # body)"
  by (auto simp: encode_framed_def split: sum.splits)

lemma decode_framed_Inr_iff:
  "decode_framed vc lo hi bs = Inr v
     \<longleftrightarrow> (\<exists>n body. bs = n # body \<and> lo \<le> n \<and> n \<le> hi \<and> decode_version vc n body = Inr v)"
  by (auto simp: decode_framed_def not_less split: list.splits)

end
