(* ===== verification/Timestamp.thy ===== *)
theory Timestamp
  imports Prelude
begin

text \<open>
  The packed timestamp (\<open>tsoracle-core/src/timestamp.rs\<close>) and the leader epoch
  (\<open>tsoracle-core/src/epoch.rs\<close>): bit layout, range checks, field accessors, the
  derived orders as \<open>linorder\<close> instances, and the wire form of an epoch.
\<close>

section \<open>Packed timestamps\<close>

definition LOGICAL_BITS :: nat where "LOGICAL_BITS = 18"
definition LOGICAL_MASK :: u64 where "LOGICAL_MASK = push_bit LOGICAL_BITS 1 - 1"
definition LOGICAL_MAX :: u32 where "LOGICAL_MAX = push_bit LOGICAL_BITS 1 - 1"
definition PHYSICAL_MS_MAX :: u64 where
  "PHYSICAL_MS_MAX = push_bit (64 - LOGICAL_BITS) 1 - 1"

datatype timestamp_error =
    TsPhysicalMsOutOfRange u64 u64
  | TsLogicalOutOfRange u32 u32

datatype timestamp = Timestamp (ts_val: u64)

text \<open>\<open>assert!\<close> in \<open>pack\<close> panics: the model returns \<open>None\<close>.\<close>

definition pack :: "u64 \<Rightarrow> u32 \<Rightarrow> timestamp option" where
  "pack physical_ms logical =
     (if \<not> physical_ms \<le> PHYSICAL_MS_MAX then None
      else if \<not> logical \<le> LOGICAL_MAX then None
      else Some (Timestamp (push_bit LOGICAL_BITS physical_ms OR ucast logical)))"

definition try_pack :: "u64 \<Rightarrow> u32 \<Rightarrow> (timestamp_error, timestamp) result" where
  "try_pack physical_ms logical =
     (if physical_ms > PHYSICAL_MS_MAX then Inl (TsPhysicalMsOutOfRange physical_ms PHYSICAL_MS_MAX)
      else if logical > LOGICAL_MAX then Inl (TsLogicalOutOfRange logical LOGICAL_MAX)
      else Inr (Timestamp (push_bit LOGICAL_BITS physical_ms OR ucast logical)))"

definition ts_physical_ms :: "timestamp \<Rightarrow> u64" where
  "ts_physical_ms ts = drop_bit LOGICAL_BITS (ts_val ts)"

definition ts_logical :: "timestamp \<Rightarrow> u32" where
  "ts_logical ts = ucast (ts_val ts AND LOGICAL_MASK)"

instantiation timestamp :: linorder
begin

definition less_eq_timestamp :: "timestamp \<Rightarrow> timestamp \<Rightarrow> bool" where
  "less_eq_timestamp a b \<longleftrightarrow> ts_val a \<le> ts_val b"

definition less_timestamp :: "timestamp \<Rightarrow> timestamp \<Rightarrow> bool" where
  "less_timestamp a b \<longleftrightarrow> ts_val a < ts_val b"

instance
  by standard (auto simp: less_eq_timestamp_def less_timestamp_def timestamp.expand)

end

section \<open>Leader epochs\<close>

datatype epoch = Epoch (epoch_val: u128)

definition epoch_ZERO :: epoch where "epoch_ZERO = Epoch 0"

definition to_wire :: "epoch \<Rightarrow> u64 \<times> u64" where
  "to_wire e = (ucast (drop_bit 64 (epoch_val e)), ucast (epoch_val e))"

definition from_wire :: "u64 \<Rightarrow> u64 \<Rightarrow> epoch" where
  "from_wire hi lo = Epoch (push_bit 64 (ucast hi) OR ucast lo)"

instantiation epoch :: linorder
begin

definition less_eq_epoch :: "epoch \<Rightarrow> epoch \<Rightarrow> bool" where
  "less_eq_epoch a b \<longleftrightarrow> epoch_val a \<le> epoch_val b"

definition less_epoch :: "epoch \<Rightarrow> epoch \<Rightarrow> bool" where
  "less_epoch a b \<longleftrightarrow> epoch_val a < epoch_val b"

instance
  by standard (auto simp: less_eq_epoch_def less_epoch_def epoch.expand)

end

section \<open>The layout as arithmetic\<close>

lemma unat_LOGICAL_MAX [simp, to_nat]: "unat LOGICAL_MAX = 262143"
  by (simp add: LOGICAL_MAX_def LOGICAL_BITS_def push_bit_eq_mult)

lemma unat_PHYSICAL_MS_MAX [simp, to_nat]: "unat PHYSICAL_MS_MAX = 70368744177663"
  by (simp add: PHYSICAL_MS_MAX_def LOGICAL_BITS_def push_bit_eq_mult)

lemma push_or_take_bit:
  fixes a b :: "'a::len word"
  shows "push_bit n a OR take_bit n b = push_bit n a + take_bit n b"
proof -
  have "push_bit n a AND take_bit n b = 0"
    by (rule bit_eqI) (auto simp: bit_simps)
  then show ?thesis by (simp add: disjunctive_add_eq_or)
qed

lemma unat_push_or:
  fixes a b :: "'a::len word"
  assumes "unat b < 2 ^ n" "unat a * 2 ^ n + unat b < 2 ^ LENGTH('a)"
  shows "unat (push_bit n a OR b) = unat a * 2 ^ n + unat b"
proof -
  have b: "take_bit n b = b"
    using assms(1) by (simp add: word_unat_eq_iff unsigned_take_bit_eq take_bit_nat_eq_self)
  have a: "unat (push_bit n a) = unat a * 2 ^ n"
    using assms(2) by (simp only: unsigned_push_bit_eq) (simp add: push_bit_eq_mult take_bit_nat_eq_self)
  have "push_bit n a OR b = push_bit n a + b" using push_or_take_bit [of n a b] b by simp
  with a assms(2) show ?thesis by (simp add: unat_add_no_wrap)
qed

lemma unat_packed:
  assumes "p \<le> PHYSICAL_MS_MAX" "l \<le> LOGICAL_MAX"
  shows "unat (push_bit LOGICAL_BITS p OR ucast l) = unat p * 262144 + unat l"
  using assms unat_push_or [of "ucast l :: u64" 18 p] by (simp add: LOGICAL_BITS_def to_nat)

lemma unat_ts_physical_ms: "unat (ts_physical_ms ts) = unat (ts_val ts) div 262144"
  by (simp add: ts_physical_ms_def LOGICAL_BITS_def drop_bit_eq_div unat_div)

lemma unat_ts_logical: "unat (ts_logical ts) = unat (ts_val ts) mod 262144"
proof -
  have "ts_val ts AND LOGICAL_MASK = take_bit 18 (ts_val ts)"
    by (simp add: LOGICAL_MASK_def LOGICAL_BITS_def push_bit_eq_mult take_bit_eq_mask mask_eq_exp_minus_1)
  moreover have "unat (take_bit 18 (ts_val ts)) = unat (ts_val ts) mod 262144"
    by (simp add: unsigned_take_bit_eq take_bit_eq_mod unat_mod)
  ultimately show ?thesis
    by (simp add: ts_logical_def unsigned_ucast_eq take_bit_nat_eq_self_iff less_trans [OF mod_less_divisor])
qed

lemma pack_SomeD:
  assumes "pack p l = Some ts"
  shows "p \<le> PHYSICAL_MS_MAX" "l \<le> LOGICAL_MAX" "unat (ts_val ts) = unat p * 262144 + unat l"
  using assms unat_packed [of p l] by (auto simp: pack_def split: if_splits)

lemma packI:
  "p \<le> PHYSICAL_MS_MAX \<Longrightarrow> l \<le> LOGICAL_MAX \<Longrightarrow>
   \<exists>ts. pack p l = Some ts \<and> unat (ts_val ts) = unat p * 262144 + unat l"
  using unat_packed [of p l] by (simp add: pack_def)

lemma try_pack_Inr_iff: "try_pack p l = Inr ts \<longleftrightarrow> pack p l = Some ts"
  by (auto simp: try_pack_def pack_def not_less)

lemma unat_to_wire: "unat (fst (to_wire e)) * 2 ^ 64 + unat (snd (to_wire e)) = unat (epoch_val e)"
proof -
  have "unat (epoch_val e) < 2 ^ 128" using unsigned_less [of "epoch_val e"] by simp
  then have "unat (fst (to_wire e)) = unat (epoch_val e) div 2 ^ 64"
    by (simp add: to_wire_def unsigned_ucast_eq drop_bit_eq_div unat_div take_bit_nat_eq_self_iff
        div_less_iff_less_mult)
  moreover have "unat (snd (to_wire e)) = unat (epoch_val e) mod 2 ^ 64"
    by (simp add: to_wire_def unsigned_ucast_eq take_bit_eq_mod)
  ultimately show ?thesis by (simp add: div_mult_mod_eq)
qed

section \<open>Properties\<close>

text \<open>
  Packing and then reading the two fields of a timestamp returns the packed
  millisecond and counter.
\<close>

theorem pack_unpack_roundtrip:
  assumes "pack physical_ms logical = Some ts"
  shows "ts_physical_ms ts = physical_ms \<and> ts_logical ts = logical"
  using pack_SomeD [OF assms] by (simp add: to_nat unat_ts_physical_ms unat_ts_logical)

theorem pack_unpack_roundtrip_witness:
  "pack 1000 5 = Some (Timestamp 262144005) \<and>
   ts_physical_ms (Timestamp 262144005) = 1000 \<and> ts_logical (Timestamp 262144005) = 5"
proof -
  have h: "pack 1000 5 = Some (Timestamp 262144005)" by code_simp
  show ?thesis using h pack_unpack_roundtrip [OF h] by simp
qed

text \<open>
  The order on packed values is the lexicographic order on millisecond and
  counter, so consumers may compare timestamps without unpacking them.
\<close>

theorem pack_order_lexicographic:
  assumes "pack pa la = Some ta" "pack pb lb = Some tb"
  shows "ta < tb \<longleftrightarrow> pa < pb \<or> pa = pb \<and> la < lb"
proof -
  have "unat la < 262144" "unat lb < 262144"
    using pack_SomeD(2) [OF assms(1)] pack_SomeD(2) [OF assms(2)] by (simp_all add: to_nat)
  with pack_SomeD(3) [OF assms(1)] pack_SomeD(3) [OF assms(2)] show ?thesis
    by (auto simp: less_timestamp_def to_nat)
qed

theorem pack_order_lexicographic_witness:
  "pack 1000 6 = Some (Timestamp 262144006) \<and> pack 1001 0 = Some (Timestamp 262406144) \<and>
   Timestamp 262144006 < Timestamp 262406144"
proof -
  have h: "pack 1000 6 = Some (Timestamp 262144006)" by code_simp
  have h': "pack 1001 0 = Some (Timestamp 262406144)" by code_simp
  show ?thesis using h h' pack_order_lexicographic [OF h h'] by simp
qed

text \<open>
  Splitting an epoch into its two wire halves loses nothing, and the
  lexicographic order of the halves is the order of the epochs.
\<close>

theorem epoch_wire_faithful:
  "from_wire (fst (to_wire e)) (snd (to_wire e)) = e \<and>
   (e < f \<longleftrightarrow> fst (to_wire e) < fst (to_wire f) \<or>
      fst (to_wire e) = fst (to_wire f) \<and> snd (to_wire e) < snd (to_wire f))"
proof
  have "unat (epoch_val (from_wire (fst (to_wire e)) (snd (to_wire e)))) = unat (epoch_val e)"
    using unat_to_wire [of e] unsigned_less [of "epoch_val e"] unat_u64_bound [of "snd (to_wire e)"]
      unat_push_or [of "ucast (snd (to_wire e)) :: u128" 64 "ucast (fst (to_wire e))"]
    by (simp add: from_wire_def)
  then show "from_wire (fst (to_wire e)) (snd (to_wire e)) = e"
    by (simp add: epoch.expand flip: word_unat_eq_iff)
  show "e < f \<longleftrightarrow> fst (to_wire e) < fst (to_wire f) \<or>
      fst (to_wire e) = fst (to_wire f) \<and> snd (to_wire e) < snd (to_wire f)"
    using unat_to_wire [of e] unat_to_wire [of f]
      unat_u64_bound [of "snd (to_wire e)"] unat_u64_bound [of "snd (to_wire f)"]
    by (auto simp: less_epoch_def to_nat)
qed

end
