(* ===== verification/Issuer.thy ===== *)
theory Issuer
  imports Prelude
begin

text \<open>
  What it means to issue in strictly increasing order, as an interface. An issuer is
  a deterministic machine driven by commands (a command carries the choices of its
  environment: clock readings, request sizes, driver answers). Its state has a
  position on a number line; a step may emit intervals, each at or above the position
  before the step and below the position after it. The client lemma, proved once, is
  that the intervals of a whole run are pairwise disjoint and strictly increasing.
\<close>

fun run_emit :: "('s \<Rightarrow> 'c \<Rightarrow> 'g list \<times> 's) \<Rightarrow> 's \<Rightarrow> 'c list \<Rightarrow> 'g list \<times> 's" where
  "run_emit step s [] = ([], s)"
| "run_emit step s (c # cs) =
     (let (gs, s') = step s c; (hs, s'') = run_emit step s' cs in (gs @ hs, s''))"

locale issuer =
  fixes step :: "'s \<Rightarrow> 'c \<Rightarrow> 'g list \<times> 's"
    and inv :: "'s \<Rightarrow> bool"
    and pos :: "'s \<Rightarrow> nat"
    and lo :: "'g \<Rightarrow> nat"
    and hi :: "'g \<Rightarrow> nat"
  assumes inv_step: "inv s \<Longrightarrow> step s c = (gs, s') \<Longrightarrow> inv s'"
    and pos_step: "inv s \<Longrightarrow> step s c = (gs, s') \<Longrightarrow> pos s \<le> pos s'"
    and emit_range: "inv s \<Longrightarrow> step s c = (gs, s') \<Longrightarrow> g \<in> set gs \<Longrightarrow>
          pos s \<le> lo g \<and> lo g \<le> hi g \<and> hi g < pos s'"
    and emit_order: "inv s \<Longrightarrow> step s c = (gs, s') \<Longrightarrow> sorted_wrt (\<lambda>g h. hi g < lo h) gs"
begin

lemma run_facts:
  assumes "inv s" "run_emit step s cs = (gs, s')"
  shows "inv s' \<and> pos s \<le> pos s' \<and> sorted_wrt (\<lambda>g h. hi g < lo h) gs \<and>
         (\<forall>g \<in> set gs. pos s \<le> lo g \<and> lo g \<le> hi g \<and> hi g < pos s')"
  using assms
proof (induction cs arbitrary: s gs)
  case (Cons c cs)
  obtain g1 s1 where st: "step s c = (g1, s1)" by fastforce
  obtain g2 where rn: "run_emit step s1 cs = (g2, s')" and gs: "gs = g1 @ g2"
    using Cons.prems(2) st by (auto split: prod.splits)
  from Cons.prems(1) st have s1: "inv s1" by (rule inv_step)
  note ih = Cons.IH [OF s1 rn]
  have r1: "\<forall>g \<in> set g1. pos s \<le> lo g \<and> lo g \<le> hi g \<and> hi g < pos s1"
    using emit_range [OF Cons.prems(1) st] by blast
  have "pos s \<le> pos s1" "sorted_wrt (\<lambda>g h. hi g < lo h) g1"
    using pos_step [OF Cons.prems(1) st] emit_order [OF Cons.prems(1) st] .
  with ih r1 gs show ?case by (fastforce simp: sorted_wrt_append)
qed simp

lemma run_strictly_increasing:
  "inv s \<Longrightarrow> sorted_wrt (\<lambda>g h. hi g < lo h) (fst (run_emit step s cs))"
  using run_facts [of s cs] by (cases "run_emit step s cs") auto

lemma run_inv: "inv s \<Longrightarrow> inv (snd (run_emit step s cs))"
  using run_facts [of s cs] by (cases "run_emit step s cs") auto

end

text \<open>A predicate every emitted item satisfies.\<close>

locale emits =
  fixes step :: "'s \<Rightarrow> 'c \<Rightarrow> 'g list \<times> 's"
    and inv :: "'s \<Rightarrow> bool"
    and good :: "'g \<Rightarrow> bool"
  assumes keeps: "inv s \<Longrightarrow> step s c = (gs, s') \<Longrightarrow> inv s'"
    and emits_good: "inv s \<Longrightarrow> step s c = (gs, s') \<Longrightarrow> g \<in> set gs \<Longrightarrow> good g"
begin

lemma run_emits: "inv s \<Longrightarrow> g \<in> set (fst (run_emit step s cs)) \<Longrightarrow> good g"
proof (induction cs arbitrary: s)
  case (Cons c cs)
  obtain g1 s1 where st: "step s c = (g1, s1)" by fastforce
  from Cons.prems st have "g \<in> set g1 \<or> g \<in> set (fst (run_emit step s1 cs))" by (auto split: prod.splits)
  with Cons.IH [OF keeps [OF Cons.prems(1) st]] emits_good [OF Cons.prems(1) st] show ?case by blast
qed simp

end

end
