(* ===== verification/Allocator.thy ===== *)
theory Allocator
  imports Timestamp Issuer
begin

text \<open>
  The window allocator (\<open>tsoracle-core/src/allocator.rs\<close>): the range-checked
  millisecond type, window grants, and the leader state machine with its grant,
  projection, extension and commit operations. A mutating method takes the
  allocator and returns the result together with the allocator it leaves behind.
  The timestamps a grant covers are read as an interval of packed positions, and
  the allocator as a cursor into the same number line; the issuer interface turns
  "every grant starts at or above the cursor and moves it past its end" into
  strict monotonicity of whole runs.
\<close>

section \<open>Errors\<close>

datatype core_error =
    CoreNotLeader
  | WindowExhausted
  | InvalidCount u32
  | PhysicalMsOutOfRange u64
  | LogicalRangeOutOfRange u32 u32
  | InvalidLeadershipWindow u64 u64
  | WindowExtensionOverflow u64 u64 u64
  | SeqKeyEmpty
  | SeqKeyTooLong nat nat
  | SeqCountZero
  | SeqCountTooLarge u32 u32
  | SeqBlockOverflow u64 u32

section \<open>Range-checked milliseconds\<close>

datatype physical_ms = PhysicalMs (pms_get: u64)

definition pms_MAX :: physical_ms where "pms_MAX = PhysicalMs PHYSICAL_MS_MAX"
definition pms_ZERO :: physical_ms where "pms_ZERO = PhysicalMs 0"

definition pms_try_new :: "u64 \<Rightarrow> (core_error, physical_ms) result" where
  "pms_try_new value =
     (if value > PHYSICAL_MS_MAX then Inl (PhysicalMsOutOfRange value)
      else Inr (PhysicalMs value))"

instantiation physical_ms :: linorder
begin

definition less_eq_physical_ms :: "physical_ms \<Rightarrow> physical_ms \<Rightarrow> bool" where
  "less_eq_physical_ms a b \<longleftrightarrow> pms_get a \<le> pms_get b"

definition less_physical_ms :: "physical_ms \<Rightarrow> physical_ms \<Rightarrow> bool" where
  "less_physical_ms a b \<longleftrightarrow> pms_get a < pms_get b"

instance
  by standard (auto simp: less_eq_physical_ms_def less_physical_ms_def physical_ms.expand)

end

text \<open>The type invariant of \<open>PhysicalMs\<close>: every value came through \<open>try_new\<close>.\<close>

definition pms_ok :: "physical_ms \<Rightarrow> bool" where
  "pms_ok p \<longleftrightarrow> pms_get p \<le> PHYSICAL_MS_MAX"

section \<open>Window grants\<close>

record window_grant =
  wg_physical_ms :: u64
  wg_logical_start :: u32
  wg_count :: u32
  wg_epoch :: epoch

definition wg_try_new ::
  "u64 \<Rightarrow> u32 \<Rightarrow> u32 \<Rightarrow> epoch \<Rightarrow> (core_error, window_grant) result" where
  "wg_try_new physical_ms logical_start count epoch =
     (if count = 0 then Inl (InvalidCount 0)
      else case checked_add logical_start (count - 1) of
        None \<Rightarrow> Inl (LogicalRangeOutOfRange logical_start count)
      | Some last_logical \<Rightarrow>
          (case try_pack physical_ms last_logical of
             Inl (TsPhysicalMsOutOfRange p _) \<Rightarrow> Inl (PhysicalMsOutOfRange p)
           | Inl (TsLogicalOutOfRange _ _) \<Rightarrow> Inl (LogicalRangeOutOfRange logical_start count)
           | Inr _ \<Rightarrow> Inr \<lparr>wg_physical_ms = physical_ms, wg_logical_start = logical_start,
                            wg_count = count, wg_epoch = epoch\<rparr>))"

text \<open>\<open>new_unchecked\<close> only carries \<open>debug_assert!\<close>s, which release builds compile out.\<close>

definition wg_new_unchecked :: "u64 \<Rightarrow> u32 \<Rightarrow> u32 \<Rightarrow> epoch \<Rightarrow> window_grant" where
  "wg_new_unchecked physical_ms logical_start count epoch =
     \<lparr>wg_physical_ms = physical_ms, wg_logical_start = logical_start,
      wg_count = count, wg_epoch = epoch\<rparr>"

definition wg_first :: "window_grant \<Rightarrow> timestamp option" where
  "wg_first g = pack (wg_physical_ms g) (wg_logical_start g)"

definition wg_last :: "window_grant \<Rightarrow> timestamp option" where
  "wg_last g = pack (wg_physical_ms g) (wg_logical_start g + wg_count g - 1)"

section \<open>The allocator\<close>

datatype commit_ignore =
    IgnoreNotLeader
  | IgnoreEpochMismatch epoch epoch
  | IgnoreNotAdvanced u64 u64

datatype commit_outcome = Applied u64 | Ignored commit_ignore

datatype alloc_state =
    NotLeader
  | Leader (st_epoch: epoch) (st_committed_high_water: u64)
      (st_next_physical_ms: u64) (st_next_logical: u32)

record allocator =
  alloc_state :: alloc_state

definition alloc_new :: allocator where
  "alloc_new = \<lparr>alloc_state = NotLeader\<rparr>"

definition alloc_become_leader ::
  "physical_ms \<Rightarrow> physical_ms \<Rightarrow> epoch \<Rightarrow> allocator \<Rightarrow> (core_error, unit) result \<times> allocator" where
  "alloc_become_leader fence_floor committed_ceiling epoch a =
     (if committed_ceiling < fence_floor
      then (Inl (InvalidLeadershipWindow (pms_get fence_floor) (pms_get committed_ceiling)), a)
      else (Inr (), a\<lparr>alloc_state :=
              Leader epoch (pms_get committed_ceiling) (pms_get fence_floor) 0\<rparr>))"

definition alloc_step_down :: "allocator \<Rightarrow> allocator" where
  "alloc_step_down a = a\<lparr>alloc_state := NotLeader\<rparr>"

definition alloc_is_leader :: "allocator \<Rightarrow> bool" where
  "alloc_is_leader a = (case alloc_state a of Leader _ _ _ _ \<Rightarrow> True | NotLeader \<Rightarrow> False)"

definition alloc_epoch :: "allocator \<Rightarrow> epoch option" where
  "alloc_epoch a = (case alloc_state a of Leader e _ _ _ \<Rightarrow> Some e | NotLeader \<Rightarrow> None)"

definition alloc_committed_high_water :: "allocator \<Rightarrow> u64 option" where
  "alloc_committed_high_water a =
     (case alloc_state a of Leader _ hw _ _ \<Rightarrow> Some hw | NotLeader \<Rightarrow> None)"

definition validate_count :: "u32 \<Rightarrow> (core_error, unit) result" where
  "validate_count count =
     (if count = 0 \<or> count > LOGICAL_MAX + 1 then Inl (InvalidCount count) else Inr ())"

definition project_grant ::
  "u64 \<Rightarrow> u32 \<Rightarrow> u64 \<Rightarrow> u64 \<Rightarrow> u32 \<Rightarrow> (core_error, u64 \<times> u32) result" where
  "project_grant next_physical_ms next_logical committed_high_water now_ms count =
     (let (physical_ms, logical) =
            (if now_ms > next_physical_ms then (now_ms, 0) else (next_physical_ms, next_logical));
          (physical_ms, logical) =
            (if (ucast logical :: u64) + ucast count > ucast LOGICAL_MAX + 1
             then (physical_ms + 1, 0) else (physical_ms, logical))
      in if physical_ms > PHYSICAL_MS_MAX then Inl (PhysicalMsOutOfRange physical_ms)
         else if physical_ms > committed_high_water then Inl WindowExhausted
         else Inr (physical_ms, logical))"

definition advance_cursor :: "u64 \<Rightarrow> u32 \<Rightarrow> u32 \<Rightarrow> u64 \<times> u32" where
  "advance_cursor physical_ms logical_start count =
     (let next_logical = logical_start + count
      in if next_logical > LOGICAL_MAX then (physical_ms + 1, 0) else (physical_ms, next_logical))"

definition alloc_try_grant ::
  "u64 \<Rightarrow> u32 \<Rightarrow> allocator \<Rightarrow> (core_error, window_grant) result \<times> allocator" where
  "alloc_try_grant now_ms count a =
     (case validate_count count of
        Inl e \<Rightarrow> (Inl e, a)
      | Inr _ \<Rightarrow>
          (case alloc_state a of
             NotLeader \<Rightarrow> (Inl CoreNotLeader, a)
           | Leader epoch committed_high_water next_physical_ms next_logical \<Rightarrow>
               (case project_grant next_physical_ms next_logical committed_high_water now_ms count of
                  Inl e \<Rightarrow> (Inl e, a)
                | Inr (physical_ms, logical_start) \<Rightarrow>
                    (let grant = wg_new_unchecked physical_ms logical_start count epoch;
                         (np, nl) = advance_cursor physical_ms logical_start count
                     in (Inr grant, a\<lparr>alloc_state := Leader epoch committed_high_water np nl\<rparr>)))))"

definition alloc_would_grant :: "u64 \<Rightarrow> u32 \<Rightarrow> allocator \<Rightarrow> bool" where
  "alloc_would_grant now_ms count a =
     (if \<not> is_ok (validate_count count) then False
      else case alloc_state a of
        NotLeader \<Rightarrow> False
      | Leader _ committed_high_water next_physical_ms next_logical \<Rightarrow>
          is_ok (project_grant next_physical_ms next_logical committed_high_water now_ms count))"

definition alloc_try_prepare_window_extension ::
  "physical_ms \<Rightarrow> u64 \<Rightarrow> allocator \<Rightarrow> (core_error, physical_ms) result" where
  "alloc_try_prepare_window_extension now_ms ahead_ms a =
     (case alloc_state a of
        NotLeader \<Rightarrow> Inl CoreNotLeader
      | Leader _ committed_high_water _ _ \<Rightarrow>
          (let floor = committed_high_water + 1
           in case checked_add (max floor (pms_get now_ms)) ahead_ms of
                None \<Rightarrow> Inl (WindowExtensionOverflow floor (pms_get now_ms) ahead_ms)
              | Some requested \<Rightarrow> pms_try_new requested))"

definition alloc_try_prepare_lease_renewal ::
  "physical_ms \<Rightarrow> u64 \<Rightarrow> allocator \<Rightarrow> (core_error, physical_ms) result" where
  "alloc_try_prepare_lease_renewal now_ms ttl_ms a =
     (case alloc_committed_high_water a of
        None \<Rightarrow> Inl CoreNotLeader
      | Some committed \<Rightarrow>
          (case checked_add (pms_get now_ms) ttl_ms of
             None \<Rightarrow> Inl (WindowExtensionOverflow committed (pms_get now_ms) ttl_ms)
           | Some requested \<Rightarrow> pms_try_new (max committed requested)))"

definition alloc_try_commit_window_extension ::
  "physical_ms \<Rightarrow> epoch \<Rightarrow> allocator \<Rightarrow> (core_error, commit_outcome) result \<times> allocator" where
  "alloc_try_commit_window_extension persisted_high_water expected_epoch a =
     (let persisted = pms_get persisted_high_water
      in case alloc_state a of
        NotLeader \<Rightarrow> (Inr (Ignored IgnoreNotLeader), a)
      | Leader epoch committed_high_water np nl \<Rightarrow>
          (if epoch \<noteq> expected_epoch
           then (Inr (Ignored (IgnoreEpochMismatch expected_epoch epoch)), a)
           else if persisted \<le> committed_high_water
           then (Inr (Ignored (IgnoreNotAdvanced persisted committed_high_water)), a)
           else (Inr (Applied persisted), a\<lparr>alloc_state := Leader epoch persisted np nl\<rparr>)))"

section \<open>Well-formedness and the cursor\<close>

text \<open>
  The bounds the code relies on: the committed bound fits the 46-bit field, the
  cursor is packable (or rests exactly one millisecond past the bound with logical
  counter zero, the state an exact fill leaves).
\<close>

fun state_ok :: "alloc_state \<Rightarrow> bool" where
  "state_ok NotLeader = True"
| "state_ok (Leader e hw np nl) \<longleftrightarrow>
     hw \<le> PHYSICAL_MS_MAX \<and> nl \<le> LOGICAL_MAX \<and> np \<le> hw + 1 \<and> (np = hw + 1 \<longrightarrow> nl = 0)"

definition alloc_ok :: "allocator \<Rightarrow> bool" where
  "alloc_ok a \<longleftrightarrow> state_ok (alloc_state a)"

definition position :: "u64 \<Rightarrow> u32 \<Rightarrow> nat" where
  "position p l = unat p * 262144 + unat l"

fun state_cursor :: "alloc_state \<Rightarrow> nat" where
  "state_cursor NotLeader = 0"
| "state_cursor (Leader e hw np nl) = position np nl"

definition alloc_cursor :: "allocator \<Rightarrow> nat" where
  "alloc_cursor a = state_cursor (alloc_state a)"

definition wg_lo :: "window_grant \<Rightarrow> nat" where
  "wg_lo g = position (wg_physical_ms g) (wg_logical_start g)"

definition wg_hi :: "window_grant \<Rightarrow> nat" where
  "wg_hi g = wg_lo g + unat (wg_count g) - 1"

text \<open>The type invariant of a grant: every timestamp it covers packs.\<close>

definition wg_ok :: "window_grant \<Rightarrow> bool" where
  "wg_ok g \<longleftrightarrow> 0 < unat (wg_count g) \<and> wg_physical_ms g \<le> PHYSICAL_MS_MAX \<and>
     unat (wg_logical_start g) + unat (wg_count g) \<le> 262144"

lemma unat_succ_in_range [to_nat]: "p \<le> PHYSICAL_MS_MAX \<Longrightarrow> unat (p + 1) = unat p + 1"
  by (simp add: unat_word_ariths to_nat)

lemma unat_LOGICAL_SIZE [simp]: "unat (LOGICAL_MAX + 1) = 262144"
  by (simp add: unat_word_ariths)

lemma validate_count_Inr_iff:
  "validate_count count = Inr u \<longleftrightarrow> 0 < unat count \<and> unat count \<le> 262144"
  by (auto simp: validate_count_def word_less_nat_alt unat_gt_0 not_less)

lemma logical_overflow_iff:
  fixes l c :: u32
  shows "(ucast l :: u64) + ucast c > ucast LOGICAL_MAX + 1 \<longleftrightarrow> 262144 < unat l + unat c"
proof -
  have "unat ((ucast l :: u64) + ucast c) = unat l + unat c"
    using unat_u32_bound [of l] unat_u32_bound [of c] by (simp add: unat_add_no_wrap)
  moreover have "unat ((ucast LOGICAL_MAX :: u64) + 1) = 262144"
    by (simp add: unat_word_ariths)
  ultimately show ?thesis by (simp add: word_less_nat_alt)
qed

lemmas project_grant_nat = project_grant_def [unfolded logical_overflow_iff]

lemma project_grant_InrD:
  assumes "project_grant np nl hw now count = Inr (p, l)"
    and "state_ok (Leader e hw np nl)" "0 < unat count" "unat count \<le> 262144"
  shows "p \<le> hw" "p \<le> PHYSICAL_MS_MAX" "unat l + unat count \<le> 262144"
    "position np nl \<le> position p l" "now \<le> p"
proof -
  have np: "unat np \<le> 70368744177664" "unat nl \<le> 262143"
    using assms(2) by (auto simp: to_nat)
  then have s: "unat (np + 1) = unat np + 1" by (simp add: unat_word_ariths)
  show "p \<le> hw" "p \<le> PHYSICAL_MS_MAX" "unat l + unat count \<le> 262144"
    "position np nl \<le> position p l" "now \<le> p"
    using assms np s
    by (auto simp: project_grant_nat position_def word_less_nat_alt
        word_le_nat_alt split: if_splits)
qed

lemma advance_cursor_position:
  assumes "advance_cursor p l count = (p', l')" "p \<le> PHYSICAL_MS_MAX" "unat l + unat count \<le> 262144"
  shows "position p' l' = position p l + unat count" "l' \<le> LOGICAL_MAX" "p' \<le> p + 1"
    "p' = p + 1 \<longrightarrow> l' = 0"
proof -
  have "unat (l + count) = unat l + unat count" using assms(3) by (simp add: unat_word_ariths)
  moreover have "p \<noteq> p + 1" by simp
  ultimately show "position p' l' = position p l + unat count" "l' \<le> LOGICAL_MAX" "p' \<le> p + 1"
    "p' = p + 1 \<longrightarrow> l' = 0"
    using assms unat_succ_in_range [OF assms(2)]
    by (auto simp: advance_cursor_def position_def word_less_nat_alt word_le_nat_alt split: if_splits)
qed

section \<open>Operations\<close>

lemma pms_try_new_Inr_iff [simp]:
  "pms_try_new v = Inr p \<longleftrightarrow> v \<le> PHYSICAL_MS_MAX \<and> p = PhysicalMs v"
  by (auto simp: pms_try_new_def not_less)

lemma pms_try_new_in_range [simp]: "v \<le> PHYSICAL_MS_MAX \<Longrightarrow> pms_try_new v = Inr (PhysicalMs v)"
  by simp

lemma pms_try_new_out_of_range [simp]:
  "\<not> v \<le> PHYSICAL_MS_MAX \<Longrightarrow> pms_try_new v = Inl (PhysicalMsOutOfRange v)"
  by (simp add: pms_try_new_def not_le)

lemma wg_first_last:
  assumes "wg_ok g"
  shows "\<exists>t. wg_first g = Some t \<and> unat (ts_val t) = wg_lo g"
    and "\<exists>t. wg_last g = Some t \<and> unat (ts_val t) = wg_hi g"
proof -
  have c: "wg_logical_start g + wg_count g - 1 = wg_logical_start g + (wg_count g - 1)" by simp
  have w: "unat (wg_count g - 1) = unat (wg_count g) - 1"
    using assms by (simp add: wg_ok_def unat_sub word_le_nat_alt)
  then have l: "unat (wg_logical_start g + wg_count g - 1)
      = unat (wg_logical_start g) + unat (wg_count g) - 1"
    using assms unfolding c by (subst unat_add_no_wrap) (auto simp: wg_ok_def)
  show "\<exists>t. wg_first g = Some t \<and> unat (ts_val t) = wg_lo g"
    using assms packI [of "wg_physical_ms g" "wg_logical_start g"]
    by (simp add: wg_ok_def wg_first_def wg_lo_def position_def word_le_nat_alt)
  have "wg_logical_start g + wg_count g - 1 \<le> LOGICAL_MAX"
    using assms l by (auto simp: wg_ok_def word_le_nat_alt)
  then show "\<exists>t. wg_last g = Some t \<and> unat (ts_val t) = wg_hi g"
    using assms l packI [of "wg_physical_ms g" "wg_logical_start g + wg_count g - 1"]
    by (simp add: add.assoc wg_ok_def wg_last_def wg_hi_def wg_lo_def position_def)
qed

text \<open>All timestamps of one grant precede all timestamps of the other.\<close>

definition grant_before :: "window_grant \<Rightarrow> window_grant \<Rightarrow> bool" where
  "grant_before g h =
     (case (wg_last g, wg_first h) of (Some a, Some b) \<Rightarrow> a < b | _ \<Rightarrow> False)"

lemma grant_beforeI: "wg_ok g \<Longrightarrow> wg_ok h \<Longrightarrow> wg_hi g < wg_lo h \<Longrightarrow> grant_before g h"
  using wg_first_last(2) [of g] wg_first_last(1) [of h]
  by (auto simp: grant_before_def less_timestamp_def word_less_nat_alt)

lemma try_grant_error_unchanged: "alloc_try_grant now count a = (Inl e, a') \<Longrightarrow> a' = a"
  by (auto simp: alloc_try_grant_def split: sum.splits alloc_state.splits prod.splits)

lemma try_grant_InrE:
  assumes "alloc_try_grant now count a = (Inr g, a')" "alloc_ok a"
  obtains e hw np nl p l np' nl' where
    "alloc_state a = Leader e hw np nl" "0 < unat count" "unat count \<le> 262144"
    "project_grant np nl hw now count = Inr (p, l)" "advance_cursor p l count = (np', nl')"
    "g = wg_new_unchecked p l count e" "a' = a\<lparr>alloc_state := Leader e hw np' nl'\<rparr>"
  using assms
  by (auto simp: alloc_try_grant_def validate_count_Inr_iff
      split: sum.splits alloc_state.splits prod.splits)

lemma try_grant_spec:
  assumes "alloc_try_grant now count a = (Inr g, a')" "alloc_ok a"
  shows "wg_ok g \<and> alloc_ok a' \<and> wg_count g = count \<and> now \<le> wg_physical_ms g \<and>
    alloc_cursor a \<le> wg_lo g \<and> alloc_cursor a' = wg_lo g + unat count \<and>
    alloc_epoch a = Some (wg_epoch g) \<and> alloc_epoch a' = alloc_epoch a \<and>
    alloc_committed_high_water a' = alloc_committed_high_water a \<and>
    (\<exists>hw. alloc_committed_high_water a = Some hw \<and> wg_physical_ms g \<le> hw)"
  using assms
proof (rule try_grant_InrE)
  fix e hw np nl p l np' nl'
  assume s: "alloc_state a = Leader e hw np nl" and c: "0 < unat count" "unat count \<le> 262144"
    and pg: "project_grant np nl hw now count = Inr (p, l)"
    and ac: "advance_cursor p l count = (np', nl')"
    and g: "g = wg_new_unchecked p l count e" and a': "a' = a\<lparr>alloc_state := Leader e hw np' nl'\<rparr>"
  have ok: "state_ok (Leader e hw np nl)" using assms(2) s by (simp add: alloc_ok_def)
  note pr = project_grant_InrD [OF pg ok c]
  note cu = advance_cursor_position [OF ac pr(2,3)]
  have "np' \<le> hw + 1" "np' = hw + 1 \<longrightarrow> nl' = 0"
    using cu(3,4) pr(1,2) ok unat_succ_in_range [OF pr(2)] unat_succ_in_range [of hw]
    by (auto simp: word_le_nat_alt word_unat_eq_iff)
  with s c g a' ok pr cu show ?thesis
    by (simp add: alloc_ok_def alloc_cursor_def wg_ok_def wg_lo_def wg_new_unchecked_def
        alloc_epoch_def alloc_committed_high_water_def)
qed

lemma would_grant_iff: "alloc_would_grant now count a \<longleftrightarrow> is_ok (fst (alloc_try_grant now count a))"
  by (auto simp: alloc_would_grant_def alloc_try_grant_def is_ok_iff
      split: sum.splits alloc_state.splits prod.splits)

lemma commit_extension_ok:
  assumes "alloc_ok a" "pms_ok p"
    "alloc_try_commit_window_extension p e a = (r, a')"
  shows "alloc_ok a' \<and> alloc_cursor a' = alloc_cursor a \<and> alloc_epoch a' = alloc_epoch a"
proof (cases "alloc_state a")
  case NotLeader
  with assms show ?thesis by (auto simp: alloc_try_commit_window_extension_def)
next
  case (Leader e' hw np nl)
  have "np \<le> pms_get p + 1 \<and> np \<noteq> pms_get p + 1" if "hw < pms_get p"
    using assms(1,2) that Leader unat_succ_in_range [of hw] unat_succ_in_range [of "pms_get p"]
    by (auto simp: alloc_ok_def pms_ok_def to_nat)
  with assms Leader show ?thesis
    by (auto simp: alloc_try_commit_window_extension_def Let_def alloc_ok_def pms_ok_def
        alloc_cursor_def alloc_epoch_def not_le split: if_splits)
qed

lemma become_leader_ok:
  assumes "alloc_ok a" "pms_ok c" "alloc_become_leader f c e a = (r, a')"
  shows "alloc_ok a'"
  using assms unat_succ_in_range [of "pms_get c"]
  by (auto simp: alloc_become_leader_def alloc_ok_def pms_ok_def less_physical_ms_def to_nat
      split: if_splits)

lemma step_down_ok [simp]: "alloc_ok (alloc_step_down a)"
  by (simp add: alloc_step_down_def alloc_ok_def)

lemma alloc_new_ok [simp]: "alloc_ok alloc_new"
  by (simp add: alloc_new_def alloc_ok_def)

section \<open>The allocator as an issuer\<close>

text \<open>
  The commands that act on the allocator between two leadership changes: grant
  requests at arbitrary clock readings and commits of arbitrary persisted bounds.
\<close>

datatype alloc_cmd = CmdGrant u64 u32 | CmdCommit u64 epoch

fun alloc_cmd_step :: "allocator \<Rightarrow> alloc_cmd \<Rightarrow> window_grant list \<times> allocator" where
  "alloc_cmd_step a (CmdGrant now count) =
     (case alloc_try_grant now count a of (Inl _, a') \<Rightarrow> ([], a') | (Inr g, a') \<Rightarrow> ([g], a'))"
| "alloc_cmd_step a (CmdCommit v e) =
     (case pms_try_new v of Inl _ \<Rightarrow> ([], a)
      | Inr p \<Rightarrow> ([], snd (alloc_try_commit_window_extension p e a)))"

lemma alloc_cmd_step_facts:
  assumes "alloc_ok a" "alloc_cmd_step a c = (gs, a')"
  shows "alloc_ok a' \<and> alloc_cursor a \<le> alloc_cursor a' \<and> length gs \<le> 1 \<and>
    (\<forall>g \<in> set gs. wg_ok g \<and> alloc_cursor a \<le> wg_lo g \<and> wg_lo g \<le> wg_hi g \<and> wg_hi g < alloc_cursor a')"
proof (cases c)
  case (CmdGrant now count)
  show ?thesis
  proof (cases "fst (alloc_try_grant now count a)")
    case (Inl e)
    with assms CmdGrant show ?thesis
      by (auto dest: try_grant_error_unchanged split: prod.splits sum.splits)
  next
    case (Inr g)
    with assms CmdGrant have "alloc_try_grant now count a = (Inr g, a')" "gs = [g]"
      by (auto split: prod.splits sum.splits)
    with try_grant_spec [OF this(1) assms(1)] show ?thesis
      by (auto simp: wg_hi_def wg_ok_def)
  qed
next
  case (CmdCommit v e)
  show ?thesis
  proof (cases "v \<le> PHYSICAL_MS_MAX")
    case True
    with assms CmdCommit commit_extension_ok [of a "PhysicalMs v" e]
    show ?thesis by (cases "alloc_try_commit_window_extension (PhysicalMs v) e a")
        (auto simp: pms_ok_def)
  next
    case False
    with assms CmdCommit show ?thesis by auto
  qed
qed

interpretation ai: issuer alloc_cmd_step alloc_ok alloc_cursor wg_lo wg_hi
proof (unfold_locales, goal_cases)
  case (4 s c gs s')
  then have "length gs \<le> 1" using alloc_cmd_step_facts by blast
  then show ?case by (cases gs) auto
qed (use alloc_cmd_step_facts in blast)+

lemma alloc_run_grants_ok:
  "alloc_ok a \<Longrightarrow> g \<in> set (fst (run_emit alloc_cmd_step a cs)) \<Longrightarrow> wg_ok g"
proof (induction cs arbitrary: a)
  case (Cons c cs)
  obtain gs a' where st: "alloc_cmd_step a c = (gs, a')" by fastforce
  with Cons.prems alloc_cmd_step_facts [OF Cons.prems(1) st] Cons.IH [of a'] show ?case
    by (auto split: prod.splits)
qed simp

lemma sorted_wrt_grant_before:
  assumes "sorted_wrt (\<lambda>g h. wg_hi g < wg_lo h) gs" "\<And>g. g \<in> set gs \<Longrightarrow> wg_ok g"
  shows "sorted_wrt grant_before gs"
  using assms by (auto intro: sorted_wrt_mono_rel [OF _ assms(1)] grant_beforeI)

lemma prepare_extension_InrD:
  assumes "alloc_try_prepare_window_extension now ahead a = Inr p" "alloc_ok a"
  obtains e hw np nl where "alloc_state a = Leader e hw np nl" "hw < pms_get p" "pms_get now \<le> pms_get p"
    "pms_ok p"
proof -
  obtain e hw np nl where st: "alloc_state a = Leader e hw np nl"
    using assms(1) by (auto simp: alloc_try_prepare_window_extension_def split: alloc_state.splits)
  from assms(1) st have p: "checked_add (max (hw + 1) (pms_get now)) ahead = Some (pms_get p)"
      "pms_get p \<le> PHYSICAL_MS_MAX"
    by (auto simp: alloc_try_prepare_window_extension_def Let_def split: option.splits)
  have "unat (hw + 1) = unat hw + 1"
    using assms(2) st by (simp add: alloc_ok_def unat_succ_in_range)
  with checked_add_SomeD [OF p(1)] have "hw < pms_get p" "pms_get now \<le> pms_get p"
    by (auto simp: to_nat)
  with that st p(2) show ?thesis by (simp add: pms_ok_def)
qed

lemma project_grant_fits:
  assumes "state_ok (Leader e hw np nl)" "hw < hw'" "hw' \<le> PHYSICAL_MS_MAX" "now \<le> hw'"
    "0 < unat count" "unat count \<le> 262144"
  shows "is_ok (project_grant np nl hw' now count)"
proof -
  have hw: "unat (hw + 1) = unat hw + 1" "unat hw < unat hw'" "unat hw' \<le> 70368744177663"
    using assms(1-3) by (simp_all add: unat_succ_in_range word_less_nat_alt word_le_nat_alt)
  have np: "unat np \<le> unat hw + 1" "unat np = unat hw + 1 \<longrightarrow> unat nl = 0"
    using assms(1) hw(1) by (auto simp: word_le_nat_alt word_unat_eq_iff)
  then have "unat (np + 1) = unat np + 1" using hw by (simp add: unat_word_ariths)
  with hw np assms(4-6) show ?thesis
    by (auto simp: project_grant_nat word_less_nat_alt word_le_nat_alt)
qed

lemma extension_then_grant:
  assumes "alloc_ok a" "alloc_epoch a = Some e" "validate_count count = Inr ()"
    and "alloc_try_prepare_window_extension now ahead_ms a = Inr requested"
    and "requested \<le> actual" "pms_ok actual"
    and "alloc_try_commit_window_extension actual e a = (r, a')"
  shows "r = Inr (Applied (pms_get actual)) \<and> (\<exists>g. fst (alloc_try_grant (pms_get now) count a') = Inr g)"
  using assms(4,1)
proof (rule prepare_extension_InrD)
  fix e' hw np nl
  assume st: "alloc_state a = Leader e' hw np nl" and r: "hw < pms_get requested"
    "pms_get now \<le> pms_get requested"
  have e: "e' = e" using assms(2) st by (simp add: alloc_epoch_def)
  have hw: "hw < pms_get actual" "pms_get now \<le> pms_get actual"
    using r assms(5) by (auto simp: less_eq_physical_ms_def)
  with assms(7) st e have a': "r = Inr (Applied (pms_get actual))"
      "alloc_state a' = Leader e (pms_get actual) np nl"
    by (auto simp: alloc_try_commit_window_extension_def Let_def split: if_splits)
  have "is_ok (project_grant np nl (pms_get actual) (pms_get now) count)"
    using project_grant_fits [OF _ hw(1) _ hw(2)] assms(1,3,6) st
    by (simp add: alloc_ok_def pms_ok_def validate_count_Inr_iff)
  then have "alloc_would_grant (pms_get now) count a'"
    using a'(2) assms(3) by (simp add: alloc_would_grant_def)
  with a'(1) show ?thesis by (simp add: would_grant_iff is_ok_iff)
qed

text \<open>With the extension in range, a blocked grant is blocked on the window alone.\<close>

lemma blocked_grant_exhausts:
  assumes "alloc_ok a" "validate_count count = Inr ()"
    and "alloc_try_prepare_window_extension now ahead_ms a = Inr requested"
    and "alloc_try_grant (pms_get now) count a = (Inl e, a')"
  shows "e = WindowExhausted"
  using assms(3,1)
proof (rule prepare_extension_InrD)
  fix e' hw np nl
  assume st: "alloc_state a = Leader e' hw np nl" and r: "hw < pms_get requested"
    "pms_get now \<le> pms_get requested" and q: "pms_ok requested"
  have c: "0 < unat count" "unat count \<le> 262144" using assms(2) by (simp_all add: validate_count_Inr_iff)
  have sok: "state_ok (Leader e' hw np nl)" using assms(1) st by (simp add: alloc_ok_def)
  have hw: "unat (hw + 1) = unat hw + 1" "unat hw < unat (pms_get requested)" "unat (pms_get requested) \<le> 70368744177663"
    using sok r(1) q by (simp_all add: unat_succ_in_range word_less_nat_alt word_le_nat_alt pms_ok_def)
  have np: "unat np \<le> unat hw + 1" "unat np = unat hw + 1 \<longrightarrow> unat nl = 0"
    using sok hw(1) by (auto simp: word_le_nat_alt word_unat_eq_iff)
  then have "unat (np + 1) = unat np + 1" using hw by (simp add: unat_word_ariths)
  with np hw c r(2) have "\<not> (\<exists>x. project_grant np nl hw (pms_get now) count = Inl (PhysicalMsOutOfRange x))"
    by (auto simp: project_grant_nat word_less_nat_alt word_le_nat_alt)
  then have "project_grant np nl hw (pms_get now) count = Inl e \<Longrightarrow> e = WindowExhausted" for e
    by (auto simp: project_grant_def Let_def split: if_splits)
  with assms(2,4) st show ?thesis
    by (auto simp: alloc_try_grant_def split: sum.splits prod.splits)
qed

section \<open>Properties\<close>

text \<open>
  Between two leadership changes the allocator only ever issues upwards: whatever
  requests arrive, whatever the clock reads (also when it steps backwards) and
  whatever bounds are committed, every timestamp of a later grant is strictly greater
  than every timestamp of an earlier one, and no grant fails to pack.
\<close>

theorem allocator_grants_strictly_increase:
  assumes "alloc_ok a"
  shows "sorted_wrt grant_before (fst (run_emit alloc_cmd_step a cmds))"
  using ai.run_strictly_increasing [OF assms] alloc_run_grants_ok [OF assms]
  by (rule sorted_wrt_grant_before)

theorem allocator_grants_strictly_increase_witness:
  "alloc_ok \<lparr>alloc_state = Leader (Epoch 1) 5000 1000 0\<rparr> \<and>
   length (fst (run_emit alloc_cmd_step \<lparr>alloc_state = Leader (Epoch 1) 5000 1000 0\<rparr>
     [CmdGrant 1200 7, CmdGrant 900 3, CmdCommit 9000 (Epoch 1), CmdGrant 8000 2])) = 3 \<and>
   sorted_wrt grant_before (fst (run_emit alloc_cmd_step
     \<lparr>alloc_state = Leader (Epoch 1) 5000 1000 0\<rparr>
     [CmdGrant 1200 7, CmdGrant 900 3, CmdCommit 9000 (Epoch 1), CmdGrant 8000 2]))"
proof -
  have h: "alloc_ok \<lparr>alloc_state = Leader (Epoch 1) 5000 1000 0\<rparr>" by code_simp
  have l: "length (fst (run_emit alloc_cmd_step \<lparr>alloc_state = Leader (Epoch 1) 5000 1000 0\<rparr>
     [CmdGrant 1200 7, CmdGrant 900 3, CmdCommit 9000 (Epoch 1), CmdGrant 8000 2])) = 3"
    by code_simp
  show ?thesis using h l allocator_grants_strictly_increase [OF h] by blast
qed

text \<open>
  A successful grant has the requested size, belongs to the current epoch, packs,
  lies inside the committed window, starts at or above both the clock reading and
  the cursor, and leaves a well-formed allocator whose cursor is exactly past the
  grant.
\<close>

theorem try_grant_correct:
  assumes "alloc_ok a" "alloc_try_grant now_ms count a = (Inr g, a')"
  shows "wg_count g = count \<and> alloc_epoch a = Some (wg_epoch g) \<and> wg_first g \<noteq> None \<and> wg_last g \<noteq> None \<and>
    now_ms \<le> wg_physical_ms g \<and> alloc_cursor a \<le> wg_lo g \<and> alloc_cursor a' = wg_lo g + unat count \<and>
    (\<exists>hw. alloc_committed_high_water a = Some hw \<and> wg_physical_ms g \<le> hw) \<and> alloc_ok a'"
  using try_grant_spec [OF assms(2,1)] wg_first_last [of g] by auto

theorem try_grant_correct_witness:
  "alloc_ok \<lparr>alloc_state = Leader (Epoch 1) 5000 1000 262140\<rparr> \<and>
   alloc_try_grant 900 10 \<lparr>alloc_state = Leader (Epoch 1) 5000 1000 262140\<rparr> =
     (Inr \<lparr>wg_physical_ms = 1001, wg_logical_start = 0, wg_count = 10, wg_epoch = Epoch 1\<rparr>,
      \<lparr>alloc_state = Leader (Epoch 1) 5000 1001 10\<rparr>) \<and>
   alloc_ok \<lparr>alloc_state = Leader (Epoch 1) 5000 1001 10\<rparr>"
proof -
  have h: "alloc_ok \<lparr>alloc_state = Leader (Epoch 1) 5000 1000 262140\<rparr>" by code_simp
  have t: "alloc_try_grant 900 10 \<lparr>alloc_state = Leader (Epoch 1) 5000 1000 262140\<rparr> =
     (Inr \<lparr>wg_physical_ms = 1001, wg_logical_start = 0, wg_count = 10, wg_epoch = Epoch 1\<rparr>,
      \<lparr>alloc_state = Leader (Epoch 1) 5000 1001 10\<rparr>)" by code_simp
  show ?thesis using h t try_grant_correct [OF h t] by blast
qed

text \<open>
  The non-mutating predicate \<open>would_grant\<close> predicts \<open>try_grant\<close> exactly, and a
  grant that fails leaves the allocator untouched.
\<close>

theorem would_grant_predicts_try_grant:
  "case alloc_try_grant now_ms count a of
     (Inr g, a') \<Rightarrow> alloc_would_grant now_ms count a
   | (Inl e, a') \<Rightarrow> \<not> alloc_would_grant now_ms count a \<and> a' = a"
  by (auto simp: would_grant_iff dest: try_grant_error_unchanged split: prod.splits sum.splits)

text \<open>
  Progress of the extend-and-retry loop: when the bound the allocator asked for
  (or any larger one) is committed at its epoch, the grant that had exhausted the
  window succeeds at the same clock reading, even with no slack (\<open>ahead_ms = 0\<close>).
\<close>

theorem extension_unblocks_grant:
  assumes "alloc_ok a" "alloc_epoch a = Some e" "validate_count count = Inr ()"
    and "alloc_try_prepare_window_extension now ahead_ms a = Inr requested"
    and "requested \<le> actual" "pms_ok actual"
    and "alloc_try_commit_window_extension actual e a = (r, a')"
  shows "r = Inr (Applied (pms_get actual)) \<and> (\<exists>g. fst (alloc_try_grant (pms_get now) count a') = Inr g)"
  using assms by (rule extension_then_grant)

theorem extension_unblocks_grant_witness:
  "fst (alloc_try_grant 1000 262144 \<lparr>alloc_state = Leader (Epoch 1) 1000 1000 1\<rparr>) = Inl WindowExhausted \<and>
   (\<exists>g. fst (alloc_try_grant 1000 262144 \<lparr>alloc_state = Leader (Epoch 1) 1001 1000 1\<rparr>) = Inr g)"
proof -
  let ?a = "\<lparr>alloc_state = Leader (Epoch 1) 1000 1000 1\<rparr>"
  have w: "fst (alloc_try_grant 1000 262144 ?a) = Inl WindowExhausted" by code_simp
  have h: "alloc_ok ?a" "alloc_epoch ?a = Some (Epoch 1)" "validate_count 262144 = Inr ()"
    "alloc_try_prepare_window_extension (PhysicalMs 1000) 0 ?a = Inr (PhysicalMs 1001)"
    "PhysicalMs 1001 \<le> PhysicalMs 1001" "pms_ok (PhysicalMs 1001)"
    "alloc_try_commit_window_extension (PhysicalMs 1001) (Epoch 1) ?a =
       (Inr (Applied 1001), \<lparr>alloc_state = Leader (Epoch 1) 1001 1000 1\<rparr>)"
    by code_simp+
  show ?thesis using w extension_unblocks_grant [OF h] by simp
qed

text \<open>
  Committing a persisted bound is fenced and monotone: it takes effect exactly
  when the allocator still leads the expected epoch and the value advances the bound,
  and in every other case reports why and changes nothing.
\<close>

theorem commit_window_extension_fenced:
  "alloc_try_commit_window_extension p e a =
     (case alloc_state a of
        NotLeader \<Rightarrow> (Inr (Ignored IgnoreNotLeader), a)
      | Leader cur hw np nl \<Rightarrow>
          if cur = e \<and> hw < pms_get p
          then (Inr (Applied (pms_get p)), a\<lparr>alloc_state := Leader cur (max hw (pms_get p)) np nl\<rparr>)
          else (Inr (Ignored (if cur \<noteq> e then IgnoreEpochMismatch e cur
                              else IgnoreNotAdvanced (pms_get p) hw)), a))"
  by (auto simp: alloc_try_commit_window_extension_def Let_def max_def split: alloc_state.splits)

end
