(* ===== verification/Seq.thy ===== *)
theory Seq
  imports Allocator
begin

text \<open>
  Dense-sequence types (\<open>tsoracle-core/src/seq.rs\<close>): validated keys, contiguous
  blocks, and the leadership gate that validates a request before it reaches the
  durable layer.
\<close>

section \<open>Keys\<close>

definition MAX_SEQ_KEY_LEN :: nat where "MAX_SEQ_KEY_LEN = 128"
definition DEFAULT_MAX_SEQ_BATCH_KEYS :: u32 where "DEFAULT_MAX_SEQ_BATCH_KEYS = 128"
definition DEFAULT_MAX_SEQ_COUNT :: u32 where "DEFAULT_MAX_SEQ_COUNT = 65536"

datatype seq_key = SeqKey (key_str: str)

definition seq_key_try_new :: "str \<Rightarrow> (core_error, seq_key) result" where
  "seq_key_try_new s =
     (if s = [] then Inl SeqKeyEmpty
      else if length s > MAX_SEQ_KEY_LEN then Inl (SeqKeyTooLong (length s) MAX_SEQ_KEY_LEN)
      else Inr (SeqKey s))"

section \<open>Blocks\<close>

record seq_grant =
  sg_key :: seq_key
  sg_start :: u64
  sg_count :: u32
  sg_epoch :: epoch

definition seq_grant_try_new ::
  "seq_key \<Rightarrow> u64 \<Rightarrow> u32 \<Rightarrow> epoch \<Rightarrow> (core_error, seq_grant) result" where
  "seq_grant_try_new key start count epoch =
     (if count = 0 then Inl SeqCountZero
      else if checked_add start (ucast count - 1) = None then Inl (SeqBlockOverflow start count)
      else Inr \<lparr>sg_key = key, sg_start = start, sg_count = count, sg_epoch = epoch\<rparr>)"

definition sg_last :: "seq_grant \<Rightarrow> u64" where
  "sg_last g = sg_start g + (ucast (sg_count g) - 1)"

section \<open>The leadership gate\<close>

datatype seq_state = SeqNotLeader | SeqLeader epoch

record seq_allocator =
  seq_state :: seq_state

definition seq_new :: seq_allocator where
  "seq_new = \<lparr>seq_state = SeqNotLeader\<rparr>"

definition seq_become_leader :: "epoch \<Rightarrow> seq_allocator \<Rightarrow> seq_allocator" where
  "seq_become_leader epoch a = a\<lparr>seq_state := SeqLeader epoch\<rparr>"

definition seq_step_down :: "seq_allocator \<Rightarrow> seq_allocator" where
  "seq_step_down a = a\<lparr>seq_state := SeqNotLeader\<rparr>"

definition seq_is_leader :: "seq_allocator \<Rightarrow> bool" where
  "seq_is_leader a = (case seq_state a of SeqLeader _ \<Rightarrow> True | SeqNotLeader \<Rightarrow> False)"

definition seq_epoch :: "seq_allocator \<Rightarrow> epoch option" where
  "seq_epoch a = (case seq_state a of SeqLeader e \<Rightarrow> Some e | SeqNotLeader \<Rightarrow> None)"

definition seq_validate_request ::
  "seq_allocator \<Rightarrow> str \<Rightarrow> u32 \<Rightarrow> u32 \<Rightarrow> (core_error, seq_key) result" where
  "seq_validate_request a key count max_count =
     (if \<not> seq_is_leader a then Inl CoreNotLeader
      else if count = 0 then Inl SeqCountZero
      else if count > max_count then Inl (SeqCountTooLarge count max_count)
      else seq_key_try_new key)"

section \<open>Lemmas\<close>

text \<open>The type invariant of \<open>SeqKey\<close>.\<close>

definition seq_key_ok :: "seq_key \<Rightarrow> bool" where
  "seq_key_ok k \<longleftrightarrow> key_str k \<noteq> [] \<and> length (key_str k) \<le> MAX_SEQ_KEY_LEN"

lemma seq_key_try_new_Inr_iff:
  "seq_key_try_new s = Inr k \<longleftrightarrow> k = SeqKey s \<and> seq_key_ok k"
  by (auto simp: seq_key_try_new_def seq_key_ok_def)

lemma validate_request_Inr_iff:
  "seq_validate_request a key count max_count = Inr k \<longleftrightarrow>
     seq_is_leader a \<and> 0 < unat count \<and> count \<le> max_count \<and> k = SeqKey key \<and> seq_key_ok k"
  by (auto simp: seq_validate_request_def seq_key_try_new_Inr_iff unat_gt_0 not_less)

lemma count_pred_nat: "0 < unat (count :: u32) \<Longrightarrow> unat (ucast count - 1 :: u64) = unat count - 1"
  by (simp add: unat_sub word_le_nat_alt)

lemma seq_grant_try_new_Inr_iff:
  "seq_grant_try_new key start count epoch = Inr g \<longleftrightarrow>
     0 < unat count \<and> unat start + unat count \<le> 2 ^ 64 \<and>
     g = \<lparr>sg_key = key, sg_start = start, sg_count = count, sg_epoch = epoch\<rparr>"
proof (cases "unat count = 0")
  case True
  then show ?thesis by (simp add: seq_grant_try_new_def unat_eq_zero)
next
  case False
  then have "unat (ucast count - 1 :: u64) = unat count - 1" "count \<noteq> 0"
    by (auto simp: count_pred_nat)
  with False unat_u64_bound [of start] show ?thesis
    by (auto simp: seq_grant_try_new_def checked_add_None_iff not_le)
qed

section \<open>Properties\<close>

text \<open>
  A dense block that the constructor accepts is non-empty and its last ordinal is
  computed without wrap-around, even when the block ends at the largest ordinal.
\<close>

theorem seq_grant_last_exact:
  assumes "seq_grant_try_new key start count epoch = Inr g"
  shows "0 < unat (sg_count g) \<and> unat (sg_last g) = unat (sg_start g) + unat (sg_count g) - 1"
  using assms count_pred_nat [of count]
  by (auto simp: seq_grant_try_new_Inr_iff sg_last_def unat_add_no_wrap)

theorem seq_grant_last_exact_witness:
  "seq_grant_try_new (SeqKey [107]) 18446744073709551615 1 (Epoch 1) =
     Inr \<lparr>sg_key = SeqKey [107], sg_start = 18446744073709551615, sg_count = 1, sg_epoch = Epoch 1\<rparr> \<and>
   unat (sg_last \<lparr>sg_key = SeqKey [107], sg_start = 18446744073709551615, sg_count = 1, sg_epoch = Epoch 1\<rparr>)
     = 18446744073709551615"
proof -
  have h: "seq_grant_try_new (SeqKey [107]) 18446744073709551615 1 (Epoch 1) =
     Inr \<lparr>sg_key = SeqKey [107], sg_start = 18446744073709551615, sg_count = 1, sg_epoch = Epoch 1\<rparr>"
    by code_simp
  show ?thesis using h seq_grant_last_exact [OF h] by simp
qed

text \<open>
  A dense request passes the gate exactly when the node leads, the count is
  between one and the configured maximum and the key is between 1 and 128 bytes; the
  validated key is the requested one.
\<close>

theorem validate_request_accepts_iff:
  "seq_validate_request a key count max_count = Inr k \<longleftrightarrow>
     seq_is_leader a \<and> 1 \<le> unat count \<and> unat count \<le> unat max_count \<and>
     1 \<le> length key \<and> length key \<le> 128 \<and> k = SeqKey key"
  by (auto simp: validate_request_Inr_iff seq_key_ok_def MAX_SEQ_KEY_LEN_def word_le_nat_alt Suc_le_eq)

end
