(* ===== verification/Lease.thy ===== *)
theory Lease
  imports Prelude
begin

text \<open>
  The lease table (\<open>tsoracle-core/src/lease.rs\<close>): lease records, request validation,
  and the prepare/commit pairs for acquire, renew and release over a map ordered by
  lease id. The invariant is that records are filed under their own id and that a
  holder group has at most one record that is not superseded. The central agreement
  property is that the set projected for persistence is the live set the commit
  leaves behind.
\<close>

section \<open>Records and validation\<close>

definition MAX_LEASE_HOLDER_LEN :: nat where "MAX_LEASE_HOLDER_LEN = 128"
definition DEFAULT_LEASE_TTL_FLOOR_MS :: u64 where "DEFAULT_LEASE_TTL_FLOOR_MS = 5000"
definition DEFAULT_LEASE_TTL_CEILING_MS :: u64 where "DEFAULT_LEASE_TTL_CEILING_MS = 300000"

record lease_record =
  lease_id :: u64
  holder :: bytes
  holder_epoch :: u64
  ttl_ms :: u64
  ts_upper_bound :: u64
  expires_at_ms :: u64
  superseded :: bool

definition is_expired :: "u64 \<Rightarrow> lease_record \<Rightarrow> bool" where
  "is_expired now_ms r \<longleftrightarrow> now_ms \<ge> expires_at_ms r"

datatype lease_error =
    HolderLenOutOfRange nat
  | TtlOutOfRange u64 u64 u64
  | HolderEpochStale u64 u64
  | UnknownLease u64
  | LeaseExpired u64 u64
  | LeaseSuperseded u64 u64

definition validate_lease_request ::
  "bytes \<Rightarrow> u64 \<Rightarrow> u64 \<Rightarrow> u64 \<Rightarrow> (lease_error, unit) result" where
  "validate_lease_request h ttl floor_ms ceiling_ms =
     (if h = [] \<or> length h > MAX_LEASE_HOLDER_LEN then Inl (HolderLenOutOfRange (length h))
      else if ttl < floor_ms \<or> ttl > ceiling_ms then Inl (TtlOutOfRange ttl floor_ms ceiling_ms)
      else Inr ())"

datatype acquire_decision = Idempotent lease_record | Grant "u64 option"

section \<open>The table\<close>

record lease_table =
  records :: "(u64, lease_record) btree_map"

definition lt_new :: lease_table where "lt_new = \<lparr>records = []\<rparr>"

definition lt_seed :: "lease_record list \<Rightarrow> u64 \<Rightarrow> lease_table \<Rightarrow> lease_table" where
  "lt_seed rs now_ms t =
     t\<lparr>records := bt_collect (map (\<lambda>r. (lease_id r, r)) (filter (\<lambda>r. \<not> is_expired now_ms r) rs))\<rparr>"

definition lt_clear :: "lease_table \<Rightarrow> lease_table" where
  "lt_clear t = t\<lparr>records := []\<rparr>"

definition active_for :: "bytes \<Rightarrow> u64 \<Rightarrow> lease_table \<Rightarrow> lease_record option" where
  "active_for h now_ms t =
     find (\<lambda>r. \<not> superseded r \<and> \<not> is_expired now_ms r \<and> holder r = h) (map snd (records t))"

definition lt_prepare_acquire ::
  "bytes \<Rightarrow> u64 \<Rightarrow> u64 \<Rightarrow> lease_table \<Rightarrow> (lease_error, acquire_decision) result" where
  "lt_prepare_acquire h h_epoch now_ms t =
     (case active_for h now_ms t of
        None \<Rightarrow> Inr (Grant None)
      | Some active \<Rightarrow>
          if holder_epoch active = h_epoch then Inr (Idempotent active)
          else if holder_epoch active < h_epoch then Inr (Grant (Some (lease_id active)))
          else Inl (HolderEpochStale h_epoch (holder_epoch active)))"

definition lt_prune_expired :: "u64 \<Rightarrow> lease_table \<Rightarrow> lease_table" where
  "lt_prune_expired now_ms t = t\<lparr>records := bt_retain (\<lambda>_ r. \<not> is_expired now_ms r) (records t)\<rparr>"

text \<open>\<open>if let Some(old) = map.get_mut(&id) { old.superseded = true }\<close>\<close>

definition mark_superseded :: "u64 option \<Rightarrow> (u64, lease_record) btree_map \<Rightarrow> (u64, lease_record) btree_map" where
  "mark_superseded s m =
     (case s of None \<Rightarrow> m | Some i \<Rightarrow> bt_update i (\<lambda>r. r\<lparr>superseded := True\<rparr>) m)"

definition lt_commit_acquire :: "lease_record \<Rightarrow> u64 option \<Rightarrow> u64 \<Rightarrow> lease_table \<Rightarrow> lease_table" where
  "lt_commit_acquire r supersedes now_ms t =
     lt_prune_expired now_ms
       (t\<lparr>records := bt_insert (lease_id r) r (mark_superseded supersedes (records t))\<rparr>)"

definition lt_prepare_renew :: "u64 \<Rightarrow> u64 \<Rightarrow> lease_table \<Rightarrow> (lease_error, lease_record) result" where
  "lt_prepare_renew i now_ms t =
     (case bt_get (records t) i of
        None \<Rightarrow> Inl (UnknownLease i)
      | Some r \<Rightarrow>
          if is_expired now_ms r then Inl (LeaseExpired i (expires_at_ms r))
          else if superseded r then
            Inl (LeaseSuperseded i
              (case iter_max (map holder_epoch
                  (filter (\<lambda>x. holder x = holder r \<and> holder_epoch x > holder_epoch r)
                     (map snd (records t)))) of
                 None \<Rightarrow> holder_epoch r | Some e \<Rightarrow> e))
          else Inr r)"

definition lt_commit_renew :: "lease_record \<Rightarrow> u64 \<Rightarrow> lease_table \<Rightarrow> lease_table" where
  "lt_commit_renew r now_ms t =
     lt_prune_expired now_ms (t\<lparr>records := bt_insert (lease_id r) r (records t)\<rparr>)"

definition lt_prepare_release :: "u64 \<Rightarrow> lease_table \<Rightarrow> lease_record option" where
  "lt_prepare_release i t = bt_get (records t) i"

definition lt_commit_release :: "u64 \<Rightarrow> u64 \<Rightarrow> lease_table \<Rightarrow> lease_table" where
  "lt_commit_release i now_ms t =
     lt_prune_expired now_ms (t\<lparr>records := bt_remove i (records t)\<rparr>)"

definition min_unexpired_bound :: "u64 \<Rightarrow> lease_table \<Rightarrow> u64 option" where
  "min_unexpired_bound now_ms t =
     iter_min (map ts_upper_bound (filter (\<lambda>r. \<not> is_expired now_ms r) (map snd (records t))))"

definition live_set :: "u64 \<Rightarrow> lease_table \<Rightarrow> lease_record list" where
  "live_set now_ms t = filter (\<lambda>r. \<not> is_expired now_ms r) (map snd (records t))"

definition projected_live_set ::
  "lease_record option \<Rightarrow> u64 option \<Rightarrow> u64 option \<Rightarrow> u64 \<Rightarrow> lease_table \<Rightarrow> lease_record list" where
  "projected_live_set upsert supersede remove now_ms t =
     (let live = bt_retain (\<lambda>_ r. \<not> is_expired now_ms r) (records t);
          marked = mark_superseded supersede live;
          removed = (case remove of None \<Rightarrow> marked | Some i \<Rightarrow> bt_remove i marked);
          final = (case upsert of None \<Rightarrow> removed | Some r \<Rightarrow> bt_insert (lease_id r) r removed)
      in map snd final)"

section \<open>Invariant\<close>

text \<open>Records are filed under their own id.\<close>

definition filed :: "(u64, lease_record) btree_map \<Rightarrow> bool" where
  "filed m \<longleftrightarrow> bt_wf m \<and> (\<forall>(i, r) \<in> set m. lease_id r = i)"

text \<open>A holder group has at most one record that is not superseded.\<close>

definition one_active :: "(u64, lease_record) btree_map \<Rightarrow> bool" where
  "one_active m \<longleftrightarrow> (\<forall>(i, r) \<in> set m. \<forall>(j, q) \<in> set m.
     \<not> superseded r \<and> \<not> superseded q \<and> holder r = holder q \<longrightarrow> i = j)"

definition table_ok :: "lease_table \<Rightarrow> bool" where
  "table_ok t \<longleftrightarrow> filed (records t) \<and> one_active (records t)"

lemma filed_get_iff:
  "filed m \<longleftrightarrow> bt_wf m \<and> (\<forall>i r. bt_get m i = Some r \<longrightarrow> lease_id r = i)"
  by (auto simp: filed_def bt.get_Some_iff)

lemma one_active_get_iff:
  "bt_wf m \<Longrightarrow> one_active m \<longleftrightarrow> (\<forall>i j r q. bt_get m i = Some r \<longrightarrow> bt_get m j = Some q \<longrightarrow>
     \<not> superseded r \<longrightarrow> \<not> superseded q \<longrightarrow> holder r = holder q \<longrightarrow> i = j)"
  by (fastforce simp: one_active_def bt.get_Some_iff)

lemma filed_wf: "filed m \<Longrightarrow> bt_wf m" by (simp add: filed_def)

lemma mark_superseded_get:
  "bt_get (mark_superseded s m) k =
     (if s = Some k then map_option (\<lambda>r. r\<lparr>superseded := True\<rparr>) (bt_get m k) else bt_get m k)"
  by (auto simp: mark_superseded_def bt_simps split: option.splits)

lemma mark_superseded_wf: "bt_wf m \<Longrightarrow> bt_wf (mark_superseded s m)"
  by (auto simp: mark_superseded_def split: option.splits)

lemma filed_ops:
  assumes "filed m"
  shows "filed (mark_superseded s m)" "filed (bt_retain P m)" "filed (bt_remove i m)"
    "filed (bt_insert (lease_id r) r m)"
  using assms mark_superseded_wf [of m s]
  by (auto simp: filed_get_iff mark_superseded_get bt_simps split: option.splits if_splits)

lemma filed_Nil [simp]: "filed []" by (simp add: filed_def)

lemma filed_collect: "filed (bt_collect (map (\<lambda>r. (lease_id r, r)) rs))"
proof -
  have "filed m \<Longrightarrow> filed (fold (\<lambda>e m. bt_insert (fst e) (snd e) m) (map (\<lambda>r. (lease_id r, r)) rs) m)" for m
    by (induction rs arbitrary: m) (auto simp: filed_ops(4))
  then show ?thesis by (simp add: bt_collect_def)
qed

lemma is_expired_superseded [simp]: "is_expired now (r\<lparr>superseded := b\<rparr>) = is_expired now r"
  by (simp add: is_expired_def)

lemma live_set_retain: "live_set now t = map snd (bt_retain (\<lambda>_ r. \<not> is_expired now r) (records t))"
  by (simp add: live_set_def bt_retain_def filter_map comp_def)

lemma retain_retain: "bt_retain P (bt_retain P m) = bt_retain P m"
  by (simp add: bt_retain_def)

lemma live_set_prune: "live_set now (lt_prune_expired now t) = map snd (records (lt_prune_expired now t))"
  by (simp add: live_set_retain lt_prune_expired_def retain_retain)

section \<open>Decisions\<close>

lemma active_for_SomeD:
  assumes "active_for h now t = Some r" "filed (records t)"
  shows "bt_get (records t) (lease_id r) = Some r" "\<not> superseded r" "\<not> is_expired now r" "holder r = h"
proof -
  obtain i where "(i, r) \<in> set (records t)" "\<not> superseded r \<and> \<not> is_expired now r \<and> holder r = h"
    using assms(1) by (auto simp: active_for_def find_Some_iff in_set_conv_nth) (metis nth_mem prod.collapse)
  with assms(2) show "bt_get (records t) (lease_id r) = Some r" "\<not> superseded r"
      "\<not> is_expired now r" "holder r = h"
    by (auto simp: filed_def bt.get_Some_iff)
qed

lemma active_for_None:
  assumes "active_for h now t = None" "filed (records t)" "bt_get (records t) i = Some r"
  shows "superseded r \<or> is_expired now r \<or> holder r \<noteq> h"
  using assms by (fastforce simp: active_for_def find_None_iff filed_def bt.get_Some_iff)

lemma active_for_unique:
  assumes "table_ok t" "bt_get (records t) i = Some r" "\<not> superseded r" "\<not> is_expired now r"
  shows "active_for (holder r) now t = Some r"
proof (cases "active_for (holder r) now t")
  case None
  with assms(1) active_for_None [OF None _ assms(2)] assms(3,4) show ?thesis by (auto simp: table_ok_def)
next
  case (Some q)
  note q = active_for_SomeD [OF Some] assms(1)
  then have "lease_id q = i"
    using assms(2,3) one_active_get_iff [of "records t"] filed_wf
    by (fastforce simp: table_ok_def)
  with q assms(1,2) Some show ?thesis by (simp add: table_ok_def)
qed

section \<open>Commits keep the invariant\<close>

lemma commit_acquire_ok:
  assumes ok: "table_ok t" and dec: "lt_prepare_acquire (holder r) he now t = Inr (Grant s)"
  shows "table_ok (lt_commit_acquire r s now t)"
proof -
  let ?m = "mark_superseded s (records t)"
  let ?n = "bt_retain (\<lambda>_ r. \<not> is_expired now r) (bt_insert (lease_id r) r ?m)"
  have f: "filed (records t)" "filed ?m" "filed ?n" "bt_wf ?m" "bt_wf ?n"
    using ok filed_wf by (auto simp: table_ok_def intro!: filed_ops)
  have other: "superseded q" if q: "bt_get ?n j = Some q" "j \<noteq> lease_id r" "holder q = holder r" for j q
  proof (rule ccontr)
    assume n: "\<not> superseded q"
    from q f have "bt_get ?m j = Some q" "\<not> is_expired now q"
      by (auto simp: bt_simps bt.wf_insert split: option.splits if_splits)
    with n have g: "bt_get (records t) j = Some q" "s \<noteq> Some j"
      by (auto simp: mark_superseded_get split: if_splits)
    with n \<open>\<not> is_expired now q\<close> ok q(3) have "active_for (holder r) now t = Some q"
      using active_for_unique by metis
    with dec g f(1) show False
      by (auto simp: lt_prepare_acquire_def filed_get_iff split: if_splits)
  qed
  have old: "bt_get (records t) j = Some q'" "\<not> superseded q"
    if "bt_get ?n j = Some q" "j \<noteq> lease_id r" "\<not> superseded q" "q' = q" for j q q'
    using that f by (auto simp: bt_simps bt.wf_insert mark_superseded_get split: option.splits if_splits)
  have "one_active ?n"
    unfolding one_active_get_iff [OF f(5)]
  proof (intro allI impI)
    fix i j q p assume *: "bt_get ?n i = Some q" "bt_get ?n j = Some p" "\<not> superseded q"
      "\<not> superseded p" "holder q = holder p"
    have idq: "bt_get ?n k = Some x \<Longrightarrow> k = lease_id r \<Longrightarrow> x = r" for k x
      using f by (auto simp: bt_simps bt.wf_insert split: if_splits)
    consider "i = lease_id r" "j = lease_id r" | "i = lease_id r" "j \<noteq> lease_id r"
      | "i \<noteq> lease_id r" "j = lease_id r" | "i \<noteq> lease_id r" "j \<noteq> lease_id r" by blast
    then show "i = j"
    proof cases
      case 2
      with * other [of j p] idq [of i q] show ?thesis by auto
    next
      case 3
      with * other [of i q] idq [of j p] show ?thesis by auto
    next
      case 4
      with * old(1) [of i q q] old(1) [of j p p] ok f(1) show ?thesis
        using one_active_get_iff [OF filed_wf [OF f(1)]] by (auto simp: table_ok_def)
    qed simp
  qed
  with f(3) show ?thesis
    by (simp add: table_ok_def lt_commit_acquire_def lt_prune_expired_def)
qed

lemma one_active_subset:
  assumes "one_active m" "set m' \<subseteq> set m"
  shows "one_active m'"
  using assms unfolding one_active_def by blast

lemma commit_release_ok: "table_ok t \<Longrightarrow> table_ok (lt_commit_release i now t)"
  by (auto simp: table_ok_def lt_commit_release_def lt_prune_expired_def filed_ops
      intro!: one_active_subset [of "records t"]) (auto simp: bt_retain_def bt_remove_def)

lemma commit_renew_ok:
  assumes ok: "table_ok t" and pr: "lt_prepare_renew i now t = Inr r"
    and r': "lease_id r' = lease_id r" "holder r' = holder r"
  shows "table_ok (lt_commit_renew r' now t)"
proof -
  have g: "bt_get (records t) i = Some r" "\<not> superseded r"
    using pr by (auto simp: lt_prepare_renew_def split: option.splits if_splits)
  have f: "filed (records t)" "bt_wf (records t)" using ok filed_wf by (auto simp: table_ok_def)
  with g r' have i: "lease_id r' = i" by (simp add: filed_get_iff)
  let ?n = "bt_retain (\<lambda>_ r. \<not> is_expired now r) (bt_insert (lease_id r') r' (records t))"
  have fn: "filed ?n" "bt_wf ?n" using f by (auto intro!: filed_ops)
  have "one_active (records t)" using ok by (simp add: table_ok_def)
  then have "one_active ?n"
    using f g i r'(2) fn unfolding one_active_get_iff [OF f(2)] one_active_get_iff [OF fn(2)]
    by (auto simp: bt_simps bt.wf_insert split: option.splits if_splits)
  with fn show ?thesis by (simp add: table_ok_def lt_commit_renew_def lt_prune_expired_def)
qed

section \<open>Projection and recovery\<close>

lemma retain_insert:
  assumes "bt_wf m" "P k v"
  shows "bt_retain P (bt_insert k v m) = bt_insert k v (bt_retain P m)"
  using assms by (intro bt.entries_unique) (auto simp: bt_simps bt.wf_insert fun_eq_iff)

lemma retain_remove:
  assumes "bt_wf m"
  shows "bt_retain P (bt_remove k m) = bt_remove k (bt_retain P m)"
  by (simp add: bt_retain_def bt_remove_def conj_commute)

lemma retain_mark:
  assumes "bt_wf m"
  shows "bt_retain (\<lambda>_ r. \<not> is_expired now r) (mark_superseded s m)
       = mark_superseded s (bt_retain (\<lambda>_ r. \<not> is_expired now r) m)"
  using assms mark_superseded_wf
  by (intro bt.entries_unique)
    (auto simp: bt_simps mark_superseded_get fun_eq_iff split: option.splits)

lemma seed_records:
  assumes "filed m"
  shows "bt_collect (map (\<lambda>r. (lease_id r, r)) (map snd m)) = m"
proof (rule bt.entries_unique)
  have "map (\<lambda>r. (lease_id r, r)) (map snd m) = m"
    using assms by (auto simp: filed_def intro!: map_idI)
  moreover have "distinct (map fst m)" using assms filed_wf bt.distinct_keys by blast
  moreover have "bt_get (bt_collect m) k = bt_get m k" if "distinct (map fst m)" for k
    unfolding bt_collect_def bt_get_fold_insert [OF that] by (simp add: bt_get_def split: option.split)
  ultimately show "bt_get (bt_collect (map (\<lambda>r. (lease_id r, r)) (map snd m))) = bt_get m"
    by (simp add: fun_eq_iff)
qed (use assms filed_wf in auto)

lemma not_expired_mono: "now \<le> now' \<Longrightarrow> \<not> is_expired now' r \<Longrightarrow> \<not> is_expired now r"
  by (auto simp: is_expired_def)

section \<open>Properties\<close>

lemma prepare_acquire_cases:
  assumes "table_ok t"
  shows "case lt_prepare_acquire h he now t of
      Inr (Grant None) \<Rightarrow> \<forall>i r. bt_get (records t) i = Some r \<and> holder r = h \<longrightarrow> superseded r \<or> is_expired now r
    | Inr (Grant (Some i)) \<Rightarrow> \<exists>r. bt_get (records t) i = Some r \<and> active_for h now t = Some r \<and> holder_epoch r < he
    | Inr (Idempotent r) \<Rightarrow> bt_get (records t) (lease_id r) = Some r \<and> active_for h now t = Some r \<and> holder_epoch r = he
    | Inl e \<Rightarrow> \<exists>r. active_for h now t = Some r \<and> he < holder_epoch r \<and> e = HolderEpochStale he (holder_epoch r)"
proof (cases "active_for h now t")
  case None
  with assms active_for_None [OF None] show ?thesis
    by (auto simp: lt_prepare_acquire_def table_ok_def)
next
  case (Some r)
  with assms active_for_SomeD [OF Some] show ?thesis
    by (auto simp: lt_prepare_acquire_def table_ok_def)
qed

text \<open>
  Acquire is fenced by the holder epoch: when the holder group has an active,
  unexpired lease, the decision depends only on the comparison of the two epochs (same
  epoch returns that lease, a higher one is granted and names exactly that lease as the
  one it supersedes, a lower one is refused with the active epoch); after the grant is
  committed the new record is the only active one of its group and the table invariant
  still holds.
\<close>

theorem acquire_fenced_by_holder_epoch:
  assumes "table_ok t" "bt_get (records t) i = Some q" "\<not> superseded q" "\<not> is_expired now q"
    and "\<not> superseded r" "\<not> is_expired now r" "holder r = holder q"
  shows "lt_prepare_acquire (holder q) he now t =
      (if he = holder_epoch q then Inr (Idempotent q)
       else if holder_epoch q < he then Inr (Grant (Some i))
       else Inl (HolderEpochStale he (holder_epoch q)))
    \<and> (holder_epoch q < he \<longrightarrow>
      (let t' = lt_commit_acquire r (Some i) now t
       in table_ok t' \<and> active_for (holder q) now t' = Some r))"
proof (intro conjI impI)
  have a: "active_for (holder q) now t = Some q" using assms(1-4) by (rule active_for_unique)
  have i: "lease_id q = i" using assms(1,2) by (simp add: table_ok_def filed_get_iff)
  show dec: "lt_prepare_acquire (holder q) he now t =
      (if he = holder_epoch q then Inr (Idempotent q)
       else if holder_epoch q < he then Inr (Grant (Some i))
       else Inl (HolderEpochStale he (holder_epoch q)))"
    using a i by (auto simp: lt_prepare_acquire_def)
  assume "holder_epoch q < he"
  with dec assms(7) have "lt_prepare_acquire (holder r) he now t = Inr (Grant (Some i))" by auto
  with assms(1) have ok: "table_ok (lt_commit_acquire r (Some i) now t)" by (rule commit_acquire_ok)
  have "bt_wf (mark_superseded (Some i) (records t))"
    using assms(1) filed_wf mark_superseded_wf by (auto simp: table_ok_def)
  then have "bt_get (records (lt_commit_acquire r (Some i) now t)) (lease_id r) = Some r"
    using assms(6) by (simp add: lt_commit_acquire_def lt_prune_expired_def bt_simps bt.wf_insert)
  from active_for_unique [OF ok this assms(5,6)] ok assms(7)
  show "let t' = lt_commit_acquire r (Some i) now t
     in table_ok t' \<and> active_for (holder q) now t' = Some r" by (simp add: Let_def)
qed

theorem acquire_fenced_by_holder_epoch_witness:
  "let q = \<lparr>lease_id = 1, holder = [7], holder_epoch = 2, ttl_ms = 10,
         ts_upper_bound = 5, expires_at_ms = 10, superseded = False\<rparr>
   in lt_prepare_acquire [7] 3 4 \<lparr>records = [(1, q)]\<rparr> = Inr (Grant (Some 1))
    \<and> lt_prepare_acquire [7] 1 4 \<lparr>records = [(1, q)]\<rparr> = Inl (HolderEpochStale 1 2)"
  using acquire_fenced_by_holder_epoch
    [of "\<lparr>records = [(1, \<lparr>lease_id = 1, holder = [7], holder_epoch = 2, ttl_ms = 10,
         ts_upper_bound = 5, expires_at_ms = 10, superseded = False\<rparr>)]\<rparr>" 1
      "\<lparr>lease_id = 1, holder = [7], holder_epoch = 2, ttl_ms = 10,
         ts_upper_bound = 5, expires_at_ms = 10, superseded = False\<rparr>" 4
      "\<lparr>lease_id = 1, holder = [7], holder_epoch = 2, ttl_ms = 10,
         ts_upper_bound = 5, expires_at_ms = 10, superseded = False\<rparr>"]
  by (simp add: table_ok_def filed_def one_active_def bt_wf_def bt_get_def is_expired_def)

lemma projected_acquire:
  assumes "bt_wf (records t)" "\<not> is_expired now r"
  shows "projected_live_set (Some r) s None now t = live_set now (lt_commit_acquire r s now t)"
  using assms mark_superseded_wf [OF assms(1), of s]
  by (simp add: projected_live_set_def lt_commit_acquire_def live_set_retain lt_prune_expired_def retain_insert
      retain_mark retain_retain bt.wf_retain mark_superseded_wf)

lemma projected_renew:
  assumes "bt_wf (records t)" "\<not> is_expired now r"
  shows "projected_live_set (Some r) None None now t = live_set now (lt_commit_renew r now t)"
  using assms by (simp add: projected_live_set_def lt_commit_renew_def live_set_retain lt_prune_expired_def
      retain_insert retain_retain mark_superseded_def bt.wf_retain)

lemma projected_release:
  assumes "bt_wf (records t)"
  shows "projected_live_set None None (Some i) now t = live_set now (lt_commit_release i now t)"
  using assms by (simp add: projected_live_set_def lt_commit_release_def live_set_retain lt_prune_expired_def
      retain_remove retain_retain mark_superseded_def bt.wf_retain)

text \<open>
  The set a handler persists before it commits is the set the commit leaves live:
  for acquire, renew and release, \<open>projected_live_set\<close> computed before the durable write
  equals \<open>live_set\<close> of the table after the commit, record for record and in the same
  order.
\<close>

theorem projected_set_is_committed_set:
  assumes "bt_wf (records t)" "\<not> is_expired now r"
  shows "projected_live_set (Some r) s None now t = live_set now (lt_commit_acquire r s now t)
       \<and> projected_live_set (Some r) None None now t = live_set now (lt_commit_renew r now t)
       \<and> projected_live_set None None (Some i) now t = live_set now (lt_commit_release i now t)"
  using projected_acquire [OF assms] projected_renew [OF assms] projected_release [OF assms(1)] by blast

theorem projected_set_is_committed_set_witness:
  "let t = \<lparr>records = [(1, \<lparr>lease_id = 1, holder = [7], holder_epoch = 2, ttl_ms = 10,
         ts_upper_bound = 5, expires_at_ms = 10, superseded = False\<rparr>)]\<rparr>;
       r = \<lparr>lease_id = 3, holder = [7], holder_epoch = 4, ttl_ms = 10,
         ts_upper_bound = 6, expires_at_ms = 12, superseded = False\<rparr>
   in projected_live_set (Some r) (Some 1) None 2 t = live_set 2 (lt_commit_acquire r (Some 1) 2 t)"
  using projected_set_is_committed_set
    [of "\<lparr>records = [(1, \<lparr>lease_id = 1, holder = [7], holder_epoch = 2, ttl_ms = 10,
         ts_upper_bound = 5, expires_at_ms = 10, superseded = False\<rparr>)]\<rparr>" 2
      "\<lparr>lease_id = 3, holder = [7], holder_epoch = 4, ttl_ms = 10,
         ts_upper_bound = 6, expires_at_ms = 12, superseded = False\<rparr>" "Some 1" 0]
  by (simp add: bt_wf_def is_expired_def)

lemma live_filter_live:
  "now \<le> now' \<Longrightarrow> filter (\<lambda>r. \<not> is_expired now' r) (live_set now t)
     = map snd (bt_retain (\<lambda>_ r. \<not> is_expired now' r) (records t))"
  by (auto simp: live_set_def bt_retain_def filter_map comp_def
      intro!: arg_cong [of _ _ "map snd"] filter_cong dest: not_expired_mono)

text \<open>
  A new leader recovers exactly the leases that are still running: seeding a table
  from the live set another table persisted at an earlier time gives that table's
  unexpired records and nothing else, and keeps the invariant.
\<close>

theorem seed_recovers_running_leases:
  assumes "table_ok t" "now \<le> now'"
  shows "records (lt_seed (live_set now t) now' t') = records (lt_prune_expired now' t)
       \<and> table_ok (lt_seed (live_set now t) now' t')"
proof -
  have f: "filed (records t)" "one_active (records t)" using assms(1) by (simp_all add: table_ok_def)
  have r: "records (lt_seed (live_set now t) now' t') = bt_retain (\<lambda>_ r. \<not> is_expired now' r) (records t)"
    by (simp add: lt_seed_def live_filter_live [OF assms(2)] seed_records [OF filed_ops(2) [OF f(1)]]
        del: map_map)
  with f show ?thesis
    by (auto simp: table_ok_def lt_prune_expired_def filed_ops
        intro!: one_active_subset [of "records t"]) (auto simp: bt_retain_def)
qed

theorem seed_recovers_running_leases_witness:
  "let r = \<lparr>lease_id = 1, holder = [7], holder_epoch = 2, ttl_ms = 10,
         ts_upper_bound = 5, expires_at_ms = 10, superseded = False\<rparr>;
       q = \<lparr>lease_id = 4, holder = [8], holder_epoch = 2, ttl_ms = 10,
         ts_upper_bound = 5, expires_at_ms = 20, superseded = False\<rparr>
   in records (lt_seed (live_set 9 \<lparr>records = [(1, r), (4, q)]\<rparr>) 12 lt_new) = [(4, q)]"
  using seed_recovers_running_leases
    [of "\<lparr>records = [(1, \<lparr>lease_id = 1, holder = [7], holder_epoch = 2, ttl_ms = 10,
         ts_upper_bound = 5, expires_at_ms = 10, superseded = False\<rparr>),
       (4, \<lparr>lease_id = 4, holder = [8], holder_epoch = 2, ttl_ms = 10,
         ts_upper_bound = 5, expires_at_ms = 20, superseded = False\<rparr>)]\<rparr>" 9 12 lt_new]
  by (simp add: table_ok_def filed_def one_active_def bt_wf_def is_expired_def lt_prune_expired_def bt_retain_def)

text \<open>
  The bound used for snapshot reclamation is exact: with no unexpired lease there is
  no bound, otherwise the bound is the upper bound of some unexpired lease and no
  unexpired lease has a smaller one.
\<close>

theorem min_unexpired_bound_least:
  "case min_unexpired_bound now t of
     None \<Rightarrow> live_set now t = []
   | Some b \<Rightarrow> \<exists>r \<in> set (live_set now t). ts_upper_bound r = b
        \<and> {q \<in> set (live_set now t). ts_upper_bound q < b} = {}"
proof (cases "min_unexpired_bound now t")
  case None
  then have "live_set now t = []" by (simp add: min_unexpired_bound_def live_set_def)
  with None show ?thesis by simp
next
  case (Some b)
  then have "b \<in> set (map ts_upper_bound (live_set now t))"
      "\<forall>x \<in> set (map ts_upper_bound (live_set now t)). b \<le> x"
    unfolding min_unexpired_bound_def live_set_def iter_min_eq_Some_iff by blast+
  with Some show ?thesis by (auto simp: not_less)
qed

end
