(* ===== verification/Peer.thy ===== *)
theory Peer
  imports Prelude
begin

text \<open>
  Advertised peer endpoints (\<open>tsoracle-core/src/peer.rs\<close>): the validation that turns a
  string into a scheme-less \<open>host:port\<close>, and the standard-library string operations it
  calls. The property characterises the accepted strings.
\<close>

section \<open>Standard library\<close>

text \<open>A string literal as the bytes of a \<open>str\<close>.\<close>

definition lit :: "string \<Rightarrow> str" where
  "lit cs = map of_char cs"

definition starts_with :: "str \<Rightarrow> str \<Rightarrow> bool" where
  "starts_with s p \<longleftrightarrow> take (length p) s = p"

text \<open>
  \<open>str::rsplit_once\<close> for an ASCII separator: the parts before and after its last
  occurrence.
\<close>

definition rsplit_once :: "u8 \<Rightarrow> str \<Rightarrow> (str \<times> str) option" where
  "rsplit_once c s =
     (if c \<in> set s
      then Some (rev (tl (dropWhile (\<lambda>b. b \<noteq> c) (rev s))), rev (takeWhile (\<lambda>b. b \<noteq> c) (rev s)))
      else None)"

text \<open>
  \<open>u16::from_str\<close>: base 10, an optional leading plus sign, at least one digit, no
  overflow.
\<close>

fun parse_digits :: "u32 \<Rightarrow> str \<Rightarrow> u32 option" where
  "parse_digits acc [] = Some acc"
| "parse_digits acc (b # bs) =
     (if 48 \<le> b \<and> b \<le> 57 \<and> 10 * acc + ucast (b - 48) \<le> 65535
      then parse_digits (10 * acc + ucast (b - 48)) bs else None)"

definition u16_from_str :: "str \<Rightarrow> u16 option" where
  "u16_from_str s =
     (let digits = (case s of [] \<Rightarrow> [] | b # bs \<Rightarrow> if b = 43 then bs else s)
      in if digits = [] then None else map_option ucast (parse_digits 0 digits))"

section \<open>Endpoints\<close>

datatype peer_endpoint_error =
    EndpointEmpty
  | SchemeBearing str
  | MissingPort str
  | EmptyHost str
  | InvalidPort str string

datatype peer_endpoint = PeerEndpoint (as_str: str)

definition peer_try_from :: "str \<Rightarrow> (peer_endpoint_error, peer_endpoint) result" where
  "peer_try_from endpoint =
     (if endpoint = [] then Inl EndpointEmpty
      else if starts_with endpoint (lit ''http://'') \<or> starts_with endpoint (lit ''https://'')
      then Inl (SchemeBearing endpoint)
      else case rsplit_once 58 endpoint of
        None \<Rightarrow> Inl (MissingPort endpoint)
      | Some (host, port_str) \<Rightarrow>
          if host = [] then Inl (EmptyHost endpoint)
          else case u16_from_str port_str of
            None \<Rightarrow> Inl (InvalidPort endpoint ''must be a base-10 number in 1..=65535'')
          | Some port \<Rightarrow>
              if port = 0 then Inl (InvalidPort endpoint ''port 0 is reserved'')
              else Inr (PeerEndpoint endpoint))"

record tso_peer =
  peer_node_id :: u64
  peer_address :: peer_endpoint

section \<open>Lemmas\<close>

lemma rsplit_once_Some_iff:
  "rsplit_once c s = Some (a, b) \<longleftrightarrow> s = a @ c # b \<and> c \<notin> set b"
proof
  assume s: "rsplit_once c s = Some (a, b)"
  then have "c \<in> set (rev s)" by (auto simp: rsplit_once_def split: if_splits)
  then obtain xs ys where r: "rev s = xs @ c # ys" "c \<notin> set xs"
    using split_list_first by metis
  then have "takeWhile (\<lambda>b. b \<noteq> c) (rev s) = xs" "dropWhile (\<lambda>b. b \<noteq> c) (rev s) = c # ys"
    by (auto simp: takeWhile_append dropWhile_append)
  with s have "a = rev ys" "b = rev xs" by (auto simp: rsplit_once_def split: if_splits)
  moreover have "s = rev ys @ c # rev xs" using arg_cong [OF r(1), of rev] by simp
  ultimately show "s = a @ c # b \<and> c \<notin> set b" using r(2) by simp
next
  assume "s = a @ c # b \<and> c \<notin> set b"
  then show "rsplit_once c s = Some (a, b)"
    by (auto simp: rsplit_once_def takeWhile_append dropWhile_append)
qed

text \<open>
  An endpoint is accepted exactly when it has no \<open>http\<close> or \<open>https\<close> scheme and is a
  non-empty host, a colon and a colon-free port that reads as a non-zero 16-bit number
  (so a bracketed IPv6 host is split at its last colon); the accepted value is the input
  string itself, so displaying and parsing it again gives it back.
\<close>

theorem peer_endpoint_accepts_iff:
  "peer_try_from e = Inr p \<longleftrightarrow>
     as_str p = e \<and> \<not> starts_with e (lit ''http://'') \<and> \<not> starts_with e (lit ''https://'')
     \<and> (\<exists>host port n. e = host @ 58 # port \<and> host \<noteq> [] \<and> 58 \<notin> set port
          \<and> u16_from_str port = Some n \<and> n \<noteq> 0)"
  (is "?L \<longleftrightarrow> ?R")
proof
  assume ?L
  then show ?R
    by (auto simp: peer_try_from_def rsplit_once_Some_iff split: if_splits option.splits) blast
next
  assume R: ?R
  then obtain host port n where e: "e = host @ 58 # port" "host \<noteq> []" "58 \<notin> set port"
      "u16_from_str port = Some n" "n \<noteq> 0" by blast
  then have "rsplit_once 58 e = Some (host, port)" by (simp add: rsplit_once_Some_iff)
  with R e show ?L by (cases p) (auto simp: peer_try_from_def)
qed

text \<open>
  A port written with a plus sign is accepted: the standard integer parser the code
  relies on for "base-10 number" takes an optional sign.
\<close>

lemma peer_endpoint_accepts_signed_port:
  "peer_try_from (lit ''h:+80'') = Inr (PeerEndpoint (lit ''h:+80''))"
  by code_simp

end
