(* ===== verification/Consensus.thy ===== *)
theory Consensus
  imports Timestamp Seq Lease Peer Allocator
begin

text \<open>
  The driver interface (\<open>tsoracle-consensus\<close>): the error type, leadership states, the
  advance payload with its range guard, the trait as a record of operations over an
  abstract driver state with the trait's default methods, and the documented contracts
  as locales: a high-water register that only advances, dense counters with a durable
  fetch-add, and a lease store that replaces its set atomically. Every driver of the
  development interprets them.
\<close>

section \<open>Errors and leadership\<close>

text \<open>The boxed source error of a driver fault is kept as its description.\<close>

datatype consensus_error =
    ConsNotLeader "epoch option"
  | Fenced epoch epoch
  | TransientDriver string
  | PermanentDriver string
  | AdvanceOutOfRange u64
  | DenseUnsupported
  | SeqKeyCardinalityExceeded u64
  | ConsSeqOverflow
  | DenseNotActivated u8 u8
  | DenseBatchNotActivated u8 u8
  | LeasesUnsupported
  | LeasesNotActivated u8 u8

datatype leader_state =
    LsLeader epoch
  | LsFollower "peer_endpoint option" "epoch option"
  | LsUnknown

section \<open>Advance payload\<close>

datatype advance_payload = AdvancePayload (ap_at_least: u64)

definition merge :: "advance_payload \<Rightarrow> u64 \<Rightarrow> u64" where
  "merge p current = max current (ap_at_least p)"

definition reject_out_of_range_advance :: "u64 \<Rightarrow> (consensus_error, unit) result" where
  "reject_out_of_range_advance a =
     (if a > PHYSICAL_MS_MAX then Inl (AdvanceOutOfRange a) else Inr ())"

lemma merge_ge: "current \<le> merge p current" "ap_at_least p \<le> merge p current"
  by (simp_all add: merge_def)

lemma merge_commute: "merge p (merge q c) = merge q (merge p c)"
  by (simp add: merge_def max.left_commute max.commute)

lemma merge_idem: "merge p (merge p c) = merge p c"
  by (simp add: merge_def)

section \<open>The driver trait\<close>

record 's consensus_driver =
  drv_load_high_water :: "'s \<Rightarrow> (consensus_error, u64) result \<times> 's"
  drv_persist_high_water :: "u64 \<Rightarrow> epoch \<Rightarrow> 's \<Rightarrow> (consensus_error, u64) result \<times> 's"
  drv_load_dense_seq :: "seq_key \<Rightarrow> 's \<Rightarrow> (consensus_error, u64) result \<times> 's"
  drv_advance_dense :: "seq_key \<Rightarrow> u32 \<Rightarrow> epoch \<Rightarrow> 's \<Rightarrow> (consensus_error, u64) result \<times> 's"
  drv_advance_dense_batch ::
    "(seq_key \<times> u32) list \<Rightarrow> epoch \<Rightarrow> 's \<Rightarrow> (consensus_error, u64 list) result \<times> 's"
  drv_load_leases :: "'s \<Rightarrow> (consensus_error, lease_record list) result \<times> 's"
  drv_persist_leases :: "lease_record list \<Rightarrow> epoch \<Rightarrow> 's \<Rightarrow> (consensus_error, unit) result \<times> 's"

text \<open>The default method bodies of the trait.\<close>

definition default_load_dense_seq :: "seq_key \<Rightarrow> 's \<Rightarrow> (consensus_error, u64) result \<times> 's" where
  "default_load_dense_seq key s = (Inl DenseUnsupported, s)"

definition default_advance_dense ::
  "seq_key \<Rightarrow> u32 \<Rightarrow> epoch \<Rightarrow> 's \<Rightarrow> (consensus_error, u64) result \<times> 's" where
  "default_advance_dense key count e s = (Inl DenseUnsupported, s)"

definition default_advance_dense_batch ::
  "(seq_key \<times> u32) list \<Rightarrow> epoch \<Rightarrow> 's \<Rightarrow> (consensus_error, u64 list) result \<times> 's" where
  "default_advance_dense_batch entries e s = (Inl DenseUnsupported, s)"

definition default_load_leases :: "'s \<Rightarrow> (consensus_error, lease_record list) result \<times> 's" where
  "default_load_leases s = (Inl LeasesUnsupported, s)"

definition default_persist_leases ::
  "lease_record list \<Rightarrow> epoch \<Rightarrow> 's \<Rightarrow> (consensus_error, unit) result \<times> 's" where
  "default_persist_leases live e s = (Inl LeasesUnsupported, s)"

section \<open>Contracts\<close>

text \<open>
  The high-water register. \<open>acked s\<close> is the largest value the driver has reported as
  durable; the contract of \<open>persist_high_water\<close> and \<open>load_high_water\<close> is that a
  successful call reports the maximum of it and the request, that nothing lowers it, and
  that a load reports at least it. The failing outcomes leave room for a proposal that
  commits late.
\<close>

locale high_water_register =
  fixes persist :: "u64 \<Rightarrow> epoch \<Rightarrow> 's \<Rightarrow> (consensus_error, u64) result \<times> 's"
    and load :: "'s \<Rightarrow> (consensus_error, u64) result \<times> 's"
    and acked :: "'s \<Rightarrow> u64"
    and rinv :: "'s \<Rightarrow> bool"
  assumes persist_inv: "rinv s \<Longrightarrow> rinv (snd (persist a e s))"
    and persist_ok: "rinv s \<Longrightarrow> fst (persist a e s) = Inr v \<Longrightarrow>
          v = max (acked s) a \<and> acked (snd (persist a e s)) = v \<and> v \<le> PHYSICAL_MS_MAX"
    and persist_mono: "rinv s \<Longrightarrow> acked s \<le> acked (snd (persist a e s))"
    and load_inv: "rinv s \<Longrightarrow> rinv (snd (load s))"
    and load_ok: "rinv s \<Longrightarrow> fst (load s) = Inr v \<Longrightarrow> v = acked s \<and> v \<le> PHYSICAL_MS_MAX"
    and load_mono: "rinv s \<Longrightarrow> acked s \<le> acked (snd (load s))"
begin

lemma persist_covers:
  assumes "rinv s" "persist a e s = (Inr v, s')"
  shows "a \<le> v" "acked s \<le> v" "acked s' = v" "rinv s'" "v \<le> PHYSICAL_MS_MAX"
  using persist_ok [OF assms(1), of a e v] persist_inv [OF assms(1), of a e] assms(2) by auto

lemma load_returns:
  assumes "rinv s" "load s = (Inr v, s')"
  shows "v = acked s" "acked s \<le> acked s'" "rinv s'" "v \<le> PHYSICAL_MS_MAX"
  using load_ok [OF assms(1), of v] load_inv [OF assms(1)] load_mono [OF assms(1)] assms(2) by auto

end

text \<open>
  Dense counters: a durable fetch-add per key, and its atomic multi-key form, whose
  result is that of the single advances performed in order.
\<close>

text \<open>The starts and final counters of advancing the entries one after another.\<close>

fun seq_fold :: "('k \<Rightarrow> u64) \<Rightarrow> ('k \<times> u32) list \<Rightarrow> (u64 list \<times> ('k \<Rightarrow> u64)) option" where
  "seq_fold c [] = Some ([], c)"
| "seq_fold c ((k, n) # es) =
     (case checked_add (c k) (ucast n) of
        None \<Rightarrow> None
      | Some v \<Rightarrow> map_option (\<lambda>(ss, c'). (c k # ss, c')) (seq_fold (c(k := v)) es))"

text \<open>The ordinals of a block.\<close>

definition block :: "u64 \<Rightarrow> u32 \<Rightarrow> nat list" where
  "block start n = [unat start ..< unat start + unat n]"

text \<open>The ordinals one key receives from a list of entries and their starts.\<close>

fun key_blocks :: "'k \<Rightarrow> ('k \<times> u32) list \<Rightarrow> u64 list \<Rightarrow> nat list" where
  "key_blocks k ((k', n) # es) (s # ss) =
     (if k' = k then block s n else []) @ key_blocks k es ss"
| "key_blocks k _ _ = []"

lemma seq_fold_gapless:
  assumes "seq_fold c es = Some (ss, c')"
  shows "key_blocks k es ss = [unat (c k) ..< unat (c' k)] \<and> unat (c k) \<le> unat (c' k)
       \<and> length ss = length es"
  using assms
proof (induction c es arbitrary: ss c' rule: seq_fold.induct)
  case (2 c k' n es)
  then obtain v where v: "checked_add (c k') (ucast n) = Some v" by (auto split: option.splits)
  with 2(2) obtain ss0 where s: "seq_fold (c(k' := v)) es = Some (ss0, c')" "ss = c k' # ss0" by auto
  note IH = 2(1) [OF v s(1)]
  have "unat v = unat (c k') + unat n" using checked_add_SomeD [OF v] by (metis unat_u32_as_u64)
  with IH s(2) show ?case
    by (auto simp: block_def upt_join split: if_splits)
qed simp

text \<open>A history of single-key and batch requests, and the ordinals one key is handed.\<close>

datatype dense_req = SingleKey seq_key u32 epoch | BatchKeys "(seq_key \<times> u32) list" epoch

fun request_entries :: "dense_req \<Rightarrow> (seq_key \<times> u32) list" where
  "request_entries (SingleKey k n e) = [(k, n)]"
| "request_entries (BatchKeys es e) = es"

fun dense_request ::
  "(seq_key \<Rightarrow> u32 \<Rightarrow> epoch \<Rightarrow> 's \<Rightarrow> (consensus_error, u64) result \<times> 's) \<Rightarrow>
   ((seq_key \<times> u32) list \<Rightarrow> epoch \<Rightarrow> 's \<Rightarrow> (consensus_error, u64 list) result \<times> 's) \<Rightarrow>
   dense_req \<Rightarrow> 's \<Rightarrow> (consensus_error, u64 list) result \<times> 's" where
  "dense_request adv bat (SingleKey k n e) s =
     (case adv k n e s of (Inl err, s') \<Rightarrow> (Inl err, s') | (Inr v, s') \<Rightarrow> (Inr [v], s'))"
| "dense_request adv bat (BatchKeys es e) s = bat es e s"

fun dense_history ::
  "(dense_req \<Rightarrow> 's \<Rightarrow> (consensus_error, u64 list) result \<times> 's) \<Rightarrow>
   seq_key \<Rightarrow> dense_req list \<Rightarrow> 's \<Rightarrow> nat list \<times> 's" where
  "dense_history req k [] s = ([], s)"
| "dense_history req k (q # qs) s =
     (let (r, s') = req q s;
          here = (case r of Inl _ \<Rightarrow> [] | Inr ss \<Rightarrow> key_blocks k (request_entries q) ss);
          (rest, s'') = dense_history req k qs s'
      in (here @ rest, s''))"

locale dense_counters =
  fixes advance :: "seq_key \<Rightarrow> u32 \<Rightarrow> epoch \<Rightarrow> 's \<Rightarrow> (consensus_error, u64) result \<times> 's"
    and advance_batch :: "(seq_key \<times> u32) list \<Rightarrow> epoch \<Rightarrow> 's \<Rightarrow> (consensus_error, u64 list) result \<times> 's"
    and counter :: "'s \<Rightarrow> seq_key \<Rightarrow> u64"
    and dinv :: "'s \<Rightarrow> bool"
  assumes advance_dinv: "dinv s \<Longrightarrow> dinv (snd (advance k n e s))"
    and advance_ok: "dinv s \<Longrightarrow> fst (advance k n e s) = Inr start \<Longrightarrow>
          seq_fold (counter s) [(k, n)] = Some ([start], counter (snd (advance k n e s)))"
    and advance_err: "dinv s \<Longrightarrow> fst (advance k n e s) = Inl err \<Longrightarrow>
          counter (snd (advance k n e s)) = counter s"
    and batch_dinv: "dinv s \<Longrightarrow> dinv (snd (advance_batch es e s))"
    and batch_ok: "dinv s \<Longrightarrow> fst (advance_batch es e s) = Inr starts \<Longrightarrow>
          seq_fold (counter s) es = Some (starts, counter (snd (advance_batch es e s)))"
    and batch_err: "dinv s \<Longrightarrow> fst (advance_batch es e s) = Inl err \<Longrightarrow>
          counter (snd (advance_batch es e s)) = counter s"
begin

lemma request_cases:
  assumes "dinv s" "dense_request advance advance_batch q s = (r, s')"
  shows "dinv s' \<and> (case r of Inl _ \<Rightarrow> counter s' = counter s
    | Inr ss \<Rightarrow> seq_fold (counter s) (request_entries q) = Some (ss, counter s'))"
proof (cases q)
  case (SingleKey k n e)
  with assms advance_dinv [OF assms(1), of k n e] advance_ok [OF assms(1), of k n e]
    advance_err [OF assms(1), of k n e]
  show ?thesis by (auto simp del: seq_fold.simps split: prod.splits sum.splits)
next
  case (BatchKeys es e)
  with assms batch_dinv [OF assms(1), of es e] batch_ok [OF assms(1), of es e]
    batch_err [OF assms(1), of es e]
  show ?thesis by (auto split: sum.splits)
qed

lemma history_gapless:
  assumes "dinv s" "dense_history (dense_request advance advance_batch) k qs s = (ords, s')"
  shows "ords = [unat (counter s k) ..< unat (counter s' k)] \<and> unat (counter s k) \<le> unat (counter s' k) \<and> dinv s'"
  using assms
proof (induction qs arbitrary: s ords)
  case (Cons q qs)
  obtain r s1 where r: "dense_request advance advance_batch q s = (r, s1)" by fastforce
  obtain rest where rest: "dense_history (dense_request advance advance_batch) k qs s1 = (rest, s')"
      "ords = (case r of Inl _ \<Rightarrow> [] | Inr ss \<Rightarrow> key_blocks k (request_entries q) ss) @ rest"
    using Cons.prems(2) r by (auto split: prod.splits)
  note rc = request_cases [OF Cons.prems(1) r]
  note IH = Cons.IH [OF conjunct1 [OF rc] rest(1)]
  show ?case
  proof (cases r)
    case (Inl err)
    with rc IH rest(2) show ?thesis by simp
  next
    case (Inr ss)
    with rc have "seq_fold (counter s) (request_entries q) = Some (ss, counter s1)" by simp
    from seq_fold_gapless [OF this, of k] IH rest(2) Inr show ?thesis
      by (auto simp: upt_join)
  qed
qed simp

end

text \<open>The lease store: an absolute set, replaced atomically.\<close>

locale lease_store =
  fixes persist_leases :: "lease_record list \<Rightarrow> epoch \<Rightarrow> 's \<Rightarrow> (consensus_error, unit) result \<times> 's"
    and load_leases :: "'s \<Rightarrow> (consensus_error, lease_record list) result \<times> 's"
    and stored :: "'s \<Rightarrow> lease_record list"
    and linv :: "'s \<Rightarrow> bool"
  assumes persist_linv: "linv s \<Longrightarrow> linv (snd (persist_leases live e s))"
    and persist_leases_ok: "linv s \<Longrightarrow> fst (persist_leases live e s) = Inr () \<Longrightarrow>
          stored (snd (persist_leases live e s)) = live"
    and persist_leases_err: "linv s \<Longrightarrow> fst (persist_leases live e s) = Inl err \<Longrightarrow>
          stored (snd (persist_leases live e s)) = stored s"
    and load_leases_ok: "linv s \<Longrightarrow> fst (load_leases s) = Inr rs \<Longrightarrow> rs = stored s"
begin

lemma load_after_persist:
  assumes "linv s" "persist_leases live e s = (Inr (), s')" "load_leases s' = (Inr rs, s'')"
  shows "rs = live"
  using persist_leases_ok [OF assms(1), of live e] persist_linv [OF assms(1), of live e]
    load_leases_ok [of s' rs] assms(2,3) by simp

end

text \<open>Codecs: decoding accepts exactly the encodings of well-formed values.\<close>

locale codec =
  fixes enc :: "'a \<Rightarrow> bytes"
    and dec :: "bytes \<Rightarrow> ('e, 'a) result"
    and cok :: "'a \<Rightarrow> bool"
  assumes dec_enc: "cok x \<Longrightarrow> dec (enc x) = Inr x"
    and dec_canonical: "dec bs = Inr x \<Longrightarrow> cok x \<and> enc x = bs"
begin

lemma dec_iff: "dec bs = Inr x \<longleftrightarrow> cok x \<and> bs = enc x"
  using dec_enc dec_canonical by auto

lemma enc_inj: "cok x \<Longrightarrow> cok y \<Longrightarrow> enc x = enc y \<Longrightarrow> x = y"
  using dec_enc by (metis Inr_inject)

end

end
