(* ===== verification/Raft_Log.thy ===== *)
theory Raft_Log
  imports Codec Consensus "HOL-Library.Option_ord"
begin

text \<open>
  What the Raft cluster replicates (\<open>tsoracle-driver-openraft/src/log_entry.rs\<close>,
  \<open>type_config.rs\<close>, \<open>log_codec.rs\<close>) and the format versions that gate it
  (\<open>tsoracle-openraft-toolkit/src/codec.rs\<close>): commands, the canonical lease set with its
  validation, apply outcomes, log ids in openraft's order, the body codec of the log store
  and the recovery of the active write version. Data types of openraft (\<open>LogId\<close>,
  \<open>Membership\<close>, \<open>Entry\<close>) are records of their documented fields.
\<close>

section \<open>Format versions\<close>

definition MIN_READABLE_VERSION :: u8 where "MIN_READABLE_VERSION = 4"
definition MAX_READABLE_VERSION :: u8 where "MAX_READABLE_VERSION = 7"
definition BASELINE_WRITE_VERSION :: u8 where "BASELINE_WRITE_VERSION = 4"
definition DENSE_WRITE_VERSION :: u8 where "DENSE_WRITE_VERSION = 5"
definition BATCH_WRITE_VERSION :: u8 where "BATCH_WRITE_VERSION = 6"
definition LEASE_WRITE_VERSION :: u8 where "LEASE_WRITE_VERSION = 7"

lemmas version_defs = MIN_READABLE_VERSION_def MAX_READABLE_VERSION_def BASELINE_WRITE_VERSION_def
  DENSE_WRITE_VERSION_def BATCH_WRITE_VERSION_def LEASE_WRITE_VERSION_def

definition in_readable_range :: "u8 \<Rightarrow> bool" where
  "in_readable_range v \<longleftrightarrow> MIN_READABLE_VERSION \<le> v \<and> v \<le> MAX_READABLE_VERSION"

definition recover_active_write_version :: "u8 option \<Rightarrow> u8 option \<Rightarrow> (codec_error, u8) result" where
  "recover_active_write_version snapshot_leading_byte highest_log_record_byte =
     (case find (\<lambda>byte. byte > MAX_READABLE_VERSION)
         (List.map_filter (\<lambda>x. x) [snapshot_leading_byte, highest_log_record_byte]) of
        Some byte \<Rightarrow> Inl (VersionUnsupported MIN_READABLE_VERSION MAX_READABLE_VERSION byte)
      | None \<Rightarrow> Inr (max (max BASELINE_WRITE_VERSION
            (case snapshot_leading_byte of None \<Rightarrow> BASELINE_WRITE_VERSION | Some b \<Rightarrow> b))
            (case highest_log_record_byte of None \<Rightarrow> BASELINE_WRITE_VERSION | Some b \<Rightarrow> b)))"

section \<open>Log ids and membership\<close>

text \<open>Ordered by term, then the node that led it, then the index.\<close>

datatype log_id = LogId (lid_term: u64) (lid_node: u64) (lid_index: u64)

instantiation log_id :: linorder
begin

definition less_eq_log_id :: "log_id \<Rightarrow> log_id \<Rightarrow> bool" where
  "less_eq_log_id a b \<longleftrightarrow> lid_term a < lid_term b \<or> lid_term a = lid_term b
     \<and> (lid_node a < lid_node b \<or> lid_node a = lid_node b \<and> lid_index a \<le> lid_index b)"

definition less_log_id :: "log_id \<Rightarrow> log_id \<Rightarrow> bool" where
  "less_log_id a b \<longleftrightarrow> a \<le> b \<and> \<not> b \<le> (a :: log_id)"

instance
proof
  fix x y z :: log_id
  show "x < y \<longleftrightarrow> x \<le> y \<and> \<not> y \<le> x" by (rule less_log_id_def)
  show "x \<le> x" by (simp add: less_eq_log_id_def)
  show "x \<le> y \<Longrightarrow> y \<le> z \<Longrightarrow> x \<le> z" by (auto simp: less_eq_log_id_def)
  show "x \<le> y \<Longrightarrow> y \<le> x \<Longrightarrow> x = y" by (cases x; cases y) (auto simp: less_eq_log_id_def)
  show "x \<le> y \<or> y \<le> x" by (auto simp: less_eq_log_id_def)
qed

end

record openraft_peer =
  op_addr :: str
  op_service_endpoint :: str
  op_admin_endpoint :: str

definition peer_service_endpoint :: "openraft_peer \<Rightarrow> peer_endpoint option" where
  "peer_service_endpoint p = (case peer_try_from (op_service_endpoint p) of Inl _ \<Rightarrow> None | Inr e \<Rightarrow> Some e)"

definition peer_admin_endpoint :: "openraft_peer \<Rightarrow> peer_endpoint option" where
  "peer_admin_endpoint p = (case peer_try_from (op_admin_endpoint p) of Inl _ \<Rightarrow> None | Inr e \<Rightarrow> Some e)"

record membership =
  mb_configs :: "u64 list list"
  mb_nodes :: "(u64, openraft_peer) btree_map"

record stored_membership =
  stm_log_id :: "log_id option"
  stm_membership :: membership

definition default_membership :: stored_membership where
  "default_membership = \<lparr>stm_log_id = None, stm_membership = \<lparr>mb_configs = [], mb_nodes = []\<rparr>\<rparr>"

section \<open>Lease sets\<close>

record durable_lease =
  dl_lease_id :: u64
  dl_holder :: bytes
  dl_holder_epoch :: u64
  dl_ttl_ms :: u64
  dl_ts_upper_bound :: u64
  dl_expires_at_ms :: u64
  dl_superseded :: bool

text \<open>The unvalidated decode shape has the same fields.\<close>

type_synonym durable_lease_wire = durable_lease

datatype lease_set_error = LseHolderLen u64 nat nat | LseUnordered u64 u64

datatype lease_set = LeaseSet (ls_leases: "durable_lease list")

definition durable_lease_try_from :: "durable_lease_wire \<Rightarrow> (lease_set_error, durable_lease) result" where
  "durable_lease_try_from wire =
     (if dl_holder wire = [] \<or> length (dl_holder wire) > MAX_LEASE_HOLDER_LEN
      then Inl (LseHolderLen (dl_lease_id wire) (length (dl_holder wire)) MAX_LEASE_HOLDER_LEN)
      else Inr wire)"

definition durable_lease_of_record :: "lease_record \<Rightarrow> (lease_set_error, durable_lease) result" where
  "durable_lease_of_record r = durable_lease_try_from
     \<lparr>dl_lease_id = lease_id r, dl_holder = holder r, dl_holder_epoch = holder_epoch r, dl_ttl_ms = ttl_ms r,
      dl_ts_upper_bound = ts_upper_bound r, dl_expires_at_ms = expires_at_ms r, dl_superseded = superseded r\<rparr>"

definition record_of_durable_lease :: "durable_lease \<Rightarrow> lease_record" where
  "record_of_durable_lease l =
     \<lparr>lease_id = dl_lease_id l, holder = dl_holder l, holder_epoch = dl_holder_epoch l, ttl_ms = dl_ttl_ms l,
      ts_upper_bound = dl_ts_upper_bound l, expires_at_ms = dl_expires_at_ms l, superseded = dl_superseded l\<rparr>"

text \<open>The first adjacent pair that is out of order.\<close>

fun unordered_pair :: "durable_lease list \<Rightarrow> (u64 \<times> u64) option" where
  "unordered_pair (a # b # rest) =
     (if dl_lease_id a \<ge> dl_lease_id b then Some (dl_lease_id a, dl_lease_id b) else unordered_pair (b # rest))"
| "unordered_pair _ = None"

definition lease_set_try_from :: "durable_lease list \<Rightarrow> (lease_set_error, lease_set) result" where
  "lease_set_try_from leases =
     (case unordered_pair leases of
        Some (previous, next) \<Rightarrow> Inl (LseUnordered previous next)
      | None \<Rightarrow> Inr (LeaseSet leases))"

text \<open>\<open>Iterator::collect\<close> into a \<open>Result\<close>: the first error wins.\<close>

fun collect_results :: "('e, 'a) result list \<Rightarrow> ('e, 'a list) result" where
  "collect_results [] = Inr []"
| "collect_results (Inl e # rs) = Inl e"
| "collect_results (Inr a # rs) =
     (case collect_results rs of Inl e \<Rightarrow> Inl e | Inr as \<Rightarrow> Inr (a # as))"

definition lease_set_from_records :: "lease_record list \<Rightarrow> (lease_set_error, lease_set) result" where
  "lease_set_from_records rs =
     and_then (collect_results (map durable_lease_of_record rs))
       (\<lambda>leases. lease_set_try_from (sort_key dl_lease_id leases))"

definition lease_set_to_records :: "lease_set \<Rightarrow> lease_record list" where
  "lease_set_to_records s = map record_of_durable_lease (ls_leases s)"

text \<open>Decoding a set validates each record and then the order.\<close>

definition lease_set_decode :: "durable_lease_wire list \<Rightarrow> (lease_set_error, lease_set) result" where
  "lease_set_decode wires =
     and_then (collect_results (map durable_lease_try_from wires)) lease_set_try_from"

section \<open>Commands and outcomes\<close>

record dense_advance =
  da_key :: seq_key
  da_count :: u32

datatype high_water_command =
    Advance advance_payload
  | SetFormatVersion u8 "u64 list"
  | AdvanceDense seq_key u32
  | AdvanceDenseBatch "dense_advance list"
  | SetLeases u64 lease_set

datatype entry_payload = Blank | Normal high_water_command | MembershipEntry membership

record raft_entry =
  en_log_id :: log_id
  en_payload :: entry_payload

datatype apply_outcome =
    Advanced
  | FormatActivated u8
  | FormatActivationNoop u8
  | FormatActivationTargetOutOfRange u8
  | DenseAdvanced u64
  | DenseCardinalityExceeded u64
  | DenseOverflow
  | DenseBatchAdvanced "u64 list"
  | DenseBatchCardinalityExceeded u64
  | DenseBatchOverflow
  | LeasesReplaced
  | LeasesFenced u64 u64

record high_water_applied =
  ha_value :: u64
  ha_outcome :: apply_outcome

section \<open>The log-store body codec\<close>

text \<open>What the embedded \<open>SeqKey\<close>s and lease sets re-validate when an entry is decoded.\<close>

definition seq_key_valid :: "seq_key \<Rightarrow> bool" where
  "seq_key_valid k \<longleftrightarrow> is_ok (seq_key_try_new (key_str k))"

fun command_valid :: "high_water_command \<Rightarrow> bool" where
  "command_valid (AdvanceDense key count) = seq_key_valid key"
| "command_valid (AdvanceDenseBatch es) = list_all (\<lambda>e. seq_key_valid (da_key e)) es"
| "command_valid (SetLeases t ls) = is_ok (lease_set_decode (ls_leases ls))"
| "command_valid _ = True"

fun payload_valid :: "entry_payload \<Rightarrow> bool" where
  "payload_valid (Normal c) = command_valid c"
| "payload_valid _ = True"

definition encode_entry :: "raft_entry postcard \<Rightarrow> u8 \<Rightarrow> raft_entry \<Rightarrow> (codec_error, bytes) result" where
  "encode_entry pc version entry =
     (if version < BATCH_WRITE_VERSION
         \<and> (case en_payload entry of Normal (AdvanceDenseBatch _) \<Rightarrow> True | _ \<Rightarrow> False)
      then Inl (NotRepresentable version)
      else if version < LEASE_WRITE_VERSION
         \<and> (case en_payload entry of Normal (SetLeases _ _) \<Rightarrow> True | _ \<Rightarrow> False)
      then Inl (NotRepresentable version)
      else encode_postcard pc entry)"

definition decode_entry :: "raft_entry postcard \<Rightarrow> u8 \<Rightarrow> bytes \<Rightarrow> (codec_error, raft_entry) result" where
  "decode_entry pc version body =
     (case take_from_bytes pc body of
        None \<Rightarrow> Inl CodecDecode
      | Some (entry, remainder) \<Rightarrow>
          if \<not> payload_valid (en_payload entry) then Inl CodecDecode
          else if remainder \<noteq> [] then Inl (TrailingBytes (length remainder))
          else Inr entry)"

section \<open>Lease sets are canonical\<close>

definition holder_len_ok :: "bytes \<Rightarrow> bool" where
  "holder_len_ok h \<longleftrightarrow> h \<noteq> [] \<and> length h \<le> MAX_LEASE_HOLDER_LEN"

definition lease_set_ok :: "lease_set \<Rightarrow> bool" where
  "lease_set_ok s \<longleftrightarrow> sorted_wrt (<) (map dl_lease_id (ls_leases s))
     \<and> list_all (\<lambda>l. holder_len_ok (dl_holder l)) (ls_leases s)"

lemma unordered_pair_None_iff: "unordered_pair ls = None \<longleftrightarrow> sorted_wrt (<) (map dl_lease_id ls)"
proof (induction ls rule: unordered_pair.induct)
  case (1 a b rest)
  show ?case
  proof (cases "dl_lease_id a < dl_lease_id b")
    case True
    with 1 show ?thesis by (auto simp: not_le intro: less_trans)
  qed auto
qed simp_all

lemma lease_set_try_from_Inr_iff:
  "lease_set_try_from ls = Inr s \<longleftrightarrow> sorted_wrt (<) (map dl_lease_id ls) \<and> s = LeaseSet ls"
  using unordered_pair_None_iff [of ls] by (auto simp: lease_set_try_from_def split: option.splits)

lemma collect_results_map_Inr [simp]: "collect_results (map Inr as) = Inr as"
  by (induction as) simp_all

lemma collect_results_Inr_iff: "collect_results rs = Inr as \<longleftrightarrow> rs = map Inr as"
proof
  show "collect_results rs = Inr as \<Longrightarrow> rs = map Inr as"
    by (induction rs arbitrary: as rule: collect_results.induct) (auto split: sum.splits)
qed simp

lemma durable_lease_try_from_Inr_iff:
  "durable_lease_try_from w = Inr l \<longleftrightarrow> holder_len_ok (dl_holder w) \<and> l = w"
  by (auto simp: durable_lease_try_from_def holder_len_ok_def)

lemma map_Inr_iff: "map f xs = map Inr ys \<longleftrightarrow> list_all2 (\<lambda>x y. f x = Inr y) xs ys"
  by (simp add: list_all2_map1 list_all2_map2 flip: list.rel_eq)

lemma lease_set_decode_Inr_iff: "lease_set_decode ws = Inr s \<longleftrightarrow> s = LeaseSet ws \<and> lease_set_ok s"
proof -
  have "map durable_lease_try_from ws = map Inr ls
      \<longleftrightarrow> ls = ws \<and> list_all (\<lambda>l. holder_len_ok (dl_holder l)) ws" for ls
  proof (induction ws arbitrary: ls)
    case (Cons w ws)
    then show ?case by (cases ls) (auto simp: durable_lease_try_from_Inr_iff)
  qed simp
  then show ?thesis
    unfolding lease_set_decode_def and_then_Inr_iff collect_results_Inr_iff lease_set_try_from_Inr_iff
    by (cases s) (auto simp: lease_set_ok_def)
qed

lemma durable_lease_of_record_Inr_iff:
  "durable_lease_of_record r = Inr l \<longleftrightarrow> holder_len_ok (holder r) \<and> record_of_durable_lease l = r"
  by (cases l, cases r)
    (auto simp: durable_lease_of_record_def durable_lease_try_from_Inr_iff record_of_durable_lease_def)

lemma record_of_durable_lease_simps [simp]:
  "lease_id (record_of_durable_lease l) = dl_lease_id l" "holder (record_of_durable_lease l) = dl_holder l"
  by (simp_all add: record_of_durable_lease_def)

lemma insort_records:
  "map record_of_durable_lease (insort_key dl_lease_id l ls)
     = insort_key lease_id (record_of_durable_lease l) (map record_of_durable_lease ls)"
  by (induction ls) simp_all

lemma sort_records:
  "map record_of_durable_lease (sort_key dl_lease_id ls) = sort_key lease_id (map record_of_durable_lease ls)"
  by (induction ls) (simp_all add: insort_records)

lemma collect_records:
  "map durable_lease_of_record rs = map Inr ls
     \<longleftrightarrow> list_all (\<lambda>r. holder_len_ok (holder r)) rs \<and> map record_of_durable_lease ls = rs"
proof (induction rs arbitrary: ls)
  case (Cons r rs)
  then show ?case by (cases ls) (auto simp: durable_lease_of_record_Inr_iff)
qed simp

lemma record_of_durable_lease_inject [simp]:
  "record_of_durable_lease a = record_of_durable_lease b \<longleftrightarrow> a = b"
  by (cases a, cases b) (simp add: record_of_durable_lease_def)

lemma map_record_of_durable_lease_inject [simp]:
  "map record_of_durable_lease xs = map record_of_durable_lease ys \<longleftrightarrow> xs = ys"
  by (simp add: inj_map_eq_map inj_def)

lemma lease_ids_of_records [simp]: "map lease_id (map record_of_durable_lease ls) = map dl_lease_id ls"
  by simp

text \<open>
  A server-supplied set is accepted exactly when every holder has a legal length and no id
  repeats, and it is then stored in lease-id order.
\<close>

lemma lease_set_from_records_iff:
  "lease_set_from_records rs = Inr s \<longleftrightarrow>
     list_all (\<lambda>r. holder_len_ok (holder r)) rs \<and> distinct (map lease_id rs)
     \<and> lease_set_to_records s = sort_key lease_id rs"
proof -
  have srt: "sorted_wrt (<) (map dl_lease_id (sort_key dl_lease_id ls)) \<longleftrightarrow> distinct (map dl_lease_id ls)" for ls
  proof -
    have "sorted (map dl_lease_id (sort_key dl_lease_id ls))" by simp
    moreover have "distinct (map dl_lease_id (sort_key dl_lease_id ls)) \<longleftrightarrow> distinct (map dl_lease_id ls)"
      by (simp add: distinct_map)
    ultimately show ?thesis by (simp add: strict_sorted_iff)
  qed
  show ?thesis
  proof
    assume "lease_set_from_records rs = Inr s"
    then obtain ls where "list_all (\<lambda>r. holder_len_ok (holder r)) rs" "map record_of_durable_lease ls = rs"
        "sorted_wrt (<) (map dl_lease_id (sort_key dl_lease_id ls))" "s = LeaseSet (sort_key dl_lease_id ls)"
      unfolding lease_set_from_records_def and_then_Inr_iff collect_results_Inr_iff lease_set_try_from_Inr_iff
        collect_records by blast
    with srt [of ls] sort_records [of ls] show
      "list_all (\<lambda>r. holder_len_ok (holder r)) rs \<and> distinct (map lease_id rs)
         \<and> lease_set_to_records s = sort_key lease_id rs"
      by (auto simp: lease_set_to_records_def comp_def)
  next
    assume a: "list_all (\<lambda>r. holder_len_ok (holder r)) rs \<and> distinct (map lease_id rs)
         \<and> lease_set_to_records s = sort_key lease_id rs"
    obtain ls where ls: "map durable_lease_of_record rs = map Inr ls"
    proof
      show "map durable_lease_of_record rs = map Inr (map (\<lambda>r. projr (durable_lease_of_record r)) rs)"
        using a by (auto simp: list_all_iff durable_lease_of_record_def durable_lease_try_from_def holder_len_ok_def)
    qed
    then have r: "map record_of_durable_lease ls = rs" by (simp add: collect_records)
    have "sort_key dl_lease_id ls = ls_leases s"
      using a sort_records [of ls] r by (simp add: lease_set_to_records_def flip: map_record_of_durable_lease_inject)
    with a r ls srt [of ls] show "lease_set_from_records rs = Inr s"
      unfolding lease_set_from_records_def and_then_Inr_iff collect_results_Inr_iff lease_set_try_from_Inr_iff
      by (intro exI [of _ ls]) (cases s, auto simp: comp_def)
  qed
qed

lemma lease_set_from_records_ok:
  assumes "lease_set_from_records rs = Inr s"
  shows "lease_set_ok s"
proof -
  from assms have a: "list_all (\<lambda>r. holder_len_ok (holder r)) rs" "distinct (map lease_id rs)"
      "map record_of_durable_lease (ls_leases s) = sort_key lease_id rs"
    by (simp_all add: lease_set_from_records_iff lease_set_to_records_def)
  have "map dl_lease_id (ls_leases s) = map lease_id (sort_key lease_id rs)"
    using arg_cong [OF a(3), of "map lease_id"] by (simp add: comp_def)
  moreover have "distinct (map lease_id (sort_key lease_id rs))"
    using a(2) by (simp add: distinct_map)
  moreover have "list_all (\<lambda>r. holder_len_ok (holder r)) (map record_of_durable_lease (ls_leases s))"
    unfolding a(3) using a(1) by (simp add: list_all_iff)
  ultimately show ?thesis by (simp add: lease_set_ok_def strict_sorted_iff list.pred_map comp_def)
qed

lemma lease_set_records_roundtrip:
  assumes "lease_set_ok s"
  shows "lease_set_from_records (lease_set_to_records s) = Inr s"
proof -
  have "sort_key lease_id (map record_of_durable_lease (ls_leases s)) = map record_of_durable_lease (ls_leases s)"
    using assms by (intro sort_key_id_if_sorted) (simp add: lease_set_ok_def strict_sorted_iff comp_def)
  with assms show ?thesis
    by (simp add: lease_set_from_records_iff lease_set_to_records_def lease_set_ok_def strict_sorted_iff
        list.pred_map comp_def)
qed

section \<open>Log records\<close>

lemma payload_valid_ok:
  assumes "postcard_ok pc" "encode_entry pc version entry = Inr body"
  shows "decode_entry pc v body = (if payload_valid (en_payload entry) then Inr entry else Inl CodecDecode)"
proof -
  have "to_stdvec pc entry = Some body"
    using assms(2) by (auto simp: encode_entry_def encode_postcard_def split: if_splits option.splits)
  with assms(1) have "take_from_bytes pc (body @ []) = Some (entry, [])" unfolding postcard_ok_def by blast
  then show ?thesis by (simp add: decode_entry_def)
qed

text \<open>The version a log record needs before it may be written.\<close>

fun required_version :: "entry_payload \<Rightarrow> u8" where
  "required_version (Normal (AdvanceDenseBatch _)) = BATCH_WRITE_VERSION"
| "required_version (Normal (SetLeases _ _)) = LEASE_WRITE_VERSION"
| "required_version _ = 0"

lemma encode_entry_gated:
  "encode_entry pc version entry =
     (if version < required_version (en_payload entry) then Inl (NotRepresentable version)
      else encode_postcard pc entry)"
  by (auto simp: encode_entry_def version_defs split: entry_payload.splits high_water_command.splits)

section \<open>Recovery of the active write version\<close>

lemma recover_active_write_version_Inr:
  assumes "recover_active_write_version s l = Inr v"
  shows "in_readable_range v \<and> (\<forall>b. s = Some b \<longrightarrow> b \<le> v) \<and> (\<forall>b. l = Some b \<longrightarrow> b \<le> v)"
  using assms
  by (cases s; cases l)
    (auto simp: recover_active_write_version_def in_readable_range_def version_defs max_def
      split: option.splits if_splits)

end
