(* ===== verification/Dense_Map.thy ===== *)
theory Dense_Map
  imports Consensus
begin

text \<open>
  The arithmetic of a map of dense counters, shared by the drivers that keep one: an
  absent key reads as zero, and a batch runs its entries through a scratch map before
  anything is stored. The batch agrees with advancing the entries one after another.
\<close>

section \<open>Counters and batches\<close>

definition bt_lookup0 :: "('k, u64) btree_map \<Rightarrow> 'k \<Rightarrow> u64" where
  "bt_lookup0 m k = (case bt_get m k of None \<Rightarrow> 0 | Some v \<Rightarrow> v)"

text \<open>Phase 2 of the batch: a sequential fold over a scratch map.\<close>

fun batch_fold ::
  "(str, u64) btree_map \<Rightarrow> (seq_key \<times> u32) list \<Rightarrow> (str, u64) btree_map \<Rightarrow> u64 list
     \<Rightarrow> (consensus_error, u64 list \<times> (str, u64) btree_map) result" where
  "batch_fold m [] scratch starts = Inr (starts, scratch)"
| "batch_fold m ((key, count) # es) scratch starts =
     (let running = (case bt_get scratch (key_str key) of
                       Some v \<Rightarrow> v | None \<Rightarrow> bt_lookup0 m (key_str key))
      in case checked_add running (ucast count) of
           None \<Rightarrow> Inl ConsSeqOverflow
         | Some next \<Rightarrow> batch_fold m es (bt_insert (key_str key) next scratch) (starts @ [running]))"

text \<open>The map after a batch, and the keys it counts as new.\<close>

abbreviation batch_merge :: "(str, u64) btree_map \<Rightarrow> (str, u64) btree_map \<Rightarrow> (str, u64) btree_map" where
  "batch_merge sc m \<equiv> fold (\<lambda>kv a. bt_insert (fst kv) (snd kv) a) sc m"

abbreviation batch_new_keys :: "(str, u64) btree_map \<Rightarrow> (seq_key \<times> u32) list \<Rightarrow> str list" where
  "batch_new_keys m es \<equiv> remdups (filter (\<lambda>k. bt_get m k = None) (map (\<lambda>x. key_str (fst x)) es))"

section \<open>A batch is its single advances\<close>

definition overlay :: "(str, u64) btree_map \<Rightarrow> (str, u64) btree_map \<Rightarrow> seq_key \<Rightarrow> u64" where
  "overlay m scratch k =
     (case bt_get scratch (key_str k) of Some v \<Rightarrow> v | None \<Rightarrow> bt_lookup0 m (key_str k))"

lemma overlay_insert: "overlay m (bt_insert (key_str k) v sc) = (overlay m sc)(k := v)"
  by (auto simp: overlay_def bt_simps fun_eq_iff seq_key.expand)

lemma overlay_Nil: "overlay m [] k = bt_lookup0 m (key_str k)"
  by (simp add: overlay_def)

lemma batch_fold_seq:
  assumes "batch_fold m es sc st = r" "bt_wf sc"
  shows "case r of Inl err \<Rightarrow> err = ConsSeqOverflow \<and> seq_fold (overlay m sc) es = None
    | Inr (st', sc') \<Rightarrow> bt_wf sc' \<and> fst ` set sc' = fst ` set sc \<union> (\<lambda>e. key_str (fst e)) ` set es
        \<and> (\<exists>ss. st' = st @ ss \<and> seq_fold (overlay m sc) es = Some (ss, overlay m sc'))"
  using assms
proof (induction es arbitrary: sc st)
  case (Cons e es)
  obtain k n where e: "e = (k, n)" by (cases e)
  show ?case
  proof (cases "checked_add (overlay m sc k) (ucast n)")
    case None
    with Cons.prems e show ?thesis by (auto simp: overlay_def)
  next
    case (Some v)
    let ?sc = "bt_insert (key_str k) v sc"
    have b: "batch_fold m es ?sc (st @ [overlay m sc k]) = r"
      using Cons.prems(1) Some e by (simp add: overlay_def)
    have "bt_wf ?sc" using Cons.prems(2) by auto
    from Cons.IH [OF b this, unfolded overlay_insert] Some e show ?thesis
      by (auto simp: keys_bt_insert fun_upd_def split: sum.splits prod.splits)
  qed
qed auto

lemma fold_insert_overlay:
  assumes "bt_wf sc"
  shows "bt_lookup0 (fold (\<lambda>kv a. bt_insert (fst kv) (snd kv) a) sc m) (key_str k) = overlay m sc k"
  using bt_get_fold_insert [of sc m "key_str k"] bt.distinct_keys [OF assms]
  by (auto simp: bt_lookup0_def overlay_def bt_get_def split: option.splits)

end
