(* ===== verification/Raft_State_Machine.thy ===== *)
theory Raft_State_Machine
  imports Raft_Log Dense_Map
begin

text \<open>
  The replicated state machine (\<open>tsoracle-driver-openraft/src/state_machine.rs\<close>): the apply
  of every entry kind, the versioned snapshot payload and its envelope, the monotone
  persist-and-publish path shared by building and installing a snapshot, and the rebuild
  from the snapshot store. A snapshot build runs on a clone, concurrently with apply, so
  its critical sections are definitions of their own.
\<close>

section \<open>Snapshots\<close>

record snap_meta =
  sn_last_log_id :: "log_id option"
  sn_last_membership :: stored_membership

record sm_snapshot =
  sp_current_value :: u64
  sp_last_applied :: "log_id option"
  sp_last_membership :: stored_membership
  sp_dense :: "(str, u64) btree_map"
  sp_dense_cap :: u64
  sp_leases :: lease_set

record sm_snapshot_v5 =
  v5_current_value :: u64
  v5_last_applied :: "log_id option"
  v5_last_membership :: stored_membership
  v5_dense :: "(str, u64) btree_map"
  v5_dense_cap :: u64

record sm_snapshot_v4 =
  v4_current_value :: u64
  v4_last_applied :: "log_id option"
  v4_last_membership :: stored_membership

record persisted_snapshot =
  pn_meta :: snap_meta
  pn_data :: bytes

text \<open>The postcard functions for the four types that reach the disk or the wire.\<close>

record snapshot_postcards =
  pc_v4 :: "sm_snapshot_v4 postcard"
  pc_v5 :: "sm_snapshot_v5 postcard"
  pc_v7 :: "sm_snapshot postcard"
  pc_env :: "persisted_snapshot postcard"

definition unsupported :: "u8 \<Rightarrow> codec_error" where
  "unsupported v = VersionUnsupported MIN_READABLE_VERSION MAX_READABLE_VERSION v"

text \<open>The current layout re-validates its lease set while it decodes.\<close>

definition decode_v7 :: "sm_snapshot postcard \<Rightarrow> bytes \<Rightarrow> (codec_error, sm_snapshot) result" where
  "decode_v7 pc body =
     (case take_from_bytes pc body of
        None \<Rightarrow> Inl CodecDecode
      | Some (s, remainder) \<Rightarrow>
          (case lease_set_decode (ls_leases (sp_leases s)) of
             Inl _ \<Rightarrow> Inl CodecDecode
           | Inr _ \<Rightarrow> if remainder \<noteq> [] then Inl (TrailingBytes (length remainder)) else Inr s))"

definition snapshot_decode_version :: "snapshot_postcards \<Rightarrow> u8 \<Rightarrow> bytes \<Rightarrow> (codec_error, sm_snapshot) result" where
  "snapshot_decode_version P version body =
     (if version = BASELINE_WRITE_VERSION then
        (case decode_postcard_exact (pc_v4 P) body of
           Inl e \<Rightarrow> Inl e
         | Inr old \<Rightarrow> Inr \<lparr>sp_current_value = v4_current_value old, sp_last_applied = v4_last_applied old,
             sp_last_membership = v4_last_membership old, sp_dense = [], sp_dense_cap = 0, sp_leases = LeaseSet []\<rparr>)
      else if version = DENSE_WRITE_VERSION \<or> version = BATCH_WRITE_VERSION then
        (case decode_postcard_exact (pc_v5 P) body of
           Inl e \<Rightarrow> Inl e
         | Inr old \<Rightarrow> Inr \<lparr>sp_current_value = v5_current_value old, sp_last_applied = v5_last_applied old,
             sp_last_membership = v5_last_membership old, sp_dense = v5_dense old,
             sp_dense_cap = v5_dense_cap old, sp_leases = LeaseSet []\<rparr>)
      else if version = LEASE_WRITE_VERSION then decode_v7 (pc_v7 P) body
      else Inl (unsupported version))"

definition snapshot_encode_version :: "snapshot_postcards \<Rightarrow> sm_snapshot \<Rightarrow> u8 \<Rightarrow> (codec_error, bytes) result" where
  "snapshot_encode_version P s version =
     (if version = BASELINE_WRITE_VERSION then
        (if sp_dense s \<noteq> [] \<or> ls_leases (sp_leases s) \<noteq> [] then Inl (NotRepresentable version)
         else encode_postcard (pc_v4 P) \<lparr>v4_current_value = sp_current_value s, v4_last_applied = sp_last_applied s,
           v4_last_membership = sp_last_membership s\<rparr>)
      else if version = DENSE_WRITE_VERSION \<or> version = BATCH_WRITE_VERSION then
        (if ls_leases (sp_leases s) \<noteq> [] then Inl (NotRepresentable version)
         else encode_postcard (pc_v5 P) \<lparr>v5_current_value = sp_current_value s, v5_last_applied = sp_last_applied s,
           v5_last_membership = sp_last_membership s, v5_dense = sp_dense s, v5_dense_cap = sp_dense_cap s\<rparr>)
      else if version = LEASE_WRITE_VERSION then encode_postcard (pc_v7 P) s
      else Inl (unsupported version))"

definition snapshot_codec :: "snapshot_postcards \<Rightarrow> sm_snapshot versioned_codec" where
  "snapshot_codec P = \<lparr>decode_version = snapshot_decode_version P, encode_version = snapshot_encode_version P\<rparr>"

definition envelope_decode_version :: "snapshot_postcards \<Rightarrow> u8 \<Rightarrow> bytes \<Rightarrow> (codec_error, persisted_snapshot) result" where
  "envelope_decode_version P version body =
     (if version \<in> {BASELINE_WRITE_VERSION, DENSE_WRITE_VERSION, BATCH_WRITE_VERSION, LEASE_WRITE_VERSION}
      then decode_postcard_exact (pc_env P) body else Inl (unsupported version))"

definition envelope_encode_version :: "snapshot_postcards \<Rightarrow> persisted_snapshot \<Rightarrow> u8 \<Rightarrow> (codec_error, bytes) result" where
  "envelope_encode_version P s version =
     (if version \<in> {BASELINE_WRITE_VERSION, DENSE_WRITE_VERSION, BATCH_WRITE_VERSION, LEASE_WRITE_VERSION}
      then encode_postcard (pc_env P) s else Inl (unsupported version))"

definition envelope_codec :: "snapshot_postcards \<Rightarrow> persisted_snapshot versioned_codec" where
  "envelope_codec P = \<lparr>decode_version = envelope_decode_version P, encode_version = envelope_encode_version P\<rparr>"

section \<open>The state\<close>

definition RAFT_DENSE_CARDINALITY_CAP :: u64 where "RAFT_DENSE_CARDINALITY_CAP = 10000"

record stored_snapshot =
  ss_meta :: snap_meta
  ss_data :: bytes

record sm_core =
  co_current_value :: u64
  co_dense :: "(str, u64) btree_map"
  co_dense_cap :: u64
  co_leases :: lease_set
  co_last_applied :: "log_id option"
  co_last_membership :: stored_membership
  co_current_snapshot :: "stored_snapshot option"

text \<open>The state machine: the core, what the snapshot store holds, and the shared write version.\<close>

record raft_sm =
  sm_core :: sm_core
  sm_store :: "bytes option"
  sm_active :: u8

definition core_new :: sm_core where
  "core_new = \<lparr>co_current_value = 0, co_dense = [], co_dense_cap = RAFT_DENSE_CARDINALITY_CAP,
     co_leases = LeaseSet [], co_last_applied = None, co_last_membership = default_membership,
     co_current_snapshot = None\<rparr>"

definition dense_value :: "str \<Rightarrow> raft_sm \<Rightarrow> u64" where
  "dense_value key sm = bt_lookup0 (co_dense (sm_core sm)) key"

definition sm_leases :: "raft_sm \<Rightarrow> lease_record list" where
  "sm_leases sm = lease_set_to_records (co_leases (sm_core sm))"

definition applied_state :: "raft_sm \<Rightarrow> log_id option \<times> stored_membership" where
  "applied_state sm = (co_last_applied (sm_core sm), co_last_membership (sm_core sm))"

section \<open>Apply\<close>

definition committed_members :: "sm_core \<Rightarrow> u64 list" where
  "committed_members c = map fst (mb_nodes (stm_membership (co_last_membership c)))"

definition apply_set_format_version :: "u8 \<Rightarrow> u64 list \<Rightarrow> raft_sm \<Rightarrow> apply_outcome \<times> raft_sm" where
  "apply_set_format_version target gated sm =
     (if \<not> in_readable_range target then (FormatActivationTargetOutOfRange target, sm)
      else if set (committed_members (sm_core sm)) \<subseteq> set gated
      then (FormatActivated target, sm\<lparr>sm_active := target\<rparr>)
      else (FormatActivationNoop target, sm))"

definition apply_advance_dense :: "seq_key \<Rightarrow> u32 \<Rightarrow> sm_core \<Rightarrow> apply_outcome \<times> sm_core" where
  "apply_advance_dense key count c =
     (if bt_get (co_dense c) (key_str key) = None \<and> of_nat (length (co_dense c)) \<ge> co_dense_cap c
      then (DenseCardinalityExceeded (co_dense_cap c), c)
      else let start = bt_lookup0 (co_dense c) (key_str key)
        in case checked_add start (ucast count) of
          Some next \<Rightarrow> (DenseAdvanced start, c\<lparr>co_dense := bt_insert (key_str key) next (co_dense c)\<rparr>)
        | None \<Rightarrow> (DenseOverflow, c))"

definition entry_pairs :: "dense_advance list \<Rightarrow> (seq_key \<times> u32) list" where
  "entry_pairs es = map (\<lambda>e. (da_key e, da_count e)) es"

definition apply_advance_dense_batch :: "dense_advance list \<Rightarrow> sm_core \<Rightarrow> apply_outcome \<times> sm_core" where
  "apply_advance_dense_batch es c =
     (if of_nat (length (co_dense c)) + of_nat (length (batch_new_keys (co_dense c) (entry_pairs es))) > co_dense_cap c
      then (DenseBatchCardinalityExceeded (co_dense_cap c), c)
      else case batch_fold (co_dense c) (entry_pairs es) [] [] of
        Inl _ \<Rightarrow> (DenseBatchOverflow, c)
      | Inr (starts, scratch) \<Rightarrow>
          (DenseBatchAdvanced starts, c\<lparr>co_dense := batch_merge scratch (co_dense c)\<rparr>))"

definition apply_set_leases :: "log_id \<Rightarrow> u64 \<Rightarrow> lease_set \<Rightarrow> sm_core \<Rightarrow> apply_outcome \<times> sm_core" where
  "apply_set_leases log_id expected_term leases c =
     (if lid_term log_id = expected_term then (LeasesReplaced, c\<lparr>co_leases := leases\<rparr>)
      else (LeasesFenced expected_term (lid_term log_id), c))"

definition on_core :: "(sm_core \<Rightarrow> 'r \<times> sm_core) \<Rightarrow> raft_sm \<Rightarrow> 'r \<times> raft_sm" where
  "on_core f sm = (let (r, c) = f (sm_core sm) in (r, sm\<lparr>sm_core := c\<rparr>))"

fun apply_payload :: "log_id \<Rightarrow> entry_payload \<Rightarrow> raft_sm \<Rightarrow> apply_outcome \<times> raft_sm" where
  "apply_payload i Blank sm = (Advanced, sm)"
| "apply_payload i (Normal (Advance p)) sm =
     on_core (\<lambda>c. (Advanced, c\<lparr>co_current_value := merge p (co_current_value c)\<rparr>)) sm"
| "apply_payload i (Normal (SetFormatVersion target gated)) sm = apply_set_format_version target gated sm"
| "apply_payload i (Normal (AdvanceDense key count)) sm = on_core (apply_advance_dense key count) sm"
| "apply_payload i (Normal (AdvanceDenseBatch es)) sm = on_core (apply_advance_dense_batch es) sm"
| "apply_payload i (Normal (SetLeases t leases)) sm = on_core (apply_set_leases i t leases) sm"
| "apply_payload i (MembershipEntry m) sm =
     on_core (\<lambda>c. (Advanced, c\<lparr>co_last_membership := \<lparr>stm_log_id = Some i, stm_membership = m\<rparr>\<rparr>)) sm"

text \<open>Every arm ends by recording the log id and answering with the current value.\<close>

definition apply_entry :: "raft_entry \<Rightarrow> raft_sm \<Rightarrow> high_water_applied \<times> raft_sm" where
  "apply_entry entry sm =
     (let (outcome, sm1) = apply_payload (en_log_id entry) (en_payload entry) sm;
          c = (sm_core sm1)\<lparr>co_last_applied := Some (en_log_id entry)\<rparr>
      in (\<lparr>ha_value = co_current_value c, ha_outcome = outcome\<rparr>, sm1\<lparr>sm_core := c\<rparr>))"

text \<open>The stream may fail; what was applied before stays applied.\<close>

fun sm_apply :: "(io_error, raft_entry) result list \<Rightarrow> raft_sm
    \<Rightarrow> (io_error, unit) result \<times> high_water_applied list \<times> raft_sm" where
  "sm_apply [] sm = (Inr (), [], sm)"
| "sm_apply (Inl e # rest) sm = (Inl e, [], sm)"
| "sm_apply (Inr entry # rest) sm =
     (let (a, sm1) = apply_entry entry sm; (r, as, sm2) = sm_apply rest sm1 in (r, a # as, sm2))"

section \<open>Persist and publish\<close>

definition supersedes_published :: "log_id option \<Rightarrow> log_id option \<Rightarrow> bool" where
  "supersedes_published incoming published \<longleftrightarrow> incoming \<ge> published"

text \<open>
  What the environment makes of a \<open>SnapshotStore::save\<close>: it succeeds, or it reports an
  error and the bytes may have reached the store all the same.
\<close>

datatype save_outcome = SaveOk | SaveFailed bool

definition store_error :: io_error where
  "store_error = \<lparr>io_kind = IoOther, io_context = ''snapshot store'', io_cause = None\<rparr>"

definition store_save :: "save_outcome \<Rightarrow> bytes \<Rightarrow> bytes option \<Rightarrow> (io_error, unit) result \<times> bytes option" where
  "store_save io payload blob =
     (case io of SaveOk \<Rightarrow> (Inr (), Some payload)
      | SaveFailed reached \<Rightarrow> (Inl store_error, if reached then Some payload else blob))"

definition published_log_id :: "sm_core \<Rightarrow> log_id option" where
  "published_log_id c = (case co_current_snapshot c of None \<Rightarrow> None | Some s \<Rightarrow> sn_last_log_id (ss_meta s))"

definition commit_snapshot ::
  "save_outcome \<Rightarrow> snap_meta \<Rightarrow> bytes \<Rightarrow> bytes \<Rightarrow> (sm_core \<Rightarrow> sm_core) \<Rightarrow> raft_sm
     \<Rightarrow> (io_error, bool) result \<times> raft_sm" where
  "commit_snapshot io meta data envelope on_adopt sm =
     (if \<not> supersedes_published (sn_last_log_id meta) (published_log_id (sm_core sm)) then (Inr False, sm)
      else case store_save io envelope (sm_store sm) of
        (Inl e, blob) \<Rightarrow> (Inl e, sm\<lparr>sm_store := blob\<rparr>)
      | (Inr _, blob) \<Rightarrow>
          (Inr True, sm\<lparr>sm_store := blob,
             sm_core := (on_adopt (sm_core sm))\<lparr>co_current_snapshot := Some \<lparr>ss_meta = meta, ss_data = data\<rparr>\<rparr>\<rparr>))"

section \<open>Building a snapshot\<close>

definition snapshot_of :: "sm_core \<Rightarrow> sm_snapshot" where
  "snapshot_of c = \<lparr>sp_current_value = co_current_value c, sp_last_applied = co_last_applied c,
     sp_last_membership = co_last_membership c, sp_dense = co_dense c, sp_dense_cap = co_dense_cap c,
     sp_leases = co_leases c\<rparr>"

definition build_capture :: "snapshot_postcards \<Rightarrow> raft_sm \<Rightarrow> (io_error, snap_meta \<times> bytes) result" where
  "build_capture P sm =
     (case encode_framed (snapshot_codec P) (sm_active sm) (snapshot_of (sm_core sm)) of
        Inl e \<Rightarrow> Inl (codec_io_error ''snapshot payload serialize'' e)
      | Inr bytes \<Rightarrow> Inr (\<lparr>sn_last_log_id = co_last_applied (sm_core sm),
            sn_last_membership = co_last_membership (sm_core sm)\<rparr>, bytes))"

definition make_envelope :: "snapshot_postcards \<Rightarrow> u8 \<Rightarrow> snap_meta \<Rightarrow> bytes \<Rightarrow> (io_error, bytes) result" where
  "make_envelope P version meta data =
     map_err (codec_io_error ''snapshot envelope serialize'')
       (encode_framed (envelope_codec P) version \<lparr>pn_meta = meta, pn_data = data\<rparr>)"

definition build_finish ::
  "snapshot_postcards \<Rightarrow> save_outcome \<Rightarrow> snap_meta \<Rightarrow> bytes \<Rightarrow> raft_sm \<Rightarrow> (io_error, snap_meta \<times> bytes) result \<times> raft_sm" where
  "build_finish P io meta data sm =
     (case make_envelope P (sm_active sm) meta data of
        Inl e \<Rightarrow> (Inl e, sm)
      | Inr envelope \<Rightarrow>
          (case commit_snapshot io meta data envelope (\<lambda>c. c) sm of
             (Inl e, sm') \<Rightarrow> (Inl e, sm')
           | (Inr _, sm') \<Rightarrow> (Inr (meta, data), sm')))"

definition build_snapshot ::
  "snapshot_postcards \<Rightarrow> save_outcome \<Rightarrow> raft_sm \<Rightarrow> (io_error, snap_meta \<times> bytes) result \<times> raft_sm" where
  "build_snapshot P io sm =
     (case build_capture P sm of
        Inl e \<Rightarrow> (Inl e, sm)
      | Inr (meta, data) \<Rightarrow> build_finish P io meta data sm)"

section \<open>Installing a snapshot and restarting\<close>

definition adopt :: "sm_snapshot \<Rightarrow> sm_core \<Rightarrow> sm_core" where
  "adopt p c = c\<lparr>co_current_value := sp_current_value p, co_last_applied := sp_last_applied p,
     co_last_membership := sp_last_membership p, co_dense := sp_dense p,
     co_dense_cap := (if sp_dense_cap p \<noteq> 0 then sp_dense_cap p else co_dense_cap c), co_leases := sp_leases p\<rparr>"

definition invalid_data :: "string \<Rightarrow> io_error" where
  "invalid_data ctx = \<lparr>io_kind = IoInvalidData, io_context = ctx, io_cause = None\<rparr>"

definition install_snapshot ::
  "snapshot_postcards \<Rightarrow> save_outcome \<Rightarrow> snap_meta \<Rightarrow> bytes \<Rightarrow> raft_sm \<Rightarrow> (io_error, unit) result \<times> raft_sm" where
  "install_snapshot P io meta bs sm =
     (case decode_framed (snapshot_codec P) MIN_READABLE_VERSION MAX_READABLE_VERSION bs of
        Inl e \<Rightarrow> (Inl (codec_io_error ''snapshot payload decode'' e), sm)
      | Inr payload \<Rightarrow>
          if sn_last_log_id meta \<noteq> sp_last_applied payload
          then (Inl (invalid_data ''snapshot meta/payload disagree on last_log_id''), sm)
          else if \<not> list_all (\<lambda>k. is_ok (seq_key_try_new k)) (map fst (sp_dense payload))
          then (Inl (invalid_data ''snapshot dense key fails the SeqKey invariant''), sm)
          else let sm1 = (case bs of
                      version # _ \<Rightarrow> if version > sm_active sm then sm\<lparr>sm_active := version\<rparr> else sm
                    | [] \<Rightarrow> sm)
            in case make_envelope P (sm_active sm1) meta bs of
              Inl e \<Rightarrow> (Inl e, sm1)
            | Inr envelope \<Rightarrow>
                (case commit_snapshot io meta bs envelope (adopt payload) sm1 of
                   (Inl e, sm2) \<Rightarrow> (Inl e, sm2)
                 | (Inr _, sm2) \<Rightarrow> (Inr (), sm2)))"

definition get_current_snapshot :: "raft_sm \<Rightarrow> (snap_meta \<times> bytes) option" where
  "get_current_snapshot sm = map_option (\<lambda>s. (ss_meta s, ss_data s)) (co_current_snapshot (sm_core sm))"

text \<open>\<open>loaded\<close> is what \<open>store.load()\<close> returns.\<close>

definition with_store_and_active_version ::
  "snapshot_postcards \<Rightarrow> (io_error, bytes option) result \<Rightarrow> u8 \<Rightarrow> (io_error, raft_sm) result" where
  "with_store_and_active_version P loaded active =
     (case loaded of
        Inl e \<Rightarrow> Inl e
      | Inr None \<Rightarrow> Inr \<lparr>sm_core = core_new, sm_store = None, sm_active = active\<rparr>
      | Inr (Some bs) \<Rightarrow>
          (case decode_framed (envelope_codec P) MIN_READABLE_VERSION MAX_READABLE_VERSION bs of
             Inl e \<Rightarrow> Inl (codec_io_error ''persisted snapshot envelope decode'' e)
           | Inr persisted \<Rightarrow>
               (case decode_framed (snapshot_codec P) MIN_READABLE_VERSION MAX_READABLE_VERSION (pn_data persisted) of
                  Inl e \<Rightarrow> Inl (codec_io_error ''persisted snapshot payload decode'' e)
                | Inr payload \<Rightarrow>
                    Inr \<lparr>sm_core = (adopt payload core_new)
                           \<lparr>co_current_snapshot := Some \<lparr>ss_meta = pn_meta persisted, ss_data = pn_data persisted\<rparr>\<rparr>,
                         sm_store = Some bs,
                         sm_active = (case bs of version # _ \<Rightarrow> max active version | [] \<Rightarrow> active)\<rparr>)))"

definition with_store :: "snapshot_postcards \<Rightarrow> (io_error, bytes option) result \<Rightarrow> (io_error, raft_sm) result" where
  "with_store P loaded = with_store_and_active_version P loaded BASELINE_WRITE_VERSION"

definition sm_new :: "raft_sm" where
  "sm_new = \<lparr>sm_core = core_new, sm_store = None, sm_active = BASELINE_WRITE_VERSION\<rparr>"

section \<open>The snapshot codecs\<close>

text \<open>
  What the code relies on of postcard: the four types are read back, the encoders do not
  fail on values of these types, and a decoded \<open>BTreeMap\<close> is one.
\<close>

definition membership_ok :: "stored_membership \<Rightarrow> bool" where
  "membership_ok m \<longleftrightarrow> bt_wf (mb_nodes (stm_membership m))"

definition snapshot_ok :: "sm_snapshot \<Rightarrow> bool" where
  "snapshot_ok s \<longleftrightarrow> lease_set_ok (sp_leases s) \<and> bt_wf (sp_dense s)
     \<and> list_all (\<lambda>k. is_ok (seq_key_try_new k)) (map fst (sp_dense s))
     \<and> membership_ok (sp_last_membership s)"

definition postcards_ok :: "snapshot_postcards \<Rightarrow> bool" where
  "postcards_ok P \<longleftrightarrow> postcard_ok (pc_v4 P) \<and> postcard_ok (pc_v5 P) \<and> postcard_ok (pc_v7 P) \<and> postcard_ok (pc_env P)
     \<and> (\<forall>s. membership_ok (v4_last_membership s) \<longrightarrow> to_stdvec (pc_v4 P) s \<noteq> None)
     \<and> (\<forall>s. bt_wf (v5_dense s) \<and> membership_ok (v5_last_membership s) \<longrightarrow> to_stdvec (pc_v5 P) s \<noteq> None)
     \<and> (\<forall>s. snapshot_ok s \<longrightarrow> to_stdvec (pc_v7 P) s \<noteq> None)
     \<and> (\<forall>s. membership_ok (sn_last_membership (pn_meta s)) \<longrightarrow> to_stdvec (pc_env P) s \<noteq> None)
     \<and> (\<forall>b s r. take_from_bytes (pc_v4 P) b = Some (s, r) \<longrightarrow> membership_ok (v4_last_membership s))
     \<and> (\<forall>b s r. take_from_bytes (pc_v5 P) b = Some (s, r) \<longrightarrow> bt_wf (v5_dense s) \<and> membership_ok (v5_last_membership s))
     \<and> (\<forall>b s r. take_from_bytes (pc_v7 P) b = Some (s, r) \<longrightarrow> bt_wf (sp_dense s) \<and> membership_ok (sp_last_membership s))"

text \<open>What a version can hold, and what it keeps.\<close>

definition representable :: "u8 \<Rightarrow> sm_snapshot \<Rightarrow> bool" where
  "representable v s \<longleftrightarrow> in_readable_range v
     \<and> (v < DENSE_WRITE_VERSION \<longrightarrow> sp_dense s = []) \<and> (v < LEASE_WRITE_VERSION \<longrightarrow> ls_leases (sp_leases s) = [])"

definition represents :: "u8 \<Rightarrow> sm_snapshot \<Rightarrow> sm_snapshot" where
  "represents v s = (if v = BASELINE_WRITE_VERSION then s\<lparr>sp_dense_cap := 0\<rparr> else s)"

lemma readable_cases:
  "in_readable_range v \<longleftrightarrow> v = BASELINE_WRITE_VERSION \<or> v = DENSE_WRITE_VERSION \<or> v = BATCH_WRITE_VERSION
     \<or> v = LEASE_WRITE_VERSION"
proof -
  have "(4 \<le> unat v \<and> unat v \<le> 7) \<longleftrightarrow> unat v = 4 \<or> unat v = 5 \<or> unat v = 6 \<or> unat v = 7" by linarith
  then show ?thesis by (simp add: in_readable_range_def version_defs to_nat)
qed

lemma snapshot_encode_representable:
  "snapshot_encode_version P s v = Inr b \<Longrightarrow> representable v s"
  by (auto simp: snapshot_encode_version_def representable_def readable_cases version_defs split: if_splits)

lemma representable_mono:
  "representable v s \<Longrightarrow> v \<le> w \<Longrightarrow> in_readable_range w \<Longrightarrow> representable w s"
  by (auto simp: representable_def)

lemma snapshot_encode_not_representable:
  "in_readable_range v \<Longrightarrow> \<not> representable v s \<Longrightarrow> snapshot_encode_version P s v = Inl (NotRepresentable v)"
  by (auto simp: snapshot_encode_version_def representable_def readable_cases version_defs)

locale postcards =
  fixes P :: snapshot_postcards
  assumes ok: "postcards_ok P"
begin

lemma snapshot_roundtrip:
  assumes "snapshot_ok s" "snapshot_encode_version P s v = Inr b"
  shows "snapshot_decode_version P v b = Inr (represents v s)"
proof -
  have l: "lease_set_decode (ls_leases (sp_leases s)) = Inr (sp_leases s)"
    using assms(1) by (simp add: snapshot_ok_def lease_set_decode_Inr_iff)
  consider "v = BASELINE_WRITE_VERSION" | "v = DENSE_WRITE_VERSION \<or> v = BATCH_WRITE_VERSION" | "v = LEASE_WRITE_VERSION"
    using snapshot_encode_representable [OF assms(2)] by (auto simp: representable_def readable_cases)
  then show ?thesis
  proof cases
    case 1
    with assms(2) ok show ?thesis
      by (cases s, cases "sp_leases s")
        (auto simp: snapshot_encode_version_def snapshot_decode_version_def postcards_ok_def represents_def
          dest: postcard_exact split: if_splits)
  next
    case 2
    with assms(2) ok show ?thesis
      by (cases s, cases "sp_leases s")
        (auto simp: snapshot_encode_version_def snapshot_decode_version_def postcards_ok_def represents_def version_defs
          dest: postcard_exact split: if_splits)
  next
    case 3
    then have "to_stdvec (pc_v7 P) s = Some b"
      using assms(2) by (auto simp: snapshot_encode_version_def encode_postcard_def version_defs split: option.splits)
    with ok have "take_from_bytes (pc_v7 P) (b @ []) = Some (s, [])" unfolding postcards_ok_def postcard_ok_def by blast
    with 3 l show ?thesis
      by (simp add: snapshot_decode_version_def decode_v7_def represents_def version_defs)
  qed
qed

end

sublocale postcards \<subseteq> snap: versioned "snapshot_codec P" MIN_READABLE_VERSION MAX_READABLE_VERSION snapshot_ok represents
  using snapshot_roundtrip snapshot_encode_representable
  by unfold_locales (auto simp: snapshot_codec_def representable_def in_readable_range_def)

sublocale postcards \<subseteq> env: versioned "envelope_codec P" MIN_READABLE_VERSION MAX_READABLE_VERSION "\<lambda>_. True" "\<lambda>_ s. s"
proof (unfold_locales, goal_cases)
  case (1 v n body)
  with ok postcard_exact show ?case
    by (auto simp: envelope_codec_def envelope_encode_version_def envelope_decode_version_def postcards_ok_def split: if_splits)
next
  case (2 v n body)
  then have "in_readable_range n"
    unfolding readable_cases by (auto simp: envelope_codec_def envelope_encode_version_def split: if_splits)
  then show ?case by (simp add: in_readable_range_def)
qed

section \<open>Replay\<close>

text \<open>The replicated part of the core, and the effect of a log on it.\<close>

definition replicated :: "sm_core \<Rightarrow> sm_core" where
  "replicated c = c\<lparr>co_current_snapshot := None\<rparr>"

definition core_step :: "raft_entry \<Rightarrow> sm_core \<Rightarrow> high_water_applied \<times> sm_core" where
  "core_step e c = (let (a, sm) = apply_entry e \<lparr>sm_core = c, sm_store = None, sm_active = 0\<rparr> in (a, sm_core sm))"

definition replay :: "raft_entry list \<Rightarrow> sm_core \<Rightarrow> sm_core" where
  "replay es c = fold (\<lambda>e c. snd (core_step e c)) es c"

lemma replay_simps [simp]:
  "replay [] c = c" "replay (e # es) c = replay es (snd (core_step e c))"
  "replay (es @ fs) c = replay fs (replay es c)"
  by (simp_all add: replay_def)

lemma apply_payload_core:
  "sm_core (snd (apply_payload i p sm)) = sm_core (snd (apply_payload i p \<lparr>sm_core = sm_core sm, sm_store = x, sm_active = y\<rparr>))"
  "fst (apply_payload i p sm) = fst (apply_payload i p \<lparr>sm_core = sm_core sm, sm_store = x, sm_active = y\<rparr>)"
  "sm_store (snd (apply_payload i p sm)) = sm_store sm"
  by (induction i p sm rule: apply_payload.induct)
    (auto simp: on_core_def apply_set_format_version_def split: prod.splits)

lemma apply_entry_core:
  "sm_core (snd (apply_entry e sm)) = snd (core_step e (sm_core sm))"
  "fst (apply_entry e sm) = fst (core_step e (sm_core sm))"
  "sm_store (snd (apply_entry e sm)) = sm_store sm"
  using apply_payload_core(1,2) [of "en_log_id e" "en_payload e" sm None 0]
    apply_payload_core(3) [of "en_log_id e" "en_payload e" sm]
  by (auto simp: core_step_def apply_entry_def Let_def split: prod.splits)

lemma sm_apply_core:
  "sm_apply (map Inr es) sm = (Inr (), as, sm') \<Longrightarrow> sm_core sm' = replay es (sm_core sm) \<and> sm_store sm' = sm_store sm"
proof (induction es arbitrary: sm as)
  case (Cons e es)
  obtain a sm1 where 1: "apply_entry e sm = (a, sm1)" by fastforce
  with Cons.prems obtain bs where "sm_apply (map Inr es) sm1 = (Inr (), bs, sm')" by (auto split: prod.splits)
  from Cons.IH [OF this] 1 apply_entry_core [of e sm] show ?case by simp
qed simp

text \<open>One entry, arm by arm.\<close>

lemma core_step_simps:
  "snd (core_step \<lparr>en_log_id = i, en_payload = Blank\<rparr> c) = c\<lparr>co_last_applied := Some i\<rparr>"
  "snd (core_step \<lparr>en_log_id = i, en_payload = Normal (Advance p)\<rparr> c)
     = c\<lparr>co_current_value := merge p (co_current_value c), co_last_applied := Some i\<rparr>"
  "snd (core_step \<lparr>en_log_id = i, en_payload = Normal (SetFormatVersion v g)\<rparr> c) = c\<lparr>co_last_applied := Some i\<rparr>"
  "snd (core_step \<lparr>en_log_id = i, en_payload = Normal (AdvanceDense k n)\<rparr> c)
     = (snd (apply_advance_dense k n c))\<lparr>co_last_applied := Some i\<rparr>"
  "snd (core_step \<lparr>en_log_id = i, en_payload = Normal (AdvanceDenseBatch es)\<rparr> c)
     = (snd (apply_advance_dense_batch es c))\<lparr>co_last_applied := Some i\<rparr>"
  "snd (core_step \<lparr>en_log_id = i, en_payload = Normal (SetLeases t ls)\<rparr> c)
     = (snd (apply_set_leases i t ls c))\<lparr>co_last_applied := Some i\<rparr>"
  "snd (core_step \<lparr>en_log_id = i, en_payload = MembershipEntry m\<rparr> c)
     = c\<lparr>co_last_membership := \<lparr>stm_log_id = Some i, stm_membership = m\<rparr>, co_last_applied := Some i\<rparr>"
  by (auto simp: core_step_def apply_entry_def on_core_def apply_set_format_version_def Let_def split: prod.splits)

lemma entry_exhaust:
  obtains i where "e = \<lparr>en_log_id = i, en_payload = Blank\<rparr>"
  | i p where "e = \<lparr>en_log_id = i, en_payload = Normal (Advance p)\<rparr>"
  | i v g where "e = \<lparr>en_log_id = i, en_payload = Normal (SetFormatVersion v g)\<rparr>"
  | i k n where "e = \<lparr>en_log_id = i, en_payload = Normal (AdvanceDense k n)\<rparr>"
  | i es where "e = \<lparr>en_log_id = i, en_payload = Normal (AdvanceDenseBatch es)\<rparr>"
  | i t ls where "e = \<lparr>en_log_id = i, en_payload = Normal (SetLeases t ls)\<rparr>"
  | i m where "e = \<lparr>en_log_id = i, en_payload = MembershipEntry m\<rparr>"
proof -
  obtain i p where e: "e = \<lparr>en_log_id = i, en_payload = p\<rparr>" by (cases e) simp
  show ?thesis
  proof (cases p)
    case (Normal c)
    with e that show ?thesis by (cases c) auto
  qed (use e that in auto)
qed

end
