(* ===== verification/Raft_Snapshots.thy ===== *)
theory Raft_Snapshots
  imports Raft_State_Machine
begin

text \<open>
  What snapshots preserve. The first part shows that a snapshot stands for the log it
  covers: installing it and replaying the rest is replaying the whole log. The second part
  runs applies, builds on clones, installs of arbitrary bytes and restarts in any
  interleaving and shows that the published snapshot never moves back, that the durable one
  is never behind it, and that a restart from the store always succeeds.
\<close>

section \<open>The core under replay\<close>

definition entry_valid :: "raft_entry \<Rightarrow> bool" where
  "entry_valid e \<longleftrightarrow> payload_valid (en_payload e)
     \<and> (case en_payload e of MembershipEntry m \<Rightarrow> bt_wf (mb_nodes m) | _ \<Rightarrow> True)"

definition core_ok :: "sm_core \<Rightarrow> bool" where
  "core_ok c \<longleftrightarrow> snapshot_ok (snapshot_of c)"

lemmas core_ok_defs = core_ok_def snapshot_ok_def snapshot_of_def

lemma core_new_ok [simp]: "core_ok core_new"
  by (simp add: core_ok_defs core_new_def lease_set_ok_def membership_ok_def default_membership_def)

lemma keys_batch_merge: "fst ` set (batch_merge sc m) = fst ` set m \<union> fst ` set sc"
  by (induction sc arbitrary: m) (auto simp: keys_bt_insert)

definition dense_ok :: "(str, u64) btree_map \<Rightarrow> bool" where
  "dense_ok m \<longleftrightarrow> bt_wf m \<and> (\<forall>k \<in> fst ` set m. is_ok (seq_key_try_new k))"

lemma dense_ok_insert:
  "dense_ok m \<Longrightarrow> is_ok (seq_key_try_new k) \<Longrightarrow> dense_ok (bt_insert k v m)"
  unfolding dense_ok_def keys_bt_insert by blast

lemma apply_advance_dense_ok:
  "dense_ok (co_dense c) \<Longrightarrow> seq_key_valid k \<Longrightarrow> dense_ok (co_dense (snd (apply_advance_dense k n c)))"
  by (simp add: apply_advance_dense_def Let_def seq_key_valid_def dense_ok_insert split: option.split)

lemma apply_advance_dense_batch_ok:
  assumes "dense_ok (co_dense c)" "list_all (\<lambda>e. seq_key_valid (da_key e)) es"
  shows "dense_ok (co_dense (snd (apply_advance_dense_batch es c)))"
proof (cases "batch_fold (co_dense c) (entry_pairs es) [] []")
  case (Inl _)
  with assms(1) show ?thesis by (simp add: apply_advance_dense_batch_def)
next
  case (Inr x)
  obtain starts sc where x: "x = (starts, sc)" by fastforce
  from batch_fold_seq [OF Inr] x have "fst ` set sc = (\<lambda>e. key_str (fst e)) ` set (entry_pairs es)" by simp
  with assms have "dense_ok (batch_merge sc (co_dense c))"
    by (auto simp: dense_ok_def keys_batch_merge bt_wf_fold_insert entry_pairs_def list_all_iff seq_key_valid_def)
  with assms(1) Inr x show ?thesis by (simp add: apply_advance_dense_batch_def)
qed

lemma core_ok_iff:
  "core_ok c \<longleftrightarrow> lease_set_ok (co_leases c) \<and> dense_ok (co_dense c) \<and> membership_ok (co_last_membership c)"
  by (auto simp: core_ok_defs dense_ok_def list_all_iff)

lemma dense_arms_frame:
  "co_leases (snd (apply_advance_dense k n c)) = co_leases c"
  "co_last_membership (snd (apply_advance_dense k n c)) = co_last_membership c"
  "co_current_value (snd (apply_advance_dense k n c)) = co_current_value c"
  "co_dense_cap (snd (apply_advance_dense k n c)) = co_dense_cap c"
  "co_current_snapshot (snd (apply_advance_dense k n c)) = co_current_snapshot c"
  "co_leases (snd (apply_advance_dense_batch es c)) = co_leases c"
  "co_last_membership (snd (apply_advance_dense_batch es c)) = co_last_membership c"
  "co_current_value (snd (apply_advance_dense_batch es c)) = co_current_value c"
  "co_dense_cap (snd (apply_advance_dense_batch es c)) = co_dense_cap c"
  "co_current_snapshot (snd (apply_advance_dense_batch es c)) = co_current_snapshot c"
  by (auto simp: apply_advance_dense_def apply_advance_dense_batch_def Let_def
      split: option.splits sum.splits prod.splits)

lemma core_step_ok:
  assumes "core_ok c" "entry_valid e"
  shows "core_ok (snd (core_step e c))"
  using assms
  by (cases e rule: entry_exhaust)
    (auto simp: core_step_simps core_ok_iff entry_valid_def dense_arms_frame apply_advance_dense_ok
      apply_advance_dense_batch_ok apply_set_leases_def is_ok_iff lease_set_decode_Inr_iff membership_ok_def)

lemma replay_ok: "core_ok c \<Longrightarrow> list_all entry_valid es \<Longrightarrow> core_ok (replay es c)"
  by (induction es arbitrary: c) (simp_all add: core_step_ok)

lemma core_step_frame:
  "co_dense_cap (snd (core_step e c)) = co_dense_cap c"
  "co_current_snapshot (snd (core_step e c)) = co_current_snapshot c"
  "co_last_applied (snd (core_step e c)) = Some (en_log_id e)"
  by (cases e rule: entry_exhaust; simp add: core_step_simps dense_arms_frame apply_set_leases_def)+

lemma replay_cap [simp]: "co_dense_cap (replay es c) = co_dense_cap c"
  by (induction es arbitrary: c) (simp_all add: core_step_frame)

lemma core_step_replicated: "replicated (snd (core_step e c)) = snd (core_step e (replicated c))"
  by (cases e rule: entry_exhaust)
    (auto simp: core_step_simps replicated_def apply_advance_dense_def apply_advance_dense_batch_def apply_set_leases_def
      Let_def split: option.splits sum.splits prod.splits)

lemma replay_replicated: "replicated (replay es c) = replay es (replicated c)"
  by (induction es arbitrary: c) (simp_all add: core_step_replicated)

section \<open>A snapshot stands for its log\<close>

lemma replicated_eqD:
  assumes "replicated c = replicated d"
  shows "snapshot_of c = snapshot_of d" "co_dense_cap c = co_dense_cap d" "co_last_applied c = co_last_applied d"
    "co_last_membership c = co_last_membership d" "core_ok c = core_ok d"
  using assms by (cases c; cases d; simp add: replicated_def snapshot_of_def core_ok_def)+

lemma adopt_represents:
  assumes "co_dense_cap c = co_dense_cap d"
  shows "replicated (adopt (represents v (snapshot_of c)) d) = replicated c"
  using assms by (cases c) (simp add: adopt_def represents_def snapshot_of_def replicated_def)

lemma build_capture_Inr_iff:
  "build_capture P sm = Inr (meta, data) \<longleftrightarrow>
     encode_framed (snapshot_codec P) (sm_active sm) (snapshot_of (sm_core sm)) = Inr data
     \<and> meta = \<lparr>sn_last_log_id = co_last_applied (sm_core sm), sn_last_membership = co_last_membership (sm_core sm)\<rparr>"
  by (auto simp: build_capture_def split: sum.splits)

lemma build_finish_InrD:
  assumes "build_finish P io meta data sm = (Inr x, sm')"
  shows "x = (meta, data) \<and> sm_active sm' = sm_active sm
     \<and> replicated (sm_core sm') = replicated (sm_core sm)"
  using assms
  by (auto simp: build_finish_def commit_snapshot_def store_save_def replicated_def
      split: sum.splits if_splits save_outcome.splits)

lemma build_snapshot_InrD:
  assumes "build_snapshot P io sm = (Inr (meta, data), sm')"
  shows "build_capture P sm = Inr (meta, data)"
proof (cases "build_capture P sm")
  case (Inl e)
  with assms show ?thesis by (simp add: build_snapshot_def)
next
  case (Inr x)
  obtain m d where x: "x = (m, d)" by fastforce
  with assms Inr have "build_finish P io m d sm = (Inr (meta, data), sm')" by (simp add: build_snapshot_def)
  from build_finish_InrD [OF this] Inr x show ?thesis by simp
qed

context postcards
begin

lemma totals:
  "membership_ok (v4_last_membership s4) \<Longrightarrow> \<exists>b. to_stdvec (pc_v4 P) s4 = Some b"
  "bt_wf (v5_dense s5) \<Longrightarrow> membership_ok (v5_last_membership s5) \<Longrightarrow> \<exists>b. to_stdvec (pc_v5 P) s5 = Some b"
  "snapshot_ok s7 \<Longrightarrow> \<exists>b. to_stdvec (pc_v7 P) s7 = Some b"
  "membership_ok (sn_last_membership (pn_meta se)) \<Longrightarrow> \<exists>b. to_stdvec (pc_env P) se = Some b"
  using ok unfolding postcards_ok_def by blast+

lemma envelope_total:
  assumes "in_readable_range v" "membership_ok (sn_last_membership meta)"
  obtains env where "make_envelope P v meta data = Inr env"
    "encode_framed (envelope_codec P) v \<lparr>pn_meta = meta, pn_data = data\<rparr> = Inr env" "hd env = v"
proof -
  obtain body where b: "to_stdvec (pc_env P) \<lparr>pn_meta = meta, pn_data = data\<rparr> = Some body"
    using totals(4) [of "\<lparr>pn_meta = meta, pn_data = data\<rparr>"] assms(2) by auto
  with assms(1) have "encode_framed (envelope_codec P) v \<lparr>pn_meta = meta, pn_data = data\<rparr> = Inr (v # body)"
    by (auto simp: encode_framed_def envelope_codec_def envelope_encode_version_def readable_cases encode_postcard_def)
  with that show ?thesis by (simp add: make_envelope_def)
qed

lemma payload_total:
  assumes "snapshot_ok s" "representable v s"
  obtains data where "encode_framed (snapshot_codec P) v s = Inr data"
proof -
  let ?s4 = "\<lparr>v4_current_value = sp_current_value s, v4_last_applied = sp_last_applied s,
      v4_last_membership = sp_last_membership s\<rparr>"
  let ?s5 = "\<lparr>v5_current_value = sp_current_value s, v5_last_applied = sp_last_applied s,
      v5_last_membership = sp_last_membership s, v5_dense = sp_dense s, v5_dense_cap = sp_dense_cap s\<rparr>"
  obtain b4 where 4: "encode_postcard (pc_v4 P) ?s4 = Inr b4" using totals(1) [of ?s4] assms(1) by (auto simp: encode_postcard_def snapshot_ok_def)
  obtain b5 where 5: "encode_postcard (pc_v5 P) ?s5 = Inr b5"
    using totals(2) [of ?s5] assms(1) by (auto simp: encode_postcard_def snapshot_ok_def)
  obtain b7 where 7: "encode_postcard (pc_v7 P) s = Inr b7" using totals(3) [OF assms(1)] by (auto simp: encode_postcard_def)
  have "snapshot_encode_version P s v \<in> {Inr b4, Inr b5, Inr b7}"
    using assms(2) 4 5 7 by (auto simp: representable_def readable_cases snapshot_encode_version_def version_defs)
  with that show ?thesis by (auto simp: encode_framed_def snapshot_codec_def)
qed

lemma install_snapshot_honest:
  assumes "core_ok c" "encode_framed (snapshot_codec P) v (snapshot_of c) = Inr data"
    and "in_readable_range (sm_active sm)" "co_dense_cap c = co_dense_cap (sm_core sm)"
    and "published_log_id (sm_core sm) \<le> co_last_applied c" "sn_last_log_id meta = co_last_applied c"
    and "membership_ok (sn_last_membership meta)"
  obtains sm2 where "install_snapshot P SaveOk meta data sm = (Inr (), sm2)" "replicated (sm_core sm2) = replicated c"
    "sm_active sm2 = max v (sm_active sm)" "co_current_snapshot (sm_core sm2) = Some \<lparr>ss_meta = meta, ss_data = data\<rparr>"
proof -
  have so: "snapshot_ok (snapshot_of c)" using assms(1) by (simp add: core_ok_def)
  from assms(2) obtain body where d: "data = v # body" "snapshot_encode_version P (snapshot_of c) v = Inr body"
    by (auto simp: encode_framed_Inr_iff snapshot_codec_def)
  have dec: "decode_framed (snapshot_codec P) MIN_READABLE_VERSION MAX_READABLE_VERSION data
      = Inr (represents v (snapshot_of c))"
    using snap.framed_roundtrip [OF so assms(2)] .
  let ?sm1 = "if v > sm_active sm then sm\<lparr>sm_active := v\<rparr> else sm"
  have "in_readable_range (sm_active ?sm1)"
    using snapshot_encode_representable [OF d(2)] assms(3) by (simp add: representable_def)
  then obtain env where env: "make_envelope P (sm_active ?sm1) meta data = Inr env"
    using assms(7) by (rule envelope_total)
  have "list_all (\<lambda>k. is_ok (seq_key_try_new k)) (map fst (sp_dense (represents v (snapshot_of c))))"
    using so by (simp add: snapshot_ok_def represents_def)
  moreover have "sp_last_applied (represents v (snapshot_of c)) = co_last_applied c"
    by (simp add: represents_def snapshot_of_def)
  moreover have "supersedes_published (sn_last_log_id meta) (published_log_id (sm_core ?sm1))"
    using assms(5,6) by (simp add: supersedes_published_def)
  ultimately have i: "install_snapshot P SaveOk meta data sm = (Inr (), ?sm1\<lparr>sm_store := Some env,
      sm_core := (adopt (represents v (snapshot_of c)) (sm_core ?sm1))
        \<lparr>co_current_snapshot := Some \<lparr>ss_meta = meta, ss_data = data\<rparr>\<rparr>\<rparr>)"
    using dec env assms(6) d(1)
    by (simp add: install_snapshot_def commit_snapshot_def store_save_def Let_def del: if_split)
  have "replicated ((adopt (represents v (snapshot_of c)) (sm_core ?sm1))\<lparr>co_current_snapshot := x\<rparr>) = replicated c" for x
    using adopt_represents [of c "sm_core ?sm1" v] assms(4) by (simp add: replicated_def)
  moreover have "sm_active ?sm1 = max v (sm_active sm)" by (auto simp: max_def)
  ultimately show ?thesis using that [OF i] by simp
qed

lemma snapshot_then_log:
  assumes "list_all entry_valid es" "replicated (sm_core sm) = replicated (replay es core_new)"
    and "build_snapshot P io sm = (Inr (meta, data), sm1)"
    and "in_readable_range (sm_active sm')" "co_dense_cap (sm_core sm') = RAFT_DENSE_CARDINALITY_CAP"
    and "published_log_id (sm_core sm') \<le> sn_last_log_id meta"
  shows "\<exists>sm2. install_snapshot P SaveOk meta data sm' = (Inr (), sm2) \<and> sm_active sm \<le> sm_active sm2
     \<and> replicated (replay rest (sm_core sm2)) = replicated (replay (es @ rest) core_new)"
proof -
  let ?c = "sm_core sm"
  have c: "core_ok ?c" "co_dense_cap ?c = RAFT_DENSE_CARDINALITY_CAP"
    using replay_ok [OF core_new_ok assms(1)] replicated_eqD [OF assms(2)] by (simp_all add: core_new_def)
  from build_snapshot_InrD [OF assms(3)] have b: "encode_framed (snapshot_codec P) (sm_active sm) (snapshot_of ?c) = Inr data"
      "sn_last_log_id meta = co_last_applied ?c" "membership_ok (sn_last_membership meta)"
    using c(1) by (simp_all add: build_capture_Inr_iff core_ok_iff)
  obtain sm2 where i: "install_snapshot P SaveOk meta data sm' = (Inr (), sm2)"
      "replicated (sm_core sm2) = replicated ?c" "sm_active sm2 = max (sm_active sm) (sm_active sm')"
    using install_snapshot_honest [OF c(1) b(1) assms(4)] c(2) assms(5,6) b(2,3) by metis
  have "replicated (replay rest (sm_core sm2)) = replay rest (replicated (sm_core sm2))" by (rule replay_replicated)
  also have "\<dots> = replicated (replay (es @ rest) core_new)"
    by (simp add: i(2) assms(2) replay_replicated)
  finally show ?thesis using i(1,3) by auto
qed

end

section \<open>Builds, installs and restarts interleaved\<close>

text \<open>
  The state machine with the builds that have captured their payload and not yet committed
  it. An installed payload may hold any bytes; a save may fail either way.
\<close>

inductive snap_step ::
  "snapshot_postcards \<Rightarrow> raft_sm \<times> (snap_meta \<times> bytes) list \<Rightarrow> raft_sm \<times> (snap_meta \<times> bytes) list \<Rightarrow> bool"
  for P where
  applied: "entry_valid e \<Longrightarrow> snap_step P (sm, bs) (snd (apply_entry e sm), bs)"
| captured: "build_capture P sm = Inr b \<Longrightarrow> snap_step P (sm, bs) (sm, b # bs)"
| finished: "build_finish P io meta data sm = (r, sm') \<Longrightarrow> (meta, data) \<in> set bs \<Longrightarrow>
    snap_step P (sm, bs) (sm', remove1 (meta, data) bs)"
| dropped: "snap_step P (sm, bs) (sm, remove1 b bs)"
| installed: "install_snapshot P io meta data sm = (r, sm') \<Longrightarrow> membership_ok (sn_last_membership meta) \<Longrightarrow>
    snap_step P (sm, bs) (sm', bs)"
| restarted: "with_store P (Inr (sm_store sm)) = Inr sm' \<Longrightarrow> snap_step P (sm, bs) (sm', [])"

inductive_cases snap_stepE: "snap_step P s s'"

abbreviation snap_run where "snap_run P \<equiv> (snap_step P)\<^sup>*\<^sup>*"

text \<open>A payload and the meta it is published under.\<close>

definition payload_agrees :: "snapshot_postcards \<Rightarrow> snap_meta \<Rightarrow> bytes \<Rightarrow> bool" where
  "payload_agrees P meta data \<longleftrightarrow>
     (\<exists>p. decode_framed (snapshot_codec P) MIN_READABLE_VERSION MAX_READABLE_VERSION data = Inr p
        \<and> snapshot_ok p \<and> sp_last_applied p = sn_last_log_id meta)"

definition store_covers :: "snapshot_postcards \<Rightarrow> raft_sm \<Rightarrow> bool" where
  "store_covers P sm \<longleftrightarrow>
     (case sm_store sm of
        None \<Rightarrow> co_current_snapshot (sm_core sm) = None
      | Some bs \<Rightarrow> (\<exists>n. decode_framed (envelope_codec P) MIN_READABLE_VERSION MAX_READABLE_VERSION bs = Inr n
          \<and> payload_agrees P (pn_meta n) (pn_data n) \<and> published_log_id (sm_core sm) \<le> sn_last_log_id (pn_meta n)))"

definition snap_inv :: "snapshot_postcards \<Rightarrow> raft_sm \<times> (snap_meta \<times> bytes) list \<Rightarrow> bool" where
  "snap_inv P s \<longleftrightarrow> core_ok (sm_core (fst s)) \<and> in_readable_range (sm_active (fst s)) \<and> store_covers P (fst s)
     \<and> (\<forall>(meta, data) \<in> set (snd s). payload_agrees P meta data)"

lemma store_covers_cong:
  "sm_store a = sm_store b \<Longrightarrow> co_current_snapshot (sm_core a) = co_current_snapshot (sm_core b)
     \<Longrightarrow> store_covers P a \<longleftrightarrow> store_covers P b"
  by (simp add: store_covers_def published_log_id_def split: option.split)

lemma apply_entry_active:
  "in_readable_range (sm_active sm) \<Longrightarrow> in_readable_range (sm_active (snd (apply_entry e sm)))"
  by (cases e rule: entry_exhaust)
    (auto simp: apply_entry_def on_core_def apply_set_format_version_def Let_def split: prod.splits)

lemma published_frame:
  "published_log_id (snd (core_step e c)) = published_log_id c"
  "published_log_id (adopt p c) = published_log_id c"
  by (simp_all add: published_log_id_def core_step_frame adopt_def)

lemma adopt_ok: "snapshot_ok p \<Longrightarrow> core_ok (adopt p c)"
  by (simp add: core_ok_def snapshot_ok_def snapshot_of_def adopt_def)

lemma commit_snapshot_cases:
  assumes "commit_snapshot io meta data env f sm = (r, sm')"
  obtains (stale) "sm' = sm" "\<not> published_log_id (sm_core sm) \<le> sn_last_log_id meta"
  | (failed) e blob where "r = Inl e" "sm' = sm\<lparr>sm_store := blob\<rparr>" "blob = sm_store sm \<or> blob = Some env"
      "published_log_id (sm_core sm) \<le> sn_last_log_id meta"
  | (adopted) "r = Inr True" "published_log_id (sm_core sm) \<le> sn_last_log_id meta"
      "sm' = sm\<lparr>sm_store := Some env, sm_core := (f (sm_core sm))\<lparr>co_current_snapshot := Some \<lparr>ss_meta = meta, ss_data = data\<rparr>\<rparr>\<rparr>"
proof (cases "published_log_id (sm_core sm) \<le> sn_last_log_id meta")
  case False
  with assms show ?thesis by (intro stale) (auto simp: commit_snapshot_def supersedes_published_def)
next
  case True
  show ?thesis
  proof (cases io)
    case SaveOk
    with assms True show ?thesis
      by (intro adopted) (auto simp: commit_snapshot_def supersedes_published_def store_save_def)
  next
    case (SaveFailed reached)
    with assms True show ?thesis
      by (intro failed [of store_error "if reached then Some env else sm_store sm"])
        (auto simp: commit_snapshot_def supersedes_published_def store_save_def)
  qed
qed

context postcards
begin

lemma decode_snapshot_ok:
  assumes "decode_framed (snapshot_codec P) lo hi bs = Inr p"
  shows "lease_set_ok (sp_leases p) \<and> bt_wf (sp_dense p) \<and> membership_ok (sp_last_membership p)"
proof -
  obtain v body where d: "snapshot_decode_version P v body = Inr p"
    using assms by (auto simp: decode_framed_Inr_iff snapshot_codec_def)
  have wf: "take_from_bytes (pc_v4 P) b = Some (s4, r) \<Longrightarrow> membership_ok (v4_last_membership s4)"
      "take_from_bytes (pc_v5 P) b = Some (s5, r) \<Longrightarrow> bt_wf (v5_dense s5) \<and> membership_ok (v5_last_membership s5)"
      "take_from_bytes (pc_v7 P) b = Some (s7, r) \<Longrightarrow> bt_wf (sp_dense s7) \<and> membership_ok (sp_last_membership s7)"
    for b r s4 s5 s7 using ok unfolding postcards_ok_def by blast+
  from d show ?thesis
    by (auto simp: snapshot_decode_version_def decode_v7_def decode_postcard_exact_def lease_set_decode_Inr_iff
        lease_set_ok_def dest: wf split: if_splits sum.splits option.splits)
qed

lemma commit_keeps_store:
  assumes "commit_snapshot io meta data env f sm = (r, sm')" "store_covers P sm"
    and "payload_agrees P meta data" "make_envelope P v meta data = Inr env"
    and "published_log_id (f (sm_core sm)) = published_log_id (sm_core sm)"
  shows "store_covers P sm' \<and> published_log_id (sm_core sm) \<le> published_log_id (sm_core sm')"
proof -
  have dec: "decode_framed (envelope_codec P) MIN_READABLE_VERSION MAX_READABLE_VERSION env
      = Inr \<lparr>pn_meta = meta, pn_data = data\<rparr>"
    using assms(4) env.framed_roundtrip [OF TrueI, of v] by (auto simp: make_envelope_def)
  from assms(1) show ?thesis
  proof (cases rule: commit_snapshot_cases)
    case stale
    with assms(2) show ?thesis by simp
  next
    case (failed e blob)
    with assms(2) store_covers_cong [of sm' sm P] failed(4) assms(3) dec show ?thesis
      by (auto simp: store_covers_def [of P "sm\<lparr>sm_store := Some env\<rparr>"])
  next
    case adopted
    with assms(3) dec show ?thesis by (auto simp: store_covers_def published_log_id_def)
  qed
qed

lemma install_keeps:
  assumes "install_snapshot P io meta data sm = (r, sm')" "snap_inv P (sm, bs)"
  shows "snap_inv P (sm', bs) \<and> published_log_id (sm_core sm) \<le> published_log_id (sm_core sm')"
proof (cases "decode_framed (snapshot_codec P) MIN_READABLE_VERSION MAX_READABLE_VERSION data")
  case (Inl e)
  with assms show ?thesis by (auto simp: install_snapshot_def)
next
  case (Inr p)
  then obtain v body where vb: "data = v # body" "in_readable_range v"
    by (auto simp: decode_framed_Inr_iff in_readable_range_def)
  let ?sm1 = "if v > sm_active sm then sm\<lparr>sm_active := v\<rparr> else sm"
  have inv1: "snap_inv P (?sm1, bs)" "sm_core ?sm1 = sm_core sm"
    using assms(2) vb(2) store_covers_cong [of "sm\<lparr>sm_active := v\<rparr>" sm P] by (auto simp: snap_inv_def)
  consider "sm' = sm" | "sm' = ?sm1" | env x where "sn_last_log_id meta = sp_last_applied p"
      "list_all (\<lambda>k. is_ok (seq_key_try_new k)) (map fst (sp_dense p))"
      "make_envelope P (sm_active ?sm1) meta data = Inr env"
      "commit_snapshot io meta data env (adopt p) ?sm1 = (x, sm')"
    using assms(1) Inr vb(1)
    by (auto simp: install_snapshot_def Let_def simp del: if_split split: sum.splits prod.splits if_splits)
  then show ?thesis
  proof cases
    case (3 env x)
    have p: "snapshot_ok p" using decode_snapshot_ok [OF Inr] 3(2) by (simp add: snapshot_ok_def)
    have "payload_agrees P meta data" using Inr p 3(1) by (simp add: payload_agrees_def)
    with commit_keeps_store [OF 3(4) _ _ 3(3)] inv1
    have "store_covers P sm' \<and> published_log_id (sm_core sm) \<le> published_log_id (sm_core sm')"
      by (simp add: snap_inv_def published_frame)
    moreover have "core_ok (sm_core sm') \<and> sm_active sm' = sm_active ?sm1"
      using 3(4)
    proof (cases rule: commit_snapshot_cases)
      case adopted
      with adopt_ok [OF p, of "sm_core ?sm1"] show ?thesis by (simp add: core_ok_def snapshot_of_def)
    qed (use inv1 in \<open>auto simp: snap_inv_def\<close>)
    ultimately show ?thesis using inv1 by (simp add: snap_inv_def)
  qed (use assms(2) inv1 in auto)
qed

lemma finish_keeps:
  assumes "build_finish P io meta data sm = (r, sm')" "snap_inv P (sm, bs)" "payload_agrees P meta data"
  shows "snap_inv P (sm', bs) \<and> published_log_id (sm_core sm) \<le> published_log_id (sm_core sm')"
proof (cases "make_envelope P (sm_active sm) meta data")
  case (Inl e)
  with assms show ?thesis by (auto simp: build_finish_def)
next
  case (Inr env)
  with assms(1) obtain x where c: "commit_snapshot io meta data env (\<lambda>c. c) sm = (x, sm')"
    by (auto simp: build_finish_def split: sum.splits prod.splits)
  from commit_keeps_store [OF c _ assms(3) Inr] assms(2)
  have "store_covers P sm' \<and> published_log_id (sm_core sm) \<le> published_log_id (sm_core sm')" by (simp add: snap_inv_def)
  moreover from c have "core_ok (sm_core sm') = core_ok (sm_core sm) \<and> sm_active sm' = sm_active sm"
    by (cases rule: commit_snapshot_cases) (auto simp: core_ok_def snapshot_of_def)
  ultimately show ?thesis using assms(2) by (simp add: snap_inv_def)
qed

lemma capture_agrees:
  assumes "build_capture P sm = Inr (meta, data)" "core_ok (sm_core sm)"
  shows "payload_agrees P meta data"
proof -
  have "snapshot_ok (snapshot_of (sm_core sm))" using assms(2) by (simp add: core_ok_def)
  with assms(1) snap.framed_roundtrip [OF this, of "sm_active sm" data] show ?thesis
    by (auto simp: build_capture_Inr_iff payload_agrees_def represents_def snapshot_ok_def snapshot_of_def)
qed

lemma restart_covers:
  assumes "store_covers P sm"
  obtains sm' where "with_store P (Inr (sm_store sm)) = Inr sm'"
    "published_log_id (sm_core sm) \<le> published_log_id (sm_core sm')" "snap_inv P (sm', [])"
    "published_log_id (sm_core sm') = co_last_applied (sm_core sm')"
proof (cases "sm_store sm")
  case None
  with assms show ?thesis
    by (intro that [of "\<lparr>sm_core = core_new, sm_store = None, sm_active = BASELINE_WRITE_VERSION\<rparr>"])
      (simp_all add: with_store_def with_store_and_active_version_def store_covers_def published_log_id_def snap_inv_def
        readable_cases core_new_def [THEN arg_cong [of _ _ co_current_snapshot]]
        core_new_def [THEN arg_cong [of _ _ co_last_applied]])
next
  case (Some bs)
  with assms obtain n p where n: "decode_framed (envelope_codec P) MIN_READABLE_VERSION MAX_READABLE_VERSION bs = Inr n"
      "decode_framed (snapshot_codec P) MIN_READABLE_VERSION MAX_READABLE_VERSION (pn_data n) = Inr p"
      "snapshot_ok p" "sp_last_applied p = sn_last_log_id (pn_meta n)"
      "published_log_id (sm_core sm) \<le> sn_last_log_id (pn_meta n)" "payload_agrees P (pn_meta n) (pn_data n)"
    by (auto simp: store_covers_def payload_agrees_def)
  from n(1) obtain v body where v: "bs = v # body" "in_readable_range v"
    by (auto simp: decode_framed_Inr_iff in_readable_range_def)
  let ?sm = "\<lparr>sm_core = (adopt p core_new)\<lparr>co_current_snapshot := Some \<lparr>ss_meta = pn_meta n, ss_data = pn_data n\<rparr>\<rparr>,
      sm_store = Some bs, sm_active = max BASELINE_WRITE_VERSION v\<rparr>"
  have w: "with_store P (Inr (sm_store sm)) = Inr ?sm"
    using Some n(1,2) v(1) by (simp add: with_store_def with_store_and_active_version_def)
  have "in_readable_range (sm_active ?sm)" using v(2) by (auto simp: in_readable_range_def version_defs max_def)
  moreover have "core_ok (sm_core ?sm)" using adopt_ok [OF n(3), of core_new] by (simp add: core_ok_def snapshot_of_def)
  moreover have "store_covers P ?sm" using n by (simp add: store_covers_def published_log_id_def)
  ultimately show ?thesis using that [OF w] n(4,5) by (simp add: snap_inv_def published_log_id_def adopt_def)
qed

lemma snap_step_keeps:
  assumes "snap_step P s s'" "snap_inv P s"
  shows "snap_inv P s' \<and> published_log_id (sm_core (fst s)) \<le> published_log_id (sm_core (fst s'))"
  using assms
proof cases
  case (applied e sm bs)
  have "co_current_snapshot (sm_core (snd (apply_entry e sm))) = co_current_snapshot (sm_core sm)"
    by (simp add: apply_entry_core core_step_frame)
  with applied assms(2) store_covers_cong [OF apply_entry_core(3) this, of P] show ?thesis
    by (simp add: snap_inv_def apply_entry_core core_step_ok apply_entry_active published_frame)
next
  case (captured sm b bs)
  with assms(2) capture_agrees [of sm "fst b" "snd b"] show ?thesis by (auto simp: snap_inv_def)
next
  case (finished io meta data sm r sm' bs)
  with assms(2) have "payload_agrees P meta data" by (auto simp: snap_inv_def)
  from finish_keeps [OF finished(3) _ this] finished assms(2) show ?thesis
    by (auto simp: snap_inv_def dest: notin_set_remove1)
next
  case (dropped sm bs b)
  with assms(2) show ?thesis by (auto simp: snap_inv_def dest: notin_set_remove1)
next
  case (installed io meta data sm r sm' bs)
  with install_keeps [OF installed(3)] assms(2) show ?thesis by simp
next
  case (restarted sm sm' bs)
  with assms(2) have "store_covers P sm" by (simp add: snap_inv_def)
  then obtain sm2 where "with_store P (Inr (sm_store sm)) = Inr sm2"
      "published_log_id (sm_core sm) \<le> published_log_id (sm_core sm2)" "snap_inv P (sm2, [])"
    by (rule restart_covers)
  with restarted show ?thesis by simp
qed

lemma snap_run_keeps:
  assumes "snap_run P s s'" "snap_inv P s"
  shows "snap_inv P s' \<and> published_log_id (sm_core (fst s)) \<le> published_log_id (sm_core (fst s'))"
  using assms by (induction rule: rtranclp_induct) (auto dest: snap_step_keeps intro: order_trans)

end

end
