(* ===== verification/Postcard.thy ===== *)
theory Postcard
  imports Raft_Snapshots
begin

text \<open>
  The documented postcard wire format for the snapshot types, as a concrete value of the
  \<open>snapshot_postcards\<close> parameter: integers as LEB128 varints, bytes raw, options tagged,
  sequences length-prefixed, structs as the concatenation of their fields. It shows that
  what the development asks of postcard can be met, and is what the witnesses evaluate.
\<close>

section \<open>Combinators\<close>

fun leb :: "nat \<Rightarrow> bytes" where
  "leb n = (if n < 128 then [of_nat n] else of_nat (128 + n mod 128) # leb (n div 128))"

declare leb.simps [simp del]

fun unleb :: "bytes \<Rightarrow> (nat \<times> bytes) option" where
  "unleb [] = None"
| "unleb (b # bs) = (if unat b < 128 then Some (unat b, bs)
     else map_option (\<lambda>(n, r). (unat b - 128 + 128 * n, r)) (unleb bs))"

definition pc_varint :: "nat postcard" where
  "pc_varint = \<lparr>to_stdvec = (\<lambda>n. Some (leb n)), take_from_bytes = unleb\<rparr>"

definition pc_u8 :: "u8 postcard" where
  "pc_u8 = \<lparr>to_stdvec = (\<lambda>b. Some [b]), take_from_bytes = (\<lambda>bs. case bs of [] \<Rightarrow> None | b # r \<Rightarrow> Some (b, r))\<rparr>"

definition pc_iso :: "('a \<Rightarrow> 'b) \<Rightarrow> ('b \<Rightarrow> 'a) \<Rightarrow> 'b postcard \<Rightarrow> 'a postcard" where
  "pc_iso f g pc = \<lparr>to_stdvec = (\<lambda>a. to_stdvec pc (f a)),
     take_from_bytes = (\<lambda>bs. map_option (\<lambda>(b, r). (g b, r)) (take_from_bytes pc bs))\<rparr>"

definition pc_pair :: "'a postcard \<Rightarrow> 'b postcard \<Rightarrow> ('a \<times> 'b) postcard" where
  "pc_pair p q = \<lparr>to_stdvec = (\<lambda>(a, b). case (to_stdvec p a, to_stdvec q b) of
        (Some x, Some y) \<Rightarrow> Some (x @ y) | _ \<Rightarrow> None),
     take_from_bytes = (\<lambda>bs. case take_from_bytes p bs of None \<Rightarrow> None
        | Some (a, r) \<Rightarrow> map_option (\<lambda>(b, r'). ((a, b), r')) (take_from_bytes q r))\<rparr>"

definition pc_option :: "'a postcard \<Rightarrow> 'a option postcard" where
  "pc_option p = \<lparr>to_stdvec = (\<lambda>v. case v of None \<Rightarrow> Some [0] | Some a \<Rightarrow> map_option (Cons 1) (to_stdvec p a)),
     take_from_bytes = (\<lambda>bs. case bs of [] \<Rightarrow> None
        | b # r \<Rightarrow> if b = 0 then Some (None, r)
            else if b = 1 then map_option (\<lambda>(a, r'). (Some a, r')) (take_from_bytes p r) else None)\<rparr>"

fun put_all :: "'a postcard \<Rightarrow> 'a list \<Rightarrow> bytes option" where
  "put_all p [] = Some []"
| "put_all p (x # xs) = (case (to_stdvec p x, put_all p xs) of (Some b, Some bs) \<Rightarrow> Some (b @ bs) | _ \<Rightarrow> None)"

fun take_all :: "'a postcard \<Rightarrow> nat \<Rightarrow> bytes \<Rightarrow> ('a list \<times> bytes) option" where
  "take_all p 0 bs = Some ([], bs)"
| "take_all p (Suc n) bs = (case take_from_bytes p bs of None \<Rightarrow> None
     | Some (x, r) \<Rightarrow> map_option (\<lambda>(xs, r'). (x # xs, r')) (take_all p n r))"

definition pc_list :: "'a postcard \<Rightarrow> 'a list postcard" where
  "pc_list p = \<lparr>to_stdvec = (\<lambda>xs. map_option (\<lambda>b. leb (length xs) @ b) (put_all p xs)),
     take_from_bytes = (\<lambda>bs. case unleb bs of None \<Rightarrow> None | Some (n, r) \<Rightarrow> take_all p n r)\<rparr>"

definition pc_btree :: "'k::linorder postcard \<Rightarrow> 'v postcard \<Rightarrow> ('k, 'v) btree_map postcard" where
  "pc_btree k v = \<lparr>to_stdvec = (\<lambda>m. if bt_wf m then to_stdvec (pc_list (pc_pair k v)) m else None),
     take_from_bytes = (\<lambda>bs. map_option (\<lambda>(m, r). (bt_collect m, r)) (take_from_bytes (pc_list (pc_pair k v)) bs))\<rparr>"

section \<open>Round trips\<close>

definition pc_total :: "'a postcard \<Rightarrow> bool" where
  "pc_total pc \<longleftrightarrow> (\<forall>v. to_stdvec pc v \<noteq> None)"

lemma postcard_okD: "postcard_ok pc \<Longrightarrow> to_stdvec pc v = Some b \<Longrightarrow> take_from_bytes pc (b @ rest) = Some (v, rest)"
  by (simp add: postcard_ok_def)

lemma unat_of_nat_u8: "n < 256 \<Longrightarrow> unat (of_nat n :: u8) = n"
  by (simp add: unat_of_nat take_bit_nat_eq_self_iff)

lemma unleb_leb: "unleb (leb n @ rest) = Some (n, rest)"
proof (induction n rule: leb.induct)
  case (1 n)
  have u: "unat (of_nat (128 + n mod 128) :: u8) = 128 + n mod 128" by (intro unat_of_nat_u8) simp
  show ?case
  proof (cases "n < 128")
    case True
    then show ?thesis by (subst leb.simps) (simp add: unat_of_nat_u8)
  next
    case False
    with 1 u show ?thesis by (subst leb.simps) (simp del: of_nat_add)
  qed
qed

lemma pc_varint_ok: "postcard_ok pc_varint" "pc_total pc_varint"
  by (simp_all add: pc_varint_def postcard_ok_def pc_total_def unleb_leb)

lemma pc_u8_ok: "postcard_ok pc_u8" "pc_total pc_u8"
  by (simp_all add: pc_u8_def postcard_ok_def pc_total_def)

lemma pc_iso_ok: "postcard_ok pc \<Longrightarrow> (\<And>a. g (f a) = a) \<Longrightarrow> postcard_ok (pc_iso f g pc)"
  by (simp add: pc_iso_def postcard_ok_def)

lemma pc_iso_total: "pc_total pc \<Longrightarrow> pc_total (pc_iso f g pc)"
  by (simp add: pc_iso_def pc_total_def)

lemma pc_pair_ok: "postcard_ok p \<Longrightarrow> postcard_ok q \<Longrightarrow> postcard_ok (pc_pair p q)"
  by (auto simp: pc_pair_def postcard_ok_def split: option.splits)

lemma pc_pair_total: "pc_total p \<Longrightarrow> pc_total q \<Longrightarrow> pc_total (pc_pair p q)"
  by (auto simp: pc_pair_def pc_total_def split: option.split) (metis option.distinct(1))

lemma pc_option_ok: "postcard_ok p \<Longrightarrow> postcard_ok (pc_option p)"
  by (auto simp: pc_option_def postcard_ok_def split: option.splits)

lemma pc_option_total: "pc_total p \<Longrightarrow> pc_total (pc_option p)"
  by (auto simp: pc_option_def pc_total_def split: option.splits)

lemma take_all_put_all:
  assumes "postcard_ok p" "put_all p xs = Some b"
  shows "take_all p (length xs) (b @ rest) = Some (xs, rest)"
  using assms(2)
proof (induction xs arbitrary: b)
  case (Cons x xs)
  then obtain c d where "to_stdvec p x = Some c" "put_all p xs = Some d" "b = c @ d" by (auto split: option.splits)
  with Cons.IH postcard_okD [OF assms(1), of x c "d @ rest"] show ?case by simp
qed simp

lemma pc_list_ok: "postcard_ok p \<Longrightarrow> postcard_ok (pc_list p)"
  by (auto simp: pc_list_def postcard_ok_def [of "pc_list p", unfolded pc_list_def] unleb_leb take_all_put_all)

lemma put_all_total: "pc_total p \<Longrightarrow> put_all p xs \<noteq> None"
  by (induction xs) (auto simp: pc_total_def split: option.splits)

lemma pc_list_total: "pc_total p \<Longrightarrow> pc_total (pc_list p)"
  using put_all_total by (auto simp: pc_list_def pc_total_def)

lemma bt_collect_wf:
  assumes "bt_wf m"
  shows "bt_collect m = m"
proof (rule bt.entries_unique)
  show "bt_get (bt_collect m) = bt_get m"
    unfolding bt_collect_def fun_eq_iff bt_get_fold_insert [OF bt.distinct_keys [OF assms]]
    by (simp add: bt_get_def split: option.split)
qed (use assms in simp_all)

lemma pc_btree_ok:
  assumes "postcard_ok k" "postcard_ok v"
  shows "postcard_ok (pc_btree k v)"
  using postcard_okD [OF pc_list_ok [OF pc_pair_ok [OF assms]]] bt_collect_wf
  by (auto simp: pc_btree_def postcard_ok_def [of "pc_btree k v", unfolded pc_btree_def])

lemma pc_btree_takes_wf: "take_from_bytes (pc_btree k v) b = Some (m, r) \<Longrightarrow> bt_wf m"
  by (auto simp: pc_btree_def)

lemma pc_btree_total:
  assumes "pc_total k" "pc_total v" "bt_wf m"
  shows "to_stdvec (pc_btree k v) m \<noteq> None"
  using pc_list_total [OF pc_pair_total [OF assms(1,2)]] assms(3) by (simp add: pc_btree_def pc_total_def)

section \<open>The snapshot types\<close>

definition pc_u64 :: "u64 postcard" where "pc_u64 = pc_iso unat of_nat pc_varint"

definition pc_bool :: "bool postcard" where "pc_bool = pc_iso (\<lambda>b. if b then 1 else 0) (\<lambda>b. b = 1) pc_u8"

definition pc_bytes :: "bytes postcard" where "pc_bytes = pc_list pc_u8"

definition pc_log_id :: "log_id postcard" where
  "pc_log_id = pc_iso (\<lambda>i. (lid_term i, lid_node i, lid_index i)) (\<lambda>(t, n, i). LogId t n i)
     (pc_pair pc_u64 (pc_pair pc_u64 pc_u64))"

definition pc_peer :: "openraft_peer postcard" where
  "pc_peer = pc_iso (\<lambda>p. (op_addr p, op_service_endpoint p, op_admin_endpoint p))
     (\<lambda>(a, s, d). \<lparr>op_addr = a, op_service_endpoint = s, op_admin_endpoint = d\<rparr>)
     (pc_pair pc_bytes (pc_pair pc_bytes pc_bytes))"

definition pc_membership :: "stored_membership postcard" where
  "pc_membership = pc_iso
     (\<lambda>m. (stm_log_id m, mb_configs (stm_membership m), mb_nodes (stm_membership m)))
     (\<lambda>(i, c, n). \<lparr>stm_log_id = i, stm_membership = \<lparr>mb_configs = c, mb_nodes = n\<rparr>\<rparr>)
     (pc_pair (pc_option pc_log_id) (pc_pair (pc_list (pc_list pc_u64)) (pc_btree pc_u64 pc_peer)))"

definition pc_lease :: "durable_lease postcard" where
  "pc_lease = pc_iso
     (\<lambda>l. (dl_lease_id l, dl_holder l, dl_holder_epoch l, dl_ttl_ms l, dl_ts_upper_bound l, dl_expires_at_ms l, dl_superseded l))
     (\<lambda>(i, h, e, t, u, x, s). \<lparr>dl_lease_id = i, dl_holder = h, dl_holder_epoch = e, dl_ttl_ms = t, dl_ts_upper_bound = u,
        dl_expires_at_ms = x, dl_superseded = s\<rparr>)
     (pc_pair pc_u64 (pc_pair pc_bytes (pc_pair pc_u64 (pc_pair pc_u64 (pc_pair pc_u64 (pc_pair pc_u64 pc_bool))))))"

definition pc_dense :: "(str, u64) btree_map postcard" where "pc_dense = pc_btree pc_bytes pc_u64"

definition pc_snapshot_v4 :: "sm_snapshot_v4 postcard" where
  "pc_snapshot_v4 = pc_iso (\<lambda>s. (v4_current_value s, v4_last_applied s, v4_last_membership s))
     (\<lambda>(v, a, m). \<lparr>v4_current_value = v, v4_last_applied = a, v4_last_membership = m\<rparr>)
     (pc_pair pc_u64 (pc_pair (pc_option pc_log_id) pc_membership))"

definition pc_snapshot_v5 :: "sm_snapshot_v5 postcard" where
  "pc_snapshot_v5 = pc_iso
     (\<lambda>s. (v5_current_value s, v5_last_applied s, v5_last_membership s, v5_dense s, v5_dense_cap s))
     (\<lambda>(v, a, m, d, c). \<lparr>v5_current_value = v, v5_last_applied = a, v5_last_membership = m, v5_dense = d, v5_dense_cap = c\<rparr>)
     (pc_pair pc_u64 (pc_pair (pc_option pc_log_id) (pc_pair pc_membership (pc_pair pc_dense pc_u64))))"

definition pc_snapshot_v7 :: "sm_snapshot postcard" where
  "pc_snapshot_v7 = pc_iso
     (\<lambda>s. (sp_current_value s, sp_last_applied s, sp_last_membership s, sp_dense s, sp_dense_cap s, ls_leases (sp_leases s)))
     (\<lambda>(v, a, m, d, c, l). \<lparr>sp_current_value = v, sp_last_applied = a, sp_last_membership = m, sp_dense = d, sp_dense_cap = c,
        sp_leases = LeaseSet l\<rparr>)
     (pc_pair pc_u64 (pc_pair (pc_option pc_log_id) (pc_pair pc_membership (pc_pair pc_dense (pc_pair pc_u64 (pc_list pc_lease))))))"

definition pc_persisted :: "persisted_snapshot postcard" where
  "pc_persisted = pc_iso (\<lambda>s. (sn_last_log_id (pn_meta s), sn_last_membership (pn_meta s), pn_data s))
     (\<lambda>(i, m, d). \<lparr>pn_meta = \<lparr>sn_last_log_id = i, sn_last_membership = m\<rparr>, pn_data = d\<rparr>)
     (pc_pair (pc_option pc_log_id) (pc_pair pc_membership pc_bytes))"

definition wire_postcards :: snapshot_postcards where
  "wire_postcards = \<lparr>pc_v4 = pc_snapshot_v4, pc_v5 = pc_snapshot_v5, pc_v7 = pc_snapshot_v7, pc_env = pc_persisted\<rparr>"

named_theorems pc_oks \<open>round trips of the codecs\<close>
named_theorems pc_totals \<open>codecs that never refuse a value\<close>

lemma pc_scalars_ok [pc_oks]: "postcard_ok pc_u64" "postcard_ok pc_bool" "postcard_ok pc_bytes"
  by (simp_all add: pc_u64_def pc_bool_def pc_bytes_def pc_iso_ok pc_varint_ok pc_u8_ok pc_list_ok)

lemma pc_scalars_total [pc_totals]: "pc_total pc_u64" "pc_total pc_bool" "pc_total pc_bytes"
  by (simp_all add: pc_u64_def pc_bool_def pc_bytes_def pc_iso_total pc_varint_ok pc_u8_ok pc_list_total)

lemma pc_log_id_ok [pc_oks]: "postcard_ok pc_log_id"
  unfolding pc_log_id_def by (intro pc_iso_ok pc_pair_ok pc_oks) simp

lemma pc_log_id_total [pc_totals]: "pc_total pc_log_id"
  unfolding pc_log_id_def by (intro pc_iso_total pc_pair_total pc_totals)

lemma pc_peer_ok [pc_oks]: "postcard_ok pc_peer"
  unfolding pc_peer_def by (intro pc_iso_ok pc_pair_ok pc_oks) simp

lemma pc_peer_total [pc_totals]: "pc_total pc_peer"
  unfolding pc_peer_def by (intro pc_iso_total pc_pair_total pc_totals)

lemma pc_lease_ok [pc_oks]: "postcard_ok pc_lease"
  unfolding pc_lease_def by (intro pc_iso_ok pc_pair_ok pc_oks) simp

lemma pc_lease_total [pc_totals]: "pc_total pc_lease"
  unfolding pc_lease_def by (intro pc_iso_total pc_pair_total pc_totals)

lemma pc_membership_ok [pc_oks]: "postcard_ok pc_membership"
  unfolding pc_membership_def by (intro pc_iso_ok pc_pair_ok pc_option_ok pc_list_ok pc_btree_ok pc_oks) simp

lemma pc_dense_ok [pc_oks]: "postcard_ok pc_dense"
  unfolding pc_dense_def by (intro pc_btree_ok pc_oks)

lemma pc_snapshots_ok:
  "postcard_ok pc_snapshot_v4" "postcard_ok pc_snapshot_v5" "postcard_ok pc_snapshot_v7" "postcard_ok pc_persisted"
  unfolding pc_snapshot_v4_def pc_snapshot_v5_def pc_snapshot_v7_def pc_persisted_def
  by (intro pc_iso_ok pc_pair_ok pc_option_ok pc_list_ok pc_oks; simp)+

text \<open>Encoding fails only on a map that is none; decoding never returns one.\<close>

lemma pc_iso_simps:
  "to_stdvec (pc_iso f g p) a = to_stdvec p (f a)"
  "take_from_bytes (pc_iso f g p) b = Some (a, r) \<longleftrightarrow> (\<exists>x. take_from_bytes p b = Some (x, r) \<and> a = g x)"
  by (auto simp: pc_iso_def)

lemma pc_pair_simps:
  "to_stdvec (pc_pair p q) (a, b) \<noteq> None \<longleftrightarrow> to_stdvec p a \<noteq> None \<and> to_stdvec q b \<noteq> None"
  "take_from_bytes (pc_pair p q) bs = Some (ab, r)
     \<longleftrightarrow> (\<exists>r'. take_from_bytes p bs = Some (fst ab, r') \<and> take_from_bytes q r' = Some (snd ab, r))"
  by (cases ab; auto simp: pc_pair_def split: option.splits)+

lemma pc_totalD: "pc_total p \<Longrightarrow> to_stdvec p a \<noteq> None"
  by (simp add: pc_total_def)

lemma pc_membership_total: "membership_ok m \<Longrightarrow> to_stdvec pc_membership m \<noteq> None"
  unfolding pc_membership_def pc_iso_simps pc_pair_simps membership_ok_def
  by (intro conjI pc_totalD pc_option_total pc_list_total pc_btree_total pc_totals)

lemma pc_dense_total: "bt_wf m \<Longrightarrow> to_stdvec pc_dense m \<noteq> None"
  unfolding pc_dense_def by (intro pc_btree_total pc_totals)

lemma pc_membership_takes: "take_from_bytes pc_membership b = Some (m, r) \<Longrightarrow> membership_ok m"
  unfolding pc_membership_def pc_iso_simps pc_pair_simps membership_ok_def
  by (auto dest: pc_btree_takes_wf)

lemma pc_dense_takes: "take_from_bytes pc_dense b = Some (m, r) \<Longrightarrow> bt_wf m"
  unfolding pc_dense_def by (rule pc_btree_takes_wf)

lemmas pc_record_totals = pc_totalD [OF pc_option_total [OF pc_log_id_total]] pc_totalD [OF pc_scalars_total(1)]
  pc_totalD [OF pc_scalars_total(3)] pc_totalD [OF pc_list_total [OF pc_lease_total]]

lemma wire_postcards_ok: "postcards_ok wire_postcards"
proof -
  have "to_stdvec pc_snapshot_v4 s \<noteq> None" if "membership_ok (v4_last_membership s)" for s
    unfolding pc_snapshot_v4_def pc_iso_simps pc_pair_simps
    using that by (intro conjI pc_membership_total pc_record_totals)
  moreover have "to_stdvec pc_snapshot_v5 s \<noteq> None" if "bt_wf (v5_dense s)" "membership_ok (v5_last_membership s)" for s
    unfolding pc_snapshot_v5_def pc_iso_simps pc_pair_simps
    using that by (intro conjI pc_membership_total pc_dense_total pc_record_totals)
  moreover have "to_stdvec pc_snapshot_v7 s \<noteq> None" if "snapshot_ok s" for s
    unfolding pc_snapshot_v7_def pc_iso_simps pc_pair_simps
    using that unfolding snapshot_ok_def by (intro conjI pc_membership_total pc_dense_total pc_record_totals) auto
  moreover have "to_stdvec pc_persisted s \<noteq> None" if "membership_ok (sn_last_membership (pn_meta s))" for s
    unfolding pc_persisted_def pc_iso_simps pc_pair_simps
    using that by (intro conjI pc_membership_total pc_record_totals)
  moreover have "membership_ok (v4_last_membership s)" if "take_from_bytes pc_snapshot_v4 b = Some (s, r)" for b s r
    using that unfolding pc_snapshot_v4_def pc_iso_simps pc_pair_simps by (auto dest: pc_membership_takes)
  moreover have "bt_wf (v5_dense s) \<and> membership_ok (v5_last_membership s)" if "take_from_bytes pc_snapshot_v5 b = Some (s, r)" for b s r
    using that unfolding pc_snapshot_v5_def pc_iso_simps pc_pair_simps by (auto dest: pc_membership_takes pc_dense_takes)
  moreover have "bt_wf (sp_dense s) \<and> membership_ok (sp_last_membership s)" if "take_from_bytes pc_snapshot_v7 b = Some (s, r)" for b s r
    using that unfolding pc_snapshot_v7_def pc_iso_simps pc_pair_simps by (auto dest: pc_membership_takes pc_dense_takes)
  ultimately show ?thesis
    unfolding postcards_ok_def wire_postcards_def using pc_snapshots_ok by simp
qed

interpretation wire: postcards wire_postcards
  by unfold_locales (rule wire_postcards_ok)

end
