(* ===== verification/Raft_Replicas.thy ===== *)
theory Raft_Replicas
  imports Raft_Snapshots
begin

text \<open>
  The replicas of one openraft group over their committed log: every replica applies the
  entries that follow its last applied one, builds snapshots on clones, publishes them,
  sends them to others, installs what it is sent, has its saves fail, and restarts from its
  store. A replica's state is always the replay of a prefix of the log.
\<close>

section \<open>The replicas and their steps\<close>

record raft_replicas =
  rr_log :: "raft_entry list"
  rr_sm :: "nat \<Rightarrow> raft_sm"
  rr_builds :: "(nat \<times> snap_meta \<times> bytes) list"
  rr_sent :: "(snap_meta \<times> bytes) list"

definition rr_init :: raft_replicas where
  "rr_init = \<lparr>rr_log = [], rr_sm = (\<lambda>_. sm_new), rr_builds = [], rr_sent = []\<rparr>"

text \<open>The id of the last entry of a log.\<close>

definition last_id :: "raft_entry list \<Rightarrow> log_id option" where
  "last_id es = (if es = [] then None else Some (en_log_id (last es)))"

text \<open>
  What openraft is relied on for is in the guards: the ids of the log grow, a replica is
  given the entry after the one it applied last, and a snapshot that is installed was handed
  to openraft by some replica of the group, as its current one or as the result of a build.
  The store's \<open>save\<close> may fail, with or without the bytes having reached the store. A restart
  takes the write version \<open>v\<close> that was recovered from the log.
\<close>

inductive replica_step :: "snapshot_postcards \<Rightarrow> raft_replicas \<Rightarrow> raft_replicas \<Rightarrow> bool" for P where
  committed: "entry_valid e \<Longrightarrow> last_id (rr_log r) < Some (en_log_id e) \<Longrightarrow>
    replica_step P r (r\<lparr>rr_log := rr_log r @ [e]\<rparr>)"
| applied: "i < length (rr_log r) \<Longrightarrow> co_last_applied (sm_core (rr_sm r n)) = last_id (take i (rr_log r)) \<Longrightarrow>
    replica_step P r (r\<lparr>rr_sm := (rr_sm r)(n := snd (apply_entry (rr_log r ! i) (rr_sm r n)))\<rparr>)"
| captured: "build_capture P (rr_sm r n) = Inr b \<Longrightarrow>
    replica_step P r (r\<lparr>rr_builds := (n, b) # rr_builds r\<rparr>)"
| finished: "(n, meta, data) \<in> set (rr_builds r) \<Longrightarrow> build_finish P io meta data (rr_sm r n) = (x, sm') \<Longrightarrow>
    replica_step P r (r\<lparr>rr_sm := (rr_sm r)(n := sm'), rr_builds := remove1 (n, meta, data) (rr_builds r),
      rr_sent := (case x of Inl _ \<Rightarrow> rr_sent r | Inr s \<Rightarrow> s # rr_sent r)\<rparr>)"
| dropped: "replica_step P r (r\<lparr>rr_builds := remove1 b (rr_builds r)\<rparr>)"
| sent: "get_current_snapshot (rr_sm r n) = Some s \<Longrightarrow> replica_step P r (r\<lparr>rr_sent := s # rr_sent r\<rparr>)"
| installed: "(meta, data) \<in> set (rr_sent r) \<Longrightarrow> install_snapshot P io meta data (rr_sm r n) = (x, sm') \<Longrightarrow>
    replica_step P r (r\<lparr>rr_sm := (rr_sm r)(n := sm')\<rparr>)"
| restarted: "in_readable_range v \<Longrightarrow>
    with_store_and_active_version P (Inr (sm_store (rr_sm r n))) v = Inr sm' \<Longrightarrow>
    replica_step P r (r\<lparr>rr_sm := (rr_sm r)(n := sm'), rr_builds := filter (\<lambda>b. fst b \<noteq> n) (rr_builds r)\<rparr>)"

inductive_cases replica_stepE: "replica_step P r r'"

abbreviation replica_run where "replica_run P \<equiv> (replica_step P)\<^sup>*\<^sup>*"

section \<open>Prefixes of the log\<close>

definition ids_grow :: "raft_entry list \<Rightarrow> bool" where
  "ids_grow es \<longleftrightarrow> sorted_wrt (<) (map en_log_id es)"

lemma last_id_simps [simp]: "last_id [] = None" "last_id (es @ [e]) = Some (en_log_id e)"
  by (simp_all add: last_id_def)

lemma last_id_take: "i < length es \<Longrightarrow> last_id (take (Suc i) es) = Some (en_log_id (es ! i))"
  by (simp add: take_Suc_conv_app_nth)

lemma last_id_inj:
  assumes "ids_grow es" "i \<le> length es" "j \<le> length es" "last_id (take i es) = last_id (take j es)"
  shows "i = j"
proof (cases i; cases j)
  fix a b
  assume ij: "i = Suc a" "j = Suc b"
  with assms have "map en_log_id es ! a = map en_log_id es ! b" by (simp add: last_id_take)
  moreover have "distinct (map en_log_id es)"
    using assms(1) by (simp add: ids_grow_def strict_sorted_iff)
  ultimately show ?thesis using assms(2,3) ij nth_eq_iff_index_eq [of "map en_log_id es" a b] by simp
qed (use assms in \<open>auto simp: last_id_take\<close>)

lemma ids_grow_snoc:
  assumes "ids_grow es" "last_id es < Some (en_log_id e)"
  shows "ids_grow (es @ [e])"
proof -
  have "en_log_id x \<le> en_log_id (last es)" if "x \<in> set es" for x
  proof -
    have "sorted (map en_log_id es)" using assms(1) by (simp add: ids_grow_def strict_sorted_iff)
    with that show ?thesis
      by (induction es) (auto split: if_splits)
  qed
  with assms show ?thesis
    by (cases "es = []") (force simp: ids_grow_def sorted_wrt_append last_id_def)+
qed

lemma replay_last_applied: "co_last_applied (replay es core_new) = last_id es"
  by (cases es rule: rev_cases) (simp_all add: core_step_frame core_new_def)

lemma replicated_replay_new [simp]: "replicated (replay es core_new) = replay es core_new"
  unfolding replay_replicated by (simp add: replicated_def core_new_def)

section \<open>What holds of every replica\<close>

text \<open>A snapshot of the first entries of the log, at some write version.\<close>

definition snapshot_covers :: "snapshot_postcards \<Rightarrow> raft_entry list \<Rightarrow> snap_meta \<Rightarrow> bytes \<Rightarrow> bool" where
  "snapshot_covers P log meta data \<longleftrightarrow>
     (\<exists>i v. i \<le> length log \<and> encode_framed (snapshot_codec P) v (snapshot_of (replay (take i log) core_new)) = Inr data
        \<and> sn_last_log_id meta = last_id (take i log)
        \<and> sn_last_membership meta = co_last_membership (replay (take i log) core_new))"

definition at_prefix :: "raft_entry list \<Rightarrow> sm_core \<Rightarrow> bool" where
  "at_prefix log c \<longleftrightarrow> (\<exists>i \<le> length log. replicated c = replay (take i log) core_new)"

definition stored_ok :: "snapshot_postcards \<Rightarrow> raft_entry list \<Rightarrow> raft_sm \<Rightarrow> bool" where
  "stored_ok P log sm \<longleftrightarrow>
     (case sm_store sm of
        None \<Rightarrow> co_current_snapshot (sm_core sm) = None
      | Some bs \<Rightarrow> (\<exists>n. decode_framed (envelope_codec P) MIN_READABLE_VERSION MAX_READABLE_VERSION bs = Inr n
          \<and> snapshot_covers P log (pn_meta n) (pn_data n)
          \<and> published_log_id (sm_core sm) \<le> sn_last_log_id (pn_meta n)))"

definition replica_ok :: "snapshot_postcards \<Rightarrow> raft_entry list \<Rightarrow> raft_sm \<Rightarrow> bool" where
  "replica_ok P log sm \<longleftrightarrow> in_readable_range (sm_active sm) \<and> at_prefix log (sm_core sm) \<and> stored_ok P log sm
     \<and> (\<forall>meta data. get_current_snapshot sm = Some (meta, data) \<longrightarrow> snapshot_covers P log meta data)"

definition replicas_ok :: "snapshot_postcards \<Rightarrow> raft_replicas \<Rightarrow> bool" where
  "replicas_ok P r \<longleftrightarrow> list_all entry_valid (rr_log r) \<and> ids_grow (rr_log r)
     \<and> (\<forall>n. replica_ok P (rr_log r) (rr_sm r n))
     \<and> (\<forall>(n, meta, data) \<in> set (rr_builds r). snapshot_covers P (rr_log r) meta data)
     \<and> (\<forall>(meta, data) \<in> set (rr_sent r). snapshot_covers P (rr_log r) meta data)"

lemma take_snoc: "i \<le> length es \<Longrightarrow> take i (es @ [e]) = take i es"
  by simp

lemma covers_snoc: "snapshot_covers P log meta data \<Longrightarrow> snapshot_covers P (log @ [e]) meta data"
  unfolding snapshot_covers_def by (metis take_snoc le_SucI length_append_singleton)

lemma at_prefix_snoc: "at_prefix log c \<Longrightarrow> at_prefix (log @ [e]) c"
  unfolding at_prefix_def by (metis take_snoc le_SucI length_append_singleton)

lemma stored_ok_snoc: "stored_ok P log sm \<Longrightarrow> stored_ok P (log @ [e]) sm"
  unfolding stored_ok_def by (cases "sm_store sm") (auto dest: covers_snoc)

lemma replica_ok_snoc: "replica_ok P log sm \<Longrightarrow> replica_ok P (log @ [e]) sm"
  unfolding replica_ok_def by (blast intro: at_prefix_snoc stored_ok_snoc covers_snoc)

lemma replicas_ok_init: "replicas_ok P rr_init"
  by (auto simp: replicas_ok_def replica_ok_def rr_init_def at_prefix_def stored_ok_def ids_grow_def sm_new_def
      readable_cases get_current_snapshot_def replicated_def core_new_def)

lemma replica_ok_upd:
  "(\<forall>m. replica_ok P log (f m)) \<Longrightarrow> replica_ok P log sm' \<Longrightarrow> replica_ok P log ((f(n := sm')) m)"
  by simp

lemma stored_ok_cong:
  "sm_store a = sm_store b \<Longrightarrow> co_current_snapshot (sm_core a) = co_current_snapshot (sm_core b)
     \<Longrightarrow> stored_ok P log a \<longleftrightarrow> stored_ok P log b"
  by (simp add: stored_ok_def published_log_id_def split: option.split)

text \<open>Applying the entry after the last applied one stays on the log.\<close>

lemma apply_stays:
  assumes "replica_ok P log sm" "ids_grow log" "i < length log"
    and "co_last_applied (sm_core sm) = last_id (take i log)"
  shows "replica_ok P log (snd (apply_entry (log ! i) sm))"
proof -
  obtain j where j: "j \<le> length log" "replicated (sm_core sm) = replay (take j log) core_new"
    using assms(1) by (auto simp: replica_ok_def at_prefix_def)
  then have "co_last_applied (sm_core sm) = last_id (take j log)"
    using replicated_eqD(3) [of "sm_core sm" "replay (take j log) core_new"] replay_last_applied by simp
  with assms(2-4) j(1) have ji: "j = i" using last_id_inj [of log j i] by simp
  have "replicated (snd (core_step (log ! i) (sm_core sm))) = replay (take (Suc i) log) core_new"
    using assms(3) j(2) by (simp add: core_step_replicated ji take_Suc_conv_app_nth)
  then have "at_prefix log (sm_core (snd (apply_entry (log ! i) sm)))"
    using assms(3) unfolding at_prefix_def apply_entry_core by (meson Suc_leI)
  moreover have "co_current_snapshot (sm_core (snd (apply_entry (log ! i) sm))) = co_current_snapshot (sm_core sm)"
    by (simp add: apply_entry_core core_step_frame)
  ultimately show ?thesis
    using assms(1) stored_ok_cong [OF apply_entry_core(3), of "log ! i" sm P log]
    by (simp add: replica_ok_def apply_entry_active get_current_snapshot_def)
qed

lemma at_prefix_state:
  assumes "at_prefix log c"
  shows "\<exists>i \<le> length log. replicated c = replay (take i log) core_new \<and> co_last_applied c = last_id (take i log)
     \<and> replicated (replay (drop i log) c) = replay log core_new"
proof -
  obtain i where i: "i \<le> length log" "replicated c = replicated (replay (take i log) core_new)"
    using assms by (auto simp: at_prefix_def)
  have "replicated (replay (drop i log) c) = replay (drop i log) (replay (take i log) core_new)"
    by (simp add: replay_replicated i(2)) (simp flip: replay_replicated)
  then have "replicated (replay (drop i log) c) = replay log core_new" by (simp flip: replay_simps(3))
  with i replicated_eqD(3) [OF i(2)] show ?thesis by (auto simp: replay_last_applied)
qed

text \<open>Runs in which a log is committed, and in which one replica catches up with it.\<close>

lemma commit_run: "list_all entry_valid es \<Longrightarrow> ids_grow es \<Longrightarrow> replica_run P rr_init (rr_init\<lparr>rr_log := es\<rparr>)"
proof (induction es rule: rev_induct)
  case (snoc e es)
  then have "ids_grow es" "last_id es < Some (en_log_id e)"
    by (auto simp: ids_grow_def sorted_wrt_append last_id_def)
  with snoc replica_step.committed [of e "rr_init\<lparr>rr_log := es\<rparr>" P] show ?case
    by (auto intro: rtranclp.rtrancl_into_rtrancl)
qed (simp add: rr_init_def)

lemma catch_up_run:
  "rr_log r = before @ es \<Longrightarrow> co_last_applied (sm_core (rr_sm r n)) = last_id before \<Longrightarrow>
     replica_run P r (r\<lparr>rr_sm := (rr_sm r)(n := snd (snd (sm_apply (map Inr es) (rr_sm r n))))\<rparr>)"
proof (induction es arbitrary: before r)
  case (Cons e es)
  let ?r = "r\<lparr>rr_sm := (rr_sm r)(n := snd (apply_entry e (rr_sm r n)))\<rparr>"
  have "replica_step P r ?r"
    using replica_step.applied [of "length before" r n P] Cons.prems by (simp add: nth_append)
  moreover have "co_last_applied (sm_core (rr_sm ?r n)) = last_id (before @ [e])"
    by (simp add: apply_entry_core core_step_frame)
  with Cons.IH [of ?r "before @ [e]"] Cons.prems(1)
  have "replica_run P ?r (r\<lparr>rr_sm := (rr_sm r)(n := snd (snd (sm_apply (map Inr es) (snd (apply_entry e (rr_sm r n))))))\<rparr>)"
    by (simp add: fun_upd_def cong: if_cong)
  moreover have "snd (snd (sm_apply (map Inr (e # es)) (rr_sm r n)))
      = snd (snd (sm_apply (map Inr es) (snd (apply_entry e (rr_sm r n)))))"
    by (simp split: prod.split)
  ultimately show ?case by (metis converse_rtranclp_into_rtranclp)
qed simp

context postcards
begin

lemma core_ok_prefix: "list_all entry_valid log \<Longrightarrow> core_ok (replay (take i log) core_new)"
  by (rule replay_ok) (auto simp: list_all_iff dest: in_set_takeD)

lemma capture_covers:
  assumes "replica_ok P log sm" "build_capture P sm = Inr (meta, data)"
  shows "snapshot_covers P log meta data"
proof -
  obtain i where i: "i \<le> length log" "replicated (sm_core sm) = replicated (replay (take i log) core_new)"
    using assms(1) by (auto simp: replica_ok_def at_prefix_def)
  from replicated_eqD [OF i(2)] assms(2) i(1) show ?thesis
    by (auto simp: snapshot_covers_def build_capture_Inr_iff replay_last_applied)
qed

lemma covers_decodes:
  assumes "snapshot_covers P log meta data" "list_all entry_valid log"
  obtains i v where "i \<le> length log" "data \<noteq> []" "hd data = v" "in_readable_range v"
    "decode_framed (snapshot_codec P) MIN_READABLE_VERSION MAX_READABLE_VERSION data
       = Inr (represents v (snapshot_of (replay (take i log) core_new)))"
    "sn_last_log_id meta = last_id (take i log)" "membership_ok (sn_last_membership meta)"
    "encode_framed (snapshot_codec P) v (snapshot_of (replay (take i log) core_new)) = Inr data"
proof -
  obtain i v where i: "i \<le> length log"
      "encode_framed (snapshot_codec P) v (snapshot_of (replay (take i log) core_new)) = Inr data"
      "sn_last_log_id meta = last_id (take i log)"
      "sn_last_membership meta = co_last_membership (replay (take i log) core_new)"
    using assms(1) by (auto simp: snapshot_covers_def)
  note ok = core_ok_prefix [OF assms(2), of i]
  from i(2) have d: "data \<noteq> []" "hd data = v" "in_readable_range v"
    using snapshot_encode_representable by (auto simp: encode_framed_Inr_iff snapshot_codec_def representable_def)
  from that [OF i(1) d snap.framed_roundtrip [OF _ i(2)] i(3) _ i(2)] ok i(4) show ?thesis
    by (simp add: core_ok_def [symmetric] core_ok_iff)
qed

lemma adopt_prefix:
  assumes "i \<le> length log" "co_dense_cap c = RAFT_DENSE_CARDINALITY_CAP"
  shows "at_prefix log ((adopt (represents v (snapshot_of (replay (take i log) core_new))) c)\<lparr>co_current_snapshot := x\<rparr>)"
proof -
  have "replicated (adopt (represents v (snapshot_of (replay (take i log) core_new))) c) = replay (take i log) core_new"
    using adopt_represents [of "replay (take i log) core_new" c v] assms(2) by (simp add: core_new_def [THEN arg_cong [of _ _ co_dense_cap]])
  then have "replicated ((adopt (represents v (snapshot_of (replay (take i log) core_new))) c)\<lparr>co_current_snapshot := x\<rparr>)
      = replay (take i log) core_new" by (simp add: replicated_def)
  with assms(1) show ?thesis unfolding at_prefix_def by blast
qed

lemma prefix_cap: "at_prefix log c \<Longrightarrow> co_dense_cap c = RAFT_DENSE_CARDINALITY_CAP"
  unfolding at_prefix_def
  by (metis replicated_eqD(2) replicated_replay_new replay_cap core_new_def sm_core.select_convs(3))

lemma commit_stays:
  assumes "commit_snapshot io meta data env f sm = (x, sm')" "replica_ok P log sm"
    and "snapshot_covers P log meta data" "make_envelope P v meta data = Inr env"
    and "\<And>y. at_prefix log ((f (sm_core sm))\<lparr>co_current_snapshot := y\<rparr>)"
  shows "replica_ok P log sm'"
proof -
  have dec: "decode_framed (envelope_codec P) MIN_READABLE_VERSION MAX_READABLE_VERSION env
      = Inr \<lparr>pn_meta = meta, pn_data = data\<rparr>"
    using assms(4) env.framed_roundtrip [OF TrueI, of v] by (auto simp: make_envelope_def)
  from assms(1) show ?thesis
  proof (cases rule: commit_snapshot_cases)
    case stale
    with assms(2) show ?thesis by simp
  next
    case (failed e blob)
    have "stored_ok P log sm'"
      using failed assms(2,3) dec stored_ok_cong [of sm' sm P log]
      by (auto simp: replica_ok_def stored_ok_def [of P log "sm\<lparr>sm_store := Some env\<rparr>"])
    with failed assms(2) show ?thesis by (simp add: replica_ok_def get_current_snapshot_def)
  next
    case adopted
    with assms(2,3,5) dec show ?thesis
      by (auto simp: replica_ok_def stored_ok_def published_log_id_def get_current_snapshot_def)
  qed
qed

lemma finish_stays:
  assumes "build_finish P io meta data sm = (x, sm')" "replica_ok P log sm" "snapshot_covers P log meta data"
  shows "replica_ok P log sm'"
proof (cases "make_envelope P (sm_active sm) meta data")
  case (Inl e)
  with assms show ?thesis by (auto simp: build_finish_def)
next
  case (Inr env)
  with assms(1) obtain y where c: "commit_snapshot io meta data env (\<lambda>c. c) sm = (y, sm')"
    by (auto simp: build_finish_def split: sum.splits prod.splits)
  have "at_prefix log ((sm_core sm)\<lparr>co_current_snapshot := z\<rparr>)" for z
    using assms(2) by (simp add: replica_ok_def at_prefix_def replicated_def)
  from commit_stays [OF c assms(2,3) Inr this] show ?thesis .
qed

lemma install_stays:
  assumes "install_snapshot P io meta data sm = (x, sm')" "replica_ok P log sm" "snapshot_covers P log meta data"
    and "list_all entry_valid log"
  shows "replica_ok P log sm'"
proof -
  obtain i v where i: "i \<le> length log" "data \<noteq> []" "hd data = v" "in_readable_range v"
      "decode_framed (snapshot_codec P) MIN_READABLE_VERSION MAX_READABLE_VERSION data
         = Inr (represents v (snapshot_of (replay (take i log) core_new)))"
    by (rule covers_decodes [OF assms(3,4)])
  let ?p = "represents v (snapshot_of (replay (take i log) core_new))"
  let ?sm1 = "if v > sm_active sm then sm\<lparr>sm_active := v\<rparr> else sm"
  have sm1: "replica_ok P log ?sm1" "sm_core ?sm1 = sm_core sm"
    using assms(2) i(4) stored_ok_cong [of "sm\<lparr>sm_active := v\<rparr>" sm P log]
    by (auto simp: replica_ok_def get_current_snapshot_def)
  consider "sm' = sm" | "sm' = ?sm1" | env y where "make_envelope P (sm_active ?sm1) meta data = Inr env"
      "commit_snapshot io meta data env (adopt ?p) ?sm1 = (y, sm')"
    using assms(1) i(2,3,5)
    by (cases data) (auto simp: install_snapshot_def Let_def simp del: if_split split: sum.splits prod.splits if_splits)
  then show ?thesis
  proof cases
    case (3 env y)
    have "co_dense_cap (sm_core sm) = RAFT_DENSE_CARDINALITY_CAP"
      using assms(2) prefix_cap by (auto simp: replica_ok_def)
    then have "at_prefix log ((adopt ?p (sm_core ?sm1))\<lparr>co_current_snapshot := z\<rparr>)" for z
      using adopt_prefix [OF i(1)] sm1(2) by simp
    from commit_stays [OF 3(2) sm1(1) assms(3) 3(1) this] show ?thesis .
  qed (use assms(2) sm1 in auto)
qed

lemma restart_stays:
  assumes "replica_ok P log sm" "list_all entry_valid log" "in_readable_range v"
  obtains sm' where "with_store_and_active_version P (Inr (sm_store sm)) v = Inr sm'" "replica_ok P log sm'"
    "published_log_id (sm_core sm) \<le> co_last_applied (sm_core sm')"
proof (cases "sm_store sm")
  case None
  with assms show ?thesis
    by (intro that [of "\<lparr>sm_core = core_new, sm_store = None, sm_active = v\<rparr>"])
      (auto simp: with_store_and_active_version_def replica_ok_def stored_ok_def published_log_id_def at_prefix_def
        get_current_snapshot_def core_new_def [THEN arg_cong [of _ _ co_current_snapshot]] replicated_replay_new [of "[]", simplified])
next
  case (Some bs)
  with assms(1) obtain n where n: "decode_framed (envelope_codec P) MIN_READABLE_VERSION MAX_READABLE_VERSION bs = Inr n"
      "snapshot_covers P log (pn_meta n) (pn_data n)" "published_log_id (sm_core sm) \<le> sn_last_log_id (pn_meta n)"
    by (auto simp: replica_ok_def stored_ok_def)
  obtain i w where i: "i \<le> length log" "decode_framed (snapshot_codec P) MIN_READABLE_VERSION MAX_READABLE_VERSION (pn_data n)
         = Inr (represents w (snapshot_of (replay (take i log) core_new)))" "sn_last_log_id (pn_meta n) = last_id (take i log)"
    by (rule covers_decodes [OF n(2) assms(2)])
  from n(1) obtain u body where u: "bs = u # body" "in_readable_range u"
    by (auto simp: decode_framed_Inr_iff in_readable_range_def)
  let ?c = "(adopt (represents w (snapshot_of (replay (take i log) core_new))) core_new)
      \<lparr>co_current_snapshot := Some \<lparr>ss_meta = pn_meta n, ss_data = pn_data n\<rparr>\<rparr>"
  let ?sm = "\<lparr>sm_core = ?c, sm_store = Some bs, sm_active = max v u\<rparr>"
  have w: "with_store_and_active_version P (Inr (sm_store sm)) v = Inr ?sm"
    using Some n(1) i(2) u(1) by (simp add: with_store_and_active_version_def)
  have "at_prefix log ?c" by (rule adopt_prefix [OF i(1)]) (simp add: core_new_def)
  then have "replica_ok P log ?sm"
    using assms(3) u(2) n by (auto simp: replica_ok_def stored_ok_def published_log_id_def get_current_snapshot_def max_def)
  moreover have "co_last_applied ?c = last_id (take i log)"
    by (simp add: adopt_def represents_def snapshot_of_def replay_last_applied)
  ultimately show ?thesis using that [OF w] n(3) i(3) by simp
qed

lemma replica_step_keeps:
  assumes "replica_step P r r'" "replicas_ok P r"
  shows "replicas_ok P r'"
  using assms
proof cases
  case (committed e)
  with assms(2) show ?thesis
    by (auto simp: replicas_ok_def ids_grow_snoc intro: covers_snoc replica_ok_snoc)
next
  case (applied i n)
  with assms(2) have "replica_ok P (rr_log r) (snd (apply_entry (rr_log r ! i) (rr_sm r n)))"
    by (auto simp: replicas_ok_def intro: apply_stays)
  with assms(2) applied show ?thesis by (simp add: replicas_ok_def)
next
  case (captured n b)
  with assms(2) capture_covers [of "rr_log r" "rr_sm r n" "fst b" "snd b"] show ?thesis
    by (auto simp: replicas_ok_def)
next
  case (finished n meta data io x sm')
  with assms(2) have c: "snapshot_covers P (rr_log r) meta data" by (auto simp: replicas_ok_def)
  from finish_stays [OF finished(3) _ c] assms(2) have "replica_ok P (rr_log r) sm'" by (simp add: replicas_ok_def)
  moreover have "x = Inr s \<Longrightarrow> s = (meta, data)" for s using finished(3) build_finish_InrD by blast
  ultimately show ?thesis using assms(2) finished c
    by (cases x) (auto simp: replicas_ok_def dest!: set_remove1_subset [THEN subsetD])
next
  case (dropped b)
  with assms(2) show ?thesis by (auto simp: replicas_ok_def dest!: set_remove1_subset [THEN subsetD])
next
  case (sent n s)
  with assms(2) show ?thesis by (cases s) (auto simp: replicas_ok_def replica_ok_def)
next
  case (installed meta data io n x sm')
  with assms(2) install_stays [OF installed(3), of "rr_log r"] show ?thesis by (auto simp: replicas_ok_def)
next
  case (restarted v n sm')
  from assms(2) have "replica_ok P (rr_log r) (rr_sm r n)" "list_all entry_valid (rr_log r)"
    by (simp_all add: replicas_ok_def)
  from restart_stays [OF this restarted(2)] restarted(3) have "replica_ok P (rr_log r) sm'" by (metis sum.inject(2))
  with assms(2) restarted(1) show ?thesis by (auto simp: replicas_ok_def)
qed

lemma replica_run_keeps: "replica_run P r r' \<Longrightarrow> replicas_ok P r \<Longrightarrow> replicas_ok P r'"
  by (induction rule: rtranclp_induct) (auto dest: replica_step_keeps)

text \<open>A snapshot that was sent installs on every replica that has published nothing newer.\<close>

lemma install_covers:
  assumes "replica_ok P log sm" "snapshot_covers P log meta data" "list_all entry_valid log"
    and "published_log_id (sm_core sm) \<le> sn_last_log_id meta"
  obtains sm2 i where "install_snapshot P SaveOk meta data sm = (Inr (), sm2)" "i \<le> length log"
    "replicated (sm_core sm2) = replay (take i log) core_new" "sn_last_log_id meta = last_id (take i log)"
proof -
  obtain i v where i: "i \<le> length log" "sn_last_log_id meta = last_id (take i log)" "membership_ok (sn_last_membership meta)"
      "encode_framed (snapshot_codec P) v (snapshot_of (replay (take i log) core_new)) = Inr data"
    by (rule covers_decodes [OF assms(2,3)])
  have cap: "co_dense_cap (replay (take i log) core_new) = co_dense_cap (sm_core sm)"
    using assms(1) prefix_cap [of log "sm_core sm"] by (simp add: replica_ok_def core_new_def)
  have "in_readable_range (sm_active sm)" using assms(1) by (simp add: replica_ok_def)
  from install_snapshot_honest [OF core_ok_prefix [OF assms(3)] i(4) this cap, of meta] that [OF _ i(1) _ i(2)]
    assms(4) i(2,3) show ?thesis by (auto simp: replay_last_applied)
qed

end

end
