(* ===== verification/Raft_Replication.thy ===== *)
theory Raft_Replication
  imports Postcard Raft_Replicas
begin

text \<open>
  The state machine as a whole: what a log leaves behind in closed form, the dense
  ordinals it hands out, the round trip of a state through a snapshot and a restart, and
  the interplay of format activation with snapshots.
\<close>

section \<open>What a log leaves behind\<close>

fun entry_advance :: "raft_entry \<Rightarrow> u64 list" where
  "entry_advance e = (case en_payload e of Normal (Advance p) \<Rightarrow> [ap_at_least p] | _ \<Rightarrow> [])"

fun entry_leases :: "raft_entry \<Rightarrow> lease_set list" where
  "entry_leases e = (case en_payload e of
     Normal (SetLeases t ls) \<Rightarrow> if lid_term (en_log_id e) = t then [ls] else [] | _ \<Rightarrow> [])"

fun entry_membership :: "raft_entry \<Rightarrow> stored_membership list" where
  "entry_membership e = (case en_payload e of
     MembershipEntry m \<Rightarrow> [\<lparr>stm_log_id = Some (en_log_id e), stm_membership = m\<rparr>] | _ \<Rightarrow> [])"

text \<open>The ordinals one key receives from an entry with a given outcome.\<close>

definition entry_ordinals :: "seq_key \<Rightarrow> raft_entry \<Rightarrow> apply_outcome \<Rightarrow> nat list" where
  "entry_ordinals k e out =
     (case en_payload e of
        Normal (AdvanceDense k' n) \<Rightarrow> (case out of DenseAdvanced s \<Rightarrow> key_blocks k [(k', n)] [s] | _ \<Rightarrow> [])
      | Normal (AdvanceDenseBatch es) \<Rightarrow>
          (case out of DenseBatchAdvanced ss \<Rightarrow> key_blocks k (entry_pairs es) ss | _ \<Rightarrow> [])
      | _ \<Rightarrow> [])"

fun log_ordinals :: "seq_key \<Rightarrow> raft_entry list \<Rightarrow> sm_core \<Rightarrow> nat list" where
  "log_ordinals k [] c = []"
| "log_ordinals k (e # es) c =
     entry_ordinals k e (ha_outcome (fst (core_step e c))) @ log_ordinals k es (snd (core_step e c))"

definition core_counter :: "sm_core \<Rightarrow> seq_key \<Rightarrow> u64" where
  "core_counter c k = bt_lookup0 (co_dense c) (key_str k)"

lemma replay_current_value:
  "co_current_value (replay es c) = fold max (concat (map entry_advance es)) (co_current_value c)"
proof (induction es arbitrary: c)
  case (Cons e es)
  then show ?case
    by (cases e rule: entry_exhaust)
      (simp_all add: core_step_simps dense_arms_frame apply_set_leases_def merge_def max.commute)
qed simp

lemma replay_leases: "co_leases (replay es c) = last (co_leases c # concat (map entry_leases es))"
proof (induction es arbitrary: c)
  case (Cons e es)
  then show ?case
    by (cases e rule: entry_exhaust) (simp_all add: core_step_simps dense_arms_frame apply_set_leases_def)
qed simp

lemma replay_membership: "co_last_membership (replay es c) = last (co_last_membership c # concat (map entry_membership es))"
proof (induction es arbitrary: c)
  case (Cons e es)
  then show ?case
    by (cases e rule: entry_exhaust) (simp_all add: core_step_simps dense_arms_frame apply_set_leases_def)
qed simp

lemma fold_max_le: "x \<le> fold max xs (x :: 'a :: linorder)"
  by (induction xs arbitrary: x) (auto intro: order_trans max.cobounded2)

lemma replay_value_mono: "co_current_value c \<le> co_current_value (replay es c)"
  by (simp add: replay_current_value fold_max_le)

section \<open>Dense ordinals\<close>

lemma outcome_of_dense:
  "ha_outcome (fst (core_step \<lparr>en_log_id = i, en_payload = Normal (AdvanceDense k n)\<rparr> c)) = fst (apply_advance_dense k n c)"
  "ha_outcome (fst (core_step \<lparr>en_log_id = i, en_payload = Normal (AdvanceDenseBatch es)\<rparr> c)) = fst (apply_advance_dense_batch es c)"
  by (simp_all add: core_step_def apply_entry_def on_core_def Let_def split: prod.splits)

lemma advance_dense_ordinals:
  assumes "bt_wf (co_dense c)" "apply_advance_dense j n c = (out, c')"
  shows "bt_wf (co_dense c') \<and> (case out of
      DenseAdvanced s \<Rightarrow> seq_fold (core_counter c) [(j, n)] = Some ([s], core_counter c')
    | _ \<Rightarrow> core_counter c' = core_counter c)"
proof (cases "checked_add (core_counter c j) (ucast n)")
  case None
  with assms show ?thesis by (auto simp: apply_advance_dense_def Let_def core_counter_def split: if_splits)
next
  case (Some v)
  have "core_counter (c\<lparr>co_dense := bt_insert (key_str j) v (co_dense c)\<rparr>) = (core_counter c)(j := v)"
    by (auto simp: core_counter_def bt_lookup0_def bt_simps fun_eq_iff seq_key.expand)
  with assms Some show ?thesis
    by (auto simp: apply_advance_dense_def Let_def core_counter_def [of c j] bt.wf_insert split: if_splits)
qed

lemma advance_dense_batch_ordinals:
  assumes "bt_wf (co_dense c)" "apply_advance_dense_batch es c = (out, c')"
  shows "bt_wf (co_dense c') \<and> (case out of
      DenseBatchAdvanced ss \<Rightarrow> seq_fold (core_counter c) (entry_pairs es) = Some (ss, core_counter c')
    | _ \<Rightarrow> core_counter c' = core_counter c)"
proof (cases "batch_fold (co_dense c) (entry_pairs es) [] []")
  case (Inl x)
  with assms show ?thesis by (auto simp: apply_advance_dense_batch_def split: if_splits)
next
  case (Inr x)
  obtain ss sc where x: "x = (ss, sc)" by fastforce
  have ov: "overlay (co_dense c) [] = core_counter c" by (simp add: overlay_Nil core_counter_def fun_eq_iff)
  from batch_fold_seq [OF Inr] x
  have sc: "bt_wf sc" "seq_fold (core_counter c) (entry_pairs es) = Some (ss, overlay (co_dense c) sc)" by (simp_all add: ov)
  have "core_counter (c\<lparr>co_dense := batch_merge sc (co_dense c)\<rparr>) = overlay (co_dense c) sc"
    using fold_insert_overlay [OF sc(1)] by (simp add: fun_eq_iff core_counter_def)
  with sc assms Inr x show ?thesis
    by (auto simp: apply_advance_dense_batch_def bt_wf_fold_insert split: if_splits)
qed

lemma advance_dense_tiles:
  assumes "bt_wf (co_dense c)" "apply_advance_dense j n c = (out, c')"
  shows "unat (core_counter c k) \<le> unat (core_counter c' k)
     \<and> entry_ordinals k \<lparr>en_log_id = i, en_payload = Normal (AdvanceDense j n)\<rparr> out
        = [unat (core_counter c k) ..< unat (core_counter c' k)]"
proof (cases out)
  case (DenseAdvanced s)
  with advance_dense_ordinals [OF assms] have "seq_fold (core_counter c) [(j, n)] = Some ([s], core_counter c')" by simp
  from seq_fold_gapless [OF this, of k] DenseAdvanced show ?thesis by (simp add: entry_ordinals_def)
qed (use advance_dense_ordinals [OF assms] in \<open>simp_all add: entry_ordinals_def\<close>)

lemma advance_dense_batch_tiles:
  assumes "bt_wf (co_dense c)" "apply_advance_dense_batch es c = (out, c')"
  shows "unat (core_counter c k) \<le> unat (core_counter c' k)
     \<and> entry_ordinals k \<lparr>en_log_id = i, en_payload = Normal (AdvanceDenseBatch es)\<rparr> out
        = [unat (core_counter c k) ..< unat (core_counter c' k)]"
proof (cases out)
  case (DenseBatchAdvanced ss)
  with advance_dense_batch_ordinals [OF assms]
  have "seq_fold (core_counter c) (entry_pairs es) = Some (ss, core_counter c')" by simp
  from seq_fold_gapless [OF this, of k] DenseBatchAdvanced show ?thesis by (simp add: entry_ordinals_def)
qed (use advance_dense_batch_ordinals [OF assms] in \<open>simp_all add: entry_ordinals_def\<close>)

lemma core_counter_applied [simp]: "core_counter (c\<lparr>co_last_applied := x\<rparr>) = core_counter c"
  by (simp add: core_counter_def fun_eq_iff)

lemma core_step_ordinals:
  assumes "bt_wf (co_dense c)"
  shows "bt_wf (co_dense (snd (core_step e c))) \<and> unat (core_counter c k) \<le> unat (core_counter (snd (core_step e c)) k)
     \<and> entry_ordinals k e (ha_outcome (fst (core_step e c)))
        = [unat (core_counter c k) ..< unat (core_counter (snd (core_step e c)) k)]"
proof (cases e rule: entry_exhaust)
  case (4 i j n)
  with advance_dense_tiles [OF assms, of j n "fst (apply_advance_dense j n c)" "snd (apply_advance_dense j n c)" k i]
    advance_dense_ordinals [OF assms, of j n "fst (apply_advance_dense j n c)" "snd (apply_advance_dense j n c)"]
  show ?thesis by (simp add: core_step_simps outcome_of_dense)
next
  case (5 i es)
  with advance_dense_batch_tiles [OF assms, of es "fst (apply_advance_dense_batch es c)" "snd (apply_advance_dense_batch es c)" k i]
    advance_dense_batch_ordinals [OF assms, of es "fst (apply_advance_dense_batch es c)" "snd (apply_advance_dense_batch es c)"]
  show ?thesis by (simp add: core_step_simps outcome_of_dense)
qed (use assms in \<open>auto simp: core_step_simps entry_ordinals_def core_counter_def apply_set_leases_def\<close>)

lemma log_ordinals_gapless:
  assumes "bt_wf (co_dense c)"
  shows "log_ordinals k es c = [unat (core_counter c k) ..< unat (core_counter (replay es c) k)]
     \<and> unat (core_counter c k) \<le> unat (core_counter (replay es c) k)"
  using assms
proof (induction es arbitrary: c)
  case (Cons e es)
  note s = core_step_ordinals [OF Cons.prems, of e k]
  with Cons.IH [of "snd (core_step e c)"] show ?case by (simp add: upt_join)
qed simp

section \<open>Restart and format versions\<close>

lemma decode_representable:
  "snapshot_decode_version P v body = Inr p \<Longrightarrow> representable v p"
  by (auto simp: snapshot_decode_version_def representable_def readable_cases version_defs split: if_splits sum.splits)

lemma snapshot_of_adopt:
  "representable v p \<Longrightarrow> representable v (snapshot_of ((adopt p c)\<lparr>co_current_snapshot := x\<rparr>))"
  by (simp add: representable_def snapshot_of_def adopt_def)

context postcards
begin

lemma capture_total:
  assumes "core_ok (sm_core sm)" "representable (sm_active sm) (snapshot_of (sm_core sm))"
  shows "\<exists>b. build_capture P sm = Inr b"
proof -
  from assms(1) have "snapshot_ok (snapshot_of (sm_core sm))" by (simp add: core_ok_def)
  then obtain data where "encode_framed (snapshot_codec P) (sm_active sm) (snapshot_of (sm_core sm)) = Inr data"
    using payload_total assms(2) by blast
  then show ?thesis by (simp add: build_capture_def)
qed

lemma restart_roundtrip:
  assumes "core_ok (sm_core sm)" "co_dense_cap (sm_core sm) = RAFT_DENSE_CARDINALITY_CAP"
    and "build_snapshot P SaveOk sm = (Inr x, sm1)" "published_log_id (sm_core sm) \<le> co_last_applied (sm_core sm)"
  shows "\<exists>sm2. with_store P (Inr (sm_store sm1)) = Inr sm2 \<and> replicated (sm_core sm2) = replicated (sm_core sm)
     \<and> sm_active sm2 = sm_active sm \<and> (\<exists>b. build_capture P sm2 = Inr b)"
proof -
  let ?c = "sm_core sm" and ?v = "sm_active sm"
  obtain meta data where x: "x = (meta, data)" by fastforce
  from assms(3) have cap: "build_capture P sm = Inr (meta, data)" unfolding x by (rule build_snapshot_InrD)
  then have enc: "encode_framed (snapshot_codec P) ?v (snapshot_of ?c) = Inr data"
      and meta: "sn_last_log_id meta = co_last_applied ?c" "sn_last_membership meta = co_last_membership ?c"
    by (simp_all add: build_capture_Inr_iff)
  have so: "snapshot_ok (snapshot_of ?c)" using assms(1) by (simp add: core_ok_def)
  have rep: "representable ?v (snapshot_of ?c)"
    using enc snapshot_encode_representable by (auto simp: encode_framed_Inr_iff snapshot_codec_def)
  then have v: "in_readable_range ?v" "max BASELINE_WRITE_VERSION ?v = ?v"
    by (auto simp: representable_def in_readable_range_def version_defs max_def)
  obtain env where env: "make_envelope P ?v meta data = Inr env"
      "encode_framed (envelope_codec P) ?v \<lparr>pn_meta = meta, pn_data = data\<rparr> = Inr env" "hd env = ?v"
    by (rule envelope_total [OF v(1), of meta data]) (use assms(1) meta in \<open>simp_all add: core_ok_iff\<close>)
  then obtain body where eb: "env = ?v # body" by (auto simp: encode_framed_Inr_iff)
  have st: "sm_store sm1 = Some env"
    using assms(3) cap env(1) assms(4) meta(1)
    by (auto simp: build_snapshot_def build_finish_def commit_snapshot_def supersedes_published_def store_save_def)
  let ?sm2 = "\<lparr>sm_core = (adopt (represents ?v (snapshot_of ?c)) core_new)
        \<lparr>co_current_snapshot := Some \<lparr>ss_meta = meta, ss_data = data\<rparr>\<rparr>, sm_store = Some env, sm_active = ?v\<rparr>"
  have w: "with_store P (Inr (sm_store sm1)) = Inr ?sm2"
    using snap.framed_roundtrip [OF so enc] env.framed_roundtrip [OF TrueI env(2)] v(2)
    by (simp add: st eb with_store_def with_store_and_active_version_def)
  have r: "replicated (sm_core ?sm2) = replicated ?c"
    using adopt_represents [of ?c core_new ?v] assms(2) by (simp add: core_new_def replicated_def)
  have "core_ok (sm_core ?sm2)" "representable (sm_active ?sm2) (snapshot_of (sm_core ?sm2))"
    using replicated_eqD [OF r] assms(1) rep by simp_all
  with capture_total [of ?sm2] w r show ?thesis by auto
qed

end

text \<open>
  An activation accepts every readable target, also one below the active version. With
  state on board that the target cannot represent, no snapshot can be built afterwards.
\<close>

lemma downgrade_blocks_snapshots:
  assumes "in_readable_range target" "\<not> representable target (snapshot_of (sm_core sm))"
    and "set (committed_members (sm_core sm)) \<subseteq> set gated"
    and "apply_entry \<lparr>en_log_id = i, en_payload = Normal (SetFormatVersion target gated)\<rparr> sm = (a, sm')"
  shows "ha_outcome a = FormatActivated target \<and> sm_active sm' = target
     \<and> build_snapshot P io sm' = (Inl (codec_io_error ''snapshot payload serialize'' (NotRepresentable target)), sm')"
proof -
  have a: "a = \<lparr>ha_value = co_current_value (sm_core sm), ha_outcome = FormatActivated target\<rparr>"
      "sm' = sm\<lparr>sm_active := target, sm_core := (sm_core sm)\<lparr>co_last_applied := Some i\<rparr>\<rparr>"
    using assms(1,3,4) by (auto simp: apply_entry_def apply_set_format_version_def Let_def)
  have "\<not> representable target (snapshot_of (sm_core sm'))"
    using assms(2) by (simp add: a representable_def snapshot_of_def)
  from snapshot_encode_not_representable [OF assms(1) this] a show ?thesis
    by (simp add: build_snapshot_def build_capture_def encode_framed_def snapshot_codec_def)
qed

context postcards
begin

lemma build_snapshot_total:
  assumes "core_ok (sm_core sm)" "representable (sm_active sm) (snapshot_of (sm_core sm))"
  shows "\<exists>meta data sm1. build_snapshot P SaveOk sm = (Inr (meta, data), sm1)
     \<and> sn_last_log_id meta = co_last_applied (sm_core sm)"
proof -
  obtain meta data where c: "build_capture P sm = Inr (meta, data)" using capture_total [OF assms] by force
  then have m: "sn_last_log_id meta = co_last_applied (sm_core sm)" "membership_ok (sn_last_membership meta)"
    using assms(1) by (simp_all add: build_capture_Inr_iff core_ok_iff)
  obtain env where "make_envelope P (sm_active sm) meta data = Inr env"
    by (rule envelope_total [of "sm_active sm" meta data]) (use assms(2) m in \<open>simp_all add: representable_def\<close>)
  with c m show ?thesis
    by (cases "published_log_id (sm_core sm) \<le> sn_last_log_id meta")
      (simp_all add: build_snapshot_def build_finish_def commit_snapshot_def store_save_def supersedes_published_def)
qed

end

section \<open>Properties\<close>

text \<open>A log that activates the lease format and then uses everything.\<close>

definition demo_members :: membership where
  "demo_members = \<lparr>mb_configs = [[1]], mb_nodes = [(1, \<lparr>op_addr = [], op_service_endpoint = [], op_admin_endpoint = []\<rparr>)]\<rparr>"

definition demo_lease :: durable_lease where
  "demo_lease = \<lparr>dl_lease_id = 9, dl_holder = [65], dl_holder_epoch = 1, dl_ttl_ms = 50, dl_ts_upper_bound = 70,
     dl_expires_at_ms = 80, dl_superseded = False\<rparr>"

definition demo_log :: "raft_entry list" where
  "demo_log =
     [\<lparr>en_log_id = LogId 1 1 1, en_payload = MembershipEntry demo_members\<rparr>,
      \<lparr>en_log_id = LogId 1 1 2, en_payload = Normal (SetFormatVersion 7 [1])\<rparr>,
      \<lparr>en_log_id = LogId 1 1 3, en_payload = Normal (Advance (AdvancePayload 70))\<rparr>,
      \<lparr>en_log_id = LogId 1 1 4, en_payload = Normal (AdvanceDense (SeqKey [107]) 3)\<rparr>,
      \<lparr>en_log_id = LogId 1 1 5, en_payload = Normal (SetLeases 1 (LeaseSet [demo_lease]))\<rparr>]"

definition demo_sm :: raft_sm where
  "demo_sm = snd (snd (sm_apply (map Inr demo_log) sm_new))"

lemma demo_log_valid: "list_all entry_valid demo_log"
  by code_simp

lemma demo_sm_facts: "sm_core demo_sm = replay demo_log core_new" "sm_active demo_sm = 7"
  "co_dense_cap (sm_core demo_sm) = RAFT_DENSE_CARDINALITY_CAP" "published_log_id (sm_core demo_sm) = None"
  "co_last_applied (sm_core demo_sm) = Some (LogId 1 1 5)"
  by code_simp+

lemma demo_sm_ok: "core_ok (sm_core demo_sm)" "representable (sm_active demo_sm) (snapshot_of (sm_core demo_sm))"
  using replay_ok [OF core_new_ok demo_log_valid]
  by (simp_all add: demo_sm_facts representable_def in_readable_range_def version_defs)

lemma snap_run_apply:
  "list_all entry_valid es \<Longrightarrow> snap_run P (sm, bs) (snd (snd (sm_apply (map Inr es) sm)), bs)"
proof (induction es arbitrary: sm)
  case (Cons e es)
  then have "snap_step P (sm, bs) (snd (apply_entry e sm), bs)" by (intro snap_step.applied) simp
  with Cons.IH [of "snd (apply_entry e sm)"] Cons.prems show ?case
    by (auto split: prod.splits intro: converse_rtranclp_into_rtranclp)
qed simp

lemma sm_new_inv: "snap_inv P (sm_new, [])"
  by (simp add: snap_inv_def sm_new_def readable_cases store_covers_def core_new_def [THEN arg_cong [of _ _ co_current_snapshot]])

lemma demo_ids_grow: "ids_grow demo_log"
  by code_simp

text \<open>
  C10. A snapshot stands for the log it covers. In every run of the replicas of a group, with
  entries committed and applied, snapshots built on clones, published, sent and installed,
  saves failing and replicas restarting in any order, a replica's state is the replay of the
  log up to its last applied id, and replaying the rest from there gives the state of the
  whole log. At any moment a restart from the replica's store succeeds with the replay of a
  prefix that covers what the replica has published, and a snapshot that some replica handed
  out installs without error, when the replica has published nothing newer, as the replay of
  the log up to the snapshot's id.
\<close>

theorem snapshot_stands_for_its_log:
  assumes "postcards_ok P" "replica_run P rr_init r"
  shows "(\<exists>i \<le> length (rr_log r). replicated (sm_core (rr_sm r n)) = replay (take i (rr_log r)) core_new
       \<and> co_last_applied (sm_core (rr_sm r n)) = last_id (take i (rr_log r))
       \<and> replicated (replay (drop i (rr_log r)) (sm_core (rr_sm r n))) = replay (rr_log r) core_new)
     \<and> (\<exists>sm' i. with_store P (Inr (sm_store (rr_sm r n))) = Inr sm' \<and> i \<le> length (rr_log r)
       \<and> replicated (sm_core sm') = replay (take i (rr_log r)) core_new
       \<and> published_log_id (sm_core (rr_sm r n)) \<le> last_id (take i (rr_log r)))
     \<and> ((meta, data) \<in> set (rr_sent r) \<and> published_log_id (sm_core (rr_sm r n)) \<le> sn_last_log_id meta \<longrightarrow>
       (\<exists>sm' i. install_snapshot P SaveOk meta data (rr_sm r n) = (Inr (), sm') \<and> i \<le> length (rr_log r)
         \<and> sn_last_log_id meta = last_id (take i (rr_log r))
         \<and> replicated (sm_core sm') = replay (take i (rr_log r)) core_new))"
proof -
  note pc = postcards.intro [OF assms(1)]
  have ok: "replicas_ok P r" by (rule postcards.replica_run_keeps [OF pc assms(2) replicas_ok_init])
  then have n: "replica_ok P (rr_log r) (rr_sm r n)" and v: "list_all entry_valid (rr_log r)"
    by (simp_all add: replicas_ok_def)
  then have "at_prefix (rr_log r) (sm_core (rr_sm r n))" by (simp add: replica_ok_def)
  note 1 = at_prefix_state [OF this]
  obtain sm' where s: "with_store P (Inr (sm_store (rr_sm r n))) = Inr sm'" "replica_ok P (rr_log r) sm'"
      "published_log_id (sm_core (rr_sm r n)) \<le> co_last_applied (sm_core sm')"
    using postcards.restart_stays [OF pc n v, of BASELINE_WRITE_VERSION] unfolding with_store_def readable_cases by blast
  then have "at_prefix (rr_log r) (sm_core sm')" by (simp add: replica_ok_def)
  from at_prefix_state [OF this] s(1,3) have 2: "\<exists>sm' i. with_store P (Inr (sm_store (rr_sm r n))) = Inr sm'
      \<and> i \<le> length (rr_log r) \<and> replicated (sm_core sm') = replay (take i (rr_log r)) core_new
      \<and> published_log_id (sm_core (rr_sm r n)) \<le> last_id (take i (rr_log r))" by metis
  have "snapshot_covers P (rr_log r) meta data" if "(meta, data) \<in> set (rr_sent r)"
    using ok that by (auto simp: replicas_ok_def)
  with postcards.install_covers [OF pc n _ v] have "(meta, data) \<in> set (rr_sent r)
      \<and> published_log_id (sm_core (rr_sm r n)) \<le> sn_last_log_id meta \<longrightarrow>
       (\<exists>sm' i. install_snapshot P SaveOk meta data (rr_sm r n) = (Inr (), sm') \<and> i \<le> length (rr_log r)
         \<and> sn_last_log_id meta = last_id (take i (rr_log r))
         \<and> replicated (sm_core sm') = replay (take i (rr_log r)) core_new)" by metis
  with 1 2 show ?thesis by (intro conjI)
qed

theorem snapshot_stands_for_its_log_witness:
  "\<exists>r meta data sm' i. replica_run wire_postcards rr_init r \<and> rr_log r = demo_log \<and> rr_sm r 2 = sm_new
     \<and> (meta, data) \<in> set (rr_sent r) \<and> sn_last_log_id meta = Some (LogId 1 1 5)
     \<and> install_snapshot wire_postcards SaveOk meta data (rr_sm r 2) = (Inr (), sm')
     \<and> Some (LogId 1 1 5) = last_id (take i demo_log) \<and> replicated (sm_core sm') = replay (take i demo_log) core_new"
proof -
  let ?P = wire_postcards
  let ?r1 = "rr_init\<lparr>rr_log := demo_log, rr_sm := (\<lambda>_. sm_new)(1 := demo_sm)\<rparr>"
  obtain meta data sm1 where b: "build_snapshot ?P SaveOk demo_sm = (Inr (meta, data), sm1)"
      "sn_last_log_id meta = Some (LogId 1 1 5)"
    using wire.build_snapshot_total [OF demo_sm_ok] demo_sm_facts(5) by auto
  then have c: "build_capture ?P demo_sm = Inr (meta, data)" by (blast dest: build_snapshot_InrD)
  with b(1) have f: "build_finish ?P SaveOk meta data demo_sm = (Inr (meta, data), sm1)" by (simp add: build_snapshot_def)
  let ?r2 = "?r1\<lparr>rr_builds := [(1, meta, data)]\<rparr>"
  let ?r3 = "?r1\<lparr>rr_sm := (\<lambda>_. sm_new)(1 := sm1), rr_sent := [(meta, data)]\<rparr>"
  have "replica_run ?P rr_init (rr_init\<lparr>rr_log := demo_log\<rparr>)" by (rule commit_run [OF demo_log_valid demo_ids_grow])
  also have "replica_run ?P (rr_init\<lparr>rr_log := demo_log\<rparr>) ?r1"
    using catch_up_run [of "rr_init\<lparr>rr_log := demo_log\<rparr>" "[]" demo_log 1 ?P]
    by (simp add: rr_init_def demo_sm_def sm_new_def core_new_def)
  also have "replica_step ?P ?r1 ?r2" using replica_step.captured [of ?P ?r1 1] c by (simp add: rr_init_def)
  also have "replica_step ?P ?r2 ?r3"
    using replica_step.finished [of 1 meta data ?r2 ?P SaveOk "Inr (meta, data)" sm1] f by (simp add: rr_init_def)
  finally have r: "replica_run ?P rr_init ?r3" .
  from snapshot_stands_for_its_log [OF wire_postcards_ok r, of 2 meta data] b(2) r show ?thesis
    by (intro exI [of _ ?r3] exI [of _ meta] exI [of _ data]) (auto simp: rr_init_def sm_new_def published_log_id_def core_new_def)
qed

text \<open>
  C11. The published snapshot never goes back. Under every interleaving of applies, snapshot
  builds on clones, installs of arbitrary bytes, failing saves and restarts, the published
  snapshot never moves to an older log id, and the durable one is never behind it: a restart
  from the store at any moment succeeds with a state that covers at least what was published.
\<close>

theorem snapshots_never_regress:
  assumes "postcards_ok P" "snap_run P (sm_new, []) (sm, bs)" "snap_run P (sm, bs) (sm', bs')"
  shows "published_log_id (sm_core sm) \<le> published_log_id (sm_core sm')
     \<and> (\<exists>sm2. with_store P (Inr (sm_store sm')) = Inr sm2
          \<and> published_log_id (sm_core sm') \<le> co_last_applied (sm_core sm2))"
proof -
  note pc = postcards.intro [OF assms(1)]
  note 1 = postcards.snap_run_keeps [OF pc assms(2) sm_new_inv]
  note 2 = postcards.snap_run_keeps [OF pc assms(3) conjunct1 [OF 1]]
  then have "store_covers P sm'" by (simp add: snap_inv_def)
  from postcards.restart_covers [OF pc this] obtain sm2 where "with_store P (Inr (sm_store sm')) = Inr sm2"
      "published_log_id (sm_core sm') \<le> co_last_applied (sm_core sm2)" by metis
  with 2 show ?thesis by auto
qed

theorem snapshots_never_regress_witness:
  "\<exists>sm1 sm2. snap_run wire_postcards (sm_new, []) (sm1, []) \<and> published_log_id (sm_core sm1) = Some (LogId 1 1 5)
     \<and> with_store wire_postcards (Inr (sm_store sm1)) = Inr sm2 \<and> Some (LogId 1 1 5) \<le> co_last_applied (sm_core sm2)"
proof -
  let ?P = wire_postcards
  obtain meta data sm1 where b: "build_snapshot ?P SaveOk demo_sm = (Inr (meta, data), sm1)"
      "sn_last_log_id meta = co_last_applied (sm_core demo_sm)"
    using wire.build_snapshot_total [OF demo_sm_ok] by blast
  then have c: "build_capture ?P demo_sm = Inr (meta, data)" by (blast dest: build_snapshot_InrD)
  with b(1) have f: "build_finish ?P SaveOk meta data demo_sm = (Inr (meta, data), sm1)" by (simp add: build_snapshot_def)
  have r0: "snap_run ?P (sm_new, []) (demo_sm, [])"
    unfolding demo_sm_def by (rule snap_run_apply [OF demo_log_valid])
  have "snap_run ?P (demo_sm, []) (sm1, [])"
    using snap_step.captured [OF c, of "[]"] snap_step.finished [OF f, of "[(meta, data)]"] by auto
  moreover have "published_log_id (sm_core sm1) = Some (LogId 1 1 5)"
    using f b(2) demo_sm_facts(4,5)
    by (auto simp: build_finish_def commit_snapshot_def store_save_def supersedes_published_def published_log_id_def
        split: sum.splits if_splits)
  ultimately show ?thesis
    using snapshots_never_regress [OF wire_postcards_ok r0, of sm1 "[]"] r0 by (auto intro: rtranclp_trans)
qed

text \<open>
  A state survives the process. When a snapshot is built and saved, a state machine
  constructed from the store has exactly the replicated state that was captured, at the
  write version it was captured with, and can build its next snapshot at once.
\<close>

theorem state_survives_restart:
  assumes "postcards_ok P" "core_ok (sm_core sm)" "co_dense_cap (sm_core sm) = RAFT_DENSE_CARDINALITY_CAP"
    and "build_snapshot P SaveOk sm = (Inr x, sm1)" "published_log_id (sm_core sm) \<le> co_last_applied (sm_core sm)"
  shows "\<exists>sm2. with_store P (Inr (sm_store sm1)) = Inr sm2 \<and> replicated (sm_core sm2) = replicated (sm_core sm)
     \<and> sm_active sm2 = sm_active sm \<and> (\<exists>b. build_capture P sm2 = Inr b)"
  using postcards.restart_roundtrip [OF postcards.intro [OF assms(1)] assms(2-)] .

theorem state_survives_restart_witness:
  "\<exists>x sm1 sm2. build_snapshot wire_postcards SaveOk demo_sm = (Inr x, sm1)
     \<and> with_store wire_postcards (Inr (sm_store sm1)) = Inr sm2
     \<and> replicated (sm_core sm2) = replicated (replay demo_log core_new)"
proof -
  obtain x sm1 where b: "build_snapshot wire_postcards SaveOk demo_sm = (Inr x, sm1)"
    using wire.build_snapshot_total [OF demo_sm_ok] by blast
  have "published_log_id (sm_core demo_sm) \<le> co_last_applied (sm_core demo_sm)" by (simp add: demo_sm_facts(4))
  from state_survives_restart [OF wire_postcards_ok demo_sm_ok(1) demo_sm_facts(3) b this] b demo_sm_facts(1)
  show ?thesis by auto
qed

text \<open>
  C12. Dense ordinals through the replicated log are gapless: the blocks that the accepted
  single and batch advances of one key report, in log order, are exactly the ordinals from
  zero up to the key's counter. Rejected entries, other keys and all other commands take
  none.
\<close>

theorem replicated_ordinals_gapless:
  "log_ordinals k es core_new = [0 ..< unat (bt_lookup0 (co_dense (replay es core_new)) (key_str k))]"
  using log_ordinals_gapless [of core_new k es] by (simp add: core_counter_def core_new_def bt_lookup0_def)

text \<open>
  C13. What any log leaves behind, in closed form: the high-water is the largest bound ever
  advanced to, the lease set is the last one whose proposer's term is the term of its entry
  (a set that arrives under another term changes nothing), the membership is that of the
  last membership entry, and the cap is the one of the genesis configuration.
\<close>

theorem replay_closed_form:
  "co_current_value (replay es core_new) = fold max (concat (map entry_advance es)) 0
   \<and> co_leases (replay es core_new) = last (LeaseSet [] # concat (map entry_leases es))
   \<and> co_last_membership (replay es core_new) = last (default_membership # concat (map entry_membership es))
   \<and> co_dense_cap (replay es core_new) = RAFT_DENSE_CARDINALITY_CAP"
  by (simp add: replay_current_value replay_leases replay_membership core_new_def)

text \<open>
  C14. Activating a version that cannot represent the current state succeeds and leaves the
  node unable to build a snapshot: the apply of a \<open>SetFormatVersion\<close> accepts every readable
  target, also one below the active version, and the next build fails with
  \<open>NotRepresentable\<close>.
\<close>

theorem format_downgrade_blocks_snapshots:
  assumes "in_readable_range target" "\<not> representable target (snapshot_of (sm_core sm))"
    and "set (committed_members (sm_core sm)) \<subseteq> set gated"
    and "apply_entry \<lparr>en_log_id = i, en_payload = Normal (SetFormatVersion target gated)\<rparr> sm = (a, sm')"
  shows "ha_outcome a = FormatActivated target \<and> sm_active sm' = target
     \<and> build_snapshot P io sm' = (Inl (codec_io_error ''snapshot payload serialize'' (NotRepresentable target)), sm')"
  using assms by (rule downgrade_blocks_snapshots)

theorem format_downgrade_blocks_snapshots_witness:
  "\<exists>a sm'. apply_entry \<lparr>en_log_id = LogId 1 1 6, en_payload = Normal (SetFormatVersion 5 [1])\<rparr> demo_sm = (a, sm')
     \<and> sm_active demo_sm = 7 \<and> ha_outcome a = FormatActivated 5 \<and> sm_active sm' = 5
     \<and> fst (build_snapshot wire_postcards SaveOk sm')
         = Inl (codec_io_error ''snapshot payload serialize'' (NotRepresentable 5))"
proof -
  obtain a sm' where a: "apply_entry \<lparr>en_log_id = LogId 1 1 6, en_payload = Normal (SetFormatVersion 5 [1])\<rparr> demo_sm = (a, sm')"
    by fastforce
  have "in_readable_range 5" "\<not> representable 5 (snapshot_of (sm_core demo_sm))"
      "set (committed_members (sm_core demo_sm)) \<subseteq> set [1]" by code_simp+
  from format_downgrade_blocks_snapshots [OF this a, of wire_postcards SaveOk] a demo_sm_facts(2) show ?thesis by simp
qed

text \<open>
  The durable snapshot alone can step back. A save that reports an error after its bytes
  reached the store leaves a newer snapshot durable than the published one, and an older
  build that is still in flight then replaces it. What was published stays covered.
\<close>

definition durable_log_id :: "snapshot_postcards \<Rightarrow> raft_sm \<Rightarrow> log_id option" where
  "durable_log_id P sm =
     (case sm_store sm of
        None \<Rightarrow> None
      | Some bs \<Rightarrow>
          (case decode_framed (envelope_codec P) MIN_READABLE_VERSION MAX_READABLE_VERSION bs of
             Inl _ \<Rightarrow> None
           | Inr n \<Rightarrow> sn_last_log_id (pn_meta n)))"

definition demo_sm4 :: raft_sm where
  "demo_sm4 = snd (snd (sm_apply (map Inr (take 4 demo_log)) sm_new))"

lemma demo_sm4_facts: "sm_core demo_sm4 = replay (take 4 demo_log) core_new" "sm_active demo_sm4 = 7"
  "published_log_id (sm_core demo_sm4) = None" "co_last_applied (sm_core demo_sm4) = Some (LogId 1 1 4)"
  "snd (apply_entry (demo_log ! 4) demo_sm4) = demo_sm" "entry_valid (demo_log ! 4)"
  by code_simp+

lemma demo_sm4_ok: "core_ok (sm_core demo_sm4)" "representable (sm_active demo_sm4) (snapshot_of (sm_core demo_sm4))"
  using replay_ok [OF core_new_ok, of "take 4 demo_log"] demo_log_valid
  by (auto simp: demo_sm4_facts representable_def in_readable_range_def version_defs list_all_iff dest: in_set_takeD)

context postcards
begin

lemma capture_finishes:
  assumes "core_ok (sm_core sm)" "representable (sm_active sm) (snapshot_of (sm_core sm))"
  obtains meta data where "build_capture P sm = Inr (meta, data)" "sn_last_log_id meta = co_last_applied (sm_core sm)"
    "\<And>sm2. sm_active sm2 = sm_active sm \<Longrightarrow> published_log_id (sm_core sm2) = None \<Longrightarrow>
       \<exists>x sm3. build_finish P io meta data sm2 = (x, sm3) \<and> (io = SaveOk \<or> io = SaveFailed True \<longrightarrow> durable_log_id P sm3 = sn_last_log_id meta)
         \<and> sm_active sm3 = sm_active sm \<and> (io = SaveFailed True \<longrightarrow> sm_core sm3 = sm_core sm2)"
proof -
  obtain meta data where c: "build_capture P sm = Inr (meta, data)" using capture_total [OF assms] by force
  then have m: "sn_last_log_id meta = co_last_applied (sm_core sm)" "membership_ok (sn_last_membership meta)"
    using assms(1) by (simp_all add: build_capture_Inr_iff core_ok_iff)
  obtain env where e: "make_envelope P (sm_active sm) meta data = Inr env"
      "encode_framed (envelope_codec P) (sm_active sm) \<lparr>pn_meta = meta, pn_data = data\<rparr> = Inr env"
    by (rule envelope_total [of "sm_active sm" meta data]) (use assms(2) m in \<open>simp_all add: representable_def\<close>)
  note d = env.framed_roundtrip [OF TrueI e(2)]
  show ?thesis
    by (rule that [OF c m(1)])
      (use e(1) d in \<open>auto simp: build_finish_def commit_snapshot_def supersedes_published_def store_save_def
         durable_log_id_def split: save_outcome.split\<close>)
qed

end

theorem durable_snapshot_may_step_back:
  "\<exists>sm sm' bs bs'. snap_run wire_postcards (sm_new, []) (sm, bs) \<and> snap_step wire_postcards (sm, bs) (sm', bs')
     \<and> durable_log_id wire_postcards sm = Some (LogId 1 1 5) \<and> durable_log_id wire_postcards sm' = Some (LogId 1 1 4)"
proof -
  let ?P = wire_postcards
  obtain m4 d4 where b4: "build_capture ?P demo_sm4 = Inr (m4, d4)" "sn_last_log_id m4 = Some (LogId 1 1 4)"
      "\<And>sm2. sm_active sm2 = 7 \<Longrightarrow> published_log_id (sm_core sm2) = None \<Longrightarrow>
         \<exists>x sm3. build_finish ?P SaveOk m4 d4 sm2 = (x, sm3) \<and> durable_log_id ?P sm3 = sn_last_log_id m4"
    by (rule wire.capture_finishes [OF demo_sm4_ok, of SaveOk]) (auto simp: demo_sm4_facts(2-4), blast)
  obtain m5 d5 where b5: "build_capture ?P demo_sm = Inr (m5, d5)" "sn_last_log_id m5 = Some (LogId 1 1 5)"
      "\<And>sm2. sm_active sm2 = 7 \<Longrightarrow> published_log_id (sm_core sm2) = None \<Longrightarrow>
         \<exists>x sm3. build_finish ?P (SaveFailed True) m5 d5 sm2 = (x, sm3) \<and> durable_log_id ?P sm3 = sn_last_log_id m5
           \<and> sm_active sm3 = 7 \<and> sm_core sm3 = sm_core sm2"
    by (rule wire.capture_finishes [OF demo_sm_ok, of "SaveFailed True"]) (auto simp: demo_sm_facts(2-5))
  obtain x sm3 where f5: "build_finish ?P (SaveFailed True) m5 d5 demo_sm = (x, sm3)" "durable_log_id ?P sm3 = Some (LogId 1 1 5)"
      "sm_active sm3 = 7" "published_log_id (sm_core sm3) = None"
    using b5(3) [of demo_sm] b5(2) demo_sm_facts by auto
  obtain y sm4 where f4: "build_finish ?P SaveOk m4 d4 sm3 = (y, sm4)" "durable_log_id ?P sm4 = Some (LogId 1 1 4)"
    using b4(3) [OF f5(3,4)] b4(2) by auto
  have "list_all entry_valid (take 4 demo_log)" using demo_log_valid by (auto simp: list_all_iff dest: in_set_takeD)
  then have "snap_run ?P (sm_new, []) (demo_sm4, [])" unfolding demo_sm4_def by (rule snap_run_apply)
  also have "snap_step ?P (demo_sm4, []) (demo_sm4, [(m4, d4)])" by (rule snap_step.captured [OF b4(1)])
  also have "snap_step ?P (demo_sm4, [(m4, d4)]) (demo_sm, [(m4, d4)])"
    using snap_step.applied [OF demo_sm4_facts(6), of ?P demo_sm4] demo_sm4_facts(5) by simp
  also have "snap_step ?P (demo_sm, [(m4, d4)]) (demo_sm, [(m5, d5), (m4, d4)])" by (rule snap_step.captured [OF b5(1)])
  also have "snap_step ?P (demo_sm, [(m5, d5), (m4, d4)]) (sm3, remove1 (m5, d5) [(m5, d5), (m4, d4)])"
    by (rule snap_step.finished [OF f5(1)]) simp
  finally have r: "snap_run ?P (sm_new, []) (sm3, [(m4, d4)])" by simp
  have "snap_step ?P (sm3, [(m4, d4)]) (sm4, remove1 (m4, d4) [(m4, d4)])"
    by (rule snap_step.finished [OF f4(1)]) simp
  with r f5(2) f4(2) show ?thesis by blast
qed

end
