(* ===== verification/Serving.thy ===== *)
theory Serving
  imports Consensus
begin

text \<open>
  The serving core (\<open>tsoracle-server/src/serving_core.rs\<close>), the classification of driver
  failures (\<open>persist_disposition.rs\<close>), the status values handlers return, and the server
  with its configuration (\<open>server.rs\<close>). The locks of the core are not represented: each
  definition is one critical section, and the theories above compose them at the points
  where the source releases the locks. Metrics, log lines and message texts are left
  out; a status keeps its code and its leader hint.
\<close>

section \<open>Durations and statuses\<close>

text \<open>A \<open>Duration\<close> in nanoseconds; \<open>as_millis() as u64\<close> keeps the low 64 bits.\<close>

type_synonym duration = nat

definition as_millis :: "duration \<Rightarrow> u64" where
  "as_millis d = of_nat (d div 1000000)"

lemma as_millis_code [code]: "as_millis d = (if d = 0 then 0 else of_nat (d div 1000000))"
  by (simp add: as_millis_def)

definition from_millis :: "u64 \<Rightarrow> duration" where
  "from_millis ms = unat ms * 1000000"

definition saturating_millis :: "duration \<Rightarrow> u64" where
  "saturating_millis d = (if d div 1000000 < 2 ^ 64 then of_nat (d div 1000000) else - 1)"

text \<open>\<open>SystemClock::now_ms\<close>, given the time since the Unix epoch when it is not negative.\<close>

definition system_clock_now_ms :: "duration option \<Rightarrow> u64" where
  "system_clock_now_ms since_epoch =
     (case since_epoch of Some d \<Rightarrow> saturating_millis d | None \<Rightarrow> 0)"

datatype status_code =
    Cancelled | Unknown | InvalidArgument | DeadlineExceeded | NotFound | AlreadyExists | PermissionDenied
  | ResourceExhausted | FailedPrecondition | Aborted | OutOfRange | Unimplemented | Internal | Unavailable
  | DataLoss | Unauthenticated

record leader_hint =
  lh_endpoint :: "str option"
  lh_epoch :: "(u64 \<times> u64) option"

record status =
  st_code :: status_code
  st_hint :: "leader_hint option"

definition bare :: "status_code \<Rightarrow> status" where
  "bare c = \<lparr>st_code = c, st_hint = None\<rparr>"

definition not_leader_status :: "leader_hint \<Rightarrow> status" where
  "not_leader_status hint = \<lparr>st_code = FailedPrecondition, st_hint = Some hint\<rparr>"

section \<open>Classification of driver failures\<close>

datatype persist_disposition =
    SteppedDown "epoch option"
  | Transient string
  | Permanent consensus_error
  | DispOutOfRange u64

fun classify :: "consensus_error \<Rightarrow> persist_disposition" where
  "classify (Fenced _ current) = SteppedDown (Some current)"
| "classify (ConsNotLeader _) = SteppedDown None"
| "classify (TransientDriver source) = Transient source"
| "classify (PermanentDriver source) = Permanent (PermanentDriver source)"
| "classify (AdvanceOutOfRange at_least) = DispOutOfRange at_least"
| "classify dense_error = Permanent dense_error"

section \<open>The serving core\<close>

datatype serving_state = NotServing "peer_endpoint option" "epoch option" | ServingNow

record serving_core =
  sc_allocator :: allocator
  sc_seq_allocator :: seq_allocator
  sc_lease_table :: lease_table
  sc_state :: serving_state
  sc_window_ahead :: duration
  sc_max_seq_count :: u32
  sc_max_seq_batch_keys :: u32

definition sc_new :: "duration \<Rightarrow> u32 \<Rightarrow> u32 \<Rightarrow> serving_core" where
  "sc_new window_ahead max_seq_count max_seq_batch_keys =
     \<lparr>sc_allocator = alloc_new, sc_seq_allocator = seq_new, sc_lease_table = lt_new,
      sc_state = NotServing None None, sc_window_ahead = window_ahead,
      sc_max_seq_count = max_seq_count, sc_max_seq_batch_keys = max_seq_batch_keys\<rparr>"

text \<open>The addition \<open>window_ms + 1\<close> is unchecked in release builds.\<close>

definition current_max_safe_physical_ms :: "serving_core \<Rightarrow> u64" where
  "current_max_safe_physical_ms c =
     (case alloc_committed_high_water (sc_allocator c) of
        None \<Rightarrow> 0
      | Some persisted \<Rightarrow> saturating_sub persisted (as_millis (sc_window_ahead c) + 1))"

definition current_epoch :: "serving_core \<Rightarrow> epoch option" where
  "current_epoch c = alloc_epoch (sc_allocator c)"

definition safe_frontier_physical_ms :: "u64 \<Rightarrow> serving_core \<Rightarrow> u64" where
  "safe_frontier_physical_ms now_ms c =
     (case alloc_committed_high_water (sc_allocator c) of
        None \<Rightarrow> 0
      | Some high_water \<Rightarrow>
          (case min_unexpired_bound now_ms (sc_lease_table c) of
             Some bound \<Rightarrow> min high_water bound
           | None \<Rightarrow> high_water))"

definition is_serving :: "serving_core \<Rightarrow> bool" where
  "is_serving c = (case sc_state c of ServingNow \<Rightarrow> True | NotServing _ _ \<Rightarrow> False)"

definition publish_serving :: "serving_core \<Rightarrow> serving_core" where
  "publish_serving c = c\<lparr>sc_state := ServingNow\<rparr>"

definition publish_not_serving :: "peer_endpoint option \<Rightarrow> epoch option \<Rightarrow> serving_core \<Rightarrow> serving_core" where
  "publish_not_serving endpoint epoch c = c\<lparr>sc_state := NotServing endpoint epoch\<rparr>"

definition sc_step_down :: "peer_endpoint option \<Rightarrow> epoch option \<Rightarrow> serving_core \<Rightarrow> serving_core" where
  "sc_step_down endpoint epoch c =
     c\<lparr>sc_allocator := alloc_step_down (sc_allocator c),
       sc_seq_allocator := seq_step_down (sc_seq_allocator c),
       sc_lease_table := lt_clear (sc_lease_table c),
       sc_state := NotServing endpoint epoch\<rparr>"

definition enter_fencing :: "serving_core \<Rightarrow> serving_core" where
  "enter_fencing c = sc_step_down None None c"

definition sc_try_grant :: "u64 \<Rightarrow> u32 \<Rightarrow> serving_core \<Rightarrow> (core_error, window_grant) result \<times> serving_core" where
  "sc_try_grant now_ms count c =
     (let (r, a) = alloc_try_grant now_ms count (sc_allocator c) in (r, c\<lparr>sc_allocator := a\<rparr>))"

definition seed_on_leadership_gained ::
  "u64 \<Rightarrow> u64 \<Rightarrow> epoch \<Rightarrow> serving_core \<Rightarrow> (core_error, unit) result \<times> serving_core" where
  "seed_on_leadership_gained serving_floor committed_ceiling epoch c =
     (case pms_try_new serving_floor of
        Inl e \<Rightarrow> (Inl e, c)
      | Inr floor \<Rightarrow>
          (case pms_try_new committed_ceiling of
             Inl e \<Rightarrow> (Inl e, c)
           | Inr ceiling \<Rightarrow>
               (case alloc_become_leader floor ceiling epoch (sc_allocator c) of
                  (Inl e, a) \<Rightarrow> (Inl e, c\<lparr>sc_allocator := a\<rparr>)
                | (Inr _, a) \<Rightarrow>
                    (Inr (), c\<lparr>sc_allocator := a,
                               sc_seq_allocator := seq_become_leader epoch (sc_seq_allocator c)\<rparr>))))"

definition seed_leases :: "lease_record list \<Rightarrow> u64 \<Rightarrow> serving_core \<Rightarrow> serving_core" where
  "seed_leases rs now_ms c = c\<lparr>sc_lease_table := lt_seed rs now_ms (sc_lease_table c)\<rparr>"

definition lease_prepare_acquire ::
  "bytes \<Rightarrow> u64 \<Rightarrow> u64 \<Rightarrow> serving_core \<Rightarrow> (lease_error, acquire_decision) result" where
  "lease_prepare_acquire h he now_ms c = lt_prepare_acquire h he now_ms (sc_lease_table c)"

definition lease_prepare_renew :: "u64 \<Rightarrow> u64 \<Rightarrow> serving_core \<Rightarrow> (lease_error, lease_record) result" where
  "lease_prepare_renew i now_ms c = lt_prepare_renew i now_ms (sc_lease_table c)"

definition lease_prepare_release :: "u64 \<Rightarrow> serving_core \<Rightarrow> lease_record option" where
  "lease_prepare_release i c = lt_prepare_release i (sc_lease_table c)"

definition lease_table_at :: "epoch \<Rightarrow> serving_core \<Rightarrow> (core_error, lease_table) result" where
  "lease_table_at epoch c =
     (if alloc_epoch (sc_allocator c) \<noteq> Some epoch then Inl CoreNotLeader else Inr (sc_lease_table c))"

definition lease_projected_live_set ::
  "lease_record option \<Rightarrow> u64 option \<Rightarrow> u64 option \<Rightarrow> epoch \<Rightarrow> u64 \<Rightarrow> serving_core
     \<Rightarrow> (core_error, lease_record list) result" where
  "lease_projected_live_set upsert supersede remove epoch now_ms c =
     and_then (lease_table_at epoch c) (\<lambda>t. Inr (projected_live_set upsert supersede remove now_ms t))"

text \<open>The table update of a commit: the removal first, then the upsert.\<close>

definition lease_apply ::
  "lease_record option \<Rightarrow> u64 option \<Rightarrow> u64 option \<Rightarrow> u64 \<Rightarrow> lease_table \<Rightarrow> lease_table" where
  "lease_apply upsert supersede remove now_ms t =
     (let t = (case remove of Some i \<Rightarrow> lt_commit_release i now_ms t | None \<Rightarrow> t)
      in case upsert of
           None \<Rightarrow> t
         | Some r \<Rightarrow>
             if supersede \<noteq> None \<or> lt_prepare_release (lease_id r) t = None
             then lt_commit_acquire r supersede now_ms t
             else lt_commit_renew r now_ms t)"

definition lease_commit ::
  "lease_record option \<Rightarrow> u64 option \<Rightarrow> u64 option \<Rightarrow> epoch \<Rightarrow> u64 \<Rightarrow> serving_core
     \<Rightarrow> (core_error, unit) result \<times> serving_core" where
  "lease_commit upsert supersede remove epoch now_ms c =
     (case lease_table_at epoch c of
        Inl e \<Rightarrow> (Inl e, c)
      | Inr t \<Rightarrow> (Inr (), c\<lparr>sc_lease_table := lease_apply upsert supersede remove now_ms t\<rparr>))"

definition seq_validate :: "str \<Rightarrow> u32 \<Rightarrow> serving_core \<Rightarrow> (core_error, seq_key) result" where
  "seq_validate key count c =
     seq_validate_request (sc_seq_allocator c) key count (sc_max_seq_count c)"

definition commit_extension ::
  "u64 \<Rightarrow> epoch \<Rightarrow> serving_core \<Rightarrow> (core_error, commit_outcome) result \<times> serving_core" where
  "commit_extension actual epoch c =
     (case pms_try_new actual of
        Inl e \<Rightarrow> (Inl e, c)
      | Inr p \<Rightarrow>
          (let (r, a) = alloc_try_commit_window_extension p epoch (sc_allocator c)
           in (r, c\<lparr>sc_allocator := a\<rparr>)))"

definition slot_would_grant :: "u64 \<Rightarrow> u32 \<Rightarrow> serving_core \<Rightarrow> bool" where
  "slot_would_grant now_ms count c = alloc_would_grant now_ms count (sc_allocator c)"

definition prepare_extension :: "u64 \<Rightarrow> u64 \<Rightarrow> serving_core \<Rightarrow> (core_error, u64 \<times> epoch) result" where
  "prepare_extension now_ms window_ahead_ms c =
     (case alloc_epoch (sc_allocator c) of
        None \<Rightarrow> Inl CoreNotLeader
      | Some epoch \<Rightarrow>
          and_then (pms_try_new now_ms) (\<lambda>now.
          and_then (alloc_try_prepare_window_extension now window_ahead_ms (sc_allocator c)) (\<lambda>requested.
            Inr (pms_get requested, epoch))))"

definition prepare_lease_renewal ::
  "u64 \<Rightarrow> u64 \<Rightarrow> serving_core \<Rightarrow> (core_error, u64 \<times> u64 \<times> epoch) result" where
  "prepare_lease_renewal now_ms ttl c =
     (case (alloc_epoch (sc_allocator c), alloc_committed_high_water (sc_allocator c)) of
        (Some epoch, Some committed) \<Rightarrow>
          and_then (pms_try_new now_ms) (\<lambda>now.
          and_then (alloc_try_prepare_lease_renewal now ttl (sc_allocator c)) (\<lambda>requested.
            Inr (committed, pms_get requested, epoch)))
      | _ \<Rightarrow> Inl CoreNotLeader)"

section \<open>The server\<close>

datatype build_error =
    MissingConsensusDriver | ZeroMaxSeqCount | ZeroMaxSeqBatchKeys | LeaseTtlBoundsInvalid

record server_builder =
  sb_has_driver :: bool
  sb_window_ahead :: duration
  sb_failover_advance :: duration
  sb_max_seq_count :: u32
  sb_max_seq_batch_keys :: u32
  sb_lease_ttl_floor :: duration
  sb_lease_ttl_ceiling :: duration

definition builder_default :: server_builder where
  "builder_default =
     \<lparr>sb_has_driver = False, sb_window_ahead = 3 * 1000000000, sb_failover_advance = 1 * 1000000000,
      sb_max_seq_count = DEFAULT_MAX_SEQ_COUNT, sb_max_seq_batch_keys = DEFAULT_MAX_SEQ_BATCH_KEYS,
      sb_lease_ttl_floor = from_millis DEFAULT_LEASE_TTL_FLOOR_MS,
      sb_lease_ttl_ceiling = from_millis DEFAULT_LEASE_TTL_CEILING_MS\<rparr>"

text \<open>The parts of \<open>Server\<close> that are fixed at construction, and its mutable core beside the
  driver's state.\<close>

record server_config =
  cf_window_ahead :: duration
  cf_failover_advance :: duration
  cf_lease_ttl_floor :: duration
  cf_lease_ttl_ceiling :: duration

record 's server =
  sv_core :: serving_core
  sv_driver :: 's

definition server_build ::
  "server_builder \<Rightarrow> 's \<Rightarrow> (build_error, server_config \<times> 's server) result" where
  "server_build b driver =
     (if \<not> sb_has_driver b then Inl MissingConsensusDriver
      else if sb_max_seq_count b = 0 then Inl ZeroMaxSeqCount
      else if sb_max_seq_batch_keys b = 0 then Inl ZeroMaxSeqBatchKeys
      else if sb_lease_ttl_floor b = 0 \<or> sb_lease_ttl_floor b > sb_lease_ttl_ceiling b
      then Inl LeaseTtlBoundsInvalid
      else Inr (\<lparr>cf_window_ahead = sb_window_ahead b, cf_failover_advance = sb_failover_advance b,
                 cf_lease_ttl_floor = sb_lease_ttl_floor b, cf_lease_ttl_ceiling = sb_lease_ttl_ceiling b\<rparr>,
                \<lparr>sv_core = sc_new (sb_window_ahead b) (sb_max_seq_count b) (sb_max_seq_batch_keys b),
                 sv_driver = driver\<rparr>))"

definition wire_epoch :: "epoch option \<Rightarrow> (u64 \<times> u64) option" where
  "wire_epoch e = map_option to_wire e"

definition leader_hint_from :: "serving_core \<Rightarrow> leader_hint" where
  "leader_hint_from c =
     (let (endpoint, epoch) = (case sc_state c of
            NotServing endpoint epoch \<Rightarrow> (endpoint, epoch) | ServingNow \<Rightarrow> (None, None))
      in \<lparr>lh_endpoint = map_option as_str endpoint, lh_epoch = wire_epoch epoch\<rparr>)"

definition not_leader :: "serving_core \<Rightarrow> status" where
  "not_leader c = not_leader_status (leader_hint_from c)"

fun core_status :: "core_error \<Rightarrow> status" where
  "core_status CoreNotLeader = bare FailedPrecondition"
| "core_status WindowExhausted = bare Internal"
| "core_status (InvalidCount _) = bare InvalidArgument"
| "core_status (PhysicalMsOutOfRange _) = bare OutOfRange"
| "core_status (LogicalRangeOutOfRange _ _) = bare OutOfRange"
| "core_status (InvalidLeadershipWindow _ _) = bare Internal"
| "core_status (WindowExtensionOverflow _ _ _) = bare Internal"
| "core_status SeqKeyEmpty = bare InvalidArgument"
| "core_status (SeqKeyTooLong _ _) = bare InvalidArgument"
| "core_status SeqCountZero = bare InvalidArgument"
| "core_status (SeqCountTooLarge _ _) = bare InvalidArgument"
| "core_status (SeqBlockOverflow _ _) = bare Internal"

section \<open>Invariant\<close>

text \<open>
  The three gates agree: the dense gate leads exactly the allocator's epoch, a node that
  serves leads, and the allocator and the lease table are well formed, with every lease
  bound at or below the committed bound.
\<close>

definition core_ok :: "serving_core \<Rightarrow> bool" where
  "core_ok c \<longleftrightarrow> alloc_ok (sc_allocator c) \<and> table_ok (sc_lease_table c)
     \<and> seq_epoch (sc_seq_allocator c) = alloc_epoch (sc_allocator c)
     \<and> (is_serving c \<longrightarrow> alloc_is_leader (sc_allocator c))"

lemma alloc_leader_iff: "alloc_is_leader a \<longleftrightarrow> alloc_epoch a \<noteq> None"
  by (auto simp: alloc_is_leader_def alloc_epoch_def split: alloc_state.splits)

lemma hw_None_iff: "alloc_committed_high_water a = None \<longleftrightarrow> alloc_epoch a = None"
  by (auto simp: alloc_committed_high_water_def alloc_epoch_def split: alloc_state.splits)

lemma table_ok_clear [simp]: "table_ok (lt_clear t)"
  by (simp add: table_ok_def lt_clear_def one_active_def)

lemma table_ok_new [simp]: "table_ok lt_new"
  by (simp add: table_ok_def lt_new_def one_active_def)

lemma sc_new_ok: "core_ok (sc_new w a b)"
  by (simp add: core_ok_def sc_new_def seq_new_def seq_epoch_def alloc_new_def alloc_epoch_def is_serving_def
      alloc_ok_def)

lemma sc_step_down_ok: "core_ok (sc_step_down endpoint epoch c)"
  by (simp add: core_ok_def sc_step_down_def seq_step_down_def seq_epoch_def alloc_step_down_def
      alloc_epoch_def is_serving_def alloc_ok_def)

lemma sc_try_grant_ok:
  assumes "core_ok c" "sc_try_grant now count c = (r, c')"
  shows "core_ok c' \<and> c' = c\<lparr>sc_allocator := sc_allocator c'\<rparr>
     \<and> alloc_epoch (sc_allocator c') = alloc_epoch (sc_allocator c)"
proof -
  obtain a where a: "alloc_try_grant now count (sc_allocator c) = (r, a)" "c' = c\<lparr>sc_allocator := a\<rparr>"
    using assms(2) by (auto simp: sc_try_grant_def Let_def split: prod.splits)
  have "alloc_ok a \<and> alloc_epoch a = alloc_epoch (sc_allocator c)"
  proof (cases r)
    case (Inl e)
    with a assms(1) show ?thesis by (auto dest: try_grant_error_unchanged simp: core_ok_def)
  next
    case (Inr g)
    with a assms(1) try_grant_spec [of now count "sc_allocator c" g a] show ?thesis by (simp add: core_ok_def)
  qed
  with a assms(1) show ?thesis by (auto simp: core_ok_def alloc_leader_iff is_serving_def)
qed

lemma commit_extension_core:
  assumes "core_ok c" "commit_extension v e c = (r, c')"
  shows "core_ok c' \<and> c' = c\<lparr>sc_allocator := sc_allocator c'\<rparr>
     \<and> alloc_epoch (sc_allocator c') = alloc_epoch (sc_allocator c)
     \<and> alloc_cursor (sc_allocator c') = alloc_cursor (sc_allocator c)"
proof (cases "v \<le> PHYSICAL_MS_MAX")
  case True
  obtain a where a: "alloc_try_commit_window_extension (PhysicalMs v) e (sc_allocator c) = (r, a)"
      "c' = c\<lparr>sc_allocator := a\<rparr>"
    using assms(2) True by (auto simp: commit_extension_def Let_def split: prod.splits)
  with commit_extension_ok [OF _ _ a(1)] assms(1) True show ?thesis
    by (auto simp: core_ok_def pms_ok_def alloc_leader_iff is_serving_def)
next
  case False
  with assms show ?thesis by (simp add: commit_extension_def)
qed

lemma table_ok_seed: "table_ok (lt_seed rs now t) \<Longrightarrow> core_ok c \<Longrightarrow> t = sc_lease_table c \<Longrightarrow>
   core_ok (seed_leases rs now c)"
  by (simp add: core_ok_def seed_leases_def is_serving_def)

lemma seed_on_leadership_gained_cases:
  assumes "seed_on_leadership_gained fl ce e c = (r, c')" "core_ok c"
  shows "case r of Inl _ \<Rightarrow> c' = c
    | Inr _ \<Rightarrow> fl \<le> ce \<and> ce \<le> PHYSICAL_MS_MAX \<and> alloc_state (sc_allocator c') = Leader e ce fl 0
        \<and> core_ok c' \<and> sc_lease_table c' = sc_lease_table c \<and> sc_state c' = sc_state c
        \<and> sc_window_ahead c' = sc_window_ahead c"
proof (cases "fl \<le> PHYSICAL_MS_MAX \<and> ce \<le> PHYSICAL_MS_MAX")
  case True
  with become_leader_ok [of "sc_allocator c" "PhysicalMs ce" "PhysicalMs fl" e] assms show ?thesis
    by (auto simp: seed_on_leadership_gained_def alloc_become_leader_def less_physical_ms_def core_ok_def
        alloc_epoch_def seq_epoch_def seq_become_leader_def pms_ok_def alloc_is_leader_def is_serving_def
        split: if_splits)
next
  case False
  then have "fl > PHYSICAL_MS_MAX \<or> fl \<le> PHYSICAL_MS_MAX \<and> ce > PHYSICAL_MS_MAX" by auto
  with assms show ?thesis by (auto simp: seed_on_leadership_gained_def)
qed

end
