(* ===== verification/Raft_Driver.thy ===== *)
theory Raft_Driver
  imports Raft_State_Machine Serving
begin

text \<open>
  The openraft driver: the host over a Raft handle (\<open>host.rs\<close>, \<open>standalone.rs\<close>), the driver
  over a host (\<open>driver.rs\<close>), the activation gate (\<open>capabilities.rs\<close>), and the projection of
  Raft metrics to leadership events (\<open>tsoracle-openraft-toolkit/src/lifecycle\<close>). openraft
  itself is a parameter: \<open>raft_api\<close> holds the calls the code makes of it, over a state of
  its own.
\<close>

section \<open>openraft\<close>

text \<open>\<open>ForwardToLeader\<close> with the leader it names, the other API errors, and fatal errors.\<close>

datatype client_write_error = CweForwardToLeader "u64 option" | CweOther string | CweFatal string

datatype linearizable_read_error = LreForwardToLeader | LreOther string | LreFatal string

datatype server_role = RoleLearner | RoleFollower | RoleCandidate | RoleLeader | RoleShutdown

record raft_metrics =
  rm_id :: u64
  rm_current_term :: u64
  rm_state :: server_role
  rm_current_leader :: "u64 option"
  rm_nodes :: "(u64, openraft_peer) btree_map"

record 's raft_api =
  ra_client_write :: "high_water_command \<Rightarrow> 's \<Rightarrow> (client_write_error, high_water_applied) result \<times> 's"
  ra_ensure_linearizable :: "'s \<Rightarrow> (linearizable_read_error, unit) result \<times> 's"
  ra_metrics :: "'s \<Rightarrow> raft_metrics"
  ra_state_machine :: "'s \<Rightarrow> raft_sm"

section \<open>The standalone host\<close>

fun classify_read_error :: "linearizable_read_error \<Rightarrow> consensus_error" where
  "classify_read_error LreForwardToLeader = ConsNotLeader None"
| "classify_read_error (LreFatal s) = PermanentDriver s"
| "classify_read_error (LreOther s) = TransientDriver s"

fun classify_client_write_error :: "client_write_error \<Rightarrow> bool \<Rightarrow> consensus_error" where
  "classify_client_write_error (CweForwardToLeader leader_id) local_is_leader =
     (if leader_id = None \<and> local_is_leader then TransientDriver ''leader lease'' else ConsNotLeader None)"
| "classify_client_write_error (CweFatal s) local_is_leader = PermanentDriver s"
| "classify_client_write_error (CweOther s) local_is_leader = TransientDriver s"

definition is_local_leader :: "'s raft_api \<Rightarrow> 's \<Rightarrow> bool" where
  "is_local_leader api s \<longleftrightarrow> rm_state (ra_metrics api s) = RoleLeader"

definition host_active_write_version :: "'s raft_api \<Rightarrow> 's \<Rightarrow> u8" where
  "host_active_write_version api s = sm_active (ra_state_machine api s)"

text \<open>The metrics are read after the write failed.\<close>

definition submit :: "'s raft_api \<Rightarrow> high_water_command \<Rightarrow> (high_water_applied \<Rightarrow> (consensus_error, 'r) result)
    \<Rightarrow> 's \<Rightarrow> (consensus_error, 'r) result \<times> 's" where
  "submit api cmd interpret s =
     (case ra_client_write api cmd s of
        (Inr resp, s') \<Rightarrow> (interpret resp, s')
      | (Inl e, s') \<Rightarrow> (Inl (classify_client_write_error e (is_local_leader api s')), s'))"

definition read_barrier :: "'s raft_api \<Rightarrow> (raft_sm \<Rightarrow> 'r) \<Rightarrow> 's \<Rightarrow> (consensus_error, 'r) result \<times> 's" where
  "read_barrier api f s =
     (case ra_ensure_linearizable api s of
        (Inl e, s') \<Rightarrow> (Inl (classify_read_error e), s')
      | (Inr _, s') \<Rightarrow> (Inr (f (ra_state_machine api s')), s'))"

definition current_high_water :: "'s raft_api \<Rightarrow> 's \<Rightarrow> (consensus_error, u64) result \<times> 's" where
  "current_high_water api = read_barrier api (\<lambda>sm. co_current_value (sm_core sm))"

definition submit_advance :: "'s raft_api \<Rightarrow> u64 \<Rightarrow> 's \<Rightarrow> (consensus_error, u64) result \<times> 's" where
  "submit_advance api at_least = submit api (Advance (AdvancePayload at_least)) (\<lambda>resp. Inr (ha_value resp))"

definition unexpected_outcome :: consensus_error where
  "unexpected_outcome = PermanentDriver ''unexpected ApplyOutcome''"

fun dense_outcome :: "apply_outcome \<Rightarrow> (consensus_error, u64) result" where
  "dense_outcome (DenseAdvanced start) = Inr start"
| "dense_outcome (DenseCardinalityExceeded cap) = Inl (SeqKeyCardinalityExceeded cap)"
| "dense_outcome DenseOverflow = Inl ConsSeqOverflow"
| "dense_outcome _ = Inl unexpected_outcome"

definition submit_advance_dense :: "'s raft_api \<Rightarrow> seq_key \<Rightarrow> u32 \<Rightarrow> 's \<Rightarrow> (consensus_error, u64) result \<times> 's" where
  "submit_advance_dense api key count = submit api (AdvanceDense key count) (\<lambda>resp. dense_outcome (ha_outcome resp))"

fun dense_batch_outcome :: "apply_outcome \<Rightarrow> (consensus_error, u64 list) result" where
  "dense_batch_outcome (DenseBatchAdvanced starts) = Inr starts"
| "dense_batch_outcome (DenseBatchCardinalityExceeded cap) = Inl (SeqKeyCardinalityExceeded cap)"
| "dense_batch_outcome DenseBatchOverflow = Inl ConsSeqOverflow"
| "dense_batch_outcome _ = Inl unexpected_outcome"

definition submit_advance_dense_batch ::
  "'s raft_api \<Rightarrow> (seq_key \<times> u32) list \<Rightarrow> 's \<Rightarrow> (consensus_error, u64 list) result \<times> 's" where
  "submit_advance_dense_batch api entries =
     submit api (AdvanceDenseBatch (map (\<lambda>(k, n). \<lparr>da_key = k, da_count = n\<rparr>) entries))
       (\<lambda>resp. dense_batch_outcome (ha_outcome resp))"

definition current_dense_seq :: "'s raft_api \<Rightarrow> seq_key \<Rightarrow> 's \<Rightarrow> (consensus_error, u64) result \<times> 's" where
  "current_dense_seq api key = read_barrier api (dense_value (key_str key))"

definition current_leases :: "'s raft_api \<Rightarrow> 's \<Rightarrow> (consensus_error, lease_record list) result \<times> 's" where
  "current_leases api = read_barrier api sm_leases"

fun classify_set_leases_outcome :: "apply_outcome \<Rightarrow> (consensus_error, unit) result" where
  "classify_set_leases_outcome LeasesReplaced = Inr ()"
| "classify_set_leases_outcome (LeasesFenced expected_term entry_term) =
     Inl (Fenced (Epoch (ucast expected_term)) (Epoch (ucast entry_term)))"
| "classify_set_leases_outcome _ = Inl unexpected_outcome"

definition submit_set_leases ::
  "'s raft_api \<Rightarrow> u64 \<Rightarrow> lease_record list \<Rightarrow> 's \<Rightarrow> (consensus_error, unit) result \<times> 's" where
  "submit_set_leases api expected_term leases s =
     (case lease_set_from_records leases of
        Inl _ \<Rightarrow> (Inl (PermanentDriver ''lease set''), s)
      | Inr ls \<Rightarrow> submit api (SetLeases expected_term ls) (\<lambda>resp. classify_set_leases_outcome (ha_outcome resp)) s)"

section \<open>The driver\<close>

definition od_persist_high_water :: "'s raft_api \<Rightarrow> u64 \<Rightarrow> epoch \<Rightarrow> 's \<Rightarrow> (consensus_error, u64) result \<times> 's" where
  "od_persist_high_water api at_least e s =
     (case reject_out_of_range_advance at_least of
        Inl err \<Rightarrow> (Inl err, s)
      | Inr _ \<Rightarrow> submit_advance api at_least s)"

definition od_advance_dense :: "'s raft_api \<Rightarrow> seq_key \<Rightarrow> u32 \<Rightarrow> epoch \<Rightarrow> 's \<Rightarrow> (consensus_error, u64) result \<times> 's" where
  "od_advance_dense api key count e s =
     (if host_active_write_version api s < DENSE_WRITE_VERSION
      then (Inl (DenseNotActivated DENSE_WRITE_VERSION (host_active_write_version api s)), s)
      else submit_advance_dense api key count s)"

definition od_advance_dense_batch ::
  "'s raft_api \<Rightarrow> (seq_key \<times> u32) list \<Rightarrow> epoch \<Rightarrow> 's \<Rightarrow> (consensus_error, u64 list) result \<times> 's" where
  "od_advance_dense_batch api entries e s =
     (if host_active_write_version api s < BATCH_WRITE_VERSION
      then (Inl (DenseBatchNotActivated BATCH_WRITE_VERSION (host_active_write_version api s)), s)
      else submit_advance_dense_batch api entries s)"

text \<open>\<open>u64::try_from(epoch.0)\<close>\<close>

definition epoch_term :: "epoch \<Rightarrow> u64 option" where
  "epoch_term e = (if unat (epoch_val e) < 2 ^ 64 then Some (ucast (epoch_val e)) else None)"

definition od_persist_leases ::
  "'s raft_api \<Rightarrow> lease_record list \<Rightarrow> epoch \<Rightarrow> 's \<Rightarrow> (consensus_error, unit) result \<times> 's" where
  "od_persist_leases api live e s =
     (if host_active_write_version api s < LEASE_WRITE_VERSION
      then (Inl (LeasesNotActivated LEASE_WRITE_VERSION (host_active_write_version api s)), s)
      else case epoch_term e of
        None \<Rightarrow> (Inl (PermanentDriver ''lease epoch is not a raft term''), s)
      | Some expected_term \<Rightarrow> submit_set_leases api expected_term live s)"

definition openraft_driver :: "'s raft_api \<Rightarrow> 's consensus_driver" where
  "openraft_driver api =
     \<lparr>drv_load_high_water = current_high_water api,
      drv_persist_high_water = od_persist_high_water api,
      drv_load_dense_seq = current_dense_seq api,
      drv_advance_dense = od_advance_dense api,
      drv_advance_dense_batch = od_advance_dense_batch api,
      drv_load_leases = current_leases api,
      drv_persist_leases = od_persist_leases api\<rparr>"

section \<open>Leadership events\<close>

datatype leadership_state =
    LdLeader u64
  | LdFollower u64 "(u64 \<times> openraft_peer) option"
  | LdCandidate u64
  | LdLearner
  | LdShutdown

definition resolve_leader :: "raft_metrics \<Rightarrow> (u64 \<times> openraft_peer) option" where
  "resolve_leader m =
     (case rm_current_leader m of None \<Rightarrow> None | Some i \<Rightarrow> find (\<lambda>p. fst p = i) (rm_nodes m))"

definition project_state :: "raft_metrics \<Rightarrow> leadership_state" where
  "project_state m =
     (case rm_state m of
        RoleLeader \<Rightarrow> LdLeader (rm_current_term m)
      | RoleCandidate \<Rightarrow> LdCandidate (rm_current_term m)
      | RoleFollower \<Rightarrow> LdFollower (rm_current_term m) (resolve_leader m)
      | RoleLearner \<Rightarrow> LdLearner
      | RoleShutdown \<Rightarrow> LdShutdown)"

text \<open>The stream over the metrics values the watch delivers: a projection equal to the last one emitted is skipped.\<close>

fun leadership_stream :: "leadership_state option \<Rightarrow> raft_metrics list \<Rightarrow> leadership_state list" where
  "leadership_stream lst [] = []"
| "leadership_stream lst (m # ms) =
     (if lst = Some (project_state m) then leadership_stream lst ms
      else project_state m # leadership_stream (Some (project_state m)) ms)"

fun map_leader_state :: "leadership_state \<Rightarrow> leader_state" where
  "map_leader_state (LdLeader term) = LsLeader (Epoch (ucast term))"
| "map_leader_state (LdFollower term leader) =
     LsFollower (case leader of None \<Rightarrow> None | Some (i, node) \<Rightarrow> peer_service_endpoint node) (Some (Epoch (ucast term)))"
| "map_leader_state _ = LsUnknown"

definition od_leadership_events :: "raft_metrics list \<Rightarrow> leader_state list" where
  "od_leadership_events ms = map map_leader_state (leadership_stream None ms)"

section \<open>Format activation\<close>

record node_capabilities =
  nc_min_readable_version :: u8
  nc_max_readable_version :: u8
  nc_active_write_version :: u8

definition local_capabilities :: "u8 \<Rightarrow> node_capabilities" where
  "local_capabilities active = \<lparr>nc_min_readable_version = MIN_READABLE_VERSION,
     nc_max_readable_version = MAX_READABLE_VERSION, nc_active_write_version = active\<rparr>"

definition all_members_can_read :: "u8 \<Rightarrow> (u64 \<times> node_capabilities) list \<Rightarrow> u64 list option" where
  "all_members_can_read target caps =
     (if list_all (\<lambda>(_, member). nc_max_readable_version member \<ge> target) caps then Some (map fst caps) else None)"

datatype format_activation_error =
    FaNotLeader
  | FaTargetOutOfRange u8 u8 u8
  | FaMembersBelowTarget u8 "(u64 \<times> u8) list"
  | FaMemberUnreachable u64 string
  | FaMembershipChangedSinceGate u8
  | FaProposalFailed
  | FaUnreachable

definition target_in_local_readable_range :: "u8 \<Rightarrow> (format_activation_error, unit) result" where
  "target_in_local_readable_range target =
     (if in_readable_range target then Inr ()
      else Inl (FaTargetOutOfRange target MIN_READABLE_VERSION MAX_READABLE_VERSION))"

text \<open>\<open>query\<close> is what the capability source answers for a member.\<close>

fun gather_with ::
  "u64 \<Rightarrow> node_capabilities \<Rightarrow> (u64 \<times> 'n) list \<Rightarrow> (u64 \<Rightarrow> 'n \<Rightarrow> (string, node_capabilities) result)
     \<Rightarrow> (format_activation_error, (u64 \<times> node_capabilities) list) result" where
  "gather_with local_node caps [] query = Inr []"
| "gather_with local_node caps ((i, member) # rest) query =
     (case (if i = local_node then Inr caps else query i member) of
        Inl detail \<Rightarrow> Inl (FaMemberUnreachable i detail)
      | Inr c \<Rightarrow> and_then (gather_with local_node caps rest query) (\<lambda>cs. Inr ((i, c) # cs)))"

definition report_with ::
  "u64 \<Rightarrow> node_capabilities \<Rightarrow> (u64 \<times> 'n) list \<Rightarrow> (u64 \<Rightarrow> 'n \<Rightarrow> (string, node_capabilities) result)
     \<Rightarrow> (u64 \<times> (string, node_capabilities) result) list" where
  "report_with local_node caps members query =
     map (\<lambda>(i, member). (i, if i = local_node then Inr caps else query i member)) members"

definition run_activation_gate ::
  "'s raft_api \<Rightarrow> u8 \<Rightarrow> (u64 \<Rightarrow> openraft_peer \<Rightarrow> (string, node_capabilities) result) \<Rightarrow> 's
     \<Rightarrow> (format_activation_error, u64 list) result" where
  "run_activation_gate api target query s =
     (if \<not> is_local_leader api s then Inl FaNotLeader
      else case target_in_local_readable_range target of
        Inl e \<Rightarrow> Inl e
      | Inr _ \<Rightarrow>
          (case gather_with (rm_id (ra_metrics api s)) (local_capabilities (host_active_write_version api s))
              (rm_nodes (ra_metrics api s)) query of
             Inl e \<Rightarrow> Inl e
           | Inr gathered \<Rightarrow>
               (case all_members_can_read target gathered of
                  Some gated \<Rightarrow> Inr gated
                | None \<Rightarrow> Inl (FaMembersBelowTarget target
                    (map (\<lambda>(i, c). (i, nc_max_readable_version c))
                      (filter (\<lambda>(i, c). nc_max_readable_version c < target) gathered))))))"

text \<open>A dense or lease outcome for this entry is a panic in the code.\<close>

fun classify_activation_outcome :: "apply_outcome \<Rightarrow> u8 \<Rightarrow> (format_activation_error, unit) result" where
  "classify_activation_outcome (FormatActivated applied) target =
     (if applied = target then Inr () else Inl (FaMembershipChangedSinceGate target))"
| "classify_activation_outcome (FormatActivationTargetOutOfRange applied) target =
     Inl (FaTargetOutOfRange applied MIN_READABLE_VERSION MAX_READABLE_VERSION)"
| "classify_activation_outcome (FormatActivationNoop _) target = Inl (FaMembershipChangedSinceGate target)"
| "classify_activation_outcome Advanced target = Inl (FaMembershipChangedSinceGate target)"
| "classify_activation_outcome _ target = Inl FaUnreachable"

definition initiate_format_activation ::
  "'s raft_api \<Rightarrow> u8 \<Rightarrow> (u64 \<Rightarrow> openraft_peer \<Rightarrow> (string, node_capabilities) result) \<Rightarrow> 's
     \<Rightarrow> (format_activation_error, unit) result \<times> 's" where
  "initiate_format_activation api target query s =
     (case run_activation_gate api target query s of
        Inl e \<Rightarrow> (Inl e, s)
      | Inr gated \<Rightarrow>
          (case ra_client_write api (SetFormatVersion target gated) s of
             (Inl _, s') \<Rightarrow> (Inl FaProposalFailed, s')
           | (Inr resp, s') \<Rightarrow> (classify_activation_outcome (ha_outcome resp) target, s')))"

text \<open>Admission of a learner (\<open>lifecycle/membership.rs\<close>).\<close>

datatype joiner_gate_error = IncompatibleCandidate u8 u8

definition learner_meets_active_write_version :: "u8 \<Rightarrow> u8 \<Rightarrow> (joiner_gate_error, unit) result" where
  "learner_meets_active_write_version candidate_max_readable_version active_write_version =
     (if candidate_max_readable_version < active_write_version
      then Inl (IncompatibleCandidate candidate_max_readable_version active_write_version) else Inr ())"

end
