(* ===== verification/Committed_Log.thy ===== *)
theory Committed_Log
  imports Raft_Replication Raft_Driver
begin

text \<open>
  openraft as the code relies on it: one committed log with Raft's guarantees about terms,
  and a node's view of it. The theory gives the \<open>raft_api\<close> over such a log and shows what
  the driver's operations do to it: they only extend it, an acknowledged advance reports the
  value of the whole log and is its last entry, and a read reports the value of everything
  committed before it.
\<close>

section \<open>openraft as a committed log\<close>

text \<open>
  What the code relies on of openraft: an acknowledged write is committed, the local
  replica has applied everything up to it, and the answer is what the apply of that entry
  returned; after a read barrier the local replica has applied everything committed before.
  Terms along the log never fall, a node writes only in terms it leads (\<open>led\<close> names the one
  leader a term has), and once a leader has written or read in a term no entry of a lower
  term is committed any more. A refused write may still be committed later: that is an entry
  of somebody else's making. The replies of openraft to the coming calls are part of the
  state.
\<close>

datatype raft_reply =
    Commit "raft_entry list" u64
  | Barrier "raft_entry list" u64
  | RefuseWrite client_write_error
  | RefuseRead linearizable_read_error

fun reply_term :: "raft_reply \<Rightarrow> u64" where
  "reply_term (Commit ahead t) = t"
| "reply_term (Barrier ahead t) = t"
| "reply_term _ = - 1"

record raft_node =
  rn_replies :: "raft_reply list"
  rn_log :: "raft_entry list"
  rn_term :: u64
  rn_applied :: nat
  rn_sm :: raft_sm
  rn_metrics :: raft_metrics

definition entry_term :: "raft_entry \<Rightarrow> u64" where
  "entry_term e = lid_term (en_log_id e)"

definition entry_in_range :: "raft_entry \<Rightarrow> bool" where
  "entry_in_range e \<longleftrightarrow> list_all (\<lambda>a. a \<le> PHYSICAL_MS_MAX) (entry_advance e)"

text \<open>Entries committed after term \<open>lo\<close> was reached and up to term \<open>hi\<close>.\<close>

definition lawful_entries :: "u64 \<Rightarrow> raft_entry list \<Rightarrow> u64 \<Rightarrow> bool" where
  "lawful_entries lo es hi \<longleftrightarrow> lo \<le> hi \<and> sorted (map entry_term es)
     \<and> list_all (\<lambda>e. lo \<le> entry_term e \<and> entry_term e \<le> hi \<and> entry_in_range e) es"

definition catch_up :: "raft_entry list \<Rightarrow> u64 \<Rightarrow> raft_node \<Rightarrow> high_water_applied list \<times> raft_node" where
  "catch_up new t s =
     (let log = rn_log s @ new;
          (r, as, sm) = sm_apply (map Inr (drop (rn_applied s) log)) (rn_sm s)
      in (as, s\<lparr>rn_log := log, rn_term := t, rn_applied := length log, rn_sm := sm\<rparr>))"

definition log_client_write :: "(u64 \<Rightarrow> u64) \<Rightarrow> u64 \<Rightarrow> high_water_command \<Rightarrow> raft_node
    \<Rightarrow> (client_write_error, high_water_applied) result \<times> raft_node" where
  "log_client_write led me cmd s =
     (let s0 = s\<lparr>rn_replies := tl (rn_replies s)\<rparr>
      in case rn_replies s of
        Commit ahead t # _ \<Rightarrow>
          (let entry = \<lparr>en_log_id = LogId t me (of_nat (length (rn_log s) + length ahead)), en_payload = Normal cmd\<rparr>
           in if led t = me \<and> lawful_entries (rn_term s) (ahead @ [entry]) t
              then (let (as, s') = catch_up (ahead @ [entry]) t s0 in (Inr (last as), s'))
              else (Inl (CweOther ''refused''), s0))
      | RefuseWrite e # _ \<Rightarrow> (Inl e, s0)
      | _ \<Rightarrow> (Inl (CweOther ''refused''), s0))"

definition log_ensure_linearizable :: "(u64 \<Rightarrow> u64) \<Rightarrow> u64 \<Rightarrow> raft_node
    \<Rightarrow> (linearizable_read_error, unit) result \<times> raft_node" where
  "log_ensure_linearizable led me s =
     (let s0 = s\<lparr>rn_replies := tl (rn_replies s)\<rparr>
      in case rn_replies s of
        Barrier ahead t # _ \<Rightarrow>
          (if led t = me \<and> lawful_entries (rn_term s) ahead t
           then (Inr (), snd (catch_up ahead t s0))
           else (Inl (LreOther ''refused''), s0))
      | RefuseRead e # _ \<Rightarrow> (Inl e, s0)
      | _ \<Rightarrow> (Inl (LreOther ''refused''), s0))"

definition log_raft :: "(u64 \<Rightarrow> u64) \<Rightarrow> u64 \<Rightarrow> raft_node raft_api" where
  "log_raft led me =
     \<lparr>ra_client_write = log_client_write led me, ra_ensure_linearizable = log_ensure_linearizable led me,
      ra_metrics = rn_metrics, ra_state_machine = rn_sm\<rparr>"

section \<open>The register of a log\<close>

definition log_value :: "raft_entry list \<Rightarrow> u64" where
  "log_value es = fold max (concat (map entry_advance es)) 0"

definition value_upto :: "u64 \<Rightarrow> raft_entry list \<Rightarrow> u64" where
  "value_upto t es = log_value (filter (\<lambda>e. entry_term e \<le> t) es)"

definition value_below :: "u64 \<Rightarrow> raft_entry list \<Rightarrow> u64" where
  "value_below t es = log_value (filter (\<lambda>e. entry_term e < t) es)"


lemma log_value_eq_Max: "log_value es = Max (insert 0 (set (concat (map entry_advance es))))"
  by (simp only: log_value_def Max.set_eq_fold [symmetric] list.set)

lemma log_value_mono: "set es \<subseteq> set fs \<Longrightarrow> log_value es \<le> log_value fs"
  unfolding log_value_eq_Max by (intro Max_mono) auto

lemma log_value_in_range: "list_all entry_in_range es \<Longrightarrow> log_value es \<le> PHYSICAL_MS_MAX"
  unfolding log_value_eq_Max by (auto simp: entry_in_range_def list_all_iff)


lemma value_below_le_upto: "t < u \<Longrightarrow> value_upto t es \<le> value_below u es"
  unfolding value_upto_def value_below_def by (intro log_value_mono) auto

lemma value_below_le: "value_below t es \<le> log_value es"
  unfolding value_below_def by (intro log_value_mono) auto

lemma value_upto_le: "value_upto t es \<le> log_value es"
  unfolding value_upto_def by (intro log_value_mono) auto

lemma value_upto_append: "value_upto t es \<le> value_upto t (es @ fs)"
  unfolding value_upto_def by (intro log_value_mono) auto

lemma value_below_append:
  "list_all (\<lambda>e. t \<le> entry_term e) fs \<Longrightarrow> value_below t (es @ fs) = value_below t es"
  by (simp add: value_below_def list_all_iff filter_empty_conv not_less)

lemma value_upto_all: "list_all (\<lambda>e. entry_term e \<le> t) es \<Longrightarrow> value_upto t es = log_value es"
  by (simp add: value_upto_def list_all_iff filter_True)

section \<open>What the driver does to the log\<close>

definition log_ok :: "raft_entry list \<Rightarrow> u64 \<Rightarrow> bool" where
  "log_ok es t \<longleftrightarrow> sorted (map entry_term es) \<and> list_all (\<lambda>e. entry_term e \<le> t \<and> entry_in_range e) es"

definition replica_ok :: "raft_entry list \<Rightarrow> nat \<Rightarrow> raft_sm \<Rightarrow> bool" where
  "replica_ok es n sm \<longleftrightarrow> n \<le> length es \<and> replicated (sm_core sm) = replicated (replay (take n es) core_new)"

definition rn_ok :: "raft_node \<Rightarrow> bool" where
  "rn_ok s \<longleftrightarrow> log_ok (rn_log s) (rn_term s) \<and> replica_ok (rn_log s) (rn_applied s) (rn_sm s)"

definition extends :: "raft_node \<Rightarrow> raft_node \<Rightarrow> bool" where
  "extends s s' \<longleftrightarrow> rn_ok s' \<and> rn_term s \<le> rn_term s' \<and> set (rn_replies s') \<subseteq> set (rn_replies s)
     \<and> (\<exists>new. rn_log s' = rn_log s @ new \<and> list_all (\<lambda>e. rn_term s \<le> entry_term e) new)"

lemma extends_refl: "rn_ok s \<Longrightarrow> extends s s"
  by (simp add: extends_def)

lemma extends_trans: "extends a b \<Longrightarrow> extends b c \<Longrightarrow> extends a c"
  by (fastforce simp: extends_def list_all_iff intro: order_trans)

lemma extends_ok: "extends s s' \<Longrightarrow> rn_ok s'"
  by (simp add: extends_def)

lemma replica_value: "replica_ok es (length es) sm \<Longrightarrow> co_current_value (sm_core sm) = log_value es"
proof -
  assume "replica_ok es (length es) sm"
  then have "co_current_value (replicated (sm_core sm)) = co_current_value (replicated (replay es core_new))"
    by (simp add: replica_ok_def)
  then show ?thesis by (simp add: replicated_def log_value_def replay_current_value core_new_def)
qed

lemma sm_apply_all:
  assumes "sm_apply (map Inr es) sm = (r, as, sm')"
  shows "r = Inr () \<and> sm_core sm' = replay es (sm_core sm) \<and> length as = length es
     \<and> (es \<noteq> [] \<longrightarrow> ha_value (last as) = co_current_value (sm_core sm'))"
  using assms
proof (induction es arbitrary: sm as)
  case (Cons e es)
  obtain a sm1 where 1: "apply_entry e sm = (a, sm1)" by fastforce
  obtain bs where bs: "sm_apply (map Inr es) sm1 = (r, bs, sm')" "as = a # bs"
    using Cons.prems 1 by (auto split: prod.splits)
  have v: "ha_value a = co_current_value (sm_core sm1)" using 1 by (auto simp: apply_entry_def Let_def split: prod.splits)
  have c: "snd (core_step e (sm_core sm)) = sm_core sm1" using apply_entry_core(1) [of e sm] 1 by simp
  note IH = Cons.IH [OF bs(1)]
  have "ha_value (last as) = co_current_value (sm_core sm')"
  proof (cases "es = []")
    case True
    with IH bs(2) v show ?thesis by simp
  next
    case False
    with IH have "bs \<noteq> []" by auto
    with IH False bs(2) show ?thesis by simp
  qed
  with IH bs(2) c show ?case by simp
qed simp

lemma replica_apply:
  assumes "replica_ok es n sm" "sm_apply (map Inr (drop n (es @ new))) sm = (r, as, sm')"
  shows "replica_ok (es @ new) (length (es @ new)) sm'"
proof -
  from assms(1) have n: "n \<le> length es" and c: "replicated (sm_core sm) = replicated (replay (take n es) core_new)"
    by (simp_all add: replica_ok_def)
  have "sm_core sm' = replay (drop n (es @ new)) (sm_core sm)" using sm_apply_all [OF assms(2)] by simp
  then have "replicated (sm_core sm') = replay (drop n (es @ new)) (replay (take n es) (replicated core_new))"
    by (simp add: replay_replicated c del: drop_append)
  also have "\<dots> = replay (take n (es @ new) @ drop n (es @ new)) (replicated core_new)"
    using n by (simp only: replay_simps(3)) simp
  also have "\<dots> = replicated (replay (es @ new) core_new)"
    by (simp only: append_take_drop_id replay_replicated)
  finally show ?thesis by (simp add: replica_ok_def)
qed

lemma lawful_log_ok:
  assumes "log_ok es lo" "lawful_entries lo new hi"
  shows "log_ok (es @ new) hi"
  using assms by (fastforce simp: log_ok_def lawful_entries_def list_all_iff sorted_append intro: order_trans)

lemma catch_up_extends:
  assumes "rn_ok s" "lawful_entries (rn_term s) new t" "catch_up new t s = (as, s')"
  shows "extends s s' \<and> rn_term s' = t \<and> rn_log s' = rn_log s @ new \<and> rn_replies s' = rn_replies s
     \<and> co_current_value (sm_core (rn_sm s')) = log_value (rn_log s')
     \<and> (new \<noteq> [] \<longrightarrow> ha_value (last as) = log_value (rn_log s'))"
proof -
  obtain r sm where a: "sm_apply (map Inr (drop (rn_applied s) (rn_log s @ new))) (rn_sm s) = (r, as, sm)"
      "s' = s\<lparr>rn_log := rn_log s @ new, rn_term := t, rn_applied := length (rn_log s @ new), rn_sm := sm\<rparr>"
    using assms(3) by (auto simp: catch_up_def Let_def split: prod.splits)
  have rep: "replica_ok (rn_log s @ new) (length (rn_log s @ new)) sm"
    using assms(1) a(1) by (intro replica_apply) (simp_all add: rn_ok_def)
  moreover have "log_ok (rn_log s @ new) t"
    using assms(1,2) by (intro lawful_log_ok [of _ "rn_term s"]) (simp_all add: rn_ok_def)
  moreover have "ha_value (last as) = co_current_value (sm_core sm)" if "new \<noteq> []"
  proof -
    from assms(1) have "rn_applied s \<le> length (rn_log s)" by (simp add: rn_ok_def replica_ok_def)
    with that have "drop (rn_applied s) (rn_log s @ new) \<noteq> []" by simp
    with sm_apply_all [OF a(1)] show ?thesis by blast
  qed
  ultimately show ?thesis
    using assms(2) a(2) replica_value [OF rep] by (auto simp: extends_def rn_ok_def lawful_entries_def list_all_iff)
qed

lemma rn_ok_replies [simp]: "rn_ok (s\<lparr>rn_replies := x\<rparr>) = rn_ok s"
  by (simp add: rn_ok_def)

lemma extends_replies: "rn_ok s \<Longrightarrow> extends s (s\<lparr>rn_replies := tl (rn_replies s)\<rparr>)"
  by (cases "rn_replies s") (auto simp: extends_def)

lemma client_write_extends:
  assumes "rn_ok s" "log_client_write led me cmd s = (r, s')"
  shows "extends s s' \<and> (\<forall>a. r = Inr a \<longrightarrow> ha_value a = log_value (rn_log s') \<and> rn_log s' \<noteq> []
      \<and> entry_term (last (rn_log s')) = rn_term s' \<and> led (rn_term s') = me)"
proof (cases "\<exists>ahead t rs. rn_replies s = Commit ahead t # rs \<and> led t = me
    \<and> lawful_entries (rn_term s) (ahead @ [\<lparr>en_log_id = LogId t me (of_nat (length (rn_log s) + length ahead)), en_payload = Normal cmd\<rparr>]) t")
  case True
  then obtain ahead t rs where t: "rn_replies s = Commit ahead t # rs" "led t = me"
      "lawful_entries (rn_term s) (ahead @ [\<lparr>en_log_id = LogId t me (of_nat (length (rn_log s) + length ahead)), en_payload = Normal cmd\<rparr>]) t"
    by blast
  let ?e = "\<lparr>en_log_id = LogId t me (of_nat (length (rn_log s) + length ahead)), en_payload = Normal cmd\<rparr>"
  let ?s0 = "s\<lparr>rn_replies := tl (rn_replies s)\<rparr>"
  obtain as where c: "catch_up (ahead @ [?e]) t ?s0 = (as, s')" "r = Inr (last as)"
    using assms(2) t by (auto simp: log_client_write_def Let_def split: prod.splits)
  have "extends ?s0 s' \<and> rn_term s' = t \<and> rn_log s' = rn_log s @ ahead @ [?e] \<and> ha_value (last as) = log_value (rn_log s')"
    using catch_up_extends [OF _ _ c(1)] assms(1) t(3) by simp
  with extends_trans [OF extends_replies [OF assms(1)]] c(2) t(2) show ?thesis by (auto simp: entry_term_def)
next
  case False
  then have "s' = s\<lparr>rn_replies := tl (rn_replies s)\<rparr> \<and> (\<exists>e. r = Inl e)"
    using assms(2) by (auto simp: log_client_write_def Let_def split: list.splits raft_reply.splits if_splits)
  with extends_replies [OF assms(1)] show ?thesis by auto
qed

lemma ensure_linearizable_extends:
  assumes "rn_ok s" "log_ensure_linearizable led me s = (r, s')"
  shows "extends s s' \<and> (r = Inr () \<longrightarrow> co_current_value (sm_core (rn_sm s')) = log_value (rn_log s')
      \<and> rn_term s' \<in> reply_term ` set (rn_replies s))"
proof (cases "\<exists>ahead t rs. rn_replies s = Barrier ahead t # rs \<and> led t = me \<and> lawful_entries (rn_term s) ahead t")
  case True
  then obtain ahead t rs where t: "rn_replies s = Barrier ahead t # rs" "led t = me" "lawful_entries (rn_term s) ahead t"
    by blast
  let ?s0 = "s\<lparr>rn_replies := tl (rn_replies s)\<rparr>"
  obtain as where c: "catch_up ahead t ?s0 = (as, s')" "r = Inr ()"
    using assms(2) t by (cases "catch_up ahead t ?s0") (auto simp: log_ensure_linearizable_def Let_def)
  from catch_up_extends [OF _ _ c(1)] assms(1) t(3)
  have "extends ?s0 s' \<and> rn_term s' = t \<and> co_current_value (sm_core (rn_sm s')) = log_value (rn_log s')" by simp
  with extends_trans [OF extends_replies [OF assms(1)]] t(1) show ?thesis by auto
next
  case False
  then have "s' = s\<lparr>rn_replies := tl (rn_replies s)\<rparr> \<and> (\<exists>e. r = Inl e)"
    using assms(2) by (auto simp: log_ensure_linearizable_def Let_def split: list.splits raft_reply.splits if_splits)
  with extends_replies [OF assms(1)] show ?thesis by auto
qed

section \<open>The operations of the driver\<close>

abbreviation log_driver :: "(u64 \<Rightarrow> u64) \<Rightarrow> u64 \<Rightarrow> raft_node consensus_driver" where
  "log_driver led me \<equiv> openraft_driver (log_raft led me)"

lemma submit_extends:
  assumes "rn_ok s" "submit (log_raft led me) cmd f s = (r, s')"
  shows "extends s s' \<and> (\<forall>x. r = Inr x \<longrightarrow> (\<exists>a. f a = Inr x \<and> ha_value a = log_value (rn_log s') \<and> rn_log s' \<noteq> []
      \<and> entry_term (last (rn_log s')) = rn_term s'))"
proof -
  obtain q where w: "log_client_write led me cmd s = (q, s')"
      and r: "\<And>x. r = Inr x \<Longrightarrow> \<exists>a. q = Inr a \<and> f a = Inr x"
    using assms(2) by (auto simp: submit_def log_raft_def split: prod.splits sum.splits)
  note x = client_write_extends [OF assms(1) w]
  show ?thesis
  proof (intro conjI allI impI)
    fix y
    assume "r = Inr y"
    then obtain a where "q = Inr a" "f a = Inr y" using r by auto
    with x show "\<exists>a. f a = Inr y \<and> ha_value a = log_value (rn_log s') \<and> rn_log s' \<noteq> []
        \<and> entry_term (last (rn_log s')) = rn_term s'" by auto
  qed (use x in simp)
qed

lemma submit_snd: "rn_ok s \<Longrightarrow> extends s (snd (submit (log_raft led me) cmd f s))"
  using submit_extends [of s led me cmd f] by (metis prod.collapse)

lemma read_barrier_extends:
  assumes "rn_ok s" "read_barrier (log_raft led me) f s = (r, s')"
  shows "extends s s' \<and> (\<forall>x. r = Inr x \<longrightarrow> x = f (rn_sm s')
      \<and> co_current_value (sm_core (rn_sm s')) = log_value (rn_log s') \<and> rn_term s' \<in> reply_term ` set (rn_replies s))"
proof -
  obtain q where w: "log_ensure_linearizable led me s = (q, s')"
      and r: "\<And>x. r = Inr x \<Longrightarrow> q = Inr () \<and> x = f (rn_sm s')"
    using assms(2) by (auto simp: read_barrier_def log_raft_def split: prod.splits sum.splits)
  from ensure_linearizable_extends [OF assms(1) w] r show ?thesis by auto
qed

lemma driver_persist:
  assumes "rn_ok s" "drv_persist_high_water (log_driver led me) a e s = (r, s')"
  shows "extends s s' \<and> (\<forall>v. r = Inr v \<longrightarrow> v = log_value (rn_log s') \<and> rn_log s' \<noteq> []
      \<and> entry_term (last (rn_log s')) = rn_term s')"
proof (cases "reject_out_of_range_advance a")
  case (Inl err)
  with assms extends_refl show ?thesis by (auto simp: openraft_driver_def od_persist_high_water_def)
next
  case (Inr _)
  with assms(2) have "submit (log_raft led me) (Advance (AdvancePayload a)) (\<lambda>resp. Inr (ha_value resp)) s = (r, s')"
    by (simp add: openraft_driver_def od_persist_high_water_def submit_advance_def)
  from submit_extends [OF assms(1) this] show ?thesis by auto
qed

lemma driver_load:
  assumes "rn_ok s" "drv_load_high_water (log_driver led me) s = (r, s')"
  shows "extends s s' \<and> (\<forall>v. r = Inr v \<longrightarrow> v = log_value (rn_log s') \<and> rn_term s' \<in> reply_term ` set (rn_replies s))"
  using read_barrier_extends [OF assms(1), of led me] assms(2)
  by (auto simp: openraft_driver_def current_high_water_def)

lemma driver_load_leases:
  "rn_ok s \<Longrightarrow> drv_load_leases (log_driver led me) s = (r, s') \<Longrightarrow> extends s s'"
  using read_barrier_extends [of s led me] by (auto simp: openraft_driver_def current_leases_def)

lemma driver_advance_dense:
  "rn_ok s \<Longrightarrow> extends s (snd (drv_advance_dense (log_driver led me) k n e s))"
  by (auto simp: extends_refl submit_snd openraft_driver_def od_advance_dense_def submit_advance_dense_def)

lemma driver_advance_dense_batch:
  "rn_ok s \<Longrightarrow> extends s (snd (drv_advance_dense_batch (log_driver led me) es e s))"
  by (auto simp: extends_refl submit_snd openraft_driver_def od_advance_dense_batch_def submit_advance_dense_batch_def)

lemma driver_persist_leases:
  "rn_ok s \<Longrightarrow> extends s (snd (drv_persist_leases (log_driver led me) rs e s))"
  by (auto simp: extends_refl submit_snd openraft_driver_def od_persist_leases_def submit_set_leases_def split: option.splits sum.splits)

end
