(* ===== verification/Service.thy ===== *)
theory Service
  imports Serving
begin

text \<open>
  The request handlers of \<open>tsoracle-server/src/service.rs\<close>: timestamps with the
  extend-and-retry loop, dense sequences single and batched, the safe point and the safe
  frontier. A handler is a function of the request, the clock reading and the server
  (serving core and driver state). The critical sections between the awaits of the
  window extension are definitions of their own, so that they can also be interleaved.
\<close>

section \<open>Window extension\<close>

text \<open>The reaction of the request paths to a failed driver write.\<close>

definition persist_error_status :: "consensus_error \<Rightarrow> serving_core \<Rightarrow> status \<times> serving_core" where
  "persist_error_status error c =
     (case classify error of
        SteppedDown fenced_by \<Rightarrow> (let c' = sc_step_down None fenced_by c in (not_leader c', c'))
      | Transient _ \<Rightarrow> (bare Unavailable, c)
      | Permanent _ \<Rightarrow> (bare Internal, c)
      | DispOutOfRange _ \<Rightarrow> (bare Internal, c))"

text \<open>
  Up to the driver call: nothing to do when the retry would succeed already, otherwise
  the bound to persist and the epoch it is for.
\<close>

definition extend_prepare ::
  "server_config \<Rightarrow> u64 \<Rightarrow> u32 \<Rightarrow> serving_core \<Rightarrow> (status, (u64 \<times> epoch) option) result" where
  "extend_prepare cfg now_ms count c =
     (if slot_would_grant now_ms count c then Inr None
      else case prepare_extension now_ms (as_millis (cf_window_ahead cfg)) c of
        Inr (requested, epoch) \<Rightarrow> Inr (Some (requested, epoch))
      | Inl CoreNotLeader \<Rightarrow> Inl (not_leader c)
      | Inl other \<Rightarrow> Inl (core_status other))"

text \<open>From the driver's answer on.\<close>

definition extend_complete ::
  "(consensus_error, u64) result \<Rightarrow> epoch \<Rightarrow> serving_core \<Rightarrow> (status, unit) result \<times> serving_core" where
  "extend_complete outcome epoch c =
     (case outcome of
        Inl error \<Rightarrow> (let (st, c') = persist_error_status error c in (Inl st, c'))
      | Inr actual \<Rightarrow>
          (case commit_extension actual epoch c of
             (Inl e, c') \<Rightarrow> (Inl (core_status e), c')
           | (Inr _, c') \<Rightarrow> (Inr (), c')))"

definition extend_window ::
  "server_config \<Rightarrow> 's consensus_driver \<Rightarrow> u64 \<Rightarrow> u32 \<Rightarrow> 's server \<Rightarrow> (status, unit) result \<times> 's server" where
  "extend_window cfg drv now_ms count sv =
     (case extend_prepare cfg now_ms count (sv_core sv) of
        Inl st \<Rightarrow> (Inl st, sv)
      | Inr None \<Rightarrow> (Inr (), sv)
      | Inr (Some (requested, epoch)) \<Rightarrow>
          (let (outcome, s') = drv_persist_high_water drv requested epoch (sv_driver sv);
               (r, c') = extend_complete outcome epoch (sv_core sv)
           in (r, \<lparr>sv_core = c', sv_driver = s'\<rparr>)))"

section \<open>Timestamps\<close>

record get_ts_response =
  gr_physical_ms :: u64
  gr_logical_start :: u32
  gr_count :: u32
  gr_epoch :: "u64 \<times> u64"

definition ts_response :: "window_grant \<Rightarrow> get_ts_response" where
  "ts_response g = \<lparr>gr_physical_ms = wg_physical_ms g, gr_logical_start = wg_logical_start g,
     gr_count = wg_count g, gr_epoch = to_wire (wg_epoch g)\<rparr>"

text \<open>One iteration of the loop; \<open>None\<close> asks for the extension and a retry.\<close>

definition get_ts_attempt ::
  "u64 \<Rightarrow> u32 \<Rightarrow> nat \<Rightarrow> serving_core \<Rightarrow> (status, window_grant) result option \<times> serving_core" where
  "get_ts_attempt now_ms count attempt c =
     (case sc_try_grant now_ms count c of
        (Inr g, c') \<Rightarrow> (Some (Inr g), c')
      | (Inl CoreNotLeader, c') \<Rightarrow> (Some (Inl (not_leader c')), c')
      | (Inl WindowExhausted, c') \<Rightarrow>
          (if attempt = 0 then (None, c') else (Some (Inl (core_status WindowExhausted)), c'))
      | (Inl other, c') \<Rightarrow> (Some (Inl (core_status other)), c'))"

definition get_ts_grant ::
  "server_config \<Rightarrow> 's consensus_driver \<Rightarrow> u64 \<Rightarrow> u32 \<Rightarrow> 's server \<Rightarrow> (status, window_grant) result \<times> 's server" where
  "get_ts_grant cfg drv now_ms count sv =
     (if count = 0 then (Inl (bare InvalidArgument), sv)
      else if \<not> is_serving (sv_core sv) then (Inl (not_leader (sv_core sv)), sv)
      else case get_ts_attempt now_ms count 0 (sv_core sv) of
        (Some r, c) \<Rightarrow> (r, sv\<lparr>sv_core := c\<rparr>)
      | (None, c) \<Rightarrow>
          (case extend_window cfg drv now_ms count (sv\<lparr>sv_core := c\<rparr>) of
             (Inl st, sv') \<Rightarrow> (Inl st, sv')
           | (Inr _, sv') \<Rightarrow>
               (case get_ts_attempt now_ms count 1 (sv_core sv') of
                  (Some r, c') \<Rightarrow> (r, sv'\<lparr>sv_core := c'\<rparr>)
                | (None, c') \<Rightarrow> (Inl (core_status WindowExhausted), sv'\<lparr>sv_core := c'\<rparr>))))"

definition get_ts ::
  "server_config \<Rightarrow> 's consensus_driver \<Rightarrow> u64 \<Rightarrow> u32 \<Rightarrow> 's server \<Rightarrow> (status, get_ts_response) result \<times> 's server" where
  "get_ts cfg drv now_ms count sv =
     (case get_ts_grant cfg drv now_ms count sv of
        (Inl st, sv') \<Rightarrow> (Inl st, sv')
      | (Inr g, sv') \<Rightarrow> (Inr (ts_response g), sv'))"

definition epoch_or_zero :: "serving_core \<Rightarrow> u64 \<times> u64" where
  "epoch_or_zero c = to_wire (case current_epoch c of Some e \<Rightarrow> e | None \<Rightarrow> epoch_ZERO)"

definition get_current_max_safe :: "serving_core \<Rightarrow> u64 \<times> (u64 \<times> u64)" where
  "get_current_max_safe c = (current_max_safe_physical_ms c, epoch_or_zero c)"

definition get_safe_frontier :: "u64 \<Rightarrow> serving_core \<Rightarrow> u64 \<times> (u64 \<times> u64)" where
  "get_safe_frontier now_ms c = (safe_frontier_physical_ms now_ms c, epoch_or_zero c)"

section \<open>Dense sequences\<close>

record seq_grant_entry =
  sge_key :: str
  sge_start :: u64
  sge_count :: u32

definition seq_entry :: "seq_grant \<Rightarrow> seq_grant_entry" where
  "seq_entry g = \<lparr>sge_key = key_str (sg_key g), sge_start = sg_start g, sge_count = sg_count g\<rparr>"

fun seq_validation_status :: "core_error \<Rightarrow> serving_core \<Rightarrow> status" where
  "seq_validation_status CoreNotLeader c = not_leader c"
| "seq_validation_status SeqKeyEmpty c = bare InvalidArgument"
| "seq_validation_status (SeqKeyTooLong _ _) c = bare InvalidArgument"
| "seq_validation_status SeqCountZero c = bare InvalidArgument"
| "seq_validation_status (SeqCountTooLarge _ _) c = bare InvalidArgument"
| "seq_validation_status _ c = bare Internal"

fun get_seq_error :: "consensus_error \<Rightarrow> serving_core \<Rightarrow> status" where
  "get_seq_error (SeqKeyCardinalityExceeded _) c = bare ResourceExhausted"
| "get_seq_error ConsSeqOverflow c = bare FailedPrecondition"
| "get_seq_error (ConsNotLeader _) c = not_leader c"
| "get_seq_error (Fenced _ _) c = not_leader c"
| "get_seq_error DenseUnsupported c = bare Unimplemented"
| "get_seq_error (DenseNotActivated _ _) c = bare FailedPrecondition"
| "get_seq_error (TransientDriver _) c = bare Unavailable"
| "get_seq_error _ c = bare Internal"

fun get_seq_batch_error :: "consensus_error \<Rightarrow> serving_core \<Rightarrow> status" where
  "get_seq_batch_error (SeqKeyCardinalityExceeded _) c = bare ResourceExhausted"
| "get_seq_batch_error ConsSeqOverflow c = bare FailedPrecondition"
| "get_seq_batch_error (ConsNotLeader _) c = not_leader c"
| "get_seq_batch_error (Fenced _ _) c = not_leader c"
| "get_seq_batch_error DenseUnsupported c = bare Unimplemented"
| "get_seq_batch_error (DenseBatchNotActivated _ _) c = bare FailedPrecondition"
| "get_seq_batch_error (TransientDriver _) c = bare Unavailable"
| "get_seq_batch_error _ c = bare Internal"

definition get_seq ::
  "'s consensus_driver \<Rightarrow> str \<Rightarrow> u32 \<Rightarrow> 's server \<Rightarrow> (status, seq_grant_entry \<times> (u64 \<times> u64)) result \<times> 's server" where
  "get_seq drv key count sv =
     (let c = sv_core sv
      in if \<not> is_serving c then (Inl (not_leader c), sv)
         else case seq_validate key count c of
           Inl e \<Rightarrow> (Inl (seq_validation_status e c), sv)
         | Inr seq_key \<Rightarrow>
             (case current_epoch c of
                None \<Rightarrow> (Inl (not_leader c), sv)
              | Some epoch \<Rightarrow>
                  (let (r, s') = drv_advance_dense drv seq_key count epoch (sv_driver sv);
                       sv' = sv\<lparr>sv_driver := s'\<rparr>
                   in case r of
                     Inl error \<Rightarrow> (Inl (get_seq_error error c), sv')
                   | Inr start \<Rightarrow>
                       (case seq_grant_try_new seq_key start count epoch of
                          Inl e \<Rightarrow> (Inl (core_status e), sv')
                        | Inr grant \<Rightarrow> (Inr (seq_entry grant, to_wire (sg_epoch grant)), sv')))))"

fun validate_entries ::
  "(str \<times> u32) list \<Rightarrow> serving_core \<Rightarrow> (status, (seq_key \<times> u32) list) result" where
  "validate_entries [] c = Inr []"
| "validate_entries ((key, count) # es) c =
     (case seq_validate key count c of
        Inl e \<Rightarrow> Inl (seq_validation_status e c)
      | Inr seq_key \<Rightarrow> and_then (validate_entries es c) (\<lambda>vs. Inr ((seq_key, count) # vs)))"

fun build_grants ::
  "epoch \<Rightarrow> ((seq_key \<times> u32) \<times> u64) list \<Rightarrow> (status, seq_grant_entry list) result" where
  "build_grants epoch [] = Inr []"
| "build_grants epoch (((seq_key, count), start) # rest) =
     (case seq_grant_try_new seq_key start count epoch of
        Inl e \<Rightarrow> Inl (core_status e)
      | Inr grant \<Rightarrow> and_then (build_grants epoch rest) (\<lambda>gs. Inr (seq_entry grant # gs)))"

definition get_seq_batch ::
  "'s consensus_driver \<Rightarrow> (str \<times> u32) list \<Rightarrow> 's server
     \<Rightarrow> (status, seq_grant_entry list \<times> (u64 \<times> u64)) result \<times> 's server" where
  "get_seq_batch drv entries sv =
     (let c = sv_core sv
      in if \<not> is_serving c then (Inl (not_leader c), sv)
         else if entries = [] then (Inl (bare InvalidArgument), sv)
         else if of_nat (length entries) > sc_max_seq_batch_keys c then (Inl (bare InvalidArgument), sv)
         else if \<not> distinct (map fst entries) then (Inl (bare InvalidArgument), sv)
         else case validate_entries entries c of
           Inl st \<Rightarrow> (Inl st, sv)
         | Inr validated \<Rightarrow>
             (case current_epoch c of
                None \<Rightarrow> (Inl (not_leader c), sv)
              | Some epoch \<Rightarrow>
                  (let (r, s') = drv_advance_dense_batch drv validated epoch (sv_driver sv);
                       sv' = sv\<lparr>sv_driver := s'\<rparr>
                   in case r of
                     Inl error \<Rightarrow> (Inl (get_seq_batch_error error c), sv')
                   | Inr starts \<Rightarrow>
                       if length starts \<noteq> length validated then (Inl (bare Internal), sv')
                       else (case build_grants epoch (zip validated starts) of
                               Inl st \<Rightarrow> (Inl st, sv')
                             | Inr grants \<Rightarrow> (Inr (grants, to_wire epoch), sv')))))"

section \<open>Lemmas\<close>

lemma sc_try_grant_split:
  "sc_try_grant now count c =
     (fst (alloc_try_grant now count (sc_allocator c)),
      c\<lparr>sc_allocator := snd (alloc_try_grant now count (sc_allocator c))\<rparr>)"
  by (simp add: sc_try_grant_def split: prod.splits)

lemma prepare_extension_Inr_iff:
  "prepare_extension now ahead c = Inr (q, e) \<longleftrightarrow> alloc_epoch (sc_allocator c) = Some e \<and> now \<le> PHYSICAL_MS_MAX
     \<and> alloc_try_prepare_window_extension (PhysicalMs now) ahead (sc_allocator c) = Inr (PhysicalMs q)"
  by (auto simp: prepare_extension_def and_then_Inr_iff split: option.splits)

text \<open>The second attempt succeeds when the driver persisted the bound it was asked for.\<close>

lemma extend_then_attempt:
  assumes ok: "alloc_ok (sc_allocator (sv_core sv))" and n: "validate_count count = Inr ()"
    and p: "prepare_extension now (as_millis (cf_window_ahead cfg)) (sv_core sv) = Inr (q, e)"
    and d: "drv_persist_high_water drv q e (sv_driver sv) = (Inr v, s')" "q \<le> v" "v \<le> PHYSICAL_MS_MAX"
    and w: "\<not> slot_would_grant now count (sv_core sv)"
  obtains sv' g where "extend_window cfg drv now count sv = (Inr (), sv')"
    "alloc_ok (sc_allocator (sv_core sv'))" "fst (alloc_try_grant now count (sc_allocator (sv_core sv'))) = Inr g"
proof -
  let ?a = "sc_allocator (sv_core sv)"
  obtain r a where c: "alloc_try_commit_window_extension (PhysicalMs v) e ?a = (r, a)" by fastforce
  from p have pr: "alloc_epoch ?a = Some e" "alloc_try_prepare_window_extension (PhysicalMs now)
      (as_millis (cf_window_ahead cfg)) ?a = Inr (PhysicalMs q)"
    by (simp_all add: prepare_extension_Inr_iff)
  note g = extension_then_grant [OF ok pr(1) n pr(2) _ _ c]
  have "alloc_ok a" using commit_extension_ok [OF ok _ c] d(3) by (simp add: pms_ok_def)
  with that [of "\<lparr>sv_core = (sv_core sv)\<lparr>sc_allocator := a\<rparr>, sv_driver = s'\<rparr>"] g d p w c show ?thesis
    by (auto simp: extend_window_def extend_prepare_def extend_complete_def commit_extension_def
        less_eq_physical_ms_def pms_ok_def)
qed

lemma get_ts_answers:
  assumes ok: "alloc_ok (sc_allocator (sv_core sv))" "is_serving (sv_core sv)" and n: "validate_count count = Inr ()"
    and p: "prepare_extension now (as_millis (cf_window_ahead cfg)) (sv_core sv) = Inr (q, e)"
    and d: "drv_persist_high_water drv q e (sv_driver sv) = (Inr v, s')" "q \<le> v" "v \<le> PHYSICAL_MS_MAX"
  shows "\<exists>g sv'. get_ts_grant cfg drv now count sv = (Inr g, sv') \<and> wg_count g = count \<and> now \<le> wg_physical_ms g"
proof -
  let ?a = "sc_allocator (sv_core sv)"
  have n0: "count \<noteq> 0" using n by (auto simp: validate_count_Inr_iff)
  show ?thesis
  proof (cases "alloc_try_grant now count ?a")
    case (Pair r a)
    show ?thesis
    proof (cases r)
      case (Inr g)
      with Pair n0 ok(2) have "get_ts_grant cfg drv now count sv = (Inr g, sv\<lparr>sv_core := (sv_core sv)\<lparr>sc_allocator := a\<rparr>\<rparr>)"
        by (simp add: get_ts_grant_def get_ts_attempt_def sc_try_grant_split)
      with try_grant_spec [of now count ?a g a] Pair Inr ok(1) show ?thesis by blast
    next
      case (Inl err)
      have "alloc_try_prepare_window_extension (PhysicalMs now) (as_millis (cf_window_ahead cfg)) ?a = Inr (PhysicalMs q)"
        using p by (simp add: prepare_extension_Inr_iff)
      with Inl Pair ok n have ex: "err = WindowExhausted" by (auto dest: blocked_grant_exhausts)
      have a: "a = ?a" using Pair Inl try_grant_error_unchanged by blast
      have w: "\<not> slot_would_grant now count (sv_core sv)" using Pair Inl by (simp add: slot_would_grant_def would_grant_iff)
      from extend_then_attempt [OF ok(1) n p d w] obtain sv' g where e: "extend_window cfg drv now count sv = (Inr (), sv')"
        "alloc_ok (sc_allocator (sv_core sv'))" "fst (alloc_try_grant now count (sc_allocator (sv_core sv'))) = Inr g" by blast
      then obtain a' where "alloc_try_grant now count (sc_allocator (sv_core sv')) = (Inr g, a')" by (metis prod.collapse)
      with try_grant_spec [OF this e(2)] e(1) Pair Inl a ex n0 ok(2) show ?thesis
        by (simp add: get_ts_grant_def get_ts_attempt_def sc_try_grant_split)
    qed
  qed
qed

section \<open>Dense requests against the driver's contract\<close>

lemma seq_validate_Inr_iff:
  "seq_validate key count c = Inr k \<longleftrightarrow> seq_is_leader (sc_seq_allocator c) \<and> 0 < unat count
     \<and> count \<le> sc_max_seq_count c \<and> k = SeqKey key \<and> seq_key_ok k"
  by (simp add: seq_validate_def validate_request_Inr_iff)

lemma validate_entries_InrD:
  "validate_entries es c = Inr vs \<Longrightarrow>
     vs = map (\<lambda>(key, n). (SeqKey key, n)) es \<and> (\<forall>x \<in> set es. 0 < unat (snd x))"
  by (induction es arbitrary: vs) (fastforce simp: seq_validate_Inr_iff and_then_Inr_iff split: sum.splits)+

text \<open>A start the contract allows leaves room for its block.\<close>

lemma seq_fold_fits:
  assumes "seq_fold f ((k, n) # es) = Some (start # ss, f')"
  shows "unat start + unat n \<le> 2 ^ 64 \<and> start = f k"
  using assms checked_add_SomeD [of "f k" "ucast n"] unat_u64_bound [of "f k + ucast n"]
  by (auto split: option.splits)

lemma build_grants_ok:
  assumes "seq_fold f vs = Some (starts, f')" "\<forall>x \<in> set vs. 0 < unat (snd x)"
  shows "build_grants e (zip vs starts) =
     Inr (map (\<lambda>((k, n), s). \<lparr>sge_key = key_str k, sge_start = s, sge_count = n\<rparr>) (zip vs starts))"
  using assms
proof (induction f vs arbitrary: starts rule: seq_fold.induct)
  case (2 f k n es)
  then obtain v ss where v: "checked_add (f k) (ucast n) = Some v" "starts = f k # ss" "seq_fold (f(k := v)) es = Some (ss, f')"
    by (auto split: option.splits)
  from 2(2) v have "unat (f k) + unat n \<le> 2 ^ 64" using seq_fold_fits [of f k n es "f k" ss f'] by simp
  with 2(1) [OF v(1,3)] 2(3) v(2) show ?case
    by (simp add: seq_grant_try_new_Inr_iff [THEN iffD2] seq_entry_def)
qed simp

locale dense_driver =
  dense_counters "drv_advance_dense drv" "drv_advance_dense_batch drv" counter dinv
  for drv :: "'s consensus_driver" and counter dinv
begin

lemma get_seq_block:
  assumes i: "dinv (sv_driver sv)" and g: "get_seq drv key n sv = (r, sv')"
  shows "case r of
      Inl _ \<Rightarrow> counter (sv_driver sv') = counter (sv_driver sv)
    | Inr (g, e) \<Rightarrow> g = \<lparr>sge_key = key, sge_start = counter (sv_driver sv) (SeqKey key), sge_count = n\<rparr>
        \<and> map_option to_wire (current_epoch (sv_core sv)) = Some e
        \<and> seq_fold (counter (sv_driver sv)) [(SeqKey key, n)] = Some ([sge_start g], counter (sv_driver sv'))"
proof (cases "\<exists>k e. is_serving (sv_core sv) \<and> seq_validate key n (sv_core sv) = Inr k \<and> current_epoch (sv_core sv) = Some e")
  case False
  with g show ?thesis by (auto simp: get_seq_def Let_def split: sum.splits option.splits if_splits)
next
  case True
  then obtain e where c: "is_serving (sv_core sv)" "seq_validate key n (sv_core sv) = Inr (SeqKey key)"
      "current_epoch (sv_core sv) = Some e" "0 < unat n"
    by (auto simp: seq_validate_Inr_iff)
  obtain o' s' where a: "drv_advance_dense drv (SeqKey key) n e (sv_driver sv) = (o', s')" by fastforce
  show ?thesis
  proof (cases o')
    case (Inl err)
    with c a g advance_err [OF i, of "SeqKey key" n e err] show ?thesis by (auto simp: get_seq_def Let_def)
  next
    case (Inr start)
    with a advance_ok [OF i, of "SeqKey key" n e start]
    have f: "seq_fold (counter (sv_driver sv)) [(SeqKey key, n)] = Some ([start], counter s')" by simp
    from seq_fold_fits [OF this] have "unat start + unat n \<le> 2 ^ 64" "start = counter (sv_driver sv) (SeqKey key)" by auto
    with c a g Inr f show ?thesis
      by (auto simp: get_seq_def Let_def seq_grant_try_new_Inr_iff [THEN iffD2] seq_entry_def simp del: seq_fold.simps)
  qed
qed

lemma get_seq_batch_blocks:
  assumes i: "dinv (sv_driver sv)" and g: "get_seq_batch drv es sv = (r, sv')"
  shows "case r of
      Inl _ \<Rightarrow> counter (sv_driver sv') = counter (sv_driver sv)
    | Inr (gs, e) \<Rightarrow> map (\<lambda>g. (sge_key g, sge_count g)) gs = es
        \<and> map_option to_wire (current_epoch (sv_core sv)) = Some e
        \<and> seq_fold (counter (sv_driver sv)) (map (\<lambda>(key, n). (SeqKey key, n)) es)
            = Some (map sge_start gs, counter (sv_driver sv'))"
proof (cases "\<exists>vs e. is_serving (sv_core sv) \<and> es \<noteq> [] \<and> \<not> of_nat (length es) > sc_max_seq_batch_keys (sv_core sv)
    \<and> distinct (map fst es) \<and> validate_entries es (sv_core sv) = Inr vs \<and> current_epoch (sv_core sv) = Some e")
  case False
  with g show ?thesis by (auto simp: get_seq_batch_def Let_def split: sum.splits option.splits if_splits)
next
  case True
  let ?vs = "map (\<lambda>(key, n). (SeqKey key, n)) es"
  from True obtain e where c: "is_serving (sv_core sv)" "es \<noteq> []" "\<not> of_nat (length es) > sc_max_seq_batch_keys (sv_core sv)"
      "distinct (map fst es)" "validate_entries es (sv_core sv) = Inr ?vs" "current_epoch (sv_core sv) = Some e"
      "\<forall>x \<in> set ?vs. 0 < unat (snd x)"
    by (fastforce dest: validate_entries_InrD)
  obtain o' s' where a: "drv_advance_dense_batch drv ?vs e (sv_driver sv) = (o', s')" by fastforce
  show ?thesis
  proof (cases o')
    case (Inl err)
    with c a g batch_err [OF i, of ?vs e err] show ?thesis by (auto simp: get_seq_batch_def Let_def)
  next
    case (Inr starts)
    with a batch_ok [OF i, of ?vs e starts]
    have f: "seq_fold (counter (sv_driver sv)) ?vs = Some (starts, counter s')" by simp
    have l: "length starts = length es" using seq_fold_gapless [OF f] by simp
    let ?gs = "map (\<lambda>((k, n), s). \<lparr>sge_key = key_str k, sge_start = s, sge_count = n\<rparr>) (zip ?vs starts)"
    have "map sge_start ?gs = starts" "map (\<lambda>g. (sge_key g, sge_count g)) ?gs = es"
      using l by (auto intro!: nth_equalityI simp: split_beta)
    with c a g Inr l f build_grants_ok [OF f c(7)] show ?thesis
      by (auto simp: get_seq_batch_def Let_def)
  qed
qed

end

section \<open>Properties\<close>

text \<open>
  Only a lost leadership makes a failed driver write step down. On \<open>Fenced\<close> and
  \<open>NotLeader\<close> the core is cleared and the redirect carries the epoch that fenced; on
  every other failure the core is untouched, a transient fault is reported as
  retryable and the rest as internal.
\<close>

theorem persist_failure_policy:
  "persist_error_status error c =
     (case error of
        Fenced _ current \<Rightarrow>
          (not_leader_status \<lparr>lh_endpoint = None, lh_epoch = Some (to_wire current)\<rparr>, sc_step_down None (Some current) c)
      | ConsNotLeader _ \<Rightarrow>
          (not_leader_status \<lparr>lh_endpoint = None, lh_epoch = None\<rparr>, sc_step_down None None c)
      | TransientDriver _ \<Rightarrow> (bare Unavailable, c)
      | _ \<Rightarrow> (bare Internal, c))"
  by (cases error) (simp_all add: persist_error_status_def Let_def not_leader_def leader_hint_from_def
      sc_step_down_def wire_epoch_def)

end
