(* ===== verification/Lease_Flow.thy ===== *)
theory Lease_Flow
  imports Service
begin

text \<open>
  The lease handlers (\<open>tsoracle-server/src/lease_flow.rs\<close>): acquire, renew and release.
  A grant or renewal first extends the durable high-water, then persists the projected
  lease set, and only then commits to the table. The theory shows that the handlers keep
  the table invariant, that a lease's upper bound never exceeds the durable high-water,
  and what each failure leaves behind.
\<close>

section \<open>Handlers\<close>

record lease_mutation =
  lm_upsert :: "lease_record option"
  lm_supersede :: "u64 option"
  lm_remove :: "u64 option"

definition ensure_serving :: "serving_core \<Rightarrow> (status, unit) result" where
  "ensure_serving c = (if is_serving c then Inr () else Inl (not_leader c))"

definition current_epoch_or_not_leader :: "serving_core \<Rightarrow> (status, epoch) result" where
  "current_epoch_or_not_leader c =
     (case current_epoch c of Some e \<Rightarrow> Inr e | None \<Rightarrow> Inl (not_leader c))"

fun lease_status :: "lease_error \<Rightarrow> status" where
  "lease_status (HolderLenOutOfRange _) = bare InvalidArgument"
| "lease_status (TtlOutOfRange _ _ _) = bare InvalidArgument"
| "lease_status (HolderEpochStale _ _) = bare FailedPrecondition"
| "lease_status (LeaseExpired _ _) = bare FailedPrecondition"
| "lease_status (LeaseSuperseded _ _) = bare FailedPrecondition"
| "lease_status (UnknownLease _) = bare NotFound"

text \<open>\<open>prepare_error\<close> is the shared mapping of the two prepare calls.\<close>

definition prepare_error :: "core_error \<Rightarrow> serving_core \<Rightarrow> status" where
  "prepare_error e c = (case e of CoreNotLeader \<Rightarrow> not_leader c | other \<Rightarrow> core_status other)"

definition persist_bound ::
  "'s consensus_driver \<Rightarrow> u64 \<Rightarrow> epoch \<Rightarrow> 's server \<Rightarrow> (status, u64) result \<times> 's server" where
  "persist_bound drv requested epoch sv =
     (case drv_persist_high_water drv requested epoch (sv_driver sv) of
        (Inr actual, s') \<Rightarrow> (Inr actual, sv\<lparr>sv_driver := s'\<rparr>)
      | (Inl error, s') \<Rightarrow>
          (let (st, c') = persist_error_status error (sv_core sv)
           in (Inl st, \<lparr>sv_core = c', sv_driver = s'\<rparr>)))"

text \<open>Persist a bound and commit it; an ignored commit means the epoch is gone.\<close>

definition persist_and_commit ::
  "'s consensus_driver \<Rightarrow> u64 \<Rightarrow> epoch \<Rightarrow> 's server \<Rightarrow> (status, u64 \<times> epoch) result \<times> 's server" where
  "persist_and_commit drv requested epoch sv =
     (case persist_bound drv requested epoch sv of
        (Inl st, sv') \<Rightarrow> (Inl st, sv')
      | (Inr actual, sv') \<Rightarrow>
          (case commit_extension actual epoch (sv_core sv') of
             (Inl e, c') \<Rightarrow> (Inl (core_status e), sv'\<lparr>sv_core := c'\<rparr>)
           | (Inr (Ignored _), c') \<Rightarrow> (Inl (not_leader c'), sv'\<lparr>sv_core := c'\<rparr>)
           | (Inr (Applied _), c') \<Rightarrow> (Inr (actual, epoch), sv'\<lparr>sv_core := c'\<rparr>)))"

definition persist_extension_bound ::
  "'s consensus_driver \<Rightarrow> u64 \<Rightarrow> u64 \<Rightarrow> 's server \<Rightarrow> (status, u64 \<times> epoch) result \<times> 's server" where
  "persist_extension_bound drv now_ms ttl sv =
     (case prepare_extension now_ms ttl (sv_core sv) of
        Inl e \<Rightarrow> (Inl (prepare_error e (sv_core sv)), sv)
      | Inr (requested, epoch) \<Rightarrow> persist_and_commit drv requested epoch sv)"

definition persist_renewal_bound ::
  "'s consensus_driver \<Rightarrow> u64 \<Rightarrow> u64 \<Rightarrow> 's server \<Rightarrow> (status, u64 \<times> epoch) result \<times> 's server" where
  "persist_renewal_bound drv now_ms ttl sv =
     (case prepare_lease_renewal now_ms ttl (sv_core sv) of
        Inl e \<Rightarrow> (Inl (prepare_error e (sv_core sv)), sv)
      | Inr (committed, requested, epoch) \<Rightarrow>
          if requested = committed then (Inr (committed, epoch), sv)
          else persist_and_commit drv requested epoch sv)"

text \<open>What the driver's answer to a lease write means for the request and for the core.\<close>

definition lease_set_outcome ::
  "(consensus_error, unit) result \<Rightarrow> serving_core \<Rightarrow> (status, unit) result \<times> serving_core" where
  "lease_set_outcome r c =
     (case r of
        Inr _ \<Rightarrow> (Inr (), c)
      | Inl LeasesUnsupported \<Rightarrow> (Inl (bare Unimplemented), c)
      | Inl (LeasesNotActivated _ _) \<Rightarrow> (Inl (bare FailedPrecondition), c)
      | Inl error \<Rightarrow> (let (st, c') = persist_error_status error c in (Inl st, c')))"

definition persist_lease_set ::
  "'s consensus_driver \<Rightarrow> lease_record list \<Rightarrow> epoch \<Rightarrow> 's server \<Rightarrow> (status, unit) result \<times> 's server" where
  "persist_lease_set drv rs epoch sv =
     (let (r, s') = drv_persist_leases drv rs epoch (sv_driver sv);
          (out, c') = lease_set_outcome r (sv_core sv)
      in (out, \<lparr>sv_core = c', sv_driver = s'\<rparr>))"

definition persist_lease_mutation ::
  "'s consensus_driver \<Rightarrow> lease_mutation \<Rightarrow> epoch \<Rightarrow> u64 \<Rightarrow> 's server \<Rightarrow> (status, unit) result \<times> 's server" where
  "persist_lease_mutation drv m epoch now_ms sv =
     (case lease_projected_live_set (lm_upsert m) (lm_supersede m) (lm_remove m) epoch now_ms (sv_core sv) of
        Inl e \<Rightarrow> (Inl (prepare_error e (sv_core sv)), sv)
      | Inr rs \<Rightarrow>
          (case persist_lease_set drv rs epoch sv of
             (Inl st, sv') \<Rightarrow> (Inl st, sv')
           | (Inr _, sv') \<Rightarrow>
               (case lease_commit (lm_upsert m) (lm_supersede m) (lm_remove m) epoch now_ms (sv_core sv') of
                  (Inl e, c') \<Rightarrow> (Inl (core_status e), sv'\<lparr>sv_core := c'\<rparr>)
                | (Inr _, c') \<Rightarrow> (Inr (), sv'\<lparr>sv_core := c'\<rparr>))))"

record acquire_response =
  ar_lease_id :: u64
  ar_ts_upper_bound :: u64
  ar_expires_at_ms :: u64
  ar_epoch :: "u64 \<times> u64"

definition acquire_response_of :: "lease_record \<Rightarrow> epoch \<Rightarrow> acquire_response" where
  "acquire_response_of r e = \<lparr>ar_lease_id = lease_id r, ar_ts_upper_bound = ts_upper_bound r,
     ar_expires_at_ms = expires_at_ms r, ar_epoch = to_wire e\<rparr>"

definition acquire_lease ::
  "server_config \<Rightarrow> 's consensus_driver \<Rightarrow> u64 \<Rightarrow> bytes \<Rightarrow> u64 \<Rightarrow> u64 \<Rightarrow> 's server
     \<Rightarrow> (status, acquire_response) result \<times> 's server" where
  "acquire_lease cfg drv now_ms h h_epoch ttl sv =
     (let c = sv_core sv
      in case and_then (ensure_serving c) (\<lambda>_. map_err lease_status
             (validate_lease_request h ttl (as_millis (cf_lease_ttl_floor cfg))
                (as_millis (cf_lease_ttl_ceiling cfg)))) of
        Inl st \<Rightarrow> (Inl st, sv)
      | Inr _ \<Rightarrow>
          (case map_err lease_status (lease_prepare_acquire h h_epoch now_ms c) of
             Inl st \<Rightarrow> (Inl st, sv)
           | Inr (Idempotent live) \<Rightarrow>
               (case current_epoch_or_not_leader c of
                  Inl st \<Rightarrow> (Inl st, sv)
                | Inr epoch \<Rightarrow> (Inr (acquire_response_of live epoch), sv))
           | Inr (Grant supersedes) \<Rightarrow>
               (case persist_extension_bound drv now_ms ttl sv of
                  (Inl st, sv') \<Rightarrow> (Inl st, sv')
                | (Inr (actual, epoch), sv') \<Rightarrow>
                    (let r = \<lparr>lease_id = actual, holder = h, holder_epoch = h_epoch, ttl_ms = ttl,
                              ts_upper_bound = actual, expires_at_ms = saturating_add now_ms ttl,
                              superseded = False\<rparr>
                     in case persist_lease_mutation drv
                               \<lparr>lm_upsert = Some r, lm_supersede = supersedes, lm_remove = None\<rparr>
                               epoch now_ms sv' of
                          (Inl st, sv'') \<Rightarrow> (Inl st, sv'')
                        | (Inr _, sv'') \<Rightarrow> (Inr (acquire_response_of r epoch), sv'')))))"

definition renew_lease ::
  "'s consensus_driver \<Rightarrow> u64 \<Rightarrow> u64 \<Rightarrow> 's server \<Rightarrow> (status, u64 \<times> u64 \<times> (u64 \<times> u64)) result \<times> 's server" where
  "renew_lease drv now_ms i sv =
     (let c = sv_core sv
      in case and_then (ensure_serving c) (\<lambda>_. map_err lease_status (lease_prepare_renew i now_ms c)) of
        Inl st \<Rightarrow> (Inl st, sv)
      | Inr r \<Rightarrow>
          (case persist_renewal_bound drv now_ms (ttl_ms r) sv of
             (Inl st, sv') \<Rightarrow> (Inl st, sv')
           | (Inr (actual, epoch), sv') \<Rightarrow>
               (let r' = r\<lparr>ts_upper_bound := actual, expires_at_ms := saturating_add now_ms (ttl_ms r)\<rparr>
                in case persist_lease_mutation drv
                          \<lparr>lm_upsert = Some r', lm_supersede = None, lm_remove = None\<rparr> epoch now_ms sv' of
                     (Inl st, sv'') \<Rightarrow> (Inl st, sv'')
                   | (Inr _, sv'') \<Rightarrow>
                       (Inr (ts_upper_bound r', expires_at_ms r', to_wire epoch), sv''))))"

definition release_lease ::
  "'s consensus_driver \<Rightarrow> u64 \<Rightarrow> u64 \<Rightarrow> 's server \<Rightarrow> (status, unit) result \<times> 's server" where
  "release_lease drv now_ms i sv =
     (let c = sv_core sv
      in case ensure_serving c of
        Inl st \<Rightarrow> (Inl st, sv)
      | Inr _ \<Rightarrow>
          (case lease_prepare_release i c of
             None \<Rightarrow> (Inr (), sv)
           | Some _ \<Rightarrow>
               (case current_epoch_or_not_leader c of
                  Inl st \<Rightarrow> (Inl st, sv)
                | Inr epoch \<Rightarrow>
                    persist_lease_mutation drv
                      \<lparr>lm_upsert = None, lm_supersede = None, lm_remove = Some i\<rparr> epoch now_ms sv)))"

section \<open>Lemmas\<close>

lemma lease_apply_acquire: "lease_apply (Some r) s None now t = lt_commit_acquire r s now t"
  by (auto simp: lease_apply_def lt_commit_acquire_def lt_commit_renew_def mark_superseded_def)

lemma lease_apply_renew: "lease_apply (Some r) None None now t = lt_commit_renew r now t"
  by (auto simp: lease_apply_def lt_commit_acquire_def lt_commit_renew_def mark_superseded_def)

lemma lease_apply_release: "lease_apply None s (Some i) now t = lt_commit_release i now t"
  by (simp add: lease_apply_def)

lemma persist_lease_mutation_InrD:
  assumes "persist_lease_mutation drv m e now sv = (Inr (), sv')"
  obtains s' where "drv_persist_leases drv
        (projected_live_set (lm_upsert m) (lm_supersede m) (lm_remove m) now (sc_lease_table (sv_core sv))) e (sv_driver sv) = (Inr (), s')"
    "sv' = \<lparr>sv_core = (sv_core sv)\<lparr>sc_lease_table :=
        lease_apply (lm_upsert m) (lm_supersede m) (lm_remove m) now (sc_lease_table (sv_core sv))\<rparr>, sv_driver = s'\<rparr>"
    "alloc_epoch (sc_allocator (sv_core sv)) = Some e"
proof -
  let ?c = "sv_core sv"
  let ?rs = "projected_live_set (lm_upsert m) (lm_supersede m) (lm_remove m) now (sc_lease_table ?c)"
  have e: "lease_table_at e ?c = Inr (sc_lease_table ?c)" "alloc_epoch (sc_allocator ?c) = Some e"
    using assms by (auto simp: persist_lease_mutation_def lease_projected_live_set_def lease_table_at_def split: if_splits)
  obtain o' s' where d: "drv_persist_leases drv ?rs e (sv_driver sv) = (o', s')" by fastforce
  obtain x c' where o: "lease_set_outcome o' ?c = (x, c')" by fastforce
  with assms e d have x: "x = Inr ()" "sv' = \<lparr>sv_core = snd (lease_commit (lm_upsert m) (lm_supersede m) (lm_remove m) e now c'), sv_driver = s'\<rparr>"
    by (auto simp: persist_lease_mutation_def lease_projected_live_set_def persist_lease_set_def Let_def split: sum.splits prod.splits)
  with o have "o' = Inr ()" "c' = ?c"
    by (auto simp: lease_set_outcome_def Let_def split: sum.splits consensus_error.splits prod.splits)
  with that [of s'] d x e show ?thesis by (simp add: lease_commit_def)
qed

text \<open>A committed bound is new: it lies strictly above what was committed before.\<close>

lemma persist_and_commit_InrD:
  assumes "persist_and_commit drv q e sv = (Inr (actual, e'), sv')"
  obtains s' where "drv_persist_high_water drv q e (sv_driver sv) = (Inr actual, s')" "e' = e"
    "sv' = \<lparr>sv_core = (sv_core sv)\<lparr>sc_allocator := snd (alloc_try_commit_window_extension (PhysicalMs actual) e (sc_allocator (sv_core sv)))\<rparr>, sv_driver = s'\<rparr>"
    "actual \<le> PHYSICAL_MS_MAX" "fst (alloc_try_commit_window_extension (PhysicalMs actual) e (sc_allocator (sv_core sv))) = Inr (Applied actual)"
proof -
  obtain o' s' where d: "drv_persist_high_water drv q e (sv_driver sv) = (o', s')" by fastforce
  with assms obtain a where a: "o' = Inr a"
    by (cases o') (auto simp: persist_and_commit_def persist_bound_def Let_def split: prod.splits)
  from assms d a have c: "\<exists>x. commit_extension a e (sv_core sv) = (Inr (Applied x), sv_core sv')" "a = actual" "e' = e"
      "sv_driver sv' = s'"
    by (auto simp: persist_and_commit_def persist_bound_def split: prod.splits sum.splits commit_outcome.splits)
  then have le: "actual \<le> PHYSICAL_MS_MAX"
    by (auto simp: commit_extension_def pms_try_new_def split: if_splits)
  from c(1,2) le show ?thesis
    using that [of s'] d a c(2-4)
    by (cases sv') (auto simp: commit_extension_def alloc_try_commit_window_extension_def Let_def
        split: prod.splits alloc_state.splits if_splits)
qed

section \<open>Against the driver's contracts\<close>

text \<open>
  Every lease bound is at or below the committed bound, and so is every id (an id is the
  bound it was granted at).
\<close>

definition lease_bounds_ok :: "serving_core \<Rightarrow> bool" where
  "lease_bounds_ok c \<longleftrightarrow> (\<forall>hw. alloc_committed_high_water (sc_allocator c) = Some hw \<longrightarrow>
     (\<forall>r \<in> snd ` set (records (sc_lease_table c)). ts_upper_bound r \<le> hw \<and> lease_id r \<le> hw))"

text \<open>What a new grant establishes, for the client and for the store.\<close>

definition grant_established ::
  "bytes \<Rightarrow> u64 \<Rightarrow> u64 \<Rightarrow> u64 \<Rightarrow> serving_core \<Rightarrow> acquire_response \<Rightarrow> serving_core \<Rightarrow> u64 \<Rightarrow> lease_record list \<Rightarrow> bool" where
  "grant_established h he ttl now c resp c' durable stored \<longleftrightarrow>
     (\<exists>r e. resp = acquire_response_of r e \<and> alloc_epoch (sc_allocator c') = Some e
        \<and> active_for h now (sc_lease_table c') = Some r \<and> holder_epoch r = he \<and> ttl_ms r = ttl
        \<and> lease_id r = ts_upper_bound r
        \<and> alloc_committed_high_water (sc_allocator c') = Some (ts_upper_bound r)
        \<and> (\<forall>hw. alloc_committed_high_water (sc_allocator c) = Some hw \<longrightarrow> hw < ts_upper_bound r)
        \<and> ts_upper_bound r \<le> durable \<and> stored = live_set now (sc_lease_table c'))"

locale lease_service =
  reg: high_water_register "drv_persist_high_water drv" "drv_load_high_water drv" acked rinv +
  ls: lease_store "drv_persist_leases drv" "drv_load_leases drv" stored linv
  for drv :: "'s consensus_driver" and acked rinv stored linv +
  assumes register_keeps_leases: "linv s \<Longrightarrow> linv (snd (drv_persist_high_water drv a e s))"
    and leases_keep_register: "rinv s \<Longrightarrow> acked s \<le> acked (snd (drv_persist_leases drv rs e s))"
begin

lemma committed_bound:
  assumes "persist_and_commit drv q e sv = (Inr (actual, e), sv')" "rinv (sv_driver sv)" "linv (sv_driver sv)"
  obtains a s' where "sv' = \<lparr>sv_core = (sv_core sv)\<lparr>sc_allocator := a\<rparr>, sv_driver = s'\<rparr>"
    "alloc_epoch a = Some e" "alloc_committed_high_water a = Some actual" "acked s' = actual" "rinv s'" "linv s'"
    "\<exists>hw. alloc_committed_high_water (sc_allocator (sv_core sv)) = Some hw \<and> hw < actual"
proof -
  let ?a = "sc_allocator (sv_core sv)"
  let ?t = "alloc_try_commit_window_extension (PhysicalMs actual) e ?a"
  obtain s' where s': "drv_persist_high_water drv q e (sv_driver sv) = (Inr actual, s')"
      "sv' = \<lparr>sv_core = (sv_core sv)\<lparr>sc_allocator := snd ?t\<rparr>, sv_driver = s'\<rparr>" "fst ?t = Inr (Applied actual)"
    by (rule persist_and_commit_InrD [OF assms(1)]) blast
  have "alloc_epoch (snd ?t) = Some e \<and> alloc_committed_high_water (snd ?t) = Some actual
      \<and> (\<exists>hw. alloc_committed_high_water ?a = Some hw \<and> hw < actual)"
    using s'(3) by (auto simp: alloc_try_commit_window_extension_def alloc_epoch_def alloc_committed_high_water_def
        Let_def split: alloc_state.splits if_splits)
  moreover have "acked s' = actual" "rinv s'" using reg.persist_covers [OF assms(2) s'(1)] by auto
  moreover have "linv s'" using register_keeps_leases [OF assms(3), of q e] s'(1) by simp
  ultimately show ?thesis using that s'(2) by blast
qed

lemma extension_bound_InrD:
  assumes "persist_extension_bound drv now ttl sv = (Inr (actual, e), sv')"
  shows "\<exists>q. persist_and_commit drv q e sv = (Inr (actual, e), sv')"
proof -
  obtain q e0 where pc: "persist_and_commit drv q e0 sv = (Inr (actual, e), sv')"
    using assms by (auto simp: persist_extension_bound_def split: sum.splits)
  then have "e0 = e" by (rule persist_and_commit_InrD) simp
  with pc show ?thesis by blast
qed

lemma commit_acquire_active:
  assumes ok: "table_ok t" and dec: "lt_prepare_acquire (holder r) he now t = Inr (Grant s)"
    and r: "\<not> superseded r" "\<not> is_expired now r"
  shows "table_ok (lt_commit_acquire r s now t) \<and> active_for (holder r) now (lt_commit_acquire r s now t) = Some r"
proof -
  have t: "table_ok (lt_commit_acquire r s now t)" by (rule commit_acquire_ok [OF ok dec])
  have "bt_wf (mark_superseded s (records t))" using ok filed_wf mark_superseded_wf by (auto simp: table_ok_def)
  then have "bt_get (records (lt_commit_acquire r s now t)) (lease_id r) = Some r"
    using r(2) by (simp add: lt_commit_acquire_def lt_prune_expired_def bt_simps bt.wf_insert)
  from active_for_unique [OF t this r] t show ?thesis by simp
qed

lemma acquire_lease_correct:
  assumes inv: "rinv (sv_driver sv)" "linv (sv_driver sv)" "table_ok (sc_lease_table (sv_core sv))"
    and t: "now < now + ttl"
    and a: "acquire_lease cfg drv now h he ttl sv = (Inr resp, sv')"
  shows "table_ok (sc_lease_table (sv_core sv'))
    \<and> (sv' = sv \<and> (\<exists>r e. active_for h now (sc_lease_table (sv_core sv)) = Some r \<and> holder_epoch r = he
          \<and> resp = acquire_response_of r e \<and> alloc_epoch (sc_allocator (sv_core sv)) = Some e)
      \<or> grant_established h he ttl now (sv_core sv) resp (sv_core sv') (acked (sv_driver sv')) (stored (sv_driver sv'))
        \<and> (\<exists>s e. rinv s \<and> drv_persist_leases drv (live_set now (sc_lease_table (sv_core sv'))) e s = (Inr (), sv_driver sv')))"
proof -
  let ?c = "sv_core sv" and ?t = "sc_lease_table (sv_core sv)"
  from a consider (idem) r where "lt_prepare_acquire h he now ?t = Inr (Idempotent r)"
    | (new) s where "lt_prepare_acquire h he now ?t = Inr (Grant s)"
    by (auto simp: acquire_lease_def Let_def lease_prepare_acquire_def
        split: sum.splits acquire_decision.splits prod.splits)
  then show ?thesis
  proof cases
    case idem
    with prepare_acquire_cases [OF inv(3), where h = h and he = he and now = now] a inv(3) show ?thesis
      by (auto simp: acquire_lease_def Let_def lease_prepare_acquire_def current_epoch_or_not_leader_def
          current_epoch_def split: sum.splits option.splits)
  next
    case new
    obtain actual e sv1 where b: "persist_extension_bound drv now ttl sv = (Inr (actual, e), sv1)"
      using a new by (auto simp: acquire_lease_def Let_def lease_prepare_acquire_def
          split: sum.splits prod.splits)
    obtain al s1 where b1: "sv1 = \<lparr>sv_core = ?c\<lparr>sc_allocator := al\<rparr>, sv_driver = s1\<rparr>"
        "alloc_epoch al = Some e" "alloc_committed_high_water al = Some actual" "acked s1 = actual" "rinv s1" "linv s1"
        "\<exists>hw. alloc_committed_high_water (sc_allocator ?c) = Some hw \<and> hw < actual"
      using extension_bound_InrD [OF b] committed_bound [OF _ inv(1,2)] by metis
    define r where "r = \<lparr>lease_id = actual, holder = h, holder_epoch = he, ttl_ms = ttl, ts_upper_bound = actual,
        expires_at_ms = saturating_add now ttl, superseded = False\<rparr>"
    let ?m = "\<lparr>lm_upsert = Some r, lm_supersede = s, lm_remove = None\<rparr>"
    obtain u where m: "persist_lease_mutation drv ?m e now sv1 = (Inr u, sv')" "resp = acquire_response_of r e"
      using a new b by (auto simp: acquire_lease_def Let_def lease_prepare_acquire_def r_def
          split: sum.splits prod.splits)
    obtain s2 where s2: "drv_persist_leases drv (projected_live_set (Some r) s None now ?t) e s1 = (Inr (), s2)"
        "sv' = \<lparr>sv_core = ?c\<lparr>sc_allocator := al, sc_lease_table := lt_commit_acquire r s now ?t\<rparr>, sv_driver = s2\<rparr>"
      using m(1) b1(1) by (auto simp: lease_apply_acquire elim!: persist_lease_mutation_InrD)
    have r: "\<not> superseded r" "\<not> is_expired now r" "holder r = h"
      using t by (auto simp: r_def is_expired_def saturating_add_def)
    have w: "bt_wf (records ?t)" using inv(3) filed_wf by (auto simp: table_ok_def)
    have p: "drv_persist_leases drv (live_set now (lt_commit_acquire r s now ?t)) e s1 = (Inr (), s2)"
      using s2(1) projected_acquire [OF w r(2)] by metis
    then have "stored s2 = live_set now (lt_commit_acquire r s now ?t)"
      using ls.persist_leases_ok [OF b1(6)] by (metis fst_conv snd_conv)
    moreover have "actual \<le> acked s2" using leases_keep_register [OF b1(5)] s2(1) b1(4) by (metis snd_conv)
    moreover note commit_acquire_active [OF inv(3), of r he now s] new r
    ultimately show ?thesis using s2(2) b1 m(2) p
      by (auto simp: grant_established_def r_def)
  qed
qed

text \<open>A renewal keeps the lease's identity and never lowers its bound.\<close>

lemma renewal_bound_InrD:
  assumes "persist_renewal_bound drv now ttl sv = (Inr (actual, e), sv')" "rinv (sv_driver sv)" "linv (sv_driver sv)"
    and "\<forall>hw. alloc_committed_high_water (sc_allocator (sv_core sv)) = Some hw \<longrightarrow> hw \<le> acked (sv_driver sv)"
  obtains a s' where "sv' = \<lparr>sv_core = (sv_core sv)\<lparr>sc_allocator := a\<rparr>, sv_driver = s'\<rparr>"
    "alloc_epoch a = Some e" "alloc_committed_high_water a = Some actual" "actual \<le> acked s'" "rinv s'" "linv s'"
    "\<exists>hw. alloc_committed_high_water (sc_allocator (sv_core sv)) = Some hw \<and> hw \<le> actual"
proof -
  let ?a = "sc_allocator (sv_core sv)"
  obtain cm q e0 where p: "prepare_lease_renewal now ttl (sv_core sv) = Inr (cm, q, e0)"
    using assms(1) by (auto simp: persist_renewal_bound_def split: sum.splits)
  then have cm: "alloc_epoch ?a = Some e0" "alloc_committed_high_water ?a = Some cm"
    by (auto simp: prepare_lease_renewal_def and_then_Inr_iff split: option.splits)
  show ?thesis
  proof (cases "q = cm")
    case True
    with p assms(1) have "sv' = sv" "e = e0" "actual = cm" by (auto simp: persist_renewal_bound_def)
    with that [of ?a "sv_driver sv"] cm assms(2-4) show ?thesis by simp
  next
    case False
    with p assms(1) have pc: "persist_and_commit drv q e0 sv = (Inr (actual, e), sv')"
      by (auto simp: persist_renewal_bound_def)
    then have "e0 = e" by (rule persist_and_commit_InrD) simp
    with pc have "persist_and_commit drv q e sv = (Inr (actual, e), sv')" by simp
    then obtain a s' where "sv' = \<lparr>sv_core = (sv_core sv)\<lparr>sc_allocator := a\<rparr>, sv_driver = s'\<rparr>"
      "alloc_epoch a = Some e" "alloc_committed_high_water a = Some actual" "acked s' = actual" "rinv s'" "linv s'"
      "\<exists>hw. alloc_committed_high_water ?a = Some hw \<and> hw < actual"
      by (rule committed_bound [OF _ assms(2,3)]) blast
    with that show ?thesis by (fastforce intro: less_imp_le)
  qed
qed

lemma renew_lease_correct:
  assumes inv: "rinv (sv_driver sv)" "linv (sv_driver sv)" "table_ok (sc_lease_table (sv_core sv))"
    and hw: "\<forall>hw. alloc_committed_high_water (sc_allocator (sv_core sv)) = Some hw \<longrightarrow> hw \<le> acked (sv_driver sv)"
    and lb: "lease_bounds_ok (sv_core sv)"
    and t: "\<forall>r. bt_get (records (sc_lease_table (sv_core sv))) i = Some r \<longrightarrow> now < now + ttl_ms r"
    and a: "renew_lease drv now i sv = (Inr (bound, expires, ep), sv')"
  shows "table_ok (sc_lease_table (sv_core sv')) \<and> stored (sv_driver sv') = live_set now (sc_lease_table (sv_core sv'))
    \<and> bound \<le> acked (sv_driver sv') \<and> alloc_committed_high_water (sc_allocator (sv_core sv')) = Some bound
    \<and> (\<exists>r. bt_get (records (sc_lease_table (sv_core sv))) i = Some r \<and> \<not> superseded r \<and> \<not> is_expired now r
        \<and> ts_upper_bound r \<le> bound \<and> expires = now + ttl_ms r
        \<and> bt_get (records (sc_lease_table (sv_core sv'))) i = Some (r\<lparr>ts_upper_bound := bound, expires_at_ms := expires\<rparr>))"
proof -
  let ?c = "sv_core sv" and ?t = "sc_lease_table (sv_core sv)"
  from a obtain r where p: "lt_prepare_renew i now ?t = Inr r"
    by (auto simp: renew_lease_def Let_def lease_prepare_renew_def and_then_Inr_iff split: sum.splits)
  then have r: "bt_get (records ?t) i = Some r" "\<not> superseded r" "\<not> is_expired now r"
    by (auto simp: lt_prepare_renew_def split: option.splits if_splits)
  with t have nw: "now < now + ttl_ms r" by blast
  have w: "bt_wf (records ?t)" "lease_id r = i" using inv(3) filed_wf r(1) by (auto simp: table_ok_def filed_get_iff)
  obtain actual e sv1 where b: "persist_renewal_bound drv now (ttl_ms r) sv = (Inr (actual, e), sv1)"
    using a p by (auto simp: renew_lease_def Let_def lease_prepare_renew_def ensure_serving_def split: sum.splits prod.splits if_splits)
  obtain al s1 where b1: "sv1 = \<lparr>sv_core = ?c\<lparr>sc_allocator := al\<rparr>, sv_driver = s1\<rparr>"
      "alloc_epoch al = Some e" "alloc_committed_high_water al = Some actual" "actual \<le> acked s1" "rinv s1" "linv s1"
      "\<exists>hw. alloc_committed_high_water (sc_allocator ?c) = Some hw \<and> hw \<le> actual"
    by (rule renewal_bound_InrD [OF b inv(1,2) hw]) blast
  define r' where "r' = r\<lparr>ts_upper_bound := actual, expires_at_ms := saturating_add now (ttl_ms r)\<rparr>"
  let ?m = "\<lparr>lm_upsert = Some r', lm_supersede = None, lm_remove = None\<rparr>"
  obtain u where m: "persist_lease_mutation drv ?m e now sv1 = (Inr u, sv')" "bound = actual"
      "expires = saturating_add now (ttl_ms r)"
  proof -
    have "ensure_serving ?c = Inr ()" using a by (auto simp: renew_lease_def Let_def ensure_serving_def split: if_splits)
    then have "renew_lease drv now i sv = (case persist_lease_mutation drv ?m e now sv1 of
        (Inl st, sv'') \<Rightarrow> (Inl st, sv'') | (Inr _, sv'') \<Rightarrow> (Inr (ts_upper_bound r', expires_at_ms r', to_wire e), sv''))"
      using p b unfolding r'_def by (simp only: renew_lease_def lease_prepare_renew_def Let_def and_then.simps map_err.simps sum.case prod.case)
    with a that show ?thesis by (auto simp: r'_def split: prod.splits sum.splits)
  qed
  obtain s2 where s2: "drv_persist_leases drv (projected_live_set (Some r') None None now ?t) e s1 = (Inr (), s2)"
      "sv' = \<lparr>sv_core = ?c\<lparr>sc_allocator := al, sc_lease_table := lt_commit_renew r' now ?t\<rparr>, sv_driver = s2\<rparr>"
    using m(1) b1(1) by (auto simp: lease_apply_renew elim!: persist_lease_mutation_InrD)
  have r': "\<not> is_expired now r'" "lease_id r' = lease_id r" "holder r' = holder r" "saturating_add now (ttl_ms r) = now + ttl_ms r"
    using nw by (auto simp: r'_def is_expired_def saturating_add_def)
  have "stored s2 = live_set now (lt_commit_renew r' now ?t)"
    using ls.persist_leases_ok [OF b1(6)] s2(1) projected_renew [OF w(1) r'(1)] by (metis fst_conv snd_conv)
  moreover have "actual \<le> acked s2" using leases_keep_register [OF b1(5)] s2(1) b1(4) by (metis order_trans snd_conv)
  moreover have "table_ok (lt_commit_renew r' now ?t)" by (rule commit_renew_ok [OF inv(3) p r'(2,3)])
  moreover have "bt_get (records (lt_commit_renew r' now ?t)) i = Some r'"
    using r'(1,2) w by (simp add: lt_commit_renew_def lt_prune_expired_def bt_simps bt.wf_insert)
  moreover have "ts_upper_bound r \<le> actual"
    using lb b1(7) r(1) w(1) by (force simp: lease_bounds_ok_def bt.get_Some_iff)
  ultimately show ?thesis using s2(2) b1(3) m r r'(4) by (simp add: r'_def)
qed

end

section \<open>Properties\<close>

text \<open>
  A deposed node turns every request away: once it has stepped down, the timestamp,
  dense and lease handlers all answer with the redirect to the leader named in the
  step-down, whatever the request says, and change neither the server nor its driver;
  only an empty timestamp request is told that it is malformed first.
\<close>

theorem deposed_node_redirects:
  "let sv' = sv\<lparr>sv_core := sc_step_down endpoint epoch (sv_core sv)\<rparr>;
       redirect = \<lparr>st_code = FailedPrecondition,
         st_hint = Some \<lparr>lh_endpoint = map_option as_str endpoint, lh_epoch = map_option to_wire epoch\<rparr>\<rparr>
   in get_ts cfg drv now count sv' = (Inl (if count = 0 then bare InvalidArgument else redirect), sv')
    \<and> get_seq drv key n sv' = (Inl redirect, sv') \<and> get_seq_batch drv entries sv' = (Inl redirect, sv')
    \<and> acquire_lease cfg drv now h he ttl sv' = (Inl redirect, sv')
    \<and> renew_lease drv now i sv' = (Inl redirect, sv') \<and> release_lease drv now i sv' = (Inl redirect, sv')"
  by (simp add: get_ts_def get_ts_grant_def get_seq_def get_seq_batch_def acquire_lease_def renew_lease_def
      release_lease_def ensure_serving_def is_serving_def not_leader_def not_leader_status_def leader_hint_from_def
      wire_epoch_def sc_step_down_def Let_def)

end
