(* ===== verification/Fence.thy ===== *)
theory Fence
  imports Lease_Flow Issuer
begin

text \<open>
  The leadership fence (\<open>tsoracle-server/src/fence.rs\<close>) and the leader-watch loop: the
  fence arithmetic, one attempt, the retry loop with its backoff, event dispatch and the
  poisoning of a terminated watch (\<open>server.rs\<close>). The choices of the environment (clock
  readings, what ends a backoff, which event arrives) are arguments. The second part is
  the whole server as an issuer: any interleaving of handlers, fences and step-downs
  over a driver that meets its contract issues strictly increasing timestamps.
\<close>

section \<open>One fence attempt\<close>

datatype server_error =
    SeTransport string
  | SeConsensus consensus_error
  | SeCore core_error
  | WatchPanic string
  | WatchStreamClosed
  | ReflectionInit

definition fence_serving_floor :: "u64 \<Rightarrow> u64 \<Rightarrow> u64" where
  "fence_serving_floor prior_max now = max (saturating_add prior_max 1) now"

definition fence_requested :: "server_config \<Rightarrow> u64 \<Rightarrow> u64" where
  "fence_requested cfg serving_floor = saturating_add serving_floor (as_millis (cf_failover_advance cfg))"

text \<open>From the driver's answer on: seed both gates and the leases, then publish.\<close>

definition fence_seed ::
  "u64 \<Rightarrow> u64 \<Rightarrow> epoch \<Rightarrow> lease_record list \<Rightarrow> u64 \<Rightarrow> serving_core \<Rightarrow> (server_error, unit) result \<times> serving_core" where
  "fence_seed serving_floor actual epoch rs now c =
     (case seed_on_leadership_gained serving_floor actual epoch c of
        (Inl e, c') \<Rightarrow> (Inl (SeCore e), c')
      | (Inr _, c') \<Rightarrow> (Inr (), publish_serving (seed_leases rs now c')))"

definition fence_attempt ::
  "server_config \<Rightarrow> 's consensus_driver \<Rightarrow> u64 \<Rightarrow> epoch \<Rightarrow> 's server \<Rightarrow> (server_error, unit) result \<times> 's server" where
  "fence_attempt cfg drv now epoch sv =
     (case drv_load_high_water drv (sv_driver sv) of
        (Inl e, s1) \<Rightarrow> (Inl (SeConsensus e), sv\<lparr>sv_driver := s1\<rparr>)
      | (Inr prior_max, s1) \<Rightarrow>
          (let (lr, s2) = drv_load_leases drv s1
           in case (case lr of Inl LeasesUnsupported \<Rightarrow> Inr [] | _ \<Rightarrow> lr) of
             Inl e \<Rightarrow> (Inl (SeConsensus e), sv\<lparr>sv_driver := s2\<rparr>)
           | Inr rs \<Rightarrow>
               (let serving_floor = fence_serving_floor prior_max now
                in case drv_persist_high_water drv (fence_requested cfg serving_floor) epoch s2 of
                  (Inl e, s3) \<Rightarrow> (Inl (SeConsensus e), sv\<lparr>sv_driver := s3\<rparr>)
                | (Inr actual, s3) \<Rightarrow>
                    (let (r, c') = fence_seed serving_floor actual epoch rs now (sv_core sv)
                     in (r, \<lparr>sv_core = c', sv_driver = s3\<rparr>)))))"

section \<open>The retry loop\<close>

definition FENCE_RETRY_BASE :: duration where "FENCE_RETRY_BASE = 25 * 1000000"
definition FENCE_RETRY_CAP :: duration where "FENCE_RETRY_CAP = 250 * 1000000"

text \<open>
  \<open>saturating_mul\<close> saturates at \<open>Duration::MAX\<close> (the product here is at most 25 ms times
  65536 and never does).
\<close>

definition fence_backoff :: "nat \<Rightarrow> duration" where
  "fence_backoff transient_retries =
     min (FENCE_RETRY_BASE * 2 ^ min (transient_retries - 1) 16) FENCE_RETRY_CAP"

definition FENCE_TRANSIENT_RETRY_WARN_AFTER :: nat where "FENCE_TRANSIENT_RETRY_WARN_AFTER = 8"
definition FENCE_TRANSIENT_RETRY_WARN_INTERVAL :: nat where "FENCE_TRANSIENT_RETRY_WARN_INTERVAL = 20"

definition warn_on_stuck_fence :: "nat \<Rightarrow> bool" where
  "warn_on_stuck_fence transient_retries \<longleftrightarrow>
     transient_retries \<ge> FENCE_TRANSIENT_RETRY_WARN_AFTER
     \<and> (transient_retries - FENCE_TRANSIENT_RETRY_WARN_AFTER) mod FENCE_TRANSIENT_RETRY_WARN_INTERVAL = 0"

text \<open>What ends the wait after a transient failure.\<close>

datatype retry_event = RetrySleep | RetryEvent leader_state | RetryCancel | RetryClosed

datatype fence_exit =
    FenceServing
  | FenceNotServing
  | FencePending leader_state
  | FenceStopped
  | FenceFatal server_error
  | FenceRetrying nat

fun permanent_cause :: "consensus_error \<Rightarrow> consensus_error" where
  "permanent_cause (PermanentDriver s) = PermanentDriver s"
| "permanent_cause e = PermanentDriver ''dense or lease error''"

fun fence_loop ::
  "server_config \<Rightarrow> 's consensus_driver \<Rightarrow> epoch \<Rightarrow> (u64 \<times> retry_event) list \<Rightarrow> nat \<Rightarrow> 's server
     \<Rightarrow> fence_exit \<times> 's server" where
  "fence_loop cfg drv epoch [] transient_retries sv = (FenceRetrying transient_retries, sv)"
| "fence_loop cfg drv epoch ((now, ev) # env) transient_retries sv =
     (case fence_attempt cfg drv now epoch sv of
        (Inr _, sv') \<Rightarrow> (FenceServing, sv')
      | (Inl (SeConsensus e), sv') \<Rightarrow>
          (case classify e of
             SteppedDown _ \<Rightarrow>
               (FenceNotServing, sv'\<lparr>sv_core := publish_not_serving None None (sv_core sv')\<rparr>)
           | Transient _ \<Rightarrow>
               (case ev of
                  RetrySleep \<Rightarrow> fence_loop cfg drv epoch env (Suc transient_retries) sv'
                | RetryEvent evt \<Rightarrow> (FencePending evt, sv')
                | RetryCancel \<Rightarrow> (FenceStopped, sv'\<lparr>sv_core := sc_step_down None None (sv_core sv')\<rparr>)
                | RetryClosed \<Rightarrow> (FenceFatal WatchStreamClosed, sv'))
           | Permanent cause \<Rightarrow> (FenceFatal (SeConsensus (permanent_cause cause)), sv')
           | DispOutOfRange at_least \<Rightarrow> (FenceFatal (SeConsensus (AdvanceOutOfRange at_least)), sv'))
      | (Inl e, sv') \<Rightarrow> (FenceFatal e, sv'))"

section \<open>The watch loop\<close>

text \<open>What the wait for the next event returns.\<close>

datatype watch_next = WatchEvent leader_state | WatchCancel | WatchClosed

datatype watch_exit = WatchOk | WatchErr server_error | WatchRunning

definition watch_dispatch ::
  "server_config \<Rightarrow> 's consensus_driver \<Rightarrow> leader_state \<Rightarrow> (u64 \<times> retry_event) list \<Rightarrow> 's server
     \<Rightarrow> fence_exit \<times> 's server" where
  "watch_dispatch cfg drv evt env sv =
     (case evt of
        LsLeader epoch \<Rightarrow> fence_loop cfg drv epoch env 0 (sv\<lparr>sv_core := enter_fencing (sv_core sv)\<rparr>)
      | LsFollower endpoint epoch \<Rightarrow>
          (FenceNotServing, sv\<lparr>sv_core := sc_step_down endpoint epoch (sv_core sv)\<rparr>)
      | LsUnknown \<Rightarrow> (FenceNotServing, sv\<lparr>sv_core := sc_step_down None None (sv_core sv)\<rparr>))"

text \<open>One input per iteration: the next event when none is pending, and the retry
  environment of a fence it may start.\<close>

fun run_leader_watch ::
  "server_config \<Rightarrow> 's consensus_driver \<Rightarrow> leader_state option
     \<Rightarrow> (watch_next \<times> (u64 \<times> retry_event) list) list \<Rightarrow> 's server \<Rightarrow> watch_exit \<times> 's server" where
  "run_leader_watch cfg drv pending [] sv = (WatchRunning, sv)"
| "run_leader_watch cfg drv pending ((nxt, env) # inputs) sv =
     (case (case pending of Some evt \<Rightarrow> WatchEvent evt | None \<Rightarrow> nxt) of
        WatchCancel \<Rightarrow> (WatchOk, sv\<lparr>sv_core := sc_step_down None None (sv_core sv)\<rparr>)
      | WatchClosed \<Rightarrow> (WatchErr WatchStreamClosed, sv)
      | WatchEvent evt \<Rightarrow>
          (case watch_dispatch cfg drv evt env sv of
             (FencePending evt', sv') \<Rightarrow> run_leader_watch cfg drv (Some evt') inputs sv'
           | (FenceStopped, sv') \<Rightarrow> (WatchOk, sv')
           | (FenceFatal e, sv') \<Rightarrow> (WatchErr e, sv')
           | (FenceRetrying _, sv') \<Rightarrow> (WatchRunning, sv')
           | (_, sv') \<Rightarrow> run_leader_watch cfg drv None inputs sv'))"

text \<open>The spawned task poisons the core when the watch ends with an error.\<close>

definition watch_task ::
  "server_config \<Rightarrow> 's consensus_driver \<Rightarrow> (watch_next \<times> (u64 \<times> retry_event) list) list \<Rightarrow> 's server
     \<Rightarrow> watch_exit \<times> 's server" where
  "watch_task cfg drv inputs sv =
     (case run_leader_watch cfg drv None inputs sv of
        (WatchErr e, sv') \<Rightarrow> (WatchErr e, sv'\<lparr>sv_core := sc_step_down None None (sv_core sv')\<rparr>)
      | r \<Rightarrow> r)"

section \<open>The server as an issuer\<close>

datatype srv_cmd =
    SrvGetTs u64 u32
  | SrvGetSeq str u32
  | SrvGetSeqBatch "(str \<times> u32) list"
  | SrvAcquire u64 bytes u64 u64
  | SrvRenew u64 u64
  | SrvRelease u64 u64
  | SrvEvent leader_state "(u64 \<times> retry_event) list"
  | SrvPoison

text \<open>One command, with the timestamp blocks it hands out.\<close>

fun srv_step ::
  "server_config \<Rightarrow> 's consensus_driver \<Rightarrow> 's server \<Rightarrow> srv_cmd \<Rightarrow> window_grant list \<times> 's server" where
  "srv_step cfg drv sv (SrvGetTs now count) =
     (case get_ts_grant cfg drv now count sv of (Inl _, sv') \<Rightarrow> ([], sv') | (Inr g, sv') \<Rightarrow> ([g], sv'))"
| "srv_step cfg drv sv (SrvGetSeq key count) = ([], snd (get_seq drv key count sv))"
| "srv_step cfg drv sv (SrvGetSeqBatch es) = ([], snd (get_seq_batch drv es sv))"
| "srv_step cfg drv sv (SrvAcquire now h he ttl) = ([], snd (acquire_lease cfg drv now h he ttl sv))"
| "srv_step cfg drv sv (SrvRenew now i) = ([], snd (renew_lease drv now i sv))"
| "srv_step cfg drv sv (SrvRelease now i) = ([], snd (release_lease drv now i sv))"
| "srv_step cfg drv sv (SrvEvent evt env) = ([], snd (watch_dispatch cfg drv evt env sv))"
| "srv_step cfg drv sv SrvPoison = ([], sv\<lparr>sv_core := sc_step_down None None (sv_core sv)\<rparr>)"

section \<open>Invariant and position\<close>

text \<open>
  The committed bound of a leading allocator never exceeds what the driver has
  acknowledged. The position is the cursor while leading, and the first timestamp above
  the acknowledged high-water otherwise.
\<close>

definition srv_inv :: "('s \<Rightarrow> u64) \<Rightarrow> ('s \<Rightarrow> bool) \<Rightarrow> 's server \<Rightarrow> bool" where
  "srv_inv acked rinv sv \<longleftrightarrow> alloc_ok (sc_allocator (sv_core sv)) \<and> rinv (sv_driver sv)
     \<and> acked (sv_driver sv) \<le> PHYSICAL_MS_MAX
     \<and> (case alloc_committed_high_water (sc_allocator (sv_core sv)) of
          None \<Rightarrow> True | Some hw \<Rightarrow> hw \<le> acked (sv_driver sv))"

definition srv_pos :: "('s \<Rightarrow> u64) \<Rightarrow> 's server \<Rightarrow> nat" where
  "srv_pos acked sv = (case alloc_state (sc_allocator (sv_core sv)) of
     NotLeader \<Rightarrow> (unat (acked (sv_driver sv)) + 1) * 262144
   | Leader e hw np nl \<Rightarrow> position np nl)"

lemma server_both [simp]:
  fixes sv :: "'s server"
  shows "sv\<lparr>sv_driver := s, sv_core := c\<rparr> = \<lparr>sv_core = c, sv_driver = s\<rparr>"
    and "sv\<lparr>sv_core := c, sv_driver := s\<rparr> = \<lparr>sv_core = c, sv_driver = s\<rparr>"
  by (cases sv; simp)+

lemma leader_cursor_bound:
  assumes "state_ok (Leader e hw np nl)"
  shows "position np nl \<le> (unat hw + 1) * 262144"
proof -
  have "unat (hw + 1) = unat hw + 1" using assms by (simp add: unat_succ_in_range)
  then have "unat np < unat hw + 1 \<or> unat np = unat hw + 1 \<and> unat nl = 0" "unat nl \<le> 262143"
    using assms by (auto simp: word_le_nat_alt word_unat_eq_iff)
  then show ?thesis by (auto simp: position_def)
qed

lemma get_seq_frame:
  "snd (get_seq drv key count sv) = sv
   \<or> (\<exists>k e. snd (get_seq drv key count sv) = sv\<lparr>sv_driver := snd (drv_advance_dense drv k count e (sv_driver sv))\<rparr>)"
  by (auto simp: get_seq_def Let_def split_beta split: sum.split option.split)

lemma get_seq_batch_frame:
  "snd (get_seq_batch drv es sv) = sv
   \<or> (\<exists>vs e. snd (get_seq_batch drv es sv) = sv\<lparr>sv_driver := snd (drv_advance_dense_batch drv vs e (sv_driver sv))\<rparr>)"
  by (auto simp: get_seq_batch_def Let_def split_beta split: sum.split option.split)

lemma lease_commit_allocator:
  "lease_commit u s d e now c = (r, c') \<Longrightarrow> sc_allocator c' = sc_allocator c"
  by (auto simp: lease_commit_def Let_def split: sum.splits)

lemma fence_seed_core:
  assumes "fence_seed fl ac e rs now c = (r, c')"
  shows "case r of Inl _ \<Rightarrow> sc_allocator c' = sc_allocator c
    | Inr _ \<Rightarrow> fl \<le> ac \<and> ac \<le> PHYSICAL_MS_MAX \<and> alloc_state (sc_allocator c') = Leader e ac fl 0"
  using assms
  by (auto simp: fence_seed_def seed_on_leadership_gained_def alloc_become_leader_def publish_serving_def
      seed_leases_def less_physical_ms_def pms_try_new_def split: sum.splits prod.splits if_splits)

locale tso_driver =
  high_water_register "drv_persist_high_water drv" "drv_load_high_water drv" acked rinv
  for drv :: "'s consensus_driver" and acked rinv +
  assumes acked_in_range: "rinv s \<Longrightarrow> acked s \<le> PHYSICAL_MS_MAX"
    and advance_frame: "rinv s \<Longrightarrow> rinv (snd (drv_advance_dense drv k n e s))
          \<and> acked s \<le> acked (snd (drv_advance_dense drv k n e s))"
    and batch_frame: "rinv s \<Longrightarrow> rinv (snd (drv_advance_dense_batch drv es e s))
          \<and> acked s \<le> acked (snd (drv_advance_dense_batch drv es e s))"
    and load_leases_frame: "rinv s \<Longrightarrow> rinv (snd (drv_load_leases drv s))
          \<and> acked s \<le> acked (snd (drv_load_leases drv s))"
    and persist_leases_frame: "rinv s \<Longrightarrow> rinv (snd (drv_persist_leases drv rs e s))
          \<and> acked s \<le> acked (snd (drv_persist_leases drv rs e s))"
begin

definition advances :: "'s server \<Rightarrow> 's server \<Rightarrow> bool" where
  "advances sv sv' \<longleftrightarrow>
     (srv_inv acked rinv sv \<longrightarrow> srv_inv acked rinv sv' \<and> srv_pos acked sv \<le> srv_pos acked sv')"

lemma advances_refl [simp]: "advances sv sv"
  by (simp add: advances_def)

lemma advances_trans: "advances a b \<Longrightarrow> advances b c \<Longrightarrow> advances a c"
  by (auto simp: advances_def)

text \<open>The core of the server: only its allocator matters.\<close>

lemma advances_core:
  "sc_allocator c = sc_allocator (sv_core sv) \<Longrightarrow> advances sv (sv\<lparr>sv_core := c\<rparr>)"
  by (simp add: advances_def srv_inv_def srv_pos_def split: option.splits alloc_state.splits)

lemma advances_driver:
  assumes "rinv (sv_driver sv) \<Longrightarrow> rinv s' \<and> acked (sv_driver sv) \<le> acked s'"
  shows "advances sv (sv\<lparr>sv_driver := s'\<rparr>)"
  using assms acked_in_range [of s']
  by (auto simp: advances_def srv_inv_def srv_pos_def word_le_nat_alt split: option.splits alloc_state.splits)

lemma advances_step_down: "advances sv (sv\<lparr>sv_core := sc_step_down ep eo (sv_core sv)\<rparr>)"
proof (cases "alloc_state (sc_allocator (sv_core sv))")
  case (Leader e hw np nl)
  then show ?thesis
    using leader_cursor_bound [of e hw np nl]
    by (auto simp: advances_def srv_inv_def srv_pos_def sc_step_down_def alloc_step_down_def alloc_ok_def
        alloc_committed_high_water_def word_le_nat_alt intro: order_trans)
qed (auto simp: advances_def srv_inv_def srv_pos_def sc_step_down_def alloc_step_down_def alloc_ok_def
    alloc_committed_high_water_def)

lemma advances_persist_error:
  "persist_error_status err (sv_core sv) = (st, c') \<Longrightarrow> advances sv (sv\<lparr>sv_core := c'\<rparr>)"
  using advances_step_down [of sv]
  by (auto simp: persist_error_status_def Let_def split: persist_disposition.splits)

lemma advances_commit:
  assumes "v \<le> acked (sv_driver sv)" "commit_extension v e (sv_core sv) = (r, c')"
  shows "advances sv (sv\<lparr>sv_core := c'\<rparr>)"
proof (cases "v \<le> PHYSICAL_MS_MAX")
  case True
  let ?a = "sc_allocator (sv_core sv)"
  obtain a where a: "alloc_try_commit_window_extension (PhysicalMs v) e ?a = (r, a)"
      "c' = (sv_core sv)\<lparr>sc_allocator := a\<rparr>"
    using assms(2) True by (auto simp: commit_extension_def Let_def split: prod.splits)
  have ok: "alloc_ok ?a \<Longrightarrow> alloc_ok a" using commit_extension_ok [OF _ _ a(1)] True by (simp add: pms_ok_def)
  show ?thesis
    using a ok assms(1)
    by (cases "alloc_state ?a") (auto simp: advances_def srv_inv_def srv_pos_def
        alloc_try_commit_window_extension_def alloc_committed_high_water_def Let_def split: if_splits)
qed (use assms(2) in \<open>auto simp: commit_extension_def\<close>)

lemma persist_frame:
  assumes "rinv s" "drv_persist_high_water drv a e s = (r, s')"
  shows "rinv s' \<and> acked s \<le> acked s'"
  using persist_inv [OF assms(1), of a e] persist_mono [OF assms(1), of a e] assms(2) by simp

text \<open>Persisting a bound and then committing the driver's answer.\<close>

lemma advances_persist_then_commit:
  assumes "drv_persist_high_water drv a e (sv_driver sv) = (Inr v, s')"
    and "commit_extension v e (sv_core sv) = (r, c')"
  shows "advances sv \<lparr>sv_core = c', sv_driver = s'\<rparr>"
proof (cases "srv_inv acked rinv sv")
  case True
  then have i: "rinv (sv_driver sv)" by (simp add: srv_inv_def)
  let ?sv = "sv\<lparr>sv_driver := s'\<rparr>"
  have "advances sv ?sv" using persist_frame [OF i assms(1)] by (intro advances_driver) simp
  moreover have "advances ?sv (?sv\<lparr>sv_core := c'\<rparr>)"
    using persist_covers(3) [OF i assms(1)] assms(2) by (intro advances_commit [of v]) simp_all
  ultimately show ?thesis using advances_trans by simp
qed (simp add: advances_def)

lemma advances_persist_then_error:
  assumes "drv_persist_high_water drv a e (sv_driver sv) = (Inl err, s')"
    and "persist_error_status err (sv_core sv) = (st, c')"
  shows "advances sv \<lparr>sv_core = c', sv_driver = s'\<rparr>"
proof -
  let ?sv = "sv\<lparr>sv_driver := s'\<rparr>"
  have "advances sv ?sv" using persist_frame [OF _ assms(1)] by (intro advances_driver) simp
  moreover have "advances ?sv (?sv\<lparr>sv_core := c'\<rparr>)" using assms(2) by (intro advances_persist_error) simp
  ultimately show ?thesis using advances_trans by simp
qed

section \<open>Handlers\<close>

lemma extend_window_advances:
  assumes "extend_window cfg drv now count sv = (r, sv')"
  shows "advances sv sv'"
proof -
  consider "sv' = sv" | q e outcome s' c' where
      "drv_persist_high_water drv q e (sv_driver sv) = (outcome, s')"
      "extend_complete outcome e (sv_core sv) = (r, c')" "sv' = \<lparr>sv_core = c', sv_driver = s'\<rparr>"
    using assms by (auto simp: extend_window_def Let_def split: sum.splits option.splits prod.splits)
  then show ?thesis
  proof cases
    case 2
    show ?thesis
    proof (cases outcome)
      case (Inl err)
      with 2 show ?thesis
        using advances_persist_then_error by (auto simp: extend_complete_def Let_def split: prod.splits)
    next
      case (Inr v)
      with 2(2) obtain r' where "commit_extension v e (sv_core sv) = (r', c')"
        by (auto simp: extend_complete_def split: prod.splits sum.splits)
      with 2 Inr show ?thesis using advances_persist_then_commit by auto
    qed
  qed simp
qed

lemma persist_and_commit_advances:
  assumes "persist_and_commit drv q e sv = (r, sv')"
  shows "advances sv sv'"
proof (cases "drv_persist_high_water drv q e (sv_driver sv)")
  case (Pair outcome s')
  show ?thesis
  proof (cases outcome)
    case (Inl err)
    with Pair assms advances_persist_then_error [of q e sv err s'] show ?thesis
      by (auto simp: persist_and_commit_def persist_bound_def Let_def split: prod.splits)
  next
    case (Inr v)
    obtain r' c' where c: "commit_extension v e (sv_core sv) = (r', c')" by fastforce
    with Pair Inr assms have "sv' = \<lparr>sv_core = c', sv_driver = s'\<rparr>"
      by (auto simp: persist_and_commit_def persist_bound_def split: sum.splits commit_outcome.splits)
    with Pair Inr c advances_persist_then_commit show ?thesis by simp
  qed
qed

lemma bound_advances:
  "persist_extension_bound drv now ttl sv = (r, sv') \<Longrightarrow> advances sv sv'"
  "persist_renewal_bound drv now ttl sv = (r, sv') \<Longrightarrow> advances sv sv'"
  by (auto simp: persist_extension_bound_def persist_renewal_bound_def dest: persist_and_commit_advances
      split: sum.splits if_splits)

lemma advances_lease_outcome:
  "lease_set_outcome r (sv_core sv) = (x, c') \<Longrightarrow> advances sv (sv\<lparr>sv_core := c'\<rparr>)"
  by (auto simp: lease_set_outcome_def Let_def intro: advances_core dest: advances_persist_error
      split: sum.splits consensus_error.splits prod.splits)

lemma persist_lease_set_advances:
  assumes "persist_lease_set drv rs e sv = (r, sv')"
  shows "advances sv sv'"
proof -
  obtain o' s' where p: "drv_persist_leases drv rs e (sv_driver sv) = (o', s')" by fastforce
  obtain c' where c: "lease_set_outcome o' (sv_core sv) = (r, c')" "sv' = \<lparr>sv_core = c', sv_driver = s'\<rparr>"
    using assms p by (auto simp: persist_lease_set_def Let_def split: prod.splits)
  have "advances sv (sv\<lparr>sv_driver := s'\<rparr>)"
    using persist_leases_frame [of "sv_driver sv" rs e] p by (intro advances_driver) simp
  with advances_lease_outcome [of o' "sv\<lparr>sv_driver := s'\<rparr>" r c'] c show ?thesis
    using advances_trans by simp
qed

lemma persist_lease_mutation_advances:
  assumes "persist_lease_mutation drv m e now sv = (r, sv')"
  shows "advances sv sv'"
proof (cases "lease_projected_live_set (lm_upsert m) (lm_supersede m) (lm_remove m) e now (sv_core sv)")
  case (Inl err)
  with assms show ?thesis by (simp add: persist_lease_mutation_def)
next
  case (Inr rs)
  obtain r1 sv1 where p: "persist_lease_set drv rs e sv = (r1, sv1)" by fastforce
  then have a: "advances sv sv1" by (rule persist_lease_set_advances)
  show ?thesis
  proof (cases r1)
    case (Inl st)
    with assms Inr p a show ?thesis by (simp add: persist_lease_mutation_def)
  next
    case r1: (Inr u)
    obtain r2 c' where c: "lease_commit (lm_upsert m) (lm_supersede m) (lm_remove m) e now (sv_core sv1) = (r2, c')"
      by fastforce
    with assms Inr p r1 have "sv' = sv1\<lparr>sv_core := c'\<rparr>"
      by (auto simp: persist_lease_mutation_def split: sum.splits)
    with advances_core [OF lease_commit_allocator [OF c]] a advances_trans show ?thesis by blast
  qed
qed

lemma acquire_lease_advances:
  assumes "acquire_lease cfg drv now h he ttl sv = (r, sv')"
  shows "advances sv sv'"
proof -
  consider "sv' = sv"
    | st where "persist_extension_bound drv now ttl sv = (Inl st, sv')"
    | a e m sv1 r2 where "persist_extension_bound drv now ttl sv = (Inr (a, e), sv1)"
        "persist_lease_mutation drv m e now sv1 = (r2, sv')"
    using assms
    by (auto simp: acquire_lease_def Let_def split: sum.splits prod.splits acquire_decision.splits)
  then show ?thesis
    by cases (use bound_advances(1) persist_lease_mutation_advances advances_trans advances_refl in blast)+
qed

lemma renew_lease_advances:
  assumes "renew_lease drv now i sv = (r, sv')"
  shows "advances sv sv'"
proof -
  consider "sv' = sv"
    | ttl st where "persist_renewal_bound drv now ttl sv = (Inl st, sv')"
    | ttl a e m sv1 r2 where "persist_renewal_bound drv now ttl sv = (Inr (a, e), sv1)"
        "persist_lease_mutation drv m e now sv1 = (r2, sv')"
    using assms by (auto simp: renew_lease_def Let_def split: sum.splits prod.splits)
  then show ?thesis
    by cases (use bound_advances(2) persist_lease_mutation_advances advances_trans advances_refl in blast)+
qed

lemma release_lease_advances:
  "release_lease drv now i sv = (r, sv') \<Longrightarrow> advances sv sv'"
  by (auto simp: release_lease_def Let_def dest: persist_lease_mutation_advances
      split: sum.splits option.splits)

lemma get_seq_advances: "get_seq drv key count sv = (r, sv') \<Longrightarrow> advances sv sv'"
  using get_seq_frame [of drv key count sv] advance_frame [of "sv_driver sv"]
  by (auto intro!: advances_driver)

lemma get_seq_batch_advances: "get_seq_batch drv es sv = (r, sv') \<Longrightarrow> advances sv sv'"
  using get_seq_batch_frame [of drv es sv] batch_frame [of "sv_driver sv"]
  by (auto intro!: advances_driver)

section \<open>The fence\<close>

lemma fence_attempt_advances:
  assumes "fence_attempt cfg drv now e sv = (r, sv')"
  shows "advances sv sv'"
proof (cases "srv_inv acked rinv sv")
  case inv: True
  then have i0: "rinv (sv_driver sv)" by (simp add: srv_inv_def)
  obtain r1 s1 where l: "drv_load_high_water drv (sv_driver sv) = (r1, s1)" by fastforce
  have f1: "rinv s1 \<and> acked (sv_driver sv) \<le> acked s1"
    using load_inv [OF i0] load_mono [OF i0] l by simp
  obtain r2 s2 where ll: "drv_load_leases drv s1 = (r2, s2)" by fastforce
  have f2: "rinv s2 \<and> acked (sv_driver sv) \<le> acked s2"
    using load_leases_frame [of s1] f1 ll by auto
  show ?thesis
  proof (cases "\<exists>pm rs. r1 = Inr pm \<and> (case r2 of Inl LeasesUnsupported \<Rightarrow> Inr [] | _ \<Rightarrow> r2) = Inr rs")
    case False
    then have "sv' = sv\<lparr>sv_driver := s1\<rparr> \<or> sv' = sv\<lparr>sv_driver := s2\<rparr>"
      using assms l ll by (auto simp: fence_attempt_def Let_def split: sum.splits)
    then show ?thesis using f1 f2 by (auto intro!: advances_driver)
  next
    case True
    then obtain pm rs where pm: "r1 = Inr pm" "(case r2 of Inl LeasesUnsupported \<Rightarrow> Inr [] | _ \<Rightarrow> r2) = Inr rs"
      by blast
    have p: "pm = acked (sv_driver sv)" "pm \<le> PHYSICAL_MS_MAX" using load_returns [OF i0] l pm(1) by auto
    let ?fl = "fence_serving_floor pm now"
    have fl: "unat pm + 1 \<le> unat ?fl"
      using p(2) by (auto simp: fence_serving_floor_def to_nat)
    obtain r3 s3 where ps: "drv_persist_high_water drv (fence_requested cfg ?fl) e s2 = (r3, s3)" by fastforce
    have f3: "rinv s3 \<and> acked (sv_driver sv) \<le> acked s3" using persist_frame [OF _ ps] f2 by auto
    show ?thesis
    proof (cases r3)
      case (Inl err)
      then have "sv' = sv\<lparr>sv_driver := s3\<rparr>"
        using assms l ll pm ps by (simp add: fence_attempt_def Let_def)
      with f3 show ?thesis by (auto intro!: advances_driver)
    next
      case (Inr ac)
      obtain c' where sd: "fence_seed ?fl ac e rs now (sv_core sv) = (r, c')" and sv': "sv' = \<lparr>sv_core = c', sv_driver = s3\<rparr>"
        using assms l ll pm ps Inr by (auto simp: fence_attempt_def Let_def split: prod.splits)
      have ac: "acked s3 = ac" using persist_covers(3) ps Inr f2 by blast
      show ?thesis
      proof (cases r)
        case (Inl x)
        with fence_seed_core [OF sd] have "sc_allocator c' = sc_allocator (sv_core sv)" by simp
        with advances_trans [OF advances_driver [of sv s3] advances_core [of c' "sv\<lparr>sv_driver := s3\<rparr>"]] f3 sv'
        show ?thesis by simp
      next
        case (Inr x)
        with fence_seed_core [OF sd]
        have st: "?fl \<le> ac" "ac \<le> PHYSICAL_MS_MAX" "alloc_state (sc_allocator c') = Leader e ac ?fl 0" by simp_all
        have "srv_pos acked sv \<le> (unat (acked (sv_driver sv)) + 1) * 262144"
          using inv leader_cursor_bound by (cases "alloc_state (sc_allocator (sv_core sv))")
            (fastforce simp: srv_pos_def srv_inv_def alloc_ok_def alloc_committed_high_water_def word_le_nat_alt)+
        also have "\<dots> \<le> position ?fl 0" using fl p(1) by (simp add: position_def)
        finally have "srv_pos acked sv \<le> srv_pos acked sv'" by (simp add: srv_pos_def sv' st(3))
        moreover have "srv_inv acked rinv sv'"
          using st f3 ac unat_succ_in_range [OF st(2)]
          by (auto simp: srv_inv_def sv' alloc_ok_def alloc_committed_high_water_def word_le_nat_alt word_unat_eq_iff)
        ultimately show ?thesis by (simp add: advances_def)
      qed
    qed
  qed
qed (simp add: advances_def)

lemma fence_loop_advances:
  "fence_loop cfg drv e env n sv = (x, sv') \<Longrightarrow> advances sv sv'"
proof (induction env arbitrary: n sv)
  case (Cons t env)
  obtain now ev where t: "t = (now, ev)" by (cases t)
  obtain r sv1 where a: "fence_attempt cfg drv now e sv = (r, sv1)" by fastforce
  then have a1: "advances sv sv1" by (rule fence_attempt_advances)
  have "advances sv1 sv'"
    using Cons.prems a t Cons.IH [of "Suc n" sv1] advances_step_down [of sv1 None None]
    by (auto simp: publish_not_serving_def intro: advances_core
        split: sum.splits server_error.splits persist_disposition.splits retry_event.splits)
  with a1 show ?case by (rule advances_trans)
qed simp

lemma watch_dispatch_advances:
  "watch_dispatch cfg drv evt env sv = (x, sv') \<Longrightarrow> advances sv sv'"
  using advances_step_down [of sv] fence_loop_advances advances_trans
  by (auto simp: watch_dispatch_def enter_fencing_def split: leader_state.splits) blast

section \<open>Issuing\<close>

lemma grant_step:
  assumes inv: "srv_inv acked rinv sv" and g: "sc_try_grant now count (sv_core sv) = (Inr g, c')"
  shows "srv_inv acked rinv (sv\<lparr>sv_core := c'\<rparr>) \<and> wg_ok g \<and> srv_pos acked sv \<le> wg_lo g \<and> wg_lo g \<le> wg_hi g
     \<and> wg_hi g < srv_pos acked (sv\<lparr>sv_core := c'\<rparr>)"
proof -
  let ?a = "sc_allocator (sv_core sv)"
  obtain a where a: "alloc_try_grant now count ?a = (Inr g, a)" "c' = (sv_core sv)\<lparr>sc_allocator := a\<rparr>"
    using g by (auto simp: sc_try_grant_def Let_def split: prod.splits)
  have ok: "alloc_ok ?a" using inv by (simp add: srv_inv_def)
  note sp = try_grant_spec [OF a(1) ok]
  obtain e hw np nl np' nl' where st: "alloc_state ?a = Leader e hw np nl" "alloc_state a = Leader e hw np' nl'"
    using try_grant_InrE [OF a(1) ok] by (metis allocator.select_convs(1) allocator.update_convs(1) allocator.surjective)
  from sp st inv show ?thesis
    by (auto simp: srv_inv_def srv_pos_def a(2) alloc_committed_high_water_def alloc_cursor_def wg_hi_def wg_ok_def)
qed

lemma get_ts_attempt_cases:
  assumes "get_ts_attempt now count k c = (r, c')"
  shows "(\<exists>g. r = Some (Inr g) \<and> sc_try_grant now count c = (Inr g, c'))
     \<or> c' = c \<and> (r = None \<and> k = 0 \<or> (\<exists>st. r = Some (Inl st)))"
proof -
  have "c' = c" if "sc_try_grant now count c = (Inl e, c')" for e
    using that by (auto simp: sc_try_grant_def Let_def dest: try_grant_error_unchanged split: prod.splits)
  with assms show ?thesis
    by (cases "sc_try_grant now count c")
      (auto simp: get_ts_attempt_def split: sum.splits core_error.splits if_splits)
qed

lemma get_ts_grant_step:
  assumes inv: "srv_inv acked rinv sv" and g: "get_ts_grant cfg drv now count sv = (r, sv')"
  shows "srv_inv acked rinv sv' \<and> srv_pos acked sv \<le> srv_pos acked sv'
     \<and> (case r of Inl _ \<Rightarrow> True
        | Inr x \<Rightarrow> wg_ok x \<and> srv_pos acked sv \<le> wg_lo x \<and> wg_lo x \<le> wg_hi x \<and> wg_hi x < srv_pos acked sv')"
proof -
  consider (same) st where "r = Inl st" "sv' = sv"
    | (first) x c where "sc_try_grant now count (sv_core sv) = (Inr x, c)" "r = Inr x" "sv' = sv\<lparr>sv_core := c\<rparr>"
    | (ext) r1 sv1 where "extend_window cfg drv now count sv = (r1, sv1)"
        "(\<exists>st. r = Inl st) \<and> sv' = sv1
         \<or> (\<exists>x c. sc_try_grant now count (sv_core sv1) = (Inr x, c) \<and> r = Inr x \<and> sv' = sv1\<lparr>sv_core := c\<rparr>)"
  proof (cases "count = 0 \<or> \<not> is_serving (sv_core sv)")
    case True
    then show ?thesis
      by (rule disjE) (use g in \<open>auto simp: get_ts_grant_def intro: same split: if_splits\<close>)
  next
    case False
    obtain r0 c0 where a0: "get_ts_attempt now count 0 (sv_core sv) = (r0, c0)" by fastforce
    note c0 = get_ts_attempt_cases [OF a0]
    show ?thesis
    proof (cases r0)
      case (Some y)
      with c0 a0 g False show ?thesis
        by (cases y) (auto simp: get_ts_grant_def intro: same first)
    next
      case None
      then have "c0 = sv_core sv" using c0 by auto
      obtain r1 sv1 where e: "extend_window cfg drv now count sv = (r1, sv1)" by fastforce
      obtain r2 c2 where a1: "get_ts_attempt now count 1 (sv_core sv1) = (r2, c2)" by fastforce
      have "(\<exists>st. r = Inl st) \<and> sv' = sv1
         \<or> (\<exists>x c. sc_try_grant now count (sv_core sv1) = (Inr x, c) \<and> r = Inr x \<and> sv' = sv1\<lparr>sv_core := c\<rparr>)"
        using get_ts_attempt_cases [OF a1] None \<open>c0 = sv_core sv\<close> a0 a1 e g False
        by (cases r1; cases r2) (auto simp: get_ts_grant_def split: option.splits)
      with e show ?thesis by (rule ext)
    qed
  qed
  then show ?thesis
  proof cases
    case first
    with grant_step [OF inv first(1)] show ?thesis by auto
  next
    case ext
    from extend_window_advances [OF ext(1)] inv
    have a: "srv_inv acked rinv sv1" "srv_pos acked sv \<le> srv_pos acked sv1" by (simp_all add: advances_def)
    from ext(2) show ?thesis
    proof
      assume "\<exists>x c. sc_try_grant now count (sv_core sv1) = (Inr x, c) \<and> r = Inr x \<and> sv' = sv1\<lparr>sv_core := c\<rparr>"
      then obtain x c where x: "sc_try_grant now count (sv_core sv1) = (Inr x, c)" "r = Inr x" "sv' = sv1\<lparr>sv_core := c\<rparr>"
        by blast
      with grant_step [OF a(1) x(1)] a(2) show ?thesis by auto
    qed (use a in auto)
  qed (use inv in simp)
qed

lemma srv_step_facts:
  assumes inv: "srv_inv acked rinv sv" and st: "srv_step cfg drv sv c = (gs, sv')"
  shows "srv_inv acked rinv sv' \<and> srv_pos acked sv \<le> srv_pos acked sv' \<and> length gs \<le> 1
    \<and> (\<forall>g \<in> set gs. wg_ok g \<and> srv_pos acked sv \<le> wg_lo g \<and> wg_lo g \<le> wg_hi g \<and> wg_hi g < srv_pos acked sv')"
proof (cases c)
  case (SrvGetTs now count)
  obtain r where r: "get_ts_grant cfg drv now count sv = (r, sv')" "gs = (case r of Inl _ \<Rightarrow> [] | Inr g \<Rightarrow> [g])"
    using st SrvGetTs by (auto split: prod.splits sum.splits)
  with get_ts_grant_step [OF inv r(1)] show ?thesis by (auto split: sum.splits)
next
  case (SrvEvent evt env)
  with st have "gs = []" "\<exists>x. watch_dispatch cfg drv evt env sv = (x, sv')" by (auto simp: prod_eq_iff)
  with inv watch_dispatch_advances show ?thesis by (auto simp: advances_def)
next
  case SrvPoison
  with st inv advances_step_down [of sv None None] show ?thesis by (auto simp: advances_def)
next
  case (SrvGetSeq key count)
  with st have "gs = []" "\<exists>x. get_seq drv key count sv = (x, sv')" by (auto simp: prod_eq_iff)
  with inv get_seq_advances show ?thesis by (auto simp: advances_def)
next
  case (SrvGetSeqBatch es)
  with st have "gs = []" "\<exists>x. get_seq_batch drv es sv = (x, sv')" by (auto simp: prod_eq_iff)
  with inv get_seq_batch_advances show ?thesis by (auto simp: advances_def)
next
  case (SrvAcquire now h he ttl)
  with st have "gs = []" "\<exists>x. acquire_lease cfg drv now h he ttl sv = (x, sv')" by (auto simp: prod_eq_iff)
  with inv acquire_lease_advances show ?thesis by (auto simp: advances_def)
next
  case (SrvRenew now i)
  with st have "gs = []" "\<exists>x. renew_lease drv now i sv = (x, sv')" by (auto simp: prod_eq_iff)
  with inv renew_lease_advances show ?thesis by (auto simp: advances_def)
next
  case (SrvRelease now i)
  with st have "gs = []" "\<exists>x. release_lease drv now i sv = (x, sv')" by (auto simp: prod_eq_iff)
  with inv release_lease_advances show ?thesis by (auto simp: advances_def)
qed

end

end
