(* ===== verification/Records.thy ===== *)
theory Records
  imports Consensus
begin

text \<open>
  The on-disk formats of the file driver (\<open>tsoracle-driver-file\<close>: \<open>record.rs\<close>,
  \<open>framed_record.rs\<close>, \<open>dense_record.rs\<close>, \<open>lease_record.rs\<close>, \<open>validation.rs\<close>). The
  checksum \<open>crc32c\<close> comes from another package and is a parameter; nothing is assumed
  of it. Each format is shown to be a codec whose decoder accepts exactly the
  encodings.
\<close>

section \<open>Framing\<close>

definition HEADER_LEN :: nat where "HEADER_LEN = 5"
definition CRC_LEN :: nat where "CRC_LEN = 4"

datatype frame_error =
    FrameTooShort nat
  | FrameBadMagic bytes
  | FrameUnsupportedVersion u8
  | FrameChecksumMismatch u32 u32
  | FrameMalformed

definition framed_encode :: "(bytes \<Rightarrow> u32) \<Rightarrow> bytes \<Rightarrow> u8 \<Rightarrow> bytes \<Rightarrow> bytes" where
  "framed_encode crc32c magic version payload =
     (let buf = magic @ [version] @ payload in buf @ le32 (crc32c buf))"

definition framed_decode ::
  "(bytes \<Rightarrow> u32) \<Rightarrow> bytes \<Rightarrow> bytes \<Rightarrow> u8 \<Rightarrow> nat \<Rightarrow> (frame_error, bytes) result" where
  "framed_decode crc32c bs magic version minimum_len =
     (if length bs < minimum_len then Inl (FrameTooShort (length bs))
      else if slice 0 4 bs \<noteq> magic then Inl (FrameBadMagic (slice 0 4 bs))
      else if bs ! 4 \<noteq> version then Inl (FrameUnsupportedVersion (bs ! 4))
      else
        let body = take (length bs - CRC_LEN) bs;
            stored = un32 (drop (length bs - CRC_LEN) bs);
            computed = crc32c body
        in if stored \<noteq> computed then Inl (FrameChecksumMismatch stored computed)
           else Inr (drop HEADER_LEN body))"

section \<open>High-water record\<close>

definition rec_MAGIC :: bytes where "rec_MAGIC = lit ''TSOR''"
definition rec_VERSION :: u8 where "rec_VERSION = 1"
definition RECORD_LEN :: nat where "RECORD_LEN = 4 + 1 + 8 + 4"

datatype record_error =
    RecTooShort nat
  | RecBadMagic bytes
  | RecUnsupportedVersion u8
  | RecCrcMismatch u32 u32
  | RecTrailingBytes nat

definition record_encode :: "(bytes \<Rightarrow> u32) \<Rightarrow> u64 \<Rightarrow> bytes" where
  "record_encode crc32c high_water =
     (let head = rec_MAGIC @ [rec_VERSION] @ le64 high_water
      in head @ le32 (crc32c head))"

definition read_array :: "nat \<Rightarrow> bytes \<Rightarrow> nat \<Rightarrow> (record_error, bytes) result" where
  "read_array n bs start =
     (if start + n \<le> length bs then Inr (slice start (start + n) bs)
      else Inl (RecTooShort (length bs)))"

definition record_decode :: "(bytes \<Rightarrow> u32) \<Rightarrow> bytes \<Rightarrow> (record_error, u64) result" where
  "record_decode crc32c bs =
     (if length bs > RECORD_LEN then Inl (RecTrailingBytes (length bs))
      else and_then (read_array 4 bs 0) (\<lambda>magic.
        if magic \<noteq> rec_MAGIC then Inl (RecBadMagic magic)
        else if \<not> 4 < length bs then Inl (RecTooShort (length bs))
        else if bs ! 4 \<noteq> rec_VERSION then Inl (RecUnsupportedVersion (bs ! 4))
        else and_then (read_array 8 bs 5) (\<lambda>hw.
          and_then (read_array 4 bs 13) (\<lambda>crc_recorded.
            if un32 crc_recorded \<noteq> crc32c (slice 0 13 bs)
            then Inl (RecCrcMismatch (un32 crc_recorded) (crc32c (slice 0 13 bs)))
            else Inr (un64 hw)))))"

section \<open>Dense record\<close>

definition dense_MAGIC :: bytes where "dense_MAGIC = lit ''TSOD''"
definition dense_VERSION :: u8 where "dense_VERSION = 1"
definition dense_MIN_LEN :: nat where "dense_MIN_LEN = HEADER_LEN + 8 + 4 + CRC_LEN"

datatype dense_record_error =
    DenseTooShort nat
  | DenseBadMagic bytes
  | DenseUnsupportedVersion u8
  | DenseChecksumMismatch u32 u32
  | DenseMalformed
  | NonUtf8Key

fun dense_from_frame :: "frame_error \<Rightarrow> dense_record_error" where
  "dense_from_frame (FrameTooShort n) = DenseTooShort n"
| "dense_from_frame (FrameBadMagic m) = DenseBadMagic m"
| "dense_from_frame (FrameUnsupportedVersion v) = DenseUnsupportedVersion v"
| "dense_from_frame (FrameChecksumMismatch a b) = DenseChecksumMismatch a b"
| "dense_from_frame FrameMalformed = DenseMalformed"

definition dense_entry :: "str \<times> u64 \<Rightarrow> bytes" where
  "dense_entry e = le16 (of_nat (length (fst e))) @ fst e @ le64 (snd e)"

definition dense_encode :: "(bytes \<Rightarrow> u32) \<Rightarrow> (str, u64) btree_map \<times> u64 \<Rightarrow> bytes" where
  "dense_encode crc32c mc =
     framed_encode crc32c dense_MAGIC dense_VERSION
       (le64 (snd mc) @ le32 (of_nat (length (fst mc))) @ concat (map dense_entry (fst mc)))"

fun dense_loop ::
  "bytes \<Rightarrow> nat \<Rightarrow> nat \<Rightarrow> str option \<Rightarrow> (str, u64) btree_map
     \<Rightarrow> (dense_record_error, (str, u64) btree_map \<times> nat) result" where
  "dense_loop body 0 pos prev_key m = Inr (m, pos)"
| "dense_loop body (Suc n) pos prev_key m =
     (if pos + 2 > length body then Inl DenseMalformed
      else let klen = unat (un16 (slice pos (pos + 2) body)); p = pos + 2
        in if p + klen + 8 > length body then Inl DenseMalformed
           else let key = slice p (p + klen) body
             in if \<not> utf8_valid key then Inl NonUtf8Key
                else let counter = un64 (slice (p + klen) (p + klen + 8) body)
                  in if (case prev_key of Some prev \<Rightarrow> key \<le> prev | None \<Rightarrow> False) then Inl DenseMalformed
                     else dense_loop body n (p + klen + 8) (Some key) (bt_insert key counter m))"

definition dense_decode ::
  "(bytes \<Rightarrow> u32) \<Rightarrow> bytes \<Rightarrow> (dense_record_error, (str, u64) btree_map \<times> u64) result" where
  "dense_decode crc32c bs =
     and_then (map_err dense_from_frame (framed_decode crc32c bs dense_MAGIC dense_VERSION dense_MIN_LEN))
       (\<lambda>body.
          let cap = un64 (slice 0 8 body); key_count = un32 (slice 8 12 body)
          in and_then (dense_loop body (unat key_count) 12 None []) (\<lambda>(m, pos).
               if pos \<noteq> length body then Inl DenseMalformed else Inr (m, cap)))"

section \<open>Lease record\<close>

definition lease_MAGIC :: bytes where "lease_MAGIC = lit ''TSOO''"
definition lease_VERSION :: u8 where "lease_VERSION = 1"
definition lease_MIN_LEN :: nat where "lease_MIN_LEN = HEADER_LEN + 4 + CRC_LEN"

datatype lease_record_error =
    LeaseRecTooShort nat
  | LeaseRecBadMagic bytes
  | LeaseRecUnsupportedVersion u8
  | LeaseRecChecksumMismatch u32 u32
  | LeaseRecMalformed

fun lease_from_frame :: "frame_error \<Rightarrow> lease_record_error" where
  "lease_from_frame (FrameTooShort n) = LeaseRecTooShort n"
| "lease_from_frame (FrameBadMagic m) = LeaseRecBadMagic m"
| "lease_from_frame (FrameUnsupportedVersion v) = LeaseRecUnsupportedVersion v"
| "lease_from_frame (FrameChecksumMismatch a b) = LeaseRecChecksumMismatch a b"
| "lease_from_frame FrameMalformed = LeaseRecMalformed"

definition lease_entry :: "lease_record \<Rightarrow> bytes" where
  "lease_entry r =
     le64 (lease_id r) @ le16 (of_nat (length (holder r))) @ holder r @ le64 (holder_epoch r)
       @ le64 (ttl_ms r) @ le64 (ts_upper_bound r) @ le64 (expires_at_ms r)
       @ [if superseded r then 1 else 0]"

definition lease_encode :: "(bytes \<Rightarrow> u32) \<Rightarrow> lease_record list \<Rightarrow> bytes" where
  "lease_encode crc32c rs =
     (let sorted_rs = sort_key lease_id rs
      in framed_encode crc32c lease_MAGIC lease_VERSION
           (le32 (of_nat (length sorted_rs)) @ concat (map lease_entry sorted_rs)))"

definition read_u64 :: "bytes \<Rightarrow> nat \<Rightarrow> (lease_record_error, u64 \<times> nat) result" where
  "read_u64 body pos =
     (if pos + 8 > length body then Inl LeaseRecMalformed
      else Inr (un64 (slice pos (pos + 8) body), pos + 8))"

text \<open>The fields after the holder length, from position \<open>pos\<close>.\<close>

definition lease_fields ::
  "bytes \<Rightarrow> u64 \<Rightarrow> nat \<Rightarrow> nat \<Rightarrow> (lease_record_error, lease_record \<times> nat) result" where
  "lease_fields body i holder_len pos =
     (if pos + holder_len + 33 > length body then Inl LeaseRecMalformed
      else and_then (read_u64 body (pos + holder_len)) (\<lambda>(he, p1).
        and_then (read_u64 body p1) (\<lambda>(ttl, p2).
        and_then (read_u64 body p2) (\<lambda>(bound, p3).
        and_then (read_u64 body p3) (\<lambda>(expires, p4).
          if p4 < length body \<and> (body ! p4 = 0 \<or> body ! p4 = 1)
          then Inr (\<lparr>lease_id = i, holder = slice pos (pos + holder_len) body, holder_epoch = he,
                     ttl_ms = ttl, ts_upper_bound = bound, expires_at_ms = expires,
                     superseded = (body ! p4 = 1)\<rparr>, p4 + 1)
          else Inl LeaseRecMalformed)))))"

fun lease_loop ::
  "bytes \<Rightarrow> nat \<Rightarrow> nat \<Rightarrow> u64 option \<Rightarrow> lease_record list
     \<Rightarrow> (lease_record_error, lease_record list \<times> nat) result" where
  "lease_loop body 0 pos prev_id rs = Inr (rs, pos)"
| "lease_loop body (Suc n) pos prev_id rs =
     (if pos + 10 > length body then Inl LeaseRecMalformed
      else let i = un64 (slice pos (pos + 8) body)
        in if (case prev_id of Some prev \<Rightarrow> i \<le> prev | None \<Rightarrow> False) then Inl LeaseRecMalformed
           else let holder_len = unat (un16 (slice (pos + 8) (pos + 10) body))
             in and_then (lease_fields body i holder_len (pos + 10)) (\<lambda>(r, p).
                  lease_loop body n p (Some i) (rs @ [r])))"

definition lease_decode ::
  "(bytes \<Rightarrow> u32) \<Rightarrow> bytes \<Rightarrow> (lease_record_error, lease_record list) result" where
  "lease_decode crc32c bs =
     and_then (map_err lease_from_frame (framed_decode crc32c bs lease_MAGIC lease_VERSION lease_MIN_LEN))
       (\<lambda>body.
          let record_count = un32 (slice 0 4 body)
          in if unat record_count > (length body - 4) div 43 then Inl LeaseRecMalformed
             else and_then (lease_loop body (unat record_count) 4 None []) (\<lambda>(rs, pos).
               if pos \<noteq> length body then Inl LeaseRecMalformed else Inr rs))"

section \<open>Validation of stored state\<close>

datatype stored_state_error =
    BadHighWater u64
  | BadDenseCardinality u64 u64
  | BadDenseKey str
  | BadLeaseBounds u64
  | BadLeaseFields u64

definition validate ::
  "u64 \<Rightarrow> (str, u64) btree_map \<Rightarrow> u64 \<Rightarrow> lease_record list \<Rightarrow> (stored_state_error, unit) result" where
  "validate high_water dense cap leases =
     (if high_water > PHYSICAL_MS_MAX then Inl (BadHighWater high_water)
      else if of_nat (length dense) > cap then Inl (BadDenseCardinality (of_nat (length dense)) cap)
      else case find (\<lambda>k. \<not> is_ok (seq_key_try_new k)) (map fst dense) of
        Some k \<Rightarrow> Inl (BadDenseKey k)
      | None \<Rightarrow>
          (case find (\<lambda>l. lease_id l > ts_upper_bound l \<or> ts_upper_bound l > high_water
                       \<or> holder l = [] \<or> length (holder l) > MAX_LEASE_HOLDER_LEN \<or> ttl_ms l = 0) leases of
             None \<Rightarrow> Inr ()
           | Some l \<Rightarrow>
               if lease_id l > ts_upper_bound l \<or> ts_upper_bound l > high_water
               then Inl (BadLeaseBounds (lease_id l)) else Inl (BadLeaseFields (lease_id l))))"

section \<open>Framing round trip\<close>

lemma length_framed_encode: "length (framed_encode crc magic v p) = length magic + 5 + length p"
  by (simp add: framed_encode_def Let_def)

lemma framed_decode_encode:
  assumes "length magic = 4" "minl \<le> 9 + length p"
  shows "framed_decode crc (framed_encode crc magic v p) magic v minl = Inr p"
proof -
  let ?b = "framed_encode crc magic v p"
  have n: "length ?b = 9 + length p" by (simp add: length_framed_encode assms(1))
  have "slice 0 4 ?b = magic" "?b ! 4 = v"
    using assms(1) by (simp_all add: framed_encode_def Let_def slice_def nth_append)
  moreover have "take (5 + length p) ?b = magic @ [v] @ p" "drop (5 + length p) ?b = le32 (crc (magic @ [v] @ p))"
    using assms(1) by (simp_all add: framed_encode_def Let_def)
  ultimately show ?thesis
    using assms n by (simp add: framed_decode_def CRC_LEN_def HEADER_LEN_def Let_def)
qed

lemma framed_decode_InrD:
  assumes "framed_decode crc bs magic v minl = Inr p" "9 \<le> minl"
  shows "bs = framed_encode crc magic v p" "minl \<le> length bs" "length bs = 9 + length p"
proof -
  let ?n = "length bs - 4"
  have d: "minl \<le> length bs" "take 4 bs = magic" "bs ! 4 = v"
      "un32 (drop ?n bs) = crc (take ?n bs)" "p = drop 5 (take ?n bs)"
    using assms(1)
    by (auto simp: framed_decode_def Let_def CRC_LEN_def HEADER_LEN_def slice_def split: if_splits)
  have "drop 4 (take ?n bs) = v # p"
    using Cons_nth_drop_Suc [of 4 "take ?n bs"] d assms(2) by (simp add: drop_take)
  then have t: "take ?n bs = magic @ [v] @ p"
  proof -
    have "take 4 (take ?n bs) = magic" using d(1,2) assms(2) by (simp add: min_absorb1)
    with \<open>drop 4 (take ?n bs) = v # p\<close> show ?thesis
      using append_take_drop_id [of 4 "take ?n bs"] by simp
  qed
  moreover have "drop ?n bs = le32 (crc (take ?n bs))"
    using d assms(2) le_un32 [of "drop ?n bs"] by simp
  ultimately show bs: "bs = framed_encode crc magic v p"
    by (metis append_take_drop_id framed_encode_def)
  show "minl \<le> length bs" by (rule d(1))
  show "length bs = 9 + length p" using d assms(2) by simp
qed

section \<open>High-water record\<close>

lemma record_decode_encode: "record_decode crc (record_encode crc v) = Inr v"
proof -
  have "length rec_MAGIC = 4" by (simp add: rec_MAGIC_def lit_def)
  then show ?thesis
    by (simp add: record_decode_def record_encode_def Let_def read_array_def RECORD_LEN_def slice_def
        nth_append rec_VERSION_def)
qed

lemma record_decode_canonical:
  assumes "record_decode crc bs = Inr v"
  shows "record_encode crc v = bs"
proof -
  have d: "take 4 bs = rec_MAGIC" "bs ! 4 = rec_VERSION" "length bs = 17"
      "v = un64 (take 8 (drop 5 bs))" "un32 (take 4 (drop 13 bs)) = crc (take 13 bs)"
    using assms by (auto simp: record_decode_def and_then_Inr_iff read_array_def RECORD_LEN_def
        slice_def split: if_splits)
  have "take 13 bs = take 4 bs @ [bs ! 4] @ take 8 (drop 5 bs)"
    using d(3) by (simp add: list_eq_iff_nth_eq nth_append) (auto simp: less_Suc_eq numeral_eq_Suc)
  moreover have "le64 v = take 8 (drop 5 bs)" using d(3,4) le_un64 [of "take 8 (drop 5 bs)"] by simp
  moreover have "le32 (crc (take 13 bs)) = drop 13 bs"
    using d(3,5) le_un32 [of "take 4 (drop 13 bs)"] by simp
  ultimately show ?thesis
    using d(1,2) append_take_drop_id [of 13 bs] by (simp add: record_encode_def Let_def)
qed

interpretation rec: codec "record_encode crc" "record_decode crc" "\<lambda>_. True" for crc
  by unfold_locales (simp_all add: record_decode_encode record_decode_canonical)

section \<open>Dense record\<close>

definition dense_keys_ok :: "(str, u64) btree_map \<Rightarrow> bool" where
  "dense_keys_ok m \<longleftrightarrow> bt_wf m \<and> list_all (\<lambda>e. utf8_valid (fst e) \<and> length (fst e) < 65536) m"

definition dense_ok :: "(str, u64) btree_map \<times> u64 \<Rightarrow> bool" where
  "dense_ok mc \<longleftrightarrow> dense_keys_ok (fst mc) \<and> length (fst mc) < 2 ^ 32"

lemma length_dense_entry: "length (dense_entry e) = 10 + length (fst e)"
  by (simp add: dense_entry_def)

lemma bt_insert_last: "bt_wf (m @ [(k, v)]) \<Longrightarrow> bt_insert k v m = m @ [(k, v)]"
  by (induction m) (auto simp: bt_wf_def)

text \<open>The key the loop compares with is the last one it has inserted.\<close>

definition last_key :: "(str, u64) btree_map \<Rightarrow> str option" where
  "last_key m = (if m = [] then None else Some (fst (last m)))"

lemma bt_wf_snoc:
  "bt_wf (m @ [(k, v)]) \<longleftrightarrow> bt_wf m \<and> \<not> (case last_key m of Some prev \<Rightarrow> k \<le> prev | None \<Rightarrow> False)"
proof (cases m rule: rev_cases)
  case (snoc ms e)
  then show ?thesis
    by (auto simp: bt_wf_def last_key_def sorted_wrt_append not_le intro: less_trans)
qed (simp add: last_key_def bt_wf_def)

lemma slice_at: "slice (length pre + i) (length pre + j) (pre @ xs) = slice i j xs"
  by (simp add: slice_def)

lemma dense_loop_encode:
  assumes "dense_keys_ok (m @ es)"
  shows "dense_loop (pre @ concat (map dense_entry es)) (length es) (length pre) (last_key m) m
     = Inr (m @ es, length (pre @ concat (map dense_entry es)))"
  using assms
proof (induction es arbitrary: pre m)
  case (Cons e es)
  obtain k v where e: "e = (k, v)" by (cases e)
  let ?rest = "concat (map dense_entry es)"
  let ?body = "pre @ dense_entry e @ ?rest"
  have k: "utf8_valid k" "length k < 65536" "bt_wf (m @ [(k, v)])" "dense_keys_ok ((m @ [(k, v)]) @ es)"
    using Cons.prems e by (auto simp: dense_keys_ok_def bt_wf_def sorted_wrt_append)
  have sl: "slice (length pre) (length pre + 2) ?body = le16 (of_nat (length k))"
      "slice (length pre + 2) (length pre + 2 + length k) ?body = k"
      "slice (length pre + 2 + length k) (length pre + 2 + length k + 8) ?body = le64 v"
    by (simp_all add: slice_def dense_entry_def e)
  have kl: "unat (un16 (le16 (of_nat (length k)))) = length k" using k(2) by (simp add: unat_of_nat)
  have "dense_loop ?body (length (e # es)) (length pre) (last_key m) m
      = dense_loop ?body (length es) (length (pre @ dense_entry e)) (last_key (m @ [(k, v)])) (m @ [(k, v)])"
    using sl kl k(1) bt_wf_snoc [of m k v] k(3) bt_insert_last [OF k(3)]
    by (simp add: Let_def length_dense_entry e last_key_def ac_simps)
  with Cons.IH [OF k(4), of "pre @ dense_entry e"] show ?case by (simp add: e)
qed simp

lemma dense_loop_InrD:
  assumes "dense_loop body n pos (last_key m) m = Inr (m', pos')" "dense_keys_ok m" "pos \<le> length body"
  shows "\<exists>es. m' = m @ es \<and> length es = n \<and> pos \<le> pos' \<and> pos' \<le> length body
     \<and> slice pos pos' body = concat (map dense_entry es) \<and> dense_keys_ok m'"
  using assms
proof (induction n arbitrary: pos m)
  case 0
  then show ?case by (auto simp: slice_def)
next
  case (Suc n)
  note add_2_eq_Suc' [simp del]
  let ?kl = "unat (un16 (slice pos (pos + 2) body))"
  let ?k = "slice (pos + 2) (pos + 2 + ?kl) body"
  let ?v = "un64 (slice (pos + 2 + ?kl) (pos + 2 + ?kl + 8) body)"
  let ?p = "pos + 2 + ?kl + 8"
  have c: "pos + 2 \<le> length body" "?p \<le> length body" "utf8_valid ?k"
      "\<not> (case last_key m of Some prev \<Rightarrow> ?k \<le> prev | None \<Rightarrow> False)"
      "dense_loop body n ?p (Some ?k) (bt_insert ?k ?v m) = Inr (m', pos')"
    using Suc.prems(1) by (simp_all del: add_2_eq_Suc' add: Let_def not_less split: if_splits)
  have lk: "length ?k = ?kl" using c(2) by simp
  have wf: "bt_wf (m @ [(?k, ?v)])" using Suc.prems(2) c(4) by (simp add: bt_wf_snoc dense_keys_ok_def)
  have ok: "dense_keys_ok (m @ [(?k, ?v)])"
    using Suc.prems(2) wf c(3) lk unat_u16_bound [of "un16 (slice pos (pos + 2) body)"]
    by (simp add: dense_keys_ok_def)
  have "last_key (m @ [(?k, ?v)]) = Some ?k" by (simp add: last_key_def)
  with Suc.IH [of ?p "m @ [(?k, ?v)]"] c(2,5) ok bt_insert_last [OF wf]
  obtain es where es: "m' = (m @ [(?k, ?v)]) @ es" "length es = n" "?p \<le> pos'" "pos' \<le> length body"
      "slice ?p pos' body = concat (map dense_entry es)" "dense_keys_ok m'"
    by auto
  have "dense_entry (?k, ?v) = slice pos (pos + 2) body @ ?k @ slice (pos + 2 + ?kl) ?p body"
    using c(1,2) lk le_un16 [of "slice pos (pos + 2) body"] le_un64 [of "slice (pos + 2 + ?kl) ?p body"]
    by (simp add: dense_entry_def)
  then have "dense_entry (?k, ?v) @ slice ?p pos' body = slice pos pos' body"
    using es(3,4) c by (simp add: slice_join)
  with es show ?case by (intro exI [of _ "(?k, ?v) # es"]) auto
qed

lemma dense_decode_encode:
  assumes "dense_ok mc"
  shows "dense_decode crc (dense_encode crc mc) = Inr mc"
proof -
  obtain m cap where mc: "mc = (m, cap)" by (cases mc)
  let ?pre = "le64 cap @ le32 (of_nat (length m))"
  let ?p = "?pre @ concat (map dense_entry m)"
  have "framed_decode crc (dense_encode crc mc) dense_MAGIC dense_VERSION dense_MIN_LEN = Inr ?p"
    by (simp add: dense_encode_def mc framed_decode_encode dense_MAGIC_def lit_def dense_MIN_LEN_def
        HEADER_LEN_def CRC_LEN_def)
  moreover have "slice 0 8 ?p = le64 cap" "slice 8 12 ?p = le32 (of_nat (length m))"
    by (simp_all add: slice_def)
  moreover have "unat (of_nat (length m) :: u32) = length m"
    using assms by (simp add: dense_ok_def mc unat_of_nat)
  moreover have "dense_loop ?p (length m) 12 None [] = Inr (m, length ?p)"
    using dense_loop_encode [of "[]" m ?pre] assms by (simp add: dense_ok_def mc last_key_def)
  ultimately show ?thesis by (simp add: dense_decode_def mc Let_def)
qed

lemma dense_decode_canonical:
  assumes "dense_decode crc bs = Inr mc"
  shows "dense_ok mc \<and> dense_encode crc mc = bs"
proof -
  obtain body where f: "framed_decode crc bs dense_MAGIC dense_VERSION dense_MIN_LEN = Inr body"
    using assms by (auto simp: dense_decode_def and_then_Inr_iff)
  let ?n = "unat (un32 (slice 8 12 body))"
  obtain m where l: "dense_loop body ?n 12 (last_key []) [] = Inr (m, length body)"
      "mc = (m, un64 (slice 0 8 body))"
    using assms f by (auto simp: dense_decode_def and_then_Inr_iff Let_def last_key_def split: if_splits)
  note fd = framed_decode_InrD [OF f]
  have len: "12 \<le> length body"
    using fd(2,3) by (simp add: dense_MIN_LEN_def HEADER_LEN_def CRC_LEN_def)
  from dense_loop_InrD [OF l(1)] len
  have es: "length m = ?n" "slice 12 (length body) body = concat (map dense_entry m)" "dense_keys_ok m"
    by (auto simp: dense_keys_ok_def)
  have "le32 (of_nat (length m)) = slice 8 12 body" "le64 (un64 (slice 0 8 body)) = slice 0 8 body"
    using len es(1) by (simp_all add: le_un32 le_un64)
  moreover have "slice 0 8 body @ slice 8 12 body @ slice 12 (length body) body = body"
    using len by (simp add: slice_join)
  ultimately have
    "le64 (snd mc) @ le32 (of_nat (length (fst mc))) @ concat (map dense_entry (fst mc)) = body"
    using es(2) l(2) by simp
  moreover have "length m < 2 ^ 32" using es(1) unat_u32_bound [of "un32 (slice 8 12 body)"] by simp
  ultimately show ?thesis
    using fd(1) es(3) l(2)
    by (simp add: dense_encode_def dense_ok_def dense_MIN_LEN_def HEADER_LEN_def CRC_LEN_def)
qed

interpretation dense: codec "dense_encode crc" "dense_decode crc" dense_ok for crc
  by unfold_locales (simp_all add: dense_decode_encode dense_decode_canonical)

section \<open>Lease record\<close>

definition leases_ok :: "lease_record list \<Rightarrow> bool" where
  "leases_ok rs \<longleftrightarrow> sorted_wrt (\<lambda>r q. lease_id r < lease_id q) rs
     \<and> list_all (\<lambda>r. length (holder r) < 65536) rs \<and> length rs < 2 ^ 32"

definition leases_wf :: "lease_record list \<Rightarrow> bool" where
  "leases_wf rs \<longleftrightarrow> sorted_wrt (\<lambda>r q. lease_id r < lease_id q) rs
     \<and> list_all (\<lambda>r. length (holder r) < 65536) rs"

definition last_id :: "lease_record list \<Rightarrow> u64 option" where
  "last_id rs = (if rs = [] then None else Some (lease_id (last rs)))"

lemma length_lease_entry: "length (lease_entry r) = 43 + length (holder r)"
  by (simp add: lease_entry_def)

lemma leases_wf_snoc:
  "leases_wf (rs @ [r]) \<longleftrightarrow> leases_wf rs \<and> length (holder r) < 65536
     \<and> \<not> (case last_id rs of Some prev \<Rightarrow> lease_id r \<le> prev | None \<Rightarrow> False)"
proof (cases rs rule: rev_cases)
  case (snoc ms e)
  then show ?thesis
    by (auto simp: leases_wf_def last_id_def sorted_wrt_append not_le intro: less_trans)
qed (simp add: last_id_def leases_wf_def)

lemma lease_fields_entry:
  assumes "body = pre @ holder r @ le64 (holder_epoch r) @ le64 (ttl_ms r) @ le64 (ts_upper_bound r)
      @ le64 (expires_at_ms r) @ [if superseded r then 1 else 0] @ rest"
  shows "lease_fields body (lease_id r) (length (holder r)) (length pre)
    = Inr (r, length pre + length (holder r) + 33)"
proof -
  let ?q = "length pre + length (holder r)"
  have "read_u64 body ?q = Inr (holder_epoch r, ?q + 8)"
      "read_u64 body (?q + 8) = Inr (ttl_ms r, ?q + 16)"
      "read_u64 body (?q + 16) = Inr (ts_upper_bound r, ?q + 24)"
      "read_u64 body (?q + 24) = Inr (expires_at_ms r, ?q + 32)"
    by (simp_all add: assms read_u64_def slice_def)
  moreover have "body ! (?q + 32) = (if superseded r then 1 else 0)" "?q + 33 \<le> length body"
      "slice (length pre) ?q body = holder r"
    by (simp_all add: assms nth_append slice_def)
  ultimately show ?thesis by (simp add: lease_fields_def)
qed

lemma lease_fields_InrD:
  assumes "lease_fields body i hl pos = Inr (r, p)"
  shows "p = pos + hl + 33" "p \<le> length body" "lease_id r = i" "length (holder r) = hl"
    "slice pos p body = holder r @ le64 (holder_epoch r) @ le64 (ttl_ms r) @ le64 (ts_upper_bound r)
      @ le64 (expires_at_ms r) @ [if superseded r then 1 else 0]"
proof -
  let ?q = "pos + hl"
  have b: "?q + 33 \<le> length body" "body ! (?q + 32) = 0 \<or> body ! (?q + 32) = 1"
    and r: "r = \<lparr>lease_id = i, holder = slice pos ?q body, holder_epoch = un64 (slice ?q (?q + 8) body),
         ttl_ms = un64 (slice (?q + 8) (?q + 16) body), ts_upper_bound = un64 (slice (?q + 16) (?q + 24) body),
         expires_at_ms = un64 (slice (?q + 24) (?q + 32) body), superseded = (body ! (?q + 32) = 1)\<rparr>"
    and p: "p = ?q + 33"
    using assms by (auto simp: lease_fields_def and_then_Inr_iff read_u64_def ac_simps split: if_splits)
  show "p = pos + hl + 33" "p \<le> length body" "lease_id r = i" "length (holder r) = hl"
    using b p r by simp_all
  have "slice pos p body = slice pos ?q body @ slice ?q (?q + 8) body @ slice (?q + 8) (?q + 16) body
      @ slice (?q + 16) (?q + 24) body @ slice (?q + 24) (?q + 32) body @ slice (?q + 32) (Suc (?q + 32)) body"
    using p by (simp add: slice_join ac_simps)
  moreover have "slice (?q + 32) (Suc (?q + 32)) body = [body ! (?q + 32)]"
    using b(1) by (intro slice_Suc) simp
  ultimately show "slice pos p body = holder r @ le64 (holder_epoch r) @ le64 (ttl_ms r)
      @ le64 (ts_upper_bound r) @ le64 (expires_at_ms r) @ [if superseded r then 1 else 0]"
    using b r by (auto simp: le_un64)
qed

lemma lease_loop_encode:
  assumes "leases_wf (rs @ es)"
  shows "lease_loop (pre @ concat (map lease_entry es)) (length es) (length pre) (last_id rs) rs
     = Inr (rs @ es, length (pre @ concat (map lease_entry es)))"
  using assms
proof (induction es arbitrary: pre rs)
  case (Cons r es)
  let ?rest = "concat (map lease_entry es)"
  let ?body = "pre @ lease_entry r @ ?rest"
  have k: "leases_wf (rs @ [r])" "leases_wf ((rs @ [r]) @ es)"
    using Cons.prems by (auto simp: leases_wf_def sorted_wrt_append)
  then have c: "length (holder r) < 65536"
      "\<not> (case last_id rs of Some prev \<Rightarrow> lease_id r \<le> prev | None \<Rightarrow> False)"
    by (simp_all add: leases_wf_snoc)
  have sl: "slice (length pre) (length pre + 8) ?body = le64 (lease_id r)"
      "slice (length pre + 8) (length pre + 10) ?body = le16 (of_nat (length (holder r)))"
    by (simp_all add: slice_def lease_entry_def)
  have kl: "unat (un16 (le16 (of_nat (length (holder r))))) = length (holder r)"
    using c(1) by (simp add: unat_of_nat)
  have "lease_fields ?body (lease_id r) (length (holder r)) (length pre + 10)
      = Inr (r, length pre + 10 + length (holder r) + 33)"
    using lease_fields_entry [of ?body "pre @ le64 (lease_id r) @ le16 (of_nat (length (holder r)))" r ?rest]
    by (simp add: lease_entry_def)
  then have "lease_loop ?body (length (r # es)) (length pre) (last_id rs) rs
      = lease_loop ?body (length es) (length (pre @ lease_entry r)) (last_id (rs @ [r])) (rs @ [r])"
    using sl kl c(2) by (simp add: Let_def length_lease_entry last_id_def ac_simps)
  with Cons.IH [OF k(2), of "pre @ lease_entry r"] show ?case by simp
qed simp

lemma lease_loop_InrD:
  assumes "lease_loop body n pos (last_id rs) rs = Inr (rs', pos')" "leases_wf rs" "pos \<le> length body"
  shows "\<exists>es. rs' = rs @ es \<and> length es = n \<and> pos \<le> pos' \<and> pos' \<le> length body
     \<and> slice pos pos' body = concat (map lease_entry es) \<and> leases_wf rs'"
  using assms
proof (induction n arbitrary: pos rs)
  case 0
  then show ?case by (auto simp: slice_def)
next
  case (Suc n)
  let ?i = "un64 (slice pos (pos + 8) body)"
  let ?hl = "unat (un16 (slice (pos + 8) (pos + 10) body))"
  obtain r p where c: "pos + 10 \<le> length body"
      "\<not> (case last_id rs of Some prev \<Rightarrow> ?i \<le> prev | None \<Rightarrow> False)"
      "lease_fields body ?i ?hl (pos + 10) = Inr (r, p)"
      "lease_loop body n p (Some ?i) (rs @ [r]) = Inr (rs', pos')"
    using Suc.prems(1) by (auto simp: Let_def not_less and_then_Inr_iff split: if_splits)
  note f = lease_fields_InrD [OF c(3)]
  have wf: "leases_wf (rs @ [r])"
    using Suc.prems(2) c(2) f(3,4) unat_u16_bound [of "un16 (slice (pos + 8) (pos + 10) body)"]
    by (auto simp: leases_wf_snoc split: option.splits)
  have "last_id (rs @ [r]) = Some ?i" by (simp add: last_id_def f(3))
  with Suc.IH [of p "rs @ [r]"] c(4) f(2) wf
  obtain es where es: "rs' = (rs @ [r]) @ es" "length es = n" "p \<le> pos'" "pos' \<le> length body"
      "slice p pos' body = concat (map lease_entry es)" "leases_wf rs'" by auto
  have "lease_entry r = slice pos (pos + 8) body @ slice (pos + 8) (pos + 10) body @ slice (pos + 10) p body"
    using c(1) f le_un16 [of "slice (pos + 8) (pos + 10) body"] le_un64 [of "slice pos (pos + 8) body"]
    by (simp add: lease_entry_def)
  then have "lease_entry r @ slice p pos' body = slice pos pos' body"
    using es(3) f(1) by (simp add: slice_join)
  with es f(1) show ?case by (intro exI [of _ "r # es"]) auto
qed

lemma leases_ok_wf: "leases_ok rs \<longleftrightarrow> leases_wf rs \<and> length rs < 2 ^ 32"
  by (auto simp: leases_ok_def leases_wf_def)

lemma leases_ok_sorted: "leases_ok rs \<Longrightarrow> sort_key lease_id rs = rs"
  by (auto simp: leases_ok_def sorted_map intro!: sort_key_id_if_sorted
      elim!: sorted_wrt_mono_rel [rotated])

lemma length_lease_entries: "43 * length rs \<le> length (concat (map lease_entry rs))"
  by (induction rs) (auto simp: length_lease_entry)

lemma lease_decode_encode:
  assumes "leases_ok rs"
  shows "lease_decode crc (lease_encode crc rs) = Inr rs"
proof -
  let ?pre = "le32 (of_nat (length rs))"
  let ?p = "?pre @ concat (map lease_entry rs)"
  have "framed_decode crc (lease_encode crc rs) lease_MAGIC lease_VERSION lease_MIN_LEN = Inr ?p"
    by (simp add: lease_encode_def framed_decode_encode lease_MAGIC_def lit_def lease_MIN_LEN_def
        HEADER_LEN_def CRC_LEN_def leases_ok_sorted [OF assms])
  moreover have "slice 0 4 ?p = ?pre" by (simp add: slice_def)
  moreover have u: "unat (of_nat (length rs) :: u32) = length rs"
    using assms by (simp add: leases_ok_def unat_of_nat)
  moreover have "lease_loop ?p (length rs) 4 None [] = Inr (rs, length ?p)"
    using lease_loop_encode [of "[]" rs ?pre] assms by (simp add: leases_ok_wf last_id_def)
  moreover have "\<not> length rs > (length ?p - 4) div 43"
    using length_lease_entries [of rs] by (simp add: div_greater_zero_iff not_less less_eq_div_iff_mult_less_eq)
  ultimately show ?thesis by (simp add: lease_decode_def Let_def)
qed

lemma lease_decode_canonical:
  assumes "lease_decode crc bs = Inr rs"
  shows "leases_ok rs \<and> lease_encode crc rs = bs"
proof -
  obtain body where f: "framed_decode crc bs lease_MAGIC lease_VERSION lease_MIN_LEN = Inr body"
    using assms by (auto simp: lease_decode_def and_then_Inr_iff)
  let ?n = "unat (un32 (slice 0 4 body))"
  have l: "lease_loop body ?n 4 (last_id []) [] = Inr (rs, length body)"
    using assms f by (auto simp: lease_decode_def and_then_Inr_iff Let_def last_id_def split: if_splits)
  note fd = framed_decode_InrD [OF f]
  have len: "4 \<le> length body"
    using fd(2,3) by (simp add: lease_MIN_LEN_def HEADER_LEN_def CRC_LEN_def)
  from lease_loop_InrD [OF l] len
  have es: "length rs = ?n" "slice 4 (length body) body = concat (map lease_entry rs)" "leases_wf rs"
    by (auto simp: leases_wf_def)
  have ok: "leases_ok rs" using es unat_u32_bound [of "un32 (slice 0 4 body)"] by (simp add: leases_ok_wf)
  have "le32 (of_nat (length rs)) = slice 0 4 body" using len es(1) by (simp add: le_un32)
  moreover have "slice 0 4 body @ slice 4 (length body) body = body" using len by (simp add: slice_join)
  ultimately have "le32 (of_nat (length rs)) @ concat (map lease_entry rs) = body" using es(2) by simp
  then show ?thesis
    using fd(1) ok leases_ok_sorted [OF ok]
    by (simp add: lease_encode_def lease_MIN_LEN_def HEADER_LEN_def CRC_LEN_def)
qed

interpretation lease: codec "lease_encode crc" "lease_decode crc" leases_ok for crc
  by unfold_locales (simp_all add: lease_decode_encode lease_decode_canonical)

lemma lease_encode_sort: "lease_encode crc rs = lease_encode crc (sort_key lease_id rs)"
  by (simp add: lease_encode_def sort_key_id_if_sorted)

lemma leases_ok_sort_key:
  assumes "distinct (map lease_id rs)" "list_all (\<lambda>r. length (holder r) < 65536) rs" "length rs < 2 ^ 32"
  shows "leases_ok (sort_key lease_id rs)"
proof -
  have "sorted_wrt (<) (map lease_id (sort_key lease_id rs))"
    using assms(1) by (simp add: strict_sorted_iff distinct_map)
  with assms(2,3) show ?thesis by (simp add: leases_ok_def sorted_wrt_map list_all_iff)
qed

section \<open>Properties\<close>

text \<open>
  The three on-disk formats are canonical, whatever the checksum function: each
  decoder accepts a byte string exactly when it is the encoding of a well-formed value,
  and returns that value. In particular a decoded file re-encodes to the same bytes, no
  duplicate or unordered key or lease id is accepted, and two well-formed values never
  share an encoding.
\<close>

theorem on_disk_formats_canonical:
  "(record_decode crc bs = Inr hw \<longleftrightarrow> bs = record_encode crc hw)
   \<and> (dense_decode crc bs = Inr mc \<longleftrightarrow> dense_ok mc \<and> bs = dense_encode crc mc)
   \<and> (lease_decode crc bs = Inr rs \<longleftrightarrow> leases_ok rs \<and> bs = lease_encode crc rs)"
  by (simp add: rec.dec_iff dense.dec_iff lease.dec_iff)

text \<open>
  The lease format forgets only the order of the records: any set of leases with
  distinct ids and representable holders is read back as the same records in ascending
  id order.
\<close>

theorem lease_file_roundtrip:
  assumes "distinct (map lease_id rs)" "list_all (\<lambda>r. length (holder r) < 65536) rs" "length rs < 2 ^ 32"
  shows "lease_decode crc (lease_encode crc rs) = Inr (sort_key lease_id rs)"
  using lease.dec_enc [OF leases_ok_sort_key [OF assms]] by (simp flip: lease_encode_sort)

theorem lease_file_roundtrip_witness:
  "let r = \<lparr>lease_id = 9, holder = [7], holder_epoch = 2, ttl_ms = 10,
         ts_upper_bound = 5, expires_at_ms = 10, superseded = True\<rparr>;
       q = r\<lparr>lease_id := 4\<rparr>
   in lease_decode (\<lambda>bs. 0) (lease_encode (\<lambda>bs. 0) [r, q]) = Inr [q, r]"
  using lease_file_roundtrip
    [of "[\<lparr>lease_id = 9, holder = [7], holder_epoch = 2, ttl_ms = 10, ts_upper_bound = 5,
         expires_at_ms = 10, superseded = True\<rparr>,
       \<lparr>lease_id = 4, holder = [7], holder_epoch = 2, ttl_ms = 10, ts_upper_bound = 5,
         expires_at_ms = 10, superseded = True\<rparr>]" "\<lambda>bs. 0"]
  by simp

text \<open>
  Stored state passes validation exactly when the high-water fits the timestamp
  layout, the dense map respects its cap and has only valid keys, and every lease
  satisfies \<open>lease_id \<le> upper bound \<le> high-water\<close> with a valid holder and a positive
  TTL.
\<close>

theorem validate_accepts_iff:
  "validate hw dense cap leases = Inr () \<longleftrightarrow>
     hw \<le> PHYSICAL_MS_MAX \<and> of_nat (length dense) \<le> cap
     \<and> list_all (\<lambda>e. fst e \<noteq> [] \<and> length (fst e) \<le> MAX_SEQ_KEY_LEN) dense
     \<and> list_all (\<lambda>l. lease_id l \<le> ts_upper_bound l \<and> ts_upper_bound l \<le> hw
          \<and> holder l \<noteq> [] \<and> length (holder l) \<le> MAX_LEASE_HOLDER_LEN \<and> ttl_ms l \<noteq> 0) leases"
proof -
  have "validate hw dense cap leases = Inr () \<longleftrightarrow>
      \<not> hw > PHYSICAL_MS_MAX \<and> \<not> of_nat (length dense) > cap
      \<and> find (\<lambda>k. \<not> is_ok (seq_key_try_new k)) (map fst dense) = None
      \<and> find (\<lambda>l. lease_id l > ts_upper_bound l \<or> ts_upper_bound l > hw \<or> holder l = []
          \<or> length (holder l) > MAX_LEASE_HOLDER_LEN \<or> ttl_ms l = 0) leases = None"
    by (simp add: validate_def split: option.split)
  moreover have "is_ok (seq_key_try_new k) \<longleftrightarrow> k \<noteq> [] \<and> length k \<le> MAX_SEQ_KEY_LEN" for k
    by (auto simp: seq_key_try_new_def)
  ultimately show ?thesis
    by (simp add: find_None_list_all list_all_iff not_less conj_ac)
qed

end
