(* ===== verification/File_Driver.thy ===== *)
theory File_Driver
  imports Records Dense_Map
begin

text \<open>
  The single-node driver (\<open>tsoracle-driver-file/src/driver.rs\<close>): a directory with three
  framed files, in-memory mirrors that are published only after the durable write, and
  the operations of the driver trait. The directory is modelled with the view the
  running system sees and the view that survives a power failure; an I/O fault of the
  environment is a parameter of each write. The theory shows that the driver meets the
  register, counter and lease-store contracts, and what a crash and reopen preserves. A
  second state machine splits an operation at its suspension point, where the future
  can be dropped while the blocking write still runs.
\<close>

section \<open>The directory\<close>

definition LOCK_FILE :: string where "LOCK_FILE = ''LOCK''"
definition STATE_FILE :: string where "STATE_FILE = ''state''"
definition DENSE_FILE :: string where "DENSE_FILE = ''dense''"
definition LEASES_FILE :: string where "LEASES_FILE = ''leases''"
definition DEFAULT_DENSE_CARDINALITY_CAP :: u64 where "DEFAULT_DENSE_CARDINALITY_CAP = 10000"

text \<open>
  \<open>vis\<close> is what a read of the running system returns, \<open>stable\<close> what the media holds.
  They differ between a rename and the directory \<open>fsync\<close> that follows it. Opening or
  reading a file the environment makes \<open>unreadable\<close> fails.
\<close>

record disk =
  vis :: "string \<Rightarrow> bytes option"
  stable :: "string \<Rightarrow> bytes option"
  dir_locked :: bool
  unreadable :: "string \<Rightarrow> bool"

text \<open>Where a write fails, chosen by the environment.\<close>

datatype io_fault =
    IoOk
  | WorkerPanic
  | FailOpen
  | FailWrite bytes
  | FailSync
  | FailRename
  | FailDirSync

datatype file_driver_error =
    FdIo string
  | FdDecode record_error
  | FdPhysicalMsOutOfRange u64
  | FdInvalidState stored_state_error
  | FdAlreadyLocked

definition tmp_of :: "string \<Rightarrow> string" where "tmp_of name = name @ ''.tmp''"

text \<open>Write the temporary file, sync it, rename it over the final name, sync the directory.\<close>

fun write_framed_file :: "string \<Rightarrow> bytes \<Rightarrow> io_fault \<Rightarrow> disk \<Rightarrow> (file_driver_error, unit) result \<times> disk" where
  "write_framed_file name bs IoOk d =
     (let v = (vis d)(name \<mapsto> bs, tmp_of name := None) in (Inr (), d\<lparr>vis := v, stable := v\<rparr>))"
| "write_framed_file name bs WorkerPanic d = (Inl (FdIo ''worker panicked''), d)"
| "write_framed_file name bs FailOpen d = (Inl (FdIo ''open''), d)"
| "write_framed_file name bs (FailWrite part) d =
     (Inl (FdIo ''write''), d\<lparr>vis := (vis d)(tmp_of name \<mapsto> part)\<rparr>)"
| "write_framed_file name bs FailSync d =
     (Inl (FdIo ''sync''), d\<lparr>vis := (vis d)(tmp_of name \<mapsto> bs)\<rparr>)"
| "write_framed_file name bs FailRename d =
     (Inl (FdIo ''rename''), d\<lparr>vis := (vis d)(tmp_of name \<mapsto> bs)\<rparr>)"
| "write_framed_file name bs FailDirSync d =
     (Inl (FdIo ''fsync''), d\<lparr>vis := (vis d)(name \<mapsto> bs, tmp_of name := None)\<rparr>)"

definition write_record ::
  "(bytes \<Rightarrow> u32) \<Rightarrow> u64 \<Rightarrow> io_fault \<Rightarrow> disk \<Rightarrow> (file_driver_error, unit) result \<times> disk" where
  "write_record crc32c high_water io d =
     write_framed_file STATE_FILE (record_encode crc32c high_water) io d"

definition write_dense_record ::
  "(bytes \<Rightarrow> u32) \<Rightarrow> (str, u64) btree_map \<Rightarrow> u64 \<Rightarrow> io_fault \<Rightarrow> disk \<Rightarrow> (file_driver_error, unit) result \<times> disk" where
  "write_dense_record crc32c m cap io d =
     write_framed_file DENSE_FILE (dense_encode crc32c (m, cap)) io d"

definition write_lease_record ::
  "(bytes \<Rightarrow> u32) \<Rightarrow> lease_record list \<Rightarrow> io_fault \<Rightarrow> disk \<Rightarrow> (file_driver_error, unit) result \<times> disk" where
  "write_lease_record crc32c rs io d =
     write_framed_file LEASES_FILE (lease_encode crc32c rs) io d"

definition acquire_exclusive_lock :: "disk \<Rightarrow> (file_driver_error, disk) result" where
  "acquire_exclusive_lock d =
     (if unreadable d LOCK_FILE then Inl (FdIo ''lock'')
      else if dir_locked d then Inl FdAlreadyLocked else Inr (d\<lparr>dir_locked := True\<rparr>))"

definition read_file :: "string \<Rightarrow> disk \<Rightarrow> bytes \<Rightarrow> (file_driver_error, bytes) result" where
  "read_file name d bs = (if unreadable d name then Inl (FdIo ''read'') else Inr bs)"

section \<open>The driver\<close>

record dense_state =
  ds_map :: "(str, u64) btree_map"
  ds_cap :: u64

record file_driver =
  fd_disk :: disk
  fd_state :: u64
  fd_dense :: dense_state
  fd_leases :: "lease_record list"

definition open_high_water :: "(bytes \<Rightarrow> u32) \<Rightarrow> disk \<Rightarrow> (file_driver_error, u64) result" where
  "open_high_water crc32c d =
     (case vis d STATE_FILE of
        None \<Rightarrow> Inr 0
      | Some content \<Rightarrow> and_then (read_file STATE_FILE d content) (\<lambda>bs.
          and_then (map_err FdDecode (record_decode crc32c bs)) (\<lambda>high_water.
          if high_water > PHYSICAL_MS_MAX then Inl (FdPhysicalMsOutOfRange high_water)
          else Inr high_water)))"

definition open_dense :: "(bytes \<Rightarrow> u32) \<Rightarrow> disk \<Rightarrow> (file_driver_error, dense_state) result" where
  "open_dense crc32c d =
     (case vis d DENSE_FILE of
        None \<Rightarrow> Inr \<lparr>ds_map = [], ds_cap = DEFAULT_DENSE_CARDINALITY_CAP\<rparr>
      | Some content \<Rightarrow> and_then (read_file DENSE_FILE d content) (\<lambda>bs.
          and_then (map_err (\<lambda>_. FdIo ''dense record'') (dense_decode crc32c bs))
          (\<lambda>(m, cap). Inr \<lparr>ds_map = m, ds_cap = cap\<rparr>)))"

definition open_leases :: "(bytes \<Rightarrow> u32) \<Rightarrow> disk \<Rightarrow> (file_driver_error, lease_record list) result" where
  "open_leases crc32c d =
     (case vis d LEASES_FILE of
        None \<Rightarrow> Inr []
      | Some content \<Rightarrow> and_then (read_file LEASES_FILE d content) (\<lambda>bs.
          map_err (\<lambda>_. FdIo ''lease record'') (lease_decode crc32c bs)))"

text \<open>\<open>stopped_state_export\<close> is the feature flag that adds the validation.\<close>

definition open_or_init ::
  "(bytes \<Rightarrow> u32) \<Rightarrow> bool \<Rightarrow> disk \<Rightarrow> (file_driver_error, file_driver) result" where
  "open_or_init crc32c stopped_state_export d =
     and_then (acquire_exclusive_lock d) (\<lambda>d'.
     and_then (open_high_water crc32c d') (\<lambda>current.
     and_then (open_dense crc32c d') (\<lambda>dense.
     and_then (open_leases crc32c d') (\<lambda>leases.
     and_then (if stopped_state_export
               then map_err FdInvalidState (validate current (ds_map dense) (ds_cap dense) leases)
               else Inr ()) (\<lambda>_.
       Inr \<lparr>fd_disk = d', fd_state = current, fd_dense = dense, fd_leases = leases\<rparr>)))))"

definition init_seeded ::
  "(bytes \<Rightarrow> u32) \<Rightarrow> bool \<Rightarrow> u64 \<Rightarrow> io_fault \<Rightarrow> disk \<Rightarrow> (file_driver_error, unit) result \<times> disk" where
  "init_seeded crc32c stopped_state_export seed_physical_ms io d =
     (if seed_physical_ms > PHYSICAL_MS_MAX then (Inl (FdPhysicalMsOutOfRange seed_physical_ms), d)
      else case (if stopped_state_export then acquire_exclusive_lock d else Inr d) of
        Inl err \<Rightarrow> (Inl err, d)
      | Inr d' \<Rightarrow>
          if vis d' STATE_FILE \<noteq> None
          then (Inl (FdIo ''state file already exists; refusing to overwrite''), d)
          else let (r, d'') = write_record crc32c seed_physical_ms io d'
            in (r, d''\<lparr>dir_locked := dir_locked d\<rparr>))"

definition fd_leadership_event :: leader_state where
  "fd_leadership_event = LsLeader epoch_ZERO"

definition fd_load_high_water :: "file_driver \<Rightarrow> (consensus_error, u64) result \<times> file_driver" where
  "fd_load_high_water f = (Inr (fd_state f), f)"

definition permanent :: "(file_driver_error, unit) result \<Rightarrow> (consensus_error, unit) result" where
  "permanent = map_err (\<lambda>_. PermanentDriver ''file driver'')"

definition fd_persist_high_water ::
  "(bytes \<Rightarrow> u32) \<Rightarrow> io_fault \<Rightarrow> u64 \<Rightarrow> epoch \<Rightarrow> file_driver \<Rightarrow> (consensus_error, u64) result \<times> file_driver" where
  "fd_persist_high_water crc32c io at_least e f =
     (case reject_out_of_range_advance at_least of
        Inl err \<Rightarrow> (Inl err, f)
      | Inr _ \<Rightarrow>
          if at_least \<le> fd_state f then (Inr (fd_state f), f)
          else let (r, d) = write_record crc32c at_least io (fd_disk f)
            in case permanent r of
              Inl err \<Rightarrow> (Inl err, f\<lparr>fd_disk := d\<rparr>)
            | Inr _ \<Rightarrow> (Inr at_least, f\<lparr>fd_disk := d, fd_state := at_least\<rparr>))"

definition fd_load_dense_seq :: "seq_key \<Rightarrow> file_driver \<Rightarrow> (consensus_error, u64) result \<times> file_driver" where
  "fd_load_dense_seq key f = (Inr (bt_lookup0 (ds_map (fd_dense f)) (key_str key)), f)"

text \<open>Persist the would-be map and publish it only if the write succeeded.\<close>

definition publish_dense ::
  "(bytes \<Rightarrow> u32) \<Rightarrow> io_fault \<Rightarrow> (str, u64) btree_map \<Rightarrow> 'r \<Rightarrow> file_driver \<Rightarrow> (consensus_error, 'r) result \<times> file_driver" where
  "publish_dense crc32c io new_map reply f =
     (let (r, d) = write_dense_record crc32c new_map (ds_cap (fd_dense f)) io (fd_disk f)
      in case permanent r of
        Inl err \<Rightarrow> (Inl err, f\<lparr>fd_disk := d\<rparr>)
      | Inr _ \<Rightarrow> (Inr reply, f\<lparr>fd_disk := d, fd_dense := (fd_dense f)\<lparr>ds_map := new_map\<rparr>\<rparr>))"

definition fd_advance_dense ::
  "(bytes \<Rightarrow> u32) \<Rightarrow> io_fault \<Rightarrow> seq_key \<Rightarrow> u32 \<Rightarrow> epoch \<Rightarrow> file_driver \<Rightarrow> (consensus_error, u64) result \<times> file_driver" where
  "fd_advance_dense crc32c io key count e f =
     (let m = ds_map (fd_dense f); cap = ds_cap (fd_dense f)
      in if bt_get m (key_str key) = None \<and> of_nat (length m) \<ge> cap
         then (Inl (SeqKeyCardinalityExceeded cap), f)
         else let start = bt_lookup0 m (key_str key)
           in case checked_add start (ucast count) of
             None \<Rightarrow> (Inl ConsSeqOverflow, f)
           | Some next \<Rightarrow> publish_dense crc32c io (bt_insert (key_str key) next m) start f)"

definition fd_advance_dense_batch ::
  "(bytes \<Rightarrow> u32) \<Rightarrow> io_fault \<Rightarrow> (seq_key \<times> u32) list \<Rightarrow> epoch \<Rightarrow> file_driver
     \<Rightarrow> (consensus_error, u64 list) result \<times> file_driver" where
  "fd_advance_dense_batch crc32c io entries e f =
     (if entries = [] then (Inr [], f)
      else let m = ds_map (fd_dense f); cap = ds_cap (fd_dense f);
               new_keys = remdups (filter (\<lambda>k. bt_get m k = None) (map (\<lambda>x. key_str (fst x)) entries))
        in if of_nat (length m) + of_nat (length new_keys) > cap
           then (Inl (SeqKeyCardinalityExceeded cap), f)
           else case batch_fold m entries [] [] of
             Inl err \<Rightarrow> (Inl err, f)
           | Inr (starts, scratch) \<Rightarrow>
               publish_dense crc32c io (fold (\<lambda>kv a. bt_insert (fst kv) (snd kv) a) scratch m) starts f)"

definition fd_load_leases :: "file_driver \<Rightarrow> (consensus_error, lease_record list) result \<times> file_driver" where
  "fd_load_leases f = (Inr (fd_leases f), f)"

definition fd_persist_leases ::
  "(bytes \<Rightarrow> u32) \<Rightarrow> io_fault \<Rightarrow> lease_record list \<Rightarrow> epoch \<Rightarrow> file_driver \<Rightarrow> (consensus_error, unit) result \<times> file_driver" where
  "fd_persist_leases crc32c io live e f =
     (let (r, d) = write_lease_record crc32c live io (fd_disk f)
      in case permanent r of
        Inl err \<Rightarrow> (Inl err, f\<lparr>fd_disk := d\<rparr>)
      | Inr _ \<Rightarrow> (Inr (), f\<lparr>fd_disk := d, fd_leases := live\<rparr>))"

section \<open>Crashes\<close>

text \<open>
  A power failure: each directory entry is found in the visible or in the stable
  version, and the lock is gone. After a mere process exit the visible view remains and
  the media may still lag behind it.
\<close>

definition power_failure :: "(string \<Rightarrow> bool) \<Rightarrow> disk \<Rightarrow> disk" where
  "power_failure keep d =
     (let v = (\<lambda>n. if keep n then vis d n else stable d n)
      in \<lparr>vis = v, stable = v, dir_locked = False, unreadable = (\<lambda>_. False)\<rparr>)"

definition process_exit :: "disk \<Rightarrow> disk" where
  "process_exit d = d\<lparr>dir_locked := False\<rparr>"

definition empty_disk :: disk where
  "empty_disk = \<lparr>vis = (\<lambda>_. None), stable = (\<lambda>_. None), dir_locked = False,
     unreadable = (\<lambda>_. False)\<rparr>"

definition fd_fresh :: file_driver where
  "fd_fresh = \<lparr>fd_disk = empty_disk\<lparr>dir_locked := True\<rparr>, fd_state = 0,
     fd_dense = \<lparr>ds_map = [], ds_cap = DEFAULT_DENSE_CARDINALITY_CAP\<rparr>, fd_leases = []\<rparr>"

section \<open>Histories\<close>

text \<open>A key as its type admits it: a valid string of bounded length.\<close>

definition key_valid :: "seq_key \<Rightarrow> bool" where
  "key_valid k \<longleftrightarrow> seq_key_ok k \<and> utf8_valid (key_str k)"

text \<open>A lease set as the table hands it over: distinct ids, representable holders.\<close>

definition leases_representable :: "lease_record list \<Rightarrow> bool" where
  "leases_representable rs \<longleftrightarrow> distinct (map lease_id rs)
     \<and> list_all (\<lambda>r. length (holder r) < 65536) rs \<and> length rs < 2 ^ 32"

text \<open>
  Calls of the trait with the fault their write meets, each run to its end, and a power
  failure followed by a reopen. A call is well formed when its arguments are values of
  their Rust types. A process exit without a power failure is not among them, and a future
  that is dropped while its worker runs is modelled apart, below.
\<close>

datatype fd_cmd =
    FdPersist io_fault u64 epoch
  | FdAdvance io_fault seq_key u32 epoch
  | FdBatch io_fault "(seq_key \<times> u32) list" epoch
  | FdLeases io_fault "lease_record list" epoch
  | FdCrash "string \<Rightarrow> bool"

fun fd_cmd_valid :: "fd_cmd \<Rightarrow> bool" where
  "fd_cmd_valid (FdAdvance io k n e) = key_valid k"
| "fd_cmd_valid (FdBatch io es e) = (list_all (\<lambda>x. key_valid (fst x)) es \<and> length es < 2 ^ 32)"
| "fd_cmd_valid (FdLeases io rs e) = leases_representable rs"
| "fd_cmd_valid _ = True"

text \<open>One step, with the ordinals of key \<open>k\<close> it hands out.\<close>

fun fd_call :: "(bytes \<Rightarrow> u32) \<Rightarrow> seq_key \<Rightarrow> file_driver \<Rightarrow> fd_cmd \<Rightarrow> nat list \<times> file_driver" where
  "fd_call crc k f (FdPersist io a e) = ([], snd (fd_persist_high_water crc io a e f))"
| "fd_call crc k f (FdAdvance io j n e) =
     (case fd_advance_dense crc io j n e f of
        (Inl _, f') \<Rightarrow> ([], f') | (Inr s, f') \<Rightarrow> (key_blocks k [(j, n)] [s], f'))"
| "fd_call crc k f (FdBatch io es e) =
     (case fd_advance_dense_batch crc io es e f of
        (Inl _, f') \<Rightarrow> ([], f') | (Inr ss, f') \<Rightarrow> (key_blocks k es ss, f'))"
| "fd_call crc k f (FdLeases io rs e) = ([], snd (fd_persist_leases crc io rs e f))"
| "fd_call crc k f (FdCrash keep) =
     (case open_or_init crc False (power_failure keep (fd_disk f)) of
        Inl _ \<Rightarrow> ([], f) | Inr f' \<Rightarrow> ([], f'))"

definition fd_step :: "(bytes \<Rightarrow> u32) \<Rightarrow> seq_key \<Rightarrow> file_driver \<Rightarrow> fd_cmd \<Rightarrow> nat list \<times> file_driver" where
  "fd_step crc k f c = (if fd_cmd_valid c then fd_call crc k f c else ([], f))"

section \<open>Dropped futures\<close>

text \<open>
  \<open>persist_high_water\<close> split at its suspension point. The call takes the write lock and
  hands the write to a blocking worker; it resumes when that worker is done and only
  then publishes. Dropping the future releases the lock and leaves the worker running.
\<close>

record async_fd =
  af_disk :: disk
  af_state :: u64
  af_lock :: "(nat \<times> u64) option"
  af_tasks :: "(nat \<times> u64) list"
  af_next :: nat

datatype async_event = PersistCall u64 | RunTask nat | Resume | DropFuture

fun async_step :: "(bytes \<Rightarrow> u32) \<Rightarrow> async_fd \<Rightarrow> async_event \<Rightarrow> async_fd" where
  "async_step crc s (PersistCall t) =
     (if af_lock s = None \<and> is_ok (reject_out_of_range_advance t) \<and> \<not> t \<le> af_state s
      then s\<lparr>af_lock := Some (af_next s, t), af_tasks := af_tasks s @ [(af_next s, t)], af_next := Suc (af_next s)\<rparr>
      else s)"
| "async_step crc s (RunTask i) =
     (case map_of (af_tasks s) i of
        None \<Rightarrow> s
      | Some t \<Rightarrow> s\<lparr>af_disk := snd (write_record crc t IoOk (af_disk s)),
                    af_tasks := filter (\<lambda>x. fst x \<noteq> i) (af_tasks s)\<rparr>)"
| "async_step crc s Resume =
     (case af_lock s of
        None \<Rightarrow> s
      | Some (i, t) \<Rightarrow> if map_of (af_tasks s) i = None then s\<lparr>af_state := t, af_lock := None\<rparr> else s)"
| "async_step crc s DropFuture = s\<lparr>af_lock := None\<rparr>"

definition async_run :: "(bytes \<Rightarrow> u32) \<Rightarrow> async_fd \<Rightarrow> async_event list \<Rightarrow> async_fd" where
  "async_run crc = foldl (async_step crc)"

definition async_fresh :: async_fd where
  "async_fresh = \<lparr>af_disk = empty_disk, af_state = 0, af_lock = None, af_tasks = [], af_next = 0\<rparr>"

section \<open>Contracts\<close>

text \<open>
  The driver together with the faults its environment has in store for the coming
  writes.
\<close>

definition faulty :: "(io_fault \<Rightarrow> 's \<Rightarrow> 'r \<times> 's) \<Rightarrow> io_fault list \<times> 's \<Rightarrow> 'r \<times> (io_fault list \<times> 's)" where
  "faulty op st =
     (let (r, s') = op (case fst st of [] \<Rightarrow> IoOk | io # _ \<Rightarrow> io) (snd st) in (r, (tl (fst st), s')))"

lemma faulty_simps:
  "fst (faulty op st) = fst (op (case fst st of [] \<Rightarrow> IoOk | io # _ \<Rightarrow> io) (snd st))"
  "snd (snd (faulty op st)) = snd (op (case fst st of [] \<Rightarrow> IoOk | io # _ \<Rightarrow> io) (snd st))"
  by (simp_all add: faulty_def split: prod.splits)

definition fd_counter :: "file_driver \<Rightarrow> seq_key \<Rightarrow> u64" where
  "fd_counter f k = bt_lookup0 (ds_map (fd_dense f)) (key_str k)"

lemma publish_dense_cases:
  assumes "publish_dense crc io m' reply f = (r, f')"
  shows "case r of Inl _ \<Rightarrow> fd_dense f' = fd_dense f
    | Inr x \<Rightarrow> x = reply \<and> fd_dense f' = (fd_dense f)\<lparr>ds_map := m'\<rparr>"
  using assms by (auto simp: publish_dense_def split: prod.splits sum.splits)

lemma advance_dense_elim:
  obtains (rej) err where "fd_advance_dense crc io k n e f = (Inl err, f)"
  | (pub) v where "checked_add (fd_counter f k) (ucast n) = Some v"
      "\<not> (bt_get (ds_map (fd_dense f)) (key_str k) = None
          \<and> of_nat (length (ds_map (fd_dense f))) \<ge> ds_cap (fd_dense f))"
      "fd_advance_dense crc io k n e f
         = publish_dense crc io (bt_insert (key_str k) v (ds_map (fd_dense f))) (fd_counter f k) f"
proof (cases "bt_get (ds_map (fd_dense f)) (key_str k) = None
    \<and> of_nat (length (ds_map (fd_dense f))) \<ge> ds_cap (fd_dense f)")
  case True
  then show ?thesis by (intro rej) (simp add: fd_advance_dense_def Let_def)
next
  case False
  then show ?thesis
  proof (cases "checked_add (fd_counter f k) (ucast n)")
    case None
    with False show ?thesis
      by (intro rej [of ConsSeqOverflow]) (auto simp: fd_advance_dense_def Let_def fd_counter_def)
  next
    case (Some v)
    from False Some show ?thesis
      by (intro pub [OF Some False]) (auto simp: fd_advance_dense_def Let_def fd_counter_def)
  qed
qed

lemma advance_dense_batch_elim:
  obtains (empty) "es = []" "fd_advance_dense_batch crc io es e f = (Inr [], f)"
  | (rej) err where "fd_advance_dense_batch crc io es e f = (Inl err, f)"
  | (pub) ss sc where "batch_fold (ds_map (fd_dense f)) es [] [] = Inr (ss, sc)"
      "\<not> of_nat (length (ds_map (fd_dense f))) + of_nat (length (batch_new_keys (ds_map (fd_dense f)) es))
          > ds_cap (fd_dense f)"
      "fd_advance_dense_batch crc io es e f
         = publish_dense crc io (batch_merge sc (ds_map (fd_dense f))) ss f"
proof (cases "es = []")
  case True
  then show ?thesis by (intro empty) (simp_all add: fd_advance_dense_batch_def)
next
  case es: False
  show ?thesis
  proof (cases "of_nat (length (ds_map (fd_dense f))) + of_nat (length (batch_new_keys (ds_map (fd_dense f)) es))
      > ds_cap (fd_dense f)")
    case True
    with es show ?thesis by (intro rej) (simp add: fd_advance_dense_batch_def Let_def)
  next
    case False
    show ?thesis
    proof (cases "batch_fold (ds_map (fd_dense f)) es [] []")
      case (Inl err)
      with es False show ?thesis by (intro rej) (simp add: fd_advance_dense_batch_def Let_def)
    next
      case (Inr x)
      with es False show ?thesis
        by (cases x, intro pub [of "fst x" "snd x"]) (simp_all add: fd_advance_dense_batch_def Let_def)
    qed
  qed
qed

lemma advance_dense_cases:
  assumes "fd_advance_dense crc io k n e f = (r, f')" "bt_wf (ds_map (fd_dense f))"
  shows "bt_wf (ds_map (fd_dense f')) \<and> (case r of Inl _ \<Rightarrow> fd_counter f' = fd_counter f
    | Inr start \<Rightarrow> seq_fold (fd_counter f) [(k, n)] = Some ([start], fd_counter f'))"
proof -
  let ?m = "ds_map (fd_dense f)"
  show ?thesis
  proof (cases rule: advance_dense_elim [of crc io k n e f])
    case (rej err)
    with assms show ?thesis by auto
  next
    case (pub v)
    have "(\<lambda>j. bt_lookup0 (bt_insert (key_str k) v ?m) (key_str j)) = (fd_counter f)(k := v)"
      by (auto simp: fd_counter_def bt_lookup0_def bt_simps fun_eq_iff seq_key.expand)
    with publish_dense_cases [OF pub(3) [symmetric, unfolded assms(1)]] pub(1) assms(2) show ?thesis
      by (auto simp: fd_counter_def [abs_def] bt.wf_insert split: sum.splits)
  qed
qed

lemma advance_dense_batch_cases:
  assumes "fd_advance_dense_batch crc io es e f = (r, f')" "bt_wf (ds_map (fd_dense f))"
  shows "bt_wf (ds_map (fd_dense f')) \<and> (case r of Inl _ \<Rightarrow> fd_counter f' = fd_counter f
    | Inr ss \<Rightarrow> seq_fold (fd_counter f) es = Some (ss, fd_counter f'))"
proof -
  let ?m = "ds_map (fd_dense f)"
  have ov: "overlay ?m [] = fd_counter f" by (simp add: overlay_Nil fd_counter_def fun_eq_iff)
  show ?thesis
  proof (cases rule: advance_dense_batch_elim [of es crc io e f])
    case (pub ss sc)
    from batch_fold_seq [OF pub(1)]
    have sc: "bt_wf sc" "seq_fold (fd_counter f) es = Some (ss, overlay ?m sc)" by (simp_all add: ov)
    have "(\<lambda>j. bt_lookup0 (batch_merge sc ?m) (key_str j)) = overlay ?m sc"
      using fold_insert_overlay [OF sc(1)] by (simp add: fun_eq_iff)
    with publish_dense_cases [OF pub(3) [symmetric, unfolded assms(1)]] sc assms(2) show ?thesis
      by (auto simp: fd_counter_def [abs_def] bt_wf_fold_insert split: sum.splits)
  qed (use assms in auto)
qed

interpretation fdr: high_water_register
  "\<lambda>a e. faulty (\<lambda>io. fd_persist_high_water crc io a e)" "\<lambda>(fs, f). (fst (fd_load_high_water f), (fs, f))"
  "\<lambda>st. fd_state (snd st)" "\<lambda>st. fd_state (snd st) \<le> PHYSICAL_MS_MAX" for crc
  by unfold_locales
    (auto simp: faulty_simps fd_persist_high_water_def fd_load_high_water_def reject_out_of_range_advance_def
      Let_def split: sum.splits prod.splits if_splits)

lemma advance_dense_facts:
  assumes "bt_wf (ds_map (fd_dense f))"
  shows "bt_wf (ds_map (fd_dense (snd (fd_advance_dense crc io k n e f))))"
    "case fst (fd_advance_dense crc io k n e f) of
       Inl _ \<Rightarrow> fd_counter (snd (fd_advance_dense crc io k n e f)) = fd_counter f
     | Inr start \<Rightarrow> seq_fold (fd_counter f) [(k, n)]
         = Some ([start], fd_counter (snd (fd_advance_dense crc io k n e f)))"
  using advance_dense_cases [where crc = crc and io = io and k = k and n = n and e = e,
      OF prod.collapse [symmetric] assms] by (rule conjunct1, rule conjunct2)

lemma advance_dense_batch_facts:
  assumes "bt_wf (ds_map (fd_dense f))"
  shows "bt_wf (ds_map (fd_dense (snd (fd_advance_dense_batch crc io es e f))))"
    "case fst (fd_advance_dense_batch crc io es e f) of
       Inl _ \<Rightarrow> fd_counter (snd (fd_advance_dense_batch crc io es e f)) = fd_counter f
     | Inr ss \<Rightarrow> seq_fold (fd_counter f) es
         = Some (ss, fd_counter (snd (fd_advance_dense_batch crc io es e f)))"
  using advance_dense_batch_cases [where crc = crc and io = io and es = es and e = e,
      OF prod.collapse [symmetric] assms] by (rule conjunct1, rule conjunct2)

interpretation fdd: dense_counters
  "\<lambda>k n e. faulty (\<lambda>io. fd_advance_dense crc io k n e)"
  "\<lambda>es e. faulty (\<lambda>io. fd_advance_dense_batch crc io es e)"
  "\<lambda>st. fd_counter (snd st)" "\<lambda>st. bt_wf (ds_map (fd_dense (snd st)))" for crc
proof (unfold_locales, unfold faulty_simps, goal_cases)
  case (2 s k n e start)
  note f = advance_dense_facts(2) [OF 2(1), where crc = crc and k = k and n = n and e = e]
  show ?case using f [of "case fst s of [] \<Rightarrow> IoOk | io # _ \<Rightarrow> io"] by (simp only: 2(2) sum.case)
next
  case (3 s k n e err)
  note f = advance_dense_facts(2) [OF 3(1), where crc = crc and k = k and n = n and e = e]
  show ?case using f [of "case fst s of [] \<Rightarrow> IoOk | io # _ \<Rightarrow> io"] by (simp only: 3(2) sum.case)
next
  case (5 s es e starts)
  note f = advance_dense_batch_facts(2) [OF 5(1), where crc = crc and es = es and e = e]
  show ?case using f [of "case fst s of [] \<Rightarrow> IoOk | io # _ \<Rightarrow> io"] by (simp only: 5(2) sum.case)
next
  case (6 s es e err)
  note f = advance_dense_batch_facts(2) [OF 6(1), where crc = crc and es = es and e = e]
  show ?case using f [of "case fst s of [] \<Rightarrow> IoOk | io # _ \<Rightarrow> io"] by (simp only: 6(2) sum.case)
qed (rule advance_dense_facts advance_dense_batch_facts, assumption)+

interpretation fdl: lease_store
  "\<lambda>live e. faulty (\<lambda>io. fd_persist_leases crc io live e)" "\<lambda>(fs, f). (fst (fd_load_leases f), (fs, f))"
  "\<lambda>st. fd_leases (snd st)" "\<lambda>_. True" for crc
  by unfold_locales
    (auto simp: faulty_simps fd_persist_leases_def fd_load_leases_def Let_def split: sum.splits prod.splits)

section \<open>What the media holds\<close>

text \<open>
  A view of the directory covers the driver when each file, read back, holds at least
  what the driver has acknowledged.
\<close>

definition state_covered :: "(bytes \<Rightarrow> u32) \<Rightarrow> bytes option \<Rightarrow> u64 \<Rightarrow> bool" where
  "state_covered crc b hw = (case b of None \<Rightarrow> hw = 0
     | Some bs \<Rightarrow> \<exists>x. bs = record_encode crc x \<and> hw \<le> x \<and> x \<le> PHYSICAL_MS_MAX)"

definition dense_good :: "dense_state \<Rightarrow> bool" where
  "dense_good ds \<longleftrightarrow> dense_keys_ok (ds_map ds) \<and> length (ds_map ds) \<le> unat (ds_cap ds) \<and> unat (ds_cap ds) < 2 ^ 32"

definition dense_covered :: "(bytes \<Rightarrow> u32) \<Rightarrow> bytes option \<Rightarrow> dense_state \<Rightarrow> bool" where
  "dense_covered crc b ds = (case b of
       None \<Rightarrow> ds = \<lparr>ds_map = [], ds_cap = DEFAULT_DENSE_CARDINALITY_CAP\<rparr>
     | Some bs \<Rightarrow> \<exists>m. bs = dense_encode crc (m, ds_cap ds) \<and> dense_good \<lparr>ds_map = m, ds_cap = ds_cap ds\<rparr>
         \<and> (\<forall>k. bt_lookup0 (ds_map ds) k \<le> bt_lookup0 m k))"

definition leases_covered :: "(bytes \<Rightarrow> u32) \<Rightarrow> bytes option \<Rightarrow> bool" where
  "leases_covered crc b = (case b of None \<Rightarrow> True | Some bs \<Rightarrow> \<exists>rs. leases_ok rs \<and> bs = lease_encode crc rs)"

definition view_covers :: "(bytes \<Rightarrow> u32) \<Rightarrow> (string \<Rightarrow> bytes option) \<Rightarrow> file_driver \<Rightarrow> bool" where
  "view_covers crc v f \<longleftrightarrow> state_covered crc (v STATE_FILE) (fd_state f)
     \<and> dense_covered crc (v DENSE_FILE) (fd_dense f) \<and> leases_covered crc (v LEASES_FILE)"

definition fd_inv :: "(bytes \<Rightarrow> u32) \<Rightarrow> file_driver \<Rightarrow> bool" where
  "fd_inv crc f \<longleftrightarrow> fd_state f \<le> PHYSICAL_MS_MAX \<and> dense_good (fd_dense f)
     \<and> view_covers crc (vis (fd_disk f)) f \<and> view_covers crc (stable (fd_disk f)) f"

lemma file_names_distinct [simp]:
  "STATE_FILE \<noteq> DENSE_FILE" "STATE_FILE \<noteq> LEASES_FILE" "DENSE_FILE \<noteq> LEASES_FILE"
  "DENSE_FILE \<noteq> STATE_FILE" "LEASES_FILE \<noteq> STATE_FILE" "LEASES_FILE \<noteq> DENSE_FILE"
  by (simp_all add: STATE_FILE_def DENSE_FILE_def LEASES_FILE_def)

lemma tmp_names_distinct:
  assumes "m \<in> {STATE_FILE, DENSE_FILE, LEASES_FILE}" "n \<in> {STATE_FILE, DENSE_FILE, LEASES_FILE}"
  shows "tmp_of m \<noteq> n"
proof
  assume "tmp_of m = n"
  then have "last n = last ''.tmp''" by (auto simp: tmp_of_def)
  with assms(2) show False by (auto simp: STATE_FILE_def DENSE_FILE_def LEASES_FILE_def)
qed

text \<open>A write touches its own file only, and leaves it old or fully new.\<close>

lemma write_framed_file_effect:
  assumes "write_framed_file name bs io d = (r, d')" "name' \<in> {STATE_FILE, DENSE_FILE, LEASES_FILE}"
    and "name \<in> {STATE_FILE, DENSE_FILE, LEASES_FILE}"
  shows "name' \<noteq> name \<Longrightarrow> vis d' name' = vis d name' \<and> stable d' name' \<in> {stable d name', vis d name'}"
    and "vis d' name \<in> {vis d name, Some bs}" "stable d' name \<in> {stable d name, Some bs}"
    and "r = Inr () \<Longrightarrow> vis d' name = Some bs \<and> stable d' name = Some bs"
  using assms(1) tmp_names_distinct [OF assms(3,2)] tmp_names_distinct [OF assms(3,3)]
  by (cases io; auto simp: Let_def)+

lemma write_framed_file_covers:
  assumes "write_framed_file name bs io d = (r, d')" "name \<in> {STATE_FILE, DENSE_FILE, LEASES_FILE}"
    and "\<forall>n \<in> {STATE_FILE, DENSE_FILE, LEASES_FILE}. P n (vis d n) \<and> P n (stable d n)" "P name (Some bs)"
    and "n \<in> {STATE_FILE, DENSE_FILE, LEASES_FILE}"
  shows "P n (vis d' n) \<and> P n (stable d' n)"
proof (cases "n = name")
  case True
  with write_framed_file_effect(2,3) [OF assms(1,5,2)] assms show ?thesis by auto
next
  case False
  with write_framed_file_effect(1) [OF assms(1,5,2)] assms show ?thesis by auto
qed

text \<open>The coverage of all three files as one predicate on names.\<close>

definition covered :: "(bytes \<Rightarrow> u32) \<Rightarrow> file_driver \<Rightarrow> string \<Rightarrow> bytes option \<Rightarrow> bool" where
  "covered crc f n b \<longleftrightarrow>
     (n = STATE_FILE \<longrightarrow> state_covered crc b (fd_state f)) \<and> (n = DENSE_FILE \<longrightarrow> dense_covered crc b (fd_dense f))
     \<and> (n = LEASES_FILE \<longrightarrow> leases_covered crc b)"

lemma view_covers_iff:
  "view_covers crc v f \<longleftrightarrow> (\<forall>n \<in> {STATE_FILE, DENSE_FILE, LEASES_FILE}. covered crc f n (v n))"
  by (simp add: view_covers_def covered_def)

lemma fd_inv_write:
  assumes inv: "fd_inv crc f" and w: "write_framed_file name bs io (fd_disk f) = (r, d)"
    and n: "name \<in> {STATE_FILE, DENSE_FILE, LEASES_FILE}" and c: "covered crc f name (Some bs)"
  shows "fd_inv crc (f\<lparr>fd_disk := d\<rparr>)"
proof -
  have cov: "covered crc (f\<lparr>fd_disk := d\<rparr>) = covered crc f" by (simp add: covered_def fun_eq_iff)
  have "\<forall>n \<in> {STATE_FILE, DENSE_FILE, LEASES_FILE}.
      covered crc f n (vis (fd_disk f) n) \<and> covered crc f n (stable (fd_disk f) n)"
    using inv by (auto simp: fd_inv_def view_covers_iff)
  from write_framed_file_covers [OF w n this c] inv show ?thesis
    by (simp add: fd_inv_def view_covers_iff cov)
qed

lemma fd_inv_publish:
  assumes inv: "fd_inv crc f" and w: "write_framed_file name bs io (fd_disk f) = (Inr (), d)"
    and n: "name \<in> {STATE_FILE, DENSE_FILE, LEASES_FILE}"
    and g: "fd_disk g = d" "fd_state g \<le> PHYSICAL_MS_MAX" "dense_good (fd_dense g)"
    and c: "covered crc g name (Some bs)"
    and same: "name \<noteq> STATE_FILE \<Longrightarrow> fd_state g = fd_state f" "name \<noteq> DENSE_FILE \<Longrightarrow> fd_dense g = fd_dense f"
  shows "fd_inv crc g"
proof -
  have "covered crc g m (vis d m) \<and> covered crc g m (stable d m)"
    if m: "m \<in> {STATE_FILE, DENSE_FILE, LEASES_FILE}" for m
  proof (cases "m = name")
    case True
    with write_framed_file_effect(4) [OF w m n] c show ?thesis by simp
  next
    case False
    then have "covered crc g m = covered crc f m" using same n m by (auto simp: covered_def fun_eq_iff)
    with False write_framed_file_effect(1) [OF w m n] inv m show ?thesis
      by (auto simp: fd_inv_def view_covers_iff)
  qed
  with g show ?thesis by (simp add: fd_inv_def view_covers_iff)
qed

section \<open>Operations keep the media covered\<close>

lemma persist_fd_inv:
  assumes "fd_inv crc f"
  shows "fd_inv crc (snd (fd_persist_high_water crc io a e f))"
proof (cases "a > PHYSICAL_MS_MAX \<or> a \<le> fd_state f")
  case True
  with assms show ?thesis
    by (auto simp: fd_persist_high_water_def reject_out_of_range_advance_def Let_def)
next
  case False
  obtain r d where w: "write_framed_file STATE_FILE (record_encode crc a) io (fd_disk f) = (r, d)" by fastforce
  have c: "covered crc f STATE_FILE (Some (record_encode crc a))"
      "covered crc (f\<lparr>fd_disk := d, fd_state := a\<rparr>) STATE_FILE (Some (record_encode crc a))"
    using False by (auto simp: covered_def state_covered_def)
  show ?thesis
  proof (cases r)
    case (Inl err)
    with False fd_inv_write [OF assms w _ c(1)] w show ?thesis
      by (simp add: fd_persist_high_water_def reject_out_of_range_advance_def write_record_def permanent_def)
  next
    case (Inr u)
    with w have w': "write_framed_file STATE_FILE (record_encode crc a) io (fd_disk f) = (Inr (), d)" by simp
    have "fd_inv crc (f\<lparr>fd_disk := d, fd_state := a\<rparr>)"
      using assms False by (intro fd_inv_publish [OF assms w' _ _ _ _ c(2)]) (auto simp: fd_inv_def)
    with False Inr w show ?thesis
      by (simp add: fd_persist_high_water_def reject_out_of_range_advance_def write_record_def permanent_def)
  qed
qed

lemma publish_dense_fd_inv:
  assumes inv: "fd_inv crc f" and good: "dense_good \<lparr>ds_map = m, ds_cap = ds_cap (fd_dense f)\<rparr>"
    and up: "\<And>k. bt_lookup0 (ds_map (fd_dense f)) k \<le> bt_lookup0 m k"
  shows "fd_inv crc (snd (publish_dense crc io m reply f))"
proof -
  let ?bs = "dense_encode crc (m, ds_cap (fd_dense f))"
  obtain r d where w: "write_framed_file DENSE_FILE ?bs io (fd_disk f) = (r, d)" by fastforce
  let ?g = "f\<lparr>fd_disk := d, fd_dense := (fd_dense f)\<lparr>ds_map := m\<rparr>\<rparr>"
  have c: "covered crc f DENSE_FILE (Some ?bs)" "covered crc ?g DENSE_FILE (Some ?bs)"
    using good up by (auto simp: covered_def dense_covered_def)
  show ?thesis
  proof (cases r)
    case (Inl err)
    with fd_inv_write [OF inv w _ c(1)] w show ?thesis
      by (simp add: publish_dense_def write_dense_record_def permanent_def)
  next
    case (Inr u)
    with w have w': "write_framed_file DENSE_FILE ?bs io (fd_disk f) = (Inr (), d)" by simp
    have "fd_inv crc ?g"
      using inv good by (intro fd_inv_publish [OF inv w' _ _ _ _ c(2)]) (auto simp: fd_inv_def dense_good_def)
    with Inr w show ?thesis by (simp add: publish_dense_def write_dense_record_def permanent_def)
  qed
qed

lemma dense_keys_ok_get_iff:
  "dense_keys_ok m \<longleftrightarrow> bt_wf m \<and> (\<forall>k \<in> fst ` set m. utf8_valid k \<and> length k < 65536)"
  by (auto simp: dense_keys_ok_def list_all_iff)

lemma advance_dense_fd_inv:
  assumes inv: "fd_inv crc f" and key: "key_valid k"
  shows "fd_inv crc (snd (fd_advance_dense crc io k n e f))"
proof -
  let ?m = "ds_map (fd_dense f)" and ?cap = "ds_cap (fd_dense f)"
  have good: "dense_keys_ok ?m" "bt_wf ?m" "length ?m \<le> unat ?cap" "unat ?cap < 2 ^ 32"
    using inv by (auto simp: fd_inv_def dense_good_def dense_keys_ok_def)
  show ?thesis
  proof (cases rule: advance_dense_elim [of crc io k n e f])
    case (pub v)
    have "length (bt_insert (key_str k) v ?m) \<le> unat ?cap"
      using pub(2) good(3,4) length_bt_insert [OF good(2), of "key_str k" v]
      by (auto simp: word_le_nat_alt unat_of_nat split: if_splits)
    moreover have "dense_keys_ok (bt_insert (key_str k) v ?m)"
      using good(1) key by (auto simp: dense_keys_ok_get_iff keys_bt_insert key_valid_def seq_key_ok_def
          MAX_SEQ_KEY_LEN_def)
    ultimately have "dense_good \<lparr>ds_map = bt_insert (key_str k) v ?m, ds_cap = ?cap\<rparr>"
      using good(4) by (simp add: dense_good_def)
    moreover have "bt_lookup0 ?m j \<le> bt_lookup0 (bt_insert (key_str k) v ?m) j" for j
      using checked_add_SomeD [OF pub(1)] by (auto simp: fd_counter_def bt_lookup0_def bt_simps word_le_nat_alt)
    ultimately show ?thesis unfolding pub(3) by (rule publish_dense_fd_inv [OF inv])
  qed (use inv in simp)
qed

lemma keys_fold_insert:
  "fst ` set (fold (\<lambda>kv a. bt_insert (fst kv) (snd kv) a) sc m) = fst ` set m \<union> fst ` set sc"
  by (induction sc arbitrary: m) (auto simp: keys_bt_insert)

lemma length_fold_insert:
  assumes "bt_wf m" "fst ` set sc = K ` set es"
  shows "length (fold (\<lambda>kv a. bt_insert (fst kv) (snd kv) a) sc m)
     = length m + length (remdups (filter (\<lambda>k. bt_get m k = None) (map K es)))"
proof -
  let ?m = "fold (\<lambda>kv a. bt_insert (fst kv) (snd kv) a) sc m"
  have "distinct (map fst ?m)" "distinct (map fst m)"
    using bt_wf_fold_insert [OF assms(1)] assms(1) bt.distinct_keys by blast+
  then have l: "length ?m = card (fst ` set ?m)" "length m = card (fst ` set m)"
    using distinct_card [of "map fst ?m"] distinct_card [of "map fst m"] by simp_all
  have "length (remdups (filter (\<lambda>k. bt_get m k = None) (map K es))) = card (fst ` set sc - fst ` set m)"
    unfolding length_remdups_card_conv assms(2)
    by (rule arg_cong [of _ _ card]) (auto simp: bt_get_eq_None_iff)
  moreover have "card (fst ` set m \<union> fst ` set sc) = card (fst ` set m) + card (fst ` set sc - fst ` set m)"
    by (metis List.finite_set Un_Diff_cancel card_Un_disjoint finite_Diff finite_imageI Diff_disjoint)
  ultimately show ?thesis using l by (simp add: keys_fold_insert)
qed

lemma seq_fold_mono: "seq_fold c es = Some (ss, c') \<Longrightarrow> c k \<le> c' k"
  using seq_fold_gapless [of c es ss c' k] by (simp add: word_le_nat_alt)

lemma advance_dense_batch_fd_inv:
  assumes inv: "fd_inv crc f" and keys: "list_all (\<lambda>x. key_valid (fst x)) es" and len: "length es < 2 ^ 32"
  shows "fd_inv crc (snd (fd_advance_dense_batch crc io es e f))"
proof -
  let ?m = "ds_map (fd_dense f)" and ?cap = "ds_cap (fd_dense f)"
  have good: "dense_keys_ok ?m" "bt_wf ?m" "length ?m \<le> unat ?cap" "unat ?cap < 2 ^ 32"
    using inv by (auto simp: fd_inv_def dense_good_def dense_keys_ok_def)
  show ?thesis
  proof (cases rule: advance_dense_batch_elim [of es crc io e f])
    case (pub ss sc)
    let ?n = "batch_merge sc ?m" and ?new = "batch_new_keys ?m es"
    from batch_fold_seq [OF pub(1)]
    have sc: "bt_wf sc" "fst ` set sc = (\<lambda>x. key_str (fst x)) ` set es"
        "seq_fold (overlay ?m []) es = Some (ss, overlay ?m sc)" by simp_all
    have "length ?new \<le> length es"
      by (rule order_trans [OF length_remdups_leq]) (metis length_filter_le length_map)
    then have "length ?m + length ?new \<le> unat ?cap"
      using pub(2) good(3,4) len by (simp add: word_le_nat_alt unat_word_ariths unat_of_nat not_less)
    then have "length ?n \<le> unat ?cap" using length_fold_insert [OF good(2) sc(2)] by simp
    moreover have "dense_keys_ok ?n"
      using good(1) keys sc(2) bt_wf_fold_insert [OF good(2)]
      by (auto simp: dense_keys_ok_get_iff keys_fold_insert list_all_iff key_valid_def seq_key_ok_def
          MAX_SEQ_KEY_LEN_def)
    ultimately have "dense_good \<lparr>ds_map = ?n, ds_cap = ?cap\<rparr>" using good(4) by (simp add: dense_good_def)
    moreover have "bt_lookup0 ?m j \<le> bt_lookup0 ?n j" for j
      using seq_fold_mono [OF sc(3), of "SeqKey j"] fold_insert_overlay [OF sc(1), of ?m "SeqKey j"]
      by (simp add: overlay_Nil)
    ultimately show ?thesis unfolding pub(3) by (rule publish_dense_fd_inv [OF inv])
  qed (use inv in simp_all)
qed

lemma representable_sorted: "leases_representable rs \<Longrightarrow> leases_ok (sort_key lease_id rs)"
  by (simp add: leases_representable_def leases_ok_sort_key)

lemma persist_leases_fd_inv:
  assumes inv: "fd_inv crc f" and rep: "leases_representable live"
  shows "fd_inv crc (snd (fd_persist_leases crc io live e f))"
proof -
  let ?bs = "lease_encode crc live"
  obtain r d where w: "write_framed_file LEASES_FILE ?bs io (fd_disk f) = (r, d)" by fastforce
  have c: "covered crc g LEASES_FILE (Some ?bs)" for g
    using representable_sorted [OF rep] lease_encode_sort [of crc live]
    by (auto simp: covered_def leases_covered_def)
  show ?thesis
  proof (cases r)
    case (Inl err)
    with fd_inv_write [OF inv w _ c] w show ?thesis
      by (simp add: fd_persist_leases_def write_lease_record_def permanent_def)
  next
    case (Inr u)
    with w have w': "write_framed_file LEASES_FILE ?bs io (fd_disk f) = (Inr (), d)" by simp
    have "fd_inv crc (f\<lparr>fd_disk := d, fd_leases := live\<rparr>)"
      using inv by (intro fd_inv_publish [OF inv w' _ _ _ _ c]) (auto simp: fd_inv_def)
    with Inr w show ?thesis by (simp add: fd_persist_leases_def write_lease_record_def permanent_def)
  qed
qed

section \<open>Recovery\<close>

lemma view_covers_open:
  assumes "view_covers crc (vis d) f" "fd_state f \<le> PHYSICAL_MS_MAX" "dense_good (fd_dense f)" "\<not> dir_locked d"
    "\<forall>n. \<not> unreadable d n"
  obtains f' where "open_or_init crc False d = Inr f'" "fd_disk f' = d\<lparr>dir_locked := True\<rparr>"
    "fd_state f \<le> fd_state f'" "fd_state f' \<le> PHYSICAL_MS_MAX" "dense_good (fd_dense f')"
    "\<And>k. fd_counter f k \<le> fd_counter f' k" "view_covers crc (vis d) f'"
    "\<And>bs. vis d LEASES_FILE = Some bs \<Longrightarrow> lease_decode crc bs = Inr (fd_leases f')"
proof -
  let ?d = "d\<lparr>dir_locked := True\<rparr>"
  obtain x where x: "open_high_water crc ?d = Inr x" "fd_state f \<le> x" "x \<le> PHYSICAL_MS_MAX"
      "state_covered crc (vis d STATE_FILE) x"
  proof (cases "vis d STATE_FILE")
    case None
    with assms(1,2) that [of 0] show ?thesis
      by (simp add: view_covers_def state_covered_def open_high_water_def)
  next
    case (Some bs)
    with assms(1) obtain y where "bs = record_encode crc y" "fd_state f \<le> y" "y \<le> PHYSICAL_MS_MAX"
      by (auto simp: view_covers_def state_covered_def)
    with Some show ?thesis
      by (intro that [of y]) (auto simp: state_covered_def open_high_water_def record_decode_encode
          read_file_def assms(5))
  qed
  obtain ds where ds: "open_dense crc ?d = Inr ds" "dense_good ds"
      "\<forall>k. bt_lookup0 (ds_map (fd_dense f)) k \<le> bt_lookup0 (ds_map ds) k" "dense_covered crc (vis d DENSE_FILE) ds"
  proof (cases "vis d DENSE_FILE")
    case None
    with assms(1,3) that [of "fd_dense f"] show ?thesis
      by (simp add: view_covers_def dense_covered_def open_dense_def)
  next
    case (Some bs)
    with assms(1) obtain m where m: "bs = dense_encode crc (m, ds_cap (fd_dense f))"
        "dense_good \<lparr>ds_map = m, ds_cap = ds_cap (fd_dense f)\<rparr>"
        "\<forall>k. bt_lookup0 (ds_map (fd_dense f)) k \<le> bt_lookup0 m k"
      by (auto simp: view_covers_def dense_covered_def)
    then have "dense_decode crc bs = Inr (m, ds_cap (fd_dense f))"
      by (simp add: dense_decode_encode dense_ok_def dense_good_def)
    with Some m that [of "\<lparr>ds_map = m, ds_cap = ds_cap (fd_dense f)\<rparr>"] show ?thesis
      by (auto simp: open_dense_def dense_covered_def read_file_def assms(5))
  qed
  obtain rs where rs: "open_leases crc ?d = Inr rs"
      "\<And>bs. vis d LEASES_FILE = Some bs \<Longrightarrow> lease_decode crc bs = Inr rs"
    using assms(1) by (cases "vis d LEASES_FILE")
      (auto simp: view_covers_def leases_covered_def open_leases_def lease_decode_encode read_file_def assms(5))
  let ?f = "\<lparr>fd_disk = ?d, fd_state = x, fd_dense = ds, fd_leases = rs\<rparr>"
  have "open_or_init crc False d = Inr ?f"
    using x(1) ds(1) rs(1) assms(4,5) by (simp add: open_or_init_def acquire_exclusive_lock_def)
  with x ds rs(2) assms(1) that [of ?f] show ?thesis
    by (simp add: fd_counter_def view_covers_def)
qed

lemma power_failure_reopen:
  assumes "fd_inv crc f"
  obtains f' where "open_or_init crc False (power_failure keep (fd_disk f)) = Inr f'" "fd_inv crc f'"
    "fd_state f \<le> fd_state f'" "\<forall>k. fd_counter f k \<le> fd_counter f' k"
proof -
  let ?d = "power_failure keep (fd_disk f)"
  have v: "view_covers crc (vis ?d) f" "vis ?d = stable ?d" "\<not> dir_locked ?d" "\<forall>n. \<not> unreadable ?d n"
    using assms by (auto simp: power_failure_def Let_def fd_inv_def view_covers_def)
  obtain f' where f': "open_or_init crc False ?d = Inr f'" "fd_disk f' = ?d\<lparr>dir_locked := True\<rparr>"
    "fd_state f \<le> fd_state f'" "fd_state f' \<le> PHYSICAL_MS_MAX" "dense_good (fd_dense f')"
    "\<And>k. fd_counter f k \<le> fd_counter f' k" "view_covers crc (vis ?d) f'"
    "\<And>bs. vis ?d LEASES_FILE = Some bs \<Longrightarrow> lease_decode crc bs = Inr (fd_leases f')"
    by (rule view_covers_open [OF v(1) _ _ v(3,4)]) (use assms in \<open>simp_all add: fd_inv_def\<close>)
  moreover have "fd_inv crc f'" using f' v(2) by (simp add: fd_inv_def)
  ultimately show ?thesis using that by blast
qed

lemma fd_fresh_inv: "fd_inv crc fd_fresh"
  by (simp add: fd_inv_def fd_fresh_def view_covers_def state_covered_def dense_covered_def leases_covered_def
      empty_disk_def dense_good_def dense_keys_ok_def DEFAULT_DENSE_CARDINALITY_CAP_def PHYSICAL_MS_MAX_def)

lemma fd_fresh_opens: "open_or_init crc False empty_disk = Inr fd_fresh"
  by (simp add: open_or_init_def acquire_exclusive_lock_def empty_disk_def open_high_water_def open_dense_def
      open_leases_def fd_fresh_def)

lemma fd_inv_wf: "fd_inv crc f \<Longrightarrow> bt_wf (ds_map (fd_dense f))"
  by (simp add: fd_inv_def dense_good_def dense_keys_ok_def)

lemma persist_counter [simp]: "fd_counter (snd (fd_persist_high_water crc io a e f)) = fd_counter f"
  by (auto simp: fd_persist_high_water_def fd_counter_def fun_eq_iff Let_def split: sum.splits prod.splits)

lemma persist_leases_counter [simp]: "fd_counter (snd (fd_persist_leases crc io rs e f)) = fd_counter f"
  by (auto simp: fd_persist_leases_def fd_counter_def fun_eq_iff Let_def split: sum.splits prod.splits)

text \<open>What one call hands out is the interval its key's counter moves over.\<close>

lemma fd_step_block:
  assumes inv: "fd_inv crc f" and st: "fd_step crc k f c = (gs, f')"
  shows "fd_inv crc f' \<and> unat (fd_counter f k) \<le> unat (fd_counter f' k)
     \<and> (gs = [unat (fd_counter f k) ..< unat (fd_counter f' k)] \<or> gs = [])"
proof (cases "fd_cmd_valid c")
  case True
  with st have c: "fd_call crc k f c = (gs, f')" by (simp add: fd_step_def)
  show ?thesis
  proof (cases c)
    case (FdPersist io a e)
    with c persist_fd_inv [OF inv] show ?thesis by auto
  next
    case (FdAdvance io j n e)
    obtain r where r: "fd_advance_dense crc io j n e f = (r, f')" using c FdAdvance
      by (auto split: prod.splits sum.splits)
    have "fd_inv crc f'" using advance_dense_fd_inv [OF inv, of j io n e] True FdAdvance r by simp
    with advance_dense_cases [OF r fd_inv_wf [OF inv]] c FdAdvance r seq_fold_gapless [of "fd_counter f" "[(j, n)]" _ _ k]
    show ?thesis by (auto simp del: seq_fold.simps key_blocks.simps split: sum.splits)
  next
    case (FdBatch io es e)
    obtain r where r: "fd_advance_dense_batch crc io es e f = (r, f')" using c FdBatch
      by (auto split: prod.splits sum.splits)
    have "fd_inv crc f'" using advance_dense_batch_fd_inv [OF inv, of es io e] True FdBatch r by simp
    with advance_dense_batch_cases [OF r fd_inv_wf [OF inv]] c FdBatch r seq_fold_gapless [of "fd_counter f" es _ _ k]
    show ?thesis by (auto split: sum.splits)
  next
    case (FdLeases io rs e)
    with c True persist_leases_fd_inv [OF inv] show ?thesis by auto
  next
    case (FdCrash keep)
    obtain g where "open_or_init crc False (power_failure keep (fd_disk f)) = Inr g" "fd_inv crc g"
        "fd_state f \<le> fd_state g" "\<forall>k. fd_counter f k \<le> fd_counter g k"
      by (rule power_failure_reopen [OF inv, of keep])
    with c FdCrash show ?thesis by (auto simp: word_le_nat_alt)
  qed
qed (use assms in \<open>auto simp: fd_step_def\<close>)

interpretation fdi: issuer "fd_step crc k" "fd_inv crc" "\<lambda>f. unat (fd_counter f k)" "\<lambda>g. g" "\<lambda>g. g" for crc k
proof (unfold_locales, goal_cases)
  case (3 s c gs s' g)
  with fd_step_block [OF 3(1,2)] show ?case by auto
next
  case (4 s c gs s')
  with fd_step_block [OF 4(1,2)] show ?case by (auto simp: sorted_wrt_upt)
qed (use fd_step_block in blast)+

section \<open>Which lease set a reopen finds\<close>

text \<open>
  The lease sets that the directory may hold after a history: the last acknowledged one and
  those of the writes that failed after it. A reopen settles the question.
\<close>

definition lease_next ::
  "(bytes \<Rightarrow> u32) \<Rightarrow> seq_key \<Rightarrow> file_driver \<Rightarrow> fd_cmd \<Rightarrow> lease_record list list \<Rightarrow> lease_record list list" where
  "lease_next crc k f c cs =
     (if \<not> fd_cmd_valid c then cs
      else case c of
        FdLeases io rs e \<Rightarrow> (if is_ok (fst (fd_persist_leases crc io rs e f)) then [rs] else rs # cs)
      | FdCrash keep \<Rightarrow> [fd_leases (snd (fd_step crc k f c))]
      | _ \<Rightarrow> cs)"

fun lease_candidates ::
  "(bytes \<Rightarrow> u32) \<Rightarrow> seq_key \<Rightarrow> file_driver \<Rightarrow> lease_record list list \<Rightarrow> fd_cmd list \<Rightarrow> lease_record list list" where
  "lease_candidates crc k f cs [] = cs"
| "lease_candidates crc k f cs (c # cmds) =
     lease_candidates crc k (snd (fd_step crc k f c)) (lease_next crc k f c cs) cmds"

definition leases_among :: "(bytes \<Rightarrow> u32) \<Rightarrow> lease_record list list \<Rightarrow> bytes option \<Rightarrow> bool" where
  "leases_among crc cs b =
     (case b of None \<Rightarrow> [] \<in> set cs
      | Some bs \<Rightarrow> \<exists>rs \<in> set cs. leases_representable rs \<and> bs = lease_encode crc rs)"

definition leases_tracked :: "(bytes \<Rightarrow> u32) \<Rightarrow> lease_record list list \<Rightarrow> disk \<Rightarrow> bool" where
  "leases_tracked crc cs d \<longleftrightarrow> leases_among crc cs (vis d LEASES_FILE) \<and> leases_among crc cs (stable d LEASES_FILE)"

lemma leases_among_Cons: "leases_among crc cs b \<Longrightarrow> leases_among crc (rs # cs) b"
  by (auto simp: leases_among_def split: option.splits)

lemma tracked_other_write:
  assumes "write_framed_file name bs io d = (r, d')" "name \<in> {STATE_FILE, DENSE_FILE}" "leases_tracked crc cs d"
  shows "leases_tracked crc cs d'"
  using write_framed_file_effect(1) [OF assms(1), of LEASES_FILE] assms(2,3) by (auto simp: leases_tracked_def)

lemma tracked_persist:
  "leases_tracked crc cs (fd_disk f) \<Longrightarrow> leases_tracked crc cs (fd_disk (snd (fd_persist_high_water crc io a e f)))"
  by (cases "write_framed_file STATE_FILE (record_encode crc a) io (fd_disk f)")
    (auto simp: fd_persist_high_water_def write_record_def permanent_def elim: tracked_other_write split: sum.splits)

lemma tracked_publish:
  "leases_tracked crc cs (fd_disk f) \<Longrightarrow> leases_tracked crc cs (fd_disk (snd (publish_dense crc io m x f)))"
  by (cases "write_framed_file DENSE_FILE (dense_encode crc (m, ds_cap (fd_dense f))) io (fd_disk f)")
    (auto simp: publish_dense_def write_dense_record_def elim: tracked_other_write split: sum.splits)

lemma tracked_leases:
  assumes "leases_tracked crc cs (fd_disk f)" "leases_representable live"
  shows "leases_tracked crc (if is_ok (fst (fd_persist_leases crc io live e f)) then [live] else live # cs)
    (fd_disk (snd (fd_persist_leases crc io live e f)))"
proof -
  let ?bs = "lease_encode crc live"
  obtain r d where w: "write_framed_file LEASES_FILE ?bs io (fd_disk f) = (r, d)" by fastforce
  note ef = write_framed_file_effect [OF w, of LEASES_FILE]
  have a: "leases_among crc (live # xs) (Some ?bs)" for xs using assms(2) by (auto simp: leases_among_def)
  show ?thesis
  proof (cases r)
    case (Inl err)
    have "leases_tracked crc (live # cs) d"
      using ef(2,3) assms(1) a leases_among_Cons by (auto simp: leases_tracked_def)
    with Inl w show ?thesis by (simp add: fd_persist_leases_def write_lease_record_def permanent_def)
  next
    case (Inr u)
    with ef(4) a [of "[]"] have "leases_tracked crc [live] d" by (simp add: leases_tracked_def)
    with Inr w show ?thesis by (simp add: fd_persist_leases_def write_lease_record_def permanent_def)
  qed
qed

lemma reopened_leases:
  assumes "open_or_init crc x d = Inr g" "leases_among crc cs (vis d LEASES_FILE)"
  shows "fd_leases g \<in> sort_key lease_id ` set cs \<and> leases_among crc [fd_leases g] (vis d LEASES_FILE)
    \<and> vis (fd_disk g) = vis d \<and> stable (fd_disk g) = stable d"
proof -
  have o: "open_leases crc (d\<lparr>dir_locked := True\<rparr>) = Inr (fd_leases g)" "fd_disk g = d\<lparr>dir_locked := True\<rparr>"
    using assms(1) by (auto simp: open_or_init_def acquire_exclusive_lock_def and_then_Inr_iff split: if_splits)
  show ?thesis
  proof (cases "vis d LEASES_FILE")
    case None
    with o assms(2) show ?thesis by (force simp: open_leases_def leases_among_def)
  next
    case (Some bs)
    with assms(2) obtain rs where rs: "rs \<in> set cs" "leases_representable rs" "bs = lease_encode crc rs"
      by (auto simp: leases_among_def)
    then have "lease_decode crc bs = Inr (sort_key lease_id rs)"
      using lease.dec_enc [OF representable_sorted] by (simp flip: lease_encode_sort)
    with o Some have "fd_leases g = sort_key lease_id rs"
      by (auto simp: open_leases_def and_then_Inr_iff map_err_Inr_iff read_file_def split: if_splits)
    moreover have "leases_representable (sort_key lease_id rs)"
      using rs(2) by (simp add: leases_representable_def distinct_map list_all_iff)
    ultimately show ?thesis using rs Some o(2) lease_encode_sort [of crc rs]
      by (auto simp: leases_among_def)
  qed
qed

lemma fd_step_tracked:
  assumes inv: "fd_inv crc f" and t: "leases_tracked crc cs (fd_disk f)"
  shows "leases_tracked crc (lease_next crc k f c cs) (fd_disk (snd (fd_step crc k f c)))"
proof (cases "fd_cmd_valid c")
  case True
  show ?thesis
  proof (cases c)
    case (FdPersist io a e)
    with True tracked_persist [OF t] show ?thesis by (simp add: lease_next_def fd_step_def)
  next
    case (FdAdvance io j n e)
    have "leases_tracked crc cs (fd_disk (snd (fd_advance_dense crc io j n e f)))"
      by (rule advance_dense_elim [of crc io j n e f]) (simp_all add: t tracked_publish)
    with FdAdvance True show ?thesis by (auto simp: lease_next_def fd_step_def split: prod.splits sum.splits)
  next
    case (FdBatch io es e)
    have "leases_tracked crc cs (fd_disk (snd (fd_advance_dense_batch crc io es e f)))"
      by (rule advance_dense_batch_elim [of es crc io e f]) (simp_all add: t tracked_publish)
    with FdBatch True show ?thesis by (auto simp: lease_next_def fd_step_def split: prod.splits sum.splits)
  next
    case (FdLeases io rs e)
    with True tracked_leases [OF t, of rs io e] show ?thesis by (simp add: lease_next_def fd_step_def)
  next
    case (FdCrash keep)
    obtain g where g: "open_or_init crc False (power_failure keep (fd_disk f)) = Inr g"
      by (rule power_failure_reopen [OF inv, of keep])
    have "leases_among crc cs (vis (power_failure keep (fd_disk f)) LEASES_FILE)"
        "stable (power_failure keep (fd_disk f)) = vis (power_failure keep (fd_disk f))"
      using t by (simp_all add: power_failure_def Let_def leases_tracked_def)
    with reopened_leases [OF g] FdCrash True g show ?thesis
      by (simp add: lease_next_def fd_step_def leases_tracked_def)
  qed
qed (use t in \<open>simp add: lease_next_def fd_step_def\<close>)

lemma fd_run_tracked:
  "fd_inv crc f \<Longrightarrow> leases_tracked crc cs (fd_disk f) \<Longrightarrow>
     leases_tracked crc (lease_candidates crc k f cs cmds) (fd_disk (snd (run_emit (fd_step crc k) f cmds)))"
proof (induction cmds arbitrary: f cs)
  case (Cons c cmds)
  obtain gs f' where s: "fd_step crc k f c = (gs, f')" by fastforce
  with Cons.IH [of f'] fd_step_block [OF Cons.prems(1) s] fd_step_tracked [OF Cons.prems, of k c]
  show ?case by (auto split: prod.split)
qed simp

section \<open>Properties\<close>

text \<open>
  C38. A dense ordinal is never handed out twice, crashes included: over any history of
  single and batch advances, register and lease writes, I/O faults and power failures
  with reopen, starting from a fresh directory, the ordinals one key receives are
  strictly increasing.
\<close>

theorem file_dense_never_reissued:
  "sorted_wrt (<) (fst (run_emit (fd_step crc k) fd_fresh cmds))"
  by (rule fdi.run_strictly_increasing [OF fd_fresh_inv])

text \<open>
  C39. A power failure rewinds nothing that was acknowledged. After any history of completed
  calls (register writes, single and batch advances, lease writes), each of whose writes may
  meet an I/O fault at any point, and of power failures with reopen, whichever version of each
  directory entry survives a further power failure, the directory reopens; the reopened
  driver's high-water and every dense counter are at least what the driver had acknowledged,
  and its leases are the last acknowledged set or one whose write failed after it. Outside
  these histories are a future that is dropped while its write runs and a process that exits
  without a power failure after a failed directory sync.
\<close>

theorem file_crash_never_rewinds:
  "let f = snd (run_emit (fd_step crc k) fd_fresh cmds)
   in \<exists>f'. open_or_init crc False (power_failure keep (fd_disk f)) = Inr f'
        \<and> fd_state f \<le> fd_state f' \<and> (\<forall>j. fd_counter f j \<le> fd_counter f' j)
        \<and> fd_leases f' \<in> sort_key lease_id ` set (lease_candidates crc k fd_fresh [[]] cmds)"
proof -
  let ?f = "snd (run_emit (fd_step crc k) fd_fresh cmds)"
  have "fd_inv crc ?f" by (rule fdi.run_inv [OF fd_fresh_inv])
  then obtain f' where f': "open_or_init crc False (power_failure keep (fd_disk ?f)) = Inr f'" "fd_inv crc f'"
      "fd_state ?f \<le> fd_state f'" "\<forall>j. fd_counter ?f j \<le> fd_counter f' j"
    by (rule power_failure_reopen)
  have "leases_tracked crc [[]] (fd_disk fd_fresh)"
    by (simp add: leases_tracked_def leases_among_def fd_fresh_def empty_disk_def)
  from fd_run_tracked [OF fd_fresh_inv this, of k cmds]
  have "leases_among crc (lease_candidates crc k fd_fresh [[]] cmds) (vis (power_failure keep (fd_disk ?f)) LEASES_FILE)"
    by (simp add: leases_tracked_def power_failure_def Let_def)
  with reopened_leases [OF f'(1)] f' show ?thesis by (auto simp: Let_def)
qed

text \<open>
  The file driver hands out dense ordinals without gaps: over any sequence of single
  and multi-key requests, with any write failing, the ordinals one key receives are
  exactly those between its first and its last counter value (so a batch that repeats a
  key is served in order, and a failed batch advances nothing).
\<close>

theorem file_dense_gapless:
  "let (ords, fs', f') = dense_history
         (dense_request (\<lambda>k n e. faulty (\<lambda>io. fd_advance_dense crc io k n e))
           (\<lambda>es e. faulty (\<lambda>io. fd_advance_dense_batch crc io es e))) k qs (fs, fd_fresh)
   in ords = [0 ..< unat (fd_counter f' k)]"
proof -
  have "bt_wf (ds_map (fd_dense (snd (fs, fd_fresh))))" by (simp add: fd_fresh_def)
  from fdd.history_gapless [OF this surjective_pairing, of crc k qs]
  show ?thesis by (auto simp: fd_fresh_def fd_counter_def bt_lookup0_def split: prod.splits)
qed

text \<open>An acknowledged lease write is on the media.\<close>

lemma leases_on_media:
  assumes "fd_persist_leases crc io live e f = (Inr (), f')"
  shows "vis (fd_disk f') LEASES_FILE = Some (lease_encode crc live)
     \<and> stable (fd_disk f') LEASES_FILE = Some (lease_encode crc live)"
proof -
  obtain d where "write_framed_file LEASES_FILE (lease_encode crc live) io (fd_disk f) = (Inr (), d)" "fd_disk f' = d"
    using assms by (auto simp: fd_persist_leases_def write_lease_record_def permanent_def split: prod.splits sum.splits)
  then show ?thesis using write_framed_file_effect(4) [of LEASES_FILE _ io "fd_disk f" "Inr ()" d LEASES_FILE] by simp
qed

text \<open>
  A lease set whose write was acknowledged is what a reopen finds: after a power
  failure the directory reopens with exactly those records, in ascending id order, and with
  at least the high-water that was acknowledged.
\<close>

theorem persisted_leases_survive:
  assumes "fd_inv crc f" "leases_representable live" "fd_persist_leases crc io live e f = (Inr (), f')"
  shows "\<exists>g. open_or_init crc False (power_failure keep (fd_disk f')) = Inr g
     \<and> fd_leases g = sort_key lease_id live \<and> fd_state f' \<le> fd_state g"
proof -
  let ?d = "power_failure keep (fd_disk f')" and ?bs = "lease_encode crc live"
  have inv: "fd_inv crc f'" using persist_leases_fd_inv [OF assms(1,2), of io e] assms(3) by simp
  have "vis ?d LEASES_FILE = Some ?bs" using leases_on_media [OF assms(3)] by (simp add: power_failure_def Let_def)
  then have "leases_among crc [live] (vis ?d LEASES_FILE)" using assms(2) by (simp add: leases_among_def)
  obtain g where g: "open_or_init crc False ?d = Inr g" "fd_state f' \<le> fd_state g"
    by (rule power_failure_reopen [OF inv, of keep])
  from reopened_leases [OF g(1) \<open>leases_among crc [live] _\<close>] g show ?thesis by auto
qed

theorem persisted_leases_survive_witness:
  "let r = \<lparr>lease_id = 9, holder = [7], holder_epoch = 2, ttl_ms = 10, ts_upper_bound = 5,
         expires_at_ms = 10, superseded = False\<rparr>
   in \<exists>g. open_or_init (\<lambda>_. 0) False
        (power_failure (\<lambda>_. False) (fd_disk (snd (fd_persist_leases (\<lambda>_. 0) IoOk [r] epoch_ZERO fd_fresh)))) = Inr g
      \<and> fd_leases g = [r]"
proof -
  define r where "r = \<lparr>lease_id = 9, holder = [7], holder_epoch = 2, ttl_ms = 10, ts_upper_bound = 5,
         expires_at_ms = 10, superseded = False\<rparr>"
  have "leases_representable [r]" by (simp add: leases_representable_def r_def)
  moreover have "fd_persist_leases (\<lambda>_. 0) IoOk [r] epoch_ZERO fd_fresh
      = (Inr (), snd (fd_persist_leases (\<lambda>_. 0) IoOk [r] epoch_ZERO fd_fresh))"
    by (simp add: fd_persist_leases_def write_lease_record_def permanent_def Let_def)
  ultimately have "\<exists>g. open_or_init (\<lambda>_. 0) False
        (power_failure (\<lambda>_. False) (fd_disk (snd (fd_persist_leases (\<lambda>_. 0) IoOk [r] epoch_ZERO fd_fresh)))) = Inr g
      \<and> fd_leases g = sort_key lease_id [r]"
    using persisted_leases_survive [OF fd_fresh_inv] by blast
  then show ?thesis unfolding Let_def by (simp add: r_def)
qed

section \<open>Dropped futures\<close>

definition async_inv :: "(bytes \<Rightarrow> u32) \<Rightarrow> async_fd \<Rightarrow> bool" where
  "async_inv crc s \<longleftrightarrow> state_covered crc (stable (af_disk s) STATE_FILE) (af_state s)
     \<and> (case af_lock s of None \<Rightarrow> af_tasks s = []
        | Some (i, t) \<Rightarrow> af_state s \<le> t \<and> t \<le> PHYSICAL_MS_MAX
            \<and> (af_tasks s = [(i, t)]
               \<or> af_tasks s = [] \<and> stable (af_disk s) STATE_FILE = Some (record_encode crc t)))"

lemma async_step_inv:
  assumes "async_inv crc s" "ev \<noteq> DropFuture"
  shows "async_inv crc (async_step crc s ev) \<and> af_state s \<le> af_state (async_step crc s ev)"
proof (cases ev)
  case (PersistCall t)
  with assms show ?thesis
    by (auto simp: async_inv_def reject_out_of_range_advance_def split: if_splits)
next
  case (RunTask i)
  show ?thesis
  proof (cases "map_of (af_tasks s) i")
    case None
    with RunTask assms(1) show ?thesis by simp
  next
    case (Some t)
    with assms(1) have "af_lock s = Some (i, t)" "af_tasks s = [(i, t)]" "af_state s \<le> t" "t \<le> PHYSICAL_MS_MAX"
      by (auto simp: async_inv_def split: option.splits if_splits)
    moreover have "tmp_of STATE_FILE \<noteq> STATE_FILE" by (rule tmp_names_distinct) simp_all
    ultimately show ?thesis
      using RunTask by (auto simp: async_inv_def write_record_def Let_def state_covered_def)
  qed
next
  case Resume
  with assms show ?thesis
    by (auto simp: async_inv_def state_covered_def split: option.splits if_splits)
qed (use assms in simp)

lemma async_run_inv:
  assumes "async_inv crc s" "list_all (\<lambda>ev. ev \<noteq> DropFuture) evs"
  shows "async_inv crc (async_run crc s evs)"
  using assms
proof (induction evs arbitrary: s)
  case (Cons ev evs)
  then show ?case using async_step_inv [of crc s ev] by (simp add: async_run_def)
qed (simp add: async_run_def)

text \<open>
  As long as no caller drops a \<open>persist_high_water\<close> future, whatever the
  interleaving of calls and blocking workers, the media always holds a record at least
  as large as the published high-water.
\<close>

theorem uncancelled_persist_durable:
  assumes "list_all (\<lambda>ev. ev \<noteq> DropFuture) evs"
  shows "let s = async_run crc async_fresh evs
     in af_state s = 0 \<or> (\<exists>x. stable (af_disk s) STATE_FILE = Some (record_encode crc x) \<and> af_state s \<le> x)"
proof -
  have "async_inv crc async_fresh"
    by (simp add: async_inv_def async_fresh_def empty_disk_def state_covered_def)
  from async_run_inv [OF this assms] show ?thesis
    by (auto simp: async_inv_def state_covered_def Let_def split: option.splits)
qed

theorem uncancelled_persist_durable_witness:
  "let s = async_run (\<lambda>_. 0) async_fresh [PersistCall 50, RunTask 0, Resume]
   in af_state s = 50 \<and> (\<exists>x. stable (af_disk s) STATE_FILE = Some (record_encode (\<lambda>_. 0) x) \<and> 50 \<le> x)"
  using uncancelled_persist_durable [of "[PersistCall 50, RunTask 0, Resume]" "\<lambda>_. 0"]
  by (simp add: async_run_def async_fresh_def reject_out_of_range_advance_def PHYSICAL_MS_MAX_def LOGICAL_BITS_def)

text \<open>
  The proviso is needed. A dropped future releases the lock while its worker still runs,
  and the worker writes an absolute value: here the call for 50 is dropped, the call for
  100 completes and is acknowledged, and the late worker then replaces the record of 100
  by the record of 50.
\<close>

lemma dropped_future_rewinds:
  "let s = async_run crc async_fresh
         [PersistCall 50, DropFuture, PersistCall 100, RunTask 1, Resume, RunTask 0]
   in af_state s = 100 \<and> stable (af_disk s) STATE_FILE = Some (record_encode crc 50)"
  by (simp add: async_run_def async_fresh_def reject_out_of_range_advance_def PHYSICAL_MS_MAX_def
      LOGICAL_BITS_def write_record_def empty_disk_def Let_def STATE_FILE_def tmp_of_def)

text \<open>
  A process that exits between the rename and the directory sync leaves a record the
  media does not have yet. The next process loads it, and answers a smaller request from
  its mirror without a write, so the acknowledged value can still be lost.
\<close>

lemma reopened_unsynced_record_is_acknowledged:
  "let d = snd (write_record crc 100 FailDirSync empty_disk);
       f = fd_fresh\<lparr>fd_disk := d\<lparr>dir_locked := True\<rparr>, fd_state := 100\<rparr>
   in open_or_init crc False (process_exit d) = Inr f
    \<and> fd_persist_high_water crc IoOk 60 epoch_ZERO f = (Inr 100, f)
    \<and> open_or_init crc False (power_failure (\<lambda>_. False) (fd_disk f)) = Inr fd_fresh"
  by (simp add: write_record_def empty_disk_def Let_def process_exit_def power_failure_def open_or_init_def
      acquire_exclusive_lock_def open_high_water_def record_decode_encode PHYSICAL_MS_MAX_def LOGICAL_BITS_def
      open_dense_def open_leases_def read_file_def STATE_FILE_def DENSE_FILE_def LEASES_FILE_def tmp_of_def fd_fresh_def
      fd_persist_high_water_def reject_out_of_range_advance_def)

end
