(* ===== verification/Single_Node.thy ===== *)
theory Single_Node
  imports Fence File_Driver
begin

text \<open>
  The single-node deployment: the server of the previous theories on top of the file
  driver. It interprets the driver contract with the file driver's own operations and
  closes the loop through crashes: the process dies at any point between two commands,
  the directory loses whatever was not stable, and a new server starts from it.
\<close>

section \<open>The file driver as a consensus driver\<close>

definition fd_driver :: "(bytes \<Rightarrow> u32) \<Rightarrow> (io_fault list \<times> file_driver) consensus_driver" where
  "fd_driver crc =
     \<lparr>drv_load_high_water = (\<lambda>(fs, f). (fst (fd_load_high_water f), (fs, f))),
      drv_persist_high_water = (\<lambda>a e. faulty (\<lambda>io. fd_persist_high_water crc io a e)),
      drv_load_dense_seq = (\<lambda>k (fs, f). (fst (fd_load_dense_seq k f), (fs, f))),
      drv_advance_dense = (\<lambda>k n e. faulty (\<lambda>io. fd_advance_dense crc io k n e)),
      drv_advance_dense_batch = (\<lambda>es e. faulty (\<lambda>io. fd_advance_dense_batch crc io es e)),
      drv_load_leases = (\<lambda>(fs, f). (fst (fd_load_leases f), (fs, f))),
      drv_persist_leases = (\<lambda>rs e. faulty (\<lambda>io. fd_persist_leases crc io rs e))\<rparr>"

section \<open>The system\<close>

text \<open>
  A node is up, with the configuration it was built with, or down: the directory did not
  open or the builder refused. A down node keeps the last driver for its directory and
  for what was acknowledged. A crash is a power failure that keeps any choice of
  unsynced directory entries (all of them: the process was killed and its writes
  survive), followed by a start; what survived then counts as synced. A kill that leaves
  unsynced entries to a later power failure, and a write whose future was dropped, are not
  steps of these runs; \<open>File_Driver\<close> shows what each of them can lose.
\<close>

datatype sn_cmd = SnCall "io_fault list" srv_cmd | SnCrash "string \<Rightarrow> bool"

datatype sn_state = SnUp server_config "(io_fault list \<times> file_driver) server" | SnDown file_driver

definition sn_boot :: "(bytes \<Rightarrow> u32) \<Rightarrow> server_builder \<Rightarrow> file_driver \<Rightarrow> sn_state" where
  "sn_boot crc b f =
     (case open_or_init crc False (fd_disk f) of
        Inl _ \<Rightarrow> SnDown f
      | Inr f' \<Rightarrow>
          (case server_build b ([], f') of
             Inl _ \<Rightarrow> SnDown (f'\<lparr>fd_disk := process_exit (fd_disk f')\<rparr>)
           | Inr (cfg, sv) \<Rightarrow> SnUp cfg sv))"

definition sn_driver :: "sn_state \<Rightarrow> file_driver" where
  "sn_driver st = (case st of SnUp cfg sv \<Rightarrow> snd (sv_driver sv) | SnDown f \<Rightarrow> f)"

fun sn_step :: "(bytes \<Rightarrow> u32) \<Rightarrow> server_builder \<Rightarrow> sn_state \<Rightarrow> sn_cmd \<Rightarrow> window_grant list \<times> sn_state" where
  "sn_step crc b (SnUp cfg sv) (SnCall ios c) =
     (let (gs, sv') = srv_step cfg (fd_driver crc) (sv\<lparr>sv_driver := (ios, snd (sv_driver sv))\<rparr>) c
      in (gs, SnUp cfg sv'))"
| "sn_step crc b (SnDown f) (SnCall ios c) = ([], SnDown f)"
| "sn_step crc b st (SnCrash keep) =
     (let f = sn_driver st in ([], sn_boot crc b (f\<lparr>fd_disk := power_failure keep (fd_disk f)\<rparr>)))"

text \<open>A first start on an empty directory.\<close>

definition sn_start :: "(bytes \<Rightarrow> u32) \<Rightarrow> server_builder \<Rightarrow> sn_state" where
  "sn_start crc b = sn_boot crc b (fd_fresh\<lparr>fd_disk := empty_disk\<rparr>)"

section \<open>The contract\<close>

text \<open>Both views of the state file hold at least the published high-water.\<close>

definition hw_inv :: "(bytes \<Rightarrow> u32) \<Rightarrow> file_driver \<Rightarrow> bool" where
  "hw_inv crc f \<longleftrightarrow> fd_state f \<le> PHYSICAL_MS_MAX
     \<and> state_covered crc (vis (fd_disk f) STATE_FILE) (fd_state f)
     \<and> state_covered crc (stable (fd_disk f) STATE_FILE) (fd_state f)"

lemma fd_inv_hw: "fd_inv crc f \<Longrightarrow> hw_inv crc f"
  by (simp add: fd_inv_def view_covers_def hw_inv_def)

lemma hw_inv_other_write:
  assumes "hw_inv crc f" "write_framed_file name bs io (fd_disk f) = (r, d)" "name \<in> {DENSE_FILE, LEASES_FILE}"
    and "fd_disk f' = d" "fd_state f' = fd_state f"
  shows "hw_inv crc f'"
  using assms write_framed_file_effect(1) [OF assms(2), of STATE_FILE] by (auto simp: hw_inv_def)

lemma hw_inv_persist: "hw_inv crc f \<Longrightarrow> hw_inv crc (snd (fd_persist_high_water crc io a e f))"
proof (cases "a > PHYSICAL_MS_MAX \<or> a \<le> fd_state f")
  case False
  assume inv: "hw_inv crc f"
  obtain r d where w: "write_framed_file STATE_FILE (record_encode crc a) io (fd_disk f) = (r, d)" by fastforce
  note ef = write_framed_file_effect [OF w, of STATE_FILE]
  have c: "state_covered crc (Some (record_encode crc a)) (fd_state f)"
      "state_covered crc (Some (record_encode crc a)) a"
    using False by (auto simp: state_covered_def)
  show ?thesis
    using inv False w ef c
    by (cases r) (auto simp: hw_inv_def fd_persist_high_water_def reject_out_of_range_advance_def
        write_record_def permanent_def)
qed (auto simp: fd_persist_high_water_def reject_out_of_range_advance_def)

lemma hw_inv_publish:
  "hw_inv crc f \<Longrightarrow> hw_inv crc (snd (publish_dense crc io m x f)) \<and> fd_state (snd (publish_dense crc io m x f)) = fd_state f"
  by (cases "write_framed_file DENSE_FILE (dense_encode crc (m, ds_cap (fd_dense f))) io (fd_disk f)")
    (auto simp: publish_dense_def write_dense_record_def elim: hw_inv_other_write split: sum.splits)

lemma hw_inv_advance:
  "hw_inv crc f \<Longrightarrow> hw_inv crc (snd (fd_advance_dense crc io k n e f)) \<and> fd_state (snd (fd_advance_dense crc io k n e f)) = fd_state f"
  by (rule advance_dense_elim [of crc io k n e f]) (simp_all add: hw_inv_publish)

lemma hw_inv_batch:
  "hw_inv crc f \<Longrightarrow> hw_inv crc (snd (fd_advance_dense_batch crc io es e f))
     \<and> fd_state (snd (fd_advance_dense_batch crc io es e f)) = fd_state f"
  by (rule advance_dense_batch_elim [of es crc io e f]) (simp_all add: hw_inv_publish)

lemma hw_inv_leases:
  "hw_inv crc f \<Longrightarrow> hw_inv crc (snd (fd_persist_leases crc io rs e f)) \<and> fd_state (snd (fd_persist_leases crc io rs e f)) = fd_state f"
  by (cases "write_framed_file LEASES_FILE (lease_encode crc rs) io (fd_disk f)")
    (auto simp: fd_persist_leases_def write_lease_record_def elim: hw_inv_other_write split: sum.splits)

lemma hw_inv_range: "hw_inv crc f \<Longrightarrow> fd_state f \<le> PHYSICAL_MS_MAX"
  by (simp add: hw_inv_def)

interpretation fdt: tso_driver "fd_driver crc" "\<lambda>st. fd_state (snd st)" "\<lambda>st. hw_inv crc (snd st)" for crc
proof (unfold_locales, goal_cases)
  case (1 s a e)
  then show ?case by (simp add: fd_driver_def faulty_simps hw_inv_persist)
next
  case (2 s a e v)
  then have "fd_state (snd s) \<le> PHYSICAL_MS_MAX" by (simp add: hw_inv_def)
  from fdr.persist_ok [OF this, of crc a e v] 2 show ?case
    by (simp add: fd_driver_def del: max.bounded_iff) (metis max.bounded_iff)
next
  case (3 s a e)
  then have "fd_state (snd s) \<le> PHYSICAL_MS_MAX" by (simp add: hw_inv_def)
  from fdr.persist_mono [OF this, of crc a e] show ?case by (simp add: fd_driver_def)
qed (auto simp: fd_driver_def faulty_simps hw_inv_advance hw_inv_batch hw_inv_leases fd_load_high_water_def
      hw_inv_range split: prod.splits)

section \<open>Restart\<close>

lemma open_high_water_covered:
  assumes "state_covered crc (vis d STATE_FILE) hw" "open_high_water crc d = Inr x"
  shows "hw \<le> x \<and> x \<le> PHYSICAL_MS_MAX \<and> state_covered crc (vis d STATE_FILE) x"
  using assms
  by (cases "vis d STATE_FILE")
    (auto simp: open_high_water_def state_covered_def record_decode_encode read_file_def split: if_splits)

lemma hw_inv_reopen:
  assumes "hw_inv crc f" "open_or_init crc False (power_failure keep (fd_disk f)) = Inr f'"
  shows "hw_inv crc f' \<and> fd_state f \<le> fd_state f'"
proof -
  let ?d = "power_failure keep (fd_disk f)\<lparr>dir_locked := True\<rparr>"
  have f': "open_high_water crc ?d = Inr (fd_state f')" "fd_disk f' = ?d"
    using assms(2) by (auto simp: open_or_init_def acquire_exclusive_lock_def power_failure_def Let_def
        and_then_Inr_iff split: if_splits)
  have c: "state_covered crc (vis ?d STATE_FILE) (fd_state f)" "vis ?d = stable ?d"
    using assms(1) by (auto simp: hw_inv_def power_failure_def Let_def)
  from open_high_water_covered [OF c(1) f'(1)] f'(2) c(2) show ?thesis by (simp add: hw_inv_def)
qed

section \<open>The node as an issuer\<close>

abbreviation sn_acked :: "io_fault list \<times> file_driver \<Rightarrow> u64" where
  "sn_acked st \<equiv> fd_state (snd st)"

definition sn_inv :: "(bytes \<Rightarrow> u32) \<Rightarrow> sn_state \<Rightarrow> bool" where
  "sn_inv crc st = (case st of SnUp cfg sv \<Rightarrow> srv_inv sn_acked (\<lambda>st. hw_inv crc (snd st)) sv | SnDown f \<Rightarrow> hw_inv crc f)"

definition sn_pos :: "sn_state \<Rightarrow> nat" where
  "sn_pos st = (case st of SnUp cfg sv \<Rightarrow> srv_pos sn_acked sv | SnDown f \<Rightarrow> (unat (fd_state f) + 1) * 262144)"

lemma sn_pos_bound: "sn_inv crc st \<Longrightarrow> sn_pos st \<le> (unat (fd_state (sn_driver st)) + 1) * 262144"
  using leader_cursor_bound
  by (cases st; fastforce simp: sn_inv_def sn_pos_def sn_driver_def srv_inv_def srv_pos_def alloc_ok_def
      alloc_committed_high_water_def word_le_nat_alt split: alloc_state.splits)

lemma sn_inv_driver: "sn_inv crc st \<Longrightarrow> hw_inv crc (sn_driver st)"
  by (simp add: sn_inv_def sn_driver_def srv_inv_def split: sn_state.splits)

lemma server_build_fresh:
  "server_build b s = Inr (cfg, sv) \<Longrightarrow> alloc_state (sc_allocator (sv_core sv)) = NotLeader \<and> sv_driver sv = s"
  by (auto simp: server_build_def sc_new_def alloc_new_def split: if_splits)

lemma sn_boot_facts:
  assumes f: "hw_inv crc (f\<lparr>fd_disk := d\<rparr>)"
    and o: "\<And>f'. open_or_init crc False d = Inr f' \<Longrightarrow> hw_inv crc f' \<and> fd_state f \<le> fd_state f'"
  shows "sn_inv crc (sn_boot crc b (f\<lparr>fd_disk := d\<rparr>))
     \<and> (unat (fd_state f) + 1) * 262144 \<le> sn_pos (sn_boot crc b (f\<lparr>fd_disk := d\<rparr>))"
proof (cases "open_or_init crc False d")
  case (Inl e)
  with f show ?thesis by (simp add: sn_boot_def sn_inv_def sn_pos_def)
next
  case (Inr f')
  note f' = o [OF Inr]
  then have "hw_inv crc (f'\<lparr>fd_disk := process_exit (fd_disk f')\<rparr>)" by (simp add: hw_inv_def process_exit_def)
  with Inr f' hw_inv_range [of crc f'] show ?thesis
    by (auto simp: sn_boot_def sn_inv_def sn_pos_def srv_inv_def srv_pos_def alloc_ok_def
        alloc_committed_high_water_def word_le_nat_alt dest!: server_build_fresh split: sum.splits)
qed

lemma sn_crash_facts:
  assumes "sn_inv crc st" "sn_step crc b st (SnCrash keep) = (gs, st')"
  shows "gs = [] \<and> sn_inv crc st' \<and> sn_pos st \<le> sn_pos st'"
proof -
  let ?f = "sn_driver st" and ?d = "power_failure keep (fd_disk (sn_driver st))"
  have i: "hw_inv crc ?f" by (rule sn_inv_driver [OF assms(1)])
  then have d: "hw_inv crc (?f\<lparr>fd_disk := ?d\<rparr>)" by (simp add: hw_inv_def power_failure_def Let_def)
  have "gs = []" "st' = sn_boot crc b (?f\<lparr>fd_disk := ?d\<rparr>)"
    using assms(2) by (cases st; simp add: Let_def)+
  moreover note sn_boot_facts [OF d hw_inv_reopen [OF i], of "\<lambda>_. keep" b] sn_pos_bound [OF assms(1)]
  ultimately show ?thesis by (auto intro: order_trans)
qed

lemma sn_step_facts:
  assumes "sn_inv crc st" "sn_step crc b st c = (gs, st')"
  shows "sn_inv crc st' \<and> sn_pos st \<le> sn_pos st' \<and> length gs \<le> 1
    \<and> (\<forall>g \<in> set gs. wg_ok g \<and> sn_pos st \<le> wg_lo g \<and> wg_lo g \<le> wg_hi g \<and> wg_hi g < sn_pos st')"
proof (cases c)
  case (SnCrash keep)
  with sn_crash_facts [OF assms(1), of b keep gs st'] assms(2) show ?thesis by simp
next
  case (SnCall ios c')
  show ?thesis
  proof (cases st)
    case (SnUp cfg sv)
    let ?sv = "sv\<lparr>sv_driver := (ios, snd (sv_driver sv))\<rparr>"
    have i: "srv_inv sn_acked (\<lambda>st. hw_inv crc (snd st)) ?sv" "srv_pos sn_acked ?sv = srv_pos sn_acked sv"
      using assms(1) SnUp by (simp_all add: sn_inv_def srv_inv_def srv_pos_def split: option.splits alloc_state.splits)
    obtain sv' where sv': "srv_step cfg (fd_driver crc) ?sv c' = (gs, sv')" "st' = SnUp cfg sv'"
      using assms(2) SnUp SnCall by (auto split: prod.splits)
    from fdt.srv_step_facts [OF i(1) sv'(1)] i(2) sv'(2) SnUp show ?thesis
      by (simp add: sn_inv_def sn_pos_def)
  qed (use assms SnCall in auto)
qed

lemma sorted_wrt_short: "length xs \<le> 1 \<Longrightarrow> sorted_wrt P xs"
  by (cases xs) auto

interpretation sni: issuer "sn_step crc b" "sn_inv crc" sn_pos wg_lo wg_hi for crc b
  by unfold_locales (use sn_step_facts sorted_wrt_short in blast)+

interpretation sno: emits "sn_step crc b" "sn_inv crc" wg_ok for crc b
  by unfold_locales (use sn_step_facts in blast)+

lemma sn_start_inv: "sn_inv crc (sn_start crc b)"
  unfolding sn_start_def
  by (rule conjunct1 [OF sn_boot_facts])
    (use fd_fresh_opens fd_fresh_inv in \<open>auto simp: hw_inv_def fd_inv_def view_covers_def fd_fresh_def empty_disk_def
      state_covered_def PHYSICAL_MS_MAX_def\<close>)

section \<open>Dense requests\<close>

interpretation fds: dense_driver "fd_driver crc" "\<lambda>st. fd_counter (snd st)" "\<lambda>st. bt_wf (ds_map (fd_dense (snd st)))" for crc
  using fdd.dense_counters_axioms [of crc] by (simp add: dense_driver_def fd_driver_def)

section \<open>Leases\<close>

interpretation fdls: lease_service "fd_driver crc" sn_acked "\<lambda>st. hw_inv crc (snd st)" "\<lambda>st. fd_leases (snd st)" "\<lambda>_. True" for crc
proof -
  have "lease_store (drv_persist_leases (fd_driver crc)) (drv_load_leases (fd_driver crc)) (\<lambda>st. fd_leases (snd st)) (\<lambda>_. True)"
    using fdl.lease_store_axioms [of crc] by (simp add: fd_driver_def)
  then show "lease_service (fd_driver crc) sn_acked (\<lambda>st. hw_inv crc (snd st)) (\<lambda>st. fd_leases (snd st)) (\<lambda>_. True)"
    by (intro lease_service.intro fdt.high_water_register_axioms)
      (simp_all add: lease_service_axioms_def fd_driver_def faulty_simps hw_inv_leases)
qed

text \<open>The same over the whole directory: what an acknowledged set leaves on the media.\<close>

lemma fd_register_whole:
  "high_water_register (drv_persist_high_water (fd_driver crc)) (drv_load_high_water (fd_driver crc)) sn_acked
     (\<lambda>st. fd_inv crc (snd st))"
proof -
  note hw = fdt.high_water_register_axioms [of crc]
  show ?thesis
  proof (unfold_locales, goal_cases)
    case (1 s a e)
    then show ?case by (simp add: fd_driver_def faulty_simps persist_fd_inv)
  next
    case (4 s)
    then show ?case by (cases s) (simp add: fd_driver_def)
  qed (use fd_inv_hw high_water_register.persist_ok [OF hw] high_water_register.persist_mono [OF hw]
      high_water_register.load_ok [OF hw] high_water_register.load_mono [OF hw] in blast)+
qed

interpretation fdlm: lease_service "fd_driver crc" sn_acked "\<lambda>st. fd_inv crc (snd st)" "\<lambda>st. fd_leases (snd st)" "\<lambda>_. True" for crc
  by (intro lease_service.intro fd_register_whole fdls.ls.lease_store_axioms)
    (simp_all add: lease_service_axioms_def fd_driver_def faulty_simps hw_inv_leases fd_inv_hw)

lemma acquired_leases_on_media:
  assumes "fd_inv crc (snd s)" "drv_persist_leases (fd_driver crc) live e s = (Inr (), (ios', f'))"
  shows "stable (fd_disk f') LEASES_FILE = Some (lease_encode crc live)
     \<and> (leases_representable live \<longrightarrow> (\<exists>g. open_or_init crc False (power_failure keep (fd_disk f')) = Inr g
           \<and> fd_leases g = sort_key lease_id live \<and> fd_state f' \<le> fd_state g))"
proof -
  obtain io where "fd_persist_leases crc io live e (snd s) = (Inr (), f')"
    using assms(2) by (auto simp: fd_driver_def faulty_def split: prod.splits)
  with leases_on_media [OF this] persisted_leases_survive [OF assms(1) _ this] show ?thesis by blast
qed

section \<open>A healthy node\<close>

text \<open>Without I/O faults, a persist in range succeeds, and so does the fence.\<close>

lemma fd_persist_healthy:
  assumes "a \<le> PHYSICAL_MS_MAX" "fd_state f \<le> PHYSICAL_MS_MAX"
  obtains f' where "drv_persist_high_water (fd_driver crc) a e ([], f) = (Inr (max (fd_state f) a), ([], f'))"
    "fd_state f' = max (fd_state f) a"
proof -
  have "\<exists>f'. drv_persist_high_water (fd_driver crc) a e ([], f) = (Inr (max (fd_state f) a), ([], f'))
      \<and> fd_state f' = max (fd_state f) a"
    using assms by (auto simp: fd_driver_def faulty_def fd_persist_high_water_def reject_out_of_range_advance_def
        write_record_def permanent_def Let_def max_def not_less)
  with that show ?thesis by blast
qed

lemma fence_attempt_healthy:
  fixes now :: u64
  defines "floor \<equiv> \<lambda>f. fence_serving_floor (fd_state f) now"
  assumes "fd_state f \<le> PHYSICAL_MS_MAX" "fence_requested cfg (floor f) \<le> PHYSICAL_MS_MAX"
  obtains f' c' where "fence_attempt cfg (fd_driver crc) now e \<lparr>sv_core = c, sv_driver = ([], f)\<rparr> = (Inr (), \<lparr>sv_core = c', sv_driver = ([], f')\<rparr>)"
    "is_serving c'" "alloc_state (sc_allocator c') = Leader e (fence_requested cfg (floor f)) (floor f) 0"
    "fd_state f' = fence_requested cfg (floor f)"
proof -
  let ?q = "fence_requested cfg (floor f)"
  have "unat (fd_state f) + 1 \<le> unat (floor f)" "unat (floor f) \<le> unat ?q"
    using assms(2) unat_u64_bound [of now] by (auto simp: floor_def fence_serving_floor_def fence_requested_def to_nat)
  then have le: "floor f \<le> ?q" "fd_state f \<le> ?q" by (simp_all add: word_le_nat_alt)
  obtain f' where p: "drv_persist_high_water (fd_driver crc) ?q e ([], f) = (Inr (max (fd_state f) ?q), ([], f'))"
      "fd_state f' = max (fd_state f) ?q"
    by (rule fd_persist_healthy [OF assms(3,2)]) blast
  have l: "drv_load_high_water (fd_driver crc) ([], f) = (Inr (fd_state f), ([], f))"
    "drv_load_leases (fd_driver crc) ([], f) = (Inr (fd_leases f), ([], f))"
    by (simp_all add: fd_driver_def fd_load_high_water_def fd_load_leases_def)
  obtain r c' where s: "fence_seed (floor f) ?q e (fd_leases f) now c = (r, c')" by fastforce
  moreover have "\<not> ?q < floor f" "floor f \<le> PHYSICAL_MS_MAX" using le(1) assms(3) by auto
  ultimately have "r = Inr ()" "is_serving c'" "alloc_state (sc_allocator c') = Leader e ?q (floor f) 0"
    using assms(3) by (auto simp: fence_seed_def seed_on_leadership_gained_def alloc_become_leader_def
        less_physical_ms_def publish_serving_def seed_leases_def is_serving_def)
  moreover have "max (fd_state f) ?q = ?q" using le(2) by (simp add: max_def)
  ultimately show ?thesis using that [of c' f'] p l s by (simp add: fence_attempt_def Let_def floor_def)
qed

section \<open>Properties\<close>

text \<open>
  C1. The promise of the service on one node: whatever the requests, the leadership
  events, the readings of the clock (backwards ones too), the I/O faults of the driver's
  writes, and however often the power fails and the node starts again on its directory,
  the timestamp blocks handed out over the whole history are strictly increasing and
  never overlap.
\<close>

theorem single_node_timestamps_strictly_increase:
  "sorted_wrt grant_before (fst (run_emit (sn_step crc b) (sn_start crc b) cmds))"
  by (rule sorted_wrt_grant_before)
    (use sni.run_strictly_increasing sno.run_emits sn_start_inv in blast)+

lemma seq_fold_single:
  assumes "seq_fold g [(k, n)] = Some (ss, g')"
  shows "unat (g' k) = unat (g k) + unat n \<and> (\<forall>j. j \<noteq> k \<longrightarrow> g' j = g j)"
proof -
  obtain v where v: "checked_add (g k) (ucast n) = Some v" "g' = g(k := v)"
    using assms by (auto split: option.splits)
  have "unat v = unat (g k) + unat n" using checked_add_SomeD [OF v(1)] by (metis unat_u32_as_u64)
  with v(2) show ?thesis by simp
qed

text \<open>A serving core for the concrete instances below.\<close>

definition demo_core :: serving_core where
  "demo_core = \<lparr>sc_allocator = \<lparr>alloc_state = Leader (Epoch 7) 2000 1000 0\<rparr>, sc_seq_allocator = \<lparr>seq_state = SeqLeader (Epoch 7)\<rparr>,
     sc_lease_table = lt_new, sc_state = ServingNow, sc_window_ahead = 0, sc_max_seq_count = 100, sc_max_seq_batch_keys = 10\<rparr>"

lemmas demo_simps = demo_core_def get_seq_def Let_def is_serving_def seq_validate_def seq_validate_request_def
  seq_is_leader_def seq_key_try_new_def MAX_SEQ_KEY_LEN_def current_epoch_def alloc_epoch_def fd_driver_def faulty_def
  fd_advance_dense_def fd_fresh_def bt_lookup0_def bt_get_def publish_dense_def write_dense_record_def permanent_def
  seq_grant_try_new_def seq_entry_def to_wire_def checked_add_def DEFAULT_DENSE_CARDINALITY_CAP_def

text \<open>
  A dense request is answered with exactly the block its key's durable counter moves
  over: the answer starts at the old counter, carries the requested size and the leader's
  epoch, no other key moves, and a request that is refused, at any stage, consumes
  nothing.
\<close>

theorem get_seq_exact:
  assumes "bt_wf (ds_map (fd_dense f))"
    and "get_seq (fd_driver crc) key n \<lparr>sv_core = c, sv_driver = (ios, f)\<rparr> = (r, \<lparr>sv_core = c', sv_driver = (ios', f')\<rparr>)"
  shows "case r of
      Inl _ \<Rightarrow> fd_counter f' = fd_counter f
    | Inr (g, e) \<Rightarrow> g = \<lparr>sge_key = key, sge_start = fd_counter f (SeqKey key), sge_count = n\<rparr>
        \<and> map_option to_wire (current_epoch c) = Some e
        \<and> unat (fd_counter f' (SeqKey key)) = unat (fd_counter f (SeqKey key)) + unat n
        \<and> (\<forall>k. k \<noteq> SeqKey key \<longrightarrow> fd_counter f' k = fd_counter f k)"
  using fds.get_seq_block [OF _ assms(2)] assms(1)
  by (cases r) (auto simp del: seq_fold.simps dest: seq_fold_single)

theorem get_seq_exact_witness:
  "\<exists>f'. get_seq (fd_driver (\<lambda>_. 0)) [107] 5 \<lparr>sv_core = demo_core, sv_driver = ([], fd_fresh)\<rparr> =
       (Inr (\<lparr>sge_key = [107], sge_start = 0, sge_count = 5\<rparr>, (0, 7)), \<lparr>sv_core = demo_core, sv_driver = ([], f')\<rparr>)
     \<and> unat (fd_counter f' (SeqKey [107])) = 5"
proof -
  have w: "bt_wf (ds_map (fd_dense fd_fresh))" "fd_counter fd_fresh (SeqKey [107]) = 0" by code_simp+
  obtain f' where g: "get_seq (fd_driver (\<lambda>_. 0)) [107] 5 \<lparr>sv_core = demo_core, sv_driver = ([], fd_fresh)\<rparr> =
       (Inr (\<lparr>sge_key = [107], sge_start = 0, sge_count = 5\<rparr>, (0, 7)), \<lparr>sv_core = demo_core, sv_driver = ([], f')\<rparr>)"
    by (simp add: demo_simps)
  from get_seq_exact [OF w(1) g] w(2) g show ?thesis by auto
qed

text \<open>
  C36. A batch is all or nothing: an answered batch returns one block per entry, in request
  order, as if the entries had been requested one after the other, and a refused batch
  moves no counter at all.
\<close>

theorem get_seq_batch_exact:
  assumes "bt_wf (ds_map (fd_dense f))"
    and "get_seq_batch (fd_driver crc) es \<lparr>sv_core = c, sv_driver = (ios, f)\<rparr> = (r, \<lparr>sv_core = c', sv_driver = (ios', f')\<rparr>)"
  shows "case r of
      Inl _ \<Rightarrow> fd_counter f' = fd_counter f
    | Inr (gs, e) \<Rightarrow> map (\<lambda>g. (sge_key g, sge_count g)) gs = es
        \<and> map_option to_wire (current_epoch c) = Some e
        \<and> seq_fold (fd_counter f) (map (\<lambda>(key, n). (SeqKey key, n)) es) = Some (map sge_start gs, fd_counter f')"
  using fds.get_seq_batch_blocks [OF _ assms(2)] assms(1) by (auto split: sum.splits)

theorem get_seq_batch_exact_witness:
  "\<exists>gs f'. get_seq_batch (fd_driver (\<lambda>_. 0)) [([107], 5), ([108], 2)] \<lparr>sv_core = demo_core, sv_driver = ([], fd_fresh)\<rparr> =
       (Inr (gs, (0, 7)), \<lparr>sv_core = demo_core, sv_driver = ([], f')\<rparr>)
     \<and> map (\<lambda>g. (sge_key g, sge_count g)) gs = [([107], 5), ([108], 2)]
     \<and> seq_fold (fd_counter fd_fresh) [(SeqKey [107], 5), (SeqKey [108], 2)] = Some (map sge_start gs, fd_counter f')"
proof -
  have w: "bt_wf (ds_map (fd_dense fd_fresh))" by code_simp
  obtain gs f' where g: "get_seq_batch (fd_driver (\<lambda>_. 0)) [([107], 5), ([108], 2)] \<lparr>sv_core = demo_core, sv_driver = ([], fd_fresh)\<rparr> =
       (Inr (gs, (0, 7)), \<lparr>sv_core = demo_core, sv_driver = ([], f')\<rparr>)"
    by (simp add: demo_simps get_seq_batch_def fd_advance_dense_batch_def)
  from get_seq_batch_exact [OF w g] g show ?thesis by auto
qed

text \<open>
  C9. The service makes progress on a healthy disk. A leadership event makes the node
  serve, with a window that starts above everything persisted before and at or above the
  clock; and a serving leader answers every timestamp request of legal size with a block
  of exactly that size at or after the clock reading, extending its window when it has
  to. The only proviso is that the bounds asked for stay in the 46-bit range.
\<close>

theorem healthy_node_serves:
  assumes "fd_state f \<le> PHYSICAL_MS_MAX" "fence_requested cfg (fence_serving_floor (fd_state f) now) \<le> PHYSICAL_MS_MAX"
    and "alloc_ok (sc_allocator cc)" "is_serving cc" "0 < unat count" "unat count \<le> 262144"
    and "prepare_extension now (as_millis (cf_window_ahead cfg)) cc = Inr (q, ep)"
  shows "(\<exists>c' f'. watch_dispatch cfg (fd_driver crc) (LsLeader e) ((now, ev) # env) \<lparr>sv_core = c, sv_driver = ([], f)\<rparr>
             = (FenceServing, \<lparr>sv_core = c', sv_driver = ([], f')\<rparr>)
           \<and> is_serving c' \<and> current_epoch c' = Some e \<and> unat (fd_state f) * 262144 + 262144 \<le> alloc_cursor (sc_allocator c')
           \<and> unat now * 262144 \<le> alloc_cursor (sc_allocator c'))
       \<and> (\<exists>g sv'. get_ts cfg (fd_driver crc) now count \<lparr>sv_core = cc, sv_driver = ([], f)\<rparr> = (Inr g, sv')
           \<and> gr_count g = count \<and> now \<le> gr_physical_ms g)"
proof
  let ?fl = "fence_serving_floor (fd_state f) now"
  have fl: "unat (fd_state f) + 1 \<le> unat ?fl" "unat now \<le> unat ?fl"
    using assms(1) by (auto simp: fence_serving_floor_def to_nat)
  obtain c' f' where a: "fence_attempt cfg (fd_driver crc) now e \<lparr>sv_core = enter_fencing c, sv_driver = ([], f)\<rparr>
        = (Inr (), \<lparr>sv_core = c', sv_driver = ([], f')\<rparr>)"
      "is_serving c'" "alloc_state (sc_allocator c') = Leader e (fence_requested cfg ?fl) ?fl 0"
    by (rule fence_attempt_healthy [OF assms(1,2)]) blast
  from fl have "unat (fd_state f) * 262144 + 262144 \<le> unat ?fl * 262144" "unat now * 262144 \<le> unat ?fl * 262144" by simp_all
  with a show "\<exists>c' f'. watch_dispatch cfg (fd_driver crc) (LsLeader e) ((now, ev) # env) \<lparr>sv_core = c, sv_driver = ([], f)\<rparr>
             = (FenceServing, \<lparr>sv_core = c', sv_driver = ([], f')\<rparr>)
           \<and> is_serving c' \<and> current_epoch c' = Some e \<and> unat (fd_state f) * 262144 + 262144 \<le> alloc_cursor (sc_allocator c')
           \<and> unat now * 262144 \<le> alloc_cursor (sc_allocator c')"
    by (simp add: watch_dispatch_def current_epoch_def alloc_epoch_def alloc_cursor_def position_def)
next
  let ?sv = "\<lparr>sv_core = cc, sv_driver = ([], f)\<rparr>"
  have q: "q \<le> PHYSICAL_MS_MAX"
    using assms(7) by (auto simp: prepare_extension_Inr_iff alloc_try_prepare_window_extension_def Let_def
        split: alloc_state.splits option.splits)
  obtain f' where p: "drv_persist_high_water (fd_driver crc) q ep ([], f) = (Inr (max (fd_state f) q), ([], f'))"
    by (rule fd_persist_healthy [OF q assms(1)]) blast
  have "\<exists>g sv'. get_ts_grant cfg (fd_driver crc) now count ?sv = (Inr g, sv') \<and> wg_count g = count \<and> now \<le> wg_physical_ms g"
    by (rule get_ts_answers [where q = q and e = ep and v = "max (fd_state f) q" and s' = "([], f')"])
      (use assms q p in \<open>simp_all add: validate_count_Inr_iff\<close>)
  then show "\<exists>g sv'. get_ts cfg (fd_driver crc) now count ?sv = (Inr g, sv') \<and> gr_count g = count
      \<and> now \<le> gr_physical_ms g"
    by (auto simp: get_ts_def ts_response_def)
qed

theorem healthy_node_serves_witness:
  "\<exists>g sv'. get_ts \<lparr>cf_window_ahead = 0, cf_failover_advance = 0, cf_lease_ttl_floor = 1, cf_lease_ttl_ceiling = 2\<rparr>
       (fd_driver (\<lambda>_. 0)) 2500 300 \<lparr>sv_core = demo_core, sv_driver = ([], fd_fresh)\<rparr> = (Inr g, sv')
     \<and> gr_count g = 300 \<and> 2500 \<le> gr_physical_ms g"
proof -
  let ?cfg = "\<lparr>cf_window_ahead = 0, cf_failover_advance = 0, cf_lease_ttl_floor = 1, cf_lease_ttl_ceiling = 2\<rparr>"
  have "fd_state fd_fresh \<le> PHYSICAL_MS_MAX"
    "fence_requested ?cfg (fence_serving_floor (fd_state fd_fresh) 2500) \<le> PHYSICAL_MS_MAX"
    "alloc_ok (sc_allocator demo_core)" "is_serving demo_core"
    "prepare_extension 2500 (as_millis (cf_window_ahead ?cfg)) demo_core = Inr (2500, Epoch 7)"
    by code_simp+
  from healthy_node_serves [OF this(1-4) _ _ this(5), of 300] show ?thesis by auto
qed

text \<open>
  The safe points a node reports are backed by the disk: after any history, the safe
  frontier and the legacy safe point are at or below the high-water the driver has
  acknowledged, the frontier is at or below the bound of every running lease, and a node
  that does not lead reports zero.
\<close>

theorem safe_points_are_durable:
  "case snd (run_emit (sn_step crc b) (sn_start crc b) cmds) of
     SnDown _ \<Rightarrow> True
   | SnUp cfg sv \<Rightarrow>
       (let frontier = fst (get_safe_frontier now (sv_core sv)); legacy = fst (get_current_max_safe (sv_core sv));
            durable = fd_state (snd (sv_driver sv))
        in frontier \<le> durable \<and> legacy \<le> durable
         \<and> {r \<in> set (live_set now (sc_lease_table (sv_core sv))). ts_upper_bound r < frontier} = {}
         \<and> (if alloc_is_leader (sc_allocator (sv_core sv)) then True else frontier = 0 \<and> legacy = 0))"
proof (cases "snd (run_emit (sn_step crc b) (sn_start crc b) cmds)")
  case (SnUp cfg sv)
  have "sn_inv crc (snd (run_emit (sn_step crc b) (sn_start crc b) cmds))"
    by (rule sni.run_inv [OF sn_start_inv])
  with SnUp have hw: "case alloc_committed_high_water (sc_allocator (sv_core sv)) of None \<Rightarrow> True
      | Some hw \<Rightarrow> hw \<le> fd_state (snd (sv_driver sv))"
    by (simp add: sn_inv_def srv_inv_def)
  have m: "min_unexpired_bound now t = Some x \<Longrightarrow> r \<in> set (live_set now t) \<Longrightarrow> x \<le> ts_upper_bound r"
    "min_unexpired_bound now t = None \<Longrightarrow> live_set now t = []" for t x r
    by (auto simp: min_unexpired_bound_def live_set_def iter_min_eq_Some_iff)
  have s: "saturating_sub x y \<le> z" if "x \<le> z" for x y z :: u64
    using that by (auto simp: word_le_nat_alt unat_saturating_sub)
  let ?t = "sc_lease_table (sv_core sv)"
  show ?thesis
  proof (cases "alloc_committed_high_water (sc_allocator (sv_core sv))")
    case None
    then show ?thesis
      by (simp add: SnUp get_safe_frontier_def get_current_max_safe_def safe_frontier_physical_ms_def
          current_max_safe_physical_ms_def Let_def)
  next
    case (Some x)
    then have "alloc_is_leader (sc_allocator (sv_core sv))" "x \<le> fd_state (snd (sv_driver sv))"
      using hw hw_None_iff [of "sc_allocator (sv_core sv)"] by (auto simp: alloc_leader_iff)
    with Some s [of x "fd_state (snd (sv_driver sv))"] m(1) [of ?t] m(2) [of ?t] show ?thesis
      by (cases "min_unexpired_bound now ?t")
        (auto simp: SnUp get_safe_frontier_def get_current_max_safe_def safe_frontier_physical_ms_def
          current_max_safe_physical_ms_def Let_def not_less min_le_iff_disj)
  qed
qed simp

text \<open>
  C37. What an answered lease request stands for. Either the holder already runs the lease
  it asks for at this epoch, and gets that lease back with nothing changed; or a new lease
  was granted: it is the holder's only active record, its id and its bound are one fresh
  value strictly above everything committed before and at or below the acknowledged
  high-water, and the live set of the table is durable: the lease file on the media is its
  encoding, and (within the lengths the record format can hold) a reopen after a power
  failure, whatever survives it, finds exactly that set and at least that high-water.
\<close>

theorem acquire_lease_durable:
  assumes "fd_inv crc f" "table_ok (sc_lease_table c)" "now < now + ttl"
    and "acquire_lease cfg (fd_driver crc) now h he ttl \<lparr>sv_core = c, sv_driver = (ios, f)\<rparr>
           = (Inr resp, \<lparr>sv_core = c', sv_driver = (ios', f')\<rparr>)"
  shows "table_ok (sc_lease_table c')
    \<and> (c' = c \<and> f' = f \<and> (\<exists>r e. active_for h now (sc_lease_table c) = Some r \<and> holder_epoch r = he
          \<and> resp = acquire_response_of r e \<and> alloc_epoch (sc_allocator c) = Some e)
      \<or> grant_established h he ttl now c resp c' (fd_state f') (fd_leases f')
        \<and> stable (fd_disk f') LEASES_FILE = Some (lease_encode crc (live_set now (sc_lease_table c')))
        \<and> (leases_representable (live_set now (sc_lease_table c')) \<longrightarrow>
             (\<exists>g. open_or_init crc False (power_failure keep (fd_disk f')) = Inr g
                \<and> fd_leases g = sort_key lease_id (live_set now (sc_lease_table c')) \<and> fd_state f' \<le> fd_state g)))"
proof -
  from fdlm.acquire_lease_correct [OF _ _ _ assms(3,4)] assms(1,2)
  have "table_ok (sc_lease_table c')
    \<and> (c' = c \<and> f' = f \<and> (\<exists>r e. active_for h now (sc_lease_table c) = Some r \<and> holder_epoch r = he
          \<and> resp = acquire_response_of r e \<and> alloc_epoch (sc_allocator c) = Some e)
      \<or> grant_established h he ttl now c resp c' (fd_state f') (fd_leases f')
        \<and> (\<exists>s e. fd_inv crc (snd s)
          \<and> drv_persist_leases (fd_driver crc) (live_set now (sc_lease_table c')) e s = (Inr (), (ios', f'))))" by auto
  then show ?thesis using acquired_leases_on_media [of crc _ _ _ ios' f' keep] by blast
qed

lemma fd_fresh_hw_inv: "hw_inv crc fd_fresh"
  using fd_fresh_inv [of crc] by (simp add: hw_inv_def fd_inv_def view_covers_def)

abbreviation demo_lease_cfg :: server_config where
  "demo_lease_cfg \<equiv> \<lparr>cf_window_ahead = 0, cf_failover_advance = 0, cf_lease_ttl_floor = 1000000, cf_lease_ttl_ceiling = 100000000\<rparr>"

lemmas lease_demo_simps = demo_simps as_millis_def ensure_serving_def validate_lease_request_def MAX_LEASE_HOLDER_LEN_def
  lease_prepare_acquire_def lt_prepare_acquire_def active_for_def lt_new_def persist_extension_bound_def
  prepare_extension_def alloc_try_prepare_window_extension_def pms_try_new_def PHYSICAL_MS_MAX_def LOGICAL_BITS_def
  persist_and_commit_def persist_bound_def fd_persist_high_water_def reject_out_of_range_advance_def write_record_def
  commit_extension_def alloc_try_commit_window_extension_def persist_lease_mutation_def lease_projected_live_set_def
  lease_table_at_def persist_lease_set_def fd_persist_leases_def write_lease_record_def lease_set_outcome_def
  lease_commit_def acquire_response_of_def

theorem acquire_lease_durable_witness:
  "\<exists>resp c' ios' f' g. acquire_lease demo_lease_cfg (fd_driver (\<lambda>_. 0)) 1000 [7] 3 50 \<lparr>sv_core = demo_core, sv_driver = ([], fd_fresh)\<rparr>
       = (Inr resp, \<lparr>sv_core = c', sv_driver = (ios', f')\<rparr>)
     \<and> ar_lease_id resp = 2051
     \<and> grant_established [7] 3 50 1000 demo_core resp c' (fd_state f') (fd_leases f')
     \<and> open_or_init (\<lambda>_. 0) False (power_failure (\<lambda>_. False) (fd_disk f')) = Inr g
     \<and> map lease_id (fd_leases g) = [2051] \<and> 2051 \<le> fd_state g"
proof -
  have "table_ok (sc_lease_table demo_core)" "(1000 :: u64) < 1000 + 50"
    by (simp_all add: demo_core_def table_ok_new)
  obtain resp c' ios' f' where a: "acquire_lease demo_lease_cfg (fd_driver (\<lambda>_. 0)) 1000 [7] 3 50 \<lparr>sv_core = demo_core, sv_driver = ([], fd_fresh)\<rparr>
       = (Inr resp, \<lparr>sv_core = c', sv_driver = (ios', f')\<rparr>)" "ar_lease_id resp = 2051" "fd_state f' = 2051"
      "map lease_id (fd_leases f') = [2051]" "map holder (fd_leases f') = [[7]]"
    by (simp add: acquire_lease_def lease_demo_simps projected_live_set_def Let_def mark_superseded_def bt_retain_def)
  have n: "active_for [7] 1000 (sc_lease_table demo_core) = None" by (simp add: demo_core_def active_for_def lt_new_def)
  from acquire_lease_durable [OF fd_fresh_inv \<open>table_ok _\<close> \<open>1000 < _\<close> a(1), of "\<lambda>_. False"] n
  have g: "grant_established [7] 3 50 1000 demo_core resp c' (fd_state f') (fd_leases f')"
      "leases_representable (live_set 1000 (sc_lease_table c')) \<longrightarrow>
        (\<exists>g. open_or_init (\<lambda>_. 0) False (power_failure (\<lambda>_. False) (fd_disk f')) = Inr g
           \<and> fd_leases g = sort_key lease_id (live_set 1000 (sc_lease_table c')) \<and> fd_state f' \<le> fd_state g)" by simp_all
  from g(1) have l: "live_set 1000 (sc_lease_table c') = fd_leases f'" by (auto simp: grant_established_def)
  obtain r where r: "fd_leases f' = [r]" "lease_id r = 2051" "holder r = [7]" using a(4,5) by auto
  then have "leases_representable (fd_leases f')" by (simp add: leases_representable_def)
  with g(2) obtain g where "open_or_init (\<lambda>_. 0) False (power_failure (\<lambda>_. False) (fd_disk f')) = Inr g"
      "fd_leases g = [r]" "2051 \<le> fd_state g"
    unfolding l using r(1) a(3) by auto
  with a(1,2) g(1) r(2) show ?thesis
    by (intro exI [of _ resp] exI [of _ c'] exI [of _ ios'] exI [of _ f'] exI [of _ g]) simp
qed

text \<open>
  A renewal keeps the lease and only moves it forward: an answered renewal found the
  record running and not superseded, keeps its id and holder, never lowers its bound,
  bounds it by the durable high-water, restarts its clock, and leaves the lease set on
  disk equal to the live set of the table.
\<close>

theorem renew_lease_durable:
  assumes "hw_inv crc f" "table_ok (sc_lease_table c)" "lease_bounds_ok c"
    and "alloc_committed_high_water (sc_allocator c) = Some hw" "hw \<le> fd_state f"
    and "bt_get (records (sc_lease_table c)) i = Some r" "now < now + ttl_ms r"
    and "renew_lease (fd_driver crc) now i \<lparr>sv_core = c, sv_driver = (ios, f)\<rparr>
           = (Inr (bound, expires, ep), \<lparr>sv_core = c', sv_driver = (ios', f')\<rparr>)"
  shows "table_ok (sc_lease_table c') \<and> fd_leases f' = live_set now (sc_lease_table c')
    \<and> bound \<le> fd_state f' \<and> alloc_committed_high_water (sc_allocator c') = Some bound
    \<and> \<not> superseded r \<and> \<not> is_expired now r \<and> ts_upper_bound r \<le> bound \<and> expires = now + ttl_ms r
    \<and> bt_get (records (sc_lease_table c')) i = Some (r\<lparr>ts_upper_bound := bound, expires_at_ms := expires\<rparr>)"
  using fdls.renew_lease_correct [OF _ _ _ _ _ _ assms(8)] assms(1-7) by auto

definition demo_lease :: lease_record where
  "demo_lease = \<lparr>lease_id = 1500, holder = [7], holder_epoch = 3, ttl_ms = 5000, ts_upper_bound = 1500,
     expires_at_ms = 2500, superseded = False\<rparr>"

theorem renew_lease_durable_witness:
  "\<exists>f c' ios' f'. renew_lease (fd_driver (\<lambda>_. 0)) 1000 1500
         \<lparr>sv_core = demo_core\<lparr>sc_lease_table := \<lparr>records = [(1500, demo_lease)]\<rparr>\<rparr>, sv_driver = ([], f)\<rparr>
       = (Inr (6000, 6000, (0, 7)), \<lparr>sv_core = c', sv_driver = (ios', f')\<rparr>)
     \<and> fd_leases f' = live_set 1000 (sc_lease_table c') \<and> 6000 \<le> fd_state f'"
proof -
  let ?c = "demo_core\<lparr>sc_lease_table := \<lparr>records = [(1500, demo_lease)]\<rparr>\<rparr>"
  define f where "f = snd (fd_persist_high_water (\<lambda>_. 0) IoOk 2000 (Epoch 7) fd_fresh)"
  have f: "hw_inv (\<lambda>_. 0) f" unfolding f_def by (rule hw_inv_persist [OF fd_fresh_hw_inv])
  have fs: "fd_state f = 2000" by (simp add: f_def lease_demo_simps)
  have t: "table_ok (sc_lease_table ?c)"
    by (simp add: table_ok_def filed_def one_active_def bt_wf_def demo_lease_def)
  have b: "lease_bounds_ok ?c" "alloc_committed_high_water (sc_allocator ?c) = Some 2000"
    "bt_get (records (sc_lease_table ?c)) 1500 = Some demo_lease" "(1000 :: u64) < 1000 + ttl_ms demo_lease"
    by (simp_all add: lease_bounds_ok_def demo_core_def demo_lease_def alloc_committed_high_water_def bt_get_def)
  obtain c' ios' f' where a: "renew_lease (fd_driver (\<lambda>_. 0)) 1000 1500 \<lparr>sv_core = ?c, sv_driver = ([], f)\<rparr>
       = (Inr (6000, 6000, (0, 7)), \<lparr>sv_core = c', sv_driver = (ios', f')\<rparr>)"
    using fs by (simp add: renew_lease_def lease_prepare_renew_def lt_prepare_renew_def is_expired_def demo_lease_def
        persist_renewal_bound_def prepare_lease_renewal_def alloc_try_prepare_lease_renewal_def
        alloc_committed_high_water_def saturating_add_def lease_demo_simps)
  from renew_lease_durable [OF f t b(1,2) _ b(3,4) a] fs a show ?thesis by auto
qed

end
