(* ===== verification/Interleaving.thy ===== *)
theory Interleaving
  imports Single_Node
begin

text \<open>
  The server with its requests interleaved at every await. A handler that extends the
  high-water or writes leases holds the extension slot (\<open>extension_lock\<close> and the read
  side of \<open>extension_gate\<close>, \<open>serving_core.rs\<close>) and gives up control at the driver call;
  grants, dense requests and step-downs run at any time, and a fence attempt only when
  the slot is free, which is what its write side of the gate waits for. A handler may be
  dropped at any await. The theory shows that no interleaving issues a timestamp twice.

  A step is what runs between two awaits, so a fence attempt and a step-down are one step
  each: their single lock acquisitions (allocator, sequence gate, lease table, watch channel)
  are not interleaved here. \<open>Server_Lifecycle\<close> splits them where that matters, at shutdown.
\<close>

section \<open>The step relation\<close>

datatype slot =
    Free
  | Asked u64 epoch
  | Answered "(consensus_error, u64) result" epoch
  | LeaseAsked lease_mutation epoch u64 "lease_record list"
  | LeaseAnswered lease_mutation epoch u64 "(consensus_error, unit) result"

type_synonym 's il_state = "'s server \<times> slot"

definition il_lease_complete ::
  "lease_mutation \<Rightarrow> epoch \<Rightarrow> u64 \<Rightarrow> (consensus_error, unit) result \<Rightarrow> serving_core \<Rightarrow> serving_core" where
  "il_lease_complete m e now r c =
     (case lease_set_outcome r c of
        (Inl _, c') \<Rightarrow> c'
      | (Inr _, c') \<Rightarrow> snd (lease_commit (lm_upsert m) (lm_supersede m) (lm_remove m) e now c'))"

inductive il_step ::
  "server_config \<Rightarrow> 's consensus_driver \<Rightarrow> 's il_state \<Rightarrow> window_grant list \<Rightarrow> 's il_state \<Rightarrow> bool"
  for cfg :: server_config and drv :: "'s consensus_driver" where
  grant: "sc_try_grant now count (sv_core sv) = (Inr g, c') \<Longrightarrow>
    il_step cfg drv (sv, sl) [g] (sv\<lparr>sv_core := c'\<rparr>, sl)"
| refuse: "sc_try_grant now count (sv_core sv) = (Inl e, c') \<Longrightarrow>
    il_step cfg drv (sv, sl) [] (sv\<lparr>sv_core := c'\<rparr>, sl)"
| ask_window: "extend_prepare cfg now count (sv_core sv) = Inr (Some (q, e)) \<Longrightarrow>
    il_step cfg drv (sv, Free) [] (sv, Asked q e)"
| ask_acquire: "prepare_extension now ttl (sv_core sv) = Inr (q, e) \<Longrightarrow>
    il_step cfg drv (sv, Free) [] (sv, Asked q e)"
| ask_renew: "prepare_lease_renewal now ttl (sv_core sv) = Inr (committed, q, e) \<Longrightarrow> q \<noteq> committed \<Longrightarrow>
    il_step cfg drv (sv, Free) [] (sv, Asked q e)"
| persist: "drv_persist_high_water drv q e (sv_driver sv) = (r, s') \<Longrightarrow>
    il_step cfg drv (sv, Asked q e) [] (sv\<lparr>sv_driver := s'\<rparr>, Answered r e)"
| complete: "extend_complete r e (sv_core sv) = (x, c') \<Longrightarrow>
    il_step cfg drv (sv, Answered r e) [] (sv\<lparr>sv_core := c'\<rparr>, Free)"
| ask_leases: "lease_projected_live_set (lm_upsert m) (lm_supersede m) (lm_remove m) e now (sv_core sv) = Inr rs \<Longrightarrow>
    il_step cfg drv (sv, Free) [] (sv, LeaseAsked m e now rs)"
| persist_leases: "drv_persist_leases drv rs e (sv_driver sv) = (r, s') \<Longrightarrow>
    il_step cfg drv (sv, LeaseAsked m e now rs) [] (sv\<lparr>sv_driver := s'\<rparr>, LeaseAnswered m e now r)"
| complete_leases:
    "il_step cfg drv (sv, LeaseAnswered m e now r) []
       (sv\<lparr>sv_core := il_lease_complete m e now r (sv_core sv)\<rparr>, Free)"
| dropped: "il_step cfg drv (sv, sl) [] (sv, Free)"
| dense: "il_step cfg drv (sv, sl) [] (snd (get_seq drv key count sv), sl)"
| dense_batch: "il_step cfg drv (sv, sl) [] (snd (get_seq_batch drv es sv), sl)"
| stepped_down: "il_step cfg drv (sv, sl) [] (sv\<lparr>sv_core := sc_step_down ep eo (sv_core sv)\<rparr>, sl)"
| not_serving: "il_step cfg drv (sv, sl) [] (sv\<lparr>sv_core := publish_not_serving ep eo (sv_core sv)\<rparr>, sl)"
| fence: "\<not> alloc_is_leader (sc_allocator (sv_core sv)) \<Longrightarrow> fence_attempt cfg drv now e sv = (r, sv') \<Longrightarrow>
    il_step cfg drv (sv, Free) [] (sv', Free)"

inductive_cases il_stepE: "il_step cfg drv s gs s'"

inductive il_run ::
  "server_config \<Rightarrow> 's consensus_driver \<Rightarrow> 's il_state \<Rightarrow> window_grant list \<Rightarrow> 's il_state \<Rightarrow> bool"
  for cfg drv where
  il_start: "il_run cfg drv s [] s"
| il_next: "il_run cfg drv s gs s' \<Longrightarrow> il_step cfg drv s' hs s'' \<Longrightarrow> il_run cfg drv s (gs @ hs) s''"

section \<open>Issuing order\<close>

definition slot_ok :: "u64 \<Rightarrow> slot \<Rightarrow> bool" where
  "slot_ok acked sl = (case sl of Answered (Inr v) e \<Rightarrow> v \<le> acked | _ \<Rightarrow> True)"

lemma slot_ok_mono: "slot_ok a sl \<Longrightarrow> a \<le> b \<Longrightarrow> slot_ok b sl"
  by (auto simp: slot_ok_def split: slot.splits sum.splits)

definition il_inv :: "('s \<Rightarrow> u64) \<Rightarrow> ('s \<Rightarrow> bool) \<Rightarrow> 's il_state \<Rightarrow> bool" where
  "il_inv acked rinv s \<longleftrightarrow> srv_inv acked rinv (fst s) \<and> slot_ok (acked (sv_driver (fst s))) (snd s)"

context tso_driver
begin

lemma il_inv_same_driver:
  assumes "advances sv sv'" "sv_driver sv' = sv_driver sv" "il_inv acked rinv (sv, sl)"
    and "slot_ok (acked (sv_driver sv)) sl \<Longrightarrow> slot_ok (acked (sv_driver sv)) sl'"
  shows "il_inv acked rinv (sv', sl') \<and> srv_pos acked sv \<le> srv_pos acked sv'"
  using assms by (simp add: il_inv_def advances_def)

lemma il_inv_new_driver:
  assumes "rinv (sv_driver sv) \<Longrightarrow> rinv s' \<and> acked (sv_driver sv) \<le> acked s'" "il_inv acked rinv (sv, sl)"
    and "slot_ok (acked s') sl \<Longrightarrow> slot_ok (acked s') sl'"
  shows "il_inv acked rinv (sv\<lparr>sv_driver := s'\<rparr>, sl') \<and> srv_pos acked sv \<le> srv_pos acked (sv\<lparr>sv_driver := s'\<rparr>)"
proof -
  have "rinv (sv_driver sv)" using assms(2) by (simp add: il_inv_def srv_inv_def)
  with advances_driver [OF assms(1)] assms slot_ok_mono show ?thesis by (auto simp: il_inv_def advances_def)
qed

lemma lease_complete_advances: "advances sv (sv\<lparr>sv_core := il_lease_complete m e now r (sv_core sv)\<rparr>)"
proof -
  obtain x c1 where o: "lease_set_outcome r (sv_core sv) = (x, c1)" by fastforce
  then have a: "advances sv (sv\<lparr>sv_core := c1\<rparr>)" by (rule advances_lease_outcome)
  obtain y c2 where l: "lease_commit (lm_upsert m) (lm_supersede m) (lm_remove m) e now c1 = (y, c2)" by fastforce
  have "advances (sv\<lparr>sv_core := c1\<rparr>) (sv\<lparr>sv_core := c2\<rparr>)"
    using advances_core [of c2 "sv\<lparr>sv_core := c1\<rparr>"] lease_commit_allocator [OF l] by simp
  with a advances_trans o l show ?thesis by (cases x) (auto simp: il_lease_complete_def)
qed

lemma extend_complete_advances:
  assumes "extend_complete r e (sv_core sv) = (x, c')" "case r of Inr v \<Rightarrow> v \<le> acked (sv_driver sv) | Inl _ \<Rightarrow> True"
  shows "advances sv (sv\<lparr>sv_core := c'\<rparr>)"
  using assms advances_persist_error advances_commit
  by (auto simp: extend_complete_def Let_def split: sum.splits prod.splits)

lemma il_step_facts:
  assumes "il_step cfg drv s gs s'" "il_inv acked rinv s"
  shows "il_inv acked rinv s' \<and> srv_pos acked (fst s) \<le> srv_pos acked (fst s') \<and> length gs \<le> 1
    \<and> (\<forall>g \<in> set gs. wg_ok g \<and> srv_pos acked (fst s) \<le> wg_lo g \<and> wg_lo g \<le> wg_hi g \<and> wg_hi g < srv_pos acked (fst s'))"
  using assms
proof cases
  case (grant now count sv g c' sl)
  with assms(2) grant_step [of sv now count g c'] show ?thesis by (auto simp: il_inv_def)
next
  case (refuse now count sv e c' sl)
  then have "c' = sv_core sv"
    by (auto simp: sc_try_grant_def Let_def dest: try_grant_error_unchanged split: prod.splits)
  with refuse assms(2) show ?thesis by simp
next
  case (persist q e sv r s1)
  from assms(2) persist(1) have inv: "rinv (sv_driver sv)" by (simp add: il_inv_def srv_inv_def)
  have "slot_ok (acked s1) (Answered r e)"
    using persist_covers(3) [OF inv] persist(4) by (auto simp: slot_ok_def split: sum.splits)
  with il_inv_new_driver [of sv s1 "Asked q e" "Answered r e"] persist_frame [OF _ persist(4)] persist assms(2)
  show ?thesis by simp
next
  case (complete r e sv x c')
  then have "case r of Inr v \<Rightarrow> v \<le> acked (sv_driver sv) | Inl _ \<Rightarrow> True"
    using assms(2) by (auto simp: il_inv_def slot_ok_def split: sum.splits)
  with il_inv_same_driver [OF extend_complete_advances [OF complete(4)], of "Answered r e" Free] complete assms(2)
  show ?thesis by (simp add: slot_ok_def)
next
  case (persist_leases rs e sv r s1 m now)
  with il_inv_new_driver [of sv s1 "LeaseAsked m e now rs" "LeaseAnswered m e now r"]
    persist_leases_frame [of "sv_driver sv" rs e] assms(2)
  show ?thesis by (simp add: slot_ok_def)
next
  case (complete_leases sv m e now r)
  with il_inv_same_driver [OF lease_complete_advances [of sv m e now r], of "LeaseAnswered m e now r" Free] assms(2)
  show ?thesis by (simp add: slot_ok_def)
next
  case (dense sv sl key count)
  have "advances sv (snd (get_seq drv key count sv))" using get_seq_advances by (metis prod.collapse)
  moreover have "slot_ok (acked (sv_driver (snd (get_seq drv key count sv)))) sl"
    using assms(2) dense get_seq_frame [of drv key count sv] advance_frame [of "sv_driver sv"]
    by (auto simp: il_inv_def srv_inv_def intro: slot_ok_mono)
  ultimately show ?thesis using dense assms(2) by (simp add: il_inv_def advances_def)
next
  case (dense_batch sv sl es)
  have "advances sv (snd (get_seq_batch drv es sv))" using get_seq_batch_advances by (metis prod.collapse)
  moreover have "slot_ok (acked (sv_driver (snd (get_seq_batch drv es sv)))) sl"
    using assms(2) dense_batch get_seq_batch_frame [of drv es sv] batch_frame [of "sv_driver sv"]
    by (auto simp: il_inv_def srv_inv_def intro: slot_ok_mono)
  ultimately show ?thesis using dense_batch assms(2) by (simp add: il_inv_def advances_def)
next
  case (stepped_down sv sl ep eo)
  with il_inv_same_driver [OF advances_step_down] assms(2) show ?thesis by simp
next
  case (not_serving sv sl ep eo)
  with il_inv_same_driver [OF advances_core, of "publish_not_serving ep eo (sv_core sv)" sv sl sl] assms(2)
  show ?thesis by (simp add: publish_not_serving_def)
next
  case (fence sv now e r sv')
  with fence_attempt_advances [OF fence(5)] assms(2) show ?thesis by (simp add: il_inv_def advances_def slot_ok_def)
qed (use assms(2) in \<open>auto simp: il_inv_def slot_ok_def\<close>)

lemma il_run_facts:
  assumes "il_run cfg drv s gs s'" "il_inv acked rinv s"
  shows "il_inv acked rinv s' \<and> srv_pos acked (fst s) \<le> srv_pos acked (fst s') \<and> sorted_wrt (\<lambda>g h. wg_hi g < wg_lo h) gs
    \<and> (\<forall>g \<in> set gs. wg_ok g \<and> wg_lo g \<le> wg_hi g \<and> wg_hi g < srv_pos acked (fst s'))"
  using assms
proof (induction rule: il_run.induct)
  case (il_next s gs s' hs s'')
  with il_step_facts [OF il_next.hyps(2)] show ?case
    by (auto simp: sorted_wrt_append sorted_wrt_short) (meson le_less_trans less_le_trans order_less_imp_le)+
qed simp

end

section \<open>The gates of the core\<close>

text \<open>
  The dense gate leads exactly the allocator's epoch, and a node that publishes Serving
  leads. No step relies on the driver for this.
\<close>

definition gates_together :: "serving_core \<Rightarrow> bool" where
  "gates_together c \<longleftrightarrow> seq_epoch (sc_seq_allocator c) = alloc_epoch (sc_allocator c)
     \<and> (is_serving c \<longrightarrow> alloc_is_leader (sc_allocator c))"

definition same_gates :: "serving_core \<Rightarrow> serving_core \<Rightarrow> bool" where
  "same_gates c c' \<longleftrightarrow> sc_seq_allocator c' = sc_seq_allocator c \<and> sc_state c' = sc_state c
     \<and> alloc_epoch (sc_allocator c') = alloc_epoch (sc_allocator c)"

lemma same_gates_keep: "same_gates c c' \<Longrightarrow> gates_together c \<Longrightarrow> gates_together c'"
  by (simp add: same_gates_def gates_together_def alloc_leader_iff is_serving_def)

lemma gates_step_down [simp]: "gates_together (sc_step_down ep eo c)"
  by (simp add: gates_together_def sc_step_down_def seq_step_down_def seq_epoch_def alloc_step_down_def
      alloc_epoch_def is_serving_def)

lemma gates_persist_error:
  "gates_together c \<Longrightarrow> persist_error_status err c = (st, c') \<Longrightarrow> gates_together c'"
  by (auto simp: persist_error_status_def Let_def split: persist_disposition.splits)

lemma try_grant_same_gates: "sc_try_grant now count c = (r, c') \<Longrightarrow> same_gates c c'"
  by (auto simp: sc_try_grant_def alloc_try_grant_def advance_cursor_def same_gates_def alloc_epoch_def Let_def
      split: prod.splits alloc_state.splits sum.splits if_splits option.splits)

lemma commit_extension_same_gates: "commit_extension v e c = (r, c') \<Longrightarrow> same_gates c c'"
  by (auto simp: commit_extension_def alloc_try_commit_window_extension_def same_gates_def alloc_epoch_def Let_def
      split: prod.splits alloc_state.splits sum.splits if_splits)

lemma extend_complete_gates:
  "gates_together c \<Longrightarrow> extend_complete r e c = (x, c') \<Longrightarrow> gates_together c'"
  by (auto simp: extend_complete_def Let_def dest: gates_persist_error commit_extension_same_gates
      elim: same_gates_keep split: sum.splits prod.splits)

lemma lease_outcome_gates:
  "gates_together c \<Longrightarrow> lease_set_outcome r c = (x, c') \<Longrightarrow> gates_together c'"
  by (cases r) (auto simp: lease_set_outcome_def Let_def dest: gates_persist_error
      split: consensus_error.splits prod.splits)

lemma lease_commit_same_gates: "same_gates c (snd (lease_commit u s d e now c))"
  by (auto simp: lease_commit_def same_gates_def Let_def split: sum.splits)

lemma lease_complete_gates:
  "gates_together c \<Longrightarrow> gates_together (il_lease_complete m e now r c)"
  by (auto simp: il_lease_complete_def dest: lease_outcome_gates
      intro: same_gates_keep [OF lease_commit_same_gates] split: prod.splits sum.splits)

lemma fence_seed_gates:
  assumes "gates_together c" "fence_seed fl ac e rs now c = (r, c')"
  shows "gates_together c'"
  using assms
  by (auto simp: fence_seed_def seed_on_leadership_gained_def alloc_become_leader_def publish_serving_def
      seed_leases_def gates_together_def alloc_epoch_def alloc_is_leader_def seq_become_leader_def seq_epoch_def
      is_serving_def split: sum.splits prod.splits if_splits)

lemma fence_attempt_gates:
  assumes "gates_together (sv_core sv)" "fence_attempt cfg drv now e sv = (r, sv')"
  shows "gates_together (sv_core sv')"
  using assms fence_seed_gates
  by (fastforce simp: fence_attempt_def Let_def split: sum.splits prod.splits)

lemma il_step_gates:
  assumes "il_step cfg drv s gs s'" "gates_together (sv_core (fst s))"
  shows "gates_together (sv_core (fst s'))"
  using assms
proof cases
  case (dense sv sl key count)
  with assms(2) get_seq_frame [of drv key count sv] show ?thesis by auto
next
  case (dense_batch sv sl es)
  with assms(2) get_seq_batch_frame [of drv es sv] show ?thesis by auto
next
  case (not_serving sv sl ep eo)
  with assms(2) show ?thesis by (simp add: gates_together_def publish_not_serving_def is_serving_def)
qed (use assms(2) in \<open>auto simp: lease_complete_gates dest: try_grant_same_gates extend_complete_gates
      fence_attempt_gates elim: same_gates_keep\<close>)

lemma il_run_gates:
  "il_run cfg drv s gs s' \<Longrightarrow> gates_together (sv_core (fst s)) \<Longrightarrow> gates_together (sv_core (fst s'))"
  by (induction rule: il_run.induct) (auto dest: il_step_gates)

text \<open>A server that has just started on an empty directory.\<close>

definition il_init :: "duration \<Rightarrow> u32 \<Rightarrow> u32 \<Rightarrow> io_fault list \<Rightarrow> (io_fault list \<times> file_driver) il_state" where
  "il_init w a b ios = (\<lparr>sv_core = sc_new w a b, sv_driver = (ios, fd_fresh)\<rparr>, Free)"

section \<open>A run\<close>

text \<open>
  A concrete interleaving: the node fences at epoch 1 and grants; a window extension is
  asked for and persisted, the node is deposed before the answer is installed, fences
  again at epoch 2 and grants above everything it issued before.
\<close>

definition demo_cfg :: server_config where
  "demo_cfg = \<lparr>cf_window_ahead = 0, cf_failover_advance = 0, cf_lease_ttl_floor = 1, cf_lease_ttl_ceiling = 2\<rparr>"

abbreviation demo_driver :: "(io_fault list \<times> file_driver) consensus_driver" where
  "demo_driver \<equiv> fd_driver (\<lambda>_. 0)"

abbreviation demo_g1 :: window_grant where
  "demo_g1 \<equiv> \<lparr>wg_physical_ms = 1000, wg_logical_start = 0, wg_count = 5, wg_epoch = Epoch 1\<rparr>"

abbreviation demo_g2 :: window_grant where
  "demo_g2 \<equiv> \<lparr>wg_physical_ms = 4501, wg_logical_start = 0, wg_count = 5, wg_epoch = Epoch 2\<rparr>"

lemma demo_fence:
  assumes "\<not> alloc_is_leader (sc_allocator c)" "fd_state f \<le> PHYSICAL_MS_MAX"
    and "max (fd_state f + 1) now = fl" "fl \<le> PHYSICAL_MS_MAX"
  shows "\<exists>c' f'. il_step demo_cfg demo_driver (\<lparr>sv_core = c, sv_driver = ([], f)\<rparr>, Free) [] (\<lparr>sv_core = c', sv_driver = ([], f')\<rparr>, Free)
     \<and> is_serving c' \<and> alloc_state (sc_allocator c') = Leader e fl fl 0 \<and> fd_state f' = fl"
proof -
  have "fd_state f \<le> fd_state f + 1" using unat_succ_in_range [OF assms(2)] by (simp add: word_le_nat_alt)
  then have fs: "fence_serving_floor (fd_state f) now = fl"
    using assms(3) by (simp add: fence_serving_floor_def saturating_add_def)
  have fq: "fence_requested demo_cfg fl = fl"
    by (simp add: fence_requested_def demo_cfg_def as_millis_def saturating_add_def)
  obtain c' f' where a: "fence_attempt demo_cfg demo_driver now e \<lparr>sv_core = c, sv_driver = ([], f)\<rparr>
        = (Inr (), \<lparr>sv_core = c', sv_driver = ([], f')\<rparr>)"
      "is_serving c'" "alloc_state (sc_allocator c') = Leader e fl fl 0" "fd_state f' = fl"
    by (rule fence_attempt_healthy [of f demo_cfg now "\<lambda>_. 0" e c, unfolded fs fq, OF assms(2,4)]) blast
  with il_step.fence [OF _ a(1)] assms(1) show ?thesis by auto
qed

lemma demo_run:
  obtains sv where "il_run demo_cfg demo_driver (il_init 0 10 10 []) [demo_g1, demo_g2] (sv, Free)" "is_serving (sv_core sv)"
proof -
  let ?run = "il_run demo_cfg demo_driver (il_init 0 10 10 [])"
  have v: "validate_count 5 = Inr ()" "project_grant 1000 0 1000 1000 5 = Inr (1000, 0)" "advance_cursor 1000 0 5 = (1000, 5)"
    "project_grant 4501 0 4501 950 5 = Inr (4501, 0)" "advance_cursor 4501 0 5 = (4501, 5)"
    "PHYSICAL_MS_MAX \<ge> 4501" "PHYSICAL_MS_MAX \<ge> 1500" "PHYSICAL_MS_MAX \<ge> 1000" "PHYSICAL_MS_MAX \<ge> 4500"
    by code_simp+
  have "fd_state fd_fresh = 0" by (simp add: fd_fresh_def)
  then have "\<exists>c' f'. il_step demo_cfg demo_driver (il_init 0 10 10 []) [] (\<lparr>sv_core = c', sv_driver = ([], f')\<rparr>, Free)
     \<and> is_serving c' \<and> alloc_state (sc_allocator c') = Leader (Epoch 1) 1000 1000 0 \<and> fd_state f' = 1000"
    unfolding il_init_def
    by (intro demo_fence [where now = 1000]) (auto simp: sc_new_def alloc_new_def alloc_is_leader_def v)
  then obtain c1 f1 where 1: "il_step demo_cfg demo_driver (il_init 0 10 10 []) [] (\<lparr>sv_core = c1, sv_driver = ([], f1)\<rparr>, Free)"
      "alloc_state (sc_allocator c1) = Leader (Epoch 1) 1000 1000 0" "fd_state f1 = 1000"
    by blast
  define c2 where "c2 = snd (sc_try_grant 1000 5 c1)"
  have 2: "sc_try_grant 1000 5 c1 = (Inr demo_g1, c2)" "alloc_state (sc_allocator c2) = Leader (Epoch 1) 1000 1000 5"
    using 1(2) v(1-3) by (auto simp: c2_def sc_try_grant_split alloc_try_grant_def wg_new_unchecked_def)
  have 3: "prepare_extension 1500 3000 c2 = Inr (4500, Epoch 1)"
    using 2(2) v(6-9) by (simp add: prepare_extension_Inr_iff alloc_epoch_def alloc_try_prepare_window_extension_def
        checked_add_def Let_def) 
  obtain f2 where 4: "drv_persist_high_water demo_driver 4500 (Epoch 1) ([], f1) = (Inr 4500, ([], f2))" "fd_state f2 = 4500"
    using fd_persist_healthy [of 4500 f1 "\<lambda>_. 0" "Epoch 1"] 1(3) v by auto
  let ?c3 = "sc_step_down None None c2"
  have 5: "extend_complete (Inr 4500) (Epoch 1) ?c3 = (Inr (), ?c3)"
    using v(9) by (auto simp: extend_complete_def commit_extension_def sc_step_down_def alloc_step_down_def
        alloc_try_commit_window_extension_def Let_def)
  obtain c4 f4 where 6: "il_step demo_cfg demo_driver (\<lparr>sv_core = ?c3, sv_driver = ([], f2)\<rparr>, Free) [] (\<lparr>sv_core = c4, sv_driver = ([], f4)\<rparr>, Free)"
      "alloc_state (sc_allocator c4) = Leader (Epoch 2) 4501 4501 0" "is_serving c4"
    using demo_fence [of ?c3 f2 900 4501 "Epoch 2"] 4(2) v(6,9)
    by (auto simp: sc_step_down_def alloc_step_down_def alloc_is_leader_def)
  obtain c5 where 7: "sc_try_grant 950 5 c4 = (Inr demo_g2, c5)" "is_serving c5"
    using 6(2,3) v(1,4,5) by (auto simp: sc_try_grant_split alloc_try_grant_def wg_new_unchecked_def is_serving_def)
  have "?run ([] @ []) (\<lparr>sv_core = c1, sv_driver = ([], f1)\<rparr>, Free)" using il_start 1(1) by (rule il_next)
  from il_next [OF this il_step.grant [of 1000 5]] 2(1)
  have "?run [demo_g1] (\<lparr>sv_core = c2, sv_driver = ([], f1)\<rparr>, Free)" by fastforce
  from il_next [OF this il_step.ask_acquire] 3
  have "?run ([demo_g1] @ []) (\<lparr>sv_core = c2, sv_driver = ([], f1)\<rparr>, Asked 4500 (Epoch 1))" by fastforce
  from il_next [OF this il_step.persist] 4(1)
  have "?run (([demo_g1] @ []) @ []) (\<lparr>sv_core = c2, sv_driver = ([], f2)\<rparr>, Answered (Inr 4500) (Epoch 1))" by fastforce
  from il_next [OF this il_step.stepped_down [of _ _ _ _ None None]]
  have "?run [demo_g1] (\<lparr>sv_core = ?c3, sv_driver = ([], f2)\<rparr>, Answered (Inr 4500) (Epoch 1))" by simp
  from il_next [OF this il_step.complete] 5
  have "?run ([demo_g1] @ []) (\<lparr>sv_core = ?c3, sv_driver = ([], f2)\<rparr>, Free)" by fastforce
  from il_next [OF this 6(1)] have "?run [demo_g1] (\<lparr>sv_core = c4, sv_driver = ([], f4)\<rparr>, Free)" by simp
  from il_next [OF this il_step.grant [of 950 5]] 7(1)
  have "?run ([demo_g1] @ [demo_g2]) (\<lparr>sv_core = c5, sv_driver = ([], f4)\<rparr>, Free)" by fastforce
  with that 7(2) show ?thesis by simp
qed

section \<open>Properties\<close>

lemma il_init_inv: "il_inv sn_acked (\<lambda>st. hw_inv crc (snd st)) (il_init w a b ios)"
proof -
  have "hw_inv crc fd_fresh" using fd_fresh_inv [of crc] by (simp add: hw_inv_def fd_inv_def view_covers_def)
  then show ?thesis
    using hw_inv_range [of crc fd_fresh]
    by (simp add: il_inv_def il_init_def srv_inv_def slot_ok_def sc_new_def alloc_new_def alloc_ok_def
        alloc_committed_high_water_def)
qed

text \<open>
  C4. Concurrency does not break the order: however requests, driver answers, lease
  writes, step-downs and fence attempts are interleaved at the awaits of the handlers,
  and whichever of them are dropped on the way, the timestamp blocks handed out are
  strictly increasing. An answer that arrives after the leadership it was asked under is
  gone is not installed.
\<close>

theorem interleaved_timestamps_strictly_increase:
  assumes "il_run cfg (fd_driver crc) (il_init w a b ios) gs s'"
  shows "sorted_wrt grant_before gs"
  using fdt.il_run_facts [OF assms il_init_inv] by (intro sorted_wrt_grant_before) auto

theorem interleaved_timestamps_strictly_increase_witness:
  "\<exists>s'. il_run demo_cfg demo_driver (il_init 0 10 10 []) [demo_g1, demo_g2] s'
     \<and> sorted_wrt grant_before [demo_g1, demo_g2]"
proof -
  obtain sv where r: "il_run demo_cfg demo_driver (il_init 0 10 10 []) [demo_g1, demo_g2] (sv, Free)"
    by (rule demo_run)
  with interleaved_timestamps_strictly_increase [OF r] show ?thesis by blast
qed

text \<open>
  Between these steps the gates of the serving core stay together: a node that publishes
  Serving leads, and the gate of the dense sequences is open at exactly the epoch the
  timestamp allocator leads.
\<close>

theorem gates_never_diverge:
  assumes "il_run cfg (fd_driver crc) (il_init w a b ios) gs (sv, sl)"
  shows "seq_epoch (sc_seq_allocator (sv_core sv)) = alloc_epoch (sc_allocator (sv_core sv))
     \<and> (is_serving (sv_core sv) \<longrightarrow> alloc_is_leader (sc_allocator (sv_core sv)))"
  using il_run_gates [OF assms]
  by (simp add: il_init_def gates_together_def sc_new_def seq_new_def seq_epoch_def alloc_new_def alloc_epoch_def
      is_serving_def)

theorem gates_never_diverge_witness:
  "\<exists>gs sv. il_run demo_cfg demo_driver (il_init 0 10 10 []) gs (sv, Free) \<and> is_serving (sv_core sv)
     \<and> alloc_is_leader (sc_allocator (sv_core sv))
     \<and> seq_epoch (sc_seq_allocator (sv_core sv)) = alloc_epoch (sc_allocator (sv_core sv))"
proof -
  obtain sv where r: "il_run demo_cfg demo_driver (il_init 0 10 10 []) [demo_g1, demo_g2] (sv, Free)" "is_serving (sv_core sv)"
    by (rule demo_run)
  with gates_never_diverge [OF r(1)] show ?thesis by blast
qed

end
