(* ===== verification/Cluster.thy ===== *)
theory Cluster
  imports Committed_Log Interleaving
begin

text \<open>
  Several servers over one Raft cluster. Every node runs the interleaved server of the
  previous theory on the openraft driver, over its own view of the committed log; nodes
  take over, are deposed without noticing, go on serving from the window they have, restart
  and come back. The theory shows in which order timestamps are issued across nodes, under
  the hypothesis that an acknowledged advance was committed in the term of the epoch it was
  asked under, and that without it two nodes can issue the same timestamp.
\<close>

section \<open>The cluster\<close>

record cl_node =
  cn_core :: serving_core
  cn_slot :: slot
  cn_applied :: nat
  cn_sm :: raft_sm
  cn_metrics :: raft_metrics

record cluster =
  cl_log :: "raft_entry list"
  cl_term :: u64
  cl_nodes :: "u64 \<Rightarrow> cl_node"

text \<open>A node's server as it sees the committed log, and the cluster after one of its steps.\<close>

definition node_view :: "raft_reply list \<Rightarrow> u64 \<Rightarrow> cluster \<Rightarrow> raft_node il_state" where
  "node_view rs i c =
     (let n = cl_nodes c i
      in (\<lparr>sv_core = cn_core n,
           sv_driver = \<lparr>rn_replies = rs, rn_log = cl_log c, rn_term = cl_term c, rn_applied = cn_applied n, rn_sm = cn_sm n,
             rn_metrics = cn_metrics n\<rparr>\<rparr>, cn_slot n))"

definition put_node :: "u64 \<Rightarrow> raft_node il_state \<Rightarrow> cluster \<Rightarrow> cluster" where
  "put_node i st c =
     (let s = sv_driver (fst st)
      in \<lparr>cl_log = rn_log s, cl_term = rn_term s,
          cl_nodes = (cl_nodes c)(i := \<lparr>cn_core = sv_core (fst st), cn_slot = snd st, cn_applied = rn_applied s,
            cn_sm = rn_sm s, cn_metrics = rn_metrics s\<rparr>)\<rparr>)"

text \<open>The epoch a step made the node lead.\<close>

definition took_over :: "serving_core \<Rightarrow> serving_core \<Rightarrow> epoch option" where
  "took_over c c' = (if alloc_is_leader (sc_allocator c) then None else alloc_epoch (sc_allocator c'))"

definition epoch_of :: "u64 \<Rightarrow> epoch" where
  "epoch_of t = Epoch (ucast t)"

text \<open>
  A node takes over only an epoch that is a term it leads or led, and openraft answers it in
  terms no lower than that one.
\<close>

definition rightful :: "(u64 \<Rightarrow> u64) \<Rightarrow> u64 \<Rightarrow> raft_reply list \<Rightarrow> raft_node il_state \<Rightarrow> raft_node il_state \<Rightarrow> bool" where
  "rightful led i rs st st' \<longleftrightarrow>
     (\<forall>e. took_over (sv_core (fst st)) (sv_core (fst st')) = Some e \<longrightarrow>
        (\<exists>t. e = epoch_of t \<and> led t = i \<and> list_all (\<lambda>r. t \<le> reply_term r) rs))"

text \<open>
  An advance that is acknowledged under an epoch was committed in the term of that epoch:
  the node did not lose leadership and win it back between the two. The openraft driver does
  not check this (\<open>driver.rs\<close>: the epoch argument is ignored).
\<close>

definition same_term :: "raft_node il_state \<Rightarrow> raft_node il_state \<Rightarrow> bool" where
  "same_term st st' \<longleftrightarrow>
     (let t' = entry_term (last (rn_log (sv_driver (fst st'))))
      in (\<forall>q e v. snd st = Asked q e \<and> snd st' = Answered (Inr v) e \<longrightarrow> e = epoch_of t')
       \<and> (\<forall>e. took_over (sv_core (fst st)) (sv_core (fst st')) = Some e \<longrightarrow> e = epoch_of t'))"

inductive cl_step ::
  "(u64 \<Rightarrow> u64) \<Rightarrow> bool \<Rightarrow> server_config \<Rightarrow> cluster \<Rightarrow> window_grant list \<Rightarrow> cluster \<Rightarrow> bool"
  for led aware cfg where
  node: "il_step cfg (log_driver led i) (node_view rs i c) gs st \<Longrightarrow> rightful led i rs (node_view rs i c) st \<Longrightarrow>
    aware \<longrightarrow> same_term (node_view rs i c) st \<Longrightarrow> cl_step led aware cfg c gs (put_node i st c)"
| committed: "lawful_entries (cl_term c) es t \<Longrightarrow>
    cl_step led aware cfg c [] (c\<lparr>cl_log := cl_log c @ es, cl_term := t\<rparr>)"
| replica: "replica_ok (cl_log c) n sm \<Longrightarrow>
    cl_step led aware cfg c [] (c\<lparr>cl_nodes := (cl_nodes c)(i := (cl_nodes c i)\<lparr>cn_applied := n, cn_sm := sm\<rparr>)\<rparr>)"
| metrics: "cl_step led aware cfg c [] (c\<lparr>cl_nodes := (cl_nodes c)(i := (cl_nodes c i)\<lparr>cn_metrics := m\<rparr>)\<rparr>)"
| restart: "cl_step led aware cfg c []
    (c\<lparr>cl_nodes := (cl_nodes c)(i := (cl_nodes c i)\<lparr>cn_core := sc_new w a b, cn_slot := Free\<rparr>)\<rparr>)"

inductive cl_run ::
  "(u64 \<Rightarrow> u64) \<Rightarrow> bool \<Rightarrow> server_config \<Rightarrow> cluster \<Rightarrow> window_grant list \<Rightarrow> cluster \<Rightarrow> bool"
  for led aware cfg where
  cl_start: "cl_run led aware cfg c [] c"
| cl_next: "cl_run led aware cfg c gs c' \<Longrightarrow> cl_step led aware cfg c' hs c'' \<Longrightarrow> cl_run led aware cfg c (gs @ hs) c''"

definition cl_init :: "duration \<Rightarrow> u32 \<Rightarrow> u32 \<Rightarrow> raft_metrics \<Rightarrow> cluster" where
  "cl_init w a b m = \<lparr>cl_log = [], cl_term = 0,
     cl_nodes = (\<lambda>i. \<lparr>cn_core = sc_new w a b, cn_slot = Free, cn_applied = 0, cn_sm = sm_new, cn_metrics = m\<rparr>)\<rparr>"

section \<open>The invariant\<close>

definition leader_ok :: "(u64 \<Rightarrow> u64) \<Rightarrow> u64 \<Rightarrow> raft_entry list \<Rightarrow> u64 \<Rightarrow> window_grant list \<Rightarrow> alloc_state \<Rightarrow> bool" where
  "leader_ok led i log term gs st \<longleftrightarrow>
     (case st of NotLeader \<Rightarrow> True
      | Leader e hw np nl \<Rightarrow>
          (\<exists>t. e = epoch_of t \<and> led t = i \<and> t \<le> term \<and> hw \<le> value_upto t log \<and> value_below t log < np)
          \<and> (\<forall>g \<in> set gs. wg_epoch g = e \<longrightarrow> wg_hi g < position np nl))"

definition answer_ok :: "raft_entry list \<Rightarrow> slot \<Rightarrow> bool" where
  "answer_ok log sl \<longleftrightarrow> (case sl of Answered (Inr v) e \<Rightarrow> (\<forall>t. e = epoch_of t \<longrightarrow> v \<le> value_upto t log) | _ \<Rightarrow> True)"

definition grant_ok :: "raft_entry list \<Rightarrow> u64 \<Rightarrow> window_grant \<Rightarrow> bool" where
  "grant_ok log term g \<longleftrightarrow> wg_ok g \<and> (\<exists>t. wg_epoch g = epoch_of t \<and> t \<le> term
     \<and> value_below t log < wg_physical_ms g \<and> wg_physical_ms g \<le> value_upto t log)"

text \<open>The order of the cluster: by epoch, and within an epoch by time.\<close>

definition epoch_order :: "window_grant \<Rightarrow> window_grant \<Rightarrow> bool" where
  "epoch_order g h \<longleftrightarrow> (if wg_epoch g \<le> wg_epoch h then wg_hi g < wg_lo h else wg_hi h < wg_lo g)"

definition node_ok :: "(u64 \<Rightarrow> u64) \<Rightarrow> u64 \<Rightarrow> raft_entry list \<Rightarrow> u64 \<Rightarrow> window_grant list \<Rightarrow> serving_core \<Rightarrow> slot \<Rightarrow> bool" where
  "node_ok led i log term gs core sl \<longleftrightarrow> alloc_ok (sc_allocator core)
     \<and> leader_ok led i log term gs (alloc_state (sc_allocator core)) \<and> answer_ok log sl"

definition cl_inv :: "(u64 \<Rightarrow> u64) \<Rightarrow> window_grant list \<Rightarrow> cluster \<Rightarrow> bool" where
  "cl_inv led gs c \<longleftrightarrow> log_ok (cl_log c) (cl_term c)
     \<and> (\<forall>i. replica_ok (cl_log c) (cn_applied (cl_nodes c i)) (cn_sm (cl_nodes c i))
          \<and> node_ok led i (cl_log c) (cl_term c) gs (cn_core (cl_nodes c i)) (cn_slot (cl_nodes c i)))
     \<and> list_all (grant_ok (cl_log c) (cl_term c)) gs \<and> sorted_wrt epoch_order gs"

lemma epoch_of_eq [simp]: "epoch_of t = epoch_of u \<longleftrightarrow> t = u"
  using unat_u64_as_u128 [of t] unat_u64_as_u128 [of u] by (auto simp: epoch_of_def word_unat_eq_iff)

lemma epoch_of_le: "epoch_of t \<le> epoch_of u \<longleftrightarrow> t \<le> u"
  by (simp add: epoch_of_def less_eq_epoch_def word_le_nat_alt)

text \<open>A longer log and new terms keep everything.\<close>

lemma leader_ok_extend:
  assumes "leader_ok led i log term gs st" "term \<le> term'" "list_all (\<lambda>e. term \<le> entry_term e) new"
  shows "leader_ok led i (log @ new) term' gs st"
proof (cases st)
  case (Leader e hw np nl)
  from assms(1) obtain t where t: "e = epoch_of t" "led t = i" "t \<le> term" "hw \<le> value_upto t log" "value_below t log < np"
    by (auto simp: leader_ok_def Leader)
  from assms(3) t(3) have "list_all (\<lambda>e. t \<le> entry_term e) new" by (auto simp: list_all_iff intro: order_trans)
  from value_below_append [OF this] value_upto_append [of t log new] t assms(1,2) show ?thesis
    by (auto simp: leader_ok_def Leader intro!: exI [of _ t] intro: order_trans)
qed (simp add: leader_ok_def)

lemma answer_ok_extend: "answer_ok log sl \<Longrightarrow> answer_ok (log @ new) sl"
  using value_upto_append by (auto simp: answer_ok_def split: slot.splits sum.splits intro: order_trans)

lemma grant_ok_extend:
  assumes "grant_ok log term g" "term \<le> term'" "list_all (\<lambda>e. term \<le> entry_term e) new"
  shows "grant_ok (log @ new) term' g"
proof -
  from assms(1) obtain t where t: "wg_epoch g = epoch_of t" "t \<le> term" "wg_ok g" "value_below t log < wg_physical_ms g"
      "wg_physical_ms g \<le> value_upto t log"
    by (auto simp: grant_ok_def)
  from assms(3) t(2) have "list_all (\<lambda>e. t \<le> entry_term e) new" by (auto simp: list_all_iff intro: order_trans)
  from value_below_append [OF this] value_upto_append [of t log new] t assms(2) show ?thesis
    by (auto simp: grant_ok_def intro!: exI [of _ t] intro: order_trans)
qed

lemma node_ok_extend:
  assumes "node_ok led i log term gs core sl" "term \<le> term'" "list_all (\<lambda>e. term \<le> entry_term e) new"
  shows "node_ok led i (log @ new) term' gs core sl"
  using assms leader_ok_extend answer_ok_extend by (auto simp: node_ok_def)

lemma replica_ok_extend: "replica_ok log n sm \<Longrightarrow> replica_ok (log @ new) n sm"
  by (simp add: replica_ok_def)

section \<open>One node's steps\<close>

lemma node_ok_quiet:
  assumes "node_ok led i log term hist core sl"
    and "sc_allocator core' = sc_allocator core \<or> alloc_state (sc_allocator core') = NotLeader"
    and "answer_ok log sl'"
  shows "node_ok led i log term hist core' sl'"
  using assms by (auto simp: node_ok_def leader_ok_def alloc_ok_def)

lemma answer_ok_simps [simp]:
  "answer_ok log Free" "answer_ok log (Asked q e)" "answer_ok log (LeaseAsked m e now rs)"
  "answer_ok log (LeaseAnswered m e now r')" "answer_ok log (Answered (Inl err) e)"
  by (simp_all add: answer_ok_def)

lemma persist_error_quiet:
  "persist_error_status err core = (st, core') \<Longrightarrow>
     sc_allocator core' = sc_allocator core \<or> alloc_state (sc_allocator core') = NotLeader"
  by (auto simp: persist_error_status_def Let_def sc_step_down_def alloc_step_down_def split: persist_disposition.splits)

lemma lease_complete_quiet:
  "sc_allocator (il_lease_complete m e now r core) = sc_allocator core
     \<or> alloc_state (sc_allocator (il_lease_complete m e now r core)) = NotLeader"
proof -
  obtain x c1 where o: "lease_set_outcome r core = (x, c1)" by fastforce
  have "sc_allocator c1 = sc_allocator core \<or> alloc_state (sc_allocator c1) = NotLeader"
  proof (cases r)
    case (Inl err)
    with o show ?thesis
      by (cases err) (auto simp: lease_set_outcome_def Let_def dest: persist_error_quiet split: prod.splits)
  qed (use o in \<open>auto simp: lease_set_outcome_def\<close>)
  moreover have "sc_allocator (snd (lease_commit u s d e now c1)) = sc_allocator c1" for u s d
    using lease_commit_allocator by (metis prod.collapse)
  ultimately show ?thesis by (cases x) (auto simp: il_lease_complete_def o)
qed

lemma position_less: "unat p < unat q \<Longrightarrow> l < 262144 \<Longrightarrow> unat p * 262144 + l < unat q * 262144"
proof -
  assume "unat p < unat q" "l < 262144"
  then have "(unat p + 1) * 262144 \<le> unat q * 262144" by simp
  with \<open>l < 262144\<close> show ?thesis by simp
qed

lemma grant_physical:
  "wg_ok g \<Longrightarrow> wg_lo g \<le> wg_hi g \<and> unat (wg_physical_ms g) * 262144 \<le> wg_lo g
     \<and> wg_hi g < (unat (wg_physical_ms g) + 1) * 262144"
  by (auto simp: wg_ok_def wg_lo_def wg_hi_def position_def)

lemma below_physical: "wg_ok g \<Longrightarrow> wg_ok h \<Longrightarrow> wg_physical_ms g < wg_physical_ms h \<Longrightarrow> wg_hi g < wg_lo h"
proof -
  assume a: "wg_ok g" "wg_ok h" "wg_physical_ms g < wg_physical_ms h"
  then have "(unat (wg_physical_ms g) + 1) * 262144 \<le> unat (wg_physical_ms h) * 262144" by (simp add: word_less_nat_alt)
  with grant_physical [OF a(1)] grant_physical [OF a(2)] show ?thesis by linarith
qed

lemma grant_node:
  assumes "node_ok led i log term hist core sl" "list_all (grant_ok log term) hist"
    and "sc_try_grant now count core = (Inr g, core')"
  shows "node_ok led i log term (hist @ [g]) core' sl \<and> grant_ok log term g \<and> (\<forall>h \<in> set hist. epoch_order h g)
     \<and> (\<exists>t. wg_epoch g = epoch_of t \<and> led t = i)"
proof -
  obtain a where a: "alloc_try_grant now count (sc_allocator core) = (Inr g, a)" "core' = core\<lparr>sc_allocator := a\<rparr>"
    using assms(3) by (auto simp: sc_try_grant_def Let_def split: prod.splits)
  have ok: "alloc_ok (sc_allocator core)" using assms(1) by (simp add: node_ok_def)
  note sp = try_grant_spec [OF a(1) ok]
  obtain e hw np nl np' nl' where st: "alloc_state (sc_allocator core) = Leader e hw np nl"
      "alloc_state a = Leader e hw np' nl'" "wg_epoch g = e"
    using a(1) ok by (rule try_grant_InrE) (auto simp: wg_new_unchecked_def)
  from sp st have g: "wg_ok g" "wg_physical_ms g \<le> hw" "position np nl \<le> wg_lo g" "wg_hi g < position np' nl'"
    by (auto simp: alloc_cursor_def alloc_committed_high_water_def wg_hi_def wg_ok_def)
  from assms(1) st(1) obtain t where t: "e = epoch_of t" "led t = i" "t \<le> term" "hw \<le> value_upto t log" "value_below t log < np"
    by (auto simp: node_ok_def leader_ok_def)
  have np: "np \<le> wg_physical_ms g"
  proof (rule ccontr)
    assume "\<not> np \<le> wg_physical_ms g"
    then have "(unat (wg_physical_ms g) + 1) * 262144 \<le> unat np * 262144" by (simp add: word_le_nat_alt)
    with g(3) grant_physical [OF g(1)] show False by (simp add: position_def)
  qed
  have gok: "grant_ok log term g" using g t st(3) np by (auto simp: grant_ok_def intro!: exI [of _ t])
  have ord: "epoch_order h g" if h: "h \<in> set hist" for h
  proof -
    from assms(2) h obtain u where u: "wg_epoch h = epoch_of u" "wg_ok h" "value_below u log < wg_physical_ms h"
        "wg_physical_ms h \<le> value_upto u log"
      by (auto simp: grant_ok_def list_all_iff)
    consider "u = t" | "u < t" | "t < u" by (rule linorder_cases [of u t]) auto
    then show ?thesis
    proof cases
      case 1
      with assms(1) h st(1) u(1) t(1) have "wg_hi h < position np nl" by (auto simp: node_ok_def leader_ok_def)
      with g(3) 1 u(1) t(1) st(3) show ?thesis by (simp add: epoch_order_def)
    next
      case 2
      then have "wg_physical_ms h < wg_physical_ms g"
        using u(4) value_below_le_upto [OF 2, of log] t(5) np by auto
      with below_physical [OF u(2) g(1)] 2 u(1) t(1) st(3) show ?thesis by (auto simp: epoch_order_def epoch_of_le)
    next
      case 3
      then have "wg_physical_ms g < wg_physical_ms h"
        using u(3) value_below_le_upto [OF 3, of log] t(4) g(2) by auto
      with below_physical [OF g(1) u(2)] 3 u(1) t(1) st(3) show ?thesis by (auto simp: epoch_order_def epoch_of_le)
    qed
  qed
  have "\<forall>h \<in> set (hist @ [g]). wg_epoch h = e \<longrightarrow> wg_hi h < position np' nl'"
    using assms(1) st(1) g(3,4) grant_physical [OF g(1)] by (fastforce simp: node_ok_def leader_ok_def)
  moreover have "value_below t log < np'"
  proof -
    have "position np nl \<le> position np' nl'" using g(3,4) grant_physical [OF g(1)] by linarith
    moreover have "unat nl' < 262144"
      using sp a(1) st(2) by (auto simp: alloc_ok_def word_le_nat_alt)
    ultimately have "unat np \<le> unat np'" by (simp add: position_def)
    with t(5) show ?thesis by (simp add: word_less_nat_alt)
  qed
  ultimately have "leader_ok led i log term (hist @ [g]) (alloc_state (sc_allocator core'))"
    using t st a(2) by (auto simp: leader_ok_def)
  with gok ord t st(3) sp a(2) assms(1) show ?thesis by (auto simp: node_ok_def)
qed

lemma complete_node:
  assumes "node_ok led i log term hist core (Answered r e)" "extend_complete r e core = (x, core')"
  shows "node_ok led i log term hist core' Free"
proof (cases r)
  case (Inl err)
  with assms(2) have "sc_allocator core' = sc_allocator core \<or> alloc_state (sc_allocator core') = NotLeader"
    by (auto simp: extend_complete_def Let_def dest: persist_error_quiet split: prod.splits)
  with assms(1) show ?thesis by (intro node_ok_quiet [OF assms(1)]) simp_all
next
  case (Inr v)
  obtain y where c: "commit_extension v e core = (y, core')"
    using assms(2) Inr by (auto simp: extend_complete_def split: prod.splits sum.splits)
  show ?thesis
  proof (cases "v \<le> PHYSICAL_MS_MAX")
    case True
    let ?a = "sc_allocator core"
    obtain a where a: "alloc_try_commit_window_extension (PhysicalMs v) e ?a = (y, a)" "core' = core\<lparr>sc_allocator := a\<rparr>"
      using c True by (auto simp: commit_extension_def Let_def split: prod.splits)
    have ok: "alloc_ok a" using commit_extension_ok [OF _ _ a(1)] assms(1) True by (simp add: pms_ok_def node_ok_def)
    consider "a = ?a" | hw np nl where "alloc_state ?a = Leader e hw np nl" "alloc_state a = Leader e v np nl"
      using a(1) by (cases "alloc_state ?a") (auto simp: alloc_try_commit_window_extension_def Let_def split: if_splits)
    then show ?thesis
    proof cases
      case 1
      with a(2) assms(1) show ?thesis by (intro node_ok_quiet [OF assms(1)]) simp_all
    next
      case (2 hw np nl)
      with assms(1) a(2) ok Inr show ?thesis by (auto simp: node_ok_def leader_ok_def answer_ok_def)
    qed
  next
    case False
    with c have "sc_allocator core' = sc_allocator core" by (auto simp: commit_extension_def)
    with assms(1) show ?thesis by (intro node_ok_quiet [OF assms(1)]) simp_all
  qed
qed

lemma node_ok_moves:
  assumes "node_ok led i (rn_log s) (rn_term s) hist core sl" "extends s s'"
    and "sc_allocator core' = sc_allocator core \<or> alloc_state (sc_allocator core') = NotLeader"
    and "answer_ok (rn_log s') sl'"
  shows "node_ok led i (rn_log s') (rn_term s') hist core' sl'"
proof -
  from assms(2) obtain new where "rn_log s' = rn_log s @ new" "rn_term s \<le> rn_term s'"
      "list_all (\<lambda>e. rn_term s \<le> entry_term e) new"
    by (auto simp: extends_def)
  with node_ok_extend [OF assms(1)] have "node_ok led i (rn_log s') (rn_term s') hist core sl" by simp
  then show ?thesis using assms(3,4) by (rule node_ok_quiet)
qed

lemma fence_takes_over:
  assumes g: "list_all (grant_ok (rn_log s) (rn_term s)) hist"
    and x: "extends s s1" "extends s1 s3" "t \<le> rn_term s1" "led t = i"
    and v: "unat (log_value (rn_log s1)) < unat fl" "fl \<le> ac" "ac \<le> PHYSICAL_MS_MAX" "ac = log_value (rn_log s3)"
    and l: "rn_log s3 \<noteq> []" "entry_term (last (rn_log s3)) = t" "rn_term s3 = t"
    and a: "alloc_state (sc_allocator core) = Leader (epoch_of t) ac fl 0"
  shows "node_ok led i (rn_log s3) (rn_term s3) hist core Free"
proof -
  obtain new where n1: "rn_log s1 = rn_log s @ new" using x(1) by (auto simp: extends_def)
  obtain nw where n3: "rn_log s3 = rn_log s1 @ nw" "list_all (\<lambda>e. rn_term s1 \<le> entry_term e) nw"
    using x(2) by (auto simp: extends_def)
  have "log_ok (rn_log s3) (rn_term s3)" using extends_ok [OF x(2)] by (simp add: rn_ok_def)
  then have "value_upto t (rn_log s3) = log_value (rn_log s3)"
    using l(3) by (intro value_upto_all) (auto simp: log_ok_def list_all_iff)
  moreover have "value_below t (rn_log s3) < fl"
  proof -
    have "list_all (\<lambda>e. t \<le> entry_term e) nw" using n3(2) x(3) by (auto simp: list_all_iff intro: order_trans)
    then have "value_below t (rn_log s3) = value_below t (rn_log s1)" by (simp add: n3(1) value_below_append)
    with value_below_le [of t "rn_log s1"] v(1) show ?thesis by (simp add: word_less_nat_alt word_le_nat_alt)
  qed
  moreover have "wg_hi h < position fl 0" if h: "h \<in> set hist" "wg_epoch h = epoch_of t" for h
  proof -
    from g h have "wg_ok h" "wg_physical_ms h \<le> value_upto t (rn_log s)" by (auto simp: grant_ok_def list_all_iff)
    moreover have "value_upto t (rn_log s) \<le> log_value (rn_log s1)"
      unfolding value_upto_def n1 by (intro log_value_mono) auto
    ultimately have "unat (wg_physical_ms h) < unat fl" using v(1) by (simp add: word_le_nat_alt)
    with grant_physical [OF \<open>wg_ok h\<close>] position_less [of "wg_physical_ms h" fl 0] show ?thesis
      by (simp add: position_def)
  qed
  moreover have "alloc_ok (sc_allocator core)"
    using a v(2,3) unat_succ_in_range [OF v(3)] by (auto simp: alloc_ok_def word_le_nat_alt word_unat_eq_iff)
  ultimately show ?thesis
    using a x(4) l(3) v(4) by (auto simp: node_ok_def leader_ok_def)
qed

lemma fence_node:
  assumes n: "node_ok led i (rn_log (sv_driver sv)) (rn_term (sv_driver sv)) hist (sv_core sv) Free"
    and h: "list_all (grant_ok (rn_log (sv_driver sv)) (rn_term (sv_driver sv))) hist"
    and s: "rn_ok (sv_driver sv)" and f: "fence_attempt cfg (log_driver led i) now e sv = (r, sv')"
    and nl: "\<not> alloc_is_leader (sc_allocator (sv_core sv))"
    and rf: "rightful led i (rn_replies (sv_driver sv)) (sv, Free) (sv', Free)" and st: "same_term (sv, Free) (sv', Free)"
  shows "extends (sv_driver sv) (sv_driver sv')
     \<and> node_ok led i (rn_log (sv_driver sv')) (rn_term (sv_driver sv')) hist (sv_core sv') Free"
proof -
  let ?d = "log_driver led i" and ?s = "sv_driver sv"
  have keep: ?thesis if "extends ?s s1" "sv_driver sv' = s1" "sc_allocator (sv_core sv') = sc_allocator (sv_core sv)" for s1
    using that node_ok_moves [OF n that(1), of "sv_core sv'" Free] by simp
  obtain r1 s1 where l: "drv_load_high_water ?d ?s = (r1, s1)" by fastforce
  note e1 = driver_load [OF s l]
  obtain r2 s2 where ll: "drv_load_leases ?d s1 = (r2, s2)" by fastforce
  have x1: "extends ?s s1" "rn_ok s1" using e1 extends_ok by auto
  have e2: "extends s1 s2" by (rule driver_load_leases [OF x1(2) ll])
  have x2: "extends ?s s2" "rn_ok s2" using extends_trans [OF x1(1) e2] extends_ok by auto
  show ?thesis
  proof (cases "\<exists>pm rs. r1 = Inr pm \<and> (case r2 of Inl LeasesUnsupported \<Rightarrow> Inr [] | _ \<Rightarrow> r2) = Inr rs")
    case False
    then have "sv' = sv\<lparr>sv_driver := s1\<rparr> \<or> sv' = sv\<lparr>sv_driver := s2\<rparr>"
      using f l ll by (auto simp: fence_attempt_def Let_def split: sum.splits)
    then show ?thesis using keep x1(1) x2(1) by auto
  next
    case True
    then obtain pm rs where pm: "r1 = Inr pm" "(case r2 of Inl LeasesUnsupported \<Rightarrow> Inr [] | _ \<Rightarrow> r2) = Inr rs" by blast
    let ?fl = "fence_serving_floor pm now"
    obtain r3 s3 where ps: "drv_persist_high_water ?d (fence_requested cfg ?fl) e s2 = (r3, s3)" by fastforce
    note e3 = driver_persist [OF x2(2) ps]
    have x3: "extends ?s s3" using extends_trans [OF x2(1)] e3 by auto
    show ?thesis
    proof (cases r3)
      case (Inl err)
      then have "sv' = sv\<lparr>sv_driver := s3\<rparr>" using f l ll pm ps by (simp add: fence_attempt_def Let_def)
      with keep [OF x3] show ?thesis by simp
    next
      case (Inr ac)
      obtain c' where sd: "fence_seed ?fl ac e rs now (sv_core sv) = (r, c')" and sv': "sv' = \<lparr>sv_core = c', sv_driver = s3\<rparr>"
        using f l ll pm ps Inr by (auto simp: fence_attempt_def Let_def split: prod.splits)
      show ?thesis
      proof (cases r)
        case (Inl x)
        with fence_seed_core [OF sd] have "sc_allocator c' = sc_allocator (sv_core sv)" by simp
        with keep [OF x3] sv' show ?thesis by simp
      next
        case (Inr x)
        with fence_seed_core [OF sd]
        have al: "?fl \<le> ac" "ac \<le> PHYSICAL_MS_MAX" "alloc_state (sc_allocator c') = Leader e ac ?fl 0" by simp_all
        then have to: "took_over (sv_core sv) c' = Some e" using nl by (simp add: took_over_def alloc_epoch_def)
        from rf to sv' obtain t where t: "e = epoch_of t" "led t = i" "list_all (\<lambda>r. t \<le> reply_term r) (rn_replies ?s)"
          by (auto simp: rightful_def)
        have lt: "entry_term (last (rn_log s3)) = t"
          using st to sv' t(1) by (auto simp: same_term_def Let_def)
        have "log_ok (rn_log s1) (rn_term s1)" using x1(2) by (simp add: rn_ok_def)
        then have "list_all entry_in_range (rn_log s1)" by (auto simp: log_ok_def list_all_iff)
        then have pmv: "pm = log_value (rn_log s1)" "pm \<le> PHYSICAL_MS_MAX" using e1 pm(1) log_value_in_range by auto
        have t1: "t \<le> rn_term s1" using e1 pm(1) t(3) by (auto simp: list_all_iff)
        have fl: "unat (log_value (rn_log s1)) < unat ?fl"
          using pmv by (auto simp: fence_serving_floor_def to_nat)
        have x13: "extends s1 s3" using extends_trans [OF e2] e3 by blast
        have ac: "ac = log_value (rn_log s3)" "rn_log s3 \<noteq> []" "rn_term s3 = t"
          using e3 lt by (simp_all add: \<open>r3 = Inr ac\<close>)
        have "node_ok led i (rn_log s3) (rn_term s3) hist c' Free"
          by (rule fence_takes_over [where led = led, OF h x1(1) x13 t1 t(2) fl al(1,2) ac(1,2) lt ac(3) al(3) [unfolded t(1)]])
        with x3 sv' show ?thesis by simp
      qed
    qed
  qed
qed

definition step_ok :: "(u64 \<Rightarrow> u64) \<Rightarrow> u64 \<Rightarrow> window_grant list \<Rightarrow> raft_node il_state \<Rightarrow> window_grant list \<Rightarrow> raft_node il_state \<Rightarrow> bool" where
  "step_ok led i hist st gs st' \<longleftrightarrow>
     (let s = sv_driver (fst st); s' = sv_driver (fst st')
      in extends s s' \<and> node_ok led i (rn_log s') (rn_term s') (hist @ gs) (sv_core (fst st')) (snd st')
       \<and> length gs \<le> 1 \<and> (\<forall>g \<in> set gs. grant_ok (rn_log s') (rn_term s') g \<and> (\<forall>h \<in> set hist. epoch_order h g)
            \<and> (\<exists>t. wg_epoch g = epoch_of t \<and> led t = i)))"

lemma step_ok_quiet:
  assumes "node_ok led i (rn_log (sv_driver sv)) (rn_term (sv_driver sv)) hist (sv_core sv) sl"
    and "extends (sv_driver sv) (sv_driver sv')"
    and "sc_allocator (sv_core sv') = sc_allocator (sv_core sv) \<or> alloc_state (sc_allocator (sv_core sv')) = NotLeader"
    and "answer_ok (rn_log (sv_driver sv')) sl'"
  shows "step_ok led i hist (sv, sl) [] (sv', sl')"
  using node_ok_moves [OF assms] assms(2) by (simp add: step_ok_def)

lemma answer_ok_extends: "extends s s' \<Longrightarrow> answer_ok (rn_log s) sl \<Longrightarrow> answer_ok (rn_log s') sl"
  using answer_ok_extend by (auto simp: extends_def)

lemma il_step_ok:
  assumes step: "il_step cfg (log_driver led i) st gs st'"
    and n: "node_ok led i (rn_log (sv_driver (fst st))) (rn_term (sv_driver (fst st))) hist (sv_core (fst st)) (snd st)"
    and h: "list_all (grant_ok (rn_log (sv_driver (fst st))) (rn_term (sv_driver (fst st)))) hist"
    and s: "rn_ok (sv_driver (fst st))"
    and rf: "rightful led i (rn_replies (sv_driver (fst st))) st st'" and tm: "same_term st st'"
  shows "step_ok led i hist st gs st'"
  using step
proof cases
  case (grant now count sv g c' sl)
  with grant_node [of led i _ _ hist "sv_core sv" sl now count g c'] n h s show ?thesis
    by (simp add: step_ok_def extends_refl)
next
  case (refuse now count sv e c' sl)
  then have "c' = sv_core sv"
    by (auto simp: sc_try_grant_def Let_def dest: try_grant_error_unchanged split: prod.splits)
  with refuse n s show ?thesis by (auto intro!: step_ok_quiet simp: extends_refl node_ok_def)
next
  case (persist q e sv r s1)
  have d: "extends (sv_driver sv) s1 \<and> (\<forall>v. r = Inr v \<longrightarrow> v = log_value (rn_log s1) \<and> rn_log s1 \<noteq> []
      \<and> entry_term (last (rn_log s1)) = rn_term s1)"
    using driver_persist [OF _ persist(4)] s persist(1) by simp
  have "answer_ok (rn_log s1) (Answered r e)"
  proof (cases r)
    case (Inr v)
    with d have v: "v = log_value (rn_log s1)" "rn_term s1 = entry_term (last (rn_log s1))" by simp_all
    have e: "e = epoch_of (rn_term s1)" using tm persist(1,3) Inr v(2) by (auto simp: same_term_def Let_def)
    have "rn_ok s1" using d extends_ok by blast
    then have "value_upto (rn_term s1) (rn_log s1) = log_value (rn_log s1)"
      by (intro value_upto_all) (auto simp: rn_ok_def log_ok_def list_all_iff)
    with v(1) e Inr show ?thesis by (auto simp: answer_ok_def)
  qed simp
  with persist n d show ?thesis by (auto intro!: step_ok_quiet)
next
  case (complete r e sv x c')
  with complete_node [of led i _ _ hist "sv_core sv" r e x c'] n s show ?thesis
    by (simp add: step_ok_def extends_refl)
next
  case (persist_leases rs e sv r s1 m now)
  with driver_persist_leases [of "sv_driver sv" led i rs e] n s show ?thesis by (auto intro!: step_ok_quiet)
next
  case (complete_leases sv m e now r)
  with lease_complete_quiet [of m e now r "sv_core sv"] n s show ?thesis
    by (auto intro!: step_ok_quiet simp: extends_refl)
next
  case (dense sv sl key count)
  have x: "extends (sv_driver sv) (sv_driver (snd (get_seq (log_driver led i) key count sv)))"
      "sv_core (snd (get_seq (log_driver led i) key count sv)) = sv_core sv"
    using get_seq_frame [of "log_driver led i" key count sv] driver_advance_dense [of "sv_driver sv"] s dense(1)
    by (auto simp: extends_refl)
  with dense n show ?thesis
    by (auto intro!: step_ok_quiet intro: answer_ok_extends [OF x(1)] simp: node_ok_def)
next
  case (dense_batch sv sl es)
  have x: "extends (sv_driver sv) (sv_driver (snd (get_seq_batch (log_driver led i) es sv)))"
      "sv_core (snd (get_seq_batch (log_driver led i) es sv)) = sv_core sv"
    using get_seq_batch_frame [of "log_driver led i" es sv] driver_advance_dense_batch [of "sv_driver sv"] s dense_batch(1)
    by (auto simp: extends_refl)
  with dense_batch n show ?thesis
    by (auto intro!: step_ok_quiet intro: answer_ok_extends [OF x(1)] simp: node_ok_def)
next
  case (fence sv now e r sv')
  with fence_node [of led i sv hist cfg now e r sv'] n h s rf tm show ?thesis by (simp add: step_ok_def)
qed (use n s in \<open>auto intro!: step_ok_quiet simp: extends_refl node_ok_def sc_step_down_def alloc_step_down_def publish_not_serving_def\<close>)

section \<open>The cluster's steps\<close>

lemma other_node_ok:
  assumes "node_ok led j log term hist core sl" "j \<noteq> i"
    and "\<forall>g \<in> set gs. \<exists>t. wg_epoch g = epoch_of t \<and> led t = i"
  shows "node_ok led j log term (hist @ gs) core sl"
  using assms by (fastforce simp: node_ok_def leader_ok_def split: alloc_state.splits)

lemma cl_step_inv:
  assumes "cl_step led True cfg c gs c'" "cl_inv led hist c"
  shows "cl_inv led (hist @ gs) c'"
  using assms(1)
proof cases
  case (node i rs st)
  let ?v = "node_view rs i c"
  have drv: "rn_log (sv_driver (fst ?v)) = cl_log c" "rn_term (sv_driver (fst ?v)) = cl_term c"
      "rn_replies (sv_driver (fst ?v)) = rs" "rn_ok (sv_driver (fst ?v))"
    using assms(2) by (auto simp: node_view_def Let_def cl_inv_def rn_ok_def)
  have "step_ok led i hist ?v gs st"
    by (rule il_step_ok [OF node(2)])
      (use node(3,4) drv assms(2) in \<open>auto simp: node_view_def Let_def cl_inv_def\<close>)
  then have ok: "extends (sv_driver (fst ?v)) (sv_driver (fst st))"
      "node_ok led i (rn_log (sv_driver (fst st))) (rn_term (sv_driver (fst st))) (hist @ gs) (sv_core (fst st)) (snd st)"
      "length gs \<le> 1" "\<forall>g \<in> set gs. grant_ok (rn_log (sv_driver (fst st))) (rn_term (sv_driver (fst st))) g
          \<and> (\<forall>h \<in> set hist. epoch_order h g) \<and> (\<exists>t. wg_epoch g = epoch_of t \<and> led t = i)"
    by (auto simp: step_ok_def Let_def)
  from ok(1) drv obtain new where nw: "rn_log (sv_driver (fst st)) = cl_log c @ new" "cl_term c \<le> rn_term (sv_driver (fst st))"
      "list_all (\<lambda>e. cl_term c \<le> entry_term e) new" "rn_ok (sv_driver (fst st))"
    by (auto simp: extends_def)
  have "node_ok led j (cl_log c @ new) (rn_term (sv_driver (fst st))) (hist @ gs) (cn_core (cl_nodes c j)) (cn_slot (cl_nodes c j))
      \<and> replica_ok (cl_log c @ new) (cn_applied (cl_nodes c j)) (cn_sm (cl_nodes c j))" if j: "j \<noteq> i" for j
  proof -
    from assms(2) have "node_ok led j (cl_log c) (cl_term c) hist (cn_core (cl_nodes c j)) (cn_slot (cl_nodes c j))"
        "replica_ok (cl_log c) (cn_applied (cl_nodes c j)) (cn_sm (cl_nodes c j))" by (simp_all add: cl_inv_def)
    with node_ok_extend [OF this(1) nw(2,3)] replica_ok_extend other_node_ok [OF _ j] ok(4) show ?thesis by blast
  qed
  moreover have "list_all (grant_ok (cl_log c @ new) (rn_term (sv_driver (fst st)))) (hist @ gs)"
    using assms(2) ok(4) nw grant_ok_extend by (auto simp: cl_inv_def list_all_iff)
  moreover have "sorted_wrt epoch_order (hist @ gs)"
    using assms(2) ok(3,4) by (auto simp: cl_inv_def sorted_wrt_append sorted_wrt_short)
  ultimately show ?thesis
    using nw ok(2) node(1) by (auto simp: cl_inv_def put_node_def Let_def rn_ok_def)
next
  case (committed es t)
  then have "list_all (\<lambda>e. cl_term c \<le> entry_term e) es" "cl_term c \<le> t" by (auto simp: lawful_entries_def list_all_iff)
  with committed assms(2) show ?thesis
    by (auto simp: cl_inv_def list_all_iff lawful_log_ok replica_ok_extend
        intro: node_ok_extend grant_ok_extend [of "cl_log c" "cl_term c", unfolded list_all_iff])
next
  case (replica n sm i)
  with assms(2) show ?thesis by (auto simp: cl_inv_def)
next
  case (metrics i m)
  with assms(2) show ?thesis by (auto simp: cl_inv_def)
next
  case (restart i w a b)
  with assms(2) show ?thesis
    by (auto simp: cl_inv_def node_ok_def leader_ok_def sc_new_def alloc_new_def alloc_ok_def)
qed

lemma cl_run_inv: "cl_run led True cfg c gs c' \<Longrightarrow> cl_inv led [] c \<Longrightarrow> cl_inv led gs c'"
  by (induction rule: cl_run.induct) (auto dest: cl_step_inv)

lemma cl_init_inv: "cl_inv led [] (cl_init w a b m)"
  by (simp add: cl_inv_def cl_init_def log_ok_def replica_ok_def sm_new_def node_ok_def leader_ok_def sc_new_def alloc_new_def alloc_ok_def)

end
