(* ===== verification/Cluster_Order.thy ===== *)
theory Cluster_Order
  imports Cluster
begin

text \<open>
  The order in which a cluster issues timestamps, and a run in which a node loses leadership
  and wins it back before it has noticed.
\<close>

section \<open>A leadership flap\<close>

text \<open>
  Node 1 leads terms 1 and 3, node 2 leads term 2. The steps as functions of the cluster.
\<close>

definition demo_led :: "u64 \<Rightarrow> u64" where "demo_led t = (if t = 2 then 2 else 1)"

definition demo_metrics :: raft_metrics where
  "demo_metrics = \<lparr>rm_id = 0, rm_current_term = 0, rm_state = RoleFollower, rm_current_leader = None, rm_nodes = []\<rparr>"

definition do_fence :: "u64 \<Rightarrow> u64 \<Rightarrow> u64 \<Rightarrow> cluster \<Rightarrow> cluster" where
  "do_fence i now t c =
     put_node i (snd (fence_attempt demo_cfg (log_driver demo_led i) now (epoch_of t)
       (fst (node_view [Barrier [] t, Barrier [] t, Commit [] t] i c))), Free) c"

definition do_grant :: "u64 \<Rightarrow> u64 \<Rightarrow> u32 \<Rightarrow> cluster \<Rightarrow> cluster" where
  "do_grant i now count c =
     put_node i ((fst (node_view [] i c))\<lparr>sv_core := snd (sc_try_grant now count (cn_core (cl_nodes c i)))\<rparr>, cn_slot (cl_nodes c i)) c"

definition do_ask :: "u64 \<Rightarrow> u64 \<Rightarrow> u32 \<Rightarrow> cluster \<Rightarrow> cluster" where
  "do_ask i now count c =
     (case extend_prepare demo_cfg now count (cn_core (cl_nodes c i)) of
        Inr (Some (q, e)) \<Rightarrow> put_node i (fst (node_view [] i c), Asked q e) c | _ \<Rightarrow> c)"

definition do_persist :: "u64 \<Rightarrow> u64 \<Rightarrow> cluster \<Rightarrow> cluster" where
  "do_persist i t c =
     (case cn_slot (cl_nodes c i) of
        Asked q e \<Rightarrow>
          (let sv = fst (node_view [Commit [] t] i c);
               (r, s) = drv_persist_high_water (log_driver demo_led i) q e (sv_driver sv)
           in put_node i (sv\<lparr>sv_driver := s\<rparr>, Answered r e) c)
      | _ \<Rightarrow> c)"

definition do_complete :: "u64 \<Rightarrow> cluster \<Rightarrow> cluster" where
  "do_complete i c =
     (case cn_slot (cl_nodes c i) of
        Answered r e \<Rightarrow> put_node i ((fst (node_view [] i c))\<lparr>sv_core := snd (extend_complete r e (cn_core (cl_nodes c i)))\<rparr>, Free) c
      | _ \<Rightarrow> c)"

lemma node_view_simps:
  "sv_core (fst (node_view rs i c)) = cn_core (cl_nodes c i)" "snd (node_view rs i c) = cn_slot (cl_nodes c i)"
  by (simp_all add: node_view_def Let_def)

lemma node_stepI:
  assumes "cn_slot (cl_nodes c i) = sl" "il_step cfg (log_driver led i) (fst (node_view rs i c), sl) gs st"
    and "rightful led i rs (fst (node_view rs i c), sl) st" "aware \<longrightarrow> same_term (fst (node_view rs i c), sl) st"
    and "c' = put_node i st c"
  shows "cl_step led aware cfg c gs c'"
proof -
  have v: "node_view rs i c = (fst (node_view rs i c), sl)" using assms(1) by (simp add: prod_eq_iff node_view_simps)
  show ?thesis unfolding assms(5) using cl_step.node [of cfg led i rs c gs st aware] assms(2-4) by (metis v)
qed

lemma quiet_takes_nothing:
  assumes "sc_allocator core' = sc_allocator core \<or> alloc_epoch (sc_allocator core') = alloc_epoch (sc_allocator core)"
  shows "took_over core core' = None"
  using assms by (auto simp: took_over_def alloc_is_leader_def alloc_epoch_def split: alloc_state.splits)

lemma do_fence_step:
  assumes "\<not> alloc_is_leader (sc_allocator (cn_core (cl_nodes c i)))" "cn_slot (cl_nodes c i) = Free" "demo_led t = i"
    and "alloc_epoch (sc_allocator (cn_core (cl_nodes (do_fence i now t c) i))) = Some (epoch_of t)"
    and "entry_term (last (cl_log (do_fence i now t c))) = t"
  shows "cl_step demo_led aware demo_cfg c [] (do_fence i now t c)"
proof -
  let ?rs = "[Barrier [] t, Barrier [] t, Commit [] t]"
  let ?sv = "fst (node_view ?rs i c)"
  let ?f = "fence_attempt demo_cfg (log_driver demo_led i) now (epoch_of t) ?sv"
  have "il_step demo_cfg (log_driver demo_led i) (?sv, Free) [] (snd ?f, Free)"
    using assms(1) by (intro il_step.fence [of _ demo_cfg _ now "epoch_of t" "fst ?f"]) (simp_all add: node_view_simps)
  moreover have "cn_core (cl_nodes (do_fence i now t c) i) = sv_core (snd ?f)" "cl_log (do_fence i now t c) = rn_log (sv_driver (snd ?f))"
    by (simp_all add: do_fence_def put_node_def Let_def)
  then have "rightful demo_led i ?rs (?sv, Free) (snd ?f, Free)" "same_term (?sv, Free) (snd ?f, Free)"
    using assms by (auto simp: rightful_def same_term_def took_over_def node_view_simps Let_def)
  ultimately show ?thesis by (intro node_stepI [OF assms(2)]) (auto simp: do_fence_def)
qed

lemma do_grant_step:
  assumes "fst (sc_try_grant now count (cn_core (cl_nodes c i))) = Inr g"
  shows "cl_step led aware cfg c [g] (do_grant i now count c)"
proof -
  let ?sv = "fst (node_view [] i c)" and ?sl = "cn_slot (cl_nodes c i)"
  let ?st = "(?sv\<lparr>sv_core := snd (sc_try_grant now count (cn_core (cl_nodes c i)))\<rparr>, ?sl)"
  have g: "sc_try_grant now count (sv_core ?sv) = (Inr g, snd (sc_try_grant now count (cn_core (cl_nodes c i))))"
    using assms by (simp add: node_view_simps prod_eq_iff)
  have "il_step cfg (log_driver led i) (?sv, ?sl) [g] ?st" by (rule il_step.grant [OF g])
  moreover have "took_over (cn_core (cl_nodes c i)) (sv_core (fst ?st)) = None"
    using assms by (auto simp: took_over_def sc_try_grant_def alloc_try_grant_def alloc_is_leader_def Let_def
        split: prod.splits sum.splits alloc_state.splits if_splits)
  then have "rightful led i [] (?sv, ?sl) ?st" "same_term (?sv, ?sl) ?st"
    by (auto simp: rightful_def same_term_def node_view_simps Let_def)
  ultimately show ?thesis by (intro node_stepI [OF refl]) (auto simp: do_grant_def)
qed

lemma do_ask_step:
  assumes "extend_prepare demo_cfg now count (cn_core (cl_nodes c i)) = Inr (Some (q, e))" "cn_slot (cl_nodes c i) = Free"
  shows "cl_step led aware demo_cfg c [] (do_ask i now count c)"
proof -
  let ?sv = "fst (node_view [] i c)"
  have "il_step demo_cfg (log_driver led i) (?sv, Free) [] (?sv, Asked q e)"
    using assms(1) by (intro il_step.ask_window) (simp add: node_view_simps)
  moreover have "rightful led i [] (?sv, Free) (?sv, Asked q e)" "same_term (?sv, Free) (?sv, Asked q e)"
    by (auto simp: rightful_def same_term_def quiet_takes_nothing Let_def)
  ultimately show ?thesis by (intro node_stepI [OF assms(2)]) (auto simp: do_ask_def assms(1))
qed

text \<open>The step that the awareness hypothesis excludes when the terms differ.\<close>

lemma do_persist_step:
  assumes "cn_slot (cl_nodes c i) = Asked q e"
  shows "cl_step demo_led False demo_cfg c [] (do_persist i t c)"
proof -
  let ?sv = "fst (node_view [Commit [] t] i c)"
  let ?p = "drv_persist_high_water (log_driver demo_led i) q e (sv_driver ?sv)"
  let ?st = "(?sv\<lparr>sv_driver := snd ?p\<rparr>, Answered (fst ?p) e)"
  have "il_step demo_cfg (log_driver demo_led i) (?sv, Asked q e) [] ?st" by (intro il_step.persist) simp
  moreover have "rightful demo_led i [Commit [] t] (?sv, Asked q e) ?st" by (auto simp: rightful_def quiet_takes_nothing)
  ultimately show ?thesis
    by (intro node_stepI [OF assms]) (auto simp: do_persist_def Let_def split_beta assms)
qed

lemma do_complete_step:
  assumes "cn_slot (cl_nodes c i) = Answered (Inr v) e"
  shows "cl_step led aware demo_cfg c [] (do_complete i c)"
proof -
  let ?sv = "fst (node_view [] i c)" and ?sl = "Answered (Inr v) e"
  let ?x = "extend_complete (Inr v) e (cn_core (cl_nodes c i))"
  let ?st = "(?sv\<lparr>sv_core := snd ?x\<rparr>, Free)"
  have "il_step demo_cfg (log_driver led i) (?sv, ?sl) [] ?st"
    by (rule il_step.complete [of _ _ _ "fst ?x"]) (simp add: node_view_simps)
  moreover have "took_over (cn_core (cl_nodes c i)) (snd ?x) = None"
    by (intro quiet_takes_nothing)
      (auto simp: extend_complete_def commit_extension_def alloc_try_commit_window_extension_def alloc_epoch_def Let_def
        split: prod.splits sum.splits alloc_state.splits if_splits)
  then have "rightful led i [] (?sv, ?sl) ?st" "same_term (?sv, ?sl) ?st"
    by (auto simp: rightful_def same_term_def node_view_simps Let_def)
  ultimately show ?thesis by (intro node_stepI [OF assms]) (auto simp: do_complete_def assms)
qed

definition flap_c1 :: cluster where "flap_c1 = do_fence 1 100 1 (cl_init 0 10 10 demo_metrics)"
definition flap_c2 :: cluster where "flap_c2 = do_fence 2 100 2 flap_c1"
definition flap_c3 :: cluster where "flap_c3 = do_grant 2 101 5 flap_c2"
definition flap_c4 :: cluster where "flap_c4 = do_ask 1 101 5 flap_c3"
definition flap_c5 :: cluster where "flap_c5 = do_persist 1 3 flap_c4"
definition flap_c6 :: cluster where "flap_c6 = do_complete 1 flap_c5"
definition flap_c7 :: cluster where "flap_c7 = do_grant 1 101 5 flap_c6"

definition flap_grant :: "u64 \<Rightarrow> window_grant" where
  "flap_grant t = \<lparr>wg_physical_ms = 101, wg_logical_start = 0, wg_count = 5, wg_epoch = epoch_of t\<rparr>"

lemma flap_takeovers:
  "cl_step demo_led aware demo_cfg (cl_init 0 10 10 demo_metrics) [] flap_c1"
  "cl_step demo_led aware demo_cfg flap_c1 [] flap_c2"
proof -
  show "cl_step demo_led aware demo_cfg (cl_init 0 10 10 demo_metrics) [] flap_c1"
    unfolding flap_c1_def by (rule do_fence_step; code_simp)
  show "cl_step demo_led aware demo_cfg flap_c1 [] flap_c2"
    unfolding flap_c2_def by (rule do_fence_step; code_simp)
qed

lemma flap_serves: "cl_step demo_led aware demo_cfg flap_c2 [flap_grant 2] flap_c3"
  unfolding flap_c3_def by (rule do_grant_step) code_simp

lemma flap_regains:
  "cl_step demo_led False demo_cfg flap_c3 [] flap_c4" "cl_step demo_led False demo_cfg flap_c4 [] flap_c5"
  "cl_step demo_led False demo_cfg flap_c5 [] flap_c6" "cl_step demo_led False demo_cfg flap_c6 [flap_grant 1] flap_c7"
proof -
  show "cl_step demo_led False demo_cfg flap_c3 [] flap_c4"
    unfolding flap_c4_def by (rule do_ask_step [of _ _ _ _ 101 "epoch_of 1"]; code_simp)
  show "cl_step demo_led False demo_cfg flap_c4 [] flap_c5"
    unfolding flap_c5_def by (rule do_persist_step [of _ _ 101 "epoch_of 1"]; code_simp)
  show "cl_step demo_led False demo_cfg flap_c5 [] flap_c6"
    unfolding flap_c6_def by (rule do_complete_step [of _ _ 101 "epoch_of 1"]; code_simp)
  show "cl_step demo_led False demo_cfg flap_c6 [flap_grant 1] flap_c7"
    unfolding flap_c7_def by (rule do_grant_step; code_simp)
qed

lemma flap_start: "cl_run demo_led aware demo_cfg (cl_init 0 10 10 demo_metrics) [flap_grant 2] flap_c3"
  using cl_run.cl_next [OF cl_run.cl_next [OF cl_run.cl_next [OF cl_run.cl_start flap_takeovers(1)] flap_takeovers(2)] flap_serves]
  by simp

section \<open>The order of timestamps across the cluster\<close>

text \<open>
  C3. Whatever nodes take over, are deposed, serve on without noticing, crash and come back,
  and however their extensions and takeovers interleave: any two grants of the cluster are
  ordered by epoch, and grants of one epoch by the time of issue, every timestamp of the
  first being below every timestamp of the second; in particular no timestamp is issued
  twice. The hypothesis \<open>aware\<close> is that an advance acknowledged under an epoch was committed
  in that epoch's term.
\<close>

theorem cluster_timestamps_ordered:
  assumes "cl_run led True cfg (cl_init w a b m) gs c"
  shows "sorted_wrt (\<lambda>g h. if wg_epoch g \<le> wg_epoch h then grant_before g h else grant_before h g) gs"
proof -
  have inv: "cl_inv led gs c" by (rule cl_run_inv [OF assms cl_init_inv])
  then have ok: "\<forall>g \<in> set gs. wg_ok g" by (auto simp: cl_inv_def list_all_iff grant_ok_def)
  from inv have "sorted_wrt epoch_order gs" by (simp add: cl_inv_def)
  then show ?thesis
    by (rule sorted_wrt_mono_rel [rotated]) (use ok in \<open>auto simp: epoch_order_def intro!: grant_beforeI split: if_splits\<close>)
qed

definition late_grant :: window_grant where
  "late_grant = \<lparr>wg_physical_ms = 100, wg_logical_start = 0, wg_count = 5, wg_epoch = epoch_of 1\<rparr>"

theorem cluster_timestamps_ordered_witness:
  "\<exists>c. cl_run demo_led True demo_cfg (cl_init 0 10 10 demo_metrics) [flap_grant 2, late_grant] c
     \<and> grant_before late_grant (flap_grant 2)"
proof -
  have "cl_step demo_led True demo_cfg flap_c3 [late_grant] (do_grant 1 100 5 flap_c3)"
    by (rule do_grant_step; code_simp)
  from cl_run.cl_next [OF flap_start this]
  have run: "cl_run demo_led True demo_cfg (cl_init 0 10 10 demo_metrics) [flap_grant 2, late_grant] (do_grant 1 100 5 flap_c3)"
    by simp
  have "\<not> wg_epoch (flap_grant 2) \<le> wg_epoch late_grant" by code_simp
  with cluster_timestamps_ordered [OF run] have "grant_before late_grant (flap_grant 2)" by auto
  with run show ?thesis by blast
qed

text \<open>
  C5. The openraft driver does not establish that hypothesis by itself. Node 1 leads term 1,
  node 2 takes over in term 2 and issues timestamps, node 1 wins term 3 back before its
  leader watch has run; a window extension it asks for under epoch 1 is then committed in
  term 3 and acknowledged with a high-water mark that covers node 2's window, and node 1
  issues the very timestamps node 2 has issued.
\<close>

theorem flap_issues_twice:
  "\<exists>c. cl_run demo_led False demo_cfg (cl_init 0 10 10 demo_metrics) [flap_grant 2, flap_grant 1] c
     \<and> wg_lo (flap_grant 2) = wg_lo (flap_grant 1)"
proof -
  from cl_run.cl_next [OF cl_run.cl_next [OF cl_run.cl_next [OF cl_run.cl_next
        [OF flap_start flap_regains(1)] flap_regains(2)] flap_regains(3)] flap_regains(4)]
  have "cl_run demo_led False demo_cfg (cl_init 0 10 10 demo_metrics) [flap_grant 2, flap_grant 1] flap_c7" by simp
  then show ?thesis by (auto simp: flap_grant_def wg_lo_def)
qed

end
