(* ===== verification/Client_Driver.thy ===== *)
theory Client_Driver
  imports Service
begin

text \<open>
  The client's request coalescing: the errors of the client (\<open>error.rs\<close>), the decoding of a
  timestamp response (\<open>response.rs\<close>) and the driver task (\<open>driver.rs\<close>), which gathers
  concurrent callers into one request, splits it at the protocol's limit and hands every
  caller its slice of the answer. A caller's one-shot channel is an identifier; a reply that
  nobody waits for any more is sent all the same. Texts of messages are left out.
\<close>

section \<open>Errors\<close>

datatype leader_hint_lookup = HintAbsent | HintDecoded leader_hint | HintMalformed

record wire_status =
  ws_code :: status_code
  ws_hint :: leader_hint_lookup

text \<open>What a client decodes from a status the server has built.\<close>

definition on_wire :: "status \<Rightarrow> wire_status" where
  "on_wire st = \<lparr>ws_code = st_code st,
     ws_hint = (case st_hint st of None \<Rightarrow> HintAbsent | Some h \<Rightarrow> HintDecoded h)\<rparr>"

definition local_status :: "status_code \<Rightarrow> wire_status" where
  "local_status c = \<lparr>ws_code = c, ws_hint = HintAbsent\<rparr>"

datatype client_error =
    NoReachableEndpoints
  | Transport
  | TransportFanout
  | Rpc wire_status
  | InvalidEndpoint str
  | ClientInvalidCount u32
  | Connector
  | DriverGone
  | SeqUncertain
  | InvalidSeqKey

fun clone_client_error :: "client_error \<Rightarrow> client_error" where
  "clone_client_error (Rpc st) = Rpc \<lparr>ws_code = ws_code st, ws_hint = ws_hint st\<rparr>"
| "clone_client_error Transport = TransportFanout"
| "clone_client_error TransportFanout = TransportFanout"
| "clone_client_error NoReachableEndpoints = NoReachableEndpoints"
| "clone_client_error (InvalidEndpoint ep) = InvalidEndpoint ep"
| "clone_client_error (ClientInvalidCount n) = ClientInvalidCount n"
| "clone_client_error Connector = Connector"
| "clone_client_error DriverGone = DriverGone"
| "clone_client_error SeqUncertain = SeqUncertain"
| "clone_client_error InvalidSeqKey = InvalidSeqKey"

section \<open>Responses\<close>

definition MAX_TIMESTAMPS_PER_RPC :: u32 where "MAX_TIMESTAMPS_PER_RPC = LOGICAL_MAX + 1"

record timestamp_range =
  tr_physical_ms :: u64
  tr_logical_start :: u32
  tr_count :: u32

text \<open>The lazy iterator over a range; an element that is \<open>None\<close> panics when it is drawn.\<close>

definition range_iter :: "timestamp_range \<Rightarrow> timestamp option list" where
  "range_iter r =
     map (\<lambda>i. pack (tr_physical_ms r) (tr_logical_start r + of_nat i)) [0 ..< unat (tr_count r)]"

definition decode_get_ts_response :: "get_ts_response \<Rightarrow> u32 \<Rightarrow> (client_error, timestamp_range) result" where
  "decode_get_ts_response resp requested =
     (if gr_count resp \<noteq> requested then Inl (Rpc (local_status Internal))
      else if gr_count resp = 0 \<or> gr_count resp > MAX_TIMESTAMPS_PER_RPC then Inl (Rpc (local_status Internal))
      else case checked_add (gr_logical_start resp) (saturating_sub (gr_count resp) 1) of
        None \<Rightarrow> Inl (Rpc (local_status Internal))
      | Some l \<Rightarrow>
          if \<not> l \<le> LOGICAL_MAX then Inl (Rpc (local_status Internal))
          else case try_pack (gr_physical_ms resp) (gr_logical_start resp) of
            Inl _ \<Rightarrow> Inl (Rpc (local_status Internal))
          | Inr _ \<Rightarrow> Inr \<lparr>tr_physical_ms = gr_physical_ms resp, tr_logical_start = gr_logical_start resp,
              tr_count = gr_count resp\<rparr>)"

section \<open>Waiters and chunks\<close>

definition QUEUE_CAPACITY :: nat where "QUEUE_CAPACITY = 4096"

record waiter =
  w_id :: nat
  w_count :: u32

type_synonym reply = "(client_error, timestamp list) result"

text \<open>
  \<open>chunk_queue\<close>: a waiter whose count can never be served is refused at once, the others are
  grouped, in order, into chunks within the limit of one request.
\<close>

fun chunk_loop ::
  "waiter list \<Rightarrow> (u32 \<times> waiter list) list \<Rightarrow> waiter list \<Rightarrow> u32
     \<Rightarrow> (waiter \<times> reply) list \<times> (u32 \<times> waiter list) list" where
  "chunk_loop [] chunks current tot = ([], if current \<noteq> [] then chunks @ [(tot, current)] else chunks)"
| "chunk_loop (w # q) chunks current tot =
     (if w_count w = 0 \<or> w_count w > MAX_TIMESTAMPS_PER_RPC then
        (let (rs, cs) = chunk_loop q chunks current tot in ((w, Inl (ClientInvalidCount (w_count w))) # rs, cs))
      else if (case checked_add tot (w_count w) of None \<Rightarrow> False | Some s \<Rightarrow> s \<le> MAX_TIMESTAMPS_PER_RPC)
      then chunk_loop q chunks (current @ [w]) (tot + w_count w)
      else chunk_loop q (if current \<noteq> [] then chunks @ [(tot, current)] else chunks) [w] (0 + w_count w))"

definition chunk_queue :: "waiter list \<Rightarrow> (waiter \<times> reply) list \<times> (u32 \<times> waiter list) list" where
  "chunk_queue queue = chunk_loop queue [] [] 0"

text \<open>
  \<open>deliver\<close>: every waiter draws its count from the iterator. A panic while drawing drops the
  senders of the waiters left over, whose callers then see \<open>DriverGone\<close>; the flag says that
  the batch task is dead.
\<close>

definition dropped :: "waiter list \<Rightarrow> (waiter \<times> reply) list" where
  "dropped ws = map (\<lambda>w. (w, Inl DriverGone)) ws"

fun deliver_slices :: "timestamp option list \<Rightarrow> waiter list \<Rightarrow> (waiter \<times> reply) list \<times> bool" where
  "deliver_slices it [] = ([], False)"
| "deliver_slices it (w # ws) =
     (case those (take (unat (w_count w)) it) of
        None \<Rightarrow> (dropped (w # ws), True)
      | Some ts \<Rightarrow>
          (let (rs, dead) = deliver_slices (drop (unat (w_count w)) it) ws in ((w, Inr ts) # rs, dead)))"

definition deliver ::
  "waiter list \<Rightarrow> (client_error, timestamp_range) result \<Rightarrow> u32 \<Rightarrow> (waiter \<times> reply) list \<times> bool" where
  "deliver waiters result expected =
     (case result of
        Inr rng \<Rightarrow>
          if tr_count rng \<noteq> expected
          then (map (\<lambda>w. (w, Inl (Rpc (local_status Internal)))) waiters, False)
          else deliver_slices (range_iter rng) waiters
      | Inl e \<Rightarrow> (map (\<lambda>w. (w, Inl (clone_client_error e))) waiters, False))"

section \<open>The driver task\<close>

text \<open>The batch task between two awaits: the chunks it has left and whether the first one's request is out.\<close>

record batch =
  ba_chunks :: "(u32 \<times> waiter list) list"
  ba_failed :: "client_error option"
  ba_sent :: bool

record driver_state =
  dv_chan :: "waiter list"
  dv_queue :: "waiter list"
  dv_first_arrival :: "nat option"
  dv_in_flight :: "batch option"

definition dv_init :: driver_state where
  "dv_init = \<lparr>dv_chan = [], dv_queue = [], dv_first_arrival = None, dv_in_flight = None\<rparr>"

datatype driver_event =
    Asked waiter
  | RpcSent u32
  | RpcAnswered "(client_error, timestamp_range) result"
  | Replied waiter reply

definition dv_enqueue :: "nat \<Rightarrow> waiter \<Rightarrow> driver_state \<Rightarrow> driver_state" where
  "dv_enqueue now w s = s\<lparr>dv_first_arrival := (case dv_first_arrival s of None \<Rightarrow> Some now | Some t \<Rightarrow> Some t),
     dv_queue := dv_queue s @ [w]\<rparr>"

definition flush_queue :: "driver_state \<Rightarrow> (waiter \<times> reply) list \<times> driver_state" where
  "flush_queue s =
     (let (rs, chunks) = chunk_queue (dv_queue s)
      in (rs, s\<lparr>dv_first_arrival := None, dv_queue := [],
            dv_in_flight := (if chunks = [] then None else Some \<lparr>ba_chunks = chunks, ba_failed = None, ba_sent = False\<rparr>)\<rparr>))"

abbreviation replies :: "(waiter \<times> reply) list \<Rightarrow> driver_event list" where
  "replies \<equiv> map (\<lambda>(w, r). Replied w r)"

abbreviation batch_waiters :: "batch \<Rightarrow> waiter list" where
  "batch_waiters b \<equiv> concat (map snd (ba_chunks b))"

text \<open>
  The steps of the driver task and its batch task. The window of \<open>flush_interval\<close> starts at the
  first arrival; a receive is possible only while the queue is below half the capacity, and
  without a batch in flight only for the first caller or within the window; a
  request in flight answers with an error or with a range that \<open>decode_get_ts_response\<close>
  accepted for the count asked, or its task dies.
\<close>

inductive dv_step :: "nat \<Rightarrow> driver_state \<Rightarrow> driver_event list \<Rightarrow> driver_state \<Rightarrow> bool" for flush_interval where
  ask: "length (dv_chan s) < QUEUE_CAPACITY div 2 \<Longrightarrow>
    dv_step flush_interval s [Asked w] (s\<lparr>dv_chan := dv_chan s @ [w]\<rparr>)"
| recv: "dv_chan s = w # ws \<Longrightarrow> length (dv_queue s) < QUEUE_CAPACITY div 2 \<Longrightarrow>
    dv_in_flight s \<noteq> None \<or> dv_queue s = [] \<or> 0 < flush_interval \<Longrightarrow>
    dv_step flush_interval s [] (dv_enqueue now w (s\<lparr>dv_chan := ws\<rparr>))"
| flush: "dv_in_flight s = None \<Longrightarrow> dv_queue s \<noteq> [] \<Longrightarrow>
    flush_interval = 0 \<or> (case dv_first_arrival s of None \<Rightarrow> True | Some t \<Rightarrow> t + flush_interval \<le> now) \<Longrightarrow>
    flush_queue s = (rs, s') \<Longrightarrow> dv_step flush_interval s (replies rs) s'"
| send: "dv_in_flight s = Some b \<Longrightarrow> ba_chunks b = (n, ws) # cs \<Longrightarrow> ba_failed b = None \<Longrightarrow> \<not> ba_sent b \<Longrightarrow>
    dv_step flush_interval s [RpcSent n] (s\<lparr>dv_in_flight := Some (b\<lparr>ba_sent := True\<rparr>)\<rparr>)"
| answer: "dv_in_flight s = Some b \<Longrightarrow> ba_chunks b = (n, ws) # cs \<Longrightarrow> ba_sent b \<Longrightarrow>
    (\<forall>rng. r = Inr rng \<longrightarrow> (\<exists>resp. decode_get_ts_response resp n = Inr rng)) \<Longrightarrow>
    deliver ws r n = (rs, False) \<Longrightarrow>
    dv_step flush_interval s (RpcAnswered r # replies rs)
      (s\<lparr>dv_in_flight := Some \<lparr>ba_chunks = cs,
         ba_failed = (case r of Inl e \<Rightarrow> Some (clone_client_error e) | Inr _ \<Rightarrow> None), ba_sent = False\<rparr>\<rparr>)"
| answer_dies: "dv_in_flight s = Some b \<Longrightarrow> ba_chunks b = (n, ws) # cs \<Longrightarrow> ba_sent b \<Longrightarrow>
    (\<forall>rng. r = Inr rng \<longrightarrow> (\<exists>resp. decode_get_ts_response resp n = Inr rng)) \<Longrightarrow>
    deliver ws r n = (rs, True) \<Longrightarrow>
    dv_step flush_interval s (RpcAnswered r # replies (rs @ dropped (concat (map snd cs)))) (s\<lparr>dv_in_flight := None\<rparr>)"
| fail_fast: "dv_in_flight s = Some b \<Longrightarrow> ba_chunks b = (n, ws) # cs \<Longrightarrow> ba_failed b = Some e \<Longrightarrow>
    deliver ws (Inl (clone_client_error e)) n = (rs, dead) \<Longrightarrow>
    dv_step flush_interval s (replies rs) (s\<lparr>dv_in_flight := Some (b\<lparr>ba_chunks := cs\<rparr>)\<rparr>)"
| batch_dies: "dv_in_flight s = Some b \<Longrightarrow> ba_sent b \<Longrightarrow>
    dv_step flush_interval s (replies (dropped (batch_waiters b))) (s\<lparr>dv_in_flight := None\<rparr>)"
| batch_done: "dv_in_flight s = Some b \<Longrightarrow> ba_chunks b = [] \<Longrightarrow>
    dv_step flush_interval s [] (s\<lparr>dv_in_flight := None\<rparr>)"

inductive dv_run :: "nat \<Rightarrow> driver_event list \<Rightarrow> driver_state \<Rightarrow> bool" for flush_interval where
  dv_start: "dv_run flush_interval [] dv_init"
| dv_next: "dv_run flush_interval es s \<Longrightarrow> dv_step flush_interval s new s' \<Longrightarrow> dv_run flush_interval (es @ new) s'"

section \<open>Decoded ranges\<close>

definition range_ok :: "timestamp_range \<Rightarrow> bool" where
  "range_ok r \<longleftrightarrow> 0 < unat (tr_count r) \<and> unat (tr_logical_start r) + unat (tr_count r) \<le> 262144
     \<and> tr_physical_ms r \<le> PHYSICAL_MS_MAX"

definition timestamps :: "timestamp_range \<Rightarrow> timestamp list" where
  "timestamps r = map the (range_iter r)"

lemma unat_MAX_TIMESTAMPS_PER_RPC: "unat MAX_TIMESTAMPS_PER_RPC = 262144"
  by (simp add: MAX_TIMESTAMPS_PER_RPC_def LOGICAL_MAX_def LOGICAL_BITS_def)

lemma decode_Inr_iff:
  "decode_get_ts_response resp n = Inr r \<longleftrightarrow>
     r = \<lparr>tr_physical_ms = gr_physical_ms resp, tr_logical_start = gr_logical_start resp, tr_count = gr_count resp\<rparr>
     \<and> gr_count resp = n \<and> range_ok r"
proof -
  have one: "unat (saturating_sub c 1) = unat c - 1" for c :: u32 by (simp add: unat_saturating_sub)
  have pk: "(\<exists>t. try_pack p l = Inr t) \<longleftrightarrow> p \<le> PHYSICAL_MS_MAX \<and> l \<le> LOGICAL_MAX" for p l
    using packI pack_SomeD by (metis try_pack_Inr_iff)
  let ?c = "gr_count resp" and ?l = "gr_logical_start resp"
  show ?thesis
  proof (cases "checked_add ?l (saturating_sub ?c 1)")
    case None
    then have "4294967296 \<le> unat ?l + (unat ?c - 1)" using one by (simp add: checked_add_None_iff)
    with None show ?thesis by (auto simp: decode_get_ts_response_def range_ok_def)
  next
    case (Some s)
    then have s: "unat s = unat ?l + (unat ?c - 1)" using checked_add_SomeD one by metis
    show ?thesis
    proof (cases "?c = n \<and> 0 < unat ?c \<and> unat ?l + unat ?c \<le> 262144")
      case False
      with s Some show ?thesis
        by (auto simp: decode_get_ts_response_def range_ok_def word_le_nat_alt word_less_nat_alt
            unat_MAX_TIMESTAMPS_PER_RPC word_unat_eq_iff split: sum.splits)
    next
      case True
      then have "?l \<le> LOGICAL_MAX" "s \<le> LOGICAL_MAX" "\<not> ?c > MAX_TIMESTAMPS_PER_RPC" "?c \<noteq> 0"
        using s by (auto simp: word_le_nat_alt word_less_nat_alt unat_MAX_TIMESTAMPS_PER_RPC)
      then have "decode_get_ts_response resp n = (case try_pack (gr_physical_ms resp) ?l of
            Inl _ \<Rightarrow> Inl (Rpc (local_status Internal))
          | Inr _ \<Rightarrow> Inr \<lparr>tr_physical_ms = gr_physical_ms resp, tr_logical_start = ?l, tr_count = ?c\<rparr>)"
        using True Some by (simp add: decode_get_ts_response_def)
      with True pk [of "gr_physical_ms resp" ?l] \<open>?l \<le> LOGICAL_MAX\<close> show ?thesis
        by (cases "try_pack (gr_physical_ms resp) ?l") (auto simp: range_ok_def)
    qed
  qed
qed

lemma upt_consecutive: "map (\<lambda>i. b + i) [0 ..< n] = [b ..< b + n :: nat]"
  by (simp add: map_add_upt add.commute)

text \<open>The timestamps of a valid range are the consecutive ones from its first.\<close>

lemma range_iter_valid:
  assumes "range_ok r"
  shows "range_iter r = map Some (timestamps r)"
    and "map (\<lambda>t. unat (ts_val t)) (timestamps r)
      = [position (tr_physical_ms r) (tr_logical_start r) ..< position (tr_physical_ms r) (tr_logical_start r) + unat (tr_count r)]"
proof -
  let ?p = "tr_physical_ms r" and ?l = "tr_logical_start r" and ?n = "unat (tr_count r)"
  have el: "\<exists>t. pack ?p (?l + of_nat i) = Some t \<and> unat (ts_val t) = position ?p ?l + i" if "i < ?n" for i
  proof -
    from assms that have "unat (of_nat i :: u32) = i" by (simp add: range_ok_def unsigned_of_nat take_bit_nat_eq_self)
    moreover from this assms that have "unat (?l + of_nat i) = unat ?l + i"
      by (subst unat_add_no_wrap) (auto simp: range_ok_def)
    ultimately show ?thesis
      using packI [of ?p "?l + of_nat i"] assms that by (auto simp: range_ok_def word_le_nat_alt position_def)
  qed
  then show "range_iter r = map Some (timestamps r)" by (fastforce simp: range_iter_def timestamps_def)
  have "map (\<lambda>t. unat (ts_val t)) (timestamps r) = map (\<lambda>i. position ?p ?l + i) [0 ..< ?n]"
    using el by (fastforce simp: range_iter_def timestamps_def)
  then show "map (\<lambda>t. unat (ts_val t)) (timestamps r) = [position ?p ?l ..< position ?p ?l + ?n]"
    by (simp only: upt_consecutive)
qed

lemma length_timestamps [simp]: "length (timestamps r) = unat (tr_count r)"
  by (simp add: timestamps_def range_iter_def)

section \<open>Slices\<close>

fun slices :: "'a list \<Rightarrow> nat list \<Rightarrow> 'a list list" where
  "slices xs [] = []"
| "slices xs (n # ns) = take n xs # slices (drop n xs) ns"

abbreviation asks :: "waiter list \<Rightarrow> nat" where
  "asks ws \<equiv> sum_list (map (\<lambda>w. unat (w_count w)) ws)"

lemma concat_slices: "sum_list ns = length xs \<Longrightarrow> concat (slices xs ns) = xs"
  by (induction ns arbitrary: xs) auto

lemma length_slices [simp]: "length (slices xs ns) = length ns"
  by (induction ns arbitrary: xs) auto

lemma slices_lengths: "sum_list ns \<le> length xs \<Longrightarrow> map length (slices xs ns) = ns"
  by (induction ns arbitrary: xs) auto

lemma those_map_Some [simp]: "those (map Some xs) = Some xs"
  by (induction xs) auto

lemma deliver_slices_valid:
  "deliver_slices (map Some ts) ws = (zip ws (map Inr (slices ts (map (\<lambda>w. unat (w_count w)) ws))), False)"
  by (induction ws arbitrary: ts) (auto simp: take_map drop_map split: prod.splits)

lemma deliver_valid:
  assumes "range_ok r" "tr_count r = n"
  shows "deliver ws (Inr r) n = (zip ws (map Inr (slices (timestamps r) (map (\<lambda>w. unat (w_count w)) ws))), False)"
  using assms range_iter_valid(1) [OF assms(1)] by (simp add: deliver_def deliver_slices_valid)

section \<open>Chunks\<close>

definition servable :: "waiter \<Rightarrow> bool" where
  "servable w \<longleftrightarrow> w_count w \<noteq> 0 \<and> \<not> w_count w > MAX_TIMESTAMPS_PER_RPC"

definition chunk_ok :: "u32 \<times> waiter list \<Rightarrow> bool" where
  "chunk_ok c \<longleftrightarrow> snd c \<noteq> [] \<and> unat (fst c) = asks (snd c) \<and> 0 < unat (fst c) \<and> unat (fst c) \<le> 262144"

lemma servable_iff: "servable w \<longleftrightarrow> 0 < unat (w_count w) \<and> unat (w_count w) \<le> 262144"
  by (auto simp: servable_def word_less_nat_alt unat_MAX_TIMESTAMPS_PER_RPC word_unat_eq_iff)

lemma chunk_loop_spec:
  assumes "unat tot = asks current" "unat tot \<le> 262144" "list_all servable current" "list_all chunk_ok chunks"
    and "chunk_loop q chunks current tot = (rs, cs)"
  shows "rs = map (\<lambda>w. (w, Inl (ClientInvalidCount (w_count w)))) (filter (\<lambda>w. \<not> servable w) q)"
    and "concat (map snd cs) = concat (map snd chunks) @ current @ filter servable q"
    and "list_all chunk_ok cs"
proof -
  have pos: "list_all servable ws \<Longrightarrow> ws \<noteq> [] \<Longrightarrow> 0 < asks ws" for ws
    by (cases ws) (auto simp: servable_iff)
  have "rs = map (\<lambda>w. (w, Inl (ClientInvalidCount (w_count w)))) (filter (\<lambda>w. \<not> servable w) q)
     \<and> concat (map snd cs) = concat (map snd chunks) @ current @ filter servable q \<and> list_all chunk_ok cs"
    using assms
  proof (induction q chunks current tot arbitrary: rs cs rule: chunk_loop.induct)
    case (1 chunks current tot)
    have "current \<noteq> [] \<Longrightarrow> chunk_ok (tot, current)" using 1(1-3) pos [of current] by (simp add: chunk_ok_def)
    with 1 show ?case by (auto split: if_splits)
  next
    case (2 w q chunks current tot)
    let ?fits = "case checked_add tot (w_count w) of None \<Rightarrow> False | Some s \<Rightarrow> s \<le> MAX_TIMESTAMPS_PER_RPC"
    consider (bad) "\<not> servable w" | (fits) "servable w" ?fits | (full) "servable w" "\<not> ?fits" by blast
    then show ?case
    proof cases
      case bad
      then have b: "w_count w = 0 \<or> w_count w > MAX_TIMESTAMPS_PER_RPC" by (simp add: servable_def)
      obtain rs' cs' where l: "chunk_loop q chunks current tot = (rs', cs')" by fastforce
      from 2(1) [OF b 2(4-7) l] 2(8) b l bad show ?thesis by simp
    next
      case fits
      then obtain s where s: "checked_add tot (w_count w) = Some s" "s \<le> MAX_TIMESTAMPS_PER_RPC"
        by (auto split: option.splits)
      then have u: "unat (tot + w_count w) = unat tot + unat (w_count w)" "unat s = unat tot + unat (w_count w)"
        using checked_add_SomeD by metis+
      from s(2) u(2) have "unat tot + unat (w_count w) \<le> 262144" by (simp add: word_le_nat_alt unat_MAX_TIMESTAMPS_PER_RPC)
      with 2(2) 2(4-8) fits u s show ?thesis by (auto simp: servable_def)
    next
      case full
      let ?chunks = "if current \<noteq> [] then chunks @ [(tot, current)] else chunks"
      have "current \<noteq> [] \<Longrightarrow> chunk_ok (tot, current)" using 2(4-6) pos [of current] by (simp add: chunk_ok_def)
      then have "list_all chunk_ok ?chunks" using 2(7) by simp
      moreover have nb: "\<not> (w_count w = 0 \<or> w_count w > MAX_TIMESTAMPS_PER_RPC)" using full by (simp add: servable_def)
      moreover have "unat (0 + w_count w) = asks [w]" "unat (0 + w_count w) \<le> 262144" "list_all servable [w]"
        using full(1) by (simp_all add: servable_iff)
      moreover have "chunk_loop q ?chunks [w] (0 + w_count w) = (rs, cs)" using 2(8) nb full(2) by (simp only: chunk_loop.simps if_False)
      ultimately show ?thesis using 2(3) [of rs cs] full by simp
    qed
  qed
  then show "rs = map (\<lambda>w. (w, Inl (ClientInvalidCount (w_count w)))) (filter (\<lambda>w. \<not> servable w) q)"
    and "concat (map snd cs) = concat (map snd chunks) @ current @ filter servable q"
    and "list_all chunk_ok cs" by blast+
qed

lemma chunk_queue_spec:
  assumes "chunk_queue q = (rs, cs)"
  shows "rs = map (\<lambda>w. (w, Inl (ClientInvalidCount (w_count w)))) (filter (\<lambda>w. \<not> servable w) q)"
    and "concat (map snd cs) = filter servable q" and "list_all chunk_ok cs"
  using chunk_loop_spec [of 0 "[]" "[]" q rs cs] assms by (simp_all add: chunk_queue_def)

end
