(* ===== verification/Client_Pool.thy ===== *)
theory Client_Pool
  imports Client_Driver Dense_Map
begin

text \<open>
  The client's retry policy and deadlines (\<open>retry_policy.rs\<close>, \<open>budget.rs\<close>), the worklist of
  endpoints (\<open>worklist.rs\<close>) and the channel pool with its leader cache (\<open>channel_pool.rs\<close>).
  An instant is a number of nanoseconds on the client's monotone clock, read at the call. A
  channel is the identity of its cell; a cell is dialed or not.
\<close>

type_synonym instant = nat

section \<open>Policy\<close>

record retry_policy =
  rp_max_attempts :: nat
  rp_per_attempt_deadline :: duration
  rp_overall_deadline :: duration
  rp_base_backoff :: duration
  rp_leader_ttl :: duration

definition MAX_BACKOFF :: duration where "MAX_BACKOFF = 5 * 10 ^ 9"

definition policy_default :: retry_policy where
  "policy_default = \<lparr>rp_max_attempts = 5, rp_per_attempt_deadline = 2 * 10 ^ 9, rp_overall_deadline = 10 * 10 ^ 9,
     rp_base_backoff = 50 * 10 ^ 6, rp_leader_ttl = 30 * 10 ^ 9\<rparr>"

fun is_transport_failure :: "client_error \<Rightarrow> bool" where
  "is_transport_failure (Rpc st) = (ws_code st = Unavailable \<or> ws_code st = DeadlineExceeded)"
| "is_transport_failure Transport = True"
| "is_transport_failure TransportFanout = True"
| "is_transport_failure _ = False"

definition should_backoff :: "client_error \<Rightarrow> bool" where
  "should_backoff e = is_transport_failure e"

text \<open>
  The largest backoff in microseconds; the sleep is a random number of microseconds up to it.
  \<open>pick\<close> is the random choice.
\<close>

definition backoff_upper_micros :: "duration \<Rightarrow> nat \<Rightarrow> nat" where
  "backoff_upper_micros base attempt = min (base * 2 ^ min attempt 20) MAX_BACKOFF div 1000"

definition jittered_backoff :: "(nat \<Rightarrow> nat) \<Rightarrow> duration \<Rightarrow> nat \<Rightarrow> duration" where
  "jittered_backoff pick base attempt =
     (if base = 0 then 0
      else let upper_micros = backoff_upper_micros base attempt
        in if upper_micros = 0 then 0 else pick upper_micros * 1000)"

section \<open>Deadlines\<close>

record budget =
  bg_deadline :: instant
  bg_per_attempt :: duration

definition budget_start :: "retry_policy \<Rightarrow> instant \<Rightarrow> budget" where
  "budget_start policy now = \<lparr>bg_deadline = now + rp_overall_deadline policy, bg_per_attempt = rp_per_attempt_deadline policy\<rparr>"

definition next_attempt :: "budget \<Rightarrow> instant \<Rightarrow> duration option" where
  "next_attempt b now = (if now \<ge> bg_deadline b then None else Some (min (bg_deadline b - now) (bg_per_attempt b)))"

definition clamp_backoff :: "budget \<Rightarrow> duration \<Rightarrow> instant \<Rightarrow> duration" where
  "clamp_backoff b backoff now = min backoff (bg_deadline b - now)"

record pair_budget =
  pb_deadline :: instant

definition pair_start :: "duration \<Rightarrow> instant \<Rightarrow> pair_budget" where
  "pair_start budget now = \<lparr>pb_deadline = now + budget\<rparr>"

definition pair_remaining :: "pair_budget \<Rightarrow> instant \<Rightarrow> duration" where
  "pair_remaining b now = pb_deadline b - now"

section \<open>Worklist\<close>

record worklist =
  wl_queue :: "str list"
  wl_visited :: "str list"

definition wl_new :: "str list \<Rightarrow> worklist" where
  "wl_new endpoints = \<lparr>wl_queue = endpoints, wl_visited = []\<rparr>"

fun wl_pop :: "str list \<Rightarrow> str list \<Rightarrow> str option \<times> worklist" where
  "wl_pop [] visited = (None, \<lparr>wl_queue = [], wl_visited = visited\<rparr>)"
| "wl_pop (e # q) visited =
     (if e \<in> set visited then wl_pop q visited else (Some e, \<lparr>wl_queue = q, wl_visited = e # visited\<rparr>))"

definition wl_next :: "worklist \<Rightarrow> str option \<times> worklist" where
  "wl_next w = wl_pop (wl_queue w) (wl_visited w)"

definition redirect_to :: "str \<Rightarrow> worklist \<Rightarrow> worklist" where
  "redirect_to e w = w\<lparr>wl_queue := e # wl_queue w\<rparr>"

section \<open>Leader cache and channels\<close>

definition MAX_HINT_CHANNELS :: nat where "MAX_HINT_CHANNELS = 8"

record cached_leader =
  ca_endpoint :: str
  ca_epoch :: "u128 option"
  ca_last_used :: instant

datatype seat_source = Confirmed | Hinted

fun merge_epoch_forward :: "u128 option \<Rightarrow> u128 option \<Rightarrow> u128 option" where
  "merge_epoch_forward (Some cached) (Some incoming) = Some (max cached incoming)"
| "merge_epoch_forward (Some cached) None = Some cached"
| "merge_epoch_forward None incoming = incoming"

record pooled_channel =
  pc_cell :: nat
  pc_last_used :: instant

record channel_pool =
  cp_configured :: "str list"
  cp_channels :: "(str, pooled_channel) btree_map"
  cp_leader :: "cached_leader option"
  cp_tls_required :: bool
  cp_policy :: retry_policy
  cp_rotation :: u64
  cp_next_cell :: nat
  cp_dialed :: "nat list"

definition pool_new :: "str list \<Rightarrow> bool \<Rightarrow> retry_policy \<Rightarrow> u64 \<Rightarrow> channel_pool" where
  "pool_new endpoints tls policy seed =
     \<lparr>cp_configured = endpoints, cp_channels = [], cp_leader = None, cp_tls_required = tls, cp_policy = policy,
      cp_rotation = seed, cp_next_cell = 0, cp_dialed = []\<rparr>"

definition fresh_leader :: "instant \<Rightarrow> channel_pool \<Rightarrow> cached_leader option" where
  "fresh_leader now p =
     (case cp_leader p of
        Some cached \<Rightarrow> if now - ca_last_used cached < rp_leader_ttl (cp_policy p) then Some cached else None
      | None \<Rightarrow> None)"

definition cached_leader_endpoint :: "instant \<Rightarrow> channel_pool \<Rightarrow> str option" where
  "cached_leader_endpoint now p = map_option ca_endpoint (fresh_leader now p)"

definition is_configured :: "channel_pool \<Rightarrow> str \<Rightarrow> bool" where
  "is_configured p endpoint \<longleftrightarrow> endpoint \<in> set (cp_configured p)"

text \<open>Whether a write may unseat a fresh entry of another endpoint.\<close>

definition seat_accepts :: "channel_pool \<Rightarrow> u128 option \<Rightarrow> str \<Rightarrow> u128 option \<Rightarrow> seat_source \<Rightarrow> bool" where
  "seat_accepts p cached_epoch endpoint epoch source =
     (case (cached_epoch, epoch) of
        (Some c, Some incoming) \<Rightarrow> incoming \<ge> c
      | (Some _, None) \<Rightarrow> (case source of Hinted \<Rightarrow> is_configured p endpoint | Confirmed \<Rightarrow> False)
      | (None, _) \<Rightarrow> (case source of Hinted \<Rightarrow> True | Confirmed \<Rightarrow> False))"

definition seat_leader ::
  "instant \<Rightarrow> str \<Rightarrow> u128 option \<Rightarrow> seat_source \<Rightarrow> channel_pool \<Rightarrow> bool \<times> channel_pool" where
  "seat_leader now endpoint epoch source p =
     (let seated = p\<lparr>cp_leader := Some \<lparr>ca_endpoint = endpoint, ca_epoch = epoch, ca_last_used = now\<rparr>\<rparr>
      in case cp_leader p of
        Some cached \<Rightarrow>
          if ca_endpoint cached = endpoint then
            (True, p\<lparr>cp_leader := Some (cached\<lparr>ca_epoch := merge_epoch_forward (ca_epoch cached) epoch, ca_last_used := now\<rparr>)\<rparr>)
          else if now - ca_last_used cached < rp_leader_ttl (cp_policy p) then
            (if seat_accepts p (ca_epoch cached) endpoint epoch source then (True, seated) else (False, p))
          else (True, seated)
      | None \<Rightarrow> (True, seated))"

definition record_success :: "instant \<Rightarrow> str \<Rightarrow> u128 \<Rightarrow> channel_pool \<Rightarrow> channel_pool" where
  "record_success now endpoint epoch p = snd (seat_leader now endpoint (Some epoch) Confirmed p)"

definition compare_and_set_leader :: "instant \<Rightarrow> str \<Rightarrow> u128 option \<Rightarrow> channel_pool \<Rightarrow> bool \<times> channel_pool" where
  "compare_and_set_leader now endpoint epoch p = seat_leader now endpoint epoch Hinted p"

definition evict_if_current :: "str \<Rightarrow> nat \<Rightarrow> channel_pool \<Rightarrow> channel_pool" where
  "evict_if_current endpoint cell p =
     (case bt_get (cp_channels p) endpoint of
        Some current \<Rightarrow> if pc_cell current = cell then p\<lparr>cp_channels := bt_remove endpoint (cp_channels p)\<rparr> else p
      | None \<Rightarrow> p)"

text \<open>\<open>min_by_key\<close>: the first of the least recently used.\<close>

fun lru :: "(str \<times> pooled_channel) list \<Rightarrow> (str \<times> pooled_channel) option" where
  "lru [] = None"
| "lru (x # xs) =
     (case lru xs of None \<Rightarrow> Some x
      | Some y \<Rightarrow> if pc_last_used (snd x) \<le> pc_last_used (snd y) then Some x else Some y)"

lemma lru_Some: "lru xs = Some x \<Longrightarrow> x \<in> set xs"
  by (induction xs arbitrary: x) (auto split: option.splits if_splits)

definition hint_channels :: "(str \<Rightarrow> bool) \<Rightarrow> (str, pooled_channel) btree_map \<Rightarrow> (str, pooled_channel) btree_map" where
  "hint_channels configured channels = filter (\<lambda>c. \<not> configured (fst c)) channels"

function enforce_hint_cap :: "(str \<Rightarrow> bool) \<Rightarrow> str \<Rightarrow> (str, pooled_channel) btree_map \<Rightarrow> (str, pooled_channel) btree_map" where
  "enforce_hint_cap configured protected channels =
     (if length (hint_channels configured channels) \<le> MAX_HINT_CHANNELS then channels
      else case lru (filter (\<lambda>c. fst c \<noteq> protected) (hint_channels configured channels)) of
        Some victim \<Rightarrow> enforce_hint_cap configured protected (bt_remove (fst victim) channels)
      | None \<Rightarrow> channels)"
  by pat_completeness auto

termination
proof (relation "measure (\<lambda>(_, _, channels). length channels)")
  fix configured protected channels victim
  assume "lru (filter (\<lambda>c. fst c \<noteq> protected) (hint_channels configured channels)) = Some victim"
  then have "victim \<in> set channels" by (auto dest!: lru_Some simp: hint_channels_def)
  then show "((configured, protected, bt_remove (fst victim) channels), configured, protected, channels)
      \<in> measure (\<lambda>(_, _, channels). length channels)"
    by (auto simp: bt_remove_def intro: length_filter_less)
qed simp

declare enforce_hint_cap.simps [simp del]

text \<open>\<open>client_with_cell\<close> up to the dial: the endpoint's cell, made and capped when it is new.\<close>

definition lease_cell :: "instant \<Rightarrow> str \<Rightarrow> channel_pool \<Rightarrow> nat \<times> channel_pool" where
  "lease_cell now endpoint p =
     (case bt_get (cp_channels p) endpoint of
        Some slot \<Rightarrow>
          (pc_cell slot, p\<lparr>cp_channels := bt_insert endpoint (slot\<lparr>pc_last_used := now\<rparr>) (cp_channels p)\<rparr>)
      | None \<Rightarrow>
          (let slot = \<lparr>pc_cell = cp_next_cell p, pc_last_used = now\<rparr>
           in (cp_next_cell p, p\<lparr>cp_next_cell := cp_next_cell p + 1,
                cp_channels := enforce_hint_cap (is_configured p) endpoint (bt_insert endpoint slot (cp_channels p))\<rparr>)))"

definition iter_round_robin :: "instant \<Rightarrow> channel_pool \<Rightarrow> str list \<times> channel_pool" where
  "iter_round_robin now p =
     (let leader = cached_leader_endpoint now p; first = (case leader of None \<Rightarrow> [] | Some e \<Rightarrow> [e])
      in if cp_configured p = [] then (first, p)
         else let offset = unat (cp_rotation p) mod length (cp_configured p)
           in (first @ filter (\<lambda>e. Some e \<noteq> leader) (drop offset (cp_configured p) @ take offset (cp_configured p)),
               p\<lparr>cp_rotation := cp_rotation p + 1\<rparr>))"

section \<open>The channel cap\<close>

lemma hint_channels_remove:
  "hint_channels conf (bt_remove k m) = bt_remove k (hint_channels conf m)"
  by (simp add: hint_channels_def bt_remove_def conj_commute)

lemma lru_least: "lru xs = Some x \<Longrightarrow> y \<in> set xs \<Longrightarrow> pc_last_used (snd x) \<le> pc_last_used (snd y)"
proof (induction xs arbitrary: x)
  case (Cons z xs)
  show ?case
  proof (cases "lru xs")
    case None
    then have "xs = []" by (cases xs) (auto split: option.splits if_splits)
    with Cons.prems show ?thesis by simp
  next
    case (Some u)
    with Cons.prems Cons.IH [OF Some] show ?thesis by (fastforce split: if_splits)
  qed
qed simp

text \<open>
  What the cap does: at most the allowed number of hinted channels is left; configured
  channels and the protected one stay as they are, nothing is added, and whatever hinted
  channel is dropped was used no later than every one that is kept.
\<close>

lemma enforce_hint_cap_spec:
  assumes "bt_wf m" "r = enforce_hint_cap conf protected m"
  shows "bt_wf r" "length (hint_channels conf r) \<le> MAX_HINT_CHANNELS" "set r \<subseteq> set m"
    and "\<forall>c \<in> set m. conf (fst c) \<or> fst c = protected \<longrightarrow> c \<in> set r"
    and "\<forall>c \<in> set r. \<forall>v \<in> set m. v \<notin> set r \<and> \<not> conf (fst c) \<and> fst c \<noteq> protected
       \<longrightarrow> pc_last_used (snd v) \<le> pc_last_used (snd c)"
proof -
  have "bt_wf r \<and> length (hint_channels conf r) \<le> MAX_HINT_CHANNELS \<and> set r \<subseteq> set m
    \<and> (\<forall>c \<in> set m. conf (fst c) \<or> fst c = protected \<longrightarrow> c \<in> set r)
    \<and> (\<forall>c \<in> set r. \<forall>v \<in> set m. v \<notin> set r \<and> \<not> conf (fst c) \<and> fst c \<noteq> protected
       \<longrightarrow> pc_last_used (snd v) \<le> pc_last_used (snd c))"
    using assms(1) unfolding assms(2)
  proof (induction conf protected m rule: enforce_hint_cap.induct)
    case (1 conf protected m)
    let ?hs = "hint_channels conf m" and ?r = "enforce_hint_cap conf protected m"
    let ?cs = "filter (\<lambda>c. fst c \<noteq> protected) ?hs"
    show ?case
    proof (cases "length ?hs \<le> MAX_HINT_CHANNELS")
      case True
      then have "?r = m" by (subst enforce_hint_cap.simps) simp
      with True "1.prems" show ?thesis by simp
    next
      case False
      show ?thesis
      proof (cases "lru ?cs")
        case None
        then have "?cs = []" by (cases ?cs) (auto split: option.splits if_splits)
        then have "\<forall>c \<in> set ?hs. fst c = protected" by (simp add: filter_empty_conv)
        moreover have "distinct (map fst ?hs)"
          using bt.distinct_keys [OF "1.prems"] by (simp add: hint_channels_def distinct_map_filter)
        ultimately have "length ?hs \<le> 1"
          by (metis (no_types, lifting) card_mono distinct_card finite.emptyI finite.insertI image_subset_iff
              is_singletonI is_singleton_altdef length_map list.set_map singletonI)
        with False show ?thesis by (simp add: MAX_HINT_CHANNELS_def)
      next
        case (Some v)
        have v: "v \<in> set m" "\<not> conf (fst v)" "fst v \<noteq> protected" using lru_Some [OF Some] by (auto simp: hint_channels_def)
        have r: "?r = enforce_hint_cap conf protected (bt_remove (fst v) m)"
          by (subst enforce_hint_cap.simps) (simp add: False Some)
        note IH = "1.IH" [OF False Some bt.wf_remove [OF "1.prems"]]
        have only: "c = v" if "c \<in> set m" "fst c = fst v" for c
          using that v(1) bt.distinct_keys [OF "1.prems"] by (metis eq_key_imp_eq_value prod.collapse)
        have rem: "c \<in> set (bt_remove (fst v) m) \<longleftrightarrow> c \<in> set m \<and> c \<noteq> v" for c using only [of c] by (auto simp: bt_remove_def)
        have "pc_last_used (snd v) \<le> pc_last_used (snd c)"
          if "c \<in> set ?r" "\<not> conf (fst c)" "fst c \<noteq> protected" for c
        proof -
          have "c \<in> set (bt_remove (fst v) m)" using that(1) IH unfolding r by blast
          then have "c \<in> set ?cs" using that rem by (simp add: hint_channels_def)
          then show ?thesis by (rule lru_least [OF Some])
        qed
        moreover have "set (bt_remove (fst v) m) = set m - {v}" using rem by blast
        moreover note IH [unfolded this r [symmetric]]
        ultimately show ?thesis using v by blast
      qed
    qed
  qed
  then show "bt_wf r" "length (hint_channels conf r) \<le> MAX_HINT_CHANNELS" "set r \<subseteq> set m"
    and "\<forall>c \<in> set m. conf (fst c) \<or> fst c = protected \<longrightarrow> c \<in> set r"
    and "\<forall>c \<in> set r. \<forall>v \<in> set m. v \<notin> set r \<and> \<not> conf (fst c) \<and> fst c \<noteq> protected
       \<longrightarrow> pc_last_used (snd v) \<le> pc_last_used (snd c)" by blast+
qed

section \<open>The pool under all its operations\<close>

datatype pool_op =
    OpLease instant str
  | OpDialed nat
  | OpEvict str nat
  | OpSeat instant str "u128 option" seat_source
  | OpRoundRobin instant

fun pool_do :: "pool_op \<Rightarrow> channel_pool \<Rightarrow> channel_pool" where
  "pool_do (OpLease now e) p = snd (lease_cell now e p)"
| "pool_do (OpDialed cell) p = p\<lparr>cp_dialed := cell # cp_dialed p\<rparr>"
| "pool_do (OpEvict e cell) p = evict_if_current e cell p"
| "pool_do (OpSeat now e epoch source) p = snd (seat_leader now e epoch source p)"
| "pool_do (OpRoundRobin now) p = snd (iter_round_robin now p)"

definition pool_ok :: "str list \<Rightarrow> channel_pool \<Rightarrow> bool" where
  "pool_ok endpoints p \<longleftrightarrow> cp_configured p = endpoints \<and> bt_wf (cp_channels p)
     \<and> length (hint_channels (is_configured p) (cp_channels p)) \<le> MAX_HINT_CHANNELS"

lemma hint_channels_keys:
  assumes "bt_wf m" "bt_wf m'" "fst ` set m' \<subseteq> fst ` set m"
  shows "length (hint_channels conf m') \<le> length (hint_channels conf m)"
proof -
  have len: "length (hint_channels conf x) = card {k \<in> fst ` set x. \<not> conf k}" if "bt_wf x" for x
  proof -
    have "distinct (map fst (hint_channels conf x))"
      using bt.distinct_keys [OF that] by (simp add: hint_channels_def distinct_map_filter)
    moreover have "set (map fst (hint_channels conf x)) = {k \<in> fst ` set x. \<not> conf k}" by (auto simp: hint_channels_def)
    ultimately show ?thesis by (metis distinct_card length_map)
  qed
  show ?thesis using assms by (auto simp: len intro!: card_mono)
qed

lemma is_configured_frame [simp]:
  "is_configured (p\<lparr>cp_channels := cs\<rparr>) = is_configured p" "is_configured (p\<lparr>cp_leader := l\<rparr>) = is_configured p"
  "is_configured (p\<lparr>cp_rotation := r\<rparr>) = is_configured p" "is_configured (p\<lparr>cp_next_cell := n\<rparr>) = is_configured p"
  "is_configured (p\<lparr>cp_dialed := d\<rparr>) = is_configured p" "is_configured (p\<lparr>cp_next_cell := n, cp_channels := cs\<rparr>) = is_configured p"
  by (simp_all add: is_configured_def fun_eq_iff)

lemma pool_do_ok:
  assumes "pool_ok endpoints p"
  shows "pool_ok endpoints (pool_do op p)"
proof (cases op)
  case (OpLease now e)
  show ?thesis
  proof (cases "bt_get (cp_channels p) e")
    case None
    let ?m = "bt_insert e \<lparr>pc_cell = cp_next_cell p, pc_last_used = now\<rparr> (cp_channels p)"
    have "bt_wf ?m" using assms by (auto simp: pool_ok_def)
    from enforce_hint_cap_spec(1,2) [OF this refl] OpLease None assms show ?thesis
      by (simp add: pool_ok_def lease_cell_def Let_def)
  next
    case (Some slot)
    then have "e \<in> fst ` set (cp_channels p)" by (metis bt_get_eq_None_iff option.distinct(1))
    then have "length (hint_channels (is_configured p) (bt_insert e (slot\<lparr>pc_last_used := now\<rparr>) (cp_channels p)))
        \<le> length (hint_channels (is_configured p) (cp_channels p))"
      using assms by (intro hint_channels_keys) (auto simp: pool_ok_def keys_bt_insert)
    with OpLease Some assms show ?thesis by (auto simp: pool_ok_def lease_cell_def)
  qed
next
  case (OpEvict e cell)
  have "length (hint_channels (is_configured p) (bt_remove e (cp_channels p))) \<le> length (hint_channels (is_configured p) (cp_channels p))"
    by (simp add: hint_channels_remove) (simp add: bt_remove_def)
  with OpEvict assms show ?thesis
    by (auto simp: pool_ok_def evict_if_current_def split: option.splits)
qed (use assms in \<open>auto simp: pool_ok_def seat_leader_def iter_round_robin_def Let_def split: option.splits\<close>)

lemma pool_run_ok: "pool_ok endpoints p \<Longrightarrow> pool_ok endpoints (fold pool_do ops p)"
  by (induction ops arbitrary: p) (auto simp: pool_do_ok)

lemma pool_new_ok: "pool_ok endpoints (pool_new endpoints tls policy seed)"
  by (simp add: pool_ok_def pool_new_def hint_channels_def)

section \<open>Properties of the pool\<close>

text \<open>
  Whatever endpoints peers hint at, and in every order of dials, evictions and leader
  changes, the pool keeps at most \<open>MAX_HINT_CHANNELS\<close> channels to endpoints the operator did
  not configure, and at most that many more than there are configured endpoints in all; the
  channel handed out last is in the pool.
\<close>

theorem hint_channels_bounded:
  "let p = fold pool_do ops (pool_new endpoints tls policy seed)
   in length (filter (\<lambda>c. fst c \<notin> set endpoints) (cp_channels p)) \<le> MAX_HINT_CHANNELS
      \<and> length (cp_channels p) \<le> length endpoints + MAX_HINT_CHANNELS
      \<and> (\<forall>now e. bt_get (cp_channels (snd (lease_cell now e p))) e
           = Some \<lparr>pc_cell = fst (lease_cell now e p), pc_last_used = now\<rparr>)"
proof -
  define p where "p = fold pool_do ops (pool_new endpoints tls policy seed)"
  have ok: "pool_ok endpoints p" unfolding p_def by (rule pool_run_ok [OF pool_new_ok])
  have hint: "length (filter (\<lambda>c. fst c \<notin> set endpoints) (cp_channels p)) \<le> MAX_HINT_CHANNELS"
    using ok by (auto simp: pool_ok_def hint_channels_def is_configured_def)
  have "length (filter (\<lambda>c. fst c \<in> set endpoints) (cp_channels p)) \<le> length endpoints"
  proof -
    have "distinct (map fst (filter (\<lambda>c. fst c \<in> set endpoints) (cp_channels p)))"
      using ok by (intro distinct_map_filter bt.distinct_keys) (simp add: pool_ok_def)
    then have "length (filter (\<lambda>c. fst c \<in> set endpoints) (cp_channels p))
        = card (set (map fst (filter (\<lambda>c. fst c \<in> set endpoints) (cp_channels p))))" by (metis distinct_card length_map)
    also have "\<dots> \<le> card (set endpoints)" by (intro card_mono) auto
    finally show ?thesis using card_length [of endpoints] by simp
  qed
  moreover have "length (cp_channels p) = length (filter (\<lambda>c. fst c \<in> set endpoints) (cp_channels p))
      + length (filter (\<lambda>c. fst c \<notin> set endpoints) (cp_channels p))"
    by (rule sum_length_filter_compl [symmetric])
  moreover have "bt_get (cp_channels (snd (lease_cell now e p))) e = Some \<lparr>pc_cell = fst (lease_cell now e p), pc_last_used = now\<rparr>" for now e
  proof (cases "bt_get (cp_channels p) e")
    case None
    let ?s = "\<lparr>pc_cell = cp_next_cell p, pc_last_used = now\<rparr>"
    have w: "bt_wf (bt_insert e ?s (cp_channels p))" using ok by (auto simp: pool_ok_def)
    have "bt_get (bt_insert e ?s (cp_channels p)) e = Some ?s" by (simp add: bt_get_def map_of_bt_insert)
    then have "(e, ?s) \<in> set (bt_insert e ?s (cp_channels p))" using bt.get_Some_iff [OF w] by simp
    then have "(e, ?s) \<in> set (enforce_hint_cap (is_configured p) e (bt_insert e ?s (cp_channels p)))"
      using enforce_hint_cap_spec(4) [OF w refl] by fastforce
    then show ?thesis
      using None bt.get_Some_iff [OF enforce_hint_cap_spec(1) [OF w refl]] by (simp add: lease_cell_def Let_def)
  next
    case (Some slot)
    then show ?thesis by (simp add: lease_cell_def bt_get_def map_of_bt_insert)
  qed
  ultimately show ?thesis using hint unfolding p_def [symmetric] Let_def by simp
qed

record offer =
  of_now :: instant
  of_endpoint :: str
  of_epoch :: u128
  of_source :: seat_source

definition seat_all :: "offer list \<Rightarrow> channel_pool \<Rightarrow> channel_pool" where
  "seat_all os p = fold (\<lambda>x p. snd (seat_leader (of_now x) (of_endpoint x) (Some (of_epoch x)) (of_source x) p)) os p"

text \<open>
  The leader cache only moves forward: over any mix of successes and hints that carry an
  epoch, arriving in any order within the cache's time to live, the cache holds the highest
  epoch that was ever reported and the endpoint that reported it last.
\<close>

theorem leader_cache_tracks_max:
  assumes "os \<noteq> []" "\<forall>x \<in> set os. t \<le> of_now x \<and> of_now x < t + rp_leader_ttl (cp_policy p)" "cp_leader p = None"
  shows "let m = Max (of_epoch ` set os)
     in \<exists>c. cp_leader (seat_all os p) = Some c \<and> ca_epoch c = Some m
        \<and> ca_endpoint c = of_endpoint (last (filter (\<lambda>x. of_epoch x = m) os))"
proof -
  have "\<exists>c. cp_leader (seat_all os p) = Some c \<and> ca_epoch c = Some (Max (of_epoch ` set os)) \<and> t \<le> ca_last_used c
      \<and> ca_endpoint c = of_endpoint (last (filter (\<lambda>x. of_epoch x = Max (of_epoch ` set os)) os))
      \<and> cp_policy (seat_all os p) = cp_policy p"
    using assms(1,2)
  proof (induction os rule: rev_induct)
    case (snoc x xs)
    show ?case
    proof (cases "xs = []")
      case True
      with snoc.prems assms(3) show ?thesis by (simp add: seat_all_def seat_leader_def)
    next
      case False
      let ?m = "Max (of_epoch ` set xs)" and ?p = "seat_all xs p"
      from snoc False obtain c where c: "cp_leader ?p = Some c" "ca_epoch c = Some ?m" "t \<le> ca_last_used c"
          "ca_endpoint c = of_endpoint (last (filter (\<lambda>x. of_epoch x = ?m) xs))" "cp_policy ?p = cp_policy p"
        by auto
      have m: "Max (of_epoch ` set (xs @ [x])) = max ?m (of_epoch x)" using False by (simp add: max.commute)
      have fresh: "of_now x - ca_last_used c < rp_leader_ttl (cp_policy p)" using snoc.prems(2) c(3) by fastforce
      have step: "seat_all (xs @ [x]) p = snd (seat_leader (of_now x) (of_endpoint x) (Some (of_epoch x)) (of_source x) ?p)"
        by (simp add: seat_all_def)
      have t: "t \<le> of_now x" using snoc.prems(2) by simp
      show ?thesis
      proof (cases "?m \<le> of_epoch x")
        case True
        then have mx: "Max (of_epoch ` set (xs @ [x])) = of_epoch x" using m by (simp add: max_def)
        show ?thesis
          using True c fresh t unfolding step mx by (simp add: seat_leader_def seat_accepts_def Let_def max_def)
      next
        case less: False
        then have mx: "Max (of_epoch ` set (xs @ [x])) = ?m" "of_epoch x \<noteq> ?m" using m by (auto simp: max_def)
        show ?thesis
          using less c fresh t unfolding step mx(1) using mx(2)
          by (auto simp: seat_leader_def seat_accepts_def Let_def max_def)
      qed
    qed
  qed simp
  then show ?thesis unfolding Let_def by blast
qed

theorem leader_cache_tracks_max_witness:
  "\<exists>c. cp_leader (seat_all
        [\<lparr>of_now = 5, of_endpoint = [97], of_epoch = 7, of_source = Hinted\<rparr>,
         \<lparr>of_now = 6, of_endpoint = [98], of_epoch = 9, of_source = Confirmed\<rparr>,
         \<lparr>of_now = 7, of_endpoint = [97], of_epoch = 8, of_source = Confirmed\<rparr>] (pool_new [[97], [98]] False policy_default 0)) = Some c
     \<and> ca_epoch c = Some 9 \<and> ca_endpoint c = [98]"
proof -
  let ?os = "[\<lparr>of_now = 5, of_endpoint = [97], of_epoch = 7, of_source = Hinted\<rparr>,
         \<lparr>of_now = 6, of_endpoint = [98], of_epoch = 9, of_source = Confirmed\<rparr>,
         \<lparr>of_now = 7, of_endpoint = [97], of_epoch = 8, of_source = Confirmed\<rparr> :: offer]"
  let ?p = "pool_new [[97], [98]] False policy_default 0"
  have "Max (of_epoch ` set ?os) = 9" by (simp add: max_def word_le_nat_alt)
  moreover have "\<forall>x \<in> set ?os. 5 \<le> of_now x \<and> of_now x < 5 + rp_leader_ttl (cp_policy ?p)"
    by (simp add: pool_new_def policy_default_def)
  moreover have "cp_leader ?p = None" by (simp add: pool_new_def)
  ultimately show ?thesis using leader_cache_tracks_max [of ?os 5 ?p] by simp
qed

end
