(* ===== verification/Client_Retry.thy ===== *)
theory Client_Retry
  imports Client_Pool
begin

text \<open>
  One call of the client: an attempt against one endpoint (\<open>attempt.rs\<close>, \<open>seq_attempt.rs\<close>), the
  reading of a NOT_LEADER answer (\<open>leader_hint.rs\<close>) and the retry loops (\<open>retry.rs\<close>).

  The network, the clock, the random source and the timers are a record of functions on the
  pool and a world of their own; at every await the pool may come back changed, because the
  other calls of the same client share it. An answer \<open>None\<close> means that the deadline given to
  the operation passed first.
\<close>

section \<open>The environment\<close>

type_synonym 'w cw = "channel_pool \<times> 'w"

record seq_response =
  sr_key :: str
  sr_start :: u64
  sr_count :: u32
  sr_epoch :: "(u64 \<times> u64) option"

record seq_batch_response =
  sb_grants :: "seq_grant_entry list"
  sb_epoch :: "(u64 \<times> u64) option"

record 'w client_env =
  ce_now :: "'w \<Rightarrow> instant"
  ce_pick :: "nat \<Rightarrow> 'w cw \<Rightarrow> nat"
  ce_sleep :: "duration \<Rightarrow> 'w cw \<Rightarrow> 'w cw"
  ce_dial :: "str \<Rightarrow> duration \<Rightarrow> 'w cw \<Rightarrow> (client_error, unit) result option \<times> 'w cw"
  ce_get_ts :: "str \<Rightarrow> u32 \<Rightarrow> duration \<Rightarrow> 'w cw \<Rightarrow> (wire_status, get_ts_response) result option \<times> 'w cw"
  ce_get_seq :: "str \<Rightarrow> str \<Rightarrow> u32 \<Rightarrow> duration \<Rightarrow> 'w cw \<Rightarrow> (wire_status, seq_response) result option \<times> 'w cw"
  ce_get_seq_batch :: "str \<Rightarrow> (str \<times> u32) list \<Rightarrow> duration \<Rightarrow> 'w cw \<Rightarrow> (wire_status, seq_batch_response) result option \<times> 'w cw"

abbreviation now_at :: "'w client_env \<Rightarrow> 'w cw \<Rightarrow> instant" where
  "now_at env st \<equiv> ce_now env (snd st)"

definition on_pool :: "(channel_pool \<Rightarrow> channel_pool) \<Rightarrow> 'w cw \<Rightarrow> 'w cw" where
  "on_pool f st = (f (fst st), snd st)"

text \<open>\<open>client_with_cell\<close> under a timeout. A dial that is cut off leaves its cell in the pool.\<close>

definition client_with_cell ::
  "'w client_env \<Rightarrow> str \<Rightarrow> duration \<Rightarrow> 'w cw \<Rightarrow> (client_error, nat) result option \<times> 'w cw" where
  "client_with_cell env endpoint budget st =
     (let (cell, p1) = lease_cell (now_at env st) endpoint (fst st); st1 = (p1, snd st)
      in if cell \<in> set (cp_dialed p1) then (Some (Inr cell), st1)
         else case ce_dial env endpoint budget st1 of
           (None, st2) \<Rightarrow> (None, st2)
         | (Some (Inl e), st2) \<Rightarrow> (Some (Inl e), on_pool (evict_if_current endpoint cell) st2)
         | (Some (Inr _), st2) \<Rightarrow> (Some (Inr cell), on_pool (\<lambda>p. p\<lparr>cp_dialed := cell # cp_dialed p\<rparr>) st2))"

section \<open>Leader hints\<close>

datatype hint_unusable_reason = StaleEpoch | HintRejected

datatype attempt_outcome =
    AttOk timestamp_range u128
  | AttLeaderHint str "u128 option"
  | AttNoLeaderYet wire_status
  | AttHintUnusable wire_status hint_unusable_reason
  | AttErr client_error

definition HTTP_SCHEME :: str where "HTTP_SCHEME = [104, 116, 116, 112, 58, 47, 47]"

definition rejects_plaintext_hint :: "channel_pool \<Rightarrow> str \<Rightarrow> bool" where
  "rejects_plaintext_hint p hint \<longleftrightarrow> cp_tls_required p \<and> take 7 hint = HTTP_SCHEME"

definition epoch_of_wire :: "u64 \<times> u64 \<Rightarrow> u128" where
  "epoch_of_wire e = epoch_val (from_wire (fst e) (snd e))"

definition follow_hint ::
  "instant \<Rightarrow> wire_status \<Rightarrow> str option \<Rightarrow> u128 option \<Rightarrow> channel_pool \<Rightarrow> attempt_outcome \<times> channel_pool" where
  "follow_hint now st hinted_endpoint hint_epoch p =
     (case (case hinted_endpoint of Some h \<Rightarrow> if rejects_plaintext_hint p h then None else Some h | None \<Rightarrow> None) of
        Some hinted \<Rightarrow>
          (case compare_and_set_leader now hinted hint_epoch p of
             (True, p') \<Rightarrow> (AttLeaderHint hinted hint_epoch, p')
           | (False, p') \<Rightarrow> (AttHintUnusable st StaleEpoch, p'))
      | None \<Rightarrow> (AttHintUnusable st HintRejected, p))"

definition classify_not_leader_hint :: "instant \<Rightarrow> wire_status \<Rightarrow> channel_pool \<Rightarrow> attempt_outcome \<times> channel_pool" where
  "classify_not_leader_hint now st p =
     (case ws_hint st of
        HintDecoded hint \<Rightarrow> follow_hint now st (lh_endpoint hint) (map_option epoch_of_wire (lh_epoch hint)) p
      | HintAbsent \<Rightarrow> (AttNoLeaderYet st, p)
      | HintMalformed \<Rightarrow> follow_hint now st None None p)"

definition with_pool :: "(channel_pool \<Rightarrow> 'r \<times> channel_pool) \<Rightarrow> 'w cw \<Rightarrow> 'r \<times> 'w cw" where
  "with_pool f st = (let (r, p) = f (fst st) in (r, (p, snd st)))"

section \<open>One timestamp attempt\<close>

definition deadline_status :: wire_status where "deadline_status = local_status DeadlineExceeded"

text \<open>The single place where a failed request drops its channel.\<close>

definition attempt_failed :: "str \<Rightarrow> nat \<Rightarrow> client_error \<Rightarrow> 'w cw \<Rightarrow> attempt_outcome \<times> 'w cw" where
  "attempt_failed endpoint cell err st =
     (AttErr err, if is_transport_failure err then on_pool (evict_if_current endpoint cell) st else st)"

definition attempt :: "'w client_env \<Rightarrow> str \<Rightarrow> u32 \<Rightarrow> duration \<Rightarrow> 'w cw \<Rightarrow> attempt_outcome \<times> 'w cw" where
  "attempt env endpoint count budget st =
     (let pair = pair_start budget (now_at env st)
      in case client_with_cell env endpoint budget st of
        (None, st1) \<Rightarrow> (AttErr (Rpc deadline_status), st1)
      | (Some (Inl err), st1) \<Rightarrow> (AttErr err, st1)
      | (Some (Inr cell), st1) \<Rightarrow>
          (case ce_get_ts env endpoint count (pair_remaining pair (now_at env st1)) st1 of
             (Some (Inr response), st2) \<Rightarrow>
               (case decode_get_ts_response response count of
                  Inr rng \<Rightarrow> (AttOk rng (epoch_of_wire (gr_epoch response)), st2)
                | Inl err \<Rightarrow> (AttErr err, st2))
           | (Some (Inl status), st2) \<Rightarrow>
               if ws_code status = FailedPrecondition
               then with_pool (classify_not_leader_hint (now_at env st2) status) st2
               else attempt_failed endpoint cell (Rpc status) st2
           | (None, st2) \<Rightarrow> attempt_failed endpoint cell (Rpc deadline_status) st2))"

section \<open>The timestamp loop\<close>

definition MAX_LEADER_REDIRECTS :: u32 where "MAX_LEADER_REDIRECTS = 16"
definition MAX_TOTAL_LEADER_REDIRECTS :: u32 where "MAX_TOTAL_LEADER_REDIRECTS = MAX_LEADER_REDIRECTS * 4"

record loop_state =
  lo_last_err :: "client_error option"
  lo_election_signal :: "wire_status option"
  lo_failed_attempts :: u32
  lo_total_redirects :: u32
  lo_redirects :: u32
  lo_saw_election_signal :: bool
  lo_issued_one :: bool

definition loop_start :: loop_state where
  "loop_start = \<lparr>lo_last_err = None, lo_election_signal = None, lo_failed_attempts = 0, lo_total_redirects = 0,
     lo_redirects = 0, lo_saw_election_signal = False, lo_issued_one = False\<rparr>"

definition redirect_cap_status :: wire_status where
  "redirect_cap_status = local_status FailedPrecondition"

definition saw_election :: "wire_status \<Rightarrow> loop_state \<Rightarrow> loop_state" where
  "saw_election st l = l\<lparr>lo_saw_election_signal := True, lo_election_signal := Some st, lo_last_err := Some (Rpc st)\<rparr>"

definition count_failure :: "client_error \<Rightarrow> loop_state \<Rightarrow> loop_state" where
  "count_failure err l = l\<lparr>lo_last_err := Some err, lo_failed_attempts := saturating_add (lo_failed_attempts l) 1\<rparr>"

definition count_redirect :: "loop_state \<Rightarrow> loop_state" where
  "count_redirect l = l\<lparr>lo_redirects := lo_redirects l + 1, lo_total_redirects := saturating_add (lo_total_redirects l) 1\<rparr>"

text \<open>The sleep of a backoff, cut at the overall deadline.\<close>

definition back_off :: "'w client_env \<Rightarrow> retry_policy \<Rightarrow> budget \<Rightarrow> u32 \<Rightarrow> 'w cw \<Rightarrow> 'w cw" where
  "back_off env policy budget n st =
     (let d = clamp_backoff budget (jittered_backoff (\<lambda>m. ce_pick env m st) (rp_base_backoff policy) (unat n)) (now_at env st)
      in if d > 0 then ce_sleep env d st else st)"

datatype 'a pass_result = PassReturn 'a | PassAbort | PassEnd

lemma wl_pop_shorter: "wl_pop q v = (Some e, wl) \<Longrightarrow> length (wl_queue wl) < length q"
  by (induction q v rule: wl_pop.induct) (auto split: if_splits)

lemma wl_next_shorter: "wl_next w = (Some e, w') \<Longrightarrow> length (wl_queue w') < length (wl_queue w)"
  by (auto simp: wl_next_def dest: wl_pop_shorter)

abbreviation loop_measure :: "worklist \<Rightarrow> loop_state \<Rightarrow> nat" where
  "loop_measure wl l \<equiv> length (wl_queue wl) + 2 * (16 - unat (lo_redirects l))"

text \<open>One iteration of a pass: it ends the pass, or goes on with what is left of the worklist.\<close>

datatype 'a pass_step = Finish "'a pass_result" | Continue worklist

definition issue_step ::
  "'w client_env \<Rightarrow> retry_policy \<Rightarrow> budget \<Rightarrow> nat \<Rightarrow> u32 \<Rightarrow> worklist \<Rightarrow> loop_state \<Rightarrow> 'w cw
     \<Rightarrow> timestamp_range pass_step \<times> loop_state \<times> 'w cw" where
  "issue_step env policy budget attempt_cap count wl l st =
     (case wl_next wl of
        (None, wl') \<Rightarrow> (Finish PassEnd, l, st)
      | (Some endpoint, wl') \<Rightarrow>
          if unat (lo_failed_attempts l) \<ge> attempt_cap then (Finish PassEnd, l, st)
          else case next_attempt budget (now_at env st) of
            None \<Rightarrow> (Finish PassEnd, l, st)
          | Some attempt_budget \<Rightarrow>
              (case attempt env endpoint count attempt_budget st of
                 (AttOk rng epoch, st1) \<Rightarrow>
                   (Finish (PassReturn rng), l, on_pool (record_success (now_at env st1) endpoint epoch) st1)
               | (AttLeaderHint hinted hint_epoch, st1) \<Rightarrow>
                   if lo_total_redirects l \<ge> MAX_TOTAL_LEADER_REDIRECTS
                   then (Finish PassAbort, l\<lparr>lo_last_err := Some (Rpc redirect_cap_status)\<rparr>, st1)
                   else if lo_redirects l \<ge> MAX_LEADER_REDIRECTS
                   then (Finish PassEnd, saw_election redirect_cap_status l, st1)
                   else (Continue (redirect_to hinted wl'), count_redirect l, st1)
               | (AttNoLeaderYet status, st1) \<Rightarrow> (Continue wl', saw_election status l, st1)
               | (AttHintUnusable status reason, st1) \<Rightarrow>
                   (Continue wl', if reason = StaleEpoch then saw_election status l else l\<lparr>lo_last_err := Some (Rpc status)\<rparr>, st1)
               | (AttErr err, st1) \<Rightarrow>
                   (let l' = count_failure err l
                    in (Continue wl', l',
                        if should_backoff err then back_off env policy budget (lo_failed_attempts l' - 1) st1 else st1))))"

lemma redirect_decreases:
  assumes "length (wl_queue wl') < length (wl_queue wl)" "\<not> MAX_LEADER_REDIRECTS \<le> lo_redirects l"
  shows "loop_measure (redirect_to h wl') (count_redirect l) < loop_measure wl l"
proof -
  have r: "unat (lo_redirects l) < 16" using assms(2) by (simp add: MAX_LEADER_REDIRECTS_def word_le_nat_alt)
  then have "unat (lo_redirects l + 1) = unat (lo_redirects l) + 1" by (subst unat_add_no_wrap) auto
  with r assms(1) show ?thesis by (simp add: redirect_to_def count_redirect_def)
qed

lemma issue_step_decreases:
  "issue_step env policy budget cap count wl l st = (Continue wl', l', st') \<Longrightarrow> loop_measure wl' l' < loop_measure wl l"
  by (auto simp: issue_step_def Let_def saw_election_def count_failure_def dest!: wl_next_shorter intro!: redirect_decreases
      split: prod.splits option.splits if_splits attempt_outcome.splits)

function issue_pass ::
  "'w client_env \<Rightarrow> retry_policy \<Rightarrow> budget \<Rightarrow> nat \<Rightarrow> u32 \<Rightarrow> worklist \<Rightarrow> loop_state \<Rightarrow> 'w cw
     \<Rightarrow> timestamp_range pass_result \<times> loop_state \<times> 'w cw" where
  "issue_pass env policy budget attempt_cap count wl l st =
     (case issue_step env policy budget attempt_cap count wl l st of
        (Finish r, l', st') \<Rightarrow> (r, l', st')
      | (Continue wl', l', st') \<Rightarrow> issue_pass env policy budget attempt_cap count wl' l' st')"
  by pat_completeness auto

termination issue_pass
  by (relation "measure (\<lambda>(_, _, _, _, _, wl, l, _). loop_measure wl l)")
    (auto dest!: issue_step_decreases [OF sym])

declare issue_pass.simps [simp del]

definition surface_error :: "wire_status option \<Rightarrow> client_error option \<Rightarrow> client_error" where
  "surface_error election_signal last_err =
     (case last_err of
        Some err \<Rightarrow>
          if \<not> is_transport_failure err then err
          else (case election_signal of Some st \<Rightarrow> Rpc st | None \<Rightarrow> err)
      | None \<Rightarrow> (case election_signal of Some st \<Rightarrow> Rpc st | None \<Rightarrow> NoReachableEndpoints))"

text \<open>The passes. A loop that rides out an election for ever has no value.\<close>

definition new_pass :: "loop_state \<Rightarrow> loop_state" where
  "new_pass l = l\<lparr>lo_redirects := 0, lo_saw_election_signal := False\<rparr>"

definition pass_cap :: "retry_policy \<Rightarrow> u32 \<Rightarrow> nat \<Rightarrow> str list \<Rightarrow> nat" where
  "pass_cap policy pass attempt_cap endpoints =
     (if pass = 0 then max (rp_max_attempts policy) (length endpoints) else attempt_cap)"

partial_function (option) issue_passes ::
  "'w client_env \<Rightarrow> retry_policy \<Rightarrow> budget \<Rightarrow> u32 \<Rightarrow> nat \<Rightarrow> u32 \<Rightarrow> loop_state \<Rightarrow> 'w cw
     \<Rightarrow> ((client_error, timestamp_range) result \<times> 'w cw) option" where
  "issue_passes env policy budget count attempt_cap pass l st =
     (let (endpoints, p) = iter_round_robin (now_at env st) (fst st);
          cap = pass_cap policy pass attempt_cap endpoints;
          (res, l1, st1) = issue_pass env policy budget cap count (wl_new endpoints) (new_pass l) (p, snd st)
      in case res of
        PassReturn rng \<Rightarrow> Some (Inr rng, st1)
      | PassAbort \<Rightarrow> Some (Inl (surface_error (lo_election_signal l1) (lo_last_err l1)), st1)
      | PassEnd \<Rightarrow>
          if lo_saw_election_signal l1 \<and> next_attempt budget (now_at env st1) \<noteq> None
          then issue_passes env policy budget count cap (saturating_add pass 1) l1 (back_off env policy budget pass st1)
          else Some (Inl (surface_error (lo_election_signal l1) (lo_last_err l1)), st1))"

declare issue_passes.simps [code]

definition issue_rpc ::
  "'w client_env \<Rightarrow> u32 \<Rightarrow> 'w cw \<Rightarrow> ((client_error, timestamp_range) result \<times> 'w cw) option" where
  "issue_rpc env count st =
     (let policy = cp_policy (fst st)
      in issue_passes env policy (budget_start policy (now_at env st)) count 0 0 loop_start st)"

section \<open>Dense sequences\<close>

record seq_block =
  sk_start :: u64
  sk_count :: u32
  sk_epoch :: u128

datatype seq_attempt_outcome = SeqErr client_error | SeqAmbiguous

definition classify_seq_status :: "wire_status \<Rightarrow> bool \<Rightarrow> seq_attempt_outcome" where
  "classify_seq_status st sent =
     (if ws_code st = InvalidArgument \<or> ws_code st = ResourceExhausted \<or> ws_code st = Unimplemented then SeqErr (Rpc st)
      else if sent then SeqAmbiguous else SeqErr (Rpc st))"

text \<open>
  One iteration's outcome: a value to return, an ambiguous failure, a redirect, an election
  signal, a failure (with or without the backoff that its class asks for).
\<close>

datatype 'b seq_step =
    StepOk 'b | StepUncertain | StepRedirect str | StepElection wire_status | StepErr client_error | StepTimeout client_error

fun seq_step_of :: "seq_attempt_outcome \<Rightarrow> 'b seq_step" where
  "seq_step_of (SeqErr e) = StepErr e"
| "seq_step_of SeqAmbiguous = StepUncertain"

fun seq_step_of_hint :: "attempt_outcome \<Rightarrow> 'b seq_step" where
  "seq_step_of_hint (AttLeaderHint h _) = StepRedirect h"
| "seq_step_of_hint (AttNoLeaderYet st) = StepElection st"
| "seq_step_of_hint (AttHintUnusable st StaleEpoch) = StepElection st"
| "seq_step_of_hint (AttHintUnusable st HintRejected) = StepErr (Rpc st)"
| "seq_step_of_hint _ = StepUncertain"

text \<open>
  The body that \<open>issue_seq_rpc\<close> and \<open>issue_seq_batch_rpc\<close> share: \<open>call\<close> is the request,
  \<open>accept\<close> checks a success and yields the blocks and the epoch.
\<close>

definition seq_try ::
  "'w client_env \<Rightarrow> (str \<Rightarrow> duration \<Rightarrow> 'w cw \<Rightarrow> (wire_status, 'r) result option \<times> 'w cw) \<Rightarrow> ('r \<Rightarrow> ('b \<times> u128) option)
     \<Rightarrow> str \<Rightarrow> duration \<Rightarrow> 'w cw \<Rightarrow> 'b seq_step \<times> 'w cw" where
  "seq_try env call accept endpoint budget st =
     (let pair = pair_start budget (now_at env st)
      in case client_with_cell env endpoint budget st of
        (None, st1) \<Rightarrow> (StepTimeout (Rpc deadline_status), st1)
      | (Some (Inl err), st1) \<Rightarrow> (StepErr err, st1)
      | (Some (Inr cell), st1) \<Rightarrow>
          (case call endpoint (pair_remaining pair (now_at env st1)) st1 of
             (Some (Inr response), st2) \<Rightarrow>
               (case accept response of
                  None \<Rightarrow> (StepUncertain, st2)
                | Some (b, epoch) \<Rightarrow> (StepOk b, on_pool (record_success (now_at env st2) endpoint epoch) st2))
           | (Some (Inl status), st2) \<Rightarrow>
               if ws_code status = FailedPrecondition then
                 (if ws_hint status = HintAbsent then (seq_step_of (classify_seq_status status False), st2)
                  else let (out, st3) = with_pool (classify_not_leader_hint (now_at env st2) status) st2
                    in (seq_step_of_hint out, st3))
               else (seq_step_of (classify_seq_status status True),
                 if is_transport_failure (Rpc status) then on_pool (evict_if_current endpoint cell) st2 else st2)
           | (None, st2) \<Rightarrow> (StepUncertain, on_pool (evict_if_current endpoint cell) st2)))"

definition seq_iteration ::
  "'w client_env \<Rightarrow> (str \<Rightarrow> duration \<Rightarrow> 'w cw \<Rightarrow> (wire_status, 'r) result option \<times> 'w cw) \<Rightarrow> ('r \<Rightarrow> ('b \<times> u128) option)
     \<Rightarrow> retry_policy \<Rightarrow> budget \<Rightarrow> nat \<Rightarrow> worklist \<Rightarrow> loop_state \<Rightarrow> 'w cw
     \<Rightarrow> (client_error, 'b) result pass_step \<times> loop_state \<times> 'w cw" where
  "seq_iteration env call accept policy budget attempt_cap wl l st =
     (case wl_next wl of
        (None, wl') \<Rightarrow> (Finish PassEnd, l, st)
      | (Some endpoint, wl') \<Rightarrow>
          if unat (lo_failed_attempts l) \<ge> attempt_cap then (Finish PassEnd, l, st)
          else case next_attempt budget (now_at env st) of
            None \<Rightarrow> (Finish PassEnd, l, st)
          | Some attempt_budget \<Rightarrow>
              if lo_issued_one l \<and> attempt_budget < rp_per_attempt_deadline policy then (Finish PassAbort, l, st)
              else let l1 = l\<lparr>lo_issued_one := True\<rparr>
                in case seq_try env call accept endpoint attempt_budget st of
                  (StepOk b, st1) \<Rightarrow> (Finish (PassReturn (Inr b)), l1, st1)
                | (StepUncertain, st1) \<Rightarrow> (Finish (PassReturn (Inl SeqUncertain)), l1, st1)
                | (StepRedirect hinted, st1) \<Rightarrow>
                    if lo_total_redirects l1 \<ge> MAX_TOTAL_LEADER_REDIRECTS
                    then (Finish PassAbort, l1\<lparr>lo_last_err := Some (Rpc redirect_cap_status)\<rparr>, st1)
                    else if lo_redirects l1 \<ge> MAX_LEADER_REDIRECTS
                    then (Finish PassEnd, saw_election redirect_cap_status l1, st1)
                    else (Continue (redirect_to hinted wl'), count_redirect l1, st1)
                | (StepElection status, st1) \<Rightarrow> (Continue wl', saw_election status l1, st1)
                | (StepErr err, st1) \<Rightarrow>
                    (let l' = count_failure err l1
                     in (Continue wl', l',
                         if should_backoff err then back_off env policy budget (lo_failed_attempts l' - 1) st1 else st1))
                | (StepTimeout err, st1) \<Rightarrow> (Continue wl', count_failure err l1, st1))"

lemma redirect_decreases_issued:
  "length (wl_queue wl') < length (wl_queue wl) \<Longrightarrow> \<not> MAX_LEADER_REDIRECTS \<le> lo_redirects l \<Longrightarrow>
     loop_measure (redirect_to h wl') (count_redirect (l\<lparr>lo_issued_one := True\<rparr>)) < loop_measure wl l"
  using redirect_decreases [of wl' wl "l\<lparr>lo_issued_one := True\<rparr>" h] by simp

lemma seq_iteration_decreases:
  "seq_iteration env call accept policy budget cap wl l st = (Continue wl', l', st') \<Longrightarrow> loop_measure wl' l' < loop_measure wl l"
  by (auto simp: seq_iteration_def Let_def saw_election_def count_failure_def
      dest!: wl_next_shorter intro!: redirect_decreases_issued
      split: prod.splits option.splits if_splits seq_step.splits)

function seq_pass ::
  "'w client_env \<Rightarrow> (str \<Rightarrow> duration \<Rightarrow> 'w cw \<Rightarrow> (wire_status, 'r) result option \<times> 'w cw) \<Rightarrow> ('r \<Rightarrow> ('b \<times> u128) option)
     \<Rightarrow> retry_policy \<Rightarrow> budget \<Rightarrow> nat \<Rightarrow> worklist \<Rightarrow> loop_state \<Rightarrow> 'w cw
     \<Rightarrow> (client_error, 'b) result pass_result \<times> loop_state \<times> 'w cw" where
  "seq_pass env call accept policy budget attempt_cap wl l st =
     (case seq_iteration env call accept policy budget attempt_cap wl l st of
        (Finish r, l', st') \<Rightarrow> (r, l', st')
      | (Continue wl', l', st') \<Rightarrow> seq_pass env call accept policy budget attempt_cap wl' l' st')"
  by pat_completeness auto

termination seq_pass
  by (relation "measure (\<lambda>(_, _, _, _, _, _, wl, l, _). loop_measure wl l)")
    (auto dest!: seq_iteration_decreases [OF sym])

declare seq_pass.simps [simp del]

partial_function (option) seq_passes ::
  "'w client_env \<Rightarrow> (str \<Rightarrow> duration \<Rightarrow> 'w cw \<Rightarrow> (wire_status, 'r) result option \<times> 'w cw) \<Rightarrow> ('r \<Rightarrow> ('b \<times> u128) option)
     \<Rightarrow> retry_policy \<Rightarrow> budget \<Rightarrow> nat \<Rightarrow> u32 \<Rightarrow> loop_state \<Rightarrow> 'w cw \<Rightarrow> ((client_error, 'b) result \<times> 'w cw) option" where
  "seq_passes env call accept policy budget attempt_cap pass l st =
     (let (endpoints, p) = iter_round_robin (now_at env st) (fst st);
          cap = pass_cap policy pass attempt_cap endpoints;
          (res, l1, st1) = seq_pass env call accept policy budget cap (wl_new endpoints) (new_pass l) (p, snd st)
      in case res of
        PassReturn r \<Rightarrow> Some (r, st1)
      | PassAbort \<Rightarrow> Some (Inl (surface_error (lo_election_signal l1) (lo_last_err l1)), st1)
      | PassEnd \<Rightarrow>
          if lo_saw_election_signal l1 \<and> next_attempt budget (now_at env st1) \<noteq> None
          then seq_passes env call accept policy budget cap (saturating_add pass 1) l1 (back_off env policy budget pass st1)
          else Some (Inl (surface_error (lo_election_signal l1) (lo_last_err l1)), st1))"

declare seq_passes.simps [code]

definition seq_call ::
  "'w client_env \<Rightarrow> (str \<Rightarrow> duration \<Rightarrow> 'w cw \<Rightarrow> (wire_status, 'r) result option \<times> 'w cw) \<Rightarrow> ('r \<Rightarrow> ('b \<times> u128) option)
     \<Rightarrow> 'w cw \<Rightarrow> ((client_error, 'b) result \<times> 'w cw) option" where
  "seq_call env call accept st =
     (let policy = cp_policy (fst st)
      in seq_passes env call accept policy (budget_start policy (now_at env st)) 0 0 loop_start st)"

definition accept_seq :: "str \<Rightarrow> u32 \<Rightarrow> seq_response \<Rightarrow> (seq_block \<times> u128) option" where
  "accept_seq key count r =
     (if sr_key r \<noteq> key \<or> sr_count r \<noteq> count then None
      else case sr_epoch r of None \<Rightarrow> None
        | Some ew \<Rightarrow> Some (\<lparr>sk_start = sr_start r, sk_count = sr_count r, sk_epoch = epoch_of_wire ew\<rparr>, epoch_of_wire ew))"

definition issue_seq_rpc ::
  "'w client_env \<Rightarrow> str \<Rightarrow> u32 \<Rightarrow> 'w cw \<Rightarrow> ((client_error, seq_block) result \<times> 'w cw) option" where
  "issue_seq_rpc env key count st = seq_call env (\<lambda>e. ce_get_seq env e key count) (accept_seq key count) st"

fun accept_grants :: "u128 \<Rightarrow> (str \<times> u32) list \<Rightarrow> seq_grant_entry list \<Rightarrow> seq_block list option" where
  "accept_grants epoch ((k, n) # es) (g # gs) =
     (if sge_key g \<noteq> k \<or> sge_count g \<noteq> n then None
      else map_option (\<lambda>bs. \<lparr>sk_start = sge_start g, sk_count = sge_count g, sk_epoch = epoch\<rparr> # bs) (accept_grants epoch es gs))"
| "accept_grants epoch _ _ = Some []"

definition accept_seq_batch :: "(str \<times> u32) list \<Rightarrow> seq_batch_response \<Rightarrow> (seq_block list \<times> u128) option" where
  "accept_seq_batch entries r =
     (if length (sb_grants r) \<noteq> length entries then None
      else case sb_epoch r of None \<Rightarrow> None
        | Some ew \<Rightarrow> map_option (\<lambda>bs. (bs, epoch_of_wire ew)) (accept_grants (epoch_of_wire ew) entries (sb_grants r)))"

definition issue_seq_batch_rpc ::
  "'w client_env \<Rightarrow> (str \<times> u32) list \<Rightarrow> 'w cw \<Rightarrow> ((client_error, seq_block list) result \<times> 'w cw) option" where
  "issue_seq_batch_rpc env entries st = seq_call env (\<lambda>e. ce_get_seq_batch env e entries) (accept_seq_batch entries) st"

section \<open>The calls of the client\<close>

definition client_get_seq ::
  "'w client_env \<Rightarrow> str \<Rightarrow> u32 \<Rightarrow> 'w cw \<Rightarrow> ((client_error, seq_block) result \<times> 'w cw) option" where
  "client_get_seq env key count st =
     (if key = [] \<or> length key > MAX_SEQ_KEY_LEN then Some (Inl InvalidSeqKey, st)
      else if count = 0 then Some (Inl (ClientInvalidCount 0), st)
      else issue_seq_rpc env key count st)"

fun check_entries :: "(str \<times> u32) list \<Rightarrow> str list \<Rightarrow> client_error option" where
  "check_entries [] seen = None"
| "check_entries ((key, count) # es) seen =
     (if key = [] \<or> length key > MAX_SEQ_KEY_LEN then Some InvalidSeqKey
      else if count = 0 then Some (ClientInvalidCount 0)
      else if key \<in> set seen then Some InvalidSeqKey
      else check_entries es (key # seen))"

definition client_get_seq_batch ::
  "'w client_env \<Rightarrow> (str \<times> u32) list \<Rightarrow> 'w cw \<Rightarrow> ((client_error, seq_block list) result \<times> 'w cw) option" where
  "client_get_seq_batch env entries st =
     (if entries = [] then Some (Inl (ClientInvalidCount 0), st)
      else case check_entries entries [] of Some e \<Rightarrow> Some (Inl e, st) | None \<Rightarrow> issue_seq_batch_rpc env entries st)"

definition client_check_count :: "u32 \<Rightarrow> client_error option" where
  "client_check_count count =
     (if count = 0 \<or> count > MAX_TIMESTAMPS_PER_RPC then Some (ClientInvalidCount count) else None)"

text \<open>
  The control plane: one attempt at the cached leader or the first endpoint in turn. A reply
  that only the leader can give carries its epoch and refreshes the cache.
\<close>

definition control_plane_rpc ::
  "'w client_env \<Rightarrow> (str \<Rightarrow> duration \<Rightarrow> 'w cw \<Rightarrow> (wire_status, 'r) result option \<times> 'w cw)
     \<Rightarrow> ('r \<Rightarrow> (client_error, 'b \<times> u128 option) result) \<Rightarrow> 'w cw \<Rightarrow> (client_error, 'b) result \<times> 'w cw" where
  "control_plane_rpc env call map_reply st =
     (let (target, p) = (case cached_leader_endpoint (now_at env st) (fst st) of
            Some e \<Rightarrow> (Some e, fst st)
          | None \<Rightarrow> (let (es, p) = iter_round_robin (now_at env st) (fst st)
                    in (case es of [] \<Rightarrow> None | e # _ \<Rightarrow> Some e, p)));
          st0 = (p, snd st); budget = rp_per_attempt_deadline (cp_policy p)
      in case target of
        None \<Rightarrow> (Inl NoReachableEndpoints, st0)
      | Some endpoint \<Rightarrow>
          (let pair = pair_start budget (now_at env st0)
           in case client_with_cell env endpoint budget st0 of
             (None, st1) \<Rightarrow> (Inl (Rpc deadline_status), st1)
           | (Some (Inl err), st1) \<Rightarrow> (Inl err, st1)
           | (Some (Inr cell), st1) \<Rightarrow>
               (let failed = (\<lambda>err st'. (Inl err, if is_transport_failure err then on_pool (evict_if_current endpoint cell) st' else st'))
                in case call endpoint (pair_remaining pair (now_at env st1)) st1 of
                  (Some (Inr response), st2) \<Rightarrow>
                    (case map_reply response of
                       Inl err \<Rightarrow> (Inl err, st2)
                     | Inr (b, None) \<Rightarrow> (Inr b, st2)
                     | Inr (b, Some epoch) \<Rightarrow> (Inr b, on_pool (record_success (now_at env st2) endpoint epoch) st2))
                | (Some (Inl status), st2) \<Rightarrow>
                    (case ws_hint status of
                       HintDecoded _ \<Rightarrow>
                         if ws_code status = FailedPrecondition
                         then failed (Rpc status) (snd (with_pool (classify_not_leader_hint (now_at env st2) status) st2))
                         else failed (Rpc status) st2
                     | _ \<Rightarrow> failed (Rpc status) st2)
                | (None, st2) \<Rightarrow> failed (Rpc deadline_status) st2)))"

definition required_epoch :: "(u64 \<times> u64) option \<Rightarrow> (client_error, u128) result" where
  "required_epoch epoch = (case epoch of Some e \<Rightarrow> Inr (epoch_of_wire e) | None \<Rightarrow> Inl (Rpc (local_status Internal)))"

end
