(* ===== verification/Client_Calls.thy ===== *)
theory Client_Calls
  imports Client_Retry
begin

text \<open>
  What a call of the client guarantees, whatever network it runs on. The laws that a network
  gives are the locales \<open>client_timing\<close> (no operation turns the clock back), \<open>ts_timing\<close> and
  \<open>seq_timing\<close> (a request takes time) and \<open>dense_link\<close> (what a dense request does to the
  sequence behind it, by the answer that comes back). From them: the retry loops end, and a
  dense call takes its block once, not at all, or reports that it cannot tell.
\<close>

section \<open>Where an answer comes from\<close>

lemma attempt_decoded:
  "attempt env endpoint count budget st = (AttOk rng epoch, st') \<Longrightarrow> \<exists>resp. decode_get_ts_response resp count = Inr rng"
  by (auto simp: attempt_def attempt_failed_def with_pool_def classify_not_leader_hint_def follow_hint_def Let_def
      split: prod.splits option.splits sum.splits if_splits leader_hint_lookup.splits bool.splits)

lemma issue_step_decoded:
  "issue_step env policy budget cap count wl l st = (Finish (PassReturn rng), l', st') \<Longrightarrow>
     \<exists>resp. decode_get_ts_response resp count = Inr rng"
  by (auto simp: issue_step_def Let_def dest: attempt_decoded split: prod.splits option.splits if_splits attempt_outcome.splits)

text \<open>An assertion that every iteration keeps holds when the pass ends.\<close>

lemma issue_pass_rule:
  assumes "issue_pass env policy budget cap count wl l st = (res, l', st')" "I l st"
    and "\<And>wl l st wl' l' st'. I l st \<Longrightarrow> issue_step env policy budget cap count wl l st = (Continue wl', l', st') \<Longrightarrow> I l' st'"
    and "\<And>wl l st. I l st \<Longrightarrow> issue_step env policy budget cap count wl l st = (Finish res, l', st') \<Longrightarrow> Q"
  shows Q
  using assms(1,2)
proof (induction "loop_measure wl l" arbitrary: wl l st rule: less_induct)
  case less
  obtain r l1 st1 where s: "issue_step env policy budget cap count wl l st = (r, l1, st1)" by (metis prod.exhaust)
  show ?case
  proof (cases r)
    case (Finish x)
    with less.prems s have "issue_step env policy budget cap count wl l st = (Finish res, l', st')"
      by (subst (asm) issue_pass.simps) simp
    with assms(4) less.prems(2) show ?thesis by blast
  next
    case (Continue wl')
    with less.prems s have "issue_pass env policy budget cap count wl' l1 st1 = (res, l', st')"
      by (subst (asm) issue_pass.simps) simp
    with less.hyps [OF issue_step_decreases [OF s [unfolded Continue]]] assms(3) [OF less.prems(2) s [unfolded Continue]]
    show ?thesis by blast
  qed
qed

lemma issue_pass_decoded:
  assumes "issue_pass env policy budget cap count wl l st = (PassReturn rng, l', st')"
  shows "\<exists>resp. decode_get_ts_response resp count = Inr rng"
  by (rule issue_pass_rule [OF assms, where I = "\<lambda>_ _. True"]) (use issue_step_decoded in blast)+

lemma issue_passes_decoded:
  assumes "issue_passes env policy budget count cap pass l st = Some y"
  shows "\<forall>rng st'. y = (Inr rng, st') \<longrightarrow> (\<exists>resp. decode_get_ts_response resp count = Inr rng)"
proof (rule issue_passes.raw_induct [where P = "\<lambda>_ _ _ count _ _ _ _ y.
      \<forall>rng st'. y = (Inr rng, st') \<longrightarrow> (\<exists>resp. decode_get_ts_response resp count = Inr rng)", OF _ assms], goal_cases)
  case (1 f env policy budget count cap pass l st y)
  then show ?case
    by (auto simp: Let_def dest: issue_pass_decoded split: prod.splits if_splits pass_result.splits)
qed

section \<open>Time\<close>

text \<open>What the loops rely on: no operation turns the clock back, and an answered or cut-off request takes time.\<close>

locale client_timing =
  fixes env :: "'w client_env"
  assumes dial_time: "ce_dial env e b st = (r, st') \<Longrightarrow> now_at env st \<le> now_at env st'"
    and sleep_time: "now_at env st \<le> now_at env (ce_sleep env d st)"
begin

lemma lease_time: "client_with_cell env e b st = (r, st') \<Longrightarrow> now_at env st \<le> now_at env st'"
  by (fastforce simp: client_with_cell_def on_pool_def Let_def dest: dial_time split: prod.splits option.splits sum.splits if_splits)

lemma back_off_time: "now_at env st \<le> now_at env (back_off env policy budget n st)"
  using sleep_time by (simp add: back_off_def Let_def)

text \<open>A pass that took time before the deadline leaves less of the budget to the next one.\<close>

lemma next_pass_later:
  assumes "now_at env st < now_at env st1" "next_attempt budget (now_at env st1) \<noteq> None"
  shows "bg_deadline budget - now_at env (back_off env policy budget pass st1) < bg_deadline budget - now_at env st"
proof -
  have "now_at env st1 < bg_deadline budget" using assms(2) by (auto simp: next_attempt_def split: if_splits)
  with assms(1) back_off_time [of st1 policy budget pass] show ?thesis by linarith
qed

end

locale ts_timing = client_timing env for env :: "'w client_env" +
  assumes get_ts_time: "ce_get_ts env e n b st = (a, st') \<Longrightarrow> now_at env st < now_at env st'"
begin

lemma attempt_time:
  assumes "attempt env e n b st = (out, st')"
  shows "now_at env st \<le> now_at env st'" "(\<forall>err. out \<noteq> AttErr err) \<Longrightarrow> now_at env st < now_at env st'"
proof -
  obtain r st1 where c: "client_with_cell env e b st = (r, st1)" by (cases "client_with_cell env e b st")
  note le = lease_time [OF c]
  have "now_at env st \<le> now_at env st' \<and> ((\<forall>err. out \<noteq> AttErr err) \<longrightarrow> now_at env st < now_at env st')"
  proof (cases "\<exists>cell. r = Some (Inr cell)")
    case False
    with assms c le show ?thesis by (auto simp: attempt_def Let_def split: option.splits sum.splits)
  next
    case True
    then obtain cell where r: "r = Some (Inr cell)" by blast
    obtain a st2 where g: "ce_get_ts env e n (pair_remaining (pair_start b (now_at env st)) (now_at env st1)) st1 = (a, st2)"
      by (rule prod.exhaust)
    have "snd st' = snd st2"
      using assms c r g by (auto simp: attempt_def attempt_failed_def with_pool_def on_pool_def Let_def
          split: option.splits sum.splits if_splits prod.splits)
    with get_ts_time [OF g] le show ?thesis by auto
  qed
  then show "now_at env st \<le> now_at env st'" "(\<forall>err. out \<noteq> AttErr err) \<Longrightarrow> now_at env st < now_at env st'" by auto
qed

lemma step_time:
  assumes "issue_step env policy budget cap count wl l st = (r, l', st')"
  shows "now_at env st \<le> now_at env st' \<and> (lo_saw_election_signal l' \<longrightarrow> lo_saw_election_signal l \<or> now_at env st < now_at env st')"
proof -
  obtain ne wl' where n: "wl_next wl = (ne, wl')" by (rule prod.exhaust)
  show ?thesis
  proof (cases "\<exists>endpoint ab. ne = Some endpoint \<and> \<not> cap \<le> unat (lo_failed_attempts l) \<and> next_attempt budget (now_at env st) = Some ab")
    case False
    with assms n show ?thesis by (auto simp: issue_step_def split: option.splits if_splits)
  next
    case True
    then obtain endpoint ab where e: "ne = Some endpoint" "\<not> cap \<le> unat (lo_failed_attempts l)"
        "next_attempt budget (now_at env st) = Some ab" by blast
    obtain out st1 where a: "attempt env endpoint count ab st = (out, st1)" by (rule prod.exhaust)
    have "now_at env st1 \<le> now_at env st'" "(\<exists>err. out = AttErr err) \<Longrightarrow> lo_saw_election_signal l' = lo_saw_election_signal l"
      using assms n e a back_off_time [of st1]
      by (auto simp: issue_step_def Let_def on_pool_def count_failure_def split: attempt_outcome.splits if_splits)
    with attempt_time [OF a] show ?thesis by (metis order_less_le_trans order_trans)
  qed
qed

lemma pass_time:
  assumes "issue_pass env policy budget cap count wl l st = (res, l', st')"
  shows "now_at env st \<le> now_at env st' \<and> (lo_saw_election_signal l' \<longrightarrow> lo_saw_election_signal l \<or> now_at env st < now_at env st')"
proof (rule issue_pass_rule [OF assms, where I = "\<lambda>l1 st1. now_at env st \<le> now_at env st1
    \<and> (lo_saw_election_signal l1 \<longrightarrow> lo_saw_election_signal l \<or> now_at env st < now_at env st1)"], goal_cases)
  case (2 wl1 l1 st1 wl2 l2 st2)
  with step_time [OF 2(2)] show ?case by (meson order_le_less_trans order_less_le_trans order_trans)
next
  case (3 wl1 l1 st1)
  with step_time [OF 3(2)] show ?case by (meson order_le_less_trans order_less_le_trans order_trans)
qed simp

text \<open>A pass that is followed by another one has taken time, so the passes end by the deadline.\<close>

lemma passes_end: "\<exists>y. issue_passes env policy budget count cap pass l st = Some y"
proof (induction "bg_deadline budget - now_at env st" arbitrary: cap pass l st rule: less_induct)
  case less
  obtain es p where i: "iter_round_robin (now_at env st) (fst st) = (es, p)" by (metis prod.exhaust)
  define cap' where "cap' = pass_cap policy pass cap es"
  obtain res l1 st1 where r: "issue_pass env policy budget cap' count (wl_new es) (new_pass l) (p, snd st) = (res, l1, st1)"
    by (metis prod.exhaust)
  show ?case
  proof (cases "res = PassEnd \<and> lo_saw_election_signal l1 \<and> next_attempt budget (now_at env st1) \<noteq> None")
    case False
    with i r show ?thesis
      by (subst issue_passes.simps) (cases res; auto simp: Let_def cap'_def)
  next
    case True
    then have "now_at env st < now_at env st1" using pass_time [OF r] by (auto simp: new_pass_def)
    from less.hyps [OF next_pass_later [OF this], of cap' "saturating_add pass 1" l1] True i r show ?thesis
      by (subst issue_passes.simps) (simp add: Let_def cap'_def)
  qed
qed

lemma rpc_ends: "\<exists>y. issue_rpc env count st = Some y"
  using passes_end by (simp add: issue_rpc_def Let_def)

end

section \<open>Dense calls\<close>

lemma seq_pass_rule:
  assumes "seq_pass env call accept policy budget cap wl l st = (res, l', st')" "I l st"
    and "\<And>wl l st wl' l' st'. I l st \<Longrightarrow>
      seq_iteration env call accept policy budget cap wl l st = (Continue wl', l', st') \<Longrightarrow> I l' st'"
    and "\<And>wl l st. I l st \<Longrightarrow> seq_iteration env call accept policy budget cap wl l st = (Finish res, l', st') \<Longrightarrow> Q"
  shows Q
  using assms(1,2)
proof (induction "loop_measure wl l" arbitrary: wl l st rule: less_induct)
  case less
  obtain r l1 st1 where s: "seq_iteration env call accept policy budget cap wl l st = (r, l1, st1)" by (metis prod.exhaust)
  show ?case
  proof (cases r)
    case (Finish x)
    with less.prems s have "seq_iteration env call accept policy budget cap wl l st = (Finish res, l', st')"
      by (subst (asm) seq_pass.simps) simp
    with assms(4) less.prems(2) show ?thesis by blast
  next
    case (Continue wl')
    with less.prems s have "seq_pass env call accept policy budget cap wl' l1 st1 = (res, l', st')"
      by (subst (asm) seq_pass.simps) simp
    with less.hyps [OF seq_iteration_decreases [OF s [unfolded Continue]]] assms(3) [OF less.prems(2) s [unfolded Continue]]
    show ?thesis by blast
  qed
qed

text \<open>An iteration that asks an endpoint, in terms of the attempt it makes.\<close>

lemma seq_iteration_try:
  assumes "seq_iteration env call accept policy budget cap wl l st = (r, l', st')"
  obtains "r = Finish PassEnd \<or> r = Finish PassAbort" "l' = l" "st' = st"
  | endpoint b stp st1 where "seq_try env call accept endpoint b st = (stp, st1)"
      "\<And>x. stp = StepOk x \<Longrightarrow> r = Finish (PassReturn (Inr x)) \<and> st' = st1"
      "stp = StepUncertain \<Longrightarrow> r = Finish (PassReturn (Inl SeqUncertain)) \<and> st' = st1"
      "(\<forall>x. stp \<noteq> StepOk x) \<Longrightarrow> stp \<noteq> StepUncertain \<Longrightarrow>
         (\<forall>x. r \<noteq> Finish (PassReturn x)) \<and> (st' = st1 \<or> (\<exists>n. st' = back_off env policy budget n st1))"
      "lo_saw_election_signal l' \<Longrightarrow>
         lo_saw_election_signal l \<or> (\<exists>h. stp = StepRedirect h) \<or> (\<exists>status. stp = StepElection status)"
proof -
  obtain ne wl' where n: "wl_next wl = (ne, wl')" by (rule prod.exhaust)
  show thesis
  proof (cases "\<exists>endpoint ab. ne = Some endpoint \<and> \<not> cap \<le> unat (lo_failed_attempts l)
      \<and> next_attempt budget (now_at env st) = Some ab \<and> \<not> (lo_issued_one l \<and> ab < rp_per_attempt_deadline policy)")
    case False
    with assms n show thesis by (intro that(1)) (auto simp: seq_iteration_def split: option.splits if_splits)
  next
    case True
    then obtain endpoint ab where e: "ne = Some endpoint" "\<not> cap \<le> unat (lo_failed_attempts l)"
        "next_attempt budget (now_at env st) = Some ab" "\<not> (lo_issued_one l \<and> ab < rp_per_attempt_deadline policy)" by blast
    obtain stp st1 where a: "seq_try env call accept endpoint ab st = (stp, st1)" by (rule prod.exhaust)
    show thesis
      by (rule that(2) [OF a])
        (use assms n e a in \<open>auto simp: seq_iteration_def Let_def count_failure_def split: seq_step.splits if_splits\<close>)
  qed
qed

text \<open>The dense loops end for the reason the timestamp loop does.\<close>

locale seq_timing = client_timing env for env :: "'w client_env" +
  fixes call :: "str \<Rightarrow> duration \<Rightarrow> 'w cw \<Rightarrow> (wire_status, 'r) result option \<times> 'w cw"
  assumes call_time: "call e b st = (a, st') \<Longrightarrow> now_at env st < now_at env st'"
begin

lemma seq_try_time:
  assumes "seq_try env call accept e b st = (stp, st')"
  shows "now_at env st \<le> now_at env st' \<and>
    ((\<exists>h. stp = StepRedirect h) \<or> (\<exists>status. stp = StepElection status) \<longrightarrow> now_at env st < now_at env st')"
proof -
  obtain r st1 where c: "client_with_cell env e b st = (r, st1)" by (cases "client_with_cell env e b st")
  note le = lease_time [OF c]
  show ?thesis
  proof (cases "\<exists>cell. r = Some (Inr cell)")
    case False
    with assms c le show ?thesis by (auto simp: seq_try_def Let_def split: option.splits sum.splits)
  next
    case True
    then obtain cell where r: "r = Some (Inr cell)" by blast
    obtain a st2 where g: "call e (pair_remaining (pair_start b (now_at env st)) (now_at env st1)) st1 = (a, st2)"
      by (rule prod.exhaust)
    have "snd st' = snd st2"
      using assms c r g by (auto simp: seq_try_def with_pool_def on_pool_def Let_def
          split: option.splits sum.splits if_splits prod.splits)
    with call_time [OF g] le show ?thesis by auto
  qed
qed

lemma seq_iteration_time:
  assumes "seq_iteration env call accept policy budget cap wl l st = (r, l', st')"
  shows "now_at env st \<le> now_at env st' \<and> (lo_saw_election_signal l' \<longrightarrow> lo_saw_election_signal l \<or> now_at env st < now_at env st')"
  using assms
proof (rule seq_iteration_try)
  fix endpoint b stp st1
  assume t: "seq_try env call accept endpoint b st = (stp, st1)"
    and ok: "\<And>x. stp = StepOk x \<Longrightarrow> r = Finish (PassReturn (Inr x)) \<and> st' = st1"
    and un: "stp = StepUncertain \<Longrightarrow> r = Finish (PassReturn (Inl SeqUncertain)) \<and> st' = st1"
    and go: "(\<forall>x. stp \<noteq> StepOk x) \<Longrightarrow> stp \<noteq> StepUncertain \<Longrightarrow>
         (\<forall>x. r \<noteq> Finish (PassReturn x)) \<and> (st' = st1 \<or> (\<exists>n. st' = back_off env policy budget n st1))"
    and el: "lo_saw_election_signal l' \<Longrightarrow>
         lo_saw_election_signal l \<or> (\<exists>h. stp = StepRedirect h) \<or> (\<exists>status. stp = StepElection status)"
  have "now_at env st1 \<le> now_at env st'"
    using ok un go back_off_time [of st1] by (cases stp) auto
  with seq_try_time [OF t] el show ?thesis by (metis order_less_le_trans order_trans)
qed auto

lemma seq_pass_time:
  assumes "seq_pass env call accept policy budget cap wl l st = (res, l', st')"
  shows "now_at env st \<le> now_at env st' \<and> (lo_saw_election_signal l' \<longrightarrow> lo_saw_election_signal l \<or> now_at env st < now_at env st')"
proof (rule seq_pass_rule [OF assms, where I = "\<lambda>l1 st1. now_at env st \<le> now_at env st1
    \<and> (lo_saw_election_signal l1 \<longrightarrow> lo_saw_election_signal l \<or> now_at env st < now_at env st1)"], goal_cases)
  case (2 wl1 l1 st1 wl2 l2 st2)
  with seq_iteration_time [OF 2(2)] show ?case by (meson order_le_less_trans order_less_le_trans order_trans)
next
  case (3 wl1 l1 st1)
  with seq_iteration_time [OF 3(2)] show ?case by (meson order_le_less_trans order_less_le_trans order_trans)
qed simp

lemma seq_passes_end: "\<exists>y. seq_passes env call accept policy budget cap pass l st = Some y"
proof (induction "bg_deadline budget - now_at env st" arbitrary: cap pass l st rule: less_induct)
  case less
  obtain es p where i: "iter_round_robin (now_at env st) (fst st) = (es, p)" by (metis prod.exhaust)
  define cap' where "cap' = pass_cap policy pass cap es"
  obtain res l1 st1 where r: "seq_pass env call accept policy budget cap' (wl_new es) (new_pass l) (p, snd st) = (res, l1, st1)"
    by (metis prod.exhaust)
  show ?case
  proof (cases "res = PassEnd \<and> lo_saw_election_signal l1 \<and> next_attempt budget (now_at env st1) \<noteq> None")
    case False
    with i r show ?thesis
      by (subst seq_passes.simps) (cases res; auto simp: Let_def cap'_def)
  next
    case True
    then have "now_at env st < now_at env st1" using seq_pass_time [OF r] by (auto simp: new_pass_def)
    from less.hyps [OF next_pass_later [OF this], of cap' "saturating_add pass 1" l1] True i r show ?thesis
      by (subst seq_passes.simps) (simp add: Let_def cap'_def)
  qed
qed

lemma seq_call_ends: "\<exists>y. seq_call env call accept st = Some y"
  using seq_passes_end by (simp add: seq_call_def Let_def)

end

section \<open>What a dense call did\<close>

text \<open>
  \<open>mark\<close> reads the sequence from the world, \<open>advance\<close> is what one executed request does to it,
  \<open>yields m b\<close> says that \<open>b\<close> is the block taken at \<open>m\<close>. The status codes that the client reads
  as a refusal promise that nothing was taken; any other failure may come before or after.
\<close>

definition refusal_code :: "status_code \<Rightarrow> bool" where
  "refusal_code c \<longleftrightarrow> c = FailedPrecondition \<or> c = InvalidArgument \<or> c = ResourceExhausted \<or> c = Unimplemented"

locale dense_link =
  fixes env :: "'w client_env"
    and call :: "str \<Rightarrow> duration \<Rightarrow> 'w cw \<Rightarrow> (wire_status, 'r) result option \<times> 'w cw"
    and accept :: "'r \<Rightarrow> ('b \<times> u128) option"
    and inv :: "'w \<Rightarrow> bool"
    and mark :: "'w \<Rightarrow> 'm"
    and advance :: "'m \<Rightarrow> 'm"
    and yields :: "'m \<Rightarrow> 'b \<Rightarrow> bool"
  assumes dial_keeps: "ce_dial env e b st = (d, st') \<Longrightarrow> inv (snd st) \<Longrightarrow> inv (snd st') \<and> mark (snd st') = mark (snd st)"
    and sleep_keeps: "inv (snd st) \<Longrightarrow> inv (snd (ce_sleep env dur st)) \<and> mark (snd (ce_sleep env dur st)) = mark (snd st)"
    and call_ok: "call e b st = (Some (Inr resp), st') \<Longrightarrow> inv (snd st) \<Longrightarrow> mark (snd st') = advance (mark (snd st))"
    and call_block: "call e b st = (Some (Inr resp), st') \<Longrightarrow> inv (snd st) \<Longrightarrow> accept resp = Some (blk, ep) \<Longrightarrow>
      yields (mark (snd st)) blk"
    and call_refused: "call e b st = (Some (Inl status), st') \<Longrightarrow> inv (snd st) \<Longrightarrow> refusal_code (ws_code status) \<Longrightarrow>
      mark (snd st') = mark (snd st)"
    and call_any: "call e b st = (a, st') \<Longrightarrow> inv (snd st) \<Longrightarrow>
      inv (snd st') \<and> (mark (snd st') = mark (snd st) \<or> mark (snd st') = advance (mark (snd st)))"
begin

definition effect :: "'m \<Rightarrow> (client_error, 'b) result \<Rightarrow> 'w \<Rightarrow> bool" where
  "effect m r w \<longleftrightarrow> inv w \<and>
     (case r of Inr b \<Rightarrow> mark w = advance m \<and> yields m b
      | Inl e \<Rightarrow> mark w = m \<or> e = SeqUncertain \<and> mark w = advance m)"

lemma lease_keeps:
  "client_with_cell env e b st = (r, st') \<Longrightarrow> inv (snd st) \<Longrightarrow> inv (snd st') \<and> mark (snd st') = mark (snd st)"
  by (fastforce simp: client_with_cell_def on_pool_def Let_def dest: dial_keeps split: prod.splits option.splits sum.splits if_splits)

lemma back_off_keeps:
  "inv (snd st) \<Longrightarrow> inv (snd (back_off env policy budget n st)) \<and> mark (snd (back_off env policy budget n st)) = mark (snd st)"
  using sleep_keeps by (simp add: back_off_def Let_def)

lemma hint_step_not_ok: "seq_step_of_hint out \<noteq> StepOk x"
  by (cases out rule: seq_step_of_hint.cases) auto

lemma try_effect:
  assumes t: "seq_try env call accept e b st = (stp, st')" and i: "inv (snd st)"
  shows "inv (snd st') \<and> (case stp of StepOk x \<Rightarrow> effect (mark (snd st)) (Inr x) (snd st')
    | StepUncertain \<Rightarrow> effect (mark (snd st)) (Inl SeqUncertain) (snd st')
    | _ \<Rightarrow> mark (snd st') = mark (snd st))"
proof -
  obtain r st1 where c: "client_with_cell env e b st = (r, st1)" by (rule prod.exhaust)
  note keep = lease_keeps [OF c i]
  show ?thesis
  proof (cases "\<exists>cell. r = Some (Inr cell)")
    case False
    with t c keep show ?thesis by (auto simp: seq_try_def Let_def split: option.splits sum.splits)
  next
    case True
    then obtain cell where r: "r = Some (Inr cell)" by blast
    obtain a st2 where g: "call e (pair_remaining (pair_start b (now_at env st)) (now_at env st1)) st1 = (a, st2)"
      by (rule prod.exhaust)
    note any = call_any [OF g]
    have s: "snd st' = snd st2"
      using t c r g by (auto simp: seq_try_def with_pool_def on_pool_def Let_def
          split: option.splits sum.splits if_splits prod.splits)
    consider "a = None" | resp where "a = Some (Inr resp)" | status where "a = Some (Inl status)" "refusal_code (ws_code status)"
      | status where "a = Some (Inl status)" "\<not> refusal_code (ws_code status)"
      by (metis option.exhaust sum.exhaust)
    then show ?thesis
    proof cases
      case 1
      with t c r g s any keep show ?thesis by (auto simp: seq_try_def Let_def effect_def)
    next
      case (2 resp)
      with t c r g s any keep call_ok [OF g [unfolded 2]] call_block [OF g [unfolded 2]] show ?thesis
        by (auto simp: seq_try_def Let_def effect_def split: option.splits)
    next
      case (3 status)
      then have "stp \<noteq> StepOk x" for x
        using t c r g by (auto simp: seq_try_def Let_def refusal_code_def classify_seq_status_def hint_step_not_ok
            split: if_splits prod.splits)
      with 3 s any keep call_refused [OF g [unfolded 3(1)]] show ?thesis by (cases stp) (auto simp: effect_def)
    next
      case (4 status)
      with t c r g s any keep show ?thesis
        by (auto simp: seq_try_def Let_def effect_def refusal_code_def classify_seq_status_def)
    qed
  qed
qed

lemma iteration_effect:
  assumes s: "seq_iteration env call accept policy budget cap wl l st = (r, l', st')" and i: "inv (snd st)"
  shows "inv (snd st') \<and> (case r of Finish (PassReturn x) \<Rightarrow> effect (mark (snd st)) x (snd st') | _ \<Rightarrow> mark (snd st') = mark (snd st))"
  using s
proof (rule seq_iteration_try)
  fix endpoint b stp st1
  assume t: "seq_try env call accept endpoint b st = (stp, st1)"
    and ok: "\<And>x. stp = StepOk x \<Longrightarrow> r = Finish (PassReturn (Inr x)) \<and> st' = st1"
    and un: "stp = StepUncertain \<Longrightarrow> r = Finish (PassReturn (Inl SeqUncertain)) \<and> st' = st1"
    and go: "(\<forall>x. stp \<noteq> StepOk x) \<Longrightarrow> stp \<noteq> StepUncertain \<Longrightarrow>
         (\<forall>x. r \<noteq> Finish (PassReturn x)) \<and> (st' = st1 \<or> (\<exists>n. st' = back_off env policy budget n st1))"
  note ef = try_effect [OF t i]
  show ?thesis
  proof (cases "(\<exists>x. stp = StepOk x) \<or> stp = StepUncertain")
    case True
    with ok un ef show ?thesis by auto
  next
    case False
    then have "inv (snd st1)" "mark (snd st1) = mark (snd st)" using ef by (auto split: seq_step.splits)
    with go False back_off_keeps [of st1] show ?thesis
      by (cases r) (auto split: pass_result.splits)
  qed
qed (use i in auto)

lemma pass_effect:
  assumes p: "seq_pass env call accept policy budget cap wl l st = (res, l', st')" and i: "inv (snd st)"
  shows "inv (snd st') \<and> (case res of PassReturn x \<Rightarrow> effect (mark (snd st)) x (snd st') | _ \<Rightarrow> mark (snd st') = mark (snd st))"
proof (rule seq_pass_rule [OF p, where I = "\<lambda>_ st1. inv (snd st1) \<and> mark (snd st1) = mark (snd st)"], goal_cases)
  case (2 wl1 l1 st1 wl2 l2 st2)
  with iteration_effect [OF 2(2)] show ?case by simp
next
  case (3 wl1 l1 st1)
  with iteration_effect [OF 3(2)] show ?case by (simp split: pass_result.splits)
qed (use i in simp)

lemma passes_effect:
  assumes "seq_passes env call accept policy budget cap pass l st = Some y" "inv (snd st)"
  shows "effect (mark (snd st)) (fst y) (snd (snd y))"
proof -
  define P where "P = (\<lambda>e c a (st :: 'w cw) y. e = env \<and> c = call \<and> a = accept \<longrightarrow> inv (snd st) \<longrightarrow>
    effect (mark (snd st)) (fst y) (snd (snd y :: 'w cw)))"
  have "P env call accept st y"
  proof (rule seq_passes.raw_induct [where P = "\<lambda>e c a _ _ _ _ _ st y. P e c a st y", OF _ assms(1)], goal_cases)
    case (1 f e c a policy budget cap pass l st y)
    show ?case
      unfolding P_def
    proof (intro impI)
      assume eq: "e = env \<and> c = call \<and> a = accept" and i: "inv (snd st)"
      obtain es p where it: "iter_round_robin (now_at env st) (fst st) = (es, p)" by (metis prod.exhaust)
      obtain res l1 st1 where r: "seq_pass env call accept policy budget (pass_cap policy pass cap es) (wl_new es) (new_pass l) (p, snd st)
          = (res, l1, st1)" by (metis prod.exhaust)
      note ef = pass_effect [OF r, simplified, OF i]
      show "effect (mark (snd st)) (fst y) (snd (snd y))"
      proof (cases "res = PassEnd \<and> lo_saw_election_signal l1 \<and> next_attempt budget (now_at env st1) \<noteq> None")
        case False
        with 1(2) eq it r ef show ?thesis by (cases res) (auto simp: Let_def effect_def split: sum.splits)
      next
        case True
        then have "P env call accept (back_off env policy budget pass st1) y"
          using 1 eq it r by (auto simp: Let_def)
        with True ef back_off_keeps [of st1 policy budget pass] show ?thesis by (simp add: P_def)
      qed
    qed
  qed
  with assms(2) show ?thesis by (simp add: P_def)
qed

lemma call_effect:
  "seq_call env call accept st = Some (r, st') \<Longrightarrow> inv (snd st) \<Longrightarrow> effect (mark (snd st)) r (snd st')"
  using passes_effect by (fastforce simp: seq_call_def Let_def)

end

section \<open>What a timestamp call returns\<close>

text \<open>
  \<open>pos\<close> is the position of the issuer behind the network: it never falls, and a response lies
  between the positions before and after its request.
\<close>

locale ts_link =
  fixes env :: "'w client_env"
    and inv :: "'w \<Rightarrow> bool"
    and pos :: "'w \<Rightarrow> nat"
  assumes dial_pos: "ce_dial env e b st = (d, st') \<Longrightarrow> inv (snd st) \<Longrightarrow> inv (snd st') \<and> pos (snd st) \<le> pos (snd st')"
    and sleep_pos: "inv (snd st) \<Longrightarrow> inv (snd (ce_sleep env dur st)) \<and> pos (snd st) \<le> pos (snd (ce_sleep env dur st))"
    and get_ts_pos: "ce_get_ts env e n b st = (a, st') \<Longrightarrow> inv (snd st) \<Longrightarrow> inv (snd st') \<and> pos (snd st) \<le> pos (snd st')"
    and get_ts_range: "ce_get_ts env e n b st = (Some (Inr resp), st') \<Longrightarrow> inv (snd st) \<Longrightarrow>
      pos (snd st) \<le> position (gr_physical_ms resp) (gr_logical_start resp)
      \<and> position (gr_physical_ms resp) (gr_logical_start resp) + unat (gr_count resp) \<le> pos (snd st')"
begin

definition within :: "nat \<Rightarrow> timestamp_range \<Rightarrow> 'w \<Rightarrow> bool" where
  "within m rng w \<longleftrightarrow> range_ok rng \<and> m \<le> position (tr_physical_ms rng) (tr_logical_start rng)
     \<and> position (tr_physical_ms rng) (tr_logical_start rng) + unat (tr_count rng) \<le> pos w"

lemma lease_pos: "client_with_cell env e b st = (r, st') \<Longrightarrow> inv (snd st) \<Longrightarrow> inv (snd st') \<and> pos (snd st) \<le> pos (snd st')"
  by (fastforce simp: client_with_cell_def on_pool_def Let_def dest: dial_pos split: prod.splits option.splits sum.splits if_splits)

lemma back_off_pos:
  "inv (snd st) \<Longrightarrow> inv (snd (back_off env policy budget n st)) \<and> pos (snd st) \<le> pos (snd (back_off env policy budget n st))"
  using sleep_pos by (simp add: back_off_def Let_def)

lemma attempt_pos:
  assumes t: "attempt env e n b st = (out, st')" and i: "inv (snd st)"
  shows "inv (snd st') \<and> pos (snd st) \<le> pos (snd st') \<and> (\<forall>rng ep. out = AttOk rng ep \<longrightarrow> within (pos (snd st)) rng (snd st'))"
proof -
  obtain r st1 where c: "client_with_cell env e b st = (r, st1)" by (rule prod.exhaust)
  note keep = lease_pos [OF c i]
  show ?thesis
  proof (cases "\<exists>cell. r = Some (Inr cell)")
    case False
    with t c keep show ?thesis by (auto simp: attempt_def Let_def split: option.splits sum.splits)
  next
    case True
    then obtain cell where r: "r = Some (Inr cell)" by blast
    obtain a st2 where g: "ce_get_ts env e n (pair_remaining (pair_start b (now_at env st)) (now_at env st1)) st1 = (a, st2)"
      by (rule prod.exhaust)
    note after = get_ts_pos [OF g conjunct1 [OF keep]]
    have s: "snd st' = snd st2"
      using t c r g by (auto simp: attempt_def attempt_failed_def with_pool_def on_pool_def Let_def
          split: option.splits sum.splits if_splits prod.splits)
    have "within (pos (snd st)) rng (snd st')" if "out = AttOk rng ep" for rng ep
    proof -
      have "\<exists>resp. a = Some (Inr resp) \<and> decode_get_ts_response resp n = Inr rng"
        using t c r g that by (auto simp: attempt_def attempt_failed_def with_pool_def classify_not_leader_hint_def follow_hint_def
            Let_def split: prod.splits option.splits sum.splits if_splits leader_hint_lookup.splits bool.splits)
      then obtain resp where resp: "a = Some (Inr resp)" "decode_get_ts_response resp n = Inr rng" by blast
      from get_ts_range [OF g [unfolded resp(1)] conjunct1 [OF keep]] resp(2) keep s show ?thesis
        by (auto simp: decode_Inr_iff within_def)
    qed
    with after keep s show ?thesis by auto
  qed
qed

lemma within_mono: "within m rng w \<Longrightarrow> m' \<le> m \<Longrightarrow> within m' rng w"
  by (simp add: within_def)

lemma step_pos:
  assumes s: "issue_step env policy budget cap count wl l st = (r, l', st')" and i: "inv (snd st)"
  shows "inv (snd st') \<and> pos (snd st) \<le> pos (snd st') \<and> (\<forall>rng. r = Finish (PassReturn rng) \<longrightarrow> within (pos (snd st)) rng (snd st'))"
proof -
  obtain ne wl' where n: "wl_next wl = (ne, wl')" by (rule prod.exhaust)
  show ?thesis
  proof (cases "\<exists>endpoint ab. ne = Some endpoint \<and> \<not> cap \<le> unat (lo_failed_attempts l) \<and> next_attempt budget (now_at env st) = Some ab")
    case False
    with s n i show ?thesis by (auto simp: issue_step_def split: option.splits if_splits)
  next
    case True
    then obtain endpoint ab where e: "ne = Some endpoint" "\<not> cap \<le> unat (lo_failed_attempts l)"
        "next_attempt budget (now_at env st) = Some ab" by blast
    obtain out st1 where a: "attempt env endpoint count ab st = (out, st1)" by (rule prod.exhaust)
    note ap = attempt_pos [OF a i]
    show ?thesis
    proof (cases "\<exists>rng ep. out = AttOk rng ep")
      case True
      with s n e a ap show ?thesis by (auto simp: issue_step_def on_pool_def)
    next
      case False
      with s n e a have "\<forall>rng. r \<noteq> Finish (PassReturn rng)" "st' = st1 \<or> (\<exists>k. st' = back_off env policy budget k st1)"
        by (auto simp: issue_step_def Let_def split: attempt_outcome.splits if_splits)
      with ap back_off_pos [of st1] show ?thesis by (auto intro: order_trans)
    qed
  qed
qed

lemma pass_pos:
  assumes p: "issue_pass env policy budget cap count wl l st = (res, l', st')" and i: "inv (snd st)"
  shows "inv (snd st') \<and> pos (snd st) \<le> pos (snd st') \<and> (\<forall>rng. res = PassReturn rng \<longrightarrow> within (pos (snd st)) rng (snd st'))"
proof (rule issue_pass_rule [OF p, where I = "\<lambda>_ st1. inv (snd st1) \<and> pos (snd st) \<le> pos (snd st1)"], goal_cases)
  case (2 wl1 l1 st1 wl2 l2 st2)
  with step_pos [OF 2(2)] show ?case by (auto intro: order_trans)
next
  case (3 wl1 l1 st1)
  with step_pos [OF 3(2)] show ?case by (auto intro: order_trans within_mono)
qed (use i in simp)

lemma passes_pos:
  assumes "issue_passes env policy budget count cap pass l st = Some y" "inv (snd st)"
  shows "inv (snd (snd y)) \<and> pos (snd st) \<le> pos (snd (snd y)) \<and> (\<forall>rng. fst y = Inr rng \<longrightarrow> within (pos (snd st)) rng (snd (snd y)))"
proof -
  define Q where "Q = (\<lambda>m (y :: (client_error, timestamp_range) result \<times> 'w cw).
    inv (snd (snd y)) \<and> m \<le> pos (snd (snd y)) \<and> (\<forall>rng. fst y = Inr rng \<longrightarrow> within m rng (snd (snd y))))"
  define P where "P = (\<lambda>e (st :: 'w cw) y. e = env \<longrightarrow> inv (snd st) \<longrightarrow> Q (pos (snd st)) y)"
  have mono: "Q m y \<Longrightarrow> m' \<le> m \<Longrightarrow> Q m' y" for m m' y by (auto simp: Q_def intro: within_mono)
  have "P env st y"
  proof (rule issue_passes.raw_induct [where P = "\<lambda>e _ _ _ _ _ _ st y. P e st y", OF _ assms(1)], goal_cases)
    case (1 f e policy budget count cap pass l st y)
    show ?case
      unfolding P_def
    proof (intro impI)
      assume eq: "e = env" and i: "inv (snd st)"
      obtain es p where it: "iter_round_robin (now_at env st) (fst st) = (es, p)" by (metis prod.exhaust)
      obtain res l1 st1 where r: "issue_pass env policy budget (pass_cap policy pass cap es) count (wl_new es) (new_pass l) (p, snd st)
          = (res, l1, st1)" by (metis prod.exhaust)
      note ef = pass_pos [OF r, simplified, OF i]
      show "Q (pos (snd st)) y"
      proof (cases "res = PassEnd \<and> lo_saw_election_signal l1 \<and> next_attempt budget (now_at env st1) \<noteq> None")
        case False
        with 1(2) eq it r ef show ?thesis by (cases res) (auto simp: Let_def Q_def)
      next
        case True
        then have "P env (back_off env policy budget pass st1) y" using 1 eq it r by (auto simp: Let_def)
        with ef back_off_pos [of st1 policy budget pass] show ?thesis by (auto simp: P_def intro: mono)
      qed
    qed
  qed
  with assms(2) show ?thesis by (simp add: P_def Q_def)
qed

lemma rpc_pos:
  assumes "issue_rpc env count st = Some (r, st')" "inv (snd st)"
  shows "inv (snd st')" "pos (snd st) \<le> pos (snd st')" "r = Inr rng \<Longrightarrow> within (pos (snd st)) rng (snd st')"
  using passes_pos [OF assms(1) [unfolded issue_rpc_def Let_def] assms(2)] by auto

end

end
