(* ===== verification/Client_Loopback.thy ===== *)
theory Client_Loopback
  imports Client_Calls Single_Node
begin

text \<open>
  The client on the single-node deployment: a network that delays, loses and cuts off
  exchanges, and a node that crashes and serves others in between. The laws of
  \<open>Client_Calls\<close> are interpreted on it, with the server's own handlers behind the requests.
\<close>

section \<open>A network with a node behind it\<close>

text \<open>
  What happens around one exchange: how long it takes, which other commands reach the node
  before it (requests of other clients, leadership events, crashes), the faults of the
  node's writes, and whether the answer arrives. A lost answer looks to the client like a
  broken connection or like a deadline that passed, and the node may have served the request.
\<close>

datatype fate = Delivered | Lost bool bool

record net_event =
  ne_delay :: nat
  ne_before :: "sn_cmd list"
  ne_ios :: "io_fault list"
  ne_fate :: fate

record loop_world =
  lw_clock :: nat
  lw_node :: sn_state
  lw_script :: "net_event list"

definition quiet_event :: net_event where
  "quiet_event = \<lparr>ne_delay = 0, ne_before = [], ne_ios = [], ne_fate = Delivered\<rparr>"

definition next_event :: "loop_world \<Rightarrow> net_event" where
  "next_event w = (case lw_script w of [] \<Rightarrow> quiet_event | ev # _ \<Rightarrow> ev)"

text \<open>The world when the request reaches the node.\<close>

definition arrive :: "(bytes \<Rightarrow> u32) \<Rightarrow> server_builder \<Rightarrow> loop_world \<Rightarrow> loop_world" where
  "arrive crc b w =
     (let ev = next_event w
      in w\<lparr>lw_clock := lw_clock w + ne_delay ev + 1, lw_script := tl (lw_script w),
           lw_node := snd (run_emit (sn_step crc b) (lw_node w) (ne_before ev))\<rparr>)"

type_synonym node_server = "(io_fault list \<times> file_driver) server"

definition node_call ::
  "(server_config \<Rightarrow> node_server \<Rightarrow> (status, 'a) result \<times> node_server) \<Rightarrow> io_fault list \<Rightarrow> sn_state
     \<Rightarrow> (wire_status, 'a) result \<times> sn_state" where
  "node_call handler ios node =
     (case node of
        SnUp cfg sv \<Rightarrow>
          (let (r, sv') = handler cfg (sv\<lparr>sv_driver := (ios, snd (sv_driver sv))\<rparr>)
           in (case r of Inl st \<Rightarrow> Inl (on_wire st) | Inr x \<Rightarrow> Inr x, SnUp cfg sv'))
      | SnDown f \<Rightarrow> (Inl (local_status Unavailable), SnDown f))"

definition exchange ::
  "(bytes \<Rightarrow> u32) \<Rightarrow> server_builder \<Rightarrow> (u64 \<Rightarrow> server_config \<Rightarrow> node_server \<Rightarrow> (status, 'a) result \<times> node_server)
     \<Rightarrow> loop_world \<Rightarrow> (wire_status, 'a) result option \<times> loop_world" where
  "exchange crc b handler w =
     (let ev = next_event w; w1 = arrive crc b w;
          (r, node') = node_call (handler (of_nat (lw_clock w1 div 1000000))) (ne_ios ev) (lw_node w1)
      in case ne_fate ev of
        Delivered \<Rightarrow> (Some r, w1\<lparr>lw_node := node'\<rparr>)
      | Lost served timed_out \<Rightarrow>
          (if timed_out then None else Some (Inl (local_status Unavailable)),
           if served then w1\<lparr>lw_node := node'\<rparr> else w1))"

definition map_answer :: "('a \<Rightarrow> 'b) \<Rightarrow> (wire_status, 'a) result option \<Rightarrow> (wire_status, 'b) result option" where
  "map_answer f = map_option (map_sum id f)"

definition seq_response_of :: "seq_grant_entry \<times> (u64 \<times> u64) \<Rightarrow> seq_response" where
  "seq_response_of x = \<lparr>sr_key = sge_key (fst x), sr_start = sge_start (fst x), sr_count = sge_count (fst x), sr_epoch = Some (snd x)\<rparr>"

definition seq_batch_response_of :: "seq_grant_entry list \<times> (u64 \<times> u64) \<Rightarrow> seq_batch_response" where
  "seq_batch_response_of x = \<lparr>sb_grants = fst x, sb_epoch = Some (snd x)\<rparr>"

definition loop_env :: "(bytes \<Rightarrow> u32) \<Rightarrow> server_builder \<Rightarrow> loop_world client_env" where
  "loop_env crc b =
     \<lparr>ce_now = lw_clock,
      ce_pick = (\<lambda>m st. lw_clock (snd st) mod (m + 1)),
      ce_sleep = (\<lambda>d (p, w). (p, w\<lparr>lw_clock := lw_clock w + d\<rparr>)),
      ce_dial = (\<lambda>endpoint budget (p, w).
        (case ne_fate (next_event w) of
           Delivered \<Rightarrow> Some (Inr ()) | Lost _ timed_out \<Rightarrow> if timed_out then None else Some (Inl Transport),
         (p, arrive crc b w))),
      ce_get_ts = (\<lambda>endpoint n budget (p, w).
        let (a, w') = exchange crc b (\<lambda>now cfg. get_ts cfg (fd_driver crc) now n) w in (a, (p, w'))),
      ce_get_seq = (\<lambda>endpoint key n budget (p, w).
        let (a, w') = exchange crc b (\<lambda>now cfg. get_seq (fd_driver crc) key n) w in (map_answer seq_response_of a, (p, w'))),
      ce_get_seq_batch = (\<lambda>endpoint es budget (p, w).
        let (a, w') = exchange crc b (\<lambda>now cfg. get_seq_batch (fd_driver crc) es) w in (map_answer seq_batch_response_of a, (p, w')))\<rparr>"

text \<open>A request is one exchange; the pool is not touched while it runs.\<close>

lemma loop_get_ts:
  "ce_get_ts (loop_env crc b) e n bd st = (a, st') \<Longrightarrow>
     \<exists>w'. exchange crc b (\<lambda>now cfg. get_ts cfg (fd_driver crc) now n) (snd st) = (a, w') \<and> st' = (fst st, w')"
  by (cases st) (auto simp: loop_env_def split: prod.splits)

lemma loop_get_seq:
  "ce_get_seq (loop_env crc b) e key n bd st = (a, st') \<Longrightarrow>
     \<exists>x w'. exchange crc b (\<lambda>now cfg. get_seq (fd_driver crc) key n) (snd st) = (x, w') \<and> map_answer seq_response_of x = a \<and> st' = (fst st, w')"
  by (cases st) (auto simp: loop_env_def split: prod.splits)

lemma loop_get_seq_batch:
  "ce_get_seq_batch (loop_env crc b) e es bd st = (a, st') \<Longrightarrow>
     \<exists>x w'. exchange crc b (\<lambda>now cfg. get_seq_batch (fd_driver crc) es) (snd st) = (x, w') \<and> map_answer seq_batch_response_of x = a
       \<and> st' = (fst st, w')"
  by (cases st) (auto simp: loop_env_def split: prod.splits)

lemma loop_dial:
  "ce_dial (loop_env crc b) e bd st = (d, st') \<Longrightarrow> st' = (fst st, arrive crc b (snd st))"
  by (cases st) (auto simp: loop_env_def)

lemma loop_sleep: "ce_sleep (loop_env crc b) d st = (fst st, (snd st)\<lparr>lw_clock := lw_clock (snd st) + d\<rparr>)"
  by (cases st) (simp add: loop_env_def)

lemma loop_now [simp]: "ce_now (loop_env crc b) = lw_clock"
  by (simp add: loop_env_def)

section \<open>Time\<close>

lemma arrive_clock: "lw_clock w < lw_clock (arrive crc b w)"
  by (simp add: arrive_def Let_def)

lemma exchange_clock: "exchange crc b h w = (a, w') \<Longrightarrow> lw_clock w < lw_clock w'"
  using arrive_clock [of w crc b] by (auto simp: exchange_def Let_def split: prod.splits fate.splits)

interpretation lpt: client_timing "loop_env crc b" for crc b
  by unfold_locales (auto simp: loop_sleep less_imp_le [OF arrive_clock] dest: loop_dial)

interpretation lpts: ts_timing "loop_env crc b" for crc b
  by unfold_locales (auto dest!: loop_get_ts exchange_clock)

interpretation lpq: seq_timing "loop_env crc b" "\<lambda>e. ce_get_seq (loop_env crc b) e key n" for crc b key n
  by unfold_locales (auto dest!: loop_get_seq exchange_clock)

interpretation lpb: seq_timing "loop_env crc b" "\<lambda>e. ce_get_seq_batch (loop_env crc b) e es" for crc b es
  by unfold_locales (auto dest!: loop_get_seq_batch exchange_clock)

section \<open>Timestamps\<close>

lemma run_node:
  "sn_inv crc node \<Longrightarrow> sn_inv crc (snd (run_emit (sn_step crc b) node cmds))
     \<and> sn_pos node \<le> sn_pos (snd (run_emit (sn_step crc b) node cmds))"
  using sni.run_facts by (metis prod.collapse)

lemma arrive_node:
  "sn_inv crc (lw_node w) \<Longrightarrow> sn_inv crc (lw_node (arrive crc b w)) \<and> sn_pos (lw_node w) \<le> sn_pos (lw_node (arrive crc b w))"
  using run_node by (simp add: arrive_def Let_def)

text \<open>A timestamp request at the node is the command of the system model.\<close>

lemma node_get_ts:
  assumes "node_call (\<lambda>cfg. get_ts cfg (fd_driver crc) now n) ios node = (r, node')" "sn_inv crc node"
  shows "sn_inv crc node' \<and> sn_pos node \<le> sn_pos node' \<and>
    (\<forall>resp. r = Inr resp \<longrightarrow> sn_pos node \<le> position (gr_physical_ms resp) (gr_logical_start resp)
      \<and> position (gr_physical_ms resp) (gr_logical_start resp) + unat (gr_count resp) \<le> sn_pos node')"
proof -
  obtain gs where s: "sn_step crc b node (SnCall ios (SrvGetTs now n)) = (gs, node')"
      "\<forall>resp. r = Inr resp \<longrightarrow> (\<exists>g. gs = [g] \<and> resp = ts_response g)" for b
    using assms(1) by (cases node) (auto simp: node_call_def get_ts_def Let_def split: prod.splits sum.splits)
  from sn_step_facts [OF assms(2) s(1)] s(2) show ?thesis
    by (fastforce simp: ts_response_def wg_lo_def wg_hi_def wg_ok_def)
qed

lemma exchange_get_ts:
  assumes "exchange crc b (\<lambda>now cfg. get_ts cfg (fd_driver crc) now n) w = (a, w')" "sn_inv crc (lw_node w)"
  shows "sn_inv crc (lw_node w') \<and> sn_pos (lw_node w) \<le> sn_pos (lw_node w') \<and>
    (\<forall>resp. a = Some (Inr resp) \<longrightarrow> sn_pos (lw_node w) \<le> position (gr_physical_ms resp) (gr_logical_start resp)
      \<and> position (gr_physical_ms resp) (gr_logical_start resp) + unat (gr_count resp) \<le> sn_pos (lw_node w'))"
proof -
  let ?w = "arrive crc b w"
  note w = arrive_node [OF assms(2), of b]
  obtain r node' where c: "node_call (\<lambda>cfg. get_ts cfg (fd_driver crc) (of_nat (lw_clock ?w div 1000000)) n)
      (ne_ios (next_event w)) (lw_node ?w) = (r, node')" by (rule prod.exhaust)
  from node_get_ts [OF c] w assms(1) c show ?thesis
    by (cases "ne_fate (next_event w)") (auto simp: exchange_def Let_def split: if_splits intro: order_trans)
qed

interpretation lpp: ts_link "loop_env crc b" "\<lambda>w. sn_inv crc (lw_node w)" "\<lambda>w. sn_pos (lw_node w)" for crc b
  by unfold_locales (auto simp: loop_sleep arrive_node dest!: loop_dial loop_get_ts dest: exchange_get_ts)

section \<open>Dense blocks\<close>

definition node_counter :: "sn_state \<Rightarrow> seq_key \<Rightarrow> u64" where
  "node_counter node = fd_counter (sn_driver node)"

definition undisturbed :: "loop_world \<Rightarrow> bool" where
  "undisturbed w \<longleftrightarrow> bt_wf (ds_map (fd_dense (sn_driver (lw_node w)))) \<and> list_all (\<lambda>ev. ne_before ev = []) (lw_script w)"

text \<open>The counters after the entries were advanced, if they could be.\<close>

definition taken :: "(seq_key \<times> u32) list \<Rightarrow> (seq_key \<Rightarrow> u64) \<Rightarrow> seq_key \<Rightarrow> u64" where
  "taken es c = (case seq_fold c es of Some (_, c') \<Rightarrow> c' | None \<Rightarrow> c)"

lemma arrive_undisturbed:
  assumes "undisturbed w"
  shows "undisturbed (arrive crc b w)" "lw_node (arrive crc b w) = lw_node w"
proof -
  have "ne_before (next_event w) = []" "list_all (\<lambda>ev. ne_before ev = []) (tl (lw_script w))"
    using assms by (cases "lw_script w"; auto simp: undisturbed_def next_event_def quiet_event_def)+
  with assms show "undisturbed (arrive crc b w)" "lw_node (arrive crc b w) = lw_node w"
    by (auto simp: undisturbed_def arrive_def Let_def)
qed

text \<open>A handler that takes one block per entry when it succeeds and nothing when it fails.\<close>

definition dense_handler ::
  "(seq_key \<times> u32) list \<Rightarrow> (u64 list \<Rightarrow> 'a \<Rightarrow> bool) \<Rightarrow> (node_server \<Rightarrow> (status, 'a) result \<times> node_server) \<Rightarrow> bool" where
  "dense_handler es grants h \<longleftrightarrow> (\<forall>sv r sv'. bt_wf (ds_map (fd_dense (snd (sv_driver sv)))) \<longrightarrow> h sv = (r, sv') \<longrightarrow>
     bt_wf (ds_map (fd_dense (snd (sv_driver sv')))) \<and>
     (case r of Inl _ \<Rightarrow> fd_counter (snd (sv_driver sv')) = fd_counter (snd (sv_driver sv))
      | Inr x \<Rightarrow> \<exists>starts. seq_fold (fd_counter (snd (sv_driver sv))) es = Some (starts, fd_counter (snd (sv_driver sv'))) \<and> grants starts x))"

lemma get_seq_dense:
  "dense_handler [(SeqKey key, n)] (\<lambda>starts x. starts = [sge_start (fst x)] \<and> sge_count (fst x) = n) (get_seq (fd_driver crc) key n)"
  unfolding dense_handler_def
proof (intro allI impI)
  fix sv r sv'
  assume i: "bt_wf (ds_map (fd_dense (snd (sv_driver sv))))" and g: "get_seq (fd_driver crc) key n sv = (r, sv')"
  have "bt_wf (ds_map (fd_dense (snd (sv_driver sv'))))"
    using get_seq_frame [of "fd_driver crc" key n sv] fds.advance_dinv [OF i] g i by auto
  with fds.get_seq_block [OF i g] show "bt_wf (ds_map (fd_dense (snd (sv_driver sv')))) \<and>
     (case r of Inl _ \<Rightarrow> fd_counter (snd (sv_driver sv')) = fd_counter (snd (sv_driver sv))
      | Inr x \<Rightarrow> \<exists>starts. seq_fold (fd_counter (snd (sv_driver sv))) [(SeqKey key, n)] = Some (starts, fd_counter (snd (sv_driver sv')))
          \<and> starts = [sge_start (fst x)] \<and> sge_count (fst x) = n)"
    by (auto simp del: seq_fold.simps split: sum.splits)
qed

lemma get_seq_batch_dense:
  "dense_handler (map (\<lambda>(key, n). (SeqKey key, n)) es)
     (\<lambda>starts x. starts = map sge_start (fst x) \<and> map (\<lambda>g. (sge_key g, sge_count g)) (fst x) = es) (get_seq_batch (fd_driver crc) es)"
  unfolding dense_handler_def
proof (intro allI impI)
  fix sv r sv'
  assume i: "bt_wf (ds_map (fd_dense (snd (sv_driver sv))))" and g: "get_seq_batch (fd_driver crc) es sv = (r, sv')"
  have "bt_wf (ds_map (fd_dense (snd (sv_driver sv'))))"
    using get_seq_batch_frame [of "fd_driver crc" es sv] fds.batch_dinv [OF i] g i by auto
  with fds.get_seq_batch_blocks [OF i g] show "bt_wf (ds_map (fd_dense (snd (sv_driver sv')))) \<and>
     (case r of Inl _ \<Rightarrow> fd_counter (snd (sv_driver sv')) = fd_counter (snd (sv_driver sv))
      | Inr x \<Rightarrow> \<exists>starts. seq_fold (fd_counter (snd (sv_driver sv))) (map (\<lambda>(key, n). (SeqKey key, n)) es)
            = Some (starts, fd_counter (snd (sv_driver sv')))
          \<and> starts = map sge_start (fst x) \<and> map (\<lambda>g. (sge_key g, sge_count g)) (fst x) = es)"
    by (auto split: sum.splits)
qed

lemma node_dense:
  assumes h: "dense_handler es grants h" and c: "node_call (\<lambda>cfg. h) ios node = (r, node')"
    and i: "bt_wf (ds_map (fd_dense (sn_driver node)))"
  shows "bt_wf (ds_map (fd_dense (sn_driver node')))
    \<and> (case r of Inl _ \<Rightarrow> node_counter node' = node_counter node
       | Inr x \<Rightarrow> \<exists>starts. seq_fold (node_counter node) es = Some (starts, node_counter node') \<and> grants starts x)"
proof (cases node)
  case (SnUp cfg sv)
  let ?sv = "sv\<lparr>sv_driver := (ios, snd (sv_driver sv))\<rparr>"
  obtain r0 sv' where g: "h ?sv = (r0, sv')" by (rule prod.exhaust)
  have "bt_wf (ds_map (fd_dense (snd (sv_driver ?sv))))" using i SnUp by (simp add: sn_driver_def)
  with h g have "bt_wf (ds_map (fd_dense (snd (sv_driver sv'))))"
     "case r0 of Inl _ \<Rightarrow> fd_counter (snd (sv_driver sv')) = fd_counter (snd (sv_driver ?sv))
      | Inr x \<Rightarrow> \<exists>starts. seq_fold (fd_counter (snd (sv_driver ?sv))) es = Some (starts, fd_counter (snd (sv_driver sv'))) \<and> grants starts x"
    unfolding dense_handler_def by blast+
  with c SnUp g show ?thesis
    by (auto simp: node_call_def sn_driver_def node_counter_def split: sum.splits)
qed (use c i in \<open>auto simp: node_call_def\<close>)

lemma exchange_dense:
  assumes h: "dense_handler es grants h" and x: "exchange crc b (\<lambda>now cfg. h) w = (a, w')" and i: "undisturbed w"
  defines "c \<equiv> node_counter (lw_node w)" and "c' \<equiv> node_counter (lw_node w')"
  shows "undisturbed w'" "c' = c \<or> c' = taken es c"
    "a = Some (Inr y) \<Longrightarrow> \<exists>starts. seq_fold c es = Some (starts, c') \<and> grants starts y"
    "a = Some (Inl status) \<Longrightarrow> refusal_code (ws_code status) \<Longrightarrow> c' = c"
proof -
  let ?w = "arrive crc b w"
  note w = arrive_undisturbed [OF i, of crc b]
  obtain r node' where n: "node_call (\<lambda>cfg. h) (ne_ios (next_event w)) (lw_node w) = (r, node')" by (rule prod.exhaust)
  have "bt_wf (ds_map (fd_dense (sn_driver (lw_node w))))" using i by (simp add: undisturbed_def)
  note nd = node_dense [OF h n this]
  have t: "node_counter node' = c \<or> node_counter node' = taken es c" using nd by (auto simp: c_def taken_def split: sum.splits)
  have u: "undisturbed (?w\<lparr>lw_node := node'\<rparr>)" using w nd by (simp add: undisturbed_def)
  have lost: "\<not> refusal_code (ws_code (local_status Unavailable))" by (simp add: refusal_code_def local_status_def)
  have "undisturbed w' \<and> (c' = c \<or> c' = taken es c)
      \<and> (a = Some (Inr y) \<longrightarrow> (\<exists>starts. seq_fold c es = Some (starts, c') \<and> grants starts y))
      \<and> (a = Some (Inl status) \<longrightarrow> refusal_code (ws_code status) \<longrightarrow> c' = c)"
    using x w n nd t u lost by (cases "ne_fate (next_event w)")
      (auto simp: exchange_def Let_def c_def c'_def split: if_splits)
  then show "undisturbed w'" "c' = c \<or> c' = taken es c"
    "a = Some (Inr y) \<Longrightarrow> \<exists>starts. seq_fold c es = Some (starts, c') \<and> grants starts y"
    "a = Some (Inl status) \<Longrightarrow> refusal_code (ws_code status) \<Longrightarrow> c' = c" by blast+
qed

lemma map_answer_simps [simp]:
  "map_answer f a = Some (Inr y) \<longleftrightarrow> (\<exists>x. a = Some (Inr x) \<and> y = f x)"
  "map_answer f a = Some (Inl st) \<longleftrightarrow> a = Some (Inl st)"
  by (cases a; cases "the a"; auto simp: map_answer_def)+

lemma taken_of_fold: "seq_fold c es = Some (ss, c') \<Longrightarrow> taken es c = c'"
  by (simp add: taken_def)

definition yields_block :: "str \<Rightarrow> u32 \<Rightarrow> (seq_key \<Rightarrow> u64) \<Rightarrow> seq_block \<Rightarrow> bool" where
  "yields_block key n c blk \<longleftrightarrow> seq_fold c [(SeqKey key, n)] = Some ([sk_start blk], taken [(SeqKey key, n)] c) \<and> sk_count blk = n"

definition yields_blocks :: "(str \<times> u32) list \<Rightarrow> (seq_key \<Rightarrow> u64) \<Rightarrow> seq_block list \<Rightarrow> bool" where
  "yields_blocks es c blks \<longleftrightarrow> (let ks = map (\<lambda>(key, n). (SeqKey key, n)) es
     in seq_fold c ks = Some (map sk_start blks, taken ks c) \<and> map sk_count blks = map snd es)"

interpretation lpd: dense_link "loop_env crc b" "\<lambda>e. ce_get_seq (loop_env crc b) e key n" "accept_seq key n" undisturbed
  "\<lambda>w. node_counter (lw_node w)" "taken [(SeqKey key, n)]" "yields_block key n" for crc b key n
proof (unfold_locales, goal_cases)
  case (1 e bd st d st')
  then show ?case using arrive_undisturbed by (auto dest!: loop_dial)
next
  case (2 st dur)
  then show ?case by (simp add: loop_sleep undisturbed_def)
next
  case (3 e bd st resp st')
  then obtain x w' where x: "exchange crc b (\<lambda>now cfg. get_seq (fd_driver crc) key n) (snd st) = (Some (Inr x), w')" "st' = (fst st, w')"
    by (auto dest!: loop_get_seq)
  from exchange_dense(3) [OF get_seq_dense x(1) 3(2)] x(2) show ?case by (auto simp del: seq_fold.simps dest: taken_of_fold)
next
  case (4 e bd st resp st' blk ep)
  then obtain x w' where x: "exchange crc b (\<lambda>now cfg. get_seq (fd_driver crc) key n) (snd st) = (Some (Inr x), w')"
      "st' = (fst st, w')" "resp = seq_response_of x"
    by (auto dest!: loop_get_seq)
  from exchange_dense(3) [OF get_seq_dense x(1) 4(2)] x(3) 4(3) show ?case
    by (auto simp: yields_block_def accept_seq_def seq_response_of_def simp del: seq_fold.simps dest: taken_of_fold split: if_splits)
next
  case (5 e bd st status st')
  then obtain w' where x: "exchange crc b (\<lambda>now cfg. get_seq (fd_driver crc) key n) (snd st) = (Some (Inl status), w')" "st' = (fst st, w')"
    by (auto dest!: loop_get_seq)
  from exchange_dense(4) [OF get_seq_dense x(1) 5(2)] x(2) 5(3) show ?case by simp
next
  case (6 e bd st a st')
  then obtain x w' where x: "exchange crc b (\<lambda>now cfg. get_seq (fd_driver crc) key n) (snd st) = (x, w')" "st' = (fst st, w')"
    by (auto dest!: loop_get_seq)
  from exchange_dense(1,2) [OF get_seq_dense x(1) 6(2)] x(2) show ?case by simp
qed

lemma accept_grants_blocks:
  "accept_grants ep es gs = Some bs \<Longrightarrow> length gs = length es \<Longrightarrow> map sk_start bs = map sge_start gs \<and> map sk_count bs = map snd es"
  by (induction ep es gs arbitrary: bs rule: accept_grants.induct) (auto split: if_splits)

interpretation lpm: dense_link "loop_env crc b" "\<lambda>e. ce_get_seq_batch (loop_env crc b) e es" "accept_seq_batch es" undisturbed
  "\<lambda>w. node_counter (lw_node w)" "taken (map (\<lambda>(key, n). (SeqKey key, n)) es)" "yields_blocks es" for crc b es
proof (unfold_locales, goal_cases)
  case (1 e bd st d st')
  then show ?case using arrive_undisturbed by (auto dest!: loop_dial)
next
  case (2 st dur)
  then show ?case by (simp add: loop_sleep undisturbed_def)
next
  case (3 e bd st resp st')
  then obtain x w' where x: "exchange crc b (\<lambda>now cfg. get_seq_batch (fd_driver crc) es) (snd st) = (Some (Inr x), w')" "st' = (fst st, w')"
    by (auto dest!: loop_get_seq_batch)
  from exchange_dense(3) [OF get_seq_batch_dense x(1) 3(2)] x(2) show ?case by (auto dest: taken_of_fold)
next
  case (4 e bd st resp st' blk ep)
  then obtain x w' where x: "exchange crc b (\<lambda>now cfg. get_seq_batch (fd_driver crc) es) (snd st) = (Some (Inr x), w')"
      "st' = (fst st, w')" "resp = seq_batch_response_of x"
    by (auto dest!: loop_get_seq_batch)
  from exchange_dense(3) [OF get_seq_batch_dense x(1) 4(2)] x(3) 4(3) show ?case
    by (auto simp: yields_blocks_def accept_seq_batch_def seq_batch_response_of_def dest!: taken_of_fold accept_grants_blocks
        split: if_splits)
next
  case (5 e bd st status st')
  then obtain w' where x: "exchange crc b (\<lambda>now cfg. get_seq_batch (fd_driver crc) es) (snd st) = (Some (Inl status), w')" "st' = (fst st, w')"
    by (auto dest!: loop_get_seq_batch)
  from exchange_dense(4) [OF get_seq_batch_dense x(1) 5(2)] x(2) 5(3) show ?case by simp
next
  case (6 e bd st a st')
  then obtain x w' where x: "exchange crc b (\<lambda>now cfg. get_seq_batch (fd_driver crc) es) (snd st) = (x, w')" "st' = (fst st, w')"
    by (auto dest!: loop_get_seq_batch)
  from exchange_dense(1,2) [OF get_seq_batch_dense x(1) 6(2)] x(2) show ?case by simp
qed

section \<open>Sessions\<close>

text \<open>
  A client that asks again and again, with the timestamps it is given; a call that fails
  gives none. One value of the option means that every call returned.
\<close>

fun client_calls :: "'w client_env \<Rightarrow> u32 list \<Rightarrow> 'w cw \<Rightarrow> (timestamp list \<times> 'w cw) option" where
  "client_calls env [] st = Some ([], st)"
| "client_calls env (n # ns) st =
     (case issue_rpc env n st of
        None \<Rightarrow> None
      | Some (r, st1) \<Rightarrow>
          map_option (\<lambda>(ts, st2). ((case r of Inl _ \<Rightarrow> [] | Inr rng \<Rightarrow> timestamps rng) @ ts, st2)) (client_calls env ns st1))"

lemma range_timestamps:
  assumes "range_ok rng"
  shows "sorted_wrt (<) (timestamps rng)"
    and "t \<in> set (timestamps rng) \<Longrightarrow> position (tr_physical_ms rng) (tr_logical_start rng) \<le> unat (ts_val t)
      \<and> unat (ts_val t) < position (tr_physical_ms rng) (tr_logical_start rng) + unat (tr_count rng)"
proof -
  have "sorted_wrt (<) (map (\<lambda>t. unat (ts_val t)) (timestamps rng))"
    by (subst range_iter_valid(2) [OF assms]) (rule sorted_wrt_upt)
  then show "sorted_wrt (<) (timestamps rng)"
    by (rule sorted_wrt_mono_rel [rotated, OF sorted_wrt_map [THEN iffD1]])
      (simp add: less_timestamp_def word_less_nat_alt)
  assume "t \<in> set (timestamps rng)"
  then have "unat (ts_val t) \<in> set (map (\<lambda>t. unat (ts_val t)) (timestamps rng))" by simp
  then show "position (tr_physical_ms rng) (tr_logical_start rng) \<le> unat (ts_val t)
      \<and> unat (ts_val t) < position (tr_physical_ms rng) (tr_logical_start rng) + unat (tr_count rng)"
    by (subst (asm) range_iter_valid(2) [OF assms]) simp
qed

lemma loop_calls:
  assumes "sn_inv crc (lw_node (snd st))"
  shows "\<exists>ts st'. client_calls (loop_env crc b) ns st = Some (ts, st') \<and> sorted_wrt (<) ts
    \<and> (\<forall>t \<in> set ts. sn_pos (lw_node (snd st)) \<le> unat (ts_val t))"
  using assms
proof (induction ns arbitrary: st)
  case (Cons n ns)
  obtain r st1 where r: "issue_rpc (loop_env crc b) n st = Some (r, st1)" using lpts.rpc_ends by (metis surj_pair)
  note pos = lpp.rpc_pos [OF r Cons.prems]
  from Cons.IH [OF pos(1)] obtain ts st' where ih: "client_calls (loop_env crc b) ns st1 = Some (ts, st')" "sorted_wrt (<) ts"
      "\<forall>t \<in> set ts. sn_pos (lw_node (snd st1)) \<le> unat (ts_val t)" by blast
  show ?case
  proof (cases r)
    case (Inl e)
    with r ih pos(2) show ?thesis by (fastforce intro: order_trans)
  next
    case (Inr rng)
    then have w: "range_ok rng" "sn_pos (lw_node (snd st)) \<le> position (tr_physical_ms rng) (tr_logical_start rng)"
        "position (tr_physical_ms rng) (tr_logical_start rng) + unat (tr_count rng) \<le> sn_pos (lw_node (snd st1))"
      using pos(3) by (simp_all add: lpp.within_def)
    note rt = range_timestamps [OF w(1)]
    have "\<forall>t \<in> set (timestamps rng). \<forall>u \<in> set ts. t < u"
      using rt(2) ih(3) w(3) by (fastforce simp: less_timestamp_def word_less_nat_alt)
    with r Inr ih rt w pos(2) show ?thesis by (fastforce simp: sorted_wrt_append)
  qed
qed simp

lemma seq_fold_one:
  assumes "seq_fold c [(k, n)] = Some (ss, c')"
  shows "ss = [c k] \<and> c' = c(k := c k + ucast n) \<and> unat (c k) + unat n < 2 ^ 64"
proof -
  obtain v where v: "checked_add (c k) (ucast n) = Some v" "ss = [c k]" "c' = c(k := v)"
    using assms by (auto split: option.splits)
  moreover from checked_add_SomeD [OF v(1)] have "v = c k + ucast n" "unat v = unat (c k) + unat n" by auto
  moreover have "unat v < 2 ^ 64" using unat_u64_bound [of v] by simp
  ultimately show ?thesis by metis
qed

section \<open>Properties\<close>

text \<open>
  C2. End to end on one node: whatever the network does to a client's exchanges, however the
  node crashes and restarts, whoever else it serves, every call of the client returns, and the
  timestamps the client is given, over all its calls and across all their retries, are
  strictly increasing.
\<close>

theorem client_timestamps_strictly_increase:
  "\<exists>ts st'. client_calls (loop_env crc b) ns (pool, \<lparr>lw_clock = t, lw_node = sn_start crc b, lw_script = evs\<rparr>) = Some (ts, st')
     \<and> sorted_wrt (<) ts"
  using loop_calls [of crc "(pool, \<lparr>lw_clock = t, lw_node = sn_start crc b, lw_script = evs\<rparr>)" b ns] sn_start_inv by auto

text \<open>
  C19. The retry loop of a timestamp call ends. It needs a network on which no operation turns
  the clock back and a request takes time; whatever the answers are, redirects and election
  signals included, the call returns a range or an error.
\<close>

theorem retry_loop_returns:
  assumes "ts_timing env"
  shows "\<exists>r st'. issue_rpc env count st = Some (r, st')"
  using ts_timing.rpc_ends [OF assms] by (metis surj_pair)

theorem retry_loop_returns_witness:
  "\<exists>r st'. issue_rpc (loop_env (\<lambda>_. 0) builder_default) 3
     (pool_new [[1]] False policy_default 0, \<lparr>lw_clock = 0, lw_node = SnDown fd_fresh, lw_script = []\<rparr>) = Some (r, st')"
  by (rule retry_loop_returns [OF lpts.ts_timing_axioms])

text \<open>
  C18. A dense call takes its block once or not at all. On success the block starts at the old
  counter and exactly the requested count is gone; on an error nothing is gone; only the
  error \<open>SeqUncertain\<close>, which the client is told, leaves open whether the count is gone. No
  other key moves. So no retry inside the client can consume a second block.
\<close>

theorem dense_call_outcome:
  assumes "undisturbed w"
  shows "\<exists>r p' w'. issue_seq_rpc (loop_env crc b) key n (p, w) = Some (r, (p', w')) \<and>
    (let c = node_counter (lw_node w); c' = node_counter (lw_node w'); k = SeqKey key; gone = c(k := c k + ucast n)
     in case r of
       Inr blk \<Rightarrow> sk_start blk = c k \<and> sk_count blk = n \<and> c' = gone \<and> unat (c k) + unat n < 2 ^ 64
     | Inl e \<Rightarrow> c' = c \<or> e = SeqUncertain \<and> c' = gone \<and> unat (c k) + unat n < 2 ^ 64)"
proof -
  let ?c = "node_counter (lw_node w)" and ?k = "SeqKey key"
  note fold = seq_fold_one [of ?c ?k n]
  have gone: "taken [(?k, n)] ?c = ?c \<or> taken [(?k, n)] ?c = ?c(?k := ?c ?k + ucast n) \<and> unat (?c ?k) + unat n < 2 ^ 64"
    using fold by (auto simp: taken_def simp del: seq_fold.simps split: option.splits)
  obtain r st' where r: "issue_seq_rpc (loop_env crc b) key n (p, w) = Some (r, st')"
    using lpq.seq_call_ends unfolding issue_seq_rpc_def by (metis surj_pair)
  have ef: "lpd.effect key n ?c r (snd st')"
    using lpd.call_effect [OF r [unfolded issue_seq_rpc_def]] assms by simp
  show ?thesis
  proof (cases r)
    case (Inl e)
    with r ef gone show ?thesis by (cases st') (auto simp: lpd.effect_def Let_def)
  next
    case (Inr blk)
    then have "node_counter (lw_node (snd st')) = taken [(?k, n)] ?c" "yields_block key n ?c blk"
      using ef by (simp_all add: lpd.effect_def)
    with r Inr fold show ?thesis by (cases st') (auto simp: Let_def yields_block_def simp del: seq_fold.simps)
  qed
qed

definition demo_world :: "net_event list \<Rightarrow> loop_world" where
  "demo_world evs = \<lparr>lw_clock = 0, lw_node = SnUp \<lparr>cf_window_ahead = 0, cf_failover_advance = 0, cf_lease_ttl_floor = 0, cf_lease_ttl_ceiling = 0\<rparr>
     \<lparr>sv_core = demo_core, sv_driver = ([], fd_fresh)\<rparr>, lw_script = evs\<rparr>"

text \<open>An answer that is lost after the node has served the request.\<close>

definition demo_lost :: loop_world where
  "demo_lost = demo_world [quiet_event, quiet_event\<lparr>ne_fate := Lost True True\<rparr>]"

theorem dense_call_outcome_witness:
  "undisturbed demo_lost \<and>
   (\<exists>r p' w'. issue_seq_rpc (loop_env (\<lambda>_. 0) builder_default) [107] 4 (pool_new [[1]] False policy_default 0, demo_lost) = Some (r, (p', w'))
     \<and> (let c = node_counter (lw_node demo_lost); c' = node_counter (lw_node w'); k = SeqKey [107]; gone = c(k := c k + ucast (4 :: u32))
        in case r of
          Inr blk \<Rightarrow> sk_start blk = c k \<and> sk_count blk = 4 \<and> c' = gone \<and> unat (c k) + unat (4 :: u32) < 2 ^ 64
        | Inl e \<Rightarrow> c' = c \<or> e = SeqUncertain \<and> c' = gone \<and> unat (c k) + unat (4 :: u32) < 2 ^ 64))"
proof -
  have i: "undisturbed demo_lost"
    by (simp add: demo_lost_def undisturbed_def demo_world_def quiet_event_def sn_driver_def fd_fresh_def)
  from i dense_call_outcome [OF i, of "\<lambda>_. 0" builder_default "[107]" 4 "pool_new [[1]] False policy_default 0"]
  show ?thesis by blast
qed

end
