(* ===== verification/Client_Coalescing.thy ===== *)
theory Client_Coalescing
  imports Client_Driver "HOL-Library.Multiset"
begin

text \<open>
  Correctness of the client's driver task: what callers get is what was issued, in order,
  from requests sent after they asked; nobody is lost or answered twice; and how many callers
  the driver holds.
\<close>

section \<open>What a run of the driver does\<close>

definition asked :: "driver_event list \<Rightarrow> waiter list" where
  "asked es = List.map_filter (\<lambda>e. case e of Asked w \<Rightarrow> Some w | _ \<Rightarrow> None) es"

definition replied :: "driver_event list \<Rightarrow> (waiter \<times> reply) list" where
  "replied es = List.map_filter (\<lambda>e. case e of Replied w r \<Rightarrow> Some (w, r) | _ \<Rightarrow> None) es"

definition handed :: "driver_event list \<Rightarrow> timestamp list" where
  "handed es = concat (map (\<lambda>(w, r). case r of Inr ts \<Rightarrow> ts | Inl _ \<Rightarrow> []) (replied es))"

definition issued :: "driver_event list \<Rightarrow> timestamp list" where
  "issued es = concat (map (\<lambda>e. case e of RpcAnswered (Inr r) \<Rightarrow> timestamps r | _ \<Rightarrow> []) es)"

lemma event_lists [simp]:
  "asked [] = []" "replied [] = []" "handed [] = []" "issued [] = []"
  "asked (xs @ ys) = asked xs @ asked ys" "replied (xs @ ys) = replied xs @ replied ys"
  "handed (xs @ ys) = handed xs @ handed ys" "issued (xs @ ys) = issued xs @ issued ys"
  "asked (replies rs) = []" "replied (replies rs) = rs" "issued (replies rs) = []"
  "handed (replies rs) = concat (map (\<lambda>(w, r). case r of Inr ts \<Rightarrow> ts | Inl _ \<Rightarrow> []) rs)"
proof -
  have f: "List.map_filter f (map g xs) = List.map_filter (f \<circ> g) xs" for f :: "'b \<Rightarrow> 'c option" and g :: "'a \<Rightarrow> 'b" and xs
    by (simp add: List.map_filter_def filter_map comp_def)
  have s: "List.map_filter (\<lambda>x. Some (h x)) xs = map h xs" for h :: "'a \<Rightarrow> 'b" and xs by (simp add: List.map_filter_def comp_def)
  have n: "List.map_filter (\<lambda>x. None) xs = []" for xs :: "'a list" by (simp add: List.map_filter_def)
  show r: "replied (replies rs) = rs" by (simp add: replied_def f comp_def split_beta s)
  show "asked (replies rs) = []" by (simp add: asked_def f comp_def split_beta n)
  show "issued (replies rs) = []" by (simp add: issued_def comp_def split_beta)
  show "handed (replies rs) = concat (map (\<lambda>(w, r). case r of Inr ts \<Rightarrow> ts | Inl _ \<Rightarrow> []) rs)" by (simp add: handed_def r)
qed (simp_all add: asked_def replied_def handed_def issued_def List.map_filter_def)

lemma event_simps [simp]:
  "asked (Asked w # es) = w # asked es" "asked (RpcSent n # es) = asked es" "asked (RpcAnswered r # es) = asked es"
  "replied (Asked w # es) = replied es" "replied (RpcSent n # es) = replied es" "replied (RpcAnswered r # es) = replied es"
  "handed (Asked w # es) = handed es" "handed (RpcSent n # es) = handed es" "handed (RpcAnswered r # es) = handed es"
  "issued (Asked w # es) = issued es" "issued (RpcSent n # es) = issued es"
  "issued (RpcAnswered r # es) = (case r of Inr x \<Rightarrow> timestamps x | Inl _ \<Rightarrow> []) @ issued es"
  by (simp_all add: asked_def replied_def handed_def issued_def List.map_filter_def split: sum.splits)

lemma set_asked: "set (asked es) = {w. Asked w \<in> set es}"
  by (force simp: asked_def List.map_filter_def split: driver_event.splits)

lemma handed_errors [simp]:
  "concat (map (\<lambda>(w, r). case r of Inr ts \<Rightarrow> ts | Inl _ \<Rightarrow> []) (dropped ws)) = []"
  "concat (map (\<lambda>(w, r). case r of Inr ts \<Rightarrow> ts | Inl _ \<Rightarrow> []) (map (\<lambda>w. (w, Inl (e w))) ws)) = []"
  "concat (map (\<lambda>(w, r). case r of Inr ts \<Rightarrow> ts | Inl _ \<Rightarrow> []) (zip ws (map Inr tss))) = concat (take (length ws) tss)"
  "map fst (dropped ws) = ws"
proof -
  show "concat (map (\<lambda>(w, r). case r of Inr ts \<Rightarrow> ts | Inl _ \<Rightarrow> []) (zip ws (map Inr tss))) = concat (take (length ws) tss)"
  proof (induction ws arbitrary: tss)
    case (Cons w ws)
    then show ?case by (cases tss) auto
  qed simp
qed (simp_all add: dropped_def comp_def)

text \<open>
  The invariant: every caller is in exactly one place or has been answered once, the chunks
  in flight are within the limit, the half-capacity bounds hold, and what was handed out is
  what was issued.
\<close>

definition in_flight_waiters :: "driver_state \<Rightarrow> waiter list" where
  "in_flight_waiters s = (case dv_in_flight s of None \<Rightarrow> [] | Some b \<Rightarrow> batch_waiters b)"

definition inside :: "driver_state \<Rightarrow> waiter list" where
  "inside s = in_flight_waiters s @ dv_queue s @ dv_chan s"

definition batch_ok :: "batch \<Rightarrow> bool" where
  "batch_ok b \<longleftrightarrow> list_all chunk_ok (ba_chunks b) \<and> (ba_sent b \<longrightarrow> ba_failed b = None \<and> ba_chunks b \<noteq> [])"

definition dv_inv :: "driver_event list \<Rightarrow> driver_state \<Rightarrow> bool" where
  "dv_inv es s \<longleftrightarrow> mset (asked es) = mset (map fst (replied es)) + mset (inside s)
     \<and> pred_option batch_ok (dv_in_flight s) \<and> handed es = issued es
     \<and> length (dv_chan s) \<le> 2048 \<and> length (dv_queue s) \<le> 2048 \<and> length (in_flight_waiters s) \<le> 2048"

lemma deliver_InlD: "deliver ws (Inl e) n = (rs, dead) \<Longrightarrow> map fst rs = ws \<and> \<not> dead
    \<and> concat (map (\<lambda>(w, r). case r of Inr ts \<Rightarrow> ts | Inl _ \<Rightarrow> []) rs) = []"
  by (auto simp: deliver_def comp_def)

lemma deliver_decoded:
  assumes "decode_get_ts_response resp n = Inr r" "chunk_ok (n, ws)" "deliver ws (Inr r) n = (rs, dead)"
  shows "map fst rs = ws" "\<not> dead" "concat (map (\<lambda>(w, r). case r of Inr ts \<Rightarrow> ts | Inl _ \<Rightarrow> []) rs) = timestamps r"
    and "\<forall>(w, a) \<in> set rs. \<exists>ts. a = Inr ts \<and> length ts = unat (w_count w) \<and> set ts \<subseteq> set (timestamps r)"
proof -
  from assms(1) have r: "range_ok r" "tr_count r = n" by (auto simp: decode_Inr_iff)
  let ?ns = "map (\<lambda>w. unat (w_count w)) ws"
  have rs: "rs = zip ws (map Inr (slices (timestamps r) ?ns))" "\<not> dead"
    using deliver_valid [OF r, of ws] assms(3) by auto
  have sum: "sum_list ?ns = length (timestamps r)" using assms(2) r by (simp add: chunk_ok_def)
  show "map fst rs = ws" "\<not> dead" using rs by simp_all
  show "concat (map (\<lambda>(w, r). case r of Inr ts \<Rightarrow> ts | Inl _ \<Rightarrow> []) rs) = timestamps r"
    using sum by (simp add: rs concat_slices)
  have ls: "map length (slices (timestamps r) ?ns) = ?ns" using sum by (intro slices_lengths) simp
  have cs: "concat (slices (timestamps r) ?ns) = timestamps r" using sum by (rule concat_slices)
  show "\<forall>(w, a) \<in> set rs. \<exists>ts. a = Inr ts \<and> length ts = unat (w_count w) \<and> set ts \<subseteq> set (timestamps r)"
  proof (clarsimp simp: rs in_set_zip)
    fix i assume i: "i < length ws"
    have "length (slices (timestamps r) ?ns ! i) = ?ns ! i" using ls i by (metis length_map nth_map length_slices)
    moreover have "set (slices (timestamps r) ?ns ! i) \<subseteq> set (concat (slices (timestamps r) ?ns))" using i by fastforce
    ultimately show "length (slices (timestamps r) ?ns ! i) = unat (w_count (ws ! i))
        \<and> set (slices (timestamps r) ?ns ! i) \<subseteq> set (timestamps r)"
      using i cs by simp
  qed
qed

lemma flush_queue_inv:
  assumes "dv_inv es s" "dv_in_flight s = None" "flush_queue s = (rs, s')"
  shows "dv_inv (es @ replies rs) s'"
proof -
  obtain rs0 cs where c: "chunk_queue (dv_queue s) = (rs0, cs)" by fastforce
  note sp = chunk_queue_spec [OF c]
  from assms(3) c have s': "rs = rs0" "s' = s\<lparr>dv_first_arrival := None, dv_queue := [],
      dv_in_flight := (if cs = [] then None else Some \<lparr>ba_chunks = cs, ba_failed = None, ba_sent = False\<rparr>)\<rparr>"
    by (simp_all add: flush_queue_def)
  have split: "mset (dv_queue s) = mset (filter (\<lambda>w. \<not> servable w) (dv_queue s)) + mset (filter servable (dv_queue s))"
    by (induction "dv_queue s") auto
  have fl: "in_flight_waiters s' = filter servable (dv_queue s)"
    using sp(2) by (auto simp: s' in_flight_waiters_def)
  have len: "length (filter servable (dv_queue s)) \<le> 2048"
    using assms(1) by (auto simp: dv_inv_def intro: order_trans [OF length_filter_le])
  have fs: "map fst rs = filter (\<lambda>w. \<not> servable w) (dv_queue s)" using sp(1) s' by (simp add: comp_def)
  have bo: "pred_option batch_ok (dv_in_flight s')" using sp(3) by (simp add: s' batch_ok_def)
  have co: "concat (map (\<lambda>(w, r). case r of Inr ts \<Rightarrow> ts | Inl _ \<Rightarrow> []) rs) = []" using sp(1) s' by simp
  moreover have "inside s = dv_queue s @ dv_chan s" "inside s' = filter servable (dv_queue s) @ dv_chan s"
    and ch: "dv_queue s' = []" "dv_chan s' = dv_chan s"
    using fl assms(2) by (simp_all add: inside_def s'(2)) (simp add: in_flight_waiters_def)
  moreover define A B where "A = mset (filter (\<lambda>w. \<not> servable w) (dv_queue s))" and "B = mset (filter servable (dv_queue s))"
  ultimately have "mset (inside s) = A + B + mset (dv_chan s)" "mset (inside s') = B + mset (dv_chan s)" "mset (map fst rs) = A"
    using split fs by (simp_all only: mset_append)
  then have "mset (asked es) = mset (map fst (replied (es @ replies rs))) + mset (inside s')"
    using assms(1) by (simp add: dv_inv_def ac_simps)
  with fl len bo co ch show ?thesis using assms(1) by (simp add: dv_inv_def del: mset_map)
qed

lemma dv_step_inv:
  assumes "dv_step fi s new s'" "dv_inv es s"
  shows "dv_inv (es @ new) s'"
  using assms(1)
proof cases
  case (ask w)
  with assms(2) show ?thesis by (auto simp: dv_inv_def inside_def in_flight_waiters_def QUEUE_CAPACITY_def)
next
  case (recv w ws now)
  with assms(2) show ?thesis
    by (auto simp: dv_inv_def inside_def in_flight_waiters_def QUEUE_CAPACITY_def dv_enqueue_def)
next
  case (flush now rs)
  with flush_queue_inv assms(2) show ?thesis by simp
next
  case (send b n ws cs)
  with assms(2) show ?thesis by (auto simp: dv_inv_def inside_def in_flight_waiters_def batch_ok_def)
next
  case (answer b n ws cs r rs)
  have ok: "chunk_ok (n, ws)" "list_all chunk_ok cs" using assms(2) answer by (simp_all add: dv_inv_def batch_ok_def)
  have d: "map fst rs = ws \<and> concat (map (\<lambda>(w, r). case r of Inr ts \<Rightarrow> ts | Inl _ \<Rightarrow> []) rs)
      = (case r of Inr x \<Rightarrow> timestamps x | Inl _ \<Rightarrow> [])"
  proof (cases r)
    case (Inl e)
    with deliver_InlD answer show ?thesis by fastforce
  next
    case (Inr x)
    then obtain resp where "decode_get_ts_response resp n = Inr x" using answer by blast
    from deliver_decoded [OF this ok(1), of rs False] answer Inr show ?thesis by simp
  qed
  with assms(2) answer ok show ?thesis
    by (auto simp: dv_inv_def inside_def in_flight_waiters_def batch_ok_def)
next
  case (answer_dies b n ws cs r rs)
  have ok: "chunk_ok (n, ws)" using assms(2) answer_dies by (simp add: dv_inv_def batch_ok_def)
  have False
  proof (cases r)
    case (Inl e)
    with deliver_InlD answer_dies show ?thesis by fastforce
  next
    case (Inr x)
    then obtain resp where "decode_get_ts_response resp n = Inr x" using answer_dies by blast
    from deliver_decoded(2) [OF this ok, of rs True] answer_dies Inr show ?thesis by simp
  qed
  then show ?thesis ..
next
  case (fail_fast b n ws cs e rs dead)
  with deliver_InlD [OF fail_fast(6)] assms(2) show ?thesis
    by (auto simp: dv_inv_def inside_def in_flight_waiters_def batch_ok_def)
next
  case (batch_dies b)
  with assms(2) show ?thesis by (auto simp: dv_inv_def inside_def in_flight_waiters_def)
next
  case (batch_done b)
  with assms(2) show ?thesis by (auto simp: dv_inv_def inside_def in_flight_waiters_def)
qed

lemma dv_run_inv: "dv_run fi es s \<Longrightarrow> dv_inv es s"
  by (induction rule: dv_run.induct)
    (auto simp: dv_inv_def dv_init_def inside_def in_flight_waiters_def dest: dv_step_inv [unfolded dv_inv_def])

section \<open>Freshness\<close>

text \<open>
  Every answer comes from a request that was sent after the caller had asked: in the events
  before a reply, the last answered request was sent after the \<open>Asked\<close> of the caller.
\<close>

fun fresh_reply :: "driver_event list \<Rightarrow> driver_event \<Rightarrow> bool" where
  "fresh_reply pre (Replied w (Inr ts)) \<longleftrightarrow>
     (\<exists>a n b r c. pre = a @ RpcSent n # b @ RpcAnswered (Inr r) # c \<and> Asked w \<in> set a
        \<and> (\<forall>x. RpcAnswered x \<notin> set b) \<and> length ts = unat (w_count w) \<and> set ts \<subseteq> set (timestamps r))"
| "fresh_reply pre _ \<longleftrightarrow> True"

fun fresh_from :: "driver_event list \<Rightarrow> driver_event list \<Rightarrow> bool" where
  "fresh_from pre [] \<longleftrightarrow> True"
| "fresh_from pre (e # es) \<longleftrightarrow> fresh_reply pre e \<and> fresh_from (pre @ [e]) es"

lemma fresh_from_append [simp]: "fresh_from pre (xs @ ys) \<longleftrightarrow> fresh_from pre xs \<and> fresh_from (pre @ xs) ys"
  by (induction xs arbitrary: pre) auto

definition fresh_inv :: "driver_event list \<Rightarrow> driver_state \<Rightarrow> bool" where
  "fresh_inv es s \<longleftrightarrow> fresh_from [] es
     \<and> (\<forall>b. dv_in_flight s = Some b \<and> ba_sent b \<longrightarrow>
          (\<exists>a n c. es = a @ RpcSent n # c \<and> (\<forall>x. RpcAnswered x \<notin> set c) \<and> (\<forall>w \<in> set (batch_waiters b). Asked w \<in> set a)))"

lemma fresh_errors:
  "\<forall>(w, a) \<in> set rs. \<exists>e. a = Inl e \<Longrightarrow> fresh_from pre (replies rs)"
  by (induction rs arbitrary: pre) auto

lemma fresh_answers:
  assumes "\<forall>(w, a) \<in> set rs. \<exists>ts. a = Inr ts \<and> length ts = unat (w_count w) \<and> set ts \<subseteq> set (timestamps r)"
    and "pre = a @ RpcSent n # b @ RpcAnswered (Inr r) # c" "\<forall>x. RpcAnswered x \<notin> set b" "\<forall>w \<in> fst ` set rs. Asked w \<in> set a"
  shows "fresh_from pre (replies rs)"
  using assms
proof (induction rs arbitrary: pre c)
  case (Cons p rs)
  obtain w ts where p: "p = (w, Inr ts)" "length ts = unat (w_count w)" "set ts \<subseteq> set (timestamps r)"
    using Cons.prems(1) by (cases p) auto
  have "fresh_reply pre (Replied w (Inr ts))" using Cons.prems(2-4) p
    by (simp only: fresh_reply.simps, intro exI [of _ a] exI [of _ n] exI [of _ b] exI [of _ r] exI [of _ c]) simp
  moreover have "fresh_from (pre @ [Replied w (Inr ts)]) (replies rs)"
    using Cons.prems by (intro Cons.IH [where c = "c @ [Replied w (Inr ts)]"]) auto
  ultimately show ?case using p by simp
qed simp

lemma deliver_errors: "deliver ws (Inl e) n = (rs, dead) \<Longrightarrow> \<forall>(w, a) \<in> set rs. \<exists>e. a = Inl e"
  by (auto simp: deliver_def)

lemma dv_step_fresh:
  assumes "dv_step fi s new s'" "dv_inv es s" "fresh_inv es s"
  shows "fresh_inv (es @ new) s'"
proof -
  have fr: "fresh_from [] es" using assms(3) by (simp add: fresh_inv_def)
  have asked: "w \<in> set (inside s) \<Longrightarrow> Asked w \<in> set es" for w
  proof -
    assume "w \<in> set (inside s)"
    then have "w \<in># mset (asked es)" using assms(2) by (simp add: dv_inv_def)
    then show "Asked w \<in> set es" by (simp add: set_asked)
  qed
  have keep: "\<exists>a n c. es @ quiet = a @ RpcSent n # c \<and> (\<forall>x. RpcAnswered x \<notin> set c)
      \<and> (\<forall>w \<in> set (batch_waiters b). Asked w \<in> set a)"
    if "dv_in_flight s = Some b" "ba_sent b" "\<forall>x. RpcAnswered x \<notin> set quiet" for b quiet
  proof -
    from assms(3) that obtain a n c where "es = a @ RpcSent n # c" "\<forall>x. RpcAnswered x \<notin> set c"
        "\<forall>w \<in> set (batch_waiters b). Asked w \<in> set a"
      unfolding fresh_inv_def by blast
    with that(3) show ?thesis by (intro exI [of _ a] exI [of _ n] exI [of _ "c @ quiet"]) auto
  qed
  show ?thesis
    using assms(1)
  proof cases
    case (ask w)
    with fr keep [where quiet = "[Asked w]"] show ?thesis by (auto simp: fresh_inv_def)
  next
    case (recv w ws now)
    with fr keep [where quiet = "[]"] show ?thesis by (auto simp: fresh_inv_def dv_enqueue_def)
  next
    case (flush now rs)
    then obtain rs0 cs where c: "chunk_queue (dv_queue s) = (rs0, cs)" by fastforce
    from chunk_queue_spec(1) [OF c] flush c have "\<forall>(w, a) \<in> set rs. \<exists>e. a = Inl e" by (auto simp: flush_queue_def)
    with fresh_errors fr flush c show ?thesis by (auto simp: fresh_inv_def flush_queue_def split: if_splits)
  next
    case (send b n ws cs)
    have "\<forall>w \<in> set (batch_waiters b). Asked w \<in> set es"
      using asked send by (auto simp: inside_def in_flight_waiters_def)
    moreover have "es @ [RpcSent n] = es @ RpcSent n # []" by simp
    ultimately show ?thesis using fr send unfolding fresh_inv_def
      by (simp, intro exI [of _ es] exI [of _ n] exI [of _ "[]"]) auto
  next
    case (answer b n ws cs r rs)
    have ok: "chunk_ok (n, ws)" using assms(2) answer by (simp add: dv_inv_def batch_ok_def)
    have "fresh_from (es @ [RpcAnswered r]) (replies rs)"
    proof (cases r)
      case (Inl e)
      with answer deliver_errors show ?thesis by (intro fresh_errors) blast
    next
      case (Inr x)
      then obtain resp where rp: "decode_get_ts_response resp n = Inr x" using answer by blast
      note d = deliver_decoded [OF rp ok, of rs False]
      obtain a m c where a: "es = a @ RpcSent m # c" "\<forall>x. RpcAnswered x \<notin> set c"
          "\<forall>w \<in> set (batch_waiters b). Asked w \<in> set a"
        using keep [of b "[]"] answer by auto
      have "\<forall>w \<in> fst ` set rs. Asked w \<in> set a" using d(1) answer Inr a(3) by (auto simp flip: set_map)
      then show ?thesis
        using d(4) answer Inr a(1,2) by (intro fresh_answers [where a = a and n = m and b = c and c = "[]" and r = x]) auto
    qed
    with fr answer show ?thesis by (simp add: fresh_inv_def)
  next
    case (answer_dies b n ws cs r rs)
    with dv_step_inv [OF assms(1,2)] assms(2) have False
      by (cases r) (auto simp: dv_inv_def batch_ok_def dest: deliver_InlD deliver_decoded(2))
    then show ?thesis ..
  next
    case (fail_fast b n ws cs e rs dead)
    from deliver_errors [OF fail_fast(6)] fresh_errors have "fresh_from es (replies rs)" by blast
    moreover have "\<not> ba_sent b" using assms(2) fail_fast by (auto simp: dv_inv_def batch_ok_def)
    ultimately show ?thesis using fr fail_fast by (simp add: fresh_inv_def)
  next
    case (batch_dies b)
    have "fresh_from es (replies (dropped (batch_waiters b)))" by (rule fresh_errors) (auto simp: dropped_def)
    with fr batch_dies show ?thesis by (simp add: fresh_inv_def)
  next
    case (batch_done b)
    with fr show ?thesis by (simp add: fresh_inv_def)
  qed
qed

lemma dv_run_fresh: "dv_run fi es s \<Longrightarrow> fresh_inv es s"
proof (induction rule: dv_run.induct)
  case dv_start
  then show ?case by (simp add: fresh_inv_def dv_init_def)
next
  case (dv_next es s new s')
  then show ?case using dv_step_fresh dv_run_inv by blast
qed

section \<open>Running the driver\<close>

text \<open>A scheduler's moves and what the driver does on them.\<close>

datatype driver_move =
    MoveAsk waiter | MoveRecv nat | MoveFlush nat | MoveSend | MoveAnswer "(client_error, get_ts_response) result"
  | MoveFailFast | MoveDone

fun dv_do :: "nat \<Rightarrow> driver_move \<Rightarrow> driver_state \<Rightarrow> (driver_event list \<times> driver_state) option" where
  "dv_do fi (MoveAsk w) s =
     (if length (dv_chan s) < QUEUE_CAPACITY div 2 then Some ([Asked w], s\<lparr>dv_chan := dv_chan s @ [w]\<rparr>) else None)"
| "dv_do fi (MoveRecv now) s =
     (case dv_chan s of
        w # ws \<Rightarrow>
          if length (dv_queue s) < QUEUE_CAPACITY div 2 \<and> (dv_in_flight s \<noteq> None \<or> dv_queue s = [] \<or> 0 < fi) then Some ([], dv_enqueue now w (s\<lparr>dv_chan := ws\<rparr>)) else None
      | [] \<Rightarrow> None)"
| "dv_do fi (MoveFlush now) s =
     (if dv_in_flight s = None \<and> dv_queue s \<noteq> []
         \<and> (fi = 0 \<or> (case dv_first_arrival s of None \<Rightarrow> True | Some t \<Rightarrow> t + fi \<le> now))
      then (let (rs, s') = flush_queue s in Some (replies rs, s')) else None)"
| "dv_do fi MoveSend s =
     (case dv_in_flight s of
        Some b \<Rightarrow>
          (case ba_chunks b of
             (n, ws) # cs \<Rightarrow>
               if ba_failed b = None \<and> \<not> ba_sent b
               then Some ([RpcSent n], s\<lparr>dv_in_flight := Some (b\<lparr>ba_sent := True\<rparr>)\<rparr>) else None
           | [] \<Rightarrow> None)
      | None \<Rightarrow> None)"
| "dv_do fi (MoveAnswer a) s =
     (case dv_in_flight s of
        Some b \<Rightarrow>
          (case ba_chunks b of
             (n, ws) # cs \<Rightarrow>
               if ba_sent b then
                 (let r = and_then a (\<lambda>resp. decode_get_ts_response resp n); (rs, dead) = deliver ws r n
                  in if dead then None
                     else Some (RpcAnswered r # replies rs, s\<lparr>dv_in_flight := Some \<lparr>ba_chunks = cs,
                       ba_failed = (case r of Inl e \<Rightarrow> Some (clone_client_error e) | Inr _ \<Rightarrow> None), ba_sent = False\<rparr>\<rparr>))
               else None
           | [] \<Rightarrow> None)
      | None \<Rightarrow> None)"
| "dv_do fi MoveFailFast s =
     (case dv_in_flight s of
        Some b \<Rightarrow>
          (case (ba_chunks b, ba_failed b) of
             ((n, ws) # cs, Some e) \<Rightarrow>
               Some (replies (fst (deliver ws (Inl (clone_client_error e)) n)), s\<lparr>dv_in_flight := Some (b\<lparr>ba_chunks := cs\<rparr>)\<rparr>)
           | _ \<Rightarrow> None)
      | None \<Rightarrow> None)"
| "dv_do fi MoveDone s =
     (case dv_in_flight s of
        Some b \<Rightarrow> if ba_chunks b = [] then Some ([], s\<lparr>dv_in_flight := None\<rparr>) else None
      | None \<Rightarrow> None)"

fun dv_do_all :: "nat \<Rightarrow> driver_move list \<Rightarrow> driver_state \<Rightarrow> (driver_event list \<times> driver_state) option" where
  "dv_do_all fi [] s = Some ([], s)"
| "dv_do_all fi (m # ms) s =
     (case dv_do fi m s of None \<Rightarrow> None
      | Some (es, s') \<Rightarrow> (case dv_do_all fi ms s' of None \<Rightarrow> None | Some (es', s'') \<Rightarrow> Some (es @ es', s'')))"

lemma dv_do_step:
  assumes "dv_do fi m s = Some (es, s')"
  shows "dv_step fi s es s'"
proof (cases m)
  case (MoveAnswer a)
  then obtain b n ws cs rs where b: "dv_in_flight s = Some b" "ba_chunks b = (n, ws) # cs" "ba_sent b"
      "deliver ws (and_then a (\<lambda>resp. decode_get_ts_response resp n)) n = (rs, False)"
      "es = RpcAnswered (and_then a (\<lambda>resp. decode_get_ts_response resp n)) # replies rs"
      "s' = s\<lparr>dv_in_flight := Some \<lparr>ba_chunks = cs,
        ba_failed = (case and_then a (\<lambda>resp. decode_get_ts_response resp n) of Inl e \<Rightarrow> Some (clone_client_error e) | Inr _ \<Rightarrow> None),
        ba_sent = False\<rparr>\<rparr>"
    using assms by (auto simp: Let_def split: option.splits list.splits prod.splits if_splits)
  show ?thesis unfolding b(5,6)
    by (rule dv_step.answer [OF b(1-3) _ b(4)]) (auto simp: and_then_Inr_iff)
next
  case MoveFailFast
  then obtain b n ws cs e where b: "dv_in_flight s = Some b" "ba_chunks b = (n, ws) # cs" "ba_failed b = Some e"
      "es = replies (fst (deliver ws (Inl (clone_client_error e)) n))" "s' = s\<lparr>dv_in_flight := Some (b\<lparr>ba_chunks := cs\<rparr>)\<rparr>"
    using assms by (auto split: option.splits list.splits prod.splits)
  show ?thesis unfolding b(4,5) by (rule dv_step.fail_fast [OF b(1-3) prod.collapse [symmetric]])
qed (use assms in \<open>auto intro: dv_step.ask dv_step.recv dv_step.flush dv_step.send dv_step.batch_done
      split: option.splits list.splits prod.splits if_splits\<close>)

lemma dv_do_all_run:
  "dv_do_all fi ms s = Some (es', s') \<Longrightarrow> dv_run fi es s \<Longrightarrow> dv_run fi (es @ es') s'"
proof (induction fi ms s arbitrary: es es' s' rule: dv_do_all.induct)
  case (2 fi m ms s)
  from 2(2) obtain e1 s1 e2 where d: "dv_do fi m s = Some (e1, s1)" "dv_do_all fi ms s1 = Some (e2, s')" "es' = e1 @ e2"
    by (auto split: option.splits prod.splits)
  have "dv_run fi (es @ e1) s1" using dv_run.dv_next [OF 2(3) dv_do_step [OF d(1)]] .
  from 2(1) [OF d(1) refl d(2) this] d(3) show ?case by simp
qed simp

text \<open>Three callers, one of them with an impossible count, and one request for the other two.\<close>

definition demo_waiter :: "nat \<Rightarrow> u32 \<Rightarrow> waiter" where
  "demo_waiter i n = \<lparr>w_id = i, w_count = n\<rparr>"

definition demo_response :: get_ts_response where
  "demo_response = \<lparr>gr_physical_ms = 5, gr_logical_start = 7, gr_count = 3, gr_epoch = (0, 0)\<rparr>"

definition demo_range :: timestamp_range where
  "demo_range = \<lparr>tr_physical_ms = 5, tr_logical_start = 7, tr_count = 3\<rparr>"

definition demo_ts :: "u64 \<Rightarrow> timestamp" where
  "demo_ts i = Timestamp (1310727 + i)"

definition demo_asked :: "driver_event list" where
  "demo_asked = [Asked (demo_waiter 1 2), Asked (demo_waiter 2 0), Asked (demo_waiter 3 1),
     Replied (demo_waiter 2 0) (Inl (ClientInvalidCount 0))]"

definition demo_events :: "driver_event list" where
  "demo_events = demo_asked @ [RpcSent 3, RpcAnswered (Inr demo_range),
     Replied (demo_waiter 1 2) (Inr [demo_ts 0, demo_ts 1]), Replied (demo_waiter 3 1) (Inr [demo_ts 2])]"

lemma half_capacity: "QUEUE_CAPACITY div 2 = 2048"
  by (simp add: QUEUE_CAPACITY_def)

lemma demo_run_dv: "dv_run 1 demo_events dv_init"
proof -
  have "chunk_queue [demo_waiter 1 2, demo_waiter 2 0, demo_waiter 3 1]
      = ([(demo_waiter 2 0, Inl (ClientInvalidCount 0))], [(3, [demo_waiter 1 2, demo_waiter 3 1])])"
    "decode_get_ts_response demo_response 3 = Inr demo_range"
    "deliver [demo_waiter 1 2, demo_waiter 3 1] (Inr demo_range) 3
      = ([(demo_waiter 1 2, Inr [demo_ts 0, demo_ts 1]), (demo_waiter 3 1, Inr [demo_ts 2])], False)"
    by code_simp+
  then have "dv_do_all 1 [MoveAsk (demo_waiter 1 2), MoveAsk (demo_waiter 2 0), MoveAsk (demo_waiter 3 1),
      MoveRecv 0, MoveRecv 1, MoveRecv 2, MoveFlush 3, MoveSend, MoveAnswer (Inr demo_response), MoveDone] dv_init
      = Some (demo_events, dv_init)"
    by (simp add: half_capacity dv_init_def dv_enqueue_def flush_queue_def Let_def demo_events_def demo_asked_def)
  from dv_do_all_run [OF this dv_run.dv_start] show ?thesis by simp
qed

section \<open>Capacity\<close>

lemma fill_chan:
  assumes "dv_run fi es s" "length (dv_chan s) + n \<le> 2048"
  shows "\<exists>es'. dv_run fi es' (s\<lparr>dv_chan := dv_chan s @ replicate n w\<rparr>)"
  using assms(2)
proof (induction n)
  case 0
  then show ?case using assms(1) by auto
next
  case (Suc n)
  then obtain es' where r: "dv_run fi es' (s\<lparr>dv_chan := dv_chan s @ replicate n w\<rparr>)" by auto
  from dv_run.dv_next [OF r dv_step.ask [of _ fi w]] Suc.prems show ?case
    by (auto simp: half_capacity replicate_append_same)
qed

lemma drain_chan:
  assumes "dv_run fi es s" "0 < fi" "dv_chan s = replicate n w" "length (dv_queue s) + n \<le> 2048"
  shows "\<exists>es' t. dv_run fi es' (s\<lparr>dv_chan := [], dv_queue := dv_queue s @ replicate n w, dv_first_arrival := t\<rparr>)"
  using assms
proof (induction n arbitrary: es s)
  case 0
  then have "s\<lparr>dv_chan := [], dv_queue := dv_queue s @ replicate 0 w, dv_first_arrival := dv_first_arrival s\<rparr> = s" by simp
  with 0 show ?case by metis
next
  case (Suc n)
  have "dv_step fi s [] (dv_enqueue 0 w (s\<lparr>dv_chan := replicate n w\<rparr>))"
    using Suc.prems by (intro dv_step.recv) (auto simp: half_capacity)
  from Suc.IH [OF dv_run.dv_next [OF Suc.prems(1) this]] Suc.prems(2,4) show ?case
    by (simp add: dv_enqueue_def)
qed

lemma load_queue:
  assumes "dv_run fi es s" "dv_chan s = []" "dv_queue s = []" "0 < fi"
  shows "\<exists>es' t. dv_run fi es' (s\<lparr>dv_queue := replicate 2048 w, dv_first_arrival := t\<rparr>)"
proof -
  obtain es1 where r: "dv_run fi es1 (s\<lparr>dv_chan := replicate 2048 w\<rparr>)"
    using fill_chan [OF assms(1), of 2048 w] assms(2) by auto
  from drain_chan [OF r assms(4), of 2048 w] assms(2,3) show ?thesis by (cases s) simp
qed

lemma driver_fills_up:
  "\<exists>es s. dv_run 1 es s \<and> length (dv_chan s) = 2048 \<and> length (dv_queue s) = 2048 \<and> length (in_flight_waiters s) = 2048"
proof -
  let ?w = "demo_waiter 1 1"
  obtain es1 t1 where r1: "dv_run 1 es1 (dv_init\<lparr>dv_queue := replicate 2048 ?w, dv_first_arrival := t1\<rparr>)"
    using load_queue [OF dv_run.dv_start, of 1 ?w] by (auto simp: dv_init_def)
  let ?s1 = "dv_init\<lparr>dv_queue := replicate 2048 ?w, dv_first_arrival := t1\<rparr>"
  obtain rs cs where c: "chunk_queue (replicate 2048 ?w) = (rs, cs)" by fastforce
  have "servable ?w" by (simp add: servable_iff demo_waiter_def)
  then have cs: "concat (map snd cs) = replicate 2048 ?w" using chunk_queue_spec(2) [OF c] by simp
  then have "cs \<noteq> []" by auto
  let ?b = "\<lparr>ba_chunks = cs, ba_failed = None, ba_sent = False\<rparr>"
  have "flush_queue ?s1 = (rs, dv_init\<lparr>dv_in_flight := Some ?b\<rparr>)"
    using c \<open>cs \<noteq> []\<close> by (simp add: flush_queue_def dv_init_def)
  then have "dv_step 1 ?s1 (replies rs) (dv_init\<lparr>dv_in_flight := Some ?b\<rparr>)"
    by (intro dv_step.flush [where now = "case t1 of None \<Rightarrow> 0 | Some t \<Rightarrow> t + 1"]) (auto simp: dv_init_def split: option.splits)
  from load_queue [OF dv_run.dv_next [OF r1 this], of ?w]
  obtain es2 t2 where "dv_run 1 es2 (dv_init\<lparr>dv_in_flight := Some ?b, dv_queue := replicate 2048 ?w, dv_first_arrival := t2\<rparr>)"
    by (auto simp: dv_init_def)
  from fill_chan [OF this, of 2048 ?w]
  obtain es3 where "dv_run 1 es3 (dv_init\<lparr>dv_in_flight := Some ?b, dv_queue := replicate 2048 ?w, dv_first_arrival := t2,
      dv_chan := replicate 2048 ?w\<rparr>)"
    by (auto simp: dv_init_def)
  then show ?thesis using cs by (intro exI) (auto simp: in_flight_waiters_def)
qed

lemma sent_within_limit:
  assumes "dv_run fi es s" "RpcSent n \<in> set es"
  shows "0 < unat n \<and> unat n \<le> 262144"
  using assms
proof (induction rule: dv_run.induct)
  case (dv_next es s new s')
  have "0 < unat n \<and> unat n \<le> 262144" if "RpcSent n \<in> set new"
    using dv_next.hyps(2) that dv_run_inv [OF dv_next.hyps(1)]
    by cases (auto simp: dv_inv_def batch_ok_def chunk_ok_def)
  with dv_next show ?case by auto
qed simp

lemma replied_count:
  assumes "dv_run flush_interval es s" "Replied w (Inr ts) \<in> set es"
  shows "length ts = unat (w_count w)"
proof -
  obtain pre post where es: "es = pre @ Replied w (Inr ts) # post" using assms(2) by (auto dest: split_list)
  have "fresh_from [] es" using dv_run_fresh [OF assms(1)] by (simp add: fresh_inv_def)
  then show ?thesis by (auto simp: es)
qed

section \<open>Correctness of the coalescing driver\<close>

text \<open>
  C20. Over every interleaving of callers, flushes, requests, answers, failures and deaths of
  the batch task: the timestamps handed to callers are, in order, exactly the timestamps of
  the answered requests (none is lost, repeated or reordered), every caller who is handed
  timestamps gets exactly the number it asked for, every caller who asked is either still
  inside the driver or has been answered exactly once, and every request sent is within the
  protocol's limit.
\<close>

theorem coalescing_exact:
  assumes "dv_run flush_interval es s"
  shows "handed es = issued es
    \<and> (\<forall>w ts. Replied w (Inr ts) \<in> set es \<longrightarrow> length ts = unat (w_count w))
    \<and> mset (asked es) = mset (map fst (replied es)) + mset (inside s)
    \<and> (\<forall>n. RpcSent n \<in> set es \<longrightarrow> 0 < n \<and> n \<le> MAX_TIMESTAMPS_PER_RPC)"
  using dv_run_inv [OF assms] sent_within_limit [OF assms] replied_count [OF assms]
  by (auto simp: dv_inv_def word_le_nat_alt word_less_nat_alt unat_MAX_TIMESTAMPS_PER_RPC)

theorem coalescing_exact_witness:
  "dv_run 1 demo_events dv_init \<and> handed demo_events = [demo_ts 0, demo_ts 1, demo_ts 2]
     \<and> issued demo_events = handed demo_events \<and> length (replied demo_events) = 3
     \<and> Replied (demo_waiter 1 2) (Inr [demo_ts 0, demo_ts 1]) \<in> set demo_events
     \<and> length [demo_ts 0, demo_ts 1] = unat (w_count (demo_waiter 1 2))"
proof -
  have "handed demo_events = [demo_ts 0, demo_ts 1, demo_ts 2]" "length (replied demo_events) = 3" by code_simp+
  moreover have "Replied (demo_waiter 1 2) (Inr [demo_ts 0, demo_ts 1]) \<in> set demo_events"
    by (simp add: demo_events_def)
  moreover from this have "length [demo_ts 0, demo_ts 1] = unat (w_count (demo_waiter 1 2))"
    using coalescing_exact [OF demo_run_dv] by blast
  ultimately show ?thesis using coalescing_exact [OF demo_run_dv] demo_run_dv by simp
qed

text \<open>
  C21. Freshness: a caller is answered with exactly the number of timestamps it asked for, all
  taken from one request, and that request was sent after the caller had asked. No timestamp
  is kept from an earlier request.
\<close>

theorem coalescing_fresh:
  assumes "dv_run flush_interval (pre @ Replied w (Inr ts) # post) s"
  shows "\<exists>a n b r c. pre = a @ RpcSent n # b @ RpcAnswered (Inr r) # c \<and> Asked w \<in> set a
     \<and> (\<forall>x. RpcAnswered x \<notin> set b) \<and> length ts = unat (w_count w) \<and> set ts \<subseteq> set (timestamps r)"
proof -
  have "fresh_from [] (pre @ Replied w (Inr ts) # post)" using dv_run_fresh [OF assms] by (simp add: fresh_inv_def)
  then show ?thesis by simp
qed

theorem coalescing_fresh_witness:
  "dv_run 1 ((demo_asked @ [RpcSent 3, RpcAnswered (Inr demo_range)])
       @ Replied (demo_waiter 1 2) (Inr [demo_ts 0, demo_ts 1]) # [Replied (demo_waiter 3 1) (Inr [demo_ts 2])]) dv_init
     \<and> length [demo_ts 0, demo_ts 1] = unat (w_count (demo_waiter 1 2))"
proof -
  have r: "dv_run 1 ((demo_asked @ [RpcSent 3, RpcAnswered (Inr demo_range)])
       @ Replied (demo_waiter 1 2) (Inr [demo_ts 0, demo_ts 1]) # [Replied (demo_waiter 3 1) (Inr [demo_ts 2])]) dv_init"
    using demo_run_dv by (simp add: demo_events_def)
  with coalescing_fresh [OF r] show ?thesis by auto
qed

text \<open>
  C22. The callers inside the driver: each of the three places that hold them is bounded by half
  the queue capacity, and all three bounds are reached together. So the documented bound of
  \<open>QUEUE_CAPACITY\<close> on all callers inside the driver does not hold: it leaves out those of the
  batch in flight.
\<close>

theorem driver_capacity:
  "{length (dv_chan s) + length (dv_queue s) |es s. dv_run fi es s} \<subseteq> {.. QUEUE_CAPACITY}
   \<and> {length (inside s) |es s. dv_run fi es s} \<subseteq> {.. QUEUE_CAPACITY + QUEUE_CAPACITY div 2}
   \<and> QUEUE_CAPACITY + QUEUE_CAPACITY div 2 \<in> {length (inside s) |es s. dv_run 1 es s}"
proof (intro conjI subsetI)
  fix x assume "x \<in> {length (dv_chan s) + length (dv_queue s) |es s. dv_run fi es s}"
  then show "x \<in> {.. QUEUE_CAPACITY}" by (auto simp: dv_inv_def QUEUE_CAPACITY_def dest!: dv_run_inv)
next
  fix x assume "x \<in> {length (inside s) |es s. dv_run fi es s}"
  then show "x \<in> {.. QUEUE_CAPACITY + QUEUE_CAPACITY div 2}"
    by (auto simp: dv_inv_def inside_def QUEUE_CAPACITY_def dest!: dv_run_inv)
next
  show "QUEUE_CAPACITY + QUEUE_CAPACITY div 2 \<in> {length (inside s) |es s. dv_run 1 es s}"
  proof -
    obtain es s where "dv_run 1 es s" "length (inside s) = QUEUE_CAPACITY + QUEUE_CAPACITY div 2"
      using driver_fills_up by (auto simp: inside_def QUEUE_CAPACITY_def)
    then show ?thesis by (metis (mono_tags, lifting) mem_Collect_eq)
  qed
qed

text \<open>
  C23. A timestamp response is accepted exactly when it carries the count that was asked for,
  which is not zero, its logical range stays within the 18-bit field and its physical part
  within the 46-bit field; and the range built from it is valid: drawing its timestamps
  never panics and yields the consecutive ones from its start.
\<close>

theorem decoded_range_valid:
  "let ok = (gr_count resp = n \<and> n \<noteq> 0 \<and> unat (gr_logical_start resp) + unat n \<le> 262144 \<and> gr_physical_ms resp \<le> PHYSICAL_MS_MAX);
       start = position (gr_physical_ms resp) (gr_logical_start resp)
   in case decode_get_ts_response resp n of
        Inl _ \<Rightarrow> \<not> ok
      | Inr r \<Rightarrow> ok \<and> (\<exists>ts. range_iter r = map Some ts \<and> map (\<lambda>t. unat (ts_val t)) ts = [start ..< start + unat n])"
proof (cases "decode_get_ts_response resp n")
  case (Inl e)
  have "\<not> (gr_count resp = n \<and> n \<noteq> 0 \<and> unat (gr_logical_start resp) + unat n \<le> 262144 \<and> gr_physical_ms resp \<le> PHYSICAL_MS_MAX)"
  proof
    assume "gr_count resp = n \<and> n \<noteq> 0 \<and> unat (gr_logical_start resp) + unat n \<le> 262144 \<and> gr_physical_ms resp \<le> PHYSICAL_MS_MAX"
    then have "\<exists>r. decode_get_ts_response resp n = Inr r" by (simp add: decode_Inr_iff range_ok_def unat_gt_0)
    with Inl show False by simp
  qed
  with Inl show ?thesis by (simp add: Let_def)
next
  case (Inr r)
  then have "range_ok r" "tr_count r = n" "tr_physical_ms r = gr_physical_ms resp" "tr_logical_start r = gr_logical_start resp"
      "gr_count resp = n"
    by (auto simp: decode_Inr_iff)
  with range_iter_valid [of r] Inr show ?thesis by (auto simp: Let_def range_ok_def)
qed

end
