(* ===== verification/Paxos_Log.thy ===== *)
theory Paxos_Log
  imports Consensus
begin

text \<open>
  The replicated log of the OmniPaxos driver (\<open>tsoracle-driver-paxos\<close>): the packing of a
  ballot into an epoch (\<open>type_config.rs\<close>), commands and snapshots (\<open>log_entry.rs\<close>), the
  compaction policy (\<open>snapshot_policy.rs\<close>) and the apply state with its drain
  (\<open>state_machine.rs\<close>). OmniPaxos itself is a record of the calls the code makes; what the
  code relies on is the locale \<open>omnipaxos_log\<close>.
\<close>

section \<open>Ballots and epochs\<close>

text \<open>OmniPaxos's ballot; its static priority takes no part in the epoch.\<close>

record ballot =
  ba_config_id :: u32
  ba_n :: u32
  ba_pid :: u64

definition encode_epoch :: "ballot \<Rightarrow> epoch" where
  "encode_epoch b = Epoch (push_bit 96 (ucast (ba_config_id b)) OR push_bit 64 (ucast (ba_n b)) OR ucast (ba_pid b))"

definition decode_epoch :: "epoch \<Rightarrow> u32 \<times> u32 \<times> u64" where
  "decode_epoch e = (ucast (drop_bit 96 (epoch_val e)), ucast (drop_bit 64 (epoch_val e)), ucast (epoch_val e))"

section \<open>Commands and snapshots\<close>

datatype px_command = PxAdvance advance_payload | PxBarrier u64 u64

type_synonym ledger = "u64 \<rightharpoonup> u64"

definition ledger_seq :: "u64 \<Rightarrow> ledger \<Rightarrow> u64" where
  "ledger_seq node m = (case m node of Some s \<Rightarrow> s | None \<Rightarrow> 0)"

text \<open>The entry of a node, made at zero and raised to a larger sequence number.\<close>

definition ledger_note :: "u64 \<Rightarrow> u64 \<Rightarrow> ledger \<Rightarrow> ledger" where
  "ledger_note node seq m = m(node \<mapsto> (if seq > ledger_seq node m then seq else ledger_seq node m))"

definition ledger_merge :: "ledger \<Rightarrow> ledger \<Rightarrow> ledger" where
  "ledger_merge other m = (\<lambda>node. case other node of None \<Rightarrow> m node | Some seq \<Rightarrow> ledger_note node seq m node)"

record high_water_snapshot =
  hs_value :: u64
  hs_barriers :: ledger

fun snapshot_note :: "px_command \<Rightarrow> high_water_snapshot \<Rightarrow> high_water_snapshot" where
  "snapshot_note (PxAdvance p) s = s\<lparr>hs_value := merge p (hs_value s)\<rparr>"
| "snapshot_note (PxBarrier node seq) s = s\<lparr>hs_barriers := ledger_note node seq (hs_barriers s)\<rparr>"

definition snapshot_create :: "px_command list \<Rightarrow> high_water_snapshot" where
  "snapshot_create cmds = fold snapshot_note cmds \<lparr>hs_value = 0, hs_barriers = Map.empty\<rparr>"

definition snapshot_merge :: "high_water_snapshot \<Rightarrow> high_water_snapshot \<Rightarrow> high_water_snapshot" where
  "snapshot_merge other s = \<lparr>hs_value = max (hs_value s) (hs_value other), hs_barriers = ledger_merge (hs_barriers other) (hs_barriers s)\<rparr>"

section \<open>Compaction policy\<close>

record snapshot_policy =
  sp_every_n_decided :: u64
  sp_last_snapshot_at :: u64

definition policy_every :: "u64 \<Rightarrow> snapshot_policy" where
  "policy_every n = \<lparr>sp_every_n_decided = n, sp_last_snapshot_at = 0\<rparr>"

definition policy_disabled :: snapshot_policy where
  "policy_disabled = policy_every 0"

definition policy_rebase :: "u64 \<Rightarrow> snapshot_policy \<Rightarrow> snapshot_policy" where
  "policy_rebase decided_idx p = p\<lparr>sp_last_snapshot_at := decided_idx\<rparr>"

text \<open>The sum is unchecked; it wraps in a build without overflow checks.\<close>

definition should_snapshot :: "u64 \<Rightarrow> snapshot_policy \<Rightarrow> bool \<times> snapshot_policy" where
  "should_snapshot decided_idx p =
     (if sp_every_n_decided p = 0 then (False, p)
      else if decided_idx \<ge> sp_last_snapshot_at p + sp_every_n_decided p
      then (True, p\<lparr>sp_last_snapshot_at := decided_idx\<rparr>)
      else (False, p))"

section \<open>OmniPaxos as the code uses it\<close>

datatype px_log_entry =
    LeDecided px_command
  | LeUndecided px_command
  | LeSnapshotted high_water_snapshot
  | LeTrimmed
  | LeStopSign

datatype propose_err = PendingReconfigEntry | PendingReconfigConfig | ConfigError

record 'o omnipaxos =
  op_tick :: "'o \<Rightarrow> 'o"
  op_get_decided_idx :: "'o \<Rightarrow> u64"
  op_read_decided_suffix :: "u64 \<Rightarrow> 'o \<Rightarrow> px_log_entry list option"
  op_read_entries :: "'o \<Rightarrow> px_log_entry list option"
  op_append :: "px_command \<Rightarrow> 'o \<Rightarrow> (propose_err, unit) result \<times> 'o"
  op_snapshot :: "u64 \<Rightarrow> 'o \<Rightarrow> 'o"
  op_get_promise :: "'o \<Rightarrow> ballot"
  op_get_current_leader :: "'o \<Rightarrow> u64 option"

section \<open>The apply state\<close>

record apply_state =
  as_high_water :: u64
  as_applied_barriers :: ledger

definition apply_state_new :: apply_state where
  "apply_state_new = \<lparr>as_high_water = 0, as_applied_barriers = Map.empty\<rparr>"

definition applied_barrier_seq :: "u64 \<Rightarrow> apply_state \<Rightarrow> u64" where
  "applied_barrier_seq node s = ledger_seq node (as_applied_barriers s)"

fun fold_entry :: "px_log_entry \<Rightarrow> apply_state \<Rightarrow> apply_state" where
  "fold_entry (LeDecided (PxAdvance p)) s =
     (let new = merge p (as_high_water s) in if new > as_high_water s then s\<lparr>as_high_water := new\<rparr> else s)"
| "fold_entry (LeDecided (PxBarrier node seq)) s = s\<lparr>as_applied_barriers := ledger_note node seq (as_applied_barriers s)\<rparr>"
| "fold_entry (LeSnapshotted snap) s =
     \<lparr>as_high_water = (if hs_value snap > as_high_water s then hs_value snap else as_high_water s),
      as_applied_barriers = ledger_merge (hs_barriers snap) (as_applied_barriers s)\<rparr>"
| "fold_entry LeTrimmed s = s"
| "fold_entry LeStopSign s = s"
| "fold_entry (LeUndecided _) s = s"

text \<open>The result: the decided index, the cursor and the state after the drain.\<close>

definition drain_decided_into :: "'o omnipaxos \<Rightarrow> 'o \<Rightarrow> u64 \<Rightarrow> apply_state \<Rightarrow> u64 \<times> u64 \<times> apply_state" where
  "drain_decided_into api op cursor s =
     (let decided_idx = op_get_decided_idx api op
      in if decided_idx \<le> cursor then (decided_idx, cursor, s)
         else (decided_idx, decided_idx,
           case op_read_decided_suffix api cursor op of None \<Rightarrow> s | Some entries \<Rightarrow> fold fold_entry entries s))"

fun entry_barrier_seq :: "u64 \<Rightarrow> px_log_entry \<Rightarrow> u64" where
  "entry_barrier_seq node (LeDecided (PxBarrier appended seq)) = (if appended = node then seq else 0)"
| "entry_barrier_seq node (LeUndecided (PxBarrier appended seq)) = (if appended = node then seq else 0)"
| "entry_barrier_seq node (LeSnapshotted snap) = ledger_seq node (hs_barriers snap)"
| "entry_barrier_seq node _ = 0"

definition max_logged_barrier_seq :: "'o omnipaxos \<Rightarrow> 'o \<Rightarrow> u64 \<Rightarrow> u64" where
  "max_logged_barrier_seq api op node =
     fold (\<lambda>entry max_seq. max max_seq (entry_barrier_seq node entry)) (case op_read_entries api op of Some es \<Rightarrow> es | None \<Rightarrow> []) 0"

definition maybe_snapshot :: "'o omnipaxos \<Rightarrow> u64 \<Rightarrow> 'o \<times> snapshot_policy \<Rightarrow> 'o \<times> snapshot_policy" where
  "maybe_snapshot api decided_idx x =
     (let (op, policy) = x; (fire, policy') = should_snapshot decided_idx policy
      in (if fire then op_snapshot api decided_idx op else op, policy'))"

section \<open>Epochs are ballots in order\<close>

lemma unat_encode_epoch:
  "unat (epoch_val (encode_epoch b)) = unat (ba_config_id b) * 2 ^ 96 + unat (ba_n b) * 2 ^ 64 + unat (ba_pid b)"
proof -
  let ?c = "ba_config_id b" and ?n = "ba_n b" and ?p = "ba_pid b"
  have w: "unat (ucast x :: u128) = unat x" for x :: u32
    using unat_u32_bound [of x] by (simp add: unsigned_ucast_eq take_bit_nat_eq_self_iff)
  have "unat ?n * 2 ^ 64 + unat ?p < 2 ^ 96" "unat ?c * 2 ^ 96 + (unat ?n * 2 ^ 64 + unat ?p) < 2 ^ 128"
    using unat_u32_bound [of ?n] unat_u32_bound [of ?c] unat_u64_bound [of ?p] by simp_all
  moreover from this have "unat (push_bit 64 (ucast ?n :: u128) OR ucast ?p) = unat ?n * 2 ^ 64 + unat ?p"
    using unat_u64_bound [of ?p] by (subst unat_push_or) (simp_all add: w)
  ultimately show ?thesis by (simp add: encode_epoch_def unat_push_or w)
qed

lemma unat_decode_epoch:
  "unat (fst (decode_epoch e)) = unat (epoch_val e) div 2 ^ 96 mod 2 ^ 32"
  "unat (fst (snd (decode_epoch e))) = unat (epoch_val e) div 2 ^ 64 mod 2 ^ 32"
  "unat (snd (snd (decode_epoch e))) = unat (epoch_val e) mod 2 ^ 64"
  by (simp_all add: decode_epoch_def unsigned_ucast_eq drop_bit_eq_div unat_div take_bit_eq_mod)

lemma epoch_digits:
  fixes c n p :: nat
  assumes "c < 4294967296" "n < 4294967296" "p < 18446744073709551616"
  defines "x \<equiv> c * 79228162514264337593543950336 + n * 18446744073709551616 + p"
  shows "x div 79228162514264337593543950336 mod 4294967296 = c"
    "x div 18446744073709551616 mod 4294967296 = n" "x mod 18446744073709551616 = p"
proof -
  define y where "y = c * 4294967296 + n"
  have "x = y * 18446744073709551616 + p" by (simp add: x_def y_def)
  then have "x div 18446744073709551616 = y" and p: "x mod 18446744073709551616 = p" using assms(3) by simp_all
  moreover have "x div 79228162514264337593543950336 = x div 18446744073709551616 div 4294967296"
    by (simp add: div_mult2_eq [symmetric])
  ultimately show "x div 79228162514264337593543950336 mod 4294967296 = c"
    "x div 18446744073709551616 mod 4294967296 = n" "x mod 18446744073709551616 = p"
    using assms(1,2) by (simp_all add: y_def)
qed

lemma decode_encode_epoch: "decode_epoch (encode_epoch b) = (ba_config_id b, ba_n b, ba_pid b)"
proof -
  note digits = epoch_digits [OF unat_u32_bound [of "ba_config_id b"] unat_u32_bound [of "ba_n b"] unat_u64_bound [of "ba_pid b"]]
  have "unat (fst (decode_epoch (encode_epoch b))) = unat (ba_config_id b)"
    "unat (fst (snd (decode_epoch (encode_epoch b)))) = unat (ba_n b)"
    "unat (snd (snd (decode_epoch (encode_epoch b)))) = unat (ba_pid b)"
    using digits by (simp_all add: unat_decode_epoch unat_encode_epoch)
  then show ?thesis by (metis prod.collapse word_unat_eq_iff)
qed

section \<open>Folding\<close>

text \<open>A ledger is determined by the entries it has and their numbers; noting is a maximum.\<close>

lemma ledger_note_max: "ledger_note node seq m = m(node \<mapsto> max (ledger_seq node m) seq)"
  by (auto simp: ledger_note_def max_def)

lemma max_zero_word [simp]: "max 0 (x :: u64) = x" "max x (0 :: u64) = x"
  by (simp_all add: max_def)

lemma ledger_seq_note: "ledger_seq n (ledger_note node seq m) = (if n = node then max (ledger_seq n m) seq else ledger_seq n m)"
  by (auto simp: ledger_note_def ledger_seq_def max_def)

lemma ledger_note_at: "ledger_note node seq m node = Some (max (ledger_seq node m) seq)"
  by (auto simp: ledger_note_def max_def)

lemma ledger_merge_note: "ledger_merge (ledger_note node seq other) m = ledger_note node seq (ledger_merge other m)"
  by (rule ext) (auto simp: ledger_merge_def ledger_note_max ledger_seq_def max.left_commute max.commute max.assoc split: option.splits)

lemma ledger_merge_empty [simp]: "ledger_merge Map.empty m = m"
  by (simp add: ledger_merge_def fun_eq_iff)

lemma ledger_seq_merge: "ledger_seq n (ledger_merge other m) = max (ledger_seq n m) (ledger_seq n other)"
  by (auto simp: ledger_merge_def ledger_note_max ledger_seq_def split: option.splits)

lemma snapshot_merge_note: "snapshot_merge (snapshot_note c other) s = snapshot_note c (snapshot_merge other s)"
  by (cases c) (simp_all add: snapshot_merge_def ledger_merge_note merge_def max.assoc max.commute max.left_commute)

lemma snapshot_merge_fold:
  "snapshot_merge (fold snapshot_note cmds other) s = fold snapshot_note cmds (snapshot_merge other s)"
  by (induction cmds arbitrary: other) (simp_all add: snapshot_merge_note)

text \<open>A snapshot of a range, merged into the snapshot of what comes before it, is the snapshot of both.\<close>

lemma snapshot_merge_create: "snapshot_merge (snapshot_create ys) (snapshot_create xs) = snapshot_create (xs @ ys)"
proof -
  have "snapshot_merge \<lparr>hs_value = 0, hs_barriers = Map.empty\<rparr> s = s" for s
    by (cases s) (simp add: snapshot_merge_def)
  then show ?thesis by (simp add: snapshot_create_def snapshot_merge_fold)
qed

text \<open>The apply state is the snapshot of everything folded.\<close>

definition state_of :: "high_water_snapshot \<Rightarrow> apply_state" where
  "state_of s = \<lparr>as_high_water = hs_value s, as_applied_barriers = hs_barriers s\<rparr>"

definition applied :: "px_command list \<Rightarrow> apply_state" where
  "applied cmds = state_of (snapshot_create cmds)"

lemma fold_decided: "fold_entry (LeDecided c) (state_of s) = state_of (snapshot_note c s)"
  by (cases c) (auto simp: state_of_def merge_def max_def Let_def)

lemma fold_decided_list: "fold fold_entry (map LeDecided cmds) (applied xs) = applied (xs @ cmds)"
proof -
  have "fold fold_entry (map LeDecided cmds) (state_of s) = state_of (fold snapshot_note cmds s)" for s
    by (induction cmds arbitrary: s) (simp_all add: fold_decided)
  then show ?thesis by (simp add: applied_def snapshot_create_def)
qed

lemma fold_snapshotted: "fold_entry (LeSnapshotted other) (state_of s) = state_of (snapshot_merge other s)"
  by (auto simp: state_of_def snapshot_merge_def max_def)

lemma snapshot_merge_prefix:
  assumes "ys = xs @ zs"
  shows "snapshot_merge (snapshot_create ys) (snapshot_create xs) = snapshot_create ys"
proof -
  have v: "hs_value (fold snapshot_note cmds s) \<ge> hs_value s" for cmds s
  proof (induction cmds arbitrary: s)
    case (Cons c cmds)
    have "hs_value s \<le> hs_value (snapshot_note c s)" by (cases c) (simp_all add: merge_ge)
    with Cons [of "snapshot_note c s"] show ?case by simp
  qed simp
  have l: "ledger_seq n (hs_barriers s) \<le> ledger_seq n (hs_barriers (fold snapshot_note cmds s))
      \<and> (hs_barriers s n \<noteq> None \<longrightarrow> hs_barriers (fold snapshot_note cmds s) n \<noteq> None)" for n cmds s
  proof (induction cmds arbitrary: s)
    case (Cons c cmds)
    have "ledger_seq n (hs_barriers s) \<le> ledger_seq n (hs_barriers (snapshot_note c s))
        \<and> (hs_barriers s n \<noteq> None \<longrightarrow> hs_barriers (snapshot_note c s) n \<noteq> None)"
      by (cases c) (auto simp: ledger_note_max ledger_seq_def)
    with Cons [of "snapshot_note c s"] show ?case by (auto intro: order_trans)
  qed simp
  let ?y = "snapshot_create ys" and ?x = "snapshot_create xs"
  have vx: "hs_value ?x \<le> hs_value ?y" and lx: "ledger_seq n (hs_barriers ?x) \<le> ledger_seq n (hs_barriers ?y)"
    and dx: "hs_barriers ?y n = None \<Longrightarrow> hs_barriers ?x n = None" for n
    using v [of ?x zs] l [of n ?x zs] by (auto simp: assms snapshot_create_def)
  have "ledger_merge (hs_barriers ?y) (hs_barriers ?x) = hs_barriers ?y"
  proof
    fix n
    show "ledger_merge (hs_barriers ?y) (hs_barriers ?x) n = hs_barriers ?y n"
      using lx [of n] dx [of n] by (cases "hs_barriers ?y n") (auto simp: ledger_merge_def ledger_note_at ledger_seq_def max_def)
  qed
  with vx show ?thesis by (simp add: snapshot_merge_def max_absorb2)
qed

section \<open>What the code relies on\<close>

text \<open>
  A read of the decided suffix gives the decided commands from the cursor on, or, when the log
  was compacted beyond the cursor, a snapshot of everything before some later point and the
  commands from there. No stop sign follows: the driver never proposes a reconfiguration.
\<close>

definition suffix_of :: "nat \<Rightarrow> px_command list \<Rightarrow> px_log_entry list \<Rightarrow> bool" where
  "suffix_of cursor cmds es \<longleftrightarrow>
     (\<exists>k. cursor \<le> k \<and> k \<le> length cmds \<and>
        (es = map LeDecided (drop cursor cmds) \<or> es = LeSnapshotted (snapshot_create (take k cmds)) # map LeDecided (drop k cmds)))"

locale omnipaxos_log =
  fixes api :: "'o omnipaxos"
    and accepted :: "'o \<Rightarrow> px_command list"
    and decided :: "'o \<Rightarrow> nat"
    and oinv :: "'o \<Rightarrow> bool"
  assumes decided_idx: "oinv op \<Longrightarrow> unat (op_get_decided_idx api op) = decided op \<and> decided op \<le> length (accepted op)"
    and decided_suffix: "oinv op \<Longrightarrow> unat cursor \<le> decided op \<Longrightarrow>
      \<exists>es. op_read_decided_suffix api cursor op = Some es \<and> suffix_of (unat cursor) (take (decided op) (accepted op)) es"
    and log_entries: "oinv op \<Longrightarrow> \<exists>k es. k \<le> decided op \<and> op_read_entries api op = Some es \<and>
      es = (if k = 0 then [] else [LeSnapshotted (snapshot_create (take k (accepted op)))])
        @ map LeDecided (drop k (take (decided op) (accepted op))) @ map LeUndecided (drop (decided op) (accepted op))"
begin

lemma drain_exact:
  assumes i: "oinv op" and c: "unat cursor \<le> decided op"
    and d: "drain_decided_into api op cursor (applied (take (unat cursor) (accepted op))) = (idx, cursor', s')"
  shows "unat idx = decided op \<and> unat cursor' = decided op \<and> s' = applied (take (decided op) (accepted op))"
proof (cases "op_get_decided_idx api op \<le> cursor")
  case True
  with i c d decided_idx [OF i] show ?thesis by (auto simp: drain_decided_into_def word_le_nat_alt)
next
  case False
  let ?D = "take (decided op) (accepted op)"
  from decided_suffix [OF i c] obtain es k where es: "op_read_decided_suffix api cursor op = Some es"
      "unat cursor \<le> k" "k \<le> length ?D"
      "es = map LeDecided (drop (unat cursor) ?D) \<or> es = LeSnapshotted (snapshot_create (take k ?D)) # map LeDecided (drop k ?D)"
    by (auto simp: suffix_of_def)
  have pre: "take (unat cursor) (accepted op) = take (unat cursor) ?D" using c by (simp add: min_def)
  have "fold fold_entry es (applied (take (unat cursor) ?D)) = applied ?D"
    using es(4)
  proof
    assume "es = map LeDecided (drop (unat cursor) ?D)"
    then show ?thesis by (simp only: fold_decided_list append_take_drop_id)
  next
    assume e: "es = LeSnapshotted (snapshot_create (take k ?D)) # map LeDecided (drop k ?D)"
    have "take k ?D = take (unat cursor) ?D @ drop (unat cursor) (take k ?D)"
      using es(2) by (metis append_take_drop_id min.absorb1 take_take)
    from snapshot_merge_prefix [OF this] have "fold_entry (LeSnapshotted (snapshot_create (take k ?D))) (applied (take (unat cursor) ?D))
        = applied (take k ?D)"
      by (simp only: applied_def fold_snapshotted)
    then show ?thesis unfolding e by (simp only: fold_simps fold_decided_list append_take_drop_id)
  qed
  with d [unfolded pre] False es(1) decided_idx [OF i] show ?thesis
    by (simp add: drain_decided_into_def Let_def del: take_take) blast
qed

end

end
