(* ===== verification/Paxos_Host.thy ===== *)
theory Paxos_Host
  imports Paxos_Log
begin

text \<open>
  The host and the driver over OmniPaxos: the apply engine (\<open>apply.rs\<close>), the standalone host
  with its barrier-linearized operations (\<open>standalone.rs\<close>), the driver with its epoch fence and
  its lease on the leadership stream (\<open>driver.rs\<close>) and the observation of leadership
  (\<open>lifecycle/\<close> of the toolkit).

  What happens while an operation waits is a list of events: the apply task wakes after the
  cluster has moved on (a function on OmniPaxos's state), the task dies, the deadline passes.
\<close>

section \<open>The apply engine\<close>

datatype apply_liveness = ApplyNeverSpawned | ApplyAlive | ApplyDead

record apply_engine =
  ae_apply_state :: apply_state
  ae_policy :: snapshot_policy
  ae_liveness :: apply_liveness

definition engine_new :: "snapshot_policy \<Rightarrow> apply_engine" where
  "engine_new policy = \<lparr>ae_apply_state = apply_state_new, ae_policy = policy, ae_liveness = ApplyNeverSpawned\<rparr>"

definition apply_task_died :: "apply_engine \<Rightarrow> bool" where
  "apply_task_died e \<longleftrightarrow> ae_liveness e = ApplyDead"

definition engine_recover :: "'o omnipaxos \<Rightarrow> 'o \<Rightarrow> u64 \<Rightarrow> apply_engine \<Rightarrow> u64 \<times> apply_engine" where
  "engine_recover api op cursor e =
     (let (_, cursor', s) = drain_decided_into api op cursor (ae_apply_state e)
      in (cursor', e\<lparr>ae_apply_state := s, ae_policy := policy_rebase cursor' (ae_policy e)\<rparr>))"

definition apply_step :: "'o omnipaxos \<Rightarrow> 'o \<Rightarrow> u64 \<Rightarrow> apply_engine \<Rightarrow> 'o \<times> u64 \<times> apply_engine" where
  "apply_step api op cursor e =
     (let (decided_idx, cursor', s) = drain_decided_into api op cursor (ae_apply_state e);
          (op', policy) = maybe_snapshot api decided_idx (op, ae_policy e)
      in (op', cursor', e\<lparr>ae_apply_state := s, ae_policy := policy\<rparr>))"

section \<open>The standalone host\<close>

record 'o px_host =
  ph_omnipaxos :: 'o
  ph_my_node_id :: u64
  ph_barrier_seq :: u64
  ph_engine :: apply_engine
  ph_task_running :: bool
  ph_apply_cursor :: u64

definition host_new :: "'o omnipaxos \<Rightarrow> 'o \<Rightarrow> u64 \<Rightarrow> snapshot_policy \<Rightarrow> 'o px_host" where
  "host_new api op node policy =
     (let (cursor, e) = engine_recover api op 0 (engine_new policy)
      in \<lparr>ph_omnipaxos = op, ph_my_node_id = node, ph_barrier_seq = max_logged_barrier_seq api op node,
          ph_engine = e, ph_task_running = False, ph_apply_cursor = cursor\<rparr>)"

datatype host_builder_error = MissingOmnipaxos | MissingNodeId

definition host_build :: "'o omnipaxos \<Rightarrow> 'o option \<Rightarrow> u64 option \<Rightarrow> snapshot_policy \<Rightarrow> (host_builder_error, 'o px_host) result" where
  "host_build api op node policy =
     (case op of None \<Rightarrow> Inl MissingOmnipaxos
      | Some op \<Rightarrow> (case node of None \<Rightarrow> Inl MissingNodeId | Some node \<Rightarrow> Inr (host_new api op node policy)))"

text \<open>\<open>None\<close> is \<open>AlreadyRunning\<close>.\<close>

definition host_start :: "'o px_host \<Rightarrow> 'o px_host option" where
  "host_start h =
     (if ph_task_running h then None
      else Some (h\<lparr>ph_task_running := True, ph_engine := (ph_engine h)\<lparr>ae_liveness := ApplyAlive\<rparr>\<rparr>))"

definition host_stop :: "'o px_host \<Rightarrow> 'o px_host" where
  "host_stop h =
     (if ph_task_running h then h\<lparr>ph_task_running := False, ph_engine := (ph_engine h)\<lparr>ae_liveness := ApplyDead\<rparr>\<rparr> else h)"

definition apply_once :: "'o omnipaxos \<Rightarrow> 'o px_host \<Rightarrow> 'o px_host" where
  "apply_once api h =
     (let (op, cursor, e) = apply_step api (ph_omnipaxos h) (ph_apply_cursor h) (ph_engine h)
      in h\<lparr>ph_omnipaxos := op, ph_apply_cursor := cursor, ph_engine := e\<rparr>)"

definition ph_high_water :: "'o px_host \<Rightarrow> u64" where
  "ph_high_water h = as_high_water (ae_apply_state (ph_engine h))"

text \<open>One turn of the waiting loop; \<open>None\<close> parks the waiter.\<close>

definition barrier_poll :: "u64 \<Rightarrow> u64 option \<Rightarrow> 'o px_host \<Rightarrow> (consensus_error, u64) result option" where
  "barrier_poll seq floor h =
     (if applied_barrier_seq (ph_my_node_id h) (ae_apply_state (ph_engine h)) \<ge> seq
         \<and> (case floor of Some at_least \<Rightarrow> ph_high_water h \<ge> at_least | None \<Rightarrow> True)
      then Some (Inr (ph_high_water h))
      else if apply_task_died (ph_engine h) then Some (Inl (PermanentDriver ''apply task is gone''))
      else None)"

datatype 'o wait_event = Wake "'o \<Rightarrow> 'o" | TaskDies

fun await_barrier ::
  "'o omnipaxos \<Rightarrow> 'o wait_event list \<Rightarrow> u64 \<Rightarrow> u64 option \<Rightarrow> 'o px_host \<Rightarrow> (consensus_error, u64) result \<times> 'o px_host" where
  "await_barrier api [] seq floor h =
     (case barrier_poll seq floor h of Some r \<Rightarrow> (r, h) | None \<Rightarrow> (Inl (TransientDriver ''barrier wait timed out''), h))"
| "await_barrier api (ev # evs) seq floor h =
     (case barrier_poll seq floor h of
        Some r \<Rightarrow> (r, h)
      | None \<Rightarrow>
          await_barrier api evs seq floor
            (case ev of
               Wake f \<Rightarrow> apply_once api (h\<lparr>ph_omnipaxos := f (ph_omnipaxos h)\<rparr>)
             | TaskDies \<Rightarrow> h\<lparr>ph_engine := (ph_engine h)\<lparr>ae_liveness := ApplyDead\<rparr>\<rparr>))"

datatype proposed_command = ProposedAdvance | ProposedBarrier

definition classify_append_error :: "propose_err \<Rightarrow> proposed_command \<Rightarrow> consensus_error" where
  "classify_append_error err cmd =
     PermanentDriver (case err of PendingReconfigEntry \<Rightarrow> ''configuration stopped'' | _ \<Rightarrow> ''unexpected reconfiguration'')"

definition append_command ::
  "'o omnipaxos \<Rightarrow> px_command \<Rightarrow> proposed_command \<Rightarrow> 'o px_host \<Rightarrow> (consensus_error, unit) result \<times> 'o px_host" where
  "append_command api cmd what h =
     (case op_append api cmd (ph_omnipaxos h) of
        (Inl err, op) \<Rightarrow> (Inl (classify_append_error err what), h\<lparr>ph_omnipaxos := op\<rparr>)
      | (Inr _, op) \<Rightarrow> (Inr (), h\<lparr>ph_omnipaxos := op\<rparr>))"

text \<open>
  Mints the nonce of a barrier and appends it; the nonce is the new counter. The source mints
  with a \<open>fetch_add\<close> and takes the lock for the append after it; here both are one step, so two
  calls of one node append in the order of their nonces.
\<close>

definition append_barrier :: "'o omnipaxos \<Rightarrow> 'o px_host \<Rightarrow> (consensus_error, u64) result \<times> 'o px_host" where
  "append_barrier api h =
     (let seq = ph_barrier_seq h + 1
      in case append_command api (PxBarrier (ph_my_node_id h) seq) ProposedBarrier (h\<lparr>ph_barrier_seq := seq\<rparr>) of
        (Inl e, h') \<Rightarrow> (Inl e, h')
      | (Inr _, h') \<Rightarrow> (Inr seq, h'))"

definition px_current_high_water ::
  "'o omnipaxos \<Rightarrow> 'o wait_event list \<Rightarrow> 'o px_host \<Rightarrow> (consensus_error, u64) result \<times> 'o px_host" where
  "px_current_high_water api evs h =
     (case append_barrier api h of
        (Inl e, h') \<Rightarrow> (Inl e, h')
      | (Inr seq, h') \<Rightarrow> await_barrier api evs seq None h')"

text \<open>The lock is free between the two appends: the cluster may move on there too.\<close>

definition px_submit_advance ::
  "'o omnipaxos \<Rightarrow> ('o \<Rightarrow> 'o) \<Rightarrow> 'o wait_event list \<Rightarrow> u64 \<Rightarrow> 'o px_host \<Rightarrow> (consensus_error, u64) result \<times> 'o px_host" where
  "px_submit_advance api between evs at_least h =
     (case append_command api (PxAdvance (AdvancePayload at_least)) ProposedAdvance h of
        (Inl e, h1) \<Rightarrow> (Inl e, h1)
      | (Inr _, h1) \<Rightarrow>
          (case append_barrier api (h1\<lparr>ph_omnipaxos := between (ph_omnipaxos h1)\<rparr>) of
             (Inl e, h2) \<Rightarrow> (Inl e, h2)
           | (Inr seq, h2) \<Rightarrow> await_barrier api evs seq (Some at_least) h2))"

section \<open>The driver\<close>

text \<open>What the environment does during one call: after the fence check, between the appends, while waiting.\<close>

record 'o px_call =
  pl_race :: "'o \<Rightarrow> 'o"
  pl_between :: "'o \<Rightarrow> 'o"
  pl_wait :: "'o wait_event list"

definition px_quiet :: "'o px_call" where
  "px_quiet = \<lparr>pl_race = id, pl_between = id, pl_wait = []\<rparr>"

definition px_persist_high_water ::
  "'o omnipaxos \<Rightarrow> 'o px_call \<Rightarrow> u64 \<Rightarrow> epoch \<Rightarrow> 'o px_host \<Rightarrow> (consensus_error, u64) result \<times> 'o px_host" where
  "px_persist_high_water api call at_least e h =
     (case reject_out_of_range_advance at_least of
        Inl err \<Rightarrow> (Inl err, h)
      | Inr _ \<Rightarrow>
          (let current = encode_epoch (op_get_promise api (ph_omnipaxos h))
           in if e \<noteq> current then (Inl (Fenced e current), h)
              else px_submit_advance api (pl_between call) (pl_wait call) at_least
                     (h\<lparr>ph_omnipaxos := pl_race call (ph_omnipaxos h)\<rparr>)))"

type_synonym 'o px_driver_state = "'o px_call list \<times> 'o px_host"

definition with_call ::
  "('o px_call \<Rightarrow> 'o px_host \<Rightarrow> 'r \<times> 'o px_host) \<Rightarrow> 'o px_driver_state \<Rightarrow> 'r \<times> 'o px_driver_state" where
  "with_call f st =
     (let (cs, h) = st; (r, h') = f (case cs of [] \<Rightarrow> px_quiet | c # _ \<Rightarrow> c) h in (r, (tl cs, h')))"

text \<open>The dense and lease methods are those of the trait.\<close>

definition paxos_driver :: "'o omnipaxos \<Rightarrow> 'o px_driver_state consensus_driver" where
  "paxos_driver api =
     \<lparr>drv_load_high_water = with_call (\<lambda>c. px_current_high_water api (pl_wait c)),
      drv_persist_high_water = (\<lambda>a e. with_call (\<lambda>c. px_persist_high_water api c a e)),
      drv_load_dense_seq = default_load_dense_seq,
      drv_advance_dense = default_advance_dense,
      drv_advance_dense_batch = default_advance_dense_batch,
      drv_load_leases = default_load_leases,
      drv_persist_leases = default_persist_leases\<rparr>"

section \<open>The lease on the leadership stream\<close>

record stream_slot =
  sl_next_generation :: u64
  sl_active_generation :: u64

definition slot_new :: stream_slot where
  "slot_new = \<lparr>sl_next_generation = 1, sl_active_generation = 0\<rparr>"

text \<open>The loop runs again only when the counter has wrapped to the free mark.\<close>

definition mint_generation :: "stream_slot \<Rightarrow> u64 \<times> stream_slot" where
  "mint_generation s =
     (let g = sl_next_generation s
      in if g \<noteq> 0 then (g, s\<lparr>sl_next_generation := g + 1\<rparr>) else (g + 1, s\<lparr>sl_next_generation := g + 1 + 1\<rparr>))"

text \<open>\<open>Some\<close> generation holds a live stream; \<open>None\<close> is the empty stream of a refused subscription.\<close>

definition leadership_events_lease :: "stream_slot \<Rightarrow> u64 option \<times> stream_slot" where
  "leadership_events_lease s =
     (let (g, s') = mint_generation s
      in if sl_active_generation s' = 0 then (Some g, s'\<lparr>sl_active_generation := g\<rparr>) else (None, s'))"

definition drop_lease :: "u64 \<Rightarrow> stream_slot \<Rightarrow> stream_slot" where
  "drop_lease g s = (if sl_active_generation s = g then s\<lparr>sl_active_generation := 0\<rparr> else s)"

section \<open>Observing leadership\<close>

datatype px_leadership = PlLeader epoch | PlFollower "peer_endpoint option" | PlUnknown

definition from_omnipaxos :: "u64 \<Rightarrow> u64 option \<Rightarrow> epoch option \<Rightarrow> (u64 \<times> peer_endpoint) list \<Rightarrow> px_leadership" where
  "from_omnipaxos my_node_id current_leader e peers =
     (case current_leader of
        Some leader \<Rightarrow>
          if leader = my_node_id then (case e of Some epoch \<Rightarrow> PlLeader epoch | None \<Rightarrow> PlUnknown)
          else PlFollower (map_option snd (find (\<lambda>peer. fst peer = leader) peers))
      | None \<Rightarrow> PlUnknown)"

fun to_consensus :: "px_leadership \<Rightarrow> leader_state" where
  "to_consensus (PlLeader e) = LsLeader e"
| "to_consensus (PlFollower ep) = LsFollower ep None"
| "to_consensus PlUnknown = LsUnknown"

text \<open>
  The runner's observation of one tick: the last leader it saw, the counter that stands in
  for the epoch, and the value of the watch channel. A value that is equal to the channel's
  is not sent again.
\<close>

record px_runner =
  pr_last_observed :: "u64 option"
  pr_changes :: u64
  pr_channel :: leader_state

definition runner_new :: "px_runner" where
  "runner_new = \<lparr>pr_last_observed = None, pr_changes = 0, pr_channel = LsUnknown\<rparr>"

definition send_event :: "leader_state \<Rightarrow> px_runner \<Rightarrow> leader_state option \<times> px_runner" where
  "send_event st r = (if pr_channel r = st then (None, r) else (Some st, r\<lparr>pr_channel := st\<rparr>))"

definition observe_leader ::
  "u64 \<Rightarrow> (u64 \<times> peer_endpoint) list \<Rightarrow> u64 option \<Rightarrow> px_runner \<Rightarrow> leader_state option \<times> px_runner" where
  "observe_leader my_node_id peers leader_pid r =
     (let r1 = (if leader_pid \<noteq> pr_last_observed r
          then r\<lparr>pr_last_observed := leader_pid, pr_changes := (if leader_pid \<noteq> None then pr_changes r + 1 else pr_changes r)\<rparr>
          else r);
          e = map_option (\<lambda>_. Epoch (ucast (pr_changes r1))) leader_pid
      in send_event (to_consensus (from_omnipaxos my_node_id leader_pid e peers)) r1)"

text \<open>The driver replaces the stand-in by the epoch of the ballot promised when the event is taken.\<close>

definition driver_event_of :: "'o omnipaxos \<Rightarrow> 'o \<Rightarrow> leader_state \<Rightarrow> leader_state" where
  "driver_event_of api op st = (case st of LsLeader _ \<Rightarrow> LsLeader (encode_epoch (op_get_promise api op)) | other \<Rightarrow> other)"

end
