(* ===== verification/Paxos_Cluster.thy ===== *)
theory Paxos_Cluster
  imports Paxos_Host
begin

text \<open>
  The OmniPaxos driver in a cluster. The theory gives the calls of \<open>Paxos_Log\<close> over a chosen
  log, several hosts over it as a step relation, and shows that the barrier reads of
  \<open>standalone.rs\<close> are linearizable as long as a restarted node's counter covers every nonce it
  has sent; and that without this hypothesis, which the recovery scan of the local log does
  not give for a forwarded barrier, a read can miss what was chosen before it began.
\<close>

section \<open>One node's OmniPaxos\<close>

text \<open>
  The log of chosen commands and everything ever proposed are common to the cluster; a node
  has a prefix of the chosen log, accepted commands beyond it that may never be chosen, the
  prefix it knows to be decided, and the prefix it has compacted. A proposal of a node that
  does not lead is forwarded, so every append is accepted and may be chosen later, wherever
  the proposer is by then.
\<close>

record px_view =
  pv_log :: "px_command list"
  pv_sent :: "px_command list"
  pv_accepted :: nat
  pv_extra :: "px_command list"
  pv_decided :: nat
  pv_compacted :: nat
  pv_promise :: ballot
  pv_leader :: "u64 option"

definition view_log :: "px_view \<Rightarrow> px_command list" where
  "view_log v = take (pv_accepted v) (pv_log v) @ pv_extra v"

definition view_ok :: "px_view \<Rightarrow> bool" where
  "view_ok v \<longleftrightarrow> pv_compacted v \<le> pv_decided v \<and> pv_decided v \<le> pv_accepted v \<and> pv_accepted v \<le> length (pv_log v)
     \<and> length (pv_log v) < 2 ^ 64"

definition view_api :: "px_view omnipaxos" where
  "view_api =
     \<lparr>op_tick = id,
      op_get_decided_idx = (\<lambda>v. of_nat (pv_decided v)),
      op_read_decided_suffix = (\<lambda>cursor v.
        let d = take (pv_decided v) (view_log v); k = pv_compacted v
        in Some (if unat cursor < k then LeSnapshotted (snapshot_create (take k d)) # map LeDecided (drop k d)
                 else map LeDecided (drop (unat cursor) d))),
      op_read_entries = (\<lambda>v.
        let d = take (pv_decided v) (view_log v); k = pv_compacted v
        in Some ((if k = 0 then [] else [LeSnapshotted (snapshot_create (take k d))])
             @ map LeDecided (drop k d) @ map LeUndecided (drop (pv_decided v) (view_log v)))),
      op_append = (\<lambda>cmd v. (Inr (), v\<lparr>pv_sent := pv_sent v @ [cmd]\<rparr>)),
      op_snapshot = (\<lambda>idx v. v\<lparr>pv_compacted := max (pv_compacted v) (min (unat idx) (pv_decided v))\<rparr>),
      op_get_promise = pv_promise,
      op_get_current_leader = pv_leader\<rparr>"

interpretation pvl: omnipaxos_log view_api view_log pv_decided view_ok
proof (unfold_locales, goal_cases)
  case (1 op)
  then show ?case by (auto simp: view_api_def view_ok_def view_log_def unat_of_nat)
next
  case (2 op cursor)
  let ?d = "take (pv_decided op) (view_log op)" and ?k = "pv_compacted op"
  have "?k \<le> length ?d" "unat cursor \<le> length ?d" using 2 by (auto simp: view_ok_def view_log_def)
  then have "suffix_of (unat cursor) ?d (if unat cursor < ?k then LeSnapshotted (snapshot_create (take ?k ?d)) # map LeDecided (drop ?k ?d)
      else map LeDecided (drop (unat cursor) ?d))"
    unfolding suffix_of_def by (intro exI [of _ "max (unat cursor) ?k"]) (auto simp: max_def)
  then show ?case by (simp add: view_api_def Let_def)
next
  case (3 op)
  then show ?case by (auto simp: view_api_def Let_def view_ok_def min_def intro!: exI [of _ "pv_compacted op"])
qed

section \<open>The cluster\<close>

record px_member =
  pm_host :: "px_view px_host"
  pm_pending :: "(u64 \<times> u64 option \<times> u64) option"

record px_cluster =
  pc_log :: "px_command list"
  pc_sent :: "px_command list"
  pc_members :: "u64 \<Rightarrow> px_member"

text \<open>The value of the register that a sequence of commands leaves.\<close>

definition register :: "px_command list \<Rightarrow> u64" where
  "register cmds = hs_value (snapshot_create cmds)"

definition member_host :: "u64 \<Rightarrow> px_cluster \<Rightarrow> px_view px_host" where
  "member_host i c =
     (let h = pm_host (pc_members c i)
      in h\<lparr>ph_omnipaxos := (ph_omnipaxos h)\<lparr>pv_log := pc_log c, pv_sent := pc_sent c\<rparr>\<rparr>)"

definition put_host :: "u64 \<Rightarrow> px_view px_host \<Rightarrow> px_cluster \<Rightarrow> px_cluster" where
  "put_host i h c =
     c\<lparr>pc_sent := pv_sent (ph_omnipaxos h), pc_members := (pc_members c)(i := (pc_members c i)\<lparr>pm_host := h\<rparr>)\<rparr>"

definition set_pending :: "u64 \<Rightarrow> (u64 \<times> u64 option \<times> u64) option \<Rightarrow> px_cluster \<Rightarrow> px_cluster" where
  "set_pending i p c = c\<lparr>pc_members := (pc_members c)(i := (pc_members c i)\<lparr>pm_pending := p\<rparr>)\<rparr>"

text \<open>An operation that returned: the register when it began, and the value it reported.\<close>

datatype px_return = Returned u64 u64

text \<open>
  A pending operation is its nonce, its floor, and the register when it appended its barrier.
  The flag \<open>covered\<close> restricts restarts to those whose recovered counter is no smaller than
  any nonce of the node that is still on its way.
\<close>

inductive px_step :: "bool \<Rightarrow> px_cluster \<Rightarrow> px_return list \<Rightarrow> px_cluster \<Rightarrow> bool" for covered where
  chosen: "cmd \<in> set (pc_sent c) \<Longrightarrow> length (pc_log c) + 1 < 2 ^ 64 \<Longrightarrow>
    px_step covered c [] (c\<lparr>pc_log := pc_log c @ [cmd]\<rparr>)"
| learns: "view_ok v \<Longrightarrow> pv_log v = pc_log c \<Longrightarrow> pv_sent v = pc_sent c \<Longrightarrow>
    pv_decided (ph_omnipaxos (member_host i c)) \<le> pv_decided v \<Longrightarrow>
    px_step covered c [] (put_host i ((member_host i c)\<lparr>ph_omnipaxos := v\<rparr>) c)"
| applies: "px_step covered c [] (put_host i (apply_once view_api (member_host i c)) c)"
| advances: "append_command view_api (PxAdvance (AdvancePayload a)) ProposedAdvance (member_host i c) = (r, h) \<Longrightarrow>
    px_step covered c [] (put_host i h c)"
| barrier: "append_barrier view_api (member_host i c) = (Inr seq, h) \<Longrightarrow> ph_barrier_seq (member_host i c) \<noteq> - 1 \<Longrightarrow>
    px_step covered c [] (set_pending i (Some (seq, floor, register (pc_log c))) (put_host i h c))"
| returns: "pm_pending (pc_members c i) = Some (seq, floor, began) \<Longrightarrow>
    barrier_poll seq floor (member_host i c) = Some (Inr v) \<Longrightarrow>
    px_step covered c [Returned began v] (set_pending i None c)"
| gives_up: "px_step covered c [] (set_pending i None c)"
| restarts: "view_ok v \<Longrightarrow> pv_log v = pc_log c \<Longrightarrow> pv_sent v = pc_sent c \<Longrightarrow> h = host_new view_api v i policy \<Longrightarrow>
    covered \<longrightarrow> (\<forall>s. PxBarrier i s \<in> set (pc_sent c) \<longrightarrow> s \<le> ph_barrier_seq h) \<Longrightarrow>
    px_step covered c [] (set_pending i None (put_host i h c))"

inductive px_run :: "bool \<Rightarrow> px_cluster \<Rightarrow> px_return list \<Rightarrow> px_cluster \<Rightarrow> bool" for covered where
  px_start: "px_run covered c [] c"
| px_next: "px_run covered c rs c' \<Longrightarrow> px_step covered c' rs' c'' \<Longrightarrow> px_run covered c (rs @ rs') c''"

definition view_new :: "ballot \<Rightarrow> px_view" where
  "view_new b = \<lparr>pv_log = [], pv_sent = [], pv_accepted = 0, pv_extra = [], pv_decided = 0, pv_compacted = 0,
     pv_promise = b, pv_leader = None\<rparr>"

definition px_init :: "ballot \<Rightarrow> snapshot_policy \<Rightarrow> px_cluster" where
  "px_init b policy = \<lparr>pc_log = [], pc_sent = [],
     pc_members = (\<lambda>i. \<lparr>pm_host = host_new view_api (view_new b) i policy, pm_pending = None\<rparr>)\<rparr>"

section \<open>Barriers in a log\<close>

lemma snapshot_note_value: "hs_value s \<le> hs_value (snapshot_note c s)"
  by (cases c) (simp_all add: merge_ge)

lemma register_snoc: "register cmds \<le> register (cmds @ [c])"
  by (simp add: register_def snapshot_create_def snapshot_note_value)

lemma register_take: "register (take k cmds) \<le> register cmds"
proof (induction cmds rule: rev_induct)
  case (snoc c cmds)
  then show ?case using register_snoc [of cmds c] by (cases "k \<le> length cmds") (auto intro: order_trans)
qed simp

lemma register_mono: "k \<le> n \<Longrightarrow> register (take k cmds) \<le> register (take n cmds)"
  using register_take [of k "take n cmds"] by (simp add: min_def)

lemma ledger_of_log:
  "s \<le> ledger_seq n (hs_barriers (snapshot_create cmds)) \<Longrightarrow> s \<noteq> 0 \<Longrightarrow> \<exists>k s'. k < length cmds \<and> cmds ! k = PxBarrier n s' \<and> s \<le> s'"
proof (induction cmds rule: rev_induct)
  case Nil
  then show ?case by (simp add: snapshot_create_def ledger_seq_def)
next
  case (snoc c cmds)
  show ?case
  proof (cases "s \<le> ledger_seq n (hs_barriers (snapshot_create cmds))")
    case True
    with snoc obtain k s' where "k < length cmds" "cmds ! k = PxBarrier n s'" "s \<le> s'" by blast
    then show ?thesis by (intro exI [of _ k] exI [of _ s']) (simp add: nth_append)
  next
    case False
    with snoc.prems(1) obtain s' where "c = PxBarrier n s'" "s \<le> s'"
      by (cases c) (auto simp: snapshot_create_def ledger_seq_note max_def split: if_splits)
    then show ?thesis by (intro exI [of _ "length cmds"] exI [of _ s']) simp
  qed
qed

lemma high_water_register: "as_high_water (applied cmds) = register cmds"
  by (simp add: applied_def state_of_def register_def)

lemma applied_ledger: "applied_barrier_seq n (applied cmds) = ledger_seq n (hs_barriers (snapshot_create cmds))"
  by (simp add: applied_def state_of_def applied_barrier_seq_def)

section \<open>The invariant\<close>

definition host_ok :: "u64 \<Rightarrow> px_command list \<Rightarrow> px_command list \<Rightarrow> px_view px_host \<Rightarrow> bool" where
  "host_ok i log sent h \<longleftrightarrow> ph_my_node_id h = i \<and> view_ok ((ph_omnipaxos h)\<lparr>pv_log := log\<rparr>)
     \<and> unat (ph_apply_cursor h) \<le> pv_decided (ph_omnipaxos h)
     \<and> ae_apply_state (ph_engine h) = applied (take (unat (ph_apply_cursor h)) log)
     \<and> (\<forall>s. PxBarrier i s \<in> set sent \<longrightarrow> s \<le> ph_barrier_seq h)"

definition pending_ok :: "u64 \<Rightarrow> px_command list \<Rightarrow> u64 \<Rightarrow> (u64 \<times> u64 option \<times> u64) option \<Rightarrow> bool" where
  "pending_ok i log counter p \<longleftrightarrow>
     (case p of None \<Rightarrow> True
      | Some (seq, floor, began) \<Rightarrow> seq \<noteq> 0 \<and> seq \<le> counter \<and> began \<le> register log
          \<and> (\<forall>k s. k < length log \<longrightarrow> log ! k = PxBarrier i s \<longrightarrow> seq \<le> s \<longrightarrow> began \<le> register (take k log)))"

definition px_inv :: "px_cluster \<Rightarrow> bool" where
  "px_inv c \<longleftrightarrow> set (pc_log c) \<subseteq> set (pc_sent c) \<and> length (pc_log c) < 2 ^ 64 \<and>
     (\<forall>i. host_ok i (pc_log c) (pc_sent c) (pm_host (pc_members c i))
        \<and> pending_ok i (pc_log c) (ph_barrier_seq (pm_host (pc_members c i))) (pm_pending (pc_members c i)))"

lemma host_ok_log:
  assumes "host_ok i log sent h" "length log + 1 < 2 ^ 64"
  shows "host_ok i (log @ [cmd]) sent h"
proof -
  from assms(1) have "unat (ph_apply_cursor h) \<le> length log" by (auto simp: host_ok_def view_ok_def)
  with assms show ?thesis by (auto simp: host_ok_def view_ok_def)
qed

lemma pending_ok_log:
  assumes "pending_ok i log n p"
  shows "pending_ok i (log @ [cmd]) n p"
proof (cases p)
  case (Some x)
  obtain seq floor began where x: "x = (seq, floor, began)" by (cases x)
  from assms have a: "seq \<noteq> 0" "seq \<le> n" "began \<le> register log"
      and b: "\<And>k s. k < length log \<Longrightarrow> log ! k = PxBarrier i s \<Longrightarrow> seq \<le> s \<Longrightarrow> began \<le> register (take k log)"
    by (auto simp: pending_ok_def Some x)
  have "began \<le> register (take k (log @ [cmd]))" if "k < length (log @ [cmd])" "(log @ [cmd]) ! k = PxBarrier i s" "seq \<le> s" for k s
  proof (cases "k < length log")
    case True
    with that b [of k s] show ?thesis by (simp add: nth_append)
  next
    case False
    with that(1) have "k = length log" by simp
    with a(3) show ?thesis by simp
  qed
  with a register_snoc [of log cmd] show ?thesis by (auto simp: pending_ok_def Some x intro: order_trans)
qed (simp add: pending_ok_def)

lemma pending_ok_none [simp]: "pending_ok i log n None"
  by (simp add: pending_ok_def)

lemma pending_ok_mono: "pending_ok i log n p \<Longrightarrow> n \<le> n' \<Longrightarrow> pending_ok i log n' p"
  by (auto simp: pending_ok_def split: option.splits intro: order_trans)

text \<open>The host as the node sees the cluster.\<close>

lemma member_host_ok:
  assumes "px_inv c"
  shows "host_ok i (pc_log c) (pc_sent c) (member_host i c)" "view_ok (ph_omnipaxos (member_host i c))"
    "pv_log (ph_omnipaxos (member_host i c)) = pc_log c" "pv_sent (ph_omnipaxos (member_host i c)) = pc_sent c"
    "ph_barrier_seq (member_host i c) = ph_barrier_seq (pm_host (pc_members c i))"
proof -
  have h: "host_ok i (pc_log c) (pc_sent c) (pm_host (pc_members c i))" using assms by (simp add: px_inv_def)
  then show "host_ok i (pc_log c) (pc_sent c) (member_host i c)" "view_ok (ph_omnipaxos (member_host i c))"
    by (simp_all add: member_host_def Let_def host_ok_def view_ok_def)
qed (simp_all add: member_host_def Let_def)

lemma put_host_inv:
  assumes "px_inv c" "host_ok i (pc_log c) (pv_sent (ph_omnipaxos h)) h"
    and "set (pc_sent c) \<subseteq> set (pv_sent (ph_omnipaxos h))"
    and "\<And>j s. j \<noteq> i \<Longrightarrow> PxBarrier j s \<in> set (pv_sent (ph_omnipaxos h)) \<Longrightarrow> PxBarrier j s \<in> set (pc_sent c)"
    and "pending_ok i (pc_log c) (ph_barrier_seq h) p"
  shows "px_inv (set_pending i p (put_host i h c))"
proof -
  have o: "host_ok j (pc_log c) (pv_sent (ph_omnipaxos h)) (pm_host (pc_members c j))" if "j \<noteq> i" for j
    using assms(1) assms(4) [OF that] by (auto simp: px_inv_def host_ok_def)
  show ?thesis
    using assms(1,2,3,5) o by (auto simp: px_inv_def set_pending_def put_host_def)
qed

lemma set_pending_same: "set_pending i (pm_pending (pc_members c i)) (put_host i h c) = put_host i h c"
  by (simp add: set_pending_def put_host_def)

section \<open>Every step keeps the invariant\<close>

lemma view_log_prefix: "view_ok v \<Longrightarrow> n \<le> pv_decided v \<Longrightarrow> take n (view_log v) = take n (pv_log v)"
  by (auto simp: view_ok_def view_log_def min_def)

lemma view_ok_same_log [simp]: "pv_log v = log \<Longrightarrow> view_ok (v\<lparr>pv_log := log\<rparr>) = view_ok v"
  by (simp add: view_ok_def)

lemma drain_view:
  assumes "view_ok v" "unat cursor \<le> pv_decided v"
    and "drain_decided_into view_api v cursor (applied (take (unat cursor) (pv_log v))) = (idx, cursor', s')"
  shows "unat cursor' = pv_decided v \<and> s' = applied (take (pv_decided v) (pv_log v))"
  using pvl.drain_exact [OF assms(1,2)] assms by (simp add: view_log_prefix)

lemma apply_once_ok:
  assumes "host_ok i log sent h" "view_ok (ph_omnipaxos h)" "pv_log (ph_omnipaxos h) = log"
  shows "host_ok i log sent (apply_once view_api h) \<and> ph_barrier_seq (apply_once view_api h) = ph_barrier_seq h
    \<and> pv_sent (ph_omnipaxos (apply_once view_api h)) = pv_sent (ph_omnipaxos h)"
proof -
  let ?v = "ph_omnipaxos h"
  obtain idx cursor' s' where d: "drain_decided_into view_api ?v (ph_apply_cursor h) (ae_apply_state (ph_engine h)) = (idx, cursor', s')"
    by (metis prod.exhaust)
  have s: "unat cursor' = pv_decided ?v \<and> s' = applied (take (pv_decided ?v) log)"
    using drain_view [of ?v "ph_apply_cursor h" idx cursor' s'] assms d by (simp add: host_ok_def)
  obtain v' policy where m: "maybe_snapshot view_api idx (?v, ae_policy (ph_engine h)) = (v', policy)" by (rule prod.exhaust)
  then have "v' = ?v \<or> (\<exists>k. v' = ?v\<lparr>pv_compacted := max (pv_compacted ?v) (min k (pv_decided ?v))\<rparr>)"
    by (auto simp: maybe_snapshot_def Let_def view_api_def split: prod.splits if_splits)
  then have v': "pv_decided v' = pv_decided ?v" "pv_sent v' = pv_sent ?v" "pv_log v' = log" "view_ok v'"
    using assms(2,3) by (auto simp: view_ok_def)
  have "v'\<lparr>pv_log := log\<rparr> = v'" using v'(3) by simp
  with assms s v' d m show ?thesis
    by (auto simp: apply_once_def apply_step_def host_ok_def)
qed

lemma append_ok:
  assumes "host_ok i log sent h" "pv_sent (ph_omnipaxos h) = sent" "pv_log (ph_omnipaxos h) = log"
    and "append_command view_api cmd what h = (r, h')" "\<And>s. cmd = PxBarrier i s \<Longrightarrow> s \<le> ph_barrier_seq h"
  shows "r = Inr () \<and> host_ok i log (sent @ [cmd]) h' \<and> pv_sent (ph_omnipaxos h') = sent @ [cmd]
     \<and> ph_barrier_seq h' = ph_barrier_seq h"
  using assms by (auto simp: append_command_def view_api_def host_ok_def view_ok_def)

lemma register_step:
  assumes "px_inv c" "pm_pending (pc_members c i) = Some (seq, floor, began)"
    and "barrier_poll seq floor (member_host i c) = Some (Inr v)"
  shows "began \<le> v"
proof -
  let ?h = "member_host i c"
  have h: "ph_my_node_id ?h = i" "ae_apply_state (ph_engine ?h) = applied (take (unat (ph_apply_cursor ?h)) (pc_log c))"
    using member_host_ok(1) [OF assms(1), of i] by (simp_all add: host_ok_def)
  let ?n = "unat (ph_apply_cursor ?h)"
  from assms(3) h have p: "seq \<le> ledger_seq i (hs_barriers (snapshot_create (take ?n (pc_log c))))" "v = register (take ?n (pc_log c))"
    by (auto simp: barrier_poll_def applied_ledger ph_high_water_def high_water_register split: if_splits)
  have q: "seq \<noteq> 0" and at: "\<And>k s. k < length (pc_log c) \<Longrightarrow> pc_log c ! k = PxBarrier i s \<Longrightarrow> seq \<le> s \<Longrightarrow> began \<le> register (take k (pc_log c))"
  proof -
    have "pending_ok i (pc_log c) (ph_barrier_seq (pm_host (pc_members c i))) (Some (seq, floor, began))"
      using assms(1,2) by (metis px_inv_def)
    then show "seq \<noteq> 0" "\<And>k s. k < length (pc_log c) \<Longrightarrow> pc_log c ! k = PxBarrier i s \<Longrightarrow> seq \<le> s \<Longrightarrow> began \<le> register (take k (pc_log c))"
      by (auto simp: pending_ok_def)
  qed
  from ledger_of_log [OF p(1) q] obtain k s where k: "k < ?n" "k < length (pc_log c)" "pc_log c ! k = PxBarrier i s" "seq \<le> s"
    by auto
  from at [OF k(2-4)] register_mono [of k ?n "pc_log c"] k(1) p(2) show ?thesis by (auto intro: order_trans)
qed

lemma host_new_ok:
  assumes "view_ok v" "\<And>s. PxBarrier i s \<in> set sent \<Longrightarrow> s \<le> ph_barrier_seq (host_new view_api v i policy)"
  shows "host_ok i (pv_log v) sent (host_new view_api v i policy)"
proof -
  obtain idx cursor s where d: "drain_decided_into view_api v 0 apply_state_new = (idx, cursor, s)" by (metis prod.exhaust)
  have "apply_state_new = applied (take (unat (0 :: u64)) (pv_log v))"
    by (simp add: apply_state_new_def applied_def state_of_def snapshot_create_def)
  with drain_view [OF assms(1), of 0 idx cursor s] d
  have "unat cursor = pv_decided v" "s = applied (take (pv_decided v) (pv_log v))" by simp_all
  moreover have "v\<lparr>pv_log := pv_log v\<rparr> = v" by simp
  ultimately show ?thesis
    using assms d by (simp add: host_ok_def host_new_def engine_recover_def engine_new_def)
qed

lemma px_step_inv:
  assumes "px_step True c rs c'" "px_inv c"
  shows "px_inv c'"
  using assms(1)
proof cases
  case (chosen cmd)
  with assms(2) host_ok_log pending_ok_log show ?thesis by (auto simp: px_inv_def)
next
  case (learns v i)
  let ?h = "(member_host i c)\<lparr>ph_omnipaxos := v\<rparr>"
  have "host_ok i (pc_log c) (pc_sent c) ?h"
    using member_host_ok(1) [OF assms(2), of i] learns(3-6) by (auto simp: host_ok_def)
  moreover have "pending_ok i (pc_log c) (ph_barrier_seq ?h) (pm_pending (pc_members c i))"
    using assms(2) member_host_ok(5) [OF assms(2), of i] by (simp add: px_inv_def)
  ultimately have "px_inv (set_pending i (pm_pending (pc_members c i)) (put_host i ?h c))"
    using learns by (intro put_host_inv [OF assms(2)]) simp_all
  with learns(2) show ?thesis by (simp add: set_pending_same)
next
  case (applies i)
  let ?h = "apply_once view_api (member_host i c)"
  note m = member_host_ok [OF assms(2), of i]
  note a = apply_once_ok [OF m(1,2,3)]
  have "px_inv (set_pending i (pm_pending (pc_members c i)) (put_host i ?h c))"
    using a m assms(2) by (intro put_host_inv [OF assms(2)]) (simp_all add: px_inv_def)
  with applies(2) show ?thesis by (simp add: set_pending_same)
next
  case (advances a i r h)
  note m = member_host_ok [OF assms(2), of i]
  note a = append_ok [OF m(1,4,3) advances(3)]
  have "px_inv (set_pending i (pm_pending (pc_members c i)) (put_host i h c))"
    using a m assms(2) by (intro put_host_inv [OF assms(2)]) (auto simp: px_inv_def)
  with advances(2) show ?thesis by (simp add: set_pending_same)
next
  case (barrier i seq h floor)
  note m = member_host_ok [OF assms(2), of i]
  let ?h0 = "member_host i c"
  let ?h1 = "?h0\<lparr>ph_barrier_seq := ph_barrier_seq ?h0 + 1\<rparr>"
  have seq: "seq = ph_barrier_seq ?h0 + 1" and ap: "\<exists>r. append_command view_api (PxBarrier i seq) ProposedBarrier ?h1 = (r, h)"
    using barrier(3) m(1) by (auto simp: append_barrier_def Let_def host_ok_def split: prod.splits sum.splits)
  have lt: "ph_barrier_seq ?h0 < seq" "seq \<noteq> 0"
  proof -
    have "ph_barrier_seq ?h0 + 1 \<noteq> 0" using barrier(4) by (simp add: eq_neg_iff_add_eq_0)
    with unatSuc [of "ph_barrier_seq ?h0"] show "ph_barrier_seq ?h0 < seq" "seq \<noteq> 0" by (simp_all add: seq word_less_nat_alt add.commute)
  qed
  have h1: "host_ok i (pc_log c) (pc_sent c) ?h1"
    using m(1) lt(1) unfolding seq by (auto simp: host_ok_def intro: order_trans less_imp_le)
  from ap obtain r where "append_command view_api (PxBarrier i seq) ProposedBarrier ?h1 = (r, h)" by blast
  from append_ok [OF h1 _ _ this] m have h: "host_ok i (pc_log c) (pc_sent c @ [PxBarrier i seq]) h"
      "pv_sent (ph_omnipaxos h) = pc_sent c @ [PxBarrier i seq]" "ph_barrier_seq h = seq"
    by (auto simp: seq)
  have "s < seq" if "pc_log c ! k = PxBarrier i s" "k < length (pc_log c)" for k s
  proof -
    from that have "PxBarrier i s \<in> set (pc_sent c)" using assms(2) nth_mem by (fastforce simp: px_inv_def)
    with m(1) lt(1) show ?thesis by (auto simp: host_ok_def)
  qed
  then have "pending_ok i (pc_log c) seq (Some (seq, floor, register (pc_log c)))"
    using lt(2) by (auto simp: pending_ok_def not_le [symmetric])
  with h have "px_inv (set_pending i (Some (seq, floor, register (pc_log c))) (put_host i h c))"
    by (intro put_host_inv [OF assms(2)]) auto
  with barrier(2) show ?thesis by simp
next
  case (returns i seq floor began v)
  with assms(2) show ?thesis by (auto simp: px_inv_def set_pending_def)
next
  case (gives_up i)
  with assms(2) show ?thesis by (auto simp: px_inv_def set_pending_def)
next
  case (restarts v h i policy)
  have "host_ok i (pc_log c) (pc_sent c) h"
    using host_new_ok [OF restarts(3), of i "pc_sent c" policy] restarts by simp
  moreover have "pv_sent (ph_omnipaxos h) = pc_sent c"
    using restarts by (simp add: host_new_def engine_recover_def split: prod.splits)
  ultimately have "px_inv (set_pending i None (put_host i h c))"
    by (intro put_host_inv [OF assms(2)]) simp_all
  with restarts(2) show ?thesis by simp
qed

lemma px_init_inv: "px_inv (px_init b policy)"
proof -
  have "host_ok i [] [] (host_new view_api (view_new b) i policy)" for i
    using host_new_ok [of "view_new b" i "[]" policy] by (simp add: view_ok_def view_new_def)
  then show ?thesis by (simp add: px_inv_def px_init_def)
qed

lemma px_run_inv: "px_run True c rs c' \<Longrightarrow> px_inv c \<Longrightarrow> px_inv c' \<and> (\<forall>g v. Returned g v \<in> set rs \<longrightarrow> g \<le> v)"
proof (induction rule: px_run.induct)
  case (px_next c rs c' rs' c'')
  then have i: "px_inv c'" by simp
  have "g \<le> v" if "Returned g v \<in> set rs'" for g v
    using px_next.hyps(2) that by cases (auto intro: register_step [OF i])
  with px_next px_step_inv [OF px_next.hyps(2) i] show ?case by auto
qed simp

section \<open>Concrete runs\<close>

datatype px_move =
    MvChoose px_command
  | MvLearn u64 nat
  | MvApply u64
  | MvAdvance u64 u64
  | MvBarrier u64
  | MvReturn u64
  | MvRestart u64 nat

definition view_upto :: "nat \<Rightarrow> px_view \<Rightarrow> px_view" where
  "view_upto n v = v\<lparr>pv_accepted := n, pv_extra := [], pv_decided := n, pv_compacted := 0\<rparr>"

fun px_do :: "px_move \<Rightarrow> px_cluster \<Rightarrow> (px_return list \<times> px_cluster) option" where
  "px_do (MvChoose cmd) c =
     (if cmd \<in> set (pc_sent c) \<and> length (pc_log c) < 100 then Some ([], c\<lparr>pc_log := pc_log c @ [cmd]\<rparr>) else None)"
| "px_do (MvLearn i n) c =
     (let h = member_host i c
      in if pv_decided (ph_omnipaxos h) \<le> n \<and> n \<le> length (pc_log c) \<and> length (pc_log c) \<le> 100
         then Some ([], put_host i (h\<lparr>ph_omnipaxos := view_upto n (ph_omnipaxos h)\<rparr>) c) else None)"
| "px_do (MvApply i) c = Some ([], put_host i (apply_once view_api (member_host i c)) c)"
| "px_do (MvAdvance i a) c =
     Some ([], put_host i (snd (append_command view_api (PxAdvance (AdvancePayload a)) ProposedAdvance (member_host i c))) c)"
| "px_do (MvBarrier i) c =
     (case append_barrier view_api (member_host i c) of
        (Inr seq, h) \<Rightarrow> if ph_barrier_seq (member_host i c) = - 1 then None
          else Some ([], set_pending i (Some (seq, None, register (pc_log c))) (put_host i h c))
      | _ \<Rightarrow> None)"
| "px_do (MvReturn i) c =
     (case pm_pending (pc_members c i) of
        Some (seq, floor, began) \<Rightarrow>
          (case barrier_poll seq floor (member_host i c) of
             Some (Inr v) \<Rightarrow> Some ([Returned began v], set_pending i None c) | _ \<Rightarrow> None)
      | None \<Rightarrow> None)"
| "px_do (MvRestart i n) c =
     (if n \<le> length (pc_log c) \<and> length (pc_log c) \<le> 100
      then Some ([], set_pending i None (put_host i (host_new view_api (view_upto n (ph_omnipaxos (member_host i c))) i policy_disabled) c))
      else None)"

fun px_do_all :: "px_move list \<Rightarrow> px_cluster \<Rightarrow> (px_return list \<times> px_cluster) option" where
  "px_do_all [] c = Some ([], c)"
| "px_do_all (m # ms) c =
     (case px_do m c of None \<Rightarrow> None
      | Some (rs, c') \<Rightarrow> (case px_do_all ms c' of None \<Rightarrow> None | Some (rs', c'') \<Rightarrow> Some (rs @ rs', c'')))"

definition is_restart :: "px_move \<Rightarrow> bool" where
  "is_restart m = (case m of MvRestart _ _ \<Rightarrow> True | _ \<Rightarrow> False)"

lemma px_do_step:
  assumes "px_do m c = Some (rs, c')" "covered \<longrightarrow> \<not> is_restart m"
  shows "px_step covered c rs c'"
proof -
  have log: "pv_log (ph_omnipaxos (member_host i c)) = pc_log c" "pv_sent (ph_omnipaxos (member_host i c)) = pc_sent c" for i
    by (simp_all add: member_host_def Let_def)
  show ?thesis
  proof (cases m)
    case (MvChoose cmd)
    with assms(1) show ?thesis by (auto split: if_splits intro!: px_step.chosen)
  next
    case (MvLearn i n)
    with assms(1) log show ?thesis
      by (auto simp: Let_def view_upto_def view_ok_def split: if_splits intro!: px_step.learns)
  next
    case (MvApply i)
    with assms(1) show ?thesis by (auto intro: px_step.applies)
  next
    case (MvAdvance i a)
    with assms(1) show ?thesis by (auto intro: px_step.advances prod.collapse [symmetric])
  next
    case (MvBarrier i)
    with assms(1) show ?thesis by (auto split: prod.splits sum.splits if_splits intro: px_step.barrier)
  next
    case (MvReturn i)
    with assms(1) show ?thesis by (auto split: option.splits prod.splits sum.splits intro: px_step.returns)
  next
    case (MvRestart i n)
    let ?v = "view_upto n (ph_omnipaxos (member_host i c))"
    from assms MvRestart have c: "\<not> covered" "n \<le> length (pc_log c)" "length (pc_log c) \<le> 100"
        and e: "rs = []" "c' = set_pending i None (put_host i (host_new view_api ?v i policy_disabled) c)"
      by (auto simp: is_restart_def split: if_splits)
    have "view_ok ?v" "pv_log ?v = pc_log c" "pv_sent ?v = pc_sent c" using c log by (simp_all add: view_upto_def view_ok_def)
    then show ?thesis unfolding e by (rule px_step.restarts) (use c(1) in simp_all)
  qed
qed

lemma px_do_all_run:
  "px_do_all ms c = Some (rs', c') \<Longrightarrow> px_run covered c0 rs c \<Longrightarrow> covered \<longrightarrow> list_all (\<lambda>m. \<not> is_restart m) ms \<Longrightarrow>
     px_run covered c0 (rs @ rs') c'"
proof (induction ms arbitrary: c rs rs')
  case (Cons m ms)
  from Cons.prems(1) obtain r1 c1 r2 where d: "px_do m c = Some (r1, c1)" "px_do_all ms c1 = Some (r2, c')" "rs' = r1 @ r2"
    by (auto split: option.splits prod.splits)
  have "px_run covered c0 (rs @ r1) c1"
    using px_run.px_next [OF Cons.prems(2) px_do_step [OF d(1)]] Cons.prems(3) by simp
  from Cons.IH [OF d(2) this] Cons.prems(3) d(3) show ?case by simp
qed simp

definition demo_ballot :: ballot where
  "demo_ballot = \<lparr>ba_config_id = 0, ba_n = 1, ba_pid = 1\<rparr>"

text \<open>Node 2 advances the register to 10 and is told so; then node 1 reads.\<close>

definition demo_advance :: "px_move list" where
  "demo_advance = [MvAdvance 2 10, MvBarrier 2, MvChoose (PxAdvance (AdvancePayload 10)), MvChoose (PxBarrier 2 1)]"

definition demo_read :: "px_move list" where
  "demo_read = demo_advance @ [MvBarrier 1, MvChoose (PxBarrier 1 1), MvLearn 1 3, MvApply 1, MvReturn 1]"

text \<open>
  The same, but node 1 had sent a barrier before a crash, to a leader that got it chosen; the
  node itself does not have it in its log when it starts again.
\<close>

definition demo_stale :: "px_move list" where
  "demo_stale = [MvBarrier 1, MvChoose (PxBarrier 1 1)] @ demo_advance @ [MvLearn 2 3, MvApply 2, MvReturn 2,
     MvRestart 1 0, MvBarrier 1, MvLearn 1 1, MvApply 1, MvReturn 1]"

lemmas px_demo_simps =
  Let_def demo_ballot_def px_init_def view_new_def host_new_def engine_recover_def engine_new_def drain_decided_into_def
  max_logged_barrier_seq_def apply_state_new_def view_api_def view_log_def view_upto_def member_host_def put_host_def
  set_pending_def append_command_def append_barrier_def register_def snapshot_create_def apply_once_def apply_step_def
  maybe_snapshot_def should_snapshot_def policy_rebase_def policy_disabled_def policy_every_def barrier_poll_def
  ph_high_water_def applied_barrier_seq_def ledger_seq_def ledger_note_def merge_def

lemma demo_read_returns: "map_option fst (px_do_all demo_read (px_init demo_ballot policy_disabled)) = Some [Returned 10 10]"
  by (simp add: px_demo_simps demo_read_def demo_advance_def)

lemma demo_stale_returns:
  "map_option fst (px_do_all demo_stale (px_init demo_ballot policy_disabled)) = Some [Returned 0 10, Returned 10 0]"
  by (simp add: px_demo_simps demo_stale_def demo_advance_def)

lemma demo_run_of:
  assumes "map_option fst (px_do_all ms c) = Some rs" "covered \<longrightarrow> list_all (\<lambda>m. \<not> is_restart m) ms"
  shows "\<exists>c'. px_run covered c rs c'"
  using assms px_do_all_run [OF _ px_run.px_start, of ms c] by (auto simp: option.map_sel split: option.splits)

section \<open>Properties\<close>

text \<open>
  C6. The barrier reads and advances of the OmniPaxos host are linearizable: what an operation
  returns is at least what was chosen when it appended its barrier, through any order of
  choosing, learning, compaction, applying and restarting, as long as a node restarts with a
  counter that covers every nonce it has sent.
\<close>

theorem paxos_reads_linearizable:
  assumes "px_run True (px_init b policy) rs c" "Returned began v \<in> set rs"
  shows "began \<le> v"
  using px_run_inv [OF assms(1) px_init_inv] assms(2) by blast

theorem paxos_reads_linearizable_witness:
  "\<exists>c. px_run True (px_init demo_ballot policy_disabled) [Returned 10 10] c \<and> (10 :: u64) \<le> 10"
proof -
  obtain c where r: "px_run True (px_init demo_ballot policy_disabled) [Returned 10 10] c"
    using demo_run_of [OF demo_read_returns, of True] by (auto simp: demo_read_def demo_advance_def is_restart_def)
  from paxos_reads_linearizable [OF r, of 10 10] r show ?thesis by auto
qed

text \<open>
  C8. Without that hypothesis the read is not linearizable: a node whose barrier was forwarded
  and chosen elsewhere can restart with a counter recovered from its own log, which does not
  have that barrier, mint the same nonce again, and take the old barrier for its own. Node 2's
  advance to 10 has returned before node 1's read begins, and the read returns 0.
\<close>

theorem forwarded_nonce_stale_read:
  "\<exists>c. px_run False (px_init demo_ballot policy_disabled) [Returned 0 10, Returned 10 0] c"
  by (rule demo_run_of [OF demo_stale_returns]) simp

end
