(* ===== verification/Paxos_Driver.thy ===== *)
theory Paxos_Driver
  imports Paxos_Cluster Fence
begin

text \<open>
  The OmniPaxos driver under the server: the order of ballots as epochs, the single live
  leadership stream, and two schedules in which the fence of \<open>driver.rs\<close> falls short of the
  contract that \<open>Consensus\<close> states for a driver.
\<close>

section \<open>Epochs and streams\<close>

text \<open>
  The epoch of a ballot keeps it: it decodes to the configuration, round and process it was
  made of, and epochs are ordered as ballots are, configuration first, then round, then
  process.
\<close>

theorem epoch_orders_ballots:
  "decode_epoch (encode_epoch a) = (ba_config_id a, ba_n a, ba_pid a)
   \<and> (encode_epoch a < encode_epoch b \<longleftrightarrow> ba_config_id a < ba_config_id b
        \<or> ba_config_id a = ba_config_id b \<and> (ba_n a < ba_n b \<or> ba_n a = ba_n b \<and> ba_pid a < ba_pid b))"
proof -
  have digits: "x * B + y < x' * B + y' \<longleftrightarrow> x < x' \<or> x = x' \<and> y < y'" if "y < B" "y' < B" for x x' y y' B :: nat
  proof (cases x x' rule: linorder_cases)
    case less
    then have "Suc x * B \<le> x' * B" by (intro mult_right_mono) simp_all
    with less that show ?thesis by simp
  next
    case greater
    then have "Suc x' * B \<le> x * B" by (intro mult_right_mono) simp_all
    with greater that show ?thesis by simp
  qed simp
  have low: "unat (ba_n c) * 2 ^ 64 + unat (ba_pid c) < 2 ^ 96" for c
    using unat_u32_bound [of "ba_n c"] unat_u64_bound [of "ba_pid c"] by simp
  have "encode_epoch a < encode_epoch b \<longleftrightarrow> unat (epoch_val (encode_epoch a)) < unat (epoch_val (encode_epoch b))"
    by (simp add: less_epoch_def word_less_nat_alt)
  also have "\<dots> \<longleftrightarrow> unat (ba_config_id a) < unat (ba_config_id b) \<or> unat (ba_config_id a) = unat (ba_config_id b)
      \<and> unat (ba_n a) * 2 ^ 64 + unat (ba_pid a) < unat (ba_n b) * 2 ^ 64 + unat (ba_pid b)"
    unfolding unat_encode_epoch add.assoc by (rule digits [OF low low])
  also have "unat (ba_n a) * 2 ^ 64 + unat (ba_pid a) < unat (ba_n b) * 2 ^ 64 + unat (ba_pid b)
      \<longleftrightarrow> unat (ba_n a) < unat (ba_n b) \<or> unat (ba_n a) = unat (ba_n b) \<and> unat (ba_pid a) < unat (ba_pid b)"
    by (rule digits) (use unat_u64_bound in simp_all)
  finally show ?thesis by (simp add: decode_encode_epoch word_less_nat_alt word_unat_eq_iff)
qed

text \<open>Servers subscribe to the leadership stream and drop the stream they hold, in any order.\<close>

datatype stream_op = Subscribe | DropStream u64

fun stream_step :: "stream_op \<Rightarrow> stream_slot \<times> u64 list \<Rightarrow> stream_slot \<times> u64 list" where
  "stream_step Subscribe (s, live) =
     (case leadership_events_lease s of (Some g, s') \<Rightarrow> (s', g # live) | (None, s') \<Rightarrow> (s', live))"
| "stream_step (DropStream g) (s, live) = (if g \<in> set live then (drop_lease g s, remove1 g live) else (s, live))"

definition slot_ok :: "stream_slot \<times> u64 list \<Rightarrow> bool" where
  "slot_ok x = (let (s, live) = x in if sl_active_generation s = 0 then live = [] else live = [sl_active_generation s])"

lemma lease_cases:
  "\<exists>g n. g \<noteq> 0 \<and> leadership_events_lease s =
     (if sl_active_generation s = 0 then (Some g, s\<lparr>sl_next_generation := n, sl_active_generation := g\<rparr>)
      else (None, s\<lparr>sl_next_generation := n\<rparr>))"
  by (cases "sl_next_generation s = 0") (auto simp: leadership_events_lease_def mint_generation_def Let_def)

lemma lease_granted:
  "sl_active_generation s = 0 \<Longrightarrow> \<exists>g. fst (leadership_events_lease s) = Some g"
  "sl_active_generation s \<noteq> 0 \<Longrightarrow> fst (leadership_events_lease s) = None"
  using lease_cases [of s] by auto

lemma stream_step_ok: "slot_ok x \<Longrightarrow> slot_ok (stream_step op x)"
proof (cases x; cases op)
  fix s live
  assume "slot_ok x" "x = (s, live)" "op = Subscribe"
  with lease_cases [of s] show ?thesis by (auto simp: slot_ok_def split: if_splits)
qed (auto simp: slot_ok_def drop_lease_def split: if_splits)

text \<open>
  However servers subscribe and drop, at most one leadership stream is live, and a
  subscription gets a live stream exactly when none is; the wrap of the generation counter
  does not break this.
\<close>

theorem single_live_stream:
  "let (s, live) = fold stream_step ops (slot_new, []) in
     length live \<le> 1 \<and> (fst (leadership_events_lease s) \<noteq> None \<longleftrightarrow> live = [])"
proof -
  have "slot_ok (fold stream_step ops x)" if "slot_ok x" for x
    using that by (induction ops arbitrary: x) (simp_all add: stream_step_ok)
  then have "slot_ok (fold stream_step ops (slot_new, []))" by (simp add: slot_ok_def slot_new_def)
  then show ?thesis by (auto simp: slot_ok_def lease_granted split: prod.splits if_splits)
qed

section \<open>Re-election of the same node\<close>

fun observe_all ::
  "u64 \<Rightarrow> (u64 \<times> peer_endpoint) list \<Rightarrow> u64 option list \<Rightarrow> px_runner \<Rightarrow> leader_state list \<times> px_runner" where
  "observe_all me peers [] r = ([], r)"
| "observe_all me peers (l # ls) r =
     (let (ev, r1) = observe_leader me peers l r; (evs, r2) = observe_all me peers ls r1
      in ((case ev of None \<Rightarrow> evs | Some e \<Rightarrow> e # evs), r2))"

lemma observe_again: "observe_leader me peers l (snd (observe_leader me peers l r)) = (None, snd (observe_leader me peers l r))"
  by (auto simp: observe_leader_def send_event_def Let_def)

lemma observe_all_same:
  "observe_all me peers (replicate n l) (snd (observe_leader me peers l r)) = ([], snd (observe_leader me peers l r))"
  by (induction n) (simp_all add: observe_again)

text \<open>
  C25. A node that is elected again under a new ballot, with no other leader seen by a tick in
  between, does not learn of it: however many ticks follow, no leadership event is sent, every
  advance under the epoch of the event it has is fenced, and the refusal takes the server out
  of service.
\<close>

theorem reelected_leader_unnoticed:
  assumes "op_get_promise api (ph_omnipaxos h) = b'" "encode_epoch b \<noteq> encode_epoch b'" "a \<le> PHYSICAL_MS_MAX"
  shows "fst (observe_all me peers (replicate n (Some me)) (snd (observe_leader me peers (Some me) r))) = []
    \<and> px_persist_high_water api call a (encode_epoch b) h = (Inl (Fenced (encode_epoch b) (encode_epoch b')), h)
    \<and> \<not> is_serving (snd (persist_error_status (Fenced (encode_epoch b) (encode_epoch b')) c))"
  using assms
  by (simp add: observe_all_same px_persist_high_water_def reject_out_of_range_advance_def not_less persist_error_status_def
      sc_step_down_def is_serving_def Let_def)

theorem reelected_leader_unnoticed_witness:
  "px_persist_high_water view_api px_quiet 1000 (encode_epoch \<lparr>ba_config_id = 1, ba_n = 1, ba_pid = 1\<rparr>)
       (host_new view_api (view_new \<lparr>ba_config_id = 1, ba_n = 2, ba_pid = 1\<rparr>) 1 policy_disabled)
     = (Inl (Fenced (Epoch 79228162532711081667253501953) (Epoch 79228162551157825740963053569)),
        host_new view_api (view_new \<lparr>ba_config_id = 1, ba_n = 2, ba_pid = 1\<rparr>) 1 policy_disabled)"
proof -
  let ?b = "\<lparr>ba_config_id = 1, ba_n = 1, ba_pid = 1\<rparr>" and ?b' = "\<lparr>ba_config_id = 1, ba_n = 2, ba_pid = 1\<rparr>"
  have e: "encode_epoch ?b = Epoch 79228162532711081667253501953" "encode_epoch ?b' = Epoch 79228162551157825740963053569"
    by (simp_all add: encode_epoch_def)
  have "op_get_promise view_api (ph_omnipaxos (host_new view_api (view_new ?b') 1 policy_disabled)) = ?b'"
    by (simp add: view_api_def host_new_def view_new_def split: prod.splits)
  from reelected_leader_unnoticed [OF this, of ?b 1000] show ?thesis by (simp add: e PHYSICAL_MS_MAX_def LOGICAL_BITS_def)
qed

section \<open>A deposed leader\<close>

definition old_ballot :: ballot where "old_ballot = \<lparr>ba_config_id = 1, ba_n = 1, ba_pid = 1\<rparr>"
definition new_ballot :: ballot where "new_ballot = \<lparr>ba_config_id = 1, ba_n = 2, ba_pid = 2\<rparr>"

text \<open>
  What the cluster appends and chooses in the race, as a run of \<open>Paxos_Cluster\<close>: node 1 reads
  and advances to 2000, node 2 reads and advances to 3500, and then the advance of node 1 to
  6000 and its barrier are forwarded and chosen too. A command is chosen only when a node has
  appended it; what the nodes learn, apply and return is in the runs of the servers below.
\<close>

definition race_moves :: "px_move list" where
  "race_moves =
     [MvBarrier 1, MvChoose (PxBarrier 1 1),
      MvAdvance 1 2000, MvBarrier 1, MvChoose (PxAdvance (AdvancePayload 2000)), MvChoose (PxBarrier 1 2),
      MvBarrier 2, MvChoose (PxBarrier 2 1),
      MvAdvance 2 3500, MvBarrier 2, MvChoose (PxAdvance (AdvancePayload 3500)), MvChoose (PxBarrier 2 2),
      MvAdvance 1 6000, MvBarrier 1, MvChoose (PxAdvance (AdvancePayload 6000)), MvChoose (PxBarrier 1 3)]"

definition race_log :: "px_command list" where
  "race_log = (case px_do_all race_moves (px_init old_ballot policy_disabled) of None \<Rightarrow> [] | Some (rs, c) \<Rightarrow> pc_log c)"

definition old_sends :: "px_command list" where
  "old_sends = [PxBarrier 1 1, PxAdvance (AdvancePayload 2000), PxBarrier 1 2, PxAdvance (AdvancePayload 6000), PxBarrier 1 3]"

definition new_sends :: "px_command list" where
  "new_sends = [PxBarrier 2 1, PxAdvance (AdvancePayload 3500), PxBarrier 2 2]"

text \<open>
  A node learns the first \<open>n\<close> chosen commands and promises a ballot. It does not learn any of
  its \<open>own\<close> commands before it has appended it.
\<close>

definition learned :: "px_command list \<Rightarrow> nat \<Rightarrow> ballot \<Rightarrow> px_view \<Rightarrow> px_view" where
  "learned own n b v =
     (if list_all (\<lambda>cmd. cmd \<in> set own \<longrightarrow> cmd \<in> set (pv_sent v)) (take n race_log)
      then v\<lparr>pv_log := take n race_log, pv_accepted := n, pv_decided := n, pv_promise := b\<rparr> else v)"

definition server_sent :: "px_view px_driver_state server \<Rightarrow> px_command list" where
  "server_sent sv = pv_sent (ph_omnipaxos (snd (sv_driver sv)))"

definition race_cfg :: server_config where
  "race_cfg = \<lparr>cf_window_ahead = 3 * 1000000000, cf_failover_advance = 1000000000, cf_lease_ttl_floor = 1, cf_lease_ttl_ceiling = 2\<rparr>"

definition race_server :: "u64 \<Rightarrow> ballot \<Rightarrow> px_view px_call list \<Rightarrow> px_view px_driver_state server" where
  "race_server node b calls =
     \<lparr>sv_core = sc_new (cf_window_ahead race_cfg) 1 1, sv_driver = (calls, host_new view_api (view_new b) node policy_disabled)\<rparr>"

definition old_leader :: "px_view px_driver_state server" where
  "old_leader = race_server 1 old_ballot
     [px_quiet\<lparr>pl_wait := [Wake (learned old_sends 1 old_ballot)]\<rparr>,
      px_quiet\<lparr>pl_wait := [Wake (learned old_sends 3 old_ballot)]\<rparr>,
      \<lparr>pl_race = learned old_sends 6 new_ballot, pl_between = id, pl_wait = [Wake (learned old_sends 8 new_ballot)]\<rparr>]"

definition new_leader :: "px_view px_driver_state server" where
  "new_leader = race_server 2 new_ballot
     [px_quiet\<lparr>pl_wait := [Wake (learned new_sends 4 new_ballot)]\<rparr>, px_quiet\<lparr>pl_wait := [Wake (learned new_sends 6 new_ballot)]\<rparr>]"

lemma race_run:
  "map_option (\<lambda>(rs, c). (pc_log c, pc_sent c)) (px_do_all race_moves (px_init old_ballot policy_disabled)) =
     Some ([PxBarrier 1 1, PxAdvance (AdvancePayload 2000), PxBarrier 1 2, PxBarrier 2 1, PxAdvance (AdvancePayload 3500),
            PxBarrier 2 2, PxAdvance (AdvancePayload 6000), PxBarrier 1 3],
           [PxBarrier 1 1, PxAdvance (AdvancePayload 2000), PxBarrier 1 2, PxBarrier 2 1, PxAdvance (AdvancePayload 3500),
            PxBarrier 2 2, PxAdvance (AdvancePayload 6000), PxBarrier 1 3])"
  by (simp add: px_demo_simps race_moves_def)

lemma race_log_eq:
  "race_log = [PxBarrier 1 1, PxAdvance (AdvancePayload 2000), PxBarrier 1 2, PxBarrier 2 1, PxAdvance (AdvancePayload 3500),
     PxBarrier 2 2, PxAdvance (AdvancePayload 6000), PxBarrier 1 3]"
  using race_run by (auto simp: race_log_def)

lemma race_is_a_run:
  "\<exists>rs c. px_run True (px_init old_ballot policy_disabled) rs c \<and> pc_log c = race_log \<and> pc_sent c \<in> shuffles old_sends new_sends"
proof -
  obtain rs c where c: "px_do_all race_moves (px_init old_ballot policy_disabled) = Some (rs, c)" "pc_log c = race_log"
      "pc_sent c = race_log" using race_run by (auto simp: race_log_eq)
  from px_do_all_run [OF c(1) px_run.px_start, of True] have "px_run True (px_init old_ballot policy_disabled) rs c"
    by (simp add: race_moves_def is_restart_def)
  moreover have "pc_sent c \<in> shuffles old_sends new_sends"
    unfolding c(3) race_log_eq old_sends_def new_sends_def by (simp add: Cons_in_shuffles_iff)
  ultimately show ?thesis using c(2) by blast
qed

lemmas race_driver_simps =
  Let_def view_new_def host_new_def engine_recover_def engine_new_def drain_decided_into_def max_logged_barrier_seq_def
  apply_state_new_def view_api_def view_log_def append_command_def append_barrier_def snapshot_create_def apply_once_def
  apply_step_def maybe_snapshot_def should_snapshot_def policy_rebase_def policy_disabled_def policy_every_def
  barrier_poll_def ph_high_water_def applied_barrier_seq_def ledger_seq_def ledger_note_def merge_def
  paxos_driver_def with_call_def px_quiet_def px_current_high_water_def px_persist_high_water_def px_submit_advance_def
  learned_def race_log_eq old_sends_def new_sends_def reject_out_of_range_advance_def PHYSICAL_MS_MAX_def LOGICAL_BITS_def apply_task_died_def

lemma epoch_of_ballots [simp]: "encode_epoch old_ballot = Epoch (2 ^ 96 + 2 ^ 64 + 1)" "encode_epoch new_ballot = Epoch (2 ^ 96 + 2 * 2 ^ 64 + 2)"
  by (simp_all add: encode_epoch_def old_ballot_def new_ballot_def)

lemmas race_core_simps =
  race_server_def race_cfg_def fence_attempt_def default_load_leases_def fence_serving_floor_def fence_requested_def
  as_millis_def fence_seed_def seed_on_leadership_gained_def saturating_add_def pms_try_new_def alloc_become_leader_def
  less_physical_ms_def sc_new_def alloc_new_def publish_serving_def seed_leases_def is_serving_def
  get_ts_grant_def get_ts_attempt_def sc_try_grant_def alloc_try_grant_def validate_count_def LOGICAL_MAX_def
  project_grant_def advance_cursor_def wg_new_unchecked_def extend_window_def extend_prepare_def slot_would_grant_def
  alloc_would_grant_def prepare_extension_def alloc_epoch_def alloc_try_prepare_window_extension_def
  checked_add_def extend_complete_def commit_extension_def alloc_try_commit_window_extension_def

lemma old_leader_grants:
  "\<exists>a a'. fence_attempt race_cfg (paxos_driver view_api) 1000 (encode_epoch old_ballot) old_leader = (Inr (), a)
     \<and> get_ts_grant race_cfg (paxos_driver view_api) 3000 1 a
         = (Inr \<lparr>wg_physical_ms = 3000, wg_logical_start = 0, wg_count = 1, wg_epoch = encode_epoch old_ballot\<rparr>, a')
     \<and> server_sent a' = old_sends"
  by (simp add: old_leader_def race_driver_simps race_core_simps server_sent_def) code_simp

lemma new_leader_grants:
  "\<exists>b b'. fence_attempt race_cfg (paxos_driver view_api) 2500 (encode_epoch new_ballot) new_leader = (Inr (), b)
     \<and> get_ts_grant race_cfg (paxos_driver view_api) 3000 1 b
         = (Inr \<lparr>wg_physical_ms = 3000, wg_logical_start = 0, wg_count = 1, wg_epoch = encode_epoch new_ballot\<rparr>, b')
     \<and> server_sent b' = new_sends"
  by (simp add: new_leader_def race_driver_simps race_core_simps server_sent_def)

text \<open>
  C7. The fence does not keep two leaders apart: it is checked before the append, OmniPaxos
  forwards the append of a node that has lost its ballot in between, and the wait then
  succeeds. Below node 1 leads, node 2 takes over with a higher ballot and is fenced and
  serving, node 1's extension under its old epoch succeeds in that window, and both answer a
  request with the same timestamp. The commands the nodes learn are the log of a run of the
  cluster in which every chosen command was appended before, and what was appended there is
  exactly what the two servers appended, interleaved.
\<close>

theorem deposed_leader_duplicate:
  "\<exists>a a' b b' ga gb rs c. fence_attempt race_cfg (paxos_driver view_api) 1000 (encode_epoch old_ballot) old_leader = (Inr (), a)
     \<and> fence_attempt race_cfg (paxos_driver view_api) 2500 (encode_epoch new_ballot) new_leader = (Inr (), b)
     \<and> get_ts_grant race_cfg (paxos_driver view_api) 3000 1 a = (Inr ga, a')
     \<and> get_ts_grant race_cfg (paxos_driver view_api) 3000 1 b = (Inr gb, b')
     \<and> px_run True (px_init old_ballot policy_disabled) rs c \<and> pc_log c = race_log
     \<and> pc_sent c \<in> shuffles (server_sent a') (server_sent b')
     \<and> wg_first ga = wg_first gb \<and> wg_epoch ga < wg_epoch gb"
proof -
  let ?g = "\<lambda>b. \<lparr>wg_physical_ms = 3000, wg_logical_start = 0, wg_count = 1, wg_epoch = encode_epoch b\<rparr>"
  have "wg_first (?g old_ballot) = wg_first (?g new_ballot)" "wg_epoch (?g old_ballot) < wg_epoch (?g new_ballot)"
    by (simp_all add: wg_first_def) (simp add: less_epoch_def)
  with old_leader_grants new_leader_grants race_is_a_run show ?thesis by metis
qed

end
