(* ===== verification/Paxos_Runner.thy ===== *)
theory Paxos_Runner
  imports Paxos_Driver "HOL-Library.Sublist"
begin

text \<open>
  The runner of the OmniPaxos toolkit (\<open>tsoracle-paxos-toolkit/src/lifecycle/\<close>): the tick
  loop with its bounded outbound queue and its sender task, starting and stopping, the
  single step for tests, and the channel of leadership events with its subscribers. What
  OmniPaxos hands out in a tick (messages, leader) is an argument of the tick. The theory
  shows that the queue keeps its bound and that messages leave in the order OmniPaxos
  produced them, that a stopped runner can be started again, and what a subscriber sees.
\<close>

section \<open>The event channel\<close>

text \<open>A watch channel: the value, its version and the receivers that are left.\<close>

record event_channel =
  ec_value :: leader_state
  ec_version :: nat
  ec_receivers :: nat

definition leader_event_channel :: event_channel where
  "leader_event_channel = \<lparr>ec_value = LsUnknown, ec_version = 0, ec_receivers = 1\<rparr>"

datatype send_error = ChannelClosed

text \<open>\<open>watch::Sender::send\<close> refuses, and keeps the value, when no receiver is left.\<close>

definition ec_send :: "leader_state \<Rightarrow> event_channel \<Rightarrow> (send_error, unit) result \<times> event_channel" where
  "ec_send state c =
     (if ec_value c = state then (if ec_receivers c = 0 then Inl ChannelClosed else Inr (), c)
      else if ec_receivers c = 0 then (Inl ChannelClosed, c)
      else (Inr (), c\<lparr>ec_value := state, ec_version := Suc (ec_version c)\<rparr>))"

text \<open>A stream remembers the version it has yielded; a new one has yielded none.\<close>

type_synonym event_stream = "nat option"

definition ec_subscribe :: "event_channel \<Rightarrow> event_stream \<times> event_channel" where
  "ec_subscribe c = (None, c\<lparr>ec_receivers := Suc (ec_receivers c)\<rparr>)"

definition stream_poll :: "event_channel \<Rightarrow> event_stream \<Rightarrow> leader_state option \<times> event_stream" where
  "stream_poll c st =
     (if st = Some (ec_version c) then (None, st) else (Some (ec_value c), Some (ec_version c)))"

definition ec_drop :: "event_channel \<Rightarrow> event_channel" where
  "ec_drop c = c\<lparr>ec_receivers := ec_receivers c - 1\<rparr>"

section \<open>The runner\<close>

definition OUTBOUND_QUEUE_CAPACITY :: nat where "OUTBOUND_QUEUE_CAPACITY = 1024"

text \<open>The last leader seen and the counter that stands in for the epoch.\<close>

record leader_observation =
  lo_last_observed :: "u64 option"
  lo_changes :: u64

definition observation_new :: leader_observation where
  "observation_new = \<lparr>lo_last_observed = None, lo_changes = 0\<rparr>"

definition observation_step ::
  "u64 \<Rightarrow> (u64 \<times> peer_endpoint) list \<Rightarrow> u64 option \<Rightarrow> leader_observation \<Rightarrow> leader_state \<times> leader_observation" where
  "observation_step my_node_id peers leader_pid lo =
     (let lo' = (if leader_pid \<noteq> lo_last_observed lo
          then \<lparr>lo_last_observed = leader_pid,
                lo_changes = (if leader_pid \<noteq> None then lo_changes lo + 1 else lo_changes lo)\<rparr>
          else lo);
          e = map_option (\<lambda>_. Epoch (ucast (lo_changes lo'))) leader_pid
      in (to_consensus (from_omnipaxos my_node_id leader_pid e peers), lo'))"

text \<open>The sender task: idle, inside \<open>send\<close> of the sink with a message, or gone.\<close>

datatype 'm sender_task = SenderIdle | SenderBusy 'm | SenderGone

text \<open>The tick task owns its observation while it runs; the queue outlives it.\<close>

record 'm paxos_runner =
  rn_node :: u64
  rn_peers :: "(u64 \<times> peer_endpoint) list"
  rn_channel :: event_channel
  rn_subscriber_taken :: bool
  rn_started :: bool
  rn_tick :: "leader_observation option"
  rn_queue :: "'m list"
  rn_sender :: "'m sender_task"
  rn_step_leader :: leader_observation
  rn_apply_wakes :: nat

definition runner_create :: "u64 \<Rightarrow> (u64 \<times> peer_endpoint) list \<Rightarrow> 'm paxos_runner" where
  "runner_create node peers =
     \<lparr>rn_node = node, rn_peers = peers, rn_channel = leader_event_channel, rn_subscriber_taken = False,
      rn_started = False, rn_tick = None, rn_queue = [], rn_sender = SenderGone, rn_step_leader = observation_new,
      rn_apply_wakes = 0\<rparr>"

definition take_leader_subscriber :: "'m paxos_runner \<Rightarrow> bool \<times> 'm paxos_runner" where
  "take_leader_subscriber r = (\<not> rn_subscriber_taken r, r\<lparr>rn_subscriber_taken := True\<rparr>)"

datatype runner_error = AlreadyRunning

definition runner_start :: "'m paxos_runner \<Rightarrow> (runner_error, unit) result \<times> 'm paxos_runner" where
  "runner_start r =
     (if rn_started r then (Inl AlreadyRunning, r)
      else (Inr (), r\<lparr>rn_started := True, rn_sender := SenderIdle,
                      rn_tick := Some observation_new, rn_queue := []\<rparr>))"

text \<open>Handing over what a tick produced: a full queue drops the message, a sender that is
  gone ends the hand-over.\<close>

fun enqueue_outgoing :: "bool \<Rightarrow> 'm list \<Rightarrow> 'm list \<Rightarrow> 'm list" where
  "enqueue_outgoing gone [] q = q"
| "enqueue_outgoing gone (m # ms) q =
     (if gone then q
      else if length q < OUTBOUND_QUEUE_CAPACITY then enqueue_outgoing gone ms (q @ [m])
      else enqueue_outgoing gone ms q)"

text \<open>One turn of the loop. The loop ends when the event channel is closed.\<close>

definition runner_tick :: "'m list \<Rightarrow> u64 option \<Rightarrow> 'm paxos_runner \<Rightarrow> 'm paxos_runner" where
  "runner_tick outgoing leader_pid r =
     (case rn_tick r of
        None \<Rightarrow> r
      | Some observation \<Rightarrow>
          (let q = enqueue_outgoing (rn_sender r = SenderGone) outgoing (rn_queue r);
               (st, lo) = observation_step (rn_node r) (rn_peers r) leader_pid observation
           in case ec_send st (rn_channel r) of
             (Inl _, c) \<Rightarrow> r\<lparr>rn_channel := c, rn_tick := None, rn_queue := q\<rparr>
           | (Inr _, c) \<Rightarrow>
               r\<lparr>rn_channel := c, rn_tick := Some lo, rn_queue := q, rn_apply_wakes := Suc (rn_apply_wakes r)\<rparr>))"

text \<open>The sender takes the next message, or ends if there is none and no tick task to make
  one; it finishes sending a message, or dies with the sink and the queue.\<close>

definition sender_take :: "'m paxos_runner \<Rightarrow> 'm paxos_runner" where
  "sender_take r =
     (case (rn_sender r, rn_queue r) of
        (SenderIdle, []) \<Rightarrow> (if rn_tick r = None then r\<lparr>rn_sender := SenderGone\<rparr> else r)
      | (SenderIdle, m # q) \<Rightarrow> r\<lparr>rn_sender := SenderBusy m, rn_queue := q\<rparr>
      | _ \<Rightarrow> r)"

definition sender_sent :: "'m paxos_runner \<Rightarrow> 'm list \<times> 'm paxos_runner" where
  "sender_sent r = (case rn_sender r of SenderBusy m \<Rightarrow> ([m], r\<lparr>rn_sender := SenderIdle\<rparr>) | _ \<Rightarrow> ([], r))"

definition sender_panics :: "'m paxos_runner \<Rightarrow> 'm paxos_runner" where
  "sender_panics r = (case rn_sender r of SenderBusy m \<Rightarrow> r\<lparr>rn_sender := SenderGone, rn_queue := []\<rparr> | _ \<Rightarrow> r)"

text \<open>Stopping ends the tick task and aborts the sender, wherever it is.\<close>

definition runner_stop :: "'m paxos_runner \<Rightarrow> 'm paxos_runner" where
  "runner_stop r = r\<lparr>rn_started := False, rn_tick := None, rn_queue := [], rn_sender := SenderGone\<rparr>"

definition tick_once :: "'m list \<Rightarrow> u64 option \<Rightarrow> 'm paxos_runner \<Rightarrow> 'm list \<times> 'm paxos_runner" where
  "tick_once outgoing leader_pid r =
     (let (st, lo) = observation_step (rn_node r) (rn_peers r) leader_pid (rn_step_leader r)
      in (outgoing, r\<lparr>rn_step_leader := lo, rn_channel := snd (ec_send st (rn_channel r))\<rparr>))"

datatype 'm runner_event =
    RnTick "'m list" "u64 option"
  | RnTake
  | RnSent
  | RnPanic
  | RnSubscribe
  | RnUnsubscribe

text \<open>The messages that reached the sink.\<close>

fun runner_step :: "'m runner_event \<Rightarrow> 'm paxos_runner \<Rightarrow> 'm list \<times> 'm paxos_runner" where
  "runner_step (RnTick outgoing leader_pid) r = ([], runner_tick outgoing leader_pid r)"
| "runner_step RnTake r = ([], sender_take r)"
| "runner_step RnSent r = sender_sent r"
| "runner_step RnPanic r = ([], sender_panics r)"
| "runner_step RnSubscribe r = ([], r\<lparr>rn_channel := snd (ec_subscribe (rn_channel r))\<rparr>)"
| "runner_step RnUnsubscribe r = ([], r\<lparr>rn_channel := ec_drop (rn_channel r)\<rparr>)"

fun runner_run :: "'m runner_event list \<Rightarrow> 'm paxos_runner \<Rightarrow> 'm list \<times> 'm paxos_runner" where
  "runner_run [] r = ([], r)"
| "runner_run (ev # evs) r =
     (let (sent, r') = runner_step ev r; (sent', r'') = runner_run evs r' in (sent @ sent', r''))"

fun outgoing_of :: "'m runner_event \<Rightarrow> 'm list" where
  "outgoing_of (RnTick outgoing _) = outgoing"
| "outgoing_of _ = []"

section \<open>The outbound queue\<close>

lemma enqueue_subseq:
  "\<exists>taken. enqueue_outgoing gone ms q = q @ taken \<and> subseq taken ms"
proof (induction ms arbitrary: q)
  case (Cons m ms)
  show ?case
  proof (cases "gone \<or> length q \<ge> OUTBOUND_QUEUE_CAPACITY")
    case True
    with Cons [of q] show ?thesis by (cases gone) (auto intro: exI [of _ "[]"])
  next
    case False
    obtain t where "enqueue_outgoing gone ms (q @ [m]) = (q @ [m]) @ t" "subseq t ms" using Cons by blast
    with False show ?thesis by (intro exI [of _ "m # t"]) simp
  qed
qed simp

lemma enqueue_bound: "length q \<le> OUTBOUND_QUEUE_CAPACITY \<Longrightarrow> length (enqueue_outgoing gone ms q) \<le> OUTBOUND_QUEUE_CAPACITY"
  by (induction gone ms q rule: enqueue_outgoing.induct) auto

lemma enqueue_all:
  "length q + length ms \<le> OUTBOUND_QUEUE_CAPACITY \<Longrightarrow> enqueue_outgoing False ms q = q @ ms"
  by (induction ms arbitrary: q) auto

text \<open>What the runner still holds: the message being sent and the queue.\<close>

definition in_flight :: "'m paxos_runner \<Rightarrow> 'm list" where
  "in_flight r = (case rn_sender r of SenderBusy m \<Rightarrow> [m] | _ \<Rightarrow> [])
     @ rn_queue r"

definition queue_ok :: "'m paxos_runner \<Rightarrow> bool" where
  "queue_ok r \<longleftrightarrow> length (rn_queue r) \<le> OUTBOUND_QUEUE_CAPACITY"

lemma queue_ok_step: "queue_ok r \<Longrightarrow> queue_ok (snd (runner_step ev r))"
  by (cases ev) (auto simp: queue_ok_def runner_tick_def sender_take_def sender_sent_def sender_panics_def enqueue_bound Let_def
      split: option.splits sender_task.splits list.splits prod.splits sum.splits)

lemma queue_ok_run: "queue_ok r \<Longrightarrow> queue_ok (snd (runner_run evs r))"
proof (induction evs arbitrary: r)
  case (Cons ev evs)
  obtain s1 r1 s2 r2 where s: "runner_step ev r = (s1, r1)" "runner_run evs r1 = (s2, r2)" by fastforce
  with queue_ok_step [OF Cons.prems, of ev] Cons.IH [of r1] show ?case by simp
qed simp

text \<open>Each step sends, keeps or drops, and never reorders.\<close>

lemma step_in_flight:
  assumes "runner_step ev r = (sent, r')"
  shows "subseq (sent @ in_flight r') (in_flight r @ outgoing_of ev)"
proof (cases ev)
  case (RnTick outgoing leader_pid)
  obtain taken where e: "enqueue_outgoing (rn_sender r = SenderGone) outgoing (rn_queue r) = rn_queue r @ taken"
    "subseq taken outgoing"
    using enqueue_subseq by blast
  have "rn_sender r' = rn_sender r \<and> (rn_queue r' = rn_queue r \<or> rn_queue r' = rn_queue r @ taken) \<and> sent = []"
    using assms RnTick e(1) by (auto simp: runner_tick_def Let_def split: option.splits prod.splits sum.splits)
  with RnTick e(2) show ?thesis by (auto simp: in_flight_def simp: subseq_append')
next
  case RnTake
  with assms show ?thesis
    by (auto simp: in_flight_def sender_take_def split: sender_task.splits list.splits if_splits)
next
  case RnSent
  with assms show ?thesis by (auto simp: in_flight_def sender_sent_def split: sender_task.splits)
next
  case RnPanic
  with assms show ?thesis by (auto simp: in_flight_def sender_panics_def split: sender_task.splits)
qed (use assms in \<open>auto simp: in_flight_def\<close>)

text \<open>
  What reaches the sink is, in order and without repetition, part of what OmniPaxos handed
  out: messages are lost on a full queue, a dead sender or a stop, and only there.
\<close>

lemma runner_sends_in_order:
  assumes "runner_run evs r = (sent, r')"
  shows "subseq (sent @ in_flight r') (in_flight r @ concat (map outgoing_of evs))"
  using assms
proof (induction evs arbitrary: r sent)
  case (Cons ev evs)
  obtain s1 r1 s2 where s: "runner_step ev r = (s1, r1)" "runner_run evs r1 = (s2, r')" "sent = s1 @ s2"
    using Cons.prems by (auto simp: Let_def split: prod.splits)
  have "subseq (s1 @ s2 @ in_flight r') (s1 @ in_flight r1 @ concat (map outgoing_of evs))"
    using Cons.IH [OF s(2)] by (simp add: subseq_append')
  moreover have "subseq ((s1 @ in_flight r1) @ concat (map outgoing_of evs)) ((in_flight r @ outgoing_of ev) @ concat (map outgoing_of evs))"
    using step_in_flight [OF s(1)] by (simp only: subseq_append)
  ultimately show ?case using s(3) subseq_order.order_trans by fastforce
qed simp

text \<open>While the sender keeps up nothing is lost in a tick.\<close>

lemma tick_loses_nothing:
  assumes "rn_tick r = Some lo" "rn_sender r \<noteq> SenderGone"
    and "length (rn_queue r) + length outgoing \<le> OUTBOUND_QUEUE_CAPACITY"
  shows "in_flight (runner_tick outgoing leader_pid r) = in_flight r @ outgoing"
  using assms enqueue_all [OF assms(3)]
  by (auto simp: runner_tick_def in_flight_def Let_def split: prod.splits sum.splits)

section \<open>Observation, start and stop\<close>

text \<open>With a receiver left, the channel and the observation are those of the driver's model.\<close>

lemma ec_send_open:
  assumes "ec_receivers c > 0"
  shows "ec_send st c = (Inr (), if ec_value c = st then c else c\<lparr>ec_value := st, ec_version := Suc (ec_version c)\<rparr>)"
  using assms by (simp add: ec_send_def)

lemma observation_is_observe_leader:
  assumes "observation_step me peers l lo = (st, lo')" "pr_last_observed p = lo_last_observed lo" "pr_changes p = lo_changes lo"
    and "pr_channel p = ec_value c" "ec_receivers c > 0"
  shows "(case observe_leader me peers l p of (ev, p') \<Rightarrow>
      pr_last_observed p' = lo_last_observed lo' \<and> pr_changes p' = lo_changes lo'
      \<and> pr_channel p' = ec_value (snd (ec_send st c)) \<and> ev = (if ec_value c = st then None else Some st))"
proof -
  let ?p = "if l \<noteq> pr_last_observed p
     then p\<lparr>pr_last_observed := l, pr_changes := (if l \<noteq> None then pr_changes p + 1 else pr_changes p)\<rparr> else p"
  have "pr_last_observed ?p = lo_last_observed lo' \<and> pr_changes ?p = lo_changes lo' \<and> pr_channel ?p = ec_value c"
    using assms(1-4) by (auto simp: observation_step_def Let_def)
  moreover have "observe_leader me peers l p = send_event st ?p"
    using assms(1-3) by (auto simp: observation_step_def observe_leader_def Let_def)
  ultimately show ?thesis using assms(5) by (simp add: send_event_def ec_send_open)
qed

text \<open>A subscriber sees the current value first and then each value that differs.\<close>

lemma subscribe_sees_current:
  "stream_poll (snd (ec_subscribe c)) (fst (ec_subscribe c)) = (Some (ec_value c), Some (ec_version c))"
  by (simp add: ec_subscribe_def stream_poll_def)

lemma poll_after_send:
  assumes "stream_poll c st = (ev, st1)" "ec_receivers c > 0"
  shows "fst (stream_poll (snd (ec_send v c)) st1) = (if v = ec_value c then None else Some v)"
  using assms by (auto simp: stream_poll_def ec_send_def split: if_splits)

lemma start_twice: "runner_start r = (Inr (), r') \<Longrightarrow> runner_start r' = (Inl AlreadyRunning, r')"
  by (auto simp: runner_start_def split: if_splits)

lemma restart_after_stop: "fst (runner_start (runner_stop r)) = Inr ()"
  by (simp add: runner_start_def runner_stop_def)

text \<open>A runner whose loop has ended because every subscriber is gone still counts as running.\<close>

lemma ended_loop_blocks_start:
  assumes "rn_started r" "ec_receivers (rn_channel r) = 0" "rn_tick r = Some lo"
  shows "rn_tick (runner_tick outgoing l r) = None \<and> runner_start (runner_tick outgoing l r) = (Inl AlreadyRunning, runner_tick outgoing l r)"
  using assms by (auto simp: runner_tick_def runner_start_def ec_send_def Let_def split: prod.splits sum.splits if_splits)

text \<open>
  A sender that died does not end the loop: the node goes on ticking, observing and
  announcing leadership, and sends nothing any more.
\<close>

lemma mute_tick:
  assumes "rn_sender r = SenderGone" "ec_receivers (rn_channel r) > 0" "rn_tick r = Some lo" "rn_queue r = []"
  shows "rn_tick (runner_tick outgoing l r) \<noteq> None \<and> rn_queue (runner_tick outgoing l r) = []
    \<and> rn_sender (runner_tick outgoing l r) = SenderGone
    \<and> ec_receivers (rn_channel (runner_tick outgoing l r)) = ec_receivers (rn_channel r)"
proof -
  have "enqueue_outgoing True outgoing [] = []" by (cases outgoing) simp_all
  with assms show ?thesis by (auto simp: runner_tick_def Let_def ec_send_open split: prod.splits)
qed

lemma mute_forever:
  assumes "rn_sender r = SenderGone" "ec_receivers (rn_channel r) > 0" "rn_tick r = Some lo" "rn_queue r = []"
  shows "\<exists>r'. runner_run (map (\<lambda>(out, l). RnTick out l) ticks) r = ([], r') \<and> rn_tick r' \<noteq> None"
  using assms
proof (induction ticks arbitrary: r lo)
  case (Cons t ticks)
  obtain out l where t: "t = (out, l)" by (cases t)
  note m = mute_tick [OF Cons.prems, of out l]
  then obtain lo' where "rn_tick (runner_tick out l r) = Some lo'" by auto
  with m Cons.prems(2) Cons.IH [of "runner_tick out l r" lo'] obtain r' where
    "runner_run (map (\<lambda>(out, l). RnTick out l) ticks) (runner_tick out l r) = ([], r')" "rn_tick r' \<noteq> None" by auto
  with t show ?case by simp
qed simp

end
