(* ===== verification/Rocks.thy ===== *)
theory Rocks
  imports Codec
begin

text \<open>
  RocksDB as the two log stores use it (\<open>openraft-toolkit/src/log_store\<close> and
  \<open>paxos-toolkit/src/storage\<close>). The library is not part of the repository: a \<open>rocksdb\<close> value
  holds the calls the code makes, and the locale \<open>rocksdb_store\<close> states the documented
  behaviour they rely on: reads see the last write, iteration is in key order, a batch is
  atomic, and a crash loses a suffix of the batches written since the last synced one. The
  theory also has what both stores need of keys: big-endian indices are in numeric order.
\<close>

section \<open>Big-endian keys\<close>

definition be64 :: "u64 \<Rightarrow> bytes" where "be64 v = rev (le64 v)"
definition unbe64 :: "bytes \<Rightarrow> u64" where "unbe64 bs = un64 (rev bs)"

lemma length_be64 [simp]: "length (be64 v) = 8"
  by (simp add: be64_def)

lemma unbe64_be64 [simp]: "unbe64 (be64 v) = v"
  by (simp add: be64_def unbe64_def)

lemma be64_unbe64: "length bs = 8 \<Longrightarrow> be64 (unbe64 bs) = bs"
  by (simp add: be64_def unbe64_def le_un64)

lemma from_le_snoc: "from_le (bs @ [b]) = from_le bs + 256 ^ length bs * unat b"
  by (induction bs) (simp_all add: algebra_simps)

lemma bytes_less_iff:
  "length xs = length ys \<Longrightarrow> xs < ys \<longleftrightarrow> from_le (rev xs) < from_le (rev ys)"
proof (induction xs ys rule: list_induct2)
  case (Cons x xs y ys)
  let ?B = "256 ^ length ys :: nat"
  have b: "from_le (rev xs) < ?B" "from_le (rev ys) < ?B"
    using from_le_less [of "rev xs"] from_le_less [of "rev ys"] Cons.hyps by simp_all
  have "from_le (rev (x # xs)) < from_le (rev (y # ys)) \<longleftrightarrow> unat x < unat y \<or> unat x = unat y \<and> from_le (rev xs) < from_le (rev ys)"
  proof (cases "unat x" "unat y" rule: linorder_cases)
    case less
    then have "?B * (unat x + 1) \<le> ?B * unat y" by (intro mult_le_mono2) simp
    with less b Cons.hyps show ?thesis by (simp add: from_le_snoc)
  next
    case greater
    then have "?B * (unat y + 1) \<le> ?B * unat x" by (intro mult_le_mono2) simp
    with greater b Cons.hyps show ?thesis by (simp add: from_le_snoc)
  qed (use Cons.hyps in \<open>simp add: from_le_snoc\<close>)
  with Cons.IH show ?case by (simp add: word_less_nat_alt word_unat_eq_iff)
qed simp

lemma be64_less [simp]: "be64 a < be64 b \<longleftrightarrow> a < b"
  by (subst bytes_less_iff) (simp_all add: be64_def le64_def from_le_to_le word_less_nat_alt unat_u64_bound [simplified])

lemma append_less_append [simp]: "p @ xs < p @ ys \<longleftrightarrow> xs < (ys :: bytes)"
  by (induction p) simp_all

lemma prefix_less: "length xs = length ys \<Longrightarrow> xs < ys \<Longrightarrow> xs @ as < ys @ (bs :: bytes)"
  by (induction xs ys rule: list_induct2) auto

text \<open>\<open>Result::map\<close>.\<close>

fun map_ok :: "('a \<Rightarrow> 'b) \<Rightarrow> ('e, 'a) result \<Rightarrow> ('e, 'b) result" where
  "map_ok f (Inl e) = Inl e"
| "map_ok f (Inr a) = Inr (f a)"

lemma map_ok_Inr_iff [simp]: "map_ok f r = Inr b \<longleftrightarrow> (\<exists>a. r = Inr a \<and> b = f a)"
  by (cases r) auto

section \<open>The library\<close>

type_synonym cf_name = string

datatype write_op =
    WPut cf_name bytes bytes
  | WDelete cf_name bytes
  | WDeleteRange cf_name bytes bytes

datatype rocks_error = RocksError

text \<open>
  An iterator is the list of the items it yields, each of which may fail. The flag of a write
  asks for the write-ahead log to be synced before the write returns.
\<close>

record 'd rocksdb =
  rk_has_cf :: "cf_name \<Rightarrow> 'd \<Rightarrow> bool"
  rk_get :: "cf_name \<Rightarrow> bytes \<Rightarrow> 'd \<Rightarrow> (rocks_error, bytes option) result"
  rk_iter_forward :: "cf_name \<Rightarrow> bytes \<Rightarrow> 'd \<Rightarrow> (rocks_error, bytes \<times> bytes) result list"
  rk_iter_reverse :: "cf_name \<Rightarrow> bytes \<Rightarrow> 'd \<Rightarrow> (rocks_error, bytes \<times> bytes) result list"
  rk_write :: "bool \<Rightarrow> write_op list \<Rightarrow> 'd \<Rightarrow> (rocks_error, unit) result \<times> 'd"

type_synonym db_content = "cf_name \<Rightarrow> (bytes, bytes) btree_map"

fun apply_write :: "write_op \<Rightarrow> db_content \<Rightarrow> db_content" where
  "apply_write (WPut cf k v) c = c(cf := bt_insert k v (c cf))"
| "apply_write (WDelete cf k) c = c(cf := bt_remove k (c cf))"
| "apply_write (WDeleteRange cf lo hi) c = c(cf := bt_retain (\<lambda>k _. \<not> (lo \<le> k \<and> k < hi)) (c cf))"

definition apply_batch :: "write_op list \<Rightarrow> db_content \<Rightarrow> db_content" where
  "apply_batch ops c = fold apply_write ops c"

text \<open>
  \<open>content\<close> is what reads see, \<open>durable\<close> the contents a crash may leave, newest last. A write
  that is not synced adds one, a synced one leaves only its own.
\<close>

locale rocksdb_store =
  fixes db :: "'d rocksdb" and content :: "'d \<Rightarrow> db_content" and durable :: "'d \<Rightarrow> db_content list"
    and crash :: "'d \<Rightarrow> 'd \<Rightarrow> bool" and healthy :: "'d \<Rightarrow> bool"
  assumes content_wf: "healthy d \<Longrightarrow> bt_wf (content d cf)"
    and get_content: "healthy d \<Longrightarrow> rk_get db cf k d = Inr (bt_get (content d cf) k)"
    and forward_content: "healthy d \<Longrightarrow> rk_iter_forward db cf k d = map Inr (filter (\<lambda>e. k \<le> fst e) (content d cf))"
    and reverse_content: "healthy d \<Longrightarrow> rk_iter_reverse db cf k d = map Inr (rev (filter (\<lambda>e. fst e \<le> k) (content d cf)))"
    and write_ok: "healthy d \<Longrightarrow> rk_write db sync ops d = (Inr u, d') \<Longrightarrow>
      healthy d' \<and> content d' = apply_batch ops (content d)
      \<and> durable d' = (if sync then [] else durable d) @ [apply_batch ops (content d)]"
    and write_error: "healthy d \<Longrightarrow> rk_write db sync ops d = (Inl e, d') \<Longrightarrow> healthy d' \<and> content d' = content d"
    and write_cfs: "rk_write db sync ops d = (r, d') \<Longrightarrow> rk_has_cf db cf d' = rk_has_cf db cf d"
    and crash_content: "healthy d \<Longrightarrow> crash d d' \<Longrightarrow> healthy d' \<and> content d' \<in> set (durable d) \<and> durable d' = [content d']"
    and crash_cfs: "crash d d' \<Longrightarrow> rk_has_cf db cf d' = rk_has_cf db cf d"

section \<open>A store in memory\<close>

text \<open>
  The laws can hold: column families with their ordered maps, the contents since the last
  sync, and the outcomes of the writes to come.
\<close>

record mem_db =
  md_cfs :: "cf_name list"
  md_content :: db_content
  md_durable :: "db_content list"
  md_faults :: "bool list"

definition mem_write :: "bool \<Rightarrow> write_op list \<Rightarrow> mem_db \<Rightarrow> (rocks_error, unit) result \<times> mem_db" where
  "mem_write sync ops d =
     (let d1 = d\<lparr>md_faults := tl (md_faults d)\<rparr>; c = apply_batch ops (md_content d)
      in if md_faults d \<noteq> [] \<and> hd (md_faults d) then (Inl RocksError, d1)
         else (Inr (), d1\<lparr>md_content := c, md_durable := (if sync then [] else md_durable d) @ [c]\<rparr>))"

definition mem_rocksdb :: "mem_db rocksdb" where
  "mem_rocksdb =
     \<lparr>rk_has_cf = (\<lambda>cf d. cf \<in> set (md_cfs d)),
      rk_get = (\<lambda>cf k d. Inr (bt_get (md_content d cf) k)),
      rk_iter_forward = (\<lambda>cf k d. map Inr (filter (\<lambda>e. k \<le> fst e) (md_content d cf))),
      rk_iter_reverse = (\<lambda>cf k d. map Inr (rev (filter (\<lambda>e. fst e \<le> k) (md_content d cf)))),
      rk_write = mem_write\<rparr>"

definition mem_crash :: "mem_db \<Rightarrow> mem_db \<Rightarrow> bool" where
  "mem_crash d d' \<longleftrightarrow> (\<exists>c \<in> set (md_durable d). d' = d\<lparr>md_content := c, md_durable := [c]\<rparr>)"

definition mem_ok :: "mem_db \<Rightarrow> bool" where
  "mem_ok d \<longleftrightarrow> (\<forall>cf. bt_wf (md_content d cf)) \<and> (\<forall>c \<in> set (md_durable d). \<forall>cf. bt_wf (c cf))"

definition mem_open :: "cf_name list \<Rightarrow> mem_db" where
  "mem_open cfs = \<lparr>md_cfs = cfs, md_content = (\<lambda>_. []), md_durable = [\<lambda>_. []], md_faults = []\<rparr>"

lemma mem_open_ok [simp]: "mem_ok (mem_open cfs)"
  by (simp add: mem_ok_def mem_open_def)

lemma apply_write_wf: "(\<And>cf. bt_wf (c cf)) \<Longrightarrow> bt_wf (apply_write op c cf)"
  by (cases op) auto

lemma apply_batch_wf: "(\<And>cf. bt_wf (c cf)) \<Longrightarrow> bt_wf (apply_batch ops c cf)"
  unfolding apply_batch_def by (induction ops arbitrary: c) (simp_all add: apply_write_wf)

interpretation mem: rocksdb_store mem_rocksdb md_content md_durable mem_crash mem_ok
proof (unfold_locales, goal_cases)
  case (5 d sync ops u d')
  then show ?case
    by (auto simp: mem_rocksdb_def mem_write_def mem_ok_def Let_def apply_batch_wf split: if_splits)
qed (auto simp: mem_rocksdb_def mem_write_def mem_ok_def mem_crash_def Let_def split: if_splits)

section \<open>A log in an ordered map\<close>

lemma filter_bt_insert:
  "bt_wf m \<Longrightarrow> filter (\<lambda>e. P (fst e)) (bt_insert k v m)
     = (if P k then bt_insert k v (filter (\<lambda>e. P (fst e)) m) else filter (\<lambda>e. P (fst e)) m)"
proof (induction m)
  case (Cons e m)
  show ?case
  proof (cases "fst e" k rule: linorder_cases)
    case greater
    then have "\<forall>x \<in> set m. k < fst x" using Cons.prems by (auto simp: bt_wf_def)
    moreover have "bt_insert k v xs = (k, v) # xs" if "\<forall>x \<in> set xs. k < fst x" for xs
      using that by (cases xs) auto
    ultimately show ?thesis using greater by auto
  qed (use Cons in \<open>auto simp: bt_wf_def\<close>)
qed simp

lemma ball_bt_insert: "(\<forall>e \<in> set (bt_insert k v m). P (fst e)) \<longleftrightarrow> P k \<and> (\<forall>e \<in> set m. P (fst e))"
proof -
  have "(\<forall>x \<in> fst ` set (bt_insert k v m). P x) \<longleftrightarrow> P k \<and> (\<forall>x \<in> fst ` set m. P x)" by (simp only: keys_bt_insert ball_simps)
  then show ?thesis by (simp only: ball_simps)
qed

lemma takeWhile_below:
  "bt_wf m \<Longrightarrow> takeWhile (\<lambda>e. fst e < hi) (filter (\<lambda>e. lo \<le> fst e) m) = filter (\<lambda>e. lo \<le> fst e \<and> fst e < hi) m"
proof (induction m)
  case (Cons e m)
  have "filter (\<lambda>e. lo \<le> fst e \<and> fst e < hi) m = []" if "\<not> fst e < hi"
    using Cons.prems that by (auto simp: bt_wf_def filter_empty_conv)
  with Cons show ?case by (auto simp: bt_wf_def)
qed simp

text \<open>
  The records of a log in key order, each under the key of its index and decoding to the entry
  at it.
\<close>

definition records_rel :: "(u64 \<Rightarrow> bytes) \<Rightarrow> (bytes \<Rightarrow> ('x, 'e) result) \<Rightarrow> (bytes, bytes) btree_map \<Rightarrow> (u64, 'e) btree_map \<Rightarrow> bool" where
  "records_rel key dec m l \<longleftrightarrow> list_all2 (\<lambda>kv ie. fst kv = key (fst ie) \<and> dec (snd kv) = Inr (snd ie)) m l"

lemma records_rel_Nil [simp]: "records_rel key dec [] []" "records_rel key dec [] l \<longleftrightarrow> l = []" "records_rel key dec m [] \<longleftrightarrow> m = []"
  by (simp_all add: records_rel_def)

lemma records_rel_Cons [simp]:
  "records_rel key dec (kv # m) (ie # l) \<longleftrightarrow> fst kv = key (fst ie) \<and> dec (snd kv) = Inr (snd ie) \<and> records_rel key dec m l"
  by (simp add: records_rel_def)

lemma records_rel_Cons1: "records_rel key dec (kv # m) l \<longleftrightarrow> (\<exists>i e l'. l = (i, e) # l' \<and> fst kv = key i \<and> dec (snd kv) = Inr e \<and> records_rel key dec m l')"
  by (auto simp: records_rel_def list_all2_Cons1)

lemma records_rel_keys: "records_rel key dec m l \<Longrightarrow> map fst m = map (key \<circ> fst) l"
  by (induction m arbitrary: l) (auto simp: records_rel_Cons1)

lemma records_rel_length: "records_rel key dec m l \<Longrightarrow> length m = length l"
  by (auto simp: records_rel_def dest: list_all2_lengthD)

lemma records_rel_last: "records_rel key dec m l \<Longrightarrow> m \<noteq> [] \<Longrightarrow> l \<noteq> [] \<and> fst (last m) = key (fst (last l))"
proof (induction m arbitrary: l)
  case (Cons kv m)
  then show ?case by (cases "m = []") (auto simp: records_rel_Cons1)
qed simp

lemma records_rel_filter:
  "records_rel key dec m l \<Longrightarrow> (\<And>i. P (key i) = Q i) \<Longrightarrow>
     records_rel key dec (filter (\<lambda>e. P (fst e)) m) (filter (\<lambda>e. Q (fst e)) l)"
  by (induction m arbitrary: l) (auto simp: records_rel_Cons1)

locale index_keys =
  fixes key :: "u64 \<Rightarrow> bytes"
  assumes key_less: "key a < key b \<longleftrightarrow> a < b"
begin

lemma key_le: "key a \<le> key b \<longleftrightarrow> a \<le> b"
  using key_less [of b a] by (simp add: not_less [symmetric])

lemma key_eq: "key a = key b \<longleftrightarrow> a = b"
  using key_le [of a b] key_le [of b a] by auto

lemma records_rel_insert:
  "records_rel key dec m l \<Longrightarrow> dec v = Inr e \<Longrightarrow> records_rel key dec (bt_insert (key i) v m) (bt_insert i e l)"
  by (induction m arbitrary: l) (auto simp: records_rel_Cons1 key_less key_eq)

lemma records_rel_wf: "records_rel key dec m l \<Longrightarrow> bt_wf m \<longleftrightarrow> bt_wf l"
  by (simp add: bt_wf_def records_rel_keys sorted_wrt_map key_less)

end

end
