(* ===== verification/Paxos_Storage.thy ===== *)
theory Paxos_Storage
  imports Rocks Peer
begin

text \<open>
  The RocksDB storage of OmniPaxos (\<open>paxos-toolkit/src/storage\<close>): the key space, the encoding
  of the meta fields, and the storage with its two cached cursors. Entries, ballots, snapshots
  and stop signs are postcard values of any type.
\<close>

section \<open>Key space\<close>

definition LOG_PREFIX :: bytes where "LOG_PREFIX = lit ''L/''"
definition META_PREFIX :: bytes where "META_PREFIX = lit ''M/''"

definition meta_promise_key :: bytes where "meta_promise_key = lit ''M/promise''"
definition meta_accepted_round_key :: bytes where "meta_accepted_round_key = lit ''M/accepted_round''"
definition meta_decided_idx_key :: bytes where "meta_decided_idx_key = lit ''M/decided_idx''"
definition meta_compacted_idx_key :: bytes where "meta_compacted_idx_key = lit ''M/compacted_idx''"
definition meta_snapshot_key :: bytes where "meta_snapshot_key = lit ''M/snapshot''"
definition meta_stopsign_key :: bytes where "meta_stopsign_key = lit ''M/stopsign''"

definition px_log_key :: "u64 \<Rightarrow> bytes" where
  "px_log_key idx = LOG_PREFIX @ be64 idx"

definition px_log_key_range :: "bytes \<times> bytes" where
  "px_log_key_range = (px_log_key 0, META_PREFIX)"

definition parse_log_key :: "bytes \<Rightarrow> u64 option" where
  "parse_log_key key =
     (if \<not> starts_with key LOG_PREFIX \<or> length key \<noteq> length LOG_PREFIX + 8 then None
      else Some (unbe64 (drop (length LOG_PREFIX) key)))"

section \<open>Meta fields\<close>

datatype meta_error = MetaCodec codec_error | WrongU64Length nat

definition encode_u64 :: "u64 \<Rightarrow> bytes" where "encode_u64 value = le64 value"

definition decode_u64 :: "bytes \<Rightarrow> (meta_error, u64) result" where
  "decode_u64 bs = (if length bs = 8 then Inr (un64 bs) else Inl (WrongU64Length (length bs)))"

definition SCHEMA_VERSION :: u8 where "SCHEMA_VERSION = 1"

text \<open>\<open>encode_ballot\<close> and \<open>encode_postcard\<close>, and their inverses, are the same code at different types.\<close>

definition meta_encode :: "'a postcard \<Rightarrow> 'a \<Rightarrow> (meta_error, bytes) result" where
  "meta_encode pc value = map_err MetaCodec (codec_encode pc SCHEMA_VERSION value)"

definition meta_decode :: "'a postcard \<Rightarrow> bytes \<Rightarrow> (meta_error, 'a) result" where
  "meta_decode pc bs = map_err MetaCodec (codec_decode pc SCHEMA_VERSION bs)"

section \<open>The storage\<close>

datatype storage_error =
    ColumnFamilyNotFound cf_name
  | SeRocksdb rocks_error
  | SeMeta meta_error
  | SeCodec codec_error
  | LogIntegrity bytes

record ('e, 'b, 's, 'g) px_codecs =
  pk_entry :: "'e postcard"
  pk_ballot :: "'b postcard"
  pk_snapshot :: "'s postcard"
  pk_stopsign :: "'g postcard"

record 'd px_storage =
  ps_db :: 'd
  ps_cf_name :: cf_name
  ps_next_idx :: u64
  ps_compacted_idx :: u64

text \<open>A read of one key; \<open>cf\<close> is the first thing that can fail.\<close>

definition ps_get :: "'d rocksdb \<Rightarrow> bytes \<Rightarrow> (bytes \<Rightarrow> (meta_error, 'a) result) \<Rightarrow> 'd px_storage \<Rightarrow> (storage_error, 'a option) result" where
  "ps_get db key dec st =
     (if \<not> rk_has_cf db (ps_cf_name st) (ps_db st) then Inl (ColumnFamilyNotFound (ps_cf_name st))
      else case rk_get db (ps_cf_name st) key (ps_db st) of
        Inl e \<Rightarrow> Inl (SeRocksdb e)
      | Inr None \<Rightarrow> Inr None
      | Inr (Some bs) \<Rightarrow> map_err SeMeta (map_ok Some (dec bs)))"

definition read_compacted_idx :: "'d rocksdb \<Rightarrow> 'd px_storage \<Rightarrow> (storage_error, u64) result" where
  "read_compacted_idx db st =
     map_ok (\<lambda>x. case x of Some v \<Rightarrow> v | None \<Rightarrow> 0) (ps_get db meta_compacted_idx_key decode_u64 st)"

fun scan_tail :: "u64 \<Rightarrow> (rocks_error, bytes \<times> bytes) result list \<Rightarrow> (storage_error, u64) result" where
  "scan_tail compacted [] = Inr compacted"
| "scan_tail compacted (Inl e # items) = Inl (SeRocksdb e)"
| "scan_tail compacted (Inr (key, _) # items) =
     (if starts_with key LOG_PREFIX
      then (case parse_log_key key of None \<Rightarrow> Inl (LogIntegrity key) | Some idx \<Rightarrow> Inr (max (idx + 1) compacted))
      else scan_tail compacted items)"

definition scan_next_log_idx :: "'d rocksdb \<Rightarrow> u64 \<Rightarrow> 'd px_storage \<Rightarrow> (storage_error, u64) result" where
  "scan_next_log_idx db compacted st =
     (if \<not> rk_has_cf db (ps_cf_name st) (ps_db st) then Inl (ColumnFamilyNotFound (ps_cf_name st))
      else scan_tail compacted (rk_iter_reverse db (ps_cf_name st) (snd px_log_key_range) (ps_db st)))"

definition open_in :: "'d rocksdb \<Rightarrow> 'd \<Rightarrow> cf_name \<Rightarrow> (storage_error, 'd px_storage) result" where
  "open_in db d cf =
     (if \<not> rk_has_cf db cf d then Inl (ColumnFamilyNotFound cf)
      else let st = \<lparr>ps_db = d, ps_cf_name = cf, ps_next_idx = 0, ps_compacted_idx = 0\<rparr>
        in and_then (read_compacted_idx db st) (\<lambda>compacted.
           and_then (scan_next_log_idx db compacted st) (\<lambda>next.
             Inr (st\<lparr>ps_compacted_idx := compacted, ps_next_idx := next\<rparr>))))"

text \<open>
  \<open>batch_sync\<close> and \<open>batch_async\<close>: the batch is built first, and may fail, then written. The
  cursors are the caller's business.
\<close>

definition ps_batch ::
  "'d rocksdb \<Rightarrow> bool \<Rightarrow> (storage_error, write_op list) result \<Rightarrow> 'd px_storage \<Rightarrow> (storage_error, unit) result \<times> 'd px_storage" where
  "ps_batch db sync ops st =
     (if \<not> rk_has_cf db (ps_cf_name st) (ps_db st) then (Inl (ColumnFamilyNotFound (ps_cf_name st)), st)
      else case ops of
        Inl e \<Rightarrow> (Inl e, st)
      | Inr batch \<Rightarrow>
          (case rk_write db sync batch (ps_db st) of
             (Inl e, d) \<Rightarrow> (Inl (SeRocksdb e), st\<lparr>ps_db := d\<rparr>)
           | (Inr _, d) \<Rightarrow> (Inr (), st\<lparr>ps_db := d\<rparr>)))"

text \<open>The entries from an index on, one put each.\<close>

fun store_log_entries ::
  "'e postcard \<Rightarrow> cf_name \<Rightarrow> u64 \<Rightarrow> 'e list \<Rightarrow> (storage_error, write_op list) result" where
  "store_log_entries pc cf idx [] = Inr []"
| "store_log_entries pc cf idx (e # es) =
     and_then (map_err SeCodec (codec_encode pc SCHEMA_VERSION e)) (\<lambda>value.
     and_then (store_log_entries pc cf (idx + 1) es) (\<lambda>ops.
       Inr (WPut cf (px_log_key idx) value # ops)))"

definition get_log_len :: "'d px_storage \<Rightarrow> u64" where
  "get_log_len st = saturating_sub (ps_next_idx st) (ps_compacted_idx st)"

text \<open>A successful write moves the tail cursor and answers with the length of the log.\<close>

definition moved_tail :: "u64 \<Rightarrow> (storage_error, unit) result \<times> 'd px_storage \<Rightarrow> (storage_error, u64) result \<times> 'd px_storage" where
  "moved_tail next x =
     (case x of
        (Inl e, st) \<Rightarrow> (Inl e, st)
      | (Inr _, st) \<Rightarrow> let st' = st\<lparr>ps_next_idx := next\<rparr> in (Inr (get_log_len st'), st'))"

definition append_entry ::
  "'d rocksdb \<Rightarrow> ('e, 'b, 's, 'g) px_codecs \<Rightarrow> 'e \<Rightarrow> 'd px_storage \<Rightarrow> (storage_error, u64) result \<times> 'd px_storage" where
  "append_entry db pk entry st =
     (let next = ps_next_idx st
      in moved_tail (next + 1) (ps_batch db True (store_log_entries (pk_entry pk) (ps_cf_name st) next [entry]) st))"

definition append_entries ::
  "'d rocksdb \<Rightarrow> ('e, 'b, 's, 'g) px_codecs \<Rightarrow> 'e list \<Rightarrow> 'd px_storage \<Rightarrow> (storage_error, u64) result \<times> 'd px_storage" where
  "append_entries db pk entries st =
     (let start = ps_next_idx st; n = of_nat (length entries)
      in moved_tail (start + n) (ps_batch db True (store_log_entries (pk_entry pk) (ps_cf_name st) start entries) st))"

definition append_on_prefix ::
  "'d rocksdb \<Rightarrow> ('e, 'b, 's, 'g) px_codecs \<Rightarrow> u64 \<Rightarrow> 'e list \<Rightarrow> 'd px_storage \<Rightarrow> (storage_error, u64) result \<times> 'd px_storage" where
  "append_on_prefix db pk from_idx entries st =
     (let n = of_nat (length entries); cf = ps_cf_name st;
          new_tail = (if n > 0 then from_idx + n else min from_idx (ps_next_idx st))
      in moved_tail (max new_tail (ps_compacted_idx st))
           (ps_batch db True
              (map_ok (\<lambda>ops. WDeleteRange cf (px_log_key from_idx) (snd px_log_key_range) # ops)
                 (store_log_entries (pk_entry pk) cf from_idx entries)) st))"

text \<open>The setters of one key: the value is encoded before the batch is opened.\<close>

definition put_meta ::
  "'d rocksdb \<Rightarrow> bool \<Rightarrow> bytes \<Rightarrow> (meta_error, bytes) result \<Rightarrow> 'd px_storage \<Rightarrow> (storage_error, unit) result \<times> 'd px_storage" where
  "put_meta db sync key value st =
     (case value of
        Inl e \<Rightarrow> (Inl (SeMeta e), st)
      | Inr bs \<Rightarrow> ps_batch db sync (Inr [WPut (ps_cf_name st) key bs]) st)"

definition set_promise ::
  "'d rocksdb \<Rightarrow> ('e, 'b, 's, 'g) px_codecs \<Rightarrow> 'b \<Rightarrow> 'd px_storage \<Rightarrow> (storage_error, unit) result \<times> 'd px_storage" where
  "set_promise db pk n_prom = put_meta db True meta_promise_key (meta_encode (pk_ballot pk) n_prom)"

definition get_promise :: "'d rocksdb \<Rightarrow> ('e, 'b, 's, 'g) px_codecs \<Rightarrow> 'd px_storage \<Rightarrow> (storage_error, 'b option) result" where
  "get_promise db pk = ps_get db meta_promise_key (meta_decode (pk_ballot pk))"

definition set_accepted_round ::
  "'d rocksdb \<Rightarrow> ('e, 'b, 's, 'g) px_codecs \<Rightarrow> 'b \<Rightarrow> 'd px_storage \<Rightarrow> (storage_error, unit) result \<times> 'd px_storage" where
  "set_accepted_round db pk na = put_meta db True meta_accepted_round_key (meta_encode (pk_ballot pk) na)"

definition get_accepted_round :: "'d rocksdb \<Rightarrow> ('e, 'b, 's, 'g) px_codecs \<Rightarrow> 'd px_storage \<Rightarrow> (storage_error, 'b option) result" where
  "get_accepted_round db pk = ps_get db meta_accepted_round_key (meta_decode (pk_ballot pk))"

definition set_decided_idx :: "'d rocksdb \<Rightarrow> u64 \<Rightarrow> 'd px_storage \<Rightarrow> (storage_error, unit) result \<times> 'd px_storage" where
  "set_decided_idx db ld = put_meta db False meta_decided_idx_key (Inr (encode_u64 ld))"

definition get_decided_idx :: "'d rocksdb \<Rightarrow> 'd px_storage \<Rightarrow> (storage_error, u64) result" where
  "get_decided_idx db st =
     map_ok (\<lambda>x. case x of Some v \<Rightarrow> v | None \<Rightarrow> 0) (ps_get db meta_decided_idx_key decode_u64 st)"

text \<open>An absent value deletes the key.\<close>

definition put_or_delete ::
  "'d rocksdb \<Rightarrow> bytes \<Rightarrow> 'a postcard \<Rightarrow> 'a option \<Rightarrow> 'd px_storage \<Rightarrow> (storage_error, unit) result \<times> 'd px_storage" where
  "put_or_delete db key pc value st =
     (case value of
        Some inner \<Rightarrow> put_meta db False key (meta_encode pc inner) st
      | None \<Rightarrow> ps_batch db False (Inr [WDelete (ps_cf_name st) key]) st)"

definition set_stopsign ::
  "'d rocksdb \<Rightarrow> ('e, 'b, 's, 'g) px_codecs \<Rightarrow> 'g option \<Rightarrow> 'd px_storage \<Rightarrow> (storage_error, unit) result \<times> 'd px_storage" where
  "set_stopsign db pk stopsign = put_or_delete db meta_stopsign_key (pk_stopsign pk) stopsign"

definition get_stopsign :: "'d rocksdb \<Rightarrow> ('e, 'b, 's, 'g) px_codecs \<Rightarrow> 'd px_storage \<Rightarrow> (storage_error, 'g option) result" where
  "get_stopsign db pk = ps_get db meta_stopsign_key (meta_decode (pk_stopsign pk))"

definition set_snapshot ::
  "'d rocksdb \<Rightarrow> ('e, 'b, 's, 'g) px_codecs \<Rightarrow> 's option \<Rightarrow> 'd px_storage \<Rightarrow> (storage_error, unit) result \<times> 'd px_storage" where
  "set_snapshot db pk snapshot = put_or_delete db meta_snapshot_key (pk_snapshot pk) snapshot"

definition get_snapshot :: "'d rocksdb \<Rightarrow> ('e, 'b, 's, 'g) px_codecs \<Rightarrow> 'd px_storage \<Rightarrow> (storage_error, 's option) result" where
  "get_snapshot db pk = ps_get db meta_snapshot_key (meta_decode (pk_snapshot pk))"

definition storage_trim :: "'d rocksdb \<Rightarrow> u64 \<Rightarrow> 'd px_storage \<Rightarrow> (storage_error, unit) result \<times> 'd px_storage" where
  "storage_trim db idx st =
     (case ps_batch db False (Inr [WDeleteRange (ps_cf_name st) (px_log_key 0) (px_log_key idx)]) st of
        (Inl e, st') \<Rightarrow> (Inl e, st')
      | (Inr _, st') \<Rightarrow> (Inr (), if idx \<ge> ps_next_idx st' then st'\<lparr>ps_next_idx := ps_compacted_idx st'\<rparr> else st'))"

definition set_compacted_idx :: "'d rocksdb \<Rightarrow> u64 \<Rightarrow> 'd px_storage \<Rightarrow> (storage_error, unit) result \<times> 'd px_storage" where
  "set_compacted_idx db idx st =
     (case put_meta db False meta_compacted_idx_key (Inr (encode_u64 idx)) st of
        (Inl e, st') \<Rightarrow> (Inl e, st')
      | (Inr _, st') \<Rightarrow> (Inr (), st'\<lparr>ps_compacted_idx := idx, ps_next_idx := max (ps_next_idx st') idx\<rparr>))"

definition get_compacted_idx :: "'d px_storage \<Rightarrow> u64" where
  "get_compacted_idx st = ps_compacted_idx st"

text \<open>
  The reading loops: at most \<open>n\<close> entries, up to the first key that is not wanted.
  The buffer that \<open>get_entries\<close> reserves for the whole range is taken to fit in memory.
\<close>

fun read_log ::
  "'e postcard \<Rightarrow> (bytes \<Rightarrow> bool) \<Rightarrow> nat option \<Rightarrow> (rocks_error, bytes \<times> bytes) result list \<Rightarrow> (storage_error, 'e list) result" where
  "read_log pc wanted n [] = Inr []"
| "read_log pc wanted n (Inl e # items) = Inl (SeRocksdb e)"
| "read_log pc wanted n (Inr (key, value) # items) =
     (if \<not> wanted key then Inr []
      else and_then (map_err SeCodec (codec_decode pc SCHEMA_VERSION value)) (\<lambda>entry.
        if n = Some 1 then Inr [entry]
        else and_then (read_log pc wanted (map_option (\<lambda>k. k - 1) n) items) (\<lambda>out. Inr (entry # out))))"

definition get_entries ::
  "'d rocksdb \<Rightarrow> ('e, 'b, 's, 'g) px_codecs \<Rightarrow> u64 \<Rightarrow> u64 \<Rightarrow> 'd px_storage \<Rightarrow> (storage_error, 'e list) result" where
  "get_entries db pk from to st =
     (if from \<ge> to then Inr []
      else if \<not> rk_has_cf db (ps_cf_name st) (ps_db st) then Inl (ColumnFamilyNotFound (ps_cf_name st))
      else let expected = unat (to - from)
        in map_ok (\<lambda>out. if length out < expected then [] else out)
             (read_log (pk_entry pk) (\<lambda>key. starts_with key LOG_PREFIX \<and> key < px_log_key to) (Some expected)
                (rk_iter_forward db (ps_cf_name st) (px_log_key from) (ps_db st))))"

definition get_suffix ::
  "'d rocksdb \<Rightarrow> ('e, 'b, 's, 'g) px_codecs \<Rightarrow> u64 \<Rightarrow> 'd px_storage \<Rightarrow> (storage_error, 'e list) result" where
  "get_suffix db pk from st =
     (if \<not> rk_has_cf db (ps_cf_name st) (ps_db st) then Inl (ColumnFamilyNotFound (ps_cf_name st))
      else read_log (pk_entry pk) (\<lambda>key. starts_with key LOG_PREFIX) None
             (rk_iter_forward db (ps_cf_name st) (px_log_key from) (ps_db st)))"

end
