(* ===== verification/Paxos_Durability.thy ===== *)
theory Paxos_Durability
  imports Paxos_Storage
begin

text \<open>
  What the storage of OmniPaxos keeps, as a plain log with its fields, and the proof that
  \<open>Paxos_Storage\<close> implements it on any RocksDB that meets \<open>rocksdb_store\<close>: every read answers
  from the state, a failed operation changes nothing, and after a crash the storage comes back
  as it was before some of the last writes that are not synced.
\<close>

section \<open>What the storage keeps\<close>

record ('e, 'b, 's, 'g) px_spec =
  sx_log :: "(u64, 'e) btree_map"
  sx_promise :: "'b option"
  sx_accepted :: "'b option"
  sx_decided :: u64
  sx_compacted :: u64
  sx_snapshot :: "'s option"
  sx_stopsign :: "'g option"

definition spec_empty :: "('e, 'b, 's, 'g) px_spec" where
  "spec_empty = \<lparr>sx_log = [], sx_promise = None, sx_accepted = None, sx_decided = 0, sx_compacted = 0,
     sx_snapshot = None, sx_stopsign = None\<rparr>"

definition log_tail :: "(u64, 'e) btree_map \<Rightarrow> nat" where
  "log_tail l = (if l = [] then 0 else Suc (unat (fst (last l))))"

text \<open>The index of the next append: behind the last entry, and not below the compacted prefix.\<close>

definition spec_next :: "('e, 'b, 's, 'g) px_spec \<Rightarrow> u64" where
  "spec_next s = of_nat (max (log_tail (sx_log s)) (unat (sx_compacted s)))"

fun insert_run :: "u64 \<Rightarrow> 'e list \<Rightarrow> (u64, 'e) btree_map \<Rightarrow> (u64, 'e) btree_map" where
  "insert_run i [] l = l"
| "insert_run i (e # es) l = insert_run (i + 1) es (bt_insert i e l)"

datatype ('e, 'b, 's, 'g) px_op =
    PoAppend 'e
  | PoAppendAll "'e list"
  | PoAppendOnPrefix u64 "'e list"
  | PoPromise 'b
  | PoAccepted 'b
  | PoDecided u64
  | PoStopsign "'g option"
  | PoTrim u64
  | PoCompacted u64
  | PoSnapshot "'s option"

fun px_exec ::
  "'d rocksdb \<Rightarrow> ('e, 'b, 's, 'g) px_codecs \<Rightarrow> ('e, 'b, 's, 'g) px_op \<Rightarrow> 'd px_storage \<Rightarrow> (storage_error, unit) result \<times> 'd px_storage" where
  "px_exec db pk (PoAppend e) st = apfst (map_ok (\<lambda>_. ())) (append_entry db pk e st)"
| "px_exec db pk (PoAppendAll es) st = apfst (map_ok (\<lambda>_. ())) (append_entries db pk es st)"
| "px_exec db pk (PoAppendOnPrefix i es) st = apfst (map_ok (\<lambda>_. ())) (append_on_prefix db pk i es st)"
| "px_exec db pk (PoPromise b) st = set_promise db pk b st"
| "px_exec db pk (PoAccepted b) st = set_accepted_round db pk b st"
| "px_exec db pk (PoDecided i) st = set_decided_idx db i st"
| "px_exec db pk (PoStopsign g) st = set_stopsign db pk g st"
| "px_exec db pk (PoTrim i) st = storage_trim db i st"
| "px_exec db pk (PoCompacted i) st = set_compacted_idx db i st"
| "px_exec db pk (PoSnapshot x) st = set_snapshot db pk x st"

fun spec_exec :: "('e, 'b, 's, 'g) px_op \<Rightarrow> ('e, 'b, 's, 'g) px_spec \<Rightarrow> ('e, 'b, 's, 'g) px_spec" where
  "spec_exec (PoAppend e) s = s\<lparr>sx_log := bt_insert (spec_next s) e (sx_log s)\<rparr>"
| "spec_exec (PoAppendAll es) s = s\<lparr>sx_log := insert_run (spec_next s) es (sx_log s)\<rparr>"
| "spec_exec (PoAppendOnPrefix i es) s = s\<lparr>sx_log := insert_run i es (filter (\<lambda>e. fst e < i) (sx_log s))\<rparr>"
| "spec_exec (PoPromise b) s = s\<lparr>sx_promise := Some b\<rparr>"
| "spec_exec (PoAccepted b) s = s\<lparr>sx_accepted := Some b\<rparr>"
| "spec_exec (PoDecided i) s = s\<lparr>sx_decided := i\<rparr>"
| "spec_exec (PoStopsign g) s = s\<lparr>sx_stopsign := g\<rparr>"
| "spec_exec (PoTrim i) s = s\<lparr>sx_log := filter (\<lambda>e. i \<le> fst e) (sx_log s)\<rparr>"
| "spec_exec (PoCompacted i) s = s\<lparr>sx_compacted := i\<rparr>"
| "spec_exec (PoSnapshot x) s = s\<lparr>sx_snapshot := x\<rparr>"

text \<open>The writes that are synced before they return.\<close>

fun synced :: "('e, 'b, 's, 'g) px_op \<Rightarrow> bool" where
  "synced (PoAppend _) = True"
| "synced (PoAppendAll _) = True"
| "synced (PoAppendOnPrefix _ _) = True"
| "synced (PoPromise _) = True"
| "synced (PoAccepted _) = True"
| "synced _ = False"

text \<open>
  How OmniPaxos calls it: indices fit in 64 bits, compaction only moves forward, and a prefix
  that is kept without new entries ends at an entry (or is all there is, or is compacted).
\<close>

fun op_allowed :: "('e, 'b, 's, 'g) px_op \<Rightarrow> ('e, 'b, 's, 'g) px_spec \<Rightarrow> bool" where
  "op_allowed (PoAppend e) s = (unat (spec_next s) + 1 < 2 ^ 64)"
| "op_allowed (PoAppendAll es) s = (unat (spec_next s) + length es < 2 ^ 64)"
| "op_allowed (PoAppendOnPrefix i es) s =
     (unat i + length es < 2 ^ 64
      \<and> (es = [] \<longrightarrow> i \<le> sx_compacted s \<or> spec_next s \<le> i \<or> i - 1 \<in> fst ` set (sx_log s)))"
| "op_allowed (PoCompacted i) s = (sx_compacted s \<le> i)"
| "op_allowed _ s = True"

section \<open>Keys\<close>

lemmas key_defs = LOG_PREFIX_def META_PREFIX_def meta_promise_key_def meta_accepted_round_key_def meta_decided_idx_key_def
  meta_compacted_idx_key_def meta_snapshot_key_def meta_stopsign_key_def

lemma prefix_bytes: "LOG_PREFIX = [76, 47]" "META_PREFIX = [77, 47]"
  by code_simp+

lemma meta_keys_distinct [simp]:
  "distinct [meta_promise_key, meta_accepted_round_key, meta_decided_idx_key, meta_compacted_idx_key, meta_snapshot_key, meta_stopsign_key]"
  by code_simp

lemma meta_keys_start:
  "list_all (\<lambda>k. starts_with k META_PREFIX) [meta_promise_key, meta_accepted_round_key, meta_decided_idx_key, meta_compacted_idx_key, meta_snapshot_key, meta_stopsign_key]"
  by code_simp

lemma log_key_starts [simp]: "starts_with (px_log_key i) LOG_PREFIX"
  by (simp add: px_log_key_def starts_with_def)

lemma not_both_prefixes: "starts_with k META_PREFIX \<Longrightarrow> \<not> starts_with k LOG_PREFIX"
  by (auto simp: starts_with_def prefix_bytes)

lemma below_meta: "starts_with k LOG_PREFIX \<Longrightarrow> k < META_PREFIX" "starts_with k META_PREFIX \<Longrightarrow> \<not> k < META_PREFIX"
  by (auto simp: starts_with_def prefix_bytes) (cases k rule: remdups_adj.cases; auto)+

lemma parse_log_key [simp]: "parse_log_key (px_log_key i) = Some i"
  by (simp add: parse_log_key_def px_log_key_def starts_with_def)

interpretation pxk: index_keys px_log_key
  by unfold_locales (simp add: px_log_key_def)

section \<open>The contents that stand for a state\<close>

definition u64_stored :: "(bytes, bytes) btree_map \<Rightarrow> bytes \<Rightarrow> u64 \<Rightarrow> bool" where
  "u64_stored m k x \<longleftrightarrow> (case bt_get m k of None \<Rightarrow> x = 0 | Some v \<Rightarrow> decode_u64 v = Inr x)"

definition field_stored :: "'a postcard \<Rightarrow> (bytes, bytes) btree_map \<Rightarrow> bytes \<Rightarrow> 'a option \<Rightarrow> bool" where
  "field_stored pc m k f \<longleftrightarrow> (case bt_get m k of None \<Rightarrow> f = None | Some v \<Rightarrow> \<exists>x. meta_decode pc v = Inr x \<and> f = Some x)"

definition log_stored :: "'e postcard \<Rightarrow> (bytes, bytes) btree_map \<Rightarrow> (u64, 'e) btree_map \<Rightarrow> bool" where
  "log_stored pc m l \<longleftrightarrow> records_rel px_log_key (codec_decode pc SCHEMA_VERSION) (filter (\<lambda>e. starts_with (fst e) LOG_PREFIX) m) l
     \<and> (\<forall>e \<in> set m. starts_with (fst e) LOG_PREFIX \<or> starts_with (fst e) META_PREFIX)"

definition px_stored :: "('e, 'b, 's, 'g) px_codecs \<Rightarrow> (bytes, bytes) btree_map \<Rightarrow> ('e, 'b, 's, 'g) px_spec \<Rightarrow> bool" where
  "px_stored pk m s \<longleftrightarrow> log_stored (pk_entry pk) m (sx_log s)
     \<and> field_stored (pk_ballot pk) m meta_promise_key (sx_promise s)
     \<and> field_stored (pk_ballot pk) m meta_accepted_round_key (sx_accepted s)
     \<and> u64_stored m meta_decided_idx_key (sx_decided s)
     \<and> u64_stored m meta_compacted_idx_key (sx_compacted s)
     \<and> field_stored (pk_snapshot pk) m meta_snapshot_key (sx_snapshot s)
     \<and> field_stored (pk_stopsign pk) m meta_stopsign_key (sx_stopsign s)"

definition codecs_ok :: "('e, 'b, 's, 'g) px_codecs \<Rightarrow> bool" where
  "codecs_ok pk \<longleftrightarrow> postcard_ok (pk_entry pk) \<and> postcard_ok (pk_ballot pk) \<and> postcard_ok (pk_snapshot pk) \<and> postcard_ok (pk_stopsign pk)"

lemma px_stored_empty: "px_stored pk [] spec_empty"
  by (simp add: px_stored_def log_stored_def field_stored_def u64_stored_def spec_empty_def)

lemmas filter_log_insert = filter_bt_insert [where P = "\<lambda>x. starts_with x LOG_PREFIX"]

text \<open>Meta keys and log keys do not disturb each other.\<close>

lemma meta_key_facts:
  assumes "k \<in> {meta_promise_key, meta_accepted_round_key, meta_decided_idx_key, meta_compacted_idx_key, meta_snapshot_key, meta_stopsign_key}"
  shows "starts_with k META_PREFIX" "\<not> starts_with k LOG_PREFIX" "\<not> k < META_PREFIX" "k \<noteq> px_log_key i" "px_log_key i < k"
proof -
  show s: "starts_with k META_PREFIX" using assms meta_keys_start by auto
  show l: "\<not> starts_with k LOG_PREFIX" using s by (rule not_both_prefixes)
  show b: "\<not> k < META_PREFIX" using s by (rule below_meta)
  show "k \<noteq> px_log_key i" using l by auto
  show "px_log_key i < k" using b below_meta(1) [OF log_key_starts, of i] by (auto simp: not_less)
qed

lemma log_stored_put_meta:
  assumes "bt_wf m" "log_stored pc m l" "starts_with k META_PREFIX"
  shows "log_stored pc (bt_insert k v m) l"
  using assms not_both_prefixes [OF assms(3)]
    ball_bt_insert [where P = "\<lambda>x. starts_with x LOG_PREFIX \<or> starts_with x META_PREFIX", of k v m]
  by (simp add: log_stored_def filter_log_insert)

lemma log_stored_delete_meta:
  assumes "log_stored pc m l" "starts_with k META_PREFIX"
  shows "log_stored pc (bt_remove k m) l"
proof -
  have "filter (\<lambda>e. starts_with (fst e) LOG_PREFIX) (bt_remove k m) = filter (\<lambda>e. starts_with (fst e) LOG_PREFIX) m"
    using not_both_prefixes [OF assms(2)] by (auto simp: bt_remove_def intro!: filter_cong)
  with assms(1) show ?thesis by (auto simp: log_stored_def bt_remove_def)
qed

lemma log_stored_put:
  assumes "bt_wf m" "log_stored pc m l" "codec_decode pc SCHEMA_VERSION v = Inr e"
  shows "log_stored pc (bt_insert (px_log_key i) v m) (bt_insert i e l)"
  using assms ball_bt_insert [where P = "\<lambda>x. starts_with x LOG_PREFIX \<or> starts_with x META_PREFIX", of "px_log_key i" v m]
  by (simp add: log_stored_def filter_log_insert pxk.records_rel_insert)

lemma log_stored_delete:
  assumes "log_stored pc m l" "\<And>k. starts_with k META_PREFIX \<Longrightarrow> P k" "\<And>i. P (px_log_key i) = Q i"
  shows "log_stored pc (bt_retain (\<lambda>k _. P k) m) (filter (\<lambda>e. Q (fst e)) l)"
proof -
  have "filter (\<lambda>e. starts_with (fst e) LOG_PREFIX) (filter (\<lambda>e. P (fst e)) m)
      = filter (\<lambda>e. P (fst e)) (filter (\<lambda>e. starts_with (fst e) LOG_PREFIX) m)"
    by (simp add: filter_filter conj_commute)
  with assms records_rel_filter [of px_log_key _ "filter (\<lambda>e. starts_with (fst e) LOG_PREFIX) m" l P Q] show ?thesis
    by (auto simp: log_stored_def bt_retain_def)
qed

section \<open>Reading\<close>

lemma read_log_all:
  "records_rel px_log_key (codec_decode pc SCHEMA_VERSION) (takeWhile (\<lambda>e. wanted (fst e)) xs) l \<Longrightarrow>
     read_log pc wanted None (map Inr xs) = Inr (map snd l)"
proof (induction xs arbitrary: l)
  case (Cons x xs)
  then show ?case by (cases x; cases "wanted (fst x)") (auto simp: records_rel_Cons1)
qed simp

lemma read_log_some:
  "records_rel px_log_key (codec_decode pc SCHEMA_VERSION) (takeWhile (\<lambda>e. wanted (fst e)) xs) l \<Longrightarrow> length l \<le> n \<Longrightarrow> n > 0 \<Longrightarrow>
     read_log pc wanted (Some n) (map Inr xs) = Inr (map snd l)"
proof (induction xs arbitrary: l n)
  case (Cons x xs)
  show ?case
  proof (cases "wanted (fst x)")
    case True
    with Cons.prems(1) obtain i e l' where l: "l = (i, e) # l'" "codec_decode pc SCHEMA_VERSION (snd x) = Inr e"
        "records_rel px_log_key (codec_decode pc SCHEMA_VERSION) (takeWhile (\<lambda>e. wanted (fst e)) xs) l'"
      by (auto simp: records_rel_Cons1)
    show ?thesis
    proof (cases "n = 1")
      case True
      with Cons.prems(2) l \<open>wanted (fst x)\<close> show ?thesis by (cases x) simp
    next
      case False
      with Cons.prems(2,3) l Cons.IH [OF l(3), of "n - 1"] \<open>wanted (fst x)\<close> show ?thesis by (cases x) simp
    qed
  qed (use Cons.prems in \<open>cases x; simp\<close>)
qed simp

lemma takeWhile_log:
  assumes "bt_wf m" "log_stored pc m l"
  shows "takeWhile (\<lambda>e. starts_with (fst e) LOG_PREFIX) (filter (\<lambda>e. k \<le> fst e) m)
     = filter (\<lambda>e. k \<le> fst e) (filter (\<lambda>e. starts_with (fst e) LOG_PREFIX) m)"
proof -
  have s: "starts_with (fst e) LOG_PREFIX \<longleftrightarrow> fst e < META_PREFIX" if "e \<in> set m" for e
    using assms(2) that below_meta by (auto simp: log_stored_def)
  then have "takeWhile (\<lambda>e. starts_with (fst e) LOG_PREFIX) (filter (\<lambda>e. k \<le> fst e) m)
      = takeWhile (\<lambda>e. fst e < META_PREFIX) (filter (\<lambda>e. k \<le> fst e) m)"
    by (intro takeWhile_cong) auto
  also have "\<dots> = filter (\<lambda>e. k \<le> fst e \<and> fst e < META_PREFIX) m" by (rule takeWhile_below [OF assms(1)])
  also have "\<dots> = filter (\<lambda>e. k \<le> fst e) (filter (\<lambda>e. starts_with (fst e) LOG_PREFIX) m)"
    using s by (auto simp: filter_filter intro!: filter_cong)
  finally show ?thesis .
qed

lemma scan_tail_log:
  "records_rel px_log_key dec (filter (\<lambda>e. starts_with (fst e) LOG_PREFIX) xs) l \<Longrightarrow>
     scan_tail compacted (map Inr (rev xs)) = Inr (if l = [] then compacted else max (fst (last l) + 1) compacted)"
proof (induction xs arbitrary: l rule: rev_induct)
  case (snoc x xs)
  show ?case
  proof (cases "starts_with (fst x) LOG_PREFIX")
    case True
    with snoc.prems have "l \<noteq> []" "fst x = px_log_key (fst (last l))"
      using records_rel_last [OF snoc.prems] by auto
    with True show ?thesis by (cases x) simp
  next
    case False
    with snoc show ?thesis by (cases x) simp
  qed
qed simp

section \<open>Tails\<close>

lemma log_tail_bound: "bt_wf l \<Longrightarrow> x \<in> set l \<Longrightarrow> unat (fst x) < log_tail l"
proof (induction l)
  case (Cons e l)
  then show ?case
    by (cases "l = []") (auto simp: bt_wf_def log_tail_def word_less_nat_alt less_Suc_eq_le intro: less_imp_le order_trans)
qed simp

lemma bt_insert_beyond: "\<forall>x \<in> set l. fst x < i \<Longrightarrow> bt_insert i e l = l @ [(i, e)]"
  by (induction l) auto

lemma log_tail_insert_run:
  "bt_wf l \<Longrightarrow> log_tail l \<le> unat i \<Longrightarrow> unat i + length es < 2 ^ 64 \<Longrightarrow>
     log_tail (insert_run i es l) = (if es = [] then log_tail l else unat i + length es)"
proof (induction es arbitrary: i l)
  case (Cons e es)
  have "bt_insert i e l = l @ [(i, e)]"
    using log_tail_bound [OF Cons.prems(1)] Cons.prems(2) by (intro bt_insert_beyond) (auto simp: word_less_nat_alt intro: order_less_le_trans)
  then have t: "log_tail (bt_insert i e l) = Suc (unat i)" by (simp add: log_tail_def)
  have s: "unat (i + 1) = Suc (unat i)" using Cons.prems(3) unat_add_no_wrap [of i 1] by simp
  have "bt_wf (bt_insert i e l)" using Cons.prems(1) by (rule bt_wf_intros)
  from Cons.IH [OF this, of "i + 1"] t s Cons.prems(3) show ?case by simp
qed simp

lemma log_tail_prefix:
  assumes "bt_wf l"
  shows "log_tail (filter (\<lambda>e. fst e < i) l) \<le> unat i"
    "i - 1 \<in> fst ` set l \<Longrightarrow> log_tail (filter (\<lambda>e. fst e < i) l) = unat i"
    "log_tail l \<le> unat i \<Longrightarrow> filter (\<lambda>e. fst e < i) l = l"
proof -
  let ?f = "filter (\<lambda>e. fst e < i) l"
  have wf: "bt_wf ?f" using bt.wf_retain [OF assms, of "\<lambda>k _. k < i"] by (simp add: bt_retain_def)
  show le: "log_tail ?f \<le> unat i"
  proof (cases "?f = []")
    case False
    then have "last ?f \<in> set ?f" by (rule last_in_set)
    then have "fst (last ?f) < i" by auto
    with False show ?thesis by (simp add: log_tail_def word_less_nat_alt)
  qed (simp add: log_tail_def)
  show "log_tail ?f = unat i" if "i - 1 \<in> fst ` set l"
  proof (cases "i = 0")
    case False
    from that obtain e where "(i - 1, e) \<in> set l" by force
    moreover have "i - 1 < i" using False unat_gt_0 [of i] by (simp add: word_less_nat_alt unat_minus_one)
    ultimately have "(i - 1, e) \<in> set ?f" by simp
    from log_tail_bound [OF wf this] False have "unat i \<le> log_tail ?f" by (simp add: unat_minus_one)
    with le show ?thesis by simp
  qed (simp add: log_tail_def)
  show "?f = l" if "log_tail l \<le> unat i"
    using log_tail_bound [OF assms] that by (auto simp: filter_id_conv word_less_nat_alt intro: order_less_le_trans)
qed

lemma log_tail_trim:
  assumes "bt_wf l"
  shows "log_tail (filter (\<lambda>e. i \<le> fst e) l) = (if unat i < log_tail l then log_tail l else 0)"
proof (cases "unat i < log_tail l")
  case True
  then have "l \<noteq> []" "i \<le> fst (last l)" by (auto simp: log_tail_def word_le_nat_alt split: if_splits)
  then obtain ls x where "l = ls @ [x]" "i \<le> fst x" by (cases l rule: rev_cases) auto
  with True show ?thesis by (simp add: log_tail_def)
next
  case False
  then have "log_tail l \<le> unat i" by simp
  then have "filter (\<lambda>e. i \<le> fst e) l = []"
    using log_tail_bound [OF assms] by (auto simp: filter_empty_conv word_le_nat_alt not_le intro: order_less_le_trans)
  with False show ?thesis by (simp add: log_tail_def)
qed

section \<open>Batches on the contents\<close>

lemma px_stored_log_change:
  assumes "px_stored pk m s" "log_stored (pk_entry pk) m' l'" "\<And>k. starts_with k META_PREFIX \<Longrightarrow> bt_get m' k = bt_get m k"
  shows "px_stored pk m' (s\<lparr>sx_log := l'\<rparr>)"
  using assms(1,2) meta_key_facts(1) [THEN assms(3)] by (simp add: px_stored_def field_stored_def u64_stored_def)

lemma store_log_entries_ok:
  assumes "postcard_ok pc"
  shows "store_log_entries pc cf i es = Inr ops \<Longrightarrow> bt_wf (c cf) \<Longrightarrow> log_stored pc (c cf) l \<Longrightarrow>
    log_stored pc (apply_batch ops c cf) (insert_run i es l)
    \<and> (\<forall>k. starts_with k META_PREFIX \<longrightarrow> bt_get (apply_batch ops c cf) k = bt_get (c cf) k)"
proof (induction es arbitrary: i ops c l)
  case (Cons e es)
  from Cons.prems(1) obtain v ops' where v: "codec_encode pc SCHEMA_VERSION e = Inr v" "store_log_entries pc cf (i + 1) es = Inr ops'"
      "ops = WPut cf (px_log_key i) v # ops'"
    by (auto simp: and_then_Inr_iff)
  define c' where "c' = c(cf := bt_insert (px_log_key i) v (c cf))"
  have c': "c' cf = bt_insert (px_log_key i) v (c cf)" "apply_batch ops c = apply_batch ops' c'"
    by (simp_all add: c'_def v(3) apply_batch_def)
  have "bt_wf (c' cf)" "log_stored pc (c' cf) (bt_insert i e l)"
    using Cons.prems(2,3) log_stored_put [OF Cons.prems(2,3) codec_decode_encode [OF assms v(1)]] by (auto simp: c'(1))
  from Cons.IH [where c = c', OF v(2) this] show ?case
    using not_both_prefixes [of "px_log_key i"] Cons.prems(2) by (auto simp: c' bt_simps)
qed (simp add: apply_batch_def)

lemma delete_tail_ok:
  assumes "bt_wf m" "log_stored pc m l"
  shows "log_stored pc (bt_retain (\<lambda>k _. \<not> (px_log_key i \<le> k \<and> k < META_PREFIX)) m) (filter (\<lambda>e. fst e < i) l)"
    "starts_with k META_PREFIX \<Longrightarrow> bt_get (bt_retain (\<lambda>k _. \<not> (px_log_key i \<le> k \<and> k < META_PREFIX)) m) k = bt_get m k"
proof -
  show "log_stored pc (bt_retain (\<lambda>k _. \<not> (px_log_key i \<le> k \<and> k < META_PREFIX)) m) (filter (\<lambda>e. fst e < i) l)"
    by (rule log_stored_delete [OF assms(2)]) (auto simp: below_meta pxk.key_le)
  show "bt_get (bt_retain (\<lambda>k _. \<not> (px_log_key i \<le> k \<and> k < META_PREFIX)) m) k = bt_get m k" if "starts_with k META_PREFIX"
    using that below_meta(2) assms(1) by (auto simp: bt_simps split: option.splits)
qed

lemma delete_head_ok:
  assumes "bt_wf m" "log_stored pc m l"
  shows "log_stored pc (bt_retain (\<lambda>k _. \<not> (px_log_key 0 \<le> k \<and> k < px_log_key i)) m) (filter (\<lambda>e. i \<le> fst e) l)"
    "starts_with k META_PREFIX \<Longrightarrow> bt_get (bt_retain (\<lambda>k _. \<not> (px_log_key 0 \<le> k \<and> k < px_log_key i)) m) k = bt_get m k"
proof -
  have m: "\<not> k < px_log_key i" if "starts_with k META_PREFIX" for k
    using below_meta(2) [OF that] below_meta(1) [OF log_key_starts, of i] by (auto intro: less_trans)
  show "log_stored pc (bt_retain (\<lambda>k _. \<not> (px_log_key 0 \<le> k \<and> k < px_log_key i)) m) (filter (\<lambda>e. i \<le> fst e) l)"
    by (rule log_stored_delete [OF assms(2)]) (auto simp: m pxk.key_le pxk.key_less)
  show "bt_get (bt_retain (\<lambda>k _. \<not> (px_log_key 0 \<le> k \<and> k < px_log_key i)) m) k = bt_get m k" if "starts_with k META_PREFIX"
    using m [OF that] assms(1) by (auto simp: bt_simps split: option.splits)
qed

section \<open>The storage implements the log\<close>

definition storage_ok ::
  "('e, 'b, 's, 'g) px_codecs \<Rightarrow> 'd rocksdb \<Rightarrow> ('d \<Rightarrow> db_content) \<Rightarrow> 'd px_storage \<Rightarrow> ('e, 'b, 's, 'g) px_spec \<Rightarrow> bool" where
  "storage_ok pk db content st s \<longleftrightarrow> px_stored pk (content (ps_db st) (ps_cf_name st)) s
     \<and> rk_has_cf db (ps_cf_name st) (ps_db st) \<and> ps_compacted_idx st = sx_compacted s
     \<and> unat (ps_next_idx st) = max (log_tail (sx_log s)) (unat (sx_compacted s))"

lemma storage_next: "storage_ok pk db content st s \<Longrightarrow> spec_next s = ps_next_idx st"
proof -
  assume "storage_ok pk db content st s"
  then have "spec_next s = of_nat (unat (ps_next_idx st))" by (simp only: storage_ok_def spec_next_def)
  then show ?thesis by simp
qed

context rocksdb_store
begin

lemma batch_ok:
  assumes "ps_batch db sync ops st = (Inr (), st')" "healthy (ps_db st)"
  obtains batch d where "ops = Inr batch" "st' = st\<lparr>ps_db := d\<rparr>" "healthy d" "content d = apply_batch batch (content (ps_db st))"
    "durable d = (if sync then [] else durable (ps_db st)) @ [content d]" "\<And>cf. rk_has_cf db cf d = rk_has_cf db cf (ps_db st)"
proof -
  from assms(1) obtain batch u d where w: "ops = Inr batch" "rk_write db sync batch (ps_db st) = (Inr u, d)" "st' = st\<lparr>ps_db := d\<rparr>"
    by (auto simp: ps_batch_def split: if_splits sum.splits prod.splits)
  from write_ok [OF assms(2) w(2)] write_cfs [OF w(2)] show thesis by (intro that [OF w(1,3)]) auto
qed

lemma stored_wf: "healthy (ps_db st) \<Longrightarrow> storage_ok pk db content st s \<Longrightarrow> bt_wf (sx_log s)"
proof -
  assume h: "healthy (ps_db st)" and o: "storage_ok pk db content st s"
  let ?m = "filter (\<lambda>e. starts_with (fst e) LOG_PREFIX) (content (ps_db st) (ps_cf_name st))"
  have "bt_wf ?m" using bt.wf_retain [OF content_wf [OF h], of "\<lambda>k _. starts_with k LOG_PREFIX"] by (simp add: bt_retain_def)
  moreover have "records_rel px_log_key (codec_decode (pk_entry pk) SCHEMA_VERSION) ?m (sx_log s)"
    using o by (simp add: storage_ok_def px_stored_def log_stored_def)
  ultimately show ?thesis using pxk.records_rel_wf by blast
qed

text \<open>The three appends are a batch that leaves a prefix and puts a run behind it.\<close>

lemma append_run_ok:
  assumes "healthy (ps_db st)" "storage_ok pk db content st s" "codecs_ok pk"
    and "ps_batch db True (map_ok (\<lambda>ops. dels @ ops) (store_log_entries (pk_entry pk) (ps_cf_name st) i es)) st = (Inr (), st')"
    and "log_stored (pk_entry pk) (apply_batch dels (content (ps_db st)) (ps_cf_name st)) l"
    and "\<And>k. starts_with k META_PREFIX \<Longrightarrow> bt_get (apply_batch dels (content (ps_db st)) (ps_cf_name st)) k
           = bt_get (content (ps_db st) (ps_cf_name st)) k"
    and "bt_wf l" "log_tail l \<le> unat i" "unat i + length es < 2 ^ 64"
    and "unat next = max (if es = [] then log_tail l else unat i + length es) (unat (sx_compacted s))"
  shows "healthy (ps_db st') \<and> storage_ok pk db content (st'\<lparr>ps_next_idx := next\<rparr>) (s\<lparr>sx_log := insert_run i es l\<rparr>)
    \<and> ps_cf_name st' = ps_cf_name st \<and> durable (ps_db st') = [content (ps_db st')]"
proof -
  obtain batch d where b: "map_ok (\<lambda>ops. dels @ ops) (store_log_entries (pk_entry pk) (ps_cf_name st) i es) = Inr batch"
      "st' = st\<lparr>ps_db := d\<rparr>" "healthy d" "content d = apply_batch batch (content (ps_db st))"
      "durable d = [content d]" "\<And>cf. rk_has_cf db cf d = rk_has_cf db cf (ps_db st)"
    by (rule batch_ok [OF assms(4,1)]) simp
  obtain ops where ops: "store_log_entries (pk_entry pk) (ps_cf_name st) i es = Inr ops" "batch = dels @ ops" using b(1) by auto
  define c where "c = apply_batch dels (content (ps_db st))"
  have c: "content d = apply_batch ops c" by (simp add: b(4) ops(2) c_def apply_batch_def)
  have "bt_wf (c (ps_cf_name st))" unfolding c_def by (rule apply_batch_wf) (rule content_wf [OF assms(1)])
  from store_log_entries_ok [where c = c, OF _ ops(1) this, of l] assms(3,5)
  have n: "log_stored (pk_entry pk) (content d (ps_cf_name st)) (insert_run i es l)"
      "\<And>k. starts_with k META_PREFIX \<Longrightarrow> bt_get (content d (ps_cf_name st)) k = bt_get (c (ps_cf_name st)) k"
    by (auto simp: c codecs_ok_def c_def)
  have "px_stored pk (content d (ps_cf_name st)) (s\<lparr>sx_log := insert_run i es l\<rparr>)"
    using assms(2) by (intro px_stored_log_change [OF _ n(1)]) (auto simp: storage_ok_def n(2) c_def assms(6))
  with assms(2,10) log_tail_insert_run [OF assms(7-9)] b show ?thesis by (simp add: storage_ok_def)
qed

end

lemma meta_keys_distinct_rev:
  "distinct [meta_stopsign_key, meta_snapshot_key, meta_compacted_idx_key, meta_decided_idx_key, meta_accepted_round_key, meta_promise_key]"
  using meta_keys_distinct by auto

lemmas meta_neq = meta_keys_distinct [simplified] meta_keys_distinct_rev [simplified]

lemma meta_in_prefix:
  "starts_with meta_promise_key META_PREFIX" "starts_with meta_accepted_round_key META_PREFIX" "starts_with meta_decided_idx_key META_PREFIX"
  "starts_with meta_compacted_idx_key META_PREFIX" "starts_with meta_snapshot_key META_PREFIX" "starts_with meta_stopsign_key META_PREFIX"
  using meta_keys_start by simp_all

lemma decode_encode_u64 [simp]: "decode_u64 (encode_u64 x) = Inr x"
  by (simp add: decode_u64_def encode_u64_def)

lemma meta_decode_encode: "postcard_ok pc \<Longrightarrow> meta_encode pc x = Inr bs \<Longrightarrow> meta_decode pc bs = Inr x"
  by (simp add: meta_encode_def meta_decode_def codec_decode_encode)

lemmas stored_simps = px_stored_def field_stored_def u64_stored_def bt_simps meta_neq

lemma stored_put_promise:
  assumes "px_stored pk m s" "bt_wf m" "codecs_ok pk" "meta_encode (pk_ballot pk) b = Inr bs"
  shows "px_stored pk (bt_insert meta_promise_key bs m) (s\<lparr>sx_promise := Some b\<rparr>)"
  using assms meta_decode_encode [OF _ assms(4)] by (simp add: stored_simps codecs_ok_def log_stored_put_meta meta_in_prefix)

lemma stored_put_accepted:
  assumes "px_stored pk m s" "bt_wf m" "codecs_ok pk" "meta_encode (pk_ballot pk) b = Inr bs"
  shows "px_stored pk (bt_insert meta_accepted_round_key bs m) (s\<lparr>sx_accepted := Some b\<rparr>)"
  using assms meta_decode_encode [OF _ assms(4)] by (simp add: stored_simps codecs_ok_def log_stored_put_meta meta_in_prefix)

lemma stored_put_decided:
  "px_stored pk m s \<Longrightarrow> bt_wf m \<Longrightarrow> px_stored pk (bt_insert meta_decided_idx_key (encode_u64 i) m) (s\<lparr>sx_decided := i\<rparr>)"
  by (simp add: stored_simps log_stored_put_meta meta_in_prefix)

lemma stored_put_compacted:
  "px_stored pk m s \<Longrightarrow> bt_wf m \<Longrightarrow> px_stored pk (bt_insert meta_compacted_idx_key (encode_u64 i) m) (s\<lparr>sx_compacted := i\<rparr>)"
  by (simp add: stored_simps log_stored_put_meta meta_in_prefix)

lemma stored_put_snapshot:
  assumes "px_stored pk m s" "bt_wf m" "codecs_ok pk" "meta_encode (pk_snapshot pk) x = Inr bs"
  shows "px_stored pk (bt_insert meta_snapshot_key bs m) (s\<lparr>sx_snapshot := Some x\<rparr>)"
  using assms meta_decode_encode [OF _ assms(4)] by (simp add: stored_simps codecs_ok_def log_stored_put_meta meta_in_prefix)

lemma stored_put_stopsign:
  assumes "px_stored pk m s" "bt_wf m" "codecs_ok pk" "meta_encode (pk_stopsign pk) x = Inr bs"
  shows "px_stored pk (bt_insert meta_stopsign_key bs m) (s\<lparr>sx_stopsign := Some x\<rparr>)"
  using assms meta_decode_encode [OF _ assms(4)] by (simp add: stored_simps codecs_ok_def log_stored_put_meta meta_in_prefix)

lemma stored_delete:
  assumes "px_stored pk m s" "bt_wf m"
  shows "px_stored pk (bt_remove meta_snapshot_key m) (s\<lparr>sx_snapshot := None\<rparr>)"
    "px_stored pk (bt_remove meta_stopsign_key m) (s\<lparr>sx_stopsign := None\<rparr>)"
  using assms by (simp_all add: stored_simps log_stored_delete_meta meta_in_prefix)

text \<open>A write that leaves the cursors alone.\<close>

definition wrote ::
  "('e, 'b, 's, 'g) px_codecs \<Rightarrow> 'd rocksdb \<Rightarrow> ('d \<Rightarrow> db_content) \<Rightarrow> 'd px_storage \<Rightarrow> 'd px_storage \<Rightarrow> ('e, 'b, 's, 'g) px_spec \<Rightarrow> bool" where
  "wrote pk db content st st' s' \<longleftrightarrow> px_stored pk (content (ps_db st') (ps_cf_name st)) s' \<and> rk_has_cf db (ps_cf_name st) (ps_db st')
     \<and> ps_cf_name st' = ps_cf_name st \<and> ps_compacted_idx st' = ps_compacted_idx st \<and> ps_next_idx st' = ps_next_idx st"

lemma wrote_ok:
  "wrote pk db content st st' s' \<Longrightarrow> storage_ok pk db content st s \<Longrightarrow> sx_log s' = sx_log s \<Longrightarrow> sx_compacted s' = sx_compacted s \<Longrightarrow>
     storage_ok pk db content st' s' \<and> ps_cf_name st' = ps_cf_name st"
  by (simp add: wrote_def storage_ok_def)

context rocksdb_store
begin

lemma one_write_ok:
  assumes "ps_batch db False (Inr [w]) st = (Inr (), st')" "healthy (ps_db st)" "storage_ok pk db content st s"
    and "px_stored pk (apply_write w (content (ps_db st)) (ps_cf_name st)) s'"
  shows "healthy (ps_db st')" "wrote pk db content st st' s'" "durable (ps_db st') = durable (ps_db st) @ [content (ps_db st')]"
  using assms by (elim batch_ok; auto simp: apply_batch_def storage_ok_def wrote_def)+

lemma put_meta_ok:
  assumes "put_meta db sync k value st = (Inr (), st')" "healthy (ps_db st)" "storage_ok pk db content st s"
    and "\<And>bs. value = Inr bs \<Longrightarrow> px_stored pk (bt_insert k bs (content (ps_db st) (ps_cf_name st))) s'"
  shows "healthy (ps_db st')" "wrote pk db content st st' s'"
    "durable (ps_db st') = (if sync then [] else durable (ps_db st)) @ [content (ps_db st')]"
proof -
  from assms(1) obtain bs where v: "value = Inr bs" "ps_batch db sync (Inr [WPut (ps_cf_name st) k bs]) st = (Inr (), st')"
    by (auto simp: put_meta_def split: sum.splits)
  obtain batch d where "[WPut (ps_cf_name st) k bs] = batch" "st' = st\<lparr>ps_db := d\<rparr>" "healthy d"
      "content d = apply_batch batch (content (ps_db st))"
      "durable d = (if sync then [] else durable (ps_db st)) @ [content d]" "\<And>cf. rk_has_cf db cf d = rk_has_cf db cf (ps_db st)"
    by (rule batch_ok [OF v(2) assms(2)]) simp
  with assms(3) assms(4) [OF v(1)]
  show "healthy (ps_db st')" "wrote pk db content st st' s'" "durable (ps_db st') = (if sync then [] else durable (ps_db st)) @ [content (ps_db st')]"
    by (auto simp: apply_batch_def storage_ok_def wrote_def)
qed

lemma put_or_delete_ok:
  assumes "put_or_delete db k pc value st = (Inr (), st')" "healthy (ps_db st)" "storage_ok pk db content st s"
    and "\<And>x bs. value = Some x \<Longrightarrow> meta_encode pc x = Inr bs \<Longrightarrow> px_stored pk (bt_insert k bs (content (ps_db st) (ps_cf_name st))) s'"
    and "value = None \<Longrightarrow> px_stored pk (bt_remove k (content (ps_db st) (ps_cf_name st))) s'"
  shows "healthy (ps_db st')" "wrote pk db content st st' s'" "durable (ps_db st') = durable (ps_db st) @ [content (ps_db st')]"
proof -
  have "healthy (ps_db st') \<and> wrote pk db content st st' s' \<and> durable (ps_db st') = durable (ps_db st) @ [content (ps_db st')]"
  proof (cases "value")
    case None
    with assms(1) have "ps_batch db False (Inr [WDelete (ps_cf_name st) k]) st = (Inr (), st')" by (simp add: put_or_delete_def)
    from one_write_ok [OF this assms(2,3), of s'] assms(5) [OF None] show ?thesis by simp
  next
    case (Some x)
    with assms(1) have "put_meta db False k (meta_encode pc x) st = (Inr (), st')" by (simp add: put_or_delete_def)
    from put_meta_ok [OF this assms(2,3) assms(4) [OF Some]] show ?thesis by simp
  qed
  then show "healthy (ps_db st')" "wrote pk db content st st' s'" "durable (ps_db st') = durable (ps_db st) @ [content (ps_db st')]"
    by simp_all
qed

end

lemma moved_tail_ok:
  "apfst (map_ok (\<lambda>_. ())) (moved_tail next x) = (Inr (), st') \<longleftrightarrow> (\<exists>st. x = (Inr (), st) \<and> st' = st\<lparr>ps_next_idx := next\<rparr>)"
  by (cases x; cases "fst x") (auto simp: moved_tail_def Let_def)

lemma map_ok_append_Nil [simp]: "map_ok (\<lambda>ops. ops) r = r"
  by (cases r) simp_all

context rocksdb_store
begin

lemma append_log_ok:
  assumes "healthy (ps_db st)" "storage_ok pk db content st s" "codecs_ok pk" "unat (ps_next_idx st) + length es < 2 ^ 64"
    and "ps_batch db True (store_log_entries (pk_entry pk) (ps_cf_name st) (ps_next_idx st) es) st = (Inr (), st1)"
  shows "healthy (ps_db st1)
    \<and> storage_ok pk db content (st1\<lparr>ps_next_idx := ps_next_idx st + of_nat (length es)\<rparr>) (s\<lparr>sx_log := insert_run (spec_next s) es (sx_log s)\<rparr>)
    \<and> ps_cf_name st1 = ps_cf_name st \<and> durable (ps_db st1) = [content (ps_db st1)]"
proof -
  have n: "unat (ps_next_idx st) = max (log_tail (sx_log s)) (unat (sx_compacted s))" using assms(2) by (simp add: storage_ok_def)
  have "unat (of_nat (length es) :: u64) = length es" using assms(4) by (simp add: unat_of_nat)
  then have "unat (ps_next_idx st + of_nat (length es)) = unat (ps_next_idx st) + length es"
    using assms(4) unat_add_no_wrap [of "ps_next_idx st" "of_nat (length es)"] by simp
  then show ?thesis
    unfolding storage_next [OF assms(2)]
    using assms n by (intro append_run_ok [where dels = "[]", OF assms(1-3)])
      (auto simp: apply_batch_def storage_ok_def px_stored_def stored_wf [OF assms(1,2)])
qed

lemma append_on_prefix_ok:
  assumes "healthy (ps_db st)" "storage_ok pk db content st s" "codecs_ok pk" "op_allowed (PoAppendOnPrefix i es) s"
    and "px_exec db pk (PoAppendOnPrefix i es) st = (Inr (), st')"
  shows "healthy (ps_db st') \<and> storage_ok pk db content st' (spec_exec (PoAppendOnPrefix i es) s)
    \<and> ps_cf_name st' = ps_cf_name st \<and> durable (ps_db st') = [content (ps_db st')]"
proof -
  note wf = stored_wf [OF assms(1,2)] and cwf = content_wf [OF assms(1)]
  have al: "unat i + length es < 2 ^ 64" "es = [] \<Longrightarrow> i \<le> sx_compacted s \<or> ps_next_idx st \<le> i \<or> i - 1 \<in> fst ` set (sx_log s)"
    using assms(4) storage_next [OF assms(2)] by auto
  let ?n = "of_nat (length es) :: u64"
  have n: "unat ?n = length es" using al(1) by (simp add: unat_of_nat)
  then have z: "?n = 0 \<longleftrightarrow> es = []" by (metis length_0_conv unat_eq_0)
  have s: "unat (ps_next_idx st) = max (log_tail (sx_log s)) (unat (sx_compacted s))" "ps_compacted_idx st = sx_compacted s"
    using assms(2) by (simp_all add: storage_ok_def)
  let ?next = "max (if ?n > 0 then i + ?n else min i (ps_next_idx st)) (ps_compacted_idx st)"
  have t: "unat ?next = max (if es = [] then log_tail (filter (\<lambda>e. fst e < i) (sx_log s)) else unat i + length es) (unat (sx_compacted s))"
  proof (cases "es = []")
    case True
    with al(2) consider "i \<le> sx_compacted s" | "ps_next_idx st \<le> i" | "i - 1 \<in> fst ` set (sx_log s)" by blast
    then show ?thesis
    proof cases
      case 1
      with True z log_tail_prefix(1) [OF wf, of i] show ?thesis by (simp add: unat_max unat_min s(2) word_le_nat_alt)
    next
      case 2
      then have "log_tail (sx_log s) \<le> unat i" using s(1) by (simp add: word_le_nat_alt)
      with 2 True z log_tail_prefix(3) [OF wf this] show ?thesis by (simp add: unat_max unat_min s word_le_nat_alt)
    next
      case 3
      then obtain x where "x \<in> set (sx_log s)" "fst x = i - 1" by auto
      with log_tail_bound [OF wf, of x] have "unat i \<le> log_tail (sx_log s)"
        by (cases "i = 0") (simp_all add: unat_minus_one)
      with 3 True z log_tail_prefix(2) [OF wf 3] show ?thesis by (simp add: unat_max unat_min s)
    qed
  next
    case False
    moreover have "unat (i + ?n) = unat i + length es" using al(1) n unat_add_no_wrap [of i ?n] by simp
    ultimately show ?thesis using z by (simp add: unat_max s word_gt_0)
  qed
  from assms(5) obtain st1 where b: "ps_batch db True (map_ok (\<lambda>ops. WDeleteRange (ps_cf_name st) (px_log_key i) (snd px_log_key_range) # ops)
        (store_log_entries (pk_entry pk) (ps_cf_name st) i es)) st = (Inr (), st1)" "st' = st1\<lparr>ps_next_idx := ?next\<rparr>"
    by (auto simp: append_on_prefix_def Let_def moved_tail_ok)
  have "log_stored (pk_entry pk) (content (ps_db st) (ps_cf_name st)) (sx_log s)" using assms(2) by (simp add: storage_ok_def px_stored_def)
  note d = delete_tail_ok [where i = i, OF cwf this]
  have "healthy (ps_db st1) \<and> storage_ok pk db content (st1\<lparr>ps_next_idx := ?next\<rparr>)
      (s\<lparr>sx_log := insert_run i es (filter (\<lambda>e. fst e < i) (sx_log s))\<rparr>)
      \<and> ps_cf_name st1 = ps_cf_name st \<and> durable (ps_db st1) = [content (ps_db st1)]"
    by (rule append_run_ok [where dels = "[WDeleteRange (ps_cf_name st) (px_log_key i) META_PREFIX]", OF assms(1-3)])
      (use b(1) d t al(1) log_tail_prefix(1) [OF wf] bt.wf_retain [OF wf, of "\<lambda>k _. k < i"] in
        \<open>simp_all add: px_log_key_range_def apply_batch_def bt_retain_def\<close>)
  with b(2) show ?thesis by simp
qed

end

context rocksdb_store
begin

lemma trim_ok:
  assumes "healthy (ps_db st)" "storage_ok pk db content st s" "storage_trim db i st = (Inr (), st')"
  shows "healthy (ps_db st') \<and> storage_ok pk db content st' (spec_exec (PoTrim i) s)
    \<and> ps_cf_name st' = ps_cf_name st \<and> durable (ps_db st') = durable (ps_db st) @ [content (ps_db st')]"
proof -
  from assms(3) obtain st1 where b: "ps_batch db False (Inr [WDeleteRange (ps_cf_name st) (px_log_key 0) (px_log_key i)]) st = (Inr (), st1)"
      "st' = (if i \<ge> ps_next_idx st1 then st1\<lparr>ps_next_idx := ps_compacted_idx st1\<rparr> else st1)"
    by (auto simp: storage_trim_def split: prod.splits sum.splits)
  have p: "px_stored pk (content (ps_db st) (ps_cf_name st)) s" "log_stored (pk_entry pk) (content (ps_db st) (ps_cf_name st)) (sx_log s)"
    using assms(2) by (simp_all add: storage_ok_def px_stored_def)
  note d = delete_head_ok [where i = i, OF content_wf [OF assms(1)] p(2)]
  have "px_stored pk (apply_write (WDeleteRange (ps_cf_name st) (px_log_key 0) (px_log_key i)) (content (ps_db st)) (ps_cf_name st))
      (s\<lparr>sx_log := filter (\<lambda>e. i \<le> fst e) (sx_log s)\<rparr>)"
    unfolding apply_write.simps fun_upd_same by (rule px_stored_log_change [OF p(1) d])
  note w = one_write_ok [OF b(1) assms(1,2) this]
  from w(2) have w': "px_stored pk (content (ps_db st1) (ps_cf_name st)) (s\<lparr>sx_log := filter (\<lambda>e. i \<le> fst e) (sx_log s)\<rparr>)"
      "rk_has_cf db (ps_cf_name st) (ps_db st1)" "ps_cf_name st1 = ps_cf_name st" "ps_compacted_idx st1 = ps_compacted_idx st"
      "ps_next_idx st1 = ps_next_idx st" by (simp_all add: wrote_def)
  have "unat (ps_next_idx st') = max (log_tail (filter (\<lambda>e. i \<le> fst e) (sx_log s))) (unat (sx_compacted s))"
    using w' assms(2) b(2) log_tail_trim [OF stored_wf [OF assms(1,2)], of i] by (auto simp: storage_ok_def word_le_nat_alt max_def)
  with w w' assms(2) b(2) show ?thesis by (auto simp: storage_ok_def)
qed

lemma set_compacted_ok:
  assumes "healthy (ps_db st)" "storage_ok pk db content st s" "set_compacted_idx db i st = (Inr (), st')" "sx_compacted s \<le> i"
  shows "healthy (ps_db st') \<and> storage_ok pk db content st' (spec_exec (PoCompacted i) s)
    \<and> ps_cf_name st' = ps_cf_name st \<and> durable (ps_db st') = durable (ps_db st) @ [content (ps_db st')]"
proof -
  from assms(3) obtain st1 where b: "put_meta db False meta_compacted_idx_key (Inr (encode_u64 i)) st = (Inr (), st1)"
      "st' = st1\<lparr>ps_compacted_idx := i, ps_next_idx := max (ps_next_idx st1) i\<rparr>"
    by (auto simp: set_compacted_idx_def split: prod.splits sum.splits)
  have "px_stored pk (content (ps_db st) (ps_cf_name st)) s" using assms(2) by (simp add: storage_ok_def)
  from stored_put_compacted [OF this content_wf [OF assms(1)], of i]
  have p: "px_stored pk (bt_insert meta_compacted_idx_key bs (content (ps_db st) (ps_cf_name st))) (s\<lparr>sx_compacted := i\<rparr>)"
    if "Inr (encode_u64 i) = (Inr bs :: (meta_error, bytes) result)" for bs using that by simp
  note w = put_meta_ok [OF b(1) assms(1,2) p]
  have "unat (max (ps_next_idx st) i) = max (log_tail (sx_log s)) (unat i)"
    using assms(2,4) by (simp add: storage_ok_def unat_max word_le_nat_alt max_def)
  with w b(2) show ?thesis by (simp add: storage_ok_def wrote_def)
qed

lemma exec_ok:
  assumes "healthy (ps_db st)" "storage_ok pk db content st s" "codecs_ok pk" "op_allowed op s" "px_exec db pk op st = (Inr (), st')"
  shows "healthy (ps_db st') \<and> storage_ok pk db content st' (spec_exec op s)
    \<and> ps_cf_name st' = ps_cf_name st \<and> durable (ps_db st') = (if synced op then [] else durable (ps_db st)) @ [content (ps_db st')]"
proof -
  have p: "px_stored pk (content (ps_db st) (ps_cf_name st)) s" using assms(2) by (simp add: storage_ok_def)
  note cwf = content_wf [OF assms(1)] and nx = storage_next [OF assms(2)]
  show ?thesis
  proof (cases op)
    case (PoAppend e)
    with assms(5) obtain st1 where "ps_batch db True (store_log_entries (pk_entry pk) (ps_cf_name st) (ps_next_idx st) [e]) st = (Inr (), st1)"
        "st' = st1\<lparr>ps_next_idx := ps_next_idx st + 1\<rparr>"
      by (auto simp: append_entry_def Let_def moved_tail_ok)
    with append_log_ok [OF assms(1-3), of "[e]" st1] assms(4) PoAppend nx show ?thesis by simp
  next
    case (PoAppendAll es)
    with assms(5) obtain st1 where "ps_batch db True (store_log_entries (pk_entry pk) (ps_cf_name st) (ps_next_idx st) es) st = (Inr (), st1)"
        "st' = st1\<lparr>ps_next_idx := ps_next_idx st + of_nat (length es)\<rparr>"
      by (auto simp: append_entries_def Let_def moved_tail_ok)
    with append_log_ok [OF assms(1-3), of es st1] assms(4) PoAppendAll nx show ?thesis by simp
  next
    case (PoAppendOnPrefix i es)
    from append_on_prefix_ok [OF assms(1-3) assms(4,5) [unfolded PoAppendOnPrefix]] show ?thesis by (simp add: PoAppendOnPrefix)
  next
    case (PoPromise b)
    note w = put_meta_ok [OF assms(5) [unfolded PoPromise px_exec.simps set_promise_def] assms(1,2) stored_put_promise [OF p cwf assms(3)]]
    from w wrote_ok [OF w(2) assms(2)] show ?thesis by (simp add: PoPromise)
  next
    case (PoAccepted b)
    note w = put_meta_ok [OF assms(5) [unfolded PoAccepted px_exec.simps set_accepted_round_def] assms(1,2) stored_put_accepted [OF p cwf assms(3)]]
    from w wrote_ok [OF w(2) assms(2)] show ?thesis by (simp add: PoAccepted)
  next
    case (PoDecided i)
    have q: "px_stored pk (bt_insert meta_decided_idx_key bs (content (ps_db st) (ps_cf_name st))) (s\<lparr>sx_decided := i\<rparr>)"
      if "Inr (encode_u64 i) = (Inr bs :: (meta_error, bytes) result)" for bs using that stored_put_decided [OF p cwf, of i] by simp
    note w = put_meta_ok [OF assms(5) [unfolded PoDecided px_exec.simps set_decided_idx_def] assms(1,2) q]
    from w wrote_ok [OF w(2) assms(2)] show ?thesis by (simp add: PoDecided)
  next
    case (PoStopsign g)
    have q: "px_stored pk (bt_insert meta_stopsign_key bs (content (ps_db st) (ps_cf_name st))) (s\<lparr>sx_stopsign := g\<rparr>)"
      if "g = Some x" "meta_encode (pk_stopsign pk) x = Inr bs" for x bs using that stored_put_stopsign [OF p cwf assms(3)] by simp
    have r: "px_stored pk (bt_remove meta_stopsign_key (content (ps_db st) (ps_cf_name st))) (s\<lparr>sx_stopsign := g\<rparr>)" if "g = None"
      using that stored_delete(2) [OF p cwf] by simp
    note w = put_or_delete_ok [OF assms(5) [unfolded PoStopsign px_exec.simps set_stopsign_def] assms(1,2) q r]
    from w wrote_ok [OF w(2) assms(2)] show ?thesis by (simp add: PoStopsign)
  next
    case (PoTrim i)
    with trim_ok [OF assms(1,2), of i st'] assms(5) show ?thesis by simp
  next
    case (PoCompacted i)
    with set_compacted_ok [OF assms(1,2), of i st'] assms(4,5) show ?thesis by simp
  next
    case (PoSnapshot y)
    have q: "px_stored pk (bt_insert meta_snapshot_key bs (content (ps_db st) (ps_cf_name st))) (s\<lparr>sx_snapshot := y\<rparr>)"
      if "y = Some x" "meta_encode (pk_snapshot pk) x = Inr bs" for x bs using that stored_put_snapshot [OF p cwf assms(3)] by simp
    have r: "px_stored pk (bt_remove meta_snapshot_key (content (ps_db st) (ps_cf_name st))) (s\<lparr>sx_snapshot := y\<rparr>)" if "y = None"
      using that stored_delete(1) [OF p cwf] by simp
    note w = put_or_delete_ok [OF assms(5) [unfolded PoSnapshot px_exec.simps set_snapshot_def] assms(1,2) q r]
    from w wrote_ok [OF w(2) assms(2)] show ?thesis by (simp add: PoSnapshot)
  qed
qed

end

section \<open>What reads return\<close>

definition entries_between :: "u64 \<Rightarrow> u64 \<Rightarrow> (u64, 'e) btree_map \<Rightarrow> 'e list" where
  "entries_between lo hi l =
     (let es = map snd (filter (\<lambda>e. lo \<le> fst e \<and> fst e < hi) l) in if length es < unat hi - unat lo then [] else es)"

text \<open>Every read of the storage answers from the state.\<close>

definition represents :: "'d rocksdb \<Rightarrow> ('e, 'b, 's, 'g) px_codecs \<Rightarrow> 'd px_storage \<Rightarrow> ('e, 'b, 's, 'g) px_spec \<Rightarrow> bool" where
  "represents db pk st s \<longleftrightarrow>
     (\<forall>lo. get_suffix db pk lo st = Inr (map snd (filter (\<lambda>e. lo \<le> fst e) (sx_log s))))
     \<and> (\<forall>lo hi. get_entries db pk lo hi st = Inr (entries_between lo hi (sx_log s)))
     \<and> get_log_len st = spec_next s - sx_compacted s \<and> get_compacted_idx st = sx_compacted s
     \<and> get_decided_idx db st = Inr (sx_decided s)
     \<and> get_promise db pk st = Inr (sx_promise s) \<and> get_accepted_round db pk st = Inr (sx_accepted s)
     \<and> get_snapshot db pk st = Inr (sx_snapshot s) \<and> get_stopsign db pk st = Inr (sx_stopsign s)"

lemma between_length: "bt_wf l \<Longrightarrow> length (filter (\<lambda>e. lo \<le> fst e \<and> fst e < (hi :: u64)) l) \<le> unat hi - unat lo"
proof -
  assume "bt_wf l"
  let ?f = "filter (\<lambda>e. lo \<le> fst e \<and> fst e < hi) l"
  have "distinct (map fst ?f)" using \<open>bt_wf l\<close> by (simp add: bt.distinct_keys distinct_map_filter)
  then have "distinct (map unat (map fst ?f))" by (subst distinct_map) (simp add: inj_on_def word_unat_eq_iff)
  then have "length ?f = card (set (map unat (map fst ?f)))" by (simp only: distinct_card length_map)
  also have "\<dots> \<le> card {unat lo ..< unat hi}"
    by (intro card_mono) (auto simp: word_le_nat_alt word_less_nat_alt)
  finally show ?thesis by simp
qed

context rocksdb_store
begin

lemma get_field:
  assumes "healthy (ps_db st)" "rk_has_cf db (ps_cf_name st) (ps_db st)" "field_stored pc (content (ps_db st) (ps_cf_name st)) k f"
  shows "ps_get db k (meta_decode pc) st = Inr f"
  using assms by (auto simp: ps_get_def get_content field_stored_def split: option.splits)

lemma get_u64:
  assumes "healthy (ps_db st)" "rk_has_cf db (ps_cf_name st) (ps_db st)" "u64_stored (content (ps_db st) (ps_cf_name st)) k x"
  shows "map_ok (\<lambda>x. case x of Some v \<Rightarrow> v | None \<Rightarrow> 0) (ps_get db k decode_u64 st) = Inr x"
  using assms by (auto simp: ps_get_def get_content u64_stored_def split: option.splits)

lemma suffix_ok:
  assumes "healthy (ps_db st)" "rk_has_cf db (ps_cf_name st) (ps_db st)"
    and "log_stored (pk_entry pk) (content (ps_db st) (ps_cf_name st)) l"
  shows "get_suffix db pk lo st = Inr (map snd (filter (\<lambda>e. lo \<le> fst e) l))"
proof -
  let ?m = "content (ps_db st) (ps_cf_name st)"
  have "records_rel px_log_key (codec_decode (pk_entry pk) SCHEMA_VERSION)
      (filter (\<lambda>e. px_log_key lo \<le> fst e) (filter (\<lambda>e. starts_with (fst e) LOG_PREFIX) ?m)) (filter (\<lambda>e. lo \<le> fst e) l)"
    using assms(3) by (intro records_rel_filter) (simp_all add: log_stored_def pxk.key_le)
  then have "records_rel px_log_key (codec_decode (pk_entry pk) SCHEMA_VERSION)
      (takeWhile (\<lambda>e. starts_with (fst e) LOG_PREFIX) (filter (\<lambda>e. px_log_key lo \<le> fst e) ?m)) (filter (\<lambda>e. lo \<le> fst e) l)"
    by (simp only: takeWhile_log [OF content_wf [OF assms(1)] assms(3)])
  from read_log_all [OF this] assms(2) show ?thesis by (simp add: get_suffix_def forward_content [OF assms(1)])
qed

lemma entries_ok:
  assumes "healthy (ps_db st)" "rk_has_cf db (ps_cf_name st) (ps_db st)" "bt_wf l"
    and "log_stored (pk_entry pk) (content (ps_db st) (ps_cf_name st)) l"
  shows "get_entries db pk lo hi st = Inr (entries_between lo hi l)"
proof (cases "lo < hi")
  case True
  let ?m = "content (ps_db st) (ps_cf_name st)" and ?f = "filter (\<lambda>e. lo \<le> fst e \<and> fst e < hi) l"
  have n: "unat (hi - lo) = unat hi - unat lo" by (rule unat_sub) (use True in simp)
  have "starts_with (fst e) LOG_PREFIX \<and> fst e < px_log_key hi \<longleftrightarrow> fst e < px_log_key hi" if "e \<in> set ?m" for e
    using assms(4) that below_meta(2) [of "fst e"] below_meta(1) [OF log_key_starts, of hi] by (auto simp: log_stored_def intro: less_trans)
  then have "takeWhile (\<lambda>e. starts_with (fst e) LOG_PREFIX \<and> fst e < px_log_key hi) (filter (\<lambda>e. px_log_key lo \<le> fst e) ?m)
      = takeWhile (\<lambda>e. fst e < px_log_key hi) (filter (\<lambda>e. px_log_key lo \<le> fst e) ?m)"
    by (intro takeWhile_cong) auto
  also have "\<dots> = filter (\<lambda>e. px_log_key lo \<le> fst e \<and> fst e < px_log_key hi) (filter (\<lambda>e. starts_with (fst e) LOG_PREFIX) ?m)"
    unfolding takeWhile_below [OF content_wf [OF assms(1)]] filter_filter
    using \<open>\<And>e. e \<in> set ?m \<Longrightarrow> _\<close> by (intro filter_cong) auto
  finally have "records_rel px_log_key (codec_decode (pk_entry pk) SCHEMA_VERSION)
      (takeWhile (\<lambda>e. starts_with (fst e) LOG_PREFIX \<and> fst e < px_log_key hi) (filter (\<lambda>e. px_log_key lo \<le> fst e) ?m)) ?f"
    using assms(4) by (simp only:) (intro records_rel_filter, simp_all add: log_stored_def pxk.key_le pxk.key_less)
  moreover have "unat (hi - lo) > 0" using True by (simp only: n) (simp add: word_less_nat_alt)
  ultimately have "read_log (pk_entry pk) (\<lambda>key. starts_with key LOG_PREFIX \<and> key < px_log_key hi) (Some (unat (hi - lo)))
      (map Inr (filter (\<lambda>e. px_log_key lo \<le> fst e) ?m)) = Inr (map snd ?f)"
    using between_length [OF assms(3), of lo hi] n by (intro read_log_some) simp_all
  moreover have "\<not> hi \<le> lo" using True by simp
  ultimately show ?thesis
    using assms(2) by (auto simp: get_entries_def forward_content [OF assms(1)] entries_between_def Let_def n not_le)
next
  case False
  then have "filter (\<lambda>e. lo \<le> fst e \<and> fst e < hi) l = []" by (auto simp: filter_empty_conv)
  with False show ?thesis by (simp add: get_entries_def entries_between_def not_less)
qed

lemma storage_represents:
  assumes "healthy (ps_db st)" "storage_ok pk db content st s"
  shows "represents db pk st s"
proof -
  have "saturating_sub (ps_next_idx st) (ps_compacted_idx st) = ps_next_idx st - ps_compacted_idx st"
    using assms(2) by (auto simp: storage_ok_def saturating_sub_def word_le_nat_alt)
  moreover have "get_decided_idx db st = Inr (sx_decided s)"
    unfolding get_decided_idx_def using assms by (intro get_u64) (simp_all add: storage_ok_def px_stored_def)
  ultimately show ?thesis
    using assms storage_next [OF assms(2)] stored_wf [OF assms]
    by (simp add: represents_def storage_ok_def px_stored_def suffix_ok entries_ok get_log_len_def get_compacted_idx_def
        get_promise_def get_accepted_round_def get_snapshot_def get_stopsign_def get_field)
qed

end

section \<open>Runs, failures and crashes\<close>

fun px_exec_all :: "'d rocksdb \<Rightarrow> ('e, 'b, 's, 'g) px_codecs \<Rightarrow> ('e, 'b, 's, 'g) px_op list \<Rightarrow> 'd px_storage \<Rightarrow> 'd px_storage option" where
  "px_exec_all db pk [] st = Some st"
| "px_exec_all db pk (op # ops) st =
     (case px_exec db pk op st of (Inl _, _) \<Rightarrow> None | (Inr _, st') \<Rightarrow> px_exec_all db pk ops st')"

fun allowed_all :: "('e, 'b, 's, 'g) px_op list \<Rightarrow> ('e, 'b, 's, 'g) px_spec \<Rightarrow> bool" where
  "allowed_all [] s = True"
| "allowed_all (op # ops) s \<longleftrightarrow> op_allowed op s \<and> allowed_all ops (spec_exec op s)"

lemma px_exec_all_snoc:
  "px_exec_all db pk (ops @ [op]) st = Some st' \<longleftrightarrow> (\<exists>st1. px_exec_all db pk ops st = Some st1 \<and> px_exec db pk op st1 = (Inr (), st'))"
  by (induction ops arbitrary: st) (auto split: prod.splits sum.splits)

lemma allowed_all_snoc: "allowed_all (ops @ [op]) s \<longleftrightarrow> allowed_all ops s \<and> op_allowed op (fold spec_exec ops s)"
  by (induction ops arbitrary: s) auto

text \<open>A content that the state after some operations stands for, with only unsynced ones left out.\<close>

definition stored_upto ::
  "('e, 'b, 's, 'g) px_codecs \<Rightarrow> ('e, 'b, 's, 'g) px_op list \<Rightarrow> ('e, 'b, 's, 'g) px_spec \<Rightarrow> (bytes, bytes) btree_map \<Rightarrow> bool" where
  "stored_upto pk ops s m \<longleftrightarrow> (\<exists>pre post. ops = pre @ post \<and> list_all (\<lambda>op. \<not> synced op) post
     \<and> px_stored pk m (fold spec_exec pre s) \<and> log_tail (sx_log (fold spec_exec pre s)) < 2 ^ 64)"

lemma stored_upto_snoc: "stored_upto pk ops s m \<Longrightarrow> \<not> synced op \<Longrightarrow> stored_upto pk (ops @ [op]) s m"
proof -
  assume "stored_upto pk ops s m" "\<not> synced op"
  then obtain pre post where "ops = pre @ post" "list_all (\<lambda>op. \<not> synced op) (post @ [op])" "px_stored pk m (fold spec_exec pre s)"
      "log_tail (sx_log (fold spec_exec pre s)) < 2 ^ 64" by (auto simp: stored_upto_def)
  then show ?thesis unfolding stored_upto_def by (intro exI [of _ pre] exI [of _ "post @ [op]"]) simp
qed

lemma storage_ok_upto: "storage_ok pk db content st (fold spec_exec ops s) \<Longrightarrow> stored_upto pk ops s (content (ps_db st) (ps_cf_name st))"
  unfolding stored_upto_def
  using unat_u64_bound [of "ps_next_idx st"] by (intro exI [of _ ops] exI [of _ "[]"]) (simp add: storage_ok_def)

lemma batch_error: "ps_batch db sync ops st = (Inl e, st') \<Longrightarrow> st' = st \<or> (\<exists>b d x. rk_write db sync b (ps_db st) = (Inl x, d) \<and> st' = st\<lparr>ps_db := d\<rparr>)"
  by (auto simp: ps_batch_def split: if_splits sum.splits prod.splits)

lemma exec_error:
  assumes "px_exec db pk op st = (Inl e, st')"
  shows "st' = st \<or> (\<exists>sync b d x. rk_write db sync b (ps_db st) = (Inl x, d) \<and> st' = st\<lparr>ps_db := d\<rparr>)"
proof -
  have "st' = st \<or> (\<exists>sync ops e'. ps_batch db sync ops st = (Inl e', st'))"
    using assms
    by (cases op)
      (auto simp: append_entry_def append_entries_def append_on_prefix_def moved_tail_def set_promise_def set_accepted_round_def
        set_decided_idx_def set_stopsign_def set_snapshot_def storage_trim_def set_compacted_idx_def put_or_delete_def put_meta_def Let_def
        split: prod.splits sum.splits option.splits)
  with batch_error show ?thesis by blast
qed

context rocksdb_store
begin

lemma open_in_ok:
  assumes "healthy d" "rk_has_cf db cf d" "px_stored pk (content d cf) s" "log_tail (sx_log s) < 2 ^ 64"
  shows "\<exists>st. open_in db d cf = Inr st \<and> ps_db st = d \<and> ps_cf_name st = cf \<and> storage_ok pk db content st s"
proof -
  let ?st = "\<lparr>ps_db = d, ps_cf_name = cf, ps_next_idx = 0, ps_compacted_idx = 0\<rparr>"
  have c: "read_compacted_idx db ?st = Inr (sx_compacted s)"
    unfolding read_compacted_idx_def using assms by (intro get_u64) (simp_all add: px_stored_def)
  let ?next = "if sx_log s = [] then sx_compacted s else max (fst (last (sx_log s)) + 1) (sx_compacted s)"
  have f: "filter (\<lambda>e. starts_with (fst e) LOG_PREFIX) (filter (\<lambda>e. fst e \<le> META_PREFIX) (content d cf))
      = filter (\<lambda>e. starts_with (fst e) LOG_PREFIX) (content d cf)"
    using below_meta(1) by (auto simp: filter_filter intro!: filter_cong dest: less_imp_le)
  have r: "records_rel px_log_key (codec_decode (pk_entry pk) SCHEMA_VERSION)
      (filter (\<lambda>e. starts_with (fst e) LOG_PREFIX) (filter (\<lambda>e. fst e \<le> META_PREFIX) (content d cf))) (sx_log s)"
    unfolding f using assms(3) by (simp add: px_stored_def log_stored_def)
  have "scan_next_log_idx db (sx_compacted s) ?st = Inr ?next"
    using assms(2) scan_tail_log [OF r] by (simp add: scan_next_log_idx_def reverse_content [OF assms(1)] px_log_key_range_def)
  moreover have "unat ?next = max (log_tail (sx_log s)) (unat (sx_compacted s))"
  proof (cases "sx_log s = []")
    case False
    then have "unat (fst (last (sx_log s)) + 1) = Suc (unat (fst (last (sx_log s))))"
      using assms(4) unat_add_no_wrap [of "fst (last (sx_log s))" 1] by (simp add: log_tail_def)
    with False show ?thesis by (simp add: unat_max log_tail_def)
  qed (simp add: log_tail_def)
  ultimately show ?thesis using assms c by (simp add: open_in_def Let_def storage_ok_def)
qed

lemma run_ok:
  assumes "codecs_ok pk" "healthy (ps_db st)" "storage_ok pk db content st s" "durable (ps_db st) = [content (ps_db st)]"
  shows "allowed_all ops s \<Longrightarrow> px_exec_all db pk ops st = Some st' \<Longrightarrow>
    healthy (ps_db st') \<and> storage_ok pk db content st' (fold spec_exec ops s) \<and> ps_cf_name st' = ps_cf_name st
    \<and> (\<forall>c \<in> set (durable (ps_db st')). stored_upto pk ops s (c (ps_cf_name st)))"
proof (induction ops arbitrary: st' rule: rev_induct)
  case Nil
  with assms storage_ok_upto [of pk db content st "[]" s] show ?case by auto
next
  case (snoc op ops)
  from snoc.prems obtain st1 where st1: "px_exec_all db pk ops st = Some st1" "px_exec db pk op st1 = (Inr (), st')"
      "allowed_all ops s" "op_allowed op (fold spec_exec ops s)"
    by (auto simp: px_exec_all_snoc allowed_all_snoc)
  note i = snoc.IH [OF st1(3,1)]
  have e: "healthy (ps_db st') \<and> storage_ok pk db content st' (fold spec_exec (ops @ [op]) s) \<and> ps_cf_name st' = ps_cf_name st1
      \<and> durable (ps_db st') = (if synced op then [] else durable (ps_db st1)) @ [content (ps_db st')]"
    using exec_ok [OF _ _ assms(1) st1(4,2)] i by simp
  have "stored_upto pk (ops @ [op]) s (content (ps_db st') (ps_cf_name st))"
    using storage_ok_upto [of pk db content st' "ops @ [op]" s] e i by simp
  with e i stored_upto_snoc [of pk ops s _ op] show ?case by auto
qed

end

section \<open>Properties\<close>

text \<open>Concrete values: one byte per entry, ballot, snapshot and stop sign.\<close>

definition byte_postcard :: "u8 postcard" where
  "byte_postcard = \<lparr>to_stdvec = (\<lambda>v. Some [v]), take_from_bytes = (\<lambda>bs. case bs of [] \<Rightarrow> None | b # rest \<Rightarrow> Some (b, rest))\<rparr>"

definition byte_codecs :: "(u8, u8, u8, u8) px_codecs" where
  "byte_codecs = \<lparr>pk_entry = byte_postcard, pk_ballot = byte_postcard, pk_snapshot = byte_postcard, pk_stopsign = byte_postcard\<rparr>"

lemma byte_codecs_ok [simp]: "codecs_ok byte_codecs"
  by (simp add: codecs_ok_def byte_codecs_def byte_postcard_def postcard_ok_def)

definition fresh_storage :: "mem_db px_storage" where
  "fresh_storage = \<lparr>ps_db = mem_open [''log''], ps_cf_name = ''log'', ps_next_idx = 0, ps_compacted_idx = 0\<rparr>"

lemma fresh_storage_opens: "open_in mem_rocksdb (mem_open [''log'']) ''log'' = Inr fresh_storage"
  by (simp add: open_in_def mem_rocksdb_def mem_open_def read_compacted_idx_def ps_get_def scan_next_log_idx_def Let_def fresh_storage_def)

lemmas demo_storage_simps = fresh_storage_def append_entry_def set_decided_idx_def storage_trim_def put_meta_def ps_batch_def moved_tail_def Let_def
  mem_rocksdb_def mem_open_def mem_write_def byte_codecs_def byte_postcard_def codec_encode_def get_log_len_def

text \<open>
  C26. The RocksDB storage of OmniPaxos keeps exactly what it was told: after any run of its
  operations every read answers from the log and fields they make, and after a crash at any
  point it opens again in the state after all of them but some of the last that are not
  synced. A promise, an accepted round or an entry that was acknowledged is never lost, and
  the cached cursors are those that a scan of the disk finds.
\<close>

theorem paxos_storage_crash_safe:
  assumes "rocksdb_store db content durable crash healthy" "codecs_ok pk" "healthy d" "rk_has_cf db cf d"
    and "content d cf = []" "durable d = [content d]"
    and "open_in db d cf = Inr st0" "allowed_all ops spec_empty" "px_exec_all db pk ops st0 = Some st" "crash (ps_db st) d'"
  shows "represents db pk st (fold spec_exec ops spec_empty)
    \<and> (\<exists>pre post st'. ops = pre @ post \<and> list_all (\<lambda>op. \<not> synced op) post
         \<and> open_in db d' cf = Inr st' \<and> represents db pk st' (fold spec_exec pre spec_empty))"
proof -
  note R = rocksdb_store.open_in_ok [OF assms(1)] rocksdb_store.run_ok [OF assms(1)] rocksdb_store.storage_represents [OF assms(1)]
  have "px_stored pk (content d cf) spec_empty" by (simp add: assms(5) px_stored_empty)
  from R(1) [OF assms(3,4) this] assms(7) have st0: "ps_db st0 = d" "ps_cf_name st0 = cf" "storage_ok pk db content st0 spec_empty"
    by (auto simp: spec_empty_def log_tail_def)
  have run: "healthy (ps_db st)" "storage_ok pk db content st (fold spec_exec ops spec_empty)" "ps_cf_name st = cf"
      "\<And>c. c \<in> set (durable (ps_db st)) \<Longrightarrow> stored_upto pk ops spec_empty (c cf)"
    using R(2) [OF assms(2) _ st0(3) _ assms(8,9)] assms(3,6) st0(1,2) by auto
  from rocksdb_store.crash_content [OF assms(1) run(1) assms(10)] have d': "healthy d'" "content d' \<in> set (durable (ps_db st))" by auto
  obtain pre post where pp: "ops = pre @ post" "list_all (\<lambda>op. \<not> synced op) post" "px_stored pk (content d' cf) (fold spec_exec pre spec_empty)"
      "log_tail (sx_log (fold spec_exec pre spec_empty)) < 2 ^ 64"
    using run(4) [OF d'(2)] by (auto simp: stored_upto_def)
  have "rk_has_cf db cf d'"
    using run(2,3) rocksdb_store.crash_cfs [OF assms(1,10)] by (simp add: storage_ok_def)
  from R(1) [OF d'(1) this pp(3,4)] obtain st' where "open_in db d' cf = Inr st'" "ps_db st' = d'" "storage_ok pk db content st' (fold spec_exec pre spec_empty)"
    by auto
  with R(3) [of st' pk] R(3) [OF run(1,2)] d'(1) pp(1,2) show ?thesis by blast
qed

theorem paxos_storage_crash_safe_witness:
  "\<exists>d' pre post st'. [PoAppend 7, PoDecided 1] = pre @ post \<and> list_all (\<lambda>op. \<not> synced op) post
     \<and> open_in mem_rocksdb d' ''log'' = Inr st' \<and> represents mem_rocksdb byte_codecs st' (fold spec_exec pre spec_empty)"
proof -
  obtain st where st: "px_exec_all mem_rocksdb byte_codecs [PoAppend 7, PoDecided 1] fresh_storage = Some st" "md_durable (ps_db st) \<noteq> []"
    by (simp add: demo_storage_simps)
  from st(2) have "hd (md_durable (ps_db st)) \<in> set (md_durable (ps_db st))" by (rule hd_in_set)
  then obtain d' where "mem_crash (ps_db st) d'" unfolding mem_crash_def by blast
  moreover have "allowed_all [PoAppend 7, PoDecided 1] (spec_empty :: (u8, u8, u8, u8) px_spec)"
    by (simp add: spec_empty_def spec_next_def log_tail_def)
  moreover have "rk_has_cf mem_rocksdb ''log'' (mem_open [''log''])" "md_content (mem_open [''log'']) ''log'' = []"
      "md_durable (mem_open [''log'']) = [md_content (mem_open [''log''])]"
    by (simp_all add: mem_rocksdb_def mem_open_def)
  ultimately show ?thesis
    using paxos_storage_crash_safe [OF mem.rocksdb_store_axioms byte_codecs_ok mem_open_ok _ _ _ fresh_storage_opens _ st(1)] by blast
qed

text \<open>
  A storage operation that fails, for whatever reason and at whatever point, changes
  nothing that a read can see: cursors and contents are as they were.
\<close>

theorem paxos_storage_error_harmless:
  assumes "rocksdb_store db content durable crash healthy" "healthy (ps_db st)" "storage_ok pk db content st s"
    and "px_exec db pk op st = (Inl e, st')"
  shows "represents db pk st' s"
proof -
  have "healthy (ps_db st') \<and> storage_ok pk db content st' s"
    using exec_error [OF assms(4)] assms(2,3) rocksdb_store.write_error [OF assms(1,2)] rocksdb_store.write_cfs [OF assms(1)]
    by (auto simp: storage_ok_def)
  with rocksdb_store.storage_represents [OF assms(1)] show ?thesis by blast
qed

theorem paxos_storage_error_harmless_witness:
  "represents mem_rocksdb byte_codecs
     (snd (px_exec mem_rocksdb byte_codecs (PoAppend 7) (fresh_storage\<lparr>ps_db := (mem_open [''log''])\<lparr>md_faults := [True]\<rparr>\<rparr>))) spec_empty"
proof -
  let ?d = "(mem_open [''log''])\<lparr>md_faults := [True]\<rparr>"
  let ?st = "fresh_storage\<lparr>ps_db := ?d\<rparr>"
  have "mem_ok (ps_db ?st)" by (simp add: mem_ok_def mem_open_def)
  moreover have "storage_ok byte_codecs mem_rocksdb md_content ?st spec_empty"
    by (simp add: storage_ok_def fresh_storage_def mem_open_def px_stored_empty mem_rocksdb_def) (simp add: spec_empty_def log_tail_def)
  moreover obtain e st' where r: "px_exec mem_rocksdb byte_codecs (PoAppend 7) ?st = (Inl e, st')"
    by (simp add: demo_storage_simps)
  ultimately have "represents mem_rocksdb byte_codecs st' spec_empty"
    by (rule paxos_storage_error_harmless [OF mem.rocksdb_store_axioms])
  with r show ?thesis by simp
qed

text \<open>
  The reported length is that of the log above the compacted prefix, not the number of entries
  that are left: after a trim alone it counts the entries that are gone.
\<close>

lemma log_len_counts_trimmed:
  "\<exists>st. px_exec_all mem_rocksdb byte_codecs [PoAppend 1, PoAppend 2, PoAppend 3, PoTrim 2] fresh_storage = Some st
     \<and> get_log_len st = 3"
  by (simp add: demo_storage_simps saturating_sub_def)

end
