(* ===== verification/Log_Store.thy ===== *)
theory Log_Store
  imports Rocks Raft_Log Peer
begin

text \<open>
  The RocksDB log store of openraft (\<open>openraft-toolkit/src/log_store\<close>): the key spaces of one
  and of many groups, the framing of records by the active write version, and the operations
  of \<open>RaftLogStorage\<close>, with the snapshot store that shares the database. The body codec is a
  record of functions (\<open>codec_provider.rs\<close>), with the
  driver's and the default one as values. The column families are validated by \<open>open\<close>; the
  handles taken later do not fail.
\<close>

section \<open>Key spaces\<close>

datatype meta_label = LabelVote | LabelCommitted | LabelLastPurged

fun label_bytes :: "meta_label \<Rightarrow> bytes" where
  "label_bytes LabelVote = lit ''vote''"
| "label_bytes LabelCommitted = lit ''committed''"
| "label_bytes LabelLastPurged = lit ''last_purged''"

datatype key_space = Flat | GroupPrefixed u64

text \<open>What precedes the index in a log key.\<close>

fun group_bytes :: "key_space \<Rightarrow> bytes" where
  "group_bytes Flat = []"
| "group_bytes (GroupPrefixed g) = be64 g"

definition log_key :: "key_space \<Rightarrow> u64 \<Rightarrow> bytes" where
  "log_key ks index = group_bytes ks @ be64 index"

definition log_range :: "key_space \<Rightarrow> bytes \<times> bytes" where
  "log_range ks = (group_bytes ks @ replicate 8 0, group_bytes ks @ replicate 8 255)"

definition log_end_bound :: "key_space \<Rightarrow> bytes" where
  "log_end_bound ks = snd (log_range ks) @ [0]"

fun meta_key :: "key_space \<Rightarrow> meta_label \<Rightarrow> bytes" where
  "meta_key Flat label = label_bytes label"
| "meta_key (GroupPrefixed g) label = be64 g @ lit ''/'' @ label_bytes label"

section \<open>Records\<close>

record 'v log_store_codec =
  lc_encode_entry :: "u8 \<Rightarrow> raft_entry \<Rightarrow> (codec_error, bytes) result"
  lc_decode_entry :: "u8 \<Rightarrow> bytes \<Rightarrow> (codec_error, raft_entry) result"
  lc_encode_vote :: "u8 \<Rightarrow> 'v \<Rightarrow> (codec_error, bytes) result"
  lc_decode_vote :: "u8 \<Rightarrow> bytes \<Rightarrow> (codec_error, 'v) result"
  lc_encode_log_id :: "u8 \<Rightarrow> log_id \<Rightarrow> (codec_error, bytes) result"
  lc_decode_log_id :: "u8 \<Rightarrow> bytes \<Rightarrow> (codec_error, log_id) result"

definition default_log_store_codec :: "raft_entry postcard \<Rightarrow> 'v postcard \<Rightarrow> log_id postcard \<Rightarrow> 'v log_store_codec" where
  "default_log_store_codec pe pv pl =
     \<lparr>lc_encode_entry = (\<lambda>_. encode_postcard pe), lc_decode_entry = (\<lambda>_. decode_postcard_exact pe),
      lc_encode_vote = (\<lambda>_. encode_postcard pv), lc_decode_vote = (\<lambda>_. decode_postcard_exact pv),
      lc_encode_log_id = (\<lambda>_. encode_postcard pl), lc_decode_log_id = (\<lambda>_. decode_postcard_exact pl)\<rparr>"

text \<open>The driver's codec gates and validates entries.\<close>

definition openraft_log_codec :: "raft_entry postcard \<Rightarrow> 'v postcard \<Rightarrow> log_id postcard \<Rightarrow> 'v log_store_codec" where
  "openraft_log_codec pe pv pl =
     (default_log_store_codec pe pv pl)\<lparr>lc_encode_entry := encode_entry pe, lc_decode_entry := decode_entry pe\<rparr>"

datatype ls_error = LsIo io_error | LsRocks rocks_error | MissingColumnFamily cf_name

definition frame_with_version :: "u8 \<Rightarrow> bytes \<Rightarrow> bytes" where
  "frame_with_version version body = version # body"

definition unframe_with_version :: "bytes \<Rightarrow> (ls_error, u8 \<times> bytes) result" where
  "unframe_with_version bs =
     (case bs of
        [] \<Rightarrow> Inl (LsIo (codec_io_error ''log-store record decode'' CodecEmpty))
      | version # body \<Rightarrow>
          if \<not> in_readable_range version
          then Inl (LsIo (codec_io_error ''log-store record decode'' (CodecVersion MAX_READABLE_VERSION version)))
          else Inr (version, body))"

text \<open>The encoders and decoders of entries, votes and log ids are the same code at different types.\<close>

definition encode_record :: "(u8 \<Rightarrow> 'a \<Rightarrow> (codec_error, bytes) result) \<Rightarrow> u8 \<Rightarrow> 'a \<Rightarrow> (ls_error, bytes) result" where
  "encode_record enc version x =
     map_ok (frame_with_version version) (map_err (\<lambda>e. LsIo (codec_io_error ''log-store record encode'' e)) (enc version x))"

definition decode_record :: "(u8 \<Rightarrow> bytes \<Rightarrow> (codec_error, 'a) result) \<Rightarrow> bytes \<Rightarrow> (ls_error, 'a) result" where
  "decode_record dec bs =
     and_then (unframe_with_version bs) (\<lambda>(version, body).
       map_err (\<lambda>e. LsIo (codec_io_error ''log-store record decode'' e)) (dec version body))"

section \<open>The store\<close>

record 'd log_store =
  lo_db :: 'd
  lo_log_cf :: cf_name
  lo_meta_cf :: cf_name
  lo_keys :: key_space
  lo_active_write_version :: u8

definition log_store_open :: "'d rocksdb \<Rightarrow> 'd \<Rightarrow> cf_name \<Rightarrow> cf_name \<Rightarrow> key_space \<Rightarrow> (ls_error, 'd log_store) result" where
  "log_store_open db d log_cf meta_cf keys =
     (if \<not> rk_has_cf db log_cf d then Inl (MissingColumnFamily log_cf)
      else if \<not> rk_has_cf db meta_cf d then Inl (MissingColumnFamily meta_cf)
      else Inr \<lparr>lo_db = d, lo_log_cf = log_cf, lo_meta_cf = meta_cf, lo_keys = keys,
                lo_active_write_version = BASELINE_WRITE_VERSION\<rparr>)"

definition with_active_write_version :: "u8 \<Rightarrow> 'd log_store \<Rightarrow> 'd log_store" where
  "with_active_write_version v st = st\<lparr>lo_active_write_version := v\<rparr>"

datatype range_bound = Included u64 | Excluded u64 | Unbounded

definition range_boundary :: "range_bound \<times> range_bound \<Rightarrow> u64 \<times> u64" where
  "range_boundary r =
     ((case fst r of Included n \<Rightarrow> n | Excluded n \<Rightarrow> saturating_add n 1 | Unbounded \<Rightarrow> 0),
      (case snd r of Included n \<Rightarrow> saturating_add n 1 | Excluded n \<Rightarrow> n | Unbounded \<Rightarrow> - 1))"

definition last_log_id_in_cf :: "'d rocksdb \<Rightarrow> 'v log_store_codec \<Rightarrow> 'd log_store \<Rightarrow> (ls_error, log_id option) result" where
  "last_log_id_in_cf db lc st =
     (let (lo, hi) = log_range (lo_keys st)
      in case rk_iter_reverse db (lo_log_cf st) hi (lo_db st) of
           [] \<Rightarrow> Inr None
         | Inl e # _ \<Rightarrow> Inl (LsRocks e)
         | Inr (k, v) # _ \<Rightarrow>
             if k < lo then Inr None else map_ok (\<lambda>e. Some (en_log_id e)) (decode_record (lc_decode_entry lc) v))"

fun version_scan :: "bytes \<Rightarrow> (rocks_error, bytes \<times> bytes) result list \<Rightarrow> u8 option \<Rightarrow> (ls_error, u8 option) result" where
  "version_scan lo [] highest = Inr highest"
| "version_scan lo (Inl e # items) highest = Inl (LsRocks e)"
| "version_scan lo (Inr (key, value) # items) highest =
     (if key < lo then Inr highest
      else version_scan lo items
        (case value of [] \<Rightarrow> highest
         | leading # _ \<Rightarrow> Some (case highest of None \<Rightarrow> leading | Some current \<Rightarrow> max current leading)))"

definition highest_log_record_version :: "'d rocksdb \<Rightarrow> 'd log_store \<Rightarrow> (ls_error, u8 option) result" where
  "highest_log_record_version db st =
     (let (lo, hi) = log_range (lo_keys st) in version_scan lo (rk_iter_reverse db (lo_log_cf st) hi (lo_db st)) None)"

fun read_until :: "'v log_store_codec \<Rightarrow> bytes \<Rightarrow> (rocks_error, bytes \<times> bytes) result list \<Rightarrow> (ls_error, raft_entry list) result" where
  "read_until lc end_key [] = Inr []"
| "read_until lc end_key (Inl e # items) = Inl (LsRocks e)"
| "read_until lc end_key (Inr (k, v) # items) =
     (if k \<ge> end_key then Inr []
      else and_then (decode_record (lc_decode_entry lc) v) (\<lambda>entry.
           and_then (read_until lc end_key items) (\<lambda>out. Inr (entry # out))))"

definition try_get_log_entries ::
  "'d rocksdb \<Rightarrow> 'v log_store_codec \<Rightarrow> range_bound \<times> range_bound \<Rightarrow> 'd log_store \<Rightarrow> (ls_error, raft_entry list) result" where
  "try_get_log_entries db lc rng st =
     (let (start, stop) = range_boundary rng
      in if start \<ge> stop then Inr []
         else read_until lc (log_key (lo_keys st) stop)
                (rk_iter_forward db (lo_log_cf st) (log_key (lo_keys st) start) (lo_db st)))"

text \<open>\<open>read_vote\<close> and \<open>read_log_id\<close> of \<open>meta.rs\<close>.\<close>

definition read_meta ::
  "'d rocksdb \<Rightarrow> (u8 \<Rightarrow> bytes \<Rightarrow> (codec_error, 'a) result) \<Rightarrow> meta_label \<Rightarrow> 'd log_store \<Rightarrow> (ls_error, 'a option) result" where
  "read_meta db dec label st =
     (case rk_get db (lo_meta_cf st) (meta_key (lo_keys st) label) (lo_db st) of
        Inl e \<Rightarrow> Inl (LsRocks e)
      | Inr None \<Rightarrow> Inr None
      | Inr (Some bs) \<Rightarrow> map_ok Some (decode_record dec bs))"

definition read_vote :: "'d rocksdb \<Rightarrow> 'v log_store_codec \<Rightarrow> 'd log_store \<Rightarrow> (ls_error, 'v option) result" where
  "read_vote db lc = read_meta db (lc_decode_vote lc) LabelVote"

definition read_committed :: "'d rocksdb \<Rightarrow> 'v log_store_codec \<Rightarrow> 'd log_store \<Rightarrow> (ls_error, log_id option) result" where
  "read_committed db lc = read_meta db (lc_decode_log_id lc) LabelCommitted"

record log_state =
  lt_last_purged_log_id :: "log_id option"
  lt_last_log_id :: "log_id option"

definition get_log_state :: "'d rocksdb \<Rightarrow> 'v log_store_codec \<Rightarrow> 'd log_store \<Rightarrow> (ls_error, log_state) result" where
  "get_log_state db lc st =
     and_then (read_meta db (lc_decode_log_id lc) LabelLastPurged st) (\<lambda>last_purged.
     and_then (last_log_id_in_cf db lc st) (\<lambda>last_in_log.
       Inr \<lparr>lt_last_purged_log_id = last_purged,
            lt_last_log_id = (case last_in_log of Some l \<Rightarrow> Some l | None \<Rightarrow> last_purged)\<rparr>))"

text \<open>A batch that was built, or not, is written.\<close>

definition ls_write ::
  "'d rocksdb \<Rightarrow> bool \<Rightarrow> (ls_error, write_op list) result \<Rightarrow> 'd log_store \<Rightarrow> (ls_error, unit) result \<times> 'd log_store" where
  "ls_write db sync batch st =
     (case batch of
        Inl e \<Rightarrow> (Inl e, st)
      | Inr ops \<Rightarrow>
          (case rk_write db sync ops (lo_db st) of
             (Inl e, d) \<Rightarrow> (Inl (LsRocks e), st\<lparr>lo_db := d\<rparr>)
           | (Inr _, d) \<Rightarrow> (Inr (), st\<lparr>lo_db := d\<rparr>)))"

definition put_record ::
  "(u8 \<Rightarrow> 'a \<Rightarrow> (codec_error, bytes) result) \<Rightarrow> meta_label \<Rightarrow> 'a \<Rightarrow> 'd log_store \<Rightarrow> (ls_error, write_op) result" where
  "put_record enc label x st =
     map_ok (WPut (lo_meta_cf st) (meta_key (lo_keys st) label)) (encode_record enc (lo_active_write_version st) x)"

definition save_vote :: "'d rocksdb \<Rightarrow> 'v log_store_codec \<Rightarrow> 'v \<Rightarrow> 'd log_store \<Rightarrow> (ls_error, unit) result \<times> 'd log_store" where
  "save_vote db lc vote st = ls_write db True (map_ok (\<lambda>w. [w]) (put_record (lc_encode_vote lc) LabelVote vote st)) st"

definition save_committed ::
  "'d rocksdb \<Rightarrow> 'v log_store_codec \<Rightarrow> log_id option \<Rightarrow> 'd log_store \<Rightarrow> (ls_error, unit) result \<times> 'd log_store" where
  "save_committed db lc committed st =
     ls_write db False
       (case committed of
          Some c \<Rightarrow> map_ok (\<lambda>w. [w]) (put_record (lc_encode_log_id lc) LabelCommitted c st)
        | None \<Rightarrow> Inr [WDelete (lo_meta_cf st) (meta_key (lo_keys st) LabelCommitted)]) st"

fun put_entries :: "'v log_store_codec \<Rightarrow> 'd log_store \<Rightarrow> raft_entry list \<Rightarrow> (ls_error, write_op list) result" where
  "put_entries lc st [] = Inr []"
| "put_entries lc st (e # es) =
     and_then (encode_record (lc_encode_entry lc) (lo_active_write_version st) e) (\<lambda>value.
     and_then (put_entries lc st es) (\<lambda>ops.
       Inr (WPut (lo_log_cf st) (log_key (lo_keys st) (lid_index (en_log_id e))) value # ops)))"

definition ls_append :: "'d rocksdb \<Rightarrow> 'v log_store_codec \<Rightarrow> raft_entry list \<Rightarrow> 'd log_store \<Rightarrow> (ls_error, unit) result \<times> 'd log_store" where
  "ls_append db lc entries st = ls_write db True (put_entries lc st entries) st"

text \<open>\<open>LogIdOptionExt::next_index\<close> of openraft.\<close>

definition next_index :: "log_id option \<Rightarrow> u64" where
  "next_index l = (case l of None \<Rightarrow> 0 | Some log_id \<Rightarrow> lid_index log_id + 1)"

definition truncate_after :: "'d rocksdb \<Rightarrow> log_id option \<Rightarrow> 'd log_store \<Rightarrow> (ls_error, unit) result \<times> 'd log_store" where
  "truncate_after db last_log_id st =
     ls_write db True
       (Inr [WDeleteRange (lo_log_cf st) (log_key (lo_keys st) (next_index last_log_id)) (log_end_bound (lo_keys st))]) st"

definition ls_purge :: "'d rocksdb \<Rightarrow> 'v log_store_codec \<Rightarrow> log_id \<Rightarrow> 'd log_store \<Rightarrow> (ls_error, unit) result \<times> 'd log_store" where
  "ls_purge db lc log_id st =
     (let end_key = (case checked_add (lid_index log_id) 1 of
            Some next \<Rightarrow> log_key (lo_keys st) next | None \<Rightarrow> log_end_bound (lo_keys st));
          del = WDeleteRange (lo_log_cf st) (fst (log_range (lo_keys st))) end_key
      in ls_write db True (map_ok (\<lambda>w. [del, w]) (put_record (lc_encode_log_id lc) LabelLastPurged log_id st)) st)"

section \<open>The snapshot store\<close>

text \<open>
  \<open>RocksdbSnapshotStore\<close> of \<open>driver-openraft/src/snapshot_store.rs\<close>, one key in a column family
  of the same database.
\<close>

record 'd snapshot_db =
  sd_db :: 'd
  sd_cf :: cf_name
  sd_key :: bytes

definition snapshot_open_with_key :: "'d rocksdb \<Rightarrow> 'd \<Rightarrow> cf_name \<Rightarrow> bytes \<Rightarrow> (ls_error, 'd snapshot_db) result" where
  "snapshot_open_with_key db d cf key =
     (if \<not> rk_has_cf db cf d then Inl (MissingColumnFamily cf) else Inr \<lparr>sd_db = d, sd_cf = cf, sd_key = key\<rparr>)"

definition snapshot_open :: "'d rocksdb \<Rightarrow> 'd \<Rightarrow> cf_name \<Rightarrow> (ls_error, 'd snapshot_db) result" where
  "snapshot_open db d cf = snapshot_open_with_key db d cf (lit ''snapshot'')"

definition snapshot_save :: "'d rocksdb \<Rightarrow> bytes \<Rightarrow> 'd snapshot_db \<Rightarrow> (ls_error, unit) result \<times> 'd snapshot_db" where
  "snapshot_save db payload st =
     (if \<not> rk_has_cf db (sd_cf st) (sd_db st) then (Inl (MissingColumnFamily (sd_cf st)), st)
      else case rk_write db True [WPut (sd_cf st) (sd_key st) payload] (sd_db st) of
        (Inl e, d) \<Rightarrow> (Inl (LsRocks e), st\<lparr>sd_db := d\<rparr>)
      | (Inr _, d) \<Rightarrow> (Inr (), st\<lparr>sd_db := d\<rparr>))"

definition snapshot_load :: "'d rocksdb \<Rightarrow> 'd snapshot_db \<Rightarrow> (ls_error, bytes option) result" where
  "snapshot_load db st =
     (if \<not> rk_has_cf db (sd_cf st) (sd_db st) then Inl (MissingColumnFamily (sd_cf st))
      else map_err LsRocks (rk_get db (sd_cf st) (sd_key st) (sd_db st)))"

end
