(* ===== verification/Log_Durability.thy ===== *)
theory Log_Durability
  imports Log_Store Postcard
begin

text \<open>
  What the log store of openraft keeps, as a plain log with a vote and two log ids, and the
  proof that \<open>Log_Store\<close> implements it on any RocksDB that meets \<open>rocksdb_store\<close>: every read
  answers from the state, also after a crash, which loses at most the committed id; a
  restarted node writes no older format than its log holds; and groups that share the column
  families do not see each other.
\<close>

section \<open>What the store keeps\<close>

record 'v ls_spec =
  sl_log :: "(u64, raft_entry) btree_map"
  sl_vote :: "'v option"
  sl_committed :: "log_id option"
  sl_purged :: "log_id option"

definition ls_spec_empty :: "'v ls_spec" where
  "ls_spec_empty = \<lparr>sl_log = [], sl_vote = None, sl_committed = None, sl_purged = None\<rparr>"

definition insert_entries :: "raft_entry list \<Rightarrow> (u64, raft_entry) btree_map \<Rightarrow> (u64, raft_entry) btree_map" where
  "insert_entries es l = fold (\<lambda>e. bt_insert (lid_index (en_log_id e)) e) es l"

datatype 'v ls_op =
    LoVote 'v
  | LoCommitted "log_id option"
  | LoAppend "raft_entry list"
  | LoTruncate "log_id option"
  | LoPurge log_id
  | LoVersion u8

fun ls_exec :: "'d rocksdb \<Rightarrow> 'v log_store_codec \<Rightarrow> 'v ls_op \<Rightarrow> 'd log_store \<Rightarrow> (ls_error, unit) result \<times> 'd log_store" where
  "ls_exec db lc (LoVote v) st = save_vote db lc v st"
| "ls_exec db lc (LoCommitted c) st = save_committed db lc c st"
| "ls_exec db lc (LoAppend es) st = ls_append db lc es st"
| "ls_exec db lc (LoTruncate l) st = truncate_after db l st"
| "ls_exec db lc (LoPurge l) st = ls_purge db lc l st"
| "ls_exec db lc (LoVersion v) st = (Inr (), with_active_write_version v st)"

fun ls_spec_exec :: "'v ls_op \<Rightarrow> 'v ls_spec \<Rightarrow> 'v ls_spec" where
  "ls_spec_exec (LoVote v) s = s\<lparr>sl_vote := Some v\<rparr>"
| "ls_spec_exec (LoCommitted c) s = s\<lparr>sl_committed := c\<rparr>"
| "ls_spec_exec (LoAppend es) s = s\<lparr>sl_log := insert_entries es (sl_log s)\<rparr>"
| "ls_spec_exec (LoTruncate l) s = s\<lparr>sl_log := filter (\<lambda>e. fst e < next_index l) (sl_log s)\<rparr>"
| "ls_spec_exec (LoPurge l) s = s\<lparr>sl_log := filter (\<lambda>e. lid_index l < fst e) (sl_log s), sl_purged := Some l\<rparr>"
| "ls_spec_exec (LoVersion v) s = s"

text \<open>Only the committed id is written without a sync.\<close>

fun ls_synced :: "'v ls_op \<Rightarrow> bool" where
  "ls_synced (LoCommitted _) = False"
| "ls_synced (LoVersion _) = False"
| "ls_synced _ = True"

text \<open>The active write version stays readable, and entries are ones that decode.\<close>

fun ls_allowed :: "(raft_entry \<Rightarrow> bool) \<Rightarrow> 'v ls_op \<Rightarrow> bool" where
  "ls_allowed valid (LoAppend es) = list_all valid es"
| "ls_allowed valid (LoVersion v) = in_readable_range v"
| "ls_allowed valid _ = True"

definition ls_codec_ok :: "(raft_entry \<Rightarrow> bool) \<Rightarrow> 'v log_store_codec \<Rightarrow> bool" where
  "ls_codec_ok valid lc \<longleftrightarrow>
     (\<forall>v e b. valid e \<longrightarrow> lc_encode_entry lc v e = Inr b \<longrightarrow> lc_decode_entry lc v b = Inr e)
     \<and> (\<forall>v x b. lc_encode_vote lc v x = Inr b \<longrightarrow> lc_decode_vote lc v b = Inr x)
     \<and> (\<forall>v x b. lc_encode_log_id lc v x = Inr b \<longrightarrow> lc_decode_log_id lc v b = Inr x)"

lemma openraft_log_codec_ok:
  assumes "postcard_ok pe" "postcard_ok pv" "postcard_ok pl"
  shows "ls_codec_ok (\<lambda>e. payload_valid (en_payload e)) (openraft_log_codec pe pv pl)"
  using assms by (auto simp: ls_codec_ok_def openraft_log_codec_def default_log_store_codec_def postcard_exact payload_valid_ok)

lemma decode_encode_record:
  assumes "\<And>b. enc v x = Inr b \<Longrightarrow> dec v b = Inr x" "in_readable_range v" "encode_record enc v x = Inr bs"
  shows "decode_record dec bs = Inr x"
  using assms by (auto simp: encode_record_def decode_record_def frame_with_version_def unframe_with_version_def)

section \<open>Keys\<close>

lemma less_snoc_zero: "(xs :: bytes) < ys @ [0] \<longleftrightarrow> xs \<le> ys"
proof (induction xs arbitrary: ys)
  case (Cons x xs)
  then show ?case by (cases ys) auto
next
  case Nil
  show ?case by (cases ys) simp_all
qed

lemma be64_bounds: "be64 0 = replicate 8 0" "be64 (- 1) = replicate 8 255"
proof -
  have r: "replicate 8 x = [x, x, x, x, x, x, x, x]" for x :: u8 by (simp add: numeral_eq_Suc)
  have "unbe64 (replicate 8 0) = 0" "unbe64 (replicate 8 255) = - 1" by (simp_all add: r unbe64_def un64_def)
  then show "be64 0 = replicate 8 0" "be64 (- 1) = replicate 8 255"
    using be64_unbe64 [of "replicate 8 0"] be64_unbe64 [of "replicate 8 255"] by simp_all
qed

lemma log_range_keys: "fst (log_range ks) = log_key ks 0" "snd (log_range ks) = log_key ks (- 1)"
  by (simp_all add: log_range_def log_key_def be64_bounds)

interpretation lsk: index_keys "log_key ks" for ks
  by unfold_locales (simp add: log_key_def)

definition in_region :: "key_space \<Rightarrow> bytes \<Rightarrow> bool" where
  "in_region ks k \<longleftrightarrow> fst (log_range ks) \<le> k \<and> k < log_end_bound ks"

lemma in_region_iff: "in_region ks k \<longleftrightarrow> log_key ks 0 \<le> k \<and> k \<le> log_key ks (- 1)"
  by (simp add: in_region_def log_end_bound_def log_range_keys less_snoc_zero)

lemma log_key_in_region [simp]: "in_region ks (log_key ks i)"
  by (simp add: in_region_iff lsk.key_le)

section \<open>The contents that stand for a state\<close>

definition ls_log_stored :: "'v log_store_codec \<Rightarrow> key_space \<Rightarrow> (bytes, bytes) btree_map \<Rightarrow> (u64, raft_entry) btree_map \<Rightarrow> bool" where
  "ls_log_stored lc ks m l \<longleftrightarrow>
     records_rel (log_key ks) (decode_record (lc_decode_entry lc)) (filter (\<lambda>e. in_region ks (fst e)) m) l"

definition ls_field ::
  "(u8 \<Rightarrow> bytes \<Rightarrow> (codec_error, 'a) result) \<Rightarrow> key_space \<Rightarrow> meta_label \<Rightarrow> (bytes, bytes) btree_map \<Rightarrow> 'a option \<Rightarrow> bool" where
  "ls_field dec ks label m f \<longleftrightarrow>
     (case bt_get m (meta_key ks label) of None \<Rightarrow> f = None | Some v \<Rightarrow> \<exists>x. decode_record dec v = Inr x \<and> f = Some x)"

definition ls_stored :: "'v log_store_codec \<Rightarrow> key_space \<Rightarrow> cf_name \<Rightarrow> cf_name \<Rightarrow> db_content \<Rightarrow> 'v ls_spec \<Rightarrow> bool" where
  "ls_stored lc ks log_cf meta_cf c s \<longleftrightarrow> ls_log_stored lc ks (c log_cf) (sl_log s)
     \<and> ls_field (lc_decode_vote lc) ks LabelVote (c meta_cf) (sl_vote s)
     \<and> ls_field (lc_decode_log_id lc) ks LabelCommitted (c meta_cf) (sl_committed s)
     \<and> ls_field (lc_decode_log_id lc) ks LabelLastPurged (c meta_cf) (sl_purged s)"

lemma ls_stored_empty: "c log_cf = [] \<Longrightarrow> c meta_cf = [] \<Longrightarrow> ls_stored lc ks log_cf meta_cf c ls_spec_empty"
  by (simp add: ls_stored_def ls_log_stored_def ls_field_def ls_spec_empty_def)

lemma label_bytes_inj: "label_bytes a = label_bytes b \<longleftrightarrow> a = b"
  by (cases a; cases b) (simp_all add: lit_def)

lemma meta_key_inj: "meta_key ks a = meta_key ks b \<longleftrightarrow> a = b"
  by (cases ks) (simp_all add: label_bytes_inj)

lemma ls_log_put:
  assumes "bt_wf m" "ls_log_stored lc ks m l" "decode_record (lc_decode_entry lc) v = Inr e"
  shows "ls_log_stored lc ks (bt_insert (log_key ks i) v m) (bt_insert i e l)"
  using assms filter_bt_insert [where P = "in_region ks", OF assms(1), of "log_key ks i" v]
  by (simp add: ls_log_stored_def lsk.records_rel_insert)

lemma ls_log_retain:
  assumes "ls_log_stored lc ks m l" "\<And>i. P (log_key ks i) = Q i"
  shows "ls_log_stored lc ks (bt_retain (\<lambda>k _. P k) m) (filter (\<lambda>e. Q (fst e)) l)"
proof -
  have "filter (\<lambda>e. in_region ks (fst e)) (filter (\<lambda>e. P (fst e)) m) = filter (\<lambda>e. P (fst e)) (filter (\<lambda>e. in_region ks (fst e)) m)"
    by (simp add: filter_filter conj_commute)
  with assms records_rel_filter [of "log_key ks" _ "filter (\<lambda>e. in_region ks (fst e)) m" l P Q] show ?thesis
    by (simp add: ls_log_stored_def bt_retain_def)
qed

lemma put_entries_stored:
  assumes "ls_codec_ok valid lc" "in_readable_range (lo_active_write_version st)"
  shows "put_entries lc st es = Inr ops \<Longrightarrow> list_all valid es \<Longrightarrow> (\<And>cf. bt_wf (c cf)) \<Longrightarrow> ls_log_stored lc (lo_keys st) (c (lo_log_cf st)) l \<Longrightarrow>
    ls_log_stored lc (lo_keys st) (apply_batch ops c (lo_log_cf st)) (insert_entries es l)
    \<and> (\<forall>cf. cf \<noteq> lo_log_cf st \<longrightarrow> apply_batch ops c cf = c cf)"
proof (induction es arbitrary: ops c l)
  case (Cons e es)
  let ?cf = "lo_log_cf st" and ?k = "log_key (lo_keys st) (lid_index (en_log_id e))"
  from Cons.prems(1) obtain v ops' where v: "encode_record (lc_encode_entry lc) (lo_active_write_version st) e = Inr v"
      "put_entries lc st es = Inr ops'" "ops = WPut ?cf ?k v # ops'"
    by (auto simp: and_then_Inr_iff)
  define c' where "c' = c(?cf := bt_insert ?k v (c ?cf))"
  have c': "apply_batch ops c = apply_batch ops' c'" "c' ?cf = bt_insert ?k v (c ?cf)" "cf \<noteq> ?cf \<Longrightarrow> c' cf = c cf" for cf
    by (simp_all add: v(3) apply_batch_def c'_def)
  have "decode_record (lc_decode_entry lc) v = Inr e"
    using decode_encode_record [OF _ assms(2) v(1), of "lc_decode_entry lc"] assms(1) Cons.prems(2) by (simp add: ls_codec_ok_def)
  then have "ls_log_stored lc (lo_keys st) (c' ?cf) (bt_insert (lid_index (en_log_id e)) e l)"
    unfolding c'(2) by (rule ls_log_put [OF Cons.prems(3,4)])
  moreover have "bt_wf (c' cf)" for cf using Cons.prems(3) by (auto simp: c'_def)
  moreover have "list_all valid es" using Cons.prems(2) by simp
  ultimately have "ls_log_stored lc (lo_keys st) (apply_batch ops' c' ?cf) (insert_entries es (bt_insert (lid_index (en_log_id e)) e l))
      \<and> (\<forall>cf. cf \<noteq> ?cf \<longrightarrow> apply_batch ops' c' cf = c' cf)"
    using Cons.IH [where c = c', OF v(2)] by blast
  with c' show ?case by (simp add: insert_entries_def)
qed (simp add: apply_batch_def insert_entries_def)

section \<open>One operation, one batch\<close>

fun ls_batch :: "'v log_store_codec \<Rightarrow> 'v ls_op \<Rightarrow> 'd log_store \<Rightarrow> (ls_error, write_op list) result" where
  "ls_batch lc (LoVote v) st = map_ok (\<lambda>w. [w]) (put_record (lc_encode_vote lc) LabelVote v st)"
| "ls_batch lc (LoCommitted (Some c)) st = map_ok (\<lambda>w. [w]) (put_record (lc_encode_log_id lc) LabelCommitted c st)"
| "ls_batch lc (LoCommitted None) st = Inr [WDelete (lo_meta_cf st) (meta_key (lo_keys st) LabelCommitted)]"
| "ls_batch lc (LoAppend es) st = put_entries lc st es"
| "ls_batch lc (LoTruncate l) st =
     Inr [WDeleteRange (lo_log_cf st) (log_key (lo_keys st) (next_index l)) (log_end_bound (lo_keys st))]"
| "ls_batch lc (LoPurge l) st =
     map_ok (\<lambda>w. [WDeleteRange (lo_log_cf st) (fst (log_range (lo_keys st)))
        (case checked_add (lid_index l) 1 of Some next \<Rightarrow> log_key (lo_keys st) next | None \<Rightarrow> log_end_bound (lo_keys st)), w])
       (put_record (lc_encode_log_id lc) LabelLastPurged l st)"
| "ls_batch lc (LoVersion v) st = Inr []"

lemma ls_exec_batch: "\<not> (\<exists>v. op = LoVersion v) \<Longrightarrow> ls_exec db lc op st = ls_write db (ls_synced op) (ls_batch lc op st) st"
  by (cases op) (auto simp: save_vote_def save_committed_def ls_append_def truncate_after_def ls_purge_def Let_def split: option.splits)

lemma put_record_stored:
  assumes "put_record enc label x st = Inr w" "\<And>v b. enc v x = Inr b \<Longrightarrow> dec v b = Inr x" "in_readable_range (lo_active_write_version st)"
  shows "\<exists>bs. w = WPut (lo_meta_cf st) (meta_key (lo_keys st) label) bs \<and> decode_record dec bs = Inr x"
  using assms decode_encode_record [of enc "lo_active_write_version st" x dec] by (auto simp: put_record_def)

lemma ls_field_put:
  "ls_field dec ks label (bt_insert (meta_key ks label') v m) f \<longleftrightarrow>
     (if label = label' then (\<exists>x. decode_record dec v = Inr x \<and> f = Some x) else ls_field dec ks label m f)"
  if "bt_wf m"
  using that by (auto simp: ls_field_def bt_simps meta_key_inj)

lemma purge_filter:
  "(case checked_add i 1 of Some next \<Rightarrow> log_key ks next | None \<Rightarrow> log_end_bound ks) = e \<Longrightarrow>
     \<not> (log_key ks 0 \<le> log_key ks j \<and> log_key ks j < e) \<longleftrightarrow> i < (j :: u64)"
proof -
  assume e: "(case checked_add i 1 of Some next \<Rightarrow> log_key ks next | None \<Rightarrow> log_end_bound ks) = e"
  show ?thesis
  proof (cases "checked_add i 1")
    case None
    then have "\<not> i < j" using unat_u64_bound [of j] by (simp add: checked_add_None_iff word_less_nat_alt)
    with None e log_key_in_region [of ks j] show ?thesis by (auto simp: in_region_def log_range_keys lsk.key_le)
  next
    case (Some n)
    with checked_add_SomeD [OF Some] e show ?thesis by (auto simp: lsk.key_le lsk.key_less word_less_nat_alt)
  qed
qed

lemma ls_field_delete:
  "bt_wf m \<Longrightarrow> ls_field dec ks label (bt_remove (meta_key ks label') m) f \<longleftrightarrow>
     (if label = label' then f = None else ls_field dec ks label m f)"
  by (auto simp: ls_field_def bt_simps meta_key_inj)

lemma ls_batch_stored:
  assumes "ls_codec_ok valid lc" "in_readable_range (lo_active_write_version st)" "lo_log_cf st \<noteq> lo_meta_cf st" "ls_allowed valid op"
    and "\<And>cf. bt_wf (c cf)" "ls_stored lc (lo_keys st) (lo_log_cf st) (lo_meta_cf st) c s" "ls_batch lc op st = Inr b"
  shows "ls_stored lc (lo_keys st) (lo_log_cf st) (lo_meta_cf st) (apply_batch b c) (ls_spec_exec op s)"
proof -
  let ?ks = "lo_keys st"
  note put = put_record_stored [OF _ _ assms(2)] and st = assms(6) [unfolded ls_stored_def]
  show ?thesis
  proof (cases op)
    case (LoVote v)
    with assms(7) obtain w where w: "put_record (lc_encode_vote lc) LabelVote v st = Inr w" "b = [w]" by auto
    then obtain bs where "w = WPut (lo_meta_cf st) (meta_key ?ks LabelVote) bs" "decode_record (lc_decode_vote lc) bs = Inr v"
      using put [OF w(1), of "lc_decode_vote lc"] assms(1) by (auto simp: ls_codec_ok_def)
    with assms(3,5) st w(2) LoVote show ?thesis by (auto simp: ls_stored_def apply_batch_def ls_field_put)
  next
    case (LoCommitted l)
    show ?thesis
    proof (cases l)
      case None
      with assms(7) LoCommitted have "b = [WDelete (lo_meta_cf st) (meta_key ?ks LabelCommitted)]" by simp
      with assms(3,5) st LoCommitted None show ?thesis by (simp add: ls_stored_def apply_batch_def ls_field_delete)
    next
      case (Some x)
      with assms(7) LoCommitted obtain w where w: "put_record (lc_encode_log_id lc) LabelCommitted x st = Inr w" "b = [w]" by auto
      then obtain bs where "w = WPut (lo_meta_cf st) (meta_key ?ks LabelCommitted) bs" "decode_record (lc_decode_log_id lc) bs = Inr x"
        using put [OF w(1), of "lc_decode_log_id lc"] assms(1) by (auto simp: ls_codec_ok_def)
      with assms(3,5) st w(2) LoCommitted Some show ?thesis by (auto simp: ls_stored_def apply_batch_def ls_field_put)
    qed
  next
    case (LoAppend es)
    with put_entries_stored [where c = c, OF assms(1,2) _ _ assms(5), of es b "sl_log s"] assms(3,4,7) st
    show ?thesis by (auto simp: ls_stored_def)
  next
    case (LoTruncate l)
    with assms(7) have b: "b = [WDeleteRange (lo_log_cf st) (log_key ?ks (next_index l)) (log_end_bound ?ks)]" by simp
    have "(\<not> (log_key ?ks (next_index l) \<le> log_key ?ks i \<and> log_key ?ks i < log_end_bound ?ks)) = (i < next_index l)" for i
      using log_key_in_region [of ?ks i] by (auto simp: in_region_def lsk.key_le)
    from ls_log_retain [where P = "\<lambda>k. \<not> (log_key ?ks (next_index l) \<le> k \<and> k < log_end_bound ?ks)" and Q = "\<lambda>i. i < next_index l",
        OF conjunct1 [OF st] this] assms(3) st LoTruncate b show ?thesis by (simp add: ls_stored_def apply_batch_def)
  next
    case (LoPurge l)
    define e where "e = (case checked_add (lid_index l) 1 of Some next \<Rightarrow> log_key ?ks next | None \<Rightarrow> log_end_bound ?ks)"
    from LoPurge assms(7) obtain w where w: "put_record (lc_encode_log_id lc) LabelLastPurged l st = Inr w"
        "b = [WDeleteRange (lo_log_cf st) (log_key ?ks 0) e, w]" by (auto simp: e_def log_range_keys)
    obtain bs where bs: "w = WPut (lo_meta_cf st) (meta_key ?ks LabelLastPurged) bs" "decode_record (lc_decode_log_id lc) bs = Inr l"
      using put [OF w(1), of "lc_decode_log_id lc"] assms(1) by (auto simp: ls_codec_ok_def)
    from ls_log_retain [where P = "\<lambda>k. \<not> (log_key ?ks 0 \<le> k \<and> k < e)" and Q = "\<lambda>i. lid_index l < i",
        OF conjunct1 [OF st] purge_filter [OF e_def [symmetric]]] assms(3,5) st LoPurge w(2) bs
    show ?thesis by (simp add: ls_stored_def apply_batch_def ls_field_put)
  next
    case (LoVersion v)
    with assms(6,7) show ?thesis by (simp add: apply_batch_def)
  qed
qed

section \<open>Groups\<close>

text \<open>Every write of a store stays inside its own keys.\<close>

fun local_write :: "key_space \<Rightarrow> cf_name \<Rightarrow> cf_name \<Rightarrow> write_op \<Rightarrow> bool" where
  "local_write ks log_cf meta_cf (WPut cf k v) \<longleftrightarrow> cf = log_cf \<and> in_region ks k \<or> cf = meta_cf \<and> k \<in> range (meta_key ks)"
| "local_write ks log_cf meta_cf (WDelete cf k) \<longleftrightarrow> cf = meta_cf \<and> k \<in> range (meta_key ks)"
| "local_write ks log_cf meta_cf (WDeleteRange cf lo hi) \<longleftrightarrow> cf = log_cf \<and> log_key ks 0 \<le> lo \<and> hi \<le> log_end_bound ks"

lemma put_entries_local:
  "put_entries lc st es = Inr ops \<Longrightarrow> list_all (local_write (lo_keys st) (lo_log_cf st) (lo_meta_cf st)) ops"
  by (induction es arbitrary: ops) (auto simp: and_then_Inr_iff)

lemma ls_batch_local: "ls_batch lc op st = Inr b \<Longrightarrow> list_all (local_write (lo_keys st) (lo_log_cf st) (lo_meta_cf st)) b"
  using less_imp_le [OF log_key_in_region [unfolded in_region_def, THEN conjunct2]]
  by (cases op rule: ls_op.exhaust; cases "case op of LoCommitted l \<Rightarrow> l | _ \<Rightarrow> None")
    (auto simp: put_record_def put_entries_local lsk.key_le log_range_keys split: option.splits)

definition separate :: "key_space \<Rightarrow> key_space \<Rightarrow> bool" where
  "separate ks ks' \<longleftrightarrow> (\<exists>g g'. ks = GroupPrefixed g \<and> ks' = GroupPrefixed g' \<and> g \<noteq> g')"

lemma separate_regions:
  assumes "separate ks ks'" "in_region ks k"
  shows "\<not> in_region ks' k"
proof -
  obtain g g' where g: "ks = GroupPrefixed g" "ks' = GroupPrefixed g'" "g \<noteq> g'" using assms(1) by (auto simp: separate_def)
  have o: "log_key (GroupPrefixed a) (- 1) < log_key (GroupPrefixed b) 0" if "a < b" for a b
    using that by (simp add: log_key_def prefix_less)
  show ?thesis
  proof (cases "g < g'")
    case True
    from o [OF this] assms(2) g(1,2) show ?thesis by (auto simp: in_region_iff)
  next
    case False
    with g(3) have "g' < g" by simp
    from o [OF this] assms(2) g(1,2) show ?thesis by (auto simp: in_region_iff)
  qed
qed

lemma separate_meta: "separate ks ks' \<Longrightarrow> meta_key ks a \<noteq> meta_key ks' b"
  by (auto simp: separate_def) (metis unbe64_be64)

lemma local_write_frame:
  assumes "separate ks ks'" "log_cf \<noteq> meta_cf" "\<And>cf. bt_wf (c cf)" "local_write ks log_cf meta_cf w"
    and "ls_stored lc ks' log_cf meta_cf c s"
  shows "ls_stored lc ks' log_cf meta_cf (apply_write w c) s"
proof -
  have f: "ls_field dec ks' label (bt_insert (meta_key ks a) v m) x = ls_field dec ks' label m x"
      "ls_field dec ks' label (bt_remove (meta_key ks a) m) x = ls_field dec ks' label m x" if "bt_wf m"
    for dec :: "u8 \<Rightarrow> bytes \<Rightarrow> (codec_error, 'b) result" and label a v m x
    using that separate_meta [OF assms(1), of a label] by (simp_all add: ls_field_def bt_simps)
  have g: "ls_field dec ks' label (bt_insert (meta_key ks a) v m) x = ls_field dec ks' label m x"
      "ls_field dec ks' label (bt_remove (meta_key ks a) m) x = ls_field dec ks' label m x" if "bt_wf m"
    for dec :: "u8 \<Rightarrow> bytes \<Rightarrow> (codec_error, log_id) result" and label a v m x
    using that separate_meta [OF assms(1), of a label] by (simp_all add: ls_field_def bt_simps)
  have p: "filter (\<lambda>e. in_region ks' (fst e)) (bt_insert k v m) = filter (\<lambda>e. in_region ks' (fst e)) m"
    if "bt_wf m" "in_region ks k" for k v and m :: "(bytes, bytes) btree_map"
    using filter_bt_insert [where P = "in_region ks'", OF that(1), of k v] separate_regions [OF assms(1) that(2)] by simp
  have d: "filter (\<lambda>e. in_region ks' (fst e)) (bt_retain (\<lambda>k _. lo \<le> k \<longrightarrow> \<not> k < hi) m) = filter (\<lambda>e. in_region ks' (fst e)) m"
    if "log_key ks 0 \<le> lo" "hi \<le> log_end_bound ks" for lo hi and m :: "(bytes, bytes) btree_map"
  proof -
    have "in_region ks k" if "lo \<le> k" "k < hi" for k
      using that \<open>log_key ks 0 \<le> lo\<close> \<open>hi \<le> log_end_bound ks\<close> by (auto simp: in_region_def log_range_keys)
    then show ?thesis using separate_regions [OF assms(1)] by (auto simp: bt_retain_def intro!: filter_cong)
  qed
  show ?thesis
    using assms(2-5) by (cases w) (auto simp: ls_stored_def ls_log_stored_def p d f g)
qed

lemma local_batch_frame:
  assumes "separate ks ks'" "log_cf \<noteq> meta_cf"
  shows "list_all (local_write ks log_cf meta_cf) b \<Longrightarrow> (\<And>cf. bt_wf (c cf)) \<Longrightarrow> ls_stored lc ks' log_cf meta_cf c s \<Longrightarrow>
    ls_stored lc ks' log_cf meta_cf (apply_batch b c) s"
proof (induction b arbitrary: c)
  case (Cons w b)
  then have "ls_stored lc ks' log_cf meta_cf (apply_write w c) s" "\<And>cf. bt_wf (apply_write w c cf)"
    using local_write_frame [OF assms, of c w lc s] apply_write_wf [of c w] by auto
  with Cons show ?case by (simp add: apply_batch_def)
qed (simp add: apply_batch_def)

section \<open>What reads return\<close>

definition ls_represents :: "'d rocksdb \<Rightarrow> 'v log_store_codec \<Rightarrow> 'd log_store \<Rightarrow> 'v ls_spec \<Rightarrow> bool" where
  "ls_represents db lc st s \<longleftrightarrow>
     (\<forall>r. try_get_log_entries db lc r st
        = Inr (map snd (filter (\<lambda>e. fst (range_boundary r) \<le> fst e \<and> fst e < snd (range_boundary r)) (sl_log s))))
     \<and> read_vote db lc st = Inr (sl_vote s) \<and> read_committed db lc st = Inr (sl_committed s)
     \<and> get_log_state db lc st = Inr \<lparr>lt_last_purged_log_id = sl_purged s,
         lt_last_log_id = (if sl_log s = [] then sl_purged s else Some (en_log_id (snd (last (sl_log s)))))\<rparr>"

definition ls_ok :: "'v log_store_codec \<Rightarrow> ('d \<Rightarrow> db_content) \<Rightarrow> 'd log_store \<Rightarrow> 'v ls_spec \<Rightarrow> bool" where
  "ls_ok lc content st s \<longleftrightarrow> ls_stored lc (lo_keys st) (lo_log_cf st) (lo_meta_cf st) (content (lo_db st)) s
     \<and> in_readable_range (lo_active_write_version st) \<and> lo_log_cf st \<noteq> lo_meta_cf st"

lemma read_until_all:
  "records_rel key (decode_record (lc_decode_entry lc)) (takeWhile (\<lambda>e. fst e < end_key) xs) l \<Longrightarrow>
     read_until lc end_key (map Inr xs) = Inr (map snd l)"
proof (induction xs arbitrary: l)
  case (Cons x xs)
  then show ?case by (cases x; cases "fst x < end_key") (auto simp: records_rel_Cons1)
qed simp

lemma last_of_filter:
  "bt_wf xs \<Longrightarrow> xs \<noteq> [] \<Longrightarrow> filter (\<lambda>e. lo \<le> fst e) xs = [] \<and> fst (last xs) < lo
     \<or> filter (\<lambda>e. lo \<le> fst e) xs \<noteq> [] \<and> lo \<le> fst (last xs) \<and> last (filter (\<lambda>e. lo \<le> fst e) xs) = last xs"
proof (induction xs rule: rev_induct)
  case (snoc x xs)
  have "\<forall>e \<in> set xs. fst e < fst x" using snoc.prems(1) by (auto simp: bt_wf_def sorted_wrt_append)
  then show ?case by (cases "lo \<le> fst x") (auto simp: filter_empty_conv dest: order_trans less_imp_le)
qed simp

lemma records_rel_last_snd:
  "records_rel key dec m l \<Longrightarrow> m \<noteq> [] \<Longrightarrow> l \<noteq> [] \<and> dec (snd (last m)) = Inr (snd (last l))"
proof (induction m arbitrary: l)
  case (Cons kv m)
  then show ?case by (cases "m = []") (auto simp: records_rel_Cons1)
qed simp

context rocksdb_store
begin

lemma read_meta_ok:
  assumes "healthy (lo_db st)" "ls_field dec (lo_keys st) label (content (lo_db st) (lo_meta_cf st)) f"
  shows "read_meta db dec label st = Inr f"
  using assms by (auto simp: read_meta_def get_content ls_field_def split: option.splits)

lemma try_get_ok:
  assumes "healthy (lo_db st)" "ls_log_stored lc (lo_keys st) (content (lo_db st) (lo_log_cf st)) l"
  shows "try_get_log_entries db lc r st
    = Inr (map snd (filter (\<lambda>e. fst (range_boundary r) \<le> fst e \<and> fst e < snd (range_boundary r)) l))"
proof -
  obtain a b where r: "range_boundary r = (a, b)" by (cases "range_boundary r")
  show ?thesis
  proof (cases "a < b")
    case True
    let ?k = "log_key (lo_keys st)" and ?m = "content (lo_db st) (lo_log_cf st)"
    have reg: "in_region (lo_keys st) k" if "?k a \<le> k" "k < ?k b" for k
      using that lsk.key_le [of "lo_keys st" 0 a] lsk.key_le [of "lo_keys st" b "- 1"]
      by (auto simp: in_region_iff dest: order_trans less_imp_le)
    have "takeWhile (\<lambda>e. fst e < ?k b) (filter (\<lambda>e. ?k a \<le> fst e) ?m) = filter (\<lambda>e. ?k a \<le> fst e \<and> fst e < ?k b) ?m"
      by (rule takeWhile_below [OF content_wf [OF assms(1)]])
    also have "\<dots> = filter (\<lambda>e. ?k a \<le> fst e \<and> fst e < ?k b) (filter (\<lambda>e. in_region (lo_keys st) (fst e)) ?m)"
      using reg by (auto simp: filter_filter intro!: filter_cong)
    finally have "records_rel ?k (decode_record (lc_decode_entry lc)) (takeWhile (\<lambda>e. fst e < ?k b) (filter (\<lambda>e. ?k a \<le> fst e) ?m))
        (filter (\<lambda>e. a \<le> fst e \<and> fst e < b) l)"
      using assms(2) by (simp only:) (intro records_rel_filter, simp_all add: ls_log_stored_def lsk.key_le lsk.key_less)
    from read_until_all [OF this] True r show ?thesis
      by (auto simp: try_get_log_entries_def forward_content [OF assms(1)])
  next
    case False
    then have "filter (\<lambda>e. a \<le> fst e \<and> fst e < b) l = []" by (auto simp: filter_empty_conv)
    with False r show ?thesis by (simp add: try_get_log_entries_def not_less)
  qed
qed

lemma last_log_id_ok:
  assumes "healthy (lo_db st)" "ls_log_stored lc (lo_keys st) (content (lo_db st) (lo_log_cf st)) l"
  shows "last_log_id_in_cf db lc st = Inr (if l = [] then None else Some (en_log_id (snd (last l))))"
proof -
  let ?lo = "log_key (lo_keys st) 0" and ?hi = "log_key (lo_keys st) (- 1)" and ?m = "content (lo_db st) (lo_log_cf st)"
  define xs where "xs = filter (\<lambda>e. fst e \<le> ?hi) ?m"
  have f: "filter (\<lambda>e. ?lo \<le> fst e) xs = filter (\<lambda>e. in_region (lo_keys st) (fst e)) ?m"
    by (simp add: xs_def in_region_iff filter_filter conj_commute)
  have wf: "bt_wf xs" using bt.wf_retain [OF content_wf [OF assms(1)], of "\<lambda>k _. k \<le> ?hi"] by (simp add: xs_def bt_retain_def)
  have rel: "records_rel (log_key (lo_keys st)) (decode_record (lc_decode_entry lc)) (filter (\<lambda>e. ?lo \<le> fst e) xs) l"
    unfolding f using assms(2) by (simp add: ls_log_stored_def)
  have it: "rk_iter_reverse db (lo_log_cf st) ?hi (lo_db st) = map Inr (rev xs)"
    by (simp add: reverse_content [OF assms(1)] xs_def)
  show ?thesis
  proof (cases "xs = []")
    case True
    with rel it show ?thesis by (simp add: last_log_id_in_cf_def Let_def split_beta log_range_keys)
  next
    case False
    then obtain ys k v where xs: "xs = ys @ [(k, v)]" by (cases xs rule: rev_cases) auto
    show ?thesis
    proof (cases "k < ?lo")
      case True
      with last_of_filter [OF wf False, of ?lo] rel xs have "l = []" by auto
      with True it xs show ?thesis by (simp add: last_log_id_in_cf_def Let_def split_beta log_range_keys)
    next
      case False
      with last_of_filter [OF wf \<open>xs \<noteq> []\<close>, of ?lo] xs have n: "filter (\<lambda>e. ?lo \<le> fst e) xs \<noteq> []" "last (filter (\<lambda>e. ?lo \<le> fst e) xs) = (k, v)"
        by auto
      from records_rel_last_snd [OF rel n(1)] False it xs n(2) show ?thesis
        by (simp add: last_log_id_in_cf_def Let_def split_beta log_range_keys)
    qed
  qed
qed

lemma ls_ok_represents:
  assumes "healthy (lo_db st)" "ls_ok lc content st s"
  shows "ls_represents db lc st s"
proof -
  have s: "ls_log_stored lc (lo_keys st) (content (lo_db st) (lo_log_cf st)) (sl_log s)"
      "ls_field (lc_decode_vote lc) (lo_keys st) LabelVote (content (lo_db st) (lo_meta_cf st)) (sl_vote s)"
      "ls_field (lc_decode_log_id lc) (lo_keys st) LabelCommitted (content (lo_db st) (lo_meta_cf st)) (sl_committed s)"
      "ls_field (lc_decode_log_id lc) (lo_keys st) LabelLastPurged (content (lo_db st) (lo_meta_cf st)) (sl_purged s)"
    using assms(2) by (simp_all add: ls_ok_def ls_stored_def)
  note r = try_get_ok [OF assms(1) s(1)] last_log_id_ok [OF assms(1) s(1)]
    read_meta_ok [OF assms(1) s(2)] read_meta_ok [OF assms(1) s(3)] read_meta_ok [OF assms(1) s(4)]
  show ?thesis by (simp add: ls_represents_def read_vote_def read_committed_def get_log_state_def r)
qed

end

section \<open>Runs and crashes\<close>

fun ls_exec_all :: "'d rocksdb \<Rightarrow> 'v log_store_codec \<Rightarrow> 'v ls_op list \<Rightarrow> 'd log_store \<Rightarrow> 'd log_store option" where
  "ls_exec_all db lc [] st = Some st"
| "ls_exec_all db lc (op # ops) st =
     (case ls_exec db lc op st of (Inl _, _) \<Rightarrow> None | (Inr _, st') \<Rightarrow> ls_exec_all db lc ops st')"

lemma ls_exec_all_snoc:
  "ls_exec_all db lc (ops @ [op]) st = Some st' \<longleftrightarrow> (\<exists>st1. ls_exec_all db lc ops st = Some st1 \<and> ls_exec db lc op st1 = (Inr (), st'))"
  by (induction ops arbitrary: st) (auto split: prod.splits sum.splits)

definition same_place :: "'d log_store \<Rightarrow> 'd log_store \<Rightarrow> bool" where
  "same_place st st' \<longleftrightarrow> lo_keys st' = lo_keys st \<and> lo_log_cf st' = lo_log_cf st \<and> lo_meta_cf st' = lo_meta_cf st"

text \<open>A content that the state after some operations stands for, with only unsynced ones left out.\<close>

definition ls_stored_upto :: "'v log_store_codec \<Rightarrow> 'd log_store \<Rightarrow> 'v ls_op list \<Rightarrow> 'v ls_spec \<Rightarrow> db_content \<Rightarrow> bool" where
  "ls_stored_upto lc st ops s c \<longleftrightarrow> (\<exists>pre post. ops = pre @ post \<and> list_all (\<lambda>op. \<not> ls_synced op) post
     \<and> ls_stored lc (lo_keys st) (lo_log_cf st) (lo_meta_cf st) c (fold ls_spec_exec pre s))"

lemma ls_stored_upto_snoc:
  assumes "ls_stored_upto lc st ops s c" "\<not> ls_synced op"
  shows "ls_stored_upto lc st (ops @ [op]) s c"
proof -
  obtain pre post where "ops = pre @ post" "list_all (\<lambda>op. \<not> ls_synced op) (post @ [op])"
      "ls_stored lc (lo_keys st) (lo_log_cf st) (lo_meta_cf st) c (fold ls_spec_exec pre s)"
    using assms by (auto simp: ls_stored_upto_def)
  then show ?thesis unfolding ls_stored_upto_def by (intro exI [of _ pre] exI [of _ "post @ [op]"]) simp
qed

lemma ls_ok_upto: "ls_ok lc content st' (fold ls_spec_exec ops s) \<Longrightarrow> same_place st st' \<Longrightarrow> ls_stored_upto lc st ops s (content (lo_db st'))"
  unfolding ls_stored_upto_def by (intro exI [of _ ops] exI [of _ "[]"]) (simp add: ls_ok_def same_place_def)

lemma ls_write_Inr:
  "ls_write db sync batch st = (Inr (), st') \<longleftrightarrow>
     (\<exists>ops u d. batch = Inr ops \<and> rk_write db sync ops (lo_db st) = (Inr u, d) \<and> st' = st\<lparr>lo_db := d\<rparr>)"
  by (auto simp: ls_write_def split: sum.splits prod.splits)

context rocksdb_store
begin

lemma ls_exec_ok:
  assumes "ls_codec_ok valid lc" "healthy (lo_db st)" "ls_ok lc content st s" "ls_allowed valid op" "ls_exec db lc op st = (Inr (), st')"
  shows "healthy (lo_db st') \<and> ls_ok lc content st' (ls_spec_exec op s) \<and> same_place st st'
    \<and> set (durable (lo_db st')) \<subseteq> (if ls_synced op then {} else set (durable (lo_db st))) \<union> {content (lo_db st')}
       \<union> (if \<exists>v. op = LoVersion v then set (durable (lo_db st)) else {})"
proof (cases "\<exists>v. op = LoVersion v")
  case True
  with assms show ?thesis by (auto simp: with_active_write_version_def ls_ok_def same_place_def)
next
  case False
  with assms(5) obtain b u d where b: "ls_batch lc op st = Inr b" "rk_write db (ls_synced op) b (lo_db st) = (Inr u, d)" "st' = st\<lparr>lo_db := d\<rparr>"
    by (auto simp: ls_exec_batch ls_write_Inr)
  have "ls_stored lc (lo_keys st) (lo_log_cf st) (lo_meta_cf st) (apply_batch b (content (lo_db st))) (ls_spec_exec op s)"
    using ls_batch_stored [OF assms(1) _ _ assms(4) content_wf [OF assms(2)] _ b(1)] assms(3) by (simp add: ls_ok_def)
  with write_ok [OF assms(2) b(2)] assms(3) b(3) False show ?thesis by (auto simp: ls_ok_def same_place_def)
qed

lemma ls_run_ok:
  assumes "ls_codec_ok valid lc" "healthy (lo_db st)" "ls_ok lc content st s" "durable (lo_db st) = [content (lo_db st)]"
  shows "list_all (ls_allowed valid) ops \<Longrightarrow> ls_exec_all db lc ops st = Some st' \<Longrightarrow>
    healthy (lo_db st') \<and> ls_ok lc content st' (fold ls_spec_exec ops s) \<and> same_place st st'
    \<and> (\<forall>c \<in> set (durable (lo_db st')). ls_stored_upto lc st ops s c)"
proof (induction ops arbitrary: st' rule: rev_induct)
  case Nil
  with assms ls_ok_upto [of lc content st "[]" s st] show ?case by (auto simp: same_place_def)
next
  case (snoc op ops)
  from snoc.prems obtain st1 where st1: "ls_exec_all db lc ops st = Some st1" "ls_exec db lc op st1 = (Inr (), st')"
      "list_all (ls_allowed valid) ops" "ls_allowed valid op"
    by (auto simp: ls_exec_all_snoc)
  note i = snoc.IH [OF st1(3,1)]
  note e = ls_exec_ok [OF assms(1) conjunct1 [OF i] conjunct1 [OF conjunct2 [OF i]] st1(4,2)]
  have p: "same_place st st'" using e i by (simp add: same_place_def)
  have "ls_stored_upto lc st (ops @ [op]) s (content (lo_db st'))"
    using ls_ok_upto [of lc content st' "ops @ [op]" s st] e p by simp
  moreover have "\<not> ls_synced op" if "\<exists>v. op = LoVersion v" using that by auto
  ultimately show ?case using e i p ls_stored_upto_snoc [of lc st ops s _ op] by (auto split: if_splits)
qed

lemma log_store_open_ok:
  assumes "healthy d" "rk_has_cf db log_cf d" "rk_has_cf db meta_cf d" "log_cf \<noteq> meta_cf" "ls_stored lc ks log_cf meta_cf (content d) s"
  shows "\<exists>st. log_store_open db d log_cf meta_cf ks = Inr st \<and> lo_db st = d \<and> lo_keys st = ks \<and> lo_log_cf st = log_cf \<and> lo_meta_cf st = meta_cf
    \<and> ls_ok lc content st s"
  using assms by (simp add: log_store_open_def ls_ok_def in_readable_range_def BASELINE_WRITE_VERSION_def MIN_READABLE_VERSION_def MAX_READABLE_VERSION_def)

lemma ls_exec_cfs: "ls_exec db lc op st = (r, st') \<Longrightarrow> rk_has_cf db cf (lo_db st') = rk_has_cf db cf (lo_db st)"
proof (cases "\<exists>v. op = LoVersion v")
  case False
  moreover assume "ls_exec db lc op st = (r, st')"
  ultimately show ?thesis using write_cfs by (auto simp: ls_exec_batch ls_write_def split: sum.splits prod.splits)
qed (auto simp: with_active_write_version_def)

lemma ls_exec_all_cfs: "ls_exec_all db lc ops st = Some st' \<Longrightarrow> rk_has_cf db cf (lo_db st') = rk_has_cf db cf (lo_db st)"
  by (induction ops arbitrary: st) (auto dest: ls_exec_cfs split: prod.splits sum.splits)

end

section \<open>The write version of the log\<close>

lemma version_scan_bounds:
  assumes "sorted_wrt (\<lambda>a b. fst b < fst a) xs"
  shows "\<exists>h'. version_scan lo (map Inr xs) h = Inr h'
    \<and> (\<forall>m. h = Some m \<longrightarrow> (\<exists>m'. h' = Some m' \<and> m \<le> m'))
    \<and> (\<forall>e \<in> set xs. lo \<le> fst e \<and> snd e \<noteq> [] \<longrightarrow> (\<exists>m'. h' = Some m' \<and> hd (snd e) \<le> m'))
    \<and> (\<forall>m'. h' = Some m' \<longrightarrow> h = Some m' \<or> (\<exists>e \<in> set xs. lo \<le> fst e \<and> snd e \<noteq> [] \<and> hd (snd e) = m'))"
  using assms
proof (induction xs arbitrary: h)
  case (Cons x xs)
  obtain k v where x: "x = (k, v)" by (cases x)
  show ?case
  proof (cases "k < lo")
    case True
    with Cons.prems x show ?thesis by (cases h) (auto dest: less_trans)
  next
    case False
    let ?h = "case v of [] \<Rightarrow> h | leading # _ \<Rightarrow> Some (case h of None \<Rightarrow> leading | Some current \<Rightarrow> max current leading)"
    have "sorted_wrt (\<lambda>a b. fst b < fst a) xs" using Cons.prems by simp
    from Cons.IH [OF this, of ?h] obtain h' where h': "version_scan lo (map Inr xs) ?h = Inr h'"
        "\<forall>m. ?h = Some m \<longrightarrow> (\<exists>m'. h' = Some m' \<and> m \<le> m')"
        "\<forall>e \<in> set xs. lo \<le> fst e \<and> snd e \<noteq> [] \<longrightarrow> (\<exists>m'. h' = Some m' \<and> hd (snd e) \<le> m')"
        "\<forall>m'. h' = Some m' \<longrightarrow> ?h = Some m' \<or> (\<exists>e \<in> set xs. lo \<le> fst e \<and> snd e \<noteq> [] \<and> hd (snd e) = m')"
      by (elim exE conjE)
    have up: "\<exists>m'. h' = Some m' \<and> m \<le> m'" if "h = Some m" for m
      using h'(2) that by (cases v) fastforce+
    have hdv: "\<exists>m'. h' = Some m' \<and> hd v \<le> m'" if "v \<noteq> []"
      using h'(2) that by (cases v; cases h) fastforce+
    have src: "h = Some m' \<or> v \<noteq> [] \<and> hd v = m' \<or> (\<exists>e \<in> set xs. lo \<le> fst e \<and> snd e \<noteq> [] \<and> hd (snd e) = m')" if "h' = Some m'" for m'
      using h'(4) that by (cases v; cases h) (auto simp: max_def split: if_splits)
    show ?thesis using False x h'(1,3) up hdv src by (intro exI [of _ h']) (auto simp: not_less)
  qed
qed simp

context rocksdb_store
begin

lemma highest_version_ok:
  assumes "healthy (lo_db st)"
  shows "\<exists>h. highest_log_record_version db st = Inr h
    \<and> (\<forall>e \<in> set (content (lo_db st) (lo_log_cf st)). in_region (lo_keys st) (fst e) \<and> snd e \<noteq> [] \<longrightarrow> (\<exists>m. h = Some m \<and> hd (snd e) \<le> m))
    \<and> (\<forall>m. h = Some m \<longrightarrow> (\<exists>e \<in> set (content (lo_db st) (lo_log_cf st)). in_region (lo_keys st) (fst e) \<and> snd e \<noteq> [] \<and> hd (snd e) = m))"
proof -
  let ?m = "content (lo_db st) (lo_log_cf st)" and ?lo = "log_key (lo_keys st) 0" and ?hi = "log_key (lo_keys st) (- 1)"
  let ?xs = "rev (filter (\<lambda>e. fst e \<le> ?hi) ?m)"
  have "sorted_wrt (\<lambda>a b. fst b < fst a) ?xs"
    using content_wf [OF assms, of "lo_log_cf st"] by (simp add: bt_wf_def sorted_wrt_rev sorted_wrt_map sorted_wrt_filter)
  from version_scan_bounds [OF this, of ?lo None] show ?thesis
    by (auto simp: highest_log_record_version_def log_range_keys Let_def split_beta reverse_content [OF assms] in_region_iff) force
qed

end

lemma records_rel_decodes: "records_rel key dec m l \<Longrightarrow> e \<in> set m \<Longrightarrow> \<exists>y. dec (snd e) = Inr y"
  by (induction m arbitrary: l) (auto simp: records_rel_Cons1)

lemma stored_record_readable:
  assumes "ls_log_stored lc ks m l" "e \<in> set m" "in_region ks (fst e)"
  shows "snd e \<noteq> [] \<and> in_readable_range (hd (snd e))"
proof -
  obtain y where "decode_record (lc_decode_entry lc) (snd e) = Inr y"
    using records_rel_decodes [of "log_key ks" "decode_record (lc_decode_entry lc)" "filter (\<lambda>e. in_region ks (fst e)) m" l e] assms
    by (auto simp: ls_log_stored_def)
  then show ?thesis by (auto simp: decode_record_def unframe_with_version_def and_then_Inr_iff split: list.splits if_splits)
qed

section \<open>The snapshot store\<close>

context rocksdb_store
begin

text \<open>A snapshot that was saved is what a restart loads, also right after a crash; one that was not leaves the old one.\<close>

lemma snapshot_survives_crash:
  assumes "healthy (sd_db st)" "snapshot_save db payload st = (Inr (), st')" "crash (sd_db st') d"
  shows "\<exists>st2. snapshot_open_with_key db d (sd_cf st) (sd_key st) = Inr st2 \<and> snapshot_load db st2 = Inr (Some payload)"
proof -
  from assms(2) obtain u d1 where w: "rk_write db True [WPut (sd_cf st) (sd_key st) payload] (sd_db st) = (Inr u, d1)" "st' = st\<lparr>sd_db := d1\<rparr>"
      "rk_has_cf db (sd_cf st) (sd_db st)"
    by (auto simp: snapshot_save_def split: if_splits prod.splits sum.splits)
  note ok = write_ok [OF assms(1) w(1)]
  from crash_content [of d1 d] ok assms(3) w(2) have c: "healthy d" "content d = apply_batch [WPut (sd_cf st) (sd_key st) payload] (content (sd_db st))"
    by auto
  have "rk_has_cf db (sd_cf st) d" using w write_cfs [OF w(1)] crash_cfs assms(3) by auto
  with c content_wf [OF assms(1)] show ?thesis
    by (simp add: snapshot_open_with_key_def snapshot_load_def get_content apply_batch_def bt_simps)
qed

lemma snapshot_failed_save:
  assumes "healthy (sd_db st)" "snapshot_save db payload st = (Inl e, st')"
  shows "snapshot_load db st' = snapshot_load db st"
  using assms write_error [OF assms(1)] write_cfs
  by (auto simp: snapshot_save_def snapshot_load_def get_content split: if_splits prod.splits sum.splits)

end

section \<open>Properties\<close>

text \<open>
  Concrete values: the wire format of log ids, votes as one integer, and entries without a
  command.
\<close>

definition blank_postcard :: "raft_entry postcard" where
  "blank_postcard =
     \<lparr>to_stdvec = (\<lambda>e. if en_payload e = Blank then to_stdvec pc_log_id (en_log_id e) else None),
      take_from_bytes = (\<lambda>bs. map_option (\<lambda>(l, rest). (\<lparr>en_log_id = l, en_payload = Blank\<rparr>, rest)) (take_from_bytes pc_log_id bs))\<rparr>"

lemma blank_postcard_ok: "postcard_ok blank_postcard"
  using pc_log_id_ok by (auto simp: postcard_ok_def blank_postcard_def split: if_splits)

definition demo_codec :: "u64 log_store_codec" where
  "demo_codec = openraft_log_codec blank_postcard pc_u64 pc_log_id"

lemmas demo_codec_ok = openraft_log_codec_ok [OF blank_postcard_ok pc_scalars_ok(1) pc_log_id_ok, folded demo_codec_def]

definition demo_store :: "key_space \<Rightarrow> mem_db log_store" where
  "demo_store ks = \<lparr>lo_db = mem_open [''log'', ''meta''], lo_log_cf = ''log'', lo_meta_cf = ''meta'', lo_keys = ks,
     lo_active_write_version = BASELINE_WRITE_VERSION\<rparr>"

lemma demo_store_opens: "log_store_open mem_rocksdb (mem_open [''log'', ''meta'']) ''log'' ''meta'' ks = Inr (demo_store ks)"
  by (simp add: log_store_open_def mem_rocksdb_def mem_open_def demo_store_def)

definition demo_ops :: "u64 ls_op list" where
  "demo_ops = [LoVote 3, LoAppend [\<lparr>en_log_id = LogId 1 1 1, en_payload = Blank\<rparr>], LoCommitted (Some (LogId 1 1 1))]"

lemmas demo_log_simps = demo_store_def demo_codec_def openraft_log_codec_def default_log_store_codec_def blank_postcard_def
  save_vote_def save_committed_def ls_append_def ls_write_def put_record_def encode_record_def encode_postcard_def encode_entry_def
  pc_log_id_def pc_u64_def pc_iso_def pc_pair_def pc_varint_def mem_rocksdb_def mem_open_def mem_write_def Let_def

text \<open>
  C27. The RocksDB log store keeps what Raft relies on: after any run of votes, appends,
  truncations, purges and commit marks every read answers from the log they make, and after a
  crash at any point it opens again in the state after all of them but some of the last
  commit marks. A vote, an entry, a truncation or a purge that was acknowledged is not lost.
  The two column families must differ: a flat key space puts its meta keys among the log keys.
\<close>

theorem log_store_crash_safe:
  assumes "rocksdb_store db content durable crash healthy" "ls_codec_ok valid lc" "healthy d"
    and "content d log_cf = []" "content d meta_cf = []" "log_cf \<noteq> meta_cf" "durable d = [content d]"
    and "log_store_open db d log_cf meta_cf ks = Inr st0" "list_all (ls_allowed valid) ops"
    and "ls_exec_all db lc ops st0 = Some st" "crash (lo_db st) d'"
  shows "ls_represents db lc st (fold ls_spec_exec ops ls_spec_empty)
    \<and> (\<exists>pre post st'. ops = pre @ post \<and> list_all (\<lambda>op. \<not> ls_synced op) post
         \<and> log_store_open db d' log_cf meta_cf ks = Inr st' \<and> ls_represents db lc st' (fold ls_spec_exec pre ls_spec_empty))"
proof -
  note R = rocksdb_store.log_store_open_ok [OF assms(1)] rocksdb_store.ls_run_ok [OF assms(1)] rocksdb_store.ls_ok_represents [OF assms(1)]
  have cfs: "rk_has_cf db log_cf d" "rk_has_cf db meta_cf d" using assms(8) by (auto simp: log_store_open_def split: if_splits)
  have "ls_stored lc ks log_cf meta_cf (content d) ls_spec_empty" using assms(4,5) by (rule ls_stored_empty)
  from R(1) [OF assms(3) cfs assms(6) this] assms(8) have st0: "lo_db st0 = d" "lo_keys st0 = ks" "lo_log_cf st0 = log_cf" "lo_meta_cf st0 = meta_cf"
      "ls_ok lc content st0 ls_spec_empty" by auto
  have run: "healthy (lo_db st)" "ls_ok lc content st (fold ls_spec_exec ops ls_spec_empty)"
      "\<And>c. c \<in> set (durable (lo_db st)) \<Longrightarrow> ls_stored_upto lc st0 ops ls_spec_empty c"
    using R(2) [OF assms(2) _ st0(5) _ assms(9,10)] assms(3,7) st0(1) by auto
  from rocksdb_store.crash_content [OF assms(1) run(1) assms(11)] have d': "healthy d'" "content d' \<in> set (durable (lo_db st))" by auto
  obtain pre post where pp: "ops = pre @ post" "list_all (\<lambda>op. \<not> ls_synced op) post"
      "ls_stored lc ks log_cf meta_cf (content d') (fold ls_spec_exec pre ls_spec_empty)"
    using run(3) [OF d'(2)] st0 by (auto simp: ls_stored_upto_def)
  have cfs': "rk_has_cf db log_cf d'" "rk_has_cf db meta_cf d'"
    using cfs rocksdb_store.ls_exec_all_cfs [OF assms(1,10)] rocksdb_store.crash_cfs [OF assms(1,11)] st0(1) by simp_all
  from R(1) [OF d'(1) cfs' assms(6) pp(3)] obtain st' where "log_store_open db d' log_cf meta_cf ks = Inr st'" "lo_db st' = d'"
      "ls_ok lc content st' (fold ls_spec_exec pre ls_spec_empty)" by blast
  with R(3) [of st' lc] R(3) [OF run(1,2)] d'(1) pp(1,2) show ?thesis by blast
qed

theorem log_store_crash_safe_witness:
  "\<exists>d' pre post st'. demo_ops = pre @ post \<and> list_all (\<lambda>op. \<not> ls_synced op) post
     \<and> log_store_open mem_rocksdb d' ''log'' ''meta'' Flat = Inr st' \<and> ls_represents mem_rocksdb demo_codec st' (fold ls_spec_exec pre ls_spec_empty)"
proof -
  obtain st where st: "ls_exec_all mem_rocksdb demo_codec demo_ops (demo_store Flat) = Some st" "md_durable (lo_db st) \<noteq> []"
    by (simp add: demo_log_simps demo_ops_def)
  from st(2) have "hd (md_durable (lo_db st)) \<in> set (md_durable (lo_db st))" by (rule hd_in_set)
  then obtain d' where "mem_crash (lo_db st) d'" unfolding mem_crash_def by blast
  moreover have "list_all (ls_allowed (\<lambda>e. payload_valid (en_payload e))) demo_ops" by (simp add: demo_ops_def)
  moreover have "md_content (mem_open [''log'', ''meta'']) cf = []" "md_durable (mem_open [''log'', ''meta'']) = [md_content (mem_open [''log'', ''meta''])]" for cf
    by (simp_all add: mem_open_def)
  ultimately show ?thesis
    using log_store_crash_safe [OF mem.rocksdb_store_axioms demo_codec_ok mem_open_ok _ _ _ _ demo_store_opens _ st(1)] by simp blast
qed

text \<open>
  C28. Raft groups that share one database do not see each other: whatever one group's store
  does, whether it succeeds or fails, the store of a group with another id reads exactly what
  it read before, and a truncation or a purge up to the largest index stays inside its group.
\<close>

theorem groups_isolated:
  assumes "rocksdb_store db content durable crash healthy" "healthy (lo_db st)"
    and "lo_keys st = GroupPrefixed g" "lo_keys other = GroupPrefixed g'" "g \<noteq> g'"
    and "lo_db other = lo_db st" "lo_log_cf other = lo_log_cf st" "lo_meta_cf other = lo_meta_cf st"
    and "ls_ok lc' content other s" "ls_exec db lc op st = (r, st')"
  shows "ls_represents db lc' (other\<lparr>lo_db := lo_db st'\<rparr>) s"
proof -
  have cf: "lo_log_cf st \<noteq> lo_meta_cf st" using assms(7-9) by (simp add: ls_ok_def)
  have sep: "separate (lo_keys st) (lo_keys other)" using assms(3-5) by (simp add: separate_def)
  have "healthy (lo_db st') \<and> ls_ok lc' content (other\<lparr>lo_db := lo_db st'\<rparr>) s"
  proof (cases "lo_db st' = lo_db st")
    case True
    with assms(2,6,9) show ?thesis by (simp add: ls_ok_def)
  next
    case False
    with assms(10) have "\<not> (\<exists>v. op = LoVersion v)" by (auto simp: with_active_write_version_def)
    with False assms(10) obtain b x where b: "ls_batch lc op st = Inr b" "rk_write db (ls_synced op) b (lo_db st) = (x, lo_db st')"
      by (auto simp: ls_exec_batch ls_write_def split: sum.splits prod.splits)
    show ?thesis
    proof (cases x)
      case (Inl e)
      with rocksdb_store.write_error [OF assms(1,2)] b(2) assms(6,9) show ?thesis by (auto simp: ls_ok_def)
    next
      case (Inr u)
      with rocksdb_store.write_ok [OF assms(1,2)] b(2) have w: "healthy (lo_db st')" "content (lo_db st') = apply_batch b (content (lo_db st))" by auto
      have "ls_stored lc' (lo_keys other) (lo_log_cf st) (lo_meta_cf st) (apply_batch b (content (lo_db st))) s"
        using local_batch_frame [where c = "content (lo_db st)" and lc = lc' and s = s, OF sep cf ls_batch_local [OF b(1)] rocksdb_store.content_wf [OF assms(1,2)]] assms(6-9) by (simp add: ls_ok_def)
      with w assms(7-9) show ?thesis by (simp add: ls_ok_def)
    qed
  qed
  then show ?thesis by (intro rocksdb_store.ls_ok_represents [OF assms(1)]) simp_all
qed

theorem groups_isolated_witness:
  "\<exists>st. ls_exec mem_rocksdb demo_codec (LoTruncate None) (demo_store (GroupPrefixed 1)) = (Inr (), st)
     \<and> ls_represents mem_rocksdb demo_codec ((demo_store (GroupPrefixed 2))\<lparr>lo_db := lo_db st\<rparr>) ls_spec_empty"
proof -
  obtain st where st: "ls_exec mem_rocksdb demo_codec (LoTruncate None) (demo_store (GroupPrefixed 1)) = (Inr (), st)"
    by (simp add: truncate_after_def demo_log_simps)
  have "ls_ok demo_codec md_content (demo_store (GroupPrefixed 2)) ls_spec_empty"
    by (simp add: ls_ok_def demo_store_def mem_open_def ls_stored_empty BASELINE_WRITE_VERSION_def in_readable_range_def
        MIN_READABLE_VERSION_def MAX_READABLE_VERSION_def)
  with st groups_isolated [OF mem.rocksdb_store_axioms, where st = "demo_store (GroupPrefixed 1)" and other = "demo_store (GroupPrefixed 2)"
      and g = 1 and g' = 2 and lc' = demo_codec and s = ls_spec_empty, OF _ _ _ _ _ _ _ _ st]
  show ?thesis by (auto simp: demo_store_def)
qed

text \<open>
  A restarted node never writes an older format than its log holds: the scan of the log
  succeeds, the version recovered from it (and from a readable snapshot) is readable, and it
  is at least the version of every record in the log.
\<close>

theorem recovered_version_covers_log:
  assumes "rocksdb_store db content durable crash healthy" "healthy (lo_db st)" "ls_ok lc content st s"
    and "\<And>b. snapshot_byte = Some b \<Longrightarrow> in_readable_range b"
  shows "\<exists>h v. highest_log_record_version db st = Inr h \<and> recover_active_write_version snapshot_byte h = Inr v \<and> in_readable_range v
    \<and> (\<forall>e \<in> set (content (lo_db st) (lo_log_cf st)). in_region (lo_keys st) (fst e) \<longrightarrow> hd (snd e) \<le> v)"
proof -
  let ?m = "content (lo_db st) (lo_log_cf st)"
  have readable: "snd e \<noteq> [] \<and> in_readable_range (hd (snd e))" if "e \<in> set ?m" "in_region (lo_keys st) (fst e)" for e
    using stored_record_readable [OF _ that] assms(3) by (auto simp: ls_ok_def ls_stored_def)
  obtain h where h: "highest_log_record_version db st = Inr h"
      "\<forall>e \<in> set ?m. in_region (lo_keys st) (fst e) \<and> snd e \<noteq> [] \<longrightarrow> (\<exists>m. h = Some m \<and> hd (snd e) \<le> m)"
      "\<forall>m. h = Some m \<longrightarrow> (\<exists>e \<in> set ?m. in_region (lo_keys st) (fst e) \<and> snd e \<noteq> [] \<and> hd (snd e) = m)"
    using rocksdb_store.highest_version_ok [OF assms(1,2)] by (elim exE conjE)
  have hr: "in_readable_range m" if "h = Some m" for m using h(3) that readable by auto
  define v where "v = max (max BASELINE_WRITE_VERSION (case snapshot_byte of None \<Rightarrow> BASELINE_WRITE_VERSION | Some b \<Rightarrow> b))
      (case h of None \<Rightarrow> BASELINE_WRITE_VERSION | Some b \<Rightarrow> b)"
  have "recover_active_write_version snapshot_byte h = Inr v \<and> in_readable_range v"
    using assms(4) hr by (cases snapshot_byte; cases h) (auto simp: recover_active_write_version_def v_def in_readable_range_def version_defs not_less max_def map_filter_simps)
  moreover have "hd (snd e) \<le> v" if e: "e \<in> set ?m" "in_region (lo_keys st) (fst e)" for e
  proof -
    obtain m where "h = Some m" "hd (snd e) \<le> m" using h(2) readable [OF e] e by blast
    then show ?thesis by (simp add: v_def le_max_iff_disj)
  qed
  ultimately show ?thesis using h(1) by blast
qed

theorem recovered_version_covers_log_witness:
  "\<exists>h v. highest_log_record_version mem_rocksdb (demo_store Flat) = Inr h \<and> recover_active_write_version (Some 5) h = Inr v \<and> in_readable_range v"
proof -
  have "ls_ok demo_codec md_content (demo_store Flat) ls_spec_empty"
    by (simp add: ls_ok_def demo_store_def mem_open_def ls_stored_empty in_readable_range_def version_defs)
  moreover have "mem_ok (lo_db (demo_store Flat))" by (simp add: demo_store_def)
  ultimately show ?thesis
    using recovered_version_covers_log [OF mem.rocksdb_store_axioms, of "demo_store Flat" demo_codec ls_spec_empty "Some 5"]
    by (auto simp: in_readable_range_def version_defs)
qed

text \<open>
  Only the log is scanned: a vote that was written in a newer format leaves no trace in the
  recovered version.
\<close>

lemma recovered_version_below_vote:
  "\<exists>st. ls_exec_all mem_rocksdb demo_codec [LoVersion 5, LoVote 3] (demo_store Flat) = Some st
     \<and> (\<exists>v body. bt_get (md_content (lo_db st) ''meta'') (meta_key Flat LabelVote) = Some (v # body) \<and> v = 5)
     \<and> highest_log_record_version mem_rocksdb st = Inr None \<and> recover_active_write_version None None = Inr 4"
  by (simp add: demo_log_simps with_active_write_version_def frame_with_version_def highest_log_record_version_def log_range_def
      recover_active_write_version_def version_defs apply_batch_def map_filter_simps bt_get_def)

end
