(* ===== verification/Peer_Network.thy ===== *)
theory Peer_Network
  imports Raft_Driver Postcard
begin

text \<open>
  The peer transport of the openraft deployment
  (\<open>tsoracle-standalone/src/drivers/openraft/network.rs\<close>): the format version on every
  message, the pool of connections with its eviction, the client side of the Raft calls, the
  service that hands them to the local Raft, and the transfer of a snapshot in chunks. tonic
  is a record of its calls (\<open>peer_wire\<close>), openraft's answer to a message a function on its
  state; requests and responses are type variables with their postcard functions. Texts of
  errors are left out.
\<close>

section \<open>Versions on the wire\<close>

definition stamp :: "u8 \<Rightarrow> u32" where
  "stamp version = ucast version"

datatype version_refusal = OutsideReadableRange u32

definition readable_version :: "u32 \<Rightarrow> (version_refusal, u8) result" where
  "readable_version format_version =
     and_then
       (if format_version = 0 then Inr BASELINE_WRITE_VERSION
        else if unat format_version < 256 then Inr (ucast format_version)
        else Inl (OutsideReadableRange format_version))
       (\<lambda>version. if \<not> in_readable_range version then Inl (OutsideReadableRange (ucast version)) else Inr version)"

text \<open>\<open>postcard::from_bytes\<close>, which drops what follows the value.\<close>

definition from_bytes :: "'a postcard \<Rightarrow> bytes \<Rightarrow> 'a option" where
  "from_bytes pc bs = map_option fst (take_from_bytes pc bs)"

record raft_message =
  rmsg_payload :: bytes
  rmsg_format_version :: u32

record snapshot_header =
  sh_vote :: bytes
  sh_meta :: bytes
  sh_format_version :: u32

datatype chunk_kind = ChunkHeader snapshot_header | ChunkData bytes

type_synonym snapshot_chunk = "chunk_kind option"

definition SNAPSHOT_CHUNK_SIZE :: nat where "SNAPSHOT_CHUNK_SIZE = 1024 * 1024"
definition MAX_SNAPSHOT_BYTES :: nat where "MAX_SNAPSHOT_BYTES = 64 * 1024 * 1024"
definition MAX_PEER_MESSAGE_BYTES :: nat where "MAX_PEER_MESSAGE_BYTES = SNAPSHOT_CHUNK_SIZE + 256 * 1024"

section \<open>Connections\<close>

datatype net_cause = CauseStatus status_code | CauseTimedOut | CauseVersion version_refusal | CausePostcard | CauseConnect

datatype rpc_error = RpcNetwork net_cause | RpcUnreachable net_cause | RpcTimeout net_cause

type_synonym 'c pool = "u64 \<times> str \<Rightarrow> 'c option"

definition evict :: "'c pool \<Rightarrow> u64 \<Rightarrow> str \<Rightarrow> 'c pool" where
  "evict p target addr = p((target, addr) := None)"

text \<open>What a call under a deadline comes to.\<close>

datatype 'b call_outcome = Answered 'b | Refused status_code | Elapsed

definition unary_call :: "'c pool \<Rightarrow> u64 \<Rightarrow> str \<Rightarrow> 'b call_outcome \<Rightarrow> (rpc_error, 'b) result \<times> 'c pool" where
  "unary_call p target addr call =
     (case call of
        Answered resp \<Rightarrow> (Inr resp, p)
      | Refused status \<Rightarrow> (Inl (RpcNetwork (CauseStatus status)), evict p target addr)
      | Elapsed \<Rightarrow> (Inl (RpcUnreachable CauseTimedOut), evict p target addr))"

record peer_factory =
  pf_tls :: bool
  pf_active_write_version :: u8

record peer_network =
  pn_target :: u64
  pn_addr :: str
  pn_tls :: bool
  pn_active_write_version :: u8

definition new_client :: "peer_factory \<Rightarrow> u64 \<Rightarrow> openraft_peer \<Rightarrow> peer_network" where
  "new_client f target node =
     \<lparr>pn_target = target, pn_addr = op_addr node, pn_tls = pf_tls f, pn_active_write_version = pf_active_write_version f\<rparr>"

text \<open>tonic: dialling a peer and its five calls, on a state of the rest of the world.\<close>

record ('c, 'w) peer_wire =
  pw_dial :: "bool \<Rightarrow> str \<Rightarrow> 'c option"
  pw_append_entries :: "'c \<Rightarrow> raft_message \<Rightarrow> 'w \<Rightarrow> raft_message call_outcome \<times> 'w"
  pw_vote :: "'c \<Rightarrow> raft_message \<Rightarrow> 'w \<Rightarrow> raft_message call_outcome \<times> 'w"
  pw_transfer_leader :: "'c \<Rightarrow> raft_message \<Rightarrow> 'w \<Rightarrow> raft_message call_outcome \<times> 'w"
  pw_capabilities :: "'c \<Rightarrow> raft_message \<Rightarrow> 'w \<Rightarrow> raft_message call_outcome \<times> 'w"
  pw_snapshot :: "'c \<Rightarrow> snapshot_chunk list \<Rightarrow> 'w \<Rightarrow> (status_code, raft_message) result option \<times> 'w"

definition connect_client :: "('c, 'w) peer_wire \<Rightarrow> peer_network \<Rightarrow> 'c pool \<Rightarrow> (rpc_error, 'c) result \<times> 'c pool" where
  "connect_client wire n p =
     (case p (pn_target n, pn_addr n) of
        Some c \<Rightarrow> (Inr c, p)
      | None \<Rightarrow>
          (case pw_dial wire (pn_tls n) (pn_addr n) of
             None \<Rightarrow> (Inl (RpcUnreachable CauseConnect), p)
           | Some c \<Rightarrow> (Inr c, p((pn_target n, pn_addr n) \<mapsto> c))))"

section \<open>Calls\<close>

text \<open>The part that the four calls share: connect, encode, send under the deadline.\<close>

definition send_under_deadline ::
  "('c, 'w) peer_wire \<Rightarrow> ('c \<Rightarrow> raft_message \<Rightarrow> 'w \<Rightarrow> raft_message call_outcome \<times> 'w) \<Rightarrow> bytes option \<Rightarrow> peer_network
     \<Rightarrow> 'c pool \<times> 'w \<Rightarrow> (rpc_error, raft_message) result \<times> 'c pool \<times> 'w" where
  "send_under_deadline wire send body n s =
     (case connect_client wire n (fst s) of
        (Inl e, p) \<Rightarrow> (Inl e, p, snd s)
      | (Inr c, p) \<Rightarrow>
          (case body of
             None \<Rightarrow> (Inl (RpcNetwork CausePostcard), p, snd s)
           | Some payload \<Rightarrow>
               let (call, w) = send c \<lparr>rmsg_payload = payload, rmsg_format_version = stamp (pn_active_write_version n)\<rparr> (snd s);
                   (reply, p') = unary_call p (pn_target n) (pn_addr n) call
               in (reply, p', w)))"

definition decode_reply :: "bool \<Rightarrow> 'r postcard \<Rightarrow> (rpc_error, raft_message) result \<Rightarrow> (rpc_error, 'r) result" where
  "decode_reply check pr reply =
     and_then reply (\<lambda>m.
     and_then (if check then map_err (RpcNetwork \<circ> CauseVersion) (readable_version (rmsg_format_version m)) else Inr 0) (\<lambda>_.
       case from_bytes pr (rmsg_payload m) of None \<Rightarrow> Inl (RpcNetwork CausePostcard) | Some body \<Rightarrow> Inr body))"

definition append_entries_rpc ::
  "('c, 'w) peer_wire \<Rightarrow> 'q postcard \<Rightarrow> 'r postcard \<Rightarrow> 'q \<Rightarrow> peer_network \<Rightarrow> 'c pool \<times> 'w \<Rightarrow> (rpc_error, 'r) result \<times> 'c pool \<times> 'w" where
  "append_entries_rpc wire pq pr rpc n s =
     apfst (decode_reply True pr) (send_under_deadline wire (pw_append_entries wire) (to_stdvec pq rpc) n s)"

definition vote_rpc ::
  "('c, 'w) peer_wire \<Rightarrow> 'q postcard \<Rightarrow> 'r postcard \<Rightarrow> 'q \<Rightarrow> peer_network \<Rightarrow> 'c pool \<times> 'w \<Rightarrow> (rpc_error, 'r) result \<times> 'c pool \<times> 'w" where
  "vote_rpc wire pq pr rpc n s =
     apfst (decode_reply True pr) (send_under_deadline wire (pw_vote wire) (to_stdvec pq rpc) n s)"

text \<open>The reply to a transfer is decoded whatever its version.\<close>

definition transfer_leader_rpc ::
  "('c, 'w) peer_wire \<Rightarrow> 'q postcard \<Rightarrow> 'r postcard \<Rightarrow> 'q \<Rightarrow> peer_network \<Rightarrow> 'c pool \<times> 'w \<Rightarrow> (rpc_error, 'r) result \<times> 'c pool \<times> 'w" where
  "transfer_leader_rpc wire pq pr rpc n s =
     apfst (decode_reply False pr) (send_under_deadline wire (pw_transfer_leader wire) (to_stdvec pq rpc) n s)"

definition capabilities_rpc ::
  "('c, 'w) peer_wire \<Rightarrow> node_capabilities postcard \<Rightarrow> peer_network \<Rightarrow> 'c pool \<times> 'w \<Rightarrow> (rpc_error, node_capabilities) result \<times> 'c pool \<times> 'w" where
  "capabilities_rpc wire pc n s = apfst (decode_reply False pc) (send_under_deadline wire (pw_capabilities wire) (Some []) n s)"

text \<open>\<open>PeerCapabilitySource::query\<close>.\<close>

definition capability_query ::
  "('c, 'w) peer_wire \<Rightarrow> node_capabilities postcard \<Rightarrow> bool \<Rightarrow> u64 \<Rightarrow> openraft_peer \<Rightarrow> 'c pool \<times> 'w
     \<Rightarrow> (rpc_error, node_capabilities) result \<times> 'c pool \<times> 'w" where
  "capability_query wire pc tls node_id member =
     capabilities_rpc wire pc
       \<lparr>pn_target = node_id, pn_addr = op_addr member, pn_tls = tls, pn_active_write_version = BASELINE_WRITE_VERSION\<rparr>"

section \<open>Snapshots\<close>

text \<open>\<open>slice::chunks\<close>.\<close>

function chunks :: "nat \<Rightarrow> 'a list \<Rightarrow> 'a list list" where
  "chunks n xs = (if n = 0 \<or> xs = [] then [] else take n xs # chunks n (drop n xs))"
  by pat_completeness auto
termination by (relation "measure (length \<circ> snd)") auto

declare chunks.simps [simp del]

definition snapshot_stream :: "u8 \<Rightarrow> bytes \<Rightarrow> bytes \<Rightarrow> bytes \<Rightarrow> snapshot_chunk list" where
  "snapshot_stream version vote_bytes meta_bytes data_bytes =
     Some (ChunkHeader \<lparr>sh_vote = vote_bytes, sh_meta = meta_bytes, sh_format_version = stamp version\<rparr>)
     # map (\<lambda>c. Some (ChunkData c)) (chunks SNAPSHOT_CHUNK_SIZE data_bytes)"

datatype streaming_error = StreamNetwork net_cause | StreamUnreachable net_cause | StreamTimeout net_cause | StreamClosed

fun streaming_of_rpc :: "rpc_error \<Rightarrow> streaming_error" where
  "streaming_of_rpc (RpcNetwork c) = StreamNetwork c"
| "streaming_of_rpc (RpcUnreachable c) = StreamUnreachable c"
| "streaming_of_rpc (RpcTimeout c) = StreamTimeout c"

text \<open>No outcome of the call means that the cancellation came first.\<close>

definition full_snapshot ::
  "('c, 'w) peer_wire \<Rightarrow> 'v postcard \<Rightarrow> 'm postcard \<Rightarrow> 'r postcard \<Rightarrow> 'v \<Rightarrow> 'm \<Rightarrow> bytes \<Rightarrow> peer_network \<Rightarrow> 'c pool \<times> 'w
     \<Rightarrow> (streaming_error, 'r) result \<times> 'c pool \<times> 'w" where
  "full_snapshot wire pv pm pr vote meta data n s =
     (case (to_stdvec pv vote, to_stdvec pm meta) of
        (Some vote_bytes, Some meta_bytes) \<Rightarrow>
          (case connect_client wire n (fst s) of
             (Inl e, p) \<Rightarrow> (Inl (streaming_of_rpc e), p, snd s)
           | (Inr c, p) \<Rightarrow>
               (case pw_snapshot wire c (snapshot_stream (pn_active_write_version n) vote_bytes meta_bytes data) (snd s) of
                  (None, w) \<Rightarrow> (Inl StreamClosed, p, w)
                | (Some (Inl status), w) \<Rightarrow> (Inl (StreamNetwork (CauseStatus status)), evict p (pn_target n) (pn_addr n), w)
                | (Some (Inr m), w) \<Rightarrow> (map_err streaming_of_rpc (decode_reply True pr (Inr m)), p, w)))
      | _ \<Rightarrow> (Inl (StreamNetwork CausePostcard), s))"

record ('v, 'm) assembled_snapshot =
  as_vote :: 'v
  as_meta :: 'm
  as_data :: bytes

text \<open>The loop over the chunks after the header, with the bytes gathered so far.\<close>

fun reassemble_data :: "nat \<Rightarrow> bytes \<Rightarrow> (status_code, snapshot_chunk) result list \<Rightarrow> (status_code, bytes) result" where
  "reassemble_data max_bytes data [] = Inr data"
| "reassemble_data max_bytes data (Inl e # stream) = Inl Internal"
| "reassemble_data max_bytes data (Inr (Some (ChunkData bs)) # stream) =
     (if length data + length bs > max_bytes then Inl ResourceExhausted else reassemble_data max_bytes (data @ bs) stream)"
| "reassemble_data max_bytes data (Inr (Some (ChunkHeader h)) # stream) = Inl InvalidArgument"
| "reassemble_data max_bytes data (Inr None # stream) = Inl InvalidArgument"

fun reassemble_snapshot ::
  "'v postcard \<Rightarrow> 'm postcard \<Rightarrow> (status_code, snapshot_chunk) result list \<Rightarrow> nat \<Rightarrow> (status_code, ('v, 'm) assembled_snapshot) result" where
  "reassemble_snapshot pv pm [] max_bytes = Inl InvalidArgument"
| "reassemble_snapshot pv pm (Inl e # stream) max_bytes = Inl Internal"
| "reassemble_snapshot pv pm (Inr None # stream) max_bytes = Inl InvalidArgument"
| "reassemble_snapshot pv pm (Inr (Some (ChunkData bs)) # stream) max_bytes = Inl InvalidArgument"
| "reassemble_snapshot pv pm (Inr (Some (ChunkHeader h)) # stream) max_bytes =
     and_then (map_err (\<lambda>_. InvalidArgument) (readable_version (sh_format_version h))) (\<lambda>_.
       case from_bytes pv (sh_vote h) of
         None \<Rightarrow> Inl InvalidArgument
       | Some vote \<Rightarrow>
           (case from_bytes pm (sh_meta h) of
              None \<Rightarrow> Inl InvalidArgument
            | Some meta \<Rightarrow>
                and_then (reassemble_data max_bytes [] stream) (\<lambda>data.
                  Inr \<lparr>as_vote = vote, as_meta = meta, as_data = data\<rparr>)))"

section \<open>The peer service\<close>

text \<open>
  \<open>handle\<close> is what the local Raft does with a request; \<open>active\<close> reads the write version of the
  node at the time of the reply.
\<close>

definition encode_reply :: "'r postcard \<Rightarrow> u8 \<Rightarrow> 'r \<Rightarrow> (status_code, raft_message) result" where
  "encode_reply pr version resp =
     (case to_stdvec pr resp of
        None \<Rightarrow> Inl Internal
      | Some payload \<Rightarrow> Inr \<lparr>rmsg_payload = payload, rmsg_format_version = stamp version\<rparr>)"

definition serve_message ::
  "'q postcard \<Rightarrow> 'r postcard \<Rightarrow> ('s \<Rightarrow> u8) \<Rightarrow> ('q \<Rightarrow> 's \<Rightarrow> (unit, 'r) result \<times> 's) \<Rightarrow> raft_message \<Rightarrow> 's
     \<Rightarrow> (status_code, raft_message) result \<times> 's" where
  "serve_message pq pr active handle message s =
     (case readable_version (rmsg_format_version message) of
        Inl _ \<Rightarrow> (Inl InvalidArgument, s)
      | Inr _ \<Rightarrow>
          (case from_bytes pq (rmsg_payload message) of
             None \<Rightarrow> (Inl InvalidArgument, s)
           | Some body \<Rightarrow>
               (case handle body s of
                  (Inl _, s') \<Rightarrow> (Inl Internal, s')
                | (Inr resp, s') \<Rightarrow> (encode_reply pr (active s') resp, s'))))"

text \<open>A stream that outlives the wall-clock limit is dropped.\<close>

definition serve_snapshot ::
  "'v postcard \<Rightarrow> 'm postcard \<Rightarrow> 'r postcard \<Rightarrow> ('s \<Rightarrow> u8) \<Rightarrow> ('v \<Rightarrow> 'm \<Rightarrow> bytes \<Rightarrow> 's \<Rightarrow> (unit, 'r) result \<times> 's)
     \<Rightarrow> bool \<Rightarrow> (status_code, snapshot_chunk) result list \<Rightarrow> 's \<Rightarrow> (status_code, raft_message) result \<times> 's" where
  "serve_snapshot pv pm pr active install timed_out stream s =
     (if timed_out then (Inl DeadlineExceeded, s)
      else case reassemble_snapshot pv pm stream MAX_SNAPSHOT_BYTES of
        Inl e \<Rightarrow> (Inl e, s)
      | Inr a \<Rightarrow>
          (case install (as_vote a) (as_meta a) (as_data a) s of
             (Inl _, s') \<Rightarrow> (Inl Internal, s')
           | (Inr resp, s') \<Rightarrow> (encode_reply pr (active s') resp, s')))"

definition capabilities_response :: "node_capabilities postcard \<Rightarrow> u8 \<Rightarrow> bytes" where
  "capabilities_response pc active_write_version =
     (case to_stdvec pc (local_capabilities active_write_version) of None \<Rightarrow> [] | Some b \<Rightarrow> b)"

definition serve_capabilities :: "node_capabilities postcard \<Rightarrow> ('s \<Rightarrow> u8) \<Rightarrow> raft_message \<Rightarrow> 's \<Rightarrow> (status_code, raft_message) result \<times> 's" where
  "serve_capabilities pc active request s =
     (Inr \<lparr>rmsg_payload = capabilities_response pc (active s), rmsg_format_version = stamp (active s)\<rparr>, s)"

section \<open>Versions and bodies\<close>

lemma unat_stamp: "unat (stamp v) = unat v"
  using unat_u8_bound [of v] by (simp add: stamp_def unsigned_ucast_eq take_bit_nat_eq_self)

lemma ucast_stamp: "ucast (stamp v) = v"
  using unat_u8_bound [of v] by (simp add: word_unat_eq_iff unsigned_ucast_eq unat_stamp take_bit_nat_eq_self)

lemma stamp_ucast: "unat f < 256 \<Longrightarrow> stamp (ucast f) = f"
  by (simp add: word_unat_eq_iff unat_stamp unsigned_ucast_eq take_bit_nat_eq_self)

lemma readable_stamp: "in_readable_range v \<Longrightarrow> readable_version (stamp v) = Inr v"
proof -
  assume v: "in_readable_range v"
  note unat_u8_bound [of v]
  moreover have "stamp v \<noteq> 0"
    using v unat_stamp [of v] by (auto simp: in_readable_range_def version_defs word_le_nat_alt)
  ultimately show ?thesis using v by (simp add: readable_version_def unat_stamp ucast_stamp)
qed

lemma readable_version_Inr: "readable_version f = Inr v \<Longrightarrow> in_readable_range v \<and> (f = 0 \<and> v = BASELINE_WRITE_VERSION \<or> f = stamp v)"
  by (auto simp: readable_version_def and_then_Inr_iff stamp_ucast split: if_splits)

lemma from_bytes_encoded: "postcard_ok pc \<Longrightarrow> to_stdvec pc x = Some b \<Longrightarrow> from_bytes pc b = Some x"
  using postcard_okD [of pc x b "[]"] by (simp add: from_bytes_def)

section \<open>Chunks\<close>

lemma concat_chunks: "0 < n \<Longrightarrow> concat (chunks n xs) = xs"
proof (induction n xs rule: chunks.induct)
  case (1 n xs)
  then show ?case by (subst chunks.simps) auto
qed

lemma chunks_length: "c \<in> set (chunks n xs) \<Longrightarrow> 0 < length c \<and> length c \<le> n"
proof (induction n xs rule: chunks.induct)
  case (1 n xs)
  from 1(2) show ?case by (subst (asm) chunks.simps) (use 1(1) in \<open>auto split: if_splits\<close>)
qed

text \<open>Which streams the reassembly accepts, and with what.\<close>

lemma reassemble_data_iff:
  "length buf \<le> max_bytes \<Longrightarrow> reassemble_data max_bytes buf stream = Inr data \<longleftrightarrow>
     (\<exists>ds. stream = map (\<lambda>d. Inr (Some (ChunkData d))) ds \<and> data = buf @ concat ds \<and> length data \<le> max_bytes)"
proof (induction max_bytes buf stream rule: reassemble_data.induct)
  case (3 max_bytes buf bs stream)
  show ?case
  proof (cases "length buf + length bs > max_bytes")
    case True
    then show ?thesis by (auto simp: Cons_eq_map_conv)
  next
    case False
    with 3 show ?thesis by (auto simp: Cons_eq_map_conv)
  qed
qed (auto simp: Cons_eq_map_conv)

lemma reassemble_data_too_long:
  "length buf \<le> max_bytes \<Longrightarrow> length (buf @ concat ds) > max_bytes \<Longrightarrow>
     reassemble_data max_bytes buf (map (\<lambda>d. Inr (Some (ChunkData d))) ds) = Inl ResourceExhausted"
  by (induction ds arbitrary: buf) auto

section \<open>A connected peer\<close>

text \<open>
  A link that can be dialled and carries every call to the peer's service and its answer back,
  whatever the address it was dialled at and however large the message; the limits of the
  transport are its own.
\<close>

fun outcome_of :: "(status_code, 'b) result \<Rightarrow> 'b call_outcome" where
  "outcome_of (Inl e) = Refused e"
| "outcome_of (Inr b) = Answered b"

locale peer_link =
  fixes wire :: "('c, 'w) peer_wire"
    and appends vote transfer capabilities :: "raft_message \<Rightarrow> 'w \<Rightarrow> (status_code, raft_message) result \<times> 'w"
    and snapshot :: "(status_code, snapshot_chunk) result list \<Rightarrow> 'w \<Rightarrow> (status_code, raft_message) result \<times> 'w"
  assumes dials: "pw_dial wire tls addr \<noteq> None"
    and carries_append: "pw_append_entries wire c m w = apfst outcome_of (appends m w)"
    and carries_vote: "pw_vote wire c m w = apfst outcome_of (vote m w)"
    and carries_transfer: "pw_transfer_leader wire c m w = apfst outcome_of (transfer m w)"
    and carries_capabilities: "pw_capabilities wire c m w = apfst outcome_of (capabilities m w)"
    and carries_snapshot: "pw_snapshot wire c chs w = apfst Some (snapshot (map Inr chs) w)"
begin

lemma connected:
  obtains c p' where "connect_client wire n p = (Inr c, p')" "\<And>k. k \<noteq> (pn_target n, pn_addr n) \<Longrightarrow> p' k = p k"
  using dials [of "pn_tls n" "pn_addr n"] by (cases "p (pn_target n, pn_addr n)") (auto simp: connect_client_def split: option.splits)

end

text \<open>The service called in the same process.\<close>

definition direct_wire ::
  "(raft_message \<Rightarrow> 'w \<Rightarrow> (status_code, raft_message) result \<times> 'w) \<Rightarrow> (raft_message \<Rightarrow> 'w \<Rightarrow> (status_code, raft_message) result \<times> 'w)
     \<Rightarrow> (raft_message \<Rightarrow> 'w \<Rightarrow> (status_code, raft_message) result \<times> 'w) \<Rightarrow> (raft_message \<Rightarrow> 'w \<Rightarrow> (status_code, raft_message) result \<times> 'w)
     \<Rightarrow> ((status_code, snapshot_chunk) result list \<Rightarrow> 'w \<Rightarrow> (status_code, raft_message) result \<times> 'w) \<Rightarrow> (unit, 'w) peer_wire" where
  "direct_wire a v t cp sn =
     \<lparr>pw_dial = (\<lambda>_ _. Some ()), pw_append_entries = (\<lambda>_ m w. apfst outcome_of (a m w)), pw_vote = (\<lambda>_ m w. apfst outcome_of (v m w)),
      pw_transfer_leader = (\<lambda>_ m w. apfst outcome_of (t m w)), pw_capabilities = (\<lambda>_ m w. apfst outcome_of (cp m w)),
      pw_snapshot = (\<lambda>_ chs w. apfst Some (sn (map Inr chs) w))\<rparr>"

interpretation direct: peer_link
    "direct_wire (serve_message qa ra act app) (serve_message qv rv act vo) (serve_message qt rt act tr) (serve_capabilities pc act)
       (serve_snapshot pv pm pr act inst False)"
    "serve_message qa ra act app" "serve_message qv rv act vo" "serve_message qt rt act tr" "serve_capabilities pc act"
    "serve_snapshot pv pm pr act inst False"
  for qa ra qv rv qt rt act app vo tr pc pv pm pr inst
  by unfold_locales (simp_all add: direct_wire_def)

text \<open>A reply that was sent is read back by the caller.\<close>

definition reply_ok :: "'r postcard \<Rightarrow> ('w \<Rightarrow> u8) \<Rightarrow> bool" where
  "reply_ok pr active \<longleftrightarrow> postcard_ok pr \<and> pc_total pr \<and> (\<forall>w. in_readable_range (active w))"

lemma encode_reply_ok:
  assumes "reply_ok pr active"
  shows "\<exists>m. encode_reply pr (active w) r = Inr m \<and> decode_reply check pr (Inr m) = Inr r"
proof -
  obtain b where b: "to_stdvec pr r = Some b" using assms by (auto simp: reply_ok_def pc_total_def)
  then have "from_bytes pr b = Some r" using assms by (simp add: reply_ok_def from_bytes_encoded)
  moreover have "readable_version (stamp (active w)) = Inr (active w)" using assms by (simp add: reply_ok_def readable_stamp)
  ultimately show ?thesis using b by (simp add: encode_reply_def decode_reply_def)
qed

text \<open>What the caller learns of the peer's answer, on a connection that is kept or given up.\<close>

definition told :: "peer_network \<Rightarrow> 'c pool \<Rightarrow> (unit, 'r) result \<times> 'w \<Rightarrow> (rpc_error, 'r) result \<times> 'c pool \<times> 'w" where
  "told n p ans =
     (case ans of
        (Inl _, w) \<Rightarrow> (Inl (RpcNetwork (CauseStatus Internal)), evict p (pn_target n) (pn_addr n), w)
      | (Inr r, w) \<Rightarrow> (Inr r, p, w))"

lemma send_served:
  assumes "connect_client wire n p = (Inr c, p')" "\<And>m. send c m w = apfst outcome_of (serve_message pq pr active handle m w)"
    and "reply_ok pr active" "postcard_ok pq" "to_stdvec pq q = Some b" "in_readable_range (pn_active_write_version n)"
  shows "apfst (decode_reply check pr) (send_under_deadline wire send (Some b) n (p, w)) = told n p' (handle q w)"
proof (cases "handle q w")
  case (Pair ans w')
  note s = readable_stamp [OF assms(6)] from_bytes_encoded [OF assms(4,5)]
  show ?thesis
  proof (cases ans)
    case (Inl e)
    with Pair s assms(1,2) show ?thesis
      by (simp add: send_under_deadline_def serve_message_def unary_call_def told_def decode_reply_def)
  next
    case (Inr r)
    obtain m where "encode_reply pr (active w') r = Inr m" "decode_reply check pr (Inr m) = Inr r"
      using encode_reply_ok [OF assms(3)] by blast
    with Inr Pair s assms(1,2) show ?thesis
      by (simp add: send_under_deadline_def serve_message_def unary_call_def told_def)
  qed
qed

section \<open>Capabilities\<close>

text \<open>The wire format of the capabilities, three bytes.\<close>

definition pc_capabilities :: "node_capabilities postcard" where
  "pc_capabilities = pc_iso (\<lambda>c. (nc_min_readable_version c, nc_max_readable_version c, nc_active_write_version c))
     (\<lambda>(a, b, c). \<lparr>nc_min_readable_version = a, nc_max_readable_version = b, nc_active_write_version = c\<rparr>)
     (pc_pair pc_u8 (pc_pair pc_u8 pc_u8))"

lemma pc_capabilities_ok: "postcard_ok pc_capabilities" "pc_total pc_capabilities"
proof -
  have "postcard_ok (pc_pair pc_u8 (pc_pair pc_u8 pc_u8))" by (intro pc_pair_ok pc_u8_ok)
  then show "postcard_ok pc_capabilities" unfolding pc_capabilities_def by (rule pc_iso_ok) simp
  show "pc_total pc_capabilities"
    unfolding pc_capabilities_def by (intro pc_iso_total pc_pair_total pc_u8_ok)
qed

text \<open>The activation gate learns exactly what the member supports, whatever version it writes.\<close>

lemma capability_query_exact:
  assumes "peer_link wire a v t (serve_capabilities pc active) sn" "postcard_ok pc" "pc_total pc"
  shows "\<exists>p'. capability_query wire pc tls node_id member (p, w) = (Inr (local_capabilities (active w)), p', w)"
proof -
  let ?n = "\<lparr>pn_target = node_id, pn_addr = op_addr member, pn_tls = tls, pn_active_write_version = BASELINE_WRITE_VERSION\<rparr>"
  obtain c p' where c: "connect_client wire ?n p = (Inr c, p')" using peer_link.connected [OF assms(1)] by blast
  obtain b where b: "to_stdvec pc (local_capabilities (active w)) = Some b" using assms(3) by (auto simp: pc_total_def)
  show ?thesis
    using c b from_bytes_encoded [OF assms(2) b] peer_link.carries_capabilities [OF assms(1)]
    by (simp add: capability_query_def capabilities_rpc_def send_under_deadline_def serve_capabilities_def unary_call_def decode_reply_def capabilities_response_def)
qed

section \<open>Properties\<close>

text \<open>Concrete values: a peer that keeps what it is given and answers with one.\<close>

definition demo_network :: peer_network where
  "demo_network = new_client \<lparr>pf_tls = False, pf_active_write_version = 5\<rparr> 2 \<lparr>op_addr = [1], op_service_endpoint = [], op_admin_endpoint = []\<rparr>"

definition demo_wire :: "(unit, u64 list) peer_wire" where
  "demo_wire =
     direct_wire (serve_message pc_u64 pc_u64 (\<lambda>_. 4) (\<lambda>q s. (Inr 1, q # s))) (serve_message pc_u64 pc_u64 (\<lambda>_. 4) (\<lambda>q s. (Inr 1, q # s)))
       (serve_message pc_u64 pc_u64 (\<lambda>_. 4) (\<lambda>q s. (Inl (), s))) (serve_capabilities pc_capabilities (\<lambda>_. 4))
       (serve_snapshot pc_u64 pc_u64 pc_u64 (\<lambda>_. 4) (\<lambda>v m d s. (Inr 1, of_nat (length d) # s)) False)"

lemmas demo_link = direct.peer_link_axioms
  [where qa = pc_u64 and ra = pc_u64 and qv = pc_u64 and rv = pc_u64 and qt = pc_u64 and rt = pc_u64 and act = "\<lambda>_. 4"
     and app = "\<lambda>q s. (Inr 1, q # s)" and vo = "\<lambda>q s. (Inr 1, q # s)" and tr = "\<lambda>q s. (Inl (), s)" and pc = pc_capabilities
     and pv = pc_u64 and pm = pc_u64 and pr = pc_u64 and inst = "\<lambda>v m d s. (Inr 1, of_nat (length d) # s)", folded demo_wire_def]

lemma pc_u64_total: "pc_total pc_u64"
  unfolding pc_u64_def by (intro pc_iso_total pc_varint_ok)

lemma pc_u64_encodes: "to_stdvec pc_u64 x = Some (the (to_stdvec pc_u64 x))"
  using pc_u64_total by (auto simp: pc_total_def)

lemma demo_reply_ok: "reply_ok pc_u64 (\<lambda>_. 4)"
  using pc_u64_total by (simp add: reply_ok_def pc_scalars_ok in_readable_range_def version_defs)

lemma demo_version: "in_readable_range (pn_active_write_version demo_network)"
  by (simp add: demo_network_def new_client_def in_readable_range_def version_defs)

text \<open>
  The framing contract of a streamed snapshot: a stream is accepted exactly when it is a
  header in a readable version whose vote and metadata decode, followed by data chunks only,
  of at most the given number of bytes in all; the snapshot is then what the header and the
  chunks, in order, hold. No stream makes the receiver keep more bytes than the limit.
\<close>

theorem reassembly_accepts_exactly:
  "reassemble_snapshot pv pm stream max_bytes = Inr a \<longleftrightarrow>
     (\<exists>h ds v. stream = Inr (Some (ChunkHeader h)) # map (\<lambda>d. Inr (Some (ChunkData d))) ds
        \<and> readable_version (sh_format_version h) = Inr v
        \<and> from_bytes pv (sh_vote h) = Some (as_vote a) \<and> from_bytes pm (sh_meta h) = Some (as_meta a)
        \<and> as_data a = concat ds \<and> length (as_data a) \<le> max_bytes)"
  by (induction pv pm stream max_bytes rule: reassemble_snapshot.induct)
    (auto simp: and_then_Inr_iff reassemble_data_iff map_err_Inr_iff split: option.splits)

text \<open>
  C30. A snapshot arrives as it was sent: over a link that carries the calls, the peer installs
  the vote, the metadata and the data of the sender, whatever the length of the data and the
  readable versions of the two nodes, and the sender learns the peer's answer. Data above the
  receiver's limit is refused without touching the peer, and every message stays below the
  size the peer's server decodes.
\<close>

theorem snapshot_transfer_exact:
  assumes "peer_link wire a v t cp (serve_snapshot pv pm pr active install False)" "reply_ok pr active" "postcard_ok pv" "postcard_ok pm"
    and "to_stdvec pv vote = Some vb" "to_stdvec pm meta = Some mb" "in_readable_range (pn_active_write_version n)"
  shows "\<exists>p'. (\<forall>k. k \<noteq> (pn_target n, pn_addr n) \<longrightarrow> p' k = p k)
    \<and> full_snapshot wire pv pm pr vote meta data n (p, w)
       = (if length data \<le> MAX_SNAPSHOT_BYTES then apfst (map_err streaming_of_rpc) (told n p' (install vote meta data w))
          else (Inl (StreamNetwork (CauseStatus ResourceExhausted)), evict p' (pn_target n) (pn_addr n), w))
    \<and> (\<forall>c \<in> set (chunks SNAPSHOT_CHUNK_SIZE data). length c < MAX_PEER_MESSAGE_BYTES)"
proof -
  obtain c p' where c: "connect_client wire n p = (Inr c, p')" "\<And>k. k \<noteq> (pn_target n, pn_addr n) \<Longrightarrow> p' k = p k"
    using peer_link.connected [OF assms(1)] by blast
  let ?ds = "map (\<lambda>d. Inr (Some (ChunkData d))) (chunks SNAPSHOT_CHUNK_SIZE data) :: (status_code, snapshot_chunk) result list"
  have cat: "concat (chunks SNAPSHOT_CHUNK_SIZE data) = data" by (simp add: concat_chunks SNAPSHOT_CHUNK_SIZE_def)
  have d: "reassemble_data MAX_SNAPSHOT_BYTES [] ?ds = (if length data \<le> MAX_SNAPSHOT_BYTES then Inr data else Inl ResourceExhausted)"
    using reassemble_data_iff [of "[]" MAX_SNAPSHOT_BYTES ?ds data] reassemble_data_too_long [of "[]" MAX_SNAPSHOT_BYTES "chunks SNAPSHOT_CHUNK_SIZE data"] cat
    by (auto simp: not_le)
  note r = readable_stamp [OF assms(7)] from_bytes_encoded [OF assms(3,5)] from_bytes_encoded [OF assms(4,6)]
  have sn: "pw_snapshot wire c (snapshot_stream (pn_active_write_version n) vb mb data) w =
      (if length data \<le> MAX_SNAPSHOT_BYTES
       then apfst Some (case install vote meta data w of (Inl _, s') \<Rightarrow> (Inl Internal, s') | (Inr resp, s') \<Rightarrow> (encode_reply pr (active s') resp, s'))
       else (Some (Inl ResourceExhausted), w))"
    by (simp add: peer_link.carries_snapshot [OF assms(1)] serve_snapshot_def snapshot_stream_def r d comp_def)
  have "full_snapshot wire pv pm pr vote meta data n (p, w)
      = (if length data \<le> MAX_SNAPSHOT_BYTES then apfst (map_err streaming_of_rpc) (told n p' (install vote meta data w))
         else (Inl (StreamNetwork (CauseStatus ResourceExhausted)), evict p' (pn_target n) (pn_addr n), w))"
  proof (cases "length data \<le> MAX_SNAPSHOT_BYTES")
    case True
    obtain ans w' where i: "install vote meta data w = (ans, w')" by fastforce
    show ?thesis
    proof (cases ans)
      case (Inl e)
      with True i sn c(1) assms(5,6) show ?thesis by (simp add: full_snapshot_def told_def)
    next
      case (Inr resp)
      obtain m where "encode_reply pr (active w') resp = Inr m" "decode_reply True pr (Inr m) = Inr resp"
        using encode_reply_ok [OF assms(2)] by blast
      with True Inr i sn c(1) assms(5,6) show ?thesis by (simp add: full_snapshot_def told_def)
    qed
  qed (use sn c(1) assms(5,6) in \<open>simp add: full_snapshot_def\<close>)
  moreover have "length x < MAX_PEER_MESSAGE_BYTES" if "x \<in> set (chunks SNAPSHOT_CHUNK_SIZE data)" for x
    using chunks_length [OF that] by (simp add: MAX_PEER_MESSAGE_BYTES_def)
  ultimately show ?thesis using c(2) by blast
qed

text \<open>
  C31. The transport is transparent to Raft: over a link that carries the calls, an append, a
  vote or a transfer gives the caller exactly the peer's answer to that request, on a
  connection that stays in the pool; when the peer's Raft fails, the caller sees a network
  error and the connection is dropped from the pool. The other connections stay.
\<close>

theorem peer_calls_transparent:
  assumes "peer_link wire (serve_message qa ra active app) (serve_message qv rv active vote) (serve_message qt rt active transfer) cp sn"
    and "reply_ok ra active" "reply_ok rv active" "reply_ok rt active" "postcard_ok qa" "postcard_ok qv" "postcard_ok qt"
    and "to_stdvec qa x = Some xb" "to_stdvec qv y = Some yb" "to_stdvec qt z = Some zb" "in_readable_range (pn_active_write_version n)"
  shows "\<exists>p'. (\<forall>k. k \<noteq> (pn_target n, pn_addr n) \<longrightarrow> p' k = p k)
    \<and> append_entries_rpc wire qa ra x n (p, w) = told n p' (app x w)
    \<and> vote_rpc wire qv rv y n (p, w) = told n p' (vote y w)
    \<and> transfer_leader_rpc wire qt rt z n (p, w) = told n p' (transfer z w)"
proof -
  obtain c p' where c: "connect_client wire n p = (Inr c, p')" "\<And>k. k \<noteq> (pn_target n, pn_addr n) \<Longrightarrow> p' k = p k"
    using peer_link.connected [OF assms(1)] by blast
  note L = peer_link.carries_append [OF assms(1)] peer_link.carries_vote [OF assms(1)] peer_link.carries_transfer [OF assms(1)]
  have "append_entries_rpc wire qa ra x n (p, w) = told n p' (app x w)"
    unfolding append_entries_rpc_def assms(8) by (rule send_served [OF c(1) L(1) assms(2,5,8,11)])
  moreover have "vote_rpc wire qv rv y n (p, w) = told n p' (vote y w)"
    unfolding vote_rpc_def assms(9) by (rule send_served [OF c(1) L(2) assms(3,6,9,11)])
  moreover have "transfer_leader_rpc wire qt rt z n (p, w) = told n p' (transfer z w)"
    unfolding transfer_leader_rpc_def assms(10) by (rule send_served [OF c(1) L(3) assms(4,7,10,11)])
  ultimately show ?thesis using c(2) by blast
qed

theorem snapshot_transfer_exact_witness:
  "\<exists>p'. full_snapshot demo_wire pc_u64 pc_u64 pc_u64 3 4 [7, 8] demo_network (\<lambda>_. None, []) = (Inr 1, p', [2])"
proof -
  note b = pc_u64_encodes
  from snapshot_transfer_exact [OF demo_link demo_reply_ok pc_scalars_ok(1) pc_scalars_ok(1) b b demo_version,
      where vote = 3 and meta = 4 and data = "[7, 8]" and p = "\<lambda>_. None" and w = "[]"]
  show ?thesis by (auto simp: told_def MAX_SNAPSHOT_BYTES_def)
qed

theorem peer_calls_transparent_witness:
  "\<exists>p'. append_entries_rpc demo_wire pc_u64 pc_u64 9 demo_network (\<lambda>_. None, []) = (Inr 1, p', [9])
     \<and> vote_rpc demo_wire pc_u64 pc_u64 8 demo_network (\<lambda>_. None, []) = (Inr 1, p', [8])"
proof -
  note b = pc_u64_encodes
  from peer_calls_transparent [OF demo_link demo_reply_ok demo_reply_ok demo_reply_ok pc_scalars_ok(1) pc_scalars_ok(1) pc_scalars_ok(1) b b b demo_version,
      where x = 9 and y = 8 and z = 7 and p = "\<lambda>_. None" and w = "[]"]
  show ?thesis by (auto simp: told_def)
qed

text \<open>
  The reply to a transfer is taken in any version: here one that no other call accepts.
\<close>

lemma transfer_reply_unchecked:
  "decode_reply False pc_u64 (Inr \<lparr>rmsg_payload = [1], rmsg_format_version = 300\<rparr>) = Inr 1
   \<and> decode_reply True pc_u64 (Inr \<lparr>rmsg_payload = [1], rmsg_format_version = 300\<rparr>) = Inl (RpcNetwork (CauseVersion (OutsideReadableRange 300)))"
  by (simp add: decode_reply_def readable_version_def from_bytes_def pc_u64_def pc_iso_def pc_varint_def)

end
