(* ===== verification/File_Export.thy ===== *)
theory File_Export
  imports File_Driver
begin

text \<open>
  The receipt of a stopped file driver (\<open>tsoracle-driver-file/src/export.rs\<close>): the directory
  is locked, checked entry by entry and read under limits, and a receipt with the digest of
  every file and the state they hold is produced. The file system is the metadata and bytes
  that the calls see, as on Unix; the digest is a parameter. What the receipt says is compared
  with what the driver would load from the same directory.
\<close>

section \<open>The directory as the export sees it\<close>

datatype file_kind = RegularFile | DirectoryFile | SymbolicLink | OtherFile

record file_meta =
  fm_kind :: file_kind
  fm_nlink :: u64
  fm_dev :: u64
  fm_ino :: u64
  fm_bytes :: bytes

datatype fs_error = FsNotFound | FsOther

text \<open>
  The entries in the order of \<open>read_dir\<close>, the entries a call fails on, and what the handle of
  the lock file that is held refers to, which may no longer be the entry of that name.
\<close>

record export_fs =
  xf_dir :: "(fs_error, file_kind) result"
  xf_entries :: "(string \<times> file_meta) list"
  xf_faulty :: "string \<Rightarrow> bool"
  xf_locked :: bool
  xf_held :: file_meta

definition FILES :: "string list" where "FILES = [LOCK_FILE, DENSE_FILE, LEASES_FILE, STATE_FILE]"
definition MAX_FILE_BYTES :: nat where "MAX_FILE_BYTES = 64 * 1024 * 1024"

datatype export_error =
    XDriver file_driver_error
  | XIo string fs_error
  | XStateDecode record_error
  | XDenseDecode dense_record_error
  | XLeaseDecode lease_record_error
  | XValidation stored_state_error
  | XInvalid string

definition symlink_metadata :: "string \<Rightarrow> export_fs \<Rightarrow> (export_error, file_meta) result" where
  "symlink_metadata name fs =
     (if xf_faulty fs name then Inl (XIo name FsOther)
      else case map_of (xf_entries fs) name of None \<Rightarrow> Inl (XIo name FsNotFound) | Some m \<Rightarrow> Inr m)"

definition open_regular :: "string \<Rightarrow> export_fs \<Rightarrow> (export_error, file_meta) result" where
  "open_regular name fs =
     and_then (symlink_metadata name fs) (\<lambda>m.
       if fm_kind m \<noteq> RegularFile then Inl (XInvalid ''regular files without symlinks'')
       else if fm_nlink m \<noteq> 1 then Inl (XInvalid ''exactly one hard link'')
       else Inr m)"

definition read_bounded :: "string \<Rightarrow> export_fs \<Rightarrow> (export_error, bytes) result" where
  "read_bounded name fs =
     and_then (open_regular name fs) (\<lambda>m.
       if length (fm_bytes m) > MAX_FILE_BYTES then Inl (XInvalid ''64 MiB export limit'') else Inr (fm_bytes m))"

definition read_optional :: "string \<Rightarrow> export_fs \<Rightarrow> (export_error, bytes option) result" where
  "read_optional name fs =
     (case read_bounded name fs of
        Inr bs \<Rightarrow> Inr (Some bs)
      | Inl (XIo _ FsNotFound) \<Rightarrow> Inr None
      | Inl e \<Rightarrow> Inl e)"

section \<open>The receipt\<close>

definition hex_digit :: "nat \<Rightarrow> char" where
  "hex_digit n = ''0123456789abcdef'' ! n"

definition hex :: "bytes \<Rightarrow> string" where
  "hex bs = concat (map (\<lambda>b. [hex_digit (unat b div 16), hex_digit (unat b mod 16)]) bs)"

record file_inventory_entry =
  fi_path :: string
  fi_present :: bool
  fi_size_bytes :: "u64 option"
  fi_sha256 :: "string option"
  fi_format :: bytes
  fi_format_version :: "u8 option"

definition inventory :: "(bytes \<Rightarrow> bytes) \<Rightarrow> string \<Rightarrow> bytes option \<Rightarrow> bytes \<Rightarrow> u8 option \<Rightarrow> file_inventory_entry" where
  "inventory sha256 name bs format format_version =
     \<lparr>fi_path = name, fi_present = (bs \<noteq> None), fi_size_bytes = map_option (\<lambda>b. of_nat (length b)) bs,
      fi_sha256 = map_option (\<lambda>b. hex (sha256 b)) bs, fi_format = format, fi_format_version = format_version\<rparr>"

record lease_export =
  lx_lease_id :: u64
  lx_holder_hex :: string
  lx_holder_epoch :: u64
  lx_ttl_ms :: u64
  lx_ts_upper_bound_physical_ms :: u64
  lx_expires_at_unix_ms :: u64
  lx_superseded :: bool

definition export_lease :: "lease_record \<Rightarrow> lease_export" where
  "export_lease r =
     \<lparr>lx_lease_id = lease_id r, lx_holder_hex = hex (holder r), lx_holder_epoch = holder_epoch r, lx_ttl_ms = ttl_ms r,
      lx_ts_upper_bound_physical_ms = ts_upper_bound r, lx_expires_at_unix_ms = expires_at_ms r, lx_superseded = superseded r\<rparr>"

text \<open>The fields that depend on the directory; schema, producer and units are constants.\<close>

record stopped_file_receipt =
  sr_epoch :: u64
  sr_files :: "file_inventory_entry list"
  sr_high_water :: u64
  sr_leases :: "lease_export list"
  sr_max_upper_bound :: "u64 option"
  sr_max_expires_at :: "u64 option"
  sr_dense_next_unallocated :: "(str, u64) btree_map"
  sr_dense_cardinality_cap :: u64

fun iter_max :: "u64 list \<Rightarrow> u64 option" where
  "iter_max [] = None"
| "iter_max (x # xs) = Some (case iter_max xs of None \<Rightarrow> x | Some m \<Rightarrow> max x m)"

definition verify_lock_identity :: "export_fs \<Rightarrow> (export_error, unit) result" where
  "verify_lock_identity fs =
     and_then (symlink_metadata LOCK_FILE fs) (\<lambda>entry.
       let held = xf_held fs
       in if fm_kind entry \<noteq> RegularFile \<or> fm_kind held \<noteq> RegularFile then Inl (XInvalid ''LOCK must remain a regular file'')
          else if fm_nlink held \<noteq> 1 \<or> fm_nlink entry \<noteq> 1 \<or> fm_dev held \<noteq> fm_dev entry \<or> fm_ino held \<noteq> fm_ino entry
          then Inl (XInvalid ''LOCK identity changed'')
          else Inr ())"

text \<open>\<open>StoppedFileState::open\<close>: the directory with its lock held.\<close>

definition stopped_open :: "export_fs \<Rightarrow> (export_error, export_fs) result" where
  "stopped_open fs =
     (case xf_dir fs of
        Inl e \<Rightarrow> Inl (XIo ''dir'' e)
      | Inr kind \<Rightarrow>
          if kind \<noteq> DirectoryFile then Inl (XInvalid ''existing directory without a symlink'')
          else and_then (open_regular LOCK_FILE fs) (\<lambda>lock.
            if xf_locked fs then Inl (XDriver FdAlreadyLocked)
            else Inr (fs\<lparr>xf_locked := True, xf_held := lock\<rparr>)))"

text \<open>
  \<open>fs'\<close> is the file system at the second look at the lock. The formats' magics are ASCII, so
  that naming them does not fail.
\<close>

definition receipt ::
  "(bytes \<Rightarrow> bytes) \<Rightarrow> (bytes \<Rightarrow> u32) \<Rightarrow> export_fs \<Rightarrow> export_fs \<Rightarrow> (export_error, stopped_file_receipt) result" where
  "receipt sha256 crc32c fs fs' =
     and_then (verify_lock_identity fs) (\<lambda>_.
     and_then (if list_all (\<lambda>e. fst e \<in> set FILES) (xf_entries fs) then Inr () else Inl (XInvalid ''unexpected file in state directory'')) (\<lambda>_.
     and_then (if fm_bytes (xf_held fs) \<noteq> [] then Inl (XInvalid ''LOCK sentinel must be empty'') else Inr ()) (\<lambda>_.
     and_then (read_bounded STATE_FILE fs) (\<lambda>state.
     and_then (read_optional DENSE_FILE fs) (\<lambda>dense_bytes.
     and_then (read_optional LEASES_FILE fs) (\<lambda>lease_bytes.
     and_then (map_err XStateDecode (record_decode crc32c state)) (\<lambda>high_water.
     and_then (case dense_bytes of
         Some bs \<Rightarrow> map_err XDenseDecode (dense_decode crc32c bs)
       | None \<Rightarrow> Inr ([], DEFAULT_DENSE_CARDINALITY_CAP)) (\<lambda>(dense, cap).
     and_then (case lease_bytes of
         Some bs \<Rightarrow> map_err XLeaseDecode (lease_decode crc32c bs)
       | None \<Rightarrow> Inr []) (\<lambda>records.
     and_then (map_err XValidation (validate high_water dense cap records)) (\<lambda>_.
     and_then (verify_lock_identity fs') (\<lambda>_.
       Inr \<lparr>sr_epoch = 0,
            sr_files =
              [inventory sha256 LOCK_FILE (Some []) (lit ''native-lock-sentinel'') None,
               inventory sha256 DENSE_FILE dense_bytes dense_MAGIC (Some dense_VERSION),
               inventory sha256 LEASES_FILE lease_bytes lease_MAGIC (Some lease_VERSION),
               inventory sha256 STATE_FILE (Some state) rec_MAGIC (Some rec_VERSION)],
            sr_high_water = high_water,
            sr_leases = map export_lease records,
            sr_max_upper_bound = iter_max (map lx_ts_upper_bound_physical_ms (map export_lease records)),
            sr_max_expires_at = iter_max (map lx_expires_at_unix_ms (map export_lease records)),
            sr_dense_next_unallocated = dense,
            sr_dense_cardinality_cap = cap\<rparr>)))))))))))"

section \<open>What the receipt certifies\<close>

definition certifies :: "stopped_file_receipt \<Rightarrow> file_driver \<Rightarrow> bool" where
  "certifies r f \<longleftrightarrow> sr_high_water r = fd_state f \<and> sr_dense_next_unallocated r = ds_map (fd_dense f)
     \<and> sr_dense_cardinality_cap r = ds_cap (fd_dense f) \<and> sr_leases r = map export_lease (fd_leases f)
     \<and> sr_max_upper_bound r = iter_max (map ts_upper_bound (fd_leases f))
     \<and> sr_max_expires_at r = iter_max (map expires_at_ms (fd_leases f))"

text \<open>
  A directory that a stopped driver leaves: its files are plain, the lock is the one that is
  held, and no temporary file is left over.
\<close>

definition plain_file :: "export_fs \<Rightarrow> string \<Rightarrow> bytes option \<Rightarrow> bool" where
  "plain_file fs name content \<longleftrightarrow> \<not> xf_faulty fs name \<and>
     (case content of
        None \<Rightarrow> map_of (xf_entries fs) name = None
      | Some bs \<Rightarrow> \<exists>m. map_of (xf_entries fs) name = Some m \<and> fm_kind m = RegularFile \<and> fm_nlink m = 1 \<and> fm_bytes m = bs
          \<and> length bs \<le> MAX_FILE_BYTES)"

definition shows_disk :: "export_fs \<Rightarrow> disk \<Rightarrow> bool" where
  "shows_disk fs d \<longleftrightarrow> plain_file fs STATE_FILE (vis d STATE_FILE) \<and> plain_file fs DENSE_FILE (vis d DENSE_FILE)
     \<and> plain_file fs LEASES_FILE (vis d LEASES_FILE) \<and> plain_file fs LOCK_FILE (Some [])
     \<and> map_of (xf_entries fs) LOCK_FILE = Some (xf_held fs)
     \<and> list_all (\<lambda>e. fst e \<in> set FILES) (xf_entries fs) \<and> vis d STATE_FILE \<noteq> None"

lemma read_bounded_plain: "plain_file fs name (Some bs) \<Longrightarrow> read_bounded name fs = Inr bs"
  by (auto simp: plain_file_def read_bounded_def open_regular_def symlink_metadata_def)

lemma read_optional_plain: "plain_file fs name content \<Longrightarrow> read_optional name fs = Inr content"
proof (cases content)
  case None
  moreover assume "plain_file fs name content"
  ultimately show ?thesis by (simp add: plain_file_def read_optional_def read_bounded_def open_regular_def symlink_metadata_def)
next
  case (Some bs)
  moreover assume "plain_file fs name content"
  ultimately show ?thesis by (simp add: read_optional_def read_bounded_plain)
qed

lemma lock_identity_plain: "shows_disk fs d \<Longrightarrow> verify_lock_identity fs = Inr () \<and> fm_bytes (xf_held fs) = []"
  by (auto simp: shows_disk_def plain_file_def verify_lock_identity_def symlink_metadata_def Let_def)

text \<open>The driver and the receipt read the same three values and check them alike.\<close>

definition stored_values ::
  "(bytes \<Rightarrow> u32) \<Rightarrow> (string \<Rightarrow> bytes option) \<Rightarrow> (u64 \<times> dense_state \<times> lease_record list) option" where
  "stored_values crc v =
     (case v STATE_FILE of None \<Rightarrow> None | Some st \<Rightarrow>
        (case record_decode crc st of Inl _ \<Rightarrow> None | Inr hw \<Rightarrow>
        (case (case v DENSE_FILE of None \<Rightarrow> Inr ([], DEFAULT_DENSE_CARDINALITY_CAP) | Some bs \<Rightarrow> dense_decode crc bs) of
           Inl _ \<Rightarrow> None | Inr (m, cap) \<Rightarrow>
        (case (case v LEASES_FILE of None \<Rightarrow> Inr [] | Some bs \<Rightarrow> lease_decode crc bs) of
           Inl _ \<Rightarrow> None | Inr ls \<Rightarrow>
        (case validate hw m cap ls of Inl _ \<Rightarrow> None | Inr _ \<Rightarrow> Some (hw, \<lparr>ds_map = m, ds_cap = cap\<rparr>, ls))))))"

lemma validate_range: "validate hw m cap ls = Inr u \<Longrightarrow> \<not> PHYSICAL_MS_MAX < hw"
  by (auto simp: validate_def split: if_splits)

lemma open_or_init_values:
  assumes "\<not> dir_locked d" "\<And>name. \<not> unreadable d name" "vis d STATE_FILE \<noteq> None"
  shows "case stored_values crc (vis d) of
     None \<Rightarrow> \<exists>e. open_or_init crc True d = Inl e
   | Some (hw, ds, ls) \<Rightarrow> open_or_init crc True d = Inr \<lparr>fd_disk = d\<lparr>dir_locked := True\<rparr>, fd_state = hw, fd_dense = ds, fd_leases = ls\<rparr>"
  using assms
  by (auto dest: validate_range simp: open_or_init_def acquire_exclusive_lock_def open_high_water_def open_dense_def open_leases_def read_file_def stored_values_def
      split: option.splits sum.splits prod.splits)

lemma receipt_values:
  assumes "shows_disk fs d"
  shows "case stored_values crc (vis d) of
     None \<Rightarrow> \<exists>e. receipt sha crc fs fs = Inl e
   | Some (hw, ds, ls) \<Rightarrow> \<exists>r. receipt sha crc fs fs = Inr r \<and> sr_high_water r = hw \<and> sr_dense_next_unallocated r = ds_map ds
       \<and> sr_dense_cardinality_cap r = ds_cap ds \<and> sr_leases r = map export_lease ls
       \<and> sr_max_upper_bound r = iter_max (map ts_upper_bound ls) \<and> sr_max_expires_at r = iter_max (map expires_at_ms ls)"
proof -
  obtain st where st: "vis d STATE_FILE = Some st" using assms by (auto simp: shows_disk_def)
  have r: "read_bounded STATE_FILE fs = Inr st" "read_optional DENSE_FILE fs = Inr (vis d DENSE_FILE)"
      "read_optional LEASES_FILE fs = Inr (vis d LEASES_FILE)" "list_all (\<lambda>e. fst e \<in> set FILES) (xf_entries fs)"
    using assms st by (simp_all add: shows_disk_def read_bounded_plain read_optional_plain)
  show ?thesis
    using lock_identity_plain [OF assms] st
    by (auto simp: receipt_def r stored_values_def export_lease_def comp_def split: option.splits sum.splits prod.splits)
qed

text \<open>The holder of a lease can be read back from the receipt.\<close>

lemma hex_digit_inj: "m < 16 \<Longrightarrow> n < 16 \<Longrightarrow> hex_digit m = hex_digit n \<longleftrightarrow> m = n"
proof -
  have "distinct ''0123456789abcdef''" "length ''0123456789abcdef'' = 16" by simp_all
  then show "m < 16 \<Longrightarrow> n < 16 \<Longrightarrow> hex_digit m = hex_digit n \<longleftrightarrow> m = n" unfolding hex_digit_def by (simp only: nth_eq_iff_index_eq)
qed

lemma hex_inj: "hex xs = hex ys \<longleftrightarrow> xs = ys"
proof (induction xs arbitrary: ys)
  case Nil
  show ?case by (cases ys) (simp_all add: hex_def)
next
  case (Cons x xs)
  show ?case
  proof (cases ys)
    case (Cons y zs)
    have "unat x div 16 < 16" "unat y div 16 < 16" using unat_u8_bound [of x] unat_u8_bound [of y] by simp_all
    then have "hex (x # xs) = hex ys \<longleftrightarrow> unat x div 16 = unat y div 16 \<and> unat x mod 16 = unat y mod 16 \<and> hex xs = hex zs"
      by (simp add: hex_def Cons hex_digit_inj)
    also have "\<dots> \<longleftrightarrow> unat x = unat y \<and> xs = zs" using Cons.IH by (metis div_mult_mod_eq)
    finally show ?thesis by (simp add: Cons word_unat_eq_iff)
  qed (simp add: hex_def)
qed

section \<open>Properties\<close>

text \<open>Concrete values: a directory after one write of the high water.\<close>

definition demo_disk :: disk where
  "demo_disk = snd (write_record (\<lambda>_. 0) 5 IoOk empty_disk)"

definition demo_fs :: export_fs where
  "demo_fs =
     (let lock = \<lparr>fm_kind = RegularFile, fm_nlink = 1, fm_dev = 1, fm_ino = 2, fm_bytes = []\<rparr>
      in \<lparr>xf_dir = Inr DirectoryFile,
          xf_entries = [(LOCK_FILE, lock),
            (STATE_FILE, \<lparr>fm_kind = RegularFile, fm_nlink = 1, fm_dev = 1, fm_ino = 3, fm_bytes = record_encode (\<lambda>_. 0) 5\<rparr>)],
          xf_faulty = (\<lambda>_. False), xf_locked = True, xf_held = lock\<rparr>)"

text \<open>
  C40. The receipt of a stopped node certifies exactly the state its driver would load: on a
  directory of plain files within the 64 MiB limit that has a state file, with the lock that is
  held and nothing left over, the receipt is
  produced exactly when the driver would open, with the same committed high water, the same
  dense counters and cap, and the same leases with the largest of their bounds and expiries.
\<close>

theorem receipt_certifies_driver:
  assumes "shows_disk fs d" "\<not> dir_locked d" "\<And>name. \<not> unreadable d name"
  shows "case open_or_init crc True d of
     Inl _ \<Rightarrow> \<exists>e. receipt sha crc fs fs = Inl e
   | Inr f \<Rightarrow> \<exists>r. receipt sha crc fs fs = Inr r \<and> certifies r f"
proof -
  have "vis d STATE_FILE \<noteq> None" using assms(1) by (simp add: shows_disk_def)
  from open_or_init_values [OF assms(2,3) this, of crc] receipt_values [OF assms(1), where crc = crc and sha = sha] show ?thesis
    by (auto simp: certifies_def split: option.splits prod.splits)
qed

theorem receipt_certifies_driver_witness:
  "\<exists>r. receipt (\<lambda>b. b) (\<lambda>_. 0) demo_fs demo_fs = Inr r \<and> sr_high_water r = 5"
proof -
  have d: "vis demo_disk STATE_FILE = Some (record_encode (\<lambda>_. 0) 5)" "vis demo_disk DENSE_FILE = None" "vis demo_disk LEASES_FILE = None"
      "\<not> dir_locked demo_disk" "\<And>name. \<not> unreadable demo_disk name"
    by (simp_all add: demo_disk_def write_record_def empty_disk_def STATE_FILE_def DENSE_FILE_def LEASES_FILE_def tmp_of_def Let_def)
  have "shows_disk demo_fs demo_disk"
    unfolding shows_disk_def plain_file_def d
    by (simp add: demo_fs_def Let_def FILES_def STATE_FILE_def DENSE_FILE_def LEASES_FILE_def LOCK_FILE_def MAX_FILE_BYTES_def record_encode_def rec_MAGIC_def lit_def)
  from receipt_certifies_driver [OF this d(4,5), where crc = "\<lambda>_. 0" and sha = "\<lambda>b. b"] record_decode_encode [of "\<lambda>_. 0" 5] show ?thesis
    by (auto simp: certifies_def open_or_init_def acquire_exclusive_lock_def open_high_water_def open_dense_def open_leases_def read_file_def d validate_def PHYSICAL_MS_MAX_def LOGICAL_BITS_def DEFAULT_DENSE_CARDINALITY_CAP_def)
qed

end
