(* ===== verification/Admin.thy ===== *)
theory Admin
  imports Committed_Log
begin

text \<open>
  Runtime membership administration (\<open>tsoracle-standalone/src/admin\<close>): the driver-agnostic surface
  (\<open>mod.rs\<close>), the openraft implementation (\<open>openraft.rs\<close>), the gRPC service over either
  (\<open>service.rs\<close>), the toolkit's membership and bootstrap wrappers
  (\<open>tsoracle-openraft-toolkit/src/lifecycle\<close>) and the leadership handoff on shutdown
  (\<open>drivers/openraft/handoff.rs\<close>). What openraft does with a membership change is a parameter:
  \<open>membership_api\<close> holds the calls, and the locale \<open>membership_raft\<close> of \<open>Admin_Membership\<close> what
  they promise.
\<close>

section \<open>The admin surface\<close>

datatype member_role = Voter | Learner

record member_entry =
  me_id :: u64
  me_role :: member_role
  me_raft_addr :: str
  me_service_endpoint :: str
  me_admin_endpoint :: str

record membership_view =
  mv_members :: "member_entry list"
  mv_leader :: "u64 option"

record new_member =
  nm_id :: u64
  nm_raft_addr :: str
  nm_service_endpoint :: str
  nm_admin_endpoint :: str

datatype capability_state =
    CapReported u8 u8 u8
  | CapUnreachable string

record member_capability =
  mc_member :: member_entry
  mc_caps :: capability_state

record capability_report =
  cr_members :: "member_capability list"
  cr_leader :: "u64 option"

datatype admin_error =
    AdNotLeader "str option"
  | AdUnsupported
  | AdNotMember u64
  | AdNotCaughtUp u64
  | AdWouldLoseQuorum
  | AdTimeout
  | AdDriver string
  | AdMembersBelowTarget u8 "(u64 \<times> u8) list"
  | AdTargetOutOfRange u8 u8 u8
  | AdMembershipChangedSinceGate u8

text \<open>
  The trait \<open>MembershipAdmin\<close>. \<open>None\<close> for an activation is the panic of
  \<open>classify_activation_outcome\<close>.
\<close>

record 's membership_admin =
  ad_list_members :: "'s \<Rightarrow> (admin_error, membership_view) result"
  ad_add_learner :: "new_member \<Rightarrow> 's \<Rightarrow> (admin_error, unit) result \<times> 's"
  ad_promote :: "u64 \<Rightarrow> 's \<Rightarrow> (admin_error, unit) result \<times> 's"
  ad_remove :: "u64 \<Rightarrow> 's \<Rightarrow> (admin_error, unit) result \<times> 's"
  ad_activate_format :: "u8 \<Rightarrow> 's \<Rightarrow> (admin_error, unit) result option \<times> 's"
  ad_report_capabilities :: "'s \<Rightarrow> (admin_error, capability_report) result"

definition unsupported_admin :: "membership_view \<Rightarrow> 's membership_admin" where
  "unsupported_admin view =
     \<lparr>ad_list_members = \<lambda>s. Inr view,
      ad_add_learner = \<lambda>_ s. (Inl AdUnsupported, s),
      ad_promote = \<lambda>_ s. (Inl AdUnsupported, s),
      ad_remove = \<lambda>_ s. (Inl AdUnsupported, s),
      ad_activate_format = \<lambda>_ s. (Some (Inl AdUnsupported), s),
      ad_report_capabilities = \<lambda>s. Inl AdUnsupported\<rparr>"

section \<open>openraft's membership calls\<close>

datatype change_membership_error = CmeInProgress | CmeEmptyMembership | CmeLearnerNotFound u64

datatype raft_write_error =
    RweForwardToLeader "openraft_peer option"
  | RweChangeMembership change_membership_error
  | RweFatal string

datatype initialize_error = InitNotAllowed | InitNotInMembers | InitFatal string

text \<open>
  \<open>mp_raft\<close> are the calls of the driver, \<open>mp_voter_ids\<close> the voter ids of the membership in the
  metrics, \<open>mp_replication\<close> their replication progress, and the two \<open>to_string\<close> fields the
  rendering of openraft's errors.
\<close>

record 's membership_api =
  mp_raft :: "'s raft_api"
  mp_voter_ids :: "'s \<Rightarrow> u64 set"
  mp_replication :: "'s \<Rightarrow> (u64, log_id option) btree_map option"
  mp_current_leader :: "'s \<Rightarrow> u64 option"
  mp_add_learner :: "u64 \<Rightarrow> openraft_peer \<Rightarrow> bool \<Rightarrow> 's \<Rightarrow> (raft_write_error, unit) result \<times> 's"
  mp_change_membership :: "u64 set \<Rightarrow> bool \<Rightarrow> 's \<Rightarrow> (raft_write_error, unit) result \<times> 's"
  mp_initialize :: "(u64, openraft_peer) btree_map \<Rightarrow> 's \<Rightarrow> (initialize_error, unit) result \<times> 's"
  mp_transfer_leader :: "u64 \<Rightarrow> 's \<Rightarrow> (string, unit) result \<times> 's"
  mp_write_to_string :: "raft_write_error \<Rightarrow> string"
  mp_init_to_string :: "initialize_error \<Rightarrow> string"

definition mp_nodes :: "'s membership_api \<Rightarrow> 's \<Rightarrow> (u64, openraft_peer) btree_map" where
  "mp_nodes api s = rm_nodes (ra_metrics (mp_raft api) s)"

section \<open>The openraft admin\<close>

fun map_write_error :: "(raft_write_error \<Rightarrow> string) \<Rightarrow> raft_write_error \<Rightarrow> admin_error" where
  "map_write_error to_string (RweForwardToLeader leader_node) =
     AdNotLeader (case leader_node of
         None \<Rightarrow> None
       | Some node \<Rightarrow> if op_admin_endpoint node = [] then None else Some (op_admin_endpoint node))"
| "map_write_error to_string (RweChangeMembership (CmeLearnerNotFound learner)) = AdNotMember learner"
| "map_write_error to_string other = AdDriver (to_string other)"

text \<open>Decimal rendering of \<open>{}\<close> and \<open>{:?}\<close> in the format strings.\<close>

fun show_nat :: "nat \<Rightarrow> string" where
  "show_nat n = (if n < 10 then [char_of (48 + n)] else show_nat (n div 10) @ [char_of (48 + n mod 10)])"

declare show_nat.simps [simp del]

definition show_word :: "'a::len word \<Rightarrow> string" where
  "show_word w = show_nat (unat w)"

fun intersperse_concat :: "string \<Rightarrow> string list \<Rightarrow> string" where
  "intersperse_concat sep [] = []"
| "intersperse_concat sep [x] = x"
| "intersperse_concat sep (x # y # xs) = x @ sep @ intersperse_concat sep (y # xs)"

definition show_incapable :: "(u64 \<times> u8) list \<Rightarrow> string" where
  "show_incapable xs = ''['' @ intersperse_concat '', '' (map (\<lambda>(i, v). ''('' @ show_word i @ '', '' @ show_word v @ '')'') xs) @ '']''"

text \<open>The text of a failed proposal is openraft's and not kept by the driver's model.\<close>

fun map_activation_error :: "format_activation_error \<Rightarrow> admin_error option" where
  "map_activation_error FaNotLeader = Some (AdNotLeader None)"
| "map_activation_error (FaTargetOutOfRange target mn mx) = Some (AdTargetOutOfRange target mn mx)"
| "map_activation_error (FaMembersBelowTarget target incapable) = Some (AdMembersBelowTarget target incapable)"
| "map_activation_error (FaMemberUnreachable node_id detail) =
     Some (AdDriver (''format activation gate: member '' @ show_word node_id @ '' unreachable: '' @ detail))"
| "map_activation_error (FaMembershipChangedSinceGate target) = Some (AdMembershipChangedSinceGate target)"
| "map_activation_error FaProposalFailed = Some (AdDriver ''format activation proposal failed: '')"
| "map_activation_error FaUnreachable = None"

definition voters_with :: "u64 set \<Rightarrow> u64 \<Rightarrow> u64 set" where
  "voters_with current i = insert i current"

definition voters_without :: "u64 set \<Rightarrow> u64 \<Rightarrow> u64 set" where
  "voters_without current i = current - {i}"

definition voter_ids :: "membership_view \<Rightarrow> u64 set" where
  "voter_ids view = set (map me_id (filter (\<lambda>entry. me_role entry = Voter) (mv_members view)))"

definition entry_of :: "u64 set \<Rightarrow> u64 \<times> openraft_peer \<Rightarrow> member_entry" where
  "entry_of voters member =
     \<lparr>me_id = fst member, me_role = (if fst member \<in> voters then Voter else Learner),
      me_raft_addr = op_addr (snd member), me_service_endpoint = op_service_endpoint (snd member),
      me_admin_endpoint = op_admin_endpoint (snd member)\<rparr>"

text \<open>\<open>caps_by_id\<close> is a hash map collected from the pairs, so the last report of an id stands.\<close>

fun capability_of :: "(string, node_capabilities) result option \<Rightarrow> capability_state" where
  "capability_of (Some (Inr c)) =
     CapReported (nc_min_readable_version c) (nc_max_readable_version c) (nc_active_write_version c)"
| "capability_of (Some (Inl detail)) = CapUnreachable detail"
| "capability_of None = CapUnreachable ''no capability report''"

definition assemble_report ::
  "u64 option \<Rightarrow> u64 set \<Rightarrow> (u64 \<times> openraft_peer) list \<Rightarrow> (u64 \<times> (string, node_capabilities) result) list \<Rightarrow> capability_report" where
  "assemble_report leader voters members caps =
     \<lparr>cr_members = map (\<lambda>member. \<lparr>mc_member = entry_of voters member,
        mc_caps = capability_of (map_of (rev caps) (fst member))\<rparr>) members,
      cr_leader = leader\<rparr>"

definition admin_view :: "'s membership_api \<Rightarrow> 's \<Rightarrow> membership_view" where
  "admin_view api s =
     \<lparr>mv_members = map (entry_of (mp_voter_ids api s)) (mp_nodes api s),
      mv_leader = rm_current_leader (ra_metrics (mp_raft api) s)\<rparr>"

definition add_learner :: "'s membership_api \<Rightarrow> new_member \<Rightarrow> 's \<Rightarrow> (admin_error, unit) result \<times> 's" where
  "add_learner api member s =
     (if list_ex (\<lambda>entry. me_id entry = nm_id member) (mv_members (admin_view api s)) then (Inr (), s)
      else apfst (map_err (map_write_error (mp_write_to_string api)))
        (mp_add_learner api (nm_id member)
           \<lparr>op_addr = nm_raft_addr member, op_service_endpoint = nm_service_endpoint member,
            op_admin_endpoint = nm_admin_endpoint member\<rparr> True s))"

definition promote :: "'s membership_api \<Rightarrow> u64 \<Rightarrow> 's \<Rightarrow> (admin_error, unit) result \<times> 's" where
  "promote api i s =
     (let view = admin_view api s in
      case find (\<lambda>entry. me_id entry = i) (mv_members view) of
        None \<Rightarrow> (Inl (AdNotMember i), s)
      | Some entry \<Rightarrow>
          if me_role entry = Voter then (Inr (), s)
          else apfst (map_err (map_write_error (mp_write_to_string api)))
            (mp_change_membership api (voters_with (voter_ids view) i) False s))"

definition remove :: "'s membership_api \<Rightarrow> u64 \<Rightarrow> 's \<Rightarrow> (admin_error, unit) result \<times> 's" where
  "remove api i s =
     (let view = admin_view api s; voters = voter_ids view in
      if \<not> list_ex (\<lambda>entry. me_id entry = i) (mv_members view) then (Inr (), s)
      else if i \<in> voters \<and> card voters \<le> 1 then (Inl AdWouldLoseQuorum, s)
      else apfst (map_err (map_write_error (mp_write_to_string api)))
        (mp_change_membership api (voters_without voters i) False s))"

text \<open>\<open>query\<close> is what the peer capability source answers for a member.\<close>

definition activate_format ::
  "'s membership_api \<Rightarrow> (u64 \<Rightarrow> openraft_peer \<Rightarrow> (string, node_capabilities) result) \<Rightarrow> u8 \<Rightarrow> 's
     \<Rightarrow> (admin_error, unit) result option \<times> 's" where
  "activate_format api query target s =
     apfst (\<lambda>r. case r of Inr u \<Rightarrow> Some (Inr u) | Inl e \<Rightarrow> map_option Inl (map_activation_error e))
       (initiate_format_activation (mp_raft api) target query s)"

definition report_capabilities ::
  "'s membership_api \<Rightarrow> (u64 \<Rightarrow> openraft_peer \<Rightarrow> (string, node_capabilities) result) \<Rightarrow> 's
     \<Rightarrow> (admin_error, capability_report) result" where
  "report_capabilities api query s =
     (let metrics = ra_metrics (mp_raft api) s; members = mp_nodes api s;
          caps = report_with (rm_id metrics) (local_capabilities (host_active_write_version (mp_raft api) s)) members query
      in Inr (assemble_report (rm_current_leader metrics) (mp_voter_ids api s) members caps))"

definition openraft_admin ::
  "'s membership_api \<Rightarrow> (u64 \<Rightarrow> openraft_peer \<Rightarrow> (string, node_capabilities) result) \<Rightarrow> 's membership_admin" where
  "openraft_admin api query =
     \<lparr>ad_list_members = \<lambda>s. Inr (admin_view api s), ad_add_learner = add_learner api, ad_promote = promote api,
      ad_remove = remove api, ad_activate_format = activate_format api query,
      ad_report_capabilities = report_capabilities api query\<rparr>"

section \<open>The gRPC service\<close>

datatype admin_error_kind =
    KindUnspecified | KindNotLeader | KindUnsupported | KindNotMember | KindNotCaughtUp | KindWouldLoseQuorum
  | KindTimeout | KindDriver | KindMembersBelowTarget | KindTargetOutOfRange | KindMembershipChanged

fun kind_as_i32 :: "admin_error_kind \<Rightarrow> int" where
  "kind_as_i32 KindUnspecified = 0"
| "kind_as_i32 KindNotLeader = 1"
| "kind_as_i32 KindUnsupported = 2"
| "kind_as_i32 KindNotMember = 3"
| "kind_as_i32 KindNotCaughtUp = 4"
| "kind_as_i32 KindWouldLoseQuorum = 5"
| "kind_as_i32 KindTimeout = 6"
| "kind_as_i32 KindDriver = 7"
| "kind_as_i32 KindMembersBelowTarget = 8"
| "kind_as_i32 KindTargetOutOfRange = 9"
| "kind_as_i32 KindMembershipChanged = 10"

record change_response =
  chr_ok :: bool
  chr_error :: int
  chr_leader_admin_endpoint :: str
  chr_message :: string

definition change_ok :: change_response where
  "change_ok = \<lparr>chr_ok = True, chr_error = kind_as_i32 KindUnspecified, chr_leader_admin_endpoint = [], chr_message = []\<rparr>"

fun change_err_parts :: "admin_error \<Rightarrow> admin_error_kind \<times> str \<times> string" where
  "change_err_parts (AdNotLeader e) = (KindNotLeader, (case e of None \<Rightarrow> [] | Some x \<Rightarrow> x), ''not the leader'')"
| "change_err_parts AdUnsupported = (KindUnsupported, [], ''unsupported'')"
| "change_err_parts (AdNotMember i) = (KindNotMember, [], ''node '' @ show_word i @ '' not a member'')"
| "change_err_parts (AdNotCaughtUp i) = (KindNotCaughtUp, [], ''node '' @ show_word i @ '' not caught up'')"
| "change_err_parts AdWouldLoseQuorum = (KindWouldLoseQuorum, [], ''would lose quorum'')"
| "change_err_parts AdTimeout = (KindTimeout, [], ''timed out'')"
| "change_err_parts (AdMembersBelowTarget target incapable) = (KindMembersBelowTarget, [],
     ''format activation to target '' @ show_word target @ '' blocked: members below target: '' @ show_incapable incapable)"
| "change_err_parts (AdTargetOutOfRange target mn mx) = (KindTargetOutOfRange, [],
     ''format activation: target '' @ show_word target @ '' outside readable range ['' @ show_word mn @ '', '' @ show_word mx @ '']'')"
| "change_err_parts (AdMembershipChangedSinceGate target) = (KindMembershipChanged, [],
     ''format activation to target '' @ show_word target @ '' no-op: membership changed since gate'')"
| "change_err_parts (AdDriver detail) = (KindDriver, [], detail)"

definition change_err :: "admin_error \<Rightarrow> change_response" where
  "change_err err = (case change_err_parts err of (kind, leader, message) \<Rightarrow>
     \<lparr>chr_ok = False, chr_error = kind_as_i32 kind, chr_leader_admin_endpoint = leader, chr_message = message\<rparr>)"

fun change_resp :: "(admin_error, unit) result \<Rightarrow> change_response" where
  "change_resp (Inr _) = change_ok"
| "change_resp (Inl err) = change_err err"

fun role_as_i32 :: "member_role \<Rightarrow> int" where
  "role_as_i32 Voter = 1"
| "role_as_i32 Learner = 2"

record pb_member_entry =
  pme_id :: u64
  pme_role :: int
  pme_raft_addr :: str
  pme_service_endpoint :: str
  pme_admin_endpoint :: str

record pb_membership_view =
  pmv_members :: "pb_member_entry list"
  pmv_has_leader :: bool
  pmv_leader :: u64

definition pb_entry :: "member_entry \<Rightarrow> pb_member_entry" where
  "pb_entry m = \<lparr>pme_id = me_id m, pme_role = role_as_i32 (me_role m), pme_raft_addr = me_raft_addr m,
     pme_service_endpoint = me_service_endpoint m, pme_admin_endpoint = me_admin_endpoint m\<rparr>"

definition leader_default :: "u64 option \<Rightarrow> u64" where
  "leader_default l = (case l of None \<Rightarrow> 0 | Some i \<Rightarrow> i)"

definition svc_list_members :: "'s membership_admin \<Rightarrow> 's \<Rightarrow> (status_code, pb_membership_view) result" where
  "svc_list_members admin s =
     (case ad_list_members admin s of
        Inl _ \<Rightarrow> Inl Internal
      | Inr view \<Rightarrow> Inr \<lparr>pmv_members = map pb_entry (mv_members view), pmv_has_leader = mv_leader view \<noteq> None,
          pmv_leader = leader_default (mv_leader view)\<rparr>)"

definition svc_add_learner :: "'s membership_admin \<Rightarrow> new_member \<Rightarrow> 's \<Rightarrow> (status_code, change_response) result \<times> 's" where
  "svc_add_learner admin request s = apfst (\<lambda>r. Inr (change_resp r)) (ad_add_learner admin request s)"

definition svc_promote :: "'s membership_admin \<Rightarrow> u64 \<Rightarrow> 's \<Rightarrow> (status_code, change_response) result \<times> 's" where
  "svc_promote admin i s = apfst (\<lambda>r. Inr (change_resp r)) (ad_promote admin i s)"

definition svc_remove_node :: "'s membership_admin \<Rightarrow> u64 \<Rightarrow> 's \<Rightarrow> (status_code, change_response) result \<times> 's" where
  "svc_remove_node admin i s = apfst (\<lambda>r. Inr (change_resp r)) (ad_remove admin i s)"

text \<open>A panic of the handler reaches the caller as a failed call, which tonic reports as \<open>Cancelled\<close>;
  the model keeps it apart as \<open>None\<close>.\<close>

definition svc_activate_format ::
  "'s membership_admin \<Rightarrow> u32 \<Rightarrow> 's \<Rightarrow> (status_code, change_response) result option \<times> 's" where
  "svc_activate_format admin target_u32 s =
     (if target_u32 > 255 then (Some (Inl InvalidArgument), s)
      else apfst (map_option (\<lambda>r. Inr (change_resp r))) (ad_activate_format admin (ucast target_u32) s))"

record pb_member_capabilities =
  pmc_entry :: pb_member_entry
  pmc_reachable :: bool
  pmc_min_readable_version :: u32
  pmc_max_readable_version :: u32
  pmc_active_write_version :: u32
  pmc_unreachable_detail :: string

record pb_capability_report =
  pcr_members :: "pb_member_capabilities list"
  pcr_has_leader :: bool
  pcr_leader :: u64

fun pb_caps :: "member_capability \<Rightarrow> pb_member_capabilities" where
  "pb_caps entry = (case mc_caps entry of
       CapReported mn mx act \<Rightarrow> \<lparr>pmc_entry = pb_entry (mc_member entry), pmc_reachable = True, pmc_min_readable_version = ucast mn,
         pmc_max_readable_version = ucast mx, pmc_active_write_version = ucast act, pmc_unreachable_detail = []\<rparr>
     | CapUnreachable detail \<Rightarrow> \<lparr>pmc_entry = pb_entry (mc_member entry), pmc_reachable = False, pmc_min_readable_version = 0,
         pmc_max_readable_version = 0, pmc_active_write_version = 0, pmc_unreachable_detail = detail\<rparr>)"

definition svc_report_capabilities :: "'s membership_admin \<Rightarrow> 's \<Rightarrow> (status_code, pb_capability_report) result" where
  "svc_report_capabilities admin s =
     (case ad_report_capabilities admin s of
        Inl AdUnsupported \<Rightarrow> Inl Unimplemented
      | Inl _ \<Rightarrow> Inl Internal
      | Inr report \<Rightarrow> Inr \<lparr>pcr_members = map pb_caps (cr_members report), pcr_has_leader = cr_leader report \<noteq> None,
          pcr_leader = leader_default (cr_leader report)\<rparr>)"

section \<open>The toolkit's wrappers\<close>

text \<open>\<open>show_node\<close> is the debug rendering of a node in the hint.\<close>

datatype membership_error = MseNotLeader "string option" | MseConflict string | MseOther string

fun membership_error_of ::
  "(openraft_peer \<Rightarrow> string) \<Rightarrow> (raft_write_error \<Rightarrow> string) \<Rightarrow> raft_write_error \<Rightarrow> membership_error" where
  "membership_error_of show_node to_string (RweForwardToLeader leader_node) = MseNotLeader (map_option show_node leader_node)"
| "membership_error_of show_node to_string (RweChangeMembership e) = MseConflict (to_string (RweChangeMembership e))"
| "membership_error_of show_node to_string (RweFatal e) = MseOther (to_string (RweFatal e))"

definition tk_change_membership ::
  "'s membership_api \<Rightarrow> (openraft_peer \<Rightarrow> string) \<Rightarrow> u64 set \<Rightarrow> bool \<Rightarrow> 's \<Rightarrow> (membership_error, unit) result \<times> 's" where
  "tk_change_membership api show_node voters retain s =
     apfst (map_err (membership_error_of show_node (mp_write_to_string api))) (mp_change_membership api voters retain s)"

definition tk_add_learner ::
  "'s membership_api \<Rightarrow> (openraft_peer \<Rightarrow> string) \<Rightarrow> u64 \<Rightarrow> openraft_peer \<Rightarrow> bool \<Rightarrow> 's \<Rightarrow> (membership_error, unit) result \<times> 's" where
  "tk_add_learner api show_node i node blocking s =
     apfst (map_err (membership_error_of show_node (mp_write_to_string api))) (mp_add_learner api i node blocking s)"

datatype gated_admission_error = GaGate joiner_gate_error | GaMembership membership_error

definition add_learner_gated ::
  "'s membership_api \<Rightarrow> (openraft_peer \<Rightarrow> string) \<Rightarrow> u64 \<Rightarrow> openraft_peer \<Rightarrow> bool \<Rightarrow> u8 \<Rightarrow> u8 \<Rightarrow> 's
     \<Rightarrow> (gated_admission_error, unit) result \<times> 's" where
  "add_learner_gated api show_node i node blocking candidate_max active s =
     (case learner_meets_active_write_version candidate_max active of
        Inl e \<Rightarrow> (Inl (GaGate e), s)
      | Inr _ \<Rightarrow> apfst (map_err GaMembership) (tk_add_learner api show_node i node blocking s))"

datatype bootstrap_mode = Fresh "(u64, openraft_peer) btree_map" | Reopen

datatype bootstrap_error = UnexpectedExistingState | BootInitialize string

fun bootstrap :: "'s membership_api \<Rightarrow> bootstrap_mode \<Rightarrow> 's \<Rightarrow> (bootstrap_error, unit) result \<times> 's" where
  "bootstrap api (Fresh initial_members) s =
     (case mp_initialize api initial_members s of
        (Inr _, s') \<Rightarrow> (Inr (), s')
      | (Inl InitNotAllowed, s') \<Rightarrow> (Inl UnexpectedExistingState, s')
      | (Inl e, s') \<Rightarrow> (Inl (BootInitialize (mp_init_to_string api e)), s'))"
| "bootstrap api Reopen s = (Inr (), s)"

section \<open>Leadership handoff\<close>

text \<open>\<open>Iterator::max_by_key\<close>: the last of the greatest elements.\<close>

fun max_by_key :: "('a \<Rightarrow> 'k::linorder) \<Rightarrow> 'a list \<Rightarrow> 'a option" where
  "max_by_key f [] = None"
| "max_by_key f (x # xs) = (case max_by_key f xs of None \<Rightarrow> Some x | Some y \<Rightarrow> Some (if f x \<le> f y then y else x))"

definition matched_index :: "(u64, u64) btree_map \<Rightarrow> u64 \<Rightarrow> u64" where
  "matched_index matched i = (case bt_get matched i of None \<Rightarrow> 0 | Some v \<Rightarrow> v)"

definition pick_handoff_target :: "u64 \<Rightarrow> u64 set \<Rightarrow> (u64, u64) btree_map \<Rightarrow> u64 option" where
  "pick_handoff_target me voters matched =
     max_by_key (matched_index matched) (filter (\<lambda>i. i \<noteq> me) (sorted_list_of_set voters))"

definition replication_matched :: "(u64, log_id option) btree_map option \<Rightarrow> (u64, u64) btree_map" where
  "replication_matched r = (case r of None \<Rightarrow> [] | Some reps \<Rightarrow>
     bt_collect (List.map_filter (\<lambda>(i, log). map_option (\<lambda>l. (i, lid_index l)) log) reps))"

text \<open>
  How the handoff ends; \<open>polls\<close> are the states the wait loop finds before its deadline, fifty
  milliseconds apart.
\<close>

datatype handoff = NotLeading | NoTarget | TransferFailed u64 | HandedOff u64 | WaitElapsed u64

definition graceful_leader_handoff :: "'s membership_api \<Rightarrow> u64 \<Rightarrow> 's list \<Rightarrow> 's \<Rightarrow> handoff \<times> 's" where
  "graceful_leader_handoff api me polls s =
     (if mp_current_leader api s \<noteq> Some me then (NotLeading, s)
      else case pick_handoff_target me (mp_voter_ids api s) (replication_matched (mp_replication api s)) of
        None \<Rightarrow> (NoTarget, s)
      | Some target \<Rightarrow>
          (case mp_transfer_leader api target s of
             (Inl _, s') \<Rightarrow> (TransferFailed target, s')
           | (Inr _, s') \<Rightarrow>
               (case find (\<lambda>p. mp_current_leader api p \<noteq> Some me) polls of
                  Some p \<Rightarrow> (HandedOff target, p)
                | None \<Rightarrow> (WaitElapsed target, if polls = [] then s' else last polls))))"

end
