(* ===== verification/Admin_Membership.thy ===== *)
theory Admin_Membership
  imports Admin
begin

text \<open>
  What the membership operations of the admin achieve: the contract of openraft's membership
  calls as a locale, an abstract membership the operations refine, the contract discharged for
  membership changes committed to a Raft log, the answers of a node that does not lead, and what
  a successful format activation has established.
\<close>

section \<open>What openraft promises of a membership change\<close>

text \<open>
  On success the voters are the ones asked for and only voters that lost their vote leave the
  nodes (\<open>retain\<close> is false in every call of the admin); a learner is added with its node; a
  node that does not lead forwards and changes nothing. \<open>mok\<close> is openraft's own validity of a
  membership: ids in order, and a node for every voter.
\<close>

locale membership_raft =
  fixes api :: "'s membership_api" and mok :: "'s \<Rightarrow> bool"
  assumes nodes_wf: "mok s \<Longrightarrow> bt_wf (mp_nodes api s)"
    and voters_are_nodes: "mok s \<Longrightarrow> mp_voter_ids api s \<subseteq> fst ` set (mp_nodes api s)"
    and change_ok: "mok s \<Longrightarrow> mp_change_membership api vs False s = (Inr (), s') \<Longrightarrow>
      mp_voter_ids api s' = vs
      \<and> mp_nodes api s' = bt_retain (\<lambda>i _. i \<in> vs \<or> i \<notin> mp_voter_ids api s) (mp_nodes api s)"
    and add_ok: "mok s \<Longrightarrow> bt_get (mp_nodes api s) i = None \<Longrightarrow> mp_add_learner api i node b s = (Inr (), s') \<Longrightarrow>
      mp_voter_ids api s' = mp_voter_ids api s \<and> mp_nodes api s' = bt_insert i node (mp_nodes api s)"
    and change_mok: "mok s \<Longrightarrow> mok (snd (mp_change_membership api vs r s))"
    and add_mok: "mok s \<Longrightarrow> mok (snd (mp_add_learner api i node b s))"
    and change_forwards: "\<not> is_local_leader (mp_raft api) s \<Longrightarrow>
      \<exists>hint. mp_change_membership api vs r s = (Inl (RweForwardToLeader hint), s)"
    and add_forwards: "\<not> is_local_leader (mp_raft api) s \<Longrightarrow>
      \<exists>hint. mp_add_learner api i node b s = (Inl (RweForwardToLeader hint), s)"

text \<open>
  The abstract membership: every member's role and addresses, and what an operation that
  reports success has done to it.
\<close>

type_synonym membership_map = "u64 \<rightharpoonup> member_role \<times> openraft_peer"

datatype admin_op = OpAddLearner new_member | OpPromote u64 | OpRemove u64

definition peer_of :: "new_member \<Rightarrow> openraft_peer" where
  "peer_of m = \<lparr>op_addr = nm_raft_addr m, op_service_endpoint = nm_service_endpoint m, op_admin_endpoint = nm_admin_endpoint m\<rparr>"

fun run_admin :: "'s membership_api \<Rightarrow> admin_op \<Rightarrow> 's \<Rightarrow> (admin_error, unit) result \<times> 's" where
  "run_admin api (OpAddLearner m) s = add_learner api m s"
| "run_admin api (OpPromote i) s = promote api i s"
| "run_admin api (OpRemove i) s = remove api i s"

text \<open>
  The change each operation makes. It describes what the code does: the removal of a learner is
  answered ok and changes nothing.
\<close>

fun spec_admin :: "admin_op \<Rightarrow> membership_map \<Rightarrow> membership_map" where
  "spec_admin (OpAddLearner m) M = (if M (nm_id m) = None then M(nm_id m \<mapsto> (Learner, peer_of m)) else M)"
| "spec_admin (OpPromote i) M = M(i := map_option (\<lambda>(_, node). (Voter, node)) (M i))"
| "spec_admin (OpRemove i) M = (case M i of Some (Voter, _) \<Rightarrow> M(i := None) | _ \<Rightarrow> M)"

definition member_map :: "'s membership_api \<Rightarrow> 's \<Rightarrow> membership_map" where
  "member_map api s i = map_option (Pair (if i \<in> mp_voter_ids api s then Voter else Learner)) (bt_get (mp_nodes api s) i)"

lemma list_ex_view:
  "list_ex (\<lambda>e. me_id e = i) (mv_members (admin_view api s)) \<longleftrightarrow> bt_get (mp_nodes api s) i \<noteq> None"
  by (force simp: admin_view_def entry_of_def list_ex_iff bt_get_eq_None_iff)

lemma find_entry_of:
  "find (\<lambda>e. me_id e = i) (map (entry_of vs) m) = map_option (\<lambda>node. entry_of vs (i, node)) (bt_get m i)"
  by (induction m) (auto simp: entry_of_def bt_get_def)

lemma voter_ids_view:
  "voter_ids (admin_view api s) = mp_voter_ids api s \<inter> fst ` set (mp_nodes api s)"
proof -
  have "set (map me_id (filter (\<lambda>e. me_role e = Voter) (map (entry_of vs) m))) = vs \<inter> fst ` set m" for vs m
    by (induction m) (auto simp: entry_of_def)
  then show ?thesis by (simp add: voter_ids_def admin_view_def)
qed

lemma apfst_map_err_Inr: "apfst (map_err f) r = (Inr (), s') \<longleftrightarrow> r = (Inr (), s')"
  by (cases r) (auto simp: map_err_Inr_iff)

context membership_raft
begin

lemma voter_ids_eq: "mok s \<Longrightarrow> voter_ids (admin_view api s) = mp_voter_ids api s"
  using voters_are_nodes [of s] by (auto simp: voter_ids_view)

lemma member_map_change:
  assumes "mok s" "mp_change_membership api vs False s = (Inr (), s')"
  shows "member_map api s' = (\<lambda>i. if i \<in> vs then map_option (Pair Voter) (bt_get (mp_nodes api s) i)
    else if i \<in> mp_voter_ids api s then None else member_map api s i)"
  using change_ok [OF assms] nodes_wf [OF assms(1)]
  by (auto simp: member_map_def fun_eq_iff bt_simps split: option.splits)

lemma add_learner_refines:
  assumes "mok s" "add_learner api m s = (Inr (), s')"
  shows "member_map api s' = spec_admin (OpAddLearner m) (member_map api s)"
proof (cases "bt_get (mp_nodes api s) (nm_id m)")
  case None
  then have "mp_add_learner api (nm_id m) (peer_of m) True s = (Inr (), s')"
    using assms(2) by (simp add: add_learner_def list_ex_view apfst_map_err_Inr peer_of_def)
  from add_ok [OF assms(1) None this] None voters_are_nodes [OF assms(1)] show ?thesis
    by (auto simp: member_map_def fun_eq_iff bt_simps bt_get_eq_None_iff)
next
  case (Some node)
  with assms(2) show ?thesis by (auto simp: add_learner_def list_ex_view member_map_def)
qed

lemma promote_refines:
  assumes "mok s" "promote api i s = (Inr (), s')"
  shows "member_map api s' = spec_admin (OpPromote i) (member_map api s)"
proof (cases "bt_get (mp_nodes api s) i")
  case None
  with assms(2) show ?thesis by (simp add: promote_def admin_view_def find_entry_of)
next
  case (Some node)
  show ?thesis
  proof (cases "i \<in> mp_voter_ids api s")
    case True
    with assms(2) Some show ?thesis
      by (auto simp: promote_def admin_view_def find_entry_of entry_of_def member_map_def fun_eq_iff)
  next
    case False
    with assms Some have "mp_change_membership api (insert i (mp_voter_ids api s)) False s = (Inr (), s')"
      using voter_ids_eq [OF assms(1)]
      by (simp add: promote_def find_entry_of entry_of_def voters_with_def apfst_map_err_Inr
          admin_view_def Let_def)
    from member_map_change [OF assms(1) this] Some False show ?thesis
      by (auto simp: fun_eq_iff member_map_def)
  qed
qed

lemma remove_refines:
  assumes "mok s" "remove api i s = (Inr (), s')"
  shows "member_map api s' = spec_admin (OpRemove i) (member_map api s)"
proof (cases "bt_get (mp_nodes api s) i")
  case None
  with assms(2) show ?thesis by (simp add: remove_def list_ex_view member_map_def)
next
  case (Some node)
  with assms have "mp_change_membership api (mp_voter_ids api s - {i}) False s = (Inr (), s')"
    by (auto simp: remove_def list_ex_view voter_ids_eq voters_without_def apfst_map_err_Inr Let_def split: if_splits)
  from member_map_change [OF assms(1) this] Some show ?thesis
    by (auto simp: fun_eq_iff member_map_def)
qed

lemma run_admin_refines:
  "mok s \<Longrightarrow> run_admin api opr s = (Inr (), s') \<Longrightarrow> member_map api s' = spec_admin opr (member_map api s)"
  by (cases opr) (simp_all only: run_admin.simps add_learner_refines promote_refines remove_refines)

end

section \<open>Membership changes in a committed log\<close>

text \<open>
  A node over a committed log whose membership changes are entries of the log; \<open>an_voters\<close> and
  the nodes of its metrics are the membership in effect. It meets the contract.
\<close>

record admin_node =
  an_node :: raft_node
  an_voters :: "u64 set"

definition on_node :: "(raft_node \<Rightarrow> 'r \<times> raft_node) \<Rightarrow> admin_node \<Rightarrow> 'r \<times> admin_node" where
  "on_node f s = apsnd (\<lambda>n. s\<lparr>an_node := n\<rparr>) (f (an_node s))"

definition an_nodes :: "admin_node \<Rightarrow> (u64, openraft_peer) btree_map" where
  "an_nodes s = rm_nodes (rn_metrics (an_node s))"

definition an_leads :: "admin_node \<Rightarrow> bool" where
  "an_leads s \<longleftrightarrow> rm_state (rn_metrics (an_node s)) = RoleLeader"

definition forward_hint :: "admin_node \<Rightarrow> raft_write_error" where
  "forward_hint s = RweForwardToLeader (Option.bind (rm_current_leader (rn_metrics (an_node s))) (bt_get (an_nodes s)))"

definition commit_membership :: "(u64 \<Rightarrow> u64) \<Rightarrow> u64 \<Rightarrow> u64 set \<Rightarrow> (u64, openraft_peer) btree_map \<Rightarrow> admin_node
    \<Rightarrow> (raft_write_error, unit) result \<times> admin_node" where
  "commit_membership led me vs nodes s =
     (let n = an_node s; n0 = n\<lparr>rn_replies := tl (rn_replies n)\<rparr>
      in case rn_replies n of
        Commit ahead t # _ \<Rightarrow>
          (let entry = \<lparr>en_log_id = LogId t me (of_nat (length (rn_log n) + length ahead)),
                 en_payload = MembershipEntry \<lparr>mb_configs = [sorted_list_of_set vs], mb_nodes = nodes\<rparr>\<rparr>
           in if led t = me \<and> lawful_entries (rn_term n) (ahead @ [entry]) t
              then (Inr (), \<lparr>an_node = (snd (catch_up (ahead @ [entry]) t n0))\<lparr>rn_metrics := (rn_metrics n)\<lparr>rm_nodes := nodes\<rparr>\<rparr>,
                 an_voters = vs\<rparr>)
              else (Inl (RweFatal ''refused''), s\<lparr>an_node := n0\<rparr>))
      | _ \<Rightarrow> (Inl (RweFatal ''refused''), s\<lparr>an_node := n0\<rparr>))"

definition log_change_membership :: "(u64 \<Rightarrow> u64) \<Rightarrow> u64 \<Rightarrow> u64 set \<Rightarrow> bool \<Rightarrow> admin_node
    \<Rightarrow> (raft_write_error, unit) result \<times> admin_node" where
  "log_change_membership led me vs retain s =
     (if \<not> an_leads s then (Inl (forward_hint s), s)
      else if vs = {} then (Inl (RweChangeMembership CmeEmptyMembership), s)
      else case filter (\<lambda>i. bt_get (an_nodes s) i = None) (sorted_list_of_set vs) of
        i # _ \<Rightarrow> (Inl (RweChangeMembership (CmeLearnerNotFound i)), s)
      | [] \<Rightarrow> commit_membership led me vs (bt_retain (\<lambda>i _. i \<in> vs \<or> retain \<or> i \<notin> an_voters s) (an_nodes s)) s)"

definition log_add_learner :: "(u64 \<Rightarrow> u64) \<Rightarrow> u64 \<Rightarrow> u64 \<Rightarrow> openraft_peer \<Rightarrow> bool \<Rightarrow> admin_node
    \<Rightarrow> (raft_write_error, unit) result \<times> admin_node" where
  "log_add_learner led me i node blocking s =
     (if \<not> an_leads s then (Inl (forward_hint s), s)
      else commit_membership led me (an_voters s)
        (if bt_get (an_nodes s) i = None then bt_insert i node (an_nodes s) else an_nodes s) s)"

definition log_admin_raft :: "(u64 \<Rightarrow> u64) \<Rightarrow> u64 \<Rightarrow> admin_node raft_api" where
  "log_admin_raft led me =
     \<lparr>ra_client_write = \<lambda>cmd. on_node (log_client_write led me cmd),
      ra_ensure_linearizable = on_node (log_ensure_linearizable led me),
      ra_metrics = \<lambda>s. rn_metrics (an_node s), ra_state_machine = \<lambda>s. rn_sm (an_node s)\<rparr>"

definition log_membership :: "(u64 \<Rightarrow> u64) \<Rightarrow> u64 \<Rightarrow> admin_node membership_api" where
  "log_membership led me =
     \<lparr>mp_raft = log_admin_raft led me, mp_voter_ids = an_voters, mp_replication = \<lambda>_. None,
      mp_current_leader = \<lambda>s. rm_current_leader (rn_metrics (an_node s)),
      mp_add_learner = log_add_learner led me, mp_change_membership = log_change_membership led me,
      mp_initialize = \<lambda>_ s. (Inl InitNotAllowed, s),
      mp_transfer_leader = \<lambda>_ s. (Inr (), s),
      mp_write_to_string = \<lambda>_. ''raft error'', mp_init_to_string = \<lambda>_. ''not allowed''\<rparr>"

definition membership_valid :: "admin_node \<Rightarrow> bool" where
  "membership_valid s \<longleftrightarrow> bt_wf (an_nodes s) \<and> an_voters s \<subseteq> fst ` set (an_nodes s)"

lemma log_membership_simps [simp]:
  "mp_nodes (log_membership led me) s = an_nodes s" "mp_voter_ids (log_membership led me) = an_voters"
  "mp_raft (log_membership led me) = log_admin_raft led me"
  "mp_change_membership (log_membership led me) = log_change_membership led me"
  "mp_add_learner (log_membership led me) = log_add_learner led me"
  "is_local_leader (log_admin_raft led me) s = an_leads s"
  by (simp_all add: mp_nodes_def log_membership_def log_admin_raft_def an_nodes_def is_local_leader_def an_leads_def)

lemma commit_membership_ok:
  "commit_membership led me vs nodes s = (Inr (), s') \<Longrightarrow> an_voters s' = vs \<and> an_nodes s' = nodes"
  by (auto simp: commit_membership_def Let_def an_nodes_def split: list.splits raft_reply.splits if_splits)

lemma commit_membership_err:
  "commit_membership led me vs nodes s = (Inl e, s') \<Longrightarrow> an_voters s' = an_voters s \<and> an_nodes s' = an_nodes s"
  by (auto simp: commit_membership_def Let_def an_nodes_def split: list.splits raft_reply.splits if_splits)

lemma commit_membership_valid:
  assumes "membership_valid s" "bt_wf nodes" "vs \<subseteq> fst ` set nodes"
  shows "membership_valid (snd (commit_membership led me vs nodes s))"
proof (cases "commit_membership led me vs nodes s")
  case (Pair r s')
  with assms show ?thesis
    by (cases r) (auto simp: membership_valid_def dest!: commit_membership_ok commit_membership_err)
qed

lemma no_missing:
  assumes "filter (\<lambda>i. bt_get m i = None) (sorted_list_of_set (vs :: u64 set)) = []"
  shows "vs \<subseteq> fst ` set m"
proof
  fix i assume "i \<in> vs"
  then have "i \<in> set (sorted_list_of_set vs)" by simp
  with assms have "bt_get m i \<noteq> None" by (auto simp: filter_empty_conv)
  then show "i \<in> fst ` set m" by (simp add: bt_get_eq_None_iff)
qed

lemma keys_bt_retain: "fst ` set (bt_retain (\<lambda>i _. P i) m) = {i \<in> fst ` set m. P i}"
  by (auto simp: bt_retain_def)

interpretation logm: membership_raft "log_membership led me" membership_valid
proof (unfold_locales, goal_cases)
  case (1 s)
  then show ?case by (simp add: membership_valid_def)
next
  case (2 s)
  then show ?case by (simp add: membership_valid_def)
next
  case (3 s vs s')
  then show ?case
    by (auto simp: log_change_membership_def split: if_splits list.splits dest: commit_membership_ok)
next
  case (4 s i node b s')
  then show ?case by (auto simp: log_add_learner_def split: if_splits dest: commit_membership_ok)
next
  case (5 s vs r)
  then show ?case
    by (auto simp: log_change_membership_def keys_bt_retain bt.wf_retain membership_valid_def [of s]
        split: list.splits dest: no_missing [THEN subsetD] intro!: commit_membership_valid)
next
  case (6 s i node b)
  then show ?case
    by (auto simp: log_add_learner_def keys_bt_insert membership_valid_def [of s] intro!: commit_membership_valid)
next
  case (7 s vs r)
  then show ?case by (auto simp: log_change_membership_def forward_hint_def)
next
  case (8 s i node b)
  then show ?case by (auto simp: log_add_learner_def forward_hint_def)
qed

section \<open>A node that does not lead\<close>

fun noop_for :: "admin_op \<Rightarrow> membership_map \<Rightarrow> bool" where
  "noop_for (OpAddLearner m) M = (M (nm_id m) \<noteq> None)"
| "noop_for (OpPromote i) M = (map_option fst (M i) = Some Voter)"
| "noop_for (OpRemove i) M = (M i = None)"

lemma apfst_forward:
  assumes "\<exists>hint. r = (Inl (RweForwardToLeader hint), s)"
  shows "snd (apfst (map_err (map_write_error f)) r) = s \<and> \<not> is_ok (fst (apfst (map_err (map_write_error f)) r))"
  using assms by auto

context membership_raft
begin

lemma add_learner_follower:
  assumes "\<not> is_local_leader (mp_raft api) s"
  shows "snd (add_learner api m s) = s \<and> (is_ok (fst (add_learner api m s)) \<longleftrightarrow> noop_for (OpAddLearner m) (member_map api s))"
  using apfst_forward [OF add_forwards [OF assms]]
  by (auto simp: add_learner_def list_ex_view member_map_def)

lemma promote_follower:
  assumes "\<not> is_local_leader (mp_raft api) s"
  shows "snd (promote api i s) = s \<and> (is_ok (fst (promote api i s)) \<longleftrightarrow> noop_for (OpPromote i) (member_map api s))"
  using apfst_forward [OF change_forwards [OF assms]]
  by (auto simp: promote_def admin_view_def Let_def find_entry_of member_map_def entry_of_def split: option.splits)

lemma remove_follower:
  assumes "\<not> is_local_leader (mp_raft api) s"
  shows "snd (remove api i s) = s \<and> (is_ok (fst (remove api i s)) \<longleftrightarrow> noop_for (OpRemove i) (member_map api s))"
  using apfst_forward [OF change_forwards [OF assms]]
  by (auto simp: remove_def Let_def list_ex_view member_map_def)

lemma run_admin_follower:
  "\<not> is_local_leader (mp_raft api) s \<Longrightarrow>
    snd (run_admin api opr s) = s \<and> (is_ok (fst (run_admin api opr s)) \<longleftrightarrow> noop_for opr (member_map api s))"
  by (cases opr) (simp_all only: run_admin.simps add_learner_follower promote_follower remove_follower simp_thms)

end

section \<open>Format activation\<close>

lemma gather_with_Inr:
  assumes "gather_with local_node caps members query = Inr gathered" "(i, c) \<in> set gathered"
  shows "(i = local_node \<and> c = caps) \<or> (\<exists>node. (i, node) \<in> set members \<and> query i node = Inr c)"
  using assms
proof (induction members arbitrary: gathered)
  case (Cons m members)
  obtain j node where m: "m = (j, node)" by force
  from Cons.prems(1) obtain d ds where d: "(if j = local_node then Inr caps else query j node) = Inr d"
      "gather_with local_node caps members query = Inr ds" "gathered = (j, d) # ds"
    by (auto simp: m and_then_Inr_iff split: sum.splits)
  show ?case
  proof (cases "(i, c) = (j, d)")
    case True
    with d(1) show ?thesis by (auto simp: m split: if_splits)
  next
    case False
    with Cons.prems(2) d(3) have "(i, c) \<in> set ds" by auto
    from Cons.IH [OF d(2) this] show ?thesis by (auto simp: m)
  qed
qed simp

lemma sm_apply_last:
  "sm_apply (map Inr (es @ [e])) sm = (r, as, sm') \<Longrightarrow> \<exists>sm1. apply_entry e sm1 = (last as, sm')"
proof (induction es arbitrary: sm as)
  case Nil
  then show ?case by (auto split: prod.splits)
next
  case (Cons x es)
  obtain a sm1 where 1: "apply_entry x sm = (a, sm1)" by fastforce
  with Cons.prems obtain bs where bs: "sm_apply (map Inr (es @ [e])) sm1 = (r, bs, sm')" "as = a # bs"
    by (auto split: prod.splits)
  from sm_apply_all [OF bs(1)] have "bs \<noteq> []" by auto
  with Cons.IH [OF bs(1)] bs(2) show ?case by simp
qed

lemma client_write_applied:
  assumes "rn_ok s" "log_client_write led me cmd s = (Inr a, s')"
  shows "\<exists>i sm1. apply_entry \<lparr>en_log_id = i, en_payload = Normal cmd\<rparr> sm1 = (a, rn_sm s')"
proof -
  obtain ahead t rs where t: "rn_replies s = Commit ahead t # rs"
    using assms(2) by (auto simp: log_client_write_def Let_def split: list.splits raft_reply.splits)
  let ?e = "\<lparr>en_log_id = LogId t me (of_nat (length (rn_log s) + length ahead)), en_payload = Normal cmd\<rparr>"
  let ?pre = "drop (rn_applied s) (rn_log s @ ahead)"
  obtain as r where c: "sm_apply (map Inr (drop (rn_applied s) (rn_log s @ ahead @ [?e]))) (rn_sm s) = (r, as, rn_sm s')"
      "a = last as"
    using assms(2) t by (auto simp: log_client_write_def catch_up_def Let_def simp del: drop_append split: prod.splits if_splits)
  have "rn_applied s \<le> length (rn_log s)" using assms(1) by (simp add: rn_ok_def replica_ok_def)
  then have "drop (rn_applied s) (rn_log s @ ahead @ [?e]) = ?pre @ [?e]" by simp
  with c sm_apply_last [of ?pre ?e "rn_sm s"] show ?thesis by auto
qed

text \<open>The members a replica knows after an activation it reports as done are the gated ones.\<close>

lemma activated_subset:
  assumes "apply_entry \<lparr>en_log_id = i, en_payload = Normal (SetFormatVersion target gated)\<rparr> sm = (a, sm')"
    and "classify_activation_outcome (ha_outcome a) target = Inr ()"
  shows "sm_active sm' = target \<and> set (committed_members (sm_core sm')) \<subseteq> set gated"
  using assms
  by (auto simp: apply_entry_def apply_set_format_version_def Let_def committed_members_def image_subset_iff split: if_splits)

lemma gate_passes:
  assumes "run_activation_gate api target query s = Inr gated" "i \<in> set gated"
  shows "i = rm_id (ra_metrics api s)
    \<or> (\<exists>node c. (i, node) \<in> set (rm_nodes (ra_metrics api s)) \<and> query i node = Inr c \<and> target \<le> nc_max_readable_version c)"
proof -
  let ?caps = "local_capabilities (host_active_write_version api s)"
  obtain gathered where g: "gather_with (rm_id (ra_metrics api s)) ?caps (rm_nodes (ra_metrics api s)) query = Inr gathered"
      "all_members_can_read target gathered = Some gated"
    using assms(1) by (auto simp: run_activation_gate_def split: if_splits sum.splits option.splits)
  from g(2) assms(2) obtain c where c: "(i, c) \<in> set gathered" "target \<le> nc_max_readable_version c"
    by (fastforce simp: all_members_can_read_def list_all_iff split: if_splits)
  from gather_with_Inr [OF g(1) c(1)] c(2) show ?thesis by blast
qed

lemma activation_sound:
  assumes "rn_ok (an_node s)"
    and "initiate_format_activation (log_admin_raft led me) target query s = (Inr (), s')"
    and "i \<in> set (committed_members (sm_core (rn_sm (an_node s'))))"
  shows "sm_active (rn_sm (an_node s')) = target \<and> in_readable_range target
    \<and> (i = rm_id (rn_metrics (an_node s))
       \<or> (\<exists>node c. (i, node) \<in> set (an_nodes s) \<and> query i node = Inr c \<and> target \<le> nc_max_readable_version c))"
proof -
  obtain gated where gate: "run_activation_gate (log_admin_raft led me) target query s = Inr gated"
    using assms(2) by (auto simp: initiate_format_activation_def split: sum.splits)
  obtain r n where w: "log_client_write led me (SetFormatVersion target gated) (an_node s) = (r, n)" by fastforce
  from assms(2) gate w obtain a where g: "run_activation_gate (log_admin_raft led me) target query s = Inr gated"
      "log_client_write led me (SetFormatVersion target gated) (an_node s) = (Inr a, an_node s')"
      "classify_activation_outcome (ha_outcome a) target = Inr ()"
    by (cases r) (auto simp: initiate_format_activation_def log_admin_raft_def on_node_def)
  from client_write_applied [OF assms(1) g(2)] obtain j sm1 where
    "apply_entry \<lparr>en_log_id = j, en_payload = Normal (SetFormatVersion target gated)\<rparr> sm1 = (a, rn_sm (an_node s'))"
    by blast
  from activated_subset [OF this g(3)] assms(3)
  have *: "sm_active (rn_sm (an_node s')) = target" "i \<in> set gated" by auto
  have "in_readable_range target"
    using g(1) by (auto simp: run_activation_gate_def target_in_local_readable_range_def split: if_splits)
  with * gate_passes [OF g(1) *(2)] show ?thesis by (auto simp: log_admin_raft_def an_nodes_def)
qed

section \<open>Leadership handoff\<close>

lemma max_by_key_eq_None [simp]: "max_by_key f xs = None \<longleftrightarrow> xs = []"
  by (cases xs) (auto split: option.splits)

lemma max_by_key_best:
  "max_by_key f xs = Some x \<Longrightarrow> x \<in> set xs \<and> (\<forall>y \<in> set xs. f y \<le> f x)"
proof (induction xs arbitrary: x)
  case (Cons a xs)
  show ?case
  proof (cases "max_by_key f xs")
    case None
    with Cons.prems show ?thesis by auto
  next
    case (Some y)
    with Cons.IH have "y \<in> set xs" "\<forall>z \<in> set xs. f z \<le> f y" by auto
    with Some Cons.prems show ?thesis by (auto split: if_splits intro: order_trans)
  qed
qed simp

text \<open>
  The handoff goes to another voter that has replicated at least as much as every other; it is
  skipped only where the node is the only voter.
\<close>

lemma pick_handoff_target_best:
  "pick_handoff_target me voters matched = Some t \<Longrightarrow>
     t \<in> voters - {me} \<and> (\<forall>v \<in> voters - {me}. matched_index matched v \<le> matched_index matched t)"
  "pick_handoff_target me voters matched = None \<longleftrightarrow> voters \<subseteq> {me}"
  unfolding pick_handoff_target_def
  by (force dest: max_by_key_best, auto simp: filter_empty_conv)

section \<open>Properties\<close>

text \<open>Node 1 leads; nodes 1 and 2 vote and node 3 learns. Nodes 2 and 3 answer for their formats.\<close>

definition demo_nodes :: "(u64, openraft_peer) btree_map" where
  "demo_nodes = map (\<lambda>i. (i, \<lparr>op_addr = [ucast i], op_service_endpoint = [], op_admin_endpoint = [97, ucast i]\<rparr>)) [1, 2, 3]"

definition demo_admin_log :: "raft_entry list" where
  "demo_admin_log = [\<lparr>en_log_id = LogId 1 1 0, en_payload = MembershipEntry \<lparr>mb_configs = [[1, 2]], mb_nodes = demo_nodes\<rparr>\<rparr>]"

definition demo_admin :: "server_role \<Rightarrow> admin_node" where
  "demo_admin role =
     \<lparr>an_node = \<lparr>rn_replies = [Commit [] 1], rn_log = demo_admin_log, rn_term = 1, rn_applied = 1,
        rn_sm = snd (snd (sm_apply (map Inr demo_admin_log) sm_new)),
        rn_metrics = \<lparr>rm_id = 1, rm_current_term = 1, rm_state = role, rm_current_leader = Some 1, rm_nodes = demo_nodes\<rparr>\<rparr>,
      an_voters = {1, 2}\<rparr>"

definition demo_query :: "u64 \<Rightarrow> openraft_peer \<Rightarrow> (string, node_capabilities) result" where
  "demo_query i node = Inr \<lparr>nc_min_readable_version = 4, nc_max_readable_version = (if i = 2 then 7 else 6), nc_active_write_version = 4\<rparr>"

lemma demo_admin_ok: "membership_valid (demo_admin role)" "rn_ok (an_node (demo_admin role))"
proof -
  show "membership_valid (demo_admin role)"
    by (simp add: membership_valid_def demo_admin_def demo_nodes_def an_nodes_def bt_wf_def)
  have "sm_core (snd (snd (sm_apply (map Inr demo_admin_log) sm_new))) = replay demo_admin_log core_new"
    using sm_apply_all [of demo_admin_log sm_new] by (cases "sm_apply (map Inr demo_admin_log) sm_new") (simp add: sm_new_def)
  then show "rn_ok (an_node (demo_admin role))"
    by (simp add: demo_admin_def rn_ok_def replica_ok_def log_ok_def demo_admin_log_def entry_term_def entry_in_range_def)
qed

text \<open>
  C16. Removing a learner. \<open>remove\<close> asks openraft for the voter set without the id, keeping
  everything that did not lose a vote; for a learner that is the set in effect. The call answers
  ok and the learner is a member as before, with its role and its addresses.
\<close>

theorem removed_learner_remains:
  assumes "membership_raft api mok" "mok s" "member_map api s i = Some (Learner, node)"
    and "svc_remove_node (openraft_admin api query) i s = (Inr resp, s')" "chr_ok resp"
  shows "member_map api s' i = Some (Learner, node)"
proof -
  obtain r where r: "remove api i s = (r, s')" "resp = change_resp r"
    using assms(4) by (cases "remove api i s") (auto simp: svc_remove_node_def openraft_admin_def)
  with assms(5) have "remove api i s = (Inr (), s')" by (cases r) (auto simp: change_err_def split: prod.splits)
  from membership_raft.remove_refines [OF assms(1,2) this] assms(3) show ?thesis by simp
qed

theorem removed_learner_remains_witness:
  "\<exists>resp s'. svc_remove_node (openraft_admin (log_membership (\<lambda>_. 1) 1) demo_query) 3 (demo_admin RoleLeader) = (Inr resp, s')
     \<and> chr_ok resp
     \<and> member_map (log_membership (\<lambda>_. 1) 1) s' 3 = Some (Learner, \<lparr>op_addr = [3], op_service_endpoint = [], op_admin_endpoint = [97, 3]\<rparr>)"
proof -
  let ?call = "svc_remove_node (openraft_admin (log_membership (\<lambda>_. 1) 1) demo_query) 3 (demo_admin RoleLeader)"
  have "fst ?call = Inr change_ok" by code_simp
  then obtain s' where s': "?call = (Inr change_ok, s')" by (metis prod.collapse)
  have "member_map (log_membership (\<lambda>_. 1) 1) (demo_admin RoleLeader) 3
      = Some (Learner, \<lparr>op_addr = [3], op_service_endpoint = [], op_admin_endpoint = [97, 3]\<rparr>)"
    by code_simp
  from removed_learner_remains [OF logm.membership_raft_axioms demo_admin_ok(1) this s'] s' show ?thesis
    by (simp add: change_ok_def)
qed

text \<open>
  C17. A node that does not lead changes nothing, and answers ok exactly where its own view of the
  membership makes the operation a no-op: the learner to add is a member, the node to promote
  votes, the node to remove is unknown to it. The view may be behind the leader's, and then the
  answer ok stands for a change nobody made.
\<close>

theorem follower_answers_from_view:
  assumes "membership_raft api mok" "\<not> is_local_leader (mp_raft api) s"
  shows "snd (run_admin api opr s) = s \<and> (is_ok (fst (run_admin api opr s)) \<longleftrightarrow> noop_for opr (member_map api s))"
  by (rule membership_raft.run_admin_follower [OF assms])

theorem follower_answers_from_view_witness:
  "run_admin (log_membership (\<lambda>_. 1) 1) (OpRemove 9) (demo_admin RoleFollower) = (Inr (), demo_admin RoleFollower)
   \<and> \<not> is_ok (fst (run_admin (log_membership (\<lambda>_. 1) 1) (OpRemove 2) (demo_admin RoleFollower)))"
proof -
  have l: "\<not> is_local_leader (mp_raft (log_membership (\<lambda>_. 1) 1)) (demo_admin RoleFollower)" by code_simp
  note f = follower_answers_from_view [OF logm.membership_raft_axioms [of "\<lambda>_. 1" 1] l]
  have 9: "noop_for (OpRemove 9) (member_map (log_membership (\<lambda>_. 1) 1) (demo_admin RoleFollower))" by code_simp
  have 2: "\<not> noop_for (OpRemove 2) (member_map (log_membership (\<lambda>_. 1) 1) (demo_admin RoleFollower))" by code_simp
  have "run_admin (log_membership (\<lambda>_. 1) 1) (OpRemove 9) (demo_admin RoleFollower) = (Inr (), demo_admin RoleFollower)"
    using f [of "OpRemove 9"] 9 by (simp add: prod_eq_iff is_ok_iff)
  with f [of "OpRemove 2"] 2 show ?thesis by blast
qed

text \<open>
  C24. Format activation. When the admin service answers an activation with ok, the node writes
  the target format, the target fits its byte and is one the binary reads, and every member of
  the membership the activation was applied under is the node itself or a member that reported
  at the gate that it can read the target: no member is left with records it cannot decode.
\<close>

theorem activation_covers_members:
  assumes "rn_ok (an_node s)"
    and "svc_activate_format (openraft_admin (log_membership led me) query) target s = (Some (Inr resp), s')" "chr_ok resp"
    and "i \<in> set (committed_members (sm_core (rn_sm (an_node s'))))"
  shows "target \<le> 255 \<and> sm_active (rn_sm (an_node s')) = ucast target \<and> in_readable_range (ucast target)
    \<and> (i = rm_id (rn_metrics (an_node s))
       \<or> (\<exists>node c. (i, node) \<in> set (an_nodes s) \<and> query i node = Inr c \<and> ucast target \<le> nc_max_readable_version c))"
proof -
  obtain r where t: "target \<le> 255"
      and r: "initiate_format_activation (log_admin_raft led me) (ucast target) query s = (r, s')"
      "(case r of Inr u \<Rightarrow> Some (Inr u) | Inl e \<Rightarrow> map_option Inl (map_activation_error e)) = Some (Inr ())"
    using assms(2,3)
    by (cases "initiate_format_activation (log_admin_raft led me) (ucast target) query s")
      (auto simp: svc_activate_format_def openraft_admin_def activate_format_def change_err_def
        split: if_splits sum.splits option.splits prod.splits)
  then have "initiate_format_activation (log_admin_raft led me) (ucast target) query s = (Inr (), s')"
    by (auto split: sum.splits)
  from activation_sound [OF assms(1) this assms(4)] t show ?thesis by blast
qed

theorem activation_covers_members_witness:
  "\<exists>s'. svc_activate_format (openraft_admin (log_membership (\<lambda>_. 1) 1) demo_query) 6 (demo_admin RoleLeader) = (Some (Inr change_ok), s')
     \<and> sm_active (rn_sm (an_node s')) = 6"
proof -
  let ?call = "svc_activate_format (openraft_admin (log_membership (\<lambda>_. 1) 1) demo_query) 6 (demo_admin RoleLeader)"
  have "fst ?call = Some (Inr change_ok)" by code_simp
  then obtain s' where s': "?call = (Some (Inr change_ok), s')" by (metis prod.collapse)
  have "1 \<in> set (committed_members (sm_core (rn_sm (an_node (snd ?call)))))" by code_simp
  with s' activation_covers_members [OF demo_admin_ok(2) s', of 1] show ?thesis by (simp add: change_ok_def)
qed

end
