(* ===== verification/Standalone.thy ===== *)
theory Standalone
  imports Admin Peer_Network Log_Durability Paxos_Driver Paxos_Durability File_Driver
begin

text \<open>
  The construction of a standalone node (\<open>tsoracle-standalone\<close>): configuration and its guards
  (\<open>config.rs\<close>, \<open>error.rs\<close>, \<open>drivers/\<close>), TLS material (\<open>peer_tls.rs\<close>, \<open>admin_tls.rs\<close>), the
  fail-fast supervision of its transport servers (\<open>transport.rs\<close>, \<open>lib.rs\<close>) and the peer
  transport of the paxos driver (\<open>drivers/paxos/network.rs\<close>). The file system, RocksDB, TLS
  parsing, sockets and the consensus libraries are parameters, held in \<open>node_env\<close>; what the
  openraft node recovers from its database is composed from the models of the stores.
\<close>

section \<open>Configuration\<close>

type_synonym path = str

datatype ip_addr = V4 u32 | V6 u128

fun is_loopback :: "ip_addr \<Rightarrow> bool" where
  "is_loopback (V4 a) = (unat a div 2 ^ 24 = 127)"
| "is_loopback (V6 a) = (a = 1)"

record socket_addr =
  sk_ip :: ip_addr
  sk_port :: u16

record member_addr =
  ma_raft_addr :: str
  ma_service_endpoint :: str
  ma_admin_endpoint :: str

record raft_tuning =
  rt_heartbeat_ms :: u64
  rt_election_min_ms :: u64
  rt_election_max_ms :: u64

definition default_tuning :: raft_tuning where
  "default_tuning = \<lparr>rt_heartbeat_ms = 250, rt_election_min_ms = 1000, rt_election_max_ms = 2000\<rparr>"

text \<open>\<open>PeerTlsConfig\<close> and \<open>AdminTlsConfig\<close>.\<close>

record tls_config =
  tc_cert :: path
  tc_key :: path
  tc_ca :: path

record openraft_config =
  oc_id :: u64
  oc_raft_addr :: socket_addr
  oc_raft_dir :: path
  oc_bootstrap :: bool
  oc_initial_membership :: "(u64, member_addr) btree_map option"
  oc_tuning :: raft_tuning
  oc_peer_tls :: "tls_config option"
  oc_admin_listen :: "socket_addr option"
  oc_admin_tls :: "tls_config option"
  oc_allow_insecure_peer :: bool

record paxos_config =
  pxc_node_id :: u64
  pxc_peer_listen :: socket_addr
  pxc_peers :: "(u64, str) btree_map"
  pxc_tso_peers :: "(u64, str) btree_map"
  pxc_data_dir :: path
  pxc_tick_interval :: duration
  pxc_peer_tls :: "tls_config option"
  pxc_allow_insecure_peer :: bool

datatype config_error =
    CfgSelfNotInMembership u64
  | CfgBootstrapNeedsMembership
  | CfgMembershipWithoutBootstrap
  | CfgSameCa path path
  | CfgTuning
  | CfgSelfNotInPeers u64
  | CfgPeer u64 peer_endpoint_error

datatype standalone_error =
    SeStorage path
  | SePeerBind socket_addr
  | SeAdminBind socket_addr
  | SeAdminInsecureRoutable socket_addr
  | SePeerInsecureRoutable socket_addr
  | SeBootstrap
  | SeConfig config_error
  | SeTls path

section \<open>Parsing peer maps\<close>

text \<open>\<open>str::split\<close> and \<open>str::split_once\<close> for an ASCII separator.\<close>

fun split_on :: "u8 \<Rightarrow> str \<Rightarrow> str list" where
  "split_on c [] = [[]]"
| "split_on c (b # bs) = (if b = c then [] # split_on c bs
     else case split_on c bs of [] \<Rightarrow> [[b]] | w # ws \<Rightarrow> (b # w) # ws)"

fun split_once :: "u8 \<Rightarrow> str \<Rightarrow> (str \<times> str) option" where
  "split_once c [] = None"
| "split_once c (b # bs) = (if b = c then Some ([], bs) else map_option (apfst (Cons b)) (split_once c bs))"

text \<open>\<open>str::trim\<close>: the Unicode white space, in its UTF-8 encodings.\<close>

definition white_space :: "str list" where
  "white_space = map (\<lambda>b. [b]) [9, 10, 11, 12, 13, 32] @ [[194, 133], [194, 160], [225, 154, 128]]
     @ map (\<lambda>b. [226, 128, b]) [128, 129, 130, 131, 132, 133, 134, 135, 136, 137, 138, 168, 169, 175]
     @ [[226, 129, 159], [227, 128, 128]]"

function strip_prefixes :: "str list \<Rightarrow> str \<Rightarrow> str" where
  "strip_prefixes ws s =
     (case find (\<lambda>w. w \<noteq> [] \<and> starts_with s w) ws of None \<Rightarrow> s | Some w \<Rightarrow> strip_prefixes ws (drop (length w) s))"
  by pat_completeness auto

termination strip_prefixes
proof (relation "measure (length \<circ> snd)", goal_cases)
  case (2 ws s w)
  then have "w \<noteq> []" "take (length w) s = w" by (auto simp: find_Some_iff starts_with_def)
  then have "0 < length w" "length w \<le> length s" by (auto dest: arg_cong [of _ _ length])
  then have "length s - length w < length s" by linarith
  then show ?case by simp
qed simp

declare strip_prefixes.simps [simp del]

definition trim :: "str \<Rightarrow> str" where
  "trim s = rev (strip_prefixes (map rev white_space) (rev (strip_prefixes white_space s)))"

text \<open>\<open>u64::from_str\<close>.\<close>

fun parse_u64_digits :: "nat \<Rightarrow> str \<Rightarrow> nat option" where
  "parse_u64_digits acc [] = Some acc"
| "parse_u64_digits acc (b # bs) =
     (if 48 \<le> b \<and> b \<le> 57 \<and> 10 * acc + unat (b - 48) < 2 ^ 64 then parse_u64_digits (10 * acc + unat (b - 48)) bs else None)"

definition u64_from_str :: "str \<Rightarrow> u64 option" where
  "u64_from_str s =
     (let digits = (case s of [] \<Rightarrow> [] | b # bs \<Rightarrow> if b = 43 then bs else s)
      in if digits = [] then None else map_option of_nat (parse_u64_digits 0 digits))"

datatype peer_map_error = BadPeerEntry str | BadPeerId str

fun parse_pairs :: "str list \<Rightarrow> (u64, str) btree_map \<Rightarrow> (peer_map_error, (u64, str) btree_map) result" where
  "parse_pairs [] out = Inr out"
| "parse_pairs (p # ps) out =
     (let pair = trim p in
      if pair = [] then parse_pairs ps out
      else case split_once 61 pair of
        None \<Rightarrow> Inl (BadPeerEntry pair)
      | Some (i, addr) \<Rightarrow>
          (case u64_from_str (trim i) of
             None \<Rightarrow> Inl (BadPeerId pair)
           | Some n \<Rightarrow> parse_pairs ps (bt_insert n (trim addr) out)))"

definition parse_peer_map :: "str \<Rightarrow> (peer_map_error, (u64, str) btree_map) result" where
  "parse_peer_map input = parse_pairs (split_on 44 input) []"

section \<open>The environment\<close>

text \<open>
  \<open>nv_acceptor\<close> and \<open>nv_connector\<close> are tonic's acceptance of a certificate, its key and a CA;
  binding a socket yields the address bound.
\<close>

record ('d, 'r, 'w) node_env =
  nv_read :: "path \<Rightarrow> 'w \<Rightarrow> bytes option"
  nv_canonicalize :: "path \<Rightarrow> 'w \<Rightarrow> path option"
  nv_acceptor :: "bytes \<Rightarrow> bytes \<Rightarrow> bytes \<Rightarrow> bool"
  nv_connector :: "bytes \<Rightarrow> bytes \<Rightarrow> bytes \<Rightarrow> bool"
  nv_create_dir_all :: "path \<Rightarrow> 'w \<Rightarrow> bool \<times> 'w"
  nv_open_db :: "path \<Rightarrow> cf_name list \<Rightarrow> 'w \<Rightarrow> 'd option \<times> 'w"
  nv_bind :: "socket_addr \<Rightarrow> 'w \<Rightarrow> socket_addr option \<times> 'w"
  nv_tuning_valid :: "raft_tuning \<Rightarrow> bool"
  nv_raft_new :: "u64 \<Rightarrow> raft_tuning \<Rightarrow> 'd log_store \<Rightarrow> raft_sm \<Rightarrow> 'w \<Rightarrow> 'r option \<times> 'w"
  nv_initialize :: "'r \<Rightarrow> (u64, openraft_peer) btree_map \<Rightarrow> 'w \<Rightarrow> (initialize_error, unit) result \<times> 'w"

fun io_then :: "('e, 'a) result \<times> 'w \<Rightarrow> ('a \<Rightarrow> 'w \<Rightarrow> ('e, 'b) result \<times> 'w) \<Rightarrow> ('e, 'b) result \<times> 'w" where
  "io_then (Inl e, w) f = (Inl e, w)"
| "io_then (Inr a, w) f = f a w"

fun ok_or :: "'e \<Rightarrow> 'a option \<Rightarrow> ('e, 'a) result" where
  "ok_or e None = Inl e"
| "ok_or e (Some a) = Inr a"

record tls_material =
  tm_cert :: bytes
  tm_key :: bytes
  tm_ca :: bytes

definition read_pem :: "('d, 'r, 'w) node_env \<Rightarrow> path \<Rightarrow> 'w \<Rightarrow> (standalone_error, bytes) result" where
  "read_pem env p w = ok_or (SeTls p) (nv_read env p w)"

definition read_trio :: "('d, 'r, 'w) node_env \<Rightarrow> tls_config \<Rightarrow> 'w \<Rightarrow> (standalone_error, tls_material) result" where
  "read_trio env cfg w =
     and_then (read_pem env (tc_cert cfg) w) (\<lambda>cert.
     and_then (read_pem env (tc_key cfg) w) (\<lambda>key.
     and_then (read_pem env (tc_ca cfg) w) (\<lambda>ca. Inr \<lparr>tm_cert = cert, tm_key = key, tm_ca = ca\<rparr>)))"

definition accepts :: "('d, 'r, 'w) node_env \<Rightarrow> tls_material \<Rightarrow> bool" where
  "accepts env m = nv_acceptor env (tm_cert m) (tm_key m) (tm_ca m)"

definition build_admin_tls :: "('d, 'r, 'w) node_env \<Rightarrow> tls_config \<Rightarrow> 'w \<Rightarrow> (standalone_error, tls_material) result" where
  "build_admin_tls env cfg w =
     and_then (read_trio env cfg w) (\<lambda>m. if accepts env m then Inr m else Inl (SeTls (tc_cert cfg)))"

definition build_peer_tls :: "('d, 'r, 'w) node_env \<Rightarrow> tls_config \<Rightarrow> 'w \<Rightarrow> (standalone_error, tls_material) result" where
  "build_peer_tls env cfg w =
     and_then (read_trio env cfg w) (\<lambda>m.
       if \<not> accepts env m then Inl (SeTls (tc_cert cfg))
       else if \<not> nv_connector env (tm_cert m) (tm_key m) (tm_ca m) then Inl (SeTls (tc_cert cfg))
       else Inr m)"

definition optional_tls ::
  "(tls_config \<Rightarrow> 'w \<Rightarrow> (standalone_error, tls_material) result) \<Rightarrow> tls_config option \<Rightarrow> 'w
     \<Rightarrow> (standalone_error, tls_material option) result" where
  "optional_tls build cfg w = (case cfg of None \<Rightarrow> Inr None | Some t \<Rightarrow> and_then (build t w) (\<lambda>m. Inr (Some m)))"

section \<open>Guards\<close>

definition membership_guard :: "openraft_config \<Rightarrow> (standalone_error, unit) result" where
  "membership_guard cfg =
     (case (oc_bootstrap cfg, oc_initial_membership cfg) of
        (True, Some members) \<Rightarrow>
          if bt_get members (oc_id cfg) = None then Inl (SeConfig (CfgSelfNotInMembership (oc_id cfg))) else Inr ()
      | (True, None) \<Rightarrow> Inl (SeConfig CfgBootstrapNeedsMembership)
      | (False, Some _) \<Rightarrow> Inl (SeConfig CfgMembershipWithoutBootstrap)
      | (False, None) \<Rightarrow> Inr ())"

fun zip_eq :: "'a option \<Rightarrow> 'a option \<Rightarrow> bool" where
  "zip_eq (Some a) (Some b) = (a = b)"
| "zip_eq _ _ = False"

text \<open>
  The check of the two CA files. All files of one build are read at one state of the world; the
  source reads a CA file here and again when it builds the TLS configuration, so a file that is
  replaced in between is outside the model.
\<close>

definition same_ca_guard :: "('d, 'r, 'w) node_env \<Rightarrow> openraft_config \<Rightarrow> 'w \<Rightarrow> (standalone_error, unit) result" where
  "same_ca_guard env cfg w =
     (case (oc_peer_tls cfg, oc_admin_tls cfg) of
        (Some peer, Some admin) \<Rightarrow>
          (let same_path = zip_eq (nv_canonicalize env (tc_ca peer) w) (nv_canonicalize env (tc_ca admin) w);
               same_bytes = (\<not> same_path \<and> zip_eq (nv_read env (tc_ca peer) w) (nv_read env (tc_ca admin) w))
           in if same_path \<or> same_bytes then Inl (SeConfig (CfgSameCa (tc_ca peer) (tc_ca admin))) else Inr ())
      | _ \<Rightarrow> Inr ())"

definition admin_listen_guard :: "openraft_config \<Rightarrow> tls_material option \<Rightarrow> (standalone_error, unit) result" where
  "admin_listen_guard cfg admin_tls =
     (case oc_admin_listen cfg of
        Some listen \<Rightarrow>
          if admin_tls = None \<and> \<not> is_loopback (sk_ip listen) then Inl (SeAdminInsecureRoutable listen) else Inr ()
      | None \<Rightarrow> Inr ())"

text \<open>Shared by the openraft and the paxos build.\<close>

definition peer_listen_guard :: "socket_addr \<Rightarrow> bool \<Rightarrow> tls_material option \<Rightarrow> (standalone_error, unit) result" where
  "peer_listen_guard addr allow_insecure peer_tls =
     (if peer_tls = None \<and> \<not> is_loopback (sk_ip addr) \<and> \<not> allow_insecure then Inl (SePeerInsecureRoutable addr) else Inr ())"

definition openraft_guards ::
  "('d, 'r, 'w) node_env \<Rightarrow> openraft_config \<Rightarrow> 'w \<Rightarrow> (standalone_error, tls_material option \<times> tls_material option) result" where
  "openraft_guards env cfg w =
     and_then (membership_guard cfg) (\<lambda>_.
     and_then (same_ca_guard env cfg w) (\<lambda>_.
     and_then (optional_tls (build_admin_tls env) (oc_admin_tls cfg) w) (\<lambda>admin_tls.
     and_then (admin_listen_guard cfg admin_tls) (\<lambda>_.
     and_then (optional_tls (build_peer_tls env) (oc_peer_tls cfg) w) (\<lambda>peer_tls.
     and_then (peer_listen_guard (oc_raft_addr cfg) (oc_allow_insecure_peer cfg) peer_tls) (\<lambda>_.
       Inr (admin_tls, peer_tls)))))))"

section \<open>The openraft node\<close>

definition LOG_CF :: cf_name where "LOG_CF = ''raft_log''"
definition META_CF :: cf_name where "META_CF = ''raft_meta''"
definition SNAP_CF :: cf_name where "SNAP_CF = ''raft_snapshot''"

text \<open>
  From the open database to the log store and the state machine. Both hold the one recovered
  write version.
\<close>

definition recover_stores ::
  "'d rocksdb \<Rightarrow> snapshot_postcards \<Rightarrow> path \<Rightarrow> 'd \<Rightarrow> (standalone_error, 'd log_store \<times> raft_sm) result" where
  "recover_stores db P dir d =
     and_then (map_err (\<lambda>_. SeStorage dir) (log_store_open db d LOG_CF META_CF Flat)) (\<lambda>log_store.
     and_then (map_err (\<lambda>_. SeStorage dir) (snapshot_open db d SNAP_CF)) (\<lambda>snapshot_store.
     and_then (map_err (\<lambda>_. SeBootstrap) (snapshot_load db snapshot_store)) (\<lambda>loaded.
     and_then (map_err (\<lambda>_. SeBootstrap) (highest_log_record_version db log_store)) (\<lambda>highest.
     and_then (map_err (\<lambda>_. SeBootstrap) (recover_active_write_version
         (case loaded of Some (b # _) \<Rightarrow> Some b | _ \<Rightarrow> None) highest)) (\<lambda>active.
     and_then (map_err (\<lambda>_. SeBootstrap) (with_store_and_active_version P
         (map_err (\<lambda>_. store_error) (snapshot_load db snapshot_store)) active)) (\<lambda>sm.
       Inr (with_active_write_version active log_store, sm)))))))"

record ('d, 'r) openraft_node =
  on_log_store :: "'d log_store"
  on_state_machine :: raft_sm
  on_raft :: 'r
  on_peer_addr :: socket_addr
  on_peer_tls :: "tls_material option"
  on_admin_addr :: "socket_addr option"
  on_admin_tls :: "tls_material option"

definition open_rocksdb :: "('d, 'r, 'w) node_env \<Rightarrow> path \<Rightarrow> cf_name list \<Rightarrow> 'w \<Rightarrow> (standalone_error, 'd) result \<times> 'w" where
  "open_rocksdb env dir cfs w = apfst (ok_or (SeStorage dir)) (nv_open_db env dir cfs w)"

definition create_dir :: "('d, 'r, 'w) node_env \<Rightarrow> path \<Rightarrow> 'w \<Rightarrow> (standalone_error, unit) result \<times> 'w" where
  "create_dir env dir w = apfst (\<lambda>ok. if ok then Inr () else Inl (SeStorage dir)) (nv_create_dir_all env dir w)"

definition member_peers :: "(u64, member_addr) btree_map \<Rightarrow> (u64, openraft_peer) btree_map" where
  "member_peers members =
     bt_collect (map (\<lambda>(i, m). (i, \<lparr>op_addr = ma_raft_addr m, op_service_endpoint = ma_service_endpoint m,
       op_admin_endpoint = ma_admin_endpoint m\<rparr>)) members)"

text \<open>An error of \<open>initialize\<close> is logged and otherwise ignored.\<close>

definition bootstrap_once :: "('d, 'r, 'w) node_env \<Rightarrow> openraft_config \<Rightarrow> 'r \<Rightarrow> 'w \<Rightarrow> 'w" where
  "bootstrap_once env cfg raft w =
     (case (oc_bootstrap cfg, oc_initial_membership cfg) of
        (True, Some members) \<Rightarrow> snd (nv_initialize env raft (member_peers members) w)
      | _ \<Rightarrow> w)"

definition bind_admin :: "('d, 'r, 'w) node_env \<Rightarrow> openraft_config \<Rightarrow> tls_material option \<Rightarrow> 'w
    \<Rightarrow> (standalone_error, socket_addr option) result \<times> 'w" where
  "bind_admin env cfg admin_tls w =
     (case oc_admin_listen cfg of
        None \<Rightarrow> (Inr None, w)
      | Some listen \<Rightarrow>
          (case nv_bind env listen w of
             (None, w') \<Rightarrow> (Inl (SeAdminBind listen), w')
           | (Some bound, w') \<Rightarrow>
               (case admin_tls of
                  Some m \<Rightarrow> if accepts env m then (Inr (Some bound), w') else (Inl (SeAdminBind listen), w')
                | None \<Rightarrow> (Inr (Some bound), w'))))"

definition build_openraft ::
  "('d, 'r, 'w) node_env \<Rightarrow> 'd rocksdb \<Rightarrow> snapshot_postcards \<Rightarrow> openraft_config \<Rightarrow> 'w
     \<Rightarrow> (standalone_error, ('d, 'r) openraft_node) result \<times> 'w" where
  "build_openraft env db P cfg w =
     (case openraft_guards env cfg w of
        Inl e \<Rightarrow> (Inl e, w)
      | Inr (admin_tls, peer_tls) \<Rightarrow>
          io_then (create_dir env (oc_raft_dir cfg) w) (\<lambda>_ w.
          io_then (open_rocksdb env (oc_raft_dir cfg) [LOG_CF, META_CF, SNAP_CF] w) (\<lambda>d w.
          io_then (recover_stores db P (oc_raft_dir cfg) d, w) (\<lambda>(log_store, sm) w.
          if \<not> nv_tuning_valid env (oc_tuning cfg) then (Inl (SeConfig CfgTuning), w)
          else
          io_then (apfst (ok_or SeBootstrap) (nv_raft_new env (oc_id cfg) (oc_tuning cfg) log_store sm w)) (\<lambda>raft w.
          io_then (apfst (ok_or (SePeerBind (oc_raft_addr cfg))) (nv_bind env (oc_raft_addr cfg) w)) (\<lambda>peer_addr w.
          if (case peer_tls of Some m \<Rightarrow> \<not> accepts env m | None \<Rightarrow> False)
          then (Inl (SeTls (case oc_peer_tls cfg of Some p \<Rightarrow> tc_cert p | None \<Rightarrow> [])), w)
          else
          io_then (bind_admin env cfg admin_tls (bootstrap_once env cfg raft w)) (\<lambda>admin_addr w.
            (Inr \<lparr>on_log_store = log_store, on_state_machine = sm, on_raft = raft, on_peer_addr = peer_addr,
               on_peer_tls = peer_tls, on_admin_addr = admin_addr, on_admin_tls = admin_tls\<rparr>, w))))))))"

section \<open>The paxos node\<close>

definition PAXOS_CF :: cf_name where "PAXOS_CF = ''tso_paxos''"

text \<open>The fixed view its admin reports.\<close>

definition paxos_admin_view :: "paxos_config \<Rightarrow> membership_view" where
  "paxos_admin_view cfg =
     \<lparr>mv_members = map (\<lambda>(i, addr). \<lparr>me_id = i, me_role = Voter, me_raft_addr = addr,
        me_service_endpoint = (case bt_get (pxc_tso_peers cfg) i of Some e \<Rightarrow> e | None \<Rightarrow> []), me_admin_endpoint = []\<rparr>) (pxc_peers cfg),
      mv_leader = None\<rparr>"

definition toolkit_peers :: "paxos_config \<Rightarrow> (standalone_error, tso_peer list) result" where
  "toolkit_peers cfg =
     collect_results (map (\<lambda>(i, endpoint).
         map_err (\<lambda>e. SeConfig (CfgPeer i e)) (and_then (peer_try_from endpoint) (\<lambda>e. Inr \<lparr>peer_node_id = i, peer_address = e\<rparr>)))
       (filter (\<lambda>(i, _). i \<noteq> pxc_node_id cfg) (pxc_tso_peers cfg)))"

record ('o, 'd) paxos_node =
  xn_host :: "'o px_host"
  xn_peers :: "tso_peer list"
  xn_peer_addr :: socket_addr
  xn_peer_tls :: "tls_material option"
  xn_admin_view :: membership_view

text \<open>
  \<open>omni_build\<close> is OmniPaxos's construction from the node ids of the cluster, the own id and the
  storage.
\<close>

definition build_paxos ::
  "('d, 'r, 'w) node_env \<Rightarrow> 'd rocksdb \<Rightarrow> 'o omnipaxos \<Rightarrow> (u64 list \<Rightarrow> u64 \<Rightarrow> 'd px_storage \<Rightarrow> 'o option) \<Rightarrow> paxos_config \<Rightarrow> 'w
     \<Rightarrow> (standalone_error, ('o, 'd) paxos_node) result \<times> 'w" where
  "build_paxos env db api omni_build cfg w =
     (case and_then (optional_tls (build_peer_tls env) (pxc_peer_tls cfg) w) (\<lambda>peer_tls.
        and_then (peer_listen_guard (pxc_peer_listen cfg) (pxc_allow_insecure_peer cfg) peer_tls) (\<lambda>_.
        if bt_get (pxc_peers cfg) (pxc_node_id cfg) = None then Inl (SeConfig (CfgSelfNotInPeers (pxc_node_id cfg))) else Inr peer_tls)) of
        Inl e \<Rightarrow> (Inl e, w)
      | Inr peer_tls \<Rightarrow>
          io_then (create_dir env (pxc_data_dir cfg) w) (\<lambda>_ w.
          io_then (open_rocksdb env (pxc_data_dir cfg) [PAXOS_CF] w) (\<lambda>d w.
          io_then (map_err (\<lambda>_. SeStorage (pxc_data_dir cfg)) (open_in db d PAXOS_CF), w) (\<lambda>storage w.
          io_then (ok_or SeBootstrap (omni_build (sort (map fst (pxc_peers cfg))) (pxc_node_id cfg) storage), w) (\<lambda>omnipaxos w.
          io_then (apfst (ok_or (SePeerBind (pxc_peer_listen cfg))) (nv_bind env (pxc_peer_listen cfg) w)) (\<lambda>peer_addr w.
          if (case peer_tls of Some m \<Rightarrow> \<not> accepts env m | None \<Rightarrow> False)
          then (Inl (SeTls (case pxc_peer_tls cfg of Some p \<Rightarrow> tc_cert p | None \<Rightarrow> [])), w)
          else
          io_then (toolkit_peers cfg, w) (\<lambda>peers w.
          io_then (map_err (\<lambda>_. SeBootstrap) (host_build api (Some omnipaxos) (Some (pxc_node_id cfg)) policy_disabled), w) (\<lambda>host w.
          io_then (ok_or SeBootstrap (host_start host), w) (\<lambda>host w.
            (Inr \<lparr>xn_host = host, xn_peers = peers, xn_peer_addr = peer_addr, xn_peer_tls = peer_tls,
               xn_admin_view = paxos_admin_view cfg\<rparr>, w))))))))))"

section \<open>The paxos peer transport\<close>

text \<open>Dialling a peer and the one call, on a state of the rest of the world.\<close>

record ('c, 'w) paxos_wire =
  xw_dial :: "str \<Rightarrow> 'w \<Rightarrow> 'c option \<times> 'w"
  xw_send :: "'c \<Rightarrow> bytes \<Rightarrow> 'w \<Rightarrow> (status_code, unit) result \<times> 'w"

record 'c peer_sink =
  ps_addrs :: "u64 \<rightharpoonup> str"
  ps_pool :: "u64 \<rightharpoonup> 'c"
  ps_tls :: bool

definition sink_new :: "(u64 \<rightharpoonup> str) \<Rightarrow> bool \<Rightarrow> 'c peer_sink" where
  "sink_new addrs tls = \<lparr>ps_addrs = addrs, ps_pool = Map.empty, ps_tls = tls\<rparr>"

definition sink_client :: "('c, 'w) paxos_wire \<Rightarrow> u64 \<Rightarrow> 'c peer_sink \<Rightarrow> 'w \<Rightarrow> 'c option \<times> 'c peer_sink \<times> 'w" where
  "sink_client wire target sink w =
     (case ps_pool sink target of
        Some client \<Rightarrow> (Some client, sink, w)
      | None \<Rightarrow>
          (case ps_addrs sink target of
             None \<Rightarrow> (None, sink, w)
           | Some endpoint \<Rightarrow>
               (case xw_dial wire ((if ps_tls sink then lit ''https://'' else lit ''http://'') @ endpoint) w of
                  (None, w') \<Rightarrow> (None, sink, w')
                | (Some client, w') \<Rightarrow> (Some client, sink\<lparr>ps_pool := (ps_pool sink)(target \<mapsto> client)\<rparr>, w'))))"

definition sink_send ::
  "('c, 'w) paxos_wire \<Rightarrow> 'm postcard \<Rightarrow> ('m \<Rightarrow> u64) \<Rightarrow> 'm \<Rightarrow> 'c peer_sink \<Rightarrow> 'w \<Rightarrow> 'c peer_sink \<times> 'w" where
  "sink_send wire pc receiver message sink w =
     (case to_stdvec pc message of
        None \<Rightarrow> (sink, w)
      | Some payload \<Rightarrow>
          (case sink_client wire (receiver message) sink w of
             (None, sink', w') \<Rightarrow> (sink', w')
           | (Some client, sink', w') \<Rightarrow>
               (case xw_send wire client payload w' of
                  (Inr _, w'') \<Rightarrow> (sink', w'')
                | (Inl _, w'') \<Rightarrow> (sink'\<lparr>ps_pool := (ps_pool sink')(receiver message := None)\<rparr>, w''))))"

definition paxos_serve :: "'m postcard \<Rightarrow> ('m \<Rightarrow> 'o \<Rightarrow> 'o) \<Rightarrow> bytes \<Rightarrow> 'o \<Rightarrow> (status_code, unit) result \<times> 'o" where
  "paxos_serve pc handle_incoming payload omnipaxos =
     (case from_bytes pc payload of
        None \<Rightarrow> (Inl InvalidArgument, omnipaxos)
      | Some message \<Rightarrow> (Inr (), handle_incoming message omnipaxos))"

section \<open>Supervised transports\<close>

text \<open>\<open>FatalSignal\<close>: the component whose server died first.\<close>

type_synonym fatal_signal = "string option"

definition trip :: "string \<Rightarrow> fatal_signal \<Rightarrow> fatal_signal" where
  "trip component fatal = (case fatal of None \<Rightarrow> Some component | Some _ \<Rightarrow> fatal)"

datatype server_exit = ServedOk | ServedErr | ServerPanicked

text \<open>
  The supervisor of \<open>spawn_supervised\<close> when its server task ends; the flag says that stop was
  requested by then.
\<close>

fun supervise :: "string \<Rightarrow> bool \<Rightarrow> server_exit \<Rightarrow> fatal_signal \<Rightarrow> fatal_signal" where
  "supervise component True ServedOk fatal = fatal"
| "supervise component _ _ fatal = trip component fatal"

datatype transport_task = Running string | Ended

text \<open>\<open>None\<close> for both parts is the no-op handle, and a handle after its shutdown.\<close>

record transport_handle =
  th_cancel :: "unit option"
  th_join :: "transport_task option"

definition noop_handle :: transport_handle where
  "noop_handle = \<lparr>th_cancel = None, th_join = None\<rparr>"

definition supervised_handle :: "string \<Rightarrow> transport_handle" where
  "supervised_handle component = \<lparr>th_cancel = Some (), th_join = Some (Running component)\<rparr>"

text \<open>A server task that ends while the node runs.\<close>

fun task_exit :: "server_exit \<Rightarrow> transport_handle \<Rightarrow> fatal_signal \<Rightarrow> transport_handle \<times> fatal_signal" where
  "task_exit ex h fatal =
     (case th_join h of
        Some (Running component) \<Rightarrow> (h\<lparr>th_join := Some Ended\<rparr>, supervise component (th_cancel h = None) ex fatal)
      | _ \<Rightarrow> (h, fatal))"

text \<open>\<open>shutdown\<close> requests the stop and waits; \<open>ex\<close> is how the task ends then, if it still ran.\<close>

definition handle_shutdown :: "server_exit \<Rightarrow> transport_handle \<Rightarrow> fatal_signal \<Rightarrow> transport_handle \<times> fatal_signal" where
  "handle_shutdown ex h fatal = (let (h', fatal') = task_exit ex (h\<lparr>th_cancel := None\<rparr>) fatal in (h'\<lparr>th_join := None\<rparr>, fatal'))"

text \<open>What \<open>run_serve\<close> and the binary need of a node.\<close>

record standalone =
  sn_transport :: transport_handle
  sn_admin_transport :: transport_handle
  sn_fatal :: fatal_signal
  sn_has_drain :: bool

definition take_drain :: "standalone \<Rightarrow> bool \<times> standalone" where
  "take_drain node = (sn_has_drain node, node\<lparr>sn_has_drain := False\<rparr>)"

definition node_shutdown :: "server_exit \<Rightarrow> server_exit \<Rightarrow> standalone \<Rightarrow> standalone" where
  "node_shutdown admin_exit peer_exit node =
     (let (a, f1) = handle_shutdown admin_exit (sn_admin_transport node) (sn_fatal node);
          (t, f2) = handle_shutdown peer_exit (sn_transport node) f1
      in node\<lparr>sn_admin_transport := a, sn_transport := t, sn_fatal := f2\<rparr>)"

definition file_standalone :: standalone where
  "file_standalone = \<lparr>sn_transport = noop_handle, sn_admin_transport = noop_handle, sn_fatal = None, sn_has_drain = False\<rparr>"

text \<open>The file node: its driver, and an admin whose view is empty.\<close>

definition build_file :: "(bytes \<Rightarrow> u32) \<Rightarrow> bool \<Rightarrow> path \<Rightarrow> disk \<Rightarrow> (standalone_error, file_driver \<times> membership_view \<times> standalone) result" where
  "build_file crc32c stopped_state_export dir d =
     and_then (map_err (\<lambda>_. SeStorage dir) (open_or_init crc32c stopped_state_export d)) (\<lambda>driver.
       Inr (driver, \<lparr>mv_members = [], mv_leader = None\<rparr>, file_standalone))"

definition openraft_standalone :: "('d, 'r) openraft_node \<Rightarrow> standalone" where
  "openraft_standalone n =
     \<lparr>sn_transport = supervised_handle ''raft peer server'',
      sn_admin_transport = (if on_admin_addr n = None then noop_handle else supervised_handle ''admin server''),
      sn_fatal = None, sn_has_drain = True\<rparr>"

definition paxos_standalone :: "('o, 'd) paxos_node \<Rightarrow> standalone" where
  "paxos_standalone n =
     \<lparr>sn_transport = supervised_handle ''paxos peer server'', sn_admin_transport = noop_handle, sn_fatal = None, sn_has_drain = False\<rparr>"

section \<open>Printing and parsing peer maps\<close>

definition plain_byte :: "u8 \<Rightarrow> bool" where
  "plain_byte b \<longleftrightarrow> 33 \<le> b \<and> b \<le> 126 \<and> b \<noteq> 44"

definition render_peer :: "u64 \<times> str \<Rightarrow> str" where
  "render_peer p = lit (show_word (fst p)) @ [61] @ snd p"

fun render_peer_map :: "(u64, str) btree_map \<Rightarrow> str" where
  "render_peer_map [] = []"
| "render_peer_map [p] = render_peer p"
| "render_peer_map (p # q # ps) = render_peer p @ [44] @ render_peer_map (q # ps)"

lemma split_on_plain: "c \<notin> set xs \<Longrightarrow> split_on c xs = [xs]"
  by (induction xs) auto

lemma split_on_append: "c \<notin> set xs \<Longrightarrow> split_on c (xs @ c # ys) = xs # split_on c ys"
  by (induction xs) auto

lemma split_once_append: "c \<notin> set xs \<Longrightarrow> split_once c (xs @ c # ys) = Some (xs, ys)"
  by (induction xs) auto

lemma strip_prefixes_none: "\<forall>w \<in> set ws. w = [] \<or> \<not> starts_with s w \<Longrightarrow> strip_prefixes ws s = s"
  by (subst strip_prefixes.simps) (auto split: option.splits simp: find_Some_iff)

lemma strip_prefixes_plain:
  assumes "\<forall>w \<in> set ws. w \<noteq> [] \<longrightarrow> \<not> plain_byte (hd w)" "s \<noteq> []" "plain_byte (hd s)"
  shows "strip_prefixes ws s = s"
proof (rule strip_prefixes_none, intro ballI)
  fix w assume w: "w \<in> set ws"
  have "hd w = hd s" if "starts_with s w" "w \<noteq> []"
    using that assms(2) by (cases s; cases w) (auto simp: starts_with_def)
  with w assms show "w = [] \<or> \<not> starts_with s w" by auto
qed

lemma white_space_not_plain:
  "\<forall>w \<in> set white_space. w \<noteq> [] \<longrightarrow> \<not> plain_byte (hd w)"
  "\<forall>w \<in> set (map rev white_space). w \<noteq> [] \<longrightarrow> \<not> plain_byte (hd w)"
  by (simp_all add: white_space_def plain_byte_def)

lemma trim_plain: "s \<noteq> [] \<Longrightarrow> plain_byte (hd s) \<Longrightarrow> plain_byte (last s) \<Longrightarrow> trim s = s"
  by (simp add: trim_def strip_prefixes_plain [OF white_space_not_plain(1)] strip_prefixes_plain [OF white_space_not_plain(2)] hd_rev)

lemma parse_u64_digits_append:
  "parse_u64_digits acc (xs @ ys) = Option.bind (parse_u64_digits acc xs) (\<lambda>a. parse_u64_digits a ys)"
  by (induction xs arbitrary: acc) auto

lemma digit_byte:
  assumes "d < 10"
  shows "48 \<le> (of_char (char_of (48 + d)) :: u8) \<and> (of_char (char_of (48 + d)) :: u8) \<le> 57
    \<and> unat ((of_char (char_of (48 + d)) :: u8) - 48) = d"
proof -
  have "d = 0 \<or> d = 1 \<or> d = 2 \<or> d = 3 \<or> d = 4 \<or> d = 5 \<or> d = 6 \<or> d = 7 \<or> d = 8 \<or> d = 9" using assms by presburger
  then show ?thesis by (elim disjE; hypsubst; code_simp)
qed

lemma show_nat_digits:
  "set (lit (show_nat n)) \<subseteq> {48..57} \<and> lit (show_nat n) \<noteq> []
    \<and> (n < 2 ^ 64 \<longrightarrow> parse_u64_digits 0 (lit (show_nat n)) = Some n)"
proof (induction n rule: show_nat.induct)
  case (1 n)
  show ?case
  proof (cases "n < 10")
    case True
    with digit_byte [OF True] show ?thesis by (simp add: show_nat.simps [of n] lit_def)
  next
    case False
    with 1 have IH: "set (lit (show_nat (n div 10))) \<subseteq> {48..57}" "n div 10 < 2 ^ 64 \<longrightarrow> parse_u64_digits 0 (lit (show_nat (n div 10))) = Some (n div 10)"
      by auto
    have s: "lit (show_nat n) = lit (show_nat (n div 10)) @ [of_char (char_of (48 + n mod 10))]"
      using False by (simp add: show_nat.simps [of n] lit_def)
    from IH digit_byte [of "n mod 10"] show ?thesis
      by (auto simp: s parse_u64_digits_append)
  qed
qed

lemma dec_digits:
  "set (lit (show_word (i :: u64))) \<subseteq> {48..57}" "lit (show_word (i :: u64)) \<noteq> []"
  "parse_u64_digits 0 (lit (show_word (i :: u64))) = Some (unat i)"
  using show_nat_digits [of "unat i"] unat_u64_bound [of i] by (auto simp: show_word_def)

lemma plain_digit: "b \<in> {48..57} \<Longrightarrow> plain_byte b \<and> b \<noteq> 61 \<and> b \<noteq> 43"
  by (auto simp: plain_byte_def word_le_nat_alt)

lemma u64_from_str_dec: "u64_from_str (lit (show_word i)) = Some i"
proof -
  obtain b bs where b: "lit (show_word i) = b # bs" using dec_digits(2) [of i] by (cases "lit (show_word i)") auto
  with dec_digits(1) [of i] plain_digit [of b] have "b \<noteq> 43" by auto
  with b dec_digits(3) [of i] show ?thesis by (simp add: u64_from_str_def)
qed

lemma trim_dec: "trim (lit (show_word (i :: u64))) = lit (show_word i)"
  using dec_digits(1,2) [of i] by (intro trim_plain) (auto simp: subset_iff intro!: plain_digit [THEN conjunct1])

definition plain_addr :: "str \<Rightarrow> bool" where
  "plain_addr a \<longleftrightarrow> a \<noteq> [] \<and> list_all plain_byte a"

lemma render_peer_facts:
  assumes "plain_addr (snd p)"
  shows "44 \<notin> set (render_peer p)" "trim (render_peer p) = render_peer p" "render_peer p \<noteq> []"
    "split_once 61 (render_peer p) = Some (lit (show_word (fst p)), snd p)" "trim (snd p) = snd p"
proof -
  note d = dec_digits(1,2) [of "fst p"]
  have hd: "plain_byte (hd (lit (show_word (fst p))))" using d plain_digit hd_in_set by blast
  have pl: "b \<in> set (lit (show_word (fst p))) \<Longrightarrow> plain_byte b \<and> b \<noteq> 61" for b using d plain_digit by blast
  have a: "plain_byte (hd (snd p))" "plain_byte (last (snd p))" "snd p \<noteq> []" "44 \<notin> set (snd p)"
    using assms by (auto simp: plain_addr_def list_all_iff plain_byte_def)
  show "44 \<notin> set (render_peer p)" using pl a(4) by (auto simp: render_peer_def plain_byte_def)
  show ne: "render_peer p \<noteq> []" by (simp add: render_peer_def)
  show "trim (render_peer p) = render_peer p" using ne hd a d by (intro trim_plain) (simp_all add: render_peer_def)
  show "split_once 61 (render_peer p) = Some (lit (show_word (fst p)), snd p)"
    using pl split_once_append [of 61 "lit (show_word (fst p))" "snd p"] by (auto simp: render_peer_def)
  show "trim (snd p) = snd p" using a by (intro trim_plain)
qed

lemma split_render_peer_map:
  "ps \<noteq> [] \<Longrightarrow> list_all (\<lambda>p. plain_addr (snd p)) ps \<Longrightarrow> split_on 44 (render_peer_map ps) = map render_peer ps"
  by (induction ps rule: render_peer_map.induct) (simp_all add: split_on_plain split_on_append render_peer_facts)

lemma parse_rendered_pairs:
  "list_all (\<lambda>p. plain_addr (snd p)) ps \<Longrightarrow>
     parse_pairs (map render_peer ps) out = Inr (fold (\<lambda>e m. bt_insert (fst e) (snd e) m) ps out)"
  by (induction ps arbitrary: out) (simp_all add: render_peer_facts trim_dec u64_from_str_dec)

text \<open>
  A peer map survives the command line: whatever ids and addresses of printable characters
  other than the comma a map holds, parsing the entries \<open>id=address\<close> joined by commas gives the
  map back.
\<close>

lemma peer_map_roundtrip:
  assumes "bt_wf ps" "list_all (\<lambda>p. plain_addr (snd p)) ps"
  shows "parse_peer_map (render_peer_map ps) = Inr ps"
proof (cases "ps = []")
  case True
  have "trim [] = []" by code_simp
  with True show ?thesis by (simp add: parse_peer_map_def)
next
  case False
  with assms show ?thesis
    by (simp add: parse_peer_map_def split_render_peer_map parse_rendered_pairs bt_collect_wf flip: bt_collect_def)
qed

section \<open>What a built node guarantees\<close>

lemma io_then_Inr_iff:
  "io_then r f = (Inr b, w') \<longleftrightarrow> (\<exists>a w1. r = (Inr a, w1) \<and> f a w1 = (Inr b, w'))"
  by (cases "(r, f)" rule: io_then.cases) auto

lemma ok_or_Inr_iff: "ok_or e x = Inr a \<longleftrightarrow> x = Some a"
  by (cases x) auto

lemma apfst_Inr: "apfst f r = (Inr a, w) \<Longrightarrow> \<exists>x. r = (x, w) \<and> f x = Inr a"
  by (cases r) auto

lemma build_openraft_guards:
  assumes "build_openraft env db P cfg w = (Inr node, w')"
  shows "openraft_guards env cfg w = Inr (on_admin_tls node, on_peer_tls node)"
  using assms
  by (auto simp: build_openraft_def io_then_Inr_iff split: sum.splits if_splits prod.splits)

lemma build_openraft_stores:
  assumes "build_openraft env db P cfg w = (Inr node, w')"
  shows "\<exists>w1 w2 d. nv_open_db env (oc_raft_dir cfg) [LOG_CF, META_CF, SNAP_CF] w1 = (Some d, w2)
    \<and> recover_stores db P (oc_raft_dir cfg) d = Inr (on_log_store node, on_state_machine node)"
proof -
  from assms obtain w1 w2 d where
    "open_rocksdb env (oc_raft_dir cfg) [LOG_CF, META_CF, SNAP_CF] w1 = (Inr d, w2)"
    "recover_stores db P (oc_raft_dir cfg) d = Inr (on_log_store node, on_state_machine node)"
    by (auto simp: build_openraft_def io_then_Inr_iff split: sum.splits if_splits prod.splits)
  then show ?thesis by (simp add: open_rocksdb_def) (blast dest: apfst_Inr [where f = "ok_or _", simplified ok_or_Inr_iff])
qed

lemma optional_tls_ca:
  "optional_tls (build_peer_tls env) (Some t) w = Inr (Some m) \<Longrightarrow> nv_read env (tc_ca t) w = Some (tm_ca m)"
  "optional_tls (build_admin_tls env) (Some t) w = Inr (Some m) \<Longrightarrow> nv_read env (tc_ca t) w = Some (tm_ca m)"
  by (auto simp: optional_tls_def build_peer_tls_def build_admin_tls_def read_trio_def read_pem_def and_then_Inr_iff
      ok_or_Inr_iff split: if_splits)

lemma optional_tls_Some: "optional_tls build cfg w = Inr (Some m) \<Longrightarrow> \<exists>t. cfg = Some t"
  by (cases cfg) (auto simp: optional_tls_def)

lemma guards_pass:
  assumes "openraft_guards env cfg w = Inr (admin_tls, peer_tls)"
  shows "peer_tls = None \<longrightarrow> is_loopback (sk_ip (oc_raft_addr cfg)) \<or> oc_allow_insecure_peer cfg"
    "admin_tls = None \<longrightarrow> pred_option (\<lambda>listen. is_loopback (sk_ip listen)) (oc_admin_listen cfg)"
    "peer_tls = Some a \<longrightarrow> admin_tls = Some b \<longrightarrow> tm_ca a \<noteq> tm_ca b"
proof -
  note g = assms [unfolded openraft_guards_def and_then_Inr_iff]
  show "peer_tls = None \<longrightarrow> is_loopback (sk_ip (oc_raft_addr cfg)) \<or> oc_allow_insecure_peer cfg"
    using g by (auto simp: peer_listen_guard_def split: if_splits)
  show "admin_tls = None \<longrightarrow> pred_option (\<lambda>listen. is_loopback (sk_ip listen)) (oc_admin_listen cfg)"
    using g by (cases "oc_admin_listen cfg") (auto simp: admin_listen_guard_def split: if_splits)
  show "peer_tls = Some a \<longrightarrow> admin_tls = Some b \<longrightarrow> tm_ca a \<noteq> tm_ca b"
  proof (intro impI notI)
    assume ab: "peer_tls = Some a" "admin_tls = Some b" "tm_ca a = tm_ca b"
    have tls: "optional_tls (build_peer_tls env) (oc_peer_tls cfg) w = Inr (Some a)"
        "optional_tls (build_admin_tls env) (oc_admin_tls cfg) w = Inr (Some b)" "same_ca_guard env cfg w = Inr ()"
      using g ab by auto
    then obtain p q where pq: "oc_peer_tls cfg = Some p" "oc_admin_tls cfg = Some q"
      by (blast dest: optional_tls_Some)
    with tls optional_tls_ca(1) [of env p w a] optional_tls_ca(2) [of env q w b]
    have "nv_read env (tc_ca p) w = Some (tm_ca a)" "nv_read env (tc_ca q) w = Some (tm_ca b)" by auto
    with tls(3) pq ab(3) show False by (auto simp: same_ca_guard_def Let_def split: if_splits)
  qed
qed

text \<open>The version recovered at start-up, which the log store and the state machine share.\<close>

lemma recovered_covers_log:
  assumes "rocksdb_store db content durable crash healthy" "healthy (lo_db st)" "ls_ok lc content st s"
    and "highest_log_record_version db st = Inr h" "recover_active_write_version snapshot_byte h = Inr v"
    and "e \<in> set (content (lo_db st) (lo_log_cf st))" "in_region (lo_keys st) (fst e)"
  shows "hd (snd e) \<le> v"
proof -
  have "snd e \<noteq> []"
    using stored_record_readable [OF _ assms(6,7)] assms(3) by (auto simp: ls_ok_def ls_stored_def)
  with rocksdb_store.highest_version_ok [OF assms(1,2)] assms(4,6,7) obtain m where m: "h = Some m" "hd (snd e) \<le> m"
    by fastforce
  with assms(5) show ?thesis
    by (auto simp: recover_active_write_version_def le_max_iff_disj split: option.splits)
qed

lemma recover_stores_version:
  assumes "recover_stores db P dir d = Inr (st, sm)"
  shows "lo_active_write_version st = sm_active sm \<and> in_readable_range (sm_active sm)
    \<and> (\<forall>bs. sm_store sm = Some bs \<and> bs \<noteq> [] \<longrightarrow> hd bs \<le> sm_active sm)
    \<and> (\<exists>b h. highest_log_record_version db st = Inr h \<and> recover_active_write_version b h = Inr (sm_active sm))"
proof -
  from assms obtain st0 loaded highest active where
      a: "recover_active_write_version (case loaded of Some (b # _) \<Rightarrow> Some b | _ \<Rightarrow> None) highest = Inr active"
      "with_store_and_active_version P (Inr loaded) active = Inr sm" "highest_log_record_version db st0 = Inr highest" "st = with_active_write_version active st0"
    by (auto simp: recover_stores_def and_then_Inr_iff map_err_Inr_iff)
  note r = recover_active_write_version_Inr [OF a(1)]
  have "sm_active sm = active \<and> sm_store sm = loaded"
  proof (cases loaded)
    case None
    with a(2) show ?thesis by (auto simp: with_store_and_active_version_def)
  next
    case (Some bs)
    with a(2) obtain c where sm: "sm = \<lparr>sm_core = c, sm_store = Some bs, sm_active = (case bs of v # _ \<Rightarrow> max active v | [] \<Rightarrow> active)\<rparr>"
      by (auto simp: with_store_and_active_version_def split: sum.splits)
    show ?thesis
    proof (cases bs)
      case (Cons b bs')
      with Some r have "b \<le> active" by auto
      with sm Some Cons show ?thesis by (simp add: max_absorb1)
    qed (use sm Some in simp)
  qed
  moreover have "highest_log_record_version db st = Inr highest"
    using a(3,4) by (simp add: with_active_write_version_def highest_log_record_version_def)
  ultimately show ?thesis using a(1,4) r by (auto simp: with_active_write_version_def neq_Nil_conv)
qed

section \<open>Paxos messages\<close>

text \<open>Nodes behind their URLs; a call runs the handler of the node dialled.\<close>

definition paxos_cluster_wire ::
  "'m postcard \<Rightarrow> ('m \<Rightarrow> 'o \<Rightarrow> 'o) \<Rightarrow> (str, str \<rightharpoonup> 'o) paxos_wire" where
  "paxos_cluster_wire pc handle =
     \<lparr>xw_dial = \<lambda>url w. (if w url = None then None else Some url, w),
      xw_send = \<lambda>url payload w.
        (case w url of
           None \<Rightarrow> (Inl Unavailable, w)
         | Some omnipaxos \<Rightarrow> apsnd (\<lambda>q. w(url \<mapsto> q)) (paxos_serve pc handle payload omnipaxos))\<rparr>"

definition sink_url :: "'c peer_sink \<Rightarrow> str \<Rightarrow> str" where
  "sink_url sink endpoint = (if ps_tls sink then lit ''https://'' else lit ''http://'') @ endpoint"

text \<open>
  A message to a peer that is up is handled there and nowhere else; its client is pooled. A peer
  that is down gets nothing, and no client for it stays pooled, so the next message dials again.
\<close>

lemma paxos_message_delivered:
  assumes "postcard_ok pc" "to_stdvec pc m = Some b" "ps_addrs sink (receiver m) = Some endpoint"
    and "w (sink_url sink endpoint) = Some q" "ps_pool sink (receiver m) \<in> {None, Some (sink_url sink endpoint)}"
  shows "sink_send (paxos_cluster_wire pc handle) pc receiver m sink w
    = (sink\<lparr>ps_pool := (ps_pool sink)(receiver m \<mapsto> sink_url sink endpoint)\<rparr>, w(sink_url sink endpoint \<mapsto> handle m q))"
proof -
  have "from_bytes pc b = Some m"
    using assms(1,2) unfolding postcard_ok_def from_bytes_def by (metis append_Nil2 fst_conv option.simps(9))
  moreover have "ps_pool sink (receiver m) = Some u \<Longrightarrow> sink = sink\<lparr>ps_pool := (ps_pool sink)(receiver m \<mapsto> u)\<rparr>" for u
    by (simp add: fun_upd_idem)
  ultimately show ?thesis
    using assms(2-5)
    by (auto simp: sink_send_def sink_client_def paxos_cluster_wire_def paxos_serve_def sink_url_def fun_upd_idem)
qed

lemma paxos_message_dropped:
  assumes "to_stdvec pc m = Some b" "ps_addrs sink (receiver m) = Some endpoint" "w (sink_url sink endpoint) = None"
    and "ps_pool sink (receiver m) \<in> {None, Some (sink_url sink endpoint)}"
  shows "sink_send (paxos_cluster_wire pc handle) pc receiver m sink w
    = (sink\<lparr>ps_pool := (ps_pool sink)(receiver m := None)\<rparr>, w)"
  using assms
  by (auto simp: sink_send_def sink_client_def paxos_cluster_wire_def sink_url_def fun_upd_idem)

section \<open>Properties\<close>

text \<open>
  A node on the loopback interface over an empty database, with two certificate authorities;
  every file holds its own name.
\<close>

definition demo_env :: "(mem_db, unit, unit) node_env" where
  "demo_env =
     \<lparr>nv_read = \<lambda>p _. Some p, nv_canonicalize = \<lambda>p _. Some p, nv_acceptor = \<lambda>_ _ _. True, nv_connector = \<lambda>_ _ _. True,
      nv_create_dir_all = \<lambda>_ w. (True, w), nv_open_db = \<lambda>_ cfs w. (Some (mem_open cfs), w), nv_bind = \<lambda>a w. (Some a, w),
      nv_tuning_valid = \<lambda>_. True, nv_raft_new = \<lambda>_ _ _ _ w. (Some (), w), nv_initialize = \<lambda>_ _ w. (Inr (), w)\<rparr>"

definition demo_config :: openraft_config where
  "demo_config =
     \<lparr>oc_id = 1, oc_raft_addr = \<lparr>sk_ip = V4 0x0A000001, sk_port = 50552\<rparr>, oc_raft_dir = [100], oc_bootstrap = False,
      oc_initial_membership = None, oc_tuning = default_tuning,
      oc_peer_tls = Some \<lparr>tc_cert = [1], tc_key = [2], tc_ca = [3]\<rparr>,
      oc_admin_listen = Some \<lparr>sk_ip = V4 0x7F000001, sk_port = 50553\<rparr>,
      oc_admin_tls = Some \<lparr>tc_cert = [1], tc_key = [2], tc_ca = [4]\<rparr>, oc_allow_insecure_peer = False\<rparr>"

definition demo_node :: "(mem_db, unit) openraft_node" where
  "demo_node =
     \<lparr>on_log_store = with_active_write_version 4 \<lparr>lo_db = mem_open [LOG_CF, META_CF, SNAP_CF], lo_log_cf = LOG_CF, lo_meta_cf = META_CF,
        lo_keys = Flat, lo_active_write_version = 4\<rparr>,
      on_state_machine = \<lparr>sm_core = core_new, sm_store = None, sm_active = 4\<rparr>, on_raft = (),
      on_peer_addr = oc_raft_addr demo_config, on_peer_tls = Some \<lparr>tm_cert = [1], tm_key = [2], tm_ca = [3]\<rparr>,
      on_admin_addr = oc_admin_listen demo_config, on_admin_tls = Some \<lparr>tm_cert = [1], tm_key = [2], tm_ca = [4]\<rparr>\<rparr>"

lemma demo_guards: "openraft_guards demo_env demo_config ()
    = Inr (Some \<lparr>tm_cert = [1], tm_key = [2], tm_ca = [4]\<rparr>, Some \<lparr>tm_cert = [1], tm_key = [2], tm_ca = [3]\<rparr>)"
  by code_simp

lemma demo_build: "build_openraft demo_env mem_rocksdb P demo_config () = (Inr demo_node, ())"
proof -
  have "recover_stores mem_rocksdb P [100] (mem_open [LOG_CF, META_CF, SNAP_CF])
      = Inr (on_log_store demo_node, on_state_machine demo_node)"
    by (simp add: recover_stores_def log_store_open_def snapshot_open_def snapshot_open_with_key_def snapshot_load_def mem_rocksdb_def
        mem_open_def LOG_CF_def META_CF_def SNAP_CF_def highest_log_record_version_def recover_active_write_version_def map_filter_simps
        with_store_and_active_version_def demo_node_def version_defs split_beta)
  with demo_guards show ?thesis
    by (simp add: build_openraft_def create_dir_def open_rocksdb_def demo_env_def demo_config_def demo_node_def accepts_def
        bootstrap_once_def bind_admin_def)
qed

text \<open>
  C32. A node never speaks plaintext on a routable address by default: if it comes up without peer
  TLS its peer address is a loopback one or the operator allowed it, and without admin TLS its
  admin address is a loopback one. If it comes up with both, the CA files of the two were not
  byte-identical: neither one file given twice nor a copy. Nothing is said of two different files
  that hold one authority or chain to one root; the documentation leaves those to the operator.
\<close>

theorem built_node_is_guarded:
  assumes "build_openraft env db P cfg w = (Inr node, w')"
  shows "(on_peer_tls node = None \<longrightarrow> is_loopback (sk_ip (oc_raft_addr cfg)) \<or> oc_allow_insecure_peer cfg)
    \<and> (on_admin_tls node = None \<longrightarrow> pred_option (\<lambda>listen. is_loopback (sk_ip listen)) (oc_admin_listen cfg))
    \<and> (\<forall>a b. on_peer_tls node = Some a \<longrightarrow> on_admin_tls node = Some b \<longrightarrow> tm_ca a \<noteq> tm_ca b)"
  using guards_pass [OF build_openraft_guards [OF assms]] by blast

theorem built_node_is_guarded_witness:
  "\<exists>node. build_openraft demo_env mem_rocksdb wire_postcards demo_config () = (Inr node, ())
     \<and> (\<exists>a b. on_peer_tls node = Some a \<and> on_admin_tls node = Some b \<and> tm_ca a \<noteq> tm_ca b)"
  using demo_build [of wire_postcards] built_node_is_guarded [OF demo_build [of wire_postcards]]
  by (simp add: demo_node_def)

text \<open>
  C29. What an openraft node writes after a restart. The log store and the state machine of a node
  that came up write one and the same format; it is a readable one, no older than any record in
  the log and no older than the stored snapshot.
\<close>

theorem restarted_node_version:
  assumes "rocksdb_store db content durable crash healthy" "build_openraft env db P cfg w = (Inr node, w')"
    and "healthy (lo_db (on_log_store node))" "ls_ok lc content (on_log_store node) s"
  shows "lo_active_write_version (on_log_store node) = sm_active (on_state_machine node)
    \<and> in_readable_range (sm_active (on_state_machine node))
    \<and> (\<forall>e \<in> set (content (lo_db (on_log_store node)) (lo_log_cf (on_log_store node))).
        in_region (lo_keys (on_log_store node)) (fst e) \<longrightarrow> hd (snd e) \<le> sm_active (on_state_machine node))
    \<and> (\<forall>bs. sm_store (on_state_machine node) = Some bs \<and> bs \<noteq> [] \<longrightarrow> hd bs \<le> sm_active (on_state_machine node))"
proof -
  from build_openraft_stores [OF assms(2)] obtain d where
    "recover_stores db P (oc_raft_dir cfg) d = Inr (on_log_store node, on_state_machine node)" by blast
  note v = recover_stores_version [OF this]
  then obtain b h where bh: "highest_log_record_version db (on_log_store node) = Inr h"
      "recover_active_write_version b h = Inr (sm_active (on_state_machine node))" by blast
  with v recovered_covers_log [OF assms(1,3,4) bh] show ?thesis by blast
qed

theorem restarted_node_version_witness:
  "\<exists>node. build_openraft demo_env mem_rocksdb wire_postcards demo_config () = (Inr node, ())
     \<and> lo_active_write_version (on_log_store node) = sm_active (on_state_machine node)"
proof -
  have "ls_ok demo_codec md_content (on_log_store demo_node) ls_spec_empty"
    by (simp add: ls_ok_def demo_node_def with_active_write_version_def mem_open_def ls_stored_empty in_readable_range_def
        version_defs LOG_CF_def META_CF_def)
  moreover have "mem_ok (lo_db (on_log_store demo_node))" by (simp add: demo_node_def with_active_write_version_def)
  ultimately show ?thesis
    using demo_build [of wire_postcards]
      restarted_node_version [OF mem.rocksdb_store_axioms demo_build [of wire_postcards], of demo_codec ls_spec_empty]
    by blast
qed

end
