(* ===== verification/Cli.thy ===== *)
theory Cli
  imports Admin_Membership Standalone File_Export
begin

text \<open>
  The \<open>tsoracle\<close> binary (\<open>tsoracle-bin/src/main.rs\<close>): assembling the configuration from flags, the
  life of a serving process, and the \<open>admin\<close> commands with their redirect to the leader, their
  reports and their exit codes. Dialling an admin endpoint and calling it are parameters.
\<close>

section \<open>Failures and exits\<close>

datatype cli_error =
    CliTlsTrio
  | CliTlsPair
  | CliTlsClientCa
  | CliReadFile path
  | CliInvalidTls
  | CliConnect str
  | CliRpc status_code
  | CliRpcLeader status_code
  | CliUnsupportedCapabilities
  | CliAdmin string string
  | CliActivation string string
  | CliBadMember str
  | CliBadPeers peer_map_error
  | CliMetrics
  | CliBootstrap standalone_error
  | CliServerBuild
  | CliBind
  | CliServe
  | CliTerminated string
  | CliInit
  | CliExport string

text \<open>A command returns from \<open>main\<close>, or ends the process with a code of its own.\<close>

datatype 'a cli_end = Returned "(cli_error, 'a) result" | Exited nat

fun exit_code :: "'a cli_end \<Rightarrow> nat" where
  "exit_code (Returned (Inr _)) = 0"
| "exit_code (Returned (Inl _)) = 1"
| "exit_code (Exited n) = n"

section \<open>Flags\<close>

text \<open>\<open>peer_tls_config\<close> and \<open>admin_tls_config\<close>.\<close>

fun trio_config :: "path option \<Rightarrow> path option \<Rightarrow> path option \<Rightarrow> (cli_error, tls_config option) result" where
  "trio_config None None None = Inr None"
| "trio_config (Some cert) (Some key) (Some ca) = Inr (Some \<lparr>tc_cert = cert, tc_key = key, tc_ca = ca\<rparr>)"
| "trio_config _ _ _ = Inl CliTlsTrio"

definition read_flag :: "(path \<Rightarrow> bytes option) \<Rightarrow> path \<Rightarrow> (cli_error, bytes) result" where
  "read_flag read p = ok_or (CliReadFile p) (read p)"

definition admin_client_tls ::
  "(path \<Rightarrow> bytes option) \<Rightarrow> path option \<Rightarrow> path option \<Rightarrow> path option \<Rightarrow> (cli_error, tls_material option) result" where
  "admin_client_tls read cert key ca =
     and_then (trio_config cert key ca) (\<lambda>cfg.
       case cfg of
         None \<Rightarrow> Inr None
       | Some t \<Rightarrow>
           and_then (read_flag read (tc_cert t)) (\<lambda>cert_pem.
           and_then (read_flag read (tc_key t)) (\<lambda>key_pem.
           and_then (read_flag read (tc_ca t)) (\<lambda>ca_pem.
             Inr (Some \<lparr>tm_cert = cert_pem, tm_key = key_pem, tm_ca = ca_pem\<rparr>)))))"

text \<open>The client API's server side: certificate and key, and a CA for clients that may be left out.\<close>

record server_tls =
  stl_cert :: bytes
  stl_key :: bytes
  stl_client_ca :: "bytes option"

fun client_tls_config ::
  "(path \<Rightarrow> bytes option) \<Rightarrow> (server_tls \<Rightarrow> bool) \<Rightarrow> path option \<Rightarrow> path option \<Rightarrow> path option \<Rightarrow> (cli_error, server_tls option) result" where
  "client_tls_config read accept None None ca = (if ca \<noteq> None then Inl CliTlsClientCa else Inr None)"
| "client_tls_config read accept (Some cert) (Some key) ca =
     and_then (read_flag read cert) (\<lambda>cert_pem.
     and_then (read_flag read key) (\<lambda>key_pem.
     and_then (case ca of None \<Rightarrow> Inr None | Some p \<Rightarrow> and_then (read_flag read p) (\<lambda>b. Inr (Some b))) (\<lambda>ca_pem.
       let tls = \<lparr>stl_cert = cert_pem, stl_key = key_pem, stl_client_ca = ca_pem\<rparr>
       in if accept tls then Inr (Some tls) else Inl CliInvalidTls)))"
| "client_tls_config read accept _ _ ca = Inl CliTlsPair"

text \<open>\<open>parse_members\<close>: \<open>id=raft_addr/service_endpoint/admin_endpoint\<close>, separated by commas.\<close>

definition parse_member :: "str \<Rightarrow> (cli_error, u64 \<times> member_addr) result" where
  "parse_member entry =
     (case split_once 61 entry of
        None \<Rightarrow> Inl (CliBadMember entry)
      | Some (i, addrs) \<Rightarrow>
          (case split_on 47 addrs of
             raft_addr # service_endpoint # admin_endpoint # _ \<Rightarrow>
               if raft_addr = [] then Inl (CliBadMember entry)
               else (case u64_from_str (trim i) of
                  None \<Rightarrow> Inl (CliBadMember entry)
                | Some n \<Rightarrow> Inr (n, \<lparr>ma_raft_addr = trim raft_addr, ma_service_endpoint = trim service_endpoint,
                    ma_admin_endpoint = trim admin_endpoint\<rparr>))
           | _ \<Rightarrow> Inl (CliBadMember entry)))"

fun parse_member_list :: "str list \<Rightarrow> (u64, member_addr) btree_map \<Rightarrow> (cli_error, (u64, member_addr) btree_map) result" where
  "parse_member_list [] out = Inr out"
| "parse_member_list (e # es) out =
     (let entry = trim e in
      if entry = [] then parse_member_list es out
      else and_then (parse_member entry) (\<lambda>(i, m). parse_member_list es (bt_insert i m out)))"

definition parse_members :: "str \<Rightarrow> (cli_error, (u64, member_addr) btree_map) result" where
  "parse_members input = parse_member_list (split_on 44 input) []"

record openraft_args =
  oa_id :: u64
  oa_raft_addr :: socket_addr
  oa_raft_dir :: path
  oa_bootstrap :: bool
  oa_members :: "str option"
  oa_tuning :: raft_tuning
  oa_peer_tls :: "path option \<times> path option \<times> path option"
  oa_admin_listen :: "socket_addr option"
  oa_admin_tls :: "path option \<times> path option \<times> path option"
  oa_allow_insecure_peer :: bool

definition trio :: "path option \<times> path option \<times> path option \<Rightarrow> (cli_error, tls_config option) result" where
  "trio t = (case t of (cert, key, ca) \<Rightarrow> trio_config cert key ca)"

text \<open>The openraft arm of \<open>dispatch_serve\<close>.\<close>

definition openraft_config_of :: "openraft_args \<Rightarrow> (cli_error, openraft_config) result" where
  "openraft_config_of args =
     and_then (case oa_members args of None \<Rightarrow> Inr None | Some s \<Rightarrow> and_then (parse_members s) (\<lambda>m. Inr (Some m))) (\<lambda>members.
     and_then (trio (oa_peer_tls args)) (\<lambda>peer_tls.
     and_then (trio (oa_admin_tls args)) (\<lambda>admin_tls.
       Inr \<lparr>oc_id = oa_id args, oc_raft_addr = oa_raft_addr args, oc_raft_dir = oa_raft_dir args,
         oc_bootstrap = oa_bootstrap args, oc_initial_membership = members, oc_tuning = oa_tuning args,
         oc_peer_tls = peer_tls, oc_admin_listen = oa_admin_listen args, oc_admin_tls = admin_tls,
         oc_allow_insecure_peer = oa_allow_insecure_peer args\<rparr>)))"

record paxos_args =
  pa_node_id :: u64
  pa_peer_listen :: socket_addr
  pa_peers :: str
  pa_tso_peers :: str
  pa_data_dir :: path
  pa_tick_interval :: duration
  pa_peer_tls :: "path option \<times> path option \<times> path option"
  pa_allow_insecure_peer :: bool

text \<open>The paxos arm of \<open>dispatch_serve\<close>.\<close>

definition paxos_config_of :: "paxos_args \<Rightarrow> (cli_error, paxos_config) result" where
  "paxos_config_of args =
     and_then (map_err CliBadPeers (parse_peer_map (pa_peers args))) (\<lambda>peers.
     and_then (map_err CliBadPeers (parse_peer_map (pa_tso_peers args))) (\<lambda>tso_peers.
     and_then (trio (pa_peer_tls args)) (\<lambda>peer_tls.
       Inr \<lparr>pxc_node_id = pa_node_id args, pxc_peer_listen = pa_peer_listen args, pxc_peers = peers, pxc_tso_peers = tso_peers,
         pxc_data_dir = pa_data_dir args, pxc_tick_interval = pa_tick_interval args, pxc_peer_tls = peer_tls, pxc_allow_insecure_peer = pa_allow_insecure_peer args\<rparr>)))"

section \<open>One-shot commands\<close>

definition init_file_seeded :: "(bytes \<Rightarrow> u32) \<Rightarrow> bool \<Rightarrow> path \<Rightarrow> u64 \<Rightarrow> io_fault \<Rightarrow> disk \<Rightarrow> (standalone_error, unit) result \<times> disk" where
  "init_file_seeded crc32c stopped_state_export dir seed io d =
     apfst (map_err (\<lambda>_. SeStorage dir)) (init_seeded crc32c stopped_state_export seed io d)"

definition run_init :: "(bytes \<Rightarrow> u32) \<Rightarrow> bool \<Rightarrow> path \<Rightarrow> u64 \<Rightarrow> io_fault \<Rightarrow> disk \<Rightarrow> (cli_error, unit) result \<times> disk" where
  "run_init crc32c stopped_state_export dir seed io d =
     apfst (map_err (\<lambda>_. CliInit)) (init_file_seeded crc32c stopped_state_export dir seed io d)"

text \<open>The receipt is printed as JSON; \<open>fs'\<close> is what its second look at the directory finds.\<close>

definition run_export_file ::
  "(bytes \<Rightarrow> bytes) \<Rightarrow> (bytes \<Rightarrow> u32) \<Rightarrow> export_fs \<Rightarrow> export_fs \<Rightarrow> (cli_error, stopped_file_receipt) result" where
  "run_export_file sha256 crc32c fs fs' =
     and_then (map_err (\<lambda>_. CliExport ''acquire stopped file state'') (stopped_open fs)) (\<lambda>guard.
       map_err (\<lambda>_. CliExport ''validate stopped file state'') (receipt sha256 crc32c guard fs'))"

section \<open>Serving\<close>

text \<open>Which arm of the select in \<open>wait_for_stop\<close> fires.\<close>

datatype stop_cause = Signalled | Tripped string

definition wait_for_stop :: "stop_cause \<Rightarrow> ('w \<Rightarrow> 'w) option \<Rightarrow> 'w \<Rightarrow> 'w" where
  "wait_for_stop cause drain w =
     (case cause of Signalled \<Rightarrow> (case drain of Some d \<Rightarrow> d w | None \<Rightarrow> w) | Tripped _ \<Rightarrow> w)"

text \<open>
  The life of a node that came up: transport tasks that end on their own while it serves, then
  the outcome of the client server, then the shutdown of the admin and the peer transport, each
  with the way its server ends.
\<close>

datatype transport_name = PeerTransport | AdminTransport

fun transport_exit :: "transport_name \<times> server_exit \<Rightarrow> standalone \<Rightarrow> standalone" where
  "transport_exit (PeerTransport, ex) node =
     (let (h, f) = task_exit ex (sn_transport node) (sn_fatal node) in node\<lparr>sn_transport := h, sn_fatal := f\<rparr>)"
| "transport_exit (AdminTransport, ex) node =
     (let (h, f) = task_exit ex (sn_admin_transport node) (sn_fatal node) in node\<lparr>sn_admin_transport := h, sn_fatal := f\<rparr>)"

definition serve_to_end ::
  "(transport_name \<times> server_exit) list \<Rightarrow> bool \<Rightarrow> server_exit \<Rightarrow> server_exit \<Rightarrow> standalone \<Rightarrow> (cli_error, unit) result" where
  "serve_to_end early serve_ok admin_exit peer_exit node =
     (let node1 = node_shutdown admin_exit peer_exit (fold transport_exit early node)
      in case sn_fatal node1 of
           Some component \<Rightarrow> Inl (CliTerminated component)
         | None \<Rightarrow> if serve_ok then Inr () else Inl CliServe)"

text \<open>
  \<open>run_serve\<close>: the outcomes of the metrics exporter, of the driver's build, of the TLS flags, of
  the server's build and of the bind, in the order they are asked for, then the node's life.
\<close>

definition run_serve ::
  "bool \<Rightarrow> (standalone_error, standalone) result \<Rightarrow> (cli_error, server_tls option) result \<Rightarrow> bool \<Rightarrow> bool
     \<Rightarrow> (transport_name \<times> server_exit) list \<Rightarrow> bool \<Rightarrow> server_exit \<Rightarrow> server_exit \<Rightarrow> unit cli_end" where
  "run_serve metrics built tls server_built bound early serve_ok admin_exit peer_exit =
     Returned (
       if \<not> metrics then Inl CliMetrics
       else and_then (map_err CliBootstrap built) (\<lambda>node.
         and_then tls (\<lambda>_.
           if \<not> server_built then Inl CliServerBuild
           else if \<not> bound then Inl CliBind
           else serve_to_end early serve_ok admin_exit peer_exit (snd (take_drain node)))))"

section \<open>Reports\<close>

fun kind_name :: "admin_error_kind \<Rightarrow> string" where
  "kind_name KindUnspecified = ''Unspecified''"
| "kind_name KindNotLeader = ''NotLeader''"
| "kind_name KindUnsupported = ''Unsupported''"
| "kind_name KindNotMember = ''NotMember''"
| "kind_name KindNotCaughtUp = ''NotCaughtUp''"
| "kind_name KindWouldLoseQuorum = ''WouldLoseQuorum''"
| "kind_name KindTimeout = ''Timeout''"
| "kind_name KindDriver = ''Driver''"
| "kind_name KindMembersBelowTarget = ''MembersBelowTarget''"
| "kind_name KindTargetOutOfRange = ''TargetOutOfRange''"
| "kind_name KindMembershipChanged = ''MembershipChanged''"

text \<open>\<open>AdminErrorKind::try_from\<close>.\<close>

definition kind_of_i32 :: "int \<Rightarrow> admin_error_kind option" where
  "kind_of_i32 n = find (\<lambda>k. kind_as_i32 k = n)
     [KindUnspecified, KindNotLeader, KindUnsupported, KindNotMember, KindNotCaughtUp, KindWouldLoseQuorum, KindTimeout,
      KindDriver, KindMembersBelowTarget, KindTargetOutOfRange, KindMembershipChanged]"

definition show_int :: "int \<Rightarrow> string" where
  "show_int n = (if n < 0 then ''-'' @ show_nat (nat (- n)) else show_nat (nat n))"

datatype activation_outcome =
    ActSuccess
  | ActGateRejected string
  | ActNotLeader
  | ActTargetOutOfRange string
  | ActOther string string

definition classify_activation :: "change_response \<Rightarrow> activation_outcome" where
  "classify_activation resp =
     (if chr_ok resp then ActSuccess
      else case kind_of_i32 (chr_error resp) of
        Some KindMembersBelowTarget \<Rightarrow> ActGateRejected (chr_message resp)
      | Some KindNotLeader \<Rightarrow> ActNotLeader
      | Some KindTargetOutOfRange \<Rightarrow> ActTargetOutOfRange (chr_message resp)
      | Some k \<Rightarrow> ActOther (kind_name k) (chr_message resp)
      | None \<Rightarrow> ActOther (show_int (chr_error resp)) (chr_message resp))"

definition report_activation :: "change_response \<Rightarrow> unit cli_end" where
  "report_activation resp =
     (case classify_activation resp of
        ActSuccess \<Rightarrow> Returned (Inr ())
      | ActGateRejected _ \<Rightarrow> Exited 2
      | ActNotLeader \<Rightarrow> Exited 3
      | ActTargetOutOfRange _ \<Rightarrow> Exited 4
      | ActOther kind message \<Rightarrow> Returned (Inl (CliActivation kind message)))"

definition report_change :: "change_response \<Rightarrow> unit cli_end" where
  "report_change resp =
     (if chr_ok resp then Returned (Inr ())
      else Returned (Inl (CliAdmin
        (case kind_of_i32 (chr_error resp) of Some k \<Rightarrow> kind_name k | None \<Rightarrow> show_int (chr_error resp)) (chr_message resp))))"

definition role_label :: "int \<Rightarrow> string" where
  "role_label role = (if role = 1 then ''voter'' else if role = 2 then ''learner'' else ''unknown'')"

text \<open>\<open>{:<n}\<close>.\<close>

definition pad :: "nat \<Rightarrow> str \<Rightarrow> str" where
  "pad n s = s @ replicate (n - length s) 32"

definition dec :: "'a::len word \<Rightarrow> str" where
  "dec w = lit (show_word w)"

definition capability_row :: "pb_member_capabilities \<Rightarrow> str" where
  "capability_row member =
     (if pmc_reachable member
      then pad 4 (dec (pme_id (pmc_entry member))) @ lit ''  '' @ pad 12 (dec (pmc_min_readable_version member)) @ lit ''  ''
        @ pad 12 (dec (pmc_max_readable_version member)) @ lit ''  '' @ dec (pmc_active_write_version member) @ [10]
      else pad 4 (dec (pme_id (pmc_entry member))) @ lit ''  '' @ pad 12 (lit ''-'') @ lit ''  '' @ pad 12 (lit ''-'') @ lit ''  unreachable''
        @ (if pmc_unreachable_detail member = [] then [] else lit ''    ('' @ lit (pmc_unreachable_detail member) @ lit '')'') @ [10])"

definition render_capabilities_table :: "pb_capability_report \<Rightarrow> str" where
  "render_capabilities_table report =
     lit ''node  min_readable  max_readable  active_write'' @ [10] @ concat (map capability_row (pcr_members report))"

definition member_caps_row :: "pb_member_capabilities \<Rightarrow> str" where
  "member_caps_row member =
     (let e = pmc_entry member;
          caps = (if pmc_reachable member
             then lit ''min_readable='' @ dec (pmc_min_readable_version member) @ lit '' max_readable='' @ dec (pmc_max_readable_version member)
               @ lit '' active_write='' @ dec (pmc_active_write_version member)
             else if pmc_unreachable_detail member = [] then lit ''capabilities=unreachable''
             else lit ''capabilities=unreachable ('' @ lit (pmc_unreachable_detail member) @ lit '')'')
      in lit ''  id='' @ dec (pme_id e) @ lit '' role='' @ lit (role_label (pme_role e)) @ lit '' raft='' @ pme_raft_addr e
         @ lit '' service='' @ pme_service_endpoint e @ lit '' admin='' @ pme_admin_endpoint e @ lit '' '' @ caps @ [10])"

definition leader_line :: "bool \<Rightarrow> u64 \<Rightarrow> str" where
  "leader_line has_leader leader = lit ''leader: '' @ (if has_leader then dec leader else lit ''none'') @ [10]"

definition render_members_with_caps :: "pb_capability_report \<Rightarrow> str" where
  "render_members_with_caps report =
     leader_line (pcr_has_leader report) (pcr_leader report) @ concat (map member_caps_row (pcr_members report))"

definition role_debug :: "int \<Rightarrow> string" where
  "role_debug role = (if role = 0 then ''Unspecified'' else if role = 1 then ''Voter'' else if role = 2 then ''Learner'' else show_int role)"

definition render_members :: "pb_membership_view \<Rightarrow> str" where
  "render_members view =
     leader_line (pmv_has_leader view) (pmv_leader view)
     @ concat (map (\<lambda>m. lit ''  id='' @ dec (pme_id m) @ lit '' role='' @ lit (role_debug (pme_role m)) @ lit '' raft='' @ pme_raft_addr m
         @ lit '' service='' @ pme_service_endpoint m @ lit '' admin='' @ pme_admin_endpoint m @ [10]) (pmv_members view))"

record json_member =
  jm_id :: u64
  jm_role :: string
  jm_raft_addr :: str
  jm_service_endpoint :: str
  jm_admin_endpoint :: str
  jm_reachable :: bool
  jm_min_readable_version :: "u32 option"
  jm_max_readable_version :: "u32 option"
  jm_active_write_version :: "u32 option"
  jm_unreachable_detail :: "string option"

record json_report =
  jr_leader :: "u64 option"
  jr_members :: "json_member list"

definition to_json_report :: "pb_capability_report \<Rightarrow> json_report" where
  "to_json_report report =
     \<lparr>jr_leader = (if pcr_has_leader report then Some (pcr_leader report) else None),
      jr_members = map (\<lambda>member. let e = pmc_entry member in
        \<lparr>jm_id = pme_id e, jm_role = role_label (pme_role e),
         jm_raft_addr = pme_raft_addr e, jm_service_endpoint = pme_service_endpoint e, jm_admin_endpoint = pme_admin_endpoint e,
         jm_reachable = pmc_reachable member,
         jm_min_readable_version = (if pmc_reachable member then Some (pmc_min_readable_version member) else None),
         jm_max_readable_version = (if pmc_reachable member then Some (pmc_max_readable_version member) else None),
         jm_active_write_version = (if pmc_reachable member then Some (pmc_active_write_version member) else None),
         jm_unreachable_detail = (if pmc_reachable member then None else Some (pmc_unreachable_detail member))\<rparr>) (pcr_members report)\<rparr>"

section \<open>Admin commands\<close>

text \<open>
  \<open>ct_dial\<close> is \<open>admin_connect\<close>; the calls of the generated client answer with a message or with a
  status, on a state of the rest of the world.
\<close>

record ('c, 'w) admin_wire =
  ct_dial :: "str \<Rightarrow> tls_material option \<Rightarrow> 'w \<Rightarrow> 'c option \<times> 'w"
  ct_list_members :: "'c \<Rightarrow> 'w \<Rightarrow> (status_code, pb_membership_view) result \<times> 'w"
  ct_add_learner :: "new_member \<Rightarrow> 'c \<Rightarrow> 'w \<Rightarrow> (status_code, change_response) result \<times> 'w"
  ct_promote :: "u64 \<Rightarrow> 'c \<Rightarrow> 'w \<Rightarrow> (status_code, change_response) result \<times> 'w"
  ct_remove_node :: "u64 \<Rightarrow> 'c \<Rightarrow> 'w \<Rightarrow> (status_code, change_response) result \<times> 'w"
  ct_activate_format :: "u32 \<Rightarrow> 'c \<Rightarrow> 'w \<Rightarrow> (status_code, change_response) result \<times> 'w"
  ct_report_capabilities :: "'c \<Rightarrow> 'w \<Rightarrow> (status_code, pb_capability_report) result \<times> 'w"

definition admin_connect :: "('c, 'w) admin_wire \<Rightarrow> str \<Rightarrow> tls_material option \<Rightarrow> 'w \<Rightarrow> (cli_error, 'c) result \<times> 'w" where
  "admin_connect wire endpoint tls w = apfst (ok_or (CliConnect endpoint)) (ct_dial wire endpoint tls w)"

definition leader_url :: "str \<Rightarrow> str \<Rightarrow> str" where
  "leader_url endpoint leader_admin_endpoint =
     (if starts_with endpoint (lit ''https://'') then lit ''https'' else lit ''http'') @ lit ''://'' @ leader_admin_endpoint"

definition with_redirect ::
  "('c, 'w) admin_wire \<Rightarrow> str \<Rightarrow> tls_material option \<Rightarrow> ('c \<Rightarrow> 'w \<Rightarrow> (status_code, change_response) result \<times> 'w) \<Rightarrow> 'w
     \<Rightarrow> (cli_error, change_response) result \<times> 'w" where
  "with_redirect wire endpoint tls call w =
     io_then (admin_connect wire endpoint tls w) (\<lambda>channel w.
     io_then (apfst (map_err CliRpc) (call channel w)) (\<lambda>resp w.
       if chr_error resp = kind_as_i32 KindNotLeader \<and> chr_leader_admin_endpoint resp \<noteq> []
       then io_then (admin_connect wire (leader_url endpoint (chr_leader_admin_endpoint resp)) tls w) (\<lambda>channel w.
         apfst (map_err CliRpcLeader) (call channel w))
       else (Inr resp, w)))"

fun end_with :: "('a \<Rightarrow> 'b cli_end) \<Rightarrow> (cli_error, 'a) result \<times> 'w \<Rightarrow> 'b cli_end \<times> 'w" where
  "end_with f (Inl e, w) = (Returned (Inl e), w)"
| "end_with f (Inr a, w) = (f a, w)"

definition call_report_capabilities :: "('c, 'w) admin_wire \<Rightarrow> 'c \<Rightarrow> 'w \<Rightarrow> (cli_error, pb_capability_report) result \<times> 'w" where
  "call_report_capabilities wire channel w =
     apfst (map_err (\<lambda>status. if status = Unimplemented then CliUnsupportedCapabilities else CliRpc status))
       (ct_report_capabilities wire channel w)"

datatype admin_cmd =
    CmdMembers bool
  | CmdAddLearner new_member
  | CmdPromote u64
  | CmdRemove u64
  | CmdActivateFormat u8
  | CmdCapabilities bool

datatype cli_output = OutOk | OutText str | OutJson json_report

fun printing_ok :: "unit cli_end \<Rightarrow> cli_output cli_end" where
  "printing_ok (Returned r) = Returned (and_then r (\<lambda>_. Inr OutOk))"
| "printing_ok (Exited n) = Exited n"

text \<open>\<open>dispatch_admin\<close>, with the TLS material the flags name.\<close>

fun dispatch_admin :: "('c, 'w) admin_wire \<Rightarrow> str \<Rightarrow> tls_material option \<Rightarrow> admin_cmd \<Rightarrow> 'w \<Rightarrow> cli_output cli_end \<times> 'w" where
  "dispatch_admin wire endpoint tls (CmdMembers capabilities) w =
     end_with (\<lambda>out. Returned (Inr out)) (io_then (admin_connect wire endpoint tls w) (\<lambda>channel w.
       if capabilities
       then io_then (call_report_capabilities wire channel w) (\<lambda>report w. (Inr (OutText (render_members_with_caps report)), w))
       else io_then (apfst (map_err CliRpc) (ct_list_members wire channel w)) (\<lambda>view w. (Inr (OutText (render_members view)), w))))"
| "dispatch_admin wire endpoint tls (CmdAddLearner member) w =
     end_with (\<lambda>resp. printing_ok (report_change resp)) (with_redirect wire endpoint tls (ct_add_learner wire member) w)"
| "dispatch_admin wire endpoint tls (CmdPromote i) w =
     end_with (\<lambda>resp. printing_ok (report_change resp)) (with_redirect wire endpoint tls (ct_promote wire i) w)"
| "dispatch_admin wire endpoint tls (CmdRemove i) w =
     end_with (\<lambda>resp. printing_ok (report_change resp)) (with_redirect wire endpoint tls (ct_remove_node wire i) w)"
| "dispatch_admin wire endpoint tls (CmdActivateFormat target) w =
     end_with (\<lambda>resp. printing_ok (report_activation resp)) (with_redirect wire endpoint tls (ct_activate_format wire (ucast target)) w)"
| "dispatch_admin wire endpoint tls (CmdCapabilities json) w =
     end_with (\<lambda>out. Returned (Inr out)) (io_then (admin_connect wire endpoint tls w) (\<lambda>channel w.
       io_then (call_report_capabilities wire channel w) (\<lambda>report w.
         (Inr (if json then OutJson (to_json_report report) else OutText (render_capabilities_table report)), w))))"

text \<open>Every arm reads the TLS flags first.\<close>

definition admin_command ::
  "(path \<Rightarrow> bytes option) \<Rightarrow> path option \<times> path option \<times> path option \<Rightarrow> ('c, 'w) admin_wire \<Rightarrow> str \<Rightarrow> admin_cmd \<Rightarrow> 'w
     \<Rightarrow> cli_output cli_end \<times> 'w" where
  "admin_command read flags wire endpoint cmd w =
     (case flags of (cert, key, ca) \<Rightarrow>
        (case admin_client_tls read cert key ca of
           Inl e \<Rightarrow> (Returned (Inl e), w)
         | Inr tls \<Rightarrow> dispatch_admin wire endpoint tls cmd w))"

end
