(* ===== verification/Admin_Cluster.thy ===== *)
theory Admin_Cluster
  imports Cli
begin

text \<open>
  The binary against what it talks to: how a serving process ends when its transports do, what
  an activation's exit code tells, and what an admin command that prints ok has done to a cluster
  of nodes behind their admin endpoints.
\<close>

section \<open>Exit of a serving process\<close>

lemma trip_tripped [simp]: "trip c (Some x) = Some x" "trip c None = Some c"
  by (simp_all add: trip_def)

lemma supervise_tripped [simp]: "supervise c stop ex (Some x) = Some x"
  by (cases "(c, stop, ex, Some x)" rule: supervise.cases) auto

lemma task_exit_tripped: "snd (task_exit ex h (Some x)) = Some x"
  by (auto split: option.splits transport_task.splits)

lemma transport_exit_tripped: "sn_fatal node = Some x \<Longrightarrow> sn_fatal (transport_exit e node) = Some x"
  by (cases e; cases "fst e") (simp_all add: Let_def split_beta task_exit_tripped del: task_exit.simps)

lemma exits_tripped: "sn_fatal node = Some x \<Longrightarrow> sn_fatal (fold transport_exit es node) = Some x"
  by (induction es arbitrary: node) (simp_all add: transport_exit_tripped del: transport_exit.simps)

lemma shutdown_tripped: "sn_fatal node = Some x \<Longrightarrow> sn_fatal (node_shutdown a p node) = Some x"
  by (simp add: node_shutdown_def handle_shutdown_def Let_def split_beta task_exit_tripped del: task_exit.simps)

definition both_supervised :: "standalone \<Rightarrow> bool" where
  "both_supervised node \<longleftrightarrow> sn_fatal node = None
     \<and> sn_transport node = supervised_handle ''raft peer server'' \<and> sn_admin_transport node = supervised_handle ''admin server''"

fun component_of :: "transport_name \<Rightarrow> string" where
  "component_of PeerTransport = ''raft peer server''"
| "component_of AdminTransport = ''admin server''"

lemma early_exit_trips:
  "both_supervised node \<Longrightarrow> sn_fatal (transport_exit (t, ex) node) = Some (component_of t)"
  by (cases t) (auto simp: both_supervised_def supervised_handle_def)

lemma clean_shutdown_iff:
  "both_supervised node \<Longrightarrow> sn_fatal (node_shutdown a p node) =
     (if a \<noteq> ServedOk then Some ''admin server'' else if p \<noteq> ServedOk then Some ''raft peer server'' else None)"
  by (cases a; cases p) (simp_all add: both_supervised_def supervised_handle_def node_shutdown_def handle_shutdown_def)

lemma serve_to_end_supervised:
  assumes "both_supervised node"
  shows "serve_to_end early serve_ok a p node =
    (case early of
       (t, ex) # _ \<Rightarrow> Inl (CliTerminated (component_of t))
     | [] \<Rightarrow> if a \<noteq> ServedOk then Inl (CliTerminated ''admin server'')
           else if p \<noteq> ServedOk then Inl (CliTerminated ''raft peer server'')
           else if serve_ok then Inr () else Inl CliServe)"
proof (cases early)
  case Nil
  with clean_shutdown_iff [OF assms] show ?thesis by (simp add: serve_to_end_def)
next
  case (Cons e es)
  obtain t ex where e: "e = (t, ex)" by force
  have "sn_fatal (node_shutdown a p (fold transport_exit early node)) = Some (component_of t)"
    using early_exit_trips [OF assms, of t ex] by (simp add: Cons e shutdown_tripped exits_tripped del: transport_exit.simps)
  then show ?thesis by (simp add: serve_to_end_def Cons e)
qed

section \<open>Exit of an activation\<close>

lemma kind_of_i32_inverse [simp]: "kind_of_i32 (kind_as_i32 k) = Some k"
  by (cases k) (simp_all add: kind_of_i32_def)

fun activation_code :: "(admin_error, unit) result \<Rightarrow> nat" where
  "activation_code (Inr _) = 0"
| "activation_code (Inl (AdMembersBelowTarget _ _)) = 2"
| "activation_code (Inl (AdNotLeader _)) = 3"
| "activation_code (Inl (AdTargetOutOfRange _ _ _)) = 4"
| "activation_code (Inl _) = 1"

lemma activation_exit: "exit_code (report_activation (change_resp r)) = activation_code r"
proof (cases r)
  case (Inl e)
  then show ?thesis
    by (cases e) (simp_all add: report_activation_def classify_activation_def change_err_def kind_of_i32_def)
qed (simp add: report_activation_def classify_activation_def change_ok_def)

lemma exit_code_printing_ok [simp]: "exit_code (printing_ok e) = exit_code e"
  by (cases e rule: exit_code.cases) auto

section \<open>A cluster behind its admin endpoints\<close>

text \<open>Nodes over committed logs, reached by the URLs of their admin endpoints.\<close>

type_synonym admin_cluster = "str \<rightharpoonup> admin_node"

definition node_membership :: "(u64 \<Rightarrow> u64) \<Rightarrow> admin_node \<Rightarrow> admin_node membership_api" where
  "node_membership led s = log_membership led (rm_id (rn_metrics (an_node s)))"

definition at_node ::
  "(u64 \<Rightarrow> u64) \<Rightarrow> (u64 \<Rightarrow> openraft_peer \<Rightarrow> (string, node_capabilities) result)
     \<Rightarrow> (admin_node membership_admin \<Rightarrow> admin_node \<Rightarrow> (status_code, 'r) result \<times> admin_node)
     \<Rightarrow> str \<Rightarrow> admin_cluster \<Rightarrow> (status_code, 'r) result \<times> admin_cluster" where
  "at_node led query f url w =
     (case w url of
        None \<Rightarrow> (Inl Unavailable, w)
      | Some s \<Rightarrow> apsnd (\<lambda>s'. w(url \<mapsto> s')) (f (openraft_admin (node_membership led s) query) s))"

definition cluster_wire ::
  "(u64 \<Rightarrow> u64) \<Rightarrow> (u64 \<Rightarrow> openraft_peer \<Rightarrow> (string, node_capabilities) result) \<Rightarrow> (str, admin_cluster) admin_wire" where
  "cluster_wire led query =
     \<lparr>ct_dial = \<lambda>url tls w. (if w url = None then None else Some url, w),
      ct_list_members = at_node led query (\<lambda>admin s. (svc_list_members admin s, s)),
      ct_add_learner = \<lambda>m. at_node led query (\<lambda>admin. svc_add_learner admin m),
      ct_promote = \<lambda>i. at_node led query (\<lambda>admin. svc_promote admin i),
      ct_remove_node = \<lambda>i. at_node led query (\<lambda>admin. svc_remove_node admin i),
      ct_activate_format = \<lambda>t. at_node led query (\<lambda>admin s. apfst (\<lambda>r. case r of Some x \<Rightarrow> x | None \<Rightarrow> Inl Cancelled) (svc_activate_format admin t s)),
      ct_report_capabilities = at_node led query (\<lambda>admin s. (svc_report_capabilities admin s, s))\<rparr>"

fun op_cmd :: "admin_op \<Rightarrow> admin_cmd" where
  "op_cmd (OpAddLearner m) = CmdAddLearner m"
| "op_cmd (OpPromote i) = CmdPromote i"
| "op_cmd (OpRemove i) = CmdRemove i"

definition op_call ::
  "(u64 \<Rightarrow> u64) \<Rightarrow> admin_op \<Rightarrow> str \<Rightarrow> admin_cluster \<Rightarrow> (status_code, change_response) result \<times> admin_cluster" where
  "op_call led opr url w =
     (case w url of
        None \<Rightarrow> (Inl Unavailable, w)
      | Some s \<Rightarrow> apsnd (\<lambda>s'. w(url \<mapsto> s')) (apfst (\<lambda>r. Inr (change_resp r)) (run_admin (node_membership led s) opr s)))"

lemma dispatch_op:
  "dispatch_admin (cluster_wire led query) endpoint tls (op_cmd opr) w =
     end_with (\<lambda>resp. printing_ok (report_change resp)) (with_redirect (cluster_wire led query) endpoint tls (op_call led opr) w)"
proof -
  have "ct_add_learner (cluster_wire led query) m = op_call led (OpAddLearner m)"
    "ct_promote (cluster_wire led query) i = op_call led (OpPromote i)"
    "ct_remove_node (cluster_wire led query) i = op_call led (OpRemove i)" for m i
    by (auto simp: cluster_wire_def at_node_def op_call_def fun_eq_iff svc_add_learner_def svc_promote_def svc_remove_node_def
        openraft_admin_def split: option.splits)
  then show ?thesis by (cases opr) simp_all
qed

lemma chr_ok_change_resp [simp]: "chr_ok (change_resp r) \<longleftrightarrow> is_ok r"
  by (cases r) (auto simp: change_ok_def change_err_def split: prod.splits)

lemma not_leader_change_resp: "chr_error (change_resp r) = kind_as_i32 KindNotLeader \<Longrightarrow> \<exists>h. r = Inl (AdNotLeader h)"
proof (cases r)
  case (Inl e)
  assume "chr_error (change_resp r) = kind_as_i32 KindNotLeader"
  with Inl show ?thesis by (cases e) (auto simp: change_err_def)
qed (simp add: change_ok_def)

lemma end_with_ok:
  "end_with (\<lambda>resp. printing_ok (report_change resp)) r = (Returned (Inr OutOk), w') \<longleftrightarrow> (\<exists>resp. r = (Inr resp, w') \<and> chr_ok resp)"
proof (cases r)
  case (Pair x w)
  then show ?thesis by (cases x) (auto simp: report_change_def)
qed

lemma commit_not_forward: "commit_membership led me vs nodes s \<noteq> (Inl (RweForwardToLeader h), s')"
  by (auto simp: commit_membership_def Let_def split: list.splits raft_reply.splits)

lemma map_write_not_leader:
  assumes "apfst (map_err (map_write_error f)) r = (Inl (AdNotLeader h), s')"
  shows "\<exists>n. r = (Inl (RweForwardToLeader n), s') \<and> (\<forall>x. h = Some x \<longrightarrow> (\<exists>p. n = Some p \<and> op_admin_endpoint p = x \<and> x \<noteq> []))"
proof (cases r)
  case (Pair x t)
  with assms show ?thesis
    by (cases x; cases "(f, projl x)" rule: map_write_error.cases) (auto split: option.splits if_splits)
qed

text \<open>The admin endpoint of the leader in the node's own view.\<close>

definition known_leader_endpoint :: "admin_node \<Rightarrow> str option" where
  "known_leader_endpoint s =
     map_option op_admin_endpoint (Option.bind (rm_current_leader (rn_metrics (an_node s))) (bt_get (an_nodes s)))"

lemma log_forward:
  "log_change_membership led me vs r s = (Inl (RweForwardToLeader n), s') \<Longrightarrow>
     s' = s \<and> \<not> an_leads s \<and> map_option op_admin_endpoint n = known_leader_endpoint s"
  "log_add_learner led me i node b s = (Inl (RweForwardToLeader n), s') \<Longrightarrow>
     s' = s \<and> \<not> an_leads s \<and> map_option op_admin_endpoint n = known_leader_endpoint s"
  by (auto simp: log_change_membership_def log_add_learner_def commit_not_forward known_leader_endpoint_def forward_hint_def
      split: if_splits list.splits)

lemma not_leader_answer:
  assumes "run_admin (log_membership led me) opr s = (Inl (AdNotLeader h), s')"
  shows "s' = s \<and> \<not> an_leads s \<and> (\<forall>x. h = Some x \<longrightarrow> known_leader_endpoint s = Some x)"
  using assms
  by (cases opr)
    (auto simp: add_learner_def promote_def remove_def Let_def split: if_splits option.splits
      dest!: map_write_not_leader log_forward)

lemma with_redirect_ok:
  assumes "with_redirect (cluster_wire led query) endpoint tls (op_call led opr) w = (Inr resp, w')" "chr_ok resp"
  shows "\<exists>url s s'. (url = endpoint \<or> (\<exists>d hint. w endpoint = Some d \<and> \<not> an_leads d
        \<and> known_leader_endpoint d = Some hint \<and> url = leader_url endpoint hint))
    \<and> w url = Some s \<and> w' = w(url \<mapsto> s') \<and> run_admin (node_membership led s) opr s = (Inr (), s')"
proof -
  have call: "\<exists>s s' r. w url = Some s \<and> w1 = w(url \<mapsto> s') \<and> run_admin (node_membership led s) opr s = (r, s') \<and> resp1 = change_resp r"
    if "apfst (map_err f) (op_call led opr url w) = (Inr resp1, w1)" for f :: "status_code \<Rightarrow> cli_error" and url w resp1 w1
    using that by (auto simp: op_call_def map_err_Inr_iff split: option.splits dest!: apfst_Inr) force
  have dial: "admin_connect (cluster_wire led query) url tls v = (Inr ch, v') \<Longrightarrow> ch = url \<and> v' = v" for url v ch v'
    by (auto simp: admin_connect_def cluster_wire_def ok_or_Inr_iff split: if_splits)
  from assms(1) [unfolded with_redirect_def io_then_Inr_iff] obtain ch w0 resp1 w1 where
      d: "admin_connect (cluster_wire led query) endpoint tls w = (Inr ch, w0)"
      and c: "apfst (map_err CliRpc) (op_call led opr ch w0) = (Inr resp1, w1)"
      and next_: "(if chr_error resp1 = kind_as_i32 KindNotLeader \<and> chr_leader_admin_endpoint resp1 \<noteq> []
        then io_then (admin_connect (cluster_wire led query) (leader_url endpoint (chr_leader_admin_endpoint resp1)) tls w1)
          (\<lambda>channel w. apfst (map_err CliRpcLeader) (op_call led opr channel w))
        else (Inr resp1, w1)) = (Inr resp, w')"
    by (elim exE conjE)
  from dial [OF d] c have first: "apfst (map_err CliRpc) (op_call led opr endpoint w) = (Inr resp1, w1)" by simp
  from call [OF first] obtain s s' r where 1: "w endpoint = Some s" "w1 = w(endpoint \<mapsto> s')"
      "run_admin (node_membership led s) opr s = (r, s')" "resp1 = change_resp r" by blast
  show ?thesis
  proof (cases "chr_error resp1 = kind_as_i32 KindNotLeader \<and> chr_leader_admin_endpoint resp1 \<noteq> []")
    case True
    with 1(4) not_leader_change_resp obtain h where h: "r = Inl (AdNotLeader h)" by blast
    with True 1(4) have hint: "h = Some (chr_leader_admin_endpoint resp1)"
      by (cases h) (simp_all add: change_err_def)
    from 1(3) h have n: "s' = s" "\<not> an_leads s" "known_leader_endpoint s = Some (chr_leader_admin_endpoint resp1)"
      using not_leader_answer [of led "rm_id (rn_metrics (an_node s))" opr s h s'] hint by (simp_all add: node_membership_def)
    with 1(1,2) have "w1 = w" by (simp add: fun_upd_idem)
    with next_ True obtain url where u: "url = leader_url endpoint (chr_leader_admin_endpoint resp1)"
        "apfst (map_err CliRpcLeader) (op_call led opr url w) = (Inr resp, w')"
      by (auto simp: io_then_Inr_iff dest!: dial)
    from call [OF u(2)] obtain t t' q where "w url = Some t" "w' = w(url \<mapsto> t')"
        "run_admin (node_membership led t) opr t = (q, t')" "resp = change_resp q" by (elim exE conjE)
    with u(1) n(2,3) 1(1) assms(2) show ?thesis
      by (intro exI [of _ url] exI [of _ t] exI [of _ t']) (auto simp: is_ok_iff)
  next
    case False
    with next_ have "resp = resp1" "w' = w1" by auto
    with 1 assms(2) show ?thesis by (intro exI [of _ endpoint] exI [of _ s] exI [of _ s']) (auto simp: is_ok_iff)
  qed
qed

lemma activation_no_hint: "map_activation_error e = Some (AdNotLeader h) \<Longrightarrow> h = None"
  by (cases e) auto

lemma activate_call:
  assumes "w endpoint = Some s" "activate_format (node_membership led s) query target s = (Some r, s')"
  shows "ct_activate_format (cluster_wire led query) (ucast target) endpoint w = (Inr (change_resp r), w(endpoint \<mapsto> s'))"
proof -
  have "unat target \<le> 255" using unat_u8_bound [of target] by simp
  then have "\<not> (255 :: u32) < ucast target" by (simp add: word_less_nat_alt unsigned_ucast_eq take_bit_nat_eq_self)
  moreover have "ucast (ucast target :: u32) = target" by (rule bit_word_eqI) (simp add: bit_simps)
  ultimately show ?thesis
    using assms by (simp add: cluster_wire_def at_node_def svc_activate_format_def openraft_admin_def)
qed

lemma activation_not_redirected:
  assumes "activate_format (node_membership led s) query target s = (Some r, s')"
  shows "chr_error (change_resp r) = kind_as_i32 KindNotLeader \<Longrightarrow> chr_leader_admin_endpoint (change_resp r) = []"
proof -
  assume "chr_error (change_resp r) = kind_as_i32 KindNotLeader"
  then obtain h where h: "r = Inl (AdNotLeader h)" by (blast dest: not_leader_change_resp)
  with assms have "h = None"
    by (cases "initiate_format_activation (mp_raft (node_membership led s)) target query s")
      (auto simp: activate_format_def split: sum.splits dest: activation_no_hint)
  with h show ?thesis by (simp add: change_err_def)
qed

section \<open>Properties\<close>

text \<open>
  C15. An admin command that prints ok made one change at one node. When \<open>tsoracle admin
  add-learner\<close>, \<open>promote\<close> or \<open>remove\<close> ends with ok against a cluster, the operation ran at the
  node dialled, or, when that node does not lead, at the admin endpoint of the leader in the
  dialled node's own view, reached with the scheme of the first endpoint; every other node is
  untouched, and the membership of the node that ran it is the one specified.
\<close>

theorem cli_ok_is_one_change:
  assumes "dispatch_admin (cluster_wire led query) endpoint tls (op_cmd opr) w = (Returned (Inr OutOk), w')"
    and "\<forall>s \<in> ran w. membership_valid s"
  shows "\<exists>url s s'. (url = endpoint \<or> (\<exists>d hint. w endpoint = Some d \<and> \<not> an_leads d
        \<and> known_leader_endpoint d = Some hint \<and> url = leader_url endpoint hint))
    \<and> w url = Some s \<and> w' = w(url \<mapsto> s')
    \<and> member_map (node_membership led s) s' = spec_admin opr (member_map (node_membership led s) s)"
proof -
  from assms(1) obtain resp where
    "with_redirect (cluster_wire led query) endpoint tls (op_call led opr) w = (Inr resp, w')" "chr_ok resp"
    unfolding dispatch_op end_with_ok by (elim exE conjE)
  from with_redirect_ok [OF this] obtain url s s' where u: "url = endpoint \<or> (\<exists>d hint. w endpoint = Some d \<and> \<not> an_leads d
        \<and> known_leader_endpoint d = Some hint \<and> url = leader_url endpoint hint)"
      "w url = Some s" "w' = w(url \<mapsto> s')" "run_admin (node_membership led s) opr s = (Inr (), s')"
    by (elim exE conjE)
  have "member_map (node_membership led s) s' = spec_admin opr (member_map (node_membership led s) s)"
    using logm.run_admin_refines [of s, OF assms(2) [rule_format, OF ranI [of w url, OF u(2)]]] u(4) by (simp add: node_membership_def)
  with u(1-3) show ?thesis by blast
qed

text \<open>The follower at \<open>http://f\<close> names the leader's admin endpoint, which is reached as \<open>http://a\<close> and its id.\<close>

definition demo_cluster :: admin_cluster where
  "demo_cluster = [lit ''http://f'' \<mapsto> demo_admin RoleFollower, lit ''http://a'' @ [1] \<mapsto> demo_admin RoleLeader]"

lemma demo_cluster_valid: "\<forall>s \<in> ran demo_cluster. membership_valid s"
  by (auto simp: demo_cluster_def ran_def demo_admin_ok(1) split: if_splits)

theorem cli_ok_is_one_change_witness:
  "\<exists>w' url s s'. dispatch_admin (cluster_wire (\<lambda>_. 1) demo_query) (lit ''http://f'') None (op_cmd (OpPromote 3)) demo_cluster
      = (Returned (Inr OutOk), w') \<and> url \<in> {lit ''http://f'', lit ''http://a'' @ [1]}
      \<and> demo_cluster url = Some s \<and> w' = demo_cluster(url \<mapsto> s')
      \<and> member_map (node_membership (\<lambda>_. 1) s) s' = spec_admin (OpPromote 3) (member_map (node_membership (\<lambda>_. 1) s) s)"
proof -
  let ?run = "dispatch_admin (cluster_wire (\<lambda>_. 1) demo_query) (lit ''http://f'') None (op_cmd (OpPromote 3)) demo_cluster"
  have "fst ?run = Returned (Inr OutOk)" by code_simp
  then obtain w' where w': "?run = (Returned (Inr OutOk), w')" by (metis prod.collapse)
  have d: "demo_cluster (lit ''http://f'') = Some (demo_admin RoleFollower)" by code_simp
  have l: "map_option (leader_url (lit ''http://f'')) (known_leader_endpoint (demo_admin RoleFollower)) = Some (lit ''http://a'' @ [1])"
    by code_simp
  from cli_ok_is_one_change [OF w' demo_cluster_valid] obtain url s s' where
    u: "url = lit ''http://f'' \<or> (\<exists>d hint. demo_cluster (lit ''http://f'') = Some d \<and> \<not> an_leads d
        \<and> known_leader_endpoint d = Some hint \<and> url = leader_url (lit ''http://f'') hint)"
      "demo_cluster url = Some s" "w' = demo_cluster(url \<mapsto> s')"
      "member_map (node_membership (\<lambda>_. 1) s) s' = spec_admin (OpPromote 3) (member_map (node_membership (\<lambda>_. 1) s) s)"
    by (elim exE conjE)
  from u(1) d l have "url \<in> {lit ''http://f'', lit ''http://a'' @ [1]}" by auto
  with w' u(2-4) show ?thesis by blast
qed

text \<open>
  The exit code of \<open>tsoracle admin activate-format\<close> tells the outcome: 0 when the format was
  activated, 2 when the gate refused it, 3 when the node does not lead (the command is not
  redirected then), 4 when the target is out of range, and 1 for every other failure.
\<close>

theorem activation_exit_codes:
  assumes "w endpoint = Some s" "activate_format (node_membership led s) query target s = (Some r, s')"
  shows "exit_code (fst (dispatch_admin (cluster_wire led query) endpoint tls (CmdActivateFormat target) w)) = activation_code r"
proof -
  have "with_redirect (cluster_wire led query) endpoint tls (ct_activate_format (cluster_wire led query) (ucast target)) w
      = (Inr (change_resp r), w(endpoint \<mapsto> s'))"
    using activate_call [of w endpoint s, OF assms] activation_not_redirected [OF assms(2)] assms(1)
    by (auto simp: with_redirect_def admin_connect_def cluster_wire_def [THEN arg_cong [of _ _ ct_dial]])
  then show ?thesis by (simp add: activation_exit)
qed

text \<open>
  A serving process reports the death of a transport. With a peer and an admin server, it ends
  without an error exactly when the client server did, neither transport server ended before the
  shutdown and both ended cleanly in it; so the death of either makes the exit code non-zero.
\<close>

theorem serve_ends_cleanly_iff:
  assumes "on_admin_addr n \<noteq> None"
  shows "exit_code (run_serve True (Inr (openraft_standalone n)) tls True True early serve_ok admin_exit peer_exit) = 0
    \<longleftrightarrow> is_ok tls \<and> serve_ok \<and> early = [] \<and> admin_exit = ServedOk \<and> peer_exit = ServedOk"
proof -
  have sup: "both_supervised (snd (take_drain (openraft_standalone n)))"
    using assms by (auto simp: both_supervised_def take_drain_def openraft_standalone_def)
  show ?thesis
    by (cases tls) (simp_all add: run_serve_def serve_to_end_supervised [OF sup] split: list.splits)
qed

theorem serve_ends_cleanly_iff_witness:
  "exit_code (run_serve True (Inr (openraft_standalone demo_node)) (Inr None) True True [(PeerTransport, ServedOk)] True ServedOk ServedOk) = 1"
proof -
  let ?run = "run_serve True (Inr (openraft_standalone demo_node)) (Inr None) True True [(PeerTransport, ServedOk)] True ServedOk ServedOk"
  have "on_admin_addr demo_node \<noteq> None" by (simp add: demo_node_def demo_config_def)
  from serve_ends_cleanly_iff [OF this, of "Inr None" "[(PeerTransport, ServedOk)]" True ServedOk ServedOk]
  have "exit_code ?run \<noteq> 0" by simp
  then show ?thesis by (cases ?run rule: exit_code.cases) (auto simp: run_serve_def)
qed

end
