(* ===== verification/Server_Lifecycle.thy ===== *)
theory Server_Lifecycle
  imports Interleaving
begin

text \<open>
  The life of a server's background tasks (\<open>tsoracle-server/src/server.rs\<close>): the watch
  task beside the handlers, the guard an embedder holds, the serving loop, the grace a
  shutdown waits and the results it reports. A fence attempt is split where the task runs
  without the runtime being able to stop it, because the thread that shuts the server
  down runs at the same time. The theory shows which ways of stopping leave the serving
  gate closed, whatever the interleaving, and exhibits the one that need not. The last
  part is the heartbeat (\<open>heartbeat.rs\<close>) and the counters it reads (\<open>reporter.rs\<close>).
\<close>

section \<open>Results of a task\<close>

text \<open>The payload of a panic is a literal, an owned string or anything else.\<close>

datatype panic_payload = PanicStr string | PanicString string | PanicOther

definition panic_payload_to_string :: "panic_payload \<Rightarrow> string" where
  "panic_payload_to_string p =
     (case p of
        PanicStr text \<Rightarrow> text
      | PanicString text \<Rightarrow> text
      | PanicOther \<Rightarrow> ''watch task panicked with non-string payload'')"

datatype join_error = JoinPanicked panic_payload | JoinCancelled

type_synonym watch_join = "(join_error, (server_error, unit) result) result"

definition join_to_server_result :: "watch_join \<Rightarrow> (server_error, unit) result" where
  "join_to_server_result join_result =
     (case join_result of
        Inr inner \<Rightarrow> inner
      | Inl (JoinPanicked p) \<Rightarrow> Inl (WatchPanic (panic_payload_to_string p))
      | Inl JoinCancelled \<Rightarrow> Inr ())"

text \<open>The conversion of the drain's error is an argument, as in the source.\<close>

definition combine_watch_and_drain ::
  "('e \<Rightarrow> server_error) \<Rightarrow> watch_join \<Rightarrow> ('e, unit) result \<Rightarrow> (server_error, unit) result" where
  "combine_watch_and_drain from watch_result drain_result =
     (case join_to_server_result watch_result of
        Inl watch_err \<Rightarrow> Inl watch_err
      | Inr _ \<Rightarrow> map_err from drain_result)"

section \<open>A fence attempt in its parts\<close>

record fence_plan =
  fp_now :: u64
  fp_floor :: u64
  fp_actual :: u64
  fp_leases :: "lease_record list"

text \<open>Up to the driver's answer the attempt does not look at the core.\<close>

definition fence_load_persist ::
  "server_config \<Rightarrow> 's consensus_driver \<Rightarrow> u64 \<Rightarrow> epoch \<Rightarrow> 's \<Rightarrow> (server_error, fence_plan) result \<times> 's" where
  "fence_load_persist cfg drv now epoch s =
     (case drv_load_high_water drv s of
        (Inl e, s1) \<Rightarrow> (Inl (SeConsensus e), s1)
      | (Inr prior_max, s1) \<Rightarrow>
          (let (lr, s2) = drv_load_leases drv s1
           in case (case lr of Inl LeasesUnsupported \<Rightarrow> Inr [] | _ \<Rightarrow> lr) of
             Inl e \<Rightarrow> (Inl (SeConsensus e), s2)
           | Inr rs \<Rightarrow>
               (let serving_floor = fence_serving_floor prior_max now
                in case drv_persist_high_water drv (fence_requested cfg serving_floor) epoch s2 of
                  (Inl e, s3) \<Rightarrow> (Inl (SeConsensus e), s3)
                | (Inr actual, s3) \<Rightarrow>
                    (Inr \<lparr>fp_now = now, fp_floor = serving_floor, fp_actual = actual, fp_leases = rs\<rparr>, s3))))"

section \<open>The watch task\<close>

text \<open>
  Between \<open>TkSelecting\<close> and the next park, and from \<open>TkPersisted\<close> to \<open>TkSelecting\<close>, the
  task does not await. In the parked states (\<open>TkParked\<close>, \<open>TkFencing\<close>, \<open>TkBackoff\<close>) it does.
\<close>

datatype task_phase =
    TkParked
  | TkSelecting
  | TkFencing epoch
  | TkBackoff epoch
  | TkPersisted epoch fence_plan
  | TkSeeded fence_plan
  | TkLeased
  | TkEnded watch_join

fun awaiting :: "task_phase \<Rightarrow> bool" where
  "awaiting TkParked = True"
| "awaiting (TkFencing _) = True"
| "awaiting (TkBackoff _) = True"
| "awaiting _ = False"

fun at_event_wait :: "task_phase \<Rightarrow> bool" where
  "at_event_wait TkParked = True"
| "at_event_wait TkSelecting = True"
| "at_event_wait _ = False"

fun at_select :: "task_phase \<Rightarrow> bool" where
  "at_select TkParked = True"
| "at_select TkSelecting = True"
| "at_select (TkBackoff _) = True"
| "at_select _ = False"

fun calls_driver :: "task_phase \<Rightarrow> bool" where
  "calls_driver (TkFencing _) = True"
| "calls_driver ph = at_select ph"

type_synonym 's task = "task_phase \<times> 's server"

definition close_gate :: "'s server \<Rightarrow> 's server" where
  "close_gate sv = sv\<lparr>sv_core := sc_step_down None None (sv_core sv)\<rparr>"

text \<open>The end of the spawned task: an error or a panic poisons first.\<close>

definition task_ends :: "watch_join \<Rightarrow> 's server \<Rightarrow> 's task" where
  "task_ends jr sv = (TkEnded jr, close_gate sv)"

definition task_dispatch :: "leader_state \<Rightarrow> 's server \<Rightarrow> 's task" where
  "task_dispatch evt sv =
     (case evt of
        LsLeader epoch \<Rightarrow> (TkFencing epoch, sv\<lparr>sv_core := enter_fencing (sv_core sv)\<rparr>)
      | LsFollower endpoint epoch \<Rightarrow> (TkSelecting, sv\<lparr>sv_core := sc_step_down endpoint epoch (sv_core sv)\<rparr>)
      | LsUnknown \<Rightarrow> (TkSelecting, close_gate sv))"

text \<open>What follows a failed attempt.\<close>

definition task_attempt_failed :: "epoch \<Rightarrow> server_error \<Rightarrow> 's server \<Rightarrow> 's task" where
  "task_attempt_failed epoch err sv =
     (case err of
        SeConsensus e \<Rightarrow>
          (case classify e of
             SteppedDown _ \<Rightarrow> (TkSelecting, sv\<lparr>sv_core := publish_not_serving None None (sv_core sv)\<rparr>)
           | Transient _ \<Rightarrow> (TkBackoff epoch, sv)
           | Permanent cause \<Rightarrow> task_ends (Inr (Inl (SeConsensus (permanent_cause cause)))) sv
           | DispOutOfRange at_least \<Rightarrow> task_ends (Inr (Inl (SeConsensus (AdvanceOutOfRange at_least)))) sv)
      | _ \<Rightarrow> task_ends (Inr (Inl err)) sv)"

text \<open>One stretch of the task; the flag says whether its cancel sender is gone. Both waits
  look at it first.\<close>

inductive task_step ::
  "server_config \<Rightarrow> 's consensus_driver \<Rightarrow> bool \<Rightarrow> 's task \<Rightarrow> 's task \<Rightarrow> bool"
  for cfg :: server_config and drv :: "'s consensus_driver" where
  t_cancel: "at_select ph \<Longrightarrow> task_step cfg drv True (ph, sv) (task_ends (Inr (Inr ())) sv)"
| t_event: "at_event_wait ph \<Longrightarrow> task_step cfg drv False (ph, sv) (task_dispatch evt sv)"
| t_closed: "at_select ph \<Longrightarrow> task_step cfg drv False (ph, sv) (task_ends (Inr (Inl WatchStreamClosed)) sv)"
| t_park: "task_step cfg drv False (TkSelecting, sv) (TkParked, sv)"
| t_backoff_over: "task_step cfg drv False (TkBackoff e, sv) (TkFencing e, sv)"
| t_backoff_event: "task_step cfg drv False (TkBackoff e, sv) (task_dispatch evt sv)"
| t_persisted: "fence_load_persist cfg drv now e (sv_driver sv) = (Inr p, s') \<Longrightarrow>
    task_step cfg drv cancelled (TkFencing e, sv) (TkPersisted e p, sv\<lparr>sv_driver := s'\<rparr>)"
| t_failed: "fence_load_persist cfg drv now e (sv_driver sv) = (Inl er, s') \<Longrightarrow>
    task_step cfg drv cancelled (TkFencing e, sv) (task_attempt_failed e er (sv\<lparr>sv_driver := s'\<rparr>))"
| t_seeded: "seed_on_leadership_gained (fp_floor p) (fp_actual p) e (sv_core sv) = (Inr u, c') \<Longrightarrow>
    task_step cfg drv cancelled (TkPersisted e p, sv) (TkSeeded p, sv\<lparr>sv_core := c'\<rparr>)"
| t_seed_failed: "seed_on_leadership_gained (fp_floor p) (fp_actual p) e (sv_core sv) = (Inl er, c') \<Longrightarrow>
    task_step cfg drv cancelled (TkPersisted e p, sv) (task_ends (Inr (Inl (SeCore er))) (sv\<lparr>sv_core := c'\<rparr>))"
| t_leased: "task_step cfg drv cancelled (TkSeeded p, sv)
    (TkLeased, sv\<lparr>sv_core := seed_leases (fp_leases p) (fp_now p) (sv_core sv)\<rparr>)"
| t_published: "task_step cfg drv cancelled (TkLeased, sv) (TkSelecting, sv\<lparr>sv_core := publish_serving (sv_core sv)\<rparr>)"
| t_panic: "calls_driver ph \<Longrightarrow> task_step cfg drv cancelled (ph, sv) (task_ends (Inl (JoinPanicked p)) sv)"

inductive_cases task_stepE: "task_step cfg drv k t t'"

section \<open>The server and the thread that stops it\<close>

datatype heartbeat_task = HbNone | HbRunning | HbEnded

text \<open>The operations of the stopping thread, in the order of the source. The flag of
  \<open>OpAwaitWatch\<close> says whether the outcome of the task is reported or dropped.\<close>

datatype main_op =
    OpServe
  | OpStepDown
  | OpDropCancel
  | OpDropHeartbeatCancel
  | OpAbortWatch
  | OpAbortHeartbeat
  | OpReapHeartbeat
  | OpAwaitWatch bool
  | OpReapWatch bool

record 's lifecycle =
  lc_server :: "'s server"
  lc_task :: task_phase
  lc_cancelled :: bool
  lc_aborted :: bool
  lc_heartbeat :: heartbeat_task
  lc_hb_cancelled :: bool
  lc_hb_aborted :: bool
  lc_main :: "main_op list"
  lc_result :: "(server_error, unit) result option"
  lc_watch_aborts :: nat
  lc_hb_panics :: nat

text \<open>\<open>WatchGuard\<close>: \<open>drop\<close>, and \<open>shutdown\<close> and \<open>abort\<close>, which end in it.\<close>

definition guard_drop :: "main_op list" where
  "guard_drop = [OpStepDown, OpDropCancel, OpDropHeartbeatCancel, OpAbortHeartbeat]"

definition guard_shutdown :: "main_op list" where
  "guard_shutdown = [OpDropHeartbeatCancel, OpDropCancel, OpReapHeartbeat, OpAwaitWatch True] @ guard_drop"

definition guard_abort :: "main_op list" where
  "guard_abort = [OpAbortWatch, OpAbortHeartbeat] @ guard_drop"

definition guard_is_finished :: "'s lifecycle \<Rightarrow> bool" where
  "guard_is_finished s = (case lc_task s of TkEnded _ \<Rightarrow> True | _ \<Rightarrow> False)"

text \<open>The two arms of \<open>serve_inner\<close>, and the stop of the heartbeat both end in.\<close>

definition serve_epilogue :: "main_op list" where
  "serve_epilogue = [OpDropHeartbeatCancel, OpReapHeartbeat]"

definition serve_user_arm :: "main_op list" where
  "serve_user_arm = [OpStepDown, OpDropCancel, OpAwaitWatch False] @ serve_epilogue"

text \<open>Spawning: the watch task and, for an interval other than zero, the heartbeat.\<close>

definition spawned :: "duration \<Rightarrow> main_op list \<Rightarrow> 's server \<Rightarrow> 's lifecycle" where
  "spawned heartbeat_interval ops sv =
     \<lparr>lc_server = sv, lc_task = TkParked, lc_cancelled = False, lc_aborted = False,
      lc_heartbeat = (if heartbeat_interval = 0 then HbNone else HbRunning),
      lc_hb_cancelled = False, lc_hb_aborted = False, lc_main = ops, lc_result = None,
      lc_watch_aborts = 0, lc_hb_panics = 0\<rparr>"

text \<open>A descriptor set that does not decode fails before anything is spawned; a TLS
  configuration that is refused drops both cancel senders on the way out.\<close>

definition into_router_parts ::
  "('e, unit) result \<Rightarrow> duration \<Rightarrow> main_op list \<Rightarrow> 's server \<Rightarrow> (server_error, 's lifecycle) result" where
  "into_router_parts reflection heartbeat_interval ops sv =
     and_then (map_err (\<lambda>_. ReflectionInit) reflection) (\<lambda>_. Inr (spawned heartbeat_interval ops sv))"

definition into_router ::
  "('e, unit) result \<Rightarrow> duration \<Rightarrow> 's server \<Rightarrow> (server_error, 's lifecycle) result" where
  "into_router reflection heartbeat_interval sv = into_router_parts reflection heartbeat_interval [] sv"

definition serve_with_shutdown ::
  "('e, unit) result \<Rightarrow> (string, unit) result option \<Rightarrow> duration \<Rightarrow> 's server
     \<Rightarrow> (server_error, 's lifecycle) result" where
  "serve_with_shutdown reflection tls heartbeat_interval sv =
     and_then (into_router_parts reflection heartbeat_interval [OpServe] sv) (\<lambda>s.
       Inr (case tls of
              Some (Inl e) \<Rightarrow> s\<lparr>lc_main := [OpDropCancel, OpDropHeartbeatCancel], lc_result := Some (Inl (SeTransport e))\<rparr>
            | _ \<Rightarrow> s))"

text \<open>
  A step of the stopping thread. The grace may run out at any time before the task has
  ended, since how long the task takes is not bounded. In the serving loop a task that has
  ended wins over a listener that has, and its end starts the drain.
\<close>

inductive main_step :: "'s lifecycle \<Rightarrow> 's lifecycle \<Rightarrow> bool" where
  m_serve_watch: "lc_main s = OpServe # ops \<Longrightarrow> lc_task s = TkEnded jr \<Longrightarrow>
    main_step s (s\<lparr>lc_main := serve_epilogue @ ops,
                   lc_result := Some (combine_watch_and_drain SeTransport jr drained)\<rparr>)"
| m_serve_user: "lc_main s = OpServe # ops \<Longrightarrow> \<not> guard_is_finished s \<Longrightarrow>
    main_step s (s\<lparr>lc_main := serve_user_arm @ ops, lc_result := Some (map_err SeTransport served)\<rparr>)"
| m_step_down: "lc_main s = OpStepDown # ops \<Longrightarrow>
    main_step s (s\<lparr>lc_main := ops, lc_server := close_gate (lc_server s)\<rparr>)"
| m_drop_cancel: "lc_main s = OpDropCancel # ops \<Longrightarrow> main_step s (s\<lparr>lc_main := ops, lc_cancelled := True\<rparr>)"
| m_drop_hb: "lc_main s = OpDropHeartbeatCancel # ops \<Longrightarrow> main_step s (s\<lparr>lc_main := ops, lc_hb_cancelled := True\<rparr>)"
| m_abort: "lc_main s = OpAbortWatch # ops \<Longrightarrow> main_step s (s\<lparr>lc_main := ops, lc_aborted := True\<rparr>)"
| m_abort_hb: "lc_main s = OpAbortHeartbeat # ops \<Longrightarrow> main_step s (s\<lparr>lc_main := ops, lc_hb_aborted := True\<rparr>)"
| m_hb_reaped: "lc_main s = OpReapHeartbeat # ops \<Longrightarrow> lc_heartbeat s \<noteq> HbRunning \<Longrightarrow> main_step s (s\<lparr>lc_main := ops\<rparr>)"
| m_hb_timeout: "lc_main s = OpReapHeartbeat # ops \<Longrightarrow> lc_heartbeat s = HbRunning \<Longrightarrow>
    main_step s (s\<lparr>lc_hb_aborted := True\<rparr>)"
| m_joined: "lc_main s = OpAwaitWatch keep # ops \<or> lc_main s = OpReapWatch keep # ops \<Longrightarrow> lc_task s = TkEnded jr \<Longrightarrow>
    main_step s (s\<lparr>lc_main := ops,
                   lc_result := (if keep then Some (join_to_server_result jr) else lc_result s)\<rparr>)"
| m_timeout: "lc_main s = OpAwaitWatch keep # ops \<Longrightarrow> \<not> guard_is_finished s \<Longrightarrow>
    main_step s (s\<lparr>lc_main := OpReapWatch keep # ops, lc_aborted := True, lc_watch_aborts := Suc (lc_watch_aborts s)\<rparr>)"

text \<open>A step of the runtime: an aborted task is dropped where it awaits, a heartbeat ends.\<close>

inductive runtime_step :: "'s lifecycle \<Rightarrow> 's lifecycle \<Rightarrow> bool" where
  r_abort: "lc_aborted s \<Longrightarrow> awaiting (lc_task s) \<Longrightarrow> runtime_step s (s\<lparr>lc_task := TkEnded (Inl JoinCancelled)\<rparr>)"
| r_hb_stops: "lc_heartbeat s = HbRunning \<Longrightarrow> lc_hb_cancelled s \<or> lc_hb_aborted s \<Longrightarrow>
    runtime_step s (s\<lparr>lc_heartbeat := HbEnded\<rparr>)"
| r_hb_panics: "lc_heartbeat s = HbRunning \<Longrightarrow>
    runtime_step s (s\<lparr>lc_heartbeat := HbEnded, lc_hb_panics := Suc (lc_hb_panics s)\<rparr>)"

text \<open>A request is one whole step; the events of leadership are the task's. A task that is
  dropped inside the driver may leave what it asked for behind (\<open>lc_torn\<close>).\<close>

fun is_request :: "srv_cmd \<Rightarrow> bool" where
  "is_request (SrvEvent _ _) = False"
| "is_request SrvPoison = False"
| "is_request _ = True"

inductive lc_step :: "server_config \<Rightarrow> 's consensus_driver \<Rightarrow> 's lifecycle \<Rightarrow> 's lifecycle \<Rightarrow> bool"
  for cfg :: server_config and drv :: "'s consensus_driver" where
  lc_thread: "main_step s s' \<Longrightarrow> lc_step cfg drv s s'"
| lc_runtime: "runtime_step s s' \<Longrightarrow> lc_step cfg drv s s'"
| lc_watch: "task_step cfg drv (lc_cancelled s) (lc_task s, lc_server s) (ph, sv) \<Longrightarrow>
    lc_step cfg drv s (s\<lparr>lc_task := ph, lc_server := sv\<rparr>)"
| lc_torn: "lc_aborted s \<Longrightarrow> lc_task s = TkFencing e \<Longrightarrow> fence_load_persist cfg drv now e (sv_driver (lc_server s)) = (r, d) \<Longrightarrow>
    lc_step cfg drv s (s\<lparr>lc_task := TkEnded (Inl JoinCancelled), lc_server := (lc_server s)\<lparr>sv_driver := d\<rparr>\<rparr>)"
| lc_request: "is_request cmd \<Longrightarrow> srv_step cfg drv (lc_server s) cmd = (gs, sv) \<Longrightarrow>
    lc_step cfg drv s (s\<lparr>lc_server := sv\<rparr>)"

inductive_cases main_stepE: "main_step s s'"
inductive_cases runtime_stepE: "runtime_step s s'"
inductive_cases lc_stepE: "lc_step cfg drv s s'"

abbreviation lc_run :: "server_config \<Rightarrow> 's consensus_driver \<Rightarrow> 's lifecycle \<Rightarrow> 's lifecycle \<Rightarrow> bool" where
  "lc_run cfg drv \<equiv> (lc_step cfg drv)\<^sup>*\<^sup>*"

section \<open>Reporter and heartbeat\<close>

text \<open>The local counters of the reporter; its histograms keep nothing.\<close>

record reporter =
  rp_get_ts_requests :: u64
  rp_get_ts_success :: u64
  rp_timestamps_issued :: u64
  rp_get_seq_requests :: u64
  rp_get_seq_success :: u64
  rp_seq_values_issued :: u64
  rp_seq_cardinality_rejected :: u64
  rp_get_seq_batch_requests :: u64
  rp_get_seq_batch_success :: u64
  rp_seq_batch_values_issued :: u64
  rp_seq_batch_cardinality_rejected :: u64
  rp_lease_acquire_requests :: u64
  rp_lease_acquire_success :: u64
  rp_lease_renew_requests :: u64
  rp_lease_renew_success :: u64
  rp_lease_release_requests :: u64
  rp_not_leader :: u64
  rp_leader_transitions :: u64
  rp_fence_transient_retries :: u64
  rp_window_extensions :: u64
  rp_ignored_not_leader :: u64
  rp_ignored_epoch_mismatch :: u64
  rp_ignored_not_advanced :: u64
  rp_shutdown_watch_aborted :: u64
  rp_heartbeat_task_panicked :: u64
  rp_last_leader_transition :: u64

definition reporter_new :: reporter where
  "reporter_new =
     \<lparr>rp_get_ts_requests = 0, rp_get_ts_success = 0, rp_timestamps_issued = 0,
      rp_get_seq_requests = 0, rp_get_seq_success = 0, rp_seq_values_issued = 0, rp_seq_cardinality_rejected = 0,
      rp_get_seq_batch_requests = 0, rp_get_seq_batch_success = 0, rp_seq_batch_values_issued = 0,
      rp_seq_batch_cardinality_rejected = 0,
      rp_lease_acquire_requests = 0, rp_lease_acquire_success = 0, rp_lease_renew_requests = 0,
      rp_lease_renew_success = 0, rp_lease_release_requests = 0,
      rp_not_leader = 0, rp_leader_transitions = 0, rp_fence_transient_retries = 0,
      rp_window_extensions = 0, rp_ignored_not_leader = 0, rp_ignored_epoch_mismatch = 0, rp_ignored_not_advanced = 0,
      rp_shutdown_watch_aborted = 0, rp_heartbeat_task_panicked = 0, rp_last_leader_transition = 0\<rparr>"

text \<open>\<open>fetch_add\<close> wraps. A timestamp of zero was never touched.\<close>

definition counter_increment :: "u64 \<Rightarrow> u64 \<Rightarrow> u64" where
  "counter_increment n counter = counter + n"

definition timestamp_snapshot :: "u64 \<Rightarrow> u64 option" where
  "timestamp_snapshot v = (if v \<noteq> 0 then Some v else None)"

definition count_ignored :: "commit_ignore \<Rightarrow> reporter \<Rightarrow> reporter" where
  "count_ignored reason r =
     (case reason of
        IgnoreNotLeader \<Rightarrow> r\<lparr>rp_ignored_not_leader := counter_increment 1 (rp_ignored_not_leader r)\<rparr>
      | IgnoreEpochMismatch _ _ \<Rightarrow> r\<lparr>rp_ignored_epoch_mismatch := counter_increment 1 (rp_ignored_epoch_mismatch r)\<rparr>
      | IgnoreNotAdvanced _ _ \<Rightarrow> r\<lparr>rp_ignored_not_advanced := counter_increment 1 (rp_ignored_not_advanced r)\<rparr>)"

definition count_transition :: "u64 \<Rightarrow> reporter \<Rightarrow> reporter" where
  "count_transition now_unix_ms r =
     r\<lparr>rp_leader_transitions := counter_increment 1 (rp_leader_transitions r), rp_last_leader_transition := now_unix_ms\<rparr>"

record heartbeat_snapshot =
  hs_requests :: u64
  hs_ts_issued :: u64
  hs_not_leader :: u64
  hs_transitions :: u64
  hs_fence_retries :: u64
  hs_last_transition_unix_ms :: "u64 option"

definition heartbeat_sample :: "reporter \<Rightarrow> heartbeat_snapshot" where
  "heartbeat_sample r =
     \<lparr>hs_requests = rp_get_ts_requests r, hs_ts_issued = rp_timestamps_issued r, hs_not_leader = rp_not_leader r,
      hs_transitions = rp_leader_transitions r, hs_fence_retries = rp_fence_transient_retries r,
      hs_last_transition_unix_ms = timestamp_snapshot (rp_last_leader_transition r)\<rparr>"

definition age_secs_from :: "u64 \<Rightarrow> u64 \<Rightarrow> u64" where
  "age_secs_from now_ms then_unix_ms = saturating_sub now_ms then_unix_ms div 1000"

record heartbeat_line =
  hl_uptime_secs :: nat
  hl_serving :: bool
  hl_epoch :: "epoch option"
  hl_requests :: u64
  hl_requests_total :: u64
  hl_ts_issued :: u64
  hl_not_leader :: u64
  hl_transitions :: u64
  hl_fence_retries :: u64
  hl_last_transition_age_secs :: "u64 option"

text \<open>What ends a wait of the loop: the cancel, or the interval, with the uptime in seconds,
  the wall clock, the reporter and the core found then.\<close>

datatype heartbeat_input = HbCancel | HbTick nat u64 reporter serving_core

definition heartbeat_tick ::
  "nat \<Rightarrow> u64 \<Rightarrow> heartbeat_snapshot \<Rightarrow> heartbeat_snapshot \<Rightarrow> serving_core \<Rightarrow> heartbeat_line" where
  "heartbeat_tick uptime now_ms prev cur c =
     \<lparr>hl_uptime_secs = uptime, hl_serving = is_serving c, hl_epoch = current_epoch c,
      hl_requests = hs_requests cur - hs_requests prev, hl_requests_total = hs_requests cur,
      hl_ts_issued = hs_ts_issued cur - hs_ts_issued prev,
      hl_not_leader = hs_not_leader cur - hs_not_leader prev,
      hl_transitions = hs_transitions cur - hs_transitions prev,
      hl_fence_retries = hs_fence_retries cur - hs_fence_retries prev,
      hl_last_transition_age_secs = map_option (age_secs_from now_ms) (hs_last_transition_unix_ms cur)\<rparr>"

fun run_heartbeat :: "heartbeat_snapshot \<Rightarrow> heartbeat_input list \<Rightarrow> heartbeat_line list" where
  "run_heartbeat prev [] = []"
| "run_heartbeat prev (HbCancel # inputs) = []"
| "run_heartbeat prev (HbTick uptime now_ms r c # inputs) =
     (let cur = heartbeat_sample r
      in heartbeat_tick uptime now_ms prev cur c # run_heartbeat cur inputs)"

text \<open>The reporter's clock truncates where the allocator's saturates.\<close>

definition now_unix_ms :: "duration option \<Rightarrow> u64" where
  "now_unix_ms since_epoch = (case since_epoch of Some d \<Rightarrow> as_millis d | None \<Rightarrow> 0)"

text \<open>The signal that ends the wait: the first one whose handler could be installed.\<close>

datatype os_signal = Sigterm | Sigint

definition shutdown_signal :: "bool \<Rightarrow> bool \<Rightarrow> os_signal list \<Rightarrow> os_signal option" where
  "shutdown_signal sigterm_installed sigint_installed signals =
     find (\<lambda>s. case s of Sigterm \<Rightarrow> sigterm_installed | Sigint \<Rightarrow> sigint_installed) signals"

section \<open>The gate\<close>

definition gate_closed :: "'s lifecycle \<Rightarrow> bool" where
  "gate_closed s \<longleftrightarrow> \<not> is_serving (sv_core (lc_server s)) \<and> \<not> alloc_is_leader (sc_allocator (sv_core (lc_server s)))"

lemma step_down_closed [simp]:
  "\<not> is_serving (sc_step_down ep eo c)" "\<not> alloc_is_leader (sc_allocator (sc_step_down ep eo c))"
  by (simp_all add: sc_step_down_def is_serving_def alloc_step_down_def alloc_is_leader_def)

lemma close_gate_closed [simp]:
  "\<not> is_serving (sv_core (close_gate sv))" "\<not> alloc_is_leader (sc_allocator (sv_core (close_gate sv)))"
  by (simp_all add: close_gate_def)

lemma close_gate_twice [simp]: "close_gate (sv\<lparr>sv_core := enter_fencing (sv_core sv)\<rparr>) = close_gate sv"
  by (simp add: close_gate_def enter_fencing_def sc_step_down_def alloc_step_down_def seq_step_down_def lt_clear_def)

text \<open>A request that finds the gate closed is refused and changes nothing.\<close>

lemma request_refused:
  assumes "is_request cmd" "\<not> is_serving (sv_core sv)" "srv_step cfg drv sv cmd = (gs, sv')"
  shows "gs = [] \<and> sv' = sv"
  using assms by (cases cmd) (auto simp: get_ts_grant_def get_seq_def get_seq_batch_def acquire_lease_def renew_lease_def
      release_lease_def ensure_serving_def Let_def split: if_splits)

section \<open>The task and the attempt it stands for\<close>

lemma fence_attempt_parts:
  "fence_attempt cfg drv now e sv =
     (case fence_load_persist cfg drv now e (sv_driver sv) of
        (Inl er, s') \<Rightarrow> (Inl er, sv\<lparr>sv_driver := s'\<rparr>)
      | (Inr p, s') \<Rightarrow>
          (let (r, c') = fence_seed (fp_floor p) (fp_actual p) e (fp_leases p) (fp_now p) (sv_core sv)
           in (r, \<lparr>sv_core = c', sv_driver = s'\<rparr>)))"
  by (auto simp: fence_attempt_def fence_load_persist_def Let_def split: prod.splits sum.splits)

lemma fence_attempt_Inr:
  assumes "fence_attempt cfg drv now e sv = (Inr u, sv')"
  obtains p s' c' where "fence_load_persist cfg drv now e (sv_driver sv) = (Inr p, s')"
    "seed_on_leadership_gained (fp_floor p) (fp_actual p) e (sv_core sv) = (Inr (), c')"
    "sv' = \<lparr>sv_core = publish_serving (seed_leases (fp_leases p) (fp_now p) c'), sv_driver = s'\<rparr>"
  using assms by (auto simp: fence_attempt_parts fence_seed_def Let_def split: prod.splits sum.splits)

text \<open>Undisturbed, the stretches of the task add up to the attempt of the fence.\<close>

lemma task_runs_attempt:
  assumes "fence_attempt cfg drv now e sv = (Inr u, sv')"
  shows "(task_step cfg drv k)\<^sup>*\<^sup>* (TkFencing e, sv) (TkSelecting, sv')"
proof -
  obtain p s' c' where a: "fence_load_persist cfg drv now e (sv_driver sv) = (Inr p, s')"
    "seed_on_leadership_gained (fp_floor p) (fp_actual p) e (sv_core sv) = (Inr (), c')"
    "sv' = \<lparr>sv_core = publish_serving (seed_leases (fp_leases p) (fp_now p) c'), sv_driver = s'\<rparr>"
    by (rule fence_attempt_Inr [OF assms])
  let ?s1 = "sv\<lparr>sv_driver := s'\<rparr>" and ?s2 = "sv\<lparr>sv_driver := s', sv_core := c'\<rparr>"
  let ?s3 = "?s2\<lparr>sv_core := seed_leases (fp_leases p) (fp_now p) c'\<rparr>"
  have "task_step cfg drv k (TkFencing e, sv) (TkPersisted e p, ?s1)" by (rule t_persisted [OF a(1)])
  moreover have "task_step cfg drv k (TkPersisted e p, ?s1) (TkSeeded p, ?s2)"
    using t_seeded [of p e ?s1] a(2) by simp
  moreover have "task_step cfg drv k (TkSeeded p, ?s2) (TkLeased, ?s3)" using t_leased [of cfg drv k p ?s2] by simp
  moreover have "task_step cfg drv k (TkLeased, ?s3) (TkSelecting, sv')"
    using t_published [of cfg drv k ?s3] a(3) by simp
  ultimately show ?thesis by (meson converse_rtranclp_into_rtranclp rtranclp.rtrancl_refl)
qed

lemma task_runs_failed_attempt:
  assumes "fence_attempt cfg drv now e sv = (Inl er, sv')"
  shows "(task_step cfg drv k)\<^sup>*\<^sup>* (TkFencing e, sv) (task_attempt_failed e er sv')"
proof (cases "fence_load_persist cfg drv now e (sv_driver sv)")
  case (Pair r s')
  show ?thesis
  proof (cases r)
    case (Inl er')
    with Pair assms have "er' = er" "sv' = sv\<lparr>sv_driver := s'\<rparr>" by (auto simp: fence_attempt_parts)
    with Pair Inl t_failed [of cfg drv now e sv er s' k] show ?thesis by auto
  next
    case (Inr p)
    with Pair assms obtain ce c' where b: "seed_on_leadership_gained (fp_floor p) (fp_actual p) e (sv_core sv) = (Inl ce, c')"
      "er = SeCore ce" "sv' = \<lparr>sv_core = c', sv_driver = s'\<rparr>"
      by (auto simp: fence_attempt_parts fence_seed_def Let_def split: prod.splits sum.splits)
    have "task_step cfg drv k (TkFencing e, sv) (TkPersisted e p, sv\<lparr>sv_driver := s'\<rparr>)"
      using Pair Inr by (intro t_persisted) simp
    moreover have "task_step cfg drv k (TkPersisted e p, sv\<lparr>sv_driver := s'\<rparr>) (task_attempt_failed e er sv')"
      using t_seed_failed [of p e "sv\<lparr>sv_driver := s'\<rparr>" ce c' cfg drv k] b by (simp add: task_attempt_failed_def)
    ultimately show ?thesis by (meson converse_rtranclp_into_rtranclp rtranclp.rtrancl_refl)
  qed
qed

section \<open>Every end but an abort closes the gate\<close>

lemma dispatch_not_ended [simp]: "(TkEnded jr, sv') \<noteq> task_dispatch evt sv"
  by (simp add: task_dispatch_def split: leader_state.splits)

lemma failed_end:
  assumes "(TkEnded jr, sv') = task_attempt_failed e er sv"
  shows "sv' = close_gate sv \<and> jr \<noteq> Inl JoinCancelled"
  using assms by (auto simp: task_attempt_failed_def task_ends_def split: server_error.splits persist_disposition.splits)

lemma task_step_end:
  assumes "task_step cfg drv k (ph, sv) (TkEnded jr, sv')"
  shows "\<exists>sv0. sv' = close_gate sv0 \<and> jr \<noteq> Inl JoinCancelled"
  using assms by (rule task_stepE) (auto simp: task_ends_def dest: failed_end)

lemma task_step_not_ended: "\<not> task_step cfg drv k (TkEnded jr, sv) t"
  by (auto elim: task_stepE)

definition own_end_closed :: "'s lifecycle \<Rightarrow> bool" where
  "own_end_closed s \<longleftrightarrow> (\<forall>jr. lc_task s = TkEnded jr \<longrightarrow> jr \<noteq> Inl JoinCancelled \<longrightarrow> gate_closed s)"

lemma main_step_closed:
  assumes "main_step s s'"
  shows "lc_task s' = lc_task s" "gate_closed s \<Longrightarrow> gate_closed s'"
  using assms by (auto elim!: main_stepE simp: gate_closed_def)

lemma request_closed:
  assumes "is_request cmd" "srv_step cfg drv (lc_server s) cmd = (gs, sv)" "gate_closed s"
  shows "sv = lc_server s"
  using request_refused [OF assms(1) _ assms(2)] assms(3) by (simp add: gate_closed_def)

lemma own_end_closed_step:
  assumes "lc_step cfg drv s s'" "own_end_closed s"
  shows "own_end_closed s'"
  using assms(1)
proof (cases rule: lc_step.cases)
  case lc_thread
  with main_step_closed [OF lc_thread] assms(2) show ?thesis by (simp add: own_end_closed_def)
next
  case lc_runtime
  with assms(2) show ?thesis by (auto elim!: runtime_stepE simp: own_end_closed_def gate_closed_def)
next
  case (lc_watch ph sv)
  with task_step_end [of cfg drv "lc_cancelled s" "lc_task s" "lc_server s" _ sv] show ?thesis
    by (fastforce simp: own_end_closed_def gate_closed_def)
next
  case lc_torn
  then show ?thesis by (simp add: own_end_closed_def)
next
  case (lc_request cmd gs sv)
  with request_closed [OF lc_request(2,3)] assms(2) show ?thesis by (auto simp: own_end_closed_def gate_closed_def)
qed

lemma own_end_closed_run:
  assumes "lc_run cfg drv (spawned hb ops sv) s"
  shows "own_end_closed s"
  using assms
  by (induction rule: rtranclp_induct) (auto simp: own_end_closed_def spawned_def intro: own_end_closed_step [unfolded own_end_closed_def, rule_format])

section \<open>A shutdown joins the task before it closes the gate\<close>

definition task_joined :: "'s lifecycle \<Rightarrow> bool" where
  "task_joined s \<longleftrightarrow> (\<exists>jr. lc_task s = TkEnded jr \<and> lc_result s = Some (join_to_server_result jr))"

text \<open>
  What a program of the stopping thread is sure of, from what holds before it: that the
  outcome of the task is recorded, and that the gate was closed after that.
\<close>

fun closes :: "main_op list \<Rightarrow> bool \<Rightarrow> bool \<Rightarrow> bool" where
  "closes [] joined closed = (joined \<and> closed)"
| "closes (op # ops) joined closed =
     (case op of
        OpServe \<Rightarrow> False
      | OpStepDown \<Rightarrow> closes ops joined joined
      | OpAwaitWatch keep \<Rightarrow> closes ops (joined \<or> keep) closed
      | OpReapWatch keep \<Rightarrow> closes ops (joined \<or> keep) closed
      | _ \<Rightarrow> closes ops joined closed)"

lemma closes_mono: "closes ops j c \<Longrightarrow> (j \<longrightarrow> j') \<Longrightarrow> (c \<longrightarrow> c') \<Longrightarrow> closes ops j' c'"
proof (induction ops arbitrary: j c j' c')
  case (Cons op ops)
  note IH = Cons.IH [of j j j' j'] Cons.IH [of j c j' c'] Cons.IH [of "j \<or> k" c "j' \<or> k" c' for k]
  from Cons.prems show ?case by (cases op) (simp_all add: IH)
qed simp

definition closing :: "'s lifecycle \<Rightarrow> bool" where
  "closing s \<longleftrightarrow> closes (lc_main s) (task_joined s) (task_joined s \<and> gate_closed s)"

lemma closing_main:
  assumes "main_step s s'" "closing s"
  shows "closing s'"
  using assms(1)
proof (cases rule: main_step.cases)
  case (m_joined keep ops jr)
  then have "task_joined s' \<longleftrightarrow> task_joined s \<or> keep" "gate_closed s' \<longleftrightarrow> gate_closed s"
    by (auto simp: task_joined_def gate_closed_def)
  with m_joined assms(2) show ?thesis unfolding closing_def
    by (auto elim!: closes_mono)
qed (use assms(2) in \<open>auto simp: closing_def task_joined_def gate_closed_def\<close>)

lemma closing_frame:
  assumes "closing s" "lc_main s' = lc_main s" "task_joined s \<Longrightarrow> task_joined s'"
    and "task_joined s \<Longrightarrow> gate_closed s \<Longrightarrow> gate_closed s'"
  shows "closing s'"
  using closes_mono [OF assms(1) [unfolded closing_def]] assms(2-4) by (simp add: closing_def)

lemma closing_runtime:
  assumes "runtime_step s s'" "closing s"
  shows "closing s'"
proof (rule closing_frame [OF assms(2)])
  show "lc_main s' = lc_main s" using assms(1) by (auto elim: runtime_stepE)
  show "task_joined s'" if "task_joined s" using assms(1) that by (auto elim!: runtime_stepE simp: task_joined_def)
  show "gate_closed s'" if "gate_closed s" using assms(1) that by (auto elim!: runtime_stepE simp: gate_closed_def)
qed

lemma closing_step:
  assumes "lc_step cfg drv s s'" "closing s"
  shows "closing s'"
  using assms(1)
proof (cases rule: lc_step.cases)
  case lc_thread
  then show ?thesis using assms(2) by (rule closing_main)
next
  case lc_runtime
  then show ?thesis using assms(2) by (rule closing_runtime)
next
  case (lc_watch ph sv)
  then have "\<not> task_joined s" using task_step_not_ended [of cfg drv "lc_cancelled s" _ "lc_server s" "(ph, sv)"]
    by (auto simp: task_joined_def)
  with lc_watch show ?thesis by (intro closing_frame [OF assms(2)]) simp_all
next
  case lc_torn
  then have "\<not> task_joined s" by (simp add: task_joined_def)
  with lc_torn show ?thesis by (intro closing_frame [OF assms(2)]) simp_all
next
  case (lc_request cmd gs sv)
  show ?thesis
  proof (rule closing_frame [OF assms(2)])
    show "gate_closed s'" if "gate_closed s" using lc_request request_closed [OF lc_request(2,3) that] that by simp
  qed (simp_all add: lc_request task_joined_def)
qed

lemma closing_run:
  assumes "lc_run cfg drv (spawned hb ops sv) s" "closes ops False False"
  shows "closing s"
  using assms(1)
proof (induction rule: rtranclp_induct)
  case base
  from assms(2) show ?case by (simp add: closing_def spawned_def task_joined_def)
qed (rule closing_step)

text \<open>
  C33. Once \<open>WatchGuard::shutdown\<close> has returned, the watch task has ended, nothing is served
  and the allocator does not lead, whatever leadership events, fence attempts, requests,
  panics of the driver and timeouts ran beside it; and what it returns is the outcome of
  the task.
\<close>

theorem shutdown_closes_gate:
  assumes "lc_run cfg drv (spawned hb guard_shutdown sv) s" "lc_main s = []"
  shows "gate_closed s \<and> task_joined s"
  using closing_run [OF assms(1)] assms(2) by (simp add: closing_def guard_shutdown_def guard_drop_def)

section \<open>A shutdown cannot hang on the driver\<close>

text \<open>The steps that need no answer of the driver, no event and no timer of the task.\<close>

inductive unblocked_step :: "server_config \<Rightarrow> 's consensus_driver \<Rightarrow> 's lifecycle \<Rightarrow> 's lifecycle \<Rightarrow> bool"
  for cfg :: server_config and drv :: "'s consensus_driver" where
  u_thread: "main_step s s' \<Longrightarrow> unblocked_step cfg drv s s'"
| u_runtime: "runtime_step s s' \<Longrightarrow> unblocked_step cfg drv s s'"
| u_watch: "\<not> awaiting (lc_task s) \<Longrightarrow> task_step cfg drv (lc_cancelled s) (lc_task s, lc_server s) (ph, sv) \<Longrightarrow>
    unblocked_step cfg drv s (s\<lparr>lc_task := ph, lc_server := sv\<rparr>)"

abbreviation unblocked_run :: "server_config \<Rightarrow> 's consensus_driver \<Rightarrow> 's lifecycle \<Rightarrow> 's lifecycle \<Rightarrow> bool" where
  "unblocked_run cfg drv \<equiv> (unblocked_step cfg drv)\<^sup>*\<^sup>*"

lemmas unblocked_then = converse_rtranclp_into_rtranclp [of "unblocked_step cfg drv" for cfg drv]

lemma unblocked_run_is_run:
  assumes "unblocked_run cfg drv s s'"
  shows "lc_run cfg drv s s'"
  using assms by (induction rule: rtranclp_induct)
    (auto elim!: unblocked_step.cases intro: rtranclp.rtrancl_into_rtrancl lc_step.intros)

text \<open>Between two awaits the task runs to the next one, or to its end.\<close>

definition settled :: "'s lifecycle \<Rightarrow> bool" where
  "settled s \<longleftrightarrow> awaiting (lc_task s) \<or> guard_is_finished s"

definition can_settle :: "server_config \<Rightarrow> 's consensus_driver \<Rightarrow> 's lifecycle \<Rightarrow> bool" where
  "can_settle cfg drv s \<longleftrightarrow>
     (\<exists>s'. unblocked_run cfg drv s s' \<and> lc_main s' = lc_main s \<and> lc_aborted s' = lc_aborted s \<and> settled s')"

lemma settle_to:
  assumes "\<not> awaiting (lc_task s)" "task_step cfg drv (lc_cancelled s) (lc_task s, lc_server s) (ph, sv)"
    and "can_settle cfg drv (s\<lparr>lc_task := ph, lc_server := sv\<rparr>)"
  shows "can_settle cfg drv s"
  using assms(3) unblocked_then [OF u_watch [OF assms(1,2)]] by (fastforce simp: can_settle_def)

lemma settle_now:
  assumes "settled s"
  shows "can_settle cfg drv s"
  using assms by (auto simp: can_settle_def)

lemma settle_selecting:
  assumes "lc_task s = TkSelecting"
  shows "can_settle cfg drv s"
proof (cases "lc_cancelled s")
  case True
  show ?thesis
  proof (rule settle_to)
    show "task_step cfg drv (lc_cancelled s) (lc_task s, lc_server s) (TkEnded (Inr (Inr ())), close_gate (lc_server s))"
      using t_cancel [of TkSelecting cfg drv "lc_server s"] True assms by (simp add: task_ends_def)
  qed (use assms in \<open>auto intro!: settle_now simp: settled_def guard_is_finished_def\<close>)
next
  case False
  show ?thesis
  proof (rule settle_to)
    show "task_step cfg drv (lc_cancelled s) (lc_task s, lc_server s) (TkParked, lc_server s)"
      using t_park [of cfg drv "lc_server s"] False assms by simp
  qed (use assms in \<open>auto intro!: settle_now simp: settled_def\<close>)
qed

lemma settle_leased:
  assumes "lc_task s = TkLeased"
  shows "can_settle cfg drv s"
proof (rule settle_to)
  show "task_step cfg drv (lc_cancelled s) (lc_task s, lc_server s)
      (TkSelecting, (lc_server s)\<lparr>sv_core := publish_serving (sv_core (lc_server s))\<rparr>)"
    using t_published [of cfg drv "lc_cancelled s" "lc_server s"] assms by simp
qed (use assms settle_selecting [of "s\<lparr>lc_task := TkSelecting, lc_server := sv\<rparr>" cfg drv for sv] in simp_all)

lemma settle_seeded:
  assumes "lc_task s = TkSeeded p"
  shows "can_settle cfg drv s"
proof (rule settle_to)
  show "task_step cfg drv (lc_cancelled s) (lc_task s, lc_server s)
      (TkLeased, (lc_server s)\<lparr>sv_core := seed_leases (fp_leases p) (fp_now p) (sv_core (lc_server s))\<rparr>)"
    using t_leased [of cfg drv "lc_cancelled s" p "lc_server s"] assms by simp
qed (use assms settle_leased [of "s\<lparr>lc_task := TkLeased, lc_server := sv\<rparr>" cfg drv for sv] in simp_all)

lemma settle_persisted:
  assumes "lc_task s = TkPersisted e p"
  shows "can_settle cfg drv s"
proof -
  obtain r c' where sd: "seed_on_leadership_gained (fp_floor p) (fp_actual p) e (sv_core (lc_server s)) = (r, c')"
    by fastforce
  show ?thesis
  proof (cases r)
    case (Inl er)
    show ?thesis
    proof (rule settle_to)
      show "task_step cfg drv (lc_cancelled s) (lc_task s, lc_server s)
          (TkEnded (Inr (Inl (SeCore er))), close_gate ((lc_server s)\<lparr>sv_core := c'\<rparr>))"
        using t_seed_failed [of p e "lc_server s" er c' cfg drv "lc_cancelled s"] sd Inl assms by (simp add: task_ends_def)
    qed (use assms in \<open>auto intro!: settle_now simp: settled_def guard_is_finished_def\<close>)
  next
    case (Inr u)
    show ?thesis
    proof (rule settle_to)
      show "task_step cfg drv (lc_cancelled s) (lc_task s, lc_server s) (TkSeeded p, (lc_server s)\<lparr>sv_core := c'\<rparr>)"
        using t_seeded [of p e "lc_server s" u c' cfg drv "lc_cancelled s"] sd Inr assms by simp
    qed (use assms settle_seeded [of "s\<lparr>lc_task := TkSeeded p, lc_server := sv\<rparr>" p cfg drv for sv] in simp_all)
  qed
qed

lemma settle:
  obtains s' where "unblocked_run cfg drv s s'" "lc_main s' = lc_main s" "lc_aborted s' = lc_aborted s" "settled s'"
proof (cases "settled s")
  case True
  with that show ?thesis by blast
next
  case False
  then consider "lc_task s = TkSelecting" | e p where "lc_task s = TkPersisted e p" | p where "lc_task s = TkSeeded p"
    | "lc_task s = TkLeased"
    by (cases "lc_task s") (auto simp: settled_def guard_is_finished_def)
  then have "can_settle cfg drv s"
    using settle_selecting settle_persisted settle_seeded settle_leased by cases
  with that show ?thesis by (auto simp: can_settle_def)
qed


lemma settled_not_finished: "settled s \<Longrightarrow> \<not> guard_is_finished s \<Longrightarrow> awaiting (lc_task s)"
  by (simp add: settled_def)

lemma finished_iff: "guard_is_finished s \<longleftrightarrow> (\<exists>jr. lc_task s = TkEnded jr)"
  by (simp add: guard_is_finished_def split: task_phase.splits)

text \<open>Each operation completes: a task that awaits is aborted where it is.\<close>

definition gets_to :: "server_config \<Rightarrow> 's consensus_driver \<Rightarrow> 's lifecycle \<Rightarrow> main_op list \<Rightarrow> bool" where
  "gets_to cfg drv s ops \<longleftrightarrow> (\<exists>s'. unblocked_run cfg drv s s' \<and> lc_main s' = ops)"

lemma join_finish:
  assumes "lc_main s = OpAwaitWatch keep # ops \<or> lc_main s = OpReapWatch keep # ops" "lc_task s = TkEnded jr"
  shows "gets_to cfg drv s ops"
proof -
  let ?s = "s\<lparr>lc_main := ops, lc_result := (if keep then Some (join_to_server_result jr) else lc_result s)\<rparr>"
  have "unblocked_run cfg drv s ?s" using assms by (intro r_into_rtranclp u_thread m_joined)
  then show ?thesis unfolding gets_to_def by (intro exI [of _ ?s]) simp
qed

lemma finish_after:
  assumes "unblocked_run cfg drv s s'" "gets_to cfg drv s' ops"
  shows "gets_to cfg drv s ops"
  using assms rtranclp_trans [of "unblocked_step cfg drv" s s'] by (auto simp: gets_to_def)

lemma reap_finish:
  assumes "lc_main s = OpReapWatch keep # ops" "lc_aborted s"
  shows "gets_to cfg drv s ops"
proof -
  obtain t where t: "unblocked_run cfg drv s t" "lc_main t = lc_main s" "lc_aborted t = lc_aborted s" "settled t"
    by (rule settle)
  show ?thesis
  proof (cases "guard_is_finished t")
    case True
    with t assms(1) join_finish [of t keep ops] show ?thesis by (auto simp: finished_iff intro: finish_after)
  next
    case False
    then have "unblocked_step cfg drv t (t\<lparr>lc_task := TkEnded (Inl JoinCancelled)\<rparr>)"
      using t assms(2) by (intro u_runtime r_abort settled_not_finished) simp_all
    then have "unblocked_run cfg drv s (t\<lparr>lc_task := TkEnded (Inl JoinCancelled)\<rparr>)" using t(1) by (rule rtranclp.rtrancl_into_rtrancl [rotated])
    then show ?thesis by (rule finish_after) (rule join_finish [of _ keep], simp_all add: assms(1) t(2))
  qed
qed

lemma await_finish:
  assumes "lc_main s = OpAwaitWatch keep # ops"
  shows "gets_to cfg drv s ops"
proof (cases "guard_is_finished s")
  case True
  with assms show ?thesis by (auto simp: finished_iff intro: join_finish)
next
  case False
  let ?s = "s\<lparr>lc_main := OpReapWatch keep # ops, lc_aborted := True, lc_watch_aborts := Suc (lc_watch_aborts s)\<rparr>"
  have "unblocked_run cfg drv s ?s" using False assms by (intro r_into_rtranclp u_thread m_timeout)
  then show ?thesis by (rule finish_after) (rule reap_finish [of _ keep], simp_all)
qed

lemma heartbeat_finish:
  assumes "lc_main s = OpReapHeartbeat # ops"
  shows "gets_to cfg drv s ops"
proof (cases "lc_heartbeat s = HbRunning")
  case True
  let ?s1 = "s\<lparr>lc_hb_aborted := True\<rparr>"
  let ?s2 = "?s1\<lparr>lc_heartbeat := HbEnded\<rparr>"
  let ?s3 = "?s2\<lparr>lc_main := ops\<rparr>"
  have "unblocked_step cfg drv s ?s1" using True assms by (intro u_thread m_hb_timeout)
  moreover have "unblocked_step cfg drv ?s1 ?s2" using True by (intro u_runtime r_hb_stops) simp_all
  moreover have "unblocked_step cfg drv ?s2 ?s3" using assms by (intro u_thread m_hb_reaped) simp_all
  ultimately have "unblocked_run cfg drv s ?s3" by (meson unblocked_then rtranclp.rtrancl_refl)
  then show ?thesis unfolding gets_to_def by (intro exI [of _ ?s3]) simp
next
  case False
  with assms have "unblocked_run cfg drv s (s\<lparr>lc_main := ops\<rparr>)" by (intro r_into_rtranclp u_thread m_hb_reaped)
  then show ?thesis unfolding gets_to_def by (intro exI [of _ "s\<lparr>lc_main := ops\<rparr>"]) simp
qed


text \<open>What a program keeps: the serving loop is its head, and a reap follows an abort.\<close>

definition program_ok :: "'s lifecycle \<Rightarrow> bool" where
  "program_ok s \<longleftrightarrow> OpServe \<notin> set (tl (lc_main s)) \<and> (\<forall>keep. OpReapWatch keep \<in> set (lc_main s) \<longrightarrow> lc_aborted s)"

lemma in_tl: "x \<in> set (tl xs) \<Longrightarrow> x \<in> set xs"
  by (cases xs) simp_all

lemma program_ok_main: "main_step s s' \<Longrightarrow> program_ok s \<Longrightarrow> program_ok s'"
  by (auto elim!: main_stepE simp: program_ok_def serve_epilogue_def serve_user_arm_def dest: in_tl)

lemma program_ok_step:
  assumes "lc_step cfg drv s s'" "program_ok s"
  shows "program_ok s'"
  using assms(1)
proof (cases rule: lc_step.cases)
  case lc_thread
  then show ?thesis using assms(2) by (rule program_ok_main)
qed (use assms(2) in \<open>auto elim!: runtime_stepE simp: program_ok_def\<close>)

lemma program_ok_run: "lc_run cfg drv s s' \<Longrightarrow> program_ok s \<Longrightarrow> program_ok s'"
  by (induction rule: rtranclp_induct) (auto intro: program_ok_step)

lemma op_finish:
  assumes "lc_main s = op # ops" "op \<noteq> OpServe" "program_ok s"
  shows "gets_to cfg drv s ops"
proof -
  have one: "gets_to cfg drv s ops" if "main_step s s'" "lc_main s' = ops" for s'
    using that u_thread [OF that(1)] unfolding gets_to_def by (intro exI [of _ s']) (simp add: r_into_rtranclp)
  show ?thesis
  proof (cases op)
    case (OpAwaitWatch keep)
    with assms(1) await_finish show ?thesis by simp
  next
    case (OpReapWatch keep)
    with assms reap_finish [of s keep] show ?thesis by (simp add: program_ok_def)
  next
    case OpReapHeartbeat
    with assms(1) heartbeat_finish show ?thesis by simp
  qed (use assms(1,2) in \<open>simp_all add: one [OF m_step_down] one [OF m_drop_cancel] one [OF m_drop_hb] one [OF m_abort]
      one [OF m_abort_hb]\<close>)
qed


lemma gets_to_ok:
  assumes "gets_to cfg drv s ops" "program_ok s"
  obtains s' where "unblocked_run cfg drv s s'" "lc_main s' = ops" "program_ok s'"
proof -
  from assms(1) obtain t where t: "unblocked_run cfg drv s t" "lc_main t = ops" unfolding gets_to_def by (elim exE conjE)
  from that [OF t program_ok_run [OF unblocked_run_is_run [OF t(1)] assms(2)]] show ?thesis .
qed

lemma program_finishes:
  assumes "lc_main s = ops" "OpServe \<notin> set ops" "program_ok s"
  shows "gets_to cfg drv s []"
  using assms
proof (induction ops arbitrary: s)
  case Nil
  then show ?case by (auto simp: gets_to_def)
next
  case (Cons op ops)
  then have "gets_to cfg drv s ops" by (intro op_finish [of s op]) auto
  then obtain t where t: "unblocked_run cfg drv s t" "lc_main t = ops" "program_ok t"
    using Cons.prems(3) by (rule gets_to_ok)
  show ?case by (rule finish_after [OF t(1)], rule Cons.IH) (use t Cons.prems(2) in simp_all)
qed

lemma serve_starts_to_end:
  assumes "lc_main s = OpServe # ops"
  obtains s' ops' where "main_step s s'" "lc_main s' = ops' @ ops" "OpServe \<notin> set ops'"
proof (cases "guard_is_finished s")
  case True
  then obtain jr where "lc_task s = TkEnded jr" by (auto simp: finished_iff)
  from that [OF m_serve_watch [OF assms this, of "Inr ()"], of serve_epilogue] show ?thesis by (simp add: serve_epilogue_def)
next
  case False
  from that [OF m_serve_user [OF assms False, of "Inr ()"], of serve_user_arm] show ?thesis
    by (simp add: serve_user_arm_def serve_epilogue_def)
qed

lemma lifecycle_finishes:
  assumes "program_ok s"
  shows "gets_to cfg drv s []"
proof (cases "OpServe \<in> set (lc_main s)")
  case True
  then obtain ops where m: "lc_main s = OpServe # ops" "OpServe \<notin> set ops"
    using assms by (cases "lc_main s") (auto simp: program_ok_def)
  obtain s' ops' where s': "main_step s s'" "lc_main s' = ops' @ ops" "OpServe \<notin> set ops'"
    by (rule serve_starts_to_end [OF m(1)])
  have "gets_to cfg drv s' []"
    by (rule program_finishes [OF s'(2)]) (use s' m program_ok_main [OF s'(1) assms] in simp_all)
  with s'(1) show ?thesis by (blast intro: finish_after r_into_rtranclp u_thread)
next
  case False
  with assms show ?thesis by (intro program_finishes) simp_all
qed

text \<open>
  C34. Stopping never waits for the consensus driver: from every state a server can be in
  while it serves, or while its guard is dropped, shut down or aborted, the stop can run to
  its end by steps of the stopping thread and the runtime and by what the task does
  between two awaits, with no answer of the driver and no leadership event.
\<close>

theorem shutdown_never_wedges:
  assumes "ops \<in> {[OpServe], guard_drop, guard_shutdown, guard_abort}" "lc_run cfg drv (spawned hb ops sv) s"
  shows "\<exists>s'. unblocked_run cfg drv s s' \<and> lc_main s' = []"
proof -
  have "program_ok (spawned hb ops sv)"
    using assms(1) by (auto simp: program_ok_def spawned_def guard_drop_def guard_shutdown_def guard_abort_def)
  then show ?thesis using lifecycle_finishes [OF program_ok_run [OF assms(2)]] by (simp add: gets_to_def)
qed

section \<open>Runs through a fence\<close>

lemma dispatch_leader [simp]: "task_dispatch (LsLeader e) sv = (TkFencing e, close_gate sv)"
  by (simp add: task_dispatch_def close_gate_def enter_fencing_def)

lemma close_gate_idem [simp]: "close_gate ((close_gate sv)\<lparr>sv_driver := s\<rparr>) = (close_gate sv)\<lparr>sv_driver := s\<rparr>"
  by (simp add: close_gate_def sc_step_down_def alloc_step_down_def seq_step_down_def lt_clear_def)

lemma task_steps_run:
  assumes "(task_step cfg drv (lc_cancelled s))\<^sup>*\<^sup>* (lc_task s, lc_server s) (ph, sv)"
  shows "lc_run cfg drv s (s\<lparr>lc_task := ph, lc_server := sv\<rparr>)"
  using assms
proof (induction rule: rtranclp_induct2)
  case (step ph1 sv1 ph2 sv2)
  then have "lc_step cfg drv (s\<lparr>lc_task := ph1, lc_server := sv1\<rparr>) (s\<lparr>lc_task := ph2, lc_server := sv2\<rparr>)"
    using lc_watch [of cfg drv "s\<lparr>lc_task := ph1, lc_server := sv1\<rparr>" ph2 sv2] by simp
  with step.IH show ?case by (rule rtranclp.rtrancl_into_rtrancl)
qed simp

lemma event_run:
  "lc_run cfg drv (spawned hb ops sv) ((spawned hb ops sv)\<lparr>lc_task := TkFencing e, lc_server := close_gate sv\<rparr>)"
proof (rule task_steps_run)
  have "task_step cfg drv False (TkParked, sv) (task_dispatch (LsLeader e) sv)" by (rule t_event) simp
  then show "(task_step cfg drv (lc_cancelled (spawned hb ops sv)))\<^sup>*\<^sup>*
      (lc_task (spawned hb ops sv), lc_server (spawned hb ops sv)) (TkFencing e, close_gate sv)"
    by (simp add: spawned_def r_into_rtranclp)
qed

text \<open>A leadership event and a fence that succeeds put the server in service.\<close>

lemma serving_run:
  assumes "fence_attempt cfg drv now e (close_gate sv) = (Inr u, sv')"
  shows "lc_run cfg drv (spawned hb ops sv) ((spawned hb ops sv)\<lparr>lc_task := TkSelecting, lc_server := sv'\<rparr>)"
proof -
  let ?s = "(spawned hb ops sv)\<lparr>lc_task := TkFencing e, lc_server := close_gate sv\<rparr>"
  have "lc_run cfg drv ?s (?s\<lparr>lc_task := TkSelecting, lc_server := sv'\<rparr>)"
    using task_runs_attempt [OF assms] by (intro task_steps_run) simp
  from rtranclp_trans [OF event_run this] show ?thesis by simp
qed

abbreviation demo_server :: "(io_fault list \<times> file_driver) server" where
  "demo_server \<equiv> \<lparr>sv_core = sc_new 0 10 10, sv_driver = ([], fd_fresh)\<rparr>"

lemma demo_attempt:
  obtains sv' where "fence_attempt demo_cfg demo_driver 1000 (Epoch 1) (close_gate demo_server) = (Inr (), sv')"
    "is_serving (sv_core sv')"
proof -
  have v: "fd_state fd_fresh \<le> PHYSICAL_MS_MAX" "fence_requested demo_cfg (fence_serving_floor (fd_state fd_fresh) 1000) \<le> PHYSICAL_MS_MAX"
    by code_simp+
  obtain f' c' where "fence_attempt demo_cfg demo_driver 1000 (Epoch 1)
        \<lparr>sv_core = sc_step_down None None (sc_new 0 10 10), sv_driver = ([], fd_fresh)\<rparr> = (Inr (), \<lparr>sv_core = c', sv_driver = ([], f')\<rparr>)"
      "is_serving c'"
    by (rule fence_attempt_healthy [OF v]) blast
  with that show ?thesis by (simp add: close_gate_def)
qed

text \<open>The server is serving when the shutdown starts.\<close>

theorem shutdown_closes_gate_witness:
  "\<exists>s s'. lc_run demo_cfg demo_driver (spawned 10 guard_shutdown demo_server) s \<and> is_serving (sv_core (lc_server s))
     \<and> lc_run demo_cfg demo_driver s s' \<and> gate_closed s' \<and> task_joined s'"
proof -
  obtain sv' where a: "fence_attempt demo_cfg demo_driver 1000 (Epoch 1) (close_gate demo_server) = (Inr (), sv')"
    "is_serving (sv_core sv')" by (rule demo_attempt)
  let ?s = "(spawned 10 guard_shutdown demo_server)\<lparr>lc_task := TkSelecting, lc_server := sv'\<rparr>"
  have r: "lc_run demo_cfg demo_driver (spawned 10 guard_shutdown demo_server) ?s" by (rule serving_run [OF a(1)])
  have p: "program_ok ?s" by (simp add: program_ok_def spawned_def guard_shutdown_def guard_drop_def)
  obtain s' where f: "unblocked_run demo_cfg demo_driver ?s s'" "lc_main s' = []"
    by (rule gets_to_ok [OF lifecycle_finishes [OF p] p])
  have r': "lc_run demo_cfg demo_driver ?s s'" by (rule unblocked_run_is_run [OF f(1)])
  from shutdown_closes_gate [OF rtranclp_trans [OF r r'] f(2)] r r' a(2) show ?thesis
    by (intro exI [of _ ?s] exI [of _ s']) simp
qed

theorem shutdown_never_wedges_witness:
  "\<exists>s s'. lc_run demo_cfg demo_driver (spawned 10 [OpServe] demo_server) s \<and> lc_task s = TkFencing (Epoch 1)
     \<and> unblocked_run demo_cfg demo_driver s s' \<and> lc_main s' = []"
proof -
  let ?s = "(spawned 10 [OpServe] demo_server)\<lparr>lc_task := TkFencing (Epoch 1), lc_server := close_gate demo_server\<rparr>"
  have r: "lc_run demo_cfg demo_driver (spawned 10 [OpServe] demo_server) ?s" by (rule event_run)
  obtain s' where "unblocked_run demo_cfg demo_driver ?s s'" "lc_main s' = []"
    using shutdown_never_wedges [OF _ r] by auto
  with r show ?thesis by (intro exI [of _ ?s] exI [of _ s']) simp
qed


section \<open>An abort may leave the gate open\<close>

lemma publish_and_park:
  assumes "seed_on_leadership_gained (fp_floor p) (fp_actual p) e (sv_core sv) = (Inr u, c')"
    and "sv' = \<lparr>sv_core = publish_serving (seed_leases (fp_leases p) (fp_now p) c'), sv_driver = s'\<rparr>"
  shows "(task_step cfg drv False)\<^sup>*\<^sup>* (TkPersisted e p, sv\<lparr>sv_driver := s'\<rparr>) (TkParked, sv')"
proof -
  let ?k = "task_step cfg drv False"
  let ?s2 = "sv\<lparr>sv_driver := s', sv_core := c'\<rparr>"
  let ?s3 = "?s2\<lparr>sv_core := seed_leases (fp_leases p) (fp_now p) c'\<rparr>"
  have "?k (TkPersisted e p, sv\<lparr>sv_driver := s'\<rparr>) (TkSeeded p, ?s2)"
    using t_seeded [of p e "sv\<lparr>sv_driver := s'\<rparr>"] assms(1) by simp
  moreover have "?k (TkSeeded p, ?s2) (TkLeased, ?s3)" using t_leased [of cfg drv False p ?s2] by simp
  moreover have "?k (TkLeased, ?s3) (TkSelecting, sv')"
    using t_published [of cfg drv False ?s3] assms(2) by simp
  moreover have "?k (TkSelecting, sv') (TkParked, sv')" by (rule t_park)
  ultimately show ?thesis by (meson converse_rtranclp_into_rtranclp rtranclp.rtrancl_refl)
qed

text \<open>The guard aborts and closes the gate again; then it drops the senders.\<close>

lemma abort_ops_run:
  assumes "lc_main s = guard_abort" "close_gate (lc_server s) = lc_server s"
  shows "lc_run cfg drv s (s\<lparr>lc_aborted := True, lc_hb_aborted := True, lc_main := tl guard_drop\<rparr>)"
proof -
  let ?a = "s\<lparr>lc_main := OpAbortHeartbeat # guard_drop, lc_aborted := True\<rparr>"
  let ?b = "?a\<lparr>lc_main := guard_drop, lc_hb_aborted := True\<rparr>"
  let ?c = "?b\<lparr>lc_main := tl guard_drop, lc_server := close_gate (lc_server ?b)\<rparr>"
  have "lc_step cfg drv s ?a" using assms(1) by (intro lc_thread m_abort) (simp add: guard_abort_def)
  moreover have "lc_step cfg drv ?a ?b" by (intro lc_thread m_abort_hb) simp
  moreover have "lc_step cfg drv ?b ?c" by (intro lc_thread m_step_down) (simp add: guard_drop_def)
  moreover have "?c = s\<lparr>lc_aborted := True, lc_hb_aborted := True, lc_main := tl guard_drop\<rparr>" using assms(2) by simp
  ultimately show ?thesis by (metis (no_types, lifting) converse_rtranclp_into_rtranclp rtranclp.rtrancl_refl)
qed

lemma drop_ops_run:
  assumes "lc_main s = tl guard_drop" "lc_hb_aborted s"
  shows "lc_run cfg drv s (s\<lparr>lc_cancelled := True, lc_hb_cancelled := True, lc_main := []\<rparr>)"
proof -
  let ?a = "s\<lparr>lc_main := [OpDropHeartbeatCancel, OpAbortHeartbeat], lc_cancelled := True\<rparr>"
  let ?b = "?a\<lparr>lc_main := [OpAbortHeartbeat], lc_hb_cancelled := True\<rparr>"
  let ?c = "?b\<lparr>lc_main := [], lc_hb_aborted := True\<rparr>"
  have "lc_step cfg drv s ?a" using assms(1) by (intro lc_thread m_drop_cancel) (simp add: guard_drop_def)
  moreover have "lc_step cfg drv ?a ?b" by (intro lc_thread m_drop_hb) simp
  moreover have "lc_step cfg drv ?b ?c" by (intro lc_thread m_abort_hb) simp
  moreover have "?c = s\<lparr>lc_cancelled := True, lc_hb_cancelled := True, lc_main := []\<rparr>" using assms(2) by simp
  ultimately show ?thesis by (metis (no_types, lifting) converse_rtranclp_into_rtranclp rtranclp.rtrancl_refl)
qed

text \<open>
  C35. \<open>WatchGuard::abort\<close> gives no such guarantee. If the driver has answered a fence when
  the abort is requested, the task is not dropped before its next await; it can seed and
  publish after the guard has closed the gate and before the guard drops the cancel
  sender, and is dropped at its next wait. The server then serves with no task to watch
  leadership.
\<close>

theorem abort_may_leave_serving:
  assumes "fence_attempt cfg drv now e (close_gate sv) = (Inr u, sv')" "is_serving (sv_core sv')"
  shows "\<exists>s. lc_run cfg drv (spawned hb guard_abort sv) s \<and> lc_main s = []
     \<and> lc_task s = TkEnded (Inl JoinCancelled) \<and> is_serving (sv_core (lc_server s))"
proof -
  obtain p s' c' where a: "fence_load_persist cfg drv now e (sv_driver sv) = (Inr p, s')"
    "seed_on_leadership_gained (fp_floor p) (fp_actual p) e (sv_core (close_gate sv)) = (Inr (), c')"
    "sv' = \<lparr>sv_core = publish_serving (seed_leases (fp_leases p) (fp_now p) c'), sv_driver = s'\<rparr>"
    using fence_attempt_Inr [OF assms(1)] by (auto simp: close_gate_def)
  let ?cl = "(close_gate sv)\<lparr>sv_driver := s'\<rparr>"
  let ?s0 = "spawned hb guard_abort sv"
  let ?sf = "?s0\<lparr>lc_task := TkFencing e, lc_server := close_gate sv\<rparr>"
  let ?s1 = "?s0\<lparr>lc_task := TkPersisted e p, lc_server := ?cl\<rparr>"
  let ?s2 = "?s1\<lparr>lc_aborted := True, lc_hb_aborted := True, lc_main := tl guard_drop\<rparr>"
  let ?s3 = "?s2\<lparr>lc_task := TkParked, lc_server := sv'\<rparr>"
  let ?s4 = "?s3\<lparr>lc_cancelled := True, lc_hb_cancelled := True, lc_main := []\<rparr>"
  let ?s5 = "?s4\<lparr>lc_task := TkEnded (Inl JoinCancelled)\<rparr>"
  let ?k = "task_step cfg drv False"
  have "?k (TkFencing e, close_gate sv) (TkPersisted e p, ?cl)"
    using a(1) by (intro t_persisted) (simp add: close_gate_def)
  then have f: "lc_run cfg drv ?sf (?sf\<lparr>lc_task := TkPersisted e p, lc_server := ?cl\<rparr>)"
    by (intro task_steps_run r_into_rtranclp) (simp add: spawned_def)
  have 1: "lc_run cfg drv ?s0 ?s1" using rtranclp_trans [OF event_run f] by simp
  have 2: "lc_run cfg drv ?s1 ?s2" by (rule abort_ops_run) (simp_all add: spawned_def)
  have "(?k)\<^sup>*\<^sup>* (TkPersisted e p, ?cl) (TkParked, sv')" by (rule publish_and_park [OF a(2,3)])
  then have 3: "lc_run cfg drv ?s2 ?s3" by (intro task_steps_run) (simp add: spawned_def)
  have 4: "lc_run cfg drv ?s3 ?s4" using drop_ops_run [of ?s3] by simp
  have 5: "lc_run cfg drv ?s4 ?s5" by (intro r_into_rtranclp lc_runtime r_abort) simp_all
  have "lc_run cfg drv ?s0 ?s5" by (rule rtranclp_trans [OF rtranclp_trans [OF rtranclp_trans [OF rtranclp_trans [OF 1 2] 3] 4] 5])
  then show ?thesis using assms(2) by (intro exI [of _ ?s5]) simp
qed

theorem abort_may_leave_serving_witness:
  "\<exists>s. lc_run demo_cfg demo_driver (spawned 10 guard_abort demo_server) s \<and> lc_main s = []
     \<and> lc_task s = TkEnded (Inl JoinCancelled) \<and> is_serving (sv_core (lc_server s))"
  by (rule demo_attempt) (rule abort_may_leave_serving)

section \<open>Reports and heartbeats\<close>

text \<open>A serving loop that the watch ended reports success only if the task was stopped on
  request and the drain went well; an error of the task hides one of the drain.\<close>

lemma combine_ok_iff:
  "combine_watch_and_drain from jr drained = Inr () \<longleftrightarrow> (jr = Inr (Inr ()) \<or> jr = Inl JoinCancelled) \<and> drained = Inr ()"
proof (cases drained)
  case (Inr u)
  show ?thesis
  proof (cases jr)
    case (Inl e)
    with Inr show ?thesis by (cases e) (simp_all add: combine_watch_and_drain_def join_to_server_result_def)
  next
    case (Inr r)
    with \<open>drained = Inr u\<close> show ?thesis by (cases r) (simp_all add: combine_watch_and_drain_def join_to_server_result_def)
  qed
next
  case (Inl e)
  then show ?thesis by (cases "join_to_server_result jr") (simp_all add: combine_watch_and_drain_def)
qed

lemma combine_watch_error:
  "join_to_server_result jr = Inl e \<Longrightarrow> combine_watch_and_drain from jr drained = Inl e"
  by (simp add: combine_watch_and_drain_def)

text \<open>The intervals of the lines add up: what the loop has logged since it started is the
  last total less the first, also across a wrap of the counter.\<close>

lemma heartbeat_adds_up:
  assumes "run_heartbeat prev inputs \<noteq> []"
  shows "sum_list (map hl_requests (run_heartbeat prev inputs))
    = hl_requests_total (last (run_heartbeat prev inputs)) - hs_requests prev"
  using assms
proof (induction prev inputs rule: run_heartbeat.induct)
  case (3 prev uptime now_ms r c inputs)
  then show ?case
    by (cases "run_heartbeat (heartbeat_sample r) inputs = []") (simp_all add: heartbeat_tick_def Let_def)
qed simp_all

lemma heartbeat_stops_at_cancel: "run_heartbeat prev (ticks @ HbCancel # inputs) = run_heartbeat prev ticks"
  by (induction prev ticks rule: run_heartbeat.induct) (simp_all add: Let_def)

end
