(* ===== verification/Process.thy ===== *)
theory Process
  imports Cli Server_Lifecycle
begin

text \<open>
  From the flags of the \<open>tsoracle\<close> process (\<open>tsoracle-bin/src/cli.rs\<close>, \<open>main.rs\<close>) to the server it
  runs: the settings of the server's builder (\<open>tsoracle-server/src/server.rs\<close>), the flags with
  their defaults, the choice of the command and the driver, and the tasks of the server. The
  argument parser and the parser of durations are third-party code: the flags are their result.
  The theory shows that the defaults of the flags are those of the library, which flags the
  server refuses, and that no command means serving from files.
\<close>

section \<open>The settings of a server\<close>

definition DEFAULT_SHUTDOWN_GRACE :: duration where "DEFAULT_SHUTDOWN_GRACE = 10 * 10 ^ 9"

record serve_builder = server_builder +
  sb_shutdown_grace :: duration
  sb_heartbeat_interval :: duration
  sb_tls_config :: "server_tls option"

definition serve_builder_default :: serve_builder where
  "serve_builder_default =
     server_builder.extend builder_default (serve_builder.fields DEFAULT_SHUTDOWN_GRACE (10 * 10 ^ 9) None)"

datatype server_setting =
    SetConsensusDriver
  | SetWindowAhead duration
  | SetFailoverAdvance duration
  | SetLeaseTtlFloor duration
  | SetLeaseTtlCeiling duration
  | SetShutdownGrace duration
  | SetHeartbeatInterval duration
  | SetTlsConfig server_tls
  | SetMaxSeqCount u32
  | SetMaxSeqBatchKeys u32

fun apply_setting :: "serve_builder \<Rightarrow> server_setting \<Rightarrow> serve_builder" where
  "apply_setting b SetConsensusDriver = b\<lparr>sb_has_driver := True\<rparr>"
| "apply_setting b (SetWindowAhead d) = b\<lparr>sb_window_ahead := d\<rparr>"
| "apply_setting b (SetFailoverAdvance d) = b\<lparr>sb_failover_advance := d\<rparr>"
| "apply_setting b (SetLeaseTtlFloor d) = b\<lparr>sb_lease_ttl_floor := d\<rparr>"
| "apply_setting b (SetLeaseTtlCeiling d) = b\<lparr>sb_lease_ttl_ceiling := d\<rparr>"
| "apply_setting b (SetShutdownGrace d) = b\<lparr>sb_shutdown_grace := d\<rparr>"
| "apply_setting b (SetHeartbeatInterval d) = b\<lparr>sb_heartbeat_interval := d\<rparr>"
| "apply_setting b (SetTlsConfig t) = b\<lparr>sb_tls_config := Some t\<rparr>"
| "apply_setting b (SetMaxSeqCount n) = b\<lparr>sb_max_seq_count := n\<rparr>"
| "apply_setting b (SetMaxSeqBatchKeys n) = b\<lparr>sb_max_seq_batch_keys := n\<rparr>"

record 's built_server =
  bs_config :: server_config
  bs_server :: "'s server"
  bs_shutdown_grace :: duration
  bs_heartbeat_interval :: duration
  bs_tls_config :: "server_tls option"

definition serve_build :: "serve_builder \<Rightarrow> 's \<Rightarrow> (build_error, 's built_server) result" where
  "serve_build b driver =
     and_then (server_build (server_builder.truncate b) driver) (\<lambda>(cfg, sv).
       Inr \<lparr>bs_config = cfg, bs_server = sv, bs_shutdown_grace = sb_shutdown_grace b,
            bs_heartbeat_interval = sb_heartbeat_interval b, bs_tls_config = sb_tls_config b\<rparr>)"

section \<open>Flags\<close>

record common_serve_args =
  ca_listen :: socket_addr
  ca_window_ahead :: duration
  ca_failover_advance :: duration
  ca_lease_ttl_floor :: duration
  ca_lease_ttl_ceiling :: duration
  ca_heartbeat_interval :: duration
  ca_metrics_listen :: socket_addr
  ca_no_metrics :: bool
  ca_tls_cert :: "path option"
  ca_tls_key :: "path option"
  ca_tls_client_ca :: "path option"

definition localhost :: ip_addr where "localhost = V4 0x7F000001"

definition common_defaults :: common_serve_args where
  "common_defaults =
     \<lparr>ca_listen = \<lparr>sk_ip = localhost, sk_port = 50551\<rparr>, ca_window_ahead = 3 * 10 ^ 9, ca_failover_advance = 1 * 10 ^ 9,
      ca_lease_ttl_floor = 5 * 10 ^ 9, ca_lease_ttl_ceiling = 300 * 10 ^ 9, ca_heartbeat_interval = 10 * 10 ^ 9,
      ca_metrics_listen = \<lparr>sk_ip = localhost, sk_port = 9551\<rparr>, ca_no_metrics = False,
      ca_tls_cert = None, ca_tls_key = None, ca_tls_client_ca = None\<rparr>"

record file_args =
  fa_common :: common_serve_args
  fa_state_dir :: path

definition default_state_dir :: path where "default_state_dir = lit ''./tsoracle-data''"

definition file_defaults :: file_args where
  "file_defaults = \<lparr>fa_common = common_defaults, fa_state_dir = default_state_dir\<rparr>"

datatype serve_cmd =
    ServeFile file_args
  | ServeOpenraft common_serve_args openraft_args
  | ServePaxos common_serve_args paxos_args

datatype top_cmd =
    TopServe serve_cmd
  | TopInit path u64
  | TopExport path bool
  | TopAdmin str admin_cmd

section \<open>Dispatch\<close>

text \<open>The features of a build.\<close>

record features =
  ft_file :: bool
  ft_openraft :: bool
  ft_paxos :: bool
  ft_metrics :: bool

definition available_drivers :: "features \<Rightarrow> string list" where
  "available_drivers ft =
     (if ft_file ft then [''file''] else []) @ (if ft_openraft ft then [''openraft''] else [])
     @ (if ft_paxos ft then [''paxos''] else [])"

datatype driver_config = DcFile path | DcOpenraft openraft_config | DcPaxos paxos_config

datatype main_error =
    NotCompiledIn string "string list"
  | NoSubcommand "string list"
  | MainCli cli_error

definition not_compiled_in :: "features \<Rightarrow> string \<Rightarrow> main_error" where
  "not_compiled_in ft driver = NotCompiledIn driver (available_drivers ft)"

datatype main_action =
    RunServe common_serve_args driver_config
  | RunInit path u64
  | RunExport path bool
  | RunAdmin str admin_cmd

fun dispatch_serve :: "features \<Rightarrow> serve_cmd \<Rightarrow> (main_error, main_action) result" where
  "dispatch_serve ft (ServeFile args) =
     (if ft_file ft then Inr (RunServe (fa_common args) (DcFile (fa_state_dir args)))
      else Inl (not_compiled_in ft ''file''))"
| "dispatch_serve ft (ServeOpenraft common args) =
     (if ft_openraft ft
      then and_then (map_err MainCli (openraft_config_of args)) (\<lambda>cfg. Inr (RunServe common (DcOpenraft cfg)))
      else Inl (not_compiled_in ft ''openraft''))"
| "dispatch_serve ft (ServePaxos common args) =
     (if ft_paxos ft
      then and_then (map_err MainCli (paxos_config_of args)) (\<lambda>cfg. Inr (RunServe common (DcPaxos cfg)))
      else Inl (not_compiled_in ft ''paxos''))"

text \<open>The export and admin commands are in a build with the file and the openraft driver.\<close>

fun main_dispatch :: "features \<Rightarrow> file_args \<Rightarrow> top_cmd option \<Rightarrow> (main_error, main_action) result" where
  "main_dispatch ft serve_file (Some (TopInit dir seed)) =
     (if ft_file ft then Inr (RunInit dir seed) else Inl (not_compiled_in ft ''file''))"
| "main_dispatch ft serve_file (Some (TopExport dir compact)) =
     (if ft_file ft then Inr (RunExport dir compact) else Inl (not_compiled_in ft ''file''))"
| "main_dispatch ft serve_file (Some (TopServe serve)) = dispatch_serve ft serve"
| "main_dispatch ft serve_file (Some (TopAdmin endpoint cmd)) = Inr (RunAdmin endpoint cmd)"
| "main_dispatch ft serve_file None =
     (if ft_file ft then Inr (RunServe (fa_common serve_file) (DcFile (fa_state_dir serve_file)))
      else Inl (NoSubcommand (available_drivers ft)))"

section \<open>Serving\<close>

text \<open>Whether the exporter could be installed is an outcome.\<close>

definition install_metrics_exporter :: "features \<Rightarrow> bool \<Rightarrow> common_serve_args \<Rightarrow> bool" where
  "install_metrics_exporter ft installed common \<longleftrightarrow> \<not> ft_metrics ft \<or> ca_no_metrics common \<or> installed"

definition server_settings :: "common_serve_args \<Rightarrow> server_tls option \<Rightarrow> server_setting list" where
  "server_settings common tls =
     [SetConsensusDriver, SetWindowAhead (ca_window_ahead common), SetFailoverAdvance (ca_failover_advance common),
      SetLeaseTtlFloor (ca_lease_ttl_floor common), SetLeaseTtlCeiling (ca_lease_ttl_ceiling common),
      SetHeartbeatInterval (ca_heartbeat_interval common)]
     @ (case tls of Some t \<Rightarrow> [SetTlsConfig t] | None \<Rightarrow> [])"

definition server_of_flags :: "common_serve_args \<Rightarrow> server_tls option \<Rightarrow> 's \<Rightarrow> (build_error, 's built_server) result" where
  "server_of_flags common tls driver = serve_build (foldl apply_setting serve_builder_default (server_settings common tls)) driver"

text \<open>The process with its flags: \<open>run_serve\<close> with the outcomes that follow from them.\<close>

definition serve_process ::
  "features \<Rightarrow> (path \<Rightarrow> bytes option) \<Rightarrow> (server_tls \<Rightarrow> bool) \<Rightarrow> bool \<Rightarrow> common_serve_args
     \<Rightarrow> (standalone_error, standalone) result \<Rightarrow> bool
     \<Rightarrow> (transport_name \<times> server_exit) list \<Rightarrow> bool \<Rightarrow> server_exit \<Rightarrow> server_exit \<Rightarrow> unit cli_end" where
  "serve_process ft read accept installed common built bound early serve_ok admin_exit peer_exit =
     (let tls = client_tls_config read accept (ca_tls_cert common) (ca_tls_key common) (ca_tls_client_ca common)
      in run_serve (install_metrics_exporter ft installed common) built tls
           (case tls of Inr t \<Rightarrow> is_ok (server_of_flags common t ()) | Inl _ \<Rightarrow> False)
           bound early serve_ok admin_exit peer_exit)"

text \<open>The tasks of the server that was built; its TLS settings go to the transport.\<close>

definition process_tasks ::
  "('e, unit) result \<Rightarrow> (server_tls \<Rightarrow> (string, unit) result) \<Rightarrow> 's built_server \<Rightarrow> (server_error, 's lifecycle) result" where
  "process_tasks reflection apply_tls b =
     serve_with_shutdown reflection (map_option apply_tls (bs_tls_config b)) (bs_heartbeat_interval b) (bs_server b)"

section \<open>Lemmas\<close>

lemma setting_fold:
  "foldl apply_setting serve_builder_default (server_settings common tls) =
     serve_builder_default\<lparr>sb_has_driver := True, sb_window_ahead := ca_window_ahead common,
       sb_failover_advance := ca_failover_advance common, sb_lease_ttl_floor := ca_lease_ttl_floor common,
       sb_lease_ttl_ceiling := ca_lease_ttl_ceiling common, sb_heartbeat_interval := ca_heartbeat_interval common,
       sb_tls_config := tls\<rparr>"
  by (cases tls) (simp_all add: server_settings_def serve_builder_default_def builder_default_def server_builder.defs
      serve_builder.defs)

text \<open>The defaults of the flags are the defaults of the library.\<close>

lemma flag_defaults_are_library_defaults:
  "foldl apply_setting serve_builder_default (server_settings common_defaults None) = serve_builder_default\<lparr>sb_has_driver := True\<rparr>"
  unfolding setting_fold
  by (simp add: serve_builder_default_def builder_default_def common_defaults_def server_builder.defs
      serve_builder.defs from_millis_def DEFAULT_LEASE_TTL_FLOOR_MS_def DEFAULT_LEASE_TTL_CEILING_MS_def)

text \<open>The server refuses the flags exactly when the bounds of the lease times make no sense.\<close>

lemma server_of_flags_refuses_iff:
  "server_of_flags common tls driver = Inl e \<longleftrightarrow>
     e = LeaseTtlBoundsInvalid \<and> (ca_lease_ttl_floor common = 0 \<or> ca_lease_ttl_floor common > ca_lease_ttl_ceiling common)"
  unfolding server_of_flags_def setting_fold
  by (auto simp: serve_build_def server_build_def serve_builder_default_def builder_default_def server_builder.defs
      serve_builder.defs DEFAULT_MAX_SEQ_COUNT_def DEFAULT_MAX_SEQ_BATCH_KEYS_def)

lemma no_command_serves_files:
  "ft_file ft \<Longrightarrow> main_dispatch ft args None = main_dispatch ft args (Some (TopServe (ServeFile args)))"
  by simp

lemma compiled_in: "and_then (map_err MainCli x) (\<lambda>cfg. Inr (f cfg)) \<noteq> Inl (NotCompiledIn driver ds)"
  by (cases x) simp_all

lemma full_build_compiles_all:
  assumes "ft_file ft" "ft_openraft ft" "ft_paxos ft"
  shows "main_dispatch ft args cmd \<noteq> Inl (NotCompiledIn driver ds)"
proof (cases cmd)
  case (Some c)
  show ?thesis
  proof (cases c)
    case (TopServe serve)
    with Some assms show ?thesis by (cases serve) (auto simp: compiled_in)
  qed (use Some assms in auto)
qed (use assms in auto)

text \<open>An interval of zero runs without a heartbeat.\<close>

lemma zero_interval_no_heartbeat:
  assumes "server_of_flags common tls driver = Inr b" "ca_heartbeat_interval common = 0"
    and "process_tasks reflection apply_tls b = Inr s"
  shows "lc_heartbeat s = HbNone"
proof -
  have "bs_heartbeat_interval b = 0"
    using assms(1,2) by (auto simp: server_of_flags_def setting_fold serve_build_def and_then_Inr_iff)
  with assms(3) show ?thesis
    by (auto simp: process_tasks_def serve_with_shutdown_def into_router_parts_def spawned_def and_then_Inr_iff
        split: option.splits sum.splits)
qed

end
