(* ===== verification/Client_Transport.thy ===== *)
theory Client_Transport
  imports Client_Retry
begin

text \<open>
  How the client is built and how it dials (\<open>tsoracle-client/src/lib.rs\<close>, \<open>transport.rs\<close>, and the
  dial of \<open>channel_pool.rs\<close>): the builder, the scheme rule for endpoint strings, the knobs a
  retry policy puts on a connection, the built-in connectors; the control-plane calls with
  the conversion of their replies; and the supervisor of the driver task
  (\<open>driver_supervisor.rs\<close>). Parsing of a URI, acceptance of a TLS configuration and the
  connection itself belong to the transport library and are arguments. The theory shows that
  a client with TLS cannot be sent to plaintext by a leader hint however it was built, and
  by which deadline a built-in dial is bounded.
\<close>

section \<open>Endpoints\<close>

definition HTTPS_SCHEME :: str where "HTTPS_SCHEME = [104, 116, 116, 112, 115, 58, 47, 47]"

definition normalize_uri :: "str \<Rightarrow> bool \<Rightarrow> str" where
  "normalize_uri endpoint tls =
     (if take 7 endpoint = HTTP_SCHEME \<or> take 8 endpoint = HTTPS_SCHEME then endpoint
      else if tls then HTTPS_SCHEME @ endpoint
      else HTTP_SCHEME @ endpoint)"

definition HTTP2_KEEPALIVE_INTERVAL :: duration where "HTTP2_KEEPALIVE_INTERVAL = 30 * 10 ^ 9"

record endpoint_config =
  ep_uri :: str
  ep_tls :: bool
  ep_connect_timeout :: "duration option"
  ep_timeout :: "duration option"
  ep_keep_alive_while_idle :: bool
  ep_http2_keep_alive_interval :: "duration option"

definition endpoint_from :: "str \<Rightarrow> endpoint_config" where
  "endpoint_from uri =
     \<lparr>ep_uri = uri, ep_tls = False, ep_connect_timeout = None, ep_timeout = None,
      ep_keep_alive_while_idle = False, ep_http2_keep_alive_interval = None\<rparr>"

definition apply_endpoint_config :: "retry_policy \<Rightarrow> endpoint_config \<Rightarrow> endpoint_config" where
  "apply_endpoint_config policy ep =
     ep\<lparr>ep_connect_timeout := Some (rp_per_attempt_deadline policy), ep_timeout := Some (rp_per_attempt_deadline policy),
        ep_keep_alive_while_idle := True, ep_http2_keep_alive_interval := Some HTTP2_KEEPALIVE_INTERVAL\<rparr>"

text \<open>Parsing gives the scheme of the URI, if it has one.\<close>

record transport_api =
  tr_parse :: "str \<Rightarrow> str option option"
  tr_tls_accepted :: "str \<Rightarrow> bool"
  tr_connect :: "endpoint_config \<Rightarrow> bool"

definition tr_dial :: "transport_api \<Rightarrow> endpoint_config \<Rightarrow> (client_error, endpoint_config) result" where
  "tr_dial api ep = (if tr_connect api ep then Inr ep else Inl Transport)"

definition tls_connector :: "transport_api \<Rightarrow> retry_policy \<Rightarrow> str \<Rightarrow> (client_error, endpoint_config) result" where
  "tls_connector api policy endpoint =
     (let uri = normalize_uri endpoint True
      in case tr_parse api uri of
        None \<Rightarrow> Inl (InvalidEndpoint endpoint)
      | Some scheme \<Rightarrow>
          and_then (if scheme = Some [104, 116, 116, 112, 115]
                    then (if tr_tls_accepted api uri then Inr ((endpoint_from uri)\<lparr>ep_tls := True\<rparr>) else Inl Transport)
                    else Inr (endpoint_from uri)) (\<lambda>ep.
            tr_dial api (apply_endpoint_config policy ep)))"

definition default_connector :: "transport_api \<Rightarrow> retry_policy \<Rightarrow> str \<Rightarrow> (client_error, endpoint_config) result" where
  "default_connector api policy endpoint =
     (let uri = normalize_uri endpoint False
      in case tr_parse api uri of
        None \<Rightarrow> Inl (InvalidEndpoint endpoint)
      | Some _ \<Rightarrow> tr_dial api (apply_endpoint_config policy (endpoint_from uri)))"

section \<open>The builder\<close>

text \<open>A connector of the caller is a function of the endpoint; its channel is the caller's.\<close>

datatype connector = ConnTls retry_policy | ConnCustom "str \<Rightarrow> bool"

record client_builder =
  cb_endpoints :: "str list"
  cb_flush_interval :: duration
  cb_connector :: "connector option"
  cb_tls_required :: bool
  cb_retry_policy :: retry_policy

definition builder_endpoints :: "str list \<Rightarrow> client_builder" where
  "builder_endpoints endpoints =
     \<lparr>cb_endpoints = endpoints, cb_flush_interval = 10 ^ 6, cb_connector = None, cb_tls_required = False,
      cb_retry_policy = policy_default\<rparr>"

datatype builder_call =
    BatchFlushInterval duration
  | SetRetryPolicy retry_policy
  | TlsConfig
  | ChannelConnector "str \<Rightarrow> bool"

fun builder_apply :: "client_builder \<Rightarrow> builder_call \<Rightarrow> client_builder" where
  "builder_apply b (BatchFlushInterval i) = b\<lparr>cb_flush_interval := i\<rparr>"
| "builder_apply b (SetRetryPolicy policy) = b\<lparr>cb_retry_policy := policy\<rparr>"
| "builder_apply b TlsConfig = b\<lparr>cb_connector := Some (ConnTls (cb_retry_policy b)), cb_tls_required := True\<rparr>"
| "builder_apply b (ChannelConnector f) = b\<lparr>cb_connector := Some (ConnCustom f), cb_tls_required := False\<rparr>"

record built_client =
  bc_pool :: channel_pool
  bc_connector :: "connector option"
  bc_flush_interval :: duration

definition client_build :: "u64 \<Rightarrow> client_builder \<Rightarrow> (client_error, built_client) result" where
  "client_build seed b =
     (if cb_endpoints b = [] then Inl NoReachableEndpoints
      else Inr \<lparr>bc_pool = pool_new (cb_endpoints b) (cb_tls_required b) (cb_retry_policy b) seed,
                bc_connector = cb_connector b, bc_flush_interval = cb_flush_interval b\<rparr>)"

text \<open>The dial of the pool: by the connector, or plain.\<close>

datatype dialled = BuiltIn endpoint_config | CallerOwned

definition pool_dial :: "transport_api \<Rightarrow> built_client \<Rightarrow> str \<Rightarrow> (client_error, dialled) result" where
  "pool_dial api c endpoint =
     (case bc_connector c of
        Some (ConnTls policy) \<Rightarrow> and_then (tls_connector api policy endpoint) (\<lambda>ep. Inr (BuiltIn ep))
      | Some (ConnCustom f) \<Rightarrow> (if f endpoint then Inr CallerOwned else Inl Connector)
      | None \<Rightarrow> and_then (default_connector api (cp_policy (bc_pool c)) endpoint) (\<lambda>ep. Inr (BuiltIn ep)))"

section \<open>The control plane\<close>

record max_safe =
  ms_max_safe_physical_ms :: u64
  ms_epoch :: u128

record client_lease =
  cl_lease_id :: u64
  cl_ts_upper_bound :: u64
  cl_expires_at_ms :: u64
  cl_epoch :: u128

record lease_renewal =
  lr_ts_upper_bound :: u64
  lr_expires_at_ms :: u64
  lr_epoch :: u128

record safe_frontier =
  sf_frontier_physical_ms :: u64
  sf_epoch :: u128

text \<open>A reply with the epoch that proves leadership, or without.\<close>

type_synonym 'b control_plane_reply = "'b \<times> u128 option"

definition from_leader :: "'b \<Rightarrow> u128 \<Rightarrow> 'b control_plane_reply" where
  "from_leader output epoch = (output, Some epoch)"

definition unproven :: "'b \<Rightarrow> 'b control_plane_reply" where
  "unproven output = (output, None)"

text \<open>A call over the wire, with the endpoint and the time left for it.\<close>

type_synonym ('w, 'r) wire_call = "str \<Rightarrow> duration \<Rightarrow> 'w cw \<Rightarrow> (wire_status, 'r) result option \<times> 'w cw"

definition client_get_current_max_safe ::
  "'w client_env \<Rightarrow> ('w, u64 \<times> (u64 \<times> u64)) wire_call \<Rightarrow> 'w cw \<Rightarrow> (client_error, max_safe) result \<times> 'w cw" where
  "client_get_current_max_safe env call st =
     control_plane_rpc env call (\<lambda>(ms, epoch).
       Inr (unproven \<lparr>ms_max_safe_physical_ms = ms, ms_epoch = epoch_of_wire epoch\<rparr>)) st"

definition lease_of_reply :: "u64 \<times> u64 \<times> u64 \<times> (u64 \<times> u64) option \<Rightarrow> (client_error, client_lease control_plane_reply) result" where
  "lease_of_reply reply =
     (case reply of (i, bound, expires, epoch_wire) \<Rightarrow>
        and_then (required_epoch epoch_wire) (\<lambda>epoch.
          Inr (from_leader \<lparr>cl_lease_id = i, cl_ts_upper_bound = bound, cl_expires_at_ms = expires, cl_epoch = epoch\<rparr> epoch)))"

definition client_acquire_lease ::
  "'w client_env \<Rightarrow> (bytes \<times> u64 \<times> u64 \<Rightarrow> ('w, u64 \<times> u64 \<times> u64 \<times> (u64 \<times> u64) option) wire_call)
     \<Rightarrow> bytes \<Rightarrow> u64 \<Rightarrow> duration \<Rightarrow> 'w cw \<Rightarrow> (client_error, client_lease) result \<times> 'w cw" where
  "client_acquire_lease env call h h_epoch ttl st =
     control_plane_rpc env (call (h, h_epoch, saturating_millis ttl)) lease_of_reply st"

definition renewal_of_reply :: "u64 \<times> u64 \<times> (u64 \<times> u64) option \<Rightarrow> (client_error, lease_renewal control_plane_reply) result" where
  "renewal_of_reply reply =
     (case reply of (bound, expires, epoch_wire) \<Rightarrow>
        and_then (required_epoch epoch_wire) (\<lambda>epoch.
          Inr (from_leader \<lparr>lr_ts_upper_bound = bound, lr_expires_at_ms = expires, lr_epoch = epoch\<rparr> epoch)))"

definition client_renew_lease ::
  "'w client_env \<Rightarrow> (u64 \<Rightarrow> ('w, u64 \<times> u64 \<times> (u64 \<times> u64) option) wire_call) \<Rightarrow> u64 \<Rightarrow> 'w cw
     \<Rightarrow> (client_error, lease_renewal) result \<times> 'w cw" where
  "client_renew_lease env call i st = control_plane_rpc env (call i) renewal_of_reply st"

definition client_release_lease ::
  "'w client_env \<Rightarrow> (u64 \<Rightarrow> ('w, unit) wire_call) \<Rightarrow> u64 \<Rightarrow> 'w cw \<Rightarrow> (client_error, unit) result \<times> 'w cw" where
  "client_release_lease env call i st = control_plane_rpc env (call i) (\<lambda>_. Inr (unproven ())) st"

definition client_get_safe_frontier ::
  "'w client_env \<Rightarrow> ('w, u64 \<times> (u64 \<times> u64)) wire_call \<Rightarrow> 'w cw \<Rightarrow> (client_error, safe_frontier) result \<times> 'w cw" where
  "client_get_safe_frontier env call st =
     control_plane_rpc env call (\<lambda>(ms, epoch).
       Inr (unproven \<lparr>sf_frontier_physical_ms = ms, sf_epoch = epoch_of_wire epoch\<rparr>)) st"

text \<open>The supervisor of the driver task only reports how it ended.\<close>

datatype driver_end = DriverReturned | DriverPanicked | DriverCancelled

definition observe_driver_handle :: "driver_end \<Rightarrow> string option" where
  "observe_driver_handle e =
     (case e of
        DriverReturned \<Rightarrow> None
      | DriverPanicked \<Rightarrow> Some ''tsoracle client driver task panicked''
      | DriverCancelled \<Rightarrow> Some ''tsoracle client driver task terminated abnormally'')"

section \<open>Lemmas\<close>

lemma normalize_twice: "normalize_uri (normalize_uri endpoint tls) tls' = normalize_uri endpoint tls"
  by (simp add: normalize_uri_def HTTP_SCHEME_def HTTPS_SCHEME_def)

lemma normalize_has_scheme:
  "take 7 (normalize_uri endpoint tls) = HTTP_SCHEME \<or> take 8 (normalize_uri endpoint tls) = HTTPS_SCHEME"
  by (simp add: normalize_uri_def HTTP_SCHEME_def HTTPS_SCHEME_def)

text \<open>What the parser is relied on for: a URI that starts with \<open>https://\<close> has that scheme.\<close>

definition parses_https :: "transport_api \<Rightarrow> bool" where
  "parses_https api \<longleftrightarrow>
     (\<forall>uri scheme. take 8 uri = HTTPS_SCHEME \<longrightarrow> tr_parse api uri = Some scheme \<longrightarrow> scheme = Some [104, 116, 116, 112, 115])"

lemma tls_connector_config:
  assumes "tls_connector api policy endpoint = Inr ep"
  shows "ep_uri ep = normalize_uri endpoint True" "ep_connect_timeout ep = Some (rp_per_attempt_deadline policy)"
    "ep_timeout ep = Some (rp_per_attempt_deadline policy)"
  using assms by (auto simp: tls_connector_def tr_dial_def apply_endpoint_config_def endpoint_from_def Let_def
      and_then_Inr_iff split: option.splits if_splits)

lemma default_connector_config:
  assumes "default_connector api policy endpoint = Inr ep"
  shows "ep_uri ep = normalize_uri endpoint False" "ep_connect_timeout ep = Some (rp_per_attempt_deadline policy)"
    "ep_timeout ep = Some (rp_per_attempt_deadline policy)"
  using assms by (auto simp: default_connector_def tr_dial_def apply_endpoint_config_def endpoint_from_def Let_def
      split: option.splits if_splits)

lemma tls_connector_encrypts:
  assumes "parses_https api" "tls_connector api policy endpoint = Inr ep" "take 7 endpoint \<noteq> HTTP_SCHEME"
  shows "ep_tls ep"
proof -
  have "take 8 (normalize_uri endpoint True) = HTTPS_SCHEME"
    using assms(3) by (auto simp: normalize_uri_def HTTPS_SCHEME_def)
  with assms(1,2) show ?thesis
    by (auto simp: tls_connector_def parses_https_def tr_dial_def apply_endpoint_config_def Let_def and_then_Inr_iff
        split: option.splits if_splits)
qed

text \<open>A hint that passes the filter of a pool that requires TLS is dialled with TLS; only an
  endpoint the operator wrote as plaintext is not.\<close>

lemma hint_not_downgraded:
  assumes "parses_https api" "cp_tls_required p" "\<not> rejects_plaintext_hint p hint"
    and "tls_connector api policy hint = Inr ep"
  shows "ep_tls ep"
  using tls_connector_encrypts [OF assms(1,4)] assms(2,3) by (simp add: rejects_plaintext_hint_def)

lemma plaintext_only_by_operator:
  assumes "parses_https api" "tls_connector api policy endpoint = Inr ep" "\<not> ep_tls ep"
  shows "take 7 endpoint = HTTP_SCHEME"
  using tls_connector_encrypts [OF assms(1,2)] assms(3) by blast


text \<open>TLS is required exactly while the built-in TLS connector is the one in place.\<close>

definition tls_consistent :: "client_builder \<Rightarrow> bool" where
  "tls_consistent b \<longleftrightarrow> (cb_tls_required b \<longleftrightarrow> (\<exists>policy. cb_connector b = Some (ConnTls policy)))"

lemma tls_consistent_calls: "tls_consistent b \<Longrightarrow> tls_consistent (foldl builder_apply b calls)"
proof (induction calls arbitrary: b)
  case (Cons call calls)
  then have "tls_consistent (builder_apply b call)" by (cases call) (auto simp: tls_consistent_def)
  with Cons.IH show ?case by simp
qed simp

text \<open>
  However a client was built: if it requires TLS, a hint it follows is dialled with TLS.
\<close>

lemma built_client_never_downgraded:
  assumes "client_build seed (foldl builder_apply (builder_endpoints endpoints) calls) = Inr c"
    and "parses_https api" "cp_tls_required (bc_pool c)" "\<not> rejects_plaintext_hint (bc_pool c) hint"
    and "pool_dial api c hint = Inr d"
  shows "\<exists>ep. d = BuiltIn ep \<and> ep_tls ep"
proof -
  let ?b = "foldl builder_apply (builder_endpoints endpoints) calls"
  have c: "bc_connector c = cb_connector ?b" "cp_tls_required (bc_pool c) = cb_tls_required ?b"
    using assms(1) by (auto simp: client_build_def pool_new_def split: if_splits)
  have "tls_consistent ?b" by (rule tls_consistent_calls) (simp add: tls_consistent_def builder_endpoints_def)
  with c assms(3) obtain policy where p: "bc_connector c = Some (ConnTls policy)" by (auto simp: tls_consistent_def)
  with assms(5) obtain ep where "tls_connector api policy hint = Inr ep" "d = BuiltIn ep"
    by (auto simp: pool_dial_def and_then_Inr_iff)
  with hint_not_downgraded [OF assms(2,3,4)] show ?thesis by blast
qed

text \<open>
  The TLS connector takes the policy at the time it is set: a policy set afterwards bounds
  the retry loop and not the dial.
\<close>

lemma policy_after_tls_not_dialled:
  assumes "client_build seed (foldl builder_apply (builder_endpoints endpoints) [TlsConfig, SetRetryPolicy policy]) = Inr c"
    and "pool_dial api c endpoint = Inr (BuiltIn ep)"
  shows "cp_policy (bc_pool c) = policy \<and> ep_timeout ep = Some (rp_per_attempt_deadline policy_default)"
proof -
  have "bc_connector c = Some (ConnTls policy_default)" "cp_policy (bc_pool c) = policy"
    using assms(1) by (auto simp: client_build_def builder_endpoints_def pool_new_def split: if_splits)
  with assms(2) tls_connector_config(3) show ?thesis by (auto simp: pool_dial_def and_then_Inr_iff)
qed

lemma policy_before_tls_dialled:
  assumes "client_build seed (foldl builder_apply (builder_endpoints endpoints) [SetRetryPolicy policy, TlsConfig]) = Inr c"
    and "pool_dial api c endpoint = Inr (BuiltIn ep)"
  shows "ep_timeout ep = Some (rp_per_attempt_deadline policy)"
proof -
  have "bc_connector c = Some (ConnTls policy)"
    using assms(1) by (auto simp: client_build_def builder_endpoints_def pool_new_def split: if_splits)
  with assms(2) tls_connector_config(3) show ?thesis by (auto simp: pool_dial_def and_then_Inr_iff)
qed

text \<open>A lease or a renewal without an epoch is an error, with one it proves leadership.\<close>

lemma lease_reply_proves_leader:
  "lease_of_reply (i, bound, expires, epoch_wire) = Inr (l, proof_epoch) \<Longrightarrow> proof_epoch = Some (cl_epoch l)"
  by (auto simp: lease_of_reply_def from_leader_def and_then_Inr_iff)

end
