(* ===== verification/Spec2Isabelle.thy ===== *)
theory Spec2Isabelle
  imports Cluster_Order Interleaving Raft_Replication Postcard Client_Loopback Client_Coalescing Paxos_Runner Paxos_Durability Log_Durability Peer_Network File_Export Admin_Cluster Process Client_Transport
begin

text \<open>
  A verification of tsoracle, a timestamp oracle (\<open>src/crates\<close>).

  \<^bold>\<open>The program.\<close> Clients ask a server for blocks of timestamps that never repeat and only
  grow, for contiguous blocks of dense sequence numbers, and for leases. One server leads at a
  time. It hands out timestamps from a window whose upper bound a consensus driver has made
  durable; a new leader starts above everything its predecessor may have handed out. Drivers
  exist for a single node (files), for openraft and for OmniPaxos.

  \<^bold>\<open>Theories, from the bottom up.\<close>
  \<^item> \<open>Prelude\<close>: results, Rust's checked, saturating and wrapping arithmetic on words, ordered
    maps; \<open>Issuer\<close>: a machine that emits increasing intervals, as an interface.
  \<^item> \<open>tsoracle-core\<close>: \<open>Timestamp\<close> (\<open>timestamp.rs\<close>, \<open>epoch.rs\<close>), \<open>Allocator\<close> (\<open>allocator.rs\<close>),
    \<open>Seq\<close> (\<open>seq.rs\<close>), \<open>Lease\<close> (\<open>lease.rs\<close>), \<open>Peer\<close> (\<open>peer.rs\<close>).
  \<^item> \<open>tsoracle-consensus\<close>: \<open>Consensus\<close>, the driver trait as a record of operations and its
    contracts as locales (a high-water register, dense counters, a lease store).
  \<^item> \<open>tsoracle-driver-file\<close>: \<open>Records\<close> (the on-disk formats), \<open>File_Driver\<close> (directory, atomic
    replacement, faults, crashes), with \<open>Dense_Map\<close> for the counter map that both drivers keep,
    and \<open>File_Export\<close> (\<open>export.rs\<close>, the receipt of a stopped directory).
  \<^item> \<open>tsoracle-server\<close>: \<open>Serving\<close> (\<open>serving_core.rs\<close>, \<open>server.rs\<close>, \<open>persist_disposition.rs\<close>),
    \<open>Service\<close> (\<open>service.rs\<close>), \<open>Lease_Flow\<close> (\<open>lease_flow.rs\<close>), \<open>Fence\<close> (\<open>fence.rs\<close>).
  \<^item> Deployment on one node: \<open>Single_Node\<close> (server and file driver through power failures) and
    \<open>Interleaving\<close> (requests and fences interleaved at their awaits).
  \<^item> \<open>Server_Lifecycle\<close>: the tasks of a server and how they are stopped (\<open>server.rs\<close>), the heartbeat
    and its counters (\<open>heartbeat.rs\<close>, \<open>reporter.rs\<close>).
  \<^item> \<open>tsoracle-driver-openraft\<close> with its toolkit and \<open>tsoracle-codec\<close>: \<open>Codec\<close>, \<open>Postcard\<close>,
    \<open>Raft_Log\<close> (\<open>log_entry.rs\<close>, \<open>log_codec.rs\<close>, \<open>type_config.rs\<close>), \<open>Raft_State_Machine\<close> and
    \<open>Raft_Snapshots\<close> (\<open>state_machine.rs\<close>, \<open>snapshot_store.rs\<close>), \<open>Raft_Driver\<close> (\<open>driver.rs\<close>,
    \<open>host.rs\<close>, \<open>standalone.rs\<close>, \<open>capabilities.rs\<close>), \<open>Raft_Replicas\<close> (the replicas of a group over
    their committed log, with their snapshots, failed saves and restarts) and \<open>Raft_Replication\<close>
    (their properties).
  \<^item> Deployment as a cluster: \<open>Committed_Log\<close> (what the driver relies on from openraft),
    \<open>Cluster\<close> (several servers over one committed log) and \<open>Cluster_Order\<close>.
  \<^item> \<open>tsoracle-driver-paxos\<close> with the lifecycle of its toolkit: \<open>Paxos_Log\<close> (\<open>type_config.rs\<close>,
    \<open>log_entry.rs\<close>, \<open>snapshot_policy.rs\<close>, \<open>state_machine.rs\<close>), \<open>Paxos_Host\<close> (\<open>apply.rs\<close>,
    \<open>standalone.rs\<close>, \<open>driver.rs\<close>, \<open>lifecycle/\<close>), \<open>Paxos_Cluster\<close> (several hosts over one chosen
    log), \<open>Paxos_Driver\<close> (the driver under the server) and \<open>Paxos_Runner\<close> (the tick loop with its
    outbound queue and event channel).
  \<^item> Storage under the two replicated drivers: \<open>Rocks\<close> (RocksDB as both use it), \<open>Log_Store\<close>
    (\<open>openraft-toolkit/log_store\<close>, \<open>codec_provider.rs\<close>) and \<open>Paxos_Storage\<close>
    (\<open>paxos-toolkit/storage\<close>), with \<open>Log_Durability\<close> and \<open>Paxos_Durability\<close> for what they keep.
  \<^item> \<open>Peer_Network\<close>: the transport between openraft nodes
    (\<open>tsoracle-standalone/src/drivers/openraft/network.rs\<close>).
  \<^item> The rest of \<open>tsoracle-standalone\<close>: \<open>Admin\<close> (\<open>admin/\<close>, the toolkit's membership helpers, the
    handoff of leadership), \<open>Admin_Membership\<close> (what the operations achieve) and \<open>Standalone\<close>
    (configuration, guards, assembly of the openraft, paxos and file nodes, the transport of
    the paxos node, the supervision of transports).
  \<^item> \<open>tsoracle-bin\<close>: \<open>Cli\<close> (\<open>main.rs\<close>), \<open>Admin_Cluster\<close> (commands against a cluster, and the end of
    a serving process) and \<open>Process\<close> (\<open>cli.rs\<close>, from the flags to the server's tasks).
  \<^item> \<open>tsoracle-client\<close>: \<open>Client_Driver\<close> (\<open>error.rs\<close>, \<open>response.rs\<close>, \<open>driver.rs\<close>),
    \<open>Client_Coalescing\<close> (its properties), \<open>Client_Pool\<close> (\<open>retry_policy.rs\<close>, \<open>budget.rs\<close>,
    \<open>worklist.rs\<close>, \<open>channel_pool.rs\<close>), \<open>Client_Retry\<close> (\<open>attempt.rs\<close>, \<open>seq_attempt.rs\<close>,
    \<open>leader_hint.rs\<close>, \<open>retry.rs\<close>, \<open>lib.rs\<close>), \<open>Client_Calls\<close> (what a call guarantees on any
    network), \<open>Client_Transport\<close> (\<open>transport.rs\<close>) and \<open>Client_Loopback\<close> (the client against the
    single node).

  \<^bold>\<open>How the code is rendered.\<close> A struct is a record, an enum a datatype, an integer a word of
  its width; durations and instants are natural numbers of nanoseconds. A fallible function
  returns a sum with the error on the left; a function that can panic returns an option. A
  handler is a function from the server's state to an answer and a new state; where the code
  holds a lock only between awaits, the critical sections are definitions of their own, and
  \<open>Interleaving\<close>, \<open>Cluster\<close>, \<open>Client_Driver\<close> and \<open>Server_Lifecycle\<close> order them freely as step
  relations. The clock,
  the outcome of each file operation, the network and the random source are explicit inputs.

  \<^bold>\<open>What is shown.\<close>
  \<^item> Timestamps: blocks are strictly increasing over every history of a node with crashes, of
    interleaved requests, and of a cluster under the stated assumption on elections; without
    that assumption a counterexample run is given. A client on one node sees strictly
    increasing timestamps over all its calls and retries, and its calls return.
  \<^item> Dense sequences: blocks are contiguous, disjoint and durable, alone and in batches, on the
    file driver and in the replicated state machine; a client's call takes its block once.
  \<^item> Leases: fencing by holder epoch, durability on the media and through a power failure,
    recovery of the running leases on start.
  \<^item> Replication: in every run of a group's replicas a replica's state is the replay of a prefix
    of the log, and a snapshot stands for the prefix it covers; the published snapshot never
    moves back and the durable one is never behind it (it may step back from a newer one that
    was never published, by a run); replay has a closed form.
  \<^item> OmniPaxos: reads and advances are linearizable as long as a restarted node's barrier counter
    covers what it has sent; runs are given in which it does not, in which a deposed leader
    passes the fence with commands that the cluster's log really holds, and in which a
    re-elected leader goes unnoticed.
  \<^item> Storage: the log store and the OmniPaxos storage refine a plain log with its fields, through
    crashes (only writes that are not synced may be missing, newest first) and, for OmniPaxos,
    failed operations; groups in one database are isolated; a restart never writes an older
    format than the log holds.
  \<^item> Transport: a snapshot arrives as it was sent or is refused at the receiver's limit, the
    receiver accepts exactly the well-formed streams, and Raft's calls are carried unchanged.
  \<^item> Membership: an admin command that prints ok made the specified change at one node, the one
    dialled or the leader in that node's own view; what a node that does not lead answers; what an activation has
    established; a removed learner stays a member.
  \<^item> Nodes and processes: a node never comes up with plaintext on a routable address, nor with
    one CA file or a copy of it for peers and operators; after a restart both stores write one
    readable format; how a process ends when its transports do.
  \<^item> Shutdown: a shutdown joins the watch task and leaves the serving gate closed under every
    interleaving, and never waits for the driver; an abort may leave the gate open, by a run.
  \<^item> Export: a receipt certifies exactly the state the file driver would load.
  \<^item> Formats: every on-disk and replicated format round-trips and has one encoding per value.
  \<^item> Client: coalescing neither loses nor repeats a timestamp and never serves an old one;
    channels and callers inside the client are bounded; the leader cache follows the newest
    epoch; the retry loops end; a leader hint cannot take a client with TLS to plaintext.

  \<^bold>\<open>Granularity.\<close> \<open>Interleaving\<close> and \<open>Cluster\<close> interleave at awaits: a fence attempt and a
  step-down are one step each there, though the code takes the locks of the allocator, the
  sequence gate, the lease table and the watch channel one after the other; \<open>Server_Lifecycle\<close>
  splits them for the shutdown. A barrier of the OmniPaxos host is minted and appended in one
  step. The histories of the file driver and of the single node run every call to its end and
  crash by power failure, after which what survived counts as synced; a dropped future and a
  process exit that leaves unsynced entries are shown apart, in \<open>File_Driver\<close>, with what they
  lose. A node reads each configured file at one state of the file system.

  \<^bold>\<open>Interfaces.\<close> The contracts between the components are locales, each interpreted on the
  model's own definitions: the driver contracts of \<open>Consensus\<close> on the file driver and on the
  openraft state machine, \<open>issuer\<close> on the allocator, the node and the interleaved server,
  \<open>committed_log\<close> on a replicated log, \<open>omnipaxos_log\<close> on a node's view of a chosen log,
  \<open>index_keys\<close> on the log keys of both stores, \<open>rocksdb_store\<close> on a database in memory, \<open>peer_link\<close> on the service's own handlers,
  \<open>membership_raft\<close> on membership changes in a committed log, and the
  client's timing and link laws of \<open>Client_Calls\<close> on the network of \<open>Client_Loopback\<close>.

  \<^bold>\<open>Loops and bounds.\<close> A pass of the client's retry loop is a function whose termination is
  proved by the worklist and the redirect budget; the passes themselves are a partial function,
  and \<open>retry_loop_returns\<close> shows that it has a value. The fence's retry loop consumes its list
  of events. No fuel is used anywhere else.

  \<^bold>\<open>Parameters.\<close> The CRC of the file formats (a function on bytes), postcard (a pair of functions
  with a round trip, which \<open>Postcard\<close> shows can hold), openraft (the committed log and its
  leadership), OmniPaxos (a record of the calls the driver makes, with the laws of
  \<open>omnipaxos_log\<close>), RocksDB (a record of the calls the stores make, with the laws of
  \<open>rocksdb_store\<close>), openraft's membership calls (a record, with the laws of \<open>membership_raft\<close>),
  tonic and tokio (the client environment, \<open>peer_wire\<close> and \<open>transport_api\<close>), and the file
  system, certificate parser and sockets a node is built on (\<open>node_env\<close>). The runtime of tokio
  is rendered by where it may stop a task: at an await of the task.

  \<^bold>\<open>Not modelled.\<close> The parsing of arguments, the gRPC server and the metrics exporter,
  which are input and output around the modelled calls; generated protocol
  code; metrics, logging and the increments of counters inside the handlers; benchmarks, test
  harnesses and test instrumentation.
\<close>

end
